(* ===== verification/Prelude.thy ===== *)
theory Prelude
  imports Main "HOL-Library.Word"
begin

text \<open>
  Shared vocabulary of the development.

  \<^item> Machine integers. The seed arithmetic of \<^verbatim>\<open>rng.rs\<close> is modular, so it is done on
    \<^typ>\<open>64 word\<close>. Counters, sizes and timestamps never wrap in the sources (they use
    \<^verbatim>\<open>saturating_*\<close>, \<^verbatim>\<open>checked_*\<close> or \<^verbatim>\<open>min\<close>), so they are natural numbers with
    the saturation written out by the operations below. \<^verbatim>\<open>usize\<close> is 64 bits wide.
  \<^item> Time. \<^verbatim>\<open>tokio::time::Instant\<close> and \<^verbatim>\<open>std::time::Duration\<close> are nanosecond
    counts. \<open>instant_checked_add\<close> is \<^verbatim>\<open>Instant::checked_add\<close>, whose range on the
    supported platforms is a signed 64-bit number of seconds.
  \<^item> Effects. \<^verbatim>\<open>std::task::Poll\<close> is the datatype \<open>poll\<close>; a fallible I/O call returns
    a sum with the error on the left.
\<close>

named_theorems engine_simps \<open>unfolding rules for the fields an engine step leaves alone\<close>
named_theorems sat_simps \<open>facts about saturating arithmetic\<close>

type_synonym u64 = "64 word"
type_synonym byte = "8 word"
type_synonym instant = nat
type_synonym duration = nat

datatype 'a poll = Ready 'a | Pending

primrec is_pending :: "'a poll \<Rightarrow> bool" where
  "is_pending (Ready x) = False"
| "is_pending Pending = True"

section \<open>Saturating and checked arithmetic\<close>

definition U64_MAX :: nat where
  "U64_MAX = 2 ^ 64 - 1"

definition U128_MAX :: nat where
  "U128_MAX = 2 ^ 128 - 1"

definition sat_add64 :: "nat \<Rightarrow> nat \<Rightarrow> nat" where
  "sat_add64 a b = min (a + b) U64_MAX"

definition sat_mul64 :: "nat \<Rightarrow> nat \<Rightarrow> nat" where
  "sat_mul64 a b = min (a * b) U64_MAX"

definition sat_add128 :: "nat \<Rightarrow> nat \<Rightarrow> nat" where
  "sat_add128 a b = min (a + b) U128_MAX"

definition sat_mul128 :: "nat \<Rightarrow> nat \<Rightarrow> nat" where
  "sat_mul128 a b = min (a * b) U128_MAX"

definition checked_add64 :: "nat \<Rightarrow> nat \<Rightarrow> nat option" where
  "checked_add64 a b = (if a + b \<le> U64_MAX then Some (a + b) else None)"

definition checked_mul64 :: "nat \<Rightarrow> nat \<Rightarrow> nat option" where
  "checked_mul64 a b = (if a * b \<le> U64_MAX then Some (a * b) else None)"

section \<open>Clock values\<close>

definition NANOS_PER_SEC :: nat where
  "NANOS_PER_SEC = 1000000000"

definition INSTANT_MAX :: instant where
  "INSTANT_MAX = 2 ^ 63 * NANOS_PER_SEC - 1"

definition DURATION_MAX :: duration where
  "DURATION_MAX = 2 ^ 64 * NANOS_PER_SEC - 1"

definition instant_checked_add :: "instant \<Rightarrow> duration \<Rightarrow> instant option" where
  "instant_checked_add t d = (if t + d \<le> INSTANT_MAX then Some (t + d) else None)"

definition duration_saturating_add :: "duration \<Rightarrow> duration \<Rightarrow> duration" where
  "duration_saturating_add a b = min (a + b) DURATION_MAX"

text \<open>\<^verbatim>\<open>t.checked_add(d).unwrap_or(t + fallback)\<close>, the deadline idiom of the engines.\<close>

definition deadline_after :: "instant \<Rightarrow> duration \<Rightarrow> duration \<Rightarrow> instant" where
  "deadline_after t d fallback =
     (case instant_checked_add t d of Some t' \<Rightarrow> t' | None \<Rightarrow> t + fallback)"

section \<open>Lemmas\<close>

lemma sat_add64_le [sat_simps, simp]: "sat_add64 a b \<le> U64_MAX"
  by (simp add: sat_add64_def)

lemma sat_add64_exact [sat_simps]: "a + b \<le> U64_MAX \<Longrightarrow> sat_add64 a b = a + b"
  by (simp add: sat_add64_def)

lemma sat_add64_mono: "a \<le> U64_MAX \<Longrightarrow> a \<le> sat_add64 a b"
  by (simp add: sat_add64_def)

lemma sat_add64_0 [simp]: "a \<le> U64_MAX \<Longrightarrow> sat_add64 a 0 = a"
  by (simp add: sat_add64_def)

lemma sat_add64_assoc: "sat_add64 (sat_add64 a b) c = sat_add64 a (b + c)"
  by (simp add: sat_add64_def min_def)

lemma sat_mul64_exact [sat_simps]: "a * b \<le> U64_MAX \<Longrightarrow> sat_mul64 a b = a * b"
  by (simp add: sat_mul64_def)

lemma sat_mul128_exact [sat_simps]: "a * b \<le> U128_MAX \<Longrightarrow> sat_mul128 a b = a * b"
  by (simp add: sat_mul128_def)

lemma sat_add128_exact [sat_simps]: "a + b \<le> U128_MAX \<Longrightarrow> sat_add128 a b = a + b"
  by (simp add: sat_add128_def)

lemma deadline_after_ge: "t \<le> deadline_after t d fb"
  by (simp add: deadline_after_def instant_checked_add_def)

lemma deadline_after_exact: "t + d \<le> INSTANT_MAX \<Longrightarrow> deadline_after t d fb = t + d"
  by (simp add: deadline_after_def instant_checked_add_def)

lemma unat_le_U64_MAX: "unat (x :: u64) \<le> U64_MAX"
proof -
  have "unat x < 2 ^ 64" using unsigned_less [of x, where ?'a = nat] by simp
  then show ?thesis by (simp add: U64_MAX_def)
qed

text \<open>Ceiling division, used by both token buckets: the least time in which a rate covers a deficit.\<close>

lemma ceil_div_least:
  fixes d r :: nat
  assumes "0 < r"
  shows "d \<le> (d + (r - 1)) div r * r" and "t < (d + (r - 1)) div r \<Longrightarrow> t * r < d"
proof -
  have "(d + (r - 1)) div r * r + (d + (r - 1)) mod r = d + (r - 1)" by simp
  moreover have "(d + (r - 1)) mod r < r" using assms by simp
  ultimately show "d \<le> (d + (r - 1)) div r * r" by linarith
  assume "t < (d + (r - 1)) div r"
  then have "(t + 1) * r \<le> (d + (r - 1)) div r * r" by (intro mult_right_mono) simp_all
  also have "\<dots> \<le> d + (r - 1)" by simp
  finally show "t * r < d" using assms by (simp add: algebra_simps)
qed

end
