(* ===== verification/F64.thy ===== *)
theory F64
  imports Prelude "HOL-Library.Log_Nat"
begin

text \<open>
  IEEE 754 binary64, as far as the sources use it: probabilities are \<^verbatim>\<open>f64\<close> values that are
  compared, added (the stream-loss correlation term), scaled by \<^verbatim>\<open>u64::MAX as f64\<close> and
  truncated to \<^verbatim>\<open>u64\<close> (the Bernoulli threshold).

  Every finite binary64 value is an integer multiple of \<open>2 ^ -1074\<close>, so a finite value is the
  integer that counts these units; both zeros are \<open>Fin 0\<close>, which no operation here tells
  apart. An operation computes the exact quotient of integers and rounds it once, to nearest
  with ties to even, to 53 significant bits.
\<close>

datatype f64 = NaN | Inf bool | Fin int

text \<open>\<open>Inf True\<close> is negative infinity.\<close>

definition F64_ONE :: int where
  "F64_ONE = 2 ^ 1074"

definition round_half_even :: "int \<Rightarrow> int \<Rightarrow> int" where
  "round_half_even p q =
     (let d = p div q; r = p mod q in
      if 2 * r < q then d
      else if 2 * r > q then d + 1
      else if even d then d else d + 1)"

text \<open>The binary64 value nearest to \<open>p / q\<close> units, for \<open>q > 0\<close>.\<close>

definition f64_of_ratio :: "int \<Rightarrow> int \<Rightarrow> f64" where
  "f64_of_ratio p q =
     (let s = nat (bitlen (\<bar>p\<bar> div q) - 53);
          m = round_half_even \<bar>p\<bar> (q * 2 ^ s) * 2 ^ s
      in if 2 ^ 2098 \<le> m then Inf (p < 0) else Fin (sgn p * m))"

definition f64_of_u64 :: "nat \<Rightarrow> f64" where
  "f64_of_u64 n = f64_of_ratio (int n * F64_ONE) 1"

fun f64_add :: "f64 \<Rightarrow> f64 \<Rightarrow> f64" where
  "f64_add (Fin a) (Fin b) = f64_of_ratio (a + b) 1"
| "f64_add (Inf s) (Fin b) = Inf s"
| "f64_add (Fin a) (Inf t) = Inf t"
| "f64_add (Inf s) (Inf t) = (if s = t then Inf s else NaN)"
| "f64_add NaN y = NaN"
| "f64_add x NaN = NaN"

fun f64_mul :: "f64 \<Rightarrow> f64 \<Rightarrow> f64" where
  "f64_mul (Fin a) (Fin b) = f64_of_ratio (a * b) F64_ONE"
| "f64_mul (Inf s) (Fin b) = (if b = 0 then NaN else Inf (s \<noteq> (b < 0)))"
| "f64_mul (Fin a) (Inf t) = (if a = 0 then NaN else Inf (t \<noteq> (a < 0)))"
| "f64_mul (Inf s) (Inf t) = Inf (s \<noteq> t)"
| "f64_mul NaN y = NaN"
| "f64_mul x NaN = NaN"

text \<open>Division by a positive finite value, the only division of the sources.\<close>

fun f64_div_pos :: "f64 \<Rightarrow> f64 \<Rightarrow> f64" where
  "f64_div_pos (Fin a) (Fin b) = f64_of_ratio (a * F64_ONE) b"
| "f64_div_pos (Inf s) (Fin b) = Inf s"
| "f64_div_pos (Fin a) (Inf t) = Fin 0"
| "f64_div_pos (Inf s) (Inf t) = NaN"
| "f64_div_pos NaN y = NaN"
| "f64_div_pos x NaN = NaN"

fun f64_le :: "f64 \<Rightarrow> f64 \<Rightarrow> bool" where
  "f64_le NaN y = False"
| "f64_le x NaN = False"
| "f64_le (Inf s) (Inf t) = (s \<or> \<not> t)"
| "f64_le (Inf s) (Fin b) = s"
| "f64_le (Fin a) (Inf t) = (\<not> t)"
| "f64_le (Fin a) (Fin b) = (a \<le> b)"

fun f64_is_finite :: "f64 \<Rightarrow> bool" where
  "f64_is_finite (Fin n) = True"
| "f64_is_finite _ = False"

fun f64_is_nan :: "f64 \<Rightarrow> bool" where
  "f64_is_nan NaN = True"
| "f64_is_nan _ = False"

text \<open>\<^verbatim>\<open>f64::min\<close>: a NaN argument is ignored.\<close>

definition f64_min :: "f64 \<Rightarrow> f64 \<Rightarrow> f64" where
  "f64_min x y = (if f64_is_nan x then y else if f64_is_nan y then x
                  else if f64_le x y then x else y)"

text \<open>The cast \<^verbatim>\<open>as u64\<close>: truncation towards zero, saturating, NaN to zero.\<close>

fun f64_to_u64 :: "f64 \<Rightarrow> nat" where
  "f64_to_u64 NaN = 0"
| "f64_to_u64 (Inf s) = (if s then 0 else U64_MAX)"
| "f64_to_u64 (Fin n) = min (nat (n div F64_ONE)) U64_MAX"

text \<open>\<open>Duration::from_secs_f64\<close> of a non-negative finite number of seconds, to nanoseconds.\<close>

fun duration_from_secs_f64 :: "f64 \<Rightarrow> duration" where
  "duration_from_secs_f64 (Fin n) = nat (round_half_even (n * int NANOS_PER_SEC) F64_ONE)"
| "duration_from_secs_f64 _ = 0"

text \<open>A unit count that is a binary64 value: rounding leaves it alone.\<close>

definition f64_wf :: "f64 \<Rightarrow> bool" where
  "f64_wf x = (case x of Fin n \<Rightarrow> f64_of_ratio n 1 = Fin n | _ \<Rightarrow> True)"

section \<open>Rounding is exact on representable values\<close>

lemma F64_ONE_pos [simp]: "0 < F64_ONE"
  by (simp add: F64_ONE_def)

lemma round_half_even_exact: "0 < q \<Longrightarrow> q dvd p \<Longrightarrow> round_half_even p q = p div q"
  by (simp add: round_half_even_def Let_def)

lemma round_half_even_nonneg: "0 \<le> p \<Longrightarrow> 0 < q \<Longrightarrow> 0 \<le> round_half_even p q"
  by (simp add: round_half_even_def Let_def pos_imp_zdiv_nonneg_iff)

lemma f64_wf_dvd:
  assumes "f64_wf (Fin n)" "0 \<le> n"
  shows "2 ^ nat (bitlen n - 53) dvd n"
proof (cases "n = 0")
  case False
  let ?s = "nat (bitlen n - 53)"
  from assms have "sgn n * (round_half_even n (2 ^ ?s) * 2 ^ ?s) = n"
    by (simp add: f64_wf_def f64_of_ratio_def Let_def split: if_splits)
  with False assms(2) have "round_half_even n (2 ^ ?s) * 2 ^ ?s = n" by simp
  then show ?thesis by (metis dvd_triv_right)
qed simp

lemma f64_of_ratio_exact:
  assumes n: "0 \<le> n" and q: "0 < q" and dvd: "2 ^ nat (bitlen n - 53) dvd n"
    and small: "n < 2 ^ 2098"
  shows "f64_of_ratio (n * q) q = Fin n"
proof -
  let ?s = "nat (bitlen n - 53)"
  have "q * 2 ^ ?s dvd n * q"
    using dvd by (simp add: mult.commute mult_dvd_mono)
  then have "round_half_even (n * q) (q * 2 ^ ?s) = (n * q) div (q * 2 ^ ?s)"
    using q by (intro round_half_even_exact) auto
  also have "\<dots> = n div 2 ^ ?s"
    using q by (simp add: mult.commute)
  finally have "round_half_even (n * q) (q * 2 ^ ?s) * 2 ^ ?s = n"
    using dvd by simp
  with n q small show ?thesis
    by (simp add: f64_of_ratio_def Let_def abs_mult sgn_if)
qed

lemma bitlen_eqI: "2 ^ k \<le> n \<Longrightarrow> n < 2 ^ Suc k \<Longrightarrow> bitlen n = int (Suc k)"
  by (intro antisym) (simp_all add: bitlen_le_iff_power bitlen_ge_iff_power nat_add_distrib)

lemma bitlen_shift: "0 < n \<Longrightarrow> bitlen (n * 2 ^ k) = bitlen n + int k"
proof -
  assume n: "0 < n"
  have "0 < bitlen n"
    using n bitlen_nonneg [of n] bitlen_eq_zero_iff [of n] by linarith
  then obtain m where m: "bitlen n = int (Suc m)"
    by (metis gr0_conv_Suc zero_less_imp_eq_int)
  have "2 ^ m \<le> n" "n < 2 ^ Suc m"
    using bitlen_bounds [OF n] m by (auto simp: nat_add_distrib)
  then have "2 ^ (m + k) \<le> n * 2 ^ k" "n * 2 ^ k < 2 ^ Suc (m + k)"
    by (simp_all add: power_add mult_strict_right_mono)
  then show ?thesis
    using bitlen_eqI [of "m + k" "n * 2 ^ k"] m by simp
qed

lemma u64_max_as_f64: "f64_of_u64 U64_MAX = Fin (2 ^ 64 * F64_ONE)"
proof -
  have "bitlen ((2 ^ 64 - 1) * F64_ONE) = bitlen (2 ^ 64 - 1) + int 1074"
    unfolding F64_ONE_def by (rule bitlen_shift) simp
  also have "bitlen (2 ^ 64 - 1 :: int) = int (Suc 63)"
    by (rule bitlen_eqI) simp_all
  finally have bl: "bitlen ((2 ^ 64 - 1) * F64_ONE) = 1138" by simp
  have "round_half_even ((2 ^ 64 - 1) * F64_ONE) (2 ^ 1085) = 2 ^ 53"
    by (simp add: round_half_even_def F64_ONE_def)
  with bl show ?thesis
    by (simp add: f64_of_u64_def f64_of_ratio_def U64_MAX_def Let_def abs_mult F64_ONE_def)
qed

text \<open>
  The Bernoulli threshold. Scaling a probability strictly between zero and one by
  \<open>2 ^ 64\<close> is exact, so the threshold is the exact integer part of \<open>p * 2 ^ 64\<close>.
\<close>

lemma f64_scale_exact:
  assumes wf: "f64_wf (Fin p)" and p: "0 < p" "p < F64_ONE"
  shows "f64_mul (Fin p) (f64_of_u64 U64_MAX) = Fin (p * 2 ^ 64)"
proof -
  let ?b = "nat (bitlen p - 53)"
  have "2 ^ ?b dvd p" using f64_wf_dvd [OF wf] p by simp
  moreover have "bitlen (p * 2 ^ 64) = bitlen p + 64"
    using bitlen_shift [OF p(1), of 64] by simp
  moreover have "nat (bitlen p + 64 - 53) \<le> ?b + 64" by simp
  ultimately have "2 ^ nat (bitlen (p * 2 ^ 64) - 53) dvd p * 2 ^ 64"
    using dvd_trans [OF le_imp_power_dvd [of "nat (bitlen p + 64 - 53)" "?b + 64" "2 :: int"]]
    by (simp add: power_add mult_dvd_mono)
  moreover have "p * 2 ^ 64 < 2 ^ 2098"
    using p by (simp add: F64_ONE_def)
  ultimately have "f64_of_ratio (p * 2 ^ 64 * F64_ONE) F64_ONE = Fin (p * 2 ^ 64)"
    using p by (intro f64_of_ratio_exact) auto
  then show ?thesis
    by (simp add: u64_max_as_f64 ac_simps)
qed

lemma int_div_less_self_mult: "0 < q \<Longrightarrow> a < c * q \<Longrightarrow> a div q < (c :: int)"
  by (metis div_mult_mod_eq linorder_not_less mult.commute mult_le_cancel_left_pos
      order_le_less_trans pos_mod_sign le_add_same_cancel1)

lemma f64_threshold:
  assumes wf: "f64_wf (Fin p)" and p: "0 < p" "p < F64_ONE"
  shows "f64_to_u64 (f64_mul (Fin p) (f64_of_u64 U64_MAX)) = nat (p * 2 ^ 64 div F64_ONE)"
proof -
  have "p * 2 ^ 64 div F64_ONE < 2 ^ 64"
    using p by (intro int_div_less_self_mult) simp_all
  then show ?thesis
    using f64_scale_exact [OF assms] by (simp add: U64_MAX_def min_def)
qed

section \<open>Two values used in examples\<close>

definition F64_HALF :: int where
  "F64_HALF = 2 ^ 1073"

lemma f64_wf_pow2:
  assumes "n \<le> 2000"
  shows "f64_wf (Fin (2 ^ n))"
proof -
  have "bitlen (2 ^ n :: int) = int (Suc n)" by (rule bitlen_eqI) simp_all
  moreover have "(2 :: int) ^ n < 2 ^ 2098" using assms by (intro power_strict_increasing) simp_all
  ultimately have "f64_of_ratio (2 ^ n * 1) 1 = Fin (2 ^ n)"
    by (intro f64_of_ratio_exact) (simp_all add: le_imp_power_dvd)
  then show ?thesis by (simp add: f64_wf_def)
qed

lemma f64_wf_half: "f64_wf (Fin F64_HALF)"
  unfolding F64_HALF_def by (rule f64_wf_pow2) simp

lemma f64_wf_one: "f64_wf (Fin F64_ONE)"
  unfolding F64_ONE_def by (rule f64_wf_pow2) simp

lemma f64_wf_zero: "f64_wf (Fin 0)"
  by (simp add: f64_wf_def f64_of_ratio_def round_half_even_def Let_def)

lemma F64_ONE_half: "F64_ONE = F64_HALF * 2"
  unfolding F64_ONE_def F64_HALF_def using power_Suc2 [of "2 :: int" 1073] by simp

lemma F64_HALF_pos [simp]: "0 < F64_HALF"
  by (simp add: F64_HALF_def)

lemma F64_HALF_less [simp]: "F64_HALF < F64_ONE"
  by (simp add: F64_ONE_half)

lemma F64_ONE_not_le_HALF [simp]: "\<not> F64_ONE \<le> F64_HALF"
  by (simp add: not_le)

lemma half_threshold: "F64_HALF * 18446744073709551616 div F64_ONE = 9223372036854775808"
proof -
  have "F64_HALF * 18446744073709551616 = F64_ONE * 9223372036854775808"
    by (simp add: F64_ONE_half)
  then show ?thesis by (simp only: nonzero_mult_div_cancel_left [OF less_imp_neq [OF F64_ONE_pos, symmetric]])
qed

end
