(* ===== verification/Rng.thy ===== *)
theory Rng
  imports F64
begin

text \<open>
  The deterministic generator and the seed derivations of
  \<^verbatim>\<open>crates/eggchaos-core/src/rng.rs\<close>: \<open>splitmix\<close>, the four derivations of the stream
  side, and the SplitMix64 generator \<open>deterministic_rng\<close> with its bounded and Bernoulli draws.
  Rust's \<^verbatim>\<open>Wrapping\<close> and \<^verbatim>\<open>wrapping_*\<close> are the arithmetic of \<^typ>\<open>u64\<close>. A plain
  \<^verbatim>\<open>+\<close> inside a \<^verbatim>\<open>Wrapping(..)\<close> wraps in a build without overflow checks and panics in
  one with them: the derivations below wrap, and \<open>checked_plus\<close> with the
  \<open>derive_*_checked\<close> functions says when the checked build returns.

  The lemmas show that the mixing steps are bijections, so every identity component of a
  derivation separates the streams, that a stream repeats no value within its period, and that a
  Bernoulli draw fires exactly below the exact threshold.
\<close>

unbundle bit_operations_syntax

datatype direction = Upstream | Downstream

fun direction_as_str :: "direction \<Rightarrow> string" where
  "direction_as_str Upstream = ''upstream''"
| "direction_as_str Downstream = ''downstream''"

datatype rng_version = V1

section \<open>Mixing\<close>

definition GOLDEN :: u64 where "GOLDEN = 0x9e3779b97f4a7c15"
definition MUL1 :: u64 where "MUL1 = 0xbf58476d1ce4e5b9"
definition MUL2 :: u64 where "MUL2 = 0x94d049bb133111eb"

text \<open>\<open>h ^= h >> k; h *= m\<close>, the step every derivation is made of.\<close>

definition mix :: "nat \<Rightarrow> u64 \<Rightarrow> u64 \<Rightarrow> u64" where
  "mix k m h = (h XOR drop_bit k h) * m"

definition splitmix :: "u64 \<Rightarrow> u64" where
  "splitmix value =
     (let value = value + GOLDEN;
          z = value;
          z = (z XOR drop_bit 30 z) * MUL1;
          z = (z XOR drop_bit 27 z) * MUL2
      in z XOR drop_bit 31 z)"

text \<open>\<open>for byte in s.as_bytes() { h += byte + 0x100; h ^= h >> 30; h *= MUL1 }\<close>\<close>

definition fold_bytes :: "string \<Rightarrow> u64 \<Rightarrow> u64" where
  "fold_bytes s h = foldl (\<lambda>h c. mix 30 MUL1 (h + (of_char c + 0x100))) h s"

section \<open>Seed derivation\<close>

fun direction_tag :: "direction \<Rightarrow> u64" where
  "direction_tag Upstream = 0x5550"
| "direction_tag Downstream = 0x444e"

definition derive_seed :: "u64 \<Rightarrow> string \<Rightarrow> u64 \<Rightarrow> direction \<Rightarrow> string \<Rightarrow> u64" where
  "derive_seed run_seed proxy connection_key direction fault =
     (let h = run_seed + GOLDEN;
          h = fold_bytes proxy h;
          h = mix 29 MUL1 (h + 0xff);
          h = mix 27 MUL2 (h + (word_rotl 19 (of_nat (length proxy)) + 0xa0));
          h = fold_bytes fault h;
          h = mix 27 MUL2 (h + (word_rotl 23 (of_nat (length fault)) + 0xb0));
          h = h + word_rotl 17 connection_key;
          h = h + direction_tag direction
      in splitmix h)"

definition derive_policy_seed :: "u64 \<Rightarrow> u64 \<Rightarrow> u64 \<Rightarrow> u64" where
  "derive_policy_seed scenario_seed run_id event_index =
     (let h = scenario_seed + GOLDEN;
          h = mix 29 MUL1 (h + (word_rotl 13 run_id + 0x100));
          h = mix 27 MUL2 (h + (word_rotl 31 event_index + 0x200))
      in splitmix (h XOR 0x51edee155eed5eed))"

text \<open>\<open>u64::from_le_bytes\<close> of a lane of at most eight bytes, padded with zero bytes.\<close>

fun from_le_bytes :: "byte list \<Rightarrow> u64" where
  "from_le_bytes [] = 0"
| "from_le_bytes (b # bs) = ucast b + 256 * from_le_bytes bs"

text \<open>\<open>schedule_fingerprint.chunks(8)\<close>, for the 32 bytes of a digest.\<close>

fun chunks8 :: "byte list \<Rightarrow> byte list list" where
  "chunks8 [] = []"
| "chunks8 (b # bs) = take 8 (b # bs) # chunks8 (drop 8 (b # bs))"

definition derive_schedule_policy_seed :: "u64 \<Rightarrow> u64 \<Rightarrow> byte list \<Rightarrow> u64 \<Rightarrow> u64" where
  "derive_schedule_policy_seed scenario_seed execution_key schedule_fingerprint compiled_event_index =
     (let h = scenario_seed + GOLDEN;
          h = mix 29 MUL1 (h + (word_rotl 7 execution_key + 0x100));
          h = foldl (\<lambda>h chunk. mix 23 MUL2 (h + (word_rotl 11 (from_le_bytes chunk) + 0x300))) h
                (chunks8 schedule_fingerprint);
          h = mix 27 MUL2 (h + (word_rotl 23 compiled_event_index + 0x400))
      in splitmix (h XOR 0x547c0dec0dec0dec))"

definition derive_stream_loss_seed :: "u64 \<Rightarrow> string \<Rightarrow> u64 \<Rightarrow> direction \<Rightarrow> string \<Rightarrow> u64" where
  "derive_stream_loss_seed run_seed proxy connection_key direction fault =
     derive_seed run_seed proxy connection_key direction fault + 0x57524d5f4348554e"

text \<open>
  The additions written with a plain \<^verbatim>\<open>+\<close> on \<^verbatim>\<open>u64\<close> operands, as a build with overflow checks
  executes them: \<open>None\<close> is the panic.
\<close>

definition checked_plus :: "u64 \<Rightarrow> u64 \<Rightarrow> u64 option" where
  "checked_plus a b = (if unat a + unat b \<le> U64_MAX then Some (a + b) else None)"

definition derive_schedule_policy_seed_checked ::
    "u64 \<Rightarrow> u64 \<Rightarrow> byte list \<Rightarrow> u64 \<Rightarrow> u64 option" where
  "derive_schedule_policy_seed_checked scenario_seed execution_key schedule_fingerprint index =
     (if checked_plus (word_rotl 7 execution_key) 0x100 = None
         \<or> list_ex (\<lambda>chunk. checked_plus (word_rotl 11 (from_le_bytes chunk)) 0x300 = None)
              (chunks8 schedule_fingerprint)
         \<or> checked_plus (word_rotl 23 index) 0x400 = None
      then None
      else Some (derive_schedule_policy_seed scenario_seed execution_key schedule_fingerprint index))"

section \<open>The generator\<close>

record deterministic_rng =
  rng_state :: u64

definition rng_new :: "u64 \<Rightarrow> deterministic_rng" where
  "rng_new seed = \<lparr>rng_state = seed\<rparr>"

definition next_u64 :: "deterministic_rng \<Rightarrow> u64 \<times> deterministic_rng" where
  "next_u64 r = (let s = rng_state r + GOLDEN in (splitmix s, r\<lparr>rng_state := s\<rparr>))"

definition below :: "nat \<Rightarrow> deterministic_rng \<Rightarrow> nat \<times> deterministic_rng" where
  "below upper r =
     (if upper = 0 then (let (_, r') = next_u64 r in (0, r'))
      else (let (v, r') = next_u64 r in (unat v mod upper, r')))"

definition bernoulli :: "f64 \<Rightarrow> deterministic_rng \<Rightarrow> bool \<times> deterministic_rng" where
  "bernoulli probability r =
     (if f64_is_nan probability \<or> f64_le probability (Fin 0) then (False, r)
      else if f64_le (Fin F64_ONE) probability then (True, r)
      else let threshold = f64_to_u64 (f64_mul probability (f64_of_u64 U64_MAX));
               (v, r') = next_u64 r
           in (unat v < threshold, r'))"

section \<open>Mixing is injective\<close>

lemma xorshift_fixpoint:
  fixes z :: u64
  assumes "z = drop_bit k z" "0 < k"
  shows "z = 0"
proof -
  have eq: "unat z = unat z div 2 ^ k"
    using assms(1) by (metis unat_drop_bit_eq drop_bit_eq_div)
  have "\<not> 0 < unat z"
  proof
    assume pos: "0 < unat z"
    have "1 < (2 :: nat) ^ k" using assms(2) by (rule one_less_power [rotated]) simp
    then have "unat z div 2 ^ k < unat z" using pos by simp
    with eq show False by simp
  qed
  then show ?thesis by (simp add: unat_eq_zero)
qed


lemma xorshift_eq_iff:
  fixes x y :: u64
  assumes "0 < k"
  shows "x XOR drop_bit k x = y XOR drop_bit k y \<longleftrightarrow> x = y"
proof
  assume "x XOR drop_bit k x = y XOR drop_bit k y"
  then have "x XOR y = drop_bit k (x XOR y)"
    by (metis (no_types, lifting) drop_bit_xor xor.assoc xor.commute xor.left_commute xor_self_eq xor.right_neutral)
  then have "x XOR y = 0" using assms by (rule xorshift_fixpoint)
  then show "x = y" by (metis xor.assoc xor.right_neutral xor_self_eq xor.left_neutral)
qed simp

lemma mult_unit_eq_iff:
  fixes m n :: u64
  assumes "m * n = 1"
  shows "x * m = y * m \<longleftrightarrow> x = y"
proof
  assume "x * m = y * m"
  then have "x * m * n = y * m * n" by simp
  then show "x = y" using assms by (simp add: mult.assoc)
qed simp

lemma MUL1_inverse: "MUL1 * 0x96de1b173f119089 = 1"
  by (simp add: MUL1_def)

lemma MUL2_inverse: "MUL2 * 0x319642b2d24d8ec3 = 1"
  by (simp add: MUL2_def)

lemma GOLDEN_inverse: "GOLDEN * 0xf1de83e19937733d = 1"
  by (simp add: GOLDEN_def)

lemma mix_MUL1_eq_iff: "0 < k \<Longrightarrow> mix k MUL1 x = mix k MUL1 y \<longleftrightarrow> x = y"
  by (simp add: mix_def mult_unit_eq_iff [OF MUL1_inverse] xorshift_eq_iff)

lemma mix_MUL2_eq_iff: "0 < k \<Longrightarrow> mix k MUL2 x = mix k MUL2 y \<longleftrightarrow> x = y"
  by (simp add: mix_def mult_unit_eq_iff [OF MUL2_inverse] xorshift_eq_iff)

lemma splitmix_mix:
  "splitmix v = (let z = mix 27 MUL2 (mix 30 MUL1 (v + GOLDEN)) in z XOR drop_bit 31 z)"
  by (simp add: splitmix_def mix_def Let_def)

lemma splitmix_eq_iff: "splitmix x = splitmix y \<longleftrightarrow> x = y"
  by (simp add: splitmix_mix Let_def xorshift_eq_iff mix_MUL1_eq_iff mix_MUL2_eq_iff)

lemmas mix_eq_iffs = mix_MUL1_eq_iff mix_MUL2_eq_iff splitmix_eq_iff

lemma fold_bytes_eq_iff: "fold_bytes s x = fold_bytes s y \<longleftrightarrow> x = y"
  unfolding fold_bytes_def
  by (induction s arbitrary: x y) (simp_all add: mix_eq_iffs)

lemma word_rotl_eq_iff: "word_rotl k x = word_rotl k y \<longleftrightarrow> x = (y :: u64)"
proof
  assume "word_rotl k x = word_rotl k y"
  then have "word_rotr k (word_rotl k x) = word_rotr k (word_rotl k y)" by (rule arg_cong)
  then show "x = y" by simp
qed simp

lemma xor_right_eq_iff: "a XOR c = b XOR c \<longleftrightarrow> a = (b :: u64)"
proof
  assume "a XOR c = b XOR c"
  then have "(a XOR c) XOR c = (b XOR c) XOR c" by (rule arg_cong)
  then show "a = b" by (simp add: xor.assoc)
qed simp

lemma direction_tag_eq_iff: "direction_tag d = direction_tag d' \<longleftrightarrow> d = d'"
  by (cases d; cases d') simp_all

text \<open>
  The seed of a fault-local stream separates every scalar identity component: two derivations
  that agree on all but the run seed, on all but the connection key, or on all but the direction
  give equal seeds only if that component is equal too. Hence connections never share a
  fault-local stream, whatever the number of connections.
\<close>

theorem derive_seed_separates:
  "(derive_seed s p k d f = derive_seed s' p k d f \<longleftrightarrow> s = s') \<and>
   (derive_seed s p k d f = derive_seed s p k' d f \<longleftrightarrow> k = k') \<and>
   (derive_seed s p k d f = derive_seed s p k d' f \<longleftrightarrow> d = d')"
  by (simp add: derive_seed_def Let_def mix_eq_iffs fold_bytes_eq_iff word_rotl_eq_iff
      direction_tag_eq_iff)

text \<open>
  The policy-namespace derivations separate their inputs: distinct scenario seeds, distinct run
  identifiers or execution keys, and distinct event indices give distinct namespaces, all other
  inputs being equal.
\<close>

theorem policy_seed_separates:
  "(derive_policy_seed s r i = derive_policy_seed s' r i \<longleftrightarrow> s = s') \<and>
   (derive_policy_seed s r i = derive_policy_seed s r' i \<longleftrightarrow> r = r') \<and>
   (derive_policy_seed s r i = derive_policy_seed s r i' \<longleftrightarrow> i = i') \<and>
   (derive_schedule_policy_seed s k fp i = derive_schedule_policy_seed s' k fp i \<longleftrightarrow> s = s') \<and>
   (derive_schedule_policy_seed s k fp i = derive_schedule_policy_seed s k' fp i \<longleftrightarrow> k = k') \<and>
   (derive_schedule_policy_seed s k fp i = derive_schedule_policy_seed s k fp i' \<longleftrightarrow> i = i')"
proof -
  have fold: "foldl (\<lambda>h chunk. mix 23 MUL2 (h + (word_rotl 11 (from_le_bytes chunk) + 0x300))) x cs
      = foldl (\<lambda>h chunk. mix 23 MUL2 (h + (word_rotl 11 (from_le_bytes chunk) + 0x300))) y cs
      \<longleftrightarrow> x = y" for x y cs
    by (induction cs arbitrary: x y) (simp_all add: mix_eq_iffs)
  show ?thesis
    by (simp add: derive_policy_seed_def derive_schedule_policy_seed_def Let_def fold mix_eq_iffs
        xor_right_eq_iff word_rotl_eq_iff)
qed

section \<open>Streams\<close>

text \<open>The generator after \<open>n\<close> draws.\<close>

definition rng_after :: "nat \<Rightarrow> deterministic_rng \<Rightarrow> deterministic_rng" where
  "rng_after n r = r\<lparr>rng_state := rng_state r + of_nat n * GOLDEN\<rparr>"

lemma rng_after_0 [simp]: "rng_after 0 r = r"
  by (simp add: rng_after_def)

lemma next_u64_after: "next_u64 (rng_after n r) = (splitmix (rng_state r + of_nat (Suc n) * GOLDEN), rng_after (Suc n) r)"
  by (simp add: next_u64_def rng_after_def Let_def algebra_simps)

lemma stream_inj:
  assumes "i < 2 ^ 64" "j < 2 ^ 64"
    and "fst (next_u64 (rng_after i r)) = fst (next_u64 (rng_after j r))"
  shows "i = j"
proof -
  have "(of_nat (Suc i) :: u64) = of_nat (Suc j)"
    using assms(3) by (simp add: next_u64_after splitmix_eq_iff mult_unit_eq_iff [OF GOLDEN_inverse])
  then have "(of_nat i :: u64) = of_nat j" by simp
  then show ?thesis
    using assms(1,2) by (simp add: word_of_nat_eq_iff take_bit_eq_mod)
qed

lemma below_less: "0 < n \<Longrightarrow> fst (below n r) < n"
  by (simp add: below_def split_def Let_def)

lemma below_le: "fst (below n r) \<le> n"
  by (cases "n = 0") (simp_all add: below_def split_def Let_def less_imp_le)

lemma below_advances: "snd (below n r) = snd (next_u64 r)"
  by (simp add: below_def split_def Let_def)

lemma bernoulli_Fin:
  assumes "f64_wf (Fin p)"
  shows "bernoulli (Fin p) r =
    (if p \<le> 0 then (False, r)
     else if F64_ONE \<le> p then (True, r)
     else (int (unat (fst (next_u64 r))) < p * 2 ^ 64 div F64_ONE, snd (next_u64 r)))"
proof -
  have "0 \<le> p * 2 ^ 64 div F64_ONE" if "0 < p"
    using that by (simp add: pos_imp_zdiv_nonneg_iff)
  then show ?thesis
    using f64_threshold [OF assms]
    by (simp add: bernoulli_def Let_def split_def zless_nat_eq_int_zless)
qed

lemma bernoulli_half_42: "bernoulli (Fin F64_HALF) (rng_new 42) = (True, snd (next_u64 (rng_new 42)))"
proof -
  have "fst (next_u64 (rng_new 42)) = 2949826092126892291" by code_simp
  then show ?thesis
    using F64_HALF_less F64_HALF_pos
    by (simp add: bernoulli_Fin [OF f64_wf_half] half_threshold not_le)
qed

section \<open>Properties\<close>

text \<open>
  A SplitMix64 stream does not repeat a value within its period of \<open>2 ^ 64\<close> draws: draws
  at different positions below the period differ, for every seed.
\<close>

theorem stream_no_repeat:
  assumes "i < 2 ^ 64" "j < 2 ^ 64" "i \<noteq> j"
  shows "fst (next_u64 (rng_after i r)) \<noteq> fst (next_u64 (rng_after j r))"
  using stream_inj [of i j r] assms by blast

theorem stream_no_repeat_witness:
  "fst (next_u64 (rng_after 0 (rng_new 42))) \<noteq> fst (next_u64 (rng_after 1 (rng_new 42)))"
  using stream_no_repeat [of 0 1 "rng_new 42"] by simp

text \<open>
  A Bernoulli draw. Outside the open unit interval the outcome is fixed and the stream does not
  move; inside it, exactly one value is drawn and the outcome is whether it lies below the integer
  part of \<open>p * 2 ^ 64\<close>: the scaling in binary64 loses nothing.
\<close>

theorem bernoulli_exact:
  assumes "f64_wf (Fin p)"
  shows "bernoulli (Fin p) r =
    (if p \<le> 0 then (False, r)
     else if F64_ONE \<le> p then (True, r)
     else (int (unat (fst (next_u64 r))) < p * 2 ^ 64 div F64_ONE, snd (next_u64 r)))"
  using assms by (rule bernoulli_Fin)

theorem bernoulli_exact_witness:
  "bernoulli (Fin F64_HALF) (rng_new 42) =
     (int (unat (fst (next_u64 (rng_new 42)))) < 2 ^ 63, snd (next_u64 (rng_new 42)))"
  using bernoulli_exact [OF f64_wf_half, of "rng_new 42"] F64_HALF_less F64_HALF_pos
  by (simp add: half_threshold not_le)

text \<open>
  Raising a probability never deactivates a fault: from the same generator state, a draw that
  fires for \<open>p\<close> fires for every larger \<open>q\<close>.
\<close>

theorem bernoulli_mono:
  assumes "f64_wf (Fin p)" "f64_wf (Fin q)" "p \<le> q" "fst (bernoulli (Fin p) r)"
  shows "fst (bernoulli (Fin q) r)"
proof -
  have "p * 2 ^ 64 div F64_ONE \<le> q * 2 ^ 64 div F64_ONE"
    using assms(3) by (intro zdiv_mono1) simp_all
  then show ?thesis
    using assms by (auto simp: bernoulli_Fin split: if_splits)
qed

theorem bernoulli_mono_witness:
  "fst (bernoulli (Fin F64_HALF) (rng_new 42)) \<and> fst (bernoulli (Fin F64_ONE) (rng_new 42))"
proof -
  have 1: "fst (bernoulli (Fin F64_HALF) (rng_new 42))"
    by (simp add: bernoulli_half_42)
  show ?thesis
    using 1 bernoulli_mono [OF f64_wf_half f64_wf_one less_imp_le [OF F64_HALF_less] 1] by simp
qed

end
