(* ===== verification/Plan.thy ===== *)
theory Plan
  imports Rng
begin

text \<open>
  Fault plans, \<^verbatim>\<open>crates/eggchaos-core/src/plan.rs\<close>: the typed stream faults, their
  validation, and the ordered plan with its constructor and its edits. The locale
  \<open>fault_store\<close> states what a plan promises the control plane that edits it: lookups after an
  edit, and that every edit keeps the plan valid.
\<close>

section \<open>Data\<close>

datatype validation_error =
    ProbabilityOutOfRange
  | InvalidFaultId
  | DuplicateFaultId string
  | ZeroCapacity
  | InvalidSlice
  | InvalidRate
  | ZeroLimit
  | DurationTooLong
  | TooManyFaults
  | GenerationOverflow

definition MAX_STREAM_FAULT_DURATION :: duration where
  "MAX_STREAM_FAULT_DURATION = 86400 * NANOS_PER_SEC"

definition MAX_STREAM_FAULTS :: nat where
  "MAX_STREAM_FAULTS = 256"

definition STREAM_LOSS_GRAIN_BYTES :: nat where
  "STREAM_LOSS_GRAIN_BYTES = 32 * 1024"

definition STREAM_LOSS_TYPE_NAME :: string where
  "STREAM_LOSS_TYPE_NAME = ''stream-loss''"

type_synonym fault_id = string

text \<open>A \<^verbatim>\<open>Probability\<close> is the \<^verbatim>\<open>f64\<close> it wraps; \<open>probability_new\<close> is its constructor.\<close>

type_synonym probability = f64

record latency_config =
  lat_delay :: duration
  lat_jitter :: duration
  lat_max_buffer_bytes :: nat

record bandwidth_config =
  bytes_per_second :: nat
  burst_bytes :: nat

record blackhole_config =
  close_after :: "duration option"

record limit_data_config =
  limit_bytes :: nat

record slow_close_config =
  sc_delay :: duration

record slice_config =
  average_size :: nat
  variation :: nat
  slice_delay :: duration

record disconnect_config =
  disc_after :: duration
  disc_hard_reset :: bool

record stream_loss_config =
  loss_rate :: probability
  correlation :: probability

datatype fault_kind =
    Latency latency_config
  | Bandwidth bandwidth_config
  | Blackhole blackhole_config
  | LimitData limit_data_config
  | SlowClose slow_close_config
  | Slice slice_config
  | Disconnect disconnect_config
  | StreamLoss stream_loss_config

record fault_spec =
  fs_id :: fault_id
  fs_probability :: probability
  fs_kind :: fault_kind

record fault_plan =
  plan_faults :: "fault_spec list"

definition FAULT_TYPE_NAMES :: "string list" where
  "FAULT_TYPE_NAMES =
     [''latency'', ''bandwidth'', ''blackhole'', ''limit-data'', ''slow-close'', ''slice'', ''disconnect'']"

fun type_name :: "fault_kind \<Rightarrow> string" where
  "type_name (Latency _) = ''latency''"
| "type_name (Bandwidth _) = ''bandwidth''"
| "type_name (Blackhole _) = ''blackhole''"
| "type_name (LimitData _) = ''limit-data''"
| "type_name (SlowClose _) = ''slow-close''"
| "type_name (Slice _) = ''slice''"
| "type_name (Disconnect _) = ''disconnect''"
| "type_name (StreamLoss _) = STREAM_LOSS_TYPE_NAME"

fun type_index :: "fault_kind \<Rightarrow> nat option" where
  "type_index (Latency _) = Some 0"
| "type_index (Bandwidth _) = Some 1"
| "type_index (Blackhole _) = Some 2"
| "type_index (LimitData _) = Some 3"
| "type_index (SlowClose _) = Some 4"
| "type_index (Slice _) = Some 5"
| "type_index (Disconnect _) = Some 6"
| "type_index (StreamLoss _) = None"

section \<open>Validation\<close>

definition fault_id_new :: "string \<Rightarrow> validation_error + fault_id" where
  "fault_id_new value = (if value = [] \<or> 128 < length value then Inl InvalidFaultId else Inr value)"

text \<open>\<open>(0.0..=1.0).contains(&v)\<close>\<close>

definition in_unit_interval :: "f64 \<Rightarrow> bool" where
  "in_unit_interval v = (f64_le (Fin 0) v \<and> f64_le v (Fin F64_ONE))"

definition probability_new :: "f64 \<Rightarrow> validation_error + probability" where
  "probability_new value =
     (if f64_is_finite value \<and> in_unit_interval value then Inr value else Inl ProbabilityOutOfRange)"

definition duration_exceeds_max :: "duration \<Rightarrow> bool" where
  "duration_exceeds_max value = (MAX_STREAM_FAULT_DURATION < value)"

text \<open>The first \<^verbatim>\<open>match\<close> of \<^verbatim>\<open>FaultSpec::validate\<close>: durations are capped at 24 hours.\<close>

fun kind_duration_too_long :: "fault_kind \<Rightarrow> bool" where
  "kind_duration_too_long (Latency c) =
     (duration_exceeds_max (lat_delay c) \<or> duration_exceeds_max (lat_jitter c))"
| "kind_duration_too_long (Blackhole c) =
     (case close_after c of None \<Rightarrow> False | Some d \<Rightarrow> duration_exceeds_max d)"
| "kind_duration_too_long (SlowClose c) = duration_exceeds_max (sc_delay c)"
| "kind_duration_too_long (Slice c) = duration_exceeds_max (slice_delay c)"
| "kind_duration_too_long (Disconnect c) = duration_exceeds_max (disc_after c)"
| "kind_duration_too_long _ = False"

text \<open>The second \<^verbatim>\<open>match\<close>: bounds of the individual kinds; \<open>None\<close> is \<^verbatim>\<open>Ok(())\<close>.\<close>

fun kind_bound_error :: "fault_kind \<Rightarrow> validation_error option" where
  "kind_bound_error (Latency c) = (if lat_max_buffer_bytes c = 0 then Some ZeroCapacity else None)"
| "kind_bound_error (Slice c) = (if average_size c \<le> variation c then Some InvalidSlice else None)"
| "kind_bound_error (Bandwidth c) =
     (if bytes_per_second c = 0 \<or> burst_bytes c = 0 then Some InvalidRate else None)"
| "kind_bound_error (LimitData c) = (if limit_bytes c = 0 then Some ZeroLimit else None)"
| "kind_bound_error (StreamLoss c) =
     (if \<not> f64_is_finite (loss_rate c) \<or> \<not> in_unit_interval (loss_rate c)
         \<or> \<not> f64_is_finite (correlation c) \<or> \<not> in_unit_interval (correlation c)
      then Some ProbabilityOutOfRange else None)"
| "kind_bound_error _ = None"

definition fault_spec_validate :: "fault_spec \<Rightarrow> validation_error + unit" where
  "fault_spec_validate f =
     (if kind_duration_too_long (fs_kind f) then Inl DurationTooLong
      else case kind_bound_error (fs_kind f) of Some e \<Rightarrow> Inl e | None \<Rightarrow> Inr ())"

section \<open>Plans\<close>

text \<open>
  The loop of the constructor; \<open>ids\<close> is the \<^verbatim>\<open>HashSet\<close> of identities seen so far.
\<close>

fun plan_new_loop :: "fault_id list \<Rightarrow> fault_spec list \<Rightarrow> validation_error + unit" where
  "plan_new_loop ids [] = Inr ()"
| "plan_new_loop ids (f # fs) =
     (if fs_id f \<in> set ids then Inl (DuplicateFaultId (fs_id f))
      else case fault_spec_validate f of
             Inl e \<Rightarrow> Inl e
           | Inr _ \<Rightarrow> plan_new_loop (fs_id f # ids) fs)"

definition fault_plan_new :: "fault_spec list \<Rightarrow> validation_error + fault_plan" where
  "fault_plan_new fs =
     (if MAX_STREAM_FAULTS < length fs then Inl TooManyFaults
      else case plan_new_loop [] fs of Inl e \<Rightarrow> Inl e | Inr _ \<Rightarrow> Inr \<lparr>plan_faults = fs\<rparr>)"

definition empty_plan :: fault_plan where
  "empty_plan = \<lparr>plan_faults = []\<rparr>"

definition plan_is_empty :: "fault_plan \<Rightarrow> bool" where
  "plan_is_empty p = (plan_faults p = [])"

definition plan_get :: "fault_plan \<Rightarrow> string \<Rightarrow> fault_spec option" where
  "plan_get p i = find (\<lambda>f. fs_id f = i) (plan_faults p)"

definition with_fault :: "fault_spec \<Rightarrow> fault_plan \<Rightarrow> validation_error + fault_plan" where
  "with_fault f p =
     (if MAX_STREAM_FAULTS \<le> length (plan_faults p) then Inl TooManyFaults
      else if plan_get p (fs_id f) \<noteq> None then Inl (DuplicateFaultId (fs_id f))
      else case fault_spec_validate f of
             Inl e \<Rightarrow> Inl e
           | Inr _ \<Rightarrow> Inr (p\<lparr>plan_faults := plan_faults p @ [f]\<rparr>))"

definition without_fault :: "string \<Rightarrow> fault_plan \<Rightarrow> fault_plan" where
  "without_fault i p = p\<lparr>plan_faults := filter (\<lambda>f. fs_id f \<noteq> i) (plan_faults p)\<rparr>"

text \<open>\<open>iter_mut().find(..)\<close> and the assignment through it: the first match is replaced.\<close>

fun replace_first :: "fault_spec \<Rightarrow> fault_spec list \<Rightarrow> fault_spec list" where
  "replace_first f [] = []"
| "replace_first f (g # gs) = (if fs_id g = fs_id f then f # gs else g # replace_first f gs)"

definition replace_fault :: "fault_spec \<Rightarrow> fault_plan \<Rightarrow> validation_error + fault_plan" where
  "replace_fault f p =
     (case fault_spec_validate f of
        Inl e \<Rightarrow> Inl e
      | Inr _ \<Rightarrow>
          if fs_id f \<in> fs_id ` set (plan_faults p)
          then Inr (p\<lparr>plan_faults := replace_first f (plan_faults p)\<rparr>)
          else with_fault f p)"

fun plan_validate_loop :: "fault_id list \<Rightarrow> fault_spec list \<Rightarrow> validation_error + unit" where
  "plan_validate_loop ids [] = Inr ()"
| "plan_validate_loop ids (f # fs) =
     (if fs_id f \<in> set ids then Inl (DuplicateFaultId (fs_id f))
      else case probability_new (fs_probability f) of
             Inl e \<Rightarrow> Inl e
           | Inr _ \<Rightarrow> (case fault_spec_validate f of
                         Inl e \<Rightarrow> Inl e
                       | Inr _ \<Rightarrow> plan_validate_loop (fs_id f # ids) fs))"

definition plan_validate :: "fault_plan \<Rightarrow> validation_error + unit" where
  "plan_validate p =
     (if MAX_STREAM_FAULTS < length (plan_faults p) then Inl TooManyFaults
      else plan_validate_loop [] (plan_faults p))"

section \<open>What a valid plan is\<close>

definition spec_ok :: "fault_spec \<Rightarrow> bool" where
  "spec_ok f = (\<not> kind_duration_too_long (fs_kind f) \<and> kind_bound_error (fs_kind f) = None)"

definition probability_ok :: "fault_spec \<Rightarrow> bool" where
  "probability_ok f = (f64_is_finite (fs_probability f) \<and> in_unit_interval (fs_probability f))"

definition plan_ok :: "fault_plan \<Rightarrow> bool" where
  "plan_ok p = (length (plan_faults p) \<le> MAX_STREAM_FAULTS
     \<and> distinct (map fs_id (plan_faults p))
     \<and> (\<forall>f \<in> set (plan_faults p). spec_ok f \<and> probability_ok f))"

lemma fault_spec_validate_iff: "fault_spec_validate f = Inr () \<longleftrightarrow> spec_ok f"
  by (auto simp: fault_spec_validate_def spec_ok_def split: option.splits)

lemma fault_spec_validate_cases:
  obtains (ok) "fault_spec_validate f = Inr ()" "spec_ok f"
  | (err) e where "fault_spec_validate f = Inl e" "\<not> spec_ok f"
  using fault_spec_validate_iff [of f] by (cases "fault_spec_validate f") auto

lemma plan_new_loop_iff:
  "plan_new_loop ids fs = Inr () \<longleftrightarrow>
     distinct (map fs_id fs) \<and> set (map fs_id fs) \<inter> set ids = {} \<and> (\<forall>f \<in> set fs. spec_ok f)"
proof (induction fs arbitrary: ids)
  case (Cons f fs)
  show ?case
    by (cases f rule: fault_spec_validate_cases) (auto simp: Cons.IH)
qed simp

lemma plan_validate_loop_iff:
  "plan_validate_loop ids fs = Inr () \<longleftrightarrow>
     distinct (map fs_id fs) \<and> set (map fs_id fs) \<inter> set ids = {}
     \<and> (\<forall>f \<in> set fs. spec_ok f \<and> probability_ok f)"
proof (induction fs arbitrary: ids)
  case (Cons f fs)
  show ?case
    by (cases f rule: fault_spec_validate_cases)
      (auto simp: Cons.IH probability_new_def probability_ok_def)
qed simp

lemma plan_validate_iff: "plan_validate p = Inr () \<longleftrightarrow> plan_ok p"
  by (auto simp: plan_validate_def plan_ok_def plan_validate_loop_iff)

lemma plan_validate_cases:
  obtains (ok) "plan_validate p = Inr ()" "plan_ok p"
  | (err) e where "plan_validate p = Inl e" "\<not> plan_ok p"
  using plan_validate_iff [of p] by (cases "plan_validate p") auto

lemma fault_plan_new_iff:
  "fault_plan_new fs = Inr p \<longleftrightarrow>
     p = \<lparr>plan_faults = fs\<rparr> \<and> length fs \<le> MAX_STREAM_FAULTS \<and> distinct (map fs_id fs)
     \<and> (\<forall>f \<in> set fs. spec_ok f)"
  using plan_new_loop_iff [of "[]" fs]
  by (cases "plan_new_loop [] fs") (auto simp: fault_plan_new_def)

lemma fault_plan_new_ok:
  "fault_plan_new fs = Inr p \<Longrightarrow> \<forall>f \<in> set fs. probability_ok f \<Longrightarrow> plan_ok p"
  by (auto simp: fault_plan_new_iff plan_ok_def)

lemma empty_plan_ok [simp]: "plan_ok empty_plan"
  by (simp add: plan_ok_def empty_plan_def)

section \<open>Edits\<close>

lemma plan_get_None: "plan_get p i = None \<longleftrightarrow> i \<notin> fs_id ` set (plan_faults p)"
  by (auto simp: plan_get_def find_None_iff)

lemma with_fault_iff:
  "with_fault f p = Inr p' \<longleftrightarrow>
     length (plan_faults p) < MAX_STREAM_FAULTS \<and> plan_get p (fs_id f) = None \<and> spec_ok f
     \<and> p' = p\<lparr>plan_faults := plan_faults p @ [f]\<rparr>"
  by (cases f rule: fault_spec_validate_cases) (auto simp: with_fault_def)

lemma with_fault_ok: "plan_ok p \<Longrightarrow> probability_ok f \<Longrightarrow> with_fault f p = Inr p' \<Longrightarrow> plan_ok p'"
  by (auto simp: with_fault_iff plan_ok_def plan_get_None)

lemma without_fault_ok: "plan_ok p \<Longrightarrow> plan_ok (without_fault i p)"
  by (auto simp: plan_ok_def without_fault_def distinct_map inj_on_def
      intro: order_trans [OF length_filter_le])

lemma map_id_replace_first [simp]: "map fs_id (replace_first f fs) = map fs_id fs"
  by (induction fs) auto

lemma length_replace_first [simp]: "length (replace_first f fs) = length fs"
  by (induction fs) auto

lemma set_replace_first: "set (replace_first f fs) \<subseteq> insert f (set fs)"
  by (induction fs) auto

lemma find_replace_first:
  "distinct (map fs_id fs) \<Longrightarrow> find (\<lambda>g. fs_id g = i) (replace_first f fs) =
     (if i = fs_id f \<and> i \<in> fs_id ` set fs then Some f else find (\<lambda>g. fs_id g = i) fs)"
  by (induction fs) auto

lemma replace_fault_cases:
  assumes "replace_fault f p = Inr p'"
  obtains (swap) "spec_ok f" "plan_get p (fs_id f) \<noteq> None"
      "p' = p\<lparr>plan_faults := replace_first f (plan_faults p)\<rparr>"
  | (append) "plan_get p (fs_id f) = None" "with_fault f p = Inr p'"
  using assms
  by (cases f rule: fault_spec_validate_cases)
    (auto simp: replace_fault_def plan_get_None split: if_splits)

lemma replace_fault_ok:
  assumes "plan_ok p" "probability_ok f" "replace_fault f p = Inr p'"
  shows "plan_ok p'"
  using assms(3)
proof (cases rule: replace_fault_cases)
  case swap
  then show ?thesis
    using assms(1,2) set_replace_first [of f "plan_faults p"] by (auto simp: plan_ok_def)
next
  case append
  with assms(1,2) show ?thesis by (auto intro: with_fault_ok)
qed

lemma find_append: "find P (xs @ ys) = (case find P xs of None \<Rightarrow> find P ys | Some x \<Rightarrow> Some x)"
  by (induction xs) auto

lemma find_filter_neq:
  "find (\<lambda>f. fs_id f = i) (filter (\<lambda>f. fs_id f \<noteq> j) fs) =
     (if i = j then None else find (\<lambda>f. fs_id f = i) fs)"
  by (induction fs) auto

lemma with_fault_get:
  "with_fault f p = Inr p' \<Longrightarrow> plan_get p' i = (if i = fs_id f then Some f else plan_get p i)"
  by (auto simp: with_fault_iff plan_get_def find_append split: option.splits)

lemma without_fault_get: "plan_get (without_fault j p) i = (if i = j then None else plan_get p i)"
  by (simp add: plan_get_def without_fault_def find_filter_neq)

lemma replace_fault_get:
  assumes "plan_ok p" "replace_fault f p = Inr p'"
  shows "plan_get p' i = (if i = fs_id f then Some f else plan_get p i)"
  using assms(2)
proof (cases rule: replace_fault_cases)
  case swap
  then show ?thesis
    using assms(1) by (auto simp: plan_ok_def plan_get_def find_replace_first find_None_iff image_iff)
next
  case append
  then show ?thesis using with_fault_get [OF append(2), of i] by simp
qed

section \<open>The store interface\<close>

text \<open>
  What the callers of a plan (the control plane's fault routes and the scenario runner) rely on:
  the plan is a finite map from identities to specifications, an addition needs a fresh identity,
  a replacement does not, and no edit leaves the valid plans.
\<close>

locale fault_store =
  fixes get :: "'p \<Rightarrow> string \<Rightarrow> 's option"
    and add :: "'s \<Rightarrow> 'p \<Rightarrow> 'e + 'p"
    and remove :: "string \<Rightarrow> 'p \<Rightarrow> 'p"
    and put :: "'s \<Rightarrow> 'p \<Rightarrow> 'e + 'p"
    and ident :: "'s \<Rightarrow> string"
    and good :: "'s \<Rightarrow> bool"
    and invar :: "'p \<Rightarrow> bool"
  assumes add_fresh: "add s p = Inr p' \<Longrightarrow> get p (ident s) = None"
    and get_add: "invar p \<Longrightarrow> add s p = Inr p' \<Longrightarrow> get p' i = (if i = ident s then Some s else get p i)"
    and get_remove: "invar p \<Longrightarrow> get (remove j p) i = (if i = j then None else get p i)"
    and get_put: "invar p \<Longrightarrow> put s p = Inr p' \<Longrightarrow> get p' i = (if i = ident s then Some s else get p i)"
    and invar_add: "invar p \<Longrightarrow> good s \<Longrightarrow> add s p = Inr p' \<Longrightarrow> invar p'"
    and invar_remove: "invar p \<Longrightarrow> invar (remove j p)"
    and invar_put: "invar p \<Longrightarrow> good s \<Longrightarrow> put s p = Inr p' \<Longrightarrow> invar p'"
begin

lemma add_remove:
  "invar p \<Longrightarrow> good s \<Longrightarrow> add s p = Inr p' \<Longrightarrow> get (remove (ident s) p') = get p"
  by (rule ext) (auto simp: get_remove invar_add get_add dest: add_fresh)

lemma add_is_put_when_fresh:
  assumes "invar p" "add s p = Inr p1" "put s p = Inr p2"
  shows "get p1 = get p2"
  using assms by (intro ext) (simp add: get_add get_put)

lemma no_double_add: "invar p \<Longrightarrow> add s p = Inr p' \<Longrightarrow> ident t = ident s \<Longrightarrow> add t p' \<noteq> Inr p''"
  using add_fresh [of t p' p''] get_add [of p s p' "ident s"] by auto

lemma put_put:
  assumes "invar p" "good s" "put s p = Inr p1" "put t p1 = Inr p2" "ident s = ident t"
    "put t p = Inr p3"
  shows "get p2 = get p3"
proof
  fix i
  have "invar p1" using assms(1-3) by (rule invar_put)
  then show "get p2 i = get p3 i" using assms by (simp add: get_put)
qed

end

interpretation stream_plan: fault_store plan_get with_fault without_fault replace_fault fs_id
  probability_ok plan_ok
proof (unfold_locales, goal_cases)
  case (1 s p p') then show ?case by (simp add: with_fault_iff)
next
  case (2 p s p' i) then show ?case by (simp add: with_fault_get)
next
  case (3 p j i) show ?case by (rule without_fault_get)
next
  case (4 p s p' i) then show ?case by (simp add: replace_fault_get)
next
  case (5 p s p') then show ?case by (rule with_fault_ok)
next
  case (6 p j) then show ?case by (rule without_fault_ok)
next
  case (7 p s p') then show ?case by (rule replace_fault_ok)
qed

lemma replace_keeps_order:
  "plan_get p (fs_id f) \<noteq> None \<Longrightarrow> replace_fault f p = Inr q \<Longrightarrow>
     map fs_id (plan_faults q) = map fs_id (plan_faults p)"
  by (erule replace_fault_cases) auto

definition example_latency :: "string \<Rightarrow> fault_spec" where
  "example_latency i = \<lparr>fs_id = i, fs_probability = Fin F64_ONE,
     fs_kind = Latency \<lparr>lat_delay = 200000000, lat_jitter = 50000000, lat_max_buffer_bytes = 65536\<rparr>\<rparr>"

definition example_plan :: fault_plan where
  "example_plan = \<lparr>plan_faults = [example_latency ''lag'']\<rparr>"

lemma example_latency_ok [simp]: "spec_ok (example_latency i)" "probability_ok (example_latency i)"
  by (simp_all add: spec_ok_def probability_ok_def example_latency_def duration_exceeds_max_def
      MAX_STREAM_FAULT_DURATION_def NANOS_PER_SEC_def in_unit_interval_def less_imp_le)

lemma example_latency_id [simp]: "fs_id (example_latency i) = i"
  by (simp add: example_latency_def)

lemma example_plan_ok: "plan_ok example_plan"
  by (simp add: plan_ok_def example_plan_def MAX_STREAM_FAULTS_def)

section \<open>Properties\<close>

text \<open>
  Construction is complete and correct: \<open>fault_plan_new\<close> accepts exactly the lists of at most
  256 faults with pairwise distinct identities whose faults are all individually valid, keeps the
  list as it is, and \<open>plan_validate\<close> accepts exactly the valid plans.
\<close>

theorem plan_construction:
  "(fault_plan_new fs = Inr p \<longleftrightarrow>
     p = \<lparr>plan_faults = fs\<rparr> \<and> length fs \<le> 256 \<and> distinct (map fs_id fs)
     \<and> list_all (\<lambda>f. fault_spec_validate f = Inr ()) fs) \<and>
   (plan_validate q = Inr () \<longleftrightarrow>
     fault_plan_new (plan_faults q) = Inr q
     \<and> list_all (\<lambda>f. probability_new (fs_probability f) = Inr (fs_probability f)) (plan_faults q))"
  by (auto simp: fault_plan_new_iff plan_validate_iff plan_ok_def list_all_iff MAX_STREAM_FAULTS_def
      fault_spec_validate_iff probability_new_def probability_ok_def split: if_splits)

text \<open>
  Every edit of a valid plan is again a valid plan: appending, replacing and removing a fault
  keep the number bound, the distinctness of identities and the validity of each fault; and an
  in-place replacement keeps the order of the identities.
\<close>

theorem plan_edits_valid:
  assumes "plan_validate p = Inr ()" "probability_new (fs_probability f) = Inr (fs_probability f)"
  shows "(with_fault f p = Inr q \<longrightarrow> plan_validate q = Inr ()) \<and>
    (replace_fault f p = Inr q \<longrightarrow> plan_validate q = Inr ()
       \<and> (plan_get p (fs_id f) \<noteq> None \<longrightarrow> map fs_id (plan_faults q) = map fs_id (plan_faults p))) \<and>
    plan_validate (without_fault i p) = Inr ()"
proof -
  have p: "plan_ok p" and f: "probability_ok f"
    using assms by (auto simp: plan_validate_iff probability_new_def probability_ok_def split: if_splits)
  show ?thesis
    unfolding plan_validate_iff
    using stream_plan.invar_add [OF p f] stream_plan.invar_put [OF p f]
      stream_plan.invar_remove [OF p] replace_keeps_order [of p f q]
    by auto
qed

theorem plan_edits_valid_witness:
  "with_fault (example_latency ''slow'') example_plan =
     Inr \<lparr>plan_faults = [example_latency ''lag'', example_latency ''slow'']\<rparr> \<and>
   plan_validate \<lparr>plan_faults = [example_latency ''lag'', example_latency ''slow'']\<rparr> = Inr ()"
proof -
  have add: "with_fault (example_latency ''slow'') example_plan =
      Inr \<lparr>plan_faults = [example_latency ''lag'', example_latency ''slow'']\<rparr>"
    by (simp add: with_fault_iff example_plan_def MAX_STREAM_FAULTS_def plan_get_def)
  have ok: "plan_validate example_plan = Inr ()"
    by (simp add: plan_validate_iff example_plan_ok)
  have "probability_new (fs_probability (example_latency ''slow'')) =
      Inr (fs_probability (example_latency ''slow''))"
    using example_latency_ok(2) [of "''slow''"] by (simp add: probability_new_def probability_ok_def)
  from plan_edits_valid [OF ok this] add show ?thesis by blast
qed

text \<open>
  A plan behaves as a finite map under edits: after a successful addition or replacement the
  edited identity has the new fault and every other lookup is unchanged; a removal takes away
  exactly that identity; adding and then removing a fault restores every lookup; and an identity
  cannot be added twice.
\<close>

theorem plan_lookup_laws:
  assumes "plan_validate p = Inr ()" "probability_new (fs_probability f) = Inr (fs_probability f)"
  shows "(with_fault f p = Inr q \<longrightarrow>
      plan_get q = (plan_get p)(fs_id f \<mapsto> f) \<and> plan_get (without_fault (fs_id f) q) = plan_get p
      \<and> (\<forall>g r. fs_id g = fs_id f \<longrightarrow> with_fault g q \<noteq> Inr r)) \<and>
    (replace_fault f p = Inr q \<longrightarrow> plan_get q = (plan_get p)(fs_id f \<mapsto> f)) \<and>
    plan_get (without_fault i p) = (plan_get p)(i := None)"
proof -
  have p: "plan_ok p" and f: "probability_ok f"
    using assms by (auto simp: plan_validate_iff probability_new_def probability_ok_def split: if_splits)
  show ?thesis
    using stream_plan.get_add [OF p] stream_plan.add_remove [OF p f] stream_plan.no_double_add [OF p]
      stream_plan.get_put [OF p] stream_plan.get_remove [OF p]
    by (auto simp: fun_eq_iff)
qed

theorem plan_lookup_laws_witness:
  "plan_get (without_fault ''lag'' example_plan) = (plan_get example_plan)(''lag'' := None)"
proof -
  have ok: "plan_validate example_plan = Inr ()"
    by (simp add: plan_validate_iff example_plan_ok)
  have "probability_new (fs_probability (example_latency ''slow'')) =
      Inr (fs_probability (example_latency ''slow''))"
    using example_latency_ok(2) [of "''slow''"] by (simp add: probability_new_def probability_ok_def)
  from plan_lookup_laws [OF ok this] show ?thesis by blast
qed

end
