(* ===== verification/Policy.thy ===== *)
theory Policy
  imports Plan
begin

text \<open>
  Generation-published policies, \<^verbatim>\<open>crates/eggchaos-core/src/policy.rs\<close> (and, with the same
  shape, \<^verbatim>\<open>DatagramLivePolicy\<close>). A live policy is one atomically swapped snapshot of plan,
  generation and seed namespace.

  \<open>publish\<close> and \<open>publish_expected\<close> are the operations as one uninterrupted caller sees
  them. \<open>pub_step\<close> is the compare-and-swap loop run by any number of threads: each atomic
  action of the loop (the load, the comparison, the swap) is one step. The pointer number of a
  snapshot stands for the identity of its \<^verbatim>\<open>Arc\<close>: a publisher holds the \<^verbatim>\<open>Arc\<close> it loaded,
  so its address is not reused while it is compared, and every allocation is new.

  The lemmas show that every reachable state has consecutive generations, that a successful
  expected publication was based on the expected generation, and that a lost race means another
  publication succeeded. The locale \<open>generation_publisher\<close> is what the clients of a live policy
  rely on.
\<close>

section \<open>Snapshots and sequential publication\<close>

record 'p published_policy =
  generation :: nat
  pub_plan :: 'p
  seed_namespace :: u64

datatype 'e publish_error =
    Invalid 'e
  | Conflict nat nat

text \<open>\<^verbatim>\<open>LivePolicy::new\<close> panics on an invalid plan: \<open>None\<close>.\<close>

definition live_policy_new :: "fault_plan \<Rightarrow> u64 \<Rightarrow> fault_plan published_policy option" where
  "live_policy_new plan ns =
     (case plan_validate plan of
        Inl _ \<Rightarrow> None
      | Inr _ \<Rightarrow> Some \<lparr>generation = 1, pub_plan = plan, seed_namespace = ns\<rparr>)"

definition next_policy :: "'p \<Rightarrow> u64 \<Rightarrow> 'p published_policy \<Rightarrow> 'p published_policy" where
  "next_policy plan ns current =
     \<lparr>generation = sat_add64 (generation current) 1, pub_plan = plan, seed_namespace = ns\<rparr>"

definition publish :: "fault_plan \<Rightarrow> u64 \<Rightarrow> fault_plan published_policy \<Rightarrow>
    (validation_error + fault_plan published_policy) \<times> fault_plan published_policy" where
  "publish plan ns current =
     (case plan_validate plan of
        Inl e \<Rightarrow> (Inl e, current)
      | Inr _ \<Rightarrow>
          if generation current = U64_MAX then (Inl GenerationOverflow, current)
          else (Inr (next_policy plan ns current), next_policy plan ns current))"

definition publish_expected :: "fault_plan \<Rightarrow> u64 \<Rightarrow> nat \<Rightarrow> fault_plan published_policy \<Rightarrow>
    (validation_error publish_error + fault_plan published_policy) \<times> fault_plan published_policy" where
  "publish_expected plan ns expected current =
     (case plan_validate plan of
        Inl e \<Rightarrow> (Inl (Invalid e), current)
      | Inr _ \<Rightarrow>
          if generation current \<noteq> expected then (Inl (Conflict expected (generation current)), current)
          else if generation current = U64_MAX then (Inl (Invalid GenerationOverflow), current)
          else (Inr (next_policy plan ns current), next_policy plan ns current))"

section \<open>The compare-and-swap loop under interleaving\<close>

datatype 'p request =
    Publish 'p u64
  | PublishExpected 'p u64 nat

fun req_plan :: "'p request \<Rightarrow> 'p" where
  "req_plan (Publish p _) = p"
| "req_plan (PublishExpected p _ _) = p"

fun req_namespace :: "'p request \<Rightarrow> u64" where
  "req_namespace (Publish _ n) = n"
| "req_namespace (PublishExpected _ n _) = n"

fun req_conflict :: "'p request \<Rightarrow> nat \<Rightarrow> nat option" where
  "req_conflict (Publish _ _) g = None"
| "req_conflict (PublishExpected _ _ e) g = (if g \<noteq> e then Some e else None)"

text \<open>Where a publisher is in its loop.\<close>

datatype ('p, 'e) pc =
    Start
  | Looping
  | Loaded nat "'p published_policy"
  | Done "'e publish_error + 'p published_policy"

record ('p, 'e) sys =
  cell_ptr :: nat
  cell :: "'p published_policy"
  reqs :: "nat \<Rightarrow> 'p request"
  pcs :: "nat \<Rightarrow> ('p, 'e) pc"
  publications :: "(nat \<times> 'p published_policy) list"

text \<open>
  \<open>publications\<close> records the successful swaps in order; no step reads it. \<open>validate\<close> and
  \<open>overflow\<close> are the plan type's validator and its error for an exhausted generation counter.
\<close>

inductive pub_step :: "('p \<Rightarrow> 'e + unit) \<Rightarrow> 'e \<Rightarrow> ('p, 'e) sys \<Rightarrow> ('p, 'e) sys \<Rightarrow> bool"
  for validate overflow where
  reject: "pcs s t = Start \<Longrightarrow> validate (req_plan (reqs s t)) = Inl e \<Longrightarrow>
     pub_step validate overflow s (s\<lparr>pcs := (pcs s)(t := Done (Inl (Invalid e)))\<rparr>)"
| accept: "pcs s t = Start \<Longrightarrow> validate (req_plan (reqs s t)) = Inr () \<Longrightarrow>
     pub_step validate overflow s (s\<lparr>pcs := (pcs s)(t := Looping)\<rparr>)"
| load: "pcs s t = Looping \<Longrightarrow>
     pub_step validate overflow s (s\<lparr>pcs := (pcs s)(t := Loaded (cell_ptr s) (cell s))\<rparr>)"
| conflict: "pcs s t = Loaded p snap \<Longrightarrow> req_conflict (reqs s t) (generation snap) = Some e \<Longrightarrow>
     pub_step validate overflow s (s\<lparr>pcs := (pcs s)(t := Done (Inl (Conflict e (generation snap))))\<rparr>)"
| exhausted: "pcs s t = Loaded p snap \<Longrightarrow> req_conflict (reqs s t) (generation snap) = None \<Longrightarrow>
     generation snap = U64_MAX \<Longrightarrow>
     pub_step validate overflow s (s\<lparr>pcs := (pcs s)(t := Done (Inl (Invalid overflow)))\<rparr>)"
| swap: "pcs s t = Loaded p snap \<Longrightarrow> req_conflict (reqs s t) (generation snap) = None \<Longrightarrow>
     generation snap \<noteq> U64_MAX \<Longrightarrow> p = cell_ptr s \<Longrightarrow>
     n = next_policy (req_plan (reqs s t)) (req_namespace (reqs s t)) snap \<Longrightarrow>
     pub_step validate overflow s
       (s\<lparr>cell_ptr := Suc (cell_ptr s), cell := n, pcs := (pcs s)(t := Done (Inr n)),
          publications := publications s @ [(t, n)]\<rparr>)"
| retry: "pcs s t = Loaded p snap \<Longrightarrow> req_conflict (reqs s t) (generation snap) = None \<Longrightarrow>
     generation snap \<noteq> U64_MAX \<Longrightarrow> p \<noteq> cell_ptr s \<Longrightarrow>
     pub_step validate overflow s (s\<lparr>pcs := (pcs s)(t := Looping)\<rparr>)"

definition sys_init :: "'p published_policy \<Rightarrow> (nat \<Rightarrow> 'p request) \<Rightarrow> ('p, 'e) sys" where
  "sys_init c rs = \<lparr>cell_ptr = 0, cell = c, reqs = rs, pcs = (\<lambda>_. Start), publications = []\<rparr>"

inductive pub_reachable :: "('p \<Rightarrow> 'e + unit) \<Rightarrow> 'e \<Rightarrow> ('p, 'e) sys \<Rightarrow> bool"
  for validate overflow where
  init: "generation c = 1 \<Longrightarrow> pub_reachable validate overflow (sys_init c rs)"
| step: "pub_reachable validate overflow s \<Longrightarrow> pub_step validate overflow s s' \<Longrightarrow>
     pub_reachable validate overflow s'"

section \<open>The invariant\<close>

fun pc_ok :: "('p \<Rightarrow> 'e + unit) \<Rightarrow> nat \<Rightarrow> 'p published_policy \<Rightarrow> (nat \<times> 'p published_policy) list \<Rightarrow>
    'p request \<Rightarrow> nat \<Rightarrow> ('p, 'e) pc \<Rightarrow> bool" where
  "pc_ok validate ptr c hist r t Start = True"
| "pc_ok validate ptr c hist r t Looping = (validate (req_plan r) = Inr ())"
| "pc_ok validate ptr c hist r t (Loaded p snap) =
     (validate (req_plan r) = Inr () \<and> p \<le> ptr \<and> generation snap = Suc p \<and> (p = ptr \<longrightarrow> snap = c))"
| "pc_ok validate ptr c hist r t (Done (Inl _)) = True"
| "pc_ok validate ptr c hist r t (Done (Inr n)) = ((t, n) \<in> set hist)"

text \<open>What a publication owes to its request.\<close>

fun expected_ok :: "'p request \<Rightarrow> nat \<Rightarrow> bool" where
  "expected_ok (Publish _ _) g = True"
| "expected_ok (PublishExpected _ _ e) g = (g = Suc e)"

definition granted :: "('p \<Rightarrow> 'e + unit) \<Rightarrow> 'p request \<Rightarrow> 'p published_policy \<Rightarrow> bool" where
  "granted validate r n = (pub_plan n = req_plan r \<and> seed_namespace n = req_namespace r
     \<and> validate (pub_plan n) = Inr () \<and> expected_ok r (generation n))"

definition cell_ok :: "nat \<Rightarrow> 'p published_policy \<Rightarrow> (nat \<times> 'p published_policy) list \<Rightarrow> bool" where
  "cell_ok ptr c hist = (generation c = Suc ptr \<and> Suc ptr \<le> U64_MAX \<and> length hist = ptr
     \<and> map (generation \<circ> snd) hist = [2..<2 + ptr] \<and> (hist \<noteq> [] \<longrightarrow> snd (last hist) = c))"

definition pub_inv :: "('p \<Rightarrow> 'e + unit) \<Rightarrow> ('p, 'e) sys \<Rightarrow> bool" where
  "pub_inv validate s = (cell_ok (cell_ptr s) (cell s) (publications s)
     \<and> (\<forall>t. pc_ok validate (cell_ptr s) (cell s) (publications s) (reqs s t) t (pcs s t))
     \<and> (\<forall>t n. (t, n) \<in> set (publications s) \<longrightarrow>
          pcs s t = Done (Inr n) \<and> granted validate (reqs s t) n))"

lemma pub_inv_init: "generation c = 1 \<Longrightarrow> pub_inv validate (sys_init c rs)"
  by (simp add: pub_inv_def cell_ok_def sys_init_def U64_MAX_def)

text \<open>A step that moves one program counter and publishes nothing.\<close>

lemma pub_inv_move:
  assumes "pub_inv validate s" "\<And>n. pcs s t \<noteq> Done (Inr n)"
    and "pc_ok validate (cell_ptr s) (cell s) (publications s) (reqs s t) t c"
  shows "pub_inv validate (s\<lparr>pcs := (pcs s)(t := c)\<rparr>)"
  using assms by (auto simp: pub_inv_def)

lemma pc_ok_after_swap:
  assumes "pc_ok validate ptr c hist r t k" "cell_ok ptr c hist"
  shows "pc_ok validate (Suc ptr) n (hist @ [x]) r t k"
  using assms by (cases "(validate, ptr, c, hist, r, t, k)" rule: pc_ok.cases) auto

lemma pub_inv_swap:
  assumes inv: "pub_inv validate s" and pc: "pcs s t = Loaded (cell_ptr s) snap"
    and nc: "req_conflict (reqs s t) (generation snap) = None" and g: "generation snap \<noteq> U64_MAX"
    and n: "n = next_policy (req_plan (reqs s t)) (req_namespace (reqs s t)) snap"
  shows "pub_inv validate (s\<lparr>cell_ptr := Suc (cell_ptr s), cell := n,
    pcs := (pcs s)(t := Done (Inr n)), publications := publications s @ [(t, n)]\<rparr>)"
proof -
  have c: "cell_ok (cell_ptr s) (cell s) (publications s)"
    and pcs: "\<forall>t. pc_ok validate (cell_ptr s) (cell s) (publications s) (reqs s t) t (pcs s t)"
    and hist: "\<forall>t n. (t, n) \<in> set (publications s) \<longrightarrow>
          pcs s t = Done (Inr n) \<and> granted validate (reqs s t) n"
    using inv by (simp_all add: pub_inv_def)
  have snap: "snap = cell s" and v: "validate (req_plan (reqs s t)) = Inr ()"
    using pcs [rule_format, of t] by (simp_all add: pc)
  have gen: "generation n = Suc (Suc (cell_ptr s))" "Suc (Suc (cell_ptr s)) \<le> U64_MAX"
    using g snap c by (simp_all add: n next_policy_def cell_ok_def sat_add64_def)
  have gr: "granted validate (reqs s t) n"
    using nc gen v c snap
    by (cases "reqs s t") (auto simp: granted_def n next_policy_def cell_ok_def split: if_splits)
  have "cell_ok (Suc (cell_ptr s)) n (publications s @ [(t, n)])"
    using c gen by (auto simp: cell_ok_def)
  moreover have "\<And>u. u \<noteq> t \<Longrightarrow> pc_ok validate (Suc (cell_ptr s)) n (publications s @ [(t, n)])
      (reqs s u) u (pcs s u)"
    using pcs c by (blast intro: pc_ok_after_swap)
  moreover have "u \<noteq> t" if "(u, m) \<in> set (publications s)" for u m
    using hist that pc by auto
  ultimately show ?thesis
    using hist gr by (auto simp: pub_inv_def)
qed

lemma pub_inv_step: "pub_step validate overflow s s' \<Longrightarrow> pub_inv validate s \<Longrightarrow> pub_inv validate s'"
proof (induction rule: pub_step.induct)
  case (swap s t p snap n)
  then show ?case using pub_inv_swap [of validate s t snap n] by simp
next
  case (retry s t p snap)
  then have "pc_ok validate (cell_ptr s) (cell s) (publications s) (reqs s t) t (Loaded p snap)"
    by (metis pub_inv_def)
  with retry show ?case by (intro pub_inv_move) auto
next
  case (load s t)
  then have "pc_ok validate (cell_ptr s) (cell s) (publications s) (reqs s t) t Looping"
    "cell_ok (cell_ptr s) (cell s) (publications s)"
    by (metis pub_inv_def)+
  with load show ?case by (intro pub_inv_move) (auto simp: cell_ok_def)
qed (auto intro!: pub_inv_move)

lemma pub_reachable_inv: "pub_reachable validate overflow s \<Longrightarrow> pub_inv validate s"
  by (induction rule: pub_reachable.induct) (auto intro: pub_inv_init pub_inv_step)

section \<open>Sequential publication is the uninterrupted loop\<close>

text \<open>The two steps before the comparison, taken by one thread alone.\<close>

lemma solo_load:
  assumes "pcs s t = Start" "validate (req_plan (reqs s t)) = Inr ()"
  shows "(pub_step validate overflow)\<^sup>*\<^sup>* s (s\<lparr>pcs := (pcs s)(t := Loaded (cell_ptr s) (cell s))\<rparr>)"
proof -
  let ?s = "s\<lparr>pcs := (pcs s)(t := Looping)\<rparr>"
  have 1: "pub_step validate overflow s ?s" using assms by (rule pub_step.accept)
  have "pub_step validate overflow ?s
      (?s\<lparr>pcs := (pcs ?s)(t := Loaded (cell_ptr ?s) (cell ?s))\<rparr>)"
    by (rule pub_step.load) simp
  with 1 show ?thesis by (simp add: r_into_rtranclp rtranclp.rtrancl_into_rtrancl)
qed

lemma solo_publish:
  assumes pc: "pcs s t = Start" and r: "reqs s t = Publish plan ns"
  shows "\<exists>s'. (pub_step plan_validate GenerationOverflow)\<^sup>*\<^sup>* s s' \<and>
    cell s' = snd (publish plan ns (cell s)) \<and>
    pcs s' t = Done (map_sum Invalid id (fst (publish plan ns (cell s))))"
proof (cases plan rule: plan_validate_cases)
  case (err e)
  then have "pub_step plan_validate GenerationOverflow s (s\<lparr>pcs := (pcs s)(t := Done (Inl (Invalid e)))\<rparr>)"
    using pc r by (intro pub_step.reject) simp_all
  with err show ?thesis
    by (intro exI [of _ "s\<lparr>pcs := (pcs s)(t := Done (Inl (Invalid e)))\<rparr>"])
      (simp add: publish_def r_into_rtranclp)
next
  case ok
  define l where "l = s\<lparr>pcs := (pcs s)(t := Loaded (cell_ptr s) (cell s))\<rparr>"
  have l: "(pub_step plan_validate GenerationOverflow)\<^sup>*\<^sup>* s l"
    unfolding l_def using pc r ok by (intro solo_load) simp_all
  have pcl: "pcs l t = Loaded (cell_ptr l) (cell l)" and rl: "reqs l t = Publish plan ns"
    and cl: "cell l = cell s"
    using r by (simp_all add: l_def)
  show ?thesis
  proof (cases "generation (cell s) = U64_MAX")
    case True
    have "pub_step plan_validate GenerationOverflow l
        (l\<lparr>pcs := (pcs l)(t := Done (Inl (Invalid GenerationOverflow)))\<rparr>)"
      using pcl rl cl True by (intro pub_step.exhausted) simp_all
    with l have "(pub_step plan_validate GenerationOverflow)\<^sup>*\<^sup>* s
        (l\<lparr>pcs := (pcs l)(t := Done (Inl (Invalid GenerationOverflow)))\<rparr>)"
      by (rule rtranclp.rtrancl_into_rtrancl)
    then show ?thesis
      using True ok cl by (intro exI conjI) (assumption, simp_all add: publish_def)
  next
    case False
    define n where "n = next_policy plan ns (cell s)"
    have "pub_step plan_validate GenerationOverflow l
        (l\<lparr>cell_ptr := Suc (cell_ptr l), cell := n, pcs := (pcs l)(t := Done (Inr n)),
           publications := publications l @ [(t, n)]\<rparr>)"
      using pcl rl cl False by (intro pub_step.swap) (simp_all add: n_def)
    with l have "(pub_step plan_validate GenerationOverflow)\<^sup>*\<^sup>* s
        (l\<lparr>cell_ptr := Suc (cell_ptr l), cell := n, pcs := (pcs l)(t := Done (Inr n)),
           publications := publications l @ [(t, n)]\<rparr>)"
      by (rule rtranclp.rtrancl_into_rtrancl)
    then show ?thesis
      using False ok cl by (intro exI conjI) (assumption, simp_all add: publish_def n_def)
  qed
qed

section \<open>The publisher interface\<close>

text \<open>A sequence of publications; the first component counts the successful ones.\<close>

fun publish_all :: "('p \<Rightarrow> u64 \<Rightarrow> 'c \<Rightarrow> ('e + 'c) \<times> 'c) \<Rightarrow> ('p \<times> u64) list \<Rightarrow> 'c \<Rightarrow> nat \<times> 'c" where
  "publish_all pub [] c = (0, c)"
| "publish_all pub ((p, ns) # rs) c =
     (case pub p ns c of
        (Inl _, c') \<Rightarrow> publish_all pub rs c'
      | (Inr _, c') \<Rightarrow> (let (k, c'') = publish_all pub rs c' in (Suc k, c'')))"

text \<open>
  What the runtime relies on when it publishes plans: a success is exactly one next generation
  carrying exactly the submitted plan and namespace, a failure changes nothing, and only good plans
  are published.
\<close>

locale generation_publisher =
  fixes pub :: "'p \<Rightarrow> u64 \<Rightarrow> 'p published_policy \<Rightarrow> ('e + 'p published_policy) \<times> 'p published_policy"
    and good :: "'p \<Rightarrow> bool"
  assumes pub_ok: "generation c \<le> U64_MAX \<Longrightarrow> pub p ns c = (Inr r, c') \<Longrightarrow>
      c' = r \<and> generation r = Suc (generation c) \<and> generation r \<le> U64_MAX
      \<and> pub_plan r = p \<and> seed_namespace r = ns \<and> good p"
    and pub_fail: "pub p ns c = (Inl e, c') \<Longrightarrow> c' = c"
begin

lemma publish_all_run:
  "generation c \<le> U64_MAX \<Longrightarrow> publish_all pub rs c = (k, c') \<Longrightarrow>
     generation c' = generation c + k \<and> generation c' \<le> U64_MAX \<and> (good (pub_plan c) \<longrightarrow> good (pub_plan c'))"
proof (induction rs arbitrary: c k c')
  case (Cons r rs)
  obtain p ns where r: "r = (p, ns)" by (cases r)
  obtain res c1 where c1: "pub p ns c = (res, c1)" by (cases "pub p ns c")
  show ?case
  proof (cases res)
    case (Inl e)
    then have "c1 = c" using c1 pub_fail by simp
    then show ?thesis using Cons.IH [of c k c'] Cons.prems Inl c1 r by simp
  next
    case (Inr n)
    obtain k1 c2 where run: "publish_all pub rs c1 = (k1, c2)" by (cases "publish_all pub rs c1")
    have "c1 = n \<and> generation n = Suc (generation c) \<and> generation n \<le> U64_MAX \<and> pub_plan n = p \<and> good p"
      using pub_ok [OF Cons.prems(1), of p ns n c1] c1 Inr by simp
    then show ?thesis using Cons.IH [of c1 k1 c2] run Cons.prems(2) c1 Inr r by auto
  qed
qed simp

end

lemma publish_cases:
  "publish p ns c = (res, c') \<Longrightarrow>
    (\<exists>e. res = Inl e \<and> c' = c) \<or>
    (plan_ok p \<and> generation c \<noteq> U64_MAX \<and> res = Inr (next_policy p ns c) \<and> c' = next_policy p ns c)"
  by (cases p rule: plan_validate_cases) (auto simp: publish_def split: if_splits)

interpretation stream_policy: generation_publisher publish plan_ok
proof (unfold_locales, goal_cases)
  case (1 c p ns r c')
  then show ?case by (auto dest!: publish_cases simp: next_policy_def sat_add64_def)
next
  case (2 p ns c e c')
  then show ?case by (auto dest!: publish_cases)
qed

section \<open>Properties\<close>

text \<open>
  Generations under concurrency. In every state the compare-and-swap loops of any number of
  publishers can reach, the successful publications carry the generations 2, 3, 4, \<open>\<dots>\<close> in order
  without gap or repetition, the current snapshot is the latest of them, each publication carries
  the plan and the namespace of the request that made it, and only validated plans were published.
\<close>

theorem publication_history:
  assumes "pub_reachable plan_validate GenerationOverflow s"
  shows "map (generation \<circ> snd) (publications s) = [2..<2 + length (publications s)] \<and>
    generation (cell s) = 1 + length (publications s) \<and>
    (publications s \<noteq> [] \<longrightarrow> snd (last (publications s)) = cell s) \<and>
    (\<forall>t n. (t, n) \<in> set (publications s) \<longrightarrow>
       pcs s t = Done (Inr n) \<and> pub_plan n = req_plan (reqs s t)
       \<and> seed_namespace n = req_namespace (reqs s t) \<and> plan_validate (pub_plan n) = Inr ())"
proof -
  have inv: "pub_inv plan_validate s" using assms by (rule pub_reachable_inv)
  then have "cell_ok (cell_ptr s) (cell s) (publications s)" by (simp add: pub_inv_def)
  moreover have "\<forall>t n. (t, n) \<in> set (publications s) \<longrightarrow>
      pcs s t = Done (Inr n) \<and> granted plan_validate (reqs s t) n"
    using inv by (simp add: pub_inv_def)
  ultimately show ?thesis unfolding granted_def cell_ok_def by simp metis
qed

definition example_start :: "(fault_plan, validation_error) sys" where
  "example_start = sys_init \<lparr>generation = 1, pub_plan = empty_plan, seed_namespace = 9\<rparr>
     (\<lambda>_. PublishExpected example_plan 9 1)"

lemma example_publication:
  "\<exists>s. pub_reachable plan_validate GenerationOverflow s \<and>
     reqs s = reqs example_start \<and>
     publications s = [(0, \<lparr>generation = 2, pub_plan = example_plan, seed_namespace = 9\<rparr>)]"
proof -
  let ?R = "pub_reachable plan_validate GenerationOverflow"
  let ?n = "\<lparr>generation = 2, pub_plan = example_plan, seed_namespace = 9 :: u64\<rparr>"
  define s1 where "s1 = example_start\<lparr>pcs := (pcs example_start)(0 := Looping)\<rparr>"
  define s2 where "s2 = s1\<lparr>pcs := (pcs s1)(0 := Loaded (cell_ptr s1) (cell s1))\<rparr>"
  define s3 where "s3 = s2\<lparr>cell_ptr := Suc (cell_ptr s2), cell := ?n,
      pcs := (pcs s2)(0 := Done (Inr ?n)), publications := publications s2 @ [(0, ?n)]\<rparr>"
  have "?R example_start" unfolding example_start_def by (rule pub_reachable.init) simp
  then have "?R s1" unfolding s1_def
    by (rule pub_reachable.step) (rule pub_step.accept,
      simp_all add: example_start_def sys_init_def plan_validate_iff example_plan_ok)
  then have "?R s2" unfolding s2_def
    by (rule pub_reachable.step) (rule pub_step.load, simp add: s1_def)
  then have "?R s3" unfolding s3_def
    by (rule pub_reachable.step) (rule pub_step.swap,
      auto simp: s2_def s1_def example_start_def sys_init_def next_policy_def sat_add64_def U64_MAX_def)
  then show ?thesis
    by (intro exI [of _ s3]) (simp add: s3_def s2_def s1_def example_start_def sys_init_def)
qed

theorem publication_history_witness:
  "\<exists>s. pub_reachable plan_validate GenerationOverflow s \<and> publications s \<noteq> [] \<and>
     generation (cell s) = 1 + length (publications s)"
  using example_publication publication_history by (metis list.distinct(1))

text \<open>
  An expected publication is never based on a stale snapshot: if the loop of a publisher that
  expected generation \<open>e\<close> succeeded, it published generation \<open>e + 1\<close>, and no other thread
  published that generation.
\<close>

theorem expected_publication_fresh:
  assumes "pub_reachable plan_validate GenerationOverflow s"
    and "pcs s t = Done (Inr n)" "reqs s t = PublishExpected plan ns e"
  shows "generation n = Suc e \<and> (t, n) \<in> set (publications s) \<and>
    (\<forall>u m. (u, m) \<in> set (publications s) \<longrightarrow> generation m = Suc e \<longrightarrow> m = n)"
proof -
  have inv: "pub_inv plan_validate s" using assms(1) by (rule pub_reachable_inv)
  then have mem: "(t, n) \<in> set (publications s)"
    using assms(2) by (metis pc_ok.simps(5) pub_inv_def)
  then have "granted plan_validate (reqs s t) n" using inv by (auto simp: pub_inv_def)
  then have gen: "generation n = Suc e" by (simp add: granted_def assms(3))
  have "distinct (map (generation \<circ> snd) (publications s))"
    using inv by (simp add: pub_inv_def cell_ok_def del: upt_Suc)
  then have "inj_on (generation \<circ> snd) (set (publications s))" by (simp add: distinct_map)
  then have "\<forall>u m. (u, m) \<in> set (publications s) \<longrightarrow> generation m = Suc e \<longrightarrow> m = n"
    using mem gen by (auto simp: inj_on_def) (metis snd_conv)
  with mem gen show ?thesis by blast
qed

theorem expected_publication_fresh_witness:
  "\<exists>s n. pub_reachable plan_validate GenerationOverflow s \<and> pcs s 0 = Done (Inr n) \<and>
     reqs s 0 = PublishExpected example_plan 9 1 \<and> generation n = Suc 1"
proof -
  obtain s where r: "pub_reachable plan_validate GenerationOverflow s"
    and q: "reqs s = reqs example_start"
    and p: "publications s = [(0, \<lparr>generation = 2, pub_plan = example_plan, seed_namespace = 9\<rparr>)]"
    using example_publication by blast
  have pc: "pcs s 0 = Done (Inr \<lparr>generation = 2, pub_plan = example_plan, seed_namespace = 9\<rparr>)"
    using pub_reachable_inv [OF r] p by (simp add: pub_inv_def)
  have "reqs s 0 = PublishExpected example_plan 9 1" using q by (simp add: example_start_def sys_init_def)
  with r pc expected_publication_fresh [OF r pc] show ?thesis by blast
qed

text \<open>
  The loop is lock-free: a publisher that loses the swap and has to retry has been overtaken
  by a publication that succeeded since its load.
\<close>

theorem retry_means_progress:
  assumes "pub_reachable plan_validate GenerationOverflow s"
    and "pcs s t = Loaded p snap" "p \<noteq> cell_ptr s"
  shows "generation snap < generation (cell s) \<and>
    (\<exists>u n. (u, n) \<in> set (publications s) \<and> generation snap < generation n)"
proof -
  have inv: "pub_inv plan_validate s" using assms(1) by (rule pub_reachable_inv)
  have "pc_ok plan_validate (cell_ptr s) (cell s) (publications s) (reqs s t) t (Loaded p snap)"
    using inv assms(2) by (metis pub_inv_def)
  moreover have c: "cell_ok (cell_ptr s) (cell s) (publications s)"
    using inv by (simp add: pub_inv_def)
  ultimately have lt: "generation snap < generation (cell s)" and "0 < cell_ptr s"
    using assms(3) by (auto simp: cell_ok_def)
  then have ne: "publications s \<noteq> []" using c by (auto simp: cell_ok_def)
  then have "snd (last (publications s)) = cell s" using c by (auto simp: cell_ok_def)
  then show ?thesis using lt last_in_set [OF ne] by (metis prod.collapse)
qed

lemma example_overtaken:
  "\<exists>s. pub_reachable plan_validate GenerationOverflow s \<and>
     pcs s 1 = Loaded 0 (cell example_start) \<and> cell_ptr s = 1"
proof -
  let ?R = "pub_reachable plan_validate GenerationOverflow"
  let ?n = "\<lparr>generation = 2, pub_plan = example_plan, seed_namespace = 9 :: u64\<rparr>"
  define s1 where "s1 = example_start\<lparr>pcs := (pcs example_start)(1 := Looping)\<rparr>"
  define s2 where "s2 = s1\<lparr>pcs := (pcs s1)(1 := Loaded (cell_ptr s1) (cell s1))\<rparr>"
  define s3 where "s3 = s2\<lparr>pcs := (pcs s2)(0 := Looping)\<rparr>"
  define s4 where "s4 = s3\<lparr>pcs := (pcs s3)(0 := Loaded (cell_ptr s3) (cell s3))\<rparr>"
  define s5 where "s5 = s4\<lparr>cell_ptr := Suc (cell_ptr s4), cell := ?n,
      pcs := (pcs s4)(0 := Done (Inr ?n)), publications := publications s4 @ [(0, ?n)]\<rparr>"
  note defs = s5_def s4_def s3_def s2_def s1_def example_start_def sys_init_def
  have "?R example_start" unfolding example_start_def by (rule pub_reachable.init) simp
  then have "?R s1" unfolding s1_def
    by (rule pub_reachable.step) (rule pub_step.accept,
      simp_all add: example_start_def sys_init_def plan_validate_iff example_plan_ok)
  then have "?R s2" unfolding s2_def
    by (rule pub_reachable.step) (rule pub_step.load, simp add: s1_def)
  then have "?R s3" unfolding s3_def
    by (rule pub_reachable.step) (rule pub_step.accept,
      simp_all add: s2_def s1_def example_start_def sys_init_def plan_validate_iff example_plan_ok)
  then have "?R s4" unfolding s4_def
    by (rule pub_reachable.step) (rule pub_step.load, simp add: s3_def)
  then have "?R s5" unfolding s5_def
    by (rule pub_reachable.step) (rule pub_step.swap,
      auto simp: s4_def s3_def s2_def s1_def example_start_def sys_init_def next_policy_def
        sat_add64_def U64_MAX_def)
  then show ?thesis by (intro exI [of _ s5]) (simp add: defs)
qed

theorem retry_means_progress_witness:
  "\<exists>s p snap. pub_reachable plan_validate GenerationOverflow s \<and> pcs s 1 = Loaded p snap \<and>
     p \<noteq> cell_ptr s \<and> generation snap < generation (cell s)"
proof -
  obtain s where r: "pub_reachable plan_validate GenerationOverflow s"
    and pc: "pcs s 1 = Loaded 0 (cell example_start)" and p: "(0 :: nat) \<noteq> cell_ptr s"
    using example_overtaken by auto
  from r pc p retry_means_progress [OF r pc p] show ?thesis by blast
qed

text \<open>
  The sequential \<open>publish\<close> refines the loop: a thread that runs alone from the start of its
  loop reaches, by steps of the interleaved system, the cell and the result that \<open>publish\<close>
  computes, whether it succeeds or fails.
\<close>

theorem publish_is_uninterrupted_loop:
  assumes "pcs s t = Start" "reqs s t = Publish plan ns"
  shows "\<exists>s'. (pub_step plan_validate GenerationOverflow)\<^sup>*\<^sup>* s s' \<and>
    cell s' = snd (publish plan ns (cell s)) \<and>
    pcs s' t = Done (map_sum Invalid id (fst (publish plan ns (cell s))))"
  using assms by (rule solo_publish)

theorem publish_is_uninterrupted_loop_witness:
  "\<exists>s'. (pub_step plan_validate GenerationOverflow)\<^sup>*\<^sup>*
      (sys_init \<lparr>generation = 1, pub_plan = empty_plan, seed_namespace = 0\<rparr> (\<lambda>_. Publish empty_plan 3)) s' \<and>
    cell s' = \<lparr>generation = 2, pub_plan = empty_plan, seed_namespace = 3\<rparr>"
proof -
  let ?s = "sys_init \<lparr>generation = 1, pub_plan = empty_plan, seed_namespace = 0\<rparr> (\<lambda>_. Publish empty_plan 3)
      :: (fault_plan, validation_error) sys"
  have 1: "pcs ?s 0 = Start" "reqs ?s 0 = Publish empty_plan 3" by (simp_all add: sys_init_def)
  have "snd (publish empty_plan 3 (cell ?s)) = \<lparr>generation = 2, pub_plan = empty_plan, seed_namespace = 3\<rparr>"
    using plan_validate_iff [of empty_plan]
    by (simp add: publish_def sys_init_def next_policy_def sat_add64_def U64_MAX_def)
  with publish_is_uninterrupted_loop [OF 1] show ?thesis by metis
qed

text \<open>
  A run of publications advances the generation by exactly the number of the successful ones,
  never past \<open>u64::MAX\<close>, and the current plan stays valid throughout.
\<close>

theorem publish_run:
  assumes "generation c \<le> U64_MAX" "plan_validate (pub_plan c) = Inr ()"
    and "publish_all publish rs c = (k, c')"
  shows "generation c' = generation c + k \<and> generation c' \<le> U64_MAX \<and>
    plan_validate (pub_plan c') = Inr ()"
  using stream_policy.publish_all_run [OF assms(1,3)] assms(2) by (simp add: plan_validate_iff)

theorem publish_run_witness:
  "\<exists>c'. publish_all publish [(empty_plan, 1), (empty_plan, 2)]
      \<lparr>generation = 1, pub_plan = empty_plan, seed_namespace = 0\<rparr> = (2, c') \<and> generation c' = 3"
proof -
  let ?c = "\<lparr>generation = 1, pub_plan = empty_plan, seed_namespace = 0 :: u64\<rparr>"
  have v: "plan_validate empty_plan = Inr ()" by (simp add: plan_validate_iff)
  have run: "publish_all publish [(empty_plan, 1), (empty_plan, 2)] ?c =
      (2, \<lparr>generation = 3, pub_plan = empty_plan, seed_namespace = 2\<rparr>)"
    using v by (simp add: publish_def next_policy_def sat_add64_def U64_MAX_def)
  show ?thesis
    using publish_run [OF _ _ run] v run by (auto simp: U64_MAX_def)
qed

end
