(* ===== verification/DatagramPlan.thy ===== *)
theory DatagramPlan
  imports Policy
begin

text \<open>
  Datagram plans and their live publication, the first half of
  \<^verbatim>\<open>crates/eggchaos-core/src/datagram.rs\<close>: queue limits, fault stages, the validated plan and
  \<^verbatim>\<open>DatagramLivePolicy\<close>, which is a second provider of the interface
  \<open>generation_publisher\<close>. Errors are the \<^verbatim>\<open>&'static str\<close> messages of the source.
\<close>

section \<open>Data\<close>

definition DATAGRAM_FAULT_TYPE_NAMES :: "string list" where
  "DATAGRAM_FAULT_TYPE_NAMES =
     [''delay'', ''loss'', ''duplicate'', ''reorder'', ''payload-corrupt'', ''bandwidth'']"

unbundle bit_operations_syntax

definition derive_datagram_seed :: "u64 \<Rightarrow> string \<Rightarrow> u64 \<Rightarrow> direction \<Rightarrow> fault_id \<Rightarrow> u64" where
  "derive_datagram_seed ns proxy association dir fault =
     derive_seed ns proxy association dir fault XOR 0xd47a6a4a00000001"

text \<open>The three limits are \<^verbatim>\<open>NonZeroU64\<close>; no property needs them to be positive.\<close>

record datagram_queue_limits =
  max_queued_datagrams :: nat
  max_queued_bytes :: nat
  max_datagram_bytes :: nat

definition limits_validate :: "datagram_queue_limits \<Rightarrow> string + datagram_queue_limits" where
  "limits_validate l =
     (if 1000000 < max_queued_datagrams l \<or> 1073741824 < max_queued_bytes l \<or> 65535 < max_datagram_bytes l
      then Inl ''datagram queue limits exceed hard bounds''
      else Inr l)"

datatype datagram_fault_kind =
    Delay duration duration
  | Loss
  | Duplicate nat
  | Reorder duration
  | PayloadCorrupt nat
  | DatagramBandwidth nat nat

record datagram_fault_spec =
  df_id :: fault_id
  df_probability :: probability
  df_kind :: datagram_fault_kind

fun fault_type_index :: "datagram_fault_kind \<Rightarrow> nat" where
  "fault_type_index (Delay _ _) = 0"
| "fault_type_index Loss = 1"
| "fault_type_index (Duplicate _) = 2"
| "fault_type_index (Reorder _) = 3"
| "fault_type_index (PayloadCorrupt _) = 4"
| "fault_type_index (DatagramBandwidth _ _) = 5"

definition datagram_type_name :: "datagram_fault_kind \<Rightarrow> string" where
  "datagram_type_name k = DATAGRAM_FAULT_TYPE_NAMES ! fault_type_index k"

record datagram_plan =
  dp_faults :: "datagram_fault_spec list"

section \<open>Validation\<close>

definition DATAGRAM_MAX_DURATION :: duration where
  "DATAGRAM_MAX_DURATION = 86400 * NANOS_PER_SEC"

text \<open>
  The \<^verbatim>\<open>match\<close> on one stage: an error, or the number of candidates one datagram can have become.
\<close>

fun validate_stage :: "datagram_fault_kind \<Rightarrow> nat \<Rightarrow> string + nat" where
  "validate_stage (Duplicate copies) maximum =
     (if copies = 0 \<or> 16 < copies then Inl ''duplicate count must be 1..=16''
      else let m = sat_mul64 maximum (copies + 1)
           in if 4096 < m then Inl ''plan duplication amplification exceeds 4096 candidates'' else Inr m)"
| "validate_stage (Delay delay jitter) maximum =
     (if DATAGRAM_MAX_DURATION < delay \<or> DATAGRAM_MAX_DURATION < jitter
      then Inl ''delay and jitter must be at most 24 hours'' else Inr maximum)"
| "validate_stage (Reorder hold) maximum =
     (if DATAGRAM_MAX_DURATION < hold then Inl ''reorder hold must be at most 24 hours'' else Inr maximum)"
| "validate_stage _ maximum = Inr maximum"

fun datagram_validate_loop :: "fault_id list \<Rightarrow> nat \<Rightarrow> datagram_fault_spec list \<Rightarrow> string + unit" where
  "datagram_validate_loop ids maximum [] = Inr ()"
| "datagram_validate_loop ids maximum (f # fs) =
     (if df_id f = [] \<or> 128 < length (df_id f) then Inl ''fault id must be 1..=128 bytes''
      else case probability_new (df_probability f) of
             Inl _ \<Rightarrow> Inl ''probability must be finite and within 0..=1''
           | Inr _ \<Rightarrow>
               if df_id f \<in> set ids then Inl ''duplicate fault id''
               else case validate_stage (df_kind f) maximum of
                      Inl e \<Rightarrow> Inl e
                    | Inr m \<Rightarrow> datagram_validate_loop (df_id f # ids) m fs)"

definition datagram_validate :: "datagram_plan \<Rightarrow> string + unit" where
  "datagram_validate p =
     (if 256 < length (dp_faults p) then Inl ''datagram plans are limited to 256 stages''
      else datagram_validate_loop [] 1 (dp_faults p))"

definition datagram_plan_new :: "datagram_fault_spec list \<Rightarrow> string + datagram_plan" where
  "datagram_plan_new fs =
     (let plan = \<lparr>dp_faults = fs\<rparr>
      in case datagram_validate plan of Inl e \<Rightarrow> Inl e | Inr _ \<Rightarrow> Inr plan)"

definition datagram_plan_empty :: datagram_plan where
  "datagram_plan_empty = \<lparr>dp_faults = []\<rparr>"

section \<open>Live publication\<close>

type_synonym published_datagram_policy = "datagram_plan published_policy"

definition datagram_live_new :: "datagram_plan \<Rightarrow> u64 \<Rightarrow> string + published_datagram_policy" where
  "datagram_live_new plan ns =
     (case datagram_validate plan of
        Inl e \<Rightarrow> Inl e
      | Inr _ \<Rightarrow> Inr \<lparr>generation = 1, pub_plan = plan, seed_namespace = ns\<rparr>)"

definition datagram_publish :: "datagram_plan \<Rightarrow> u64 \<Rightarrow> published_datagram_policy \<Rightarrow>
    (string + published_datagram_policy) \<times> published_datagram_policy" where
  "datagram_publish plan ns current =
     (case datagram_validate plan of
        Inl e \<Rightarrow> (Inl e, current)
      | Inr _ \<Rightarrow>
          if generation current = U64_MAX then (Inl ''generation overflow'', current)
          else (Inr (next_policy plan ns current), next_policy plan ns current))"

section \<open>What validation accepts\<close>

text \<open>The number of datagrams a stage makes of one, and the bounds of a stage.\<close>

fun stage_factor :: "datagram_fault_kind \<Rightarrow> nat" where
  "stage_factor (Duplicate copies) = copies + 1"
| "stage_factor _ = 1"

definition amplification :: "datagram_fault_spec list \<Rightarrow> nat" where
  "amplification fs = prod_list (map (stage_factor \<circ> df_kind) fs)"

fun stage_ok :: "datagram_fault_kind \<Rightarrow> bool" where
  "stage_ok (Duplicate copies) = (1 \<le> copies \<and> copies \<le> 16)"
| "stage_ok (Delay delay jitter) = (delay \<le> DATAGRAM_MAX_DURATION \<and> jitter \<le> DATAGRAM_MAX_DURATION)"
| "stage_ok (Reorder hold) = (hold \<le> DATAGRAM_MAX_DURATION)"
| "stage_ok _ = True"

definition dspec_ok :: "datagram_fault_spec \<Rightarrow> bool" where
  "dspec_ok f = (df_id f \<noteq> [] \<and> length (df_id f) \<le> 128 \<and> f64_is_finite (df_probability f) \<and>
     in_unit_interval (df_probability f) \<and> stage_ok (df_kind f))"

definition datagram_plan_ok :: "datagram_plan \<Rightarrow> bool" where
  "datagram_plan_ok p = (length (dp_faults p) \<le> 256 \<and> distinct (map df_id (dp_faults p)) \<and>
     list_all dspec_ok (dp_faults p) \<and> amplification (dp_faults p) \<le> 4096)"

lemma amplification_simps [simp]:
  "amplification [] = 1" "amplification (f # fs) = stage_factor (df_kind f) * amplification fs"
  by (simp_all add: amplification_def)

lemma stage_factor_pos: "0 < stage_factor k"
  by (cases k) simp_all

lemma amplification_pos: "0 < amplification fs"
  by (induction fs) (simp_all add: stage_factor_pos)

lemma small_product_exact: "m \<le> 4096 \<Longrightarrow> c \<le> 16 \<Longrightarrow> sat_mul64 m (Suc c) = m * Suc c"
  using mult_le_mono [of m 4096 "Suc c" 17] by (intro sat_mul64_exact) (simp add: U64_MAX_def)

lemma validate_stage_iff:
  "m \<le> 4096 \<Longrightarrow> validate_stage k m = Inr m' \<longleftrightarrow>
     stage_ok k \<and> m * stage_factor k \<le> 4096 \<and> m' = m * stage_factor k"
  by (cases k) (auto simp: Let_def small_product_exact not_less Suc_le_eq simp del: mult_Suc_right split: if_splits)

lemma datagram_validate_loop_iff:
  "m \<le> 4096 \<Longrightarrow> datagram_validate_loop ids m fs = Inr () \<longleftrightarrow>
     distinct (map df_id fs) \<and> set ids \<inter> df_id ` set fs = {} \<and> list_all dspec_ok fs \<and>
     m * amplification fs \<le> 4096"
proof (induction fs arbitrary: ids m)
  case (Cons f fs)
  show ?case
  proof (cases "validate_stage (df_kind f) m")
    case (Inl e)
    then have "\<not> (stage_ok (df_kind f) \<and> m * stage_factor (df_kind f) \<le> 4096)"
      using validate_stage_iff [OF Cons.prems, of "df_kind f"] by auto
    moreover have "m * (stage_factor (df_kind f) * amplification fs) \<le> 4096 \<Longrightarrow> m * stage_factor (df_kind f) \<le> 4096"
      using amplification_pos [of fs] by (cases "amplification fs") (auto simp: distrib_left)
    ultimately show ?thesis using Inl by (auto simp: dspec_ok_def split: sum.splits)
  next
    case (Inr m')
    then have "stage_ok (df_kind f)" "m' \<le> 4096" "m' = m * stage_factor (df_kind f)"
      using validate_stage_iff [OF Cons.prems] by auto
    then show ?thesis using Inr Cons.IH [of m' "df_id f # ids"]
      by (auto simp: dspec_ok_def probability_new_def mult.assoc not_less split: if_splits)
  qed
qed simp

lemma datagram_validate_iff: "datagram_validate p = Inr () \<longleftrightarrow> datagram_plan_ok p"
  by (simp add: datagram_validate_def datagram_plan_ok_def datagram_validate_loop_iff not_less [symmetric])

lemma datagram_validate_cases:
  obtains (valid) "datagram_validate p = Inr ()" "datagram_plan_ok p"
  | (invalid) e where "datagram_validate p = Inl e" "\<not> datagram_plan_ok p"
  using datagram_validate_iff [of p] by (cases "datagram_validate p") auto

lemma datagram_plan_new_iff: "datagram_plan_new fs = Inr p \<longleftrightarrow> p = \<lparr>dp_faults = fs\<rparr> \<and> datagram_plan_ok p"
  by (cases "\<lparr>dp_faults = fs\<rparr>" rule: datagram_validate_cases) (auto simp: datagram_plan_new_def)

lemma datagram_plan_empty_ok [simp]: "datagram_plan_ok datagram_plan_empty"
  by (simp add: datagram_plan_ok_def datagram_plan_empty_def)

section \<open>The publisher interface\<close>

lemma datagram_publish_cases:
  "datagram_publish p ns c = (res, c') \<Longrightarrow>
    (\<exists>e. res = Inl e \<and> c' = c) \<or>
    (datagram_plan_ok p \<and> generation c \<noteq> U64_MAX \<and> res = Inr (next_policy p ns c) \<and> c' = next_policy p ns c)"
  by (cases p rule: datagram_validate_cases) (auto simp: datagram_publish_def split: if_splits)

interpretation datagram_policy: generation_publisher datagram_publish datagram_plan_ok
proof (unfold_locales, goal_cases)
  case (1 c p ns r c')
  then show ?case by (auto dest!: datagram_publish_cases simp: next_policy_def sat_add64_def)
next
  case (2 p ns c e c')
  then show ?case by (auto dest!: datagram_publish_cases)
qed

end
