(* ===== verification/Schedule.thy ===== *)
theory Schedule
  imports DatagramPlan
begin

text \<open>
  Scenario V2 schedules, \<^verbatim>\<open>crates/eggchaos-experiment\<close>: the actions (\<^verbatim>\<open>action.rs\<close>), the source
  document and its structural check (\<^verbatim>\<open>source.rs\<close>), the errors (\<^verbatim>\<open>error.rs\<close>) and the pure
  compiler to a flat event tape (\<^verbatim>\<open>compiler.rs\<close>).

  \<open>compile_schedule\<close> is compared with a reference: the list of phases a schedule stands for, each
  with its start offset. Strings are the bytes of their UTF-8 encoding; \<^verbatim>\<open>usize\<close> has 64 bits.
\<close>

section \<open>Results\<close>

text \<open>The \<^verbatim>\<open>?\<close> operator, and a \<^verbatim>\<open>for\<close> loop whose body may return an error.\<close>

fun and_then :: "'e + 'a \<Rightarrow> ('a \<Rightarrow> 'e + 'b) \<Rightarrow> 'e + 'b" where
  "and_then (Inl e) f = Inl e"
| "and_then (Inr x) f = f x"

fun check_all :: "('a \<Rightarrow> 'e + unit) \<Rightarrow> 'a list \<Rightarrow> 'e + unit" where
  "check_all f [] = Inr ()"
| "check_all f (x # xs) = and_then (f x) (\<lambda>_. check_all f xs)"

lemma and_then_Inr: "and_then r f = Inr y \<longleftrightarrow> (\<exists>x. r = Inr x \<and> f x = Inr y)"
  by (cases r) simp_all

lemma check_all_Inr: "check_all f xs = Inr () \<longleftrightarrow> list_all (\<lambda>x. f x = Inr ()) xs"
  by (induction xs) (auto simp: and_then_Inr)

section \<open>Source documents\<close>

datatype scenario_action =
    SetPlan string direction "fault_spec list"
  | RemoveFault string direction string
  | SetDatagramPlan string direction "datagram_fault_spec list"
  | RemoveDatagramFault string direction string

datatype schedule_error =
    UnsupportedVersion nat
  | TooManyCompiledEvents nat
  | RepeatOutOfRange nat
  | TooManyPhases nat
  | TooManyRepeatPhases nat
  | TooManyPhaseActions nat
  | InvalidPhaseName
  | OffsetOverflow
  | EmptyPhase
  | EmptySchedule
  | InvalidStreamPlan string
  | InvalidDatagramPlan string

definition MAX_COMPILED_EVENTS :: nat where "MAX_COMPILED_EVENTS = 1024"
definition MAX_PHASES :: nat where "MAX_PHASES = 256"
definition MAX_PHASE_ACTIONS :: nat where "MAX_PHASE_ACTIONS = 64"
definition MAX_REPEAT_COUNT :: nat where "MAX_REPEAT_COUNT = 64"
definition MAX_PHASE_NAME_BYTES :: nat where "MAX_PHASE_NAME_BYTES = 128"
definition SCHEDULE_SCHEMA_VERSION :: nat where "SCHEDULE_SCHEMA_VERSION = 2"

datatype isolation_policy = Strict | Live
datatype cleanup_policy = RestoreInitial | Leave

record schedule_phase =
  ph_name :: "string option"
  ph_duration_ns :: nat
  ph_actions :: "scenario_action list"

record schedule_repeat =
  rp_count :: nat
  rp_phases :: "schedule_phase list"

record schedule =
  sc_version :: nat
  sc_seed :: u64
  sc_execution_key :: u64
  sc_isolation :: isolation_policy
  sc_cleanup :: cleanup_policy
  sc_phases :: "schedule_phase list"
  sc_repeat :: "schedule_repeat option"

definition check_phase :: "schedule_phase \<Rightarrow> schedule_error + unit" where
  "check_phase ph =
     (if ph_actions ph = [] then Inl EmptyPhase
      else if MAX_PHASE_ACTIONS < length (ph_actions ph) then Inl (TooManyPhaseActions (length (ph_actions ph)))
      else case ph_name ph of
             Some name \<Rightarrow> if name = [] \<or> MAX_PHASE_NAME_BYTES < length name then Inl InvalidPhaseName else Inr ()
           | None \<Rightarrow> Inr ())"

definition check_repeat_shape :: "schedule_repeat option \<Rightarrow> schedule_error + unit" where
  "check_repeat_shape rep =
     (case rep of
        None \<Rightarrow> Inr ()
      | Some r \<Rightarrow>
          if rp_count r = 0 \<or> MAX_REPEAT_COUNT < rp_count r then Inl (RepeatOutOfRange (rp_count r))
          else if MAX_PHASES < length (rp_phases r) then Inl (TooManyRepeatPhases (length (rp_phases r)))
          else Inr ())"

definition check_repeat_phases :: "schedule_repeat option \<Rightarrow> schedule_error + unit" where
  "check_repeat_phases rep =
     (case rep of
        None \<Rightarrow> Inr ()
      | Some r \<Rightarrow> if rp_phases r = [] then Inl EmptySchedule else check_all check_phase (rp_phases r))"

text \<open>
  The flags \<^verbatim>\<open>any_top_action\<close> and \<^verbatim>\<open>any_repeat_action\<close> of the source say whether their loops
  ran at all.
\<close>

definition check_structure :: "schedule \<Rightarrow> schedule_error + unit" where
  "check_structure src =
     (if sc_version src \<noteq> SCHEDULE_SCHEMA_VERSION then Inl (UnsupportedVersion (sc_version src))
      else if MAX_PHASES < length (sc_phases src) then Inl (TooManyPhases (length (sc_phases src)))
      else
        and_then (check_repeat_shape (sc_repeat src)) (\<lambda>_.
        and_then (check_all check_phase (sc_phases src)) (\<lambda>_.
        and_then (check_repeat_phases (sc_repeat src)) (\<lambda>_.
          if sc_phases src = [] \<and> (case sc_repeat src of None \<Rightarrow> True | Some r \<Rightarrow> rp_phases r = [])
          then Inl EmptySchedule else Inr ()))))"

definition flattened_phases :: "schedule \<Rightarrow> schedule_phase list" where
  "flattened_phases src =
     sc_phases src @ (case sc_repeat src of None \<Rightarrow> [] | Some r \<Rightarrow> concat (replicate (rp_count r) (rp_phases r)))"

section \<open>The compiler\<close>

definition COMPILER_SEMANTICS_VERSION :: nat where "COMPILER_SEMANTICS_VERSION = 1"

datatype phase_identity =
    TopPhase nat
  | RepeatPhase nat nat

record compiled_event =
  ce_compiled_index :: nat
  ce_phase :: phase_identity
  ce_offset_ns :: nat
  ce_action :: scenario_action

record compiled_scenario =
  sn_compiler_semantics_version :: nat
  sn_seed :: u64
  sn_execution_key :: u64
  sn_isolation :: isolation_policy
  sn_cleanup :: cleanup_policy
  sn_events :: "compiled_event list"
  sn_total_duration_ns :: nat

definition check_event_count :: "nat \<Rightarrow> schedule_error + unit" where
  "check_event_count n = (if MAX_COMPILED_EVENTS < n then Inl (TooManyCompiledEvents n) else Inr ())"

definition phase_target_offset :: "nat \<Rightarrow> nat \<Rightarrow> schedule_error + nat" where
  "phase_target_offset running duration_ns =
     (case checked_add64 running duration_ns of None \<Rightarrow> Inl OffsetOverflow | Some t \<Rightarrow> Inr t)"

text \<open>\<^verbatim>\<open>Display\<close> of the validation errors of \<^verbatim>\<open>plan.rs\<close>.\<close>

fun validation_error_display :: "validation_error \<Rightarrow> string" where
  "validation_error_display ProbabilityOutOfRange = ''probability must be finite and between 0 and 1''"
| "validation_error_display InvalidFaultId = ''fault id must be 1..=128 bytes''"
| "validation_error_display (DuplicateFaultId i) = ''duplicate fault id: '' @ i"
| "validation_error_display ZeroCapacity = ''fault buffer capacity must be non-zero''"
| "validation_error_display InvalidSlice = ''slice variation must be smaller than average size''"
| "validation_error_display InvalidRate = ''bandwidth rate and burst must be non-zero''"
| "validation_error_display ZeroLimit = ''limit_data bytes must be non-zero''"
| "validation_error_display DurationTooLong = ''fault delay duration must be at most 24 hours''"
| "validation_error_display TooManyFaults = ''fault plans are limited to 256 stages''"
| "validation_error_display GenerationOverflow = ''policy generation overflowed''"

fun validate_action :: "scenario_action \<Rightarrow> schedule_error + unit" where
  "validate_action (SetPlan proxy dir faults) =
     (case fault_plan_new faults of
        Inl e \<Rightarrow> Inl (InvalidStreamPlan (validation_error_display e)) | Inr _ \<Rightarrow> Inr ())"
| "validate_action (SetDatagramPlan proxy dir faults) =
     (case datagram_plan_new faults of Inl e \<Rightarrow> Inl (InvalidDatagramPlan e) | Inr _ \<Rightarrow> Inr ())"
| "validate_action (RemoveFault proxy dir fid) =
     (case fault_id_new fid of
        Inl e \<Rightarrow> Inl (InvalidStreamPlan (validation_error_display e)) | Inr _ \<Rightarrow> Inr ())"
| "validate_action (RemoveDatagramFault proxy dir fid) =
     (case fault_id_new fid of
        Inl e \<Rightarrow> Inl (InvalidStreamPlan (validation_error_display e)) | Inr _ \<Rightarrow> Inr ())"

definition validate_phase_actions :: "schedule_phase \<Rightarrow> schedule_error + unit" where
  "validate_phase_actions ph =
     (if MAX_PHASE_ACTIONS < length (ph_actions ph) then Inl (TooManyPhaseActions (length (ph_actions ph)))
      else check_all validate_action (ph_actions ph))"

text \<open>The counting pass; the \<^verbatim>\<open>usize\<close> sum is checked.\<close>

fun count_events :: "nat \<Rightarrow> schedule_phase list \<Rightarrow> schedule_error + nat" where
  "count_events acc [] = Inr acc"
| "count_events acc (ph # phs) =
     (case checked_add64 acc (length (ph_actions ph)) of
        None \<Rightarrow> Inl (TooManyCompiledEvents (MAX_COMPILED_EVENTS + 1))
      | Some t \<Rightarrow> count_events t phs)"

text \<open>The loop variables \<^verbatim>\<open>events\<close>, \<^verbatim>\<open>cursor_ns\<close> and \<^verbatim>\<open>compiled_index\<close>.\<close>

record tape =
  tp_events :: "compiled_event list"
  tp_cursor_ns :: nat
  tp_compiled_index :: nat

fun push_actions :: "phase_identity \<Rightarrow> scenario_action list \<Rightarrow> tape \<Rightarrow> tape" where
  "push_actions ident [] t = t"
| "push_actions ident (a # as) t =
     push_actions ident as
       (t\<lparr>tp_events := tp_events t @ [\<lparr>ce_compiled_index = tp_compiled_index t, ce_phase = ident,
                                       ce_offset_ns = tp_cursor_ns t, ce_action = a\<rparr>],
          tp_compiled_index := tp_compiled_index t + 1\<rparr>)"

definition push_phase :: "phase_identity \<Rightarrow> schedule_phase \<Rightarrow> tape \<Rightarrow> schedule_error + tape" where
  "push_phase ident ph t0 =
     (let t = push_actions ident (ph_actions ph) t0
      in and_then (phase_target_offset (tp_cursor_ns t) (ph_duration_ns ph)) (\<lambda>c. Inr (t\<lparr>tp_cursor_ns := c\<rparr>)))"

fun compile_top :: "nat \<Rightarrow> schedule_phase list \<Rightarrow> tape \<Rightarrow> schedule_error + tape" where
  "compile_top top_idx [] t = Inr t"
| "compile_top top_idx (ph # phs) t =
     and_then (validate_phase_actions ph) (\<lambda>_.
     and_then (push_phase (TopPhase top_idx) ph t) (compile_top (Suc top_idx) phs))"

fun compile_iteration :: "nat \<Rightarrow> nat \<Rightarrow> schedule_phase list \<Rightarrow> tape \<Rightarrow> schedule_error + tape" where
  "compile_iteration iteration phase_idx [] t = Inr t"
| "compile_iteration iteration phase_idx (ph # phs) t =
     and_then (push_phase (RepeatPhase (iteration + 1) phase_idx) ph t)
       (compile_iteration iteration (Suc phase_idx) phs)"

text \<open>\<open>k\<close> iterations from \<open>iteration\<close> on.\<close>

fun compile_iterations :: "nat \<Rightarrow> nat \<Rightarrow> schedule_phase list \<Rightarrow> tape \<Rightarrow> schedule_error + tape" where
  "compile_iterations 0 iteration phs t = Inr t"
| "compile_iterations (Suc k) iteration phs t =
     and_then (compile_iteration iteration 0 phs t) (compile_iterations k (Suc iteration) phs)"

definition compile_repeat :: "schedule_repeat option \<Rightarrow> tape \<Rightarrow> schedule_error + tape" where
  "compile_repeat rep t =
     (case rep of
        None \<Rightarrow> Inr t
      | Some r \<Rightarrow>
          if MAX_REPEAT_COUNT < rp_count r then Inl (RepeatOutOfRange (rp_count r))
          else if MAX_PHASES < length (rp_phases r) then Inl (TooManyRepeatPhases (length (rp_phases r)))
          else and_then (check_all validate_phase_actions (rp_phases r)) (\<lambda>_.
                 compile_iterations (rp_count r) 0 (rp_phases r) t))"

definition compile_schedule :: "schedule \<Rightarrow> schedule_error + compiled_scenario" where
  "compile_schedule src =
     and_then (check_structure src) (\<lambda>_.
     and_then (count_events 0 (flattened_phases src)) (\<lambda>n.
     and_then (check_event_count n) (\<lambda>_.
     and_then (compile_top 0 (sc_phases src) \<lparr>tp_events = [], tp_cursor_ns = 0, tp_compiled_index = 0\<rparr>) (\<lambda>t1.
     and_then (compile_repeat (sc_repeat src) t1) (\<lambda>t.
       if MAX_COMPILED_EVENTS < length (tp_events t) then Inl (TooManyCompiledEvents (length (tp_events t)))
       else Inr \<lparr>sn_compiler_semantics_version = COMPILER_SEMANTICS_VERSION, sn_seed = sc_seed src,
                 sn_execution_key = sc_execution_key src, sn_isolation = sc_isolation src,
                 sn_cleanup = sc_cleanup src, sn_events = tp_events t,
                 sn_total_duration_ns = tp_cursor_ns t\<rparr>)))))"

definition expanded_event_count :: "schedule \<Rightarrow> nat" where
  "expanded_event_count src = fold (\<lambda>ph n. sat_add64 n (length (ph_actions ph))) (flattened_phases src) 0"

section \<open>The reference: what a schedule stands for\<close>

text \<open>The phases in the order they run, with their identities.\<close>

definition expansion :: "schedule \<Rightarrow> (phase_identity \<times> schedule_phase) list" where
  "expansion src =
     zip (map TopPhase [0..<length (sc_phases src)]) (sc_phases src) @
     (case sc_repeat src of
        None \<Rightarrow> []
      | Some r \<Rightarrow> concat (map (\<lambda>it. zip (map (RepeatPhase (it + 1)) [0..<length (rp_phases r)]) (rp_phases r))
                             [0..<rp_count r]))"

text \<open>
  The events of a list of phases that starts at offset \<open>c\<close>: every action of a phase happens at the
  start of the phase, which is the sum of the durations before it.
\<close>

fun timeline :: "nat \<Rightarrow> (phase_identity \<times> schedule_phase) list \<Rightarrow> (phase_identity \<times> nat \<times> scenario_action) list" where
  "timeline c [] = []"
| "timeline c ((ident, ph) # phs) =
     map (\<lambda>a. (ident, c, a)) (ph_actions ph) @ timeline (c + ph_duration_ns ph) phs"

definition total_duration :: "(phase_identity \<times> schedule_phase) list \<Rightarrow> nat" where
  "total_duration phs = (\<Sum>(ident, ph)\<leftarrow>phs. ph_duration_ns ph)"

definition numbered :: "nat \<Rightarrow> (phase_identity \<times> nat \<times> scenario_action) list \<Rightarrow> compiled_event list" where
  "numbered n evs = map (\<lambda>(i, ident, offset, a). \<lparr>ce_compiled_index = i, ce_phase = ident, ce_offset_ns = offset, ce_action = a\<rparr>)
     (zip [n..<n + length evs] evs)"

text \<open>The documents the compiler accepts.\<close>

fun action_ok :: "scenario_action \<Rightarrow> bool" where
  "action_ok (SetPlan proxy dir faults) = (\<exists>p. fault_plan_new faults = Inr p)"
| "action_ok (SetDatagramPlan proxy dir faults) = datagram_plan_ok \<lparr>dp_faults = faults\<rparr>"
| "action_ok (RemoveFault proxy dir fid) = (fid \<noteq> [] \<and> length fid \<le> 128)"
| "action_ok (RemoveDatagramFault proxy dir fid) = (fid \<noteq> [] \<and> length fid \<le> 128)"

definition phase_ok :: "schedule_phase \<Rightarrow> bool" where
  "phase_ok ph = (ph_actions ph \<noteq> [] \<and> length (ph_actions ph) \<le> MAX_PHASE_ACTIONS \<and>
     (case ph_name ph of None \<Rightarrow> True | Some n \<Rightarrow> n \<noteq> [] \<and> length n \<le> MAX_PHASE_NAME_BYTES) \<and>
     list_all action_ok (ph_actions ph))"

definition repeat_ok :: "schedule_repeat \<Rightarrow> bool" where
  "repeat_ok r = (1 \<le> rp_count r \<and> rp_count r \<le> MAX_REPEAT_COUNT \<and> rp_phases r \<noteq> [] \<and>
     length (rp_phases r) \<le> MAX_PHASES \<and> list_all phase_ok (rp_phases r))"

definition schedule_ok :: "schedule \<Rightarrow> bool" where
  "schedule_ok src = (sc_version src = 2 \<and> length (sc_phases src) \<le> MAX_PHASES \<and>
     list_all phase_ok (sc_phases src) \<and>
     (case sc_repeat src of None \<Rightarrow> sc_phases src \<noteq> [] | Some r \<Rightarrow> repeat_ok r) \<and>
     length (timeline 0 (expansion src)) \<le> MAX_COMPILED_EVENTS \<and> total_duration (expansion src) \<le> U64_MAX)"

definition reference_tape :: "schedule \<Rightarrow> compiled_scenario" where
  "reference_tape src =
     \<lparr>sn_compiler_semantics_version = 1, sn_seed = sc_seed src, sn_execution_key = sc_execution_key src,
      sn_isolation = sc_isolation src, sn_cleanup = sc_cleanup src,
      sn_events = numbered 0 (timeline 0 (expansion src)), sn_total_duration_ns = total_duration (expansion src)\<rparr>"

section \<open>Compilation is expansion\<close>

lemma numbered_simps [simp]:
  "numbered n [] = []"
  "numbered n (ev # evs) = \<lparr>ce_compiled_index = n, ce_phase = fst ev, ce_offset_ns = fst (snd ev), ce_action = snd (snd ev)\<rparr> # numbered (Suc n) evs"
  by (cases ev; simp add: numbered_def upt_conv_Cons del: upt_Suc)+

lemma numbered_append: "numbered n (xs @ ys) = numbered n xs @ numbered (n + length xs) ys"
  by (induction xs arbitrary: n) simp_all

lemma length_numbered [simp]: "length (numbered n evs) = length evs"
  by (simp add: numbered_def)

lemma timeline_append: "timeline c (xs @ ys) = timeline c xs @ timeline (c + total_duration xs) ys"
  by (induction xs arbitrary: c) (auto simp: total_duration_def add.assoc)

lemma total_duration_simps [simp]:
  "total_duration [] = 0" "total_duration ((ident, ph) # phs) = ph_duration_ns ph + total_duration phs"
  "total_duration (xs @ ys) = total_duration xs + total_duration ys"
  by (simp_all add: total_duration_def)

lemma length_timeline: "length (timeline c phs) = (\<Sum>(ident, ph)\<leftarrow>phs. length (ph_actions ph))"
  by (induction phs arbitrary: c) auto

text \<open>A tape that extends another by the events of \<open>phs\<close>.\<close>

definition extend :: "(phase_identity \<times> schedule_phase) list \<Rightarrow> tape \<Rightarrow> tape" where
  "extend phs t =
     \<lparr>tp_events = tp_events t @ numbered (tp_compiled_index t) (timeline (tp_cursor_ns t) phs),
      tp_cursor_ns = tp_cursor_ns t + total_duration phs,
      tp_compiled_index = tp_compiled_index t + length (timeline (tp_cursor_ns t) phs)\<rparr>"

lemma extend_extend: "extend ys (extend xs t) = extend (xs @ ys) t"
  by (simp add: extend_def timeline_append numbered_append)

lemma extend_cursor [simp]: "tp_cursor_ns (extend phs t) = tp_cursor_ns t + total_duration phs"
  by (simp add: extend_def)

lemma extend_nil [simp]: "extend [] t = t"
  by (simp add: extend_def)

lemma push_actions_tape:
  "push_actions ident as t =
     \<lparr>tp_events = tp_events t @ numbered (tp_compiled_index t) (map (\<lambda>a. (ident, tp_cursor_ns t, a)) as),
      tp_cursor_ns = tp_cursor_ns t, tp_compiled_index = tp_compiled_index t + length as\<rparr>"
  by (induction as arbitrary: t) simp_all

lemma push_phase_iff:
  "push_phase ident ph t = Inr t' \<longleftrightarrow>
     tp_cursor_ns t + ph_duration_ns ph \<le> U64_MAX \<and> t' = extend [(ident, ph)] t"
  by (auto simp: push_phase_def push_actions_tape phase_target_offset_def checked_add64_def extend_def Let_def)

lemma compile_top_iff:
  "compile_top i phs t = Inr t' \<longleftrightarrow>
     list_all (\<lambda>ph. validate_phase_actions ph = Inr ()) phs \<and>
     (phs = [] \<or> tp_cursor_ns t + total_duration (zip (map TopPhase [i..<i + length phs]) phs) \<le> U64_MAX) \<and>
     t' = extend (zip (map TopPhase [i..<i + length phs]) phs) t"
proof (induction phs arbitrary: i t)
  case (Cons ph phs)
  show ?case
    by (auto simp: and_then_Inr push_phase_iff Cons.IH upt_conv_Cons extend_extend add.assoc simp del: upt_Suc)
qed auto

lemma compile_iteration_iff:
  "compile_iteration it i phs t = Inr t' \<longleftrightarrow>
     (phs = [] \<or> tp_cursor_ns t + total_duration (zip (map (RepeatPhase (it + 1)) [i..<i + length phs]) phs) \<le> U64_MAX) \<and>
     t' = extend (zip (map (RepeatPhase (it + 1)) [i..<i + length phs]) phs) t"
proof (induction phs arbitrary: i t)
  case (Cons ph phs)
  show ?case
    by (auto simp: and_then_Inr push_phase_iff Cons.IH upt_conv_Cons extend_extend add.assoc simp del: upt_Suc)
qed auto

lemma compile_iterations_iff:
  assumes "phs \<noteq> []"
  shows "compile_iterations k it phs t = Inr t' \<longleftrightarrow>
     (let block = concat (map (\<lambda>it. zip (map (RepeatPhase (it + 1)) [0..<length phs]) phs) [it..<it + k])
      in (k = 0 \<or> tp_cursor_ns t + total_duration block \<le> U64_MAX) \<and> t' = extend block t)"
proof (induction k arbitrary: it t)
  case (Suc k)
  show ?case using assms
    by (auto simp: and_then_Inr compile_iteration_iff Suc.IH upt_conv_Cons extend_extend Let_def add.assoc simp del: upt_Suc)
qed auto

lemma map_snd_zip_upt: "map snd (zip (map f [0..<length xs]) xs) = xs"
  by simp

lemma expansion_phases: "map snd (expansion src) = flattened_phases src"
  by (cases "sc_repeat src")
    (auto simp: expansion_def flattened_phases_def map_concat comp_def map_replicate_const)

lemma length_timeline_expansion: "length (timeline c (expansion src)) = (\<Sum>ph\<leftarrow>flattened_phases src. length (ph_actions ph))"
  by (simp add: length_timeline comp_def case_prod_unfold flip: expansion_phases)

lemma count_events_iff:
  "acc \<le> U64_MAX \<Longrightarrow> count_events acc phs = Inr n \<longleftrightarrow>
     n = acc + (\<Sum>ph\<leftarrow>phs. length (ph_actions ph)) \<and> n \<le> U64_MAX"
proof (induction phs arbitrary: acc)
  case (Cons ph phs)
  show ?case
  proof (cases "acc + length (ph_actions ph) \<le> U64_MAX")
    case True
    then show ?thesis using Cons.IH [OF True] by (simp add: checked_add64_def add.assoc)
  next
    case False
    then show ?thesis by (simp add: checked_add64_def)
  qed
qed auto

lemma validate_action_iff: "validate_action a = Inr () \<longleftrightarrow> action_ok a"
proof (cases a)
  case (SetDatagramPlan proxy dir faults)
  show ?thesis
  proof (cases "datagram_plan_ok \<lparr>dp_faults = faults\<rparr>")
    case True
    then have "datagram_plan_new faults = Inr \<lparr>dp_faults = faults\<rparr>" by (simp only: datagram_plan_new_iff)
    then show ?thesis using SetDatagramPlan True by simp
  next
    case False
    then have "datagram_plan_new faults \<noteq> Inr p" for p by (auto simp only: datagram_plan_new_iff)
    then show ?thesis using SetDatagramPlan False by (cases "datagram_plan_new faults") auto
  qed
qed (auto simp: fault_id_new_def split: sum.splits if_splits)

lemma validate_phase_actions_iff:
  "validate_phase_actions ph = Inr () \<longleftrightarrow> length (ph_actions ph) \<le> MAX_PHASE_ACTIONS \<and> list_all action_ok (ph_actions ph)"
  by (simp add: validate_phase_actions_def check_all_Inr validate_action_iff)

lemma check_phase_iff:
  "check_phase ph = Inr () \<and> validate_phase_actions ph = Inr () \<longleftrightarrow> phase_ok ph"
  by (auto simp: check_phase_def phase_ok_def validate_phase_actions_iff not_less split: option.splits)

lemma check_structure_iff:
  "check_structure src = Inr () \<longleftrightarrow>
     sc_version src = 2 \<and> length (sc_phases src) \<le> MAX_PHASES \<and> list_all (\<lambda>ph. check_phase ph = Inr ()) (sc_phases src) \<and>
     (case sc_repeat src of
        None \<Rightarrow> sc_phases src \<noteq> []
      | Some r \<Rightarrow> 1 \<le> rp_count r \<and> rp_count r \<le> MAX_REPEAT_COUNT \<and> rp_phases r \<noteq> [] \<and>
          length (rp_phases r) \<le> MAX_PHASES \<and> list_all (\<lambda>ph. check_phase ph = Inr ()) (rp_phases r))"
  by (auto simp: check_structure_def SCHEDULE_SCHEMA_VERSION_def and_then_Inr check_repeat_shape_def check_repeat_phases_def
      check_all_Inr not_less split: option.splits)

lemma compile_repeat_iff:
  assumes "case rep of None \<Rightarrow> True
    | Some r \<Rightarrow> 1 \<le> rp_count r \<and> rp_count r \<le> MAX_REPEAT_COUNT \<and> rp_phases r \<noteq> [] \<and> length (rp_phases r) \<le> MAX_PHASES"
    and "tp_cursor_ns t \<le> U64_MAX"
  shows "compile_repeat rep t = Inr t' \<longleftrightarrow>
    (let block = (case rep of None \<Rightarrow> []
       | Some r \<Rightarrow> concat (map (\<lambda>it. zip (map (RepeatPhase (it + 1)) [0..<length (rp_phases r)]) (rp_phases r)) [0..<rp_count r]))
     in (case rep of None \<Rightarrow> True | Some r \<Rightarrow> list_all (\<lambda>ph. validate_phase_actions ph = Inr ()) (rp_phases r)) \<and>
        tp_cursor_ns t + total_duration block \<le> U64_MAX \<and> t' = extend block t)"
proof (cases rep)
  case (Some r)
  then show ?thesis using assms compile_iterations_iff [of "rp_phases r" "rp_count r" 0 t t']
    by (auto simp: compile_repeat_def and_then_Inr check_all_Inr Let_def)
qed (use assms in \<open>auto simp: compile_repeat_def\<close>)

lemma list_all_conj: "list_all (\<lambda>x. P x \<and> Q x) xs \<longleftrightarrow> list_all P xs \<and> list_all Q xs"
  by (auto simp: list_all_iff)

lemma phases_ok_iff:
  "list_all (\<lambda>ph. check_phase ph = Inr ()) phs \<and> list_all (\<lambda>ph. validate_phase_actions ph = Inr ()) phs \<longleftrightarrow> list_all phase_ok phs"
  unfolding list_all_conj [symmetric] check_phase_iff ..

lemma compile_schedule_iff: "compile_schedule src = Inr c \<longleftrightarrow> schedule_ok src \<and> c = reference_tape src"
proof (cases "check_structure src = Inr () \<and> length (timeline 0 (expansion src)) \<le> MAX_COMPILED_EVENTS")
  case True
  let ?t0 = "\<lparr>tp_events = [], tp_cursor_ns = 0, tp_compiled_index = 0\<rparr>"
  define top where "top = zip (map TopPhase [0..<length (sc_phases src)]) (sc_phases src)"
  define block where "block = (case sc_repeat src of None \<Rightarrow> []
    | Some r \<Rightarrow> concat (map (\<lambda>it. zip (map (RepeatPhase (it + 1)) [0..<length (rp_phases r)]) (rp_phases r)) [0..<rp_count r]))"
  define ok where "ok = (list_all (\<lambda>ph. validate_phase_actions ph = Inr ()) (sc_phases src) \<and>
    (case sc_repeat src of None \<Rightarrow> True | Some r \<Rightarrow> list_all (\<lambda>ph. validate_phase_actions ph = Inr ()) (rp_phases r)))"
  have exp: "expansion src = top @ block" by (simp add: expansion_def top_def block_def)
  have small: "MAX_COMPILED_EVENTS \<le> U64_MAX" by (simp add: MAX_COMPILED_EVENTS_def U64_MAX_def)
  have count: "count_events 0 (flattened_phases src) = Inr (length (timeline 0 (expansion src)))"
    using True small count_events_iff [of 0 "flattened_phases src"] by (simp add: length_timeline_expansion)
  have shape: "case sc_repeat src of None \<Rightarrow> True
    | Some r \<Rightarrow> 1 \<le> rp_count r \<and> rp_count r \<le> MAX_REPEAT_COUNT \<and> rp_phases r \<noteq> [] \<and> length (rp_phases r) \<le> MAX_PHASES"
    using True by (auto simp: check_structure_iff split: option.splits)
  have top: "compile_top 0 (sc_phases src) ?t0 = Inr t1 \<longleftrightarrow>
      list_all (\<lambda>ph. validate_phase_actions ph = Inr ()) (sc_phases src) \<and> total_duration top \<le> U64_MAX \<and> t1 = extend top ?t0" for t1
    using compile_top_iff [of 0 "sc_phases src" ?t0 t1] by (auto simp: top_def)
  have rep: "compile_repeat (sc_repeat src) (extend top ?t0) = Inr t \<longleftrightarrow>
      (case sc_repeat src of None \<Rightarrow> True | Some r \<Rightarrow> list_all (\<lambda>ph. validate_phase_actions ph = Inr ()) (rp_phases r)) \<and>
      total_duration (expansion src) \<le> U64_MAX \<and> t = extend (expansion src) ?t0" if "total_duration top \<le> U64_MAX" for t
    using that compile_repeat_iff [OF shape, of "extend top ?t0" t]
    by (simp add: Let_def extend_extend exp flip: block_def)
  have "compile_schedule src = Inr c \<longleftrightarrow> ok \<and> total_duration (expansion src) \<le> U64_MAX \<and> c = reference_tape src"
  proof (cases "total_duration top \<le> U64_MAX")
    case bounded: True
    have ext: "extend (expansion src) ?t0 = \<lparr>tp_events = numbered 0 (timeline 0 (expansion src)),
        tp_cursor_ns = total_duration (expansion src), tp_compiled_index = length (timeline 0 (expansion src))\<rparr>"
      by (simp add: extend_def)
    show ?thesis using True
      by (auto simp: compile_schedule_def count check_event_count_def and_then_Inr top rep [OF bounded] bounded ok_def ext
          reference_tape_def COMPILER_SEMANTICS_VERSION_def)
  next
    case False
    then show ?thesis using exp True
      by (simp add: compile_schedule_def count check_event_count_def and_then_Inr top)
  qed
  moreover have "schedule_ok src \<longleftrightarrow> ok \<and> total_duration (expansion src) \<le> U64_MAX"
    using True by (auto simp: ok_def schedule_ok_def check_structure_iff repeat_ok_def phases_ok_iff [symmetric] split: option.splits)
  ultimately show ?thesis by blast
next
  case False
  then have "\<not> schedule_ok src"
    by (auto simp: schedule_ok_def check_structure_iff repeat_ok_def phases_ok_iff [symmetric] split: option.splits)
  moreover have "compile_schedule src \<noteq> Inr c"
    using False count_events_iff [of 0 "flattened_phases src"]
    by (auto simp: compile_schedule_def and_then_Inr check_event_count_def length_timeline_expansion not_less)
  ultimately show ?thesis by blast
qed

section \<open>The shape of a tape\<close>

lemma timeline_bounds:
  "ev \<in> set (timeline c phs) \<Longrightarrow> c \<le> fst (snd ev) \<and> fst (snd ev) \<le> c + total_duration phs"
proof (induction phs arbitrary: c)
  case (Cons p phs)
  obtain ident ph where p: "p = (ident, ph)" by (cases p)
  then show ?case using Cons.prems Cons.IH [of "c + ph_duration_ns ph"] by auto
qed simp

lemma timeline_sorted: "sorted (map (fst \<circ> snd) (timeline c phs))"
proof (induction phs arbitrary: c)
  case (Cons p phs)
  obtain ident ph where p: "p = (ident, ph)" by (cases p)
  have "sorted (map (\<lambda>a. c) (ph_actions ph))" by (simp add: map_replicate_const sorted_replicate)
  moreover have "c \<le> t" if "t \<in> set (map (fst \<circ> snd) (timeline (c + ph_duration_ns ph) phs))" for t
    using that timeline_bounds [of _ "c + ph_duration_ns ph" phs] by fastforce
  ultimately show ?case using Cons.IH [of "c + ph_duration_ns ph"] p
    by (simp add: sorted_append comp_def)
qed simp

lemma timeline_actions:
  "ev \<in> set (timeline c phs) \<Longrightarrow> \<exists>ph \<in> snd ` set phs. snd (snd ev) \<in> set (ph_actions ph)"
proof (induction phs arbitrary: c)
  case (Cons p phs)
  obtain ident ph where p: "p = (ident, ph)" by (cases p)
  then show ?case using Cons.prems Cons.IH [of "c + ph_duration_ns ph"] by auto
qed simp

lemma numbered_fields:
  "map ce_offset_ns (numbered n evs) = map (fst \<circ> snd) evs"
  "map ce_action (numbered n evs) = map (snd \<circ> snd) evs"
  "map ce_compiled_index (numbered n evs) = [n..<n + length evs]"
  by (induction evs arbitrary: n) (simp_all add: upt_conv_Cons del: upt_Suc)

lemma schedule_ok_phases: "schedule_ok src \<Longrightarrow> list_all phase_ok (flattened_phases src)"
  by (auto simp: schedule_ok_def flattened_phases_def repeat_ok_def list_all_iff split: option.splits)

lemma expansion_nonempty: "schedule_ok src \<Longrightarrow> flattened_phases src \<noteq> []"
  by (auto simp: schedule_ok_def flattened_phases_def repeat_ok_def split: option.splits)

lemma flattened_actions_nonempty: "list_all phase_ok phs \<Longrightarrow> phs \<noteq> [] \<Longrightarrow> 0 < (\<Sum>ph\<leftarrow>phs. length (ph_actions ph))"
  by (cases phs) (auto simp: phase_ok_def)

section \<open>Properties\<close>

text \<open>
  C29. Compilation is expansion. The compiler accepts exactly the well-formed documents, and the tape it
  returns is the reference: the phases in order, the repeat block unrolled as often as it says, every
  action at the start of its phase, numbered consecutively.
\<close>

theorem compile_is_expansion: "compile_schedule src = Inr c \<longleftrightarrow> schedule_ok src \<and> c = reference_tape src"
  by (rule compile_schedule_iff)

text \<open>
  C30. Tapes are ordered and bounded. A compiled tape has between one and 1024 events, event \<open>i\<close> carries
  index \<open>i\<close>, the offsets never decrease and stay within the total duration, which fits 64 bits, and
  every plan an event publishes is valid.
\<close>

theorem tape_ordered:
  assumes "compile_schedule src = Inr c"
  shows "0 < length (sn_events c) \<and> length (sn_events c) \<le> 1024 \<and>
    map ce_compiled_index (sn_events c) = [0..<length (sn_events c)] \<and> sorted (map ce_offset_ns (sn_events c)) \<and>
    list_all (\<lambda>t. t \<le> sn_total_duration_ns c) (map ce_offset_ns (sn_events c)) \<and> sn_total_duration_ns c \<le> U64_MAX \<and>
    list_all action_ok (map ce_action (sn_events c))"
proof -
  have ok: "schedule_ok src" and c: "c = reference_tape src" using assms by (simp_all add: compile_schedule_iff)
  have phases: "list_all phase_ok (flattened_phases src)" by (rule schedule_ok_phases [OF ok])
  have "action_ok (snd (snd ev))" if ev: "ev \<in> set (timeline 0 (expansion src))" for ev
  proof -
    obtain ph where "ph \<in> set (map snd (expansion src))" "snd (snd ev) \<in> set (ph_actions ph)"
      using timeline_actions [OF ev] by auto
    then show ?thesis using phases by (auto simp: expansion_phases list_all_iff phase_ok_def)
  qed
  moreover have "0 < length (timeline 0 (expansion src))"
    unfolding length_timeline_expansion by (rule flattened_actions_nonempty [OF phases expansion_nonempty [OF ok]])
  moreover have "list_all (\<lambda>ev. fst (snd ev) \<le> total_duration (expansion src)) (timeline 0 (expansion src))"
    using timeline_bounds [of _ 0 "expansion src"] by (simp add: list_all_iff)
  ultimately show ?thesis using ok timeline_sorted [of 0 "expansion src"]
    by (simp add: c reference_tape_def numbered_fields schedule_ok_def MAX_COMPILED_EVENTS_def list.pred_map comp_def)
      (simp add: list_all_iff)
qed

definition example_phase :: "string \<Rightarrow> nat \<Rightarrow> schedule_phase" where
  "example_phase fid d = \<lparr>ph_name = None, ph_duration_ns = d, ph_actions = [RemoveFault ''p'' Upstream fid]\<rparr>"

definition example_schedule :: schedule where
  "example_schedule = \<lparr>sc_version = 2, sc_seed = 1, sc_execution_key = 2, sc_isolation = Strict, sc_cleanup = Leave,
     sc_phases = [example_phase ''a'' 5], sc_repeat = Some \<lparr>rp_count = 2, rp_phases = [example_phase ''b'' 7]\<rparr>\<rparr>"

lemma example_schedule_compiles: "compile_schedule example_schedule = Inr (reference_tape example_schedule)"
  by (simp add: compile_schedule_iff schedule_ok_def example_schedule_def example_phase_def phase_ok_def repeat_ok_def
      expansion_def upt_conv_Cons MAX_PHASES_def MAX_PHASE_ACTIONS_def MAX_REPEAT_COUNT_def MAX_COMPILED_EVENTS_def U64_MAX_def)

theorem tape_ordered_witness:
  "map ce_offset_ns (sn_events (reference_tape example_schedule)) = [0, 5, 12] \<and>
   sorted (map ce_offset_ns (sn_events (reference_tape example_schedule))) \<and>
   map ce_compiled_index (sn_events (reference_tape example_schedule)) = [0, 1, 2] \<and>
   sn_total_duration_ns (reference_tape example_schedule) = 19"
  using tape_ordered [OF example_schedule_compiles]
  by (simp add: reference_tape_def expansion_def upt_conv_Cons example_schedule_def example_phase_def)

end
