(* ===== verification/Fingerprint.thy ===== *)
theory Fingerprint
  imports Schedule
begin

text \<open>
  The canonical encoding of a compiled schedule and its fingerprint,
  \<^verbatim>\<open>crates/eggchaos-experiment/src/fingerprint.rs\<close>. Each \<^verbatim>\<open>write_*\<close> function appends to a byte
  buffer; its model is the string it appends. SHA-256 is the third-party crate \<^verbatim>\<open>sha2\<close>, a
  parameter of \<open>compiled_fingerprint\<close>.

  The encoding separates fields by punctuation that it does not escape. It is shown to determine the
  schedule, up to the 17 decimals of a probability, when names keep clear of the separators, and to be
  ambiguous otherwise.
\<close>

section \<open>Numbers as text\<close>

definition digit :: "nat \<Rightarrow> char" where
  "digit d = char_of (48 + d)"

fun dec :: "nat \<Rightarrow> string" where
  "dec n = (if n < 10 then [digit n] else dec (n div 10) @ [digit (n mod 10)])"

declare dec.simps [simp del]

text \<open>\<open>k\<close> decimal digits of \<open>n\<close>, with leading zeros.\<close>

fun digits_padded :: "nat \<Rightarrow> nat \<Rightarrow> string" where
  "digits_padded 0 n = []"
| "digits_padded (Suc k) n = digits_padded k (n div 10) @ [digit (n mod 10)]"

text \<open>
  \<^verbatim>\<open>format!("{:.17}", x)\<close>: the exact value rounded to 17 decimals, ties to even.
\<close>

fun fixed17 :: "f64 \<Rightarrow> string" where
  "fixed17 NaN = ''NaN''"
| "fixed17 (Inf neg) = (if neg then ''-inf'' else ''inf'')"
| "fixed17 (Fin a) =
     (let q = nat (round_half_even (\<bar>a\<bar> * 10 ^ 17) F64_ONE)
      in (if a < 0 then ''-'' else []) @ dec (q div 10 ^ 17) @ ''.'' @ digits_padded 17 (q mod 10 ^ 17))"

section \<open>The encoding\<close>

definition FINGERPRINT_DOMAIN :: string where
  "FINGERPRINT_DOMAIN = ''eggchaos/scenario-v2/fingerprint/v1/compiler-semantics=''"

fun write_isolation :: "isolation_policy \<Rightarrow> string" where
  "write_isolation Strict = ''strict''"
| "write_isolation Live = ''live''"

fun write_cleanup :: "cleanup_policy \<Rightarrow> string" where
  "write_cleanup RestoreInitial = ''restore-initial''"
| "write_cleanup Leave = ''leave''"

fun write_phase :: "phase_identity \<Rightarrow> string" where
  "write_phase (TopPhase i) = ''top/'' @ dec i"
| "write_phase (RepeatPhase it i) = ''repeat/'' @ dec it @ ''/'' @ dec i"

fun write_stream_fault_kind :: "fault_kind \<Rightarrow> string" where
  "write_stream_fault_kind (Latency c) =
     ''latency;delay_ns='' @ dec (lat_delay c) @ '';jitter_ns='' @ dec (lat_jitter c) @
     '';max_buffer_bytes='' @ dec (lat_max_buffer_bytes c)"
| "write_stream_fault_kind (Bandwidth c) =
     ''bandwidth;bytes_per_second='' @ dec (bytes_per_second c) @ '';burst_bytes='' @ dec (burst_bytes c)"
| "write_stream_fault_kind (Blackhole c) =
     ''blackhole;close_after_ns='' @ (case close_after c of Some d \<Rightarrow> dec d | None \<Rightarrow> ''<none>'')"
| "write_stream_fault_kind (LimitData c) = ''limit-data;bytes='' @ dec (limit_bytes c)"
| "write_stream_fault_kind (SlowClose c) = ''slow-close;delay_ns='' @ dec (sc_delay c)"
| "write_stream_fault_kind (Slice c) =
     ''slice;average_size='' @ dec (average_size c) @ '';variation='' @ dec (variation c) @
     '';delay_ns='' @ dec (slice_delay c)"
| "write_stream_fault_kind (Disconnect c) =
     ''disconnect;after_ns='' @ dec (disc_after c) @ '';hard_reset='' @ (if disc_hard_reset c then ''true'' else ''false'')"
| "write_stream_fault_kind (StreamLoss c) =
     ''stream-loss;loss_rate='' @ fixed17 (loss_rate c) @ '';correlation='' @ fixed17 (correlation c)"

fun write_datagram_fault_kind :: "datagram_fault_kind \<Rightarrow> string" where
  "write_datagram_fault_kind (Delay delay jitter) = ''delay;delay_ns='' @ dec delay @ '';jitter_ns='' @ dec jitter"
| "write_datagram_fault_kind Loss = ''loss''"
| "write_datagram_fault_kind (Duplicate copies) = ''duplicate;additional_copies='' @ dec copies"
| "write_datagram_fault_kind (Reorder hold) = ''reorder;hold_ns='' @ dec hold"
| "write_datagram_fault_kind (PayloadCorrupt n) = ''payload-corrupt;bytes='' @ dec n"
| "write_datagram_fault_kind (DatagramBandwidth rate burst) =
     ''bandwidth;bytes_per_second='' @ dec rate @ '';burst_bytes='' @ dec burst"

definition write_fault :: "fault_spec \<Rightarrow> string" where
  "write_fault f = fs_id f @ ''~'' @ fixed17 (fs_probability f) @ ''~'' @ write_stream_fault_kind (fs_kind f) @ ''|''"

definition write_datagram_fault :: "datagram_fault_spec \<Rightarrow> string" where
  "write_datagram_fault f =
     df_id f @ ''~'' @ fixed17 (df_probability f) @ ''~'' @ write_datagram_fault_kind (df_kind f) @ ''|''"

fun write_action :: "scenario_action \<Rightarrow> string" where
  "write_action (SetPlan proxy dir faults) =
     ''set-plan;proxy='' @ proxy @ '';direction='' @ direction_as_str dir @ '';faults='' @ concat (map write_fault faults)"
| "write_action (RemoveFault proxy dir fid) =
     ''remove-fault;proxy='' @ proxy @ '';direction='' @ direction_as_str dir @ '';id='' @ fid"
| "write_action (SetDatagramPlan proxy dir faults) =
     ''set-datagram-plan;proxy='' @ proxy @ '';direction='' @ direction_as_str dir @ '';faults='' @
     concat (map write_datagram_fault faults)"
| "write_action (RemoveDatagramFault proxy dir fid) =
     ''remove-datagram-fault;proxy='' @ proxy @ '';direction='' @ direction_as_str dir @ '';id='' @ fid"

abbreviation newline :: char where
  "newline \<equiv> CHR 0x0A"

definition write_event :: "compiled_event \<Rightarrow> string" where
  "write_event e = newline # ''event['' @ dec (ce_compiled_index e) @ ''] phase='' @ write_phase (ce_phase e) @
     '' offset_ns='' @ dec (ce_offset_ns e) @ '' action='' @ write_action (ce_action e)"

definition encode_compiled_for_fingerprint :: "compiled_scenario \<Rightarrow> string" where
  "encode_compiled_for_fingerprint c =
     ''isolation='' @ write_isolation (sn_isolation c) @ newline # ''cleanup='' @ write_cleanup (sn_cleanup c) @
     newline # ''seed='' @ dec (unat (sn_seed c)) @ newline # ''execution_key='' @ dec (unat (sn_execution_key c)) @
     newline # ''total_duration_ns='' @ dec (sn_total_duration_ns c) @
     newline # ''event_count='' @ dec (length (sn_events c)) @ concat (map write_event (sn_events c))"

text \<open>\<^verbatim>\<open>u32::to_be_bytes\<close>.\<close>

definition be_bytes32 :: "nat \<Rightarrow> string" where
  "be_bytes32 n = map char_of [n div 2 ^ 24 mod 256, n div 2 ^ 16 mod 256, n div 2 ^ 8 mod 256, n mod 256]"

definition compiled_fingerprint :: "(string \<Rightarrow> byte list) \<Rightarrow> compiled_scenario \<Rightarrow> byte list" where
  "compiled_fingerprint sha256 c =
     sha256 (FINGERPRINT_DOMAIN @ be_bytes32 COMPILER_SEMANTICS_VERSION @ encode_compiled_for_fingerprint c)"

definition HEX :: string where
  "HEX = ''0123456789abcdef''"

definition fingerprint_hex :: "byte list \<Rightarrow> string" where
  "fingerprint_hex bytes = concat (map (\<lambda>b. [HEX ! unat (drop_bit 4 b), HEX ! unat (b AND 15)]) bytes)"

section \<open>Fields and separators\<close>

text \<open>
  A field ends at the first separator, so equal texts have equal fields; the rule lets the simplifier
  take an encoding apart field by field.
\<close>

lemma field_eq: "d \<notin> set xs \<Longrightarrow> d \<notin> set ys \<Longrightarrow> xs @ d # r = ys @ d # s \<longleftrightarrow> xs = ys \<and> r = s"
  by (induction xs arbitrary: ys) (case_tac ys; auto)+

lemma last_field_eq:
  "d \<notin> set xs \<Longrightarrow> d \<notin> set ys \<Longrightarrow> r = [] \<or> (\<exists>r'. r = d # r') \<Longrightarrow> s = [] \<or> (\<exists>s'. s = d # s') \<Longrightarrow>
     xs @ r = ys @ s \<longleftrightarrow> xs = ys \<and> r = s"
  by (induction xs arbitrary: ys) (case_tac ys; auto)+

text \<open>Lines that start with a separator they do not contain.\<close>

lemma lines_eq:
  "(\<And>x. x \<in> set xs \<Longrightarrow> d \<notin> set (f x)) \<Longrightarrow> (\<And>y. y \<in> set ys \<Longrightarrow> d \<notin> set (f y)) \<Longrightarrow>
     concat (map (\<lambda>x. d # f x) xs) = concat (map (\<lambda>y. d # f y) ys) \<Longrightarrow> list_all2 (\<lambda>x y. f x = f y) xs ys"
proof (induction xs arbitrary: ys)
  case (Cons x xs)
  then obtain y ys' where ys: "ys = y # ys'" by (cases ys) auto
  have rest: "concat (map (\<lambda>x. d # f x) zs) = [] \<or> (\<exists>r. concat (map (\<lambda>x. d # f x) zs) = d # r)" for zs by (cases zs) auto
  have "f x @ concat (map (\<lambda>x. d # f x) xs) = f y @ concat (map (\<lambda>x. d # f x) ys')" using Cons.prems(3) ys by simp
  then have "f x = f y \<and> concat (map (\<lambda>x. d # f x) xs) = concat (map (\<lambda>x. d # f x) ys')"
    using last_field_eq [of d "f x" "f y"] rest Cons.prems(1,2) ys by auto
  then show ?case using Cons.IH [of ys'] Cons.prems(1,2) ys by auto
qed auto

section \<open>Text of numbers\<close>

definition numeric :: "char \<Rightarrow> bool" where
  "numeric c = (48 \<le> (of_char c :: nat) \<and> (of_char c :: nat) < 58)"

lemma numeric_digit [simp]: "d < 10 \<Longrightarrow> numeric (digit d)"
  by (simp add: numeric_def digit_def take_bit_eq_mod)

lemma digit_inj: "d < 10 \<Longrightarrow> e < 10 \<Longrightarrow> digit d = digit e \<longleftrightarrow> d = e"
  by (auto simp: digit_def char_of_eq_iff take_bit_eq_mod)

lemma dec_digits: "c \<in> set (dec n) \<Longrightarrow> numeric c"
proof (induction n rule: dec.induct)
  case (1 n)
  then show ?case by (auto simp: dec.simps [of n] split: if_splits)
qed

lemma dec_inj: "dec m = dec n \<longleftrightarrow> m = n"
proof
  show "dec m = dec n \<Longrightarrow> m = n"
  proof (induction m arbitrary: n rule: dec.induct)
    case (1 m)
    have nonempty: "dec k \<noteq> []" for k by (simp add: dec.simps [of k])
    show ?case
    proof (cases "m < 10")
      case True
      then show ?thesis using 1(2) nonempty [of "n div 10"]
        by (auto simp: dec.simps [of m] dec.simps [of n] digit_inj split: if_splits)
    next
      case False
      then have "\<not> n < 10" using 1(2) nonempty [of "m div 10"] by (auto simp: dec.simps [of m] dec.simps [of n] split: if_splits)
      then have "dec (m div 10) = dec (n div 10)" "m mod 10 = n mod 10"
        using 1(2) False by (simp_all add: dec.simps [of m] dec.simps [of n] digit_inj)
      with 1(1) [OF False] show ?thesis by (metis div_mult_mod_eq)
    qed
  qed
qed simp

lemma digits_padded_digits: "c \<in> set (digits_padded k n) \<Longrightarrow> numeric c"
  by (induction k arbitrary: n) auto

lemma fixed17_chars: "c \<in> set (fixed17 p) \<Longrightarrow> numeric c \<or> c \<in> set ''.-NaNinf''"
  by (cases p) (auto simp: Let_def dest: dec_digits digits_padded_digits split: if_splits)

lemma dec_free [simp]:
  "\<not> numeric c \<Longrightarrow> c \<notin> set (dec n)"
  using dec_digits by blast

lemma fixed17_free [simp]:
  "\<not> numeric c \<Longrightarrow> c \<notin> set ''.-NaNinf'' \<Longrightarrow> c \<notin> set (fixed17 p)"
  using fixed17_chars by blast

lemma separators_not_numeric [simp]:
  "\<not> numeric CHR '';''" "\<not> numeric CHR ''~''" "\<not> numeric CHR ''|''" "\<not> numeric CHR '' ''" "\<not> numeric CHR '']''"
  "\<not> numeric CHR ''/''" "\<not> numeric CHR ''<''" "\<not> numeric newline"
  by (simp_all add: numeric_def)

lemma dec_not_none [simp]: "dec n \<noteq> ''<none>''" "''<none>'' \<noteq> dec n"
  using dec_free [of "CHR ''<''" n] by (metis list.set_intros(1) separators_not_numeric(7))+

section \<open>What the encoding determines\<close>

text \<open>Equality of faults up to the rendering of their probabilities.\<close>

fun same_kind :: "fault_kind \<Rightarrow> fault_kind \<Rightarrow> bool" where
  "same_kind (StreamLoss c) (StreamLoss c') =
     (fixed17 (loss_rate c) = fixed17 (loss_rate c') \<and> fixed17 (correlation c) = fixed17 (correlation c'))"
| "same_kind k k' = (k = k')"

definition same_fault :: "fault_spec \<Rightarrow> fault_spec \<Rightarrow> bool" where
  "same_fault f g = (fs_id f = fs_id g \<and> fixed17 (fs_probability f) = fixed17 (fs_probability g) \<and>
     same_kind (fs_kind f) (fs_kind g))"

definition same_datagram_fault :: "datagram_fault_spec \<Rightarrow> datagram_fault_spec \<Rightarrow> bool" where
  "same_datagram_fault f g = (df_id f = df_id g \<and> fixed17 (df_probability f) = fixed17 (df_probability g) \<and>
     df_kind f = df_kind g)"

fun same_action :: "scenario_action \<Rightarrow> scenario_action \<Rightarrow> bool" where
  "same_action (SetPlan p d fs) (SetPlan p' d' fs') = (p = p' \<and> d = d' \<and> list_all2 same_fault fs fs')"
| "same_action (SetDatagramPlan p d fs) (SetDatagramPlan p' d' fs') = (p = p' \<and> d = d' \<and> list_all2 same_datagram_fault fs fs')"
| "same_action a b = (a = b)"

lemma write_stream_fault_kind_eq: "write_stream_fault_kind k = write_stream_fault_kind k' \<Longrightarrow> same_kind k k'"
  by (cases k; cases k'; auto simp: field_eq dec_inj split: option.splits if_splits intro!: latency_config.equality
      bandwidth_config.equality blackhole_config.equality limit_data_config.equality slow_close_config.equality
      slice_config.equality disconnect_config.equality)

lemma write_datagram_fault_kind_eq: "write_datagram_fault_kind k = write_datagram_fault_kind k' \<Longrightarrow> k = k'"
  by (cases k; cases k'; simp add: field_eq dec_inj)

lemma write_stream_fault_kind_free: "CHR ''|'' \<notin> set (write_stream_fault_kind k)" "newline \<notin> set (write_stream_fault_kind k)"
  by (cases k; auto split: option.splits)+

lemma write_datagram_fault_kind_free: "CHR ''|'' \<notin> set (write_datagram_fault_kind k)" "newline \<notin> set (write_datagram_fault_kind k)"
  by (cases k; simp)+

lemma write_fault_eq:
  assumes "CHR ''~'' \<notin> set (fs_id f)" "CHR ''~'' \<notin> set (fs_id g)" "write_fault f @ r = write_fault g @ s"
  shows "same_fault f g \<and> r = s"
  using assms by (auto simp: write_fault_def same_fault_def field_eq write_stream_fault_kind_free dest: write_stream_fault_kind_eq)

lemma write_datagram_fault_eq:
  assumes "CHR ''~'' \<notin> set (df_id f)" "CHR ''~'' \<notin> set (df_id g)" "write_datagram_fault f @ r = write_datagram_fault g @ s"
  shows "same_datagram_fault f g \<and> r = s"
  using assms by (auto simp: write_datagram_fault_def same_datagram_fault_def field_eq write_datagram_fault_kind_free
      dest: write_datagram_fault_kind_eq)

text \<open>A list of self-delimiting items.\<close>

lemma self_delimiting_list:
  assumes "\<And>x y r s. x \<in> set xs \<Longrightarrow> y \<in> set ys \<Longrightarrow> f x @ r = f y @ s \<Longrightarrow> R x y \<and> r = s" "\<And>x. f x \<noteq> []"
    and "concat (map f xs) = concat (map f ys)"
  shows "list_all2 R xs ys"
  using assms(1,3)
proof (induction xs arbitrary: ys)
  case Nil
  then show ?case using assms(2) by (cases ys) auto
next
  case (Cons x xs)
  then obtain y ys' where ys: "ys = y # ys'" using assms(2) by (cases ys) auto
  have "R x y \<and> concat (map f xs) = concat (map f ys')" using Cons.prems(1) [of x y] Cons.prems(2) ys by simp
  moreover have "concat (map f xs) = concat (map f ys') \<Longrightarrow> list_all2 R xs ys'"
    by (rule Cons.IH) (use Cons.prems(1) ys in auto)
  ultimately show ?case using ys by simp
qed

lemma write_fault_nonempty: "write_fault f \<noteq> []" "write_datagram_fault g \<noteq> []"
  by (simp_all add: write_fault_def write_datagram_fault_def)

text \<open>Names that keep clear of the separators that follow them.\<close>

fun action_plain :: "scenario_action \<Rightarrow> bool" where
  "action_plain (SetPlan proxy dir fs) =
     (CHR '';'' \<notin> set proxy \<and> newline \<notin> set proxy \<and> list_all (\<lambda>f. CHR ''~'' \<notin> set (fs_id f) \<and> newline \<notin> set (fs_id f)) fs)"
| "action_plain (SetDatagramPlan proxy dir fs) =
     (CHR '';'' \<notin> set proxy \<and> newline \<notin> set proxy \<and> list_all (\<lambda>f. CHR ''~'' \<notin> set (df_id f) \<and> newline \<notin> set (df_id f)) fs)"
| "action_plain (RemoveFault proxy dir fid) = (CHR '';'' \<notin> set proxy \<and> newline \<notin> set proxy \<and> newline \<notin> set fid)"
| "action_plain (RemoveDatagramFault proxy dir fid) = (CHR '';'' \<notin> set proxy \<and> newline \<notin> set proxy \<and> newline \<notin> set fid)"

lemma direction_as_str_free [simp]: "CHR '';'' \<notin> set (direction_as_str d)" "newline \<notin> set (direction_as_str d)"
  by (cases d; simp)+

lemma direction_as_str_inj [simp]: "direction_as_str d = direction_as_str d' \<longleftrightarrow> d = d'"
  by (cases d; cases d'; simp)

lemma write_action_eq:
  assumes "write_action a = write_action b" "action_plain a" "action_plain b"
  shows "same_action a b"
proof -
  have stream: "list_all2 same_fault fs fs'"
    if "list_all (\<lambda>f. CHR ''~'' \<notin> set (fs_id f)) fs" "list_all (\<lambda>f. CHR ''~'' \<notin> set (fs_id f)) fs'"
      "concat (map write_fault fs) = concat (map write_fault fs')" for fs fs'
    by (rule self_delimiting_list [OF _ write_fault_nonempty(1) that(3)], rule write_fault_eq)
      (use that(1,2) in \<open>simp_all add: list_all_iff\<close>)
  have datagram: "list_all2 same_datagram_fault fs fs'"
    if "list_all (\<lambda>f. CHR ''~'' \<notin> set (df_id f)) fs" "list_all (\<lambda>f. CHR ''~'' \<notin> set (df_id f)) fs'"
      "concat (map write_datagram_fault fs) = concat (map write_datagram_fault fs')" for fs fs'
    by (rule self_delimiting_list [OF _ write_fault_nonempty(2) that(3)], rule write_datagram_fault_eq)
      (use that(1,2) in \<open>simp_all add: list_all_iff\<close>)
  show ?thesis using assms stream datagram by (cases a; cases b; simp add: field_eq list_all_iff)
qed

lemma write_action_one_line: "action_plain a \<Longrightarrow> newline \<notin> set (write_action a)"
  by (cases a) (auto simp: write_fault_def write_datagram_fault_def list_all_iff write_stream_fault_kind_free
      write_datagram_fault_kind_free)

lemma write_phase_eq: "write_phase p = write_phase q \<longleftrightarrow> p = q"
  by (cases p; cases q; simp add: field_eq dec_inj)

lemma write_phase_free: "CHR '' '' \<notin> set (write_phase p)" "newline \<notin> set (write_phase p)"
  by (cases p; simp)+

definition same_event :: "compiled_event \<Rightarrow> compiled_event \<Rightarrow> bool" where
  "same_event e e' = (ce_compiled_index e = ce_compiled_index e' \<and> ce_phase e = ce_phase e' \<and>
     ce_offset_ns e = ce_offset_ns e' \<and> same_action (ce_action e) (ce_action e'))"

lemma write_event_eq:
  assumes "write_event e = write_event e'" "action_plain (ce_action e)" "action_plain (ce_action e')"
  shows "same_event e e'"
  using assms by (auto simp: write_event_def same_event_def field_eq dec_inj write_phase_eq write_phase_free dest: write_action_eq)

definition tape_plain :: "compiled_scenario \<Rightarrow> bool" where
  "tape_plain c = list_all (action_plain \<circ> ce_action) (sn_events c)"

lemma events_eq:
  assumes "concat (map write_event es) = concat (map write_event es')"
    and "list_all (action_plain \<circ> ce_action) es" "list_all (action_plain \<circ> ce_action) es'"
  shows "list_all2 same_event es es'"
proof -
  define line where "line e = tl (write_event e)" for e
  have ev: "write_event = (\<lambda>e. newline # line e)" by (rule ext) (simp add: line_def write_event_def)
  have free: "newline \<notin> set (line e)" if "action_plain (ce_action e)" for e
    using that by (simp add: line_def write_event_def write_phase_free write_action_one_line)
  have "list_all2 (\<lambda>e e'. line e = line e') es es'"
    by (rule lines_eq [of es newline line es']) (use assms free in \<open>auto simp: list_all_iff simp flip: ev\<close>)
  then show ?thesis
    by (rule list.rel_mono_strong, intro write_event_eq) (use assms(2,3) in \<open>auto simp: ev list_all_iff\<close>)
qed

lemma policy_text_eq:
  "newline \<notin> set (write_isolation i)" "newline \<notin> set (write_cleanup u)"
  "write_isolation i = write_isolation i' \<longleftrightarrow> i = i'" "write_cleanup u = write_cleanup u' \<longleftrightarrow> u = u'"
  by (cases i; cases i'; cases u; cases u'; simp)+

lemma events_text_line: "concat (map write_event es) = [] \<or> (\<exists>r. concat (map write_event es) = newline # r)"
  by (cases es) (simp_all add: write_event_def)

section \<open>Properties\<close>

text \<open>
  C32. The fingerprint input identifies the schedule. Two tapes whose names keep clear of the separators
  of the encoding have the same fingerprint input only if they agree in isolation, cleanup, seed,
  execution key, duration and every event: index, phase, offset, target and faults, the probabilities to
  17 decimals.
\<close>

theorem fingerprint_identifies:
  assumes "encode_compiled_for_fingerprint c = encode_compiled_for_fingerprint c'" "tape_plain c" "tape_plain c'"
  shows "sn_isolation c = sn_isolation c' \<and> sn_cleanup c = sn_cleanup c' \<and> sn_seed c = sn_seed c' \<and>
    sn_execution_key c = sn_execution_key c' \<and> sn_total_duration_ns c = sn_total_duration_ns c' \<and>
    list_all2 same_event (sn_events c) (sn_events c')"
proof -
  have "write_isolation (sn_isolation c) = write_isolation (sn_isolation c')" "write_cleanup (sn_cleanup c) = write_cleanup (sn_cleanup c')"
    "dec (unat (sn_seed c)) = dec (unat (sn_seed c'))" "dec (unat (sn_execution_key c)) = dec (unat (sn_execution_key c'))"
    "dec (sn_total_duration_ns c) = dec (sn_total_duration_ns c')"
    and rest: "dec (length (sn_events c)) @ concat (map write_event (sn_events c)) =
      dec (length (sn_events c')) @ concat (map write_event (sn_events c'))"
    using assms(1) by (simp_all add: encode_compiled_for_fingerprint_def field_eq policy_text_eq)
  moreover have "concat (map write_event (sn_events c)) = concat (map write_event (sn_events c'))"
    using rest events_text_line [of "sn_events c"] events_text_line [of "sn_events c'"]
    by (subst (asm) last_field_eq [of newline]) simp_all
  then have "list_all2 same_event (sn_events c) (sn_events c')"
    by (rule events_eq) (use assms(2,3) in \<open>simp_all add: tape_plain_def\<close>)
  ultimately show ?thesis by (simp add: policy_text_eq dec_inj word_unat_eq_iff)
qed

text \<open>Two tapes with one event each, whose probabilities differ by \<open>2 ^ -1074\<close>.\<close>

definition lossy_event :: "f64 \<Rightarrow> compiled_event" where
  "lossy_event p = \<lparr>ce_compiled_index = 0, ce_phase = TopPhase 0, ce_offset_ns = 0,
     ce_action = SetDatagramPlan ''p'' Upstream [\<lparr>df_id = ''l'', df_probability = p, df_kind = Loss\<rparr>]\<rparr>"

definition one_event_tape :: "compiled_event \<Rightarrow> compiled_scenario" where
  "one_event_tape e = \<lparr>sn_compiler_semantics_version = 1, sn_seed = 1, sn_execution_key = 2, sn_isolation = Strict,
     sn_cleanup = Leave, sn_events = [e], sn_total_duration_ns = 5\<rparr>"

lemma fixed17_tiny: "fixed17 (Fin 1) = fixed17 (Fin 0)"
  by (simp add: round_half_even_def F64_ONE_def Let_def)

theorem fingerprint_identifies_witness:
  "encode_compiled_for_fingerprint (one_event_tape (lossy_event (Fin 1))) =
     encode_compiled_for_fingerprint (one_event_tape (lossy_event (Fin 0))) \<and>
   lossy_event (Fin 1) \<noteq> lossy_event (Fin 0) \<and> same_event (lossy_event (Fin 1)) (lossy_event (Fin 0))"
proof -
  have eq: "encode_compiled_for_fingerprint (one_event_tape (lossy_event (Fin 1))) =
     encode_compiled_for_fingerprint (one_event_tape (lossy_event (Fin 0)))"
    by (simp add: encode_compiled_for_fingerprint_def one_event_tape_def lossy_event_def write_event_def
        write_datagram_fault_def fixed17_tiny del: fixed17.simps)
  have plain: "tape_plain (one_event_tape (lossy_event p))" for p
    by (simp add: tape_plain_def one_event_tape_def lossy_event_def)
  have "lossy_event (Fin 1) \<noteq> lossy_event (Fin 0)" by (simp add: lossy_event_def)
  with eq fingerprint_identifies [OF eq plain plain] show ?thesis by (simp add: one_event_tape_def)
qed

text \<open>
  Unescaped names make the fingerprint ambiguous. There are two schedules the compiler accepts that
  act on different targets and have the same fingerprint, whatever the hash function is.
\<close>

theorem fingerprint_ambiguous:
  "\<exists>src src' c c'. compile_schedule src = Inr c \<and> compile_schedule src' = Inr c' \<and>
     map ce_action (sn_events c) = [RemoveFault ''p'' Upstream ''x;direction=upstream;id=y''] \<and>
     map ce_action (sn_events c') = [RemoveFault ''p;direction=upstream;id=x'' Upstream ''y''] \<and>
     compiled_fingerprint sha256 c = compiled_fingerprint sha256 c'"
proof -
  define doc where "doc a = \<lparr>sc_version = 2, sc_seed = 1, sc_execution_key = 2, sc_isolation = Strict, sc_cleanup = Leave,
     sc_phases = [\<lparr>ph_name = None, ph_duration_ns = 5, ph_actions = [a]\<rparr>], sc_repeat = None\<rparr>" for a
  have tape: "reference_tape (doc a) = one_event_tape \<lparr>ce_compiled_index = 0, ce_phase = TopPhase 0, ce_offset_ns = 0, ce_action = a\<rparr>" for a
    by (simp add: reference_tape_def doc_def expansion_def one_event_tape_def)
  have ok: "compile_schedule (doc a) = Inr (reference_tape (doc a))" if "action_ok a" for a
    using that by (simp add: compile_schedule_iff schedule_ok_def doc_def phase_ok_def expansion_def MAX_PHASES_def
        MAX_PHASE_ACTIONS_def MAX_COMPILED_EVENTS_def U64_MAX_def)
  let ?a = "RemoveFault ''p'' Upstream ''x;direction=upstream;id=y''"
  let ?b = "RemoveFault ''p;direction=upstream;id=x'' Upstream ''y''"
  have "encode_compiled_for_fingerprint (reference_tape (doc ?a)) = encode_compiled_for_fingerprint (reference_tape (doc ?b))"
    by (simp add: tape encode_compiled_for_fingerprint_def one_event_tape_def write_event_def)
  then have "compiled_fingerprint sha256 (reference_tape (doc ?a)) = compiled_fingerprint sha256 (reference_tape (doc ?b))"
    by (simp only: compiled_fingerprint_def)
  moreover have "map ce_action (sn_events (reference_tape (doc a))) = [a]" for a by (simp add: tape one_event_tape_def)
  ultimately show ?thesis using ok [of ?a] ok [of ?b] by (intro exI conjI) (assumption | simp)+
qed

lemma hex_digits_inj: "i < 16 \<Longrightarrow> j < 16 \<Longrightarrow> HEX ! i = HEX ! j \<longleftrightarrow> i = j"
  by (simp add: HEX_def nth_eq_iff_index_eq)

lemma nibbles:
  fixes b b' :: byte
  shows "unat (drop_bit 4 b) < 16" "unat (b AND 15) < 16"
    "unat (drop_bit 4 b) = unat (drop_bit 4 b') \<Longrightarrow> unat (b AND 15) = unat (b' AND 15) \<Longrightarrow> b = b'"
proof -
  have hi: "unat (drop_bit 4 c) = unat c div 16" for c :: byte by (simp add: drop_bit_eq_div unat_div)
  have "c AND 15 = take_bit 4 c" for c :: byte by (simp add: take_bit_eq_mask mask_eq_exp_minus_1)
  then have lo: "unat (c AND 15) = unat c mod 16" for c :: byte by (simp add: take_bit_eq_mod unat_mod)
  have "unat b < 256" using unsigned_less [of b] by simp
  then show "unat (drop_bit 4 b) < 16" "unat (b AND 15) < 16" by (simp_all add: hi lo)
  show "b = b'" if "unat (drop_bit 4 b) = unat (drop_bit 4 b')" "unat (b AND 15) = unat (b' AND 15)"
    using that unfolding hi lo by (metis div_mult_mod_eq word_unat_eq_iff)
qed

text \<open>
  Hexadecimal rendering is faithful: two hexadecimal digits per byte, and different digests render
  differently.
\<close>

theorem fingerprint_hex_faithful:
  "length (fingerprint_hex bytes) = 2 * length bytes \<and> (fingerprint_hex bytes = fingerprint_hex bytes' \<longleftrightarrow> bytes = bytes')"
proof
  show "length (fingerprint_hex bytes) = 2 * length bytes" by (induction bytes) (simp_all add: fingerprint_hex_def)
  show "fingerprint_hex bytes = fingerprint_hex bytes' \<longleftrightarrow> bytes = bytes'"
  proof
    show "fingerprint_hex bytes = fingerprint_hex bytes' \<Longrightarrow> bytes = bytes'"
    proof (induction bytes arbitrary: bytes')
      case (Cons b bs)
      then obtain b' bs' where b': "bytes' = b' # bs'" by (cases bytes') (simp_all add: fingerprint_hex_def)
      then have "fingerprint_hex bs = fingerprint_hex bs'" "HEX ! unat (drop_bit 4 b) = HEX ! unat (drop_bit 4 b')"
        "HEX ! unat (b AND 15) = HEX ! unat (b' AND 15)" using Cons.prems by (simp_all add: fingerprint_hex_def)
      then show ?case using Cons.IH b' nibbles by (simp add: hex_digits_inj)
    qed (case_tac bytes', simp_all add: fingerprint_hex_def)
  qed simp
qed

end
