(* ===== verification/OrderedMap.thy ===== *)
theory OrderedMap
  imports Prelude "HOL-Library.List_Lexorder" "HOL-Library.Char_ord"
begin

text \<open>
  \<^verbatim>\<open>BTreeMap\<close> as the sources use it: insertion, lookup, update in place and iteration in key order.
  The locale \<open>ordered_map\<close> states what a client may rely on; the sorted association list provides it.
  Keys that are \<^verbatim>\<open>String\<close>s compare byte by byte.
\<close>

locale ordered_map =
  fixes empty :: 'm
    and insert :: "'k :: linorder \<Rightarrow> 'v \<Rightarrow> 'm \<Rightarrow> 'm"
    and lookup :: "'m \<Rightarrow> 'k \<Rightarrow> 'v option"
    and entries :: "'m \<Rightarrow> ('k \<times> 'v) list"
    and valid :: "'m \<Rightarrow> bool"
  assumes valid_empty: "valid empty"
    and valid_insert: "valid m \<Longrightarrow> valid (insert k v m)"
    and lookup_empty: "lookup empty k = None"
    and lookup_insert: "valid m \<Longrightarrow> lookup (insert k v m) = (lookup m)(k \<mapsto> v)"
    and entries_sorted: "valid m \<Longrightarrow> sorted (map fst (entries m))"
    and entries_distinct: "valid m \<Longrightarrow> distinct (map fst (entries m))"
    and entries_lookup: "valid m \<Longrightarrow> (k, v) \<in> set (entries m) \<longleftrightarrow> lookup m k = Some v"
begin

text \<open>A fold of insertions holds exactly the last value given for each key.\<close>

lemma valid_fold: "valid m \<Longrightarrow> valid (fold (\<lambda>(k, v). insert k v) kvs m)"
  by (induction kvs arbitrary: m) (auto simp: valid_insert)

lemma lookup_fold:
  "valid m \<Longrightarrow> lookup (fold (\<lambda>(k, v). insert k v) kvs m) = lookup m ++ map_of (rev kvs)"
proof (induction kvs arbitrary: m)
  case (Cons kv kvs)
  obtain k v where kv: "kv = (k, v)" by (cases kv)
  then show ?case using Cons.IH [OF valid_insert [OF Cons.prems, of k v]] Cons.prems
    by (auto simp: lookup_insert map_add_def fun_eq_iff split: option.splits)
qed simp

lemma entries_determined:
  assumes "valid m" "valid m'" "lookup m = lookup m'"
  shows "entries m = entries m'"
proof -
  have "set (entries m) = set (entries m')" using assms by (auto simp: entries_lookup)
  then have "set (map fst (entries m)) = set (map fst (entries m'))" by simp
  then have keys: "map fst (entries m) = map fst (entries m')"
    using assms entries_sorted entries_distinct by (intro sorted_distinct_set_unique) blast+
  have "inj_on fst (set (entries m))" using entries_distinct [OF assms(1)] by (simp add: distinct_map)
  then show ?thesis using keys \<open>set (entries m) = set (entries m')\<close> by (simp add: map_inj_on)
qed

end

section \<open>Sorted association lists\<close>

fun btree_insert :: "'k :: linorder \<Rightarrow> 'v \<Rightarrow> ('k \<times> 'v) list \<Rightarrow> ('k \<times> 'v) list" where
  "btree_insert k v [] = [(k, v)]"
| "btree_insert k v ((k', v') # m) =
     (if k < k' then (k, v) # (k', v') # m
      else if k = k' then (k, v) # m
      else (k', v') # btree_insert k v m)"

definition btree_valid :: "('k :: linorder \<times> 'v) list \<Rightarrow> bool" where
  "btree_valid m = (sorted (map fst m) \<and> distinct (map fst m))"

lemma btree_insert_keys: "fst ` set (btree_insert k v m) = insert k (fst ` set m)"
  by (induction m rule: btree_insert.induct) auto

lemma btree_insert_valid: "btree_valid m \<Longrightarrow> btree_valid (btree_insert k v m)"
proof (induction m rule: btree_insert.induct)
  case (2 k v k' v' m)
  then show ?case using btree_insert_keys [of k v m] by (force simp: btree_valid_def)
qed (simp add: btree_valid_def)

lemma map_of_btree_insert: "btree_valid m \<Longrightarrow> map_of (btree_insert k v m) = (map_of m)(k \<mapsto> v)"
proof (induction m rule: btree_insert.induct)
  case (2 k v k' v' m)
  then show ?case by (auto simp: btree_valid_def fun_eq_iff)
qed simp

interpretation btree: ordered_map "[]" btree_insert map_of "\<lambda>m. m" btree_valid
  by unfold_locales (simp_all add: btree_insert_valid map_of_btree_insert, auto simp: btree_valid_def)

text \<open>\<^verbatim>\<open>get_mut\<close> followed by an assignment.\<close>

definition btree_adjust :: "'k \<Rightarrow> ('v \<Rightarrow> 'v) \<Rightarrow> ('k \<times> 'v) list \<Rightarrow> ('k \<times> 'v) list" where
  "btree_adjust k f m = map (\<lambda>(k', v). (k', if k' = k then f v else v)) m"

lemma btree_adjust_keys [simp]: "map fst (btree_adjust k f m) = map fst m"
  by (simp add: btree_adjust_def comp_def case_prod_beta)

lemma btree_adjust_valid [simp]: "btree_valid (btree_adjust k f m) = btree_valid m"
  by (simp add: btree_valid_def)

lemma map_of_btree_adjust: "map_of (btree_adjust k f m) = (map_of m)(k := map_option f (map_of m k))"
  by (induction m) (auto simp: btree_adjust_def fun_eq_iff)

text \<open>\<^verbatim>\<open>remove\<close>.\<close>

definition btree_remove :: "'k \<Rightarrow> ('k \<times> 'v) list \<Rightarrow> ('k \<times> 'v) list" where
  "btree_remove k m = filter (\<lambda>(k', _). k' \<noteq> k) m"

lemma btree_remove_valid: "btree_valid m \<Longrightarrow> btree_valid (btree_remove k m)"
  by (auto simp: btree_valid_def btree_remove_def sorted_map distinct_map_filter sorted_wrt_filter)

lemma map_of_btree_remove: "map_of (btree_remove k m) = (map_of m)(k := None)"
  by (induction m) (auto simp: btree_remove_def fun_eq_iff)

lemma set_btree_remove: "set (btree_remove k m) = {x \<in> set m. fst x \<noteq> k}"
  by (auto simp: btree_remove_def)

lemma length_btree_remove: "btree_valid m \<Longrightarrow> (k, v) \<in> set m \<Longrightarrow> Suc (length (btree_remove k m)) = length m"
proof (induction m)
  case (Cons x m)
  have sub: "btree_valid m" using Cons.prems(1) by (simp add: btree_valid_def)
  show ?case
  proof (cases "fst x = k")
    case True
    have "k \<notin> fst ` set m" using Cons.prems(1) unfolding True [symmetric] by (simp add: btree_valid_def)
    then have "\<forall>y \<in> set m. fst y \<noteq> k" by (metis image_eqI)
    then have "btree_remove k m = m" by (auto simp: btree_remove_def filter_id_conv)
    then show ?thesis using True by (auto simp: btree_remove_def)
  next
    case False
    then show ?thesis using Cons.IH [OF sub] Cons.prems(2) by (auto simp: btree_remove_def)
  qed
qed simp

lemma length_btree_insert: "length (btree_insert k v m) \<le> Suc (length m)"
  by (induction m rule: btree_insert.induct) auto

lemma btree_set_iff: "btree_valid m \<Longrightarrow> (k, v) \<in> set m \<longleftrightarrow> map_of m k = Some v"
  by (simp add: btree_valid_def)

lemma set_btree_insert:
  fixes k :: "'a :: linorder" and v :: 'b
  assumes "btree_valid m"
  shows "set (btree_insert k v m) = insert (k, v) (set (btree_remove k m))"
proof (rule set_eqI)
  fix x :: "'a \<times> 'b"
  obtain k' v' where x: "x = (k', v')" by (cases x)
  have "(k', v') \<in> set (btree_insert k v m) \<longleftrightarrow> ((map_of m)(k \<mapsto> v)) k' = Some v'"
    using assms by (simp only: btree_set_iff btree_insert_valid map_of_btree_insert)
  moreover have "(k', v') \<in> set (btree_remove k m) \<longleftrightarrow> ((map_of m)(k := None)) k' = Some v'"
    using assms by (simp only: btree_set_iff btree_remove_valid map_of_btree_remove)
  ultimately show "x \<in> set (btree_insert k v m) \<longleftrightarrow> x \<in> insert (k, v) (set (btree_remove k m))"
    unfolding x by auto
qed

end
