(* ===== verification/Target.thy ===== *)
theory Target
  imports Fingerprint OrderedMap "HOL-Library.AList"
begin

text \<open>
  Publication targets of the schedule driver: the contract \<^verbatim>\<open>PolicyTarget\<close> of
  \<^verbatim>\<open>crates/eggchaos-experiment/src/target.rs\<close>, the run records of \<^verbatim>\<open>run.rs\<close>, and the in-process
  \<^verbatim>\<open>StreamPolicyTarget\<close> of \<^verbatim>\<open>stream_target.rs\<close>.

  A target is a record of operations on a world \<open>'w\<close>: every operation takes the world and returns it,
  so what other tasks did before the call is part of the world a call is given. The locale
  \<open>policy_target\<close> is what the driver relies on. \<^verbatim>\<open>StreamPolicyTarget\<close> keeps handles to shared live
  policies, so its model keeps the policies in a store and the names map to addresses: two names may
  share a policy.
\<close>

section \<open>Resources and records\<close>

datatype schedule_transport = StreamTransport | DatagramTransport

datatype run_status = RunPending | Running | Cancelling | Cancelled | Completed | Failed

record schedule_resource =
  sr_proxy :: string
  sr_direction :: direction
  sr_transport :: schedule_transport

record schedule_event_result =
  er_compiled_index :: nat
  er_phase :: phase_identity
  er_scheduled_offset_ns :: nat
  er_applied_elapsed_ns :: nat
  er_late_by_ns :: nat
  er_action :: string
  er_resource :: schedule_resource
  er_upstream_generation :: nat
  er_downstream_generation :: nat
  er_global_generation :: nat

datatype cleanup_resource_outcome = Restored | CleanupConflict | CleanupMissing | NotRequested

record cleanup_resource_record =
  cr_resource :: schedule_resource
  cr_outcome :: cleanup_resource_outcome

record cleanup_outcome =
  co_policy :: cleanup_policy
  co_resources :: "cleanup_resource_record list"

record target_capabilities =
  cap_stream :: bool
  cap_datagram :: bool

datatype target_plan = StreamPlan fault_plan | DatagramPlan datagram_plan

record target_snapshot =
  ts_generation :: nat
  ts_plan :: target_plan

datatype target_error =
    MissingResource string
  | UnsupportedCapability string
  | GenerationConflict nat nat
  | InvalidTargetPlan string
  | InternalTargetError string

fun target_error_display :: "target_error \<Rightarrow> string" where
  "target_error_display (MissingResource s) = ''resource not found: '' @ s"
| "target_error_display (UnsupportedCapability s) = ''unsupported capability: '' @ s"
| "target_error_display (GenerationConflict expected found) =
     ''generation conflict: expected '' @ dec expected @ '', found '' @ dec found"
| "target_error_display (InvalidTargetPlan s) = ''invalid plan: '' @ s"
| "target_error_display (InternalTargetError s) = ''target error: '' @ s"

section \<open>Bounded details\<close>

definition MAX_TARGET_LABEL_BYTES :: nat where "MAX_TARGET_LABEL_BYTES = 256"
definition MAX_RESOURCE_NAME_BYTES :: nat where "MAX_RESOURCE_NAME_BYTES = 128"

text \<open>\<^verbatim>\<open>str::is_char_boundary\<close>: the byte at \<open>i\<close> does not continue a UTF-8 sequence.\<close>

definition is_char_boundary :: "string \<Rightarrow> nat \<Rightarrow> bool" where
  "is_char_boundary s i =
     (i = 0 \<or> i = length s \<or> (i < length s \<and> \<not> (128 \<le> (of_char (s ! i) :: nat) \<and> (of_char (s ! i) :: nat) < 192)))"

fun boundary_before :: "string \<Rightarrow> nat \<Rightarrow> nat" where
  "boundary_before s 0 = 0"
| "boundary_before s (Suc i) = (if is_char_boundary s (Suc i) then Suc i else boundary_before s i)"

definition bounded :: "string \<Rightarrow> string" where
  "bounded detail =
     (if length detail \<le> MAX_TARGET_LABEL_BYTES then detail
      else take (boundary_before detail MAX_TARGET_LABEL_BYTES) detail)"

definition target_missing :: "string \<Rightarrow> target_error" where "target_missing d = MissingResource (bounded d)"
definition target_unsupported :: "string \<Rightarrow> target_error" where "target_unsupported d = UnsupportedCapability (bounded d)"
definition target_invalid :: "string \<Rightarrow> target_error" where "target_invalid d = InvalidTargetPlan (bounded d)"
definition target_internal :: "string \<Rightarrow> target_error" where "target_internal d = InternalTargetError (bounded d)"

lemma boundary_before_le: "boundary_before s i \<le> i"
  by (induction i) auto

lemma boundary_before_boundary: "is_char_boundary s (boundary_before s i)"
  by (induction i) (auto simp: is_char_boundary_def)

lemma boundary_before_last: "boundary_before s i < j \<Longrightarrow> j \<le> i \<Longrightarrow> \<not> is_char_boundary s j"
proof (induction i)
  case (Suc i)
  then show ?case by (cases "j = Suc i") (auto split: if_splits)
qed simp

section \<open>Resource identities\<close>

fun direction_debug :: "direction \<Rightarrow> string" where
  "direction_debug Upstream = ''Upstream''"
| "direction_debug Downstream = ''Downstream''"

fun transport_debug :: "schedule_transport \<Rightarrow> string" where
  "transport_debug StreamTransport = ''Stream''"
| "transport_debug DatagramTransport = ''Datagram''"

definition resource_key :: "string \<Rightarrow> direction \<Rightarrow> schedule_transport \<Rightarrow> string" where
  "resource_key proxy dir transport = proxy @ ''|'' @ direction_debug dir @ ''|'' @ transport_debug transport"

fun action_resource :: "scenario_action \<Rightarrow> schedule_resource" where
  "action_resource (SetPlan proxy dir faults) = \<lparr>sr_proxy = proxy, sr_direction = dir, sr_transport = StreamTransport\<rparr>"
| "action_resource (RemoveFault proxy dir fid) = \<lparr>sr_proxy = proxy, sr_direction = dir, sr_transport = StreamTransport\<rparr>"
| "action_resource (SetDatagramPlan proxy dir faults) =
     \<lparr>sr_proxy = proxy, sr_direction = dir, sr_transport = DatagramTransport\<rparr>"
| "action_resource (RemoveDatagramFault proxy dir fid) =
     \<lparr>sr_proxy = proxy, sr_direction = dir, sr_transport = DatagramTransport\<rparr>"

definition key_of :: "schedule_resource \<Rightarrow> string" where
  "key_of r = resource_key (sr_proxy r) (sr_direction r) (sr_transport r)"

text \<open>The key separates resources although a proxy name may contain the separator.\<close>

lemma resource_key_inj: "resource_key p d t = resource_key p' d' t' \<longleftrightarrow> p = p' \<and> d = d' \<and> t = t'"
proof
  assume "resource_key p d t = resource_key p' d' t'"
  then have eq: "p @ ''|'' @ direction_debug d @ ''|'' @ transport_debug t =
      p' @ ''|'' @ direction_debug d' @ ''|'' @ transport_debug t'" by (simp add: resource_key_def)
  have "rev (transport_debug t) @ CHR ''|'' # rev (direction_debug d) @ CHR ''|'' # rev p =
      rev (transport_debug t') @ CHR ''|'' # rev (direction_debug d') @ CHR ''|'' # rev p'"
    using arg_cong [OF eq, of rev] by simp
  then show "p = p' \<and> d = d' \<and> t = t'" by (cases d; cases d'; cases t; cases t'; simp add: field_eq)
qed simp

lemma key_of_inj: "key_of r = key_of r' \<longleftrightarrow> r = r'"
  by (cases r; cases r') (simp add: key_of_def resource_key_inj)

section \<open>The contract\<close>

record 'w target =
  tg_capabilities :: "'w \<Rightarrow> target_capabilities"
  tg_snapshot :: "schedule_resource \<Rightarrow> 'w \<Rightarrow> (target_error + target_snapshot) \<times> 'w"
  tg_current_generation :: "schedule_resource \<Rightarrow> 'w \<Rightarrow> (target_error + nat) \<times> 'w"
  tg_publish :: "schedule_resource \<Rightarrow> nat \<Rightarrow> target_plan \<Rightarrow> u64 \<Rightarrow> 'w \<Rightarrow> (target_error + nat) \<times> 'w"
  tg_global_generation :: "'w \<Rightarrow> nat \<times> 'w"

text \<open>
  What \<^verbatim>\<open>PolicyTarget\<close> documents: a publication succeeds only on the expected generation and then
  returns the next one. Generations are \<^verbatim>\<open>u64\<close> values.
\<close>

locale policy_target =
  fixes tg :: "'w target"
  assumes publish_next: "tg_publish tg r expected plan ns w = (Inr g, w') \<Longrightarrow> expected \<le> U64_MAX \<Longrightarrow>
    g = expected + 1 \<and> g \<le> U64_MAX"

section \<open>The stream target\<close>

text \<open>The operations work on any extension of the record, so a world may also hold a clock.\<close>

record stream_world =
  sw_policies :: "nat \<Rightarrow> fault_plan published_policy"
  sw_resources :: "(string \<times> (nat \<times> nat)) list"
  sw_global :: nat

definition stream_register :: "string \<Rightarrow> nat \<Rightarrow> nat \<Rightarrow> 'z stream_world_scheme \<Rightarrow> (target_error + unit) \<times> 'z stream_world_scheme" where
  "stream_register name upstream downstream w =
     (if name = [] \<or> MAX_RESOURCE_NAME_BYTES < length name
      then (Inl (target_invalid (''resource name must be 1..='' @ dec MAX_RESOURCE_NAME_BYTES @ '' bytes'')), w)
      else (Inr (), w\<lparr>sw_resources := AList.update name (upstream, downstream) (sw_resources w)\<rparr>))"

definition stream_names :: "'z stream_world_scheme \<Rightarrow> string list" where
  "stream_names w = sort (map fst (sw_resources w))"

definition stream_lookup :: "schedule_resource \<Rightarrow> 'z stream_world_scheme \<Rightarrow> target_error + nat \<times> nat" where
  "stream_lookup r w =
     (if sr_transport r \<noteq> StreamTransport
      then Inl (target_unsupported ''stream-only target cannot apply datagram actions'')
      else case map_of (sw_resources w) (sr_proxy r) of
             None \<Rightarrow> Inl (target_missing (''stream resource '' @ sr_proxy r @ '' not found''))
           | Some pair \<Rightarrow> Inr pair)"

fun directional :: "nat \<times> nat \<Rightarrow> direction \<Rightarrow> nat" where
  "directional (upstream, downstream) Upstream = upstream"
| "directional (upstream, downstream) Downstream = downstream"

definition stream_snapshot :: "schedule_resource \<Rightarrow> 'z stream_world_scheme \<Rightarrow> (target_error + target_snapshot) \<times> 'z stream_world_scheme" where
  "stream_snapshot r w =
     (case stream_lookup r w of
        Inl e \<Rightarrow> (Inl e, w)
      | Inr pair \<Rightarrow>
          let policy = sw_policies w (directional pair (sr_direction r))
          in (Inr \<lparr>ts_generation = generation policy, ts_plan = StreamPlan (pub_plan policy)\<rparr>, w))"

definition stream_current_generation :: "schedule_resource \<Rightarrow> 'z stream_world_scheme \<Rightarrow> (target_error + nat) \<times> 'z stream_world_scheme" where
  "stream_current_generation r w =
     (case stream_lookup r w of
        Inl e \<Rightarrow> (Inl e, w)
      | Inr pair \<Rightarrow> (Inr (generation (sw_policies w (directional pair (sr_direction r)))), w))"

definition stream_publish :: "schedule_resource \<Rightarrow> nat \<Rightarrow> target_plan \<Rightarrow> u64 \<Rightarrow> 'z stream_world_scheme \<Rightarrow>
    (target_error + nat) \<times> 'z stream_world_scheme" where
  "stream_publish r expected plan ns w =
     (case stream_lookup r w of
        Inl e \<Rightarrow> (Inl e, w)
      | Inr pair \<Rightarrow>
          (case plan of
             DatagramPlan _ \<Rightarrow> (Inl (target_unsupported ''stream-only target cannot publish datagram plans''), w)
           | StreamPlan p \<Rightarrow>
               let a = directional pair (sr_direction r)
               in case publish_expected p ns expected (sw_policies w a) of
                    (Inr snap, policy) \<Rightarrow>
                      (Inr (generation snap),
                       w\<lparr>sw_policies := (sw_policies w)(a := policy), sw_global := (sw_global w + 1) mod 2 ^ 64\<rparr>)
                  | (Inl (Invalid e), policy) \<Rightarrow> (Inl (target_invalid (validation_error_display e)), w)
                  | (Inl (Conflict ex found), policy) \<Rightarrow> (Inl (GenerationConflict ex found), w)))"

definition stream_target :: "'z stream_world_scheme target" where
  "stream_target =
     \<lparr>tg_capabilities = (\<lambda>w. \<lparr>cap_stream = True, cap_datagram = False\<rparr>),
      tg_snapshot = stream_snapshot, tg_current_generation = stream_current_generation,
      tg_publish = stream_publish, tg_global_generation = (\<lambda>w. (sw_global w, w))\<rparr>"

definition stream_target_from_policies :: "string \<Rightarrow> nat \<Rightarrow> nat \<Rightarrow> (nat \<Rightarrow> fault_plan published_policy) \<Rightarrow>
    target_error + stream_world" where
  "stream_target_from_policies name upstream downstream policies =
     (case stream_register name upstream downstream \<lparr>sw_policies = policies, sw_resources = [], sw_global = 0\<rparr> of
        (Inl e, _) \<Rightarrow> Inl e
      | (Inr _, w) \<Rightarrow> Inr w)"

section \<open>What the stream target does\<close>

text \<open>The cell a stream resource stands for.\<close>

definition stream_cell :: "schedule_resource \<Rightarrow> 'z stream_world_scheme \<Rightarrow> nat option" where
  "stream_cell r w =
     (if sr_transport r = StreamTransport
      then map_option (\<lambda>pair. directional pair (sr_direction r)) (map_of (sw_resources w) (sr_proxy r)) else None)"

lemma stream_lookup_cell:
  "stream_lookup r w = Inr pair \<Longrightarrow> stream_cell r w = Some (directional pair (sr_direction r))"
  "stream_lookup r w = Inl e \<Longrightarrow> stream_cell r w = None"
  by (auto simp: stream_lookup_def stream_cell_def split: if_splits option.splits)

lemma stream_publish_ok:
  assumes "stream_publish r expected plan ns w = (Inr g, w')"
  obtains p a where "plan = StreamPlan p" "stream_cell r w = Some a" "generation (sw_policies w a) = expected"
    "expected \<noteq> U64_MAX" "g = sat_add64 expected 1"
    "w' = w\<lparr>sw_policies := (sw_policies w)(a := next_policy p ns (sw_policies w a)), sw_global := (sw_global w + 1) mod 2 ^ 64\<rparr>"
proof -
  obtain pair where l: "stream_lookup r w = Inr pair" using assms by (auto simp: stream_publish_def split: sum.splits)
  obtain p where p: "plan = StreamPlan p" using assms l by (auto simp: stream_publish_def split: target_plan.splits)
  let ?a = "directional pair (sr_direction r)"
  obtain snap c where pe: "publish_expected p ns expected (sw_policies w ?a) = (Inr snap, c)" and g: "g = generation snap"
    and w': "w' = w\<lparr>sw_policies := (sw_policies w)(?a := c), sw_global := (sw_global w + 1) mod 2 ^ 64\<rparr>"
    using assms l p by (auto simp: stream_publish_def Let_def split: prod.splits sum.splits publish_error.splits)
  have "generation (sw_policies w ?a) = expected" "expected \<noteq> U64_MAX" "snap = next_policy p ns (sw_policies w ?a)" "c = snap"
    using pe by (auto simp: publish_expected_def split: sum.splits if_splits)
  then show thesis using that [OF p stream_lookup_cell(1) [OF l]] g w' by (auto simp: next_policy_def)
qed

lemma stream_publish_failed: "stream_publish r expected plan ns w = (Inl e, w') \<Longrightarrow> w' = w"
  by (auto simp: stream_publish_def Let_def split: sum.splits target_plan.splits prod.splits publish_error.splits)

lemma stream_publish_next:
  assumes "stream_publish r expected plan ns w = (Inr g, w')" "expected \<le> U64_MAX"
  shows "g = expected + 1 \<and> g \<le> U64_MAX"
  by (rule stream_publish_ok [OF assms(1)]) (use assms(2) in \<open>auto simp: sat_add64_def\<close>)

interpretation stream: policy_target stream_target
  by unfold_locales (use stream_publish_next in \<open>simp add: stream_target_def\<close>)

text \<open>
  A target shared with other tasks: before every call the next external step happens. Any
  interleaving of the driver with other users of the policies has this form.
\<close>

definition ext_step :: "'w \<times> ('w \<Rightarrow> 'w) list \<Rightarrow> 'w \<times> ('w \<Rightarrow> 'w) list" where
  "ext_step wx = (case wx of (w, []) \<Rightarrow> (w, []) | (w, f # fs) \<Rightarrow> (f w, fs))"

definition disturbed :: "('w \<Rightarrow> 'a \<times> 'w) \<Rightarrow> 'w \<times> ('w \<Rightarrow> 'w) list \<Rightarrow> 'a \<times> 'w \<times> ('w \<Rightarrow> 'w) list" where
  "disturbed call wx = (let (w, fs) = ext_step wx; (a, w') = call w in (a, w', fs))"

definition shared :: "'w target \<Rightarrow> ('w \<times> ('w \<Rightarrow> 'w) list) target" where
  "shared tg =
     \<lparr>tg_capabilities = (\<lambda>wx. tg_capabilities tg (fst wx)),
      tg_snapshot = (\<lambda>r. disturbed (tg_snapshot tg r)),
      tg_current_generation = (\<lambda>r. disturbed (tg_current_generation tg r)),
      tg_publish = (\<lambda>r expected plan ns. disturbed (tg_publish tg r expected plan ns)),
      tg_global_generation = disturbed (tg_global_generation tg)\<rparr>"

lemma disturbed_result: "disturbed call wx = (a, wx') \<Longrightarrow> \<exists>w w'. call w = (a, w')"
  by (auto simp: disturbed_def Let_def split: prod.splits)

interpretation shared_stream: policy_target "shared (stream_target :: 'z stream_world_scheme target)"
proof
  fix r expected plan ns g and w w' :: "'z stream_world_scheme \<times> ('z stream_world_scheme \<Rightarrow> 'z stream_world_scheme) list"
  assume "tg_publish (shared stream_target) r expected plan ns w = (Inr g, w')" "expected \<le> U64_MAX"
  then obtain wa wb :: "'z stream_world_scheme" where "tg_publish stream_target r expected plan ns wa = (Inr g, wb)"
    using disturbed_result [of "tg_publish stream_target r expected plan ns" w "Inr g" w'] by (auto simp: shared_def)
  then show "g = expected + 1 \<and> g \<le> U64_MAX" using \<open>expected \<le> U64_MAX\<close> by (rule stream.publish_next)
qed

end
