(* ===== verification/Control.thy ===== *)
theory Control
  imports Target
begin

text \<open>
  The stream side of the control plane, \<^verbatim>\<open>crates/eggchaos-server/src/runtime/control.rs\<close> with the types of
  \<^verbatim>\<open>runtime/mod.rs\<close> and \<^verbatim>\<open>runtime/model.rs\<close>: proxy definitions, their validation, and the operations on
  fault plans. Every operation here runs under one acquisition of the lock of the proxy table, so each is
  one atomic function on the state.

  A definition carries each plan twice: in the live policy the streams compile from, and in the mirror
  fields the definition was configured with. The live policies are shared cells; only the entry of the
  proxy table publishes to them, so the entry holds the current snapshot itself.
\<close>

section \<open>Addresses and definitions\<close>

datatype socket_addr =
    SocketV4 "32 word" "16 word"
  | SocketV6 "128 word" "16 word" "32 word" "32 word"

definition v4_is_multicast :: "32 word \<Rightarrow> bool" where
  "v4_is_multicast ip = (drop_bit 28 ip = 14)"

definition v4_is_broadcast :: "32 word \<Rightarrow> bool" where
  "v4_is_broadcast ip = (ip = 4294967295)"

definition v6_is_multicast :: "128 word \<Rightarrow> bool" where
  "v6_is_multicast ip = (drop_bit 120 ip = 255)"

fun forbidden_target :: "socket_addr \<Rightarrow> bool" where
  "forbidden_target (SocketV4 ip _) = (ip = 0 \<or> v4_is_multicast ip \<or> v4_is_broadcast ip)"
| "forbidden_target (SocketV6 ip _ _ _) = (ip = 0 \<or> v6_is_multicast ip)"

fun forbidden_listener :: "socket_addr \<Rightarrow> bool" where
  "forbidden_listener (SocketV4 ip _) = (v4_is_multicast ip \<or> v4_is_broadcast ip)"
| "forbidden_listener (SocketV6 ip _ _ _) = v6_is_multicast ip"

type_synonym policy = "fault_plan published_policy"

record proxy_spec =
  ps_name :: string
  ps_listen :: socket_addr
  ps_upstream :: socket_addr
  ps_upstream_faults :: fault_plan
  ps_downstream_faults :: fault_plan
  ps_upstream_policy :: policy
  ps_downstream_policy :: policy
  ps_enabled :: bool
  ps_max_connections :: "nat option"
  ps_connect_timeout :: duration
  ps_seed :: u64

datatype control_error =
    NotFound string
  | ControlConflict string
  | ControlInvalid string
  | BindFailed string string
  | RestartFailed string string

datatype eggchaos_error =
    InvalidProxy string
  | InvalidPlan validation_error
  | DuplicateProxy string
  | ControlFailure control_error

definition MAX_CONTROL_TIMEOUT_MS :: nat where "MAX_CONTROL_TIMEOUT_MS = 300000"

text \<open>\<^verbatim>\<open>u8::is_ascii_alphanumeric\<close> and the three further unreserved characters.\<close>

definition name_byte_ok :: "char \<Rightarrow> bool" where
  "name_byte_ok ch = (let b = (of_char ch :: nat) in
     (48 \<le> b \<and> b \<le> 57) \<or> (65 \<le> b \<and> b \<le> 90) \<or> (97 \<le> b \<and> b \<le> 122) \<or> ch \<in> set ''._-'')"

definition proxy_spec_validate :: "proxy_spec \<Rightarrow> eggchaos_error + unit" where
  "proxy_spec_validate s =
     (if ps_name s = [] \<or> 128 < length (ps_name s)
      then Inl (InvalidProxy ''proxy name must be 1..=128 bytes'')
      else if \<not> list_all name_byte_ok (ps_name s)
      then Inl (InvalidProxy ''proxy name must match [A-Za-z0-9._-]+'')
      else case plan_validate (ps_upstream_faults s) of
        Inl e \<Rightarrow> Inl (InvalidPlan e)
      | Inr _ \<Rightarrow> (case plan_validate (ps_downstream_faults s) of
        Inl e \<Rightarrow> Inl (InvalidPlan e)
      | Inr _ \<Rightarrow>
          if (case ps_max_connections s of Some limit \<Rightarrow> limit = 0 \<or> 1000000 < limit | None \<Rightarrow> False)
          then Inl (InvalidProxy ''max_connections must be in 1..=1000000'')
          else if ps_connect_timeout s = 0
          then Inl (InvalidProxy ''connect timeout must be non-zero'')
          else if MAX_CONTROL_TIMEOUT_MS < ps_connect_timeout s div 1000000
          then Inl (InvalidProxy ''connect timeout must be at most 300000 ms'')
          else if forbidden_target (ps_upstream s)
          then Inl (InvalidProxy ''upstream must be a unicast socket address'')
          else if forbidden_listener (ps_listen s)
          then Inl (InvalidProxy ''listen address must be unicast or unspecified'')
          else Inr ()))"

text \<open>\<^verbatim>\<open>LivePolicy::new\<close> panics on an invalid plan: \<open>None\<close>.\<close>

definition init_policies :: "u64 \<Rightarrow> proxy_spec \<Rightarrow> proxy_spec option" where
  "init_policies service_seed s =
     (let namespace = service_seed XOR ps_seed s in
      case live_policy_new (ps_upstream_faults s) namespace of
        None \<Rightarrow> None
      | Some up \<Rightarrow> (case live_policy_new (ps_downstream_faults s) namespace of
          None \<Rightarrow> None
        | Some down \<Rightarrow> Some (s\<lparr>ps_upstream_policy := up, ps_downstream_policy := down\<rparr>)))"

section \<open>The proxy table\<close>

text \<open>
  \<open>mp_cancel\<close>, \<open>mp_done\<close>, \<open>mp_active\<close> and \<open>mp_ordinal\<close> are the identities of the cancellation token, the
  completion flag and the two counters that the entry shares with its supervisor.
\<close>

record managed_proxy =
  mp_spec :: proxy_spec
  mp_running :: bool
  mp_bound_addr :: "socket_addr option"
  mp_cancel :: nat
  mp_done :: nat
  mp_active :: nat
  mp_ordinal :: nat

text \<open>\<open>ct_fresh\<close> is the next unused identity of a shared object.\<close>

record control =
  ct_seed :: u64
  ct_proxies :: "(string \<times> managed_proxy) list"
  ct_generation :: nat
  ct_fresh :: nat

definition control_default :: "u64 \<Rightarrow> control" where
  "control_default seed = \<lparr>ct_seed = seed, ct_proxies = [], ct_generation = 1, ct_fresh = 1\<rparr>"

text \<open>An entry with a new token, completion flag and counters.\<close>

definition new_entry :: "proxy_spec \<Rightarrow> bool \<Rightarrow> socket_addr option \<Rightarrow> nat \<Rightarrow> managed_proxy" where
  "new_entry s running bound fresh =
     \<lparr>mp_spec = s, mp_running = running, mp_bound_addr = bound, mp_cancel = fresh, mp_done = fresh + 1,
      mp_active = fresh + 2, mp_ordinal = fresh + 3\<rparr>"

record proxy_view =
  pv_name :: string
  pv_listen :: socket_addr
  pv_upstream :: socket_addr
  pv_bound_addr :: "socket_addr option"
  pv_running :: bool
  pv_enabled :: bool
  pv_upstream_faults :: fault_plan
  pv_downstream_faults :: fault_plan
  pv_upstream_generation :: nat
  pv_downstream_generation :: nat
  pv_upstream_namespace :: u64
  pv_downstream_namespace :: u64
  pv_max_connections :: "nat option"
  pv_connect_timeout_ms :: nat
  pv_seed :: u64

definition view_of :: "managed_proxy \<Rightarrow> proxy_view" where
  "view_of entry =
     (let s = mp_spec entry; upstream = ps_upstream_policy s; downstream = ps_downstream_policy s in
      \<lparr>pv_name = ps_name s, pv_listen = ps_listen s, pv_upstream = ps_upstream s,
       pv_bound_addr = mp_bound_addr entry, pv_running = mp_running entry, pv_enabled = ps_enabled s,
       pv_upstream_faults = pub_plan upstream, pv_downstream_faults = pub_plan downstream,
       pv_upstream_generation = generation upstream, pv_downstream_generation = generation downstream,
       pv_upstream_namespace = seed_namespace upstream, pv_downstream_namespace = seed_namespace downstream,
       pv_max_connections = ps_max_connections s,
       pv_connect_timeout_ms = min (ps_connect_timeout s div 1000000) U64_MAX, pv_seed = ps_seed s\<rparr>)"

definition control_generation :: "'z control_scheme \<Rightarrow> nat" where
  "control_generation c = ct_generation c"

definition next_generation :: "'z control_scheme \<Rightarrow> nat \<times> 'z control_scheme" where
  "next_generation c =
     (let g = (ct_generation c + 1) mod 2 ^ 64 in (g, c\<lparr>ct_generation := g\<rparr>))"

definition control_list :: "'z control_scheme \<Rightarrow> proxy_view list" where
  "control_list c = map (view_of \<circ> snd) (ct_proxies c)"

definition control_get :: "string \<Rightarrow> 'z control_scheme \<Rightarrow> proxy_view option" where
  "control_get name c = map_option view_of (map_of (ct_proxies c) name)"

definition adjust_spec :: "string \<Rightarrow> (proxy_spec \<Rightarrow> proxy_spec) \<Rightarrow> 'z control_scheme \<Rightarrow> 'z control_scheme" where
  "adjust_spec name f c =
     c\<lparr>ct_proxies := btree_adjust name (\<lambda>entry. entry\<lparr>mp_spec := f (mp_spec entry)\<rparr>) (ct_proxies c)\<rparr>"

fun spec_policy :: "direction \<Rightarrow> proxy_spec \<Rightarrow> policy" where
  "spec_policy Upstream s = ps_upstream_policy s"
| "spec_policy Downstream s = ps_downstream_policy s"

fun set_policy :: "direction \<Rightarrow> policy \<Rightarrow> proxy_spec \<Rightarrow> proxy_spec" where
  "set_policy Upstream p s = s\<lparr>ps_upstream_policy := p\<rparr>"
| "set_policy Downstream p s = s\<lparr>ps_downstream_policy := p\<rparr>"

fun spec_mirror :: "direction \<Rightarrow> proxy_spec \<Rightarrow> fault_plan" where
  "spec_mirror Upstream s = ps_upstream_faults s"
| "spec_mirror Downstream s = ps_downstream_faults s"

fun set_mirror :: "direction \<Rightarrow> fault_plan \<Rightarrow> proxy_spec \<Rightarrow> proxy_spec" where
  "set_mirror Upstream plan s = s\<lparr>ps_upstream_faults := plan\<rparr>"
| "set_mirror Downstream plan s = s\<lparr>ps_downstream_faults := plan\<rparr>"

section \<open>Fault operations\<close>

record fault_upsert =
  fu_direction :: direction
  fu_id :: string
  fu_probability :: f64
  fu_kind :: fault_kind

record fault_patch =
  fp_probability :: "f64 option"
  fp_kind :: "fault_kind option"

definition invalid_plan :: "validation_error \<Rightarrow> control_error" where
  "invalid_plan e = ControlInvalid (validation_error_display e)"

definition build_fault_spec :: "fault_upsert \<Rightarrow> control_error + fault_spec" where
  "build_fault_spec upsert =
     (if fu_id upsert = [] \<or> 128 < length (fu_id upsert)
      then Inl (ControlInvalid ''fault id must be 1..=128 bytes'')
      else if \<not> in_unit_interval (fu_probability upsert) \<or> \<not> f64_is_finite (fu_probability upsert)
      then Inl (ControlInvalid ''probability must be finite and between 0 and 1'')
      else case fault_id_new (fu_id upsert) of
             Inl e \<Rightarrow> Inl (invalid_plan e)
           | Inr i \<Rightarrow> (case probability_new (fu_probability upsert) of
                         Inl e \<Rightarrow> Inl (invalid_plan e)
                       | Inr p \<Rightarrow> Inr \<lparr>fs_id = i, fs_probability = p, fs_kind = fu_kind upsert\<rparr>))"

text \<open>
  The common end of the plan operations: publish with the namespace of the base, then refresh the mirror
  from the published snapshot and take the next configuration generation.
\<close>

definition publish_and_mirror :: "string \<Rightarrow> direction \<Rightarrow> fault_plan \<Rightarrow> policy \<Rightarrow> 'z control_scheme \<Rightarrow>
    (control_error + nat) \<times> 'z control_scheme" where
  "publish_and_mirror proxy dir plan base c =
     (case publish plan (seed_namespace base) base of
        (Inl e, p) \<Rightarrow> (Inl (invalid_plan e), adjust_spec proxy (set_policy dir p) c)
      | (Inr published, p) \<Rightarrow>
          let (g, c') = next_generation (adjust_spec proxy (set_mirror dir (pub_plan published) \<circ> set_policy dir p) c)
          in (Inr g, c'))"

definition add_fault :: "string \<Rightarrow> fault_upsert \<Rightarrow> 'z control_scheme \<Rightarrow>
    (control_error + direction \<times> fault_spec \<times> nat) \<times> 'z control_scheme" where
  "add_fault proxy upsert c =
     (case build_fault_spec upsert of
        Inl e \<Rightarrow> (Inl e, c)
      | Inr spec \<Rightarrow> (case map_of (ct_proxies c) proxy of
          None \<Rightarrow> (Inl (NotFound proxy), c)
        | Some entry \<Rightarrow>
            let base = spec_policy (fu_direction upsert) (mp_spec entry) in
            if plan_get (pub_plan base) (fs_id spec) \<noteq> None
            then (Inl (ControlConflict (''fault '' @ fs_id spec @ '' already exists on '' @ proxy @ ''/'' @
                    direction_as_str (fu_direction upsert))), c)
            else (case fault_plan_new (plan_faults (pub_plan base) @ [spec]) of
                    Inl e \<Rightarrow> (Inl (invalid_plan e), c)
                  | Inr plan \<Rightarrow> (case publish_and_mirror proxy (fu_direction upsert) plan base c of
                      (Inl e, c') \<Rightarrow> (Inl e, c')
                    | (Inr g, c') \<Rightarrow> (Inr (fu_direction upsert, spec, g), c')))))"

fun update_fault_in :: "direction list \<Rightarrow> string \<Rightarrow> managed_proxy \<Rightarrow> string \<Rightarrow> fault_patch \<Rightarrow> 'z control_scheme \<Rightarrow>
    (control_error + direction \<times> fault_spec \<times> nat) \<times> 'z control_scheme" where
  "update_fault_in [] proxy entry i patch c = (Inl (NotFound (''fault '' @ i @ '' on '' @ proxy)), c)"
| "update_fault_in (dir # dirs) proxy entry i patch c =
     (let base = spec_policy dir (mp_spec entry) in
      case plan_get (pub_plan base) i of
        None \<Rightarrow> update_fault_in dirs proxy entry i patch c
      | Some existing \<Rightarrow>
          (case (case fp_probability patch of
                   None \<Rightarrow> Inr existing
                 | Some probability \<Rightarrow> (case probability_new probability of
                     Inl e \<Rightarrow> Inl (invalid_plan e)
                   | Inr p \<Rightarrow> Inr (existing\<lparr>fs_probability := p\<rparr>))) of
             Inl e \<Rightarrow> (Inl e, c)
           | Inr spec \<Rightarrow>
               let next_spec = (case fp_kind patch of None \<Rightarrow> spec | Some kind \<Rightarrow> spec\<lparr>fs_kind := kind\<rparr>) in
               (case fault_plan_new (replace_first next_spec (plan_faults (pub_plan base))) of
                  Inl e \<Rightarrow> (Inl (invalid_plan e), c)
                | Inr plan \<Rightarrow> (case publish_and_mirror proxy dir plan base c of
                    (Inl e, c') \<Rightarrow> (Inl e, c')
                  | (Inr g, c') \<Rightarrow> (Inr (dir, next_spec, g), c')))))"

definition update_fault :: "string \<Rightarrow> string \<Rightarrow> fault_patch \<Rightarrow> 'z control_scheme \<Rightarrow>
    (control_error + direction \<times> fault_spec \<times> nat) \<times> 'z control_scheme" where
  "update_fault proxy i patch c =
     (if (case fp_probability patch of
            Some p \<Rightarrow> \<not> in_unit_interval p \<or> \<not> f64_is_finite p
          | None \<Rightarrow> False)
      then (Inl (ControlInvalid ''probability must be finite and between 0 and 1''), c)
      else case map_of (ct_proxies c) proxy of
             None \<Rightarrow> (Inl (NotFound proxy), c)
           | Some entry \<Rightarrow> update_fault_in [Upstream, Downstream] proxy entry i patch c)"

fun remove_fault_in :: "direction list \<Rightarrow> string \<Rightarrow> managed_proxy \<Rightarrow> string \<Rightarrow> 'z control_scheme \<Rightarrow>
    (control_error + nat) \<times> 'z control_scheme" where
  "remove_fault_in [] proxy entry i c = (Inl (NotFound (''fault '' @ i @ '' on '' @ proxy)), c)"
| "remove_fault_in (dir # dirs) proxy entry i c =
     (let base = spec_policy dir (mp_spec entry) in
      if plan_get (pub_plan base) i = None then remove_fault_in dirs proxy entry i c
      else let plan = without_fault i (pub_plan base) in
           case plan_validate plan of
             Inl e \<Rightarrow> (Inl (invalid_plan e), c)
           | Inr _ \<Rightarrow> publish_and_mirror proxy dir plan base c)"

definition remove_fault :: "string \<Rightarrow> string \<Rightarrow> 'z control_scheme \<Rightarrow> (control_error + nat) \<times> 'z control_scheme" where
  "remove_fault proxy i c =
     (case map_of (ct_proxies c) proxy of
        None \<Rightarrow> (Inl (NotFound proxy), c)
      | Some entry \<Rightarrow> remove_fault_in [Upstream, Downstream] proxy entry i c)"

definition get_fault :: "string \<Rightarrow> string \<Rightarrow> 'z control_scheme \<Rightarrow> (direction \<times> fault_spec) option" where
  "get_fault proxy i c =
     (case map_of (ct_proxies c) proxy of
        None \<Rightarrow> None
      | Some entry \<Rightarrow> (case plan_get (pub_plan (ps_upstream_policy (mp_spec entry))) i of
          Some f \<Rightarrow> Some (Upstream, f)
        | None \<Rightarrow> map_option (Pair Downstream) (plan_get (pub_plan (ps_downstream_policy (mp_spec entry))) i)))"

definition list_faults :: "string \<Rightarrow> 'z control_scheme \<Rightarrow> (fault_spec list \<times> fault_spec list) option" where
  "list_faults proxy c =
     map_option (\<lambda>entry. (plan_faults (pub_plan (ps_upstream_policy (mp_spec entry))),
                          plan_faults (pub_plan (ps_downstream_policy (mp_spec entry))))) (map_of (ct_proxies c) proxy)"

section \<open>Publications\<close>

definition publish_plans :: "string \<Rightarrow> fault_plan \<Rightarrow> fault_plan \<Rightarrow> 'z control_scheme \<Rightarrow>
    (control_error + nat) \<times> 'z control_scheme" where
  "publish_plans name upstream downstream c =
     (case plan_validate upstream of
        Inl e \<Rightarrow> (Inl (invalid_plan e), c)
      | Inr _ \<Rightarrow> (case plan_validate downstream of
        Inl e \<Rightarrow> (Inl (invalid_plan e), c)
      | Inr _ \<Rightarrow> (case map_of (ct_proxies c) name of
        None \<Rightarrow> (Inl (NotFound name), c)
      | Some entry \<Rightarrow>
          let base_up = ps_upstream_policy (mp_spec entry); base_down = ps_downstream_policy (mp_spec entry) in
          case publish upstream (seed_namespace base_up) base_up of
            (Inl e, p) \<Rightarrow> (Inl (invalid_plan e), adjust_spec name (set_policy Upstream p) c)
          | (Inr pub_up, p) \<Rightarrow>
              let c1 = adjust_spec name (set_policy Upstream p) c in
              case publish downstream (seed_namespace base_down) base_down of
                (Inl e, q) \<Rightarrow> (Inl (invalid_plan e), adjust_spec name (set_policy Downstream q) c1)
              | (Inr pub_down, q) \<Rightarrow>
                  let (g, c2) = next_generation (adjust_spec name
                        (set_mirror Downstream (pub_plan pub_down) \<circ> set_mirror Upstream (pub_plan pub_up) \<circ>
                         set_policy Downstream q) c1)
                  in (Inr g, c2))))"

record expected_publish =
  xp_upstream :: fault_plan
  xp_downstream :: fault_plan
  xp_upstream_seed :: u64
  xp_downstream_seed :: u64
  xp_expected_upstream :: nat
  xp_expected_downstream :: nat

definition conflict_message :: "string \<Rightarrow> nat \<Rightarrow> nat \<Rightarrow> string" where
  "conflict_message proxy expected found =
     ''proxy '' @ proxy @ '' policy moved from generation '' @ dec expected @ '' to '' @ dec found @
     '' during the operation; retry from current state''"

fun map_publish :: "string \<Rightarrow> validation_error publish_error \<Rightarrow> control_error" where
  "map_publish name (Invalid e) = invalid_plan e"
| "map_publish name (Conflict expected found) = ControlConflict (conflict_message name expected found)"

definition publish_plans_expected :: "string \<Rightarrow> expected_publish \<Rightarrow> 'z control_scheme \<Rightarrow>
    (control_error + nat \<times> nat \<times> nat) \<times> 'z control_scheme" where
  "publish_plans_expected name x c =
     (case map_of (ct_proxies c) name of
        None \<Rightarrow> (Inl (NotFound name), c)
      | Some entry \<Rightarrow>
          let up = ps_upstream_policy (mp_spec entry); down = ps_downstream_policy (mp_spec entry) in
          if generation up \<noteq> xp_expected_upstream x
          then (Inl (ControlConflict (conflict_message name (xp_expected_upstream x) (generation up))), c)
          else if generation down \<noteq> xp_expected_downstream x
          then (Inl (ControlConflict (conflict_message name (xp_expected_downstream x) (generation down))), c)
          else case publish_expected (xp_upstream x) (xp_upstream_seed x) (xp_expected_upstream x) up of
            (Inl e, p) \<Rightarrow> (Inl (map_publish name e), adjust_spec name (set_policy Upstream p) c)
          | (Inr pub_up, p) \<Rightarrow>
              let c1 = adjust_spec name (set_policy Upstream p) c in
              case publish_expected (xp_downstream x) (xp_downstream_seed x) (xp_expected_downstream x) down of
                (Inl e, q) \<Rightarrow> (Inl (map_publish name e), adjust_spec name (set_policy Downstream q) c1)
              | (Inr pub_down, q) \<Rightarrow>
                  let (g, c2) = next_generation (adjust_spec name
                        (set_mirror Downstream (pub_plan pub_down) \<circ> set_mirror Upstream (pub_plan pub_up) \<circ>
                         set_policy Downstream q) c1)
                  in (Inr (g, generation pub_up, generation pub_down), c2))"

definition publish_direction_expected :: "string \<Rightarrow> direction \<Rightarrow> fault_plan \<Rightarrow> u64 \<Rightarrow> nat \<Rightarrow> 'z control_scheme \<Rightarrow>
    (control_error + nat \<times> nat) \<times> 'z control_scheme" where
  "publish_direction_expected name dir plan ns expected c =
     (case map_of (ct_proxies c) name of
        None \<Rightarrow> (Inl (NotFound name), c)
      | Some entry \<Rightarrow>
          (case publish_expected plan ns expected (spec_policy dir (mp_spec entry)) of
             (Inl e, p) \<Rightarrow> (Inl (map_publish name e), adjust_spec name (set_policy dir p) c)
           | (Inr published, p) \<Rightarrow>
               let (g, c') = next_generation (adjust_spec name (set_mirror dir (pub_plan published) \<circ> set_policy dir p) c)
               in (Inr (g, generation published), c')))"

definition snapshot_policies :: "string \<Rightarrow> 'z control_scheme \<Rightarrow> (policy \<times> policy) option" where
  "snapshot_policies name c =
     map_option (\<lambda>entry. (ps_upstream_policy (mp_spec entry), ps_downstream_policy (mp_spec entry)))
       (map_of (ct_proxies c) name)"

definition current_generations :: "string \<Rightarrow> 'z control_scheme \<Rightarrow> (nat \<times> nat) option" where
  "current_generations name c =
     map_option (\<lambda>(up, down). (generation up, generation down)) (snapshot_policies name c)"


section \<open>Definitions without a listener\<close>

fun control_error_display :: "control_error \<Rightarrow> string" where
  "control_error_display (NotFound s) = ''proxy not found: '' @ s"
| "control_error_display (ControlConflict s) = ''conflict: '' @ s"
| "control_error_display (ControlInvalid s) = ''invalid: '' @ s"
| "control_error_display (BindFailed proxy reason) = ''bind failed for proxy '' @ proxy @ '': '' @ reason"
| "control_error_display (RestartFailed proxy reason) = ''restart failed for proxy '' @ proxy @ '': '' @ reason"

fun map_validation :: "eggchaos_error \<Rightarrow> control_error" where
  "map_validation (InvalidProxy message) = ControlInvalid message"
| "map_validation (InvalidPlan e) = ControlInvalid (''invalid fault plan: '' @ validation_error_display e)"
| "map_validation (DuplicateProxy name) = ControlInvalid (''duplicate proxy name: '' @ name)"
| "map_validation (ControlFailure e) = ControlInvalid (control_error_display e)"

definition insert_stopped :: "proxy_spec \<Rightarrow> 'z control_scheme \<Rightarrow> 'z control_scheme" where
  "insert_stopped s c =
     c\<lparr>ct_proxies := btree_insert (ps_name s) (new_entry s False None (ct_fresh c)) (ct_proxies c),
       ct_fresh := ct_fresh c + 4\<rparr>"

text \<open>\<^verbatim>\<open>ControlState::new\<close>: the first definition of a name wins; a panic is \<open>None\<close>.\<close>

fun control_new_loop :: "proxy_spec list \<Rightarrow> control \<Rightarrow> control option" where
  "control_new_loop [] c = Some c"
| "control_new_loop (s # ss) c =
     (if map_of (ct_proxies c) (ps_name s) \<noteq> None then control_new_loop ss c
      else case init_policies (ct_seed c) s of
             None \<Rightarrow> None
           | Some s' \<Rightarrow> control_new_loop ss (insert_stopped s' c))"

definition control_new :: "proxy_spec list \<Rightarrow> control option" where
  "control_new specs = control_new_loop specs (control_default 0)"

definition import_definition :: "proxy_spec \<Rightarrow> 'z control_scheme \<Rightarrow>
    ((control_error + nat) \<times> 'z control_scheme) option" where
  "import_definition s c =
     (case proxy_spec_validate s of
        Inl e \<Rightarrow> Some (Inl (map_validation e), c)
      | Inr _ \<Rightarrow> (case init_policies (ct_seed c) s of
          None \<Rightarrow> None
        | Some s' \<Rightarrow>
            if map_of (ct_proxies c) (ps_name s') \<noteq> None
            then Some (Inl (ControlConflict (''proxy '' @ ps_name s' @ '' already exists'')), c)
            else let (g, c') = next_generation (insert_stopped s' c) in Some (Inr g, c')))"

text \<open>The plan part of \<^verbatim>\<open>reset\<close>: every proxy is enabled and its plans are emptied under their namespaces.\<close>

fun reset_direction :: "direction \<Rightarrow> proxy_spec \<Rightarrow> proxy_spec" where
  "reset_direction dir s =
     (case publish empty_plan (seed_namespace (spec_policy dir s)) (spec_policy dir s) of
        (Inr _, p) \<Rightarrow> set_mirror dir empty_plan (set_policy dir p s)
      | (Inl _, p) \<Rightarrow> set_policy dir p s)"

definition reset_spec :: "proxy_spec \<Rightarrow> proxy_spec" where
  "reset_spec s = reset_direction Downstream (reset_direction Upstream (s\<lparr>ps_enabled := True\<rparr>))"

definition reset_plans :: "'z control_scheme \<Rightarrow> 'z control_scheme" where
  "reset_plans c = c\<lparr>ct_proxies := map (\<lambda>(name, entry). (name, entry\<lparr>mp_spec := reset_spec (mp_spec entry)\<rparr>)) (ct_proxies c)\<rparr>"


section \<open>One publication in one direction\<close>

text \<open>
  What an edit of one direction does to the state: the next generation of that policy with the plan, its
  mirror, and the next configuration generation. Nothing else changes.
\<close>

definition committed :: "string \<Rightarrow> direction \<Rightarrow> fault_plan \<Rightarrow> u64 \<Rightarrow> 'z control_scheme \<Rightarrow> 'z control_scheme" where
  "committed proxy dir plan ns c =
     snd (next_generation (adjust_spec proxy
       (\<lambda>s. set_mirror dir plan (set_policy dir (next_policy plan ns (spec_policy dir s)) s)) c))"

definition committable :: "string \<Rightarrow> direction \<Rightarrow> fault_plan \<Rightarrow> 'z control_scheme \<Rightarrow> bool" where
  "committable proxy dir plan c =
     (plan_ok plan \<and> (\<exists>entry. map_of (ct_proxies c) proxy = Some entry \<and>
        generation (spec_policy dir (mp_spec entry)) < U64_MAX))"

definition spec_synced :: "proxy_spec \<Rightarrow> bool" where
  "spec_synced s = (\<forall>dir. spec_mirror dir s = pub_plan (spec_policy dir s) \<and>
     plan_ok (pub_plan (spec_policy dir s)) \<and> generation (spec_policy dir s) \<le> U64_MAX)"

definition control_ok :: "'z control_scheme \<Rightarrow> bool" where
  "control_ok c = (btree_valid (ct_proxies c) \<and>
     (\<forall>name entry. map_of (ct_proxies c) name = Some entry \<longrightarrow>
        ps_name (mp_spec entry) = name \<and> spec_synced (mp_spec entry)))"

named_theorems control_simps

lemma spec_policy_set [control_simps, simp]:
  "spec_policy d (set_policy d' p s) = (if d = d' then p else spec_policy d s)"
  "spec_policy d (set_mirror d' m s) = spec_policy d s"
  "spec_mirror d (set_policy d' p s) = spec_mirror d s"
  "spec_mirror d (set_mirror d' m s) = (if d = d' then m else spec_mirror d s)"
  "ps_name (set_policy d' p s) = ps_name s"
  "ps_name (set_mirror d' m s) = ps_name s"
  by (cases d; cases d'; simp)+

lemma set_policy_same [simp]: "set_policy d (spec_policy d s) s = s"
  by (cases d) simp_all

lemma spec_policy_other [simp]: "ps_upstream_policy s = spec_policy Upstream s" "ps_downstream_policy s = spec_policy Downstream s"
  by simp_all

declare spec_policy_other [simp del] spec_policy.simps [simp del] spec_mirror.simps [simp del]
  set_policy.simps [simp del] set_mirror.simps [simp del]

lemma adjust_spec_proxies [simp]:
  "ct_generation (adjust_spec n f c) = ct_generation c" "ct_seed (adjust_spec n f c) = ct_seed c"
  "ct_fresh (adjust_spec n f c) = ct_fresh c"
  "btree_valid (ct_proxies (adjust_spec n f c)) = btree_valid (ct_proxies c)"
  by (simp_all add: adjust_spec_def)

lemma adjust_spec_lookup:
  "map_of (ct_proxies (adjust_spec n f c)) k =
     (if k = n then map_option (\<lambda>e. e\<lparr>mp_spec := f (mp_spec e)\<rparr>) (map_of (ct_proxies c) k) else map_of (ct_proxies c) k)"
  by (simp add: adjust_spec_def map_of_btree_adjust)

lemma btree_adjust_cong:
  assumes "btree_valid m" "map_of m k = Some v" "f v = g v"
  shows "btree_adjust k f m = btree_adjust k g m"
proof -
  have "w = v" if "(k, w) \<in> set m" for w using that assms(1,2) by (simp add: btree_set_iff)
  then show ?thesis unfolding btree_adjust_def using assms(3) by (intro map_cong) auto
qed

lemma btree_adjust_id:
  assumes "btree_valid m" "map_of m k = Some v" "f v = v"
  shows "btree_adjust k f m = m"
proof -
  have "btree_adjust k f m = btree_adjust k id m" using assms by (intro btree_adjust_cong) auto
  also have "\<dots> = m" by (auto simp: btree_adjust_def intro: map_idI)
  finally show ?thesis .
qed

lemma adjust_spec_id:
  assumes "control_ok c" "map_of (ct_proxies c) n = Some e" "f (mp_spec e) = mp_spec e"
  shows "adjust_spec n f c = c"
  using btree_adjust_id [OF _ assms(2), of "\<lambda>e. e\<lparr>mp_spec := f (mp_spec e)\<rparr>"] assms(1,3)
  by (simp add: adjust_spec_def control_ok_def)

lemma adjust_spec_cong:
  assumes "control_ok c" "map_of (ct_proxies c) n = Some e" "f (mp_spec e) = g (mp_spec e)"
  shows "adjust_spec n f c = adjust_spec n g c"
  using btree_adjust_cong [OF _ assms(2), of "\<lambda>e. e\<lparr>mp_spec := f (mp_spec e)\<rparr>" "\<lambda>e. e\<lparr>mp_spec := g (mp_spec e)\<rparr>"]
    assms(1,3) by (simp add: adjust_spec_def control_ok_def)

lemma next_generation_simps [simp]:
  "fst (next_generation c) = (ct_generation c + 1) mod 2 ^ 64"
  "ct_proxies (snd (next_generation c)) = ct_proxies c"
  "ct_generation (snd (next_generation c)) = (ct_generation c + 1) mod 2 ^ 64"
  by (simp_all add: next_generation_def Let_def)

lemma committed_lookup:
  "map_of (ct_proxies (committed n dir plan ns c)) k =
     (if k = n then map_option (\<lambda>e. e\<lparr>mp_spec := set_mirror dir plan
        (set_policy dir (next_policy plan ns (spec_policy dir (mp_spec e))) (mp_spec e))\<rparr>) (map_of (ct_proxies c) k)
      else map_of (ct_proxies c) k)"
  by (simp add: committed_def adjust_spec_lookup)

lemma committed_valid [simp]: "btree_valid (ct_proxies (committed n dir plan ns c)) = btree_valid (ct_proxies c)"
  by (simp add: committed_def)

lemma committed_ok:
  assumes "control_ok c" "committable n dir plan c"
  shows "control_ok (committed n dir plan ns c)"
proof -
  have "spec_synced (set_mirror dir plan (set_policy dir (next_policy plan ns (spec_policy dir s)) s))"
    if "spec_synced s" "plan_ok plan" for s
    using that by (simp add: spec_synced_def next_policy_def)
  then show ?thesis using assms
    by (auto simp: control_ok_def committed_lookup committable_def committed_valid split: if_splits)
qed


text \<open>
  The contract of the operations that edit one direction of one proxy: they fail and change nothing, or
  make exactly one publication of a valid plan.
\<close>

locale plan_editor =
  fixes edit :: "'z control_scheme \<Rightarrow> (control_error + 'r) \<times> 'z control_scheme"
    and proxy :: string
  assumes edits: "control_ok c \<Longrightarrow> edit c = (res, c') \<Longrightarrow>
    (\<exists>e. res = Inl e \<and> c' = c) \<or>
    (\<exists>r dir plan ns. res = Inr r \<and> committable proxy dir plan c \<and> c' = committed proxy dir plan ns c)"
begin

lemma edit_ok: "control_ok c \<Longrightarrow> edit c = (res, c') \<Longrightarrow> control_ok c'"
  using edits committed_ok by blast

lemma edit_failed: "control_ok c \<Longrightarrow> edit c = (Inl e, c') \<Longrightarrow> c' = c"
  using edits by fastforce

lemma edit_frame: "control_ok c \<Longrightarrow> edit c = (res, c') \<Longrightarrow> k \<noteq> proxy \<Longrightarrow>
    map_of (ct_proxies c') k = map_of (ct_proxies c) k"
  using edits [of c res c'] by (auto simp: committed_lookup)

lemma edit_generations: "control_ok c \<Longrightarrow> edit c = (res, c') \<Longrightarrow> map_of (ct_proxies c') k = Some entry' \<Longrightarrow>
    \<exists>entry. map_of (ct_proxies c) k = Some entry \<and>
      generation (spec_policy d (mp_spec entry)) \<le> generation (spec_policy d (mp_spec entry')) \<and>
      generation (spec_policy d (mp_spec entry')) \<le> Suc (generation (spec_policy d (mp_spec entry)))"
  using edits [of c res c']
  by (auto simp: committed_lookup committable_def next_policy_def sat_add64_def split: if_splits)

end

lemma publish_and_mirror_edits:
  assumes "control_ok c" "map_of (ct_proxies c) proxy = Some entry" "base = spec_policy dir (mp_spec entry)"
    "publish_and_mirror proxy dir plan base c = (res, c')"
  shows "(\<exists>e. res = Inl e \<and> c' = c) \<or>
    (res = Inr ((ct_generation c + 1) mod 2 ^ 64) \<and> committable proxy dir plan c \<and>
     c' = committed proxy dir plan (seed_namespace base) c)"
proof -
  obtain r p where pub: "publish plan (seed_namespace base) base = (r, p)" by fastforce
  have le: "generation base \<le> U64_MAX" using assms(1-3) by (simp add: control_ok_def spec_synced_def)
  show ?thesis
  proof (cases r)
    case (Inl e)
    then have "p = base" using publish_cases [OF pub] by auto
    moreover have "adjust_spec proxy (set_policy dir base) c = c"
      using adjust_spec_id [OF assms(1,2)] assms(3) by simp
    ultimately show ?thesis using assms(4) pub Inl by (auto simp: publish_and_mirror_def)
  next
    case (Inr n)
    then have n: "plan_ok plan" "generation base \<noteq> U64_MAX" "n = next_policy plan (seed_namespace base) base" "p = n"
      using publish_cases [OF pub] by auto
    have eq: "adjust_spec proxy (set_mirror dir (pub_plan n) \<circ> set_policy dir p) c =
        adjust_spec proxy (\<lambda>s. set_mirror dir plan (set_policy dir (next_policy plan (seed_namespace base) (spec_policy dir s)) s)) c"
      by (rule adjust_spec_cong [OF assms(1,2)]) (simp add: n(3,4) assms(3) next_policy_def)
    have "publish_and_mirror proxy dir plan base c =
        (Inr ((ct_generation c + 1) mod 2 ^ 64), committed proxy dir plan (seed_namespace base) c)"
      using pub Inr eq by (simp add: publish_and_mirror_def committed_def case_prod_unfold)
    moreover have "committable proxy dir plan c" using assms(2,3) n(1,2) le by (simp add: committable_def)
    ultimately show ?thesis using assms(4) by simp
  qed
qed

lemma fault_plan_new_is: "fault_plan_new fs = Inr plan \<Longrightarrow> plan = \<lparr>plan_faults = fs\<rparr>"
  by (simp add: fault_plan_new_iff)

lemma add_fault_edits:
  assumes "control_ok c" "add_fault proxy upsert c = (res, c')"
  shows "(\<exists>e. res = Inl e \<and> c' = c) \<or>
    (\<exists>entry spec base plan. build_fault_spec upsert = Inr spec \<and> map_of (ct_proxies c) proxy = Some entry \<and>
      base = spec_policy (fu_direction upsert) (mp_spec entry) \<and>
      plan_get (pub_plan base) (fs_id spec) = None \<and> plan = \<lparr>plan_faults = plan_faults (pub_plan base) @ [spec]\<rparr> \<and>
      res = Inr (fu_direction upsert, spec, (ct_generation c + 1) mod 2 ^ 64) \<and>
      committable proxy (fu_direction upsert) plan c \<and>
      c' = committed proxy (fu_direction upsert) plan (seed_namespace base) c)"
proof (cases "\<exists>spec entry plan. build_fault_spec upsert = Inr spec \<and> map_of (ct_proxies c) proxy = Some entry \<and>
    plan_get (pub_plan (spec_policy (fu_direction upsert) (mp_spec entry))) (fs_id spec) = None \<and>
    fault_plan_new (plan_faults (pub_plan (spec_policy (fu_direction upsert) (mp_spec entry))) @ [spec]) = Inr plan")
  case True
  then obtain spec entry plan base where g: "build_fault_spec upsert = Inr spec" "map_of (ct_proxies c) proxy = Some entry"
    "base = spec_policy (fu_direction upsert) (mp_spec entry)" "plan_get (pub_plan base) (fs_id spec) = None"
    "fault_plan_new (plan_faults (pub_plan base) @ [spec]) = Inr plan" by blast
  obtain r c1 where pm: "publish_and_mirror proxy (fu_direction upsert) plan base c = (r, c1)" by fastforce
  have "add_fault proxy upsert c = (case r of Inl e \<Rightarrow> Inl e | Inr n \<Rightarrow> Inr (fu_direction upsert, spec, n), c1)"
    using g pm by (cases r) (simp_all add: add_fault_def)
  then show ?thesis using publish_and_mirror_edits [OF assms(1) g(2,3) pm] assms(2) g(1-4) fault_plan_new_is [OF g(5)]
    by fastforce
next
  case False
  then have "\<exists>e. add_fault proxy upsert c = (Inl e, c)"
    by (fastforce simp: add_fault_def Let_def split: sum.split option.split)
  then show ?thesis using assms(2) by auto
qed


lemma update_fault_in_edits:
  assumes "control_ok c" "map_of (ct_proxies c) proxy = Some entry"
    "update_fault_in dirs proxy entry i patch c = (res, c')"
  shows "(\<exists>e. res = Inl e \<and> c' = c) \<or>
    (\<exists>dir spec existing plan. dir \<in> set dirs \<and>
      plan_get (pub_plan (spec_policy dir (mp_spec entry))) i = Some existing \<and> fs_id spec = fs_id existing \<and>
      spec = \<lparr>fs_id = fs_id existing, fs_probability = (case fp_probability patch of None \<Rightarrow> fs_probability existing | Some p \<Rightarrow> p),
              fs_kind = (case fp_kind patch of None \<Rightarrow> fs_kind existing | Some k \<Rightarrow> k)\<rparr> \<and>
      plan = \<lparr>plan_faults = replace_first spec (plan_faults (pub_plan (spec_policy dir (mp_spec entry))))\<rparr> \<and>
      res = Inr (dir, spec, (ct_generation c + 1) mod 2 ^ 64) \<and> committable proxy dir plan c \<and>
      c' = committed proxy dir plan (seed_namespace (spec_policy dir (mp_spec entry))) c)"
  using assms(3)
proof (induction dirs)
  case (Cons dir dirs)
  define base where base: "base = spec_policy dir (mp_spec entry)"
  show ?case
  proof (cases "plan_get (pub_plan base) i")
    case None
    then show ?thesis using Cons by (fastforce simp: base)
  next
    case (Some existing)
    define spec where "spec = existing\<lparr>fs_probability := (case fp_probability patch of None \<Rightarrow> fs_probability existing | Some p \<Rightarrow> p),
        fs_kind := (case fp_kind patch of None \<Rightarrow> fs_kind existing | Some k \<Rightarrow> k)\<rparr>"
    show ?thesis
    proof (cases "(\<exists>e. res = Inl e \<and> c' = c)")
      case False
      have ok: "case fp_probability patch of None \<Rightarrow> True | Some p \<Rightarrow> probability_new p = Inr p"
        using False Cons.prems Some base
        by (auto simp: probability_new_def Let_def split: option.splits if_splits)
      have step: "update_fault_in (dir # dirs) proxy entry i patch c =
          (case fault_plan_new (replace_first spec (plan_faults (pub_plan base))) of
             Inl e \<Rightarrow> (Inl (invalid_plan e), c)
           | Inr plan \<Rightarrow> (case publish_and_mirror proxy dir plan base c of
               (Inl e, c') \<Rightarrow> (Inl e, c') | (Inr g, c') \<Rightarrow> (Inr (dir, spec, g), c')))"
        using Some ok unfolding spec_def base
        by (cases "fp_probability patch"; cases "fp_kind patch") (simp_all add: Let_def split: sum.split prod.split)
      then obtain plan where plan: "fault_plan_new (replace_first spec (plan_faults (pub_plan base))) = Inr plan"
        using False Cons.prems by (auto split: sum.splits)
      obtain r c1 where pm: "publish_and_mirror proxy dir plan base c = (r, c1)" by fastforce
      have "(res, c') = (case r of Inl e \<Rightarrow> Inl e | Inr n \<Rightarrow> Inr (dir, spec, n), c1)"
        using step plan pm Cons.prems by (cases r) simp_all
      moreover note publish_and_mirror_edits [OF assms(1,2) base pm]
      ultimately have "res = Inr (dir, spec, (ct_generation c + 1) mod 2 ^ 64) \<and> committable proxy dir plan c \<and>
          c' = committed proxy dir plan (seed_namespace base) c" using False by auto
      moreover have "spec = \<lparr>fs_id = fs_id existing, fs_probability = (case fp_probability patch of None \<Rightarrow> fs_probability existing | Some p \<Rightarrow> p),
          fs_kind = (case fp_kind patch of None \<Rightarrow> fs_kind existing | Some k \<Rightarrow> k)\<rparr>" by (simp add: spec_def)
      ultimately show ?thesis using Some fault_plan_new_is [OF plan] unfolding base by fastforce
    qed simp
  qed
qed auto

lemma remove_fault_in_edits:
  assumes "control_ok c" "map_of (ct_proxies c) proxy = Some entry"
    "remove_fault_in dirs proxy entry i c = (res, c')"
  shows "(\<exists>e. res = Inl e \<and> c' = c) \<or>
    (\<exists>dir plan. dir \<in> set dirs \<and> plan_get (pub_plan (spec_policy dir (mp_spec entry))) i \<noteq> None \<and>
      plan = without_fault i (pub_plan (spec_policy dir (mp_spec entry))) \<and>
      res = Inr ((ct_generation c + 1) mod 2 ^ 64) \<and> committable proxy dir plan c \<and>
      c' = committed proxy dir plan (seed_namespace (spec_policy dir (mp_spec entry))) c)"
  using assms(3)
proof (induction dirs)
  case (Cons dir dirs)
  define base where base: "base = spec_policy dir (mp_spec entry)"
  show ?case
  proof (cases "plan_get (pub_plan base) i")
    case None
    then show ?thesis using Cons by (fastforce simp: base)
  next
    case (Some existing)
    show ?thesis
    proof (cases "plan_validate (without_fault i (pub_plan base))")
      case (Inl e)
      then show ?thesis using Cons.prems Some by (auto simp: Let_def base)
    next
      case (Inr u)
      then have "publish_and_mirror proxy dir (without_fault i (pub_plan base)) base c = (res, c')"
        using Cons.prems Some by (simp add: Let_def base)
      from publish_and_mirror_edits [OF assms(1,2) base this] Some show ?thesis unfolding base by fastforce
    qed
  qed
qed auto

lemma publish_expected_cases:
  "publish_expected p ns g c = (res, c') \<Longrightarrow>
    (\<exists>e. res = Inl e \<and> c' = c) \<or>
    (plan_ok p \<and> generation c = g \<and> generation c \<noteq> U64_MAX \<and> res = Inr (next_policy p ns c) \<and> c' = next_policy p ns c)"
  by (cases p rule: plan_validate_cases) (auto simp: publish_expected_def split: if_splits)

lemma publish_direction_edits:
  assumes "control_ok c" "publish_direction_expected proxy dir plan ns expected c = (res, c')"
  shows "(\<exists>e. res = Inl e \<and> c' = c) \<or>
    (\<exists>entry. map_of (ct_proxies c) proxy = Some entry \<and> generation (spec_policy dir (mp_spec entry)) = expected \<and>
     res = Inr ((ct_generation c + 1) mod 2 ^ 64, Suc expected) \<and> committable proxy dir plan c \<and>
     c' = committed proxy dir plan ns c)"
proof (cases "map_of (ct_proxies c) proxy")
  case None
  then show ?thesis using assms(2) by (auto simp: publish_direction_expected_def)
next
  case (Some entry)
  define base where base: "base = spec_policy dir (mp_spec entry)"
  obtain r p where pub: "publish_expected plan ns expected base = (r, p)" by fastforce
  have le: "generation base \<le> U64_MAX" using assms(1) Some by (simp add: base control_ok_def spec_synced_def)
  show ?thesis
  proof (cases r)
    case (Inl e)
    then have "p = base" using publish_expected_cases [OF pub] by auto
    moreover have "adjust_spec proxy (set_policy dir base) c = c"
      using adjust_spec_id [OF assms(1) Some] by (simp add: base)
    ultimately show ?thesis using assms(2) Some pub Inl by (auto simp: publish_direction_expected_def base)
  next
    case (Inr n)
    then have n: "plan_ok plan" "generation base = expected" "generation base \<noteq> U64_MAX"
      "n = next_policy plan ns base" "p = n" using publish_expected_cases [OF pub] by auto
    have eq: "adjust_spec proxy (set_mirror dir (pub_plan n) \<circ> set_policy dir p) c =
        adjust_spec proxy (\<lambda>s. set_mirror dir plan (set_policy dir (next_policy plan ns (spec_policy dir s)) s)) c"
      by (rule adjust_spec_cong [OF assms(1) Some]) (simp add: n(4,5) base next_policy_def)
    have "generation n = Suc expected" using n(2-4) le by (simp add: next_policy_def sat_add64_def)
    then have "(res, c') = (Inr ((ct_generation c + 1) mod 2 ^ 64, Suc expected), committed proxy dir plan ns c)"
      using assms(2) Some pub Inr eq by (simp add: publish_direction_expected_def committed_def case_prod_unfold base)
    moreover have "committable proxy dir plan c" using Some n(1-3) le by (simp add: committable_def base)
    ultimately show ?thesis using Some n(2) base by simp
  qed
qed

interpretation add: plan_editor "add_fault proxy upsert" proxy for proxy upsert
  by unfold_locales (use add_fault_edits in blast)

interpretation update: plan_editor "update_fault proxy i patch" proxy for proxy i patch
proof
  fix c :: "'z control_scheme" and res c'
  assume ok: "control_ok c" and run: "update_fault proxy i patch c = (res, c')"
  show "(\<exists>e. res = Inl e \<and> c' = c) \<or>
    (\<exists>r dir plan ns. res = Inr r \<and> committable proxy dir plan c \<and> c' = committed proxy dir plan ns c)"
  proof (cases "\<exists>e. res = Inl e \<and> c' = c")
    case False
    then obtain entry where e: "map_of (ct_proxies c) proxy = Some entry"
      "update_fault_in [Upstream, Downstream] proxy entry i patch c = (res, c')"
      using run unfolding update_fault_def by (auto split: option.splits if_splits)
    from update_fault_in_edits [OF ok e] show ?thesis by blast
  qed simp
qed

interpretation remove: plan_editor "remove_fault proxy i" proxy for proxy i
proof
  fix c :: "'z control_scheme" and res c'
  assume ok: "control_ok c" and run: "remove_fault proxy i c = (res, c')"
  show "(\<exists>e. res = Inl e \<and> c' = c) \<or>
    (\<exists>r dir plan ns. res = Inr r \<and> committable proxy dir plan c \<and> c' = committed proxy dir plan ns c)"
  proof (cases "map_of (ct_proxies c) proxy")
    case None
    then show ?thesis using run by (auto simp: remove_fault_def)
  next
    case (Some entry)
    then have "remove_fault_in [Upstream, Downstream] proxy entry i c = (res, c')" using run by (simp add: remove_fault_def)
    from remove_fault_in_edits [OF ok Some this] show ?thesis by blast
  qed
qed

interpretation publish_dir: plan_editor "publish_direction_expected proxy dir plan ns expected" proxy
  for proxy dir plan ns expected
  by unfold_locales (use publish_direction_edits in blast)

end
