(* ===== verification/Registry.thy ===== *)
theory Registry
  imports Target
begin

text \<open>
  The scenario run registry, \<^verbatim>\<open>crates/eggchaos-server/src/runtime/scenario_registry.rs\<close>: run records and
  cancellation tokens of the two scenario families, with admission bounded per family.

  The run maps are \<^verbatim>\<open>BTreeMap\<close>s, sorted association lists here, because pruning takes the first finished
  record in key order. A cancellation token is a number, its identity; the token maps are \<^verbatim>\<open>HashMap\<close>s
  and nothing depends on their order. The locale \<open>run_family\<close> is the contract of one family; it is
  interpreted on both.
\<close>

section \<open>Run records\<close>

datatype scenario_run_status = V1Pending | V1Running | V1Cancelling | V1Cancelled | V1Completed | V1Failed

record scenario_event_result =
  se_index :: nat
  se_at_ms :: nat
  se_action :: string
  se_proxy :: string
  se_direction :: direction
  se_global_generation :: nat
  se_upstream_generation :: nat
  se_downstream_generation :: nat

record scenario_run_record =
  rr_run_id :: nat
  rr_seed :: u64
  rr_status :: scenario_run_status
  rr_applied :: nat
  rr_failure :: "string option"
  rr_trail :: "scenario_event_result list"

record schedule_run_record =
  sx_run_id :: nat
  sx_seed :: u64
  sx_execution_key :: u64
  sx_fingerprint :: "byte list"
  sx_compiler_version :: nat
  sx_isolation :: isolation_policy
  sx_cleanup_policy :: cleanup_policy
  sx_status :: run_status
  sx_applied :: nat
  sx_failure :: "string option"
  sx_events :: "schedule_event_result list"
  sx_cleanup :: "cleanup_outcome option"

datatype scenario_family = FamilyV1 | FamilyV2

datatype admit_error = CapacityExceeded

definition SCENARIO_FAMILY_CAPACITY :: nat where "SCENARIO_FAMILY_CAPACITY = 32"

type_synonym token = nat

record scenario_registry =
  v1_runs :: "(nat \<times> scenario_run_record) list"
  v2_runs :: "(nat \<times> schedule_run_record) list"
  v1_tokens :: "(nat \<times> token) list"
  v2_tokens :: "(nat \<times> token) list"

definition registry_new :: scenario_registry where
  "registry_new = \<lparr>v1_runs = [], v2_runs = [], v1_tokens = [], v2_tokens = []\<rparr>"

section \<open>Operations\<close>

definition v1_active :: "scenario_run_record \<Rightarrow> bool" where
  "v1_active r = (rr_status r = V1Pending \<or> rr_status r = V1Running \<or> rr_status r = V1Cancelling)"

definition v2_active :: "schedule_run_record \<Rightarrow> bool" where
  "v2_active r = (sx_status r = RunPending \<or> sx_status r = Running \<or> sx_status r = Cancelling)"

definition active_v1_count :: "scenario_registry \<Rightarrow> nat" where
  "active_v1_count reg = length (filter v1_active (map snd (v1_runs reg)))"

definition active_v2_count :: "scenario_registry \<Rightarrow> nat" where
  "active_v2_count reg = length (filter v2_active (map snd (v2_runs reg)))"

definition first_oldest_finished_v1 :: "scenario_registry \<Rightarrow> nat option" where
  "first_oldest_finished_v1 reg = map_option fst (find (\<lambda>(_, r). \<not> v1_active r) (v1_runs reg))"

definition first_oldest_finished_v2 :: "scenario_registry \<Rightarrow> nat option" where
  "first_oldest_finished_v2 reg = map_option fst (find (\<lambda>(_, r). \<not> v2_active r) (v2_runs reg))"

fun remove_run :: "scenario_family \<Rightarrow> nat \<Rightarrow> scenario_registry \<Rightarrow> scenario_registry" where
  "remove_run FamilyV1 run_id reg =
     reg\<lparr>v1_runs := btree_remove run_id (v1_runs reg), v1_tokens := AList.delete run_id (v1_tokens reg)\<rparr>"
| "remove_run FamilyV2 run_id reg =
     reg\<lparr>v2_runs := btree_remove run_id (v2_runs reg), v2_tokens := AList.delete run_id (v2_tokens reg)\<rparr>"

definition admit_v1 :: "nat \<Rightarrow> scenario_run_record \<Rightarrow> scenario_registry \<Rightarrow> (admit_error + unit) \<times> scenario_registry" where
  "admit_v1 run_id r reg =
     (let active = active_v1_count reg;
          retained = length (v1_runs reg)
      in if SCENARIO_FAMILY_CAPACITY \<le> active then (Inl CapacityExceeded, reg)
         else let reg' = (if SCENARIO_FAMILY_CAPACITY \<le> retained
                          then case first_oldest_finished_v1 reg of
                                 Some oldest \<Rightarrow> remove_run FamilyV1 oldest reg
                               | None \<Rightarrow> reg
                          else reg)
              in (Inr (), reg'\<lparr>v1_runs := btree_insert run_id r (v1_runs reg')\<rparr>))"

definition admit_v2 :: "nat \<Rightarrow> schedule_run_record \<Rightarrow> scenario_registry \<Rightarrow> (admit_error + unit) \<times> scenario_registry" where
  "admit_v2 run_id r reg =
     (let active = active_v2_count reg;
          retained = length (v2_runs reg)
      in if SCENARIO_FAMILY_CAPACITY \<le> active then (Inl CapacityExceeded, reg)
         else let reg' = (if SCENARIO_FAMILY_CAPACITY \<le> retained
                          then case first_oldest_finished_v2 reg of
                                 Some oldest \<Rightarrow> remove_run FamilyV2 oldest reg
                               | None \<Rightarrow> reg
                          else reg)
              in (Inr (), reg'\<lparr>v2_runs := btree_insert run_id r (v2_runs reg')\<rparr>))"

definition insert_token_v1 :: "nat \<Rightarrow> token \<Rightarrow> scenario_registry \<Rightarrow> scenario_registry" where
  "insert_token_v1 run_id t reg = reg\<lparr>v1_tokens := AList.update run_id t (v1_tokens reg)\<rparr>"

definition insert_token_v2 :: "nat \<Rightarrow> token \<Rightarrow> scenario_registry \<Rightarrow> scenario_registry" where
  "insert_token_v2 run_id t reg = reg\<lparr>v2_tokens := AList.update run_id t (v2_tokens reg)\<rparr>"

definition admit_v1_with_token :: "nat \<Rightarrow> scenario_run_record \<Rightarrow> token \<Rightarrow> scenario_registry \<Rightarrow>
    (admit_error + unit) \<times> scenario_registry" where
  "admit_v1_with_token run_id r t reg =
     (case admit_v1 run_id r reg of
        (Inl e, reg') \<Rightarrow> (Inl e, reg')
      | (Inr _, reg') \<Rightarrow> (Inr (), insert_token_v1 run_id t reg'))"

definition admit_v2_with_token :: "nat \<Rightarrow> schedule_run_record \<Rightarrow> token \<Rightarrow> scenario_registry \<Rightarrow>
    (admit_error + unit) \<times> scenario_registry" where
  "admit_v2_with_token run_id r t reg =
     (case admit_v2 run_id r reg of
        (Inl e, reg') \<Rightarrow> (Inl e, reg')
      | (Inr _, reg') \<Rightarrow> (Inr (), insert_token_v2 run_id t reg'))"

definition get_v1 :: "nat \<Rightarrow> scenario_registry \<Rightarrow> scenario_run_record option" where
  "get_v1 run_id reg = map_of (v1_runs reg) run_id"

definition get_v2 :: "nat \<Rightarrow> scenario_registry \<Rightarrow> schedule_run_record option" where
  "get_v2 run_id reg = map_of (v2_runs reg) run_id"

definition update_v1 :: "nat \<Rightarrow> (scenario_run_record \<Rightarrow> scenario_run_record) \<Rightarrow> scenario_registry \<Rightarrow>
    bool \<times> scenario_registry" where
  "update_v1 run_id upd reg =
     (case map_of (v1_runs reg) run_id of
        Some r \<Rightarrow> (True, reg\<lparr>v1_runs := btree_adjust run_id upd (v1_runs reg)\<rparr>)
      | None \<Rightarrow> (False, reg))"

definition update_v2 :: "nat \<Rightarrow> (schedule_run_record \<Rightarrow> schedule_run_record) \<Rightarrow> scenario_registry \<Rightarrow>
    bool \<times> scenario_registry" where
  "update_v2 run_id upd reg =
     (case map_of (v2_runs reg) run_id of
        Some r \<Rightarrow> (True, reg\<lparr>v2_runs := btree_adjust run_id upd (v2_runs reg)\<rparr>)
      | None \<Rightarrow> (False, reg))"

definition take_token_v1 :: "nat \<Rightarrow> scenario_registry \<Rightarrow> token option \<times> scenario_registry" where
  "take_token_v1 run_id reg = (map_of (v1_tokens reg) run_id, reg\<lparr>v1_tokens := AList.delete run_id (v1_tokens reg)\<rparr>)"

definition take_token_v2 :: "nat \<Rightarrow> scenario_registry \<Rightarrow> token option \<times> scenario_registry" where
  "take_token_v2 run_id reg = (map_of (v2_tokens reg) run_id, reg\<lparr>v2_tokens := AList.delete run_id (v2_tokens reg)\<rparr>)"

definition drop_token_v1 :: "nat \<Rightarrow> scenario_registry \<Rightarrow> scenario_registry" where
  "drop_token_v1 run_id reg = reg\<lparr>v1_tokens := AList.delete run_id (v1_tokens reg)\<rparr>"

definition drop_token_v2 :: "nat \<Rightarrow> scenario_registry \<Rightarrow> scenario_registry" where
  "drop_token_v2 run_id reg = reg\<lparr>v2_tokens := AList.delete run_id (v2_tokens reg)\<rparr>"

text \<open>The first component lists the tokens whose \<^verbatim>\<open>cancel\<close> is called.\<close>

definition registry_cancel_all :: "scenario_registry \<Rightarrow> token list \<times> scenario_registry" where
  "registry_cancel_all reg =
     (map snd (v1_tokens reg) @ map snd (v2_tokens reg), reg\<lparr>v1_tokens := [], v2_tokens := []\<rparr>)"


section \<open>The contract of one family\<close>

text \<open>The record that makes room: the finished record with the least id, when the family is full.\<close>

definition victim :: "('r \<Rightarrow> bool) \<Rightarrow> (nat \<times> 'r) list \<Rightarrow> nat option" where
  "victim active m =
     (if SCENARIO_FAMILY_CAPACITY \<le> length m then map_option fst (find (\<lambda>(_, r). \<not> active r) m) else None)"

definition evict :: "nat option \<Rightarrow> (nat \<times> 'v) list \<Rightarrow> (nat \<times> 'v) list" where
  "evict v m = (case v of None \<Rightarrow> m | Some k \<Rightarrow> filter (\<lambda>(k', _). k' \<noteq> k) m)"

lemma evict_remove: "evict v m = (case v of None \<Rightarrow> m | Some k \<Rightarrow> btree_remove k m)"
  by (simp add: evict_def btree_remove_def split: option.split)

lemma delete_is_remove: "AList.delete k m = btree_remove k m"
  by (auto simp: btree_remove_def AList.delete_eq intro: filter_cong)

lemma evict_valid: "btree_valid m \<Longrightarrow> btree_valid (evict v m)"
  by (auto simp: evict_remove btree_remove_valid split: option.split)

lemma map_of_evict: "map_of (evict v m) k = (if v = Some k then None else map_of m k)"
  by (simp add: evict_remove map_of_btree_remove split: option.split)

lemma keys_evict: "fst ` set (evict v m) = fst ` set m - set_option v"
  by (force simp: evict_def split: option.split)

lemma find_first_sorted:
  assumes "find P m = Some x" "sorted (map fst m)" "y \<in> set m" "P y"
  shows "fst x \<le> fst y"
  using assms by (induction m) (auto split: if_splits)

lemma victim_finished:
  assumes "victim active m = Some k" "btree_valid m"
  shows "\<exists>r. (k, r) \<in> set m \<and> \<not> active r \<and> (\<forall>(k', r') \<in> set m. \<not> active r' \<longrightarrow> k \<le> k')"
proof -
  obtain r where f: "find (\<lambda>(_, r). \<not> active r) m = Some (k, r)"
    using assms(1) by (auto simp: victim_def split: if_splits)
  then have "(k, r) \<in> set m" "\<not> active r" by (auto simp: find_Some_iff in_set_conv_nth)
  moreover have "k \<le> k'" if "(k', r') \<in> set m" "\<not> active r'" for k' r'
    using find_first_sorted [OF f _ that(1)] that(2) assms(2) by (simp add: btree_valid_def)
  ultimately show ?thesis by blast
qed

lemma victim_exists:
  assumes "length (filter active (map snd m)) < SCENARIO_FAMILY_CAPACITY" "SCENARIO_FAMILY_CAPACITY \<le> length m"
  shows "\<exists>k. victim active m = Some k"
proof (rule ccontr)
  assume "\<not> ?thesis"
  then have "find (\<lambda>(_, r). \<not> active r) m = None" using assms(2)
    by (cases "find (\<lambda>(_, r). \<not> active r) m") (auto simp: victim_def)
  then have "filter active (map snd m) = map snd m" by (force simp: find_None_iff filter_id_conv)
  then show False using assms by simp
qed

locale run_family =
  fixes runs :: "'s \<Rightarrow> (nat \<times> 'r) list"
    and tokens :: "'s \<Rightarrow> (nat \<times> token) list"
    and active :: "'r \<Rightarrow> bool"
    and admit :: "nat \<Rightarrow> 'r \<Rightarrow> token \<Rightarrow> 's \<Rightarrow> (admit_error + unit) \<times> 's"
  assumes admit_full: "SCENARIO_FAMILY_CAPACITY \<le> length (filter active (map snd (runs s))) \<Longrightarrow>
      admit i r t s = (Inl CapacityExceeded, s)"
    and admit_room: "length (filter active (map snd (runs s))) < SCENARIO_FAMILY_CAPACITY \<Longrightarrow>
      fst (admit i r t s) = Inr () \<and>
      runs (snd (admit i r t s)) = btree_insert i r (evict (victim active (runs s)) (runs s)) \<and>
      tokens (snd (admit i r t s)) = AList.update i t (evict (victim active (runs s)) (tokens s))"
begin

definition family_ok :: "'s \<Rightarrow> bool" where
  "family_ok s = (btree_valid (runs s) \<and> length (runs s) \<le> SCENARIO_FAMILY_CAPACITY \<and>
     fst ` set (tokens s) \<subseteq> fst ` set (runs s))"

lemma admit_keeps_ok:
  assumes "family_ok s"
  shows "family_ok (snd (admit i r t s))"
proof (cases "SCENARIO_FAMILY_CAPACITY \<le> length (filter active (map snd (runs s)))")
  case True
  then show ?thesis using assms by (simp add: admit_full)
next
  case False
  let ?v = "victim active (runs s)"
  have new: "runs (snd (admit i r t s)) = btree_insert i r (evict ?v (runs s))"
    "tokens (snd (admit i r t s)) = AList.update i t (evict ?v (tokens s))"
    using admit_room False by auto
  have v: "btree_valid (runs s)" using assms by (simp add: family_ok_def)
  have "length (evict ?v (runs s)) < SCENARIO_FAMILY_CAPACITY"
  proof (cases "SCENARIO_FAMILY_CAPACITY \<le> length (runs s)")
    case True
    then obtain k where k: "?v = Some k" using victim_exists False by (metis not_le)
    then obtain x where "(k, x) \<in> set (runs s)" using victim_finished v by metis
    then have "Suc (length (evict ?v (runs s))) = length (runs s)"
      using length_btree_remove [OF v] by (simp add: k evict_remove)
    then show ?thesis using assms by (simp add: family_ok_def)
  next
    case False
    then have "?v = None" by (simp add: victim_def)
    then show ?thesis using False by (simp add: evict_def)
  qed
  then have "length (runs (snd (admit i r t s))) \<le> SCENARIO_FAMILY_CAPACITY"
    using length_btree_insert [of i r "evict ?v (runs s)"] by (simp add: new)
  moreover have "fst ` set (tokens (snd (admit i r t s))) \<subseteq> fst ` set (runs (snd (admit i r t s)))"
    using assms by (auto simp: new AList.dom_update btree_insert_keys keys_evict family_ok_def)
  ultimately show ?thesis using v by (simp add: family_ok_def new btree_insert_valid evict_valid)
qed

lemma admit_lookup:
  assumes "family_ok s" "fst (admit i r t s) = Inr ()"
  shows "map_of (runs (snd (admit i r t s))) k =
    (if k = i then Some r else if victim active (runs s) = Some k then None else map_of (runs s) k)"
proof -
  have room: "length (filter active (map snd (runs s))) < SCENARIO_FAMILY_CAPACITY"
    using assms(2) admit_full by (metis Inr_Inl_False fst_conv not_le)
  show ?thesis using admit_room [OF room, of i r t] assms(1)
    by (auto simp: family_ok_def map_of_btree_insert evict_valid map_of_evict)
qed

lemma admit_succeeds_iff:
  "fst (admit i r t s) = Inr () \<longleftrightarrow> length (filter active (map snd (runs s))) < SCENARIO_FAMILY_CAPACITY"
  using admit_full [of s i r t] admit_room [of s i r t] by (metis Inr_Inl_False fst_conv not_le)

lemma admit_keeps_active:
  assumes "family_ok s" "map_of (runs s) k = Some x" "active x" "k \<noteq> i"
  shows "map_of (runs (snd (admit i r t s))) k = Some x"
proof (cases "fst (admit i r t s) = Inr ()")
  case True
  have "victim active (runs s) \<noteq> Some k"
  proof
    assume "victim active (runs s) = Some k"
    then obtain y where "(k, y) \<in> set (runs s)" "\<not> active y"
      using victim_finished assms(1) by (metis family_ok_def)
    then show False using assms by (simp add: family_ok_def btree_set_iff)
  qed
  then show ?thesis using admit_lookup [OF assms(1) True] assms(2,4) by simp
next
  case False
  then have "admit i r t s = (Inl CapacityExceeded, s)" using admit_full admit_succeeds_iff by (metis not_le)
  then show ?thesis using assms(2) by simp
qed

end


section \<open>Both families\<close>

interpretation v1: run_family v1_runs v1_tokens v1_active admit_v1_with_token
  by unfold_locales
    (auto simp: admit_v1_with_token_def admit_v1_def Let_def active_v1_count_def insert_token_v1_def
      first_oldest_finished_v1_def victim_def evict_remove delete_is_remove split: option.split)

interpretation v2: run_family v2_runs v2_tokens v2_active admit_v2_with_token
  by unfold_locales
    (auto simp: admit_v2_with_token_def admit_v2_def Let_def active_v2_count_def insert_token_v2_def
      first_oldest_finished_v2_def victim_def evict_remove delete_is_remove split: option.split)

text \<open>Everything the control plane does to the registry.\<close>

datatype registry_op =
    AdmitV1 nat scenario_run_record token
  | AdmitV2 nat schedule_run_record token
  | UpdateV1 nat "scenario_run_record \<Rightarrow> scenario_run_record"
  | UpdateV2 nat "schedule_run_record \<Rightarrow> schedule_run_record"
  | TakeTokenV1 nat
  | TakeTokenV2 nat
  | DropTokenV1 nat
  | DropTokenV2 nat
  | CancelAll

fun registry_apply :: "registry_op \<Rightarrow> scenario_registry \<Rightarrow> scenario_registry" where
  "registry_apply (AdmitV1 i r t) reg = snd (admit_v1_with_token i r t reg)"
| "registry_apply (AdmitV2 i r t) reg = snd (admit_v2_with_token i r t reg)"
| "registry_apply (UpdateV1 i f) reg = snd (update_v1 i f reg)"
| "registry_apply (UpdateV2 i f) reg = snd (update_v2 i f reg)"
| "registry_apply (TakeTokenV1 i) reg = snd (take_token_v1 i reg)"
| "registry_apply (TakeTokenV2 i) reg = snd (take_token_v2 i reg)"
| "registry_apply (DropTokenV1 i) reg = drop_token_v1 i reg"
| "registry_apply (DropTokenV2 i) reg = drop_token_v2 i reg"
| "registry_apply CancelAll reg = snd (registry_cancel_all reg)"

definition registry_ok :: "scenario_registry \<Rightarrow> bool" where
  "registry_ok reg = (v1.family_ok reg \<and> v2.family_ok reg)"

lemma admit_v1_other: "v2_runs (snd (admit_v1_with_token i r t reg)) = v2_runs reg"
    "v2_tokens (snd (admit_v1_with_token i r t reg)) = v2_tokens reg"
  by (auto simp: admit_v1_with_token_def admit_v1_def Let_def insert_token_v1_def split: option.split)

lemma admit_v2_other: "v1_runs (snd (admit_v2_with_token i r t reg)) = v1_runs reg"
    "v1_tokens (snd (admit_v2_with_token i r t reg)) = v1_tokens reg"
  by (auto simp: admit_v2_with_token_def admit_v2_def Let_def insert_token_v2_def split: option.split)

lemma btree_adjust_sizes [simp]: "fst ` set (btree_adjust k f m) = fst ` set m" "length (btree_adjust k f m) = length m"
  by (simp only: list.set_map [symmetric] btree_adjust_keys, simp add: btree_adjust_def)

lemmas registry_op_defs = update_v1_def update_v2_def take_token_v1_def take_token_v2_def
  drop_token_v1_def drop_token_v2_def registry_cancel_all_def

lemma registry_apply_ok:
  assumes "registry_ok reg"
  shows "registry_ok (registry_apply x reg)"
proof (cases x)
  case (AdmitV1 i r t)
  then show ?thesis using assms v1.admit_keeps_ok
    by (simp add: registry_ok_def v2.family_ok_def admit_v1_other)
next
  case (AdmitV2 i r t)
  then show ?thesis using assms v2.admit_keeps_ok
    by (simp add: registry_ok_def v1.family_ok_def admit_v2_other)
qed (use assms in \<open>auto simp: registry_ok_def v1.family_ok_def v2.family_ok_def registry_op_defs
      delete_is_remove set_btree_remove split: option.split\<close>)


lemma registry_new_ok: "registry_ok registry_new"
  by (simp add: registry_ok_def v1.family_ok_def v2.family_ok_def registry_new_def btree_valid_def)

lemma registry_run_ok: "registry_ok reg \<Longrightarrow> registry_ok (fold registry_apply xs reg)"
  by (induction xs arbitrary: reg) (auto simp: registry_apply_ok)

section \<open>Properties\<close>

text \<open>
  C13. The registry never grows past 32 records of either family, whatever the sequence of admissions, updates,
  cancellations and shutdowns; its maps stay in key order, and every token it holds belongs to a run it
  still has, so a cancellation never reaches a run that was pruned.
\<close>

theorem registry_bounded:
  "let reg = fold registry_apply xs registry_new in
     length (v1_runs reg) \<le> 32 \<and> length (v2_runs reg) \<le> 32 \<and>
     btree_valid (v1_runs reg) \<and> btree_valid (v2_runs reg) \<and>
     fst ` set (v1_tokens reg) \<subseteq> fst ` set (v1_runs reg) \<and>
     fst ` set (v2_tokens reg) \<subseteq> fst ` set (v2_runs reg)"
  using registry_run_ok [OF registry_new_ok, of xs]
  by (simp add: Let_def registry_ok_def v1.family_ok_def v2.family_ok_def SCENARIO_FAMILY_CAPACITY_def)

text \<open>
  Admission of a run: it is refused exactly when 32 runs of its own family are active, and then nothing
  changes. Otherwise the new record and token are stored, and every other record of the family survives
  except that a full family gives up the finished record with the least id. A run that is still active is
  never given up, and the other family is untouched.
\<close>

theorem registry_admission:
  assumes "reg = fold registry_apply xs registry_new" "admit_v1_with_token i r t reg = (res, reg')"
  shows "(res = Inr () \<longleftrightarrow> length (filter v1_active (map snd (v1_runs reg))) < 32) \<and>
    (res \<noteq> Inr () \<longrightarrow> reg' = reg) \<and>
    (res = Inr () \<longrightarrow> get_v1 i reg' = Some r \<and> map_of (v1_tokens reg') i = Some t) \<and>
    (\<forall>k. k \<noteq> i \<longrightarrow> get_v1 k reg' = get_v1 k reg \<or>
      (get_v1 k reg' = None \<and> length (v1_runs reg) = 32 \<and>
       (\<exists>x. get_v1 k reg = Some x \<and> \<not> v1_active x) \<and>
       (\<forall>j y. get_v1 j reg = Some y \<longrightarrow> \<not> v1_active y \<longrightarrow> k \<le> j))) \<and>
    v2_runs reg' = v2_runs reg \<and> v2_tokens reg' = v2_tokens reg"
proof -
  have ok: "v1.family_ok reg" using registry_run_ok [OF registry_new_ok, of xs] assms(1) by (simp add: registry_ok_def)
  then have v: "btree_valid (v1_runs reg)" and le: "length (v1_runs reg) \<le> 32"
    by (simp_all add: v1.family_ok_def SCENARIO_FAMILY_CAPACITY_def)
  have res: "res = fst (admit_v1_with_token i r t reg)" and reg': "reg' = snd (admit_v1_with_token i r t reg)"
    using assms(2) by simp_all
  have iff: "res = Inr () \<longleftrightarrow> length (filter v1_active (map snd (v1_runs reg))) < 32"
    unfolding res v1.admit_succeeds_iff by (simp add: SCENARIO_FAMILY_CAPACITY_def)
  have fail: "reg' = reg" if "res \<noteq> Inr ()"
    using that iff v1.admit_full [of reg i r t] assms(2) by (simp add: SCENARIO_FAMILY_CAPACITY_def)
  have stored: "get_v1 i reg' = Some r \<and> map_of (v1_tokens reg') i = Some t" if "res = Inr ()"
    using that v1.admit_lookup [OF ok, of i r t i] v1.admit_room [of reg i r t] iff
    by (simp add: res reg' get_v1_def SCENARIO_FAMILY_CAPACITY_def AList.update_conv')
  have other: "v2_runs reg' = v2_runs reg \<and> v2_tokens reg' = v2_tokens reg" unfolding reg' by (simp add: admit_v1_other)
  have rest: "get_v1 k reg' = get_v1 k reg \<or>
      (get_v1 k reg' = None \<and> length (v1_runs reg) = 32 \<and>
       (\<exists>x. get_v1 k reg = Some x \<and> \<not> v1_active x) \<and>
       (\<forall>j y. get_v1 j reg = Some y \<longrightarrow> \<not> v1_active y \<longrightarrow> k \<le> j))" if "k \<noteq> i" for k
  proof (cases "res = Inr () \<and> victim v1_active (v1_runs reg) = Some k")
    case True
    then have "get_v1 k reg' = None" using v1.admit_lookup [OF ok, of i r t k] that
      by (simp add: res reg' get_v1_def)
    moreover have "length (v1_runs reg) = 32" using True le
      by (auto simp: victim_def SCENARIO_FAMILY_CAPACITY_def split: if_splits)
    moreover note victim_finished [OF conjunct2 [OF True] v]
    ultimately show ?thesis by (fastforce simp: get_v1_def btree_set_iff [OF v])
  next
    case False
    then have "get_v1 k reg' = get_v1 k reg"
      using fail v1.admit_lookup [OF ok, of i r t k] that by (cases "res = Inr ()") (auto simp: res reg' get_v1_def)
    then show ?thesis ..
  qed
  show ?thesis using iff fail stored other rest by blast
qed

definition example_v1_run :: "nat \<Rightarrow> scenario_run_status \<Rightarrow> scenario_run_record" where
  "example_v1_run i st = \<lparr>rr_run_id = i, rr_seed = 7, rr_status = st, rr_applied = 0, rr_failure = None, rr_trail = []\<rparr>"

theorem registry_admission_witness:
  "\<exists>reg'. admit_v1_with_token 2 (example_v1_run 2 V1Pending) 5
       (fold registry_apply [AdmitV1 1 (example_v1_run 1 V1Completed) 4, DropTokenV1 1] registry_new) = (Inr (), reg') \<and>
     get_v1 1 reg' = Some (example_v1_run 1 V1Completed) \<and> get_v1 2 reg' = Some (example_v1_run 2 V1Pending) \<and>
     v1_tokens reg' = [(2, 5)]"
proof -
  let ?xs = "[AdmitV1 1 (example_v1_run 1 V1Completed) 4, DropTokenV1 1]"
  note defs = admit_v1_with_token_def admit_v1_def Let_def active_v1_count_def insert_token_v1_def registry_new_def
    SCENARIO_FAMILY_CAPACITY_def drop_token_v1_def example_v1_run_def v1_active_def get_v1_def
  obtain res reg' where step: "admit_v1_with_token 2 (example_v1_run 2 V1Pending) 5 (fold registry_apply ?xs registry_new) = (res, reg')"
    by fastforce
  have one: "v1_runs (fold registry_apply ?xs registry_new) = [(1, example_v1_run 1 V1Completed)]"
    by (simp add: defs)
  note law = registry_admission [OF refl step]
  have ok: "res = Inr ()" using law one by (simp add: example_v1_run_def v1_active_def)
  then have "get_v1 2 reg' = Some (example_v1_run 2 V1Pending)" using law by simp
  moreover have "get_v1 1 reg' = Some (example_v1_run 1 V1Completed)"
  proof -
    have "get_v1 1 reg' = get_v1 1 (fold registry_apply ?xs registry_new)" using law one by force
    then show ?thesis using one by (simp add: get_v1_def)
  qed
  moreover have "v1_tokens reg' = [(2, 5)]" using step by (auto simp: defs)
  ultimately show ?thesis using step ok by blast
qed

end
