(* ===== verification/Plane.thy ===== *)
theory Plane
  imports Control Registry
begin

text \<open>
  The control plane as the scenario engines see it: the stream plans of \<^theory_text>\<open>Control\<close>, the datagram plans
  of \<^verbatim>\<open>runtime/datagram/registry.rs\<close>, the run registry, and the operations of \<^verbatim>\<open>runtime/control_datagram.rs\<close>
  on datagram faults.

  Each operation of the record \<open>control_api\<close> acquires one lock once, so it is atomic. The operations on
  datagram faults and the scenario engines are sequences of such calls; they are written over an arbitrary
  \<open>control_api\<close>, so the same definition describes them undisturbed (\<open>plane_api\<close>) and interleaved with other
  tasks (\<open>shared_api\<close>, where any external step may happen before each call).
\<close>

section \<open>State\<close>

record datagram_policies =
  dg_upstream :: published_datagram_policy
  dg_downstream :: published_datagram_policy

record plane = control +
  pl_datagrams :: "(string \<times> datagram_policies) list"
  pl_registry :: scenario_registry
  pl_next_run :: nat
  pl_cancelled :: "token list"

fun datagram_policy :: "direction \<Rightarrow> datagram_policies \<Rightarrow> published_datagram_policy" where
  "datagram_policy Upstream p = dg_upstream p"
| "datagram_policy Downstream p = dg_downstream p"

fun set_datagram_policy :: "direction \<Rightarrow> published_datagram_policy \<Rightarrow> datagram_policies \<Rightarrow> datagram_policies" where
  "set_datagram_policy Upstream q p = p\<lparr>dg_upstream := q\<rparr>"
| "set_datagram_policy Downstream q p = p\<lparr>dg_downstream := q\<rparr>"

fun other_direction :: "direction \<Rightarrow> direction" where
  "other_direction Upstream = Downstream"
| "other_direction Downstream = Upstream"

datatype datagram_error =
    DgInvalid string
  | DgDuplicate string
  | DgNotFound string
  | DgBind string
  | DgAssociationLimit
  | DgConflict string

fun map_datagram_error :: "datagram_error \<Rightarrow> control_error" where
  "map_datagram_error (DgInvalid message) = ControlInvalid message"
| "map_datagram_error (DgDuplicate name) = ControlConflict (''datagram proxy '' @ name @ '' already exists'')"
| "map_datagram_error (DgNotFound name) = NotFound name"
| "map_datagram_error (DgBind reason) = BindFailed ''datagram'' reason"
| "map_datagram_error DgAssociationLimit = ControlInvalid ''datagram association limit reached''"
| "map_datagram_error (DgConflict message) = ControlConflict message"

section \<open>Atomic operations\<close>

definition fault_plan :: "string \<Rightarrow> direction \<Rightarrow> 'z plane_scheme \<Rightarrow> (datagram_plan \<times> nat \<times> u64) option" where
  "fault_plan name dir w =
     map_option (\<lambda>p. let snapshot = datagram_policy dir p in (pub_plan snapshot, generation snapshot, seed_namespace snapshot))
       (map_of (pl_datagrams w) name)"

definition publish_fault_plan :: "string \<Rightarrow> direction \<Rightarrow> datagram_plan \<Rightarrow> u64 \<Rightarrow> nat option \<Rightarrow> 'z plane_scheme \<Rightarrow>
    (datagram_error + nat) \<times> 'z plane_scheme" where
  "publish_fault_plan name dir plan ns expected w =
     (case datagram_validate plan of
        Inl e \<Rightarrow> (Inl (DgInvalid e), w)
      | Inr _ \<Rightarrow> (case map_of (pl_datagrams w) name of
          None \<Rightarrow> (Inl (DgNotFound name), w)
        | Some p \<Rightarrow>
            let current = datagram_policy dir p in
            if (case expected of Some g \<Rightarrow> g \<noteq> generation current | None \<Rightarrow> False)
            then (Inl (DgConflict (''generation moved from '' @ dec (the expected) @ '' to '' @ dec (generation current))), w)
            else (case datagram_publish plan ns current of
                    (Inl e, q) \<Rightarrow> (Inl (DgInvalid e), w\<lparr>pl_datagrams := AList.update name (set_datagram_policy dir q p) (pl_datagrams w)\<rparr>)
                  | (Inr snapshot, q) \<Rightarrow>
                      (Inr (generation snapshot),
                       w\<lparr>pl_datagrams := AList.update name (set_datagram_policy dir q p) (pl_datagrams w)\<rparr>))))"

definition update_scenario_run :: "nat \<Rightarrow> (scenario_run_record \<Rightarrow> scenario_run_record) \<Rightarrow> 'z plane_scheme \<Rightarrow> bool \<times> 'z plane_scheme" where
  "update_scenario_run run_id upd w =
     (let (known, reg) = update_v1 run_id upd (pl_registry w) in (known, w\<lparr>pl_registry := reg\<rparr>))"

definition remove_scenario_token :: "nat \<Rightarrow> 'z plane_scheme \<Rightarrow> 'z plane_scheme" where
  "remove_scenario_token run_id w = w\<lparr>pl_registry := drop_token_v1 run_id (pl_registry w)\<rparr>"

definition get_scenario :: "nat \<Rightarrow> 'z plane_scheme \<Rightarrow> scenario_run_record option" where
  "get_scenario run_id w = get_v1 run_id (pl_registry w)"

definition admit_run :: "nat \<Rightarrow> scenario_run_record \<Rightarrow> token \<Rightarrow> 'z plane_scheme \<Rightarrow> (admit_error + unit) \<times> 'z plane_scheme" where
  "admit_run run_id r t w =
     (let (res, reg) = admit_v1_with_token run_id r t (pl_registry w) in (res, w\<lparr>pl_registry := reg\<rparr>))"

definition take_run_token :: "nat \<Rightarrow> 'z plane_scheme \<Rightarrow> token option \<times> 'z plane_scheme" where
  "take_run_token run_id w =
     (let (t, reg) = take_token_v1 run_id (pl_registry w) in (t, w\<lparr>pl_registry := reg\<rparr>))"

text \<open>
  \<open>api_wait token d\<close> is the \<^verbatim>\<open>select!\<close> between the cancellation of the token and a sleep of \<open>d\<close>: whether the
  cancellation won, with the world in which it returns.
\<close>

record 'w control_api =
  api_fault_plan :: "string \<Rightarrow> direction \<Rightarrow> 'w \<Rightarrow> (datagram_plan \<times> nat \<times> u64) option \<times> 'w"
  api_publish_fault_plan :: "string \<Rightarrow> direction \<Rightarrow> datagram_plan \<Rightarrow> u64 \<Rightarrow> nat option \<Rightarrow> 'w \<Rightarrow> (datagram_error + nat) \<times> 'w"
  api_next_generation :: "'w \<Rightarrow> nat \<times> 'w"
  api_generation :: "'w \<Rightarrow> nat \<times> 'w"
  api_snapshot_policies :: "string \<Rightarrow> 'w \<Rightarrow> (policy \<times> policy) option \<times> 'w"
  api_publish_direction :: "string \<Rightarrow> direction \<Rightarrow> fault_plan \<Rightarrow> u64 \<Rightarrow> nat \<Rightarrow> 'w \<Rightarrow> (control_error + nat \<times> nat) \<times> 'w"
  api_update_run :: "nat \<Rightarrow> (scenario_run_record \<Rightarrow> scenario_run_record) \<Rightarrow> 'w \<Rightarrow> bool \<times> 'w"
  api_drop_token :: "nat \<Rightarrow> 'w \<Rightarrow> unit \<times> 'w"
  api_wait :: "token \<Rightarrow> duration \<Rightarrow> 'w \<Rightarrow> bool \<times> 'w"
  api_has_datagram :: "string \<Rightarrow> 'w \<Rightarrow> bool \<times> 'w"
  api_next_run_id :: "'w \<Rightarrow> nat \<times> 'w"
  api_child_token :: "'w \<Rightarrow> token \<times> 'w"
  api_admit :: "nat \<Rightarrow> scenario_run_record \<Rightarrow> token \<Rightarrow> 'w \<Rightarrow> (admit_error + unit) \<times> 'w"
  api_take_token :: "nat \<Rightarrow> 'w \<Rightarrow> token option \<times> 'w"
  api_cancel :: "token \<Rightarrow> 'w \<Rightarrow> unit \<times> 'w"
  api_get_run :: "nat \<Rightarrow> 'w \<Rightarrow> scenario_run_record option \<times> 'w"

definition plane_api :: "'z plane_scheme control_api" where
  "plane_api =
     \<lparr>api_fault_plan = (\<lambda>name dir w. (fault_plan name dir w, w)),
      api_publish_fault_plan = publish_fault_plan,
      api_next_generation = next_generation,
      api_generation = (\<lambda>w. (control_generation w, w)),
      api_snapshot_policies = (\<lambda>name w. (snapshot_policies name w, w)),
      api_publish_direction = publish_direction_expected,
      api_update_run = update_scenario_run,
      api_drop_token = (\<lambda>run_id w. ((), remove_scenario_token run_id w)),
      api_wait = (\<lambda>t d w. (t \<in> set (pl_cancelled w), w)),
      api_has_datagram = (\<lambda>name w. (map_of (pl_datagrams w) name \<noteq> None, w)),
      api_next_run_id = (\<lambda>w. (pl_next_run w, w\<lparr>pl_next_run := (pl_next_run w + 1) mod 2 ^ 64\<rparr>)),
      api_child_token = (\<lambda>w. (ct_fresh w, w\<lparr>ct_fresh := ct_fresh w + 1\<rparr>)),
      api_admit = admit_run,
      api_take_token = take_run_token,
      api_cancel = (\<lambda>t w. ((), w\<lparr>pl_cancelled := t # pl_cancelled w\<rparr>)),
      api_get_run = (\<lambda>run_id w. (get_scenario run_id w, w))\<rparr>"

definition shared_api :: "'w control_api \<Rightarrow> ('w \<times> ('w \<Rightarrow> 'w) list) control_api" where
  "shared_api a =
     \<lparr>api_fault_plan = (\<lambda>name dir. disturbed (api_fault_plan a name dir)),
      api_publish_fault_plan = (\<lambda>name dir plan ns expected. disturbed (api_publish_fault_plan a name dir plan ns expected)),
      api_next_generation = disturbed (api_next_generation a),
      api_generation = disturbed (api_generation a),
      api_snapshot_policies = (\<lambda>name. disturbed (api_snapshot_policies a name)),
      api_publish_direction = (\<lambda>name dir plan ns expected. disturbed (api_publish_direction a name dir plan ns expected)),
      api_update_run = (\<lambda>run_id upd. disturbed (api_update_run a run_id upd)),
      api_drop_token = (\<lambda>run_id. disturbed (api_drop_token a run_id)),
      api_wait = (\<lambda>t d. disturbed (api_wait a t d)),
      api_has_datagram = (\<lambda>name. disturbed (api_has_datagram a name)),
      api_next_run_id = disturbed (api_next_run_id a),
      api_child_token = disturbed (api_child_token a),
      api_admit = (\<lambda>run_id r t. disturbed (api_admit a run_id r t)),
      api_take_token = (\<lambda>run_id. disturbed (api_take_token a run_id)),
      api_cancel = (\<lambda>t. disturbed (api_cancel a t)),
      api_get_run = (\<lambda>run_id. disturbed (api_get_run a run_id))\<rparr>"

section \<open>Datagram plans and faults\<close>

definition get_datagram_plan :: "'w control_api \<Rightarrow> string \<Rightarrow> direction \<Rightarrow> 'w \<Rightarrow> (control_error + datagram_plan \<times> nat \<times> u64) \<times> 'w" where
  "get_datagram_plan a name dir w =
     (let (r, w') = api_fault_plan a name dir w in (case r of None \<Rightarrow> Inl (NotFound name) | Some x \<Rightarrow> Inr x, w'))"

text \<open>The generation the publication itself returns is dropped; the result is the next configuration generation.\<close>

definition publish_datagram_plan :: "'w control_api \<Rightarrow> string \<Rightarrow> direction \<Rightarrow> datagram_plan \<Rightarrow> u64 \<Rightarrow> nat option \<Rightarrow> 'w \<Rightarrow>
    (control_error + nat) \<times> 'w" where
  "publish_datagram_plan a name dir plan ns expected w =
     (case api_publish_fault_plan a name dir plan ns expected w of
        (Inl e, w') \<Rightarrow> (Inl (map_datagram_error e), w')
      | (Inr _, w') \<Rightarrow> (let (g, w'') = api_next_generation a w' in (Inr g, w'')))"

definition datagram_current_generations :: "'w control_api \<Rightarrow> string \<Rightarrow> 'w \<Rightarrow> (nat \<times> nat) option \<times> 'w" where
  "datagram_current_generations a name w =
     (case api_fault_plan a name Upstream w of
        (None, w') \<Rightarrow> (None, w')
      | (Some (_, up, _), w') \<Rightarrow> (case api_fault_plan a name Downstream w' of
          (None, w'') \<Rightarrow> (None, w'')
        | (Some (_, down, _), w'') \<Rightarrow> (Some (up, down), w'')))"

definition has_fault :: "string \<Rightarrow> datagram_plan \<Rightarrow> bool" where
  "has_fault i plan = list_ex (\<lambda>f. df_id f = i) (dp_faults plan)"

definition cross_direction_conflict :: control_error where
  "cross_direction_conflict = ControlConflict ''datagram fault id must be unique across directions for path lookup''"

fun conflicts_in :: "string \<Rightarrow> control_error + datagram_plan \<times> nat \<times> u64 \<Rightarrow> bool" where
  "conflicts_in i (Inl e) = False"
| "conflicts_in i (Inr (plan, _, _)) = has_fault i plan"

text \<open>The compensation after a publication that turned out to duplicate an id of the other direction.\<close>

definition roll_back_add :: "'w control_api \<Rightarrow> string \<Rightarrow> direction \<Rightarrow> string \<Rightarrow> 'w \<Rightarrow> control_error \<times> 'w" where
  "roll_back_add a name dir i w =
     (case get_datagram_plan a name dir w of
        (Inl e, w1) \<Rightarrow> (e, w1)
      | (Inr (current, current_generation, current_seed), w1) \<Rightarrow>
          (case datagram_plan_new (filter (\<lambda>f. df_id f \<noteq> i) (dp_faults current)) of
             Inl _ \<Rightarrow> (cross_direction_conflict, w1)
           | Inr rolled_back \<Rightarrow>
               let (_, w2) = publish_datagram_plan a name dir rolled_back current_seed (Some current_generation) w1
               in (cross_direction_conflict, w2)))"

definition add_datagram_fault :: "'w control_api \<Rightarrow> string \<Rightarrow> direction \<Rightarrow> datagram_fault_spec \<Rightarrow> 'w \<Rightarrow>
    (control_error + direction \<times> datagram_fault_spec \<times> nat) \<times> 'w" where
  "add_datagram_fault a name dir fault w =
     (case get_datagram_plan a name dir w of
        (Inl e, w1) \<Rightarrow> (Inl e, w1)
      | (Inr (plan, gen, seed), w1) \<Rightarrow>
          if has_fault (df_id fault) plan then (Inl (ControlConflict ''datagram fault already exists''), w1)
          else let (other, w2) = get_datagram_plan a name (other_direction dir) w1 in
            if conflicts_in (df_id fault) other then (Inl cross_direction_conflict, w2)
            else (case datagram_plan_new (dp_faults plan @ [fault]) of
              Inl e \<Rightarrow> (Inl (ControlInvalid e), w2)
            | Inr plan' \<Rightarrow> (case publish_datagram_plan a name dir plan' seed (Some gen) w2 of
                (Inl e, w3) \<Rightarrow> (Inl e, w3)
              | (Inr g, w3) \<Rightarrow>
                  let (again, w4) = get_datagram_plan a name (other_direction dir) w3 in
                  if conflicts_in (df_id fault) again
                  then (let (e, w5) = roll_back_add a name dir (df_id fault) w4 in (Inl e, w5))
                  else (Inr (dir, fault, g), w4))))"

fun get_datagram_fault_in :: "'w control_api \<Rightarrow> direction list \<Rightarrow> string \<Rightarrow> string \<Rightarrow> 'w \<Rightarrow>
    (direction \<times> datagram_fault_spec) option \<times> 'w" where
  "get_datagram_fault_in a [] name i w = (None, w)"
| "get_datagram_fault_in a (dir # dirs) name i w =
     (case get_datagram_plan a name dir w of
        (Inr (plan, _, _), w') \<Rightarrow> (case find (\<lambda>f. df_id f = i) (dp_faults plan) of
            Some f \<Rightarrow> (Some (dir, f), w')
          | None \<Rightarrow> get_datagram_fault_in a dirs name i w')
      | (Inl _, w') \<Rightarrow> get_datagram_fault_in a dirs name i w')"

definition get_datagram_fault :: "'w control_api \<Rightarrow> string \<Rightarrow> string \<Rightarrow> 'w \<Rightarrow> (direction \<times> datagram_fault_spec) option \<times> 'w" where
  "get_datagram_fault a name i w = get_datagram_fault_in a [Upstream, Downstream] name i w"

definition list_datagram_faults :: "'w control_api \<Rightarrow> string \<Rightarrow> 'w \<Rightarrow> (datagram_fault_spec list \<times> datagram_fault_spec list) option \<times> 'w" where
  "list_datagram_faults a name w =
     (case get_datagram_plan a name Upstream w of
        (Inl _, w1) \<Rightarrow> (None, w1)
      | (Inr (up, _, _), w1) \<Rightarrow> (case get_datagram_plan a name Downstream w1 of
          (Inl _, w2) \<Rightarrow> (None, w2)
        | (Inr (down, _, _), w2) \<Rightarrow> (Some (dp_faults up, dp_faults down), w2)))"

record datagram_fault_patch =
  dfp_probability :: "f64 option"
  dfp_kind :: "datagram_fault_kind option"

fun replace_datagram_fault :: "datagram_fault_spec \<Rightarrow> datagram_fault_spec list \<Rightarrow> datagram_fault_spec list" where
  "replace_datagram_fault f [] = []"
| "replace_datagram_fault f (g # gs) = (if df_id g = df_id f then f # gs else g # replace_datagram_fault f gs)"

fun update_datagram_fault_in :: "'w control_api \<Rightarrow> direction list \<Rightarrow> string \<Rightarrow> string \<Rightarrow> datagram_fault_patch \<Rightarrow> 'w \<Rightarrow>
    (control_error + direction \<times> datagram_fault_spec \<times> nat) \<times> 'w" where
  "update_datagram_fault_in a [] name i patch w = (Inl (NotFound (''fault '' @ i @ '' on '' @ name)), w)"
| "update_datagram_fault_in a (dir # dirs) name i patch w =
     (case get_datagram_plan a name dir w of
        (Inl _, w1) \<Rightarrow> update_datagram_fault_in a dirs name i patch w1
      | (Inr (plan, gen, seed), w1) \<Rightarrow> (case find (\<lambda>f. df_id f = i) (dp_faults plan) of
          None \<Rightarrow> update_datagram_fault_in a dirs name i patch w1
        | Some fault \<Rightarrow>
            (case (case dfp_probability patch of
                     None \<Rightarrow> Inr fault
                   | Some probability \<Rightarrow> (case probability_new probability of
                       Inl e \<Rightarrow> Inl (invalid_plan e)
                     | Inr p \<Rightarrow> Inr (fault\<lparr>df_probability := p\<rparr>))) of
               Inl e \<Rightarrow> (Inl e, w1)
             | Inr fault1 \<Rightarrow>
                 let fault2 = (case dfp_kind patch of None \<Rightarrow> fault1 | Some kind \<Rightarrow> fault1\<lparr>df_kind := kind\<rparr>) in
                 (case datagram_plan_new (replace_datagram_fault fault2 (dp_faults plan)) of
                    Inl e \<Rightarrow> (Inl (ControlInvalid e), w1)
                  | Inr updated \<Rightarrow> (case publish_datagram_plan a name dir updated seed (Some gen) w1 of
                      (Inl e, w2) \<Rightarrow> (Inl e, w2)
                    | (Inr g, w2) \<Rightarrow> (Inr (dir, fault2, g), w2))))))"

definition update_datagram_fault :: "'w control_api \<Rightarrow> string \<Rightarrow> string \<Rightarrow> datagram_fault_patch \<Rightarrow> 'w \<Rightarrow>
    (control_error + direction \<times> datagram_fault_spec \<times> nat) \<times> 'w" where
  "update_datagram_fault a name i patch w =
     (if dfp_probability patch = None \<and> dfp_kind patch = None
      then (Inl (ControlInvalid ''fault patch must include probability or kind''), w)
      else if (case dfp_probability patch of Some p \<Rightarrow> \<not> in_unit_interval p \<or> \<not> f64_is_finite p | None \<Rightarrow> False)
      then (Inl (ControlInvalid ''probability must be finite and between 0 and 1''), w)
      else update_datagram_fault_in a [Upstream, Downstream] name i patch w)"

fun remove_datagram_fault_in :: "'w control_api \<Rightarrow> direction list \<Rightarrow> string \<Rightarrow> string \<Rightarrow> 'w \<Rightarrow> (control_error + direction \<times> nat) \<times> 'w" where
  "remove_datagram_fault_in a [] name i w = (Inl (NotFound (''fault '' @ i @ '' on '' @ name)), w)"
| "remove_datagram_fault_in a (dir # dirs) name i w =
     (case get_datagram_plan a name dir w of
        (Inl _, w1) \<Rightarrow> remove_datagram_fault_in a dirs name i w1
      | (Inr (plan, gen, seed), w1) \<Rightarrow>
          if has_fault i plan
          then (case datagram_plan_new (filter (\<lambda>f. df_id f \<noteq> i) (dp_faults plan)) of
                  Inl e \<Rightarrow> (Inl (ControlInvalid e), w1)
                | Inr plan' \<Rightarrow> (case publish_datagram_plan a name dir plan' seed (Some gen) w1 of
                    (Inl e, w2) \<Rightarrow> (Inl e, w2)
                  | (Inr g, w2) \<Rightarrow> (Inr (dir, g), w2)))
          else remove_datagram_fault_in a dirs name i w1)"

definition remove_datagram_fault :: "'w control_api \<Rightarrow> string \<Rightarrow> string \<Rightarrow> 'w \<Rightarrow> (control_error + direction \<times> nat) \<times> 'w" where
  "remove_datagram_fault a name i w = remove_datagram_fault_in a [Upstream, Downstream] name i w"

section \<open>The undisturbed plane\<close>

lemma plane_api_simps [simp]:
  "api_fault_plan plane_api name dir w = (fault_plan name dir w, w)"
  "api_publish_fault_plan plane_api = publish_fault_plan"
  "api_next_generation plane_api = next_generation"
  "api_generation plane_api w = (control_generation w, w)"
  "api_snapshot_policies plane_api name w = (snapshot_policies name w, w)"
  "api_publish_direction plane_api = publish_direction_expected"
  "api_update_run plane_api = update_scenario_run"
  "api_drop_token plane_api run_id w = ((), remove_scenario_token run_id w)"
  "api_wait plane_api t d w = (t \<in> set (pl_cancelled w), w)"
  "api_has_datagram plane_api name w = (map_of (pl_datagrams w) name \<noteq> None, w)"
  "api_next_run_id plane_api w = (pl_next_run w, w\<lparr>pl_next_run := (pl_next_run w + 1) mod 2 ^ 64\<rparr>)"
  "api_child_token plane_api w = (ct_fresh w, w\<lparr>ct_fresh := ct_fresh w + 1\<rparr>)"
  "api_admit plane_api = admit_run" "api_take_token plane_api = take_run_token"
  "api_cancel plane_api t w = ((), w\<lparr>pl_cancelled := t # pl_cancelled w\<rparr>)"
  "api_get_run plane_api run_id w = (get_scenario run_id w, w)"
  by (simp_all add: plane_api_def)

end
