(* ===== verification/Datagram.thy ===== *)
theory Datagram
  imports DatagramPlan "HOL-Library.Multiset" "HOL-Library.Product_Lexorder"
begin

text \<open>
  The datagram engine, \<^verbatim>\<open>DatagramDirectionEngine\<close> of
  \<^verbatim>\<open>crates/eggchaos-core/src/datagram.rs\<close>: admission through the fault stages, the bounded
  deadline queue, the datagram token bucket, and the release of due datagrams.

  The pending queue of the source is a \<^verbatim>\<open>BinaryHeap\<close> of reversed candidates. The engine uses it
  through \<^verbatim>\<open>push\<close>, \<^verbatim>\<open>peek\<close>, \<^verbatim>\<open>pop\<close> and \<^verbatim>\<open>len\<close> only; the locale
  \<open>deadline_queue\<close> states what these promise, and the model keeps the candidates in a list sorted
  by the key of \<^verbatim>\<open>Candidate::cmp\<close>, which provides it. \<^verbatim>\<open>now + delay\<close> panics when the sum leaves the
  range of \<^verbatim>\<open>Instant\<close>: \<open>admit\<close> is then \<open>None\<close>.
\<close>

unbundle bit_operations_syntax

section \<open>Data\<close>

record datagram_evidence =
  dv_admitted_datagrams :: nat
  dv_admitted_bytes :: nat
  dv_emitted_datagrams :: nat
  dv_emitted_bytes :: nat
  dv_configured_loss :: nat
  dv_queue_overflow :: nat
  dv_oversize_datagrams :: nat
  dv_duplicated_copies :: nat
  dv_corrupted_candidates :: nat
  dv_reorder_activations :: nat
  dv_queued_datagrams :: nat
  dv_queued_bytes :: nat
  dv_high_water_datagrams :: nat
  dv_high_water_bytes :: nat
  dv_fault_activations :: "nat list"
  dv_injected_delay_nanos :: nat
  dv_bandwidth_delay_nanos :: nat
  dv_last_generation :: nat
  dv_last_seed_namespace :: u64
  dv_rng_version :: rng_version

record datagram_scheduled =
  sd_payload :: "byte list"
  sd_ingress_ordinal :: nat
  sd_copy_index :: nat
  sd_generation :: nat

record candidate =
  cd_at :: instant
  cd_ordinal :: nat
  cd_copy :: nat
  cd_payload :: "byte list"
  cd_generation :: nat

text \<open>\<^verbatim>\<open>Candidate::cmp\<close> compares this key lexicographically.\<close>

definition candidate_key :: "candidate \<Rightarrow> instant \<times> nat \<times> nat" where
  "candidate_key c = (cd_at c, cd_ordinal c, cd_copy c)"

record datagram_bucket =
  db_tokens :: nat
  db_updated :: instant

datatype datagram_admission =
    Consumed
  | Immediate "datagram_scheduled list"
  | Queued

record datagram_engine =
  de_limits :: datagram_queue_limits
  de_proxy :: string
  de_association :: u64
  de_direction :: direction
  de_rng_version :: rng_version
  de_ordinal :: nat
  de_queue :: "candidate list"
  de_evidence :: datagram_evidence
  de_buckets :: "string \<rightharpoonup> datagram_bucket"
  de_buckets_generation :: nat

definition datagram_evidence_default :: datagram_evidence where
  "datagram_evidence_default =
     \<lparr>dv_admitted_datagrams = 0, dv_admitted_bytes = 0, dv_emitted_datagrams = 0, dv_emitted_bytes = 0,
      dv_configured_loss = 0, dv_queue_overflow = 0, dv_oversize_datagrams = 0, dv_duplicated_copies = 0,
      dv_corrupted_candidates = 0, dv_reorder_activations = 0, dv_queued_datagrams = 0, dv_queued_bytes = 0,
      dv_high_water_datagrams = 0, dv_high_water_bytes = 0, dv_fault_activations = replicate 6 0,
      dv_injected_delay_nanos = 0, dv_bandwidth_delay_nanos = 0, dv_last_generation = 0,
      dv_last_seed_namespace = 0, dv_rng_version = V1\<rparr>"

definition datagram_engine_new ::
    "datagram_queue_limits \<Rightarrow> string \<Rightarrow> u64 \<Rightarrow> direction \<Rightarrow> rng_version \<Rightarrow> string + datagram_engine" where
  "datagram_engine_new limits proxy association dir v =
     (case limits_validate limits of
        Inl e \<Rightarrow> Inl e
      | Inr l \<Rightarrow>
          Inr \<lparr>de_limits = l, de_proxy = proxy, de_association = association, de_direction = dir,
               de_rng_version = v, de_ordinal = 0, de_queue = [],
               de_evidence = datagram_evidence_default\<lparr>dv_rng_version := v\<rparr>,
               de_buckets = Map.empty, de_buckets_generation = 0\<rparr>)"

section \<open>The deadline queue\<close>

definition heap_push :: "candidate \<Rightarrow> candidate list \<Rightarrow> candidate list" where
  "heap_push c q = insort_key candidate_key c q"

fun heap_peek :: "candidate list \<Rightarrow> candidate option" where
  "heap_peek [] = None"
| "heap_peek (c # q) = Some c"

fun heap_pop :: "candidate list \<Rightarrow> candidate list" where
  "heap_pop [] = []"
| "heap_pop (c # q) = q"

definition next_deadline :: "datagram_engine \<Rightarrow> instant option" where
  "next_deadline e = map_option cd_at (heap_peek (de_queue e))"

definition datagram_is_empty :: "datagram_engine \<Rightarrow> bool" where
  "datagram_is_empty e = (de_queue e = [])"

definition discard_all :: "datagram_engine \<Rightarrow> nat \<times> datagram_engine" where
  "discard_all e =
     (length (de_queue e),
      e\<lparr>de_evidence := (de_evidence e)\<lparr>dv_queued_datagrams := 0, dv_queued_bytes := 0\<rparr>, de_queue := []\<rparr>)"

definition queue_fits :: "nat \<Rightarrow> datagram_engine \<Rightarrow> bool" where
  "queue_fits bytes e =
     (length (de_queue e) < max_queued_datagrams (de_limits e) \<and>
      sat_add64 (dv_queued_bytes (de_evidence e)) bytes \<le> max_queued_bytes (de_limits e))"

definition fits_all :: "nat \<Rightarrow> nat \<Rightarrow> datagram_engine \<Rightarrow> bool" where
  "fits_all datagrams bytes e =
     (sat_add64 (length (de_queue e)) datagrams \<le> max_queued_datagrams (de_limits e) \<and>
      sat_add64 (dv_queued_bytes (de_evidence e)) bytes \<le> max_queued_bytes (de_limits e))"

text \<open>The counters of one more owned datagram of \<open>n\<close> bytes, and of one emitted.\<close>

definition note_queued :: "nat \<Rightarrow> datagram_evidence \<Rightarrow> datagram_evidence" where
  "note_queued n ev =
     (let ev1 = ev\<lparr>dv_queued_datagrams := sat_add64 (dv_queued_datagrams ev) 1,
                   dv_queued_bytes := sat_add64 (dv_queued_bytes ev) n\<rparr>
      in ev1\<lparr>dv_high_water_datagrams := max (dv_high_water_datagrams ev1) (dv_queued_datagrams ev1),
             dv_high_water_bytes := max (dv_high_water_bytes ev1) (dv_queued_bytes ev1)\<rparr>)"

definition note_emitted :: "nat \<Rightarrow> datagram_evidence \<Rightarrow> datagram_evidence" where
  "note_emitted n ev =
     ev\<lparr>dv_queued_datagrams := dv_queued_datagrams ev - 1,
        dv_queued_bytes := dv_queued_bytes ev - n,
        dv_emitted_datagrams := sat_add64 (dv_emitted_datagrams ev) 1,
        dv_emitted_bytes := sat_add64 (dv_emitted_bytes ev) n\<rparr>"

definition enqueue :: "instant \<Rightarrow> nat \<Rightarrow> nat \<Rightarrow> byte list \<Rightarrow> nat \<Rightarrow> datagram_engine \<Rightarrow> datagram_engine" where
  "enqueue release ordinal copy payload gen e =
     e\<lparr>de_evidence := note_queued (length payload) (de_evidence e),
       de_queue := heap_push \<lparr>cd_at = release, cd_ordinal = ordinal, cd_copy = copy, cd_payload = payload,
                              cd_generation = gen\<rparr> (de_queue e)\<rparr>"

definition emit_immediate ::
    "nat \<Rightarrow> byte list \<Rightarrow> nat \<Rightarrow> nat \<Rightarrow> datagram_engine \<Rightarrow> datagram_scheduled \<times> datagram_engine" where
  "emit_immediate ordinal payload gen copy e =
     (\<lparr>sd_payload = payload, sd_ingress_ordinal = ordinal, sd_copy_index = copy, sd_generation = gen\<rparr>,
      e\<lparr>de_evidence := note_emitted (length payload) (note_queued (length payload) (de_evidence e))\<rparr>)"

definition emit_immediate_single ::
    "nat \<Rightarrow> byte list \<Rightarrow> nat \<Rightarrow> datagram_engine \<Rightarrow> datagram_scheduled \<times> datagram_engine" where
  "emit_immediate_single ordinal payload gen e = emit_immediate ordinal payload gen 0 e"

definition scheduled_of :: "candidate \<Rightarrow> datagram_scheduled" where
  "scheduled_of c =
     \<lparr>sd_payload = cd_payload c, sd_ingress_ordinal = cd_ordinal c, sd_copy_index = cd_copy c,
      sd_generation = cd_generation c\<rparr>"

text \<open>The loop of \<^verbatim>\<open>take_ready\<close> over the queue.\<close>

fun pop_ready :: "instant \<Rightarrow> candidate list \<Rightarrow> datagram_evidence \<Rightarrow>
    datagram_scheduled list \<times> candidate list \<times> datagram_evidence" where
  "pop_ready now [] ev = ([], [], ev)"
| "pop_ready now (c # q) ev =
     (if cd_at c \<le> now then
        let (out, q', ev') = pop_ready now q (note_emitted (length (cd_payload c)) ev)
        in (scheduled_of c # out, q', ev')
      else ([], c # q, ev))"

definition take_ready :: "instant \<Rightarrow> datagram_engine \<Rightarrow> datagram_scheduled list \<times> datagram_engine" where
  "take_ready now e =
     (let (out, q, ev) = pop_ready now (de_queue e) (de_evidence e)
      in (out, e\<lparr>de_queue := q, de_evidence := ev\<rparr>))"

section \<open>Stage effects\<close>

definition jittered :: "duration \<Rightarrow> duration \<Rightarrow> deterministic_rng \<Rightarrow> duration \<times> deterministic_rng" where
  "jittered delay jitter rng =
     (if jitter = 0 then (delay, rng)
      else
        let range = min jitter U64_MAX;
            (n, rng') = below (sat_add64 (sat_mul64 range 2) 1) rng;
            total = int delay + (int n - int range)
        in (nat (min (max total 0) (int U64_MAX)), rng'))"

fun fault_delay :: "datagram_fault_kind \<Rightarrow> deterministic_rng \<Rightarrow> duration \<times> deterministic_rng" where
  "fault_delay (Delay delay jitter) rng = jittered delay jitter rng"
| "fault_delay (Reorder hold) rng = (hold, rng)"
| "fault_delay (DatagramBandwidth rate burst) rng =
     (duration_from_secs_f64 (f64_div_pos (Fin F64_ONE) (f64_of_u64 rate)), rng)"
| "fault_delay _ rng = (0, rng)"

definition refill_bytes :: "nat \<Rightarrow> duration \<Rightarrow> nat" where
  "refill_bytes rate elapsed = min (sat_mul128 elapsed rate div NANOS_PER_SEC) U64_MAX"

definition service_nanos :: "nat \<Rightarrow> nat \<Rightarrow> duration" where
  "service_nanos rate deficit =
     min (sat_add128 (sat_mul128 deficit NANOS_PER_SEC) (rate - 1) div rate) U64_MAX"

text \<open>One admission to a bucket: the delay and the bucket afterwards.\<close>

definition bucket_admit ::
    "instant \<Rightarrow> nat \<Rightarrow> nat \<Rightarrow> nat \<Rightarrow> datagram_bucket \<Rightarrow> duration \<times> datagram_bucket" where
  "bucket_admit now bytes rate burst b =
     (let virtual_now = max now (db_updated b);
          tokens = min (sat_add64 (db_tokens b) (refill_bytes rate (virtual_now - db_updated b))) burst
      in if bytes \<le> tokens then
           (virtual_now - now, \<lparr>db_tokens = tokens - bytes, db_updated = virtual_now\<rparr>)
         else
           let service = service_nanos rate (bytes - tokens);
               updated = (case instant_checked_add virtual_now service of Some t \<Rightarrow> t | None \<Rightarrow> virtual_now)
           in (duration_saturating_add (virtual_now - now) service, \<lparr>db_tokens = 0, db_updated = updated\<rparr>))"

definition bandwidth_delay ::
    "string \<Rightarrow> instant \<Rightarrow> nat \<Rightarrow> nat \<Rightarrow> nat \<Rightarrow> datagram_engine \<Rightarrow> duration \<times> datagram_engine" where
  "bandwidth_delay fid now bytes rate burst e =
     (let b = (case de_buckets e fid of Some b \<Rightarrow> b | None \<Rightarrow> \<lparr>db_tokens = burst, db_updated = now\<rparr>);
          (d, b') = bucket_admit now bytes rate burst b
      in (d, e\<lparr>de_buckets := (de_buckets e)(fid \<mapsto> b')\<rparr>))"

definition swap_at :: "nat \<Rightarrow> nat \<Rightarrow> 'a list \<Rightarrow> 'a list" where
  "swap_at i j xs = xs[i := xs ! j, j := xs ! i]"

text \<open>\<open>k\<close> iterations of the corruption loop from index \<open>i\<close> on.\<close>

fun corrupt_loop :: "nat \<Rightarrow> nat \<Rightarrow> byte list \<Rightarrow> deterministic_rng \<Rightarrow> byte list \<times> deterministic_rng" where
  "corrupt_loop i 0 v rng = (v, rng)"
| "corrupt_loop i (Suc k) v rng =
     (let (offset, rng1) = below (length v - i) rng;
          v1 = swap_at i (i + offset) v;
          (bit, rng2) = below 8 rng1
      in corrupt_loop (Suc i) k (v1[i := v1 ! i XOR push_bit bit 1]) rng2)"

section \<open>Admission\<close>

definition U16_MAX :: nat where
  "U16_MAX = 65535"

definition sat_succ16 :: "nat \<Rightarrow> nat" where
  "sat_succ16 n = min (n + 1) U16_MAX"

text \<open>A datagram on its way through the stages: copy index, bytes and accumulated delay.\<close>

type_synonym in_flight = "nat \<times> byte list \<times> duration"

definition count_evidence :: "(datagram_evidence \<Rightarrow> datagram_evidence) \<Rightarrow> datagram_engine \<Rightarrow> datagram_engine" where
  "count_evidence f e = e\<lparr>de_evidence := f (de_evidence e)\<rparr>"

definition note_activation :: "datagram_fault_kind \<Rightarrow> datagram_evidence \<Rightarrow> datagram_evidence" where
  "note_activation k = dv_fault_activations_update
     (\<lambda>a. a[fault_type_index k := sat_add64 (a ! fault_type_index k) 1])"

definition note_lost :: "datagram_evidence \<Rightarrow> datagram_evidence" where
  "note_lost = dv_configured_loss_update (\<lambda>n. sat_add64 n 1)"

definition note_duplicate :: "datagram_evidence \<Rightarrow> datagram_evidence" where
  "note_duplicate = dv_duplicated_copies_update (\<lambda>n. sat_add64 n 1)"

definition note_corrupted :: "datagram_evidence \<Rightarrow> datagram_evidence" where
  "note_corrupted = dv_corrupted_candidates_update (\<lambda>n. sat_add64 n 1)"

definition note_overflow :: "datagram_evidence \<Rightarrow> datagram_evidence" where
  "note_overflow = dv_queue_overflow_update (\<lambda>n. sat_add64 n 1)"

text \<open>Which counters a delaying stage of kind \<open>k\<close> moves.\<close>

fun note_delay :: "datagram_fault_kind \<Rightarrow> duration \<Rightarrow> datagram_evidence \<Rightarrow> datagram_evidence" where
  "note_delay (DatagramBandwidth rate burst) d ev =
     ev\<lparr>dv_bandwidth_delay_nanos := sat_add128 (dv_bandwidth_delay_nanos ev) d\<rparr>"
| "note_delay (Reorder hold) d ev =
     ev\<lparr>dv_injected_delay_nanos := sat_add128 (dv_injected_delay_nanos ev) d,
        dv_reorder_activations := sat_add64 (dv_reorder_activations ev) 1\<rparr>"
| "note_delay k d ev = ev\<lparr>dv_injected_delay_nanos := sat_add128 (dv_injected_delay_nanos ev) d\<rparr>"

fun duplicate_loop :: "nat \<Rightarrow> byte list \<Rightarrow> duration \<Rightarrow> nat \<Rightarrow> datagram_engine \<Rightarrow>
    in_flight list \<times> nat \<times> datagram_engine" where
  "duplicate_loop 0 bytes delay next_copy e = ([], next_copy, e)"
| "duplicate_loop (Suc k) bytes delay next_copy e =
     (let (items, next_copy', e') = duplicate_loop k bytes delay (sat_succ16 next_copy) (count_evidence note_duplicate e)
      in ((next_copy, bytes, delay) # items, next_copy', e'))"

text \<open>The effect of an activated stage on one datagram.\<close>

fun apply_stage :: "string \<Rightarrow> datagram_fault_kind \<Rightarrow> instant \<Rightarrow> deterministic_rng \<Rightarrow> in_flight \<Rightarrow> nat \<Rightarrow>
    datagram_engine \<Rightarrow> in_flight list \<times> nat \<times> datagram_engine" where
  "apply_stage fid Loss now rng (copy, bytes, delay) next_copy e = ([], next_copy, count_evidence note_lost e)"
| "apply_stage fid (Duplicate copies) now rng (copy, bytes, delay) next_copy e =
     (let (items, next_copy', e') = duplicate_loop copies bytes delay next_copy e
      in ((copy, bytes, delay) # items, next_copy', e'))"
| "apply_stage fid (PayloadCorrupt wanted) now rng (copy, bytes, delay) next_copy e =
     (if bytes = [] then ([(copy, bytes, delay)], next_copy, e)
      else ([(copy, fst (corrupt_loop 0 (min wanted (length bytes)) bytes rng), delay)], next_copy,
            count_evidence note_corrupted e))"
| "apply_stage fid (DatagramBandwidth rate burst) now rng (copy, bytes, delay) next_copy e =
     (let (added, e1) = bandwidth_delay fid now (length bytes) rate burst e
      in ([(copy, bytes, duration_saturating_add delay added)], next_copy,
          count_evidence (note_delay (DatagramBandwidth rate burst) added) e1))"
| "apply_stage fid k now rng (copy, bytes, delay) next_copy e =
     (let added = fst (fault_delay k rng)
      in ([(copy, bytes, duration_saturating_add delay added)], next_copy, count_evidence (note_delay k added) e))"

definition stage_seed :: "u64 \<Rightarrow> nat \<Rightarrow> nat \<Rightarrow> nat \<Rightarrow> fault_id \<Rightarrow> datagram_engine \<Rightarrow> u64" where
  "stage_seed ns ordinal stage copy fid e =
     derive_datagram_seed (ns XOR of_nat copy) (de_proxy e)
       (de_association e XOR word_rotl 9 (of_nat ordinal) XOR of_nat stage) (de_direction e) fid
     XOR (case de_rng_version e of V1 \<Rightarrow> 0)"

text \<open>The inner loop: every datagram in flight through one stage.\<close>

fun stage_items :: "u64 \<Rightarrow> instant \<Rightarrow> nat \<Rightarrow> nat \<Rightarrow> datagram_fault_spec \<Rightarrow> in_flight list \<Rightarrow> nat \<Rightarrow>
    datagram_engine \<Rightarrow> in_flight list \<times> nat \<times> datagram_engine" where
  "stage_items ns now ordinal stage f [] next_copy e = ([], next_copy, e)"
| "stage_items ns now ordinal stage f (item # items) next_copy e =
     (let (hit, rng) = bernoulli (df_probability f) (rng_new (stage_seed ns ordinal stage (fst item) (df_id f) e));
          (out, next_copy1, e1) =
            (if hit then apply_stage (df_id f) (df_kind f) now rng item next_copy
                           (count_evidence (note_activation (df_kind f)) e)
             else ([item], next_copy, e));
          (outs, next_copy2, e2) = stage_items ns now ordinal stage f items next_copy1 e1
      in (out @ outs, next_copy2, e2))"

text \<open>The outer loop over the stages of the plan.\<close>

fun run_stages :: "u64 \<Rightarrow> instant \<Rightarrow> nat \<Rightarrow> nat \<Rightarrow> datagram_fault_spec list \<Rightarrow> in_flight list \<Rightarrow> nat \<Rightarrow>
    datagram_engine \<Rightarrow> in_flight list \<times> datagram_engine" where
  "run_stages ns now ordinal stage [] items next_copy e = (items, e)"
| "run_stages ns now ordinal stage (f # fs) items next_copy e =
     (let (items1, next_copy1, e1) = stage_items ns now ordinal stage f items next_copy e
      in run_stages ns now ordinal (Suc stage) fs items1 next_copy1 e1)"

fun checked_total :: "nat \<Rightarrow> in_flight list \<Rightarrow> nat option" where
  "checked_total acc [] = Some acc"
| "checked_total acc ((copy, bytes, delay) # items) =
     (case checked_add64 acc (length bytes) of None \<Rightarrow> None | Some t \<Rightarrow> checked_total t items)"

fun emit_all :: "nat \<Rightarrow> nat \<Rightarrow> in_flight list \<Rightarrow> datagram_engine \<Rightarrow> datagram_scheduled list \<times> datagram_engine" where
  "emit_all ordinal gen [] e = ([], e)"
| "emit_all ordinal gen ((copy, bytes, delay) # items) e =
     (let (s, e1) = emit_immediate ordinal bytes gen copy e;
          (out, e2) = emit_all ordinal gen items e1
      in (s # out, e2))"

definition all_immediate :: "in_flight list \<Rightarrow> datagram_engine \<Rightarrow> bool" where
  "all_immediate items e =
     (items \<noteq> [] \<and> list_all (\<lambda>(copy, bytes, delay). delay = 0) items \<and> de_queue e = [] \<and>
      (case checked_total 0 items of None \<Rightarrow> False | Some bytes \<Rightarrow> fits_all (length items) bytes e))"

fun enqueue_all :: "instant \<Rightarrow> nat \<Rightarrow> nat \<Rightarrow> in_flight list \<Rightarrow> bool \<Rightarrow> datagram_engine \<Rightarrow>
    (bool \<times> datagram_engine) option" where
  "enqueue_all now ordinal gen [] queued_any e = Some (queued_any, e)"
| "enqueue_all now ordinal gen ((copy, bytes, delay) # items) queued_any e =
     (if \<not> queue_fits (length bytes) e then
        enqueue_all now ordinal gen items queued_any (count_evidence note_overflow e)
      else case instant_checked_add now delay of
             None \<Rightarrow> None
           | Some release \<Rightarrow> enqueue_all now ordinal gen items True (enqueue release ordinal copy bytes gen e))"

text \<open>Dispatch of the datagrams that left the last stage.\<close>

definition dispatch :: "instant \<Rightarrow> nat \<Rightarrow> nat \<Rightarrow> in_flight list \<Rightarrow> datagram_engine \<Rightarrow>
    (datagram_admission \<times> datagram_engine) option" where
  "dispatch now ordinal gen items e =
     (if all_immediate items e then
        let (out, e') = emit_all ordinal gen items e
        in Some (Immediate (sort_key (\<lambda>s. (sd_ingress_ordinal s, sd_copy_index s)) out), e')
      else if items = [] then Some (Consumed, e)
      else case enqueue_all now ordinal gen items False e of
             None \<Rightarrow> None
           | Some (queued_any, e') \<Rightarrow> Some (if queued_any then Queued else Consumed, e'))"

definition count_admitted :: "nat \<Rightarrow> datagram_evidence \<Rightarrow> datagram_evidence" where
  "count_admitted n ev =
     ev\<lparr>dv_admitted_datagrams := sat_add64 (dv_admitted_datagrams ev) 1,
        dv_admitted_bytes := sat_add64 (dv_admitted_bytes ev) n\<rparr>"

definition note_oversize :: "datagram_evidence \<Rightarrow> datagram_evidence" where
  "note_oversize = dv_oversize_datagrams_update (\<lambda>n. sat_add64 n 1)"

text \<open>Observe the policy: its generation and namespace, and the buckets that survive it.\<close>

definition observe_policy :: "published_datagram_policy \<Rightarrow> datagram_engine \<Rightarrow> datagram_engine" where
  "observe_policy policy e =
     (let e1 = count_evidence (\<lambda>ev. ev\<lparr>dv_last_generation := generation policy,
                                        dv_last_seed_namespace := seed_namespace policy\<rparr>) e
      in if generation policy \<noteq> de_buckets_generation e1 then
           e1\<lparr>de_buckets := (\<lambda>fid. if list_ex (\<lambda>f. df_id f = fid) (dp_faults (pub_plan policy))
                                     then de_buckets e1 fid else None),
              de_buckets_generation := generation policy\<rparr>
         else e1)"

definition admit_unfaulted :: "instant \<Rightarrow> nat \<Rightarrow> byte list \<Rightarrow> nat \<Rightarrow> datagram_engine \<Rightarrow>
    datagram_admission \<times> datagram_engine" where
  "admit_unfaulted now ordinal payload gen e =
     (if de_queue e = [] \<and> queue_fits (length payload) e then
        let (s, e') = emit_immediate_single ordinal payload gen e in (Immediate [s], e')
      else if queue_fits (length payload) e then (Queued, enqueue now ordinal 0 payload gen e)
      else (Consumed, count_evidence note_overflow e))"

definition admit :: "instant \<Rightarrow> byte list \<Rightarrow> published_datagram_policy \<Rightarrow> datagram_engine \<Rightarrow>
    (datagram_admission \<times> datagram_engine) option" where
  "admit now payload policy e0 =
     (let ordinal = de_ordinal e0;
          e1 = count_evidence (count_admitted (length payload)) (e0\<lparr>de_ordinal := sat_add64 ordinal 1\<rparr>)
      in if max_datagram_bytes (de_limits e1) < length payload then
           Some (Consumed, count_evidence note_oversize e1)
         else
           let e2 = observe_policy policy e1;
               fs = dp_faults (pub_plan policy)
           in if fs = [] then Some (admit_unfaulted now ordinal payload (generation policy) e2)
              else let (items, e3) = run_stages (seed_namespace policy) now ordinal 0 fs [(0, payload, 0)] 1 e2
                   in dispatch now ordinal (generation policy) items e3)"

end
