(* ===== verification/DatagramModel.thy ===== *)
theory DatagramModel
  imports Plane Datagram
begin

text \<open>
  The data of the datagram runtime, \<^verbatim>\<open>crates/eggchaos-server/src/runtime/datagram/model.rs\<close> with the constants of
  \<^verbatim>\<open>mod.rs\<close>: validated limits, proxy definitions, the evidence record of an association and its snapshot, the
  counters of a proxy, and the reservation of ingress bytes of \<^verbatim>\<open>registry.rs\<close>. \<^verbatim>\<open>usize\<close> is 64 bits wide.
\<close>

section \<open>Limits and definitions\<close>

definition MAX_DATAGRAM_ASSOCIATIONS :: nat where "MAX_DATAGRAM_ASSOCIATIONS = 65536"
definition MAX_DATAGRAM_PROXIES :: nat where "MAX_DATAGRAM_PROXIES = 1024"
definition MAX_ASSOCIATION_HISTORY :: nat where "MAX_ASSOCIATION_HISTORY = 65536"
definition MAX_INGRESS_QUEUE :: nat where "MAX_INGRESS_QUEUE = 1024"
definition MAX_INGRESS_BUFFER_BYTES :: nat where "MAX_INGRESS_BUFFER_BYTES = 1073741824"
definition MAX_IDLE_TIMEOUT :: duration where "MAX_IDLE_TIMEOUT = 86400 * NANOS_PER_SEC"

record datagram_runtime_limits =
  rl_max_proxies :: nat
  rl_max_associations :: nat
  rl_history :: nat
  rl_ingress_per_association :: nat
  rl_max_ingress_queue_bytes :: nat

definition default_runtime_limits :: datagram_runtime_limits where
  "default_runtime_limits = \<lparr>rl_max_proxies = 128, rl_max_associations = 4096, rl_history = 1024, rl_ingress_per_association = 16,
     rl_max_ingress_queue_bytes = 64 * 1024 * 1024\<rparr>"

definition runtime_limits_validate :: "datagram_runtime_limits \<Rightarrow> datagram_error + datagram_runtime_limits" where
  "runtime_limits_validate l =
     (if rl_max_proxies l = 0 \<or> MAX_DATAGRAM_PROXIES < rl_max_proxies l
      then Inl (DgInvalid ''max_proxies must be 1..=1024'')
      else if rl_max_associations l = 0 \<or> MAX_DATAGRAM_ASSOCIATIONS < rl_max_associations l
      then Inl (DgInvalid ''max_associations must be 1..=65536'')
      else if MAX_ASSOCIATION_HISTORY < rl_history l
      then Inl (DgInvalid ''history exceeds 65536 entries'')
      else if rl_ingress_per_association l = 0 \<or> MAX_INGRESS_QUEUE < rl_ingress_per_association l
      then Inl (DgInvalid ''ingress_per_association must be 1..=1024'')
      else if rl_max_ingress_queue_bytes l = 0 \<or> MAX_INGRESS_BUFFER_BYTES < rl_max_ingress_queue_bytes l
      then Inl (DgInvalid ''max_ingress_queue_bytes must be 1..=1073741824'')
      else Inr l)"

record datagram_proxy_spec =
  ds_name :: string
  ds_listen :: socket_addr
  ds_upstream :: socket_addr
  ds_max_associations :: nat
  ds_idle_timeout :: duration
  ds_queue_limits :: datagram_queue_limits
  ds_upstream_policy :: published_datagram_policy
  ds_downstream_policy :: published_datagram_policy
  ds_seed :: u64

definition datagram_proxy_spec_new :: "string \<Rightarrow> socket_addr \<Rightarrow> socket_addr \<Rightarrow> datagram_queue_limits \<Rightarrow> datagram_error + datagram_proxy_spec" where
  "datagram_proxy_spec_new name listen upstream queue_limits =
     (case limits_validate queue_limits of
        Inl e \<Rightarrow> Inl (DgInvalid e)
      | Inr l \<Rightarrow> (case datagram_live_new datagram_plan_empty 0 of
          Inl e \<Rightarrow> Inl (DgInvalid e)
        | Inr up \<Rightarrow> (case datagram_live_new datagram_plan_empty 0 of
            Inl e \<Rightarrow> Inl (DgInvalid e)
          | Inr down \<Rightarrow>
              Inr \<lparr>ds_name = name, ds_listen = listen, ds_upstream = upstream, ds_max_associations = 256,
                   ds_idle_timeout = 60 * NANOS_PER_SEC, ds_queue_limits = l, ds_upstream_policy = up,
                   ds_downstream_policy = down, ds_seed = 0\<rparr>)))"

fun addr_port_zero :: "socket_addr \<Rightarrow> bool" where
  "addr_port_zero (SocketV4 _ port) = (port = 0)"
| "addr_port_zero (SocketV6 _ port _ _) = (port = 0)"

definition datagram_spec_validate :: "nat \<Rightarrow> datagram_proxy_spec \<Rightarrow> datagram_error + unit" where
  "datagram_spec_validate global_associations s =
     (if ds_name s = [] \<or> 128 < length (ds_name s) \<or> \<not> list_all name_byte_ok (ds_name s)
      then Inl (DgInvalid ''proxy name must match [A-Za-z0-9._-]+ and be 1..=128 bytes'')
      else if ds_max_associations s = 0 \<or> global_associations < ds_max_associations s
      then Inl (DgInvalid ''per-proxy associations must be nonzero and no greater than the global limit'')
      else if ds_idle_timeout s < 1000000 \<or> MAX_IDLE_TIMEOUT < ds_idle_timeout s
      then Inl (DgInvalid ''association idle timeout must be 1 ms..=24 hours'')
      else case limits_validate (ds_queue_limits s) of
        Inl e \<Rightarrow> Inl (DgInvalid e)
      | Inr _ \<Rightarrow> (case datagram_validate (pub_plan (ds_upstream_policy s)) of
          Inl e \<Rightarrow> Inl (DgInvalid e)
        | Inr _ \<Rightarrow> (case datagram_validate (pub_plan (ds_downstream_policy s)) of
            Inl e \<Rightarrow> Inl (DgInvalid e)
          | Inr _ \<Rightarrow>
              if addr_port_zero (ds_upstream s) \<or> forbidden_target (ds_upstream s)
              then Inl (DgInvalid ''upstream must be a concrete unicast socket address with a nonzero port'')
              else if forbidden_listener (ds_listen s)
              then Inl (DgInvalid ''listen address must be unicast or unspecified'')
              else Inr ())))"

section \<open>Evidence\<close>

record proxy_counters =
  pc_oversize_datagrams :: nat
  pc_capacity_rejections :: nat
  pc_ingress_overflow :: nat
  pc_setup_failures :: nat

record association_record =
  ar_id :: u64
  ar_proxy :: string
  ar_client :: socket_addr
  ar_upstream :: socket_addr
  ar_created :: instant
  ar_last_activity :: instant
  ar_ingress_datagrams :: nat
  ar_ingress_bytes :: nat
  ar_egress_datagrams :: nat
  ar_egress_bytes :: nat
  ar_ingress_queue_overflow :: nat
  ar_oversize_datagrams :: nat
  ar_administrative_discards :: nat
  ar_send_errors :: nat
  ar_upstream_evidence :: datagram_evidence
  ar_downstream_evidence :: datagram_evidence

definition association_record_new :: "u64 \<Rightarrow> datagram_proxy_spec \<Rightarrow> socket_addr \<Rightarrow> instant \<Rightarrow> association_record" where
  "association_record_new i spec client now =
     \<lparr>ar_id = i, ar_proxy = ds_name spec, ar_client = client, ar_upstream = ds_upstream spec, ar_created = now,
      ar_last_activity = now, ar_ingress_datagrams = 0, ar_ingress_bytes = 0, ar_egress_datagrams = 0, ar_egress_bytes = 0,
      ar_ingress_queue_overflow = 0, ar_oversize_datagrams = 0, ar_administrative_discards = 0, ar_send_errors = 0,
      ar_upstream_evidence = datagram_evidence_default, ar_downstream_evidence = datagram_evidence_default\<rparr>"

record association_snapshot =
  an_id :: u64
  an_proxy :: string
  an_client :: socket_addr
  an_upstream :: socket_addr
  an_age_ms :: nat
  an_idle_ms :: nat
  an_ingress_datagrams :: nat
  an_ingress_bytes :: nat
  an_egress_datagrams :: nat
  an_egress_bytes :: nat
  an_ingress_queue_overflow :: nat
  an_oversize_datagrams :: nat
  an_administrative_discards :: nat
  an_send_errors :: nat
  an_upstream_evidence :: datagram_evidence
  an_downstream_evidence :: datagram_evidence

text \<open>Instants are natural numbers of nanoseconds, so \<^verbatim>\<open>saturating_duration_since\<close> is truncated subtraction.\<close>

definition record_snapshot :: "instant \<Rightarrow> association_record \<Rightarrow> association_snapshot" where
  "record_snapshot now r =
     \<lparr>an_id = ar_id r, an_proxy = ar_proxy r, an_client = ar_client r, an_upstream = ar_upstream r,
      an_age_ms = min ((now - ar_created r) div 1000000) U64_MAX,
      an_idle_ms = min ((now - ar_last_activity r) div 1000000) U64_MAX,
      an_ingress_datagrams = ar_ingress_datagrams r, an_ingress_bytes = ar_ingress_bytes r,
      an_egress_datagrams = ar_egress_datagrams r, an_egress_bytes = ar_egress_bytes r,
      an_ingress_queue_overflow = ar_ingress_queue_overflow r, an_oversize_datagrams = ar_oversize_datagrams r,
      an_administrative_discards = ar_administrative_discards r, an_send_errors = ar_send_errors r,
      an_upstream_evidence = ar_upstream_evidence r, an_downstream_evidence = ar_downstream_evidence r\<rparr>"

section \<open>Ingress reservations\<close>

definition reserve_ingress :: "nat \<Rightarrow> nat \<Rightarrow> nat \<Rightarrow> nat option" where
  "reserve_ingress bytes limit counter =
     (case checked_add64 counter bytes of
        Some next \<Rightarrow> if next \<le> limit then Some next else None
      | None \<Rightarrow> None)"

lemma reserve_ingress_bound: "reserve_ingress bytes limit counter = Some c \<Longrightarrow> c = counter + bytes \<and> c \<le> limit"
  by (auto simp: reserve_ingress_def checked_add64_def split: if_splits option.splits)

end
