(* ===== verification/AssociationWorker.thy ===== *)
theory AssociationWorker
  imports DatagramModel
begin

text \<open>
  The worker of one datagram association, \<^verbatim>\<open>association_loop\<close> of \<^verbatim>\<open>runtime/datagram/association.rs\<close>, and the delivery of
  client datagrams to it, \<^verbatim>\<open>receive_client_datagram\<close> of \<^verbatim>\<open>runtime/datagram/supervisor.rs\<close>.

  What the environment does during a call is an argument: the instants read, whether the cancellation token was
  seen cancelled before each send, and what each send returned (\<open>Some n\<close> is \<^verbatim>\<open>Ok(n)\<close>, \<open>None\<close> an error). An admission
  panics when its release instant leaves the range of \<^verbatim>\<open>Instant\<close>; the turn of the loop is then \<open>None\<close>. The record of the
  association is shared behind a mutex; each locked section is one update. A turn of the loop is one step, the
  sends it awaits included.
\<close>

section \<open>Sending\<close>

type_synonym send_env = "nat \<Rightarrow> bool \<times> nat option"

record send_counts =
  sn_datagrams :: nat
  sn_bytes :: nat
  sn_errors :: nat

fun count_send :: "byte list \<Rightarrow> nat option \<Rightarrow> send_counts \<Rightarrow> send_counts" where
  "count_send payload (Some n) k =
     (if n = length payload
      then k\<lparr>sn_datagrams := sat_add64 (sn_datagrams k) 1, sn_bytes := sat_add64 (sn_bytes k) n\<rparr>
      else k\<lparr>sn_errors := sat_add64 (sn_errors k) 1\<rparr>)"
| "count_send payload None k = k\<lparr>sn_errors := sat_add64 (sn_errors k) 1\<rparr>"

text \<open>The loop over the ready datagrams from \<open>index\<close> on: the datagrams left when the token was seen cancelled, if it was.\<close>

fun send_loop :: "send_env \<Rightarrow> nat \<Rightarrow> datagram_scheduled list \<Rightarrow> send_counts \<Rightarrow> nat option \<times> send_counts" where
  "send_loop env index [] k = (None, k)"
| "send_loop env index (d # ds) k =
     (if fst (env index) then (Some (length (d # ds)), k)
      else send_loop env (Suc index) ds (count_send (sd_payload d) (snd (env index)) k))"

definition add_counts :: "send_counts \<Rightarrow> association_record \<Rightarrow> association_record" where
  "add_counts k r =
     r\<lparr>ar_egress_datagrams := sat_add64 (ar_egress_datagrams r) (sn_datagrams k),
       ar_egress_bytes := sat_add64 (ar_egress_bytes r) (sn_bytes k),
       ar_send_errors := sat_add64 (ar_send_errors r) (sn_errors k)\<rparr>"

text \<open>
  \<^verbatim>\<open>send_upstream\<close> and \<^verbatim>\<open>send_downstream\<close> are the same code over two sockets. The result says whether the loop has to
  stop and whether the evidence changed.
\<close>

definition send_ready :: "send_env \<Rightarrow> datagram_scheduled list \<Rightarrow> association_record \<Rightarrow> bool \<times> bool \<times> association_record" where
  "send_ready env ready r =
     (case send_loop env 0 ready \<lparr>sn_datagrams = 0, sn_bytes = 0, sn_errors = 0\<rparr> of
        (Some left, k) \<Rightarrow>
          let r1 = add_counts k r in
          (True, True, r1\<lparr>ar_administrative_discards := sat_add64 (ar_administrative_discards r1) left\<rparr>)
      | (None, k) \<Rightarrow>
          if 0 < sn_datagrams k \<or> 0 < sn_errors k then (False, True, add_counts k r) else (False, False, r))"

section \<open>The loop\<close>

record worker =
  wk_upstream :: datagram_engine
  wk_downstream :: datagram_engine
  wk_record :: association_record

definition worker_new :: "datagram_proxy_spec \<Rightarrow> u64 \<Rightarrow> association_record \<Rightarrow> (string + worker)" where
  "worker_new spec i r =
     (case datagram_engine_new (ds_queue_limits spec) (ds_name spec) i Upstream V1 of
        Inl e \<Rightarrow> Inl e
      | Inr up \<Rightarrow> (case datagram_engine_new (ds_queue_limits spec) (ds_name spec) i Downstream V1 of
          Inl e \<Rightarrow> Inl e
        | Inr down \<Rightarrow> Inr \<lparr>wk_upstream = up, wk_downstream = down, wk_record = r\<rparr>))"

definition emit_ready :: "send_env \<Rightarrow> send_env \<Rightarrow> instant \<Rightarrow> worker \<Rightarrow> bool \<times> bool \<times> worker" where
  "emit_ready up_env down_env now w =
     (let (ready, up) = take_ready now (wk_upstream w);
          w1 = w\<lparr>wk_upstream := up\<rparr>;
          (stop1, dirty1, r1) = (if ready = [] then (False, False, wk_record w1) else send_ready up_env ready (wk_record w1));
          w2 = w1\<lparr>wk_record := r1\<rparr>
      in if stop1 then (True, dirty1, w2)
         else let (ready2, down) = take_ready now (wk_downstream w2);
                  w3 = w2\<lparr>wk_downstream := down\<rparr>;
                  (stop2, dirty2, r2) = (if ready2 = [] then (False, False, wk_record w3) else send_ready down_env ready2 (wk_record w3))
              in (stop2, dirty1 \<or> dirty2, w3\<lparr>wk_record := r2\<rparr>))"

definition update_evidence :: "worker \<Rightarrow> worker" where
  "update_evidence w =
     w\<lparr>wk_record := (wk_record w)\<lparr>ar_upstream_evidence := de_evidence (wk_upstream w),
                                   ar_downstream_evidence := de_evidence (wk_downstream w)\<rparr>\<rparr>"

text \<open>What \<^verbatim>\<open>select!\<close> may deliver to a turn; the policy of a datagram from the target is the snapshot taken then.\<close>

datatype turn_event =
    TurnCancelled
  | TurnIngress "byte list" published_datagram_policy
  | TurnClosed
  | TurnReceived "byte list" published_datagram_policy
  | TurnReceiveError
  | TurnDeadline

record turn_env =
  te_now :: instant
  te_up :: send_env
  te_down :: send_env
  te_admit :: instant
  te_send :: send_env
  te_activity :: instant

definition touch :: "instant \<Rightarrow> association_record \<Rightarrow> association_record" where
  "touch t r = r\<lparr>ar_last_activity := t\<rparr>"

fun emit_admitted :: "send_env \<Rightarrow> datagram_admission \<Rightarrow> association_record \<Rightarrow> bool \<times> association_record" where
  "emit_admitted env (Immediate ready) r = (let (stop, dirty, r') = send_ready env ready r in (stop, r'))"
| "emit_admitted env Queued r = (False, r)"
| "emit_admitted env Consumed r = (False, r)"

text \<open>
  One arm of \<^verbatim>\<open>select!\<close>: \<open>True\<close> means that the loop stops. A stop inside an admission leaves the loop before the
  activity is recorded. The third component says whether the evidence is to be copied at the end of the turn.
\<close>

fun turn_arm :: "nat \<Rightarrow> turn_env \<Rightarrow> turn_event \<Rightarrow> bool \<Rightarrow> worker \<Rightarrow> (bool \<times> bool \<times> worker) option" where
  "turn_arm max_bytes env TurnCancelled dirty w = Some (True, dirty, w)"
| "turn_arm max_bytes env (TurnIngress payload policy) dirty w =
     (case admit (te_admit env) payload policy (wk_upstream w) of
        None \<Rightarrow> None
      | Some (a, up) \<Rightarrow>
          let (stop, r) = emit_admitted (te_send env) a (wk_record w); w1 = w\<lparr>wk_upstream := up, wk_record := r\<rparr> in
          if stop then Some (True, True, w1) else Some (False, True, w1\<lparr>wk_record := touch (te_activity env) r\<rparr>))"
| "turn_arm max_bytes env TurnClosed dirty w = Some (True, dirty, w)"
| "turn_arm max_bytes env (TurnReceived payload policy) dirty w =
     (if max_bytes < length payload
      then let r = wk_record w in
           Some (False, True, w\<lparr>wk_record := touch (te_activity env) (r\<lparr>ar_oversize_datagrams := sat_add64 (ar_oversize_datagrams r) 1\<rparr>)\<rparr>)
      else case admit (te_admit env) payload policy (wk_downstream w) of
        None \<Rightarrow> None
      | Some (a, down) \<Rightarrow>
          let (stop, r) = emit_admitted (te_send env) a (wk_record w); w1 = w\<lparr>wk_downstream := down, wk_record := r\<rparr> in
          if stop then Some (True, True, w1) else Some (False, True, w1\<lparr>wk_record := touch (te_activity env) r\<rparr>))"
| "turn_arm max_bytes env TurnReceiveError dirty w =
     (let r = wk_record w in Some (False, True, w\<lparr>wk_record := r\<lparr>ar_send_errors := sat_add64 (ar_send_errors r) 1\<rparr>\<rparr>))"
| "turn_arm max_bytes env TurnDeadline dirty w = Some (False, dirty, w)"

text \<open>
  One turn, split where the loop awaits: the ready datagrams are sent first, and only then an event is taken.
  \<open>finish_turn\<close> copies the evidence unless the loop was left.
\<close>

definition finish_turn :: "bool \<times> bool \<times> worker \<Rightarrow> bool \<times> worker" where
  "finish_turn x = (case x of (stop, dirty, w) \<Rightarrow> (stop, if \<not> stop \<and> dirty then update_evidence w else w))"

definition worker_turn :: "nat \<Rightarrow> turn_env \<Rightarrow> turn_event \<Rightarrow> worker \<Rightarrow> (bool \<times> worker) option" where
  "worker_turn max_bytes env ev w =
     (case emit_ready (te_up env) (te_down env) (te_now env) w of
        (True, _, w1) \<Rightarrow> Some (True, w1)
      | (False, dirty, w1) \<Rightarrow> map_option finish_turn (turn_arm max_bytes env ev dirty w1))"

text \<open>The instant the loop sleeps until when nothing else happens.\<close>

definition turn_deadline :: "worker \<Rightarrow> instant option" where
  "turn_deadline w =
     (case (next_deadline (wk_upstream w), next_deadline (wk_downstream w)) of
        (Some a, Some b) \<Rightarrow> Some (min a b)
      | (Some a, None) \<Rightarrow> Some a
      | (None, b) \<Rightarrow> b)"

text \<open>After the loop: what the engines and the ingress channel still hold is discarded.\<close>

definition worker_finish :: "bool \<Rightarrow> nat \<Rightarrow> worker \<Rightarrow> nat \<times> worker" where
  "worker_finish administrative channel w =
     (let (n, up) = discard_all (wk_upstream w);
          (m, down) = discard_all (wk_downstream w);
          discarded = sat_add64 n m + channel;
          r = wk_record w;
          r1 = (if administrative then r\<lparr>ar_administrative_discards := sat_add64 (ar_administrative_discards r) discarded\<rparr> else r)
      in (discarded, update_evidence \<lparr>wk_upstream = up, wk_downstream = down, wk_record = r1\<rparr>))"

section \<open>Delivery\<close>

type_synonym ingress = "byte list \<times> published_datagram_policy"

text \<open>The sender side of an association: its channel, whether the receiver is gone, and the counters the listener touches.\<close>

record delivery =
  dl_counters :: proxy_counters
  dl_buffered :: nat
  dl_channel :: "ingress list"
  dl_closed :: bool
  dl_pending :: nat
  dl_record :: association_record

definition count_ingress_overflow :: "proxy_counters \<Rightarrow> proxy_counters" where
  "count_ingress_overflow c = c\<lparr>pc_ingress_overflow := (pc_ingress_overflow c + 1) mod 2 ^ 64\<rparr>"

definition note_ingress_overflow :: "instant \<Rightarrow> association_record \<Rightarrow> association_record" where
  "note_ingress_overflow now r = touch now (r\<lparr>ar_ingress_queue_overflow := sat_add64 (ar_ingress_queue_overflow r) 1\<rparr>)"

text \<open>
  \<^verbatim>\<open>receive_client_datagram\<close> once the association is resolved. A refused message is dropped with its reservation, which
  gives the bytes back.
\<close>

definition deliver_ingress :: "datagram_runtime_limits \<Rightarrow> published_datagram_policy \<Rightarrow> instant \<Rightarrow> byte list \<Rightarrow> delivery \<Rightarrow> delivery" where
  "deliver_ingress limits policy now payload d =
     (case reserve_ingress (length payload) (rl_max_ingress_queue_bytes limits) (dl_buffered d) of
        None \<Rightarrow> d\<lparr>dl_counters := count_ingress_overflow (dl_counters d), dl_record := note_ingress_overflow now (dl_record d)\<rparr>
      | Some buffered \<Rightarrow>
          if dl_closed d
          then let r = dl_record d in
               d\<lparr>dl_counters := count_ingress_overflow (dl_counters d),
                 dl_record := note_ingress_overflow now (r\<lparr>ar_administrative_discards := sat_add64 (ar_administrative_discards r) 1\<rparr>)\<rparr>
          else if rl_ingress_per_association limits \<le> length (dl_channel d)
          then d\<lparr>dl_counters := count_ingress_overflow (dl_counters d), dl_record := note_ingress_overflow now (dl_record d)\<rparr>
          else let r = dl_record d in
               d\<lparr>dl_buffered := buffered, dl_pending := dl_pending d + 1, dl_channel := dl_channel d @ [(payload, policy)],
                 dl_record := touch now (r\<lparr>ar_ingress_datagrams := sat_add64 (ar_ingress_datagrams r) 1,
                                            ar_ingress_bytes := sat_add64 (ar_ingress_bytes r) (length payload)\<rparr>)\<rparr>)"

text \<open>The refusals before that: an oversized datagram, and a client without an association.\<close>

definition note_oversize_client :: "instant \<Rightarrow> bool \<Rightarrow> delivery \<Rightarrow> delivery" where
  "note_oversize_client now active d =
     (let d1 = d\<lparr>dl_counters := (dl_counters d)\<lparr>pc_oversize_datagrams := (pc_oversize_datagrams (dl_counters d) + 1) mod 2 ^ 64\<rparr>\<rparr>;
          r = dl_record d1 in
      if active then d1\<lparr>dl_record := touch now (r\<lparr>ar_oversize_datagrams := sat_add64 (ar_oversize_datagrams r) 1\<rparr>)\<rparr> else d1)"

fun count_unresolved :: "datagram_error \<Rightarrow> proxy_counters \<Rightarrow> proxy_counters" where
  "count_unresolved DgAssociationLimit c = c\<lparr>pc_capacity_rejections := (pc_capacity_rejections c + 1) mod 2 ^ 64\<rparr>"
| "count_unresolved _ c = c\<lparr>pc_setup_failures := (pc_setup_failures c + 1) mod 2 ^ 64\<rparr>"

definition receive_client_datagram :: "datagram_runtime_limits \<Rightarrow> nat \<Rightarrow> bool \<Rightarrow> datagram_error option \<Rightarrow> published_datagram_policy \<Rightarrow>
    instant \<Rightarrow> byte list \<Rightarrow> delivery \<Rightarrow> delivery" where
  "receive_client_datagram limits max_bytes active unresolved policy now payload d =
     (if max_bytes < length payload then note_oversize_client now active d
      else case unresolved of
        Some e \<Rightarrow> d\<lparr>dl_counters := count_unresolved e (dl_counters d)\<rparr>
      | None \<Rightarrow> deliver_ingress limits policy now payload d)"

end
