(* ===== verification/DatagramStages.thy ===== *)
theory DatagramStages
  imports Datagram
begin

text \<open>
  What the fault stages of a datagram engine keep and count. \<open>flow items e out e'\<close> relates the
  datagrams in flight and the engine before and after some stages: the parts of the engine no stage
  touches are unchanged, the loss and duplication counters account for the change in number, and no
  payload changes its length. \<open>fresh_copies\<close> tracks the copy indices. Both compose, so one
  induction over the stage loops serves every property of them. The last section describes a
  corrupted payload.
\<close>

section \<open>The parts no stage touches\<close>

definition erase_stage :: "datagram_engine \<Rightarrow> datagram_engine" where
  "erase_stage e = e\<lparr>de_buckets := Map.empty,
     de_evidence := (de_evidence e)\<lparr>dv_configured_loss := 0, dv_duplicated_copies := 0,
       dv_corrupted_candidates := 0, dv_reorder_activations := 0, dv_fault_activations := [],
       dv_injected_delay_nanos := 0, dv_bandwidth_delay_nanos := 0\<rparr>\<rparr>"

definition stage_frame :: "datagram_engine \<Rightarrow> datagram_engine \<Rightarrow> bool" where
  "stage_frame e e' = (erase_stage e' = erase_stage e)"

lemma stage_frame_refl [simp]: "stage_frame e e"
  by (simp add: stage_frame_def)

lemma stage_frame_trans: "stage_frame e e' \<Longrightarrow> stage_frame e' e'' \<Longrightarrow> stage_frame e e''"
  by (simp add: stage_frame_def)

lemma stage_frame_fields:
  assumes "stage_frame e e'"
  shows "de_limits e' = de_limits e" "de_proxy e' = de_proxy e" "de_association e' = de_association e"
    "de_direction e' = de_direction e" "de_rng_version e' = de_rng_version e" "de_ordinal e' = de_ordinal e"
    "de_queue e' = de_queue e" "de_buckets_generation e' = de_buckets_generation e"
proof -
  have same: "erase_stage e' = erase_stage e" using assms by (simp add: stage_frame_def)
  show "de_limits e' = de_limits e" "de_proxy e' = de_proxy e" "de_association e' = de_association e"
    "de_direction e' = de_direction e" "de_rng_version e' = de_rng_version e" "de_ordinal e' = de_ordinal e"
    "de_queue e' = de_queue e" "de_buckets_generation e' = de_buckets_generation e"
    using arg_cong [OF same, of de_limits] arg_cong [OF same, of de_proxy] arg_cong [OF same, of de_association]
      arg_cong [OF same, of de_direction] arg_cong [OF same, of de_rng_version] arg_cong [OF same, of de_ordinal]
      arg_cong [OF same, of de_queue] arg_cong [OF same, of de_buckets_generation]
    unfolding erase_stage_def by simp_all
qed

lemma stage_frame_evidence:
  assumes "stage_frame e e'"
  shows "dv_queued_datagrams (de_evidence e') = dv_queued_datagrams (de_evidence e)"
    "dv_queued_bytes (de_evidence e') = dv_queued_bytes (de_evidence e)"
    "dv_high_water_datagrams (de_evidence e') = dv_high_water_datagrams (de_evidence e)"
    "dv_high_water_bytes (de_evidence e') = dv_high_water_bytes (de_evidence e)"
    "dv_emitted_datagrams (de_evidence e') = dv_emitted_datagrams (de_evidence e)"
    "dv_emitted_bytes (de_evidence e') = dv_emitted_bytes (de_evidence e)"
proof -
  have same: "erase_stage e' = erase_stage e" using assms by (simp add: stage_frame_def)
  show "dv_queued_datagrams (de_evidence e') = dv_queued_datagrams (de_evidence e)"
    "dv_queued_bytes (de_evidence e') = dv_queued_bytes (de_evidence e)"
    "dv_high_water_datagrams (de_evidence e') = dv_high_water_datagrams (de_evidence e)"
    "dv_high_water_bytes (de_evidence e') = dv_high_water_bytes (de_evidence e)"
    "dv_emitted_datagrams (de_evidence e') = dv_emitted_datagrams (de_evidence e)"
    "dv_emitted_bytes (de_evidence e') = dv_emitted_bytes (de_evidence e)"
    using arg_cong [OF same, of "\<lambda>e. dv_queued_datagrams (de_evidence e)"]
      arg_cong [OF same, of "\<lambda>e. dv_queued_bytes (de_evidence e)"]
      arg_cong [OF same, of "\<lambda>e. dv_high_water_datagrams (de_evidence e)"]
      arg_cong [OF same, of "\<lambda>e. dv_high_water_bytes (de_evidence e)"]
      arg_cong [OF same, of "\<lambda>e. dv_emitted_datagrams (de_evidence e)"]
      arg_cong [OF same, of "\<lambda>e. dv_emitted_bytes (de_evidence e)"]
    unfolding erase_stage_def by simp_all
qed

section \<open>Counting\<close>

text \<open>
  Every admitted or duplicated datagram is emitted, lost, refused, queued, or one of \<open>n\<close> others:
  those in flight and those a caller discarded. The counters saturate, so the balance is claimed below
  the saturation point.
\<close>

definition balanced :: "nat \<Rightarrow> datagram_evidence \<Rightarrow> bool" where
  "balanced n ev = (dv_admitted_datagrams ev + dv_duplicated_copies ev < U64_MAX \<longrightarrow>
     n + dv_emitted_datagrams ev + dv_configured_loss ev + dv_queue_overflow ev + dv_oversize_datagrams ev +
       dv_queued_datagrams ev = dv_admitted_datagrams ev + dv_duplicated_copies ev)"

lemma balanced_notes:
  "balanced n ev \<Longrightarrow> balanced (Suc n) (count_admitted k ev)"
  "balanced n ev \<Longrightarrow> balanced (Suc n) (note_duplicate ev)"
  "balanced (Suc n) ev \<Longrightarrow> balanced n (note_oversize ev)"
  "balanced (Suc n) ev \<Longrightarrow> balanced n (note_lost ev)"
  "balanced (Suc n) ev \<Longrightarrow> balanced n (note_overflow ev)"
  "balanced (Suc n) ev \<Longrightarrow> balanced n (note_queued k ev)"
  "balanced n ev \<Longrightarrow> 0 < dv_queued_datagrams ev \<Longrightarrow> balanced n (note_emitted k ev)"
  by (auto simp: balanced_def count_admitted_def note_duplicate_def note_oversize_def note_lost_def
      note_overflow_def note_queued_def note_emitted_def sat_add64_def Let_def)

lemma balanced_same [simp]:
  "balanced n (note_corrupted ev) = balanced n ev" "balanced n (note_activation k ev) = balanced n ev"
  by (simp_all add: balanced_def note_corrupted_def note_activation_def)

lemma balanced_delay [simp]: "balanced n (note_delay k d ev) = balanced n ev"
  by (cases k) (simp_all add: balanced_def)

definition item_bytes :: "in_flight \<Rightarrow> byte list" where
  "item_bytes item = fst (snd item)"

definition item_lengths :: "in_flight list \<Rightarrow> nat set" where
  "item_lengths items = (\<lambda>item. length (item_bytes item)) ` set items"

lemma item_lengths_append [simp]: "item_lengths (xs @ ys) = item_lengths xs \<union> item_lengths ys"
  by (auto simp: item_lengths_def)

definition flow :: "in_flight list \<Rightarrow> datagram_engine \<Rightarrow> in_flight list \<Rightarrow> datagram_engine \<Rightarrow> bool" where
  "flow items e out e' = (stage_frame e e' \<and>
     (\<forall>n. balanced (length items + n) (de_evidence e) \<longrightarrow> balanced (length out + n) (de_evidence e')) \<and>
     item_lengths out \<subseteq> item_lengths items)"

lemma flow_refl [simp]: "flow items e items e"
  by (simp add: flow_def)

lemma flow_trans: "flow items e o1 e1 \<Longrightarrow> flow o1 e1 o2 e2 \<Longrightarrow> flow items e o2 e2"
  by (auto simp: flow_def intro: stage_frame_trans)

lemma flow_append:
  assumes "flow xs e o1 e1" "flow ys e1 o2 e2"
  shows "flow (xs @ ys) e (o1 @ o2) e2"
proof -
  have "balanced (length (o1 @ o2) + n) (de_evidence e2)" if "balanced (length (xs @ ys) + n) (de_evidence e)" for n
  proof -
    have "balanced (length xs + (length ys + n)) (de_evidence e)" using that by (simp add: add.assoc)
    then have "balanced (length o1 + (length ys + n)) (de_evidence e1)" using assms(1) by (simp add: flow_def)
    then have "balanced (length ys + (length o1 + n)) (de_evidence e1)" by (simp add: add.left_commute)
    then have "balanced (length o2 + (length o1 + n)) (de_evidence e2)" using assms(2) by (simp add: flow_def)
    then show ?thesis by (simp add: add.assoc add.left_commute)
  qed
  then show ?thesis using assms by (auto simp: flow_def intro: stage_frame_trans)
qed

lemma flow_step:
  assumes "stage_frame e e'" "\<And>n. balanced (Suc n) (de_evidence e) \<Longrightarrow> balanced (length out + n) (de_evidence e')"
    and "\<And>x. x \<in> set out \<Longrightarrow> length (item_bytes x) = length (item_bytes item)"
  shows "flow [item] e out e'"
  using assms by (auto simp: flow_def item_lengths_def)

lemma count_evidence_fields [simp]:
  "de_evidence (count_evidence f e) = f (de_evidence e)" "de_queue (count_evidence f e) = de_queue e"
  "de_limits (count_evidence f e) = de_limits e" "de_ordinal (count_evidence f e) = de_ordinal e"
  "de_buckets (count_evidence f e) = de_buckets e"
  by (simp_all add: count_evidence_def)

lemma stage_frame_notes [simp]:
  "stage_frame e (count_evidence note_lost e)" "stage_frame e (count_evidence note_duplicate e)"
  "stage_frame e (count_evidence note_corrupted e)" "stage_frame e (count_evidence (note_activation k) e)"
  by (simp_all add: stage_frame_def erase_stage_def count_evidence_def note_lost_def note_duplicate_def
      note_corrupted_def note_activation_def)

lemma stage_frame_delay [simp]: "stage_frame e (count_evidence (note_delay k d) e)"
  by (cases k) (simp_all add: stage_frame_def erase_stage_def count_evidence_def)

lemma flow_activation: "flow items e items (count_evidence (note_activation k) e)"
  by (simp add: flow_def)

lemma bandwidth_delay_evidence:
  assumes "bandwidth_delay fid now n rate burst e = (d, e')"
  shows "stage_frame e e'" "de_evidence e' = de_evidence e"
  using assms by (auto simp: stage_frame_def erase_stage_def bandwidth_delay_def split_def Let_def)

lemma corrupt_loop_length [simp]: "length (fst (corrupt_loop i k v rng)) = length v"
  by (induction k arbitrary: i v rng) (simp_all add: split_def Let_def swap_at_def)

lemma duplicate_loop_flow:
  "duplicate_loop k bytes d nc e = (items, nc', e') \<Longrightarrow>
     stage_frame e e' \<and> length items = k \<and> (\<forall>x \<in> set items. item_bytes x = bytes) \<and>
     (\<forall>n. balanced n (de_evidence e) \<longrightarrow> balanced (k + n) (de_evidence e'))"
proof (induction k arbitrary: nc e items)
  case (Suc k)
  then obtain its where d: "duplicate_loop k bytes d (sat_succ16 nc) (count_evidence note_duplicate e) = (its, nc', e')"
    and i: "items = (nc, bytes, d) # its" by (auto simp: Let_def split: prod.splits)
  note ih = Suc.IH [OF d]
  have "balanced (Suc k + n) (de_evidence e')" if "balanced n (de_evidence e)" for n
    using ih balanced_notes(2) [OF that] by (metis add_Suc_shift count_evidence_fields(1))
  then show ?case using ih i stage_frame_trans [OF stage_frame_notes(2)] by (auto simp: item_bytes_def)
qed simp

lemma apply_stage_flow:
  assumes "apply_stage fid k now rng item nc e = (out, nc', e')"
  shows "flow [item] e out e'"
proof (cases item)
  case item: (fields copy bytes d)
  show ?thesis
  proof (cases k)
    case Loss
    then show ?thesis using assms item by (intro flow_step) (auto simp: balanced_notes)
  next
    case (Duplicate c)
    then obtain its where i: "duplicate_loop c bytes d nc e = (its, nc', e')" "out = item # its"
      using assms item by (auto simp: Let_def split: prod.splits)
    note dup = duplicate_loop_flow [OF i(1)]
    have "balanced (length out + n) (de_evidence e')" if "balanced (Suc n) (de_evidence e)" for n
      using dup that i(2) by (metis add_Suc_right add_Suc_shift length_Cons)
    then show ?thesis using dup i(2) item by (intro flow_step) (auto simp: item_bytes_def)
  next
    case (DatagramBandwidth rate burst)
    then obtain added e1 where b: "bandwidth_delay fid now (length bytes) rate burst e = (added, e1)"
      "e' = count_evidence (note_delay k added) e1" "out = [(copy, bytes, duration_saturating_add d added)]"
      using assms item by (auto simp: Let_def split: prod.splits)
    then show ?thesis using bandwidth_delay_evidence [OF b(1)] item
      by (intro flow_step) (auto simp: item_bytes_def intro: stage_frame_trans)
  qed (use assms item in \<open>auto intro!: flow_step simp: item_bytes_def Let_def
      simp del: note_delay.simps split: if_splits\<close>)
qed

lemma stage_items_flow: "stage_items ns now ord st f items nc e = (out, nc', e') \<Longrightarrow> flow items e out e'"
proof (induction items arbitrary: nc e out)
  case (Cons item items)
  obtain hit rng where b: "bernoulli (df_probability f) (rng_new (stage_seed ns ord st (fst item) (df_id f) e)) = (hit, rng)"
    by fastforce
  obtain o1 nc1 e1 where s: "(if hit then apply_stage (df_id f) (df_kind f) now rng item nc
      (count_evidence (note_activation (df_kind f)) e) else ([item], nc, e)) = (o1, nc1, e1)" by (metis prod_cases3)
  have f1: "flow [item] e o1 e1"
    using s by (cases hit) (auto dest!: apply_stage_flow intro: flow_trans [OF flow_activation])
  obtain o2 where "stage_items ns now ord st f items nc1 e1 = (o2, nc', e')" "out = o1 @ o2"
    using Cons.prems b s by (auto simp: Let_def split: prod.splits)
  with flow_append [OF f1 Cons.IH] show ?case by fastforce
qed simp

lemma run_stages_flow: "run_stages ns now ord st fs items nc e = (out, e') \<Longrightarrow> flow items e out e'"
proof (induction fs arbitrary: st items nc e)
  case (Cons f fs)
  obtain o1 nc1 e1 where s: "stage_items ns now ord st f items nc e = (o1, nc1, e1)" by (metis prod_cases3)
  with Cons have "flow o1 e1 out e'" by (auto simp: Let_def)
  then show ?case by (rule flow_trans [OF stage_items_flow [OF s]])
qed simp

section \<open>Copy indices\<close>

text \<open>The copies in flight carry distinct indices below the next one.\<close>

definition copies_ok :: "in_flight list \<Rightarrow> nat \<Rightarrow> bool" where
  "copies_ok items nc = (distinct (map fst items) \<and> fst ` set items \<subseteq> {..<nc})"

definition fresh_copies :: "nat \<Rightarrow> in_flight list \<Rightarrow> nat \<Rightarrow> in_flight list \<Rightarrow> nat \<Rightarrow> bool" where
  "fresh_copies extra items nc out nc' = (nc \<le> nc' \<and> nc' \<le> nc + extra * length items \<and>
     fst ` set out \<subseteq> fst ` set items \<union> {nc..<nc'} \<and> (copies_ok items nc \<longrightarrow> distinct (map fst out)))"

lemma copies_ok_length: "copies_ok items nc \<Longrightarrow> length items \<le> nc"
  unfolding copies_ok_def
  by (metis card_lessThan card_mono distinct_card finite_lessThan length_map list.set_map)

lemma fresh_copies_ok: "fresh_copies extra items nc out nc' \<Longrightarrow> copies_ok items nc \<Longrightarrow> copies_ok out nc'"
  by (fastforce simp: fresh_copies_def copies_ok_def)

lemma fresh_copies_refl [simp]: "fresh_copies extra items nc items nc"
  by (simp add: fresh_copies_def copies_ok_def)

lemma duplicate_loop_copies:
  "duplicate_loop k bytes d nc e = (items, nc', e') \<Longrightarrow> nc + k \<le> U16_MAX \<Longrightarrow>
     map fst items = [nc..<nc + k] \<and> nc' = nc + k"
proof (induction k arbitrary: nc e items)
  case (Suc k)
  then obtain its where d: "duplicate_loop k bytes d (sat_succ16 nc) (count_evidence note_duplicate e) = (its, nc', e')"
    and i: "items = (nc, bytes, d) # its" by (auto simp: Let_def split: prod.splits)
  have "sat_succ16 nc = Suc nc" using Suc.prems(2) by (simp add: sat_succ16_def)
  with Suc.IH [OF d] Suc.prems(2) i show ?case by (auto simp: upt_conv_Cons)
qed simp

lemma apply_stage_copies:
  assumes "apply_stage fid k now rng item nc e = (out, nc', e')" "nc + (stage_factor k - 1) \<le> U16_MAX"
  shows "fresh_copies (stage_factor k - 1) [item] nc out nc' \<and> length out \<le> stage_factor k"
proof (cases item)
  case item: (fields copy bytes d)
  show ?thesis
  proof (cases k)
    case (Duplicate c)
    then obtain its where i: "duplicate_loop c bytes d nc e = (its, nc', e')" "out = item # its"
      using assms item by (auto simp: Let_def split: prod.splits)
    have m: "map fst its = [nc..<nc + c]" "nc' = nc + c"
      using duplicate_loop_copies [OF i(1)] assms(2) Duplicate by simp_all
    then have "fst ` set its = {nc..<nc + c}" "length its = c"
      using arg_cong [OF m(1), of set] arg_cong [OF m(1), of length] unfolding set_map length_map by simp_all
    then show ?thesis using m i(2) Duplicate by (auto simp: fresh_copies_def copies_ok_def)
  next
    case (DatagramBandwidth rate burst)
    then show ?thesis using assms item by (auto simp: fresh_copies_def Let_def split: prod.splits)
  qed (use assms item in \<open>auto simp: fresh_copies_def Let_def split: if_splits\<close>)
qed

lemma fresh_copies_append:
  assumes "fresh_copies extra [item] nc o1 nc1" "fresh_copies extra items nc1 o2 nc2"
  shows "fresh_copies extra (item # items) nc (o1 @ o2) nc2"
proof -
  have "distinct (map fst (o1 @ o2))" if ok: "copies_ok (item # items) nc"
  proof -
    have "copies_ok [item] nc" "copies_ok items nc1" "fst item \<notin> fst ` set items" "fst item < nc"
      "fst ` set items \<subseteq> {..<nc}"
      using ok assms(1) by (auto simp: copies_ok_def fresh_copies_def)
    then have "distinct (map fst o1)" "distinct (map fst o2)" "fst ` set o1 \<subseteq> {fst item} \<union> {nc..<nc1}"
      "fst ` set o2 \<subseteq> fst ` set items \<union> {nc1..<nc2}" using assms by (simp_all add: fresh_copies_def)
    moreover have "({fst item} \<union> {nc..<nc1}) \<inter> (fst ` set items \<union> {nc1..<nc2}) = {}"
      using \<open>fst item \<notin> _\<close> \<open>fst item < nc\<close> \<open>_ \<subseteq> {..<nc}\<close> assms(1) by (auto simp: fresh_copies_def)
    ultimately have "fst ` set o1 \<inter> fst ` set o2 = {}" "distinct (map fst o1)" "distinct (map fst o2)" by blast+
    then show ?thesis by simp
  qed
  then show ?thesis using assms by (auto simp: fresh_copies_def)
qed

lemma stage_items_copies:
  "stage_items ns now ord st f items nc e = (out, nc', e') \<Longrightarrow>
     nc + (stage_factor (df_kind f) - 1) * length items \<le> U16_MAX \<Longrightarrow>
     fresh_copies (stage_factor (df_kind f) - 1) items nc out nc' \<and> length out \<le> stage_factor (df_kind f) * length items"
proof (induction items arbitrary: nc e out)
  case Nil
  then show ?case by (simp add: fresh_copies_def copies_ok_def)
next
  case (Cons item items)
  let ?x = "stage_factor (df_kind f) - 1"
  obtain hit rng where b: "bernoulli (df_probability f) (rng_new (stage_seed ns ord st (fst item) (df_id f) e)) = (hit, rng)"
    by fastforce
  obtain o1 nc1 e1 where s: "(if hit then apply_stage (df_id f) (df_kind f) now rng item nc
      (count_evidence (note_activation (df_kind f)) e) else ([item], nc, e)) = (o1, nc1, e1)" by (metis prod_cases3)
  have "nc + ?x \<le> U16_MAX" using Cons.prems(2) by simp
  then have f1: "fresh_copies ?x [item] nc o1 nc1 \<and> length o1 \<le> stage_factor (df_kind f)"
    using s stage_factor_pos [of "df_kind f"]
    by (cases hit) (auto dest: apply_stage_copies)
  obtain o2 where o2: "stage_items ns now ord st f items nc1 e1 = (o2, nc', e')" "out = o1 @ o2"
    using Cons.prems b s by (auto simp: Let_def split: prod.splits)
  have "nc1 + ?x * length items \<le> U16_MAX" using f1 Cons.prems(2) by (simp add: fresh_copies_def)
  with Cons.IH [OF o2(1)] f1 fresh_copies_append [of ?x item nc o1 nc1 items o2 nc'] show ?case
    using o2(2) by simp
qed

lemma run_stages_copies:
  assumes "run_stages ns now ord st fs items nc e = (out, e')" "copies_ok items nc"
    and "nc * amplification fs \<le> U16_MAX"
  shows "distinct (map fst out) \<and> length out \<le> nc * amplification fs"
  using assms
proof (induction fs arbitrary: st items nc e)
  case Nil
  then show ?case using copies_ok_length by (simp add: copies_ok_def)
next
  case (Cons f fs)
  let ?k = "stage_factor (df_kind f)"
  obtain o1 nc1 e1 where s: "stage_items ns now ord st f items nc e = (o1, nc1, e1)" by (metis prod_cases3)
  have len: "length items \<le> nc" using copies_ok_length [OF Cons.prems(2)] .
  have "nc + (?k - 1) * length items \<le> nc + (?k - 1) * nc" using len by simp
  also have "\<dots> = nc * ?k" using stage_factor_pos [of "df_kind f"] by (cases ?k) simp_all
  finally have grow: "nc + (?k - 1) * length items \<le> nc * ?k" .
  have "nc * ?k \<le> nc * ?k * amplification fs" using amplification_pos [of fs] by simp
  with grow Cons.prems(3) have "nc + (?k - 1) * length items \<le> U16_MAX"
    by (simp only: amplification_simps mult.assoc)
  then have fr: "fresh_copies (?k - 1) items nc o1 nc1" using stage_items_copies [OF s] by blast
  have "nc1 \<le> nc * ?k" using fr grow by (simp add: fresh_copies_def)
  then have "nc1 * amplification fs \<le> nc * amplification (f # fs)"
    by (simp add: mult.assoc [symmetric])
  moreover have "run_stages ns now ord (Suc st) fs o1 nc1 e1 = (out, e')" using Cons.prems(1) s by simp
  ultimately show ?case using Cons.IH [OF _ fresh_copies_ok [OF fr Cons.prems(2)]] Cons.prems(3)
    by (meson order_trans)
qed

section \<open>Corrupted payloads\<close>

definition one_bit_flipped :: "byte \<Rightarrow> byte \<Rightarrow> bool" where
  "one_bit_flipped x y = list_ex (\<lambda>b. y = x XOR push_bit b 1) [0..<8]"

text \<open>\<open>w\<close> is \<open>p\<close> with one bit flipped in each of the positions \<open>i, ..., i + k - 1\<close>.\<close>

definition flipped_between :: "nat \<Rightarrow> nat \<Rightarrow> byte list \<Rightarrow> byte list \<Rightarrow> bool" where
  "flipped_between i k p w = (length w = length p \<and>
     (\<forall>j < length p. if i \<le> j \<and> j < i + k then one_bit_flipped (p ! j) (w ! j) else w ! j = p ! j))"

lemma one_bit_flipped_below: "one_bit_flipped x (x XOR push_bit (fst (below 8 rng)) 1)"
  using below_less [of 8 rng] by (auto simp: one_bit_flipped_def list_ex_iff)

lemma push_bit_one_nonzero: "b < 8 \<Longrightarrow> push_bit b (1 :: byte) \<noteq> 0"
proof
  assume "b < 8" "push_bit b (1 :: byte) = 0"
  then have "\<not> bit (push_bit b (1 :: byte)) b" by (simp only: bit_0_eq bot_apply bot_bool_def) simp
  moreover have "bit (push_bit b (1 :: byte)) b" using \<open>b < 8\<close> unfolding bit_push_bit_iff by simp
  ultimately show False by blast
qed

lemma one_bit_flipped_differs: "one_bit_flipped x y \<Longrightarrow> y \<noteq> x"
proof -
  assume "one_bit_flipped x y"
  then obtain b where "b < 8" "y = x XOR push_bit b 1" by (auto simp: one_bit_flipped_def list_ex_iff)
  then show ?thesis using push_bit_one_nonzero by (metis xor.assoc xor_self_eq xor.left_neutral)
qed

lemma add_mset_left_cancel: "add_mset x M = add_mset y M \<Longrightarrow> x = y"
  by (drule arg_cong [of _ _ "\<lambda>N. count N x"]) (simp split: if_splits)

lemma mset_swap_at: "i < length v \<Longrightarrow> j < length v \<Longrightarrow> mset (swap_at i j v) = mset v"
  using mset_swap [of j v i] by (simp add: swap_at_def)

lemma corrupt_loop_shape:
  "i + k \<le> length v \<Longrightarrow> corrupt_loop i k v rng = (w, rng') \<Longrightarrow>
     \<exists>p. mset p = mset v \<and> take i p = take i v \<and> flipped_between i k p w"
proof (induction k arbitrary: i v rng)
  case 0
  then show ?case by (auto simp: flipped_between_def)
next
  case (Suc k)
  obtain off rng1 where off: "below (length v - i) rng = (off, rng1)" by fastforce
  obtain b rng2 where b: "below 8 rng1 = (b, rng2)" by fastforce
  define v1 where "v1 = swap_at i (i + off) v"
  define v2 where "v2 = v1[i := v1 ! i XOR push_bit b 1]"
  have i: "i < length v" using Suc.prems(1) by simp
  then have "off < length v - i" using below_less [of "length v - i" rng] off by simp
  then have m1: "mset v1 = mset v" "length v1 = length v" "take i v1 = take i v"
    using i mset_swap_at [of i v "i + off"] by (auto simp: v1_def swap_at_def)
  have w: "corrupt_loop (Suc i) k v2 rng2 = (w, rng')"
    using Suc.prems(2) off b by (simp add: v1_def v2_def Let_def)
  have "Suc i + k \<le> length v2" using Suc.prems(1) m1 by (simp add: v2_def)
  from Suc.IH [OF this w] obtain p2 where p2: "mset p2 = mset v2" "take (Suc i) p2 = take (Suc i) v2"
    "flipped_between (Suc i) k p2 w" by blast
  have len: "length p2 = length v" using arg_cong [OF p2(1), of size] m1 by (simp add: v2_def)
  have at_i: "p2 ! i = v1 ! i XOR push_bit b 1"
    using arg_cong [OF p2(2), of "\<lambda>xs. xs ! i"] i m1 len by (simp add: v2_def)
  define p where "p = p2[i := v1 ! i]"
  have "mset p = add_mset (v1 ! i) (mset v2 - {#v2 ! i#})"
    using len i at_i p2(1) m1 by (simp add: p_def mset_update v2_def)
  also have "\<dots> = mset (v2[i := v1 ! i])" 
    by (rule mset_update [symmetric]) (use i m1 in \<open>simp add: v2_def\<close>)
  also have "v2[i := v1 ! i] = v1" by (simp add: v2_def)
  finally have mp: "mset p = mset v" using m1 by simp
  have "take i p = take i v2"
    using arg_cong [OF p2(2), of "take i"] by (simp add: p_def min_absorb1)
  then have tp: "take i p = take i v" using m1 by (simp add: v2_def)
  have "one_bit_flipped (v1 ! i) (p2 ! i)" using one_bit_flipped_below [of "v1 ! i" rng1] b at_i by simp
  moreover have "w ! i = p2 ! i" using p2(3) i len by (simp add: flipped_between_def)
  ultimately have "flipped_between i (Suc k) p w"
    using p2(3) i len by (auto simp: flipped_between_def p_def nth_list_update Suc_le_eq)
  with mp tp show ?case by blast
qed

lemma corrupt_shape:
  assumes "corrupt_loop 0 (min n (length v)) v rng = (w, rng')"
  obtains p where "mset p = mset v" "flipped_between 0 (min n (length v)) p w"
  using corrupt_loop_shape [OF _ assms] by auto

lemma corrupt_one_differs:
  assumes "corrupt_loop 0 (min 1 (length v)) v rng = (w, rng')" "v \<noteq> []"
  shows "w \<noteq> v"
proof
  assume "w = v"
  have one: "min 1 (length v) = 1" using assms(2) by (cases v) auto
  obtain p where p: "mset p = mset v" "flipped_between 0 1 p w"
    using corrupt_shape [OF assms(1)] one by metis
  have len: "length p = length v" "length w = length p" using p(2) mset_eq_length [OF p(1)] by (simp_all add: flipped_between_def)
  have pos: "0 < length p" using len(1) assms(2) by simp
  have "w = p[0 := w ! 0]"
  proof (rule nth_equalityI)
    fix j assume "j < length w"
    then show "w ! j = p[0 := w ! 0] ! j" using p(2) len by (cases j) (simp_all add: flipped_between_def)
  qed (simp add: len)
  then have "mset w = add_mset (w ! 0) (mset p - {#p ! 0#})" using mset_update [OF pos] by metis
  with \<open>w = v\<close> p(1) have "mset p = add_mset (w ! 0) (mset p - {#p ! 0#})" by simp
  moreover have "add_mset (p ! 0) (mset p - {#p ! 0#}) = mset p" using pos by simp
  ultimately have "add_mset (w ! 0) (mset p - {#p ! 0#}) = add_mset (p ! 0) (mset p - {#p ! 0#})" by metis
  then have "w ! 0 = p ! 0" by (rule add_mset_left_cancel)
  moreover have "one_bit_flipped (p ! 0) (w ! 0)" using p(2) pos by (auto simp: flipped_between_def)
  ultimately show False using one_bit_flipped_differs by blast
qed

end
