(* ===== verification/DatagramQueue.thy ===== *)
theory DatagramQueue
  imports DatagramStages
begin

text \<open>
  The deadline queue and the invariant of a datagram engine. \<open>deadline_queue\<close> is the interface the
  engine uses of its heap; what a drain returns is proved once from it, for every implementation.
  \<open>datagram_wf\<close> is the invariant every operation keeps: the queue is ordered and within its limits,
  and the occupancy counters are exact.
\<close>

section \<open>The interface of the heap\<close>

inductive drains :: "('q \<Rightarrow> candidate option) \<Rightarrow> ('q \<Rightarrow> 'q) \<Rightarrow> instant \<Rightarrow> 'q \<Rightarrow> candidate list \<Rightarrow> 'q \<Rightarrow> bool"
  for peek pop now where
  drained: "(\<And>c. peek q = Some c \<Longrightarrow> now < cd_at c) \<Longrightarrow> drains peek pop now q [] q"
| drain: "peek q = Some c \<Longrightarrow> cd_at c \<le> now \<Longrightarrow> drains peek pop now (pop q) out q' \<Longrightarrow>
    drains peek pop now q (c # out) q'"

locale deadline_queue =
  fixes push :: "candidate \<Rightarrow> 'q \<Rightarrow> 'q"
    and peek :: "'q \<Rightarrow> candidate option"
    and pop :: "'q \<Rightarrow> 'q"
    and items :: "'q \<Rightarrow> candidate multiset"
    and ordered :: "'q \<Rightarrow> bool"
  assumes push_items: "ordered q \<Longrightarrow> items (push c q) = add_mset c (items q)"
    and push_ordered: "ordered q \<Longrightarrow> ordered (push c q)"
    and peek_none: "ordered q \<Longrightarrow> peek q = None \<Longrightarrow> items q = {#}"
    and peek_member: "ordered q \<Longrightarrow> peek q = Some c \<Longrightarrow> c \<in># items q"
    and peek_least: "ordered q \<Longrightarrow> peek q = Some c \<Longrightarrow> d \<in># items q \<Longrightarrow> candidate_key c \<le> candidate_key d"
    and pop_items: "ordered q \<Longrightarrow> peek q = Some c \<Longrightarrow> items (pop q) = items q - {#c#}"
    and pop_ordered: "ordered q \<Longrightarrow> peek q = Some c \<Longrightarrow> ordered (pop q)"
begin

lemma key_le_at: "candidate_key c \<le> candidate_key d \<Longrightarrow> cd_at c \<le> cd_at d"
  by (auto simp: candidate_key_def less_eq_prod_def)

lemma drains_exact:
  "drains peek pop now q out q' \<Longrightarrow> ordered q \<Longrightarrow>
     ordered q' \<and> sorted (map candidate_key out) \<and>
     mset out = filter_mset (\<lambda>c. cd_at c \<le> now) (items q) \<and>
     items q' = filter_mset (\<lambda>c. now < cd_at c) (items q)"
proof (induction rule: drains.induct)
  case (drained q)
  have late: "now < cd_at d" if d: "d \<in># items q" for d
  proof (cases "peek q")
    case None
    then show ?thesis using peek_none [OF drained.prems] d by simp
  next
    case (Some c)
    have "cd_at c \<le> cd_at d" using key_le_at peek_least [OF drained.prems Some d] .
    then show ?thesis using drained.hyps [OF Some] by simp
  qed
  have "filter_mset (\<lambda>c. cd_at c \<le> now) (items q) = filter_mset (\<lambda>c. False) (items q)"
    "filter_mset (\<lambda>c. now < cd_at c) (items q) = filter_mset (\<lambda>c. True) (items q)"
    by (rule filter_mset_cong; use late in \<open>fastforce simp: not_le\<close>)+
  then show ?case using drained.prems by simp
next
  case (drain q c out q')
  have pop: "ordered (pop q)" "items (pop q) = items q - {#c#}" "c \<in># items q"
    using drain.hyps(1) drain.prems by (simp_all add: pop_items pop_ordered peek_member)
  then have q: "items q = add_mset c (items (pop q))" by simp
  have "candidate_key c \<le> candidate_key d" if "d \<in> set out" for d
  proof -
    have "set out = set_mset (filter_mset (\<lambda>c. cd_at c \<le> now) (items (pop q)))"
      using drain.IH [OF pop(1)] by (metis set_mset_mset)
    then have "d \<in># items (pop q)" using that by simp
    then show ?thesis using peek_least [OF drain.prems drain.hyps(1)] q by simp
  qed
  then show ?case using drain.IH [OF pop(1)] drain.hyps(2) q by auto
qed

end

text \<open>Two ordered lists of the same candidates with distinct keys are equal.\<close>

lemma sorted_keys_unique:
  assumes "mset xs = mset ys" "sorted (map f xs)" "sorted (map f ys)" "inj_on f (set xs)"
  shows "xs = ys"
proof -
  have "mset (map f xs) = mset (map f ys)" using assms(1) by (metis mset_map)
  then have "map f xs = map f ys" using assms(2,3) by (metis properties_for_sort)
  moreover have "set xs = set ys" using assms(1) by (rule mset_eq_setD)
  ultimately show ?thesis using assms(4) by (simp add: map_inj_on)
qed

interpretation heap: deadline_queue heap_push heap_peek heap_pop mset "\<lambda>q. sorted (map candidate_key q)"
proof (unfold_locales, goal_cases)
  case (3 q)
  then show ?case by (cases q) simp_all
next
  case (4 q c)
  then show ?case by (cases q) simp_all
next
  case (5 q c d)
  then show ?case by (cases q) auto
next
  case (6 q c)
  then show ?case by (cases q) simp_all
next
  case (7 q c)
  then show ?case by (cases q) simp_all
qed (simp_all add: heap_push_def sorted_insort_key)

lemma pop_ready_drains:
  "pop_ready now q ev = (out, q', ev') \<Longrightarrow>
     \<exists>cs. drains heap_peek heap_pop now q cs q' \<and> out = map scheduled_of cs \<and>
       ev' = fold (\<lambda>c. note_emitted (length (cd_payload c))) cs ev"
proof (induction q arbitrary: ev out)
  case Nil
  then show ?case by (auto intro: drains.drained)
next
  case (Cons c q)
  show ?case
  proof (cases "cd_at c \<le> now")
    case True
    then obtain out1 where "pop_ready now q (note_emitted (length (cd_payload c)) ev) = (out1, q', ev')"
      "out = scheduled_of c # out1" using Cons.prems by (auto simp: Let_def split: prod.splits)
    from Cons.IH [OF this(1)] this(2) show ?thesis
      using drains.drain [of heap_peek "c # q" c now heap_pop] True by fastforce
  next
    case False
    then show ?thesis using Cons.prems by (auto intro: drains.drained)
  qed
qed

lemma take_ready_drains:
  assumes "take_ready now e = (out, e')"
  obtains cs where "drains heap_peek heap_pop now (de_queue e) cs (de_queue e')" "out = map scheduled_of cs"
    "e' = e\<lparr>de_queue := de_queue e', de_evidence := fold (\<lambda>c. note_emitted (length (cd_payload c))) cs (de_evidence e)\<rparr>"
proof -
  obtain o1 q ev where p: "pop_ready now (de_queue e) (de_evidence e) = (o1, q, ev)" by (metis prod_cases3)
  with assms have "out = o1" "e' = e\<lparr>de_queue := q, de_evidence := ev\<rparr>" by (simp_all add: take_ready_def)
  with pop_ready_drains [OF p] that show thesis by auto
qed

section \<open>The invariant\<close>

definition queue_load :: "candidate list \<Rightarrow> nat" where
  "queue_load q = (\<Sum>c\<leftarrow>q. length (cd_payload c))"

definition limits_ok :: "datagram_queue_limits \<Rightarrow> bool" where
  "limits_ok l = (max_queued_datagrams l \<le> 1000000 \<and> max_queued_bytes l \<le> 1073741824 \<and> max_datagram_bytes l \<le> 65535)"

text \<open>
  The occupancy counters agree with \<open>n\<close> queued datagrams of \<open>b\<close> bytes, and stay within the limits;
  the emission counters are 64-bit values.
\<close>

definition occupancy :: "datagram_queue_limits \<Rightarrow> nat \<Rightarrow> nat \<Rightarrow> datagram_evidence \<Rightarrow> bool" where
  "occupancy l n b ev = (dv_queued_datagrams ev = n \<and> dv_queued_bytes ev = b \<and>
     n \<le> dv_high_water_datagrams ev \<and> dv_high_water_datagrams ev \<le> max_queued_datagrams l \<and>
     b \<le> dv_high_water_bytes ev \<and> dv_high_water_bytes ev \<le> max_queued_bytes l \<and>
     dv_emitted_datagrams ev \<le> U64_MAX \<and> dv_emitted_bytes ev \<le> U64_MAX)"

definition datagram_wf :: "datagram_engine \<Rightarrow> bool" where
  "datagram_wf e = (limits_ok (de_limits e) \<and> sorted (map candidate_key (de_queue e)) \<and>
     list_all (\<lambda>c. length (cd_payload c) \<le> max_datagram_bytes (de_limits e)) (de_queue e) \<and>
     occupancy (de_limits e) (length (de_queue e)) (queue_load (de_queue e)) (de_evidence e))"

lemma small_sums:
  "limits_ok l \<Longrightarrow> n \<le> max_queued_datagrams l \<Longrightarrow> n + 1 \<le> U64_MAX"
  "limits_ok l \<Longrightarrow> b \<le> max_queued_bytes l \<Longrightarrow> k \<le> max_datagram_bytes l \<Longrightarrow> b + k \<le> U64_MAX"
  by (simp_all add: limits_ok_def U64_MAX_def)

lemma occupancy_queued:
  assumes "occupancy l n b ev" "n + 1 \<le> max_queued_datagrams l" "b + k \<le> max_queued_bytes l" "limits_ok l"
  shows "occupancy l (n + 1) (b + k) (note_queued k ev)"
    "dv_high_water_datagrams (note_queued k ev) = max (dv_high_water_datagrams ev) (n + 1)"
    "dv_high_water_bytes (note_queued k ev) = max (dv_high_water_bytes ev) (b + k)"
proof -
  have "n + 1 \<le> U64_MAX" "b + k \<le> U64_MAX" using assms(2-4) by (simp_all add: limits_ok_def U64_MAX_def)
  then show "occupancy l (n + 1) (b + k) (note_queued k ev)"
    "dv_high_water_datagrams (note_queued k ev) = max (dv_high_water_datagrams ev) (n + 1)"
    "dv_high_water_bytes (note_queued k ev) = max (dv_high_water_bytes ev) (b + k)"
    using assms(1-3) by (auto simp: occupancy_def note_queued_def Let_def sat_add64_def)
qed

lemma occupancy_emitted: "occupancy l (n + 1) (b + k) ev \<Longrightarrow> occupancy l n b (note_emitted k ev)"
  by (auto simp: occupancy_def note_emitted_def)

lemma high_water_emitted [simp]:
  "dv_high_water_datagrams (note_emitted k ev) = dv_high_water_datagrams ev"
  "dv_high_water_bytes (note_emitted k ev) = dv_high_water_bytes ev"
  by (simp_all add: note_emitted_def)

lemma occupancy_unchanged [simp]:
  "occupancy l n b (count_admitted k ev) = occupancy l n b ev" "occupancy l n b (note_oversize ev) = occupancy l n b ev"
  "occupancy l n b (note_overflow ev) = occupancy l n b ev"
  by (simp_all add: occupancy_def count_admitted_def note_oversize_def note_overflow_def)

lemma occupancy_fits:
  assumes "datagram_wf e" "queue_fits k e" "k \<le> max_datagram_bytes (de_limits e)"
  shows "length (de_queue e) + 1 \<le> max_queued_datagrams (de_limits e)"
    "queue_load (de_queue e) + k \<le> max_queued_bytes (de_limits e)"
proof -
  have "dv_queued_bytes (de_evidence e) = queue_load (de_queue e)" "queue_load (de_queue e) \<le> max_queued_bytes (de_limits e)"
    "limits_ok (de_limits e)" using assms(1) by (auto simp: datagram_wf_def occupancy_def)
  moreover from this have "queue_load (de_queue e) + k \<le> U64_MAX" using small_sums(2) assms(3) by blast
  ultimately show "length (de_queue e) + 1 \<le> max_queued_datagrams (de_limits e)"
    "queue_load (de_queue e) + k \<le> max_queued_bytes (de_limits e)"
    using assms(2) by (simp_all add: queue_fits_def sat_add64_def)
qed

lemma queue_load_push [simp]: "queue_load (heap_push c q) = queue_load q + length (cd_payload c)"
  by (induction q) (auto simp: heap_push_def queue_load_def)

lemma length_push [simp]: "length (heap_push c q) = Suc (length q)"
  by (simp add: heap_push_def)

lemma set_push [simp]: "set (heap_push c q) = insert c (set q)"
  by (simp add: heap_push_def set_insort_key)

lemma enqueue_wf:
  assumes "datagram_wf e" "queue_fits (length payload) e" "length payload \<le> max_datagram_bytes (de_limits e)"
  shows "datagram_wf (enqueue release ord copy payload gen e)"
proof -
  note fits = occupancy_fits [OF assms]
  have wf: "limits_ok (de_limits e)" "occupancy (de_limits e) (length (de_queue e)) (queue_load (de_queue e)) (de_evidence e)"
    using assms(1) by (simp_all add: datagram_wf_def)
  note occupancy_queued(1) [OF wf(2) fits wf(1)]
  then show ?thesis using assms(1,3) heap.push_ordered
    by (auto simp: datagram_wf_def enqueue_def list_all_iff)
qed

section \<open>Operations keep the invariant\<close>

lemma drains_occupancy:
  "drains heap_peek heap_pop now q cs q' \<Longrightarrow> occupancy l (length q) (queue_load q) ev \<Longrightarrow>
     occupancy l (length q') (queue_load q') (fold (\<lambda>c. note_emitted (length (cd_payload c))) cs ev)"
proof (induction arbitrary: ev rule: drains.induct)
  case (drain q c out q')
  then obtain q1 where q: "q = c # q1" by (cases q) auto
  have "occupancy l (length q1) (queue_load q1) (note_emitted (length (cd_payload c)) ev)"
    using drain.prems q occupancy_emitted [of l "length q1" "queue_load q1" "length (cd_payload c)" ev]
    by (simp add: queue_load_def add.commute)
  then show ?case using drain.IH q by simp
qed simp

lemma take_ready_wf:
  assumes "datagram_wf e" "take_ready now e = (out, e')"
  shows "datagram_wf e'"
proof -
  obtain cs where cs: "drains heap_peek heap_pop now (de_queue e) cs (de_queue e')"
    "e' = e\<lparr>de_queue := de_queue e', de_evidence := fold (\<lambda>c. note_emitted (length (cd_payload c))) cs (de_evidence e)\<rparr>"
    using take_ready_drains [OF assms(2)] by metis
  have wf: "sorted (map candidate_key (de_queue e))" "occupancy (de_limits e) (length (de_queue e)) (queue_load (de_queue e)) (de_evidence e)"
    using assms(1) by (simp_all add: datagram_wf_def)
  have "set (de_queue e') \<subseteq> set (de_queue e)"
    using heap.drains_exact [OF cs(1) wf(1)] by (metis filter_mset_eq_conv set_mset_mset set_mset_mono multiset_filter_subset)
  moreover have "sorted (map candidate_key (de_queue e'))" using heap.drains_exact [OF cs(1) wf(1)] by blast
  moreover have "de_limits e' = de_limits e" "de_evidence e' = fold (\<lambda>c. note_emitted (length (cd_payload c))) cs (de_evidence e)"
    using arg_cong [OF cs(2), of de_limits] arg_cong [OF cs(2), of de_evidence] by simp_all
  ultimately show ?thesis using assms(1) drains_occupancy [OF cs(1) wf(2)] by (auto simp: datagram_wf_def list_all_iff)
qed

lemma discard_all_wf: "datagram_wf e \<Longrightarrow> datagram_wf (snd (discard_all e))"
  by (auto simp: datagram_wf_def discard_all_def occupancy_def queue_load_def)

lemma stage_frame_wf:
  assumes "stage_frame e e'"
  shows "datagram_wf e' = datagram_wf e"
  using stage_frame_fields [OF assms] stage_frame_evidence [OF assms] by (simp add: datagram_wf_def occupancy_def)

lemma observe_policy_fields [simp]:
  "de_queue (observe_policy p e) = de_queue e" "de_limits (observe_policy p e) = de_limits e"
  "de_ordinal (observe_policy p e) = de_ordinal e" "balanced n (de_evidence (observe_policy p e)) = balanced n (de_evidence e)"
  "occupancy l k b (de_evidence (observe_policy p e)) = occupancy l k b (de_evidence e)"
  by (simp_all add: observe_policy_def balanced_def occupancy_def Let_def)

lemma enqueue_all_wf:
  assumes "enqueue_all now ord gen items q e = Some (q', e')" "datagram_wf e"
    and "\<And>n. n \<in> item_lengths items \<Longrightarrow> n \<le> max_datagram_bytes (de_limits e)"
  shows "datagram_wf e' \<and> de_limits e' = de_limits e"
  using assms
proof (induction items arbitrary: q e)
  case (Cons item items)
  obtain copy bytes d where item: "item = (copy, bytes, d)" by (cases item)
  have small: "length bytes \<le> max_datagram_bytes (de_limits e)"
    and rest: "\<And>n. n \<in> item_lengths items \<Longrightarrow> n \<le> max_datagram_bytes (de_limits e)"
    using Cons.prems(3) item by (simp_all add: item_lengths_def item_bytes_def)
  show ?case
  proof (cases "queue_fits (length bytes) e")
    case True
    then obtain t where "enqueue_all now ord gen items True (enqueue t ord copy bytes gen e) = Some (q', e')"
      using Cons.prems(1) item by (auto split: option.splits)
    with Cons.IH [OF this enqueue_wf [OF Cons.prems(2) True small]] rest show ?thesis by (simp add: enqueue_def)
  next
    case False
    have "datagram_wf (count_evidence note_overflow e)" using Cons.prems(2) by (simp add: datagram_wf_def)
    with False Cons.IH [of q "count_evidence note_overflow e"] Cons.prems(1) rest item show ?thesis by simp
  qed
qed simp

end
