(* ===== verification/DatagramAdmit.thy ===== *)
theory DatagramAdmit
  imports DatagramQueue
begin

text \<open>
  Admission to a datagram engine: the immediate path and the queueing path are compared with each
  other, and every admission is shown to keep the engine's invariant, the balance of its counters and
  the identities of its datagrams. \<open>datagram_runs\<close> are the sequences of admissions, releases and
  discards an embedding runtime can perform.
\<close>

section \<open>Both paths as folds\<close>

definition items_load :: "in_flight list \<Rightarrow> nat" where
  "items_load items = (\<Sum>item\<leftarrow>items. length (item_bytes item))"

fun candidate_of :: "instant \<Rightarrow> nat \<Rightarrow> nat \<Rightarrow> in_flight \<Rightarrow> candidate" where
  "candidate_of now ord gen (copy, bytes, d) =
     \<lparr>cd_at = now + d, cd_ordinal = ord, cd_copy = copy, cd_payload = bytes, cd_generation = gen\<rparr>"

definition item_size :: "in_flight \<Rightarrow> nat" where
  "item_size item = length (item_bytes item)"

lemma checked_total_sum: "checked_total acc items = Some t \<Longrightarrow> t = acc + items_load items"
proof (induction items arbitrary: acc)
  case (Cons item items)
  then have "checked_total (acc + length (item_bytes item)) items = Some t"
    by (cases item) (auto simp: item_bytes_def checked_add64_def split: if_splits)
  from Cons.IH [OF this] show ?case by (simp add: items_load_def)
qed (simp add: items_load_def)

lemma emit_all_fold:
  "emit_all ord gen items e = (out, e') \<Longrightarrow>
     out = map (scheduled_of \<circ> candidate_of now ord gen) items \<and>
     e' = e\<lparr>de_evidence := fold (\<lambda>item. note_emitted (item_size item) \<circ> note_queued (item_size item)) items (de_evidence e)\<rparr>"
proof (induction items arbitrary: e out e')
  case (Cons item items)
  obtain copy bytes d where item: "item = (copy, bytes, d)" by (cases item)
  let ?e = "e\<lparr>de_evidence := note_emitted (length bytes) (note_queued (length bytes) (de_evidence e))\<rparr>"
  obtain o1 e1 where r: "emit_all ord gen items ?e = (o1, e1)" by fastforce
  then have "out = scheduled_of (candidate_of now ord gen item) # o1" "e' = e1"
    using Cons.prems item by (auto simp: emit_immediate_def scheduled_of_def)
  with Cons.IH [OF r] item show ?case by (simp add: item_size_def item_bytes_def)
qed simp

lemma enqueue_all_fold:
  assumes "datagram_wf e" "length (de_queue e) + length items \<le> max_queued_datagrams (de_limits e)"
    and "queue_load (de_queue e) + items_load items \<le> max_queued_bytes (de_limits e)"
    and "list_all (\<lambda>item. now + snd (snd item) \<le> INSTANT_MAX \<and> item_size item \<le> max_datagram_bytes (de_limits e)) items"
  shows "enqueue_all now ord gen items q e = Some (q \<or> items \<noteq> [],
    e\<lparr>de_queue := fold (\<lambda>item. heap_push (candidate_of now ord gen item)) items (de_queue e),
      de_evidence := fold (\<lambda>item. note_queued (item_size item)) items (de_evidence e)\<rparr>)"
  using assms
proof (induction items arbitrary: q e)
  case (Cons item items)
  obtain copy bytes d where item: "item = (copy, bytes, d)" by (cases item)
  let ?e = "enqueue (now + d) ord copy bytes gen e"
  have len: "length bytes \<le> max_datagram_bytes (de_limits e)" "now + d \<le> INSTANT_MAX"
    using Cons.prems(4) item by (simp_all add: item_size_def item_bytes_def)
  have "dv_queued_bytes (de_evidence e) = queue_load (de_queue e)" using Cons.prems(1) by (simp add: datagram_wf_def occupancy_def)
  then have fits: "queue_fits (length bytes) e"
    using Cons.prems(2,3) item by (simp add: queue_fits_def items_load_def item_bytes_def sat_add64_def)
  have wf: "datagram_wf ?e" by (rule enqueue_wf [OF Cons.prems(1) fits len(1)])
  have "enqueue_all now ord gen items True ?e = Some (True,
      ?e\<lparr>de_queue := fold (\<lambda>item. heap_push (candidate_of now ord gen item)) items (de_queue ?e),
         de_evidence := fold (\<lambda>item. note_queued (item_size item)) items (de_evidence ?e)\<rparr>)"
    using Cons.IH [OF wf, of True] Cons.prems(2-4) item
    by (simp add: enqueue_def items_load_def item_bytes_def)
  then show ?case using fits len(2) item
    by (simp add: enqueue_def instant_checked_add_def item_size_def item_bytes_def)
qed simp

section \<open>The counters of both paths\<close>

definition erase_counts :: "datagram_evidence \<Rightarrow> datagram_evidence" where
  "erase_counts ev = ev\<lparr>dv_emitted_datagrams := 0, dv_emitted_bytes := 0, dv_queued_datagrams := 0,
     dv_queued_bytes := 0, dv_high_water_datagrams := 0, dv_high_water_bytes := 0\<rparr>"

definition without_high_water :: "datagram_engine \<Rightarrow> datagram_engine" where
  "without_high_water = count_evidence (\<lambda>ev. ev\<lparr>dv_high_water_datagrams := 0, dv_high_water_bytes := 0\<rparr>)"

lemma evidence_eqI:
  assumes "erase_counts ev1 = erase_counts ev2" "dv_emitted_datagrams ev1 = dv_emitted_datagrams ev2"
    "dv_emitted_bytes ev1 = dv_emitted_bytes ev2" "dv_queued_datagrams ev1 = dv_queued_datagrams ev2"
    "dv_queued_bytes ev1 = dv_queued_bytes ev2"
  shows "ev1\<lparr>dv_high_water_datagrams := 0, dv_high_water_bytes := 0\<rparr> =
    ev2\<lparr>dv_high_water_datagrams := 0, dv_high_water_bytes := 0\<rparr>"
  using assms by (cases ev1; cases ev2) (simp add: erase_counts_def)

text \<open>Emission counters move by \<open>n\<close> datagrams of \<open>b\<close> bytes in all, nothing else but the occupancy changes.\<close>

definition emits :: "nat \<Rightarrow> nat \<Rightarrow> datagram_evidence \<Rightarrow> datagram_evidence \<Rightarrow> bool" where
  "emits n b ev ev' = (erase_counts ev' = erase_counts ev \<and>
     min (dv_emitted_datagrams ev') U64_MAX = min (dv_emitted_datagrams ev + n) U64_MAX \<and>
     min (dv_emitted_bytes ev') U64_MAX = min (dv_emitted_bytes ev + b) U64_MAX)"

lemma emits_refl [simp]: "emits 0 0 ev ev"
  by (simp add: emits_def)

lemma emits_trans: "emits n b ev ev1 \<Longrightarrow> emits m c ev1 ev2 \<Longrightarrow> emits (n + m) (b + c) ev ev2"
  by (auto simp: emits_def min_def split: if_splits)

lemma emits_notes: "emits 0 0 ev (note_queued k ev)" "emits 1 k ev (note_emitted k ev)"
  by (simp_all add: emits_def note_queued_def note_emitted_def erase_counts_def sat_add64_def Let_def)

lemma emits_fold:
  assumes "\<And>x ev. emits (n x) (b x) ev (f x ev)"
  shows "emits (sum_list (map n xs)) (sum_list (map b xs)) ev (fold f xs ev)"
proof (induction xs arbitrary: ev)
  case (Cons x xs)
  show ?case using emits_trans [OF assms Cons.IH] by simp
qed simp

lemma emits_unique:
  assumes "emits n b ev ev1" "emits n b ev ev2" "occupancy l k c ev1" "occupancy l k c ev2"
  shows "ev1\<lparr>dv_high_water_datagrams := 0, dv_high_water_bytes := 0\<rparr> =
    ev2\<lparr>dv_high_water_datagrams := 0, dv_high_water_bytes := 0\<rparr>"
  using assms by (intro evidence_eqI) (auto simp: emits_def occupancy_def min_absorb1)

abbreviation pass_through :: "in_flight list \<Rightarrow> datagram_evidence \<Rightarrow> datagram_evidence" where
  "pass_through items \<equiv> fold (\<lambda>item. note_emitted (item_size item) \<circ> note_queued (item_size item)) items"

lemma occupancy_passing:
  assumes "occupancy l 0 0 ev" "limits_ok l" "1 \<le> max_queued_datagrams l"
    and "\<And>x. x \<in> set items \<Longrightarrow> item_size x \<le> max_queued_bytes l"
  shows "occupancy l 0 0 (pass_through items ev) \<and>
    dv_high_water_datagrams (pass_through items ev) =
      (if items = [] then dv_high_water_datagrams ev else max (dv_high_water_datagrams ev) 1)"
  using assms
proof (induction items arbitrary: ev)
  case (Cons item items)
  let ?ev = "note_emitted (item_size item) (note_queued (item_size item) ev)"
  note q = occupancy_queued [OF Cons.prems(1) _ _ Cons.prems(2), of "item_size item"]
  have fits: "0 + 1 \<le> max_queued_datagrams l" "0 + item_size item \<le> max_queued_bytes l"
    using Cons.prems(3,4) by simp_all
  note o = occupancy_emitted [OF q(1) [OF fits]]
  have "dv_high_water_datagrams ?ev = max (dv_high_water_datagrams ev) 1" using q(2) [OF fits] by simp
  with Cons.IH [OF o] Cons.prems(2-4) show ?case by auto
qed simp

lemma fold_push:
  "mset (fold (\<lambda>x. heap_push (f x)) xs q) = mset (map f xs) + mset q"
  "sorted (map candidate_key q) \<Longrightarrow> sorted (map candidate_key (fold (\<lambda>x. heap_push (f x)) xs q))"
  by (induction xs arbitrary: q) (simp_all add: heap_push_def heap.push_ordered [unfolded heap_push_def])

lemma queued_high_water:
  assumes "occupancy l n b ev" "limits_ok l" "n + length items \<le> max_queued_datagrams l"
    and "b + items_load items \<le> max_queued_bytes l"
  shows "occupancy l (n + length items) (b + items_load items) (fold (\<lambda>item. note_queued (item_size item)) items ev) \<and>
    dv_high_water_datagrams (fold (\<lambda>item. note_queued (item_size item)) items ev) =
      max (dv_high_water_datagrams ev) (n + length items)"
  using assms
proof (induction items arbitrary: n b ev)
  case Nil
  then show ?case by (simp add: items_load_def occupancy_def)
next
  case (Cons item items)
  note q = occupancy_queued [OF Cons.prems(1) _ _ Cons.prems(2), of "item_size item"]
  have fits: "n + 1 \<le> max_queued_datagrams l" "b + item_size item \<le> max_queued_bytes l"
    using Cons.prems(3,4) by (simp_all add: items_load_def item_size_def)
  have "(n + 1) + length items \<le> max_queued_datagrams l" "(b + item_size item) + items_load items \<le> max_queued_bytes l"
    using Cons.prems(3,4) by (simp_all add: items_load_def item_size_def)
  from Cons.IH [OF q(1) [OF fits] Cons.prems(2) this] q(2) [OF fits] show ?case
    by (simp add: items_load_def item_size_def add.assoc max.assoc max_def)
qed

section \<open>The immediate path is queue-then-drain\<close>

lemma all_immediate_fits:
  assumes "datagram_wf e" "all_immediate items e"
  shows "de_queue e = []" "items \<noteq> []" "length items \<le> max_queued_datagrams (de_limits e)"
    "items_load items \<le> max_queued_bytes (de_limits e)" "\<And>x. x \<in> set items \<Longrightarrow> snd (snd x) = 0"
proof -
  have q: "de_queue e = []" "items \<noteq> []" using assms(2) by (simp_all add: all_immediate_def)
  then show "de_queue e = []" "items \<noteq> []" .
  have l: "limits_ok (de_limits e)" "dv_queued_bytes (de_evidence e) = 0"
    using assms(1) q(1) by (simp_all add: datagram_wf_def occupancy_def queue_load_def)
  obtain b where "checked_total 0 items = Some b" "fits_all (length items) b e"
    using assms(2) by (auto simp: all_immediate_def split: option.splits)
  then show "length items \<le> max_queued_datagrams (de_limits e)" "items_load items \<le> max_queued_bytes (de_limits e)"
    using checked_total_sum [of 0 items b] l q(1) by (auto simp: fits_all_def sat_add64_def limits_ok_def U64_MAX_def min_def split: if_splits)
  show "snd (snd x) = 0" if "x \<in> set items" for x
    using assms(2) that by (auto simp: all_immediate_def list_all_iff)
qed

lemma item_size_le_load: "x \<in> set items \<Longrightarrow> item_size x \<le> items_load items"
  by (induction items) (auto simp: items_load_def item_size_def)

definition release_key :: "datagram_scheduled \<Rightarrow> nat \<times> nat" where
  "release_key s = (sd_ingress_ordinal s, sd_copy_index s)"

lemma release_key_of [simp]:
  "release_key (scheduled_of c) = (cd_ordinal c, cd_copy c)"
  "cd_ordinal (candidate_of now ord gen x) = ord" "cd_copy (candidate_of now ord gen x) = fst x"
  "cd_at (candidate_of now ord gen x) = now + snd (snd x)" "cd_payload (candidate_of now ord gen x) = item_bytes x"
  by (simp_all add: release_key_def scheduled_of_def) (cases x; simp add: item_bytes_def)+

lemma release_key_sorted:
  assumes "sorted (map candidate_key cs)" "\<And>c. c \<in> set cs \<Longrightarrow> cd_at c = t"
  shows "sorted (map release_key (map scheduled_of cs))"
  using assms
  by (induction cs) (auto simp: candidate_key_def less_eq_prod_def)

lemma fold_high_water:
  "dv_high_water_datagrams (fold (\<lambda>c. note_emitted (f c)) cs ev) = dv_high_water_datagrams ev"
  by (induction cs arbitrary: ev) simp_all

lemma pass_through_emits: "emits (length items) (items_load items) ev (pass_through items ev)"
proof -
  have "emits 1 (item_size x) ev ((note_emitted (item_size x) \<circ> note_queued (item_size x)) ev)" for x ev
    using emits_trans [OF emits_notes(1) emits_notes(2)] by simp
  from emits_fold [OF this] show ?thesis by (simp add: items_load_def item_size_def sum_list_triv comp_def)
qed

lemma queued_then_emitted:
  assumes "mset cs = mset (map (candidate_of now ord gen) items)"
  shows "emits (length items) (items_load items) ev
    (fold (\<lambda>c. note_emitted (length (cd_payload c))) cs (fold (\<lambda>x. note_queued (item_size x)) items ev))"
proof -
  have "emits 0 0 ev (fold (\<lambda>x. note_queued (item_size x)) items ev)"
    using emits_fold [OF emits_notes(1)] by (simp add: sum_list_triv)
  moreover have "emits (length cs) (queue_load cs) ev' (fold (\<lambda>c. note_emitted (length (cd_payload c))) cs ev')" for ev'
    using emits_fold [OF emits_notes(2)] by (simp add: sum_list_triv queue_load_def)
  moreover have "length cs = length items" using mset_eq_length [OF assms] by simp
  moreover have "queue_load cs = items_load items"
    using assms unfolding queue_load_def items_load_def sum_mset_sum_list [symmetric] mset_map
    by (simp add: multiset.map_comp comp_def)
  ultimately show ?thesis using emits_trans [of 0 0] by fastforce
qed

lemma immediate_equivalent:
  assumes wf: "datagram_wf e" and imm: "all_immediate items e" and copies: "distinct (map fst items)"
    and small: "\<And>x. x \<in> set items \<Longrightarrow> item_size x \<le> max_datagram_bytes (de_limits e)" and now: "now \<le> INSTANT_MAX"
  obtains out e1 e2 e3 where "dispatch now ord gen items e = Some (Immediate out, e1)"
    "enqueue_all now ord gen items False e = Some (True, e2)" "take_ready now e2 = (out, e3)"
    "without_high_water e1 = without_high_water e3"
    "dv_high_water_datagrams (de_evidence e1) = max (dv_high_water_datagrams (de_evidence e)) 1"
    "dv_high_water_datagrams (de_evidence e3) = max (dv_high_water_datagrams (de_evidence e)) (length items)"
proof -
  note fit = all_immediate_fits [OF wf imm]
  have lim: "limits_ok (de_limits e)" and occ: "occupancy (de_limits e) 0 0 (de_evidence e)"
    using wf fit(1) by (simp_all add: datagram_wf_def queue_load_def)
  let ?cs = "map (candidate_of now ord gen) items"
  obtain o1 e1 where emit: "emit_all ord gen items e = (o1, e1)" by fastforce
  note ef = emit_all_fold [OF emit, of now]
  define out where "out = sort_key release_key o1"
  have disp: "dispatch now ord gen items e = Some (Immediate out, e1)"
    using imm emit by (simp add: dispatch_def out_def release_key_def [abs_def])
  define e2 where "e2 = e\<lparr>de_queue := fold (\<lambda>x. heap_push (candidate_of now ord gen x)) items [],
      de_evidence := fold (\<lambda>x. note_queued (item_size x)) items (de_evidence e)\<rparr>"
  have enq: "enqueue_all now ord gen items False e = Some (True, e2)"
    using enqueue_all_fold [OF wf, of items now ord gen False] fit small now
    by (simp add: e2_def list_all_iff queue_load_def)
  have q2: "mset (de_queue e2) = mset ?cs" "sorted (map candidate_key (de_queue e2))"
    using fold_push(1) [of "candidate_of now ord gen" items "[]"] fold_push(2) [of "[]" "candidate_of now ord gen" items]
    by (simp_all add: e2_def)
  obtain o3 e3 where take: "take_ready now e2 = (o3, e3)" by fastforce
  obtain cs where cs: "drains heap_peek heap_pop now (de_queue e2) cs (de_queue e3)" "o3 = map scheduled_of cs"
    "e3 = e2\<lparr>de_queue := de_queue e3, de_evidence := fold (\<lambda>c. note_emitted (length (cd_payload c))) cs (de_evidence e2)\<rparr>"
    using take_ready_drains [OF take] by metis
  note ex = heap.drains_exact [OF cs(1) q2(2)]
  have due: "filter_mset (\<lambda>c. cd_at c \<le> now) (mset ?cs) = mset ?cs" "filter_mset (\<lambda>c. now < cd_at c) (mset ?cs) = {#}"
    using fit(5) by (auto simp: filter_mset_eq_conv)
  have mcs: "mset cs = mset ?cs" and q3: "de_queue e3 = []" using ex due q2(1) by (simp, metis mset_zero_iff)
  have "cd_at c = now" if "c \<in> set cs" for c
  proof -
    have "c \<in> set ?cs" using that mset_eq_setD [OF mcs] by simp
    then show ?thesis using fit(5) by auto
  qed
  then have s3: "sorted (map release_key o3)" using release_key_sorted ex cs(2) by simp
  have "map release_key o1 = map (Pair ord) (map fst items)" using ef by simp
  moreover have "distinct (map (Pair ord) (map fst items))"
    unfolding distinct_map [of "Pair ord"] using copies by (simp add: inj_on_def)
  ultimately have "distinct (map release_key o1)" by (simp only:)
  then have "inj_on release_key (set o1)" by (simp only: distinct_map)
  moreover have "mset o1 = mset o3" using ef cs(2) mcs by (metis comp_apply image_mset.comp mset_map)
  ultimately have same: "out = o3"
    using s3 by (intro sorted_keys_unique [of _ _ release_key]) (simp_all add: out_def)
  have "n \<le> max_datagram_bytes (de_limits e)" if "n \<in> item_lengths items" for n
    using that small by (auto simp: item_lengths_def item_size_def)
  then have "datagram_wf e2" using enqueue_all_wf [OF enq wf] by blast
  then have wf3: "datagram_wf e3" by (rule take_ready_wf [OF _ take])
  have fixed: "de_limits e3 = de_limits e" "e3 = e\<lparr>de_evidence := de_evidence e3\<rparr>"
    "de_evidence e3 = fold (\<lambda>c. note_emitted (length (cd_payload c))) cs (de_evidence e2)"
    using arg_cong [OF cs(3), of de_limits] arg_cong [OF cs(3), of de_evidence] fit(1)
    by (simp_all add: e2_def) (subst cs(3), simp add: e2_def q3)
  have occ3: "occupancy (de_limits e) 0 0 (de_evidence e3)"
    using wf3 q3 fixed(1) by (simp add: datagram_wf_def queue_load_def)
  have one: "1 \<le> max_queued_datagrams (de_limits e)" using fit(2,3) by (cases items) simp_all
  have sizes: "item_size x \<le> max_queued_bytes (de_limits e)" if "x \<in> set items" for x
    using item_size_le_load [OF that] fit(4) by simp
  have occ1: "occupancy (de_limits e) 0 0 (de_evidence e1)" and
    hw1: "dv_high_water_datagrams (de_evidence e1) = max (dv_high_water_datagrams (de_evidence e)) 1"
    using occupancy_passing [OF occ lim one sizes] ef fit(2) by simp_all
  have hw3: "dv_high_water_datagrams (de_evidence e3) = max (dv_high_water_datagrams (de_evidence e)) (length items)"
    using queued_high_water [OF occ lim, of items] fit fixed(3) by (simp add: e2_def fold_high_water)
  have "emits (length items) (items_load items) (de_evidence e) (de_evidence e1)"
    using ef pass_through_emits [of items "de_evidence e"] by simp
  moreover have "emits (length items) (items_load items) (de_evidence e) (de_evidence e3)"
    using queued_then_emitted [OF mcs, of "de_evidence e"] fixed(3) by (simp add: e2_def)
  ultimately have ev: "without_high_water e1 = without_high_water e3"
    using emits_unique [OF _ _ occ1 occ3] ef by (subst fixed(2)) (simp add: without_high_water_def count_evidence_def)
  show thesis using that [OF disp enq _ ev hw1 hw3] take same by simp
qed

section \<open>Every admission keeps the invariants\<close>

definition candidate_id :: "candidate \<Rightarrow> nat \<times> nat" where
  "candidate_id c = (cd_ordinal c, cd_copy c)"

fun emitted_now :: "datagram_admission \<Rightarrow> datagram_scheduled list" where
  "emitted_now (Immediate out) = out"
| "emitted_now _ = []"

text \<open>
  What one admission of ordinal \<open>ord\<close> may do: the invariant and the balance hold again, the limits
  stay, and the new identities, emitted or queued, are distinct and carry the ordinal.
\<close>

definition new_identities :: "nat \<Rightarrow> datagram_scheduled list \<Rightarrow> candidate list \<Rightarrow> candidate list \<Rightarrow> bool" where
  "new_identities ord out q q' = (\<exists>new. mset (map release_key out) + mset (map candidate_id q') =
     mset new + mset (map candidate_id q) \<and> distinct new \<and> fst ` set new \<subseteq> {ord})"

lemma distinct_submset:
  assumes "mset xs \<subseteq># mset ys" "distinct ys"
  shows "distinct xs"
proof -
  obtain M where M: "mset ys = mset xs + M" using assms(1) by (rule mset_subset_eq_exists_conv [THEN iffD1, THEN exE])
  obtain zs where "mset zs = M" using ex_mset [of M] by blast
  with M have "mset ys = mset (xs @ zs)" by simp
  then have "distinct (xs @ zs)" using assms(2) mset_eq_imp_distinct_iff by blast
  then show ?thesis by simp
qed

lemma enqueue_all_effect:
  assumes "enqueue_all now ord gen items b e = Some (b', e')"
  shows "(\<forall>n. balanced (length items + n) (de_evidence e) \<longrightarrow> balanced n (de_evidence e')) \<and>
    de_ordinal e' = de_ordinal e \<and>
    (\<exists>N. mset (map candidate_id (de_queue e')) = N + mset (map candidate_id (de_queue e)) \<and>
       N \<subseteq># mset (map (Pair ord) (map fst items)))"
  using assms
proof (induction items arbitrary: b e)
  case (Cons item items)
  obtain copy bytes d where item: "item = (copy, bytes, d)" by (cases item)
  show ?case
  proof (cases "queue_fits (length bytes) e")
    case True
    then obtain t where t: "enqueue_all now ord gen items True (enqueue t ord copy bytes gen e) = Some (b', e')"
      using Cons.prems item by (auto split: option.splits)
    have bal: "balanced n (note_queued (length bytes) (de_evidence e))" if "balanced (Suc n) (de_evidence e)" for n
      using that by (rule balanced_notes)
    obtain N where "mset (map candidate_id (de_queue e')) = N + mset (map candidate_id (de_queue (enqueue t ord copy bytes gen e)))"
      "N \<subseteq># mset (map (Pair ord) (map fst items))" using Cons.IH [OF t] by blast
    then have "mset (map candidate_id (de_queue e')) = add_mset (ord, copy) N + mset (map candidate_id (de_queue e))"
      "add_mset (ord, copy) N \<subseteq># mset (map (Pair ord) (map fst (item # items)))"
      using item by (simp_all add: enqueue_def heap_push_def candidate_id_def)
    moreover have "balanced n (de_evidence e')" if "balanced (length (item # items) + n) (de_evidence e)" for n
      using Cons.IH [OF t] bal [of "length items + n"] that by (simp add: enqueue_def)
    ultimately show ?thesis using Cons.IH [OF t] by (auto simp: enqueue_def)
  next
    case False
    then have t: "enqueue_all now ord gen items b (count_evidence note_overflow e) = Some (b', e')"
      using Cons.prems item by simp
    have "balanced n (de_evidence e')" if "balanced (length (item # items) + n) (de_evidence e)" for n
      using Cons.IH [OF t] balanced_notes(5) [of "length items + n"] that by simp
    moreover obtain N where "mset (map candidate_id (de_queue e')) = N + mset (map candidate_id (de_queue e))"
      "N \<subseteq># mset (map (Pair ord) (map fst items))" using Cons.IH [OF t] by auto
    moreover from this(2) have "N \<subseteq># mset (map (Pair ord) (map fst (item # items)))"
      by (simp add: subset_mset.order_trans [OF _ mset_subset_eq_add_right] subseteq_mset_def le_SucI)
    ultimately show ?thesis using Cons.IH [OF t] by auto
  qed
qed simp

lemma pass_through_balanced: "balanced (length items + n) ev \<Longrightarrow> balanced n (pass_through items ev)"
proof (induction items arbitrary: ev)
  case (Cons item items)
  have "balanced (length items + n) (note_queued (item_size item) ev)"
    using Cons.prems by (intro balanced_notes(6)) simp
  moreover have "0 < dv_queued_datagrams (note_queued (item_size item) ev)"
    by (simp add: note_queued_def Let_def sat_add64_def U64_MAX_def)
  ultimately show ?case using Cons.IH balanced_notes(7) by simp
qed simp

definition admission_effect :: "nat \<Rightarrow> nat \<Rightarrow> datagram_engine \<Rightarrow> datagram_admission \<Rightarrow> datagram_engine \<Rightarrow> bool" where
  "admission_effect k ord e r e' = (datagram_wf e' \<and> de_limits e' = de_limits e \<and> de_ordinal e' = de_ordinal e \<and>
     (\<forall>n. balanced (k + n) (de_evidence e) \<longrightarrow> balanced n (de_evidence e')) \<and>
     new_identities ord (emitted_now r) (de_queue e) (de_queue e'))"

lemma no_new_identities: "new_identities ord [] q q"
  unfolding new_identities_def by (rule exI [of _ "[]"]) simp

lemma release_key_candidate: "release_key (scheduled_of c) = candidate_id c"
  by (simp add: candidate_id_def)

lemma dispatch_effect:
  assumes wf: "datagram_wf e" and small: "\<And>n. n \<in> item_lengths items \<Longrightarrow> n \<le> max_datagram_bytes (de_limits e)"
    and copies: "distinct (map fst items)" and run: "dispatch now ord gen items e = Some (r, e')"
  shows "admission_effect (length items) ord e r e'"
proof -
  have pairs: "distinct (map (Pair ord) (map fst items))"
    unfolding distinct_map [of "Pair ord"] using copies by (simp add: inj_on_def)
  consider (now) "all_immediate items e" | (none) "\<not> all_immediate items e" "items = []"
    | (queue) b where "\<not> all_immediate items e" "items \<noteq> []" "enqueue_all now ord gen items False e = Some (b, e')"
      "r = (if b then Queued else Consumed)"
    using run by (auto simp: dispatch_def split: if_splits option.splits)
  then show ?thesis
  proof cases
    case now
    note fit = all_immediate_fits [OF wf now]
    obtain o1 e1 where emit: "emit_all ord gen items e = (o1, e1)" by fastforce
    then have r: "r = Immediate (sort_key release_key o1)" "e' = e1"
      using run now by (simp_all add: dispatch_def release_key_def [abs_def])
    note ef = emit_all_fold [OF emit, of now]
    have one: "1 \<le> max_queued_datagrams (de_limits e)" using fit(2,3) by (cases items) simp_all
    have sizes: "item_size x \<le> max_queued_bytes (de_limits e)" if "x \<in> set items" for x
      using item_size_le_load [OF that] fit(4) by simp
    have lim: "limits_ok (de_limits e)" "occupancy (de_limits e) 0 0 (de_evidence e)"
      using wf fit(1) by (simp_all add: datagram_wf_def queue_load_def)
    have "datagram_wf e'" using occupancy_passing [OF lim(2,1) one sizes] ef r(2) lim(1) fit(1)
      by (simp add: datagram_wf_def queue_load_def)
    moreover have "mset (map release_key (sort_key release_key o1)) = mset (map (Pair ord) (map fst items))"
      using ef by (simp add: multiset.map_comp comp_def)
    then have "new_identities ord (sort_key release_key o1) (de_queue e) (de_queue e')"
      unfolding new_identities_def using pairs ef r(2) by (intro exI [of _ "map (Pair ord) (map fst items)"]) auto
    ultimately show ?thesis using ef r pass_through_balanced by (simp add: admission_effect_def)
  next
    case none
    then show ?thesis using run wf no_new_identities by (auto simp: dispatch_def admission_effect_def)
  next
    case (queue b)
    note eff = enqueue_all_effect [OF queue(3)]
    obtain N where N: "mset (map candidate_id (de_queue e')) = N + mset (map candidate_id (de_queue e))"
      "N \<subseteq># mset (map (Pair ord) (map fst items))" using eff by blast
    obtain new where new: "mset new = N" using ex_mset [of N] by blast
    have "distinct new" using distinct_submset [OF _ pairs] N(2) new by simp
    moreover have "set new \<subseteq> set (map (Pair ord) (map fst items))"
      using N(2) new by (metis set_mset_mono set_mset_mset)
    ultimately have "new_identities ord [] (de_queue e) (de_queue e')"
      unfolding new_identities_def using N(1) new by (intro exI [of _ new]) auto
    then show ?thesis using eff enqueue_all_wf [OF queue(3) wf small] queue(4) by (auto simp: admission_effect_def)
  qed
qed

text \<open>The plan-free path is the dispatch of the datagram itself.\<close>

lemma unfaulted_dispatch:
  assumes "datagram_wf e" "length payload \<le> max_datagram_bytes (de_limits e)" "now \<le> INSTANT_MAX"
  shows "dispatch now ord gen [(0, payload, 0)] e = Some (admit_unfaulted now ord payload gen e)"
proof -
  have l: "limits_ok (de_limits e)" using assms(1) by (simp add: datagram_wf_def)
  have total: "checked_total 0 [(0, payload, 0)] = Some (length payload)"
    using assms(2) l by (simp add: checked_add64_def limits_ok_def U64_MAX_def)
  have "queue_fits (length payload) e = fits_all 1 (length payload) e" if "de_queue e = []"
    using that by (simp add: queue_fits_def fits_all_def sat_add64_def U64_MAX_def Suc_le_eq)
  then show ?thesis using total assms(3)
    by (auto simp: dispatch_def all_immediate_def admit_unfaulted_def emit_immediate_single_def split_def
        instant_checked_add_def Let_def)
qed

lemma admit_effect:
  assumes wf: "datagram_wf e" and plan: "datagram_plan_ok (pub_plan policy)" and now: "now \<le> INSTANT_MAX"
    and run: "admit now payload policy e = Some (r, e')"
  shows "admission_effect 0 (de_ordinal e) (e\<lparr>de_ordinal := sat_add64 (de_ordinal e) 1\<rparr>) r e'"
proof -
  let ?e0 = "e\<lparr>de_ordinal := sat_add64 (de_ordinal e) 1\<rparr>"
  let ?e1 = "count_evidence (count_admitted (length payload)) ?e0"
  have wf1: "datagram_wf ?e1" using wf by (simp add: datagram_wf_def)
  have bal1: "balanced (Suc n) (de_evidence ?e1)" if "balanced n (de_evidence e)" for n
    using balanced_notes(1) [OF that] by simp
  show ?thesis
  proof (cases "max_datagram_bytes (de_limits e) < length payload")
    case True
    then have "r = Consumed" "e' = count_evidence note_oversize ?e1" using run by (simp_all add: admit_def Let_def)
    then show ?thesis using wf1 bal1 balanced_notes(3) no_new_identities
      by (auto simp: admission_effect_def datagram_wf_def)
  next
    case False
    let ?e2 = "observe_policy policy ?e1"
    let ?fs = "dp_faults (pub_plan policy)"
    have wf2: "datagram_wf ?e2" using wf1 by (simp add: datagram_wf_def)
    obtain items e3 where st: "run_stages (seed_namespace policy) now (de_ordinal e) 0 ?fs [(0, payload, 0)] 1 ?e2 = (items, e3)"
      by fastforce
    have disp: "dispatch now (de_ordinal e) (generation policy) items e3 = Some (r, e')"
    proof (cases "?fs = []")
      case True
      then have "items = [(0, payload, 0)]" "e3 = ?e2" using st by simp_all
      then show ?thesis using unfaulted_dispatch [OF wf2 _ now] False True run by (simp add: admit_def Let_def)
    next
      case Fs: False
      then show ?thesis using st run False by (simp add: admit_def Let_def)
    qed
    have flow: "flow [(0, payload, 0)] ?e2 items e3" using run_stages_flow [OF st] .
    then have frame: "stage_frame ?e2 e3" by (simp add: flow_def)
    note fields = stage_frame_fields [OF frame]
    have wf3: "datagram_wf e3" using wf2 stage_frame_wf [OF frame] by simp
    have "copies_ok [(0, payload, 0)] 1" by (simp add: copies_ok_def)
    moreover have "1 * amplification ?fs \<le> U16_MAX" using plan by (simp add: datagram_plan_ok_def U16_MAX_def)
    ultimately have copies: "distinct (map fst items)" using run_stages_copies [OF st] by blast
    have small: "n \<le> max_datagram_bytes (de_limits e3)" if "n \<in> item_lengths items" for n
    proof -
      have "item_lengths items \<subseteq> item_lengths [(0, payload, 0)]" using flow by (simp only: flow_def)
      with that have "n = length payload" by (auto simp: item_lengths_def item_bytes_def)
      then show ?thesis using False fields(1) by simp
    qed
    have eff: "admission_effect (length items) (de_ordinal e) e3 r e'"
      by (rule dispatch_effect [OF wf3 small copies disp])
    have "balanced (length items + n) (de_evidence e3)" if "balanced n (de_evidence e)" for n
    proof -
      have "balanced (length [(0, payload, 0)] + n) (de_evidence ?e2)" using bal1 [OF that] by simp
      then show ?thesis using flow unfolding flow_def by blast
    qed
    then show ?thesis using eff fields by (simp add: admission_effect_def)
  qed
qed

section \<open>Runs\<close>

text \<open>
  The sequences of calls an embedding runtime can make. \<open>dr_emitted\<close> collects what the engine
  handed out, \<open>dr_discarded\<close> counts what \<^verbatim>\<open>discard_all\<close> dropped; no step reads them.
\<close>

record datagram_run =
  dr_engine :: datagram_engine
  dr_emitted :: "datagram_scheduled list"
  dr_discarded :: nat

inductive datagram_step :: "datagram_run \<Rightarrow> datagram_run \<Rightarrow> bool" where
  step_admit: "datagram_plan_ok (pub_plan policy) \<Longrightarrow> now \<le> INSTANT_MAX \<Longrightarrow>
    admit now payload policy (dr_engine s) = Some (r, e') \<Longrightarrow>
    datagram_step s (s\<lparr>dr_engine := e', dr_emitted := dr_emitted s @ emitted_now r\<rparr>)"
| step_take: "take_ready now (dr_engine s) = (out, e') \<Longrightarrow>
    datagram_step s (s\<lparr>dr_engine := e', dr_emitted := dr_emitted s @ out\<rparr>)"
| step_discard: "discard_all (dr_engine s) = (n, e') \<Longrightarrow>
    datagram_step s (s\<lparr>dr_engine := e', dr_discarded := dr_discarded s + n\<rparr>)"

inductive datagram_runs :: "datagram_run \<Rightarrow> datagram_run \<Rightarrow> bool" where
  datagram_refl: "datagram_runs s s"
| datagram_next: "datagram_runs s s' \<Longrightarrow> datagram_step s' s'' \<Longrightarrow> datagram_runs s s''"

inductive_cases datagram_step_cases [consumes 1, case_names step_admit step_take step_discard]:
  "datagram_step s s'"

definition datagram_start :: "datagram_engine \<Rightarrow> datagram_run" where
  "datagram_start e = \<lparr>dr_engine = e, dr_emitted = [], dr_discarded = 0\<rparr>"

definition run_identities :: "datagram_run \<Rightarrow> (nat \<times> nat) list" where
  "run_identities s = map release_key (dr_emitted s) @ map candidate_id (de_queue (dr_engine s))"

definition datagram_inv :: "datagram_run \<Rightarrow> bool" where
  "datagram_inv s = (datagram_wf (dr_engine s) \<and> balanced (dr_discarded s) (de_evidence (dr_engine s)) \<and>
     de_ordinal (dr_engine s) \<le> U64_MAX \<and>
     (de_ordinal (dr_engine s) < U64_MAX \<longrightarrow>
        distinct (run_identities s) \<and> fst ` set (run_identities s) \<subseteq> {..<de_ordinal (dr_engine s)}))"

lemma distinct_by_mset: "mset xs = mset ys \<Longrightarrow> distinct xs = distinct ys \<and> set xs = set ys"
  using mset_eq_imp_distinct_iff mset_eq_setD by metis

lemma drains_balanced:
  "drains heap_peek heap_pop now q cs q' \<Longrightarrow> dv_queued_datagrams ev = length q \<Longrightarrow> balanced n ev \<Longrightarrow>
     balanced n (fold (\<lambda>c. note_emitted (length (cd_payload c))) cs ev)"
proof (induction arbitrary: ev rule: drains.induct)
  case (drain q c out q')
  then obtain q1 where q: "q = c # q1" by (cases q) auto
  have "balanced n (note_emitted (length (cd_payload c)) ev)"
    using drain.prems q by (intro balanced_notes) simp_all
  then show ?case using drain.IH [of "note_emitted (length (cd_payload c)) ev"] drain.prems(1) q
    by (simp add: note_emitted_def)
qed simp

lemma drains_mset: "drains heap_peek heap_pop now q cs q' \<Longrightarrow> mset cs + mset q' = mset q"
proof (induction rule: drains.induct)
  case (drain q c out q')
  then show ?case by (cases q) auto
qed simp

lemma datagram_inv_admit:
  assumes "datagram_inv s" "datagram_plan_ok (pub_plan policy)" "now \<le> INSTANT_MAX"
    and "admit now payload policy (dr_engine s) = Some (r, e')"
  shows "datagram_inv (s\<lparr>dr_engine := e', dr_emitted := dr_emitted s @ emitted_now r\<rparr>)"
proof -
  let ?e = "dr_engine s"
  let ?s = "s\<lparr>dr_engine := e', dr_emitted := dr_emitted s @ emitted_now r\<rparr>"
  have wf: "datagram_wf ?e" using assms(1) by (simp add: datagram_inv_def)
  note eff = admit_effect [OF wf assms(2-4)]
  have ord: "de_ordinal e' = sat_add64 (de_ordinal ?e) 1" using eff by (simp add: admission_effect_def)
  obtain new where new: "mset (map release_key (emitted_now r)) + mset (map candidate_id (de_queue e')) =
      mset new + mset (map candidate_id (de_queue ?e))" "distinct new" "fst ` set new \<subseteq> {de_ordinal ?e}"
    using eff by (auto simp: admission_effect_def new_identities_def)
  have "mset (run_identities ?s) = mset (new @ run_identities s)"
    using new(1) by (simp add: run_identities_def)
  then have ids: "distinct (run_identities ?s) = distinct (new @ run_identities s)"
    "set (run_identities ?s) = set (new @ run_identities s)" using distinct_by_mset by blast+
  have "distinct (run_identities ?s) \<and> fst ` set (run_identities ?s) \<subseteq> {..<de_ordinal e'}" if lt: "de_ordinal e' < U64_MAX"
  proof -
    have o: "de_ordinal ?e < U64_MAX" "de_ordinal e' = Suc (de_ordinal ?e)"
      using lt ord by (simp_all add: sat_add64_def min_def split: if_splits)
    then have old: "distinct (run_identities s)" "fst ` set (run_identities s) \<subseteq> {..<de_ordinal ?e}"
      using assms(1) by (simp_all add: datagram_inv_def)
    have "x \<notin> set (run_identities s)" if "x \<in> set new" for x
    proof
      assume "x \<in> set (run_identities s)"
      then have "fst x < de_ordinal ?e" using old(2) by (auto simp: image_subset_iff)
      moreover have "fst x = de_ordinal ?e" using that new(3) by (auto simp: image_subset_iff)
      ultimately show False by simp
    qed
    then have "set new \<inter> set (run_identities s) = {}" by blast
    then have "distinct (new @ run_identities s)" using old(1) new(2) by simp
    moreover have "fst ` set (new @ run_identities s) \<subseteq> {..<de_ordinal e'}" using old(2) new(3) o(2)
      by (simp add: image_Un image_subset_iff less_Suc_eq)
    ultimately show ?thesis using ids by simp
  qed
  moreover have "balanced (dr_discarded s) (de_evidence e')" "datagram_wf e'"
    using eff assms(1) by (simp_all add: admission_effect_def datagram_inv_def)
  ultimately show ?thesis using ord by (simp add: datagram_inv_def)
qed

lemma datagram_inv_step:
  assumes "datagram_step s s'" "datagram_inv s"
  shows "datagram_inv s'"
  using assms(1)
proof (cases rule: datagram_step_cases)
  case (step_admit policy now payload r e')
  then show ?thesis using datagram_inv_admit [OF assms(2)] by simp
next
  case (step_take now out e')
  have wf: "datagram_wf (dr_engine s)" "sorted (map candidate_key (de_queue (dr_engine s)))"
    "dv_queued_datagrams (de_evidence (dr_engine s)) = length (de_queue (dr_engine s))"
    using assms(2) by (simp_all add: datagram_inv_def datagram_wf_def occupancy_def)
  obtain cs where cs: "drains heap_peek heap_pop now (de_queue (dr_engine s)) cs (de_queue e')" "out = map scheduled_of cs"
    "e' = (dr_engine s)\<lparr>de_queue := de_queue e',
       de_evidence := fold (\<lambda>c. note_emitted (length (cd_payload c))) cs (de_evidence (dr_engine s))\<rparr>"
    using take_ready_drains [OF step_take(2)] by metis
  have "mset (map candidate_id cs) + mset (map candidate_id (de_queue e')) = mset (map candidate_id (de_queue (dr_engine s)))"
    using arg_cong [OF drains_mset [OF cs(1)], of "image_mset candidate_id"] by simp
  moreover have "map release_key out = map candidate_id cs" using cs(2) by (simp add: candidate_id_def)
  ultimately have "mset (run_identities s') = mset (run_identities s)"
    using step_take(1) by (simp add: run_identities_def)
  then have ids: "distinct (run_identities s') = distinct (run_identities s)" "set (run_identities s') = set (run_identities s)"
    using distinct_by_mset by blast+
  have "balanced (dr_discarded s) (de_evidence e')"
    using drains_balanced [OF cs(1) wf(3)] assms(2) arg_cong [OF cs(3), of de_evidence] by (simp add: datagram_inv_def)
  moreover have "de_ordinal e' = de_ordinal (dr_engine s)" using arg_cong [OF cs(3), of de_ordinal] by simp
  ultimately show ?thesis using ids take_ready_wf [OF wf(1) step_take(2)] step_take(1) assms(2)
    by (simp add: datagram_inv_def)
next
  case (step_discard n e')
  then have e': "n = length (de_queue (dr_engine s))" "de_queue e' = []" "de_ordinal e' = de_ordinal (dr_engine s)"
    by (auto simp: discard_all_def)
  have "dv_queued_datagrams (de_evidence (dr_engine s)) = n"
    using assms(2) e'(1) by (simp add: datagram_inv_def datagram_wf_def occupancy_def)
  then have "balanced (dr_discarded s + n) (de_evidence e')"
    using assms(2) step_discard(2) by (auto simp: datagram_inv_def discard_all_def balanced_def)
  moreover have "datagram_wf e'" using discard_all_wf [of "dr_engine s"] step_discard(2) assms(2) by (simp add: datagram_inv_def)
  moreover have "run_identities s = run_identities s' @ map candidate_id (de_queue (dr_engine s))"
    using step_discard(1) e' by (simp add: run_identities_def)
  then have "distinct (run_identities s) \<longrightarrow> distinct (run_identities s')" "set (run_identities s') \<subseteq> set (run_identities s)"
    by simp_all
  ultimately show ?thesis using assms(2) step_discard(1) e' unfolding datagram_inv_def
    by simp (meson image_mono order_trans)
qed

lemma limits_validate_iff: "limits_validate l = Inr l' \<longleftrightarrow> l' = l \<and> limits_ok l"
  by (auto simp: limits_validate_def limits_ok_def)

lemma datagram_engine_new_inv:
  assumes "datagram_engine_new limits proxy association dir v = Inr e"
  shows "datagram_inv (datagram_start e)" "de_limits e = limits" "limits_ok limits"
  using assms
  by (auto simp: datagram_engine_new_def limits_validate_iff datagram_inv_def datagram_start_def datagram_wf_def occupancy_def
      queue_load_def datagram_evidence_default_def balanced_def run_identities_def split: sum.splits)

lemma datagram_runs_inv: "datagram_runs s s' \<Longrightarrow> datagram_inv s \<Longrightarrow> datagram_inv s'"
  by (induction rule: datagram_runs.induct) (auto intro: datagram_inv_step)

lemma datagram_step_limits:
  assumes "datagram_step s s'" "datagram_inv s"
  shows "de_limits (dr_engine s') = de_limits (dr_engine s)"
  using assms(1)
proof (cases rule: datagram_step_cases)
  case (step_admit policy now payload r e')
  then show ?thesis using admit_effect [OF _ step_admit(2-4)] assms(2) by (simp add: datagram_inv_def admission_effect_def)
next
  case (step_take now out e')
  then show ?thesis by (auto simp: take_ready_def Let_def split: prod.splits)
qed (auto simp: discard_all_def)

lemma datagram_runs_limits:
  "datagram_runs s s' \<Longrightarrow> datagram_inv s \<Longrightarrow> de_limits (dr_engine s') = de_limits (dr_engine s)"
  by (induction rule: datagram_runs.induct) (auto simp: datagram_step_limits datagram_runs_inv)

end
