(* ===== verification/AssociationAccounts.thy ===== *)
theory AssociationAccounts
  imports AssociationWorker DatagramAdmit
begin

text \<open>
  Accounting of the association worker: what the engines hand out is sent, failed or discarded, each datagram counted
  once. Counters saturate, so every statement is about counters below \<^verbatim>\<open>u64::MAX\<close>; as they never decrease, the last value
  decides. \<open>shift c w w'\<close> says that between two states of a worker the record gained \<open>c\<close> more entries than the engines
  handed out; it composes along the loop.
\<close>

section \<open>Engine counters\<close>

abbreviation handed :: "datagram_engine \<Rightarrow> nat" where "handed e \<equiv> dv_emitted_datagrams (de_evidence e)"
abbreviation taken :: "datagram_engine \<Rightarrow> nat" where "taken e \<equiv> dv_admitted_datagrams (de_evidence e)"

lemma below_min: "min a m = min b m \<Longrightarrow> a < (m :: nat) \<Longrightarrow> a = b"
  by (simp add: min_def split: if_splits)

lemma sat_add_below: "sat_add64 a n < U64_MAX \<Longrightarrow> sat_add64 a n = a + n"
  by (auto simp: sat_add64_def min_def split: if_splits)

lemma pop_ready_counts:
  "pop_ready now q ev = (out, q', ev') \<Longrightarrow>
     min (dv_emitted_datagrams ev') U64_MAX = min (dv_emitted_datagrams ev + length out) U64_MAX \<and>
     dv_admitted_datagrams ev' = dv_admitted_datagrams ev"
proof (induction now q ev arbitrary: out q' ev' rule: pop_ready.induct)
  case (2 now c q ev)
  show ?case
  proof (cases "cd_at c \<le> now")
    case True
    obtain o1 q1 ev1 where r: "pop_ready now q (note_emitted (length (cd_payload c)) ev) = (o1, q1, ev1)" by (metis prod_cases3)
    then have "out = scheduled_of c # o1" "ev' = ev1" using "2.prems" True by auto
    with "2.IH" [OF True r] show ?thesis by (auto simp: note_emitted_def sat_add64_def min_def split: if_splits)
  qed (use "2.prems" in auto)
qed simp

lemma take_ready_counts:
  assumes "take_ready now e = (out, e')"
  shows "handed e' < U64_MAX \<Longrightarrow> handed e' = handed e + length out" "taken e' = taken e"
proof -
  obtain o1 q ev where p: "pop_ready now (de_queue e) (de_evidence e) = (o1, q, ev)" by (metis prod_cases3)
  with assms have e: "out = o1" "de_evidence e' = ev" by (auto simp: take_ready_def)
  show "handed e' < U64_MAX \<Longrightarrow> handed e' = handed e + length out" "taken e' = taken e"
    using pop_ready_counts [OF p] below_min [of "handed e'"] e by auto
qed

lemma enqueue_all_counts:
  "enqueue_all now ord gen items b e = Some (b', e') \<Longrightarrow> handed e' = handed e \<and> taken e' = taken e"
proof (induction items arbitrary: b e)
  case (Cons item items)
  obtain copy bytes d where item: "item = (copy, bytes, d)" by (cases item)
  show ?case
  proof (cases "queue_fits (length bytes) e")
    case True
    then obtain t where t: "enqueue_all now ord gen items True (enqueue t ord copy bytes gen e) = Some (b', e')"
      using Cons.prems item by (auto split: option.splits)
    from Cons.IH [OF t] show ?thesis by (simp add: enqueue_def note_queued_def Let_def)
  next
    case False
    then have t: "enqueue_all now ord gen items b (count_evidence note_overflow e) = Some (b', e')" using Cons.prems item by simp
    from Cons.IH [OF t] show ?thesis by (simp add: note_overflow_def)
  qed
qed simp

lemma dispatch_counts:
  assumes "dispatch now ord gen items e = Some (r, e')"
  shows "min (handed e') U64_MAX = min (handed e + length (emitted_now r)) U64_MAX \<and> taken e' = taken e"
proof (cases "all_immediate items e")
  case True
  obtain o1 e1 where emit: "emit_all ord gen items e = (o1, e1)" by fastforce
  then have r: "r = Immediate (sort_key release_key o1)" "e' = e1"
    using assms True by (simp_all add: dispatch_def release_key_def [abs_def])
  note ef = emit_all_fold [OF emit, of now]
  have "emits (length items) (items_load items) (de_evidence e) (de_evidence e')" using pass_through_emits ef r(2) by simp
  then have "min (handed e') U64_MAX = min (handed e + length items) U64_MAX" "erase_counts (de_evidence e') = erase_counts (de_evidence e)"
    by (simp_all add: emits_def)
  moreover from arg_cong [OF this(2), of dv_admitted_datagrams] have "taken e' = taken e" by (simp add: erase_counts_def)
  ultimately show ?thesis using ef r(1) by simp
next
  case False
  then show ?thesis using assms enqueue_all_counts by (auto simp: dispatch_def split: if_splits option.splits)
qed

lemma stage_frame_taken: "stage_frame e e' \<Longrightarrow> taken e' = taken e"
proof -
  assume "stage_frame e e'"
  then have same: "erase_stage e' = erase_stage e" by (simp add: stage_frame_def)
  from arg_cong [OF this, of "\<lambda>e. dv_admitted_datagrams (de_evidence e)"] show ?thesis by (simp add: erase_stage_def)
qed

lemma admit_counts:
  assumes wf: "datagram_wf e" and now: "now \<le> INSTANT_MAX" and run: "admit now payload policy e = Some (r, e')"
  shows "handed e' < U64_MAX \<Longrightarrow> handed e' = handed e + length (emitted_now r)" "taken e' = sat_add64 (taken e) 1"
proof -
  let ?e1 = "count_evidence (count_admitted (length payload)) (e\<lparr>de_ordinal := sat_add64 (de_ordinal e) 1\<rparr>)"
  let ?e2 = "observe_policy policy ?e1"
  let ?fs = "dp_faults (pub_plan policy)"
  have "min (handed e') U64_MAX = min (handed e + length (emitted_now r)) U64_MAX \<and> taken e' = sat_add64 (taken e) 1"
  proof (cases "max_datagram_bytes (de_limits e) < length payload")
    case True
    then have "r = Consumed" "e' = count_evidence note_oversize ?e1" using run by (simp_all add: admit_def Let_def)
    then show ?thesis by (simp add: note_oversize_def count_admitted_def)
  next
    case False
    have wf2: "datagram_wf ?e2" using wf by (simp add: datagram_wf_def)
    obtain items e3 where st: "run_stages (seed_namespace policy) now (de_ordinal e) 0 ?fs [(0, payload, 0)] 1 ?e2 = (items, e3)"
      by fastforce
    have disp: "dispatch now (de_ordinal e) (generation policy) items e3 = Some (r, e')"
    proof (cases "?fs = []")
      case True
      then have "items = [(0, payload, 0)]" "e3 = ?e2" using st by simp_all
      then show ?thesis using unfaulted_dispatch [OF wf2 _ now] False True run by (simp add: admit_def Let_def)
    next
      case Fs: False
      then show ?thesis using st run False by (simp add: admit_def Let_def)
    qed
    have "stage_frame ?e2 e3" using run_stages_flow [OF st] by (simp add: flow_def)
    from stage_frame_evidence(5) [OF this] stage_frame_taken [OF this]
    have "handed e3 = handed e" "taken e3 = sat_add64 (taken e) 1"
      by (simp_all add: observe_policy_def count_admitted_def Let_def split: if_splits)
    with dispatch_counts [OF disp] show ?thesis by simp
  qed
  then show "handed e' < U64_MAX \<Longrightarrow> handed e' = handed e + length (emitted_now r)" "taken e' = sat_add64 (taken e) 1"
    using below_min [of "handed e'"] by auto
qed

section \<open>Sending\<close>

definition settled :: "association_record \<Rightarrow> nat" where
  "settled r = ar_egress_datagrams r + ar_send_errors r + ar_administrative_discards r"

definition unsaturated :: "association_record \<Rightarrow> bool" where
  "unsaturated r = (ar_egress_datagrams r < U64_MAX \<and> ar_send_errors r < U64_MAX \<and> ar_administrative_discards r < U64_MAX)"

lemma count_send_counts:
  assumes "sn_datagrams (count_send p x k) < U64_MAX" "sn_errors (count_send p x k) < U64_MAX"
  shows "sn_datagrams (count_send p x k) + sn_errors (count_send p x k) = Suc (sn_datagrams k + sn_errors k)"
    "sn_datagrams k < U64_MAX" "sn_errors k < U64_MAX"
  using assms by (cases x; auto simp: sat_add64_def min_def split: if_splits)+

lemma send_loop_counts:
  "send_loop env i ds k = (l, k') \<Longrightarrow> sn_datagrams k' < U64_MAX \<Longrightarrow> sn_errors k' < U64_MAX \<Longrightarrow>
     sn_datagrams k < U64_MAX \<and> sn_errors k < U64_MAX \<and>
     sn_datagrams k' + sn_errors k' + (case l of None \<Rightarrow> 0 | Some n \<Rightarrow> n) = sn_datagrams k + sn_errors k + length ds"
proof (induction ds arbitrary: i k)
  case (Cons d ds)
  show ?case
  proof (cases "fst (env i)")
    case False
    then have "send_loop env (Suc i) ds (count_send (sd_payload d) (snd (env i)) k) = (l, k')" using Cons.prems(1) by simp
    from Cons.IH [OF this Cons.prems(2,3)] count_send_counts [of "sd_payload d" "snd (env i)" k] show ?thesis by simp
  qed (use Cons.prems in auto)
qed simp

lemma add_counts_settled:
  assumes "unsaturated (add_counts k r)"
  shows "unsaturated r" "settled (add_counts k r) = settled r + sn_datagrams k + sn_errors k"
    "sn_datagrams k < U64_MAX" "sn_errors k < U64_MAX"
  using assms by (auto simp: unsaturated_def settled_def add_counts_def sat_add64_def min_def split: if_splits)

definition zero_counts :: send_counts where
  "zero_counts = \<lparr>sn_datagrams = 0, sn_bytes = 0, sn_errors = 0\<rparr>"

lemma send_ready_settled:
  assumes "send_ready env ready r = (stop, dirty, r')" "unsaturated r'"
  shows "unsaturated r" "settled r' = settled r + length ready"
proof -
  obtain l k where l: "send_loop env 0 ready zero_counts = (l, k)" by fastforce
  have "unsaturated r \<and> settled r' = settled r + length ready"
  proof (cases l)
    case None
    then have n: "send_loop env 0 ready zero_counts = (None, k)" using l by simp
    show ?thesis
    proof (cases "0 < sn_datagrams k \<or> 0 < sn_errors k")
      case True
      then have "r' = add_counts k r" using assms(1) n by (simp add: send_ready_def zero_counts_def)
      with add_counts_settled [of k r] send_loop_counts [OF n] assms(2) show ?thesis by (simp add: zero_counts_def)
    next
      case False
      then have "r' = r" "sn_datagrams k = 0" "sn_errors k = 0" using assms(1) n by (simp_all add: send_ready_def zero_counts_def)
      with send_loop_counts [OF n] assms(2) show ?thesis by (simp add: zero_counts_def U64_MAX_def)
    qed
  next
    case (Some m)
    then have r': "r' = (add_counts k r)\<lparr>ar_administrative_discards := sat_add64 (ar_administrative_discards (add_counts k r)) m\<rparr>"
      using assms(1) l by (simp add: send_ready_def zero_counts_def Let_def)
    then have u: "unsaturated (add_counts k r)" "settled r' = settled (add_counts k r) + m"
      using assms(2) by (auto simp: unsaturated_def settled_def sat_add64_def min_def split: if_splits)
    from add_counts_settled [OF u(1)] send_loop_counts [OF l] u(2) Some show ?thesis by (simp add: zero_counts_def)
  qed
  then show "unsaturated r" "settled r' = settled r + length ready" by simp_all
qed

section \<open>The loop\<close>

definition countable :: "worker \<Rightarrow> bool" where
  "countable w = (unsaturated (wk_record w) \<and> handed (wk_upstream w) < U64_MAX \<and> handed (wk_downstream w) < U64_MAX)"

definition outgoing :: "worker \<Rightarrow> nat" where
  "outgoing w = handed (wk_upstream w) + handed (wk_downstream w)"

definition shift :: "nat \<Rightarrow> worker \<Rightarrow> worker \<Rightarrow> bool" where
  "shift c w w' = (countable w' \<longrightarrow> countable w \<and>
     settled (wk_record w') + outgoing w = settled (wk_record w) + outgoing w' + c)"

lemma shift_refl [simp]: "shift 0 w w"
  by (simp add: shift_def)

lemma shift_trans: "shift a w w1 \<Longrightarrow> shift b w1 w2 \<Longrightarrow> shift (a + b) w w2"
  by (auto simp: shift_def)

lemma shift_same_counts:
  assumes "settled (wk_record w') = settled (wk_record w)" "unsaturated (wk_record w') = unsaturated (wk_record w)"
    "handed (wk_upstream w') = handed (wk_upstream w)" "handed (wk_downstream w') = handed (wk_downstream w)"
  shows "shift 0 w w'"
  using assms by (simp add: shift_def countable_def outgoing_def)

lemma settled_touch [simp]: "settled (touch t r) = settled r" "unsaturated (touch t r) = unsaturated r"
  by (simp_all add: touch_def settled_def unsaturated_def)

lemma shift_evidence [simp]: "shift 0 w (update_evidence w)"
  by (rule shift_same_counts) (simp_all add: update_evidence_def settled_def unsaturated_def)

text \<open>The engine hands out a batch which is then sent.\<close>

lemma shift_up:
  assumes "\<And>m. handed up = m \<Longrightarrow> m < U64_MAX \<Longrightarrow> m = handed (wk_upstream w) + length ready"
    and "send_ready env ready (wk_record w) = (stop, dirty, r)"
  shows "shift 0 w (w\<lparr>wk_upstream := up, wk_record := r\<rparr>)"
  using assms(1) [OF refl] send_ready_settled [OF assms(2)] by (auto simp: shift_def countable_def outgoing_def)

lemma shift_down:
  assumes "\<And>m. handed down = m \<Longrightarrow> m < U64_MAX \<Longrightarrow> m = handed (wk_downstream w) + length ready"
    and "send_ready env ready (wk_record w) = (stop, dirty, r)"
  shows "shift 0 w (w\<lparr>wk_downstream := down, wk_record := r\<rparr>)"
  using assms(1) [OF refl] send_ready_settled [OF assms(2)] by (auto simp: shift_def countable_def outgoing_def)

lemma send_nothing: "send_ready env [] r = (False, False, r)"
  by (simp add: send_ready_def)

lemma emit_ready_unfold:
  "emit_ready up_env down_env now w =
     (let (ready, up) = take_ready now (wk_upstream w);
          (stop1, dirty1, r1) = send_ready up_env ready (wk_record w);
          w2 = w\<lparr>wk_upstream := up, wk_record := r1\<rparr>
      in if stop1 then (True, dirty1, w2)
         else let (ready2, down) = take_ready now (wk_downstream w2);
                  (stop2, dirty2, r2) = send_ready down_env ready2 (wk_record w2)
              in (stop2, dirty1 \<or> dirty2, w2\<lparr>wk_downstream := down, wk_record := r2\<rparr>))"
  by (simp add: emit_ready_def send_nothing Let_def split_def)

lemma emit_ready_parts:
  assumes "emit_ready up_env down_env now w = (stop, dirty, w')"
  obtains ready up where "take_ready now (wk_upstream w) = (ready, up)" "wk_upstream w' = up"
    "wk_downstream w' = wk_downstream w \<or> (\<exists>ready2. take_ready now (wk_downstream w) = (ready2, wk_downstream w'))"
    "shift 0 w w'"
proof -
  obtain ready up where up: "take_ready now (wk_upstream w) = (ready, up)" by fastforce
  obtain stop1 dirty1 r1 where s1: "send_ready up_env ready (wk_record w) = (stop1, dirty1, r1)" by (metis prod_cases3)
  let ?w2 = "w\<lparr>wk_upstream := up, wk_record := r1\<rparr>"
  have sh1: "shift 0 w ?w2" using shift_up [OF _ s1, of up] take_ready_counts(1) [OF up] by simp
  show thesis
  proof (cases stop1)
    case True
    then have "w' = ?w2" using assms up s1 by (simp add: emit_ready_unfold)
    with that [OF up] sh1 show ?thesis by simp
  next
    case False
    obtain ready2 down where down: "take_ready now (wk_downstream w) = (ready2, down)" by fastforce
    obtain stop2 dirty2 r2 where s2: "send_ready down_env ready2 (wk_record ?w2) = (stop2, dirty2, r2)" by (metis prod_cases3)
    have w': "w' = ?w2\<lparr>wk_downstream := down, wk_record := r2\<rparr>" using assms up s1 False down s2 by (simp add: emit_ready_unfold)
    have "shift 0 ?w2 w'" using shift_down [OF _ s2, of down] take_ready_counts(1) [OF down] w' by simp
    from shift_trans [OF sh1 this] that [OF up] w' down show ?thesis by simp
  qed
qed

lemma emit_admitted_send:
  assumes "emit_admitted env a r = (stop, r')"
  shows "\<exists>dirty. send_ready env (emitted_now a) r = (stop, dirty, r')"
  using assms by (cases a) (auto simp: send_nothing split: prod.splits)

fun receive_errors :: "turn_event \<Rightarrow> nat" where
  "receive_errors TurnReceiveError = 1"
| "receive_errors _ = 0"

lemma turn_arm_shift:
  assumes "turn_arm max_bytes env ev dirty w = Some (stop, dirty', w')" "datagram_wf (wk_upstream w)" "datagram_wf (wk_downstream w)"
    "te_admit env \<le> INSTANT_MAX"
  shows "shift (receive_errors ev) w w'"
proof (cases ev)
  case (TurnIngress payload policy)
  then obtain a up stop1 r where a: "admit (te_admit env) payload policy (wk_upstream w) = Some (a, up)"
    "emit_admitted (te_send env) a (wk_record w) = (stop1, r)"
    "w' = w\<lparr>wk_upstream := up, wk_record := r\<rparr> \<or> w' = w\<lparr>wk_upstream := up, wk_record := touch (te_activity env) r\<rparr>"
    using assms(1) by (auto simp: Let_def split: option.splits prod.splits if_splits)
  obtain d where "send_ready (te_send env) (emitted_now a) (wk_record w) = (stop1, d, r)" using emit_admitted_send [OF a(2)] by blast
  from shift_up [OF _ this, of up] admit_counts(1) [OF assms(2,4) a(1)]
  have "shift 0 w (w\<lparr>wk_upstream := up, wk_record := r\<rparr>)" by simp
  then show ?thesis using a(3) TurnIngress by (auto simp: shift_def countable_def outgoing_def)
next
  case (TurnReceived payload policy)
  show ?thesis
  proof (cases "max_bytes < length payload")
    case True
    then have "w' = w\<lparr>wk_record := touch (te_activity env) ((wk_record w)\<lparr>ar_oversize_datagrams := sat_add64 (ar_oversize_datagrams (wk_record w)) 1\<rparr>)\<rparr>"
      using assms(1) TurnReceived by (simp add: Let_def)
    then have "shift 0 w w'" by (intro shift_same_counts) (simp_all add: settled_def unsaturated_def touch_def)
    with TurnReceived show ?thesis by simp
  next
    case False
    then obtain a down stop1 r where a: "admit (te_admit env) payload policy (wk_downstream w) = Some (a, down)"
      "emit_admitted (te_send env) a (wk_record w) = (stop1, r)"
      "w' = w\<lparr>wk_downstream := down, wk_record := r\<rparr> \<or> w' = w\<lparr>wk_downstream := down, wk_record := touch (te_activity env) r\<rparr>"
      using assms(1) TurnReceived by (auto simp: Let_def split: option.splits prod.splits if_splits)
    obtain d where "send_ready (te_send env) (emitted_now a) (wk_record w) = (stop1, d, r)" using emit_admitted_send [OF a(2)] by blast
    from shift_down [OF _ this, of down] admit_counts(1) [OF assms(3,4) a(1)]
    have "shift 0 w (w\<lparr>wk_downstream := down, wk_record := r\<rparr>)" by simp
    then show ?thesis using a(3) TurnReceived by (auto simp: shift_def countable_def outgoing_def)
  qed
next
  case TurnReceiveError
  then have "w' = w\<lparr>wk_record := (wk_record w)\<lparr>ar_send_errors := sat_add64 (ar_send_errors (wk_record w)) 1\<rparr>\<rparr>"
    using assms(1) by (simp add: Let_def)
  with TurnReceiveError show ?thesis
    by (auto simp: shift_def countable_def outgoing_def unsaturated_def settled_def sat_add64_def min_def split: if_splits)
qed (use assms(1) in auto)

end
