(* ===== verification/AssociationRuns.thy ===== *)
theory AssociationRuns
  imports AssociationAccounts
begin

text \<open>
  One association from the start of its worker to the end of its task, with client datagrams delivered at any time. The
  worker stops, counts what is left, and only then drops the receiving end of its channel; a delivery between these two
  still succeeds. Other associations reserve bytes of the same budget. A received datagram gives its reservation back at
  once; the code holds it until the sends of that turn returned, so its counter may stand higher by one datagram meanwhile.

  \<open>av_receive_errors\<close>, \<open>av_closed\<close>, \<open>av_discarded\<close>, \<open>av_left\<close> and \<open>av_late\<close> only count what happened; no step reads them.
\<close>

section \<open>Steps\<close>

datatype worker_phase = WorkerRunning | WorkerStopped | WorkerFinished | WorkerGone

record association_world =
  av_up :: datagram_engine
  av_down :: datagram_engine
  av_delivery :: delivery
  av_phase :: worker_phase
  av_admin :: bool
  av_other :: nat
  av_receive_errors :: nat
  av_closed :: nat
  av_discarded :: nat
  av_left :: nat
  av_late :: nat

definition av_worker :: "association_world \<Rightarrow> worker" where
  "av_worker s = \<lparr>wk_upstream = av_up s, wk_downstream = av_down s, wk_record = dl_record (av_delivery s)\<rparr>"

definition put_worker :: "worker \<Rightarrow> delivery \<Rightarrow> association_world \<Rightarrow> association_world" where
  "put_worker w d s = s\<lparr>av_up := wk_upstream w, av_down := wk_downstream w, av_delivery := d\<lparr>dl_record := wk_record w\<rparr>\<rparr>"

definition channel_load :: "ingress list \<Rightarrow> nat" where
  "channel_load q = (\<Sum>m\<leftarrow>q. length (fst m))"

text \<open>Receiving from the channel drops the message and its reservation.\<close>

fun take_event :: "turn_event \<Rightarrow> delivery \<Rightarrow> delivery option" where
  "take_event (TurnIngress payload policy) d =
     (case dl_channel d of
        [] \<Rightarrow> None
      | m # ms \<Rightarrow>
          if m = (payload, policy)
          then Some (d\<lparr>dl_channel := ms, dl_pending := dl_pending d - 1, dl_buffered := dl_buffered d - length payload\<rparr>)
          else None)"
| "take_event _ d = Some d"

fun event_policy_ok :: "turn_event \<Rightarrow> bool" where
  "event_policy_ok (TurnIngress _ policy) = datagram_plan_ok (pub_plan policy)"
| "event_policy_ok (TurnReceived _ policy) = datagram_plan_ok (pub_plan policy)"
| "event_policy_ok _ = True"

inductive association_step :: "datagram_runtime_limits \<Rightarrow> nat \<Rightarrow> association_world \<Rightarrow> association_world \<Rightarrow> bool" for limits max_bytes where
  step_deliver: "d = deliver_ingress limits policy now payload (av_delivery s) \<Longrightarrow>
    association_step limits max_bytes s
      (s\<lparr>av_delivery := d,
         av_closed := av_closed s + (if ar_administrative_discards (dl_record d) = ar_administrative_discards (dl_record (av_delivery s)) then 0 else 1),
         av_late := av_late s + (if av_phase s = WorkerFinished then length (dl_channel d) - length (dl_channel (av_delivery s)) else 0)\<rparr>)"
| step_reserve: "reserve_ingress n (rl_max_ingress_queue_bytes limits) (dl_buffered (av_delivery s)) = Some b \<Longrightarrow>
    association_step limits max_bytes s (s\<lparr>av_delivery := (av_delivery s)\<lparr>dl_buffered := b\<rparr>, av_other := av_other s + n\<rparr>)"
| step_release: "n \<le> av_other s \<Longrightarrow>
    association_step limits max_bytes s
      (s\<lparr>av_delivery := (av_delivery s)\<lparr>dl_buffered := dl_buffered (av_delivery s) - n\<rparr>, av_other := av_other s - n\<rparr>)"
| step_cancel: "av_phase s = WorkerRunning \<Longrightarrow> association_step limits max_bytes s (s\<lparr>av_admin := True\<rparr>)"
| step_stop: "av_phase s = WorkerRunning \<Longrightarrow> emit_ready (te_up (env :: turn_env)) (te_down env) (te_now env) (av_worker s) = (True, dirty, w) \<Longrightarrow>
    association_step limits max_bytes s ((put_worker w (av_delivery s) s)\<lparr>av_phase := WorkerStopped\<rparr>)"
| step_turn: "av_phase s = WorkerRunning \<Longrightarrow> \<not> fst (emit_ready (te_up env) (te_down env) (te_now env) (av_worker s)) \<Longrightarrow>
    te_admit env \<le> INSTANT_MAX \<Longrightarrow> event_policy_ok ev \<Longrightarrow> take_event ev (av_delivery s) = Some d \<Longrightarrow>
    worker_turn max_bytes env ev (av_worker s) = Some (stop, w) \<Longrightarrow>
    association_step limits max_bytes s
      ((put_worker w d s)\<lparr>av_phase := (if stop then WorkerStopped else WorkerRunning),
                          av_receive_errors := av_receive_errors s + receive_errors ev\<rparr>)"
| step_finish: "av_phase s = WorkerStopped \<Longrightarrow> worker_finish (av_admin s) (length (dl_channel (av_delivery s))) (av_worker s) = (n, w) \<Longrightarrow>
    association_step limits max_bytes s
      ((put_worker w (av_delivery s) s)\<lparr>av_phase := WorkerFinished, av_discarded := n,
                                        av_left := length (dl_channel (av_delivery s))\<rparr>)"
| step_drop: "av_phase s = WorkerFinished \<Longrightarrow>
    association_step limits max_bytes s
      (s\<lparr>av_phase := WorkerGone,
         av_delivery := (av_delivery s)\<lparr>dl_channel := [], dl_closed := True,
                                        dl_buffered := dl_buffered (av_delivery s) - channel_load (dl_channel (av_delivery s))\<rparr>\<rparr>)"

inductive association_runs :: "datagram_runtime_limits \<Rightarrow> nat \<Rightarrow> association_world \<Rightarrow> association_world \<Rightarrow> bool" for limits max_bytes where
  association_refl: "association_runs limits max_bytes s s"
| association_next: "association_runs limits max_bytes s s' \<Longrightarrow> association_step limits max_bytes s' s'' \<Longrightarrow> association_runs limits max_bytes s s''"

inductive_cases association_step_cases [consumes 1, case_names deliver reserve release cancel stop turn finish drop]:
  "association_step limits max_bytes s s'"

definition association_start :: "datagram_proxy_spec \<Rightarrow> u64 \<Rightarrow> socket_addr \<Rightarrow> instant \<Rightarrow> proxy_counters \<Rightarrow> nat \<Rightarrow> string + association_world" where
  "association_start spec i client now counters other =
     (case worker_new spec i (association_record_new i spec client now) of
        Inl e \<Rightarrow> Inl e
      | Inr w \<Rightarrow>
          Inr \<lparr>av_up = wk_upstream w, av_down = wk_downstream w,
               av_delivery = \<lparr>dl_counters = counters, dl_buffered = other, dl_channel = [], dl_closed = False, dl_pending = 0, dl_record = wk_record w\<rparr>,
               av_phase = WorkerRunning, av_admin = False, av_other = other, av_receive_errors = 0, av_closed = 0, av_discarded = 0,
               av_left = 0, av_late = 0\<rparr>)"

section \<open>Engines\<close>

text \<open>The engines take exactly the steps of the engine's own step relation.\<close>

definition engine_reaches :: "datagram_engine \<Rightarrow> nat \<Rightarrow> datagram_engine \<Rightarrow> bool" where
  "engine_reaches e0 n e = (\<exists>s. datagram_runs (datagram_start e0) s \<and> dr_engine s = e \<and> dr_discarded s = n)"

lemma engine_reaches_start: "engine_reaches e 0 e"
  using datagram_refl [of "datagram_start e"] by (auto simp: engine_reaches_def datagram_start_def)

lemma engine_reaches_step:
  assumes "engine_reaches e0 n e" "\<And>s. dr_engine s = e \<Longrightarrow> datagram_step s (f s) \<and> dr_engine (f s) = e' \<and> dr_discarded (f s) = dr_discarded s + m"
  shows "engine_reaches e0 (n + m) e'"
proof -
  obtain s where s: "datagram_runs (datagram_start e0) s" "dr_engine s = e" "dr_discarded s = n" using assms(1) by (auto simp: engine_reaches_def)
  from datagram_next [OF s(1)] assms(2) [OF s(2)] s(3) show ?thesis by (auto simp: engine_reaches_def)
qed

lemma engine_reaches_admit:
  assumes "engine_reaches e0 n e" "datagram_plan_ok (pub_plan policy)" "now \<le> INSTANT_MAX" "admit now payload policy e = Some (r, e')"
  shows "engine_reaches e0 n e'"
  using engine_reaches_step [OF assms(1), of "\<lambda>s. s\<lparr>dr_engine := e', dr_emitted := dr_emitted s @ emitted_now r\<rparr>" e' 0]
    step_admit [OF assms(2,3)] assms(4) by simp

lemma engine_reaches_take:
  assumes "engine_reaches e0 n e" "take_ready now e = (out, e')"
  shows "engine_reaches e0 n e'"
  using engine_reaches_step [OF assms(1), of "\<lambda>s. s\<lparr>dr_engine := e', dr_emitted := dr_emitted s @ out\<rparr>" e' 0] step_take assms(2) by simp

lemma engine_reaches_discard:
  assumes "engine_reaches e0 n e" "discard_all e = (m, e')"
  shows "engine_reaches e0 (n + m) e'"
  using engine_reaches_step [OF assms(1), of "\<lambda>s. s\<lparr>dr_engine := e', dr_discarded := dr_discarded s + m\<rparr>" e' m] step_discard assms(2) by simp

lemma engine_reaches_facts:
  assumes "datagram_engine_new limits proxy association dir v = Inr e0" "engine_reaches e0 n e"
  shows "datagram_wf e" "balanced n (de_evidence e)"
  using datagram_runs_inv [OF _ datagram_engine_new_inv(1) [OF assms(1)]] assms(2) by (auto simp: engine_reaches_def datagram_inv_def)

section \<open>What a turn changes\<close>

lemma send_ready_ingress: "send_ready env ready r = (stop, dirty, r') \<Longrightarrow> ar_ingress_datagrams r' = ar_ingress_datagrams r"
  by (auto simp: send_ready_def add_counts_def Let_def split: prod.splits option.splits if_splits)

lemma emit_admitted_ingress: "emit_admitted env a r = (stop, r') \<Longrightarrow> ar_ingress_datagrams r' = ar_ingress_datagrams r"
  by (cases a) (auto dest: send_ready_ingress split: prod.splits)

lemma emit_ready_ingress:
  "emit_ready up_env down_env now w = (stop, dirty, w') \<Longrightarrow> ar_ingress_datagrams (wk_record w') = ar_ingress_datagrams (wk_record w)"
  by (auto simp: emit_ready_unfold Let_def split: prod.splits if_splits dest!: send_ready_ingress)

lemma turn_arm_ingress:
  "turn_arm max_bytes env ev dirty w = Some (stop, dirty', w') \<Longrightarrow> ar_ingress_datagrams (wk_record w') = ar_ingress_datagrams (wk_record w)"
  by (cases ev) (auto simp: Let_def touch_def split: option.splits prod.splits if_splits dest!: emit_admitted_ingress)

fun admitted_count :: "turn_event \<Rightarrow> nat" where
  "admitted_count (TurnIngress _ _) = 1"
| "admitted_count _ = 0"

lemma turn_arm_engines:
  assumes "turn_arm max_bytes env ev dirty w = Some (stop, dirty', w')" "te_admit env \<le> INSTANT_MAX" "event_policy_ok ev"
    "engine_reaches up0 0 (wk_upstream w)" "engine_reaches down0 0 (wk_downstream w)" "datagram_wf (wk_upstream w)"
  shows "engine_reaches up0 0 (wk_upstream w')" "engine_reaches down0 0 (wk_downstream w')"
    "taken (wk_upstream w') < U64_MAX \<Longrightarrow> taken (wk_upstream w') = taken (wk_upstream w) + admitted_count ev"
proof -
  have "engine_reaches up0 0 (wk_upstream w') \<and> engine_reaches down0 0 (wk_downstream w') \<and>
    (taken (wk_upstream w') < U64_MAX \<longrightarrow> taken (wk_upstream w') = taken (wk_upstream w) + admitted_count ev)"
  proof (cases ev)
    case (TurnIngress payload policy)
    then obtain a up where a: "admit (te_admit env) payload policy (wk_upstream w) = Some (a, up)" "wk_upstream w' = up" "wk_downstream w' = wk_downstream w"
      using assms(1) by (auto simp: Let_def split: option.splits prod.splits if_splits)
    then show ?thesis using engine_reaches_admit [OF assms(4) _ assms(2) a(1)] admit_counts(2) [OF assms(6,2) a(1)] assms(3,5) TurnIngress
      sat_add_below [of "taken (wk_upstream w)" 1] by simp
  next
    case (TurnReceived payload policy)
    then consider "wk_upstream w' = wk_upstream w" "wk_downstream w' = wk_downstream w"
      | a down where "admit (te_admit env) payload policy (wk_downstream w) = Some (a, down)" "wk_upstream w' = wk_upstream w" "wk_downstream w' = down"
      using assms(1) by (auto simp: Let_def split: option.splits prod.splits if_splits)
    then show ?thesis using engine_reaches_admit [OF assms(5) _ assms(2)] assms(3,4,5) TurnReceived by cases auto
  qed (use assms in \<open>auto simp: Let_def\<close>)
  then show "engine_reaches up0 0 (wk_upstream w')" "engine_reaches down0 0 (wk_downstream w')"
    "taken (wk_upstream w') < U64_MAX \<Longrightarrow> taken (wk_upstream w') = taken (wk_upstream w) + admitted_count ev" by simp_all
qed

lemma finish_turn_same:
  assumes "finish_turn (stop, dirty, w) = (stop', w')"
  shows "stop' = stop" "wk_upstream w' = wk_upstream w" "wk_downstream w' = wk_downstream w" "shift 0 w w'"
    "ar_ingress_datagrams (wk_record w') = ar_ingress_datagrams (wk_record w)"
  using assms by (auto simp: finish_turn_def update_evidence_def split: if_splits intro: shift_evidence [unfolded update_evidence_def])

lemma emit_ready_engines:
  assumes "emit_ready up_env down_env now w = (stop, dirty, w')"
    "engine_reaches up0 0 (wk_upstream w)" "engine_reaches down0 0 (wk_downstream w)"
  shows "engine_reaches up0 0 (wk_upstream w')" "engine_reaches down0 0 (wk_downstream w')" "taken (wk_upstream w') = taken (wk_upstream w)" "shift 0 w w'"
proof -
  obtain ready up where up: "take_ready now (wk_upstream w) = (ready, up)" "wk_upstream w' = up"
    "wk_downstream w' = wk_downstream w \<or> (\<exists>ready2. take_ready now (wk_downstream w) = (ready2, wk_downstream w'))" "shift 0 w w'"
    by (rule emit_ready_parts [OF assms(1)])
  then show "engine_reaches up0 0 (wk_upstream w')" "engine_reaches down0 0 (wk_downstream w')" "taken (wk_upstream w') = taken (wk_upstream w)" "shift 0 w w'"
    using engine_reaches_take [OF assms(2) up(1)] engine_reaches_take [OF assms(3)] assms(3) take_ready_counts(2) [OF up(1)] by auto
qed

lemma worker_turn_effect:
  assumes "worker_turn max_bytes env ev w = Some (stop, w')" "\<not> fst (emit_ready (te_up env) (te_down env) (te_now env) w)"
    "te_admit env \<le> INSTANT_MAX" "event_policy_ok ev"
    "engine_reaches up0 0 (wk_upstream w)" "engine_reaches down0 0 (wk_downstream w)"
    and wf: "\<And>n e. engine_reaches up0 n e \<Longrightarrow> datagram_wf e" "\<And>n e. engine_reaches down0 n e \<Longrightarrow> datagram_wf e"
  shows "engine_reaches up0 0 (wk_upstream w')" "engine_reaches down0 0 (wk_downstream w')" "shift (receive_errors ev) w w'"
    "ar_ingress_datagrams (wk_record w') = ar_ingress_datagrams (wk_record w)"
    "taken (wk_upstream w') < U64_MAX \<Longrightarrow> taken (wk_upstream w') = taken (wk_upstream w) + admitted_count ev"
proof -
  obtain dirty w1 where e: "emit_ready (te_up env) (te_down env) (te_now env) w = (False, dirty, w1)"
    using assms(2) by (cases "emit_ready (te_up env) (te_down env) (te_now env) w") auto
  then obtain stop1 dirty1 w2 where t: "turn_arm max_bytes env ev dirty w1 = Some (stop1, dirty1, w2)" "finish_turn (stop1, dirty1, w2) = (stop, w')"
    using assms(1) by (auto simp: worker_turn_def)
  note en = emit_ready_engines [OF e assms(5,6)]
  note arm = turn_arm_engines [OF t(1) assms(3,4) en(1,2) wf(1) [OF en(1)]]
  note fin = finish_turn_same [OF t(2)]
  show "engine_reaches up0 0 (wk_upstream w')" "engine_reaches down0 0 (wk_downstream w')" using arm fin by simp_all
  show "shift (receive_errors ev) w w'"
    using shift_trans [OF en(4) shift_trans [OF turn_arm_shift [OF t(1) wf(1) [OF en(1)] wf(2) [OF en(2)] assms(3)] fin(4)]] by simp
  show "ar_ingress_datagrams (wk_record w') = ar_ingress_datagrams (wk_record w)"
    using emit_ready_ingress [OF e] turn_arm_ingress [OF t(1)] fin(5) by simp
  show "taken (wk_upstream w') < U64_MAX \<Longrightarrow> taken (wk_upstream w') = taken (wk_upstream w) + admitted_count ev"
    using arm(3) en(3) fin(2) by simp
qed

section \<open>What a delivery and the end change\<close>

lemma deliver_cases:
  obtains (sent) b where "\<not> dl_closed d" "length (dl_channel d) < rl_ingress_per_association limits"
      "b = dl_buffered d + length payload" "b \<le> rl_max_ingress_queue_bytes limits"
      "deliver_ingress limits policy now payload d =
         d\<lparr>dl_buffered := b, dl_pending := dl_pending d + 1, dl_channel := dl_channel d @ [(payload, policy)],
           dl_record := touch now ((dl_record d)\<lparr>ar_ingress_datagrams := sat_add64 (ar_ingress_datagrams (dl_record d)) 1,
             ar_ingress_bytes := sat_add64 (ar_ingress_bytes (dl_record d)) (length payload)\<rparr>)\<rparr>"
  | (refused) r c where "r = dl_record d \<or> (dl_closed d \<and>
        r = (dl_record d)\<lparr>ar_administrative_discards := sat_add64 (ar_administrative_discards (dl_record d)) 1\<rparr>)"
      "deliver_ingress limits policy now payload d = d\<lparr>dl_counters := c, dl_record := note_ingress_overflow now r\<rparr>"
proof (cases "reserve_ingress (length payload) (rl_max_ingress_queue_bytes limits) (dl_buffered d)")
  case None
  show thesis by (rule refused [of "dl_record d" "count_ingress_overflow (dl_counters d)"]) (simp_all add: deliver_ingress_def None)
next
  case (Some b)
  consider "dl_closed d" | "\<not> dl_closed d" "rl_ingress_per_association limits \<le> length (dl_channel d)"
    | "\<not> dl_closed d" "length (dl_channel d) < rl_ingress_per_association limits" by linarith
  then show thesis
  proof cases
    case 1
    show thesis by (rule refused [OF disjI2 [OF conjI [OF 1 refl]]]) (simp add: deliver_ingress_def Some 1 Let_def)
  next
    case 2
    show thesis by (rule refused [of "dl_record d" "count_ingress_overflow (dl_counters d)"]) (simp_all add: deliver_ingress_def Some 2)
  next
    case 3
    then have "\<not> rl_ingress_per_association limits \<le> length (dl_channel d)" by simp
    with reserve_ingress_bound [OF Some] show thesis by (intro sent [OF 3, of b]) (simp_all add: deliver_ingress_def Some 3(1) Let_def)
  qed
qed

lemma deliver_settled:
  assumes "d' = deliver_ingress limits policy now payload d" "unsaturated (dl_record d')"
  shows "unsaturated (dl_record d)"
    "settled (dl_record d') = settled (dl_record d) +
       (if ar_administrative_discards (dl_record d') = ar_administrative_discards (dl_record d) then 0 else 1)"
proof -
  have "unsaturated (dl_record d) \<and> settled (dl_record d') = settled (dl_record d) +
       (if ar_administrative_discards (dl_record d') = ar_administrative_discards (dl_record d) then 0 else 1)"
    using assms
    by (cases rule: deliver_cases [of d limits payload policy now])
      (auto simp: unsaturated_def settled_def touch_def note_ingress_overflow_def sat_add64_def min_def split: if_splits)
  then show "unsaturated (dl_record d)"
    "settled (dl_record d') = settled (dl_record d) +
       (if ar_administrative_discards (dl_record d') = ar_administrative_discards (dl_record d) then 0 else 1)" by auto
qed

lemma deliver_evidence:
  "ar_upstream_evidence (dl_record (deliver_ingress limits policy now payload d)) = ar_upstream_evidence (dl_record d)"
  "ar_downstream_evidence (dl_record (deliver_ingress limits policy now payload d)) = ar_downstream_evidence (dl_record d)"
  by (cases rule: deliver_cases [of d limits payload policy now]; auto simp: touch_def note_ingress_overflow_def)+

lemma worker_finish_effect:
  assumes "worker_finish administrative channel w = (n, w')" "datagram_wf (wk_upstream w)" "datagram_wf (wk_downstream w)"
    "engine_reaches up0 0 (wk_upstream w)" "engine_reaches down0 0 (wk_downstream w)"
  obtains du dd where "engine_reaches up0 du (wk_upstream w')" "engine_reaches down0 dd (wk_downstream w')" "n = du + dd + channel"
    "de_queue (wk_upstream w') = []" "de_queue (wk_downstream w') = []" "taken (wk_upstream w') = taken (wk_upstream w)"
    "countable w' \<Longrightarrow> countable w \<and> outgoing w' = outgoing w \<and> settled (wk_record w') = settled (wk_record w) + (if administrative then n else 0)"
    "ar_upstream_evidence (wk_record w') = de_evidence (wk_upstream w')" "ar_downstream_evidence (wk_record w') = de_evidence (wk_downstream w')"
    "ar_ingress_datagrams (wk_record w') = ar_ingress_datagrams (wk_record w)"
proof -
  obtain du up dd down where d: "discard_all (wk_upstream w) = (du, up)" "discard_all (wk_downstream w) = (dd, down)" by fastforce
  have small: "length (de_queue e) \<le> 1000000" if "datagram_wf e" for e
    using that by (auto simp: datagram_wf_def occupancy_def limits_ok_def)
  have "du = length (de_queue (wk_upstream w))" "dd = length (de_queue (wk_downstream w))" using d by (auto simp: discard_all_def)
  then have "sat_add64 du dd = du + dd" using small [OF assms(2)] small [OF assms(3)] by (simp add: sat_add64_def U64_MAX_def)
  then have n: "n = du + dd + channel" using assms(1) d by (simp add: worker_finish_def Let_def)
  show thesis
    by (rule that [of du dd])
      (use assms(1) d n engine_reaches_discard [OF assms(4) d(1)] engine_reaches_discard [OF assms(5) d(2)] in
       \<open>auto simp: worker_finish_def update_evidence_def discard_all_def countable_def outgoing_def unsaturated_def settled_def
          sat_add64_def min_def Let_def split: if_splits\<close>)
qed

section \<open>The invariant\<close>

fun finished :: "worker_phase \<Rightarrow> bool" where
  "finished WorkerFinished = True"
| "finished WorkerGone = True"
| "finished _ = False"

definition engines_inv :: "datagram_engine \<Rightarrow> datagram_engine \<Rightarrow> association_world \<Rightarrow> bool" where
  "engines_inv up0 down0 s =
     (if finished (av_phase s)
      then (\<exists>du dd. engine_reaches up0 du (av_up s) \<and> engine_reaches down0 dd (av_down s) \<and> av_discarded s = du + dd + av_left s) \<and>
           de_queue (av_up s) = [] \<and> de_queue (av_down s) = [] \<and>
           ar_upstream_evidence (dl_record (av_delivery s)) = de_evidence (av_up s) \<and>
           ar_downstream_evidence (dl_record (av_delivery s)) = de_evidence (av_down s)
      else engine_reaches up0 0 (av_up s) \<and> engine_reaches down0 0 (av_down s) \<and> av_late s = 0)"

definition settled_inv :: "association_world \<Rightarrow> bool" where
  "settled_inv s = (countable (av_worker s) \<longrightarrow>
     settled (dl_record (av_delivery s)) = outgoing (av_worker s) + av_receive_errors s + av_closed s +
       (if finished (av_phase s) \<and> av_admin s then av_discarded s else 0))"

definition ingress_inv :: "association_world \<Rightarrow> bool" where
  "ingress_inv s =
     ((ar_ingress_datagrams (dl_record (av_delivery s)) < U64_MAX \<and> taken (av_up s) < U64_MAX \<longrightarrow>
        ar_ingress_datagrams (dl_record (av_delivery s)) =
          taken (av_up s) + (if av_phase s = WorkerGone then av_left s + av_late s else length (dl_channel (av_delivery s)))) \<and>
      (av_phase s = WorkerFinished \<longrightarrow> length (dl_channel (av_delivery s)) = av_left s + av_late s))"

definition buffer_inv :: "datagram_runtime_limits \<Rightarrow> association_world \<Rightarrow> bool" where
  "buffer_inv limits s =
     (let d = av_delivery s in
      dl_buffered d = av_other s + channel_load (dl_channel d) \<and> dl_buffered d \<le> rl_max_ingress_queue_bytes limits \<and>
      length (dl_channel d) \<le> rl_ingress_per_association limits \<and>
      (dl_closed d \<longleftrightarrow> av_phase s = WorkerGone) \<and> (av_phase s \<noteq> WorkerGone \<longrightarrow> dl_pending d = length (dl_channel d)))"

lemma channel_load_simps [simp]: "channel_load [] = 0" "channel_load (m # ms) = length (fst m) + channel_load ms"
  "channel_load (xs @ ys) = channel_load xs + channel_load ys"
  by (simp_all add: channel_load_def)

lemma take_event_cases:
  assumes "take_event ev d = Some d'"
  obtains (item) payload policy ms where "ev = TurnIngress payload policy" "dl_channel d = (payload, policy) # ms"
      "d' = d\<lparr>dl_channel := ms, dl_pending := dl_pending d - 1, dl_buffered := dl_buffered d - length payload\<rparr>"
  | (other) "admitted_count ev = 0" "d' = d"
  using assms by (cases ev) (auto split: list.splits if_splits)

lemma buffer_inv_step:
  assumes "association_step limits max_bytes s s'" "buffer_inv limits s"
  shows "buffer_inv limits s'"
  using assms(1)
proof (cases rule: association_step_cases)
  case (deliver policy now payload)
  then show ?thesis using assms(2)
    by (cases rule: deliver_cases [of "av_delivery s" limits payload policy now]) (auto simp: buffer_inv_def Let_def)
next
  case (turn env ev d stop w)
  from turn(6) show ?thesis
    by (cases rule: take_event_cases) (use turn assms(2) in \<open>auto simp: buffer_inv_def put_worker_def Let_def\<close>)
qed (use assms(2) reserve_ingress_bound in \<open>auto simp: buffer_inv_def put_worker_def Let_def dest: reserve_ingress_bound\<close>)

lemma av_worker_simps [simp]:
  "wk_upstream (av_worker s) = av_up s" "wk_downstream (av_worker s) = av_down s" "wk_record (av_worker s) = dl_record (av_delivery s)"
  by (simp_all add: av_worker_def)

lemma put_worker_simps [simp]:
  "av_up (put_worker w d s) = wk_upstream w" "av_down (put_worker w d s) = wk_downstream w"
  "av_delivery (put_worker w d s) = d\<lparr>dl_record := wk_record w\<rparr>" "av_admin (put_worker w d s) = av_admin s"
  "av_late (put_worker w d s) = av_late s" "av_left (put_worker w d s) = av_left s" "av_closed (put_worker w d s) = av_closed s"
  "av_receive_errors (put_worker w d s) = av_receive_errors s" "av_discarded (put_worker w d s) = av_discarded s"
  by (simp_all add: put_worker_def)

lemma same_worker:
  "av_worker ((put_worker w d s)\<lparr>av_phase := p\<rparr>) = w"
  "av_worker ((put_worker w d s)\<lparr>av_phase := p, av_receive_errors := n\<rparr>) = w"
  "av_worker ((put_worker w d s)\<lparr>av_phase := p, av_discarded := n, av_left := m\<rparr>) = w"
  by (simp_all add: av_worker_def)

lemma engines_inv_step:
  assumes "association_step limits max_bytes s s'" "engines_inv up0 down0 s"
    and wf: "\<And>n e. engine_reaches up0 n e \<Longrightarrow> datagram_wf e" "\<And>n e. engine_reaches down0 n e \<Longrightarrow> datagram_wf e"
  shows "engines_inv up0 down0 s'"
  using assms(1)
proof (cases rule: association_step_cases)
  case (deliver policy now payload)
  then show ?thesis using assms(2) by (auto simp: engines_inv_def deliver_evidence)
next
  case (stop env dirty w)
  then have "engine_reaches up0 0 (av_up s)" "engine_reaches down0 0 (av_down s)" "av_late s = 0" using assms(2) by (simp_all add: engines_inv_def)
  with emit_ready_engines [OF stop(3), of up0 down0] stop show ?thesis by (simp add: engines_inv_def)
next
  case (turn env ev d stop w)
  then have "engine_reaches up0 0 (av_up s)" "engine_reaches down0 0 (av_down s)" "av_late s = 0" using assms(2) by (simp_all add: engines_inv_def)
  with worker_turn_effect [OF turn(7,3,4,5), of up0 down0] wf turn show ?thesis by (simp add: engines_inv_def)
next
  case (finish n w)
  then have r: "engine_reaches up0 0 (av_up s)" "engine_reaches down0 0 (av_down s)" "av_late s = 0" using assms(2) by (simp_all add: engines_inv_def)
  from finish(3) show ?thesis
    by (rule worker_finish_effect [of _ _ _ n w up0 down0]) (use r wf(1) [OF r(1)] wf(2) [OF r(2)] finish in \<open>auto simp: engines_inv_def\<close>)
qed (use assms(2) in \<open>auto simp: engines_inv_def\<close>)

lemma settled_inv_step:
  assumes "association_step limits max_bytes s s'" "settled_inv s" "engines_inv up0 down0 s"
    and wf: "\<And>n e. engine_reaches up0 n e \<Longrightarrow> datagram_wf e" "\<And>n e. engine_reaches down0 n e \<Longrightarrow> datagram_wf e"
  shows "settled_inv s'"
  using assms(1)
proof (cases rule: association_step_cases)
  case (deliver policy now payload)
  then show ?thesis using assms(2) deliver_settled [OF refl, of limits policy now payload "av_delivery s"]
    by (auto simp: settled_inv_def countable_def outgoing_def)
next
  case (stop env dirty w)
  then have "engine_reaches up0 0 (av_up s)" "engine_reaches down0 0 (av_down s)" using assms(3) by (simp_all add: engines_inv_def)
  with emit_ready_engines(4) [OF stop(3), of up0 down0] stop assms(2) show ?thesis by (auto simp: settled_inv_def shift_def same_worker)
next
  case (turn env ev d stop w)
  then have "engine_reaches up0 0 (av_up s)" "engine_reaches down0 0 (av_down s)" using assms(3) by (simp_all add: engines_inv_def)
  with worker_turn_effect(3) [OF turn(7,3,4,5), of up0 down0] wf have "shift (receive_errors ev) (av_worker s) w" by simp
  with turn assms(2) show ?thesis by (auto simp: settled_inv_def shift_def same_worker)
next
  case (finish n w)
  then have r: "engine_reaches up0 0 (av_up s)" "engine_reaches down0 0 (av_down s)" using assms(3) by (simp_all add: engines_inv_def)
  from finish(3) show ?thesis
    by (rule worker_finish_effect [of _ _ _ n w up0 down0])
      (use r wf(1) [OF r(1)] wf(2) [OF r(2)] finish assms(2) in \<open>auto simp: settled_inv_def same_worker\<close>)
qed (use assms(2) in \<open>auto simp: settled_inv_def countable_def outgoing_def\<close>)

lemma ingress_inv_step:
  assumes "association_step limits max_bytes s s'" "ingress_inv s" "engines_inv up0 down0 s" "buffer_inv limits s"
    and wf: "\<And>n e. engine_reaches up0 n e \<Longrightarrow> datagram_wf e" "\<And>n e. engine_reaches down0 n e \<Longrightarrow> datagram_wf e"
  shows "ingress_inv s'"
  using assms(1)
proof (cases rule: association_step_cases)
  case (deliver policy now payload)
  show ?thesis using deliver assms(2,4)
    by (cases rule: deliver_cases [of "av_delivery s" limits payload policy now])
      (auto simp: ingress_inv_def buffer_inv_def Let_def touch_def note_ingress_overflow_def sat_add64_def min_def split: if_splits)
next
  case (stop env dirty w)
  then have "engine_reaches up0 0 (av_up s)" "engine_reaches down0 0 (av_down s)" using assms(3) by (simp_all add: engines_inv_def)
  with emit_ready_engines(3) [OF stop(3), of up0 down0] emit_ready_ingress [OF stop(3)] stop assms(2)
  show ?thesis by (auto simp: ingress_inv_def)
next
  case (turn env ev d stop w)
  then have "engine_reaches up0 0 (av_up s)" "engine_reaches down0 0 (av_down s)" using assms(3) by (simp_all add: engines_inv_def)
  with worker_turn_effect(4,5) [OF turn(7,3,4,5), of up0 down0] wf
  have w: "ar_ingress_datagrams (wk_record w) = ar_ingress_datagrams (dl_record (av_delivery s))"
    "taken (wk_upstream w) < U64_MAX \<Longrightarrow> taken (wk_upstream w) = taken (av_up s) + admitted_count ev" by simp_all
  from turn(6) show ?thesis
    by (cases rule: take_event_cases) (use w turn assms(2) in \<open>auto simp: ingress_inv_def\<close>)
next
  case (finish n w)
  then have r: "engine_reaches up0 0 (av_up s)" "engine_reaches down0 0 (av_down s)" "av_late s = 0" using assms(3) by (simp_all add: engines_inv_def)
  from finish(3) show ?thesis
    by (rule worker_finish_effect [of _ _ _ n w up0 down0])
      (use r wf(1) [OF r(1)] wf(2) [OF r(2)] finish assms(2) in \<open>auto simp: ingress_inv_def\<close>)
qed (use assms(2) in \<open>auto simp: ingress_inv_def\<close>)

lemma association_start_parts:
  assumes "association_start spec i client now counters other = Inr s"
  obtains up0 down0 where "datagram_engine_new (ds_queue_limits spec) (ds_name spec) i Upstream V1 = Inr up0"
    "datagram_engine_new (ds_queue_limits spec) (ds_name spec) i Downstream V1 = Inr down0"
    "engines_inv up0 down0 s" "settled_inv s" "ingress_inv s"
    "\<And>limits. other \<le> rl_max_ingress_queue_bytes limits \<Longrightarrow> buffer_inv limits s"
proof -
  obtain up0 down0 where e: "datagram_engine_new (ds_queue_limits spec) (ds_name spec) i Upstream V1 = Inr up0"
    "datagram_engine_new (ds_queue_limits spec) (ds_name spec) i Downstream V1 = Inr down0"
    using assms by (auto simp: association_start_def worker_new_def split: sum.splits)
  have zero: "handed up0 = 0" "handed down0 = 0" "taken up0 = 0"
    using e by (auto simp: datagram_engine_new_def datagram_evidence_default_def split: sum.splits)
  show thesis
    by (rule that [OF e])
      (use assms e zero in \<open>auto simp: association_start_def worker_new_def association_record_new_def engines_inv_def settled_inv_def
         ingress_inv_def buffer_inv_def countable_def outgoing_def settled_def Let_def intro: engine_reaches_start\<close>)
qed

lemma association_runs_inv:
  assumes "association_runs limits max_bytes s s'" "engines_inv up0 down0 s" "settled_inv s" "ingress_inv s" "buffer_inv limits s"
    and "datagram_engine_new q name i Upstream v = Inr up0" "datagram_engine_new q name i Downstream v = Inr down0"
  shows "engines_inv up0 down0 s' \<and> settled_inv s' \<and> ingress_inv s' \<and> buffer_inv limits s'"
  using assms(1-5)
proof (induction rule: association_runs.induct)
  case (association_next s s' s'')
  then have ih: "engines_inv up0 down0 s'" "settled_inv s'" "ingress_inv s'" "buffer_inv limits s'" by simp_all
  have wf: "datagram_wf e" if "engine_reaches up0 n e \<or> engine_reaches down0 n e" for n e
    using that engine_reaches_facts(1) [OF assms(6)] engine_reaches_facts(1) [OF assms(7)] by blast
  show ?case
    using engines_inv_step [OF association_next.hyps(2) ih(1)] settled_inv_step [OF association_next.hyps(2) ih(2,1)]
      ingress_inv_step [OF association_next.hyps(2) ih(3,1,4)] buffer_inv_step [OF association_next.hyps(2) ih(4)] wf by blast
qed simp

section \<open>Properties\<close>

text \<open>
  C17. Every datagram of an administratively stopped association is accounted for by its final record. Below saturation, the
  datagrams that came in from the client and from the target with their duplicates, the receive errors and the deliveries
  refused by a closed channel are exactly the sends, the errors, the administrative discards and what the two engines lost,
  refused as oversized or refused for lack of room, together with the datagrams delivered after the worker had already
  counted its channel: these appear in no counter.
\<close>

theorem association_record_balances:
  assumes "association_start spec i client now counters other = Inr s0" "other \<le> rl_max_ingress_queue_bytes limits"
    "association_runs limits max_bytes s0 s" "finished (av_phase s)" "av_admin s"
  defines "r \<equiv> dl_record (av_delivery s)"
  defines "up \<equiv> ar_upstream_evidence r"
  defines "down \<equiv> ar_downstream_evidence r"
  assumes "ar_ingress_datagrams r < U64_MAX" "unsaturated r"
    "dv_admitted_datagrams up + dv_duplicated_copies up < U64_MAX" "dv_admitted_datagrams down + dv_duplicated_copies down < U64_MAX"
  shows "ar_ingress_datagrams r + dv_admitted_datagrams down + dv_duplicated_copies up + dv_duplicated_copies down +
       av_receive_errors s + av_closed s =
     ar_egress_datagrams r + ar_send_errors r + ar_administrative_discards r +
       dv_configured_loss up + dv_queue_overflow up + dv_oversize_datagrams up +
       dv_configured_loss down + dv_queue_overflow down + dv_oversize_datagrams down + av_late s"
proof -
  obtain up0 down0 where e: "datagram_engine_new (ds_queue_limits spec) (ds_name spec) i Upstream V1 = Inr up0"
    "datagram_engine_new (ds_queue_limits spec) (ds_name spec) i Downstream V1 = Inr down0"
    "engines_inv up0 down0 s0" "settled_inv s0" "ingress_inv s0" "buffer_inv limits s0"
    using association_start_parts [OF assms(1)] assms(2) by metis
  have inv: "engines_inv up0 down0 s" "settled_inv s" "ingress_inv s" using association_runs_inv [OF assms(3) e(3-6,1,2)] by simp_all
  obtain du dd where eng: "engine_reaches up0 du (av_up s)" "engine_reaches down0 dd (av_down s)" "av_discarded s = du + dd + av_left s"
    "de_queue (av_up s) = []" "de_queue (av_down s) = []" "up = de_evidence (av_up s)" "down = de_evidence (av_down s)"
    using inv(1) assms(4) by (auto simp: engines_inv_def up_def down_def r_def)
  note bal = engine_reaches_facts [OF e(1) eng(1)] engine_reaches_facts [OF e(2) eng(2)]
  have empty: "dv_queued_datagrams up = 0" "dv_queued_datagrams down = 0"
    using bal(1,3) eng(4-7) by (simp_all add: datagram_wf_def occupancy_def)
  have b: "du + dv_emitted_datagrams up + dv_configured_loss up + dv_queue_overflow up + dv_oversize_datagrams up =
      dv_admitted_datagrams up + dv_duplicated_copies up"
    "dd + dv_emitted_datagrams down + dv_configured_loss down + dv_queue_overflow down + dv_oversize_datagrams down =
      dv_admitted_datagrams down + dv_duplicated_copies down"
    using bal(2,4) eng(6,7) empty assms by (simp_all add: balanced_def)
  then have "countable (av_worker s)" using assms eng(6,7) by (simp add: countable_def r_def)
  then have st: "settled r = dv_emitted_datagrams up + dv_emitted_datagrams down + av_receive_errors s + av_closed s + du + dd + av_left s"
    using inv(2) assms(4,5) eng(3,6,7) by (simp add: settled_inv_def outgoing_def r_def)
  have "ar_ingress_datagrams r = dv_admitted_datagrams up + av_left s + av_late s"
    using inv(3) assms(4,9) assms eng(6) by (cases "av_phase s") (auto simp: ingress_inv_def r_def)
  with st b show ?thesis by (simp add: settled_def)
qed

text \<open>
  C18. Bounded ingress. Whatever clients, workers and other associations do, the bytes waiting in front of the engines stay
  within the runtime's budget and the budget counter is exact, the channel of an association never exceeds its capacity, and
  the pending counter that keeps a busy association from being reaped is the length of its channel.
\<close>

theorem ingress_bounded:
  assumes "association_start spec i client now counters other = Inr s0" "other \<le> rl_max_ingress_queue_bytes limits"
    "association_runs limits max_bytes s0 s"
  shows "dl_buffered (av_delivery s) = av_other s + channel_load (dl_channel (av_delivery s)) \<and>
    dl_buffered (av_delivery s) \<le> rl_max_ingress_queue_bytes limits \<and>
    length (dl_channel (av_delivery s)) \<le> rl_ingress_per_association limits \<and>
    (av_phase s \<noteq> WorkerGone \<longrightarrow> dl_pending (av_delivery s) = length (dl_channel (av_delivery s)))"
proof -
  obtain up0 down0 where e: "datagram_engine_new (ds_queue_limits spec) (ds_name spec) i Upstream V1 = Inr up0"
    "datagram_engine_new (ds_queue_limits spec) (ds_name spec) i Downstream V1 = Inr down0"
    "engines_inv up0 down0 s0" "settled_inv s0" "ingress_inv s0" "buffer_inv limits s0"
    using association_start_parts [OF assms(1)] assms(2) by metis
  with association_runs_inv [OF assms(3) e(3-6,1,2)] show ?thesis by (simp add: buffer_inv_def Let_def)
qed

section \<open>A datagram that appears in no counter\<close>

definition sample_policy :: published_datagram_policy where
  "sample_policy = \<lparr>generation = 1, pub_plan = datagram_plan_empty, seed_namespace = 0\<rparr>"

definition sample_spec :: datagram_proxy_spec where
  "sample_spec = \<lparr>ds_name = ''p'', ds_listen = SocketV4 0 0, ds_upstream = SocketV4 1 9, ds_max_associations = 4, ds_idle_timeout = 1000000,
     ds_queue_limits = \<lparr>max_queued_datagrams = 8, max_queued_bytes = 100, max_datagram_bytes = 10\<rparr>,
     ds_upstream_policy = sample_policy, ds_downstream_policy = sample_policy, ds_seed = 0\<rparr>"

definition sample_counters :: proxy_counters where
  "sample_counters = \<lparr>pc_oversize_datagrams = 0, pc_capacity_rejections = 0, pc_ingress_overflow = 0, pc_setup_failures = 0\<rparr>"

definition sample_engine :: "direction \<Rightarrow> datagram_engine" where
  "sample_engine dir = \<lparr>de_limits = ds_queue_limits sample_spec, de_proxy = ''p'', de_association = 1, de_direction = dir,
     de_rng_version = V1, de_ordinal = 0, de_queue = [], de_evidence = datagram_evidence_default,
     de_buckets = Map.empty, de_buckets_generation = 0\<rparr>"

definition sample_world :: association_world where
  "sample_world = \<lparr>av_up = sample_engine Upstream, av_down = sample_engine Downstream,
     av_delivery = \<lparr>dl_counters = sample_counters, dl_buffered = 0, dl_channel = [], dl_closed = False, dl_pending = 0,
                    dl_record = association_record_new 1 sample_spec (SocketV4 7 7) 0\<rparr>,
     av_phase = WorkerRunning, av_admin = False, av_other = 0, av_receive_errors = 0, av_closed = 0, av_discarded = 0, av_left = 0, av_late = 0\<rparr>"

lemma sample_start: "association_start sample_spec 1 (SocketV4 7 7) 0 sample_counters 0 = Inr sample_world"
  by (simp add: association_start_def worker_new_def datagram_engine_new_def limits_validate_def sample_world_def sample_engine_def
      sample_spec_def datagram_evidence_default_def)

definition quiet_env :: turn_env where
  "quiet_env = \<lparr>te_now = 0, te_up = (\<lambda>_. (False, None)), te_down = (\<lambda>_. (False, None)), te_admit = 0, te_send = (\<lambda>_. (False, None)), te_activity = 0\<rparr>"

lemma sample_take: "take_ready now (sample_engine dir) = ([], sample_engine dir)"
  by (simp add: take_ready_def sample_engine_def)

lemma sample_emit:
  assumes "wk_upstream w = sample_engine Upstream" "wk_downstream w = sample_engine Downstream"
  shows "emit_ready up_env down_env now w = (False, False, w)"
  using assms by (cases w) (simp add: emit_ready_unfold sample_take send_nothing)

lemma sample_discard: "discard_all (sample_engine dir) = (0, sample_engine dir)"
  by (simp add: discard_all_def sample_engine_def datagram_evidence_default_def)

text \<open>The worker is cancelled and finishes; one datagram reaches the channel before it is dropped.\<close>

definition late_world :: association_world where
  "late_world =
     (let d = deliver_ingress default_runtime_limits sample_policy 5 [1, 2, 3] (av_delivery sample_world) in
      sample_world\<lparr>av_phase := WorkerGone, av_admin := True, av_late := 1,
        av_delivery := d\<lparr>dl_channel := [], dl_closed := True, dl_buffered := 0\<rparr>\<rparr>)"

lemma sample_deliver:
  "deliver_ingress default_runtime_limits sample_policy 5 [1, 2, 3] (av_delivery sample_world) =
     (av_delivery sample_world)\<lparr>dl_buffered := 3, dl_pending := 1, dl_channel := [([1, 2, 3], sample_policy)],
       dl_record := touch 5 ((association_record_new 1 sample_spec (SocketV4 7 7) 0)\<lparr>ar_ingress_datagrams := 1, ar_ingress_bytes := 3\<rparr>)\<rparr>"
  by (simp add: deliver_ingress_def sample_world_def reserve_ingress_def checked_add64_def U64_MAX_def default_runtime_limits_def
      sat_add64_def association_record_new_def Let_def numeral_3_eq_3)

lemma late_run: "association_runs default_runtime_limits 10 sample_world late_world"
proof -
  let ?s1 = "sample_world\<lparr>av_admin := True\<rparr>"
  let ?s2 = "?s1\<lparr>av_phase := WorkerStopped\<rparr>"
  let ?s3 = "?s2\<lparr>av_phase := WorkerFinished\<rparr>"
  let ?d = "deliver_ingress default_runtime_limits sample_policy 5 [1, 2, 3] (av_delivery sample_world)"
  let ?s4 = "?s3\<lparr>av_delivery := ?d, av_late := 1\<rparr>"
  have w: "av_worker ?s1 = av_worker sample_world" "av_worker ?s2 = av_worker sample_world"
    "wk_upstream (av_worker sample_world) = sample_engine Upstream" "wk_downstream (av_worker sample_world) = sample_engine Downstream"
    by (simp_all add: av_worker_def) (simp_all add: sample_world_def)
  have put: "put_worker (av_worker sample_world) (av_delivery sample_world) s = s" if "av_up s = av_up sample_world"
    "av_down s = av_down sample_world" "av_delivery s = av_delivery sample_world" for s
    using that by (cases s) (simp add: put_worker_def)
  have 1: "association_step default_runtime_limits 10 sample_world ?s1" by (rule step_cancel) (simp add: sample_world_def)
  have turn: "worker_turn 10 quiet_env TurnCancelled (av_worker sample_world) = Some (True, av_worker sample_world)"
    using sample_emit [OF w(3,4)] by (simp add: worker_turn_def finish_turn_def)
  have "association_step default_runtime_limits 10 ?s1
      ((put_worker (av_worker sample_world) (av_delivery ?s1) ?s1)\<lparr>av_phase := (if True then WorkerStopped else WorkerRunning),
         av_receive_errors := av_receive_errors ?s1 + receive_errors TurnCancelled\<rparr>)"
    by (rule step_turn [where env = quiet_env and ev = TurnCancelled])
      (use turn sample_emit [OF w(3,4)] in \<open>simp_all add: w(1) quiet_env_def INSTANT_MAX_def\<close>, simp add: sample_world_def)
  then have 2: "association_step default_runtime_limits 10 ?s1 ?s2" using put [of ?s1] by (simp add: sample_world_def)
  have fin: "worker_finish True 0 (av_worker sample_world) = (0, av_worker sample_world)"
    using w(3,4) by (cases "av_worker sample_world")
      (simp add: worker_finish_def sample_discard Let_def update_evidence_def, auto simp: av_worker_def sample_world_def sample_engine_def
        association_record_new_def sat_add64_def U64_MAX_def)
  have "association_step default_runtime_limits 10 ?s2
      ((put_worker (av_worker sample_world) (av_delivery ?s2) ?s2)\<lparr>av_phase := WorkerFinished, av_discarded := 0, av_left := length (dl_channel (av_delivery ?s2))\<rparr>)"
    by (rule step_finish) (use fin in \<open>simp_all add: w(2)\<close>, simp add: sample_world_def)
  then have 3: "association_step default_runtime_limits 10 ?s2 ?s3" using put [of ?s2] by (simp add: sample_world_def)
  have "association_step default_runtime_limits 10 ?s3
      (?s3\<lparr>av_delivery := ?d,
         av_closed := av_closed ?s3 + (if ar_administrative_discards (dl_record ?d) = ar_administrative_discards (dl_record (av_delivery ?s3)) then 0 else 1),
         av_late := av_late ?s3 + (if av_phase ?s3 = WorkerFinished then length (dl_channel ?d) - length (dl_channel (av_delivery ?s3)) else 0)\<rparr>)"
    by (rule step_deliver) simp
  then have 4: "association_step default_runtime_limits 10 ?s3 ?s4"
    by (simp add: sample_deliver) (simp add: sample_world_def touch_def association_record_new_def)
  have "association_step default_runtime_limits 10 ?s4
      (?s4\<lparr>av_phase := WorkerGone, av_delivery := (av_delivery ?s4)\<lparr>dl_channel := [], dl_closed := True,
         dl_buffered := dl_buffered (av_delivery ?s4) - channel_load (dl_channel (av_delivery ?s4))\<rparr>\<rparr>)"
    by (rule step_drop) simp
  then have 5: "association_step default_runtime_limits 10 ?s4 late_world"
    by (simp add: late_world_def sample_deliver) (simp add: sample_world_def)
  show ?thesis
    using association_refl [of default_runtime_limits 10 sample_world, THEN association_next, OF 1, THEN association_next, OF 2, THEN association_next, OF 3,
        THEN association_next, OF 4, THEN association_next, OF 5] .
qed

lemma late_world_facts:
  "finished (av_phase late_world)" "av_admin late_world" "av_late late_world = 1" "av_receive_errors late_world = 0" "av_closed late_world = 0"
  "dl_record (av_delivery late_world) = (association_record_new 1 sample_spec (SocketV4 7 7) 0)\<lparr>ar_last_activity := 5, ar_ingress_datagrams := 1, ar_ingress_bytes := 3\<rparr>"
  by (simp_all add: late_world_def sample_deliver touch_def) (simp_all add: sample_world_def)

theorem association_record_balances_witness:
  "\<exists>s. association_runs default_runtime_limits 10 sample_world s \<and> ar_ingress_datagrams (dl_record (av_delivery s)) = 1 \<and>
     1 = settled (dl_record (av_delivery s)) + av_late s \<and> av_late s = 1"
proof -
  let ?r = "dl_record (av_delivery late_world)"
  have r: "ar_ingress_datagrams ?r = 1" "ar_upstream_evidence ?r = datagram_evidence_default" "ar_downstream_evidence ?r = datagram_evidence_default" "unsaturated ?r"
    by (simp_all add: late_world_facts association_record_new_def unsaturated_def U64_MAX_def)
  have "ar_ingress_datagrams ?r < U64_MAX" "dv_admitted_datagrams datagram_evidence_default + dv_duplicated_copies datagram_evidence_default < U64_MAX"
    by (simp_all add: r U64_MAX_def datagram_evidence_default_def)
  with association_record_balances [OF sample_start _ late_run late_world_facts(1,2)] r late_world_facts(3-5) late_run
  show ?thesis by (intro exI [of _ late_world]) (simp add: settled_def datagram_evidence_default_def)
qed

theorem ingress_bounded_witness:
  "\<exists>s. association_runs default_runtime_limits 10 sample_world s \<and> dl_buffered (av_delivery s) \<le> 64 * 1024 * 1024 \<and> av_phase s = WorkerGone"
  using ingress_bounded [OF sample_start _ late_run] late_run
  by (intro exI [of _ late_world]) (simp add: default_runtime_limits_def late_world_def Let_def)

end
