(* ===== verification/Associations.thy ===== *)
theory Associations
  imports DatagramModel "HOL-Library.AList"
begin

text \<open>
  The association registry of the datagram runtime, \<^verbatim>\<open>runtime/datagram/association.rs\<close> with the parts of \<^verbatim>\<open>registry.rs\<close> and
  \<^verbatim>\<open>supervisor.rs\<close> that take associations out of it: capacity leases, setup reservations, the slot of a client, publication,
  abandonment, draining, reaping and stopping.

  Locked sections are functions; \<open>registry_step\<close> interleaves them. Reservations and associations are values behind shared
  pointers, so they live in lists and a slot holds an index. A reservation and its capacity lease are created together
  and live in one record; an association shares the lease of its reservation. Slots of all proxies form one table keyed
  by proxy and client. An \<open>owner\<close> is a task inside \<^verbatim>\<open>publish_association\<close> with its guard armed; what its sockets do decides
  which step it takes. The worker of an association is the subject of \<open>AssociationRuns\<close>.
\<close>

section \<open>State\<close>

datatype setup_outcome = SetupStarting | SetupPublished | SetupAbandoned bool

fun outcome_terminal :: "setup_outcome \<Rightarrow> bool" where
  "outcome_terminal SetupStarting = False"
| "outcome_terminal SetupPublished = True"
| "outcome_terminal (SetupAbandoned _) = True"

text \<open>
  \<open>rv_event_version\<close> and \<open>rv_outcome\<close> are the value of the watch channel, \<open>rv_version\<close> the version of the next transition,
  \<open>rv_released\<close> the flag of the lease. \<open>rv_client\<close> names the client the reservation was made for; no operation reads it.
\<close>

record reservation =
  rv_id :: nat
  rv_proxy :: nat
  rv_client :: socket_addr
  rv_event_version :: nat
  rv_outcome :: setup_outcome
  rv_version :: nat
  rv_terminal :: bool
  rv_released :: bool

datatype slot = Starting nat | Active nat

record association =
  as_id :: nat
  as_client :: socket_addr
  as_lease :: nat
  as_administrative :: bool
  as_cancelled :: bool

record owner =
  ow_proxy :: nat
  ow_client :: socket_addr
  ow_reservation :: nat
  ow_association :: "nat option"

record proxy_capacity =
  px_max_associations :: nat
  px_active :: nat

record registry =
  rg_max_associations :: nat
  rg_history_limit :: nat
  rg_active :: nat
  rg_next_id :: nat
  rg_next_reservation :: nat
  rg_proxies :: "nat \<Rightarrow> proxy_capacity"
  rg_slots :: "((nat \<times> socket_addr) \<times> slot) list"
  rg_reservations :: "reservation list"
  rg_associations :: "association list"
  rg_owners :: "owner list"
  rg_stopping :: "(nat \<times> bool) list"
  rg_history :: "nat list"

section \<open>Leases and reservations\<close>

definition adjust_active :: "(nat \<Rightarrow> nat) \<Rightarrow> nat \<Rightarrow> registry \<Rightarrow> registry" where
  "adjust_active f p g =
     g\<lparr>rg_active := f (rg_active g),
       rg_proxies := (rg_proxies g)(p := (rg_proxies g p)\<lparr>px_active := f (px_active (rg_proxies g p))\<rparr>)\<rparr>"

text \<open>Both counters move or none does: the proxy counter is rolled back when the global limit refuses.\<close>

definition try_acquire :: "nat \<Rightarrow> registry \<Rightarrow> registry option" where
  "try_acquire p g =
     (if px_active (rg_proxies g p) + 1 \<le> min (px_max_associations (rg_proxies g p)) U64_MAX then
        if rg_active g + 1 \<le> min (rg_max_associations g) U64_MAX then Some (adjust_active Suc p g) else None
      else None)"

definition set_reservation :: "nat \<Rightarrow> reservation \<Rightarrow> registry \<Rightarrow> registry" where
  "set_reservation r v g = g\<lparr>rg_reservations := (rg_reservations g)[r := v]\<rparr>"

definition release :: "nat \<Rightarrow> registry \<Rightarrow> registry" where
  "release r g =
     (let v = rg_reservations g ! r in
      if rv_released v then g
      else adjust_active (\<lambda>n. n - 1) (rv_proxy v) (set_reservation r (v\<lparr>rv_released := True\<rparr>) g))"

definition reservation_new :: "nat \<Rightarrow> nat \<Rightarrow> socket_addr \<Rightarrow> reservation" where
  "reservation_new i p client = \<lparr>rv_id = i, rv_proxy = p, rv_client = client, rv_event_version = 0, rv_outcome = SetupStarting, rv_version = 1,
     rv_terminal = False, rv_released = False\<rparr>"

definition transition :: "setup_outcome \<Rightarrow> nat \<Rightarrow> registry \<Rightarrow> registry" where
  "transition outcome r g =
     (let v = rg_reservations g ! r in
      if rv_terminal v then g
      else set_reservation r
             (v\<lparr>rv_terminal := True, rv_version := (rv_version v + 1) mod 2 ^ 64, rv_event_version := rv_version v, rv_outcome := outcome\<rparr>) g)"

text \<open>The condition a waiter on a reservation waits for, \<open>version\<close> being zero.\<close>

definition waiter_wakes :: "reservation \<Rightarrow> bool" where
  "waiter_wakes v = (0 < rv_event_version v \<and> outcome_terminal (rv_outcome v))"

section \<open>Locked sections\<close>

definition same_reservation_slot :: "nat \<times> socket_addr \<Rightarrow> nat \<Rightarrow> registry \<Rightarrow> bool" where
  "same_reservation_slot key r g = (map_of (rg_slots g) key = Some (Starting r))"

definition remove_slot :: "nat \<times> socket_addr \<Rightarrow> registry \<Rightarrow> registry" where
  "remove_slot key g = g\<lparr>rg_slots := AList.delete key (rg_slots g)\<rparr>"

datatype resolve_step = ResolveFound nat | ResolveRetry | ResolveWait nat | ResolveSetup nat | ResolveLimit

text \<open>One pass of the loop of \<^verbatim>\<open>resolve_association\<close> under the write lock.\<close>

definition resolve_locked :: "nat \<Rightarrow> socket_addr \<Rightarrow> registry \<Rightarrow> resolve_step \<times> registry" where
  "resolve_locked p client g =
     (case map_of (rg_slots g) (p, client) of
        Some (Active a) \<Rightarrow> (ResolveFound a, g)
      | Some (Starting r) \<Rightarrow>
          if rv_terminal (rg_reservations g ! r) then (ResolveRetry, remove_slot (p, client) g) else (ResolveWait r, g)
      | None \<Rightarrow>
          (case try_acquire p g of
             None \<Rightarrow> (ResolveLimit, g)
           | Some g1 \<Rightarrow>
               let r = length (rg_reservations g1) in
               (ResolveSetup r,
                g1\<lparr>rg_next_reservation := (rg_next_reservation g1 + 1) mod 2 ^ 64,
                   rg_reservations := rg_reservations g1 @ [reservation_new (rg_next_reservation g1) p client],
                   rg_slots := AList.update (p, client) (Starting r) (rg_slots g1)\<rparr>)))"

definition abandon_starting :: "nat \<times> socket_addr \<Rightarrow> nat \<Rightarrow> bool \<Rightarrow> registry \<Rightarrow> registry" where
  "abandon_starting key r retryable g =
     (let g1 = (if same_reservation_slot key r g then remove_slot key g else g) in
      release r (transition (SetupAbandoned retryable) r g1))"

text \<open>The guard of an owner that goes away; \<open>locked\<close> says whether the registry lock was free.\<close>

definition owner_guard_drop :: "bool \<Rightarrow> nat \<times> socket_addr \<Rightarrow> nat \<Rightarrow> registry \<Rightarrow> registry" where
  "owner_guard_drop locked key r g =
     (if locked then abandon_starting key r True g
      else release r (transition (SetupAbandoned True) r g))"

text \<open>The sockets are ready: the association exists, with a worker, but no slot shows it yet.\<close>

definition new_association :: "socket_addr \<Rightarrow> nat \<Rightarrow> registry \<Rightarrow> nat \<times> registry" where
  "new_association client r g =
     (length (rg_associations g),
      g\<lparr>rg_next_id := (rg_next_id g + 1) mod 2 ^ 64,
        rg_associations := rg_associations g @ [\<lparr>as_id = rg_next_id g, as_client = client, as_lease = r,
          as_administrative = False, as_cancelled = False\<rparr>]\<rparr>)"

definition publish_slot :: "nat \<times> socket_addr \<Rightarrow> nat \<Rightarrow> nat \<Rightarrow> registry \<Rightarrow> bool \<times> registry" where
  "publish_slot key r a g =
     (if same_reservation_slot key r g
      then (True, transition SetupPublished r (g\<lparr>rg_slots := AList.update key (Active a) (rg_slots g)\<rparr>))
      else (False, g))"

definition cancel_association :: "nat \<Rightarrow> registry \<Rightarrow> registry" where
  "cancel_association a g = g\<lparr>rg_associations := (rg_associations g)[a := (rg_associations g ! a)\<lparr>as_cancelled := True\<rparr>]\<rparr>"

text \<open>Draining a proxy takes all its slots; setups are abandoned, active associations are left to be stopped.\<close>

fun abandon_drained :: "bool \<Rightarrow> slot list \<Rightarrow> registry \<Rightarrow> registry" where
  "abandon_drained retryable [] g = g"
| "abandon_drained retryable (Starting r # ss) g = abandon_drained retryable ss (release r (transition (SetupAbandoned retryable) r g))"
| "abandon_drained retryable (Active a # ss) g = abandon_drained retryable ss g"

fun active_slots :: "slot list \<Rightarrow> nat list" where
  "active_slots [] = []"
| "active_slots (Active a # ss) = a # active_slots ss"
| "active_slots (Starting r # ss) = active_slots ss"

definition drain_associations :: "nat \<Rightarrow> bool \<Rightarrow> registry \<Rightarrow> nat list \<times> registry" where
  "drain_associations p retryable g =
     (let slots = map snd (filter (\<lambda>x. fst (fst x) = p) (rg_slots g)) in
      (active_slots slots,
       abandon_drained retryable slots (g\<lparr>rg_slots := filter (\<lambda>x. fst (fst x) \<noteq> p) (rg_slots g)\<rparr>)))"

text \<open>\<^verbatim>\<open>kill_association\<close> and \<^verbatim>\<open>reap_idle\<close> remove the slot of one active association if it is still there.\<close>

definition take_slot :: "nat \<times> socket_addr \<Rightarrow> nat \<Rightarrow> registry \<Rightarrow> registry option" where
  "take_slot key a g = (if map_of (rg_slots g) key = Some (Active a) then Some (remove_slot key g) else None)"

definition hand_over :: "bool \<Rightarrow> nat list \<Rightarrow> registry \<Rightarrow> registry" where
  "hand_over administrative as g = g\<lparr>rg_stopping := rg_stopping g @ map (\<lambda>a. (a, administrative)) as\<rparr>"

text \<open>\<^verbatim>\<open>stop_association\<close> up to the join of the worker, and after it.\<close>

definition stop_begin :: "bool \<Rightarrow> nat \<Rightarrow> registry \<Rightarrow> registry" where
  "stop_begin administrative a g =
     (let v = rg_associations g ! a;
          v1 = (if administrative then v\<lparr>as_administrative := True\<rparr> else v) in
      g\<lparr>rg_associations := (rg_associations g)[a := v1\<lparr>as_cancelled := True\<rparr>]\<rparr>)"

fun pop_history :: "nat \<Rightarrow> 'a list \<Rightarrow> 'a list" where
  "pop_history limit [] = []"
| "pop_history limit (x # xs) = (if limit \<le> length (x # xs) then pop_history limit xs else x # xs)"

definition push_history :: "nat \<Rightarrow> 'a \<Rightarrow> 'a list \<Rightarrow> 'a list" where
  "push_history limit x h = (if 0 < limit then pop_history limit h @ [x] else h)"

definition stop_end :: "bool \<Rightarrow> nat \<Rightarrow> registry \<Rightarrow> registry" where
  "stop_end administrative a g =
     (let g1 = release (as_lease (rg_associations g ! a)) g in
      g1\<lparr>rg_history := push_history (rg_history_limit g1) a (rg_history g1), rg_stopping := remove1 (a, administrative) (rg_stopping g1)\<rparr>)"

definition set_capacity :: "nat \<Rightarrow> nat \<Rightarrow> registry \<Rightarrow> registry option" where
  "set_capacity p n g =
     (if n < px_active (rg_proxies g p) then None
      else Some (g\<lparr>rg_proxies := (rg_proxies g)(p := (rg_proxies g p)\<lparr>px_max_associations := n\<rparr>)\<rparr>))"

section \<open>Interleaving\<close>

definition add_owner :: "owner \<Rightarrow> registry \<Rightarrow> registry" where
  "add_owner w g = g\<lparr>rg_owners := w # rg_owners g\<rparr>"

definition drop_owner :: "owner \<Rightarrow> registry \<Rightarrow> registry" where
  "drop_owner w g = g\<lparr>rg_owners := remove1 w (rg_owners g)\<rparr>"

inductive registry_step :: "registry \<Rightarrow> registry \<Rightarrow> bool" where
  resolve_setup: "resolve_locked p client g = (ResolveSetup r, g') \<Longrightarrow>
    registry_step g (add_owner \<lparr>ow_proxy = p, ow_client = client, ow_reservation = r, ow_association = None\<rparr> g')"
| resolve_other: "resolve_locked p client g = (x, g') \<Longrightarrow> (\<And>r. x \<noteq> ResolveSetup r) \<Longrightarrow> registry_step g g'"
| setup_failed: "w \<in> set (rg_owners g) \<Longrightarrow> ow_association w = None \<Longrightarrow>
    registry_step g (drop_owner w (abandon_starting (ow_proxy w, ow_client w) (ow_reservation w) True g))"
| setup_dropped: "w \<in> set (rg_owners g) \<Longrightarrow>
    registry_step g (drop_owner w (owner_guard_drop locked (ow_proxy w, ow_client w) (ow_reservation w) g))"
| setup_spawned: "w \<in> set (rg_owners g) \<Longrightarrow> ow_association w = None \<Longrightarrow> new_association (ow_client w) (ow_reservation w) g = (a, g') \<Longrightarrow>
    registry_step g (add_owner (w\<lparr>ow_association := Some a\<rparr>) (drop_owner w g'))"
| setup_published: "w \<in> set (rg_owners g) \<Longrightarrow> ow_association w = Some a \<Longrightarrow>
    publish_slot (ow_proxy w, ow_client w) (ow_reservation w) a g = (True, g') \<Longrightarrow> registry_step g (drop_owner w g')"
| setup_lost: "w \<in> set (rg_owners g) \<Longrightarrow> ow_association w = Some a \<Longrightarrow>
    publish_slot (ow_proxy w, ow_client w) (ow_reservation w) a g = (False, g') \<Longrightarrow>
    registry_step g (drop_owner w (cancel_association a (abandon_starting (ow_proxy w, ow_client w) (ow_reservation w) False g')))"
| drained: "drain_associations p retryable g = (as, g') \<Longrightarrow> registry_step g (hand_over True as g')"
| taken: "take_slot key a g = Some g' \<Longrightarrow> registry_step g (hand_over administrative [a] g')"
| cancelled: "(a, administrative) \<in> set (rg_stopping g) \<Longrightarrow> registry_step g (stop_begin administrative a g)"
| stopped: "(a, administrative) \<in> set (rg_stopping g) \<Longrightarrow> as_cancelled (rg_associations g ! a) \<Longrightarrow> registry_step g (stop_end administrative a g)"
| resized: "set_capacity p n g = Some g' \<Longrightarrow> registry_step g g'"

inductive registry_runs :: "registry \<Rightarrow> registry \<Rightarrow> bool" where
  registry_refl: "registry_runs g g"
| registry_next: "registry_runs g g' \<Longrightarrow> registry_step g' g'' \<Longrightarrow> registry_runs g g''"

inductive_cases registry_step_cases [consumes 1, case_names resolve_setup resolve_other setup_failed setup_dropped setup_spawned
    setup_published setup_lost drained taken cancelled stopped resized]: "registry_step g g'"

definition registry_start :: "datagram_runtime_limits \<Rightarrow> (nat \<Rightarrow> nat) \<Rightarrow> registry" where
  "registry_start limits capacities =
     \<lparr>rg_max_associations = rl_max_associations limits, rg_history_limit = rl_history limits, rg_active = 0, rg_next_id = 1,
      rg_next_reservation = 1, rg_proxies = (\<lambda>p. \<lparr>px_max_associations = capacities p, px_active = 0\<rparr>), rg_slots = [],
      rg_reservations = [], rg_associations = [], rg_owners = [], rg_stopping = [], rg_history = []\<rparr>"

end
