(* ===== verification/AssociationsProps.thy ===== *)
theory AssociationsProps
  imports Associations "HOL-Library.Multiset"
begin

text \<open>
  Capacity accounting of the association registry. The leases in use are held by the setups that still can publish, by
  the active slots and by the associations being stopped, each lease by exactly one of them, and both counters say how many
  there are, whatever the interleaving.
\<close>

section \<open>Tables\<close>

lemma mset_delete:
  "distinct (map fst xs) \<Longrightarrow> map_of xs k = Some v \<Longrightarrow> mset xs = add_mset (k, v) (mset (AList.delete k xs))"
proof (induction xs)
  case (Cons x xs)
  show ?case
  proof (cases "fst x = k")
    case True
    then have "AList.delete k (x # xs) = xs" using Cons.prems(1) by (cases x) (auto simp: AList.delete_eq filter_id_conv rev_image_eqI)
    then show ?thesis using True Cons.prems(2) by (cases x) auto
  next
    case False
    then show ?thesis using Cons by (cases x) (auto simp: AList.delete_eq)
  qed
qed simp

lemma mset_update: "distinct (map fst xs) \<Longrightarrow> mset (AList.update k v xs) = add_mset (k, v) (mset (AList.delete k xs))"
proof (induction xs)
  case (Cons x xs)
  show ?case
  proof (cases "fst x = k")
    case True
    then have "AList.delete k (x # xs) = xs" using Cons.prems(1) by (cases x) (auto simp: AList.delete_eq filter_id_conv rev_image_eqI)
    then show ?thesis using True by (cases x) auto
  next
    case False
    then show ?thesis using Cons by (cases x) (auto simp: AList.delete_eq)
  qed
qed simp

lemma delete_absent: "map_of xs k = None \<Longrightarrow> AList.delete k xs = xs"
  by (induction xs) (auto split: if_splits)

lemma map_remove1_mset: "x \<in> set xs \<Longrightarrow> mset (map f xs) = add_mset (f x) (mset (map f (remove1 x xs)))"
  by (induction xs) (auto simp del: mset_remove1)

lemma map_of_filter_key: "P k \<Longrightarrow> map_of (filter (\<lambda>x. P (fst x)) xs) k = map_of xs k"
  by (induction xs) auto

lemma mset_active_slots: "mset (active_slots ss) = (\<Sum>s\<in>#mset ss. case s of Active a \<Rightarrow> {#a#} | Starting _ \<Rightarrow> {#})"
  by (induction ss rule: active_slots.induct) simp_all

lemma active_slots_set: "a \<in> set (active_slots ss) \<longleftrightarrow> Active a \<in> set ss"
  by (induction ss rule: active_slots.induct) auto

lemma active_partition:
  "mset (active_slots (map snd xs)) = mset (active_slots (map snd (filter P xs))) + mset (active_slots (map snd (filter (\<lambda>x. \<not> P x) xs)))"
proof (induction xs)
  case (Cons x xs)
  then show ?case by (cases "snd x") simp_all
qed simp

lemma active_after_delete:
  assumes "distinct (map fst xs)" "map_of xs k = Some v"
  shows "mset (active_slots (map snd xs)) = (case v of Active a \<Rightarrow> {#a#} | Starting _ \<Rightarrow> {#}) + mset (active_slots (map snd (AList.delete k xs)))"
  using arg_cong [OF mset_delete [OF assms], of "image_mset snd"] by (simp add: mset_active_slots)

lemma active_after_update:
  assumes "distinct (map fst xs)"
  shows "mset (active_slots (map snd (AList.update k v xs))) =
    (case v of Active a \<Rightarrow> {#a#} | Starting _ \<Rightarrow> {#}) + mset (active_slots (map snd (AList.delete k xs)))"
  using arg_cong [OF mset_update [OF assms], of "image_mset snd"] by (simp add: mset_active_slots)

section \<open>Leases\<close>

abbreviation terminal_at :: "registry \<Rightarrow> nat \<Rightarrow> bool" where "terminal_at g r \<equiv> rv_terminal (rg_reservations g ! r)"
abbreviation released_at :: "registry \<Rightarrow> nat \<Rightarrow> bool" where "released_at g r \<equiv> rv_released (rg_reservations g ! r)"
abbreviation proxy_at :: "registry \<Rightarrow> nat \<Rightarrow> nat" where "proxy_at g r \<equiv> rv_proxy (rg_reservations g ! r)"
abbreviation client_at :: "registry \<Rightarrow> nat \<Rightarrow> socket_addr" where "client_at g r \<equiv> rv_client (rg_reservations g ! r)"
abbreviation lease_at :: "registry \<Rightarrow> nat \<Rightarrow> nat" where "lease_at g a \<equiv> as_lease (rg_associations g ! a)"

definition live :: "registry \<Rightarrow> nat set" where
  "live g = {r. r < length (rg_reservations g) \<and> \<not> released_at g r}"

definition holders :: "registry \<Rightarrow> nat multiset" where
  "holders g = mset (map ow_reservation (filter (\<lambda>w. \<not> terminal_at g (ow_reservation w)) (rg_owners g))) +
     image_mset (lease_at g) (mset (active_slots (map snd (rg_slots g)))) + mset (map (lease_at g \<circ> fst) (rg_stopping g))"

definition counters_ok :: "registry \<Rightarrow> bool" where
  "counters_ok g = (rg_active g = card (live g) \<and> card (live g) \<le> rg_max_associations g \<and>
     (\<forall>p. px_active (rg_proxies g p) = card {r \<in> live g. proxy_at g r = p} \<and> card {r \<in> live g. proxy_at g r = p} \<le> px_max_associations (rg_proxies g p)))"

lemma finite_live [simp]: "finite (live g)"
  by (simp add: live_def)

definition retire :: "bool \<Rightarrow> nat \<Rightarrow> registry \<Rightarrow> registry" where
  "retire retryable r g = release r (transition (SetupAbandoned retryable) r g)"

lemma transition_frame [simp]:
  "rg_slots (transition x r g) = rg_slots g" "rg_owners (transition x r g) = rg_owners g" "rg_stopping (transition x r g) = rg_stopping g"
  "rg_associations (transition x r g) = rg_associations g" "rg_history (transition x r g) = rg_history g"
  "rg_history_limit (transition x r g) = rg_history_limit g" "length (rg_reservations (transition x r g)) = length (rg_reservations g)"
  "rg_active (transition x r g) = rg_active g" "rg_proxies (transition x r g) = rg_proxies g" "rg_max_associations (transition x r g) = rg_max_associations g"
  by (simp_all add: transition_def set_reservation_def Let_def)

lemma release_frame [simp]:
  "rg_slots (release r g) = rg_slots g" "rg_owners (release r g) = rg_owners g" "rg_stopping (release r g) = rg_stopping g"
  "rg_associations (release r g) = rg_associations g" "rg_history (release r g) = rg_history g"
  "rg_history_limit (release r g) = rg_history_limit g" "length (rg_reservations (release r g)) = length (rg_reservations g)"
  "rg_max_associations (release r g) = rg_max_associations g" "px_max_associations (rg_proxies (release r g) p) = px_max_associations (rg_proxies g p)"
  by (simp_all add: release_def set_reservation_def adjust_active_def Let_def)

lemma transition_at:
  assumes "r < length (rg_reservations g)"
  shows "terminal_at (transition x r g) q \<longleftrightarrow> q = r \<or> terminal_at g q" "released_at (transition x r g) q = released_at g q"
    "client_at (transition x r g) q = client_at g q" "proxy_at (transition x r g) q = proxy_at g q" "live (transition x r g) = live g"
  using assms by (auto simp: transition_def set_reservation_def Let_def nth_list_update live_def split: if_splits)

lemma release_at:
  assumes "r < length (rg_reservations g)"
  shows "released_at (release r g) q \<longleftrightarrow> q = r \<or> released_at g q" "terminal_at (release r g) q = terminal_at g q"
    "client_at (release r g) q = client_at g q" "proxy_at (release r g) q = proxy_at g q" "live (release r g) = live g - {r}"
  using assms by (auto simp: release_def set_reservation_def adjust_active_def Let_def nth_list_update live_def split: if_splits)

lemma release_counters:
  assumes "r < length (rg_reservations g)" "counters_ok g"
  shows "counters_ok (release r g)"
proof (cases "released_at g r")
  case False
  let ?p = "proxy_at g r"
  have r: "r \<in> live g" using assms(1) False by (simp add: live_def)
  have one: "card (live g - {r}) = card (live g) - 1" using r by simp
  have per: "card {q \<in> live g - {r}. proxy_at g q = p} = card {q \<in> live g. proxy_at g q = p} - (if p = ?p then 1 else 0)" for p
  proof -
    have "{q \<in> live g - {r}. proxy_at g q = p} = (if p = ?p then {q \<in> live g. proxy_at g q = p} - {r} else {q \<in> live g. proxy_at g q = p})" by auto
    then show ?thesis using r by simp
  qed
  have "rg_active (release r g) = rg_active g - 1"
    "px_active (rg_proxies (release r g) p) = px_active (rg_proxies g p) - (if p = ?p then 1 else 0)" for p
    using False by (simp_all add: release_def set_reservation_def adjust_active_def Let_def)
  then show ?thesis using assms(2) release_at [OF assms(1)] one per
    by (simp add: counters_ok_def le_diff_conv trans_le_add1)
qed (use assms in \<open>simp add: release_def\<close>)

lemma transition_counters:
  assumes "r < length (rg_reservations g)" "counters_ok g"
  shows "counters_ok (transition x r g)"
  using assms by (simp add: counters_ok_def transition_at)

lemma retire_frame [simp]:
  "rg_slots (retire b r g) = rg_slots g" "rg_owners (retire b r g) = rg_owners g" "rg_stopping (retire b r g) = rg_stopping g"
  "rg_associations (retire b r g) = rg_associations g" "rg_history (retire b r g) = rg_history g"
  "rg_history_limit (retire b r g) = rg_history_limit g" "length (rg_reservations (retire b r g)) = length (rg_reservations g)"
  by (simp_all add: retire_def)

lemma retire_at:
  assumes "r < length (rg_reservations g)"
  shows "terminal_at (retire b r g) q \<longleftrightarrow> q = r \<or> terminal_at g q" "released_at (retire b r g) q \<longleftrightarrow> q = r \<or> released_at g q"
    "client_at (retire b r g) q = client_at g q" "proxy_at (retire b r g) q = proxy_at g q" "live (retire b r g) = live g - {r}"
  using assms by (simp_all add: retire_def transition_at release_at)

lemma retire_counters: "r < length (rg_reservations g) \<Longrightarrow> counters_ok g \<Longrightarrow> counters_ok (retire b r g)"
  by (simp add: retire_def release_counters transition_counters)

section \<open>The invariant\<close>

definition waking :: "registry \<Rightarrow> bool" where
  "waking g = (\<forall>v \<in> set (rg_reservations g). if rv_terminal v then waiter_wakes v else \<not> rv_released v \<and> 0 < rv_version v)"

definition owner_ok :: "registry \<Rightarrow> owner \<Rightarrow> bool" where
  "owner_ok g w = (ow_reservation w < length (rg_reservations g) \<and> proxy_at g (ow_reservation w) = ow_proxy w \<and>
     (terminal_at g (ow_reservation w) \<longleftrightarrow> map_of (rg_slots g) (ow_proxy w, ow_client w) \<noteq> Some (Starting (ow_reservation w))) \<and>
     (terminal_at g (ow_reservation w) \<longrightarrow> released_at g (ow_reservation w)) \<and>
     (\<forall>a. ow_association w = Some a \<longrightarrow> a < length (rg_associations g) \<and> lease_at g a = ow_reservation w))"

definition owners_ok :: "registry \<Rightarrow> bool" where
  "owners_ok g = ((\<forall>w \<in> set (rg_owners g). owner_ok g w) \<and> distinct (map ow_reservation (rg_owners g)) \<and>
     (\<forall>r < length (rg_reservations g). terminal_at g r \<or> r \<in> ow_reservation ` set (rg_owners g)))"

fun slot_ok :: "registry \<Rightarrow> nat \<times> socket_addr \<Rightarrow> slot \<Rightarrow> bool" where
  "slot_ok g k (Starting r) = (r < length (rg_reservations g) \<and> proxy_at g r = fst k \<and> client_at g r = snd k \<and> (terminal_at g r \<longrightarrow> released_at g r))"
| "slot_ok g k (Active a) = (a < length (rg_associations g) \<and> lease_at g a < length (rg_reservations g))"

definition slots_ok :: "registry \<Rightarrow> bool" where
  "slots_ok g = (distinct (map fst (rg_slots g)) \<and> (\<forall>x \<in> set (rg_slots g). slot_ok g (fst x) (snd x)) \<and>
     (\<forall>x \<in> set (rg_stopping g). \<forall>k. slot_ok g k (Active (fst x))))"

definition registry_inv :: "registry \<Rightarrow> bool" where
  "registry_inv g = (holders g = mset_set (live g) \<and> counters_ok g \<and> waking g \<and> owners_ok g \<and> slots_ok g \<and>
     length (rg_history g) \<le> rg_history_limit g)"

lemma waking_at: "waking g \<Longrightarrow> r < length (rg_reservations g) \<Longrightarrow> \<not> terminal_at g r \<Longrightarrow> \<not> released_at g r \<and> 0 < rv_version (rg_reservations g ! r)"
  by (metis nth_mem waking_def)

lemma set_update_cases: "x \<in> set (xs[i := y]) \<Longrightarrow> x = y \<or> x \<in> set xs"
  using set_update_subset_insert by fast

lemma waking_transition:
  assumes "waking g" "r < length (rg_reservations g)" "outcome_terminal x"
  shows "waking (transition x r g)"
  using waking_at [OF assms(1,2)] assms(1,3)
  by (auto simp: waking_def transition_def set_reservation_def Let_def waiter_wakes_def dest!: set_update_cases)

lemma waking_release:
  assumes "waking g" "r < length (rg_reservations g)" "terminal_at g r"
  shows "waking (release r g)"
proof -
  have "waiter_wakes (rg_reservations g ! r)" using assms by (metis nth_mem waking_def)
  then show ?thesis using assms(1,3)
    by (auto simp: waking_def release_def set_reservation_def adjust_active_def Let_def waiter_wakes_def dest!: set_update_cases)
qed

lemma waking_retire: "waking g \<Longrightarrow> r < length (rg_reservations g) \<Longrightarrow> waking (retire b r g)"
  unfolding retire_def by (rule waking_release) (simp_all add: waking_transition transition_at)

lemma live_terminal:
  assumes "registry_inv g" "r \<in> live g"
  shows "(\<not> terminal_at g r \<and> r \<in> ow_reservation ` set (rg_owners g)) \<or>
    (terminal_at g r \<and> (r \<in> lease_at g ` set (active_slots (map snd (rg_slots g))) \<or> r \<in> (lease_at g \<circ> fst) ` set (rg_stopping g)))"
proof (cases "terminal_at g r")
  case False
  then show ?thesis using assms by (auto simp: registry_inv_def owners_ok_def live_def)
next
  case True
  have "r \<in># holders g" using assms by (simp add: registry_inv_def)
  then show ?thesis using True by (auto simp: holders_def)
qed

lemma setup_distinct:
  assumes "distinct (map ow_reservation ws)" "w \<in> set ws"
  shows "ow_reservation w \<notin> ow_reservation ` set (remove1 w ws)" "distinct (map ow_reservation (remove1 w ws))"
    "mset (map ow_reservation (filter P ws)) =
       (if P w then {#ow_reservation w#} else {#}) + mset (map ow_reservation (filter P (remove1 w ws)))"
    "set (remove1 w ws) = set ws - {w}"
proof -
  have d: "distinct ws" using assms(1) by (simp add: distinct_map)
  then show s: "set (remove1 w ws) = set ws - {w}" by simp
  show "ow_reservation w \<notin> ow_reservation ` set (remove1 w ws)" using assms s by (auto simp: distinct_map inj_on_def)
  show "distinct (map ow_reservation (remove1 w ws))" using assms(1) s d by (auto simp: distinct_map inj_on_def)
  have "mset ws = add_mset w (mset (remove1 w ws))" using assms(2) by simp
  from arg_cong [OF this, of "\<lambda>m. image_mset ow_reservation (filter_mset P m)"]
  show "mset (map ow_reservation (filter P ws)) =
       (if P w then {#ow_reservation w#} else {#}) + mset (map ow_reservation (filter P (remove1 w ws)))" by (simp del: mset_remove1)
qed

lemma abandon_inv:
  assumes inv: "registry_inv g" and w: "w \<in> set (rg_owners g)"
    and g1: "g1 = g \<or> (same_reservation_slot (ow_proxy w, ow_client w) (ow_reservation w) g \<and> g1 = remove_slot (ow_proxy w, ow_client w) g)"
  shows "registry_inv (drop_owner w (retire b (ow_reservation w) g1))"
proof -
  let ?r = "ow_reservation w" and ?key = "(ow_proxy w, ow_client w)"
  let ?g = "drop_owner w (retire b ?r g1)"
  have ok: "owners_ok g" "slots_ok g" "counters_ok g" "waking g" "owner_ok g w" using inv w by (auto simp: registry_inv_def owners_ok_def)
  have d: "distinct (map ow_reservation (rg_owners g))" using ok(1) by (simp add: owners_ok_def)
  note sd = setup_distinct [OF d w]
  have res: "rg_reservations g1 = rg_reservations g" "rg_owners g1 = rg_owners g" "rg_stopping g1 = rg_stopping g" "rg_associations g1 = rg_associations g"
    "rg_history g1 = rg_history g" "rg_history_limit g1 = rg_history_limit g" "live g1 = live g" "counters_ok g1" "waking g1"
    using g1 ok by (auto simp: remove_slot_def live_def counters_ok_def waking_def)
  have r: "?r < length (rg_reservations g1)" using ok(5) res by (simp add: owner_ok_def)
  note at = retire_at [OF r, of b]
  have act: "mset (active_slots (map snd (rg_slots g1))) = mset (active_slots (map snd (rg_slots g)))"
    using g1 active_after_delete [of "rg_slots g" ?key "Starting ?r"] ok(2) by (auto simp: same_reservation_slot_def remove_slot_def slots_ok_def)
  have slots: "map_of (rg_slots g1) k = Some x \<longleftrightarrow> map_of (rg_slots g) k = Some x" if "x \<noteq> Starting ?r" for k x
    using g1 that by (auto simp: same_reservation_slot_def remove_slot_def AList.delete_conv' split: if_splits)
  have sub: "set (rg_slots g1) \<subseteq> set (rg_slots g)" "distinct (map fst (rg_slots g1))"
    using g1 ok(2) by (auto simp: remove_slot_def slots_ok_def AList.delete_eq distinct_map_filter)
  have ne: "ow_reservation x \<noteq> ?r" if "x \<in> set (remove1 w (rg_owners g))" for x using sd(1) that by (metis imageI)
  have filt: "filter (\<lambda>x. \<not> terminal_at ?g (ow_reservation x)) (remove1 w (rg_owners g)) = filter (\<lambda>x. \<not> terminal_at g (ow_reservation x)) (remove1 w (rg_owners g))"
    using ne at(1) res(1) by (intro filter_cong) (auto simp: drop_owner_def)
  have "holders ?g + (if \<not> terminal_at g ?r then {#?r#} else {#}) = holders g"
    using filt sd(3) [of "\<lambda>x. \<not> terminal_at g (ow_reservation x)"] act res by (simp add: holders_def drop_owner_def)
  moreover have "live ?g = live g - {?r}" using at(5) res(7) by (simp add: drop_owner_def live_def)
  moreover have "?r \<in> live g" if "\<not> terminal_at g ?r" using waking_at [OF ok(4)] r res that by (simp add: live_def)
  moreover have "?r \<notin> live g" if "terminal_at g ?r" using ok(5) that by (simp add: live_def owner_ok_def)
  ultimately have "holders ?g = mset_set (live ?g)" using inv
    by (cases "terminal_at g ?r") (auto simp: registry_inv_def mset_set.remove)
  moreover have "owner_ok ?g x" if "x \<in> set (remove1 w (rg_owners g))" for x
  proof -
    have x: "owner_ok g x" "ow_reservation x \<noteq> ?r" using that sd(4) ne ok(1) by (auto simp: owners_ok_def)
    then show ?thesis using at(1-4) res slots [of "Starting (ow_reservation x)"] by (auto simp: owner_ok_def drop_owner_def)
  qed
  then have "owners_ok ?g" using sd ok(1) at(1) res by (auto simp: owners_ok_def drop_owner_def)
  moreover have so: "slot_ok ?g p x" if "slot_ok g p x" for p x using that at res by (cases x) (auto simp: drop_owner_def)
  have "\<forall>x \<in> set (rg_slots g1). slot_ok ?g (fst x) (snd x)" "\<forall>x \<in> set (rg_stopping g). \<forall>k. slot_ok ?g k (Active (fst x))"
    using so sub(1) ok(2) unfolding slots_ok_def by blast+
  then have "slots_ok ?g" using sub(2) res unfolding slots_ok_def by (simp add: drop_owner_def)
  moreover have "counters_ok ?g" using retire_counters [OF r res(8), of b] by (simp add: counters_ok_def drop_owner_def live_def)
  moreover have "waking ?g" using waking_retire [OF res(9) r, of b] by (simp add: waking_def drop_owner_def)
  ultimately show ?thesis using inv res by (simp add: registry_inv_def drop_owner_def)
qed

lemma inv_parts:
  assumes "registry_inv g"
  shows "holders g = mset_set (live g)" "counters_ok g" "waking g" "owners_ok g" "slots_ok g" "length (rg_history g) \<le> rg_history_limit g"
  using assms by (simp_all add: registry_inv_def)

lemma stopping_range:
  assumes "slots_ok g" "x \<in> set (rg_stopping g)"
  shows "fst x < length (rg_associations g)" "lease_at g (fst x) < length (rg_reservations g)"
  using assms by (auto simp: slots_ok_def)

lemma active_range:
  assumes "slots_ok g" "a \<in> set (active_slots (map snd (rg_slots g)))"
  shows "a < length (rg_associations g)" "lease_at g a < length (rg_reservations g)"
proof -
  obtain k where "(k, Active a) \<in> set (rg_slots g)" using assms(2) by (auto simp: active_slots_set)
  then have "slot_ok g k (Active a)" using assms(1) by (force simp: slots_ok_def)
  then show "a < length (rg_associations g)" "lease_at g a < length (rg_reservations g)" by simp_all
qed

lemma resolve_setup_inv:
  assumes "registry_inv g" "resolve_locked p client g = (ResolveSetup r, g')"
  shows "registry_inv (add_owner \<lparr>ow_proxy = p, ow_client = client, ow_reservation = r, ow_association = None\<rparr> g')"
proof -
  let ?g = "add_owner \<lparr>ow_proxy = p, ow_client = client, ow_reservation = r, ow_association = None\<rparr> g'"
  note inv = inv_parts [OF assms(1)]
  have none: "map_of (rg_slots g) (p, client) = None" "try_acquire p g \<noteq> None"
    using assms(2) by (auto simp: resolve_locked_def split: option.splits slot.splits if_splits)
  then have g': "g' = (adjust_active Suc p g)\<lparr>rg_next_reservation := (rg_next_reservation g + 1) mod 2 ^ 64,
      rg_reservations := rg_reservations g @ [reservation_new (rg_next_reservation g) p client], rg_slots := AList.update (p, client) (Starting r) (rg_slots g)\<rparr>"
    and r: "r = length (rg_reservations g)"
    using assms(2) by (auto simp: resolve_locked_def try_acquire_def adjust_active_def Let_def split: if_splits)
  have room: "rg_active g < rg_max_associations g" "px_active (rg_proxies g p) < px_max_associations (rg_proxies g p)"
    using none(2) by (auto simp: try_acquire_def split: if_splits)
  have f: "rg_owners ?g = \<lparr>ow_proxy = p, ow_client = client, ow_reservation = r, ow_association = None\<rparr> # rg_owners g"
    "rg_slots ?g = AList.update (p, client) (Starting r) (rg_slots g)" "rg_stopping ?g = rg_stopping g" "rg_associations ?g = rg_associations g"
    "rg_reservations ?g = rg_reservations g @ [reservation_new (rg_next_reservation g) p client]" "rg_history ?g = rg_history g" "rg_history_limit ?g = rg_history_limit g"
    "rg_active ?g = Suc (rg_active g)" "rg_max_associations ?g = rg_max_associations g" "px_max_associations (rg_proxies ?g q) = px_max_associations (rg_proxies g q)"
    "px_active (rg_proxies ?g q) = px_active (rg_proxies g q) + (if q = p then 1 else 0)" for q
    by (simp_all add: g' add_owner_def adjust_active_def)
  have at: "terminal_at ?g q = (q < r \<and> terminal_at g q)" "released_at ?g q = (q < r \<and> released_at g q)" "proxy_at ?g q = (if q < r then proxy_at g q else p)"
    "client_at ?g q = (if q < r then client_at g q else client)"
    if "q \<le> r" for q using that r f(5) by (simp_all add: nth_append reservation_new_def)
  have live: "live ?g = insert r (live g)" "r \<notin> live g" using at f(5) r by (auto simp: live_def less_Suc_eq)
  have own: "ow_reservation x < r" if "x \<in> set (rg_owners g)" for x using inv(4) that r by (simp add: owners_ok_def owner_ok_def)
  have d: "distinct (map fst (rg_slots g))" using inv(5) by (simp add: slots_ok_def)
  have "filter (\<lambda>x. \<not> terminal_at ?g (ow_reservation x)) (rg_owners g) = filter (\<lambda>x. \<not> terminal_at g (ow_reservation x)) (rg_owners g)"
    by (rule filter_cong [OF refl]) (use own at(1) in force)
  then have "holders ?g = add_mset r (holders g)"
    using at(1) [of r] active_after_update [OF d, of "(p, client)" "Starting r"] delete_absent [OF none(1)] f by (simp add: holders_def)
  then have "holders ?g = mset_set (live ?g)" using inv(1) live by simp
  moreover have per: "{q \<in> live ?g. proxy_at ?g q = x} = (if x = p then insert r else id) {q \<in> live g. proxy_at g q = x}" for x
    using live(1) at(3) r by (auto simp: live_def)
  have "counters_ok ?g"
    unfolding counters_ok_def per using inv(2) room live f(8-11) by (auto simp: counters_ok_def)
  moreover have "waking ?g" using inv(3) f(5) by (auto simp: waking_def reservation_new_def)
  moreover {
  have "owner_ok ?g x" if "x \<in> set (rg_owners g)" for x
  proof -
    have x: "owner_ok g x" "ow_reservation x < r" using inv(4) that own by (simp_all add: owners_ok_def)
    then show ?thesis using at [of "ow_reservation x"] f none(1) by (auto simp: owner_ok_def AList.update_conv')
  qed
  moreover have "owner_ok ?g \<lparr>ow_proxy = p, ow_client = client, ow_reservation = r, ow_association = None\<rparr>"
    using at [of r] f(2,5) r by (simp add: owner_ok_def AList.update_conv')
  moreover have "r \<notin> ow_reservation ` set (rg_owners g)" using own by force
  moreover have "terminal_at ?g q \<or> q \<in> insert r (ow_reservation ` set (rg_owners g))" if "q < Suc r" for q
    using that inv(4) at(1) [of q] r by (auto simp: owners_ok_def less_Suc_eq)
  ultimately have "owners_ok ?g" using inv(4) f(1,5) r by (auto simp: owners_ok_def) }
  moreover have so: "slot_ok ?g q x" if "slot_ok g q x" for q x using that at f r by (cases x) auto
  have "slots_ok ?g"
  proof -
    have "\<forall>x \<in> set (rg_slots g). slot_ok ?g (fst x) (snd x)" "\<forall>x \<in> set (rg_stopping g). \<forall>k. slot_ok ?g k (Active (fst x))"
      using so inv(5) unfolding slots_ok_def by blast+
    moreover have "slot_ok ?g (p, client) (Starting r)" using at [of r] f(5) r by simp
    moreover have "set (AList.update (p, client) (Starting r) (rg_slots g)) = insert ((p, client), Starting r) (set (rg_slots g))"
      using arg_cong [OF mset_update [OF d, of "(p, client)" "Starting r"], of set_mset] delete_absent [OF none(1)] by simp
    ultimately show ?thesis using d unfolding slots_ok_def f(2,3) by (auto simp: AList.distinct_update simp del: slot_ok.simps)
  qed
  ultimately show ?thesis using inv(6) f by (simp add: registry_inv_def)
qed

lemma resolve_other_inv:
  assumes "registry_inv g" "resolve_locked p client g = (x, g')" "\<And>r. x \<noteq> ResolveSetup r"
  shows "registry_inv g'"
proof (cases "g' = g")
  case False
  then obtain r where r: "map_of (rg_slots g) (p, client) = Some (Starting r)" "terminal_at g r" "g' = remove_slot (p, client) g"
    using assms(2,3) by (auto simp: resolve_locked_def Let_def split: option.splits slot.splits if_splits)
  note inv = inv_parts [OF assms(1)]
  have d: "distinct (map fst (rg_slots g))" using inv(5) by (simp add: slots_ok_def)
  have "holders g' = holders g" "live g' = live g" "counters_ok g'" "waking g'"
    using active_after_delete [OF d r(1)] inv(2,3) r(3) by (simp_all add: holders_def remove_slot_def live_def counters_ok_def waking_def)
  moreover have "owner_ok g' w" if "w \<in> set (rg_owners g)" for w
  proof -
    have "owner_ok g w" using that inv(4) by (simp add: owners_ok_def)
    then show ?thesis using r by (auto simp: owner_ok_def remove_slot_def AList.delete_conv')
  qed
  then have "owners_ok g'" using inv(4) r(3) by (auto simp: owners_ok_def remove_slot_def)
  moreover have same: "slot_ok g' q y = slot_ok g q y" for q y using r(3) by (cases y) (simp_all add: remove_slot_def)
  have "slots_ok g'" using inv(5) same r(3) by (auto simp: slots_ok_def remove_slot_def AList.delete_eq distinct_map_filter simp del: slot_ok.simps)
  ultimately show ?thesis using inv r(3) by (simp add: registry_inv_def remove_slot_def)
qed (use assms(1) in simp)

lemma counters_frame:
  "counters_ok (drop_owner w g) = counters_ok g" "waking (drop_owner w g) = waking g" "live (drop_owner w g) = live g"
  "counters_ok (g\<lparr>rg_slots := ss\<rparr>) = counters_ok g" "waking (g\<lparr>rg_slots := ss\<rparr>) = waking g" "live (g\<lparr>rg_slots := ss\<rparr>) = live g"
  "counters_ok (hand_over b as g) = counters_ok g" "waking (hand_over b as g) = waking g" "live (hand_over b as g) = live g"
  by (simp_all add: counters_ok_def waking_def live_def drop_owner_def hand_over_def)

lemma spawned_inv:
  assumes "registry_inv g" "w \<in> set (rg_owners g)" "new_association (ow_client w) (ow_reservation w) g = (a, g')"
  shows "registry_inv (add_owner (w\<lparr>ow_association := Some a\<rparr>) (drop_owner w g'))"
proof -
  let ?g = "add_owner (w\<lparr>ow_association := Some a\<rparr>) (drop_owner w g')"
  note inv = inv_parts [OF assms(1)]
  have d: "distinct (map ow_reservation (rg_owners g))" using inv(4) by (simp add: owners_ok_def)
  note sd = setup_distinct [OF d assms(2)]
  have a: "a = length (rg_associations g)" using assms(3) by (simp add: new_association_def)
  have f: "rg_owners ?g = w\<lparr>ow_association := Some a\<rparr> # remove1 w (rg_owners g)" "rg_slots ?g = rg_slots g" "rg_stopping ?g = rg_stopping g"
    "rg_reservations ?g = rg_reservations g" "rg_history ?g = rg_history g" "rg_history_limit ?g = rg_history_limit g" "live ?g = live g"
    "length (rg_associations ?g) = Suc a" "lease_at ?g a = ow_reservation w" "counters_ok ?g = counters_ok g" "waking ?g = waking g"
    using assms(3) a by (auto simp: new_association_def add_owner_def drop_owner_def live_def counters_ok_def waking_def)
  have lease: "lease_at ?g b = lease_at g b" if "b < a" for b
    using assms(3) a that by (auto simp: new_association_def add_owner_def drop_owner_def nth_append)
  have act: "image_mset (lease_at ?g) (mset (active_slots (map snd (rg_slots g)))) = image_mset (lease_at g) (mset (active_slots (map snd (rg_slots g))))"
    by (rule image_mset_cong) (use active_range [OF inv(5)] lease a in auto)
  have stop: "map (lease_at ?g \<circ> fst) (rg_stopping g) = map (lease_at g \<circ> fst) (rg_stopping g)"
    by (rule map_cong [OF refl]) (use stopping_range [OF inv(5)] lease a in auto)
  have "mset (map ow_reservation (filter (\<lambda>x. \<not> terminal_at g (ow_reservation x)) (rg_owners ?g))) =
      mset (map ow_reservation (filter (\<lambda>x. \<not> terminal_at g (ow_reservation x)) (rg_owners g)))"
    unfolding f(1) sd(3) by (simp del: mset_map mset_filter mset_remove1)
  then have "holders ?g = holders g" unfolding holders_def f(2-4) act stop by (rule arg_cong)
  moreover have "owner_ok ?g x" if "owner_ok g x" for x
    using that f lease a by (auto simp: owner_ok_def)
  then have "owner_ok ?g w" "\<forall>x \<in> set (remove1 w (rg_owners g)). owner_ok ?g x" using inv(4) assms(2) sd(4) by (auto simp: owners_ok_def)
  then have "owners_ok ?g" using inv(4) f(1,4) sd assms(2) f(8,9) by (auto simp: owners_ok_def owner_ok_def)
  moreover have so: "slot_ok ?g p x" if "slot_ok g p x" for p x using that f lease a by (cases x) auto
  have "slots_ok ?g" using inv(5) so unfolding slots_ok_def f(2,3) by blast
  ultimately show ?thesis using inv f by (simp add: registry_inv_def)
qed

lemma published_inv:
  assumes "registry_inv g" "w \<in> set (rg_owners g)" "ow_association w = Some a"
    "publish_slot (ow_proxy w, ow_client w) (ow_reservation w) a g = (True, g')"
  shows "registry_inv (drop_owner w g')"
proof -
  let ?r = "ow_reservation w" and ?key = "(ow_proxy w, ow_client w)" and ?g = "drop_owner w g'"
  note inv = inv_parts [OF assms(1)]
  let ?h = "g\<lparr>rg_slots := AList.update ?key (Active a) (rg_slots g)\<rparr>"
  have slot: "map_of (rg_slots g) ?key = Some (Starting ?r)" and g': "g' = transition SetupPublished ?r ?h"
    using assms(4) by (auto simp: publish_slot_def same_reservation_slot_def split: if_splits)
  have ow: "owner_ok g w" using inv(4) assms(2) by (simp add: owners_ok_def)
  then have r: "?r < length (rg_reservations ?h)" and pending: "\<not> terminal_at g ?r" and a: "a < length (rg_associations g)" "lease_at g a = ?r"
    using slot assms(3) by (simp_all add: owner_ok_def)
  have d: "distinct (map ow_reservation (rg_owners g))" "distinct (map fst (rg_slots g))" using inv(4,5) by (simp_all add: owners_ok_def slots_ok_def)
  note sd = setup_distinct [OF d(1) assms(2)]
  note at = transition_at [OF r, of SetupPublished, folded g', simplified]
  have f: "rg_owners ?g = remove1 w (rg_owners g)" "rg_slots ?g = AList.update ?key (Active a) (rg_slots g)" "rg_stopping ?g = rg_stopping g"
    "rg_associations ?g = rg_associations g" "rg_history ?g = rg_history g" "rg_history_limit ?g = rg_history_limit g"
    "length (rg_reservations ?g) = length (rg_reservations g)" "rg_reservations ?g = rg_reservations g'" "live ?g = live g"
    using g' at(5) by (simp_all add: drop_owner_def live_def)
  have ne: "ow_reservation x \<noteq> ?r" if "x \<in> set (remove1 w (rg_owners g))" for x using sd(1) that by (metis imageI)
  have same: "filter (\<lambda>x. \<not> terminal_at g' (ow_reservation x)) (remove1 w (rg_owners g)) = filter (\<lambda>x. \<not> terminal_at g (ow_reservation x)) (remove1 w (rg_owners g))"
    using ne at(1) by (intro filter_cong) auto
  define X where "X = mset (map ow_reservation (filter (\<lambda>x. \<not> terminal_at g (ow_reservation x)) (remove1 w (rg_owners g))))"
  define D where "D = mset (active_slots (map snd (AList.delete ?key (rg_slots g))))"
  have own: "mset (map ow_reservation (filter (\<lambda>x. \<not> terminal_at g (ow_reservation x)) (rg_owners g))) = {#?r#} + X"
    using sd(3) [of "\<lambda>x. \<not> terminal_at g (ow_reservation x)"] pending unfolding X_def by (simp only: if_True not_False_eq_True)
  have act: "mset (active_slots (map snd (rg_slots g))) = D" "mset (active_slots (map snd (rg_slots ?g))) = {#a#} + D"
    using active_after_delete [OF d(2) slot] active_after_update [OF d(2), of ?key "Active a"] f(2) by (simp_all add: D_def)
  have "holders ?g = X + image_mset (lease_at g) ({#a#} + D) + mset (map (lease_at g \<circ> fst) (rg_stopping g))"
    unfolding holders_def act(2) unfolding f(1,3,4,8) same X_def by (rule refl)
  moreover have "holders g = ({#?r#} + X) + image_mset (lease_at g) D + mset (map (lease_at g \<circ> fst) (rg_stopping g))"
    unfolding holders_def act(1) own by (rule refl)
  ultimately have "holders ?g = holders g" using a(2) by simp
  moreover have "counters_ok ?g"
    unfolding counters_frame(1) g' by (rule transition_counters [OF r]) (simp add: counters_frame inv(2))
  moreover have "waking ?g" unfolding counters_frame(2) g' by (rule waking_transition [OF _ r]) (simp_all add: counters_frame inv(3))
  moreover have "owner_ok ?g x" if "x \<in> set (remove1 w (rg_owners g))" for x
  proof -
    have x: "owner_ok g x" "ow_reservation x \<noteq> ?r" using that sd(4) ne inv(4) by (auto simp: owners_ok_def)
    then show ?thesis using at(1-4) f slot by (auto simp: owner_ok_def AList.update_conv')
  qed
  then have "owners_ok ?g" using sd inv(4) at(1) f by (auto simp: owners_ok_def)
  moreover have "slots_ok ?g"
  proof -
    have "proxy_at g ?r = ow_proxy w" "client_at g ?r = ow_client w" using map_of_SomeD [OF slot] inv(5) by (force simp: slots_ok_def)+
    then have so: "slot_ok ?g k x" if "slot_ok g k x" "k \<noteq> ?key" for k x using that at f by (cases x) (auto simp: prod_eq_iff)
    have set: "set (rg_slots ?g) = insert (?key, Active a) (set (AList.delete ?key (rg_slots g)))"
      using arg_cong [OF mset_update [OF d(2), of ?key "Active a"], of set_mset] f(2) by simp
    have "slot_ok ?g (fst x) (snd x)" if "x \<in> set (AList.delete ?key (rg_slots g))" for x
    proof (rule so)
      show "slot_ok g (fst x) (snd x)" using that inv(5) unfolding slots_ok_def AList.delete_eq set_filter by blast
      show "fst x \<noteq> ?key" using that by (auto simp: AList.delete_eq)
    qed
    moreover have "\<forall>k. slot_ok ?g k (Active (fst x))" if "x \<in> set (rg_stopping g)" for x
      using stopping_range [OF inv(5) that] f by simp
    ultimately show ?thesis using set a r f(2-4,7) d(2) by (auto simp: slots_ok_def AList.distinct_update)
  qed
  ultimately show ?thesis using inv f by (simp add: registry_inv_def)
qed

text \<open>A lease in use by an association has no setup any more.\<close>

lemma held_once:
  assumes "registry_inv g" "r \<in># image_mset (lease_at g) (mset (active_slots (map snd (rg_slots g)))) + mset (map (lease_at g \<circ> fst) (rg_stopping g))"
  shows "terminal_at g r" "r \<in> live g"
proof -
  note inv = inv_parts [OF assms(1)]
  let ?O = "mset (map ow_reservation (filter (\<lambda>w. \<not> terminal_at g (ow_reservation w)) (rg_owners g)))"
  let ?A = "image_mset (lease_at g) (mset (active_slots (map snd (rg_slots g)))) + mset (map (lease_at g \<circ> fst) (rg_stopping g))"
  have h: "mset_set (live g) = ?O + ?A" using inv(1) unfolding holders_def by (simp only: add.assoc)
  then have "r \<in># mset_set (live g)" using assms(2) by (simp only: union_iff simp_thms)
  then show live: "r \<in> live g" by simp
  show "terminal_at g r"
  proof (rule ccontr)
    assume non: "\<not> terminal_at g r"
    then obtain w where "w \<in> set (rg_owners g)" "ow_reservation w = r" using inv(4) live by (auto simp: owners_ok_def live_def)
    then have "r \<in># ?O" using non by force
    then have "0 < count ?O r" "0 < count ?A r" using assms(2) by (simp_all only: count_greater_zero_iff)
    moreover have "count (?O + ?A) r \<le> 1" unfolding h [symmetric] by (simp add: count_mset_set')
    ultimately show False unfolding count_union by linarith
  qed
qed

lemma abandon_drained_frame [simp]:
  "rg_slots (abandon_drained b ss g) = rg_slots g" "rg_owners (abandon_drained b ss g) = rg_owners g" "rg_stopping (abandon_drained b ss g) = rg_stopping g"
  "rg_associations (abandon_drained b ss g) = rg_associations g" "rg_history (abandon_drained b ss g) = rg_history g"
  "rg_history_limit (abandon_drained b ss g) = rg_history_limit g" "length (rg_reservations (abandon_drained b ss g)) = length (rg_reservations g)"
  by (induction b ss g rule: abandon_drained.induct) simp_all

lemma abandon_drained_effect:
  "\<forall>r. Starting r \<in> set ss \<longrightarrow> r < length (rg_reservations g) \<Longrightarrow>
     (\<forall>q. (terminal_at (abandon_drained b ss g) q \<longleftrightarrow> Starting q \<in> set ss \<or> terminal_at g q) \<and>
        (released_at (abandon_drained b ss g) q \<longleftrightarrow> Starting q \<in> set ss \<or> released_at g q) \<and>
        proxy_at (abandon_drained b ss g) q = proxy_at g q \<and> client_at (abandon_drained b ss g) q = client_at g q) \<and>
     live (abandon_drained b ss g) = live g - {r. Starting r \<in> set ss} \<and>
     (counters_ok g \<longrightarrow> counters_ok (abandon_drained b ss g)) \<and> (waking g \<longrightarrow> waking (abandon_drained b ss g))"
proof (induction ss arbitrary: g)
  case (Cons x ss)
  show ?case
  proof (cases x)
    case (Starting r)
    then have r: "r < length (rg_reservations g)" using Cons.prems by simp
    have "abandon_drained b (x # ss) g = abandon_drained b ss (retire b r g)" using Starting by (simp add: retire_def)
    moreover have "\<forall>q. Starting q \<in> set ss \<longrightarrow> q < length (rg_reservations (retire b r g))" using Cons.prems by simp
    note Cons.IH [OF this]
    moreover note retire_at [OF r, of b]
    moreover note retire_counters [OF r, of b] waking_retire [OF _ r, of b]
    ultimately show ?thesis using Starting by auto
  next
    case (Active a)
    then show ?thesis using Cons.IH [of g] Cons.prems by simp
  qed
qed simp

lemmas abandon_drained_at =
  abandon_drained_effect [THEN conjunct1, THEN spec, THEN conjunct1]
  abandon_drained_effect [THEN conjunct1, THEN spec, THEN conjunct2, THEN conjunct1]
  abandon_drained_effect [THEN conjunct1, THEN spec, THEN conjunct2, THEN conjunct2, THEN conjunct1]
  abandon_drained_effect [THEN conjunct1, THEN spec, THEN conjunct2, THEN conjunct2, THEN conjunct2]
  abandon_drained_effect [THEN conjunct2, THEN conjunct1]
  abandon_drained_effect [THEN conjunct2, THEN conjunct2, THEN conjunct1, THEN mp]
  abandon_drained_effect [THEN conjunct2, THEN conjunct2, THEN conjunct2, THEN mp]

lemma drained_inv:
  assumes "registry_inv g" "drain_associations p retryable g = (as, g')"
  shows "registry_inv (hand_over True as g')"
proof -
  note inv = inv_parts [OF assms(1)]
  let ?mine = "filter (\<lambda>x. fst (fst x) = p) (rg_slots g)" and ?rest = "filter (\<lambda>x. fst (fst x) \<noteq> p) (rg_slots g)"
  let ?D = "map snd ?mine" and ?h = "g\<lparr>rg_slots := ?rest\<rparr>" and ?g = "hand_over True as g'"
  define S where "S = {r. Starting r \<in> set ?D}"
  have as: "as = active_slots ?D" and g': "g' = abandon_drained retryable ?D ?h" using assms(2) by (auto simp: drain_associations_def Let_def)
  have slot: "slot_ok g k x" if "(k, x) \<in> set (rg_slots g)" for k x using inv(5) that by (force simp: slots_ok_def)
  have inD: "r < length (rg_reservations g) \<and> proxy_at g r = p \<and> (terminal_at g r \<longrightarrow> released_at g r)" if "r \<in> S" for r
    using that slot unfolding S_def by force
  have "\<forall>r. Starting r \<in> set ?D \<longrightarrow> r < length (rg_reservations ?h)" using inD by (simp add: S_def)
  note at = abandon_drained_at [OF this, of retryable, folded g']
  have f: "rg_owners ?g = rg_owners g" "rg_slots ?g = ?rest" "rg_stopping ?g = rg_stopping g @ map (\<lambda>a. (a, True)) as" "rg_associations ?g = rg_associations g"
    "rg_history ?g = rg_history g" "rg_history_limit ?g = rg_history_limit g" "length (rg_reservations ?g) = length (rg_reservations g)"
    "rg_reservations ?g = rg_reservations g'" "live ?g = live g'"
    by (simp_all add: hand_over_def g' live_def)
  have t: "terminal_at g' q \<longleftrightarrow> q \<in> S \<or> terminal_at g q" "released_at g' q \<longleftrightarrow> q \<in> S \<or> released_at g q" "proxy_at g' q = proxy_at g q"
    "client_at g' q = client_at g q" for q using at(1-4) by (simp_all add: S_def)
  have live: "live ?g = live g - S" using at(5) f(9) by (simp add: S_def live_def)
  have free: "lease_at g a \<notin> S" if "a \<in> set (active_slots (map snd (rg_slots g))) \<or> a \<in> fst ` set (rg_stopping g)" for a
  proof -
    have "lease_at g a \<in># image_mset (lease_at g) (mset (active_slots (map snd (rg_slots g)))) + mset (map (lease_at g \<circ> fst) (rg_stopping g))"
      using that by (auto simp: image_iff)
    from held_once [OF assms(1) this] show ?thesis using inD [of "lease_at g a"] by (auto simp: live_def)
  qed
  define R where "R = image_mset (lease_at g) (mset (active_slots (map snd (rg_slots g)))) + mset (map (lease_at g \<circ> fst) (rg_stopping g))"
  define P where "P = mset (map ow_reservation (filter (\<lambda>w. \<not> terminal_at g (ow_reservation w)) (rg_owners g)))"
  have R: "filter_mset (\<lambda>r. r \<notin> S) R = R" unfolding filter_mset_eq_conv using free by (auto simp: R_def image_iff)
  have P: "mset (map ow_reservation (filter (\<lambda>w. \<not> terminal_at g' (ow_reservation w)) (rg_owners g))) = filter_mset (\<lambda>r. r \<notin> S) P"
    unfolding P_def t(1) by (simp add: filter_filter_mset filter_mset_image_mset conj_commute o_def)
  have "mset (active_slots (map snd (rg_slots g))) = mset (active_slots ?D) + mset (active_slots (map snd ?rest))"
    by (rule active_partition)
  then have "image_mset (lease_at g) (mset (active_slots (map snd ?rest))) + mset (map (lease_at g \<circ> fst) (rg_stopping ?g)) = R"
    unfolding f(3) unfolding R_def as by (simp add: comp_def)
  then have "holders ?g = filter_mset (\<lambda>r. r \<notin> S) P + R" unfolding holders_def f(2) unfolding f(1,4,8) P by (simp only: add.assoc)
  also have "\<dots> = filter_mset (\<lambda>r. r \<notin> S) (holders g)" using R by (simp add: holders_def P_def R_def add.assoc)
  also have "\<dots> = mset_set (live ?g)" unfolding inv(1) live by (simp add: set_diff_eq)
  finally have "holders ?g = mset_set (live ?g)" .
  moreover have "counters_ok ?g" "waking ?g"
    using at(6,7) inv(2,3) unfolding counters_frame by blast+
  moreover have "owner_ok ?g w" if "w \<in> set (rg_owners g)" for w
  proof -
    have w: "owner_ok g w" using inv(4) that by (simp add: owners_ok_def)
    show ?thesis
    proof (cases "ow_proxy w = p")
      case True
      then have "ow_reservation w \<in> S" if "\<not> terminal_at g (ow_reservation w)"
        using that w unfolding S_def by (force simp: owner_ok_def dest: map_of_SomeD)
      moreover have "map_of ?rest (ow_proxy w, ow_client w) = None" using True by (auto simp: map_of_eq_None_iff)
      ultimately show ?thesis using w t f by (auto simp: owner_ok_def)
    next
      case False
      then have "ow_reservation w \<notin> S" using inD w by (auto simp: owner_ok_def)
      moreover have "map_of ?rest (ow_proxy w, ow_client w) = map_of (rg_slots g) (ow_proxy w, ow_client w)"
        using False map_of_filter_key [of "\<lambda>k. fst k \<noteq> p" "(ow_proxy w, ow_client w)" "rg_slots g"] by simp
      ultimately show ?thesis using w t f by (auto simp: owner_ok_def)
    qed
  qed
  then have "owners_ok ?g" using inv(4) t(1) f by (auto simp: owners_ok_def)
  moreover have so: "slot_ok ?g k x" if "slot_ok g k x" for k x using that t f by (cases x) auto
  have "slots_ok ?g"
  proof -
    have "slot_ok ?g k (Active a)" if "a \<in> set as" for a k
      using active_range [OF inv(5), of a] that f as by (auto simp: active_slots_set)
    then show ?thesis using inv(5) so unfolding slots_ok_def f(2,3) by (auto simp: distinct_map_filter simp del: slot_ok.simps)
  qed
  ultimately show ?thesis using inv f by (simp add: registry_inv_def)
qed

lemma taken_inv:
  assumes "registry_inv g" "take_slot key a g = Some g'"
  shows "registry_inv (hand_over administrative [a] g')"
proof -
  note inv = inv_parts [OF assms(1)]
  let ?g = "hand_over administrative [a] g'"
  have slot: "map_of (rg_slots g) key = Some (Active a)" and g': "g' = g\<lparr>rg_slots := AList.delete key (rg_slots g)\<rparr>"
    using assms(2) by (auto simp: take_slot_def remove_slot_def split: if_splits)
  have d: "distinct (map fst (rg_slots g))" using inv(5) by (simp add: slots_ok_def)
  have f: "rg_owners ?g = rg_owners g" "rg_slots ?g = AList.delete key (rg_slots g)" "rg_stopping ?g = rg_stopping g @ [(a, administrative)]"
    "rg_associations ?g = rg_associations g" "rg_reservations ?g = rg_reservations g" "rg_history ?g = rg_history g" "rg_history_limit ?g = rg_history_limit g"
    by (simp_all add: g' hand_over_def)
  have "holders ?g = holders g" unfolding holders_def active_after_delete [OF d slot] f by simp
  moreover have "live ?g = live g" "counters_ok ?g" "waking ?g" unfolding g' counters_frame using inv(2,3) by blast+
  moreover have "owner_ok ?g w" if "owner_ok g w" for w using that slot f by (auto simp: owner_ok_def AList.delete_conv')
  then have "owners_ok ?g" using inv(4) f by (auto simp: owners_ok_def)
  moreover have same: "slot_ok ?g k x = slot_ok g k x" for k x using f by (cases x) simp_all
  have "slot_ok g key (Active a)" using map_of_SomeD [OF slot] inv(5) by (force simp: slots_ok_def)
  then have "slots_ok ?g" using inv(5) unfolding slots_ok_def same unfolding f by (auto simp: AList.delete_eq distinct_map_filter)
  ultimately show ?thesis using inv f by (simp add: registry_inv_def)
qed

lemma leases_same_inv:
  assumes "registry_inv g" "rg_associations g' = (rg_associations g)[a := v]" "as_lease v = lease_at g a"
    "g' = g\<lparr>rg_associations := rg_associations g'\<rparr>"
  shows "registry_inv g'"
proof -
  have lease: "lease_at g' b = lease_at g b" for b using assms(2,3) by (cases "a < length (rg_associations g)") (auto simp: nth_list_update list_update_beyond)
  have "length (rg_associations g') = length (rg_associations g)" using assms(2) by simp
  moreover have "rg_owners g' = rg_owners g" "rg_slots g' = rg_slots g" "rg_stopping g' = rg_stopping g" "rg_reservations g' = rg_reservations g"
    "rg_history g' = rg_history g" "rg_history_limit g' = rg_history_limit g" "rg_active g' = rg_active g" "rg_proxies g' = rg_proxies g"
    "rg_max_associations g' = rg_max_associations g" using arg_cong [OF assms(4), of rg_owners] arg_cong [OF assms(4), of rg_slots]
      arg_cong [OF assms(4), of rg_stopping] arg_cong [OF assms(4), of rg_reservations] arg_cong [OF assms(4), of rg_history]
      arg_cong [OF assms(4), of rg_history_limit] arg_cong [OF assms(4), of rg_active] arg_cong [OF assms(4), of rg_proxies]
      arg_cong [OF assms(4), of rg_max_associations] by simp_all
  note same = lease this calculation
  have "holders g' = holders g" "live g' = live g" "counters_ok g' = counters_ok g" "waking g' = waking g"
    by (simp_all add: holders_def live_def counters_ok_def waking_def comp_def same)
  moreover have "owner_ok g' w = owner_ok g w" for w by (simp add: owner_ok_def same)
  then have "owners_ok g' = owners_ok g" by (simp add: owners_ok_def same)
  moreover have "slot_ok g' k x = slot_ok g k x" for k x by (cases x) (simp_all add: same)
  then have "slots_ok g' = slots_ok g" by (simp add: slots_ok_def same del: slot_ok.simps)
  ultimately show ?thesis using assms(1) by (simp add: registry_inv_def same)
qed

lemma pop_history_length: "0 < limit \<Longrightarrow> length (pop_history limit h) < limit"
  by (induction limit h rule: pop_history.induct) auto

lemma push_history_length: "length h \<le> limit \<Longrightarrow> length (push_history limit x h) \<le> limit"
  using pop_history_length [of limit h] by (auto simp: push_history_def Suc_le_eq)

lemma stopped_inv:
  assumes "registry_inv g" "(a, administrative) \<in> set (rg_stopping g)"
  shows "registry_inv (stop_end administrative a g)"
proof -
  note inv = inv_parts [OF assms(1)]
  let ?r = "lease_at g a" and ?g = "stop_end administrative a g"
  have r: "?r < length (rg_reservations g)" using stopping_range [OF inv(5) assms(2)] by simp
  have mem: "?r \<in># mset (map (lease_at g \<circ> fst) (rg_stopping g))" using assms(2) by force
  have "terminal_at g ?r" "?r \<in> live g" by (rule held_once [OF assms(1)], use mem in \<open>simp only: union_iff simp_thms\<close>)+
  note at = release_at [OF r]
  have f: "rg_owners ?g = rg_owners g" "rg_slots ?g = rg_slots g" "rg_stopping ?g = remove1 (a, administrative) (rg_stopping g)"
    "rg_associations ?g = rg_associations g" "rg_reservations ?g = rg_reservations (release ?r g)" "length (rg_reservations ?g) = length (rg_reservations g)"
    "rg_history ?g = push_history (rg_history_limit g) a (rg_history g)" "rg_history_limit ?g = rg_history_limit g" "live ?g = live g - {?r}"
    "counters_ok ?g = counters_ok (release ?r g)" "waking ?g = waking (release ?r g)"
    using at(5) by (simp_all add: stop_end_def Let_def live_def counters_ok_def waking_def)
  have "mset (map (lease_at g \<circ> fst) (rg_stopping g)) = add_mset ?r (mset (map (lease_at g \<circ> fst) (remove1 (a, administrative) (rg_stopping g))))"
    unfolding map_remove1_mset [OF assms(2)] by simp
  then have "holders g = add_mset ?r (holders ?g)" unfolding holders_def f(1-5) at(2) by simp
  then have "holders ?g = mset_set (live ?g)" using inv(1) \<open>?r \<in> live g\<close> unfolding f(9) by (simp add: mset_set.remove)
  moreover have "counters_ok ?g" "waking ?g"
    unfolding f(10,11) using release_counters [OF r inv(2)] waking_release [OF inv(3) r \<open>terminal_at g ?r\<close>] by blast+
  moreover have "owner_ok ?g w" if "owner_ok g w" for w using that at f by (auto simp: owner_ok_def)
  then have "owners_ok ?g" using inv(4) at(2) f by (auto simp: owners_ok_def)
  moreover have so: "slot_ok ?g k x" if "slot_ok g k x" for k x using that at f by (cases x) auto
  have "slots_ok ?g" using inv(5) so set_remove1_subset [of "(a, administrative)" "rg_stopping g"] unfolding slots_ok_def f(2,3) by blast
  ultimately show ?thesis using inv(6) f(7,8) push_history_length by (simp add: registry_inv_def)
qed

lemma resized_inv:
  assumes "registry_inv g" "set_capacity p n g = Some g'"
  shows "registry_inv g'"
proof -
  note inv = inv_parts [OF assms(1)]
  have g': "g' = g\<lparr>rg_proxies := (rg_proxies g)(p := (rg_proxies g p)\<lparr>px_max_associations := n\<rparr>)\<rparr>" "px_active (rg_proxies g p) \<le> n"
    using assms(2) by (auto simp: set_capacity_def split: if_splits)
  have "holders g' = holders g" "live g' = live g" "waking g' = waking g" by (simp_all add: g'(1) holders_def live_def waking_def)
  moreover have "counters_ok g'" using inv(2) g' by (auto simp: counters_ok_def live_def)
  moreover have "owners_ok g' = owners_ok g" by (simp add: g'(1) owners_ok_def owner_ok_def)
  moreover have "slot_ok g' k x = slot_ok g k x" for k x by (cases x) (simp_all add: g'(1))
  then have "slots_ok g' = slots_ok g" by (simp add: slots_ok_def del: slot_ok.simps) (simp add: g'(1))
  ultimately show ?thesis using inv g' by (simp add: registry_inv_def)
qed

lemma registry_step_inv:
  assumes "registry_step g g'" "registry_inv g"
  shows "registry_inv g'"
  using assms(1)
proof (cases rule: registry_step_cases)
  case (resolve_setup p client r g1)
  then show ?thesis using resolve_setup_inv [OF assms(2)] by simp
next
  case (resolve_other p client x)
  then show ?thesis using resolve_other_inv [OF assms(2)] by blast
next
  case (setup_failed w)
  then show ?thesis using abandon_inv [OF assms(2) setup_failed(2), of _ True] unfolding abandon_starting_def retire_def Let_def by auto
next
  case (setup_dropped w locked)
  then show ?thesis using abandon_inv [OF assms(2) setup_dropped(2), of _ True]
    unfolding owner_guard_drop_def abandon_starting_def retire_def Let_def by auto
next
  case (setup_spawned w a g1)
  then show ?thesis using spawned_inv [OF assms(2)] by simp
next
  case (setup_published w a g1)
  then show ?thesis using published_inv [OF assms(2)] by simp
next
  case (setup_lost w a g1)
  let ?h = "drop_owner w (abandon_starting (ow_proxy w, ow_client w) (ow_reservation w) False g)"
  have "g1 = g" using setup_lost(4) by (auto simp: publish_slot_def split: if_splits)
  moreover have "registry_inv ?h" using abandon_inv [OF assms(2) setup_lost(2), of _ False] unfolding abandon_starting_def retire_def Let_def by auto
  moreover have "drop_owner w (cancel_association a (abandon_starting (ow_proxy w, ow_client w) (ow_reservation w) False g)) = cancel_association a ?h"
    by (simp add: drop_owner_def cancel_association_def)
  ultimately show ?thesis using setup_lost(1) by (auto intro!: leases_same_inv [of ?h] simp: cancel_association_def)
next
  case (drained p retryable as g1)
  then show ?thesis using drained_inv [OF assms(2)] by simp
next
  case (taken key a g1 administrative)
  then show ?thesis using taken_inv [OF assms(2)] by simp
next
  case (cancelled a administrative)
  then show ?thesis by (auto intro!: leases_same_inv [OF assms(2)] simp: stop_begin_def Let_def)
next
  case (stopped a administrative)
  then show ?thesis using stopped_inv [OF assms(2)] by simp
next
  case (resized p n)
  then show ?thesis using resized_inv [OF assms(2)] by simp
qed

lemma registry_start_inv: "registry_inv (registry_start limits capacities)"
  by (simp add: registry_start_def registry_inv_def holders_def live_def counters_ok_def waking_def owners_ok_def slots_ok_def)

lemma registry_runs_inv: "registry_runs g g' \<Longrightarrow> registry_inv g \<Longrightarrow> registry_inv g'"
  by (induction rule: registry_runs.induct) (auto intro: registry_step_inv)

section \<open>Properties\<close>

definition pending_setups :: "registry \<Rightarrow> nat" where
  "pending_setups g = length (filter (\<lambda>w. \<not> rv_terminal (rg_reservations g ! ow_reservation w)) (rg_owners g))"

definition active_count :: "registry \<Rightarrow> nat" where
  "active_count g = length (active_slots (map snd (rg_slots g)))"

text \<open>
  C15. Capacity is exact and bounded. In every interleaving of resolutions, setups that fail, are dropped, publish or lose the
  race with a drain, drains, kills, reaps, stops and limit changes, the global counter is the number of setups that can still
  publish plus the active associations plus those being stopped, each of which holds its own lease: no lease leaks and none is
  released twice or while in use. The counter stays within the global limit, every proxy within its own, and the
  history within its bound.
\<close>

theorem association_capacity:
  assumes "registry_runs (registry_start limits capacities) g"
  shows "rg_active g = pending_setups g + active_count g + length (rg_stopping g) \<and> rg_active g \<le> rg_max_associations g \<and>
    (\<forall>p. px_active (rg_proxies g p) \<le> px_max_associations (rg_proxies g p)) \<and> length (rg_history g) \<le> rg_history_limit g"
proof -
  note inv = inv_parts [OF registry_runs_inv [OF assms registry_start_inv]]
  have "card (live g) = size (holders g)" using inv(1) by simp
  also have "\<dots> = pending_setups g + active_count g + length (rg_stopping g)"
    by (simp add: holders_def pending_setups_def active_count_def flip: mset_filter)
  finally show ?thesis using inv(2,6) by (auto simp: counters_ok_def)
qed

text \<open>
  C16. No waiter is stranded and no client has two setups. Every reservation either still has a task setting it up, or its
  channel shows a final outcome, which ends every wait for it. Two setups that can still publish serve different clients.
\<close>

theorem setup_waiters_wake:
  assumes "registry_runs (registry_start limits capacities) g" "r < length (rg_reservations g)"
  shows "((\<exists>w \<in> set (rg_owners g). ow_reservation w = r) \<or> waiter_wakes (rg_reservations g ! r)) \<and>
    (\<forall>w \<in> set (rg_owners g). \<forall>w' \<in> set (rg_owners g). \<not> rv_terminal (rg_reservations g ! ow_reservation w) \<longrightarrow>
       \<not> rv_terminal (rg_reservations g ! ow_reservation w') \<longrightarrow> (ow_proxy w, ow_client w) = (ow_proxy w', ow_client w') \<longrightarrow> w = w')"
proof -
  note inv = inv_parts [OF registry_runs_inv [OF assms(1) registry_start_inv]]
  have "terminal_at g r \<or> r \<in> ow_reservation ` set (rg_owners g)" using inv(4) assms(2) by (simp add: owners_ok_def)
  moreover have "waiter_wakes (rg_reservations g ! r)" if "terminal_at g r" using inv(3) assms(2) that by (metis nth_mem waking_def)
  moreover have "w = w'" if "w \<in> set (rg_owners g)" "w' \<in> set (rg_owners g)" "\<not> terminal_at g (ow_reservation w)"
    "\<not> terminal_at g (ow_reservation w')" "(ow_proxy w, ow_client w) = (ow_proxy w', ow_client w')" for w w'
  proof -
    have "ow_reservation w = ow_reservation w'" using that inv(4) by (auto simp: owners_ok_def owner_ok_def)
    then show ?thesis using that(1,2) inv(4) by (auto simp: owners_ok_def distinct_map inj_on_def)
  qed
  ultimately show ?thesis by blast
qed

text \<open>A client's first datagram starts a setup; the proxy is drained before the setup publishes.\<close>

definition one_setup :: registry where
  "one_setup = (let g = registry_start default_runtime_limits (\<lambda>_. 2) in
     add_owner \<lparr>ow_proxy = 0, ow_client = SocketV4 7 7, ow_reservation = 0, ow_association = None\<rparr>
       ((adjust_active Suc 0 g)\<lparr>rg_next_reservation := 2, rg_reservations := [reservation_new 1 0 (SocketV4 7 7)],
          rg_slots := [((0, SocketV4 7 7), Starting 0)]\<rparr>))"

lemma one_setup_run: "registry_runs (registry_start default_runtime_limits (\<lambda>_. 2)) one_setup"
proof -
  let ?g = "registry_start default_runtime_limits (\<lambda>_. 2)"
  have "resolve_locked 0 (SocketV4 7 7) ?g = (ResolveSetup 0,
      (adjust_active Suc 0 ?g)\<lparr>rg_next_reservation := 2, rg_reservations := [reservation_new 1 0 (SocketV4 7 7)],
        rg_slots := [((0, SocketV4 7 7), Starting 0)]\<rparr>)"
    by (simp add: resolve_locked_def try_acquire_def registry_start_def default_runtime_limits_def adjust_active_def U64_MAX_def Let_def)
  from registry_next [OF registry_refl registry_step.resolve_setup [OF this]] show ?thesis by (simp add: one_setup_def Let_def)
qed

definition drained_setup :: registry where
  "drained_setup = hand_over True [] (snd (drain_associations 0 False one_setup))"

lemma drained_setup_run: "registry_runs (registry_start default_runtime_limits (\<lambda>_. 2)) drained_setup"
proof -
  have "fst (drain_associations 0 False one_setup) = []"
    by (simp add: drain_associations_def one_setup_def add_owner_def Let_def)
  then have "drain_associations 0 False one_setup = ([], snd (drain_associations 0 False one_setup))" by (metis prod.collapse)
  from registry_next [OF one_setup_run registry_step.drained [OF this]] show ?thesis by (simp add: drained_setup_def)
qed

lemma drained_setup_facts:
  "rg_active drained_setup = 0" "length (rg_owners drained_setup) = 1" "rg_reservations drained_setup ! 0 = (reservation_new 1 0 (SocketV4 7 7))
     \<lparr>rv_terminal := True, rv_version := 2, rv_event_version := 1, rv_outcome := SetupAbandoned False, rv_released := True\<rparr>"
  "length (rg_reservations drained_setup) = 1"
  by (simp_all add: drained_setup_def hand_over_def drain_associations_def one_setup_def add_owner_def adjust_active_def registry_start_def
      release_def transition_def set_reservation_def reservation_new_def Let_def)

theorem association_capacity_witness:
  "\<exists>g. registry_runs (registry_start default_runtime_limits (\<lambda>_. 2)) g \<and> length (rg_owners g) = 1 \<and>
     0 = pending_setups g + active_count g + length (rg_stopping g)"
  using association_capacity [OF drained_setup_run] drained_setup_facts(1,2) drained_setup_run by (intro exI [of _ drained_setup]) simp

theorem setup_waiters_wake_witness:
  "\<exists>g. registry_runs (registry_start default_runtime_limits (\<lambda>_. 2)) g \<and> 0 < length (rg_reservations g) \<and>
     ((\<exists>w \<in> set (rg_owners g). ow_reservation w = 0) \<or> waiter_wakes (rg_reservations g ! 0)) \<and> waiter_wakes (rg_reservations g ! 0)"
  using setup_waiters_wake [OF drained_setup_run, of 0] drained_setup_facts(3,4) drained_setup_run
  by (intro exI [of _ drained_setup]) (simp add: waiter_wakes_def reservation_new_def)

end
