(* ===== verification/TokenBucket.thy ===== *)
theory TokenBucket
  imports Plan
begin

text \<open>
  The token bucket of the stream engine's bandwidth stage,
  \<^verbatim>\<open>crates/eggchaos-core/src/engine.rs\<close>, \<^verbatim>\<open>TokenBucket\<close>. Tokens are microtokens: one byte
  is a million of them.

  The lemmas show that the bucket never holds more than its capacity, what one call waits for, and
  that successive calls do not queue behind each other: \<open>consume\<close> keeps no backlog.
\<close>

record token_bucket =
  tb_rate :: nat
  tb_capacity_micro :: nat
  tb_tokens_micro :: nat
  tb_last :: instant
  tb_cursor :: instant

definition MICRO :: nat where
  "MICRO = 1000000"

definition bucket_new :: "nat \<Rightarrow> nat \<Rightarrow> instant \<Rightarrow> token_bucket" where
  "bucket_new rate burst now =
     \<lparr>tb_rate = rate, tb_capacity_micro = burst * MICRO, tb_tokens_micro = burst * MICRO,
      tb_last = now, tb_cursor = now\<rparr>"

text \<open>Microtokens earned in a time, nanoseconds needed to earn a deficit, whole milliseconds (rounded up).\<close>

definition earned_micro :: "nat \<Rightarrow> nat \<Rightarrow> nat" where
  "earned_micro elapsed rate = sat_mul128 elapsed rate div 1000"

definition wait_nanos :: "nat \<Rightarrow> nat \<Rightarrow> nat" where
  "wait_nanos deficit rate =
     min (sat_add128 (sat_mul128 deficit 1000) (rate - 1) div rate) U64_MAX"

definition ceil_ms :: "duration \<Rightarrow> nat" where
  "ceil_ms d = min (sat_add128 d 999999 div 1000000) U64_MAX"

definition wait_until :: "instant \<Rightarrow> duration \<Rightarrow> instant" where
  "wait_until now wait = (case instant_checked_add now wait of Some t \<Rightarrow> t | None \<Rightarrow> now)"

definition bucket_refill :: "instant \<Rightarrow> token_bucket \<Rightarrow> token_bucket" where
  "bucket_refill now b =
     (if tb_last b < now then
        b\<lparr>tb_tokens_micro :=
            min (sat_add128 (tb_tokens_micro b) (earned_micro (now - tb_last b) (tb_rate b)))
              (tb_capacity_micro b),
          tb_last := now\<rparr>
      else b)"

definition bucket_consume ::
    "nat \<Rightarrow> instant \<Rightarrow> instant \<Rightarrow> token_bucket \<Rightarrow> instant \<times> nat \<times> token_bucket" where
  "bucket_consume len now earliest b0 =
     (let b = bucket_refill now b0;
          need = sat_mul128 len MICRO;
          base = max earliest now
      in if need \<le> tb_tokens_micro b then
           (base, 0, b\<lparr>tb_tokens_micro := tb_tokens_micro b - need, tb_cursor := max (tb_cursor b) base\<rparr>)
         else
           let release = max base (wait_until now (wait_nanos (need - tb_tokens_micro b) (tb_rate b)))
           in (release, ceil_ms (release - base),
               b\<lparr>tb_tokens_micro := 0, tb_cursor := max (tb_cursor b) release\<rparr>))"

definition bucket_ok :: "token_bucket \<Rightarrow> bool" where
  "bucket_ok b = (0 < tb_rate b \<and> tb_tokens_micro b \<le> tb_capacity_micro b)"

section \<open>Lemmas\<close>

lemma bucket_new_ok: "0 < rate \<Longrightarrow> bucket_ok (bucket_new rate burst now)"
  by (simp add: bucket_ok_def bucket_new_def)

lemma bucket_refill_fields [simp]:
  "tb_rate (bucket_refill now b) = tb_rate b"
  "tb_capacity_micro (bucket_refill now b) = tb_capacity_micro b"
  by (simp_all add: bucket_refill_def)

lemma bucket_refill_ok: "bucket_ok b \<Longrightarrow> bucket_ok (bucket_refill now b)"
  by (simp add: bucket_ok_def bucket_refill_def)

lemma bucket_refill_same [simp]: "tb_last b = now \<Longrightarrow> bucket_refill now b = b"
  by (simp add: bucket_refill_def)

lemma bucket_consume_ok: "bucket_ok b \<Longrightarrow> bucket_ok (snd (snd (bucket_consume len now earliest b)))"
  using bucket_refill_ok [of b now] unfolding bucket_consume_def Let_def bucket_ok_def by auto

lemma bucket_consume_release:
  "earliest \<le> fst (bucket_consume len now earliest b)" "now \<le> fst (bucket_consume len now earliest b)"
  by (simp_all add: bucket_consume_def Let_def le_max_iff_disj)

text \<open>No saturation happens: the deficit and the clock are far from the ends of their types.\<close>

definition consume_in_range :: "nat \<Rightarrow> instant \<Rightarrow> token_bucket \<Rightarrow> bool" where
  "consume_in_range len now b =
     (len * MICRO * 1000 + tb_rate b \<le> U64_MAX \<and> now + U64_MAX \<le> INSTANT_MAX)"

lemma U64_le_U128: "x \<le> U64_MAX \<Longrightarrow> x \<le> U128_MAX"
  by (simp add: U64_MAX_def U128_MAX_def)

lemma wait_nanos_exact:
  assumes "d * 1000 + r \<le> U64_MAX"
  shows "wait_nanos d r = (d * 1000 + (r - 1)) div r"
proof -
  have le: "d * 1000 \<le> U64_MAX" "d * 1000 + (r - 1) \<le> U64_MAX" using assms by linarith+
  have "(d * 1000 + (r - 1)) div r \<le> U64_MAX" using div_le_dividend le(2) by (rule order_trans)
  then show ?thesis
    unfolding wait_nanos_def
    using U64_le_U128 [OF le(1)] U64_le_U128 [OF le(2)] by (simp add: sat_simps)
qed

lemma bucket_consume_wait:
  assumes range: "consume_in_range len now b"
    and short: "tb_tokens_micro (bucket_refill now b) < len * MICRO"
  shows "fst (bucket_consume len now earliest b) =
    max (max earliest now)
      (now + ((len * MICRO - tb_tokens_micro (bucket_refill now b)) * 1000 + (tb_rate b - 1)) div tb_rate b)"
proof -
  let ?d = "len * MICRO - tb_tokens_micro (bucket_refill now b)"
  have "?d * 1000 \<le> len * MICRO * 1000" by simp
  then have le: "?d * 1000 + tb_rate b \<le> U64_MAX" "len * MICRO \<le> U64_MAX"
    using range unfolding consume_in_range_def by linarith+
  have need: "sat_mul128 len MICRO = len * MICRO" using U64_le_U128 [OF le(2)] by (simp add: sat_simps)
  have "wait_nanos ?d (tb_rate b) \<le> U64_MAX" by (simp add: wait_nanos_def)
  then have "wait_until now (wait_nanos ?d (tb_rate b)) = now + wait_nanos ?d (tb_rate b)"
    using range by (simp add: wait_until_def instant_checked_add_def consume_in_range_def)
  then show ?thesis
    using short wait_nanos_exact [OF le(1)] by (simp add: bucket_consume_def Let_def need)
qed

text \<open>Consecutive calls at one instant, as the segments of one write make them.\<close>

fun consume_all ::
    "nat list \<Rightarrow> instant \<Rightarrow> instant \<Rightarrow> token_bucket \<Rightarrow> instant list \<times> token_bucket" where
  "consume_all [] now earliest b = ([], b)"
| "consume_all (len # lens) now earliest b =
     (let (release, ms, b1) = bucket_consume len now earliest b;
          (releases, b2) = consume_all lens now earliest b1
      in (release # releases, b2))"

lemma consume_keeps_no_backlog:
  assumes "tb_last b = now" "tb_tokens_micro b = 0" "0 < len"
  shows "\<exists>release ms c. bucket_consume len now earliest b = (release, ms, b\<lparr>tb_cursor := c\<rparr>)"
proof -
  have "0 < sat_mul128 len MICRO" using assms(3) by (simp add: sat_mul128_def U128_MAX_def MICRO_def)
  then show ?thesis using assms by (cases b) (auto simp: bucket_consume_def Let_def)
qed

lemma refill_cursor:
  "bucket_refill now (b\<lparr>tb_cursor := c\<rparr>) = (bucket_refill now b)\<lparr>tb_cursor := c\<rparr>"
  by (cases b) (simp add: bucket_refill_def)

lemma consume_cursor_irrelevant:
  "fst (bucket_consume len now earliest (b\<lparr>tb_cursor := c\<rparr>)) = fst (bucket_consume len now earliest b)"
  unfolding bucket_consume_def Let_def refill_cursor by simp

lemma consume_all_empty:
  assumes "tb_last b = now" "tb_tokens_micro b = 0" "0 < len"
  shows "fst (consume_all (replicate n len) now earliest b) =
         replicate n (fst (bucket_consume len now earliest b))"
  using assms
proof (induction n arbitrary: b)
  case (Suc n)
  obtain release ms c where run: "bucket_consume len now earliest b = (release, ms, b\<lparr>tb_cursor := c\<rparr>)"
    using consume_keeps_no_backlog [OF Suc.prems] by blast
  have "fst (consume_all (replicate n len) now earliest (b\<lparr>tb_cursor := c\<rparr>)) =
        replicate n (fst (bucket_consume len now earliest (b\<lparr>tb_cursor := c\<rparr>)))"
    using Suc.prems by (intro Suc.IH) simp_all
  then show ?case using run by (simp add: split_def consume_cursor_irrelevant)
qed simp

section \<open>Properties\<close>

lemmas bucket_eval = sat_mul128_def sat_add128_def U128_MAX_def U64_MAX_def instant_checked_add_def
  INSTANT_MAX_def NANOS_PER_SEC_def MICRO_def wait_nanos_def ceil_ms_def wait_until_def bucket_refill_def

text \<open>
  One bandwidth wait is exact. When the bucket cannot cover a segment, the segment is released
  at the first nanosecond at which the configured rate has earned the missing tokens (or at its
  latency deadline, if that is later): by then the rate covers the deficit, and one nanosecond
  earlier it does not. The bucket never holds more than its capacity.
\<close>

theorem bandwidth_wait_exact:
  assumes "bucket_ok b" "consume_in_range len now b"
    and "tb_tokens_micro (bucket_refill now b) < len * MICRO"
    and "bucket_consume len now earliest b = (release, ms, b')"
  shows "(len * MICRO - tb_tokens_micro (bucket_refill now b)) * 1000 \<le> (release - now) * tb_rate b \<and>
    (release = max earliest now \<or>
       (release - now - 1) * tb_rate b < (len * MICRO - tb_tokens_micro (bucket_refill now b)) * 1000) \<and>
    bucket_ok b'"
proof -
  define d where "d = (len * MICRO - tb_tokens_micro (bucket_refill now b)) * 1000"
  define w where "w = (d + (tb_rate b - 1)) div tb_rate b"
  have r: "0 < tb_rate b" using assms(1) by (simp add: bucket_ok_def)
  have rel: "release = max (max earliest now) (now + w)"
    using bucket_consume_wait [OF assms(2,3), of earliest] assms(4) by (simp add: d_def w_def)
  have dw: "d \<le> w * tb_rate b" unfolding w_def using r by (rule ceil_div_least(1))
  also have "w * tb_rate b \<le> (release - now) * tb_rate b" using rel by (intro mult_right_mono) auto
  finally have 1: "d \<le> (release - now) * tb_rate b" .
  have "0 < d" using assms(3) by (simp add: d_def)
  with dw have "0 < w" by (cases "w = 0") auto
  then have 2: "release = max earliest now \<or> (release - now - 1) * tb_rate b < d"
    using ceil_div_least(2) [OF r, of "release - now - 1" d] rel by (auto simp: max_def w_def)
  show ?thesis using 1 2 bucket_consume_ok [OF assms(1), of len now earliest] assms(4)
    by (simp add: d_def)
qed

theorem bandwidth_wait_exact_witness:
  "bucket_consume 1 0 0 ((bucket_new 100 200 0)\<lparr>tb_tokens_micro := 0\<rparr>) =
     (10000000, 10, \<lparr>tb_rate = 100, tb_capacity_micro = 200000000, tb_tokens_micro = 0, tb_last = 0,
                     tb_cursor = 10000000\<rparr>) \<and>
   1000000 * 1000 \<le> (10000000 :: nat) * 100 \<and> (10000000 - 1) * 100 < (1000000 * 1000 :: nat)"
proof -
  let ?b = "(bucket_new 100 200 0)\<lparr>tb_tokens_micro := 0\<rparr>"
  have run: "bucket_consume 1 0 0 ?b =
     (10000000, 10, \<lparr>tb_rate = 100, tb_capacity_micro = 200000000, tb_tokens_micro = 0, tb_last = 0,
                     tb_cursor = 10000000\<rparr>)"
    by (simp add: bucket_consume_def bucket_new_def Let_def bucket_eval)
  have "bucket_ok ?b" "consume_in_range 1 0 ?b" "tb_tokens_micro (bucket_refill 0 ?b) < 1 * MICRO"
    by (simp_all add: bucket_ok_def bucket_new_def consume_in_range_def bucket_eval)
  from bandwidth_wait_exact [OF this run] run show ?thesis
    by (simp add: bucket_new_def bucket_eval)
qed

text \<open>
  Segments scheduled at one instant do not queue behind each other. Once the bucket is empty,
  any number of equal segments consumed at the same instant are all released at the same time, each
  waiting for its own deficit only; the bucket's \<^verbatim>\<open>cursor\<close> is written and never read. A
  batch of \<open>n\<close> segments is therefore delivered \<open>n\<close> times faster than \<^verbatim>\<open>bytes_per_second\<close>.
\<close>

theorem batch_released_together:
  assumes "tb_last b = now" "tb_tokens_micro b = 0" "0 < len"
  shows "fst (consume_all (replicate n len) now earliest b) =
         replicate n (fst (bucket_consume len now earliest b))"
  using assms by (rule consume_all_empty)

theorem batch_released_together_witness:
  "fst (consume_all [100, 100, 100] 0 0 ((bucket_new 100 100 0)\<lparr>tb_tokens_micro := 0\<rparr>)) =
     [1000000000, 1000000000, 1000000000]"
proof -
  let ?b = "(bucket_new 100 100 0)\<lparr>tb_tokens_micro := 0\<rparr>"
  have "fst (consume_all (replicate 3 100) 0 0 ?b) = replicate 3 (fst (bucket_consume 100 0 0 ?b))"
    by (rule batch_released_together) (simp_all add: bucket_new_def)
  moreover have "fst (bucket_consume 100 0 0 ?b) = 1000000000"
    by (simp add: bucket_consume_def bucket_new_def Let_def bucket_eval)
  ultimately show ?thesis by (simp add: numeral_3_eq_3)
qed

end
