(* ===== verification/Engine.thy ===== *)
theory Engine
  imports TokenBucket
begin

text \<open>
  The state of a direction engine and its construction,
  \<^verbatim>\<open>crates/eggchaos-core/src/engine.rs\<close>: the durable termination handle, the evidence
  counters, the compilation of a plan into an engine, evidence absorption and the synchronous
  termination checks. Theory \<open>Accept\<close> adds the byte admission path and theory \<open>Drain\<close> the
  poll-driven output path.

  An engine is passed and returned as a record. The termination handle, an \<^verbatim>\<open>Arc\<close> cell shared
  by an engine, its successor and the runtime, is the field \<open>en_handle\<close>: inside one direction only
  the engine writes it. Every \<^verbatim>\<open>Instant::now()\<close> is an explicit argument, so that the clock
  may advance between two readings.
\<close>

section \<open>Termination\<close>

datatype termination_request = Graceful | HardReset

record termination_info =
  ti_request :: termination_request
  ti_direction :: direction
  ti_fault_id :: "string option"

type_synonym termination_handle = "termination_info option"

definition handle_new :: termination_handle where
  "handle_new = None"

fun handle_publish :: "termination_info \<Rightarrow> termination_handle \<Rightarrow> bool \<times> termination_handle" where
  "handle_publish info None = (True, Some info)"
| "handle_publish info (Some old) = (False, Some old)"

fun poll_terminated :: "termination_handle \<Rightarrow> termination_info poll" where
  "poll_terminated (Some info) = Ready info"
| "poll_terminated None = Pending"

section \<open>State\<close>

record engine_evidence =
  ev_bytes_accepted :: nat
  ev_bytes_forwarded :: nat
  ev_bytes_discarded :: nat
  ev_segments :: nat
  ev_slices :: nat
  ev_buffered_bytes :: nat
  ev_high_water_bytes :: nat
  ev_injected_delay_ms :: nat
  ev_throttled_delay_ms :: nat
  ev_termination :: "termination_request option"
  ev_activations :: "nat list"
  ev_sl_chunks_evaluated :: nat
  ev_sl_chunks_dropped :: nat
  ev_sl_bytes_discarded :: nat
  ev_rng_version :: rng_version

definition evidence_default :: engine_evidence where
  "evidence_default =
     \<lparr>ev_bytes_accepted = 0, ev_bytes_forwarded = 0, ev_bytes_discarded = 0, ev_segments = 0,
      ev_slices = 0, ev_buffered_bytes = 0, ev_high_water_bytes = 0, ev_injected_delay_ms = 0,
      ev_throttled_delay_ms = 0, ev_termination = None, ev_activations = replicate 7 0,
      ev_sl_chunks_evaluated = 0, ev_sl_chunks_dropped = 0, ev_sl_bytes_discarded = 0,
      ev_rng_version = V1\<rparr>"

record queued =
  q_bytes :: "byte list"
  q_release :: instant

text \<open>
  A cached \<^verbatim>\<open>Sleep\<close> together with the deadline it was armed for; the sleep is known by the
  instant at which it fires.
\<close>

record armed =
  at_fires :: instant
  at_deadline :: instant

type_synonym armed_timer = "armed option"

record blackhole_state =
  bh_deadline :: "instant option"
  bh_fault_id :: fault_id

record disconnect_state =
  dc_deadline :: instant
  dc_hard_reset :: bool
  dc_fault_id :: fault_id

record stream_loss_state =
  sl_rng :: deterministic_rng
  sl_decided :: "(nat \<times> bool) option"
  sl_prev_dropped :: bool

record direction_engine =
  en_plan :: fault_plan
  en_direction :: direction
  en_queue :: "queued list"
  en_buffered :: nat
  en_high_water :: nat
  en_max_buffer :: nat
  en_rngs :: "(bool \<times> deterministic_rng) list"
  en_evidence :: engine_evidence
  en_termination :: "termination_info option"
  en_handle :: termination_handle
  en_queue_timer :: armed_timer
  en_term_timer :: armed_timer
  en_shutdown_timer :: armed_timer
  en_shutdown_deadline :: "instant option"
  en_slow_close :: "duration option"
  en_remaining_limit :: "(nat \<times> fault_id) option"
  en_blackhole :: "blackhole_state option"
  en_disconnect :: "disconnect_state option"
  en_bandwidth :: "token_bucket option"
  en_slicer_active :: bool
  en_slice_cursor :: instant
  en_stream_loss :: "stream_loss_state option list"
  en_stream_loss_offset :: nat
  en_stream_loss_evaluated :: nat

section \<open>Compilation of a plan\<close>

text \<open>The local variables of \<^verbatim>\<open>new_with_arc_plan\<close> that the loop over the faults updates.\<close>

record compiled =
  co_max_buffer :: nat
  co_limit :: "(nat \<times> fault_id) option"
  co_blackhole :: "blackhole_state option"
  co_disconnect :: "disconnect_state option"
  co_bandwidth :: "(nat \<times> nat) option"
  co_slicer :: bool
  co_rngs :: "(bool \<times> deterministic_rng) list"
  co_stream_loss :: "stream_loss_state option list"

fun tighter_limit :: "nat \<times> fault_id \<Rightarrow> (nat \<times> fault_id) option \<Rightarrow> (nat \<times> fault_id) option" where
  "tighter_limit new None = Some new"
| "tighter_limit new (Some old) = (if fst new < fst old then Some new else Some old)"

fun merge_blackhole :: "blackhole_state \<Rightarrow> blackhole_state option \<Rightarrow> blackhole_state option" where
  "merge_blackhole new None = Some new"
| "merge_blackhole new (Some old) =
     (case bh_deadline old of
        None \<Rightarrow> Some old
      | Some d \<Rightarrow>
          (case bh_deadline new of
             None \<Rightarrow> Some new
           | Some n \<Rightarrow> if d \<le> n then Some old else Some new))"

fun merge_disconnect :: "disconnect_state \<Rightarrow> disconnect_state option \<Rightarrow> disconnect_state option" where
  "merge_disconnect new None = Some new"
| "merge_disconnect new (Some old) =
     (if dc_deadline new < dc_deadline old \<or>
         (dc_deadline new = dc_deadline old \<and> dc_hard_reset new \<and> \<not> dc_hard_reset old)
      then Some new else Some old)"

fun merge_bandwidth :: "bandwidth_config \<Rightarrow> (nat \<times> nat) option \<Rightarrow> (nat \<times> nat) option" where
  "merge_bandwidth c None = Some (bytes_per_second c, burst_bytes c)"
| "merge_bandwidth c (Some (rate, burst)) = Some (min rate (bytes_per_second c), min burst (burst_bytes c))"

fun compile_kind :: "instant \<Rightarrow> fault_id \<Rightarrow> fault_kind \<Rightarrow> compiled \<Rightarrow> compiled" where
  "compile_kind now fid (Latency c) co =
     co\<lparr>co_max_buffer := min (co_max_buffer co) (lat_max_buffer_bytes c)\<rparr>"
| "compile_kind now fid (LimitData c) co =
     co\<lparr>co_limit := tighter_limit (limit_bytes c, fid) (co_limit co)\<rparr>"
| "compile_kind now fid (Blackhole c) co =
     co\<lparr>co_blackhole := merge_blackhole
         \<lparr>bh_deadline = map_option (\<lambda>d. deadline_after now d MAX_STREAM_FAULT_DURATION) (close_after c),
          bh_fault_id = fid\<rparr> (co_blackhole co)\<rparr>"
| "compile_kind now fid (SlowClose c) co = co"
| "compile_kind now fid (StreamLoss c) co = co"
| "compile_kind now fid (Bandwidth c) co = co\<lparr>co_bandwidth := merge_bandwidth c (co_bandwidth co)\<rparr>"
| "compile_kind now fid (Slice c) co = co\<lparr>co_slicer := True\<rparr>"
| "compile_kind now fid (Disconnect c) co =
     co\<lparr>co_disconnect := merge_disconnect
         \<lparr>dc_deadline = deadline_after now (disc_after c) MAX_STREAM_FAULT_DURATION,
          dc_hard_reset = disc_hard_reset c, dc_fault_id = fid\<rparr> (co_disconnect co)\<rparr>"

fun is_stream_loss :: "fault_kind \<Rightarrow> bool" where
  "is_stream_loss (StreamLoss c) = True"
| "is_stream_loss _ = False"

definition compile_fault :: "u64 \<Rightarrow> string \<Rightarrow> u64 \<Rightarrow> direction \<Rightarrow> instant \<Rightarrow> fault_spec \<Rightarrow> compiled \<Rightarrow> compiled" where
  "compile_fault run_seed proxy key dir now f co =
     (let (active, rng) = bernoulli (fs_probability f) (rng_new (derive_seed run_seed proxy key dir (fs_id f)))
      in if \<not> active then
           co\<lparr>co_rngs := co_rngs co @ [(False, rng)], co_stream_loss := co_stream_loss co @ [None]\<rparr>
         else
           let co1 = compile_kind now (fs_id f) (fs_kind f) co;
               loss = (if is_stream_loss (fs_kind f)
                       then Some \<lparr>sl_rng = rng_new (derive_stream_loss_seed run_seed proxy key dir (fs_id f)),
                                  sl_decided = None, sl_prev_dropped = False\<rparr>
                       else None)
           in co1\<lparr>co_rngs := co_rngs co1 @ [(True, rng)], co_stream_loss := co_stream_loss co1 @ [loss]\<rparr>)"

definition compiled_init :: compiled where
  "compiled_init =
     \<lparr>co_max_buffer = 64 * 1024, co_limit = None, co_blackhole = None, co_disconnect = None,
      co_bandwidth = None, co_slicer = False, co_rngs = [], co_stream_loss = []\<rparr>"

definition compile_plan :: "u64 \<Rightarrow> string \<Rightarrow> u64 \<Rightarrow> direction \<Rightarrow> instant \<Rightarrow> fault_spec list \<Rightarrow> compiled" where
  "compile_plan run_seed proxy key dir now fs =
     fold (compile_fault run_seed proxy key dir now) fs compiled_init"

fun slow_close_delays :: "fault_spec list \<Rightarrow> (bool \<times> deterministic_rng) list \<Rightarrow> duration list" where
  "slow_close_delays (f # fs) ((active, _) # rs) =
     (case (active, fs_kind f) of
        (True, SlowClose c) \<Rightarrow> sc_delay c # slow_close_delays fs rs
      | _ \<Rightarrow> slow_close_delays fs rs)"
| "slow_close_delays _ _ = []"

fun sum_delays :: "duration list \<Rightarrow> duration option" where
  "sum_delays [] = None"
| "sum_delays (d # ds) = Some (foldl duration_saturating_add d ds)"

definition new_with_arc_plan ::
    "fault_plan \<Rightarrow> u64 \<Rightarrow> string \<Rightarrow> u64 \<Rightarrow> direction \<Rightarrow> termination_handle \<Rightarrow> instant \<Rightarrow>
     validation_error + direction_engine" where
  "new_with_arc_plan plan run_seed proxy key dir handle now =
     (case plan_validate plan of
        Inl e \<Rightarrow> Inl e
      | Inr _ \<Rightarrow>
          let co = compile_plan run_seed proxy key dir now (plan_faults plan)
          in Inr \<lparr>en_plan = plan, en_direction = dir, en_queue = [], en_buffered = 0, en_high_water = 0,
                  en_max_buffer = max (co_max_buffer co) 1, en_rngs = co_rngs co,
                  en_evidence = evidence_default\<lparr>ev_termination := map_option ti_request handle\<rparr>,
                  en_termination = handle, en_handle = handle,
                  en_queue_timer = None, en_term_timer = None, en_shutdown_timer = None,
                  en_shutdown_deadline = None,
                  en_slow_close = sum_delays (slow_close_delays (plan_faults plan) (co_rngs co)),
                  en_remaining_limit = co_limit co, en_blackhole = co_blackhole co,
                  en_disconnect = co_disconnect co,
                  en_bandwidth = map_option (\<lambda>(rate, burst). bucket_new rate burst now) (co_bandwidth co),
                  en_slicer_active = co_slicer co, en_slice_cursor = now,
                  en_stream_loss = co_stream_loss co, en_stream_loss_offset = 0,
                  en_stream_loss_evaluated = 0\<rparr>)"

definition engine_new ::
    "fault_plan \<Rightarrow> u64 \<Rightarrow> string \<Rightarrow> u64 \<Rightarrow> direction \<Rightarrow> instant \<Rightarrow> validation_error + direction_engine" where
  "engine_new plan run_seed proxy key dir now =
     new_with_arc_plan plan run_seed proxy key dir handle_new now"

definition engine_empty :: "instant \<Rightarrow> direction_engine" where
  "engine_empty now =
     \<lparr>en_plan = empty_plan, en_direction = Upstream, en_queue = [], en_buffered = 0, en_high_water = 0,
      en_max_buffer = 64 * 1024, en_rngs = [], en_evidence = evidence_default,
      en_termination = None, en_handle = handle_new,
      en_queue_timer = None, en_term_timer = None, en_shutdown_timer = None,
      en_shutdown_deadline = None, en_slow_close = None, en_remaining_limit = None,
      en_blackhole = None, en_disconnect = None, en_bandwidth = None,
      en_slicer_active = False, en_slice_cursor = now,
      en_stream_loss = [], en_stream_loss_offset = 0, en_stream_loss_evaluated = 0\<rparr>"

section \<open>Evidence and synchronous terminations\<close>

definition engine_is_empty :: "direction_engine \<Rightarrow> bool" where
  "engine_is_empty e = plan_is_empty (en_plan e)"

definition evidence :: "direction_engine \<Rightarrow> engine_evidence" where
  "evidence e = (en_evidence e)\<lparr>ev_buffered_bytes := en_buffered e, ev_high_water_bytes := en_high_water e\<rparr>"

definition absorb_evidence :: "engine_evidence \<Rightarrow> direction_engine \<Rightarrow> direction_engine" where
  "absorb_evidence prev e =
     (let ev = en_evidence e
      in e\<lparr>en_evidence := ev\<lparr>
             ev_bytes_accepted := sat_add64 (ev_bytes_accepted ev) (ev_bytes_accepted prev),
             ev_bytes_forwarded := sat_add64 (ev_bytes_forwarded ev) (ev_bytes_forwarded prev),
             ev_bytes_discarded := sat_add64 (ev_bytes_discarded ev) (ev_bytes_discarded prev),
             ev_segments := sat_add64 (ev_segments ev) (ev_segments prev),
             ev_slices := sat_add64 (ev_slices ev) (ev_slices prev),
             ev_injected_delay_ms := sat_add64 (ev_injected_delay_ms ev) (ev_injected_delay_ms prev),
             ev_throttled_delay_ms := sat_add64 (ev_throttled_delay_ms ev) (ev_throttled_delay_ms prev),
             ev_activations := map2 sat_add64 (ev_activations ev) (ev_activations prev),
             ev_sl_chunks_evaluated := sat_add64 (ev_sl_chunks_evaluated ev) (ev_sl_chunks_evaluated prev),
             ev_sl_chunks_dropped := sat_add64 (ev_sl_chunks_dropped ev) (ev_sl_chunks_dropped prev),
             ev_sl_bytes_discarded := sat_add64 (ev_sl_bytes_discarded ev) (ev_sl_bytes_discarded prev)\<rparr>,
           en_high_water := max (en_high_water e) (ev_high_water_bytes prev)\<rparr>)"

definition engine_termination_request :: "direction_engine \<Rightarrow> termination_request option" where
  "engine_termination_request e = map_option ti_request (en_termination e)"

definition queue_is_empty :: "direction_engine \<Rightarrow> bool" where
  "queue_is_empty e = (en_queue e = [])"

text \<open>One more activation of fault type \<open>i\<close>.\<close>

definition activate :: "nat \<Rightarrow> direction_engine \<Rightarrow> direction_engine" where
  "activate i = en_evidence_update
     (ev_activations_update (\<lambda>acts. acts[i := sat_add64 (acts ! i) 1]))"

definition publish_termination :: "termination_info \<Rightarrow> direction_engine \<Rightarrow> bool \<times> direction_engine" where
  "publish_termination info e0 =
     (let e = e0\<lparr>en_handle := snd (handle_publish info (en_handle e0))\<rparr>
      in case en_termination e of
           None \<Rightarrow> (True, e\<lparr>en_termination := Some info,
                            en_evidence := (en_evidence e)\<lparr>ev_termination := Some (ti_request info)\<rparr>\<rparr>)
         | Some old \<Rightarrow> (False, e\<lparr>en_evidence := (en_evidence e)\<lparr>ev_termination := Some (ti_request old)\<rparr>\<rparr>))"

text \<open>Publish a request made by a fault of this engine; the first publication counts as activation \<open>i\<close>.\<close>

definition request_termination ::
    "termination_request \<Rightarrow> fault_id \<Rightarrow> nat \<Rightarrow> direction_engine \<Rightarrow> direction_engine" where
  "request_termination req fid i e =
     (let (first, e1) = publish_termination
            \<lparr>ti_request = req, ti_direction = en_direction e, ti_fault_id = Some fid\<rparr> e
      in if first then activate i e1 else e1)"

definition refresh_blackhole :: "instant \<Rightarrow> direction_engine \<Rightarrow> direction_engine" where
  "refresh_blackhole now e =
     (case en_blackhole e of
        None \<Rightarrow> e
      | Some st \<Rightarrow>
          (case bh_deadline st of
             None \<Rightarrow> e
           | Some d \<Rightarrow> if d \<le> now then request_termination Graceful (bh_fault_id st) 2 e else e))"

definition refresh_sync_terminations :: "instant \<Rightarrow> direction_engine \<Rightarrow> direction_engine" where
  "refresh_sync_terminations now e =
     (if en_termination e \<noteq> None then e
      else case en_disconnect e of
        Some st \<Rightarrow>
          if dc_deadline st \<le> now
          then request_termination (if dc_hard_reset st then HardReset else Graceful) (dc_fault_id st) 6 e
          else refresh_blackhole now e
      | None \<Rightarrow> refresh_blackhole now e)"

section \<open>The invariant of an engine\<close>

definition queue_bytes :: "direction_engine \<Rightarrow> byte list" where
  "queue_bytes e = concat (map q_bytes (en_queue e))"

text \<open>
  Every accepted byte is forwarded, discarded or still queued. The counters saturate, so the equation
  is stated for accepted counts below the maximum; there nothing has saturated yet.
\<close>

definition conserved :: "direction_engine \<Rightarrow> bool" where
  "conserved e =
     (let ev = en_evidence e in
      ev_bytes_accepted ev < U64_MAX \<longrightarrow>
      ev_bytes_accepted ev = ev_bytes_forwarded ev + ev_bytes_discarded ev + en_buffered e)"

definition queue_ok :: "direction_engine \<Rightarrow> bool" where
  "queue_ok e = (en_buffered e = length (queue_bytes e) \<and> en_buffered e \<le> en_max_buffer e
     \<and> en_buffered e \<le> en_high_water e \<and> (\<forall>q \<in> set (en_queue e). q_bytes q \<noteq> []))"

fun limit_spent :: "(nat \<times> fault_id) option \<Rightarrow> bool" where
  "limit_spent None = False"
| "limit_spent (Some (remaining, _)) = (remaining = 0)"

fun bandwidth_ok :: "token_bucket option \<Rightarrow> bool" where
  "bandwidth_ok None = True"
| "bandwidth_ok (Some b) = bucket_ok b"

definition termination_ok :: "direction_engine \<Rightarrow> bool" where
  "termination_ok e = ((en_termination e \<noteq> None \<longrightarrow> en_handle e \<noteq> None)
     \<and> ev_termination (en_evidence e) = map_option ti_request (en_termination e)
     \<and> (limit_spent (en_remaining_limit e) \<longrightarrow> en_termination e \<noteq> None))"

definition shape_ok :: "direction_engine \<Rightarrow> bool" where
  "shape_ok e = (length (en_rngs e) = length (plan_faults (en_plan e))
     \<and> length (en_stream_loss e) = length (plan_faults (en_plan e))
     \<and> length (ev_activations (en_evidence e)) = 7
     \<and> bandwidth_ok (en_bandwidth e) \<and> plan_ok (en_plan e))"

definition engine_wf :: "direction_engine \<Rightarrow> bool" where
  "engine_wf e = (queue_ok e \<and> conserved e \<and> termination_ok e \<and> shape_ok e)"

lemmas engine_wf_defs = engine_wf_def queue_ok_def conserved_def termination_ok_def shape_ok_def

subsection \<open>Terminations keep everything else\<close>

text \<open>\<open>e'\<close> differs from \<open>e\<close> in its termination state and its activation counts only.\<close>

definition erase_term :: "direction_engine \<Rightarrow> direction_engine" where
  "erase_term e = e\<lparr>en_termination := None, en_handle := None,
     en_evidence := (en_evidence e)\<lparr>ev_termination := None, ev_activations := []\<rparr>\<rparr>"

definition term_frame :: "direction_engine \<Rightarrow> direction_engine \<Rightarrow> bool" where
  "term_frame e e' = (erase_term e' = erase_term e \<and>
     length (ev_activations (en_evidence e')) = length (ev_activations (en_evidence e)))"

lemma term_frame_refl [simp]: "term_frame e e"
  by (simp add: term_frame_def)

lemma term_frame_trans: "term_frame e e' \<Longrightarrow> term_frame e' e'' \<Longrightarrow> term_frame e e''"
  by (simp add: term_frame_def)

lemma term_frame_activate [simp]: "term_frame e (activate i e)"
  by (simp add: term_frame_def erase_term_def activate_def)

lemma term_frame_publish: "term_frame e (snd (publish_termination info e))"
  by (cases "en_termination e") (simp_all add: term_frame_def erase_term_def publish_termination_def Let_def)

lemma term_frame_request: "term_frame e (request_termination req fid i e)"
  using term_frame_publish term_frame_trans [OF term_frame_publish term_frame_activate]
  by (simp add: request_termination_def split_def Let_def)

lemma term_frame_refresh: "term_frame e (refresh_sync_terminations now e)"
  by (simp add: refresh_sync_terminations_def refresh_blackhole_def term_frame_request split: option.split)

lemma term_frame_fields:
  assumes "term_frame e e'"
  shows "en_plan e' = en_plan e" "en_direction e' = en_direction e" "en_queue e' = en_queue e"
    "en_buffered e' = en_buffered e" "en_high_water e' = en_high_water e" "en_max_buffer e' = en_max_buffer e"
    "en_rngs e' = en_rngs e" "en_remaining_limit e' = en_remaining_limit e" "en_blackhole e' = en_blackhole e"
    "en_disconnect e' = en_disconnect e" "en_bandwidth e' = en_bandwidth e"
    "en_slicer_active e' = en_slicer_active e" "en_slice_cursor e' = en_slice_cursor e"
    "en_stream_loss e' = en_stream_loss e" "en_stream_loss_offset e' = en_stream_loss_offset e"
    "en_stream_loss_evaluated e' = en_stream_loss_evaluated e" "en_queue_timer e' = en_queue_timer e"
    "en_term_timer e' = en_term_timer e" "en_shutdown_timer e' = en_shutdown_timer e"
  using assms unfolding term_frame_def erase_term_def by (cases e; cases e'; simp; fail)+

lemma term_frame_evidence:
  assumes "term_frame e e'"
  shows "ev_bytes_accepted (en_evidence e') = ev_bytes_accepted (en_evidence e)"
    "ev_bytes_forwarded (en_evidence e') = ev_bytes_forwarded (en_evidence e)"
    "ev_bytes_discarded (en_evidence e') = ev_bytes_discarded (en_evidence e)"
    "length (ev_activations (en_evidence e')) = length (ev_activations (en_evidence e))"
  using assms unfolding term_frame_def erase_term_def
  by (cases e; cases e'; cases "en_evidence e"; cases "en_evidence e'"; simp; fail)+

lemma term_frame_invariants:
  assumes "term_frame e e'"
  shows "queue_bytes e' = queue_bytes e" "queue_ok e' = queue_ok e" "conserved e' = conserved e"
    "shape_ok e' = shape_ok e"
  by (simp_all add: queue_bytes_def queue_ok_def conserved_def shape_ok_def Let_def
      term_frame_fields [OF assms] term_frame_evidence [OF assms])

lemmas term_frame_all = term_frame_fields term_frame_evidence term_frame_invariants
lemmas refresh_fields [simp] = term_frame_all [OF term_frame_refresh]
lemmas request_fields [simp] = term_frame_all [OF term_frame_request]
lemmas activate_fields [simp] = term_frame_all [OF term_frame_activate]

lemma activate_termination [simp]:
  "en_termination (activate i e) = en_termination e" "en_handle (activate i e) = en_handle e"
  "ev_termination (en_evidence (activate i e)) = ev_termination (en_evidence e)"
  "termination_ok (activate i e) = termination_ok e"
  by (simp_all add: activate_def termination_ok_def)

lemma handle_publish_some: "snd (handle_publish info h) \<noteq> None"
  by (cases h) auto

lemma request_termination_set:
  "en_termination (request_termination req fid i e) =
     Some (case en_termination e of Some old \<Rightarrow> old
           | None \<Rightarrow> \<lparr>ti_request = req, ti_direction = en_direction e, ti_fault_id = Some fid\<rparr>)"
  by (simp add: request_termination_def publish_termination_def Let_def split: option.split)

lemma request_termination_ok: "termination_ok (request_termination req fid i e)"
  using handle_publish_some
  by (auto simp: request_termination_def publish_termination_def Let_def termination_ok_def split: option.split)

lemma refresh_termination_ok: "termination_ok e \<Longrightarrow> termination_ok (refresh_sync_terminations now e)"
  by (simp add: refresh_sync_terminations_def refresh_blackhole_def request_termination_ok split: option.split)

lemma refresh_wf: "engine_wf e \<Longrightarrow> engine_wf (refresh_sync_terminations now e)"
  by (simp add: engine_wf_def refresh_termination_ok)

lemma refresh_termination_stable:
  "en_termination e = Some i \<Longrightarrow> refresh_sync_terminations now e = e"
  by (simp add: refresh_sync_terminations_def)

section \<open>Construction\<close>

text \<open>The faults whose activation draw succeeds on this connection.\<close>

definition fault_active :: "u64 \<Rightarrow> string \<Rightarrow> u64 \<Rightarrow> direction \<Rightarrow> fault_spec \<Rightarrow> bool" where
  "fault_active run_seed proxy key dir f =
     fst (bernoulli (fs_probability f) (rng_new (derive_seed run_seed proxy key dir (fs_id f))))"

definition erase_streams :: "compiled \<Rightarrow> compiled" where
  "erase_streams co = co\<lparr>co_rngs := [], co_stream_loss := []\<rparr>"

lemma compile_kind_streams [simp]:
  "co_rngs (compile_kind now fid k co) = co_rngs co"
  "co_stream_loss (compile_kind now fid k co) = co_stream_loss co"
  "erase_streams (co\<lparr>co_rngs := r, co_stream_loss := l\<rparr>) = erase_streams co"
  "erase_streams (compile_kind now fid k co) = compile_kind now fid k (erase_streams co)"
  by (cases k; simp add: erase_streams_def)+

lemma compile_fault_streams:
  "map fst (co_rngs (compile_fault s p k d now f co)) = map fst (co_rngs co) @ [fault_active s p k d f]"
  "length (co_stream_loss (compile_fault s p k d now f co)) = Suc (length (co_stream_loss co))"
  by (simp_all add: compile_fault_def fault_active_def split_def Let_def)

lemma compile_fault_kind:
  "erase_streams (compile_fault s p k d now f co) =
     (if fault_active s p k d f then compile_kind now (fs_id f) (fs_kind f) (erase_streams co)
      else erase_streams co)"
  by (simp add: compile_fault_def fault_active_def split_def Let_def)

lemma compile_fold_streams:
  "map fst (co_rngs (fold (compile_fault s p k d now) fs co)) =
     map fst (co_rngs co) @ map (fault_active s p k d) fs"
  "length (co_stream_loss (fold (compile_fault s p k d now) fs co)) =
     length (co_stream_loss co) + length fs"
  by (induction fs arbitrary: co) (simp_all add: compile_fault_streams)

lemma compile_fold_kinds:
  "erase_streams (fold (compile_fault s p k d now) fs co) =
     fold (\<lambda>f. compile_kind now (fs_id f) (fs_kind f)) (filter (fault_active s p k d) fs) (erase_streams co)"
  by (induction fs arbitrary: co) (simp_all add: compile_fault_kind)

lemma compile_plan_streams:
  "map fst (co_rngs (compile_plan s p k d now fs)) = map (fault_active s p k d) fs"
  "length (co_stream_loss (compile_plan s p k d now fs)) = length fs"
  by (simp_all add: compile_plan_def compile_fold_streams compiled_init_def)

lemma compile_plan_kinds:
  "erase_streams (compile_plan s p k d now fs) =
     fold (\<lambda>f. compile_kind now (fs_id f) (fs_kind f)) (filter (fault_active s p k d) fs) compiled_init"
  by (simp add: compile_plan_def compile_fold_kinds) (simp add: erase_streams_def compiled_init_def)

lemma erase_streams_fields:
  "co_max_buffer (erase_streams co) = co_max_buffer co" "co_limit (erase_streams co) = co_limit co"
  "co_blackhole (erase_streams co) = co_blackhole co" "co_disconnect (erase_streams co) = co_disconnect co"
  "co_bandwidth (erase_streams co) = co_bandwidth co" "co_slicer (erase_streams co) = co_slicer co"
  by (simp_all add: erase_streams_def)

text \<open>What a sequence of active kinds compiles to, stage by stage.\<close>

definition buffer_caps :: "fault_spec list \<Rightarrow> nat list" where
  "buffer_caps fs = [lat_max_buffer_bytes c. Latency c \<leftarrow> map fs_kind fs]"

definition limit_caps :: "fault_spec list \<Rightarrow> nat list" where
  "limit_caps fs = [limit_bytes c. LimitData c \<leftarrow> map fs_kind fs]"

definition bandwidth_rates :: "fault_spec list \<Rightarrow> nat list" where
  "bandwidth_rates fs = [bytes_per_second c. Bandwidth c \<leftarrow> map fs_kind fs]"

definition bandwidth_bursts :: "fault_spec list \<Rightarrow> nat list" where
  "bandwidth_bursts fs = [burst_bytes c. Bandwidth c \<leftarrow> map fs_kind fs]"

definition blackhole_ends :: "instant \<Rightarrow> fault_spec list \<Rightarrow> instant option list" where
  "blackhole_ends now fs =
     [map_option (\<lambda>d. deadline_after now d MAX_STREAM_FAULT_DURATION) (close_after c). Blackhole c \<leftarrow> map fs_kind fs]"

definition disconnect_ends :: "instant \<Rightarrow> fault_spec list \<Rightarrow> instant list" where
  "disconnect_ends now fs =
     [deadline_after now (disc_after c) MAX_STREAM_FAULT_DURATION. Disconnect c \<leftarrow> map fs_kind fs]"

fun opt_min :: "nat option \<Rightarrow> nat \<Rightarrow> nat option" where
  "opt_min None n = Some n"
| "opt_min (Some m) n = Some (min m n)"

text \<open>An indefinite end (\<open>Some None\<close>) dominates a finite one; of two finite ones the earlier wins.\<close>

fun dominant_end :: "instant option option \<Rightarrow> instant option \<Rightarrow> instant option option" where
  "dominant_end None n = Some n"
| "dominant_end (Some None) n = Some None"
| "dominant_end (Some (Some d)) None = Some None"
| "dominant_end (Some (Some d)) (Some n) = Some (Some (min d n))"

abbreviation compile_kinds :: "instant \<Rightarrow> fault_spec list \<Rightarrow> compiled \<Rightarrow> compiled" where
  "compile_kinds now fs co \<equiv> fold (\<lambda>f. compile_kind now (fs_id f) (fs_kind f)) fs co"

lemma compile_kinds_buffer:
  "co_max_buffer (compile_kinds now fs co) = fold (\<lambda>n m. min m n) (buffer_caps fs) (co_max_buffer co)"
proof (induction fs arbitrary: co)
  case (Cons f fs)
  then show ?case by (cases "fs_kind f") (simp_all add: buffer_caps_def)
qed (simp add: buffer_caps_def)

lemma compile_kinds_limit:
  "map_option fst (co_limit (compile_kinds now fs co)) =
     foldl opt_min (map_option fst (co_limit co)) (limit_caps fs)"
proof (induction fs arbitrary: co)
  case (Cons f fs)
  have "map_option fst (tighter_limit (n, i) l) = opt_min (map_option fst l) n" for n i l
    by (cases l) (auto simp: min_def)
  with Cons show ?case by (cases "fs_kind f") (simp_all add: limit_caps_def)
qed (simp add: limit_caps_def)

lemma compile_kinds_rate:
  "map_option fst (co_bandwidth (compile_kinds now fs co)) =
     foldl opt_min (map_option fst (co_bandwidth co)) (bandwidth_rates fs)"
proof (induction fs arbitrary: co)
  case (Cons f fs)
  have "map_option fst (merge_bandwidth c l) = opt_min (map_option fst l) (bytes_per_second c)" for c l
    by (cases l) auto
  with Cons show ?case by (cases "fs_kind f") (simp_all add: bandwidth_rates_def)
qed (simp add: bandwidth_rates_def)

lemma compile_kinds_burst:
  "map_option snd (co_bandwidth (compile_kinds now fs co)) =
     foldl opt_min (map_option snd (co_bandwidth co)) (bandwidth_bursts fs)"
proof (induction fs arbitrary: co)
  case (Cons f fs)
  have "map_option snd (merge_bandwidth c l) = opt_min (map_option snd l) (burst_bytes c)" for c l
    by (cases l) auto
  with Cons show ?case by (cases "fs_kind f") (simp_all add: bandwidth_bursts_def)
qed (simp add: bandwidth_bursts_def)

lemma compile_kinds_blackhole:
  "map_option bh_deadline (co_blackhole (compile_kinds now fs co)) =
     foldl dominant_end (map_option bh_deadline (co_blackhole co)) (blackhole_ends now fs)"
proof (induction fs arbitrary: co)
  case (Cons f fs)
  have "map_option bh_deadline (merge_blackhole n l) = dominant_end (map_option bh_deadline l) (bh_deadline n)"
    for n l by (cases l) (auto simp: min_def split: option.split)
  with Cons show ?case by (cases "fs_kind f") (simp_all add: blackhole_ends_def)
qed (simp add: blackhole_ends_def)

lemma compile_kinds_disconnect:
  "map_option dc_deadline (co_disconnect (compile_kinds now fs co)) =
     foldl opt_min (map_option dc_deadline (co_disconnect co)) (disconnect_ends now fs)"
proof (induction fs arbitrary: co)
  case (Cons f fs)
  have "map_option dc_deadline (merge_disconnect n l) = opt_min (map_option dc_deadline l) (dc_deadline n)"
    for n l by (cases l) (auto simp: min_def)
  with Cons show ?case by (cases "fs_kind f") (simp_all add: disconnect_ends_def)
qed (simp add: disconnect_ends_def)

lemma Min_insert_min: "finite S \<Longrightarrow> Min (insert (min a m) S) = min a (Min (insert (m :: nat) S))"
  by (cases "S = {}") (simp_all add: min.assoc)

lemma foldl_opt_min: "foldl opt_min (Some m) ns = Some (Min (insert m (set ns)))"
  by (induction ns arbitrary: m) (simp_all add: insert_commute min.commute Min_insert_min)

lemma foldl_opt_min_None: "foldl opt_min None ns = (if ns = [] then None else Some (Min (set ns)))"
  by (cases ns) (simp_all add: foldl_opt_min)

lemma fold_min: "fold (\<lambda>n m. min m n) ns m = Min (insert (m :: nat) (set ns))"
  by (induction ns arbitrary: m) (simp_all add: insert_commute min.commute Min_insert_min)

lemma foldl_dominant_None: "foldl dominant_end (Some None) es = Some None"
  by (induction es) simp_all

lemma foldl_dominant_end:
  "foldl dominant_end (Some (Some d)) es =
     Some (if None \<in> set es then None else Some (Min (insert d (the ` set es))))"
proof (induction es arbitrary: d)
  case (Cons e es)
  then show ?case
    by (cases e) (simp_all add: foldl_dominant_None insert_commute min.commute Min_insert_min)
qed simp

lemma compile_plan_stages:
  fixes s p k d fs
  defines "act \<equiv> filter (fault_active s p k d) fs"
  shows
    "co_max_buffer (compile_plan s p k d now fs) = Min (insert (64 * 1024) (set (buffer_caps act)))"
    "map_option fst (co_limit (compile_plan s p k d now fs)) =
       (if limit_caps act = [] then None else Some (Min (set (limit_caps act))))"
    "map_option fst (co_bandwidth (compile_plan s p k d now fs)) =
       (if bandwidth_rates act = [] then None else Some (Min (set (bandwidth_rates act))))"
    "map_option snd (co_bandwidth (compile_plan s p k d now fs)) =
       (if bandwidth_bursts act = [] then None else Some (Min (set (bandwidth_bursts act))))"
    "map_option dc_deadline (co_disconnect (compile_plan s p k d now fs)) =
       (if disconnect_ends now act = [] then None else Some (Min (set (disconnect_ends now act))))"
    "map_option bh_deadline (co_blackhole (compile_plan s p k d now fs)) =
       foldl dominant_end None (blackhole_ends now act)"
  unfolding erase_streams_fields [of "compile_plan s p k d now fs", symmetric] compile_plan_kinds
    act_def [symmetric] compile_kinds_buffer compile_kinds_limit compile_kinds_rate compile_kinds_burst
    compile_kinds_disconnect compile_kinds_blackhole fold_min
  by (simp_all add: compiled_init_def foldl_opt_min_None)

lemma blackhole_ends_dominant:
  "foldl dominant_end None es =
     (if es = [] then None else if None \<in> set es then Some None else Some (Some (Min (the ` set es))))"
proof (cases es)
  case (Cons e es')
  then show ?thesis by (cases e) (simp_all add: foldl_dominant_None foldl_dominant_end)
qed simp

lemma active_specs_ok: "plan_ok plan \<Longrightarrow> f \<in> set (filter P (plan_faults plan)) \<Longrightarrow> spec_ok f"
  by (auto simp: plan_ok_def)

lemma stage_caps_members:
  "n \<in> set (limit_caps fs) \<Longrightarrow> \<exists>f \<in> set fs. \<exists>c. fs_kind f = LimitData c \<and> n = limit_bytes c"
  "n \<in> set (bandwidth_rates fs) \<Longrightarrow> \<exists>f \<in> set fs. \<exists>c. fs_kind f = Bandwidth c \<and> n = bytes_per_second c"
  by (force simp: limit_caps_def bandwidth_rates_def split: fault_kind.splits)+

lemma stage_caps_pos:
  assumes "\<And>f. f \<in> set fs \<Longrightarrow> spec_ok f"
  shows "\<forall>n \<in> set (limit_caps fs). 0 < n" "\<forall>n \<in> set (bandwidth_rates fs). 0 < n"
proof -
  show "\<forall>n \<in> set (limit_caps fs). 0 < n"
    using stage_caps_members(1) assms by (fastforce simp: spec_ok_def split: if_splits)
  show "\<forall>n \<in> set (bandwidth_rates fs). 0 < n"
    using stage_caps_members(2) assms by (fastforce simp: spec_ok_def split: if_splits)
qed

lemma Min_pos: "finite S \<Longrightarrow> S \<noteq> {} \<Longrightarrow> \<forall>n \<in> S. 0 < (n :: nat) \<Longrightarrow> 0 < Min S"
  by simp

lemma new_engine_inv:
  assumes "new_with_arc_plan plan s p k d h now = Inr e"
  shows "plan_ok plan" "en_plan e = plan" "en_handle e = h" "en_termination e = h" "en_direction e = d"
    "en_queue e = []" "en_buffered e = 0" "en_max_buffer e = max (co_max_buffer (compile_plan s p k d now (plan_faults plan))) 1"
    "en_rngs e = co_rngs (compile_plan s p k d now (plan_faults plan))"
    "en_stream_loss e = co_stream_loss (compile_plan s p k d now (plan_faults plan))"
    "en_remaining_limit e = co_limit (compile_plan s p k d now (plan_faults plan))"
    "en_bandwidth e = map_option (\<lambda>(rate, burst). bucket_new rate burst now)
       (co_bandwidth (compile_plan s p k d now (plan_faults plan)))"
    "en_evidence e = evidence_default\<lparr>ev_termination := map_option ti_request h\<rparr>"
    "en_stream_loss_offset e = 0" "en_stream_loss_evaluated e = 0"
  using assms
  by (cases plan rule: plan_validate_cases; auto simp: new_with_arc_plan_def Let_def; fail)+

lemma new_engine_wf:
  assumes "new_with_arc_plan plan s p k d h now = Inr e"
  shows "engine_wf e"
proof -
  let ?co = "compile_plan s p k d now (plan_faults plan)"
  let ?act = "filter (fault_active s p k d) (plan_faults plan)"
  note inv = new_engine_inv [OF assms]
  have specs: "spec_ok f" if "f \<in> set ?act" for f using inv(1) that by (rule active_specs_ok)
  note caps = stage_caps_pos [of ?act, OF specs]
  have "length (co_rngs ?co) = length (plan_faults plan)"
    using compile_plan_streams(1) [THEN arg_cong, of length] by simp
  moreover have "bandwidth_ok (en_bandwidth e)"
  proof (cases "co_bandwidth ?co")
    case (Some cfg)
    then have "0 < fst cfg"
      using compile_plan_stages(3) [of s p k d now "plan_faults plan"] Min_pos [OF _ _ caps(2)]
      by (simp split: if_splits)
    with Some show ?thesis by (simp add: inv(12) split_def bucket_new_ok)
  qed (simp add: inv(12))
  moreover have "\<not> limit_spent (en_remaining_limit e)"
  proof (cases "co_limit ?co")
    case (Some l)
    then have "0 < fst l"
      using compile_plan_stages(2) [of s p k d now "plan_faults plan"] Min_pos [OF _ _ caps(1)]
      by (simp split: if_splits)
    with Some show ?thesis by (cases l) (simp add: inv(11))
  qed (simp add: inv(11))
  ultimately show ?thesis
    by (simp add: engine_wf_defs inv queue_bytes_def compile_plan_streams evidence_default_def)
qed

lemma engine_empty_wf: "engine_wf (engine_empty now)"
  by (simp add: engine_wf_defs engine_empty_def queue_bytes_def evidence_default_def handle_new_def
      empty_plan_ok) (simp add: empty_plan_def)

lemma absorb_conserved:
  assumes "engine_wf e" "ev_bytes_accepted prev < U64_MAX \<Longrightarrow>
      ev_bytes_accepted prev = ev_bytes_forwarded prev + ev_bytes_discarded prev"
  shows "conserved (absorb_evidence prev e)"
proof -
  let ?ev = "en_evidence e"
  {
    assume lt: "sat_add64 (ev_bytes_accepted ?ev) (ev_bytes_accepted prev) < U64_MAX"
    then have "ev_bytes_accepted ?ev < U64_MAX" "ev_bytes_accepted prev < U64_MAX"
      by (simp_all add: sat_add64_def)
    then have "ev_bytes_accepted ?ev = ev_bytes_forwarded ?ev + ev_bytes_discarded ?ev + en_buffered e"
      "ev_bytes_accepted prev = ev_bytes_forwarded prev + ev_bytes_discarded prev"
      using assms by (simp_all add: engine_wf_def conserved_def Let_def)
    with lt have "sat_add64 (ev_bytes_accepted ?ev) (ev_bytes_accepted prev) =
        sat_add64 (ev_bytes_forwarded ?ev) (ev_bytes_forwarded prev) +
        sat_add64 (ev_bytes_discarded ?ev) (ev_bytes_discarded prev) + en_buffered e"
      by (simp add: sat_add64_def)
  }
  then show ?thesis by (simp add: conserved_def absorb_evidence_def Let_def)
qed

lemma absorb_wf:
  assumes "engine_wf e" "length (ev_activations prev) = 7" "ev_bytes_accepted prev < U64_MAX \<Longrightarrow>
      ev_bytes_accepted prev = ev_bytes_forwarded prev + ev_bytes_discarded prev"
  shows "engine_wf (absorb_evidence prev e)"
  using absorb_conserved [OF assms(1,3)] assms(1,2)
  by (simp add: engine_wf_def queue_ok_def termination_ok_def shape_ok_def)
     (simp add: absorb_evidence_def Let_def queue_bytes_def le_max_iff_disj)

section \<open>Properties\<close>

text \<open>
  How active faults compose. The compiled bounds depend on the faults whose activation draw
  succeeds only: the buffer is the smallest configured latency buffer (64 KiB by default), the byte
  limit, the bandwidth rate and the burst are each the minimum over the active faults, a disconnect
  fires at the earliest deadline, and an indefinite blackhole dominates finite ones, of which the
  earliest end counts.
\<close>

theorem plan_compilation:
  "let act = filter (fault_active s p k d) fs; co = compile_plan s p k d now fs in
     co_max_buffer co = Min (insert (64 * 1024) (set (buffer_caps act))) \<and>
     map_option fst (co_limit co) = (if limit_caps act = [] then None else Some (Min (set (limit_caps act)))) \<and>
     map_option fst (co_bandwidth co) =
       (if bandwidth_rates act = [] then None else Some (Min (set (bandwidth_rates act)))) \<and>
     map_option snd (co_bandwidth co) =
       (if bandwidth_bursts act = [] then None else Some (Min (set (bandwidth_bursts act)))) \<and>
     map_option dc_deadline (co_disconnect co) =
       (if disconnect_ends now act = [] then None else Some (Min (set (disconnect_ends now act)))) \<and>
     map_option bh_deadline (co_blackhole co) =
       (if blackhole_ends now act = [] then None
        else if None \<in> set (blackhole_ends now act) then Some None
        else Some (Some (Min (the ` set (blackhole_ends now act)))))"
  unfolding Let_def compile_plan_stages blackhole_ends_dominant by simp

text \<open>
  Construction. \<^verbatim>\<open>new_with_arc_plan\<close> fails exactly on the plans that are not valid; otherwise
  the engine satisfies its invariant, owns nothing yet, and takes over the termination that the shared
  handle already carries.
\<close>

theorem engine_construction:
  "case new_with_arc_plan plan s p k d h now of
     Inl err \<Rightarrow> \<not> plan_ok plan
   | Inr e \<Rightarrow> plan_ok plan \<and> engine_wf e \<and> en_plan e = plan \<and> queue_bytes e = [] \<and>
       en_handle e = h \<and> en_termination e = h \<and> engine_termination_request e = map_option ti_request h"
proof (cases "new_with_arc_plan plan s p k d h now")
  case (Inl err)
  then show ?thesis
    by (cases plan rule: plan_validate_cases) (simp_all add: new_with_arc_plan_def Let_def)
next
  case (Inr e)
  with new_engine_wf [OF Inr] new_engine_inv [OF Inr] show ?thesis
    by (simp add: queue_bytes_def engine_termination_request_def)
qed

end
