(* ===== verification/Accept.thy ===== *)
theory Accept
  imports Engine
begin

text \<open>
  Byte admission, \<^verbatim>\<open>DirectionEngine::accept\<close> and what it calls
  (\<^verbatim>\<open>crates/eggchaos-core/src/engine.rs\<close>): slicing, latency, bandwidth and inter-slice delay of
  one segment, the segment loop, stream-loss classification, the blackhole path, the byte limit and
  the vectored entry point.

  \<^verbatim>\<open>accept\<close> reads the clock up to three times (\<open>refresh_sync_terminations\<close>, the segment time,
  \<open>blackhole_discarding\<close>); the readings are the arguments \<open>t1\<close>, \<open>t2\<close>, \<open>t3\<close>.
\<close>

section \<open>One segment\<close>

text \<open>A loop over \<^verbatim>\<open>plan.faults().iter().zip(&mut self.rngs)\<close> that skips inactive faults.\<close>

fun slice_sizes :: "fault_spec list \<Rightarrow> (bool \<times> deterministic_rng) list \<Rightarrow> nat \<Rightarrow>
    nat \<times> (bool \<times> deterministic_rng) list" where
  "slice_sizes (f # fs) ((active, rng) # rs) sz =
     (let (size1, rng1) =
            (case fs_kind f of
               Slice c \<Rightarrow>
                 if active then
                   let (offset, rng') = below (sat_add64 (sat_mul64 (variation c) 2) 1) rng;
                       stage_size = max (sat_add64 (average_size c - variation c) offset) 1
                   in (min sz stage_size, rng')
                 else (sz, rng)
             | _ \<Rightarrow> (sz, rng));
          (size2, rs2) = slice_sizes fs rs size1
      in (size2, (active, rng1) # rs2))"
| "slice_sizes fs rs sz = (sz, rs)"

definition next_slice_size :: "nat \<Rightarrow> direction_engine \<Rightarrow> nat \<times> direction_engine" where
  "next_slice_size remaining e =
     (let (sz, rngs) = slice_sizes (plan_faults (en_plan e)) (en_rngs e) (max remaining 1)
      in (max (min sz remaining) 1, e\<lparr>en_rngs := rngs\<rparr>))"

definition latency_nanos :: "latency_config \<Rightarrow> deterministic_rng \<Rightarrow> nat \<times> deterministic_rng" where
  "latency_nanos c rng =
     (let jitter_range = min (lat_jitter c) U64_MAX;
          (jitter, rng') =
            (if jitter_range = 0 then (0, rng)
             else let (n, r) = below (sat_add64 (sat_mul64 jitter_range 2) 1) rng
                  in (int n - int jitter_range, r))
      in (nat (min (max (int (lat_delay c) + jitter) 0) (int U64_MAX)), rng'))"

text \<open>The variables of the stage loop of one segment.\<close>

record stages =
  st_release :: instant
  st_slice_delay :: duration
  st_injected_ms :: nat
  st_latency :: bool
  st_slice :: bool

fun stage :: "fault_kind \<Rightarrow> deterministic_rng \<Rightarrow> stages \<Rightarrow> deterministic_rng \<times> stages" where
  "stage (Latency c) rng st =
     (let (nanos, rng') = latency_nanos c rng
      in (rng', st\<lparr>st_release := deadline_after (st_release st) nanos MAX_STREAM_FAULT_DURATION,
                   st_injected_ms := sat_add64 (st_injected_ms st) (nanos div 1000000),
                   st_latency := True\<rparr>))"
| "stage (Slice c) rng st = (rng, st\<lparr>st_slice_delay := max (st_slice_delay st) (slice_delay c), st_slice := True\<rparr>)"
| "stage _ rng st = (rng, st)"

fun stage_loop :: "fault_spec list \<Rightarrow> (bool \<times> deterministic_rng) list \<Rightarrow> stages \<Rightarrow>
    (bool \<times> deterministic_rng) list \<times> stages" where
  "stage_loop (f # fs) ((active, rng) # rs) st =
     (let (rng1, st1) = (if active then stage (fs_kind f) rng st else (rng, st));
          (rs2, st2) = stage_loop fs rs st1
      in ((active, rng1) # rs2, st2))"
| "stage_loop fs rs st = (rs, st)"

text \<open>The bandwidth stage: release, throttle milliseconds and the bucket afterwards.\<close>

fun bandwidth_stage :: "nat \<Rightarrow> instant \<Rightarrow> instant \<Rightarrow> token_bucket option \<Rightarrow>
    instant \<times> nat \<times> token_bucket option" where
  "bandwidth_stage len now release None = (release, 0, None)"
| "bandwidth_stage len now release (Some b) =
     (let (r, ms, b') = bucket_consume len now release b in (r, ms, Some b'))"

text \<open>Schedule and queue one segment; the flags tell whether a latency or a slice stage engaged.\<close>

definition push_segment :: "instant \<Rightarrow> byte list \<Rightarrow> direction_engine \<Rightarrow> bool \<times> bool \<times> direction_engine" where
  "push_segment now bytes e =
     (let ev = en_evidence e;
          (rngs, st) = stage_loop (plan_faults (en_plan e)) (en_rngs e)
             \<lparr>st_release = now, st_slice_delay = 0, st_injected_ms = ev_injected_delay_ms ev,
              st_latency = False, st_slice = False\<rparr>;
          (release1, throttled, bucket) = bandwidth_stage (length bytes) now (st_release st) (en_bandwidth e);
          stagger = (en_slicer_active e \<and> st_slice_delay st \<noteq> 0);
          release = (if stagger then max release1 (en_slice_cursor e) else release1);
          cursor = (if stagger
                    then deadline_after release (st_slice_delay st) (min MAX_STREAM_FAULT_DURATION (st_slice_delay st))
                    else en_slice_cursor e);
          buffered = en_buffered e + length bytes
      in (st_latency st, st_slice st,
          e\<lparr>en_rngs := rngs, en_bandwidth := bucket, en_slice_cursor := cursor,
            en_queue := en_queue e @ [\<lparr>q_bytes = bytes, q_release = release\<rparr>],
            en_buffered := buffered, en_high_water := max (en_high_water e) buffered,
            en_evidence := ev\<lparr>ev_injected_delay_ms := st_injected_ms st,
              ev_throttled_delay_ms :=
                (if en_bandwidth e = None then ev_throttled_delay_ms ev
                 else sat_add64 (ev_throttled_delay_ms ev) throttled),
              ev_segments := sat_add64 (ev_segments ev) 1,
              ev_slices := (if en_slicer_active e then sat_add64 (ev_slices ev) 1 else ev_slices ev)\<rparr>\<rparr>))"

definition segment_size :: "nat \<Rightarrow> direction_engine \<Rightarrow> nat \<times> direction_engine" where
  "segment_size remaining e =
     (let (n, e') = (if en_slicer_active e then next_slice_size remaining e else (remaining, e))
      in (min (max n 1) remaining, e'))"

function push_preserve_run :: "instant \<Rightarrow> byte list \<Rightarrow> direction_engine \<Rightarrow>
    nat \<times> bool \<times> bool \<times> direction_engine" where
  "push_preserve_run now [] e = (0, False, False, e)"
| "push_preserve_run now (b # bs) e =
     (let data = b # bs;
          (chunk, e1) = segment_size (length data) e
      in if en_max_buffer e1 < en_buffered e1 + chunk then (0, False, False, e1)
         else let (latency1, slice1, e2) = push_segment now (take chunk data) e1;
                  (n, latency2, slice2, e3) = push_preserve_run now (drop chunk data) e2
              in (chunk + n, latency1 \<or> latency2, slice1 \<or> slice2, e3))"
  by pat_completeness auto
termination
  by (relation "measure (\<lambda>(now, data, e). length data)")
    (auto simp: segment_size_def split_def Let_def min_def max_def)

section \<open>Stream loss\<close>

text \<open>\<open>n\<close> draws of a fault's chunk stream, each conditioned on the previous outcome.\<close>

definition loss_probability :: "stream_loss_config \<Rightarrow> bool \<Rightarrow> f64" where
  "loss_probability c prev =
     (if prev then f64_min (f64_add (loss_rate c) (correlation c)) (Fin F64_ONE) else loss_rate c)"

fun loss_draws :: "nat \<Rightarrow> stream_loss_config \<Rightarrow> bool \<Rightarrow> stream_loss_state \<Rightarrow> bool \<times> stream_loss_state" where
  "loss_draws 0 c drop_last st = (drop_last, st)"
| "loss_draws (Suc n) c drop_last st =
     (let (hit, rng) = bernoulli (loss_probability c (sl_prev_dropped st)) (sl_rng st)
      in loss_draws n c hit (st\<lparr>sl_rng := rng, sl_prev_dropped := hit\<rparr>))"

definition decide_fault_chunk :: "nat \<Rightarrow> stream_loss_config \<Rightarrow> stream_loss_state \<Rightarrow> bool \<times> stream_loss_state" where
  "decide_fault_chunk chunk c st =
     (if map_option fst (sl_decided st) = Some chunk then (snd (the (sl_decided st)), st)
      else
        let start = (case sl_decided st of None \<Rightarrow> 0 | Some (decided, _) \<Rightarrow> sat_add64 decided 1);
            drop_init = (case sl_decided st of None \<Rightarrow> False | Some (_, hit) \<Rightarrow> hit);
            (hit, st') = loss_draws (chunk + 1 - start) c drop_init st
        in (hit, st'\<lparr>sl_decided := Some (chunk, hit)\<rparr>))"

fun decide_faults :: "nat \<Rightarrow> fault_spec list \<Rightarrow> stream_loss_state option list \<Rightarrow>
    bool \<times> stream_loss_state option list" where
  "decide_faults chunk (f # fs) (st # sts) =
     (let (hit, st') =
            (case (fs_kind f, st) of
               (StreamLoss c, Some conn) \<Rightarrow>
                 let (h, conn') = decide_fault_chunk chunk c conn in (h, Some conn')
             | _ \<Rightarrow> (False, st));
          (hits, sts') = decide_faults chunk fs sts
      in (hit \<or> hits, st' # sts'))"
| "decide_faults chunk fs sts = (False, sts)"

definition decide_stream_loss_chunk :: "nat \<Rightarrow> direction_engine \<Rightarrow> bool \<times> direction_engine" where
  "decide_stream_loss_chunk chunk e0 =
     (let (drop_any, sts) = decide_faults chunk (plan_faults (en_plan e0)) (en_stream_loss e0);
          e = e0\<lparr>en_stream_loss := sts\<rparr>;
          ev = en_evidence e
      in (drop_any,
          if chunk = en_stream_loss_evaluated e then
            e\<lparr>en_stream_loss_evaluated := en_stream_loss_evaluated e + 1,
              en_evidence := ev\<lparr>
                ev_sl_chunks_evaluated := sat_add64 (ev_sl_chunks_evaluated ev) 1,
                ev_sl_chunks_dropped :=
                  (if drop_any then sat_add64 (ev_sl_chunks_dropped ev) 1 else ev_sl_chunks_dropped ev)\<rparr>\<rparr>
          else e))"

definition chunk_end :: "nat \<Rightarrow> nat" where
  "chunk_end chunk =
     (case checked_add64 chunk 1 of
        None \<Rightarrow> U64_MAX
      | Some next \<Rightarrow> (case checked_mul64 next STREAM_LOSS_GRAIN_BYTES of None \<Rightarrow> U64_MAX | Some m \<Rightarrow> m))"

text \<open>Totals of one run of the classification loop.\<close>

record loss_totals =
  lt_offset :: nat
  lt_discarded :: nat
  lt_preserved :: nat
  lt_latency :: bool
  lt_slice :: bool

definition lt_zero :: loss_totals where
  "lt_zero = \<lparr>lt_offset = 0, lt_discarded = 0, lt_preserved = 0, lt_latency = False, lt_slice = False\<rparr>"

definition advance_offset :: "nat \<Rightarrow> direction_engine \<Rightarrow> direction_engine" where
  "advance_offset n e = e\<lparr>en_stream_loss_offset := sat_add64 (en_stream_loss_offset e) n\<rparr>"

definition count_segment :: "direction_engine \<Rightarrow> direction_engine" where
  "count_segment = en_evidence_update (ev_segments_update (\<lambda>n. sat_add64 n 1))"

lemma drop_shorter: "n \<noteq> 0 \<Longrightarrow> length (drop n (x # xs)) < length (x # xs)"
  by (cases n) simp_all

text \<open>\<open>data\<close> is the part of \<^verbatim>\<open>input[..limit_cap]\<close> from \<^verbatim>\<open>offset\<close> on.\<close>

function loss_loop :: "instant \<Rightarrow> byte list \<Rightarrow> direction_engine \<Rightarrow> loss_totals \<Rightarrow> loss_totals \<times> direction_engine" where
  "loss_loop now [] e tot = (tot, e)"
| "loss_loop now (b # bs) e tot =
     (let data = b # bs;
          chunk = en_stream_loss_offset e div STREAM_LOSS_GRAIN_BYTES;
          run = min (chunk_end chunk - en_stream_loss_offset e) (length data)
      in if run = 0 then (tot, e)
         else let (hit, e1) = decide_stream_loss_chunk chunk e
              in if hit then
                   loss_loop now (drop run data) (count_segment (advance_offset run e1))
                     (tot\<lparr>lt_offset := lt_offset tot + run,
                          lt_discarded := sat_add64 (lt_discarded tot) run\<rparr>)
                 else
                   let run1 = min run (en_max_buffer e1 - en_buffered e1)
                   in if run1 = 0 then (tot, e1)
                      else let (owned, latency, slice, e2) = push_preserve_run now (take run1 data) e1;
                               e3 = advance_offset owned e2;
                               tot1 = tot\<lparr>lt_offset := lt_offset tot + owned,
                                          lt_preserved := lt_preserved tot + owned,
                                          lt_latency := (lt_latency tot \<or> latency),
                                          lt_slice := (lt_slice tot \<or> slice)\<rparr>
                           in if owned < run1 then (tot1, e3)
                              else loss_loop now (drop run1 data) e3 tot1)"
  by pat_completeness auto
termination
  by (relation "measure (\<lambda>(now, data, e, tot). length data)", simp)
    (simp only: in_measure case_prod_conv, rule drop_shorter, blast)+

section \<open>Admission\<close>

fun engage :: "nat \<Rightarrow> bool list \<Rightarrow> direction_engine \<Rightarrow> direction_engine" where
  "engage i [] e = e"
| "engage i (flag # flags) e = engage (Suc i) flags (if flag then activate i e else e)"

text \<open>Charge \<open>n\<close> accepted bytes to the byte limit; the last one requests a graceful termination.\<close>

definition spend_limit :: "nat \<Rightarrow> direction_engine \<Rightarrow> direction_engine" where
  "spend_limit n e =
     (case en_remaining_limit e of
        None \<Rightarrow> e
      | Some (remaining, fid) \<Rightarrow>
          let e1 = e\<lparr>en_remaining_limit := Some (remaining - n, fid)\<rparr>
          in if remaining - n = 0 then request_termination Graceful fid 3 e1 else e1)"

definition count_accepted :: "nat \<Rightarrow> direction_engine \<Rightarrow> direction_engine" where
  "count_accepted n = en_evidence_update (ev_bytes_accepted_update (\<lambda>m. sat_add64 m n))"

definition count_discarded :: "nat \<Rightarrow> direction_engine \<Rightarrow> direction_engine" where
  "count_discarded n = en_evidence_update (ev_bytes_discarded_update (\<lambda>m. sat_add64 m n))"

definition note_loss :: "nat \<Rightarrow> direction_engine \<Rightarrow> direction_engine" where
  "note_loss d = en_evidence_update (ev_sl_bytes_discarded_update (\<lambda>n. sat_add64 n d))"

definition accept_with_stream_loss :: "byte list \<Rightarrow> nat \<Rightarrow> instant \<Rightarrow> direction_engine \<Rightarrow> nat \<times> direction_engine" where
  "accept_with_stream_loss input limit_available now e0 =
     (let limit_cap = min (length input) limit_available;
          (tot, e) = loss_loop now (take limit_cap input) e0 lt_zero
      in if lt_offset tot = 0 then (0, e)
         else
           let e1 = count_discarded (lt_discarded tot) (count_accepted (lt_offset tot) e);
               e2 = note_loss (lt_discarded tot) e1;
               e3 = engage 0 [lt_latency tot, en_bandwidth e2 \<noteq> None \<and> 0 < lt_preserved tot, False,
                              en_remaining_limit e2 \<noteq> None, False, lt_slice tot, False] e2
           in (lt_offset tot, spend_limit (lt_offset tot) e3))"

definition blackhole_discarding :: "instant \<Rightarrow> direction_engine \<Rightarrow> bool" where
  "blackhole_discarding now e =
     (case en_blackhole e of
        None \<Rightarrow> False
      | Some st \<Rightarrow> (case bh_deadline st of None \<Rightarrow> True | Some d \<Rightarrow> now < d))"

fun is_latency :: "fault_kind \<Rightarrow> bool" where
  "is_latency (Latency c) = True"
| "is_latency _ = False"

fun is_slice :: "fault_kind \<Rightarrow> bool" where
  "is_slice (Slice c) = True"
| "is_slice _ = False"

definition any_active :: "(fault_kind \<Rightarrow> bool) \<Rightarrow> direction_engine \<Rightarrow> bool" where
  "any_active P e = list_ex (\<lambda>(f, active, _). active \<and> P (fs_kind f)) (zip (plan_faults (en_plan e)) (en_rngs e))"

definition limit_available :: "direction_engine \<Rightarrow> nat" where
  "limit_available e = (case en_remaining_limit e of None \<Rightarrow> U64_MAX | Some (remaining, _) \<Rightarrow> remaining)"

definition loss_active :: "direction_engine \<Rightarrow> bool" where
  "loss_active e = list_ex (\<lambda>st. st \<noteq> None) (en_stream_loss e)"

definition accept_discarding :: "byte list \<Rightarrow> direction_engine \<Rightarrow> nat \<times> direction_engine" where
  "accept_discarding input e =
     (let cap = min (length input) (limit_available e)
      in if cap = 0 then (0, e)
         else (cap, spend_limit cap (activate 2 (count_segment (count_discarded cap (count_accepted cap e))))))"

definition accept_preserving :: "byte list \<Rightarrow> instant \<Rightarrow> direction_engine \<Rightarrow> nat \<times> direction_engine" where
  "accept_preserving input now e =
     (let cap = min (min (length input) (limit_available e)) (en_max_buffer e - en_buffered e)
      in if cap = 0 then (0, e)
         else
           let (n, _, _, e1) = push_preserve_run now (take cap input) e
           in if n = 0 then (0, e1)
              else
                let e2 = count_accepted n e1;
                    e3 = engage 0 [any_active is_latency e2, en_bandwidth e2 \<noteq> None, False,
                                   en_remaining_limit e2 \<noteq> None, False, any_active is_slice e2, False] e2
                in (n, spend_limit n e3))"

definition accept :: "byte list \<Rightarrow> instant \<Rightarrow> instant \<Rightarrow> instant \<Rightarrow> direction_engine \<Rightarrow> nat \<times> direction_engine" where
  "accept input t1 t2 t3 e0 =
     (let e = refresh_sync_terminations t1 e0
      in if input = [] then (0, e)
         else if limit_available e = 0 then
           (0, case (en_termination e, en_remaining_limit e) of
                 (None, Some (_, fid)) \<Rightarrow> request_termination Graceful fid 3 e
               | _ \<Rightarrow> e)
         else if blackhole_discarding t3 e then accept_discarding input e
         else if loss_active e then
           accept_with_stream_loss input (limit_available e) t2 e
         else accept_preserving input t2 e)"

section \<open>Vectored admission\<close>

fun kind_preserving :: "fault_kind \<Rightarrow> bool" where
  "kind_preserving (Blackhole c) = False"
| "kind_preserving (StreamLoss c) = False"
| "kind_preserving _ = True"

definition is_preserving_only :: "direction_engine \<Rightarrow> bool" where
  "is_preserving_only e = list_all (\<lambda>f. kind_preserving (fs_kind f)) (plan_faults (en_plan e))"

definition bounded_accept_capacity :: "direction_engine \<Rightarrow> nat" where
  "bounded_accept_capacity e = min (limit_available e) (en_max_buffer e - en_buffered e)"

fun take_prefix :: "nat \<Rightarrow> byte list list \<Rightarrow> byte list" where
  "take_prefix remaining [] = []"
| "take_prefix remaining (buf # bufs) =
     (if remaining = 0 then []
      else let n = min (length buf) remaining in take n buf @ take_prefix (remaining - n) bufs)"

definition accept_vectored ::
    "byte list list \<Rightarrow> instant \<Rightarrow> instant \<Rightarrow> instant \<Rightarrow> direction_engine \<Rightarrow> nat \<times> direction_engine" where
  "accept_vectored bufs t1 t2 t3 e =
     (let total = foldl sat_add64 0 (map length bufs)
      in if total = 0 then (0, refresh_sync_terminations t1 e)
         else if \<not> is_preserving_only e then accept (concat bufs) t1 t2 t3 e
         else
           let bounded = bounded_accept_capacity e
           in if bounded = 0 then accept [] t1 t2 t3 e
              else accept (take_prefix (min total bounded) bufs) t1 t2 t3 e)"

section \<open>What the segment loop keeps\<close>

text \<open>\<open>e'\<close> differs from \<open>e\<close> in the scheduling state and the queue only.\<close>

definition erase_push :: "direction_engine \<Rightarrow> direction_engine" where
  "erase_push e = e\<lparr>en_rngs := [], en_bandwidth := None, en_slice_cursor := 0, en_queue := [],
     en_buffered := 0, en_high_water := 0,
     en_evidence := (en_evidence e)\<lparr>ev_injected_delay_ms := 0, ev_throttled_delay_ms := 0,
       ev_segments := 0, ev_slices := 0\<rparr>\<rparr>"

definition push_frame :: "direction_engine \<Rightarrow> direction_engine \<Rightarrow> bool" where
  "push_frame e e' = (erase_push e' = erase_push e \<and> length (en_rngs e') = length (en_rngs e) \<and>
     map fst (en_rngs e') = map fst (en_rngs e) \<and> (en_bandwidth e' = None) = (en_bandwidth e = None) \<and>
     (bandwidth_ok (en_bandwidth e) \<longrightarrow> bandwidth_ok (en_bandwidth e')))"

lemma push_frame_refl [simp]: "push_frame e e"
  by (simp add: push_frame_def)

lemma push_frame_trans: "push_frame e e' \<Longrightarrow> push_frame e' e'' \<Longrightarrow> push_frame e e''"
  by (simp add: push_frame_def)

lemma push_frame_fields:
  assumes "push_frame e e'"
  shows
    "en_plan e' = en_plan e" "en_direction e' = en_direction e" "en_max_buffer e' = en_max_buffer e"
    "en_termination e' = en_termination e" "en_handle e' = en_handle e"
    "en_remaining_limit e' = en_remaining_limit e" "en_blackhole e' = en_blackhole e"
    "en_disconnect e' = en_disconnect e" "en_slicer_active e' = en_slicer_active e"
    "en_stream_loss e' = en_stream_loss e" "en_stream_loss_offset e' = en_stream_loss_offset e"
    "en_stream_loss_evaluated e' = en_stream_loss_evaluated e"
proof -
  have same: "erase_push e' = erase_push e" using assms by (simp add: push_frame_def)
  show
    "en_plan e' = en_plan e" "en_direction e' = en_direction e" "en_max_buffer e' = en_max_buffer e"
    "en_termination e' = en_termination e" "en_handle e' = en_handle e"
    "en_remaining_limit e' = en_remaining_limit e" "en_blackhole e' = en_blackhole e"
    "en_disconnect e' = en_disconnect e" "en_slicer_active e' = en_slicer_active e"
    "en_stream_loss e' = en_stream_loss e" "en_stream_loss_offset e' = en_stream_loss_offset e"
    "en_stream_loss_evaluated e' = en_stream_loss_evaluated e"
    using
      arg_cong [OF same, of en_plan] arg_cong [OF same, of en_direction]
      arg_cong [OF same, of en_max_buffer] arg_cong [OF same, of en_termination]
      arg_cong [OF same, of en_handle] arg_cong [OF same, of en_remaining_limit]
      arg_cong [OF same, of en_blackhole] arg_cong [OF same, of en_disconnect]
      arg_cong [OF same, of en_slicer_active] arg_cong [OF same, of en_stream_loss]
      arg_cong [OF same, of en_stream_loss_offset] arg_cong [OF same, of en_stream_loss_evaluated]
    unfolding erase_push_def by simp_all
qed

lemma push_frame_evidence:
  assumes "push_frame e e'"
  shows
    "ev_bytes_accepted (en_evidence e') = ev_bytes_accepted (en_evidence e)"
    "ev_bytes_forwarded (en_evidence e') = ev_bytes_forwarded (en_evidence e)"
    "ev_bytes_discarded (en_evidence e') = ev_bytes_discarded (en_evidence e)"
    "ev_activations (en_evidence e') = ev_activations (en_evidence e)"
    "ev_termination (en_evidence e') = ev_termination (en_evidence e)"
    "ev_sl_bytes_discarded (en_evidence e') = ev_sl_bytes_discarded (en_evidence e)"
proof -
  have same: "erase_push e' = erase_push e" using assms by (simp add: push_frame_def)
  show
    "ev_bytes_accepted (en_evidence e') = ev_bytes_accepted (en_evidence e)"
    "ev_bytes_forwarded (en_evidence e') = ev_bytes_forwarded (en_evidence e)"
    "ev_bytes_discarded (en_evidence e') = ev_bytes_discarded (en_evidence e)"
    "ev_activations (en_evidence e') = ev_activations (en_evidence e)"
    "ev_termination (en_evidence e') = ev_termination (en_evidence e)"
    "ev_sl_bytes_discarded (en_evidence e') = ev_sl_bytes_discarded (en_evidence e)"
    using
      arg_cong [OF same, of "\<lambda>x. ev_bytes_accepted (en_evidence x)"]
      arg_cong [OF same, of "\<lambda>x. ev_bytes_forwarded (en_evidence x)"]
      arg_cong [OF same, of "\<lambda>x. ev_bytes_discarded (en_evidence x)"]
      arg_cong [OF same, of "\<lambda>x. ev_activations (en_evidence x)"]
      arg_cong [OF same, of "\<lambda>x. ev_termination (en_evidence x)"]
      arg_cong [OF same, of "\<lambda>x. ev_sl_bytes_discarded (en_evidence x)"]
    unfolding erase_push_def by simp_all
qed

lemma push_frame_shape:
  assumes "push_frame e e'"
  shows "map fst (en_rngs e') = map fst (en_rngs e)" "length (en_rngs e') = length (en_rngs e)"
    "(en_bandwidth e' = None) = (en_bandwidth e = None)"
    "bandwidth_ok (en_bandwidth e) \<Longrightarrow> bandwidth_ok (en_bandwidth e')"
  using assms unfolding push_frame_def by blast+

lemma push_frame_invariants:
  assumes "push_frame e e'"
  shows "termination_ok e' = termination_ok e" "shape_ok e \<Longrightarrow> shape_ok e'"
  using push_frame_shape(4) [OF assms] unfolding termination_ok_def shape_ok_def
    push_frame_fields [OF assms] push_frame_evidence [OF assms] push_frame_shape(2) [OF assms]
  by simp_all

lemma limit_available_cong:
  "en_remaining_limit e' = en_remaining_limit e \<Longrightarrow> limit_available e' = limit_available e"
  by (simp add: limit_available_def)

lemma slice_sizes_rngs: "map fst (snd (slice_sizes fs rs sz)) = map fst rs"
proof (induction fs arbitrary: rs sz)
  case (Cons f fs)
  then show ?case by (cases rs) (auto simp: split_def Let_def)
qed simp

lemma stage_loop_rngs: "map fst (fst (stage_loop fs rs st)) = map fst rs"
proof (induction fs arbitrary: rs st)
  case (Cons f fs)
  then show ?case by (cases rs) (auto simp: split_def Let_def)
qed simp

lemma map_fst_length: "map fst xs = map fst ys \<Longrightarrow> length xs = length ys"
  using map_eq_imp_length_eq by blast

lemma segment_size_frame: "push_frame e (snd (segment_size n e))"
  by (simp add: segment_size_def next_slice_size_def push_frame_def erase_push_def split_def Let_def
      slice_sizes_rngs map_fst_length [OF slice_sizes_rngs])

lemma segment_size_kept [simp]:
  "en_queue (snd (segment_size n e)) = en_queue e" "en_buffered (snd (segment_size n e)) = en_buffered e"
  "en_max_buffer (snd (segment_size n e)) = en_max_buffer e"
  "en_high_water (snd (segment_size n e)) = en_high_water e"
  by (simp_all add: segment_size_def next_slice_size_def split_def Let_def)

lemma segment_size_bounds: "0 < n \<Longrightarrow> 0 < fst (segment_size n e) \<and> fst (segment_size n e) \<le> n"
  by (simp add: segment_size_def split_def Let_def)

lemma bandwidth_stage_bucket:
  "(snd (snd (bandwidth_stage len now r b)) = None) = (b = None)"
  "bandwidth_ok b \<Longrightarrow> bandwidth_ok (snd (snd (bandwidth_stage len now r b)))"
  by (cases b; simp add: split_def Let_def bucket_consume_ok)+

lemma push_segment_frame: "push_frame e (snd (snd (push_segment now bytes e)))"
  unfolding push_segment_def push_frame_def erase_push_def split_def Let_def
  by (simp add: stage_loop_rngs map_fst_length [OF stage_loop_rngs] bandwidth_stage_bucket)

lemma push_segment_queue:
  "queue_bytes (snd (snd (push_segment now bytes e))) = queue_bytes e @ bytes"
  "en_buffered (snd (snd (push_segment now bytes e))) = en_buffered e + length bytes"
  "bytes \<noteq> [] \<Longrightarrow> queue_ok e \<Longrightarrow> en_buffered e + length bytes \<le> en_max_buffer e \<Longrightarrow>
     queue_ok (snd (snd (push_segment now bytes e)))"
  by (auto simp: push_segment_def queue_bytes_def queue_ok_def split_def Let_def)

text \<open>Case analysis of one iteration of the segment loop.\<close>

lemma push_run_step:
  assumes "data \<noteq> []"
  obtains (full) c e1 where "segment_size (length data) e = (c, e1)" "push_frame e e1"
      "queue_bytes e1 = queue_bytes e" "en_buffered e1 = en_buffered e" "queue_ok e \<Longrightarrow> queue_ok e1"
      "0 < c" "c \<le> length data" "en_max_buffer e < en_buffered e + c"
      "push_preserve_run now data e = (0, False, False, e1)"
  | (push) c e1 la sl e2 where "segment_size (length data) e = (c, e1)"
      "push_segment now (take c data) e1 = (la, sl, e2)" "push_frame e e2"
      "queue_bytes e2 = queue_bytes e @ take c data" "en_buffered e2 = en_buffered e + c"
      "queue_ok e \<Longrightarrow> queue_ok e2" "0 < c" "c \<le> length data" "en_buffered e + c \<le> en_max_buffer e"
      "push_preserve_run now data e =
         (let (n, la', sl', e3) = push_preserve_run now (drop c data) e2 in (c + n, la \<or> la', sl \<or> sl', e3))"
proof -
  obtain c e1 where size: "segment_size (length data) e = (c, e1)" by fastforce
  obtain la sl e2 where seg: "push_segment now (take c data) e1 = (la, sl, e2)" by (metis prod_cases3)
  have bounds: "0 < c" "c \<le> length data"
    using segment_size_bounds [of "length data" e] assms size by simp_all
  have e1: "push_frame e e1" "en_queue e1 = en_queue e" "en_buffered e1 = en_buffered e"
    "en_max_buffer e1 = en_max_buffer e" "en_high_water e1 = en_high_water e"
    using segment_size_frame [of e "length data"] segment_size_kept [of "length data" e] size by simp_all
  then have q1: "queue_bytes e1 = queue_bytes e" "queue_ok e1 = queue_ok e"
    by (simp_all add: queue_bytes_def queue_ok_def)
  have e2: "push_frame e1 e2" "queue_bytes e2 = queue_bytes e1 @ take c data"
    "en_buffered e2 = en_buffered e1 + c"
    using push_segment_frame [of e1 now "take c data"] push_segment_queue(1,2) [of now "take c data" e1] seg bounds
    by simp_all
  have unfold: "push_preserve_run now data e =
     (if en_max_buffer e1 < en_buffered e1 + c then (0, False, False, e1)
      else (let (n, la', sl', e3) = push_preserve_run now (drop c data) e2 in (c + n, la \<or> la', sl \<or> sl', e3)))"
    using assms size seg by (cases data) (simp_all add: Let_def)
  show thesis
  proof (cases "en_max_buffer e < en_buffered e + c")
    case True
    then show thesis using full [OF size] e1 q1 bounds unfold by simp
  next
    case False
    have "queue_ok e2" if "queue_ok e"
      using push_segment_queue(3) [where bytes = "take c data" and e = e1 and now = now] seg bounds assms q1(2) that e1 False by simp
    then show thesis
      using push [OF size seg] e1 q1 e2 bounds False unfold push_frame_trans [OF e1(1) e2(1)] by simp
  qed
qed

lemma push_preserve_run_keeps:
  assumes "push_preserve_run now data e = (n, la, sl, e')"
  shows "n \<le> length data \<and> push_frame e e' \<and> queue_bytes e' = queue_bytes e @ take n data \<and>
    en_buffered e' = en_buffered e + n \<and> (queue_ok e \<longrightarrow> queue_ok e')"
  using assms
proof (induction data arbitrary: e n la sl e' rule: length_induct)
  case (1 data)
  show ?case
  proof (cases "data = []")
    case False
    then show ?thesis
    proof (cases rule: push_run_step [where e = e and now = now])
      case (full c e1)
      then show ?thesis using "1.prems" by simp
    next
      case (push c e1 la1 sl1 e2)
      obtain m la2 sl2 e3 where rest: "push_preserve_run now (drop c data) e2 = (m, la2, sl2, e3)"
        by (metis prod_cases4)
      have "length (drop c data) < length data" using push(7,8) by simp
      from "1.IH" [rule_format, OF this rest] have IH:
        "m \<le> length (drop c data)" "push_frame e2 e3" "queue_bytes e3 = queue_bytes e2 @ take m (drop c data)"
        "en_buffered e3 = en_buffered e2 + m" "queue_ok e2 \<longrightarrow> queue_ok e3" by simp_all
      have out: "n = c + m" "e' = e3" using "1.prems" push(10) rest by simp_all
      show ?thesis
        using IH push(4,5,6,7,8) out push_frame_trans [OF push(3) IH(2)] by (simp add: take_add)
    qed
  qed (use "1.prems" in simp)
qed

lemma push_preserve_run_fits:
  assumes "push_preserve_run now data e = (n, la, sl, e')" "en_buffered e + length data \<le> en_max_buffer e"
  shows "n = length data"
  using assms
proof (induction data arbitrary: e n la sl e' rule: length_induct)
  case (1 data)
  show ?case
  proof (cases "data = []")
    case False
    then show ?thesis
    proof (cases rule: push_run_step [where e = e and now = now])
      case (full c e1)
      then show ?thesis using "1.prems"(2) by simp
    next
      case (push c e1 la1 sl1 e2)
      obtain m la2 sl2 e3 where rest: "push_preserve_run now (drop c data) e2 = (m, la2, sl2, e3)"
        by (metis prod_cases4)
      have "length (drop c data) < length data" using push(7,8) by simp
      moreover have "en_buffered e2 + length (drop c data) \<le> en_max_buffer e2"
        using push(5,8) "1.prems"(2) push_frame_fields(3) [OF push(3)] by simp
      ultimately have "m = length (drop c data)" using "1.IH" rest by blast
      then show ?thesis using "1.prems"(1) push(8,10) rest by simp
    qed
  qed (use "1.prems" in simp)
qed

section \<open>Stream-loss decisions depend on the absolute chunk only\<close>

text \<open>
  The reference decision for a logical chunk: each active stream-loss fault draws once per chunk from
  its initial state, in chunk order, and the chunk is dropped when any of them selects it.
\<close>

fun fault_drops :: "fault_kind \<Rightarrow> stream_loss_state option \<Rightarrow> nat \<Rightarrow> bool" where
  "fault_drops (StreamLoss c) (Some st) chunk = fst (loss_draws (Suc chunk) c False st)"
| "fault_drops _ _ chunk = False"

fun chunk_dropped :: "fault_spec list \<Rightarrow> stream_loss_state option list \<Rightarrow> nat \<Rightarrow> bool" where
  "chunk_dropped (f # fs) (st # sts) chunk = (fault_drops (fs_kind f) st chunk \<or> chunk_dropped fs sts chunk)"
| "chunk_dropped _ _ chunk = False"

text \<open>The bytes of \<open>data\<close>, starting at absolute offset \<open>off\<close>, whose chunk is not dropped.\<close>

fun survivors :: "(nat \<Rightarrow> bool) \<Rightarrow> nat \<Rightarrow> byte list \<Rightarrow> byte list" where
  "survivors P off [] = []"
| "survivors P off (b # bs) =
     (if P (off div STREAM_LOSS_GRAIN_BYTES) then survivors P (Suc off) bs else b # survivors P (Suc off) bs)"

lemma survivors_append: "survivors P off (xs @ ys) = survivors P off xs @ survivors P (off + length xs) ys"
  by (induction xs arbitrary: off) simp_all

lemma survivors_none: "survivors (\<lambda>_. False) off bs = bs"
  by (induction bs arbitrary: off) simp_all

lemma survivors_chunk:
  assumes "chunk = off div STREAM_LOSS_GRAIN_BYTES"
    and "off + length bs \<le> (chunk + 1) * STREAM_LOSS_GRAIN_BYTES"
  shows "survivors P off bs = (if P chunk then [] else bs)"
  using assms
proof (induction bs arbitrary: off)
  case (Cons b bs)
  have pos: "0 < STREAM_LOSS_GRAIN_BYTES" by (simp add: STREAM_LOSS_GRAIN_BYTES_def)
  have "chunk = Suc off div STREAM_LOSS_GRAIN_BYTES \<or> bs = []"
  proof (cases bs)
    case (Cons b' bs')
    with \<open>off + length (b # bs) \<le> _\<close> have "Suc off < (chunk + 1) * STREAM_LOSS_GRAIN_BYTES" by simp
    moreover have "chunk * STREAM_LOSS_GRAIN_BYTES \<le> off" using Cons.prems(1) by simp
    ultimately show ?thesis
      using pos by (intro disjI1 div_nat_eqI [symmetric]) (simp_all add: algebra_simps)
  qed simp
  then show ?case using Cons by auto
qed simp

definition decided_state :: "stream_loss_config \<Rightarrow> stream_loss_state \<Rightarrow> nat \<Rightarrow> stream_loss_state" where
  "decided_state c st0 d =
     (let (hit, st) = loss_draws (Suc d) c False st0 in st\<lparr>sl_decided := Some (d, hit)\<rparr>)"

lemma loss_draws_add:
  "loss_draws (m + n) c x st = (let (h, st') = loss_draws m c x st in loss_draws n c h st')"
  by (induction m arbitrary: x st) (simp_all add: split_def Let_def)

lemma loss_draws_decided:
  "loss_draws n c x (st\<lparr>sl_decided := v\<rparr>) =
     (fst (loss_draws n c x st), (snd (loss_draws n c x st))\<lparr>sl_decided := v\<rparr>)"
proof (induction n arbitrary: x st)
  case (Suc n)
  obtain hit rng where draw: "bernoulli (loss_probability c (sl_prev_dropped st)) (sl_rng st) = (hit, rng)"
    by fastforce
  then show ?case
    using Suc [of hit "st\<lparr>sl_rng := rng, sl_prev_dropped := hit\<rparr>"] by (cases st) simp
qed simp

lemma decide_fault_chunk_first:
  assumes "sl_decided st = None"
  shows "decide_fault_chunk k c st = (fst (loss_draws (Suc k) c False st), decided_state c st k)"
  using assms by (simp add: decide_fault_chunk_def decided_state_def split_def Let_def)

lemma decide_fault_chunk_next:
  assumes "d \<le> k" "k < U64_MAX"
  shows "decide_fault_chunk k c (decided_state c st d) = (fst (loss_draws (Suc k) c False st), decided_state c st k)"
proof -
  obtain h st1 where first: "loss_draws (Suc d) c False st = (h, st1)" by fastforce
  then have dec: "decided_state c st d = st1\<lparr>sl_decided := Some (d, h)\<rparr>" by (simp add: decided_state_def)
  show ?thesis
  proof (cases "d = k")
    case True
    with first dec show ?thesis by (simp add: decide_fault_chunk_def)
  next
    case False
    with assms have lt: "d < k" by simp
    obtain h2 st2 where rest: "loss_draws (k - d) c h st1 = (h2, st2)" by fastforce
    have "Suc k = Suc d + (k - d)" using lt by simp
    then have all: "loss_draws (Suc k) c False st = (h2, st2)"
      using loss_draws_add [of "Suc d" "k - d" c False st] first rest by (simp del: loss_draws.simps)
    have "sat_add64 d 1 = Suc d" using lt assms(2) by (simp add: sat_add64_def)
    then have "decide_fault_chunk k c (decided_state c st d) = (h2, st2\<lparr>sl_decided := Some (k, h2)\<rparr>)"
      using lt rest unfolding dec decide_fault_chunk_def
      by (simp add: loss_draws_decided del: loss_draws.simps)
    then show ?thesis by (simp add: all decided_state_def del: loss_draws.simps)
  qed
qed

text \<open>A fault's state is its initial state, or that state after the draws for the chunks up to \<open>d \<le> k\<close>.\<close>

fun conn_rel :: "nat \<Rightarrow> fault_kind \<Rightarrow> stream_loss_state option \<Rightarrow> stream_loss_state option \<Rightarrow> bool" where
  "conn_rel k (StreamLoss c) (Some st0) (Some st) =
     (sl_decided st0 = None \<and> (st = st0 \<or> (\<exists>d \<le> k. st = decided_state c st0 d)))"
| "conn_rel k kind st0 st = (st = st0)"

fun loss_rel :: "nat \<Rightarrow> fault_spec list \<Rightarrow> stream_loss_state option list \<Rightarrow> stream_loss_state option list \<Rightarrow> bool" where
  "loss_rel k (f # fs) (st0 # sts0) (st # sts) = (conn_rel k (fs_kind f) st0 st \<and> loss_rel k fs sts0 sts)"
| "loss_rel k [] sts0 sts = (sts0 = sts)"
| "loss_rel k fs sts0 sts = False"

lemma conn_rel_mono: "conn_rel k kind st0 st \<Longrightarrow> k \<le> k' \<Longrightarrow> conn_rel k' kind st0 st"
  by (cases "(k, kind, st0, st)" rule: conn_rel.cases) (auto intro: order_trans)

lemma loss_rel_mono: "loss_rel k fs sts0 sts \<Longrightarrow> k \<le> k' \<Longrightarrow> loss_rel k' fs sts0 sts"
  by (induction k fs sts0 sts rule: loss_rel.induct) (auto intro: conn_rel_mono)

lemma decide_faults_reference:
  assumes "loss_rel k fs sts0 sts" "k < U64_MAX"
  shows "fst (decide_faults k fs sts) = chunk_dropped fs sts0 k \<and>
    loss_rel k fs sts0 (snd (decide_faults k fs sts)) \<and> length (snd (decide_faults k fs sts)) = length sts"
  using assms
proof (induction k fs sts0 sts rule: loss_rel.induct)
  case (1 k f fs st0 sts0 st sts)
  then have IH: "fst (decide_faults k fs sts) = chunk_dropped fs sts0 k"
    "loss_rel k fs sts0 (snd (decide_faults k fs sts))"
    "length (snd (decide_faults k fs sts)) = length sts" by simp_all
  have rel: "conn_rel k (fs_kind f) st0 st" using "1.prems" by simp
  show ?case
  proof (cases "\<exists>c s0 s. fs_kind f = StreamLoss c \<and> st0 = Some s0 \<and> st = Some s")
    case True
    then obtain c s0 s where ks: "fs_kind f = StreamLoss c" "st0 = Some s0" "st = Some s" by blast
    have "decide_fault_chunk k c s = (fst (loss_draws (Suc k) c False s0), decided_state c s0 k)"
      using rel ks decide_fault_chunk_first decide_fault_chunk_next "1.prems"(2) by auto
    then show ?thesis using IH ks rel by (auto simp: split_def Let_def simp del: loss_draws.simps)
  next
    case False
    then have same: "st = st0" and none: "\<not> (\<exists>c s. fs_kind f = StreamLoss c \<and> st0 = Some s)"
      using rel by (cases "(k, fs_kind f, st0, st)" rule: conn_rel.cases; auto)+
    then show ?thesis
      using IH rel by (cases "fs_kind f"; cases st0) (auto simp: split_def Let_def)
  qed
qed simp_all

subsection \<open>The classification loop\<close>

definition erase_loss :: "direction_engine \<Rightarrow> direction_engine" where
  "erase_loss e = (erase_push e)\<lparr>en_stream_loss := [], en_stream_loss_offset := 0, en_stream_loss_evaluated := 0,
     en_evidence := (en_evidence (erase_push e))\<lparr>ev_sl_chunks_evaluated := 0, ev_sl_chunks_dropped := 0\<rparr>\<rparr>"

definition loss_frame :: "direction_engine \<Rightarrow> direction_engine \<Rightarrow> bool" where
  "loss_frame e e' = (erase_loss e' = erase_loss e \<and> map fst (en_rngs e') = map fst (en_rngs e) \<and>
     length (en_rngs e') = length (en_rngs e) \<and>
     length (en_stream_loss e') = length (en_stream_loss e) \<and> (en_bandwidth e' = None) = (en_bandwidth e = None) \<and>
     (bandwidth_ok (en_bandwidth e) \<longrightarrow> bandwidth_ok (en_bandwidth e')))"

lemma loss_frame_trans: "loss_frame e e' \<Longrightarrow> loss_frame e' e'' \<Longrightarrow> loss_frame e e''"
  by (simp add: loss_frame_def)

lemma loss_frame_refl [simp]: "loss_frame e e"
  by (simp add: loss_frame_def)

lemma push_frame_loss_frame: "push_frame e e' \<Longrightarrow> loss_frame e e'"
  using push_frame_fields(10) [of e e'] by (simp add: push_frame_def loss_frame_def erase_loss_def)

lemma loss_frame_fields:
  assumes "loss_frame e e'"
  shows
    "en_plan e' = en_plan e" "en_direction e' = en_direction e" "en_max_buffer e' = en_max_buffer e"
    "en_termination e' = en_termination e" "en_handle e' = en_handle e"
    "en_remaining_limit e' = en_remaining_limit e" "en_blackhole e' = en_blackhole e"
    "en_disconnect e' = en_disconnect e" "en_slicer_active e' = en_slicer_active e"
    "en_queue_timer e' = en_queue_timer e" "en_term_timer e' = en_term_timer e"
    "en_shutdown_timer e' = en_shutdown_timer e"
proof -
  have same: "erase_loss e' = erase_loss e" using assms by (simp add: loss_frame_def)
  show
    "en_plan e' = en_plan e" "en_direction e' = en_direction e" "en_max_buffer e' = en_max_buffer e"
    "en_termination e' = en_termination e" "en_handle e' = en_handle e"
    "en_remaining_limit e' = en_remaining_limit e" "en_blackhole e' = en_blackhole e"
    "en_disconnect e' = en_disconnect e" "en_slicer_active e' = en_slicer_active e"
    "en_queue_timer e' = en_queue_timer e" "en_term_timer e' = en_term_timer e"
    "en_shutdown_timer e' = en_shutdown_timer e"
    using
      arg_cong [OF same, of en_plan] arg_cong [OF same, of en_direction]
      arg_cong [OF same, of en_max_buffer] arg_cong [OF same, of en_termination]
      arg_cong [OF same, of en_handle] arg_cong [OF same, of en_remaining_limit]
      arg_cong [OF same, of en_blackhole] arg_cong [OF same, of en_disconnect]
      arg_cong [OF same, of en_slicer_active] arg_cong [OF same, of en_queue_timer]
      arg_cong [OF same, of en_term_timer] arg_cong [OF same, of en_shutdown_timer]
    unfolding erase_loss_def erase_push_def by simp_all
qed

lemma loss_frame_evidence:
  assumes "loss_frame e e'"
  shows
    "ev_bytes_accepted (en_evidence e') = ev_bytes_accepted (en_evidence e)"
    "ev_bytes_forwarded (en_evidence e') = ev_bytes_forwarded (en_evidence e)"
    "ev_bytes_discarded (en_evidence e') = ev_bytes_discarded (en_evidence e)"
    "ev_activations (en_evidence e') = ev_activations (en_evidence e)"
    "ev_termination (en_evidence e') = ev_termination (en_evidence e)"
    "ev_sl_bytes_discarded (en_evidence e') = ev_sl_bytes_discarded (en_evidence e)"
proof -
  have same: "erase_loss e' = erase_loss e" using assms by (simp add: loss_frame_def)
  show
    "ev_bytes_accepted (en_evidence e') = ev_bytes_accepted (en_evidence e)"
    "ev_bytes_forwarded (en_evidence e') = ev_bytes_forwarded (en_evidence e)"
    "ev_bytes_discarded (en_evidence e') = ev_bytes_discarded (en_evidence e)"
    "ev_activations (en_evidence e') = ev_activations (en_evidence e)"
    "ev_termination (en_evidence e') = ev_termination (en_evidence e)"
    "ev_sl_bytes_discarded (en_evidence e') = ev_sl_bytes_discarded (en_evidence e)"
    using
      arg_cong [OF same, of "\<lambda>x. ev_bytes_accepted (en_evidence x)"]
      arg_cong [OF same, of "\<lambda>x. ev_bytes_forwarded (en_evidence x)"]
      arg_cong [OF same, of "\<lambda>x. ev_bytes_discarded (en_evidence x)"]
      arg_cong [OF same, of "\<lambda>x. ev_activations (en_evidence x)"]
      arg_cong [OF same, of "\<lambda>x. ev_termination (en_evidence x)"]
      arg_cong [OF same, of "\<lambda>x. ev_sl_bytes_discarded (en_evidence x)"]
    unfolding erase_loss_def erase_push_def by simp_all
qed

lemma loss_frame_shape:
  assumes "loss_frame e e'"
  shows "map fst (en_rngs e') = map fst (en_rngs e)" "length (en_rngs e') = length (en_rngs e)"
    "length (en_stream_loss e') = length (en_stream_loss e)" "(en_bandwidth e' = None) = (en_bandwidth e = None)"
    "bandwidth_ok (en_bandwidth e) \<Longrightarrow> bandwidth_ok (en_bandwidth e')"
  using assms unfolding loss_frame_def by blast+

lemma loss_frame_invariants:
  assumes "loss_frame e e'"
  shows "termination_ok e' = termination_ok e" "shape_ok e \<Longrightarrow> shape_ok e'"
  using loss_frame_shape(5) [OF assms] unfolding termination_ok_def shape_ok_def
    loss_frame_fields [OF assms] loss_frame_evidence [OF assms] loss_frame_shape(2,3) [OF assms]
  by simp_all

text \<open>The stream-loss part of an engine, relative to its initial states \<open>sts0\<close>.\<close>

definition loss_inv :: "stream_loss_state option list \<Rightarrow> direction_engine \<Rightarrow> bool" where
  "loss_inv sts0 e = (en_stream_loss_offset e \<le> U64_MAX \<and>
     loss_rel (en_stream_loss_offset e div STREAM_LOSS_GRAIN_BYTES) (plan_faults (en_plan e)) sts0 (en_stream_loss e))"

abbreviation dropped :: "stream_loss_state option list \<Rightarrow> direction_engine \<Rightarrow> nat \<Rightarrow> bool" where
  "dropped sts0 e \<equiv> chunk_dropped (plan_faults (en_plan e)) sts0"

lemma grain_pos: "1 < STREAM_LOSS_GRAIN_BYTES"
  by (simp add: STREAM_LOSS_GRAIN_BYTES_def)

lemma chunk_end_bounds:
  "chunk_end c \<le> U64_MAX" "chunk_end c \<le> (c + 1) * STREAM_LOSS_GRAIN_BYTES \<or> U64_MAX \<le> c"
  by (auto simp: chunk_end_def checked_add64_def checked_mul64_def)

lemma chunk_less: "off \<le> U64_MAX \<Longrightarrow> off div STREAM_LOSS_GRAIN_BYTES < U64_MAX"
proof -
  assume "off \<le> U64_MAX"
  then have "off div STREAM_LOSS_GRAIN_BYTES \<le> U64_MAX div STREAM_LOSS_GRAIN_BYTES" by (rule div_le_mono)
  also have "\<dots> < U64_MAX" using grain_pos by (intro div_less_dividend) (simp_all add: U64_MAX_def)
  finally show ?thesis .
qed

lemma chunk_run:
  assumes "off \<le> U64_MAX" "run \<le> chunk_end (off div STREAM_LOSS_GRAIN_BYTES) - off" "run \<noteq> 0"
  shows "off + run \<le> U64_MAX" "off + run \<le> (off div STREAM_LOSS_GRAIN_BYTES + 1) * STREAM_LOSS_GRAIN_BYTES"
proof -
  have "off + run \<le> chunk_end (off div STREAM_LOSS_GRAIN_BYTES)" using assms(2,3) by linarith
  with chunk_end_bounds [of "off div STREAM_LOSS_GRAIN_BYTES"] chunk_less [OF assms(1)]
  show "off + run \<le> U64_MAX" "off + run \<le> (off div STREAM_LOSS_GRAIN_BYTES + 1) * STREAM_LOSS_GRAIN_BYTES"
    by (meson leD order_trans)+
qed

lemma decide_chunk:
  assumes "loss_inv sts0 e" "decide_stream_loss_chunk (en_stream_loss_offset e div STREAM_LOSS_GRAIN_BYTES) e = (hit, e1)"
  shows "hit = dropped sts0 e (en_stream_loss_offset e div STREAM_LOSS_GRAIN_BYTES)" "loss_inv sts0 e1" "loss_frame e e1"
    "en_stream_loss_offset e1 = en_stream_loss_offset e" "en_queue e1 = en_queue e"
    "en_buffered e1 = en_buffered e" "en_high_water e1 = en_high_water e"
proof -
  let ?k = "en_stream_loss_offset e div STREAM_LOSS_GRAIN_BYTES"
  obtain h sts where d: "decide_faults ?k (plan_faults (en_plan e)) (en_stream_loss e) = (h, sts)" by fastforce
  have ref: "h = dropped sts0 e ?k" "loss_rel ?k (plan_faults (en_plan e)) sts0 sts"
    "length sts = length (en_stream_loss e)"
    using decide_faults_reference [of ?k "plan_faults (en_plan e)" sts0 "en_stream_loss e"] chunk_less assms(1) d
    unfolding loss_inv_def by simp_all
  have "hit = h" using assms(2) unfolding decide_stream_loss_chunk_def d Let_def by simp
  with ref(1) show "hit = dropped sts0 e ?k" by simp
  have e1: "e1 = snd (decide_stream_loss_chunk ?k e)" using assms(2) by simp
  show "loss_inv sts0 e1" "loss_frame e e1"
    "en_stream_loss_offset e1 = en_stream_loss_offset e" "en_queue e1 = en_queue e"
    "en_buffered e1 = en_buffered e" "en_high_water e1 = en_high_water e"
    using assms(1) ref(2,3)
    unfolding e1 loss_inv_def loss_frame_def erase_loss_def erase_push_def decide_stream_loss_chunk_def d
      Let_def prod.case snd_conv by (simp_all, metis)
qed

lemma advance_offset_fields:
  "loss_frame e (advance_offset n e)" "loss_frame e (count_segment e)"
  "en_queue (advance_offset n e) = en_queue e" "en_queue (count_segment e) = en_queue e"
  "queue_ok (advance_offset n e) = queue_ok e" "queue_ok (count_segment e) = queue_ok e"
  "en_buffered (advance_offset n e) = en_buffered e" "en_buffered (count_segment e) = en_buffered e"
  "loss_inv sts0 (count_segment e) = loss_inv sts0 e"
  "en_stream_loss_offset (count_segment e) = en_stream_loss_offset e"
  "en_stream_loss_offset (advance_offset n e) = sat_add64 (en_stream_loss_offset e) n"
  by (simp_all add: advance_offset_def count_segment_def loss_frame_def erase_loss_def erase_push_def
      queue_ok_def queue_bytes_def loss_inv_def)

lemma loss_inv_advance: "loss_inv sts0 e \<Longrightarrow> en_stream_loss_offset e + n \<le> U64_MAX \<Longrightarrow> loss_inv sts0 (advance_offset n e)"
  by (simp add: loss_inv_def advance_offset_def sat_simps) (erule loss_rel_mono, simp add: div_le_mono)

lemma loss_inv_push: "push_frame e e' \<Longrightarrow> loss_inv sts0 e' = loss_inv sts0 e"
  by (simp add: loss_inv_def push_frame_fields)

text \<open>What a run of the loop over \<open>n\<close> bytes achieves; \<open>kept\<close> are the bytes it queues.\<close>

definition loss_result ::
    "stream_loss_state option list \<Rightarrow> nat \<Rightarrow> byte list \<Rightarrow> direction_engine \<Rightarrow> loss_totals \<Rightarrow> loss_totals \<Rightarrow>
     direction_engine \<Rightarrow> bool" where
  "loss_result sts0 n kept e tot tot' e' =
     (lt_offset tot' = lt_offset tot + n \<and> length kept \<le> n \<and>
      lt_preserved tot' = lt_preserved tot + length kept \<and>
      lt_discarded tot' = lt_discarded tot + (n - length kept) \<and>
      queue_bytes e' = queue_bytes e @ kept \<and> en_buffered e' = en_buffered e + length kept \<and>
      en_stream_loss_offset e' = en_stream_loss_offset e + n \<and>
      loss_frame e e' \<and> loss_inv sts0 e' \<and> (queue_ok e \<longrightarrow> queue_ok e'))"

lemma loss_result_nothing:
  assumes "loss_inv sts0 e" "loss_frame e e'" "loss_inv sts0 e'" "en_queue e' = en_queue e"
    "en_stream_loss_offset e' = en_stream_loss_offset e" "en_buffered e' = en_buffered e"
    "en_high_water e' = en_high_water e"
  shows "loss_result sts0 0 [] e tot tot e'"
  using assms loss_frame_fields(3) [OF assms(2)]
  by (simp add: loss_result_def queue_bytes_def queue_ok_def)

lemma loss_result_trans:
  assumes "loss_result sts0 n kept e tot tot1 e1" "loss_result sts0 m kept' e1 tot1 tot2 e2"
  shows "loss_result sts0 (n + m) (kept @ kept') e tot tot2 e2"
  using assms loss_frame_trans [of e e1 e2] by (simp add: loss_result_def)

text \<open>One iteration: the run of the current chunk is dropped, or (a prefix of it) queued.\<close>

lemma loss_drop_result:
  assumes inv: "loss_inv sts0 e" and dec: "decide_stream_loss_chunk (en_stream_loss_offset e div STREAM_LOSS_GRAIN_BYTES) e = (hit, e1)"
    and run: "run \<le> chunk_end (en_stream_loss_offset e div STREAM_LOSS_GRAIN_BYTES) - en_stream_loss_offset e" "run \<noteq> 0"
    and disc: "lt_discarded tot \<le> en_stream_loss_offset e"
  shows "loss_result sts0 run [] e tot
      (tot\<lparr>lt_offset := lt_offset tot + run, lt_discarded := sat_add64 (lt_discarded tot) run\<rparr>)
      (count_segment (advance_offset run e1))"
proof -
  have le: "en_stream_loss_offset e + run \<le> U64_MAX" using chunk_run inv run by (simp add: loss_inv_def)
  note d = decide_chunk [OF inv dec]
  have "queue_ok e \<longrightarrow> queue_ok e1"
    using d loss_frame_fields(3) [OF d(3)] by (simp add: queue_ok_def queue_bytes_def)
  moreover have "loss_frame e (count_segment (advance_offset run e1))"
    using d(3) by (meson advance_offset_fields(1,2) loss_frame_trans)
  ultimately show ?thesis
    using le disc d loss_inv_advance [OF d(2)]
    by (simp add: loss_result_def advance_offset_fields sat_simps queue_bytes_def)
qed

lemma loss_keep_result:
  assumes inv: "loss_inv sts0 e" and dec: "decide_stream_loss_chunk (en_stream_loss_offset e div STREAM_LOSS_GRAIN_BYTES) e = (hit, e1)"
    and run: "run \<le> chunk_end (en_stream_loss_offset e div STREAM_LOSS_GRAIN_BYTES) - en_stream_loss_offset e" "run \<noteq> 0"
    and push: "push_preserve_run now data e1 = (owned, la, sl, e2)" "length data \<le> run"
  shows "loss_result sts0 owned (take owned data) e tot
      (tot\<lparr>lt_offset := lt_offset tot + owned, lt_preserved := lt_preserved tot + owned,
           lt_latency := l, lt_slice := s\<rparr>)
      (advance_offset owned e2)"
proof -
  note d = decide_chunk [OF inv dec]
  have p: "owned \<le> length data" "push_frame e1 e2" "queue_bytes e2 = queue_bytes e1 @ take owned data"
    "en_buffered e2 = en_buffered e1 + owned" "queue_ok e1 \<longrightarrow> queue_ok e2"
    using push_preserve_run_keeps [OF push(1)] by blast+
  have "en_stream_loss_offset e + run \<le> U64_MAX" using chunk_run inv run by (simp add: loss_inv_def)
  then have le: "en_stream_loss_offset e + owned \<le> U64_MAX" using p(1) push(2) by linarith
  have off: "en_stream_loss_offset e2 = en_stream_loss_offset e" using push_frame_fields(11) [OF p(2)] d(4) by simp
  have "queue_ok e \<longrightarrow> queue_ok e1" using d loss_frame_fields(3) [OF d(3)] by (simp add: queue_ok_def queue_bytes_def)
  moreover have "loss_frame e (advance_offset owned e2)"
    using d(3) p(2) by (meson advance_offset_fields(1) loss_frame_trans push_frame_loss_frame)
  moreover have "loss_inv sts0 (advance_offset owned e2)"
    using d(2) le by (intro loss_inv_advance) (simp_all add: loss_inv_push [OF p(2)] off)
  moreover have "queue_bytes e1 = queue_bytes e" using d(5) by (simp add: queue_bytes_def)
  moreover have "queue_bytes (advance_offset owned e2) = queue_bytes e2"
    by (simp add: queue_bytes_def advance_offset_fields)
  ultimately show ?thesis
    using p d(6) le off by (simp add: loss_result_def advance_offset_fields sat_simps)
qed

text \<open>The equations of one iteration.\<close>

lemma loss_loop_eqs:
  fixes e data
  defines "off \<equiv> en_stream_loss_offset e"
  defines "chunk \<equiv> off div STREAM_LOSS_GRAIN_BYTES"
  defines "run \<equiv> min (chunk_end chunk - off) (length data)"
  assumes "data \<noteq> []"
  shows "run = 0 \<Longrightarrow> loss_loop now data e tot = (tot, e)"
    "run \<noteq> 0 \<Longrightarrow> decide_stream_loss_chunk chunk e = (True, ea) \<Longrightarrow>
       loss_loop now data e tot = loss_loop now (drop run data) (count_segment (advance_offset run ea))
         (tot\<lparr>lt_offset := lt_offset tot + run, lt_discarded := sat_add64 (lt_discarded tot) run\<rparr>)"
    "run \<noteq> 0 \<Longrightarrow> decide_stream_loss_chunk chunk e = (False, ea) \<Longrightarrow>
       min run (en_max_buffer ea - en_buffered ea) = 0 \<Longrightarrow> loss_loop now data e tot = (tot, ea)"
    "run \<noteq> 0 \<Longrightarrow> decide_stream_loss_chunk chunk e = (False, ea) \<Longrightarrow>
       runa = min run (en_max_buffer ea - en_buffered ea) \<Longrightarrow> runa \<noteq> 0 \<Longrightarrow>
       push_preserve_run now (take runa data) ea = (owned, la, sl, eb) \<Longrightarrow>
       tota = tot\<lparr>lt_offset := lt_offset tot + owned, lt_preserved := lt_preserved tot + owned,
                  lt_latency := (lt_latency tot \<or> la), lt_slice := (lt_slice tot \<or> sl)\<rparr> \<Longrightarrow>
       loss_loop now data e tot =
         (if owned < runa then (tota, advance_offset owned eb)
          else loss_loop now (drop runa data) (advance_offset owned eb) tota)"
proof -
  obtain b bs where data: "data = b # bs" using \<open>data \<noteq> []\<close> by (cases data) simp_all
  note eq = loss_loop.simps(2) [of now b bs e tot, unfolded Let_def, folded data, folded off_def,
      folded chunk_def, folded run_def]
  show "run = 0 \<Longrightarrow> loss_loop now data e tot = (tot, e)"
    by (subst eq) simp
  show "run \<noteq> 0 \<Longrightarrow> decide_stream_loss_chunk chunk e = (True, ea) \<Longrightarrow>
       loss_loop now data e tot = loss_loop now (drop run data) (count_segment (advance_offset run ea))
         (tot\<lparr>lt_offset := lt_offset tot + run, lt_discarded := sat_add64 (lt_discarded tot) run\<rparr>)"
    by (subst eq) (simp only: if_False if_True prod.case)
  show "run \<noteq> 0 \<Longrightarrow> decide_stream_loss_chunk chunk e = (False, ea) \<Longrightarrow>
       min run (en_max_buffer ea - en_buffered ea) = 0 \<Longrightarrow> loss_loop now data e tot = (tot, ea)"
    by (subst eq) (simp only: if_False if_True prod.case simp_thms)
  show "run \<noteq> 0 \<Longrightarrow> decide_stream_loss_chunk chunk e = (False, ea) \<Longrightarrow>
       runa = min run (en_max_buffer ea - en_buffered ea) \<Longrightarrow> runa \<noteq> 0 \<Longrightarrow>
       push_preserve_run now (take runa data) ea = (owned, la, sl, eb) \<Longrightarrow>
       tota = tot\<lparr>lt_offset := lt_offset tot + owned, lt_preserved := lt_preserved tot + owned,
                  lt_latency := (lt_latency tot \<or> la), lt_slice := (lt_slice tot \<or> sl)\<rparr> \<Longrightarrow>
       loss_loop now data e tot =
         (if owned < runa then (tota, advance_offset owned eb)
          else loss_loop now (drop runa data) (advance_offset owned eb) tota)"
    by (subst eq) (simp only: if_False if_True prod.case)
qed

lemma loss_loop_result:
  assumes "loss_loop now data e tot = (tot', e')" "loss_inv sts0 e" "lt_discarded tot \<le> en_stream_loss_offset e"
  shows "\<exists>n \<le> length data. loss_result sts0 n
    (survivors (dropped sts0 e) (en_stream_loss_offset e) (take n data)) e tot tot' e'"
  using assms
proof (induction data arbitrary: e tot tot' e' rule: length_induct)
  case (1 data)
  note inv = "1.prems"(2)
  define off where "off = en_stream_loss_offset e"
  define chunk where "chunk = off div STREAM_LOSS_GRAIN_BYTES"
  define run where "run = min (chunk_end chunk - off) (length data)"
  note eqs = loss_loop_eqs [where data = data and e = e and now = now and tot = tot, folded off_def, folded chunk_def, folded run_def]
  show ?case
  proof (cases "data = [] \<or> run = 0")
    case True
    then have "loss_loop now data e tot = (tot, e)" using eqs(1) by (cases "data = []") simp_all
    then have "tot' = tot" "e' = e" using "1.prems"(1) by simp_all
    then show ?thesis using loss_result_nothing [OF inv loss_frame_refl inv] by auto
  next
    case False
    obtain hit e1 where dec: "decide_stream_loss_chunk chunk e = (hit, e1)" by fastforce
    note d = decide_chunk [OF inv dec [unfolded chunk_def off_def], folded off_def, folded chunk_def]
    have run_le: "run \<le> chunk_end chunk - off" "run \<le> length data" by (simp_all add: run_def)
    have surv: "survivors P off bs = (if P chunk then [] else bs)" if "length bs \<le> run" for P bs
      using chunk_run(2) [of off run] run_le(1) False that inv
      by (intro survivors_chunk) (auto simp: chunk_def off_def loss_inv_def)
    text \<open>Gluing a first part of \<open>n\<close> bytes of this chunk to the rest of the loop.\<close>
    have glue: ?thesis
      if first: "loss_result sts0 n kept e tot tot1 e2" and n: "0 < n" "n \<le> run"
        and kept: "kept = survivors (dropped sts0 e) off (take n data)"
        and disc: "lt_discarded tot1 \<le> en_stream_loss_offset e2"
        and rest: "loss_loop now (drop n data) e2 tot1 = (tot', e')" for n kept tot1 e2
    proof -
      have "length (drop n data) < length data" using n run_le(2) by simp
      moreover have "loss_inv sts0 e2" using first by (simp add: loss_result_def)
      ultimately obtain m where m: "m \<le> length (drop n data)" "loss_result sts0 m
          (survivors (dropped sts0 e2) (en_stream_loss_offset e2) (take m (drop n data))) e2 tot1 tot' e'"
        using "1.IH" rest disc by blast
      have frame: "loss_frame e e2" "en_stream_loss_offset e2 = off + n"
        using first by (simp_all add: loss_result_def off_def)
      have "take (n + m) data = take n data @ take m (drop n data)" by (rule take_add)
      then have "survivors (dropped sts0 e) off (take (n + m) data) =
          kept @ survivors (dropped sts0 e2) (en_stream_loss_offset e2) (take m (drop n data))"
        using kept n run_le(2) loss_frame_fields(1) [OF frame(1)] frame(2) by (simp add: survivors_append)
      then show ?thesis
        using loss_result_trans [OF first m(2)] m(1) n run_le(2)
        by (intro exI [of _ "n + m"]) (simp add: off_def)
    qed
    show ?thesis
    proof (cases hit)
      case True
      let ?tot1 = "tot\<lparr>lt_offset := lt_offset tot + run, lt_discarded := sat_add64 (lt_discarded tot) run\<rparr>"
      let ?e2 = "count_segment (advance_offset run e1)"
      have res: "loss_result sts0 run [] e tot ?tot1 ?e2"
        using loss_drop_result [OF inv dec [unfolded chunk_def off_def]] run_le(1) False "1.prems"(3)
        by (simp add: chunk_def off_def)
      moreover have "[] = survivors (dropped sts0 e) off (take run data)" using surv [of "take run data"] d(1) True by simp
      moreover have "lt_discarded ?tot1 \<le> en_stream_loss_offset ?e2"
        using res "1.prems"(3) by (auto simp: loss_result_def)
      moreover have "loss_loop now (drop run data) ?e2 ?tot1 = (tot', e')"
        using eqs(2) [where ea = e1] "1.prems"(1) dec True False by simp
      ultimately show ?thesis using glue False by blast
    next
      case hit: False
      define run1 where "run1 = min run (en_max_buffer e1 - en_buffered e1)"
      show ?thesis
      proof (cases "run1 = 0")
        case True
        then have "tot' = tot" "e' = e1" using eqs(3) [where ea = e1] "1.prems"(1) dec hit False by (simp_all add: run1_def)
        moreover have "loss_result sts0 0 [] e tot tot e1"
          using inv d(3,2,5,4,6,7) unfolding off_def by (rule loss_result_nothing)
        ultimately show ?thesis by (intro exI [of _ 0]) simp
      next
        case run1: False
        obtain owned la sl e2 where push: "push_preserve_run now (take run1 data) e1 = (owned, la, sl, e2)"
          by (metis prod_cases4)
        let ?tot1 = "tot\<lparr>lt_offset := lt_offset tot + owned, lt_preserved := lt_preserved tot + owned,
                  lt_latency := (lt_latency tot \<or> la), lt_slice := (lt_slice tot \<or> sl)\<rparr>"
        let ?e2 = "advance_offset owned e2"
        have owned: "owned \<le> run1" "run1 \<le> run"
          using push_preserve_run_keeps [OF push] by (simp_all add: run1_def)
        then have "take owned (take run1 data) = take owned data" by (simp add: min_def)
        then have res: "loss_result sts0 owned (take owned data) e tot ?tot1 ?e2"
          using loss_keep_result [OF inv dec [unfolded chunk_def off_def] _ _ push, of run tot] run_le(1) False owned
          by (simp add: chunk_def off_def)
        have kept: "take owned data = survivors (dropped sts0 e) off (take owned data)"
          using surv [of "take owned data"] d(1) hit owned by simp
        have step: "(if owned < run1 then (?tot1, ?e2) else loss_loop now (drop run1 data) ?e2 ?tot1) = (tot', e')"
          using eqs(4) [where ea = e1 and runa = run1 and owned = owned and la = la and sl = sl and eb = e2] "1.prems"(1) dec hit False run1 push by (simp add: run1_def)
        show ?thesis
        proof (cases "owned < run1")
          case True
          with step have "tot' = ?tot1" "e' = ?e2" by simp_all
          then show ?thesis
            using res kept owned run_le(2) unfolding off_def [symmetric] by (intro exI [of _ owned]) simp
        next
          case False
          have "lt_discarded ?tot1 \<le> en_stream_loss_offset ?e2"
            using res "1.prems"(3) by (auto simp: loss_result_def)
          then show ?thesis using glue [OF res _ _ kept] step False owned run1 by simp
        qed
      qed
    qed
  qed
qed

section \<open>Settling an admission\<close>

lemma term_frame_engage: "term_frame e (engage i flags e)"
proof (induction flags arbitrary: i e)
  case (Cons flag flags)
  then show ?case by (cases flag) (auto intro: term_frame_trans [OF term_frame_activate])
qed simp

lemma engage_termination [simp]:
  "en_termination (engage i flags e) = en_termination e" "termination_ok (engage i flags e) = termination_ok e"
  by (induction flags arbitrary: i e) simp_all

lemmas engage_fields [simp] = term_frame_all [OF term_frame_engage]

definition limit_after :: "nat \<Rightarrow> (nat \<times> fault_id) option \<Rightarrow> (nat \<times> fault_id) option" where
  "limit_after n = map_option (\<lambda>(remaining, fid). (remaining - n, fid))"

lemma term_frame_spend:
  "term_frame (e\<lparr>en_remaining_limit := limit_after n (en_remaining_limit e)\<rparr>) (spend_limit n e)"
proof (cases "en_remaining_limit e")
  case None
  then have same: "e\<lparr>en_remaining_limit := None\<rparr> = e" by (cases e) simp
  have "term_frame (e\<lparr>en_remaining_limit := None\<rparr>) e" unfolding same by simp
  with None show ?thesis by (simp add: spend_limit_def limit_after_def)
next
  case (Some l)
  then show ?thesis using term_frame_request by (cases l) (simp add: spend_limit_def limit_after_def Let_def)
qed

lemmas spend_fields [simp] = term_frame_all [OF term_frame_spend, simplified]

lemma spend_invariants [simp]:
  "queue_ok (e\<lparr>en_remaining_limit := l\<rparr>) = queue_ok e" "conserved (e\<lparr>en_remaining_limit := l\<rparr>) = conserved e"
  "shape_ok (e\<lparr>en_remaining_limit := l\<rparr>) = shape_ok e" "queue_bytes (e\<lparr>en_remaining_limit := l\<rparr>) = queue_bytes e"
  by (simp_all add: queue_ok_def conserved_def shape_ok_def queue_bytes_def)

lemma spend_termination:
  "en_termination e = Some t \<Longrightarrow> en_termination (spend_limit n e) = Some t"
  "en_remaining_limit e = Some (r, fid) \<Longrightarrow> r \<le> n \<Longrightarrow> en_termination e = None \<Longrightarrow>
     en_termination (spend_limit n e) =
       Some \<lparr>ti_request = Graceful, ti_direction = en_direction e, ti_fault_id = Some fid\<rparr>"
  "\<not> limit_spent (limit_after n (en_remaining_limit e)) \<Longrightarrow> en_termination (spend_limit n e) = en_termination e"
  by (auto simp: spend_limit_def limit_after_def request_termination_set Let_def split: option.split)

lemma spend_termination_ok: "termination_ok e \<Longrightarrow> termination_ok (spend_limit n e)"
proof (cases "en_remaining_limit e")
  case (Some l)
  assume "termination_ok e"
  with Some show ?thesis
    by (cases l) (auto simp: spend_limit_def Let_def request_termination_ok, simp add: termination_ok_def)
qed (simp add: spend_limit_def)

lemma settle_wf: "engine_wf e \<Longrightarrow> engine_wf (spend_limit n (engage i flags e))"
  by (simp add: engine_wf_def spend_termination_ok)

lemma count_fields [simp]:
  "queue_ok (count_accepted n e) = queue_ok e" "queue_ok (count_discarded n e) = queue_ok e"
  "queue_ok (note_loss n e) = queue_ok e" "queue_ok (count_segment e) = queue_ok e"
  "termination_ok (count_accepted n e) = termination_ok e" "termination_ok (count_discarded n e) = termination_ok e"
  "termination_ok (note_loss n e) = termination_ok e" "termination_ok (count_segment e) = termination_ok e"
  "shape_ok (count_accepted n e) = shape_ok e" "shape_ok (count_discarded n e) = shape_ok e"
  "shape_ok (note_loss n e) = shape_ok e" "shape_ok (count_segment e) = shape_ok e"
  "conserved (note_loss n e) = conserved e" "conserved (count_segment e) = conserved e"
  "queue_bytes (count_accepted n e) = queue_bytes e" "queue_bytes (count_discarded n e) = queue_bytes e"
  "queue_bytes (note_loss n e) = queue_bytes e" "queue_bytes (count_segment e) = queue_bytes e"
  "loss_inv sts0 (count_accepted n e) = loss_inv sts0 e" "loss_inv sts0 (count_discarded n e) = loss_inv sts0 e"
  "loss_inv sts0 (note_loss n e) = loss_inv sts0 e" "loss_inv sts0 (count_segment e) = loss_inv sts0 e"
  by (simp_all add: count_accepted_def count_discarded_def note_loss_def count_segment_def queue_ok_def
      termination_ok_def shape_ok_def queue_bytes_def conserved_def loss_inv_def Let_def)

lemma loss_inv_term_frame: "term_frame e e' \<Longrightarrow> loss_inv sts0 e' = loss_inv sts0 e"
  by (simp add: loss_inv_def term_frame_fields)

lemma loss_inv_settle [simp]:
  "loss_inv sts0 (spend_limit n e) = loss_inv sts0 e" "loss_inv sts0 (engage i flags e) = loss_inv sts0 e"
  "loss_inv sts0 (refresh_sync_terminations now e) = loss_inv sts0 e"
  "loss_inv sts0 (request_termination req fid i e) = loss_inv sts0 e"
  "loss_inv sts0 (activate i e) = loss_inv sts0 e"
  by (simp_all add: loss_inv_def)

lemma conserved_accept:
  assumes "conserved e" "loss_frame e e1" "en_buffered e1 = en_buffered e + n"
  shows "conserved (count_accepted n e1)"
  using assms(1,3) loss_frame_evidence [OF assms(2)]
  by (auto simp: conserved_def count_accepted_def sat_add64_def Let_def)

lemma conserved_discard:
  assumes "conserved e" "loss_frame e e1" "en_buffered e1 = en_buffered e + p" "n = p + d"
  shows "conserved (count_discarded d (count_accepted n e1))"
  using assms(1,3,4) loss_frame_evidence [OF assms(2)]
  by (auto simp: conserved_def count_accepted_def count_discarded_def sat_add64_def Let_def)

section \<open>What one call of accept achieves\<close>

text \<open>
  \<open>admitted e n kept e'\<close>: the call owns the first \<open>n\<close> bytes of its input, queues \<open>kept\<close> and
  discards the rest of them. A termination that is already set stays.
\<close>

definition admitted :: "direction_engine \<Rightarrow> nat \<Rightarrow> byte list \<Rightarrow> direction_engine \<Rightarrow> bool" where
  "admitted e n kept e' =
     (queue_bytes e' = queue_bytes e @ kept \<and> length kept \<le> n \<and> n \<le> limit_available e \<and>
      en_remaining_limit e' = limit_after n (en_remaining_limit e) \<and>
      en_plan e' = en_plan e \<and> en_max_buffer e' = en_max_buffer e \<and> en_blackhole e' = en_blackhole e \<and>
      en_queue_timer e' = en_queue_timer e \<and> en_term_timer e' = en_term_timer e \<and>
      en_shutdown_timer e' = en_shutdown_timer e \<and>
      (\<forall>t. en_termination e = Some t \<longrightarrow> en_termination e' = Some t) \<and> engine_wf e')"

lemma limit_after_0 [simp]: "limit_after 0 l = l"
  by (cases l) (auto simp: limit_after_def)

lemma admitted_nothing: "engine_wf e \<Longrightarrow> admitted e 0 [] e"
  by (simp add: admitted_def)

lemma admitted_frame:
  assumes "loss_frame e e1" "queue_bytes e1 = queue_bytes e" "engine_wf e1"
  shows "admitted e 0 [] e1"
  using assms(2,3) loss_frame_fields [OF assms(1)] by (simp add: admitted_def)

lemma count_kept [simp]:
  "en_plan (count_accepted n e) = en_plan e" "en_plan (count_discarded n e) = en_plan e"
  "en_plan (note_loss n e) = en_plan e" "en_plan (count_segment e) = en_plan e"
  "en_max_buffer (count_accepted n e) = en_max_buffer e" "en_max_buffer (count_discarded n e) = en_max_buffer e"
  "en_max_buffer (note_loss n e) = en_max_buffer e" "en_max_buffer (count_segment e) = en_max_buffer e"
  "en_blackhole (count_accepted n e) = en_blackhole e" "en_blackhole (count_discarded n e) = en_blackhole e"
  "en_blackhole (note_loss n e) = en_blackhole e" "en_blackhole (count_segment e) = en_blackhole e"
  "en_remaining_limit (count_accepted n e) = en_remaining_limit e"
  "en_remaining_limit (count_discarded n e) = en_remaining_limit e"
  "en_remaining_limit (note_loss n e) = en_remaining_limit e"
  "en_remaining_limit (count_segment e) = en_remaining_limit e"
  "en_termination (count_accepted n e) = en_termination e" "en_termination (count_discarded n e) = en_termination e"
  "en_termination (note_loss n e) = en_termination e" "en_termination (count_segment e) = en_termination e"
  "en_queue_timer (count_accepted n e) = en_queue_timer e" "en_queue_timer (count_discarded n e) = en_queue_timer e"
  "en_queue_timer (note_loss n e) = en_queue_timer e" "en_queue_timer (count_segment e) = en_queue_timer e"
  "en_term_timer (count_accepted n e) = en_term_timer e" "en_term_timer (count_discarded n e) = en_term_timer e"
  "en_term_timer (note_loss n e) = en_term_timer e" "en_term_timer (count_segment e) = en_term_timer e"
  "en_shutdown_timer (count_accepted n e) = en_shutdown_timer e"
  "en_shutdown_timer (count_discarded n e) = en_shutdown_timer e"
  "en_shutdown_timer (note_loss n e) = en_shutdown_timer e" "en_shutdown_timer (count_segment e) = en_shutdown_timer e"
  "en_stream_loss_offset (count_accepted n e) = en_stream_loss_offset e"
  "en_stream_loss_offset (count_discarded n e) = en_stream_loss_offset e"
  "en_stream_loss_offset (note_loss n e) = en_stream_loss_offset e"
  "en_stream_loss_offset (count_segment e) = en_stream_loss_offset e"
  by (simp_all add: count_accepted_def count_discarded_def note_loss_def count_segment_def)

lemma loss_wf:
  assumes "engine_wf e" "loss_frame e e1" "queue_ok e1" "conserved (f e1)"
    and "\<And>x. queue_ok (f x) = queue_ok x" "\<And>x. termination_ok (f x) = termination_ok x"
      "\<And>x. shape_ok (f x) = shape_ok x"
  shows "engine_wf (f e1)"
  using assms loss_frame_invariants [OF assms(2)] by (simp add: engine_wf_def)

lemma settle_admitted:
  assumes "loss_frame e e1" "queue_bytes e1 = queue_bytes e @ kept" "length kept \<le> n" "n \<le> limit_available e"
    and "engine_wf e2" "queue_bytes e2 = queue_bytes e1" "en_plan e2 = en_plan e1"
      "en_max_buffer e2 = en_max_buffer e1" "en_blackhole e2 = en_blackhole e1"
      "en_remaining_limit e2 = en_remaining_limit e1" "en_termination e2 = en_termination e1"
      "en_queue_timer e2 = en_queue_timer e1" "en_term_timer e2 = en_term_timer e1"
      "en_shutdown_timer e2 = en_shutdown_timer e1"
  shows "admitted e n kept (spend_limit n (engage i flags e2))"
  using assms loss_frame_fields [OF assms(1)] settle_wf [OF assms(5)]
  by (simp add: admitted_def spend_termination(1))

lemma accept_preserving_admitted:
  assumes wf: "engine_wf e" and run: "accept_preserving input now e = (n, e')"
  shows "n = min (min (length input) (limit_available e)) (en_max_buffer e - en_buffered e) \<and>
    admitted e n (take n input) e' \<and> loss_inv sts0 e' = loss_inv sts0 e \<and>
    en_stream_loss_offset e' = en_stream_loss_offset e"
proof -
  define cap where "cap = min (min (length input) (limit_available e)) (en_max_buffer e - en_buffered e)"
  show ?thesis
  proof (cases "cap = 0")
    case True
    then have "n = 0" "e' = e" using run unfolding accept_preserving_def Let_def cap_def [symmetric] by simp_all
    with True show ?thesis using wf unfolding cap_def [symmetric] by (simp add: admitted_nothing)
  next
    case False
    obtain m la sl e1 where push: "push_preserve_run now (take cap input) e = (m, la, sl, e1)"
      by (metis prod_cases4)
    have cap: "cap \<le> length input" "cap \<le> limit_available e" "en_buffered e + cap \<le> en_max_buffer e"
      using wf by (auto simp: cap_def engine_wf_def queue_ok_def)
    have m: "m = cap" using push_preserve_run_fits [OF push] cap by simp
    have keeps: "push_frame e e1" "queue_bytes e1 = queue_bytes e @ take m input"
      "en_buffered e1 = en_buffered e + m" "queue_ok e1"
      using push_preserve_run_keeps [OF push] wf m by (simp_all add: engine_wf_def)
    note frame = push_frame_loss_frame [OF keeps(1)]
    have wf2: "engine_wf (count_accepted m e1)"
      using wf frame keeps(4) conserved_accept [OF _ frame keeps(3)] by (intro loss_wf) (auto simp: engine_wf_def)
    obtain flags where out: "n = m" "e' = spend_limit m (engage 0 flags (count_accepted m e1))"
      using run push False m unfolding accept_preserving_def Let_def cap_def [symmetric]
      by (auto simp del: engage.simps)
    have "admitted e m (take m input) e'"
      unfolding out(2) using frame keeps(2) wf2 cap(2) m by (intro settle_admitted) simp_all
    then show ?thesis
      using out(1) m push_frame_fields(11) [OF keeps(1)] loss_inv_push [OF keeps(1)]
      by (simp add: out(2) cap_def)
  qed
qed

lemma accept_discarding_admitted:
  assumes wf: "engine_wf e" and run: "accept_discarding input e = (n, e')"
  shows "n = min (length input) (limit_available e) \<and> admitted e n [] e' \<and>
    loss_inv sts0 e' = loss_inv sts0 e \<and> en_stream_loss_offset e' = en_stream_loss_offset e"
proof -
  define cap where "cap = min (length input) (limit_available e)"
  show ?thesis
  proof (cases "cap = 0")
    case True
    then have "n = 0" "e' = e" using run unfolding accept_discarding_def Let_def cap_def [symmetric] by simp_all
    with True show ?thesis using wf unfolding cap_def [symmetric] by (simp add: admitted_nothing)
  next
    case False
    let ?e2 = "activate 2 (count_segment (count_discarded cap (count_accepted cap e)))"
    have out: "n = cap" "e' = spend_limit cap ?e2"
      using run False unfolding accept_discarding_def Let_def cap_def [symmetric] by auto
    have "conserved (count_discarded cap (count_accepted cap e))"
      using wf conserved_discard [of e e 0 cap cap] by (simp add: engine_wf_def)
    then have wf2: "engine_wf ?e2" using wf by (simp add: engine_wf_def)
    have "admitted e cap [] (spend_limit cap (engage 0 [] ?e2))"
      using wf2 by (intro settle_admitted [where ?e1.0 = e]) (simp_all add: cap_def)
    then show ?thesis using out by (simp add: cap_def)
  qed
qed

lemma accept_with_stream_loss_admitted:
  assumes wf: "engine_wf e" and inv: "loss_inv sts0 e"
    and run: "accept_with_stream_loss input (limit_available e) now e = (n, e')"
  shows "n \<le> length input \<and>
    admitted e n (survivors (dropped sts0 e) (en_stream_loss_offset e) (take n input)) e' \<and>
    loss_inv sts0 e' \<and> en_stream_loss_offset e' = en_stream_loss_offset e + n"
proof -
  define cap where "cap = min (length input) (limit_available e)"
  obtain tot e1 where loop: "loss_loop now (take cap input) e lt_zero = (tot, e1)" by fastforce
  have "lt_discarded lt_zero \<le> en_stream_loss_offset e" by (simp add: lt_zero_def)
  from loss_loop_result [OF loop inv this] obtain m where m: "m \<le> length (take cap input)"
    and res: "loss_result sts0 m (survivors (dropped sts0 e) (en_stream_loss_offset e) (take m (take cap input)))
      e lt_zero tot e1" by blast
  define kept where "kept = survivors (dropped sts0 e) (en_stream_loss_offset e) (take m input)"
  have m_le: "m \<le> length input" "m \<le> limit_available e" "m \<le> cap" using m by (auto simp: cap_def)
  then have "take m (take cap input) = take m input" by (simp add: min_def)
  with res have r: "lt_offset tot = m" "length kept \<le> m" "lt_discarded tot = m - length kept"
    "queue_bytes e1 = queue_bytes e @ kept" "en_buffered e1 = en_buffered e + length kept"
    "en_stream_loss_offset e1 = en_stream_loss_offset e + m" "loss_frame e e1" "loss_inv sts0 e1"
    "queue_ok e \<longrightarrow> queue_ok e1"
    by (simp_all add: loss_result_def lt_zero_def kept_def)
  show ?thesis
  proof (cases "m = 0")
    case True
    then have out: "n = 0" "e' = e1"
      using run loop r(1) unfolding accept_with_stream_loss_def Let_def cap_def [symmetric] by simp_all
    have "conserved e1"
      using wf r(5) True r(2) loss_frame_evidence [OF r(7)] by (simp add: engine_wf_def conserved_def Let_def)
    then have "engine_wf (id e1)" using wf r(7,9) by (intro loss_wf) (auto simp: engine_wf_def)
    then show ?thesis using out r True admitted_frame [OF r(7)] by (simp add: kept_def)
  next
    case False
    let ?e2 = "note_loss (lt_discarded tot) (count_discarded (lt_discarded tot) (count_accepted m e1))"
    obtain flags where out: "n = m" "e' = spend_limit m (engage 0 flags ?e2)"
      using run loop r(1) False unfolding accept_with_stream_loss_def Let_def cap_def [symmetric]
      by (auto simp del: engage.simps)
    have "conserved ?e2"
      using wf conserved_discard [OF _ r(7,5), of m "lt_discarded tot"] r(2,3) by (simp add: engine_wf_def)
    then have wf2: "engine_wf ?e2"
      using wf r(9) loss_frame_invariants [OF r(7)] by (simp add: engine_wf_def)
    have "admitted e m kept e'"
      unfolding out(2) using r(7,4,2) m_le(2) wf2 by (intro settle_admitted) simp_all
    then show ?thesis using out r(6,8) m_le(1) by (simp add: kept_def)
  qed
qed

lemma discarding_refresh [simp]:
  "blackhole_discarding t3 (refresh_sync_terminations t1 e) = blackhole_discarding t3 e"
  "limit_available (refresh_sync_terminations t1 e) = limit_available e"
  by (simp_all add: blackhole_discarding_def limit_available_def)

lemma loss_rel_inactive:
  "loss_rel k fs sts0 sts \<Longrightarrow> \<not> list_ex (\<lambda>st. st \<noteq> None) sts \<Longrightarrow> \<not> chunk_dropped fs sts0 c"
proof (induction k fs sts0 sts rule: loss_rel.induct)
  case (1 k f fs st0 sts0 st sts)
  then have "st = None" "st0 = None" by (cases "(k, fs_kind f, st0, st)" rule: conn_rel.cases; auto)+
  with 1 show ?case by simp
qed simp_all

lemma loss_rel_active:
  "loss_rel k fs sts0 sts \<Longrightarrow> list_ex (\<lambda>st. st \<noteq> None) sts = list_ex (\<lambda>st. st \<noteq> None) sts0"
proof (induction k fs sts0 sts rule: loss_rel.induct)
  case (1 k f fs st0 sts0 st sts)
  then have "(st = None) = (st0 = None)" by (cases "(k, fs_kind f, st0, st)" rule: conn_rel.cases) auto
  with 1 show ?case by (cases st; cases st0) simp_all
qed simp_all

lemma inactive_survivors:
  assumes "loss_inv sts0 e" "\<not> loss_active e"
  shows "survivors (dropped sts0 e) off bs = bs"
proof -
  have "dropped sts0 e = (\<lambda>_. False)"
    using loss_rel_inactive assms unfolding loss_inv_def loss_active_def by blast
  then show ?thesis by (simp only: survivors_none)
qed

definition accept_kept :: "stream_loss_state option list \<Rightarrow> instant \<Rightarrow> direction_engine \<Rightarrow> byte list \<Rightarrow> byte list" where
  "accept_kept sts0 t3 e bs =
     (if blackhole_discarding t3 e then [] else survivors (dropped sts0 e) (en_stream_loss_offset e) bs)"

lemma refresh_admitted:
  assumes "admitted (refresh_sync_terminations t1 e) n kept e'"
  shows "admitted e n kept e'"
proof -
  have "en_termination e' = Some t" if "en_termination e = Some t" for t
    using assms that refresh_termination_stable [OF that] by (simp add: admitted_def)
  with assms show ?thesis by (simp add: admitted_def)
qed

text \<open>The contract of \<open>accept\<close> on every path.\<close>

lemma accept_contract:
  assumes wf: "engine_wf e" and inv: "loss_inv sts0 e" and run: "accept input t1 t2 t3 e = (n, e')"
  shows "n \<le> length input \<and> admitted e n (accept_kept sts0 t3 e (take n input)) e' \<and> loss_inv sts0 e' \<and>
    en_stream_loss_offset e' =
      (if blackhole_discarding t3 e \<or> \<not> loss_active e then en_stream_loss_offset e
       else en_stream_loss_offset e + n)"
proof -
  define r where "r = refresh_sync_terminations t1 e"
  have r: "engine_wf r" "loss_inv sts0 r" "limit_available r = limit_available e"
    "blackhole_discarding t3 r = blackhole_discarding t3 e" "en_plan r = en_plan e"
    "en_stream_loss_offset r = en_stream_loss_offset e" "loss_active r = loss_active e"
    using wf inv by (simp_all add: r_def refresh_wf loss_active_def)
  have kept: "accept_kept sts0 t3 e = accept_kept sts0 t3 r"
    by (rule ext) (simp add: accept_kept_def r)
  have step: "accept input t1 t2 t3 e =
     (if input = [] then (0, r)
      else if limit_available r = 0 then
        (0, case (en_termination r, en_remaining_limit r) of
              (None, Some (_, fid)) \<Rightarrow> request_termination Graceful fid 3 r
            | _ \<Rightarrow> r)
      else if blackhole_discarding t3 r then accept_discarding input r
      else if loss_active r then
        accept_with_stream_loss input (limit_available r) t2 r
      else accept_preserving input t2 r)"
    unfolding accept_def r_def Let_def ..
  have "n \<le> length input \<and> admitted r n (accept_kept sts0 t3 r (take n input)) e' \<and> loss_inv sts0 e' \<and>
    en_stream_loss_offset e' =
      (if blackhole_discarding t3 r \<or> \<not> loss_active r then en_stream_loss_offset r
       else en_stream_loss_offset r + n)"
  proof -
    consider "input = [] \<or> limit_available r = 0"
      | (hole) "input \<noteq> []" "limit_available r \<noteq> 0" "blackhole_discarding t3 r"
      | (loss) "input \<noteq> []" "limit_available r \<noteq> 0" "\<not> blackhole_discarding t3 r"
          "loss_active r"
      | (keep) "input \<noteq> []" "limit_available r \<noteq> 0" "\<not> blackhole_discarding t3 r"
          "\<not> loss_active r" by blast
    then show ?thesis
    proof cases
      case 1
      have "n = 0 \<and> (e' = r \<or> (\<exists>fid. en_termination r = None \<and> e' = request_termination Graceful fid 3 r))"
        using run step 1 by (auto split: option.splits if_splits prod.splits)
      then show ?thesis using r
        by (auto simp: accept_kept_def admitted_def engine_wf_def request_termination_ok)
    next
      case hole
      then have "accept_discarding input r = (n, e')" using run step by simp
      from accept_discarding_admitted [OF r(1) this, of sts0] r(2) hole show ?thesis
        by (auto simp: accept_kept_def)
    next
      case loss
      then have "accept_with_stream_loss input (limit_available r) t2 r = (n, e')" using run step by simp
      from accept_with_stream_loss_admitted [OF r(1,2) this] loss show ?thesis by (simp add: accept_kept_def)
    next
      case keep
      then have "accept_preserving input t2 r = (n, e')" using run step by simp
      from accept_preserving_admitted [OF r(1) this, of sts0] keep r(2) inactive_survivors [OF r(2) keep(4)]
      show ?thesis by (auto simp: accept_kept_def)
    qed
  qed
  then show ?thesis using refresh_admitted [of t1 e n _ e'] unfolding kept by (simp add: r_def [symmetric] r)
qed

section \<open>Fresh engines\<close>

lemma bucket_free_loss_rel:
  "length sts = length fs \<Longrightarrow> list_all (\<lambda>st. case st of None \<Rightarrow> True | Some s \<Rightarrow> sl_decided s = None) sts \<Longrightarrow>
   loss_rel k fs sts sts"
proof (induction fs arbitrary: sts)
  case (Cons f fs)
  then obtain st sts' where "sts = st # sts'" by (cases sts) auto
  with Cons show ?case by (cases "fs_kind f"; cases st) auto
qed simp

lemma compile_fold_undecided:
  "list_all (\<lambda>st. case st of None \<Rightarrow> True | Some s \<Rightarrow> sl_decided s = None) (co_stream_loss co) \<Longrightarrow>
   list_all (\<lambda>st. case st of None \<Rightarrow> True | Some s \<Rightarrow> sl_decided s = None)
     (co_stream_loss (fold (compile_fault s p k d now) fs co))"
  by (induction fs arbitrary: co) (simp_all add: compile_fault_def split_def Let_def)

lemma new_engine_loss_inv:
  assumes "new_with_arc_plan plan s p k d h now = Inr e"
  shows "loss_inv (en_stream_loss e) e"
proof -
  note inv = new_engine_inv [OF assms]
  have "list_all (\<lambda>st. case st of None \<Rightarrow> True | Some s \<Rightarrow> sl_decided s = None) (en_stream_loss e)"
    unfolding inv(10) compile_plan_def by (rule compile_fold_undecided) (simp add: compiled_init_def)
  moreover have "length (en_stream_loss e) = length (plan_faults (en_plan e))"
    by (simp add: inv compile_plan_streams)
  ultimately show ?thesis by (simp add: loss_inv_def inv(14) bucket_free_loss_rel)
qed

section \<open>Vectored admission joins the buffers\<close>

lemma take_prefix_concat: "take_prefix n bufs = take n (concat bufs)"
proof (induction bufs arbitrary: n)
  case (Cons buf bufs)
  then show ?case by (cases "length buf \<le> n") (auto simp: Let_def min_def)
qed simp

lemma foldl_sat_add: "a + sum_list ns \<le> U64_MAX \<Longrightarrow> foldl sat_add64 a ns = a + sum_list ns"
  by (induction ns arbitrary: a) (simp_all add: sat_simps)

text \<open>A plan without destructive faults leaves the destructive stages of its engine unset.\<close>

definition stages_match_plan :: "direction_engine \<Rightarrow> bool" where
  "stages_match_plan e = (is_preserving_only e \<longrightarrow>
     en_blackhole e = None \<and> \<not> loss_active e)"

lemma compile_fold_preserving:
  assumes "list_all (\<lambda>f. kind_preserving (fs_kind f)) fs" "co_blackhole co = None"
    "\<not> list_ex (\<lambda>st. st \<noteq> None) (co_stream_loss co)"
  shows "co_blackhole (fold (compile_fault s p k d now) fs co) = None \<and>
    \<not> list_ex (\<lambda>st. st \<noteq> None) (co_stream_loss (fold (compile_fault s p k d now) fs co))"
  using assms
proof (induction fs arbitrary: co)
  case (Cons f fs)
  have "co_blackhole (compile_fault s p k d now f co) = None"
    "\<not> list_ex (\<lambda>st. st \<noteq> None) (co_stream_loss (compile_fault s p k d now f co))"
    using Cons.prems by (cases "fs_kind f"; simp add: compile_fault_def split_def Let_def)+
  with Cons show ?case by simp
qed simp

lemma new_engine_stages:
  assumes "new_with_arc_plan plan s p k d h now = Inr e"
  shows "stages_match_plan e"
proof -
  have "en_blackhole e = co_blackhole (compile_plan s p k d now (plan_faults plan))"
    using assms by (cases plan rule: plan_validate_cases) (auto simp: new_with_arc_plan_def Let_def)
  then show ?thesis
    using compile_fold_preserving [of "plan_faults plan" compiled_init s p k d now] new_engine_inv(2,10) [OF assms]
    by (simp add: stages_match_plan_def is_preserving_only_def compile_plan_def compiled_init_def loss_active_def)
qed

lemma accept_preserving_prefix:
  assumes "min (length input) (bounded_accept_capacity e) \<le> b"
  shows "accept_preserving (take b input) now e = accept_preserving input now e"
proof -
  define c where "c = en_max_buffer e - en_buffered e"
  define l where "l = limit_available e"
  have b: "min (length input) (min l c) \<le> b" using assms by (simp add: bounded_accept_capacity_def l_def c_def)
  then have cap: "min (min (length (take b input)) l) c = min (min (length input) l) c"
    unfolding length_take by linarith
  have "min (min (length input) l) c \<le> b" using b by linarith
  then have "take (min (min (length input) l) c) (take b input) = take (min (min (length input) l) c) input"
    by (simp only: take_take min.absorb1)
  with cap show ?thesis unfolding accept_preserving_def l_def [symmetric] c_def [symmetric] Let_def by (simp only:)
qed

lemma accept_prefix:
  assumes wf: "engine_wf e" and pres: "en_blackhole e = None" "\<not> loss_active e"
    and b: "b = min (length input) (bounded_accept_capacity e)" and input: "input \<noteq> []"
  shows "accept (take b input) t1 t2 t3 e = accept input t1 t2 t3 e"
proof -
  define r where "r = refresh_sync_terminations t1 e"
  have r: "engine_wf r" "en_blackhole r = None" "\<not> loss_active r"
    "limit_available r = limit_available e" "bounded_accept_capacity r = bounded_accept_capacity e"
    using wf pres by (simp_all add: r_def refresh_wf bounded_accept_capacity_def loss_active_def)
  have path: "accept inp t1 t2 t3 e = (if inp = [] \<or> limit_available r = 0 then (0, r) else accept_preserving inp t2 r)"
    for inp
  proof -
    have "en_termination r \<noteq> None" if "limit_available r = 0"
      using that r(1) by (auto simp: limit_available_def engine_wf_def termination_ok_def U64_MAX_def split: option.splits)
    then show ?thesis
      using r(2,3) by (auto simp: accept_def r_def [symmetric] blackhole_discarding_def Let_def split: option.split)
  qed
  have zero: "accept_preserving input t2 r = (0, r)" if "b = 0"
  proof -
    have "min (min (length input) (limit_available r)) (en_max_buffer r - en_buffered r) = 0"
      using that b r(5) [unfolded bounded_accept_capacity_def] unfolding bounded_accept_capacity_def
      by (simp only: min.assoc)
    then show ?thesis unfolding accept_preserving_def Let_def by (simp only: if_True simp_thms)
  qed
  show ?thesis
    using accept_preserving_prefix [of input r b t2] b input zero r(5) by (auto simp: path)
qed

lemma accept_vectored_joins:
  assumes "engine_wf e" "stages_match_plan e" "length (concat bufs) \<le> U64_MAX"
  shows "accept_vectored bufs t1 t2 t3 e = accept (concat bufs) t1 t2 t3 e"
proof -
  have total: "foldl sat_add64 0 (map length bufs) = length (concat bufs)"
    using foldl_sat_add [of 0 "map length bufs"] assms(3) by (simp add: length_concat)
  consider "concat bufs = []" | "concat bufs \<noteq> []" "\<not> is_preserving_only e"
    | (prefix) "concat bufs \<noteq> []" "is_preserving_only e" by blast
  then show ?thesis
  proof cases
    case prefix
    then have "accept (take (min (length (concat bufs)) (bounded_accept_capacity e)) (concat bufs)) t1 t2 t3 e =
        accept (concat bufs) t1 t2 t3 e"
      using assms(2) by (intro accept_prefix [OF assms(1)]) (simp_all only: stages_match_plan_def simp_thms)
    with prefix show ?thesis
      unfolding accept_vectored_def total Let_def take_prefix_concat
      by (cases "bounded_accept_capacity e = 0") (simp_all del: concat_eq_Nil_conv)
  qed (simp_all add: accept_vectored_def total Let_def accept_def del: concat_eq_Nil_conv length_concat)
qed

section \<open>Delays and slice sizes\<close>

lemma jitter_draw: "fst (below (sat_add64 (sat_mul64 j 2) 1) r) \<le> 2 * j"
proof -
  have "0 < sat_add64 (sat_mul64 j 2) 1" by (simp add: sat_add64_def U64_MAX_def)
  from below_less [OF this, of r] have "fst (below (sat_add64 (sat_mul64 j 2) 1) r) < sat_add64 (sat_mul64 j 2) 1" .
  also have "\<dots> \<le> sat_mul64 j 2 + 1" by (simp add: sat_add64_def)
  also have "sat_mul64 j 2 \<le> 2 * j" by (simp add: sat_mul64_def)
  finally show ?thesis by simp
qed

lemma latency_nanos_jitter:
  assumes "lat_jitter c \<le> U64_MAX"
  obtains x where "\<bar>x\<bar> \<le> int (lat_jitter c)"
    "fst (latency_nanos c r) = nat (min (max (int (lat_delay c) + x) 0) (int U64_MAX))"
proof (cases "lat_jitter c = 0")
  case True
  then show thesis using that [of 0] by (simp add: latency_nanos_def)
next
  case False
  define n where "n = fst (below (sat_add64 (sat_mul64 (lat_jitter c) 2) 1) r)"
  have "fst (latency_nanos c r) = nat (min (max (int (lat_delay c) + (int n - int (lat_jitter c))) 0) (int U64_MAX))"
    unfolding latency_nanos_def n_def Let_def min.absorb1 [OF assms] using False by (simp add: split_def)
  moreover have "\<bar>int n - int (lat_jitter c)\<bar> \<le> int (lat_jitter c)"
    using jitter_draw [of "lat_jitter c" r] unfolding n_def [symmetric] by linarith
  ultimately show thesis using that by blast
qed

lemma latency_nanos_bounds:
  assumes "lat_delay c + lat_jitter c \<le> U64_MAX"
  shows "lat_delay c - lat_jitter c \<le> fst (latency_nanos c r)" "fst (latency_nanos c r) \<le> lat_delay c + lat_jitter c"
proof -
  have le: "int (lat_delay c) + int (lat_jitter c) \<le> int U64_MAX" "lat_jitter c \<le> U64_MAX" using assms by linarith+
  obtain x where x: "\<bar>x\<bar> \<le> int (lat_jitter c)"
    "fst (latency_nanos c r) = nat (min (max (int (lat_delay c) + x) 0) (int U64_MAX))"
    using latency_nanos_jitter [OF le(2)] .
  show "lat_delay c - lat_jitter c \<le> fst (latency_nanos c r)" "fst (latency_nanos c r) \<le> lat_delay c + lat_jitter c"
    unfolding x(2) using x(1) le(1) by linarith+
qed

text \<open>Every active slicer bounds the slices.\<close>

fun slice_caps :: "fault_spec list \<Rightarrow> (bool \<times> deterministic_rng) list \<Rightarrow> nat list" where
  "slice_caps (f # fs) ((active, _) # rs) =
     (case fs_kind f of
        Slice c \<Rightarrow> if active then (average_size c + variation c) # slice_caps fs rs else slice_caps fs rs
      | _ \<Rightarrow> slice_caps fs rs)"
| "slice_caps _ _ = []"

lemma slice_stage_bound:
  assumes "variation c < average_size c"
  shows "max (sat_add64 (average_size c - variation c) (fst (below (sat_add64 (sat_mul64 (variation c) 2) 1) r))) 1
    \<le> average_size c + variation c"
proof -
  define n where "n = fst (below (sat_add64 (sat_mul64 (variation c) 2) 1) r)"
  have "n \<le> 2 * variation c" unfolding n_def by (rule jitter_draw)
  moreover have "sat_add64 (average_size c - variation c) n \<le> average_size c - variation c + n"
    by (simp add: sat_add64_def)
  ultimately show ?thesis unfolding n_def [symmetric] using assms by linarith
qed

lemma slice_sizes_bound:
  assumes "\<forall>f \<in> set fs. spec_ok f"
  shows "fst (slice_sizes fs rs sz) \<le> sz \<and> (\<forall>cap \<in> set (slice_caps fs rs). fst (slice_sizes fs rs sz) \<le> cap)"
  using assms
proof (induction fs arbitrary: rs sz)
  case (Cons f fs)
  show ?case
  proof (cases rs)
    case (Cons r rs')
    obtain active rng where r: "r = (active, rng)" by fastforce
    note IH = Cons.IH [of rs']
    show ?thesis
    proof (cases "active \<and> (\<exists>c. fs_kind f = Slice c)")
      case True
      then obtain c where c: "fs_kind f = Slice c" and act: active by blast
      have "variation c < average_size c" using Cons.prems c by (auto simp: spec_ok_def split: if_splits)
      note bound = slice_stage_bound [OF this, of rng]
      define st where "st = max (sat_add64 (average_size c - variation c) (fst (below (sat_add64 (sat_mul64 (variation c) 2) 1) rng))) 1"
      have "fst (slice_sizes (f # fs) rs sz) = fst (slice_sizes fs rs' (min sz st))"
        using Cons r c act by (simp add: st_def split_def Let_def)
      then show ?thesis
        using IH [of "min sz st"] Cons.prems bound Cons r c act unfolding st_def [symmetric]
        by (simp del: slice_sizes.simps)
    next
      case False
      then have "fst (slice_sizes (f # fs) rs sz) = fst (slice_sizes fs rs' sz)"
        "slice_caps (f # fs) rs = slice_caps fs rs'"
        using Cons r by (cases "fs_kind f"; simp add: split_def Let_def)+
      then show ?thesis using IH [of sz] Cons.prems by simp
    qed
  qed simp
qed simp

lemma next_slice_bound:
  assumes "plan_ok (en_plan e)" "0 < n"
  shows "0 < fst (next_slice_size n e)" "fst (next_slice_size n e) \<le> n"
    "\<forall>cap \<in> set (slice_caps (plan_faults (en_plan e)) (en_rngs e)). fst (next_slice_size n e) \<le> max cap 1"
  using slice_sizes_bound [of "plan_faults (en_plan e)" "en_rngs e" "max n 1"] assms
  by (auto simp: next_slice_size_def plan_ok_def split_def Let_def)

section \<open>An engine to compute with\<close>

text \<open>A byte limit of three, always active; the limit engine is what it compiles to.\<close>

definition example_limit_plan :: fault_plan where
  "example_limit_plan = \<lparr>plan_faults =
     [\<lparr>fs_id = ''cap'', fs_probability = Fin F64_ONE, fs_kind = LimitData \<lparr>limit_bytes = 3\<rparr>\<rparr>]\<rparr>"

definition limit_engine :: direction_engine where
  "limit_engine =
     \<lparr>en_plan = example_limit_plan, en_direction = Upstream, en_queue = [], en_buffered = 0, en_high_water = 0,
      en_max_buffer = 65536, en_rngs = [(True, rng_new (derive_seed 7 ''p'' 1 Upstream ''cap''))],
      en_evidence = evidence_default, en_termination = None, en_handle = None,
      en_queue_timer = None, en_term_timer = None, en_shutdown_timer = None,
      en_shutdown_deadline = None, en_slow_close = None, en_remaining_limit = Some (3, ''cap''),
      en_blackhole = None, en_disconnect = None, en_bandwidth = None,
      en_slicer_active = False, en_slice_cursor = 0,
      en_stream_loss = [None], en_stream_loss_offset = 0, en_stream_loss_evaluated = 0\<rparr>"

lemma example_limit_plan_ok: "plan_ok example_limit_plan"
  by (simp add: plan_ok_def example_limit_plan_def MAX_STREAM_FAULTS_def spec_ok_def probability_ok_def
      in_unit_interval_def less_imp_le)

lemma limit_engine_new: "new_with_arc_plan example_limit_plan 7 ''p'' 1 Upstream None 0 = Inr limit_engine"
proof -
  have "plan_validate example_limit_plan = Inr ()" using example_limit_plan_ok by (simp add: plan_validate_iff)
  then show ?thesis
    by (simp add: new_with_arc_plan_def compile_plan_def compile_fault_def bernoulli_def compiled_init_def
        example_limit_plan_def limit_engine_def Let_def evidence_default_def not_le)
qed

lemmas limit_engine_wf = new_engine_wf [OF limit_engine_new]
lemmas limit_engine_loss = new_engine_loss_inv [OF limit_engine_new]
lemmas limit_engine_stages = new_engine_stages [OF limit_engine_new]

lemma limit_engine_inactive: "\<not> loss_active limit_engine" "\<not> blackhole_discarding t limit_engine"
  "limit_available limit_engine = 3" "en_max_buffer limit_engine - en_buffered limit_engine = 65536"
  "refresh_sync_terminations t limit_engine = limit_engine" "en_blackhole limit_engine = None"
  by (simp_all add: limit_engine_def loss_active_def blackhole_discarding_def limit_available_def
      refresh_sync_terminations_def refresh_blackhole_def)

lemma limit_engine_accept: "fst (accept [1, 2, 3, 4] 0 0 0 limit_engine) = 3"
proof -
  obtain n e' where run: "accept_preserving [1, 2, 3, 4] 0 limit_engine = (n, e')" by fastforce
  have "n = 3" using accept_preserving_admitted [OF limit_engine_wf run] by (simp add: limit_engine_inactive)
  then show ?thesis using run by (simp add: accept_def limit_engine_inactive)
qed

section \<open>Properties\<close>

text \<open>
  C6. Ownership. Whatever the plan, \<^verbatim>\<open>accept\<close> reports a prefix of its input, never longer than the
  remaining byte limit, and what it reports is exactly what it owns: nothing is queued on the
  blackhole path, and elsewhere exactly the bytes of that prefix whose stream-loss chunk survives are
  appended to the queue, in order. The chunk decision depends on the absolute stream offset only. The
  limit shrinks by the reported count, a termination that is already set stays, and the engine's
  invariant holds again: the counters balance and the queue is within its bound.
\<close>

theorem accept_owns_prefix:
  assumes "engine_wf e" "loss_inv sts0 e" "accept input t1 t2 t3 e = (n, e')"
  shows "n \<le> length input \<and> n \<le> limit_available e \<and>
    queue_bytes e' = queue_bytes e @
      (if blackhole_discarding t3 e then []
       else survivors (chunk_dropped (plan_faults (en_plan e)) sts0) (en_stream_loss_offset e) (take n input)) \<and>
    en_remaining_limit e' = limit_after n (en_remaining_limit e) \<and>
    (en_termination e \<noteq> None \<longrightarrow> en_termination e' = en_termination e) \<and> engine_wf e' \<and> loss_inv sts0 e'"
  using accept_contract [OF assms] by (auto simp: admitted_def accept_kept_def)

theorem accept_owns_prefix_witness:
  "queue_bytes (snd (accept [1, 2, 3, 4] 0 0 0 limit_engine)) = [1, 2, 3] \<and>
   en_remaining_limit (snd (accept [1, 2, 3, 4] 0 0 0 limit_engine)) = Some (0, ''cap'')"
proof -
  obtain n e' where run: "accept [1, 2, 3, 4] 0 0 0 limit_engine = (n, e')" by fastforce
  have n: "n = 3" using limit_engine_accept run by simp
  have "survivors (chunk_dropped (plan_faults (en_plan limit_engine)) (en_stream_loss limit_engine)) off bs = bs" for off bs
    using inactive_survivors [OF limit_engine_loss] limit_engine_inactive(1) by simp
  with accept_owns_prefix [OF limit_engine_wf limit_engine_loss run] n
  have "queue_bytes e' = queue_bytes limit_engine @ take 3 [1, 2, 3, 4]"
    "en_remaining_limit e' = limit_after 3 (en_remaining_limit limit_engine)"
    by (simp_all only: limit_engine_inactive if_False simp_thms)
  then show ?thesis using run by (simp add: limit_engine_def queue_bytes_def limit_after_def)
qed

lemma accept_exact:
  assumes "engine_wf e" "\<not> blackhole_discarding t3 e" "\<not> loss_active e" "accept input t1 t2 t3 e = (n, e')"
  shows "n = min (min (length input) (limit_available e)) (en_max_buffer e - en_buffered e) \<and>
    queue_bytes e' = queue_bytes e @ take n input"
proof -
  define r where "r = refresh_sync_terminations t1 e"
  have r: "engine_wf r" "\<not> blackhole_discarding t3 r" "\<not> loss_active r" "limit_available r = limit_available e"
    "queue_bytes r = queue_bytes e" "en_max_buffer r = en_max_buffer e" "en_buffered r = en_buffered e"
    using assms by (simp_all add: r_def refresh_wf loss_active_def)
  show ?thesis
  proof (cases "input = [] \<or> limit_available r = 0")
    case True
    then have "n = 0 \<and> queue_bytes e' = queue_bytes r"
      using assms(4) by (auto simp: accept_def r_def [symmetric] Let_def split: option.splits if_splits prod.splits)
    with True r show ?thesis by auto
  next
    case False
    then have "accept_preserving input t2 r = (n, e')"
      using assms(4) r(2,3) by (simp add: accept_def r_def [symmetric] loss_active_def Let_def)
    from accept_preserving_admitted [OF r(1) this] r show ?thesis by (auto simp: admitted_def)
  qed
qed

text \<open>
  Exact acceptance. On an engine that is neither discarding nor classifying,
  \<^verbatim>\<open>accept\<close> takes exactly the minimum of the input length, the remaining limit and the free
  buffer, also when a slicer cuts the input, and also when a termination is already due.
\<close>

theorem accept_count_exact:
  assumes "engine_wf e" "\<not> blackhole_discarding t3 e" "\<not> loss_active e" "accept input t1 t2 t3 e = (n, e')"
  shows "n = min (min (length input) (limit_available e)) (en_max_buffer e - en_buffered e) \<and>
    queue_bytes e' = queue_bytes e @ take n input"
  using assms by (rule accept_exact)

theorem accept_count_exact_witness:
  "fst (accept [1, 2, 3, 4] 0 0 0 limit_engine) = min (min 4 3) 65536"
proof -
  obtain n e' where run: "accept [1, 2, 3, 4] 0 0 0 limit_engine = (n, e')" by fastforce
  from accept_count_exact [OF limit_engine_wf _ _ run] run show ?thesis by (simp add: limit_engine_inactive)
qed

text \<open>
  C7. The vectored entry point is equivalent to the scalar one on the joined buffers, although for
  preserving plans it copies only the prefix that the engine can own.
\<close>

theorem accept_vectored_is_accept:
  assumes "engine_wf e" "stages_match_plan e" "length (concat bufs) \<le> U64_MAX"
  shows "accept_vectored bufs t1 t2 t3 e = accept (concat bufs) t1 t2 t3 e"
  using assms by (rule accept_vectored_joins)

theorem accept_vectored_is_accept_witness:
  "accept_vectored [[1, 2], [], [3, 4]] 0 0 0 limit_engine = accept [1, 2, 3, 4] 0 0 0 limit_engine"
  using accept_vectored_is_accept [OF limit_engine_wf limit_engine_stages, of "[[1, 2], [], [3, 4]]" 0 0 0]
  by (simp add: U64_MAX_def)

text \<open>
  Delays and slice sizes stay within their configuration: a latency stage delays by
  \<open>delay - jitter\<close> to \<open>delay + jitter\<close>, and a slice is non-empty, fits the remaining input and
  respects \<open>average + variation\<close> of every active slicer.
\<close>

theorem delays_and_slices_bounded:
  assumes "lat_delay c + lat_jitter c \<le> U64_MAX" "plan_ok (en_plan e)" "0 < remaining"
  shows "lat_delay c - lat_jitter c \<le> fst (latency_nanos c r) \<and>
    fst (latency_nanos c r) \<le> lat_delay c + lat_jitter c \<and>
    0 < fst (next_slice_size remaining e) \<and> fst (next_slice_size remaining e) \<le> remaining \<and>
    (\<forall>cap \<in> set (slice_caps (plan_faults (en_plan e)) (en_rngs e)). fst (next_slice_size remaining e) \<le> max cap 1)"
  using latency_nanos_bounds [OF assms(1), of r] next_slice_bound [OF assms(2,3)] by blast

theorem delays_and_slices_bounded_witness:
  "150 \<le> fst (latency_nanos \<lparr>lat_delay = 200, lat_jitter = 50, lat_max_buffer_bytes = 1\<rparr> (rng_new 5)) \<and>
   fst (latency_nanos \<lparr>lat_delay = 200, lat_jitter = 50, lat_max_buffer_bytes = 1\<rparr> (rng_new 5)) \<le> 250 \<and>
   0 < fst (next_slice_size 4 limit_engine) \<and> fst (next_slice_size 4 limit_engine) \<le> 4"
proof -
  have "plan_ok (en_plan limit_engine)" using example_limit_plan_ok by (simp add: limit_engine_def)
  from delays_and_slices_bounded [OF _ this, of "\<lparr>lat_delay = 200, lat_jitter = 50, lat_max_buffer_bytes = 1\<rparr>" 4 "rng_new 5"]
  show ?thesis by (simp add: U64_MAX_def)
qed

end
