(* ===== verification/Drain.thy ===== *)
theory Drain
  imports Accept
begin

text \<open>
  The poll-driven output side of an engine, \<^verbatim>\<open>crates/eggchaos-core/src/engine.rs\<close>: the
  deadline-keyed timer, \<^verbatim>\<open>poll_queue\<close>, \<^verbatim>\<open>poll_flush\<close>, \<^verbatim>\<open>poll_shutdown\<close> and
  \<^verbatim>\<open>poll_due_termination\<close>.

  What the engine drives is not part of the repository: the Tokio clock and its timers, and the inner
  transport. They are the argument \<open>io\<close>, a record of functions on a world of any type. Locale
  \<open>runtime\<close> states what Tokio documents about its clock and timers, locale \<open>transport\<close> adds the
  contract of \<^verbatim>\<open>AsyncWrite\<close>; the \<^verbatim>\<open>CaptureWriter\<close> of
  \<^verbatim>\<open>stream.rs\<close>, which writes into a buffer, satisfies it over every runtime.
\<close>

section \<open>The outside world\<close>

datatype io_error =
    WriteZero
  | InvalidData
  | ConnectionAborted string
  | ConnectionReset string
  | InvalidInput validation_error
  | TransportError nat

record 'w io =
  io_now :: "'w \<Rightarrow> instant \<times> 'w"
  io_sleep :: "duration \<Rightarrow> 'w \<Rightarrow> instant \<times> 'w"
  io_poll_sleep :: "instant \<Rightarrow> 'w \<Rightarrow> bool \<times> 'w"
  io_write :: "byte list \<Rightarrow> 'w \<Rightarrow> (io_error + nat) poll \<times> 'w"
  io_write_vectored :: "byte list list \<Rightarrow> 'w \<Rightarrow> (io_error + nat) poll \<times> 'w"
  io_flush :: "'w \<Rightarrow> (io_error + unit) poll \<times> 'w"
  io_shutdown :: "'w \<Rightarrow> (io_error + unit) poll \<times> 'w"
  io_read :: "nat \<Rightarrow> 'w \<Rightarrow> (io_error + byte list) poll \<times> 'w"

text \<open>
  \<open>io_sleep d\<close> is \<^verbatim>\<open>tokio::time::sleep(d)\<close> and returns the instant at which the new sleep fires;
  \<open>io_poll_sleep\<close> polls the sleep that fires then.
\<close>

section \<open>Timers\<close>

definition timer_poll :: "'w io \<Rightarrow> instant \<Rightarrow> instant \<Rightarrow> armed_timer \<Rightarrow> 'w \<Rightarrow> bool \<times> armed_timer \<times> 'w" where
  "timer_poll io now deadline timer w0 =
     (let (a, w) =
            (case timer of
               Some a \<Rightarrow> if at_deadline a = deadline then (a, w0)
                         else (let (fires, w1) = io_sleep io (deadline - now) w0
                               in (\<lparr>at_fires = fires, at_deadline = deadline\<rparr>, w1))
             | None \<Rightarrow> (let (fires, w1) = io_sleep io (deadline - now) w0
                        in (\<lparr>at_fires = fires, at_deadline = deadline\<rparr>, w1)));
          (ready, w2) = io_poll_sleep io (at_fires a) w
      in (ready, if ready then None else Some a, w2))"

section \<open>The queue\<close>

text \<open>\<open>n\<close> bytes of the front segment were written.\<close>

definition advance_front :: "nat \<Rightarrow> direction_engine \<Rightarrow> direction_engine" where
  "advance_front n e =
     (case en_queue e of
        [] \<Rightarrow> e
      | front # rest \<Rightarrow>
          e\<lparr>en_evidence := (en_evidence e)\<lparr>ev_bytes_forwarded := sat_add64 (ev_bytes_forwarded (en_evidence e)) n\<rparr>,
            en_buffered := en_buffered e - n,
            en_queue := (if n = length (q_bytes front) then rest
                         else front\<lparr>q_bytes := drop n (q_bytes front)\<rparr> # rest)\<rparr>)"

text \<open>Wait until the front segment is due: \<open>False\<close> when its timer is pending.\<close>

definition front_due :: "'w io \<Rightarrow> queued \<Rightarrow> direction_engine \<Rightarrow> 'w \<Rightarrow> bool \<times> direction_engine \<times> 'w" where
  "front_due io front e w =
     (let (now, w1) = io_now io w
      in if now < q_release front then
           let (ready, timer, w2) = timer_poll io now (q_release front) (en_queue_timer e) w1
           in (ready, e\<lparr>en_queue_timer := timer\<rparr>, w2)
         else (True, e, w1))"

lemma advance_front_shorter:
  assumes "en_queue e = front # rest" "n \<noteq> 0" "n \<le> length (q_bytes front)"
  shows "length (queue_bytes (advance_front n e)) < length (queue_bytes e)"
  using assms by (auto simp: advance_front_def queue_bytes_def)

lemma front_due_queue [simp]: "en_queue (fst (snd (front_due io front e w))) = en_queue e"
  by (simp add: front_due_def split_def Let_def)

function poll_queue :: "'w io \<Rightarrow> direction_engine \<Rightarrow> 'w \<Rightarrow> (io_error + unit) poll \<times> direction_engine \<times> 'w" where
  "poll_queue io e w =
     (if en_queue e = [] then (Ready (Inr ()), e, w)
      else
        let front = hd (en_queue e);
            due = front_due io front e w;
            e1 = fst (snd due);
            w1 = snd (snd due)
        in if \<not> fst due then (Pending, e1, w1)
           else
             let out = io_write io (q_bytes front) w1;
                 w2 = snd out
             in case fst out of
                  Pending \<Rightarrow> (Pending, e1, w2)
                | Ready (Inl err) \<Rightarrow> (Ready (Inl err), e1, w2)
                | Ready (Inr n) \<Rightarrow>
                    if n = 0 then (Ready (Inl WriteZero), e1, w2)
                    else if length (q_bytes front) < n then (Ready (Inl InvalidData), e1, w2)
                    else poll_queue io (advance_front n e1) w2)"
  by pat_completeness auto
termination
proof (relation "measure (\<lambda>(io, e, w). length (queue_bytes e))", simp, goal_cases)
  case (1 io e w front due e1 w1 out w2 r n)
  then have q: "en_queue e1 = front # tl (en_queue e)" by simp
  have "n \<noteq> 0" "n \<le> length (q_bytes front)" using 1 by simp_all
  with q have "length (queue_bytes (advance_front n e1)) < length (queue_bytes e1)"
    by (rule advance_front_shorter)
  moreover have "queue_bytes e1 = queue_bytes e" using 1 by (simp add: queue_bytes_def)
  ultimately show ?case by simp
qed

definition engine_poll_flush :: "'w io \<Rightarrow> direction_engine \<Rightarrow> 'w \<Rightarrow> (io_error + unit) poll \<times> direction_engine \<times> 'w" where
  "engine_poll_flush io e w =
     (let (r, e1, w1) = poll_queue io e w
      in case r of
           Ready (Inr _) \<Rightarrow> (let (r2, w2) = io_flush io w1 in (r2, e1, w2))
         | _ \<Rightarrow> (r, e1, w1))"

text \<open>The part of \<^verbatim>\<open>poll_shutdown\<close> after the queue has drained.\<close>

definition arm_shutdown :: "'w io \<Rightarrow> direction_engine \<Rightarrow> 'w \<Rightarrow> direction_engine \<times> 'w" where
  "arm_shutdown io e w =
     (case (en_shutdown_deadline e, en_slow_close e) of
        (None, Some delay) \<Rightarrow>
          let (now, w1) = io_now io w;
              e1 = e\<lparr>en_shutdown_deadline := Some (deadline_after now delay (min MAX_STREAM_FAULT_DURATION delay))\<rparr>
          in (if delay \<noteq> 0 then activate 4 e1 else e1, w1)
      | _ \<Rightarrow> (e, w))"

definition finish_shutdown :: "'w io \<Rightarrow> direction_engine \<Rightarrow> 'w \<Rightarrow> (io_error + unit) poll \<times> direction_engine \<times> 'w" where
  "finish_shutdown io e w =
     (case en_shutdown_deadline e of
        None \<Rightarrow> (let (r, w1) = io_shutdown io w in (r, e, w1))
      | Some deadline \<Rightarrow>
          let (now, w1) = io_now io w
          in if now < deadline then
               let (ready, timer, w2) = timer_poll io now deadline (en_shutdown_timer e) w1;
                   e1 = e\<lparr>en_shutdown_timer := timer\<rparr>
               in if ready then (let (r, w3) = io_shutdown io w2 in (r, e1, w3)) else (Pending, e1, w2)
             else (let (r, w2) = io_shutdown io w1 in (r, e, w2)))"

definition engine_poll_shutdown :: "'w io \<Rightarrow> direction_engine \<Rightarrow> 'w \<Rightarrow> (io_error + unit) poll \<times> direction_engine \<times> 'w" where
  "engine_poll_shutdown io e w =
     (let (r, e1, w1) = poll_queue io e w
      in case r of
           Ready (Inr _) \<Rightarrow> (let (e2, w2) = arm_shutdown io e1 w1 in finish_shutdown io e2 w2)
         | _ \<Rightarrow> (r, e1, w1))"

section \<open>Due terminations\<close>

fun earlier :: "instant option \<Rightarrow> instant option \<Rightarrow> instant option" where
  "earlier None d = d"
| "earlier (Some c) None = Some c"
| "earlier (Some c) (Some d) = Some (min c d)"

definition pending_deadline :: "direction_engine \<Rightarrow> instant option" where
  "pending_deadline e =
     earlier (map_option dc_deadline (en_disconnect e)) (Option.bind (en_blackhole e) bh_deadline)"

definition refresh_now :: "'w io \<Rightarrow> direction_engine \<Rightarrow> 'w \<Rightarrow> direction_engine \<times> 'w" where
  "refresh_now io e w =
     (if en_termination e \<noteq> None then (e, w)
      else let (now, w1) = io_now io w in (refresh_sync_terminations now e, w1))"

definition poll_due_termination :: "'w io \<Rightarrow> direction_engine \<Rightarrow> 'w \<Rightarrow> termination_info poll \<times> direction_engine \<times> 'w" where
  "poll_due_termination io e0 w0 =
     (let (e, w) = refresh_now io e0 w0
      in case en_termination e of
           Some info \<Rightarrow> (Ready info, e, w)
         | None \<Rightarrow>
             (case pending_deadline e of
                None \<Rightarrow> (poll_terminated (en_handle e), e, w)
              | Some d \<Rightarrow>
                  let (now, w1) = io_now io w;
                      (waited, e1, w2) =
                        (if now < d then
                           let (ready, timer, w') = timer_poll io now d (en_term_timer e) w1
                           in (ready, e\<lparr>en_term_timer := timer\<rparr>, w')
                         else (True, e, w1))
                  in if \<not> waited then (Pending, e1, w2)
                     else
                       let (e2, w3) = refresh_now io e1 w2
                       in case en_termination e2 of
                            Some info \<Rightarrow> (Ready info, e2, w3)
                          | None \<Rightarrow> (poll_terminated (en_handle e2), e2, w3)))"

declare poll_queue.simps [simp del]

section \<open>Contracts of the outside world\<close>

fun written :: "(io_error + nat) poll \<Rightarrow> byte list \<Rightarrow> byte list" where
  "written (Ready (Inr n)) bs = take n bs"
| "written _ bs = []"

fun timer_ok :: "armed_timer \<Rightarrow> bool" where
  "timer_ok None = True"
| "timer_ok (Some a) = (at_deadline a \<le> at_fires a)"

definition erase_drain :: "direction_engine \<Rightarrow> direction_engine" where
  "erase_drain e = e\<lparr>en_queue := [], en_buffered := 0, en_queue_timer := None,
     en_evidence := (en_evidence e)\<lparr>ev_bytes_forwarded := 0\<rparr>\<rparr>"

definition drain_frame :: "direction_engine \<Rightarrow> direction_engine \<Rightarrow> bool" where
  "drain_frame e e' = (erase_drain e' = erase_drain e)"

lemma drain_frame_refl [simp]: "drain_frame e e"
  by (simp add: drain_frame_def)

lemma drain_frame_trans: "drain_frame e e' \<Longrightarrow> drain_frame e' e'' \<Longrightarrow> drain_frame e e''"
  by (simp add: drain_frame_def)

lemma drain_frame_steps [simp]:
  "drain_frame e (e\<lparr>en_queue_timer := t\<rparr>)" "drain_frame e (advance_front n e)"
  by (simp_all add: drain_frame_def erase_drain_def advance_front_def split: list.split)

lemma drain_frame_fields:
  assumes "drain_frame e e'"
  shows
    "en_plan e' = en_plan e" "en_direction e' = en_direction e" "en_max_buffer e' = en_max_buffer e"
    "en_termination e' = en_termination e" "en_handle e' = en_handle e"
    "en_remaining_limit e' = en_remaining_limit e" "en_blackhole e' = en_blackhole e"
    "en_disconnect e' = en_disconnect e" "en_slicer_active e' = en_slicer_active e"
    "en_stream_loss e' = en_stream_loss e" "en_stream_loss_offset e' = en_stream_loss_offset e"
    "en_stream_loss_evaluated e' = en_stream_loss_evaluated e" "en_rngs e' = en_rngs e"
    "en_bandwidth e' = en_bandwidth e" "en_high_water e' = en_high_water e"
proof -
  have same: "erase_drain e' = erase_drain e" using assms by (simp add: drain_frame_def)
  show
    "en_plan e' = en_plan e" "en_direction e' = en_direction e" "en_max_buffer e' = en_max_buffer e"
    "en_termination e' = en_termination e" "en_handle e' = en_handle e"
    "en_remaining_limit e' = en_remaining_limit e" "en_blackhole e' = en_blackhole e"
    "en_disconnect e' = en_disconnect e" "en_slicer_active e' = en_slicer_active e"
    "en_stream_loss e' = en_stream_loss e" "en_stream_loss_offset e' = en_stream_loss_offset e"
    "en_stream_loss_evaluated e' = en_stream_loss_evaluated e" "en_rngs e' = en_rngs e"
    "en_bandwidth e' = en_bandwidth e" "en_high_water e' = en_high_water e"
    using
      arg_cong [OF same, of en_plan] arg_cong [OF same, of en_direction]
      arg_cong [OF same, of en_max_buffer] arg_cong [OF same, of en_termination]
      arg_cong [OF same, of en_handle] arg_cong [OF same, of en_remaining_limit]
      arg_cong [OF same, of en_blackhole] arg_cong [OF same, of en_disconnect]
      arg_cong [OF same, of en_slicer_active] arg_cong [OF same, of en_stream_loss]
      arg_cong [OF same, of en_stream_loss_offset] arg_cong [OF same, of en_stream_loss_evaluated]
      arg_cong [OF same, of en_rngs] arg_cong [OF same, of en_bandwidth]
      arg_cong [OF same, of en_high_water]
    unfolding erase_drain_def by simp_all
qed

lemma drain_frame_evidence:
  assumes "drain_frame e e'"
  shows
    "ev_bytes_accepted (en_evidence e') = ev_bytes_accepted (en_evidence e)"
    "ev_bytes_discarded (en_evidence e') = ev_bytes_discarded (en_evidence e)"
    "ev_activations (en_evidence e') = ev_activations (en_evidence e)"
    "ev_termination (en_evidence e') = ev_termination (en_evidence e)"
proof -
  have same: "erase_drain e' = erase_drain e" using assms by (simp add: drain_frame_def)
  show
    "ev_bytes_accepted (en_evidence e') = ev_bytes_accepted (en_evidence e)"
    "ev_bytes_discarded (en_evidence e') = ev_bytes_discarded (en_evidence e)"
    "ev_activations (en_evidence e') = ev_activations (en_evidence e)"
    "ev_termination (en_evidence e') = ev_termination (en_evidence e)"
    using
      arg_cong [OF same, of "\<lambda>x. ev_bytes_accepted (en_evidence x)"]
      arg_cong [OF same, of "\<lambda>x. ev_bytes_discarded (en_evidence x)"]
      arg_cong [OF same, of "\<lambda>x. ev_activations (en_evidence x)"]
      arg_cong [OF same, of "\<lambda>x. ev_termination (en_evidence x)"]
    unfolding erase_drain_def by simp_all
qed

lemma drain_frame_invariants:
  assumes "drain_frame e e'"
  shows "termination_ok e' = termination_ok e" "shape_ok e' = shape_ok e" "loss_inv sts0 e' = loss_inv sts0 e"
  unfolding termination_ok_def shape_ok_def loss_inv_def drain_frame_fields [OF assms] drain_frame_evidence [OF assms]
  by simp_all

text \<open>The queued bytes, each with the release instant of its segment.\<close>

definition stamped :: "direction_engine \<Rightarrow> (byte \<times> instant) list" where
  "stamped e = concat (map (\<lambda>q. map (\<lambda>b. (b, q_release q)) (q_bytes q)) (en_queue e))"

lemma stamped_bytes: "map fst (stamped e) = queue_bytes e"
  by (simp add: stamped_def queue_bytes_def map_concat comp_def)

lemma advance_front_effect:
  assumes "en_queue e = front # rest" "n \<le> length (q_bytes front)"
  shows "stamped e = map (\<lambda>b. (b, q_release front)) (take n (q_bytes front)) @ stamped (advance_front n e)"
    "en_buffered (advance_front n e) = en_buffered e - n"
    "ev_bytes_forwarded (en_evidence (advance_front n e)) = sat_add64 (ev_bytes_forwarded (en_evidence e)) n"
    "en_queue_timer (advance_front n e) = en_queue_timer e"
    "queue_ok e \<Longrightarrow> queue_ok (advance_front n e)"
proof -
  show "stamped e = map (\<lambda>b. (b, q_release front)) (take n (q_bytes front)) @ stamped (advance_front n e)"
    using assms by (simp add: stamped_def advance_front_def flip: map_append)
  show "en_buffered (advance_front n e) = en_buffered e - n"
    "ev_bytes_forwarded (en_evidence (advance_front n e)) = sat_add64 (ev_bytes_forwarded (en_evidence e)) n"
    "en_queue_timer (advance_front n e) = en_queue_timer e"
    using assms by (simp_all add: advance_front_def)
  show "queue_ok e \<Longrightarrow> queue_ok (advance_front n e)"
    using assms by (auto simp: advance_front_def queue_ok_def queue_bytes_def)
qed

locale runtime =
  fixes io :: "'w io" and clock :: "'w \<Rightarrow> instant"
  assumes now_law: "io_now io w = (t, w') \<Longrightarrow> clock w \<le> t \<and> t \<le> clock w'"
    and sleep_law: "io_sleep io d w = (fires, w') \<Longrightarrow> clock w + d \<le> fires \<and> clock w \<le> clock w'"
    and poll_sleep_law: "io_poll_sleep io fires w = (ready, w') \<Longrightarrow>
      clock w \<le> clock w' \<and> (ready \<longrightarrow> fires \<le> clock w')"

locale transport = runtime io clock for io :: "'w io" and clock :: "'w \<Rightarrow> instant" +
  fixes sent :: "'w \<Rightarrow> byte list"
  assumes now_sent: "sent (snd (io_now io w)) = sent w"
    and sleep_sent: "sent (snd (io_sleep io d w)) = sent w"
    and poll_sleep_sent: "sent (snd (io_poll_sleep io fires w)) = sent w"
    and write_law: "io_write io bs w = (r, w') \<Longrightarrow> clock w \<le> clock w' \<and> sent w' = sent w @ written r bs"
    and write_bound: "io_write io bs w = (Ready (Inr n), w') \<Longrightarrow> n \<le> length bs"
    and flush_law: "io_flush io w = (r2, w') \<Longrightarrow> clock w \<le> clock w' \<and> sent w' = sent w"
    and shutdown_law: "io_shutdown io w = (r2, w') \<Longrightarrow> clock w \<le> clock w' \<and> sent w' = sent w"
begin

lemma timer_poll_law:
  assumes "timer_ok timer" "now \<le> clock w" "timer_poll io now deadline timer w = (ready, timer', w')"
  shows "clock w \<le> clock w' \<and> sent w' = sent w \<and> timer_ok timer' \<and> (ready \<longrightarrow> deadline \<le> clock w')"
proof -
  obtain a w1 where armed: "clock w \<le> clock w1" "sent w1 = sent w" "deadline \<le> at_fires a" "at_deadline a = deadline"
    and poll: "(ready, timer', w') = (let (rd, w2) = io_poll_sleep io (at_fires a) w1 in (rd, if rd then None else Some a, w2))"
  proof (cases "map_option at_deadline timer = Some deadline")
    case True
    then obtain a where "timer = Some a" "at_deadline a = deadline" by auto
    with assms that [of w a] show ?thesis by (simp add: timer_poll_def)
  next
    case False
    obtain fires w1 where sl: "io_sleep io (deadline - now) w = (fires, w1)" by fastforce
    have "deadline \<le> fires" "clock w \<le> clock w1" using sleep_law [OF sl] assms(2) by linarith+
    moreover have "sent w1 = sent w" using sleep_sent [of "deadline - now" w] sl by simp
    ultimately show ?thesis
      using assms(3) False sl that [of w1 "\<lparr>at_fires = fires, at_deadline = deadline\<rparr>"]
      by (simp add: timer_poll_def split: option.splits)
  qed
  obtain rd w2 where p: "io_poll_sleep io (at_fires a) w1 = (rd, w2)" by fastforce
  show ?thesis
    using poll_sleep_law [OF p] poll_sleep_sent [of "at_fires a" w1] p poll armed by auto
qed

lemma front_due_law:
  assumes "timer_ok (en_queue_timer e)" "front_due io front e w = (due, e1, w1)"
  shows "clock w \<le> clock w1 \<and> sent w1 = sent w \<and> timer_ok (en_queue_timer e1) \<and>
    (due \<longrightarrow> q_release front \<le> clock w1) \<and> (\<exists>t. e1 = e\<lparr>en_queue_timer := t\<rparr>)"
proof -
  obtain now w0 where n: "io_now io w = (now, w0)" by fastforce
  note clk = now_law [OF n] now_sent [of w, unfolded n snd_conv]
  show ?thesis
  proof (cases "now < q_release front")
    case True
    obtain rd tm w2 where t: "timer_poll io now (q_release front) (en_queue_timer e) w0 = (rd, tm, w2)"
      by (metis prod_cases3)
    have "due = rd" "e1 = e\<lparr>en_queue_timer := tm\<rparr>" "w1 = w2"
      using assms(2) n t True by (simp_all add: front_due_def)
    then show ?thesis using timer_poll_law [OF assms(1) _ t] clk by auto
  next
    case False
    then have "due" "e1 = e" "w1 = w0" using assms(2) n by (simp_all add: front_due_def)
    moreover have "e = e\<lparr>en_queue_timer := en_queue_timer e\<rparr>" by simp
    ultimately show ?thesis using clk assms(1) False by (metis le_trans linorder_not_less)
  qed
qed

end

section \<open>What draining achieves\<close>

text \<open>
  \<open>drained clock sent e w e' w'\<close>: a prefix of the queue went out, in order, and no byte of it before
  its release instant; the rest is still queued.
\<close>

definition drained :: "('w \<Rightarrow> instant) \<Rightarrow> ('w \<Rightarrow> byte list) \<Rightarrow> direction_engine \<Rightarrow> 'w \<Rightarrow> direction_engine \<Rightarrow> 'w \<Rightarrow> bool" where
  "drained clock sent e w e' w' = (\<exists>out.
     stamped e = out @ stamped e' \<and> sent w' = sent w @ map fst out \<and>
     (\<forall>(b, release) \<in> set out. release \<le> clock w') \<and> clock w \<le> clock w' \<and>
     en_buffered e' = en_buffered e - length out \<and>
     (ev_bytes_accepted (en_evidence e) < U64_MAX \<longrightarrow> conserved e \<longrightarrow> queue_ok e \<longrightarrow> conserved e') \<and>
     (queue_ok e \<longrightarrow> queue_ok e') \<and> drain_frame e e' \<and> timer_ok (en_queue_timer e'))"

lemma conserved_advance:
  assumes "conserved e" "en_queue e = front # rest" "n \<le> length (q_bytes front)" "queue_ok e"
  shows "conserved (advance_front n e)"
proof -
  have "n \<le> en_buffered e" using assms(2,3,4) by (simp add: queue_ok_def queue_bytes_def)
  with assms(1) show ?thesis
    using advance_front_effect(2,3) [OF assms(2,3)] drain_frame_evidence [OF drain_frame_steps(2) [of e n]]
    by (auto simp: conserved_def sat_add64_def Let_def)
qed

lemma conserved_timer: "conserved (e\<lparr>en_queue_timer := t\<rparr>) = conserved e" "queue_ok (e\<lparr>en_queue_timer := t\<rparr>) = queue_ok e"
  "stamped (e\<lparr>en_queue_timer := t\<rparr>) = stamped e"
  by (simp_all add: conserved_def queue_ok_def queue_bytes_def stamped_def)

context transport
begin

lemma poll_queue_drains:
  assumes "timer_ok (en_queue_timer e)" "poll_queue io e w = (r, e', w')"
  shows "drained clock sent e w e' w' \<and> (r = Ready (Inr ()) \<longrightarrow> en_queue e' = [])"
  using assms
proof (induction "length (queue_bytes e)" arbitrary: e w r e' w' rule: less_induct)
  case less
  show ?case
  proof (cases "en_queue e")
    case Nil
    then have "r = Ready (Inr ())" "e' = e" "w' = w" using less.prems(2) poll_queue.simps [of io e w] by simp_all
    with Nil less.prems(1) show ?thesis by (auto simp: drained_def stamped_def)
  next
    case (Cons front rest)
    obtain due e1 w1 where d: "front_due io front e w = (due, e1, w1)" by (metis prod_cases3)
    obtain t where e1: "e1 = e\<lparr>en_queue_timer := t\<rparr>" and law: "clock w \<le> clock w1" "sent w1 = sent w"
      "timer_ok (en_queue_timer e1)" "due \<longrightarrow> q_release front \<le> clock w1"
      using front_due_law [OF less.prems(1) d] by blast
    obtain o2 w2 where out: "io_write io (q_bytes front) w1 = (o2, w2)" by fastforce
    note wr = write_law [OF out]
    have unf: "poll_queue io e w =
       (if \<not> due then (Pending, e1, w1)
        else case o2 of
               Pending \<Rightarrow> (Pending, e1, w2)
             | Ready (Inl err) \<Rightarrow> (Ready (Inl err), e1, w2)
             | Ready (Inr n) \<Rightarrow>
                 if n = 0 then (Ready (Inl WriteZero), e1, w2)
                 else if length (q_bytes front) < n then (Ready (Inl InvalidData), e1, w2)
                 else poll_queue io (advance_front n e1) w2)"
      unfolding poll_queue.simps [of io e w] Cons list.sel d fst_conv snd_conv Let_def out by simp
    have quiet: "drained clock sent e w e1 v" if "clock w1 \<le> clock v" "sent v = sent w" for v
      using that law e1 less.prems(1) by (auto simp: drained_def conserved_timer)
    show ?thesis
    proof (cases "due \<and> (\<exists>n. o2 = Ready (Inr n) \<and> n \<noteq> 0)")
      case True
      then obtain n where n: "o2 = Ready (Inr n)" "n \<noteq> 0" by blast
      have le: "n \<le> length (q_bytes front)" using write_bound out n(1) by blast
      have q1: "en_queue e1 = front # rest" using Cons e1 by simp
      let ?e2 = "advance_front n e1"
      note eff = advance_front_effect [OF q1 le]
      have "length (queue_bytes ?e2) < length (queue_bytes e)"
        using advance_front_shorter [OF q1 n(2) le] e1 by (simp add: queue_bytes_def)
      moreover have "timer_ok (en_queue_timer ?e2)" using law(3) eff(4) by simp
      moreover have "poll_queue io ?e2 w2 = (r, e', w')" using less.prems(2) unf True n le by simp
      ultimately have IH: "drained clock sent ?e2 w2 e' w'" "r = Ready (Inr ()) \<longrightarrow> en_queue e' = []"
        using less.hyps by blast+
      obtain out' where o: "stamped ?e2 = out' @ stamped e'" "sent w' = sent w2 @ map fst out'"
        "\<forall>(b, release) \<in> set out'. release \<le> clock w'" "clock w2 \<le> clock w'"
        "en_buffered e' = en_buffered ?e2 - length out'"
        "ev_bytes_accepted (en_evidence ?e2) < U64_MAX \<longrightarrow> conserved ?e2 \<longrightarrow> queue_ok ?e2 \<longrightarrow> conserved e'"
        "queue_ok ?e2 \<longrightarrow> queue_ok e'" "drain_frame ?e2 e'" "timer_ok (en_queue_timer e')"
        using IH(1) unfolding drained_def by blast
      let ?out = "map (\<lambda>b. (b, q_release front)) (take n (q_bytes front)) @ out'"
      have frame: "drain_frame e ?e2" unfolding e1 by (rule drain_frame_trans [OF drain_frame_steps])
      have "stamped e = ?out @ stamped e'" using eff(1) o(1) e1 by (simp add: conserved_timer)
      moreover have "sent w' = sent w @ map fst ?out"
        using o(2) wr n(1) law(2) by (simp add: comp_def)
      moreover have "\<forall>(b, release) \<in> set ?out. release \<le> clock w'"
        using o(3,4) law(4) wr True by auto
      moreover have "clock w \<le> clock w'" using o(4) wr law(1) by linarith
      moreover have "en_buffered e' = en_buffered e - length ?out" using o(5) eff(2) le e1 by simp
      moreover have "ev_bytes_accepted (en_evidence e) < U64_MAX \<longrightarrow> conserved e \<longrightarrow> queue_ok e \<longrightarrow> conserved e'"
        using o(6) conserved_advance [OF _ q1 le] eff(5) e1 drain_frame_evidence(1) [OF frame]
        by (simp add: conserved_timer)
      moreover have "queue_ok e \<longrightarrow> queue_ok e'" using o(7) eff(5) e1 by (simp add: conserved_timer)
      ultimately show ?thesis
        using IH(2) o(9) drain_frame_trans [OF frame o(8)] unfolding drained_def by blast
    next
      case False
      have "written o2 (q_bytes front) = []" if due using False that by (cases "(o2, q_bytes front)" rule: written.cases) auto
      then have "e' = e1 \<and> r \<noteq> Ready (Inr ()) \<and> (w' = w1 \<or> w' = w2 \<and> due)"
        using less.prems(2) unf False by (auto split: poll.splits sum.splits if_splits)
      then show ?thesis using quiet [of w1] quiet [of w2] wr law(2) \<open>due \<Longrightarrow> written o2 _ = []\<close> by auto
    qed
  qed
qed

end

section \<open>Shutdown and due terminations\<close>

text \<open>\<open>e'\<close> differs from \<open>e\<close> in its termination, its shutdown state and its activation counts only.\<close>

definition erase_misc :: "direction_engine \<Rightarrow> direction_engine" where
  "erase_misc e = e\<lparr>en_termination := None, en_handle := None, en_term_timer := None, en_shutdown_timer := None,
     en_shutdown_deadline := None,
     en_evidence := (en_evidence e)\<lparr>ev_termination := None, ev_activations := []\<rparr>\<rparr>"

definition misc_frame :: "direction_engine \<Rightarrow> direction_engine \<Rightarrow> bool" where
  "misc_frame e e' = (erase_misc e' = erase_misc e \<and>
     length (ev_activations (en_evidence e')) = length (ev_activations (en_evidence e)))"

lemma misc_frame_refl [simp]: "misc_frame e e"
  by (simp add: misc_frame_def)

lemma misc_frame_trans: "misc_frame e e' \<Longrightarrow> misc_frame e' e'' \<Longrightarrow> misc_frame e e''"
  by (simp add: misc_frame_def)

lemma misc_frame_steps [simp]:
  "misc_frame e (e\<lparr>en_term_timer := t\<rparr>)" "misc_frame e (e\<lparr>en_shutdown_timer := t\<rparr>)"
  "misc_frame e (e\<lparr>en_shutdown_deadline := d\<rparr>)" "misc_frame e (activate i e)"
  by (simp_all add: misc_frame_def erase_misc_def activate_def)

lemma term_frame_misc_frame:
  assumes "term_frame e e'"
  shows "misc_frame e e'"
proof -
  have "erase_misc x = (erase_term x)\<lparr>en_term_timer := None, en_shutdown_timer := None, en_shutdown_deadline := None\<rparr>"
    for x by (simp add: erase_misc_def erase_term_def)
  then show ?thesis using assms by (simp add: misc_frame_def term_frame_def)
qed

lemma misc_frame_fields:
  assumes "misc_frame e e'"
  shows
    "en_plan e' = en_plan e" "en_direction e' = en_direction e" "en_queue e' = en_queue e"
    "en_buffered e' = en_buffered e" "en_high_water e' = en_high_water e"
    "en_max_buffer e' = en_max_buffer e" "en_rngs e' = en_rngs e"
    "en_remaining_limit e' = en_remaining_limit e" "en_blackhole e' = en_blackhole e"
    "en_disconnect e' = en_disconnect e" "en_bandwidth e' = en_bandwidth e"
    "en_slicer_active e' = en_slicer_active e" "en_stream_loss e' = en_stream_loss e"
    "en_stream_loss_offset e' = en_stream_loss_offset e" "en_queue_timer e' = en_queue_timer e"
proof -
  have same: "erase_misc e' = erase_misc e" using assms by (simp add: misc_frame_def)
  show
    "en_plan e' = en_plan e" "en_direction e' = en_direction e" "en_queue e' = en_queue e"
    "en_buffered e' = en_buffered e" "en_high_water e' = en_high_water e"
    "en_max_buffer e' = en_max_buffer e" "en_rngs e' = en_rngs e"
    "en_remaining_limit e' = en_remaining_limit e" "en_blackhole e' = en_blackhole e"
    "en_disconnect e' = en_disconnect e" "en_bandwidth e' = en_bandwidth e"
    "en_slicer_active e' = en_slicer_active e" "en_stream_loss e' = en_stream_loss e"
    "en_stream_loss_offset e' = en_stream_loss_offset e" "en_queue_timer e' = en_queue_timer e"
    using
      arg_cong [OF same, of en_plan] arg_cong [OF same, of en_direction] arg_cong [OF same, of en_queue]
      arg_cong [OF same, of en_buffered] arg_cong [OF same, of en_high_water]
      arg_cong [OF same, of en_max_buffer] arg_cong [OF same, of en_rngs]
      arg_cong [OF same, of en_remaining_limit] arg_cong [OF same, of en_blackhole]
      arg_cong [OF same, of en_disconnect] arg_cong [OF same, of en_bandwidth]
      arg_cong [OF same, of en_slicer_active] arg_cong [OF same, of en_stream_loss]
      arg_cong [OF same, of en_stream_loss_offset] arg_cong [OF same, of en_queue_timer]
    unfolding erase_misc_def by simp_all
qed

lemma misc_frame_evidence:
  assumes "misc_frame e e'"
  shows
    "ev_bytes_accepted (en_evidence e') = ev_bytes_accepted (en_evidence e)"
    "ev_bytes_forwarded (en_evidence e') = ev_bytes_forwarded (en_evidence e)"
    "ev_bytes_discarded (en_evidence e') = ev_bytes_discarded (en_evidence e)"
proof -
  have same: "erase_misc e' = erase_misc e" using assms by (simp add: misc_frame_def)
  show
    "ev_bytes_accepted (en_evidence e') = ev_bytes_accepted (en_evidence e)"
    "ev_bytes_forwarded (en_evidence e') = ev_bytes_forwarded (en_evidence e)"
    "ev_bytes_discarded (en_evidence e') = ev_bytes_discarded (en_evidence e)"
    using
      arg_cong [OF same, of "\<lambda>x. ev_bytes_accepted (en_evidence x)"]
      arg_cong [OF same, of "\<lambda>x. ev_bytes_forwarded (en_evidence x)"]
      arg_cong [OF same, of "\<lambda>x. ev_bytes_discarded (en_evidence x)"]
    unfolding erase_misc_def by simp_all
qed

lemma misc_frame_invariants:
  assumes "misc_frame e e'"
  shows "queue_ok e' = queue_ok e" "conserved e' = conserved e" "shape_ok e' = shape_ok e"
    "loss_inv sts0 e' = loss_inv sts0 e" "queue_bytes e' = queue_bytes e" "stamped e' = stamped e"
proof -
  have "length (ev_activations (en_evidence e')) = length (ev_activations (en_evidence e))"
    using assms by (simp add: misc_frame_def)
  then show "queue_ok e' = queue_ok e" "conserved e' = conserved e" "shape_ok e' = shape_ok e"
    "loss_inv sts0 e' = loss_inv sts0 e" "queue_bytes e' = queue_bytes e" "stamped e' = stamped e"
    unfolding queue_ok_def conserved_def shape_ok_def loss_inv_def queue_bytes_def stamped_def
      misc_frame_fields [OF assms] misc_frame_evidence [OF assms] Let_def by simp_all
qed

definition timers_ok :: "direction_engine \<Rightarrow> bool" where
  "timers_ok e = (timer_ok (en_queue_timer e) \<and> timer_ok (en_term_timer e) \<and> timer_ok (en_shutdown_timer e))"

text \<open>What a poll that may change the termination or shutdown state achieves.\<close>

definition settled :: "('w \<Rightarrow> instant) \<Rightarrow> ('w \<Rightarrow> byte list) \<Rightarrow> direction_engine \<Rightarrow> 'w \<Rightarrow> direction_engine \<Rightarrow> 'w \<Rightarrow> bool" where
  "settled clock sent e w e' w' =
     (clock w \<le> clock w' \<and> sent w' = sent w \<and> misc_frame e e' \<and> (timers_ok e \<longrightarrow> timers_ok e') \<and>
      (termination_ok e \<longrightarrow> termination_ok e') \<and>
      (\<forall>t. en_termination e = Some t \<longrightarrow> en_termination e' = Some t))"

lemma settled_trans: "settled clock sent e w e1 w1 \<Longrightarrow> settled clock sent e1 w1 e2 w2 \<Longrightarrow> settled clock sent e w e2 w2"
  unfolding settled_def by (auto intro: misc_frame_trans order_trans)

lemma settled_world: "clock w \<le> clock w' \<Longrightarrow> sent w' = sent w \<Longrightarrow> settled clock sent e w e w'"
  by (simp add: settled_def)

context transport
begin

lemma refresh_now_settled:
  assumes "refresh_now io e w = (e', w')"
  shows "settled clock sent e w e' w'"
proof (cases "en_termination e")
  case None
  obtain now w1 where n: "io_now io w = (now, w1)" by fastforce
  have "e' = refresh_sync_terminations now e" "w' = w1" using assms None n by (simp_all add: refresh_now_def)
  then show ?thesis
    using None now_law [OF n] now_sent [of w] n term_frame_misc_frame [OF term_frame_refresh]
      refresh_termination_ok by (simp add: settled_def timers_ok_def)
qed (use assms in \<open>simp add: refresh_now_def settled_def\<close>)

lemma poll_due_termination_settled:
  assumes "timers_ok e" "poll_due_termination io e w = (r, e', w')"
  shows "settled clock sent e w e' w'"
proof -
  obtain e1 w1 where first: "refresh_now io e w = (e1, w1)" by fastforce
  note s1 = refresh_now_settled [OF first]
  show ?thesis
  proof (cases "en_termination e1 = None \<and> pending_deadline e1 \<noteq> None")
    case False
    then have "e' = e1 \<and> w' = w1"
      using assms(2) first by (auto simp: poll_due_termination_def split: option.splits)
    with s1 show ?thesis by simp
  next
    case True
    then obtain d where d: "pending_deadline e1 = Some d" by blast
    obtain now w2 where n: "io_now io w1 = (now, w2)" by fastforce
    have s2: "settled clock sent e1 w1 e1 w2"
      using now_law [OF n] now_sent [of w1] n by (intro settled_world) simp_all
    obtain wt e2 w3 where wait: "(if now < d then
         let (ready, timer, w') = timer_poll io now d (en_term_timer e1) w2
         in (ready, e1\<lparr>en_term_timer := timer\<rparr>, w') else (True, e1, w2)) = (wt, e2, w3)"
      by (metis prod_cases3)
    have s3: "settled clock sent e1 w2 e2 w3"
    proof (cases "now < d")
      case True
      obtain rd tm w' where t: "timer_poll io now d (en_term_timer e1) w2 = (rd, tm, w')" by (metis prod_cases3)
      have "timers_ok e1" using s1 assms(1) by (simp add: settled_def)
      with timer_poll_law [OF _ _ t] now_law [OF n] wait t True show ?thesis
        by (auto simp: settled_def timers_ok_def termination_ok_def)
    qed (use wait in \<open>simp add: settled_def\<close>)
    obtain e3 w4 where last: "refresh_now io e2 w3 = (e3, w4)" by fastforce
    note s4 = refresh_now_settled [OF last]
    have "e' = e2 \<and> w' = w3 \<or> e' = e3 \<and> w' = w4"
      using assms(2) first True d n wait last
      by (cases wt; cases "en_termination e3") (simp_all add: poll_due_termination_def)
    then show ?thesis using s1 s2 s3 s4 settled_trans by metis
  qed
qed

end

lemma drained_later:
  assumes "drained clock sent e w e' w1" "clock w1 \<le> clock w'" "sent w' = sent w1"
  shows "drained clock sent e w e' w'"
  using assms unfolding drained_def by (force intro: order_trans)

context transport
begin

lemma flush_drains:
  assumes "timer_ok (en_queue_timer e)" "engine_poll_flush io e w = (r, e', w')"
  shows "drained clock sent e w e' w' \<and> (r = Ready (Inr ()) \<longrightarrow> en_queue e' = [])"
proof -
  obtain r1 e1 w1 where q: "poll_queue io e w = (r1, e1, w1)" by (metis prod_cases3)
  note d = poll_queue_drains [OF assms(1) q]
  obtain r2 w2 where f: "io_flush io w1 = (r2, w2)" by fastforce
  note fl = flush_law [OF f]
  show ?thesis
  proof (cases "r1 = Ready (Inr ())")
    case True
    then have "e' = e1" "w' = w2" using assms(2) q f by (simp_all add: engine_poll_flush_def)
    moreover have "drained clock sent e w e1 w2" using drained_later [of clock sent e w e1 w1 w2] d fl by blast
    ultimately show ?thesis using d True by simp
  next
    case False
    then have "(r, e', w') = (r1, e1, w1)"
      using assms(2) q by (cases r1) (auto simp: engine_poll_flush_def split: sum.splits)
    with d show ?thesis by simp
  qed
qed

lemma arm_shutdown_settled:
  assumes "arm_shutdown io e w = (e', w')"
  shows "settled clock sent e w e' w' \<and> en_shutdown_timer e' = en_shutdown_timer e \<and>
    (\<forall>d. en_shutdown_deadline e = Some d \<longrightarrow> en_shutdown_deadline e' = Some d) \<and>
    (\<forall>d. en_shutdown_deadline e = None \<longrightarrow> en_slow_close e = Some d \<longrightarrow> clock w' + d \<le> INSTANT_MAX \<longrightarrow>
       (\<exists>t \<ge> clock w + d. en_shutdown_deadline e' = Some t))"
proof (cases "en_shutdown_deadline e = None \<and> en_slow_close e \<noteq> None")
  case True
  then obtain d where d: "en_slow_close e = Some d" by blast
  obtain now w1 where n: "io_now io w = (now, w1)" by fastforce
  let ?e1 = "e\<lparr>en_shutdown_deadline := Some (deadline_after now d (min MAX_STREAM_FAULT_DURATION d))\<rparr>"
  have e': "e' = (if d \<noteq> 0 then activate 4 ?e1 else ?e1)" "w' = w1"
    using assms True d n by (auto simp: arm_shutdown_def Let_def)
  have "misc_frame e e'" unfolding e' using misc_frame_trans [OF misc_frame_steps(3,4)] by simp
  moreover have "en_shutdown_deadline e' = Some (deadline_after now d (min MAX_STREAM_FAULT_DURATION d))"
    "en_shutdown_timer e' = en_shutdown_timer e" "en_term_timer e' = en_term_timer e" "en_queue_timer e' = en_queue_timer e"
    "en_termination e' = en_termination e" "termination_ok e' = termination_ok e"
    by (simp_all add: e' activate_def termination_ok_def)
  moreover have "clock w + d \<le> deadline_after now d fb" if "clock w' + d \<le> INSTANT_MAX" for fb
  proof -
    have "now + d \<le> INSTANT_MAX" using that now_law [OF n] unfolding e'(2) by linarith
    then show ?thesis using now_law [OF n] by (simp add: deadline_after_exact)
  qed
  ultimately show ?thesis
    using True d now_law [OF n] now_sent [of w] n e'(2) by (auto simp: settled_def timers_ok_def)
next
  case False
  then have "e' = e" "w' = w" using assms by (auto simp: arm_shutdown_def split: option.splits)
  with False show ?thesis by (auto simp: settled_def)
qed

lemma finish_shutdown_settled:
  assumes "timers_ok e" "finish_shutdown io e w = (r, e', w')"
  shows "settled clock sent e w e' w' \<and>
    (\<forall>d. en_shutdown_deadline e = Some d \<longrightarrow> r \<noteq> Pending \<longrightarrow> d \<le> clock w')"
proof (cases "en_shutdown_deadline e")
  case None
  obtain r1 w1 where s: "io_shutdown io w = (r1, w1)" by fastforce
  have "e' = e" "w' = w1" using assms(2) None s by (simp_all add: finish_shutdown_def)
  with shutdown_law [OF s] None show ?thesis by (simp add: settled_world)
next
  case (Some d)
  obtain now w1 where n: "io_now io w = (now, w1)" by fastforce
  note nl = now_law [OF n] now_sent [of w, unfolded n snd_conv]
  show ?thesis
  proof (cases "now < d")
    case True
    obtain rd tm w2 where t: "timer_poll io now d (en_shutdown_timer e) w1 = (rd, tm, w2)" by (metis prod_cases3)
    have tl: "clock w1 \<le> clock w2 \<and> sent w2 = sent w1 \<and> timer_ok tm \<and> (rd \<longrightarrow> d \<le> clock w2)"
      using timer_poll_law [OF _ _ t] assms(1) nl by (simp add: timers_ok_def)
    obtain r3 w3 where s: "io_shutdown io w2 = (r3, w3)" by fastforce
    let ?e1 = "e\<lparr>en_shutdown_timer := tm\<rparr>"
    have "(r, e', w') = (if rd then (r3, ?e1, w3) else (Pending, ?e1, w2))"
      using assms(2) Some n True t s by (cases rd) (simp_all add: finish_shutdown_def Let_def)
    then show ?thesis
      using tl nl shutdown_law [OF s] Some assms(1)
      by (auto simp: settled_def timers_ok_def termination_ok_def split: if_splits)
  next
    case False
    obtain r2 w2 where s: "io_shutdown io w1 = (r2, w2)" by fastforce
    have "e' = e" "w' = w2" using assms(2) Some n False s by (simp_all add: finish_shutdown_def)
    then show ?thesis using shutdown_law [OF s] nl False Some by (auto simp: settled_def)
  qed
qed

text \<open>Shutdown drains first, then settles.\<close>

lemma shutdown_drains:
  assumes "timers_ok e" "engine_poll_shutdown io e w = (r, e', w')"
  shows "\<exists>e1 w1. drained clock sent e w e1 w1 \<and> settled clock sent e1 w1 e' w' \<and> (r = Ready (Inr ()) \<longrightarrow> en_queue e' = [])"
proof -
  obtain r1 e1 w1 where q: "poll_queue io e w = (r1, e1, w1)" by (metis prod_cases3)
  have d: "drained clock sent e w e1 w1" "r1 = Ready (Inr ()) \<longrightarrow> en_queue e1 = []"
    using poll_queue_drains [OF _ q] assms(1) by (simp_all add: timers_ok_def)
  show ?thesis
  proof (cases "r1 = Ready (Inr ())")
    case True
    obtain e2 w2 where a: "arm_shutdown io e1 w1 = (e2, w2)" by fastforce
    have f: "finish_shutdown io e2 w2 = (r, e', w')"
      using assms(2) q a True by (simp add: engine_poll_shutdown_def)
    have same: "erase_drain e1 = erase_drain e" using d(1) by (auto simp: drained_def drain_frame_def)
    have tm: "en_term_timer e1 = en_term_timer e" "en_shutdown_timer e1 = en_shutdown_timer e"
      using arg_cong [OF same, of en_term_timer] arg_cong [OF same, of en_shutdown_timer]
      by (simp_all add: erase_drain_def)
    moreover have "timer_ok (en_queue_timer e1)" using d(1) by (auto simp: drained_def)
    ultimately have t1: "timers_ok e1" using assms(1) by (simp add: timers_ok_def)
    have s1: "settled clock sent e1 w1 e2 w2" using arm_shutdown_settled [OF a] by simp
    then have "timers_ok e2" using t1 by (simp add: settled_def)
    then have s: "settled clock sent e1 w1 e' w'"
      using settled_trans [OF s1] finish_shutdown_settled [OF _ f] by blast
    then have "en_queue e' = en_queue e1" using misc_frame_fields(3) unfolding settled_def by blast
    with d s True show ?thesis by auto
  next
    case False
    then have "(r, e', w') = (r1, e1, w1)"
      using assms(2) q by (cases r1) (auto simp: engine_poll_shutdown_def split: sum.splits)
    with d False settled_world [of clock w1 w1 sent e1] show ?thesis by auto
  qed
qed

end

section \<open>Runs of an engine\<close>

text \<open>
  Any interleaving of admissions and polls. Two ghost fields record the input side: the number of
  accepted bytes, and the accepted bytes that no blackhole discarded.
\<close>

record 'w run =
  r_engine :: direction_engine
  r_world :: 'w
  r_accepted :: nat
  r_classified :: "byte list"

inductive engine_step :: "'w io \<Rightarrow> 'w run \<Rightarrow> 'w run \<Rightarrow> bool" for io where
  step_accept: "accept input t1 t2 t3 (r_engine s) = (n, e') \<Longrightarrow>
    engine_step io s (s\<lparr>r_engine := e', r_accepted := r_accepted s + n,
      r_classified := r_classified s @ (if blackhole_discarding t3 (r_engine s) then [] else take n input)\<rparr>)"
| step_flush: "engine_poll_flush io (r_engine s) (r_world s) = (r, e', w') \<Longrightarrow>
    engine_step io s (s\<lparr>r_engine := e', r_world := w'\<rparr>)"
| step_shutdown: "engine_poll_shutdown io (r_engine s) (r_world s) = (r, e', w') \<Longrightarrow>
    engine_step io s (s\<lparr>r_engine := e', r_world := w'\<rparr>)"
| step_due: "poll_due_termination io (r_engine s) (r_world s) = (t, e', w') \<Longrightarrow>
    engine_step io s (s\<lparr>r_engine := e', r_world := w'\<rparr>)"

inductive engine_runs :: "'w io \<Rightarrow> 'w run \<Rightarrow> 'w run \<Rightarrow> bool" for io where
  runs_refl: "engine_runs io s s"
| runs_step: "engine_runs io s s' \<Longrightarrow> engine_step io s' s'' \<Longrightarrow> engine_runs io s s''"

inductive_cases engine_step_cases [consumes 1, case_names step_accept step_flush step_shutdown step_due]:
  "engine_step io s s'"

definition run_start :: "direction_engine \<Rightarrow> 'w \<Rightarrow> 'w run" where
  "run_start e w = \<lparr>r_engine = e, r_world = w, r_accepted = 0, r_classified = []\<rparr>"

text \<open>The invariant of the runs of engine \<open>e0\<close> from world \<open>w0\<close>.\<close>

definition limit_tracks :: "(nat \<times> fault_id) option \<Rightarrow> nat \<Rightarrow> (nat \<times> fault_id) option \<Rightarrow> bool" where
  "limit_tracks l0 n l = (l = limit_after n l0 \<and> (case l0 of None \<Rightarrow> True | Some (bytes, _) \<Rightarrow> n \<le> bytes))"

definition run_inv :: "('w \<Rightarrow> byte list) \<Rightarrow> direction_engine \<Rightarrow> 'w \<Rightarrow> 'w run \<Rightarrow> bool" where
  "run_inv sent e0 w0 s =
     (let e = r_engine s; sts0 = en_stream_loss e0 in
      engine_wf e \<and> loss_inv sts0 e \<and> timers_ok e \<and> en_plan e = en_plan e0 \<and>
      limit_tracks (en_remaining_limit e0) (r_accepted s) (en_remaining_limit e) \<and>
      (list_ex (\<lambda>st. st \<noteq> None) sts0 \<longrightarrow> en_stream_loss_offset e = length (r_classified s)) \<and>
      sent (r_world s) @ queue_bytes e = sent w0 @ survivors (dropped sts0 e0) 0 (r_classified s))"

lemma limit_after_add: "limit_after n (limit_after m l) = limit_after (m + n) l"
  by (cases l) (auto simp: limit_after_def)

lemma limit_tracks_accept:
  assumes "limit_tracks l0 m (en_remaining_limit e)" "n \<le> limit_available e"
  shows "limit_tracks l0 (m + n) (limit_after n (en_remaining_limit e))"
  using assms by (cases l0) (auto simp: limit_tracks_def limit_after_add limit_available_def, auto simp: limit_after_def)

lemma drained_bytes:
  assumes "drained clock sent e w e' w'"
  shows "sent w' @ queue_bytes e' = sent w @ queue_bytes e"
proof -
  obtain out where o: "stamped e = out @ stamped e'" "sent w' = sent w @ map fst out"
    using assms unfolding drained_def by blast
  have "queue_bytes e = map fst out @ queue_bytes e'"
    using arg_cong [OF o(1), of "map fst"] by (simp add: stamped_bytes)
  with o(2) show ?thesis by simp
qed

lemma drained_wf:
  assumes "drained clock sent e w e' w'" "engine_wf e"
  shows "engine_wf e'"
proof -
  have frame: "drain_frame e e'" and q: "queue_ok e'" using assms by (auto simp: drained_def engine_wf_def)
  have "conserved e'"
  proof (cases "ev_bytes_accepted (en_evidence e) < U64_MAX")
    case True
    then show ?thesis using assms by (auto simp: drained_def engine_wf_def)
  next
    case False
    then show ?thesis using drain_frame_evidence(1) [OF frame] by (simp add: conserved_def Let_def)
  qed
  with q assms(2) drain_frame_invariants [OF frame] show ?thesis by (simp add: engine_wf_def)
qed

lemma drained_timers:
  assumes "drained clock sent e w e' w'" "timers_ok e"
  shows "timers_ok e'"
proof -
  have same: "erase_drain e' = erase_drain e" using assms(1) by (auto simp: drained_def drain_frame_def)
  have "en_term_timer e' = en_term_timer e" "en_shutdown_timer e' = en_shutdown_timer e"
    using arg_cong [OF same, of en_term_timer] arg_cong [OF same, of en_shutdown_timer]
    by (simp_all add: erase_drain_def)
  moreover have "timer_ok (en_queue_timer e')" using assms(1) by (auto simp: drained_def)
  ultimately show ?thesis using assms(2) by (simp add: timers_ok_def)
qed

lemma run_inv_drained:
  assumes inv: "run_inv sent e0 w0 s" and d: "drained clock sent (r_engine s) (r_world s) e' w'"
  shows "run_inv sent e0 w0 (s\<lparr>r_engine := e', r_world := w'\<rparr>)"
proof -
  have frame: "drain_frame (r_engine s) e'" using d by (auto simp: drained_def)
  show ?thesis
    using inv drained_wf [OF d] drained_timers [OF d] drained_bytes [OF d] drain_frame_fields [OF frame]
      drain_frame_invariants(3) [OF frame]
    by (simp add: run_inv_def Let_def)
qed

lemma run_inv_settled:
  assumes inv: "run_inv sent e0 w0 s" and st: "settled clock sent (r_engine s) (r_world s) e' w'"
  shows "run_inv sent e0 w0 (s\<lparr>r_engine := e', r_world := w'\<rparr>)"
proof -
  have frame: "misc_frame (r_engine s) e'" using st by (auto simp: settled_def)
  show ?thesis
    using inv st misc_frame_fields [OF frame] misc_frame_invariants [OF frame]
    by (simp add: run_inv_def Let_def settled_def engine_wf_def)
qed

lemma run_inv_accept:
  assumes inv: "run_inv sent e0 w0 s" and run: "accept input t1 t2 t3 (r_engine s) = (n, e')"
  shows "run_inv sent e0 w0 (s\<lparr>r_engine := e', r_accepted := r_accepted s + n,
      r_classified := r_classified s @ (if blackhole_discarding t3 (r_engine s) then [] else take n input)\<rparr>)"
proof -
  let ?e = "r_engine s" and ?sts = "en_stream_loss e0"
  have wf: "engine_wf ?e" and li: "loss_inv ?sts ?e" and plan: "en_plan ?e = en_plan e0"
    and track: "limit_tracks (en_remaining_limit e0) (r_accepted s) (en_remaining_limit ?e)"
    and off: "list_ex (\<lambda>st. st \<noteq> None) ?sts \<longrightarrow> en_stream_loss_offset ?e = length (r_classified s)"
    and bytes: "sent (r_world s) @ queue_bytes ?e = sent w0 @ survivors (dropped ?sts e0) 0 (r_classified s)"
    using inv by (simp_all add: run_inv_def Let_def)
  from accept_contract [OF wf li run] have n: "n \<le> length input"
    and ad: "admitted ?e n (accept_kept ?sts t3 ?e (take n input)) e'" and li': "loss_inv ?sts e'"
    and off': "en_stream_loss_offset e' = (if blackhole_discarding t3 ?e \<or> \<not> loss_active ?e
       then en_stream_loss_offset ?e else en_stream_loss_offset ?e + n)" by simp_all
  have active: "loss_active ?e = list_ex (\<lambda>st. st \<noteq> None) ?sts"
    using li loss_rel_active unfolding loss_inv_def loss_active_def by blast
  have kept: "accept_kept ?sts t3 ?e (take n input) = survivors (dropped ?sts e0) (length (r_classified s))
      (if blackhole_discarding t3 ?e then [] else take n input)"
  proof (cases "loss_active ?e")
    case True
    then show ?thesis using off active plan by (simp add: accept_kept_def)
  next
    case False
    have "survivors (dropped ?sts e0) o' bs = bs" for o' bs
      using inactive_survivors [OF li False] plan by simp
    then show ?thesis using plan by (simp add: accept_kept_def)
  qed
  show ?thesis
    using ad li' off off' active track bytes inv n limit_tracks_accept [OF track]
    by (auto simp: run_inv_def Let_def admitted_def kept survivors_append timers_ok_def)
qed

context transport
begin

lemma run_inv_step:
  assumes "run_inv sent e0 w0 s" "engine_step io s s'"
  shows "run_inv sent e0 w0 s'"
  using assms(2)
proof (cases rule: engine_step_cases)
  case (step_accept input t1 t2 t3 n e')
  then show ?thesis using run_inv_accept [OF assms(1)] by simp
next
  case (step_flush r e' w')
  have "timer_ok (en_queue_timer (r_engine s))" using assms(1) by (simp add: run_inv_def Let_def timers_ok_def)
  with flush_drains step_flush run_inv_drained [OF assms(1)] show ?thesis by blast
next
  case (step_shutdown r e' w')
  have "timers_ok (r_engine s)" using assms(1) by (simp add: run_inv_def Let_def)
  with shutdown_drains step_shutdown obtain e1 w1
    where d: "drained clock sent (r_engine s) (r_world s) e1 w1" "settled clock sent e1 w1 e' w'" by blast
  have "run_inv sent e0 w0 ((s\<lparr>r_engine := e1, r_world := w1\<rparr>)\<lparr>r_engine := e', r_world := w'\<rparr>)"
    using d(2) by (intro run_inv_settled [OF run_inv_drained [OF assms(1) d(1)], of clock]) simp
  with step_shutdown show ?thesis by simp
next
  case (step_due t e' w')
  have "timers_ok (r_engine s)" using assms(1) by (simp add: run_inv_def Let_def)
  with poll_due_termination_settled step_due run_inv_settled [OF assms(1)] show ?thesis by blast
qed

lemma run_inv_runs: "engine_runs io s s' \<Longrightarrow> run_inv sent e0 w0 s \<Longrightarrow> run_inv sent e0 w0 s'"
  by (induction rule: engine_runs.induct) (auto intro: run_inv_step)

end

lemma run_inv_start:
  assumes "new_with_arc_plan plan sd p k d h now = Inr e"
  shows "run_inv sent e w (run_start e w)"
proof -
  have "timers_ok e"
    using assms by (cases plan rule: plan_validate_cases) (auto simp: new_with_arc_plan_def Let_def timers_ok_def)
  moreover have "limit_tracks l 0 l" for l by (auto simp: limit_tracks_def split: option.split)
  ultimately show ?thesis
    using new_engine_wf [OF assms] new_engine_loss_inv [OF assms] new_engine_inv(6,14) [OF assms]
    by (simp add: run_inv_def run_start_def queue_bytes_def)
qed

section \<open>The capture writer\<close>

text \<open>
  \<^verbatim>\<open>CaptureWriter\<close> appends to a buffer and never blocks; the clock and the timers stay those of the
  runtime it is used in.
\<close>

definition capture_io :: "'w io \<Rightarrow> ('w \<times> byte list) io" where
  "capture_io io =
     \<lparr>io_now = (\<lambda>(w, out). let (t, w') = io_now io w in (t, w', out)),
      io_sleep = (\<lambda>d (w, out). let (f, w') = io_sleep io d w in (f, w', out)),
      io_poll_sleep = (\<lambda>f (w, out). let (r, w') = io_poll_sleep io f w in (r, w', out)),
      io_write = (\<lambda>bs (w, out). (Ready (Inr (length bs)), w, out @ bs)),
      io_write_vectored = (\<lambda>bufs (w, out).
        case filter (\<lambda>b. b \<noteq> []) bufs of
          [] \<Rightarrow> (Ready (Inr 0), w, out)
        | b # _ \<Rightarrow> (Ready (Inr (length b)), w, out @ b)),
      io_flush = (\<lambda>(w, out). (Ready (Inr ()), w, out)),
      io_shutdown = (\<lambda>(w, out). (Ready (Inr ()), w, out)),
      io_read = (\<lambda>n (w, out). (Ready (Inr []), w, out))\<rparr>"

context runtime
begin

lemma capture_transport: "transport (capture_io io) (\<lambda>x. clock (fst x)) snd"
  using now_law sleep_law poll_sleep_law
  by unfold_locales (auto simp: capture_io_def split_def Let_def prod_eq_iff split: if_splits)

end

text \<open>The paused Tokio clock of the repository's tests: time stands still between explicit advances.\<close>

definition paused_io :: "instant io" where
  "paused_io =
     \<lparr>io_now = (\<lambda>w. (w, w)), io_sleep = (\<lambda>d w. (w + d, w)), io_poll_sleep = (\<lambda>f w. (f \<le> w, w)),
      io_write = (\<lambda>bs w. (Pending, w)), io_write_vectored = (\<lambda>bufs w. (Pending, w)),
      io_flush = (\<lambda>w. (Pending, w)), io_shutdown = (\<lambda>w. (Pending, w)), io_read = (\<lambda>n w. (Pending, w))\<rparr>"

interpretation paused: runtime paused_io "\<lambda>w. w"
  by unfold_locales (auto simp: paused_io_def)

interpretation captured: transport "capture_io paused_io" "\<lambda>x. fst x" snd
  by (rule paused.capture_transport)

section \<open>Terminations along runs\<close>

lemma drained_termination: "drained clock sent e w e' w' \<Longrightarrow> en_termination e' = en_termination e"
  using drain_frame_fields(4) unfolding drained_def by blast

lemma settled_termination: "settled clock sent e w e' w' \<Longrightarrow> en_termination e = Some t \<Longrightarrow> en_termination e' = Some t"
  by (simp add: settled_def)

context transport
begin

lemma termination_step:
  assumes "run_inv sent e0 w0 s" "engine_step io s s'" "en_termination (r_engine s) = Some t"
  shows "en_termination (r_engine s') = Some t"
  using assms(2)
proof (cases rule: engine_step_cases)
  case (step_accept input t1 t2 t3 n e')
  have "engine_wf (r_engine s)" "loss_inv (en_stream_loss e0) (r_engine s)"
    using assms(1) by (simp_all add: run_inv_def Let_def)
  from accept_contract [OF this step_accept(2)] step_accept(1) assms(3) show ?thesis
    by (simp add: admitted_def)
next
  case (step_flush r e' w')
  have "timer_ok (en_queue_timer (r_engine s))" using assms(1) by (simp add: run_inv_def Let_def timers_ok_def)
  from flush_drains [OF this step_flush(2)] step_flush(1) assms(3) show ?thesis
    using drained_termination by fastforce
next
  case (step_shutdown r e' w')
  have "timers_ok (r_engine s)" using assms(1) by (simp add: run_inv_def Let_def)
  from shutdown_drains [OF this step_shutdown(2)] step_shutdown(1) assms(3) show ?thesis
    using drained_termination settled_termination by fastforce
next
  case (step_due t' e' w')
  have "timers_ok (r_engine s)" using assms(1) by (simp add: run_inv_def Let_def)
  from poll_due_termination_settled [OF this step_due(2)] step_due(1) assms(3) show ?thesis
    using settled_termination by fastforce
qed

lemma termination_runs:
  assumes "engine_runs io s s'" "run_inv sent e0 w0 s" "en_termination (r_engine s) = Some t"
  shows "en_termination (r_engine s') = Some t"
  using assms by (induction rule: engine_runs.induct) (auto intro: termination_step run_inv_runs)

end

context runtime
begin

lemma disconnect_due:
  assumes "en_disconnect e = Some st" "dc_deadline st \<le> clock w" "en_termination e = None"
  shows "\<exists>e' w'. poll_due_termination io e w =
    (Ready \<lparr>ti_request = (if dc_hard_reset st then HardReset else Graceful), ti_direction = en_direction e,
            ti_fault_id = Some (dc_fault_id st)\<rparr>, e', w')"
proof -
  obtain now w1 where n: "io_now io w = (now, w1)" by fastforce
  have "dc_deadline st \<le> now" using now_law [OF n] assms(2) by linarith
  then have "en_termination (refresh_sync_terminations now e) =
      Some \<lparr>ti_request = (if dc_hard_reset st then HardReset else Graceful), ti_direction = en_direction e,
            ti_fault_id = Some (dc_fault_id st)\<rparr>"
    using assms by (simp add: refresh_sync_terminations_def request_termination_set)
  then show ?thesis using n assms(3) by (simp add: poll_due_termination_def refresh_now_def)
qed

end

section \<open>Properties\<close>

text \<open>A run of the limit engine: one admission of four bytes, of which three are taken.\<close>

lemma example_run:
  "\<exists>e'. engine_runs (capture_io paused_io) (run_start limit_engine (0, []))
     \<lparr>r_engine = e', r_world = (0, []), r_accepted = 3, r_classified = [1, 2, 3]\<rparr>"
proof -
  obtain n e' where run: "accept [1, 2, 3, 4] 0 0 0 limit_engine = (n, e')" by fastforce
  have n: "n = 3" using limit_engine_accept run by simp
  let ?s = "run_start limit_engine (0 :: instant, [] :: byte list)"
  have "accept [1, 2, 3, 4] 0 0 0 (r_engine ?s) = (n, e')" using run by (simp add: run_start_def)
  from engine_runs.runs_step [OF engine_runs.runs_refl engine_step.step_accept [OF this]] show ?thesis
    by (auto simp: run_start_def limit_engine_inactive n)
qed

text \<open>Segments that are due at once are sent by one flush.\<close>

definition due_now :: "byte list \<Rightarrow> queued" where
  "due_now bs = \<lparr>q_bytes = bs, q_release = 0\<rparr>"

lemma captured_ops [simp]:
  "io_now (capture_io paused_io) (t, out) = (t, t, out)"
  "io_write (capture_io paused_io) bs (t, out) = (Ready (Inr (length bs)), t, out @ bs)"
  "io_flush (capture_io paused_io) (t, out) = (Ready (Inr ()), t, out)"
  by (simp_all add: capture_io_def paused_io_def)

lemma captured_queue:
  assumes "en_queue e = map due_now bss" "[] \<notin> set bss"
  shows "\<exists>e'. poll_queue (capture_io paused_io) e (0, out) = (Ready (Inr ()), e', (0, out @ concat bss)) \<and> en_queue e' = []"
  using assms
proof (induction bss arbitrary: e out)
  case Nil
  then show ?case by (simp add: poll_queue.simps [of _ e])
next
  case (Cons bs bss)
  let ?e = "advance_front (length bs) e"
  have q: "en_queue ?e = map due_now bss" using Cons.prems by (simp add: advance_front_def due_now_def)
  have "poll_queue (capture_io paused_io) e (0, out) = poll_queue (capture_io paused_io) ?e (0, out @ bs)"
    using Cons.prems by (subst poll_queue.simps) (auto simp: front_due_def due_now_def Let_def)
  then show ?case using Cons.IH [OF q, of "out @ bs"] Cons.prems by simp
qed

lemma captured_flush:
  assumes "en_queue e = map due_now bss" "[] \<notin> set bss"
  shows "\<exists>e'. engine_poll_flush (capture_io paused_io) e (0, out) = (Ready (Inr ()), e', (0, out @ concat bss)) \<and>
    en_queue e' = []"
  using captured_queue [OF assms, of out] by (auto simp: engine_poll_flush_def)

lemma limit_engine_push:
  "push_preserve_run 0 [1, 2] limit_engine = (n, la, sl, e) \<Longrightarrow> n = 2 \<and> en_queue e = map due_now [[1, 2]]"
  by (auto simp: segment_size_def push_segment_def Let_def limit_engine_def example_limit_plan_def due_now_def)

lemma limit_engine_takes_two:
  "accept [1, 2] 0 0 0 limit_engine = (n, e) \<Longrightarrow> n = 2 \<and> en_queue e = map due_now [[1, 2]]"
proof -
  assume a: "accept [1, 2] 0 0 0 limit_engine = (n, e)"
  obtain n1 la sl e1 where p: "push_preserve_run 0 [1, 2] limit_engine = (n1, la, sl, e1)" by (metis prod_cases4)
  from limit_engine_push [OF p] a show ?thesis
    by (auto simp: accept_def limit_engine_inactive accept_preserving_def p Let_def count_accepted_def simp del: engage.simps push_preserve_run.simps)
qed

lemmas example_transport = captured.transport_axioms

text \<open>
  C1. Delivery. Over every interleaving of admissions, flushes, shutdown polls and termination
  polls, and over every transport that honours the \<^verbatim>\<open>AsyncWrite\<close> contract, the bytes that reached
  the transport followed by the bytes still queued are exactly the surviving accepted bytes, in order
  and without repetition. Which bytes survive stream loss is a function of the plan, the seed and the
  absolute offset: fragmentation of the writes and the timing of the polls do not enter.
\<close>

theorem engine_delivers:
  assumes "transport io clock sent" "new_with_arc_plan plan seed proxy key dir h now = Inr e"
    and "engine_runs io (run_start e w) s"
  shows "sent (r_world s) @ queue_bytes (r_engine s) =
    sent w @ survivors (chunk_dropped (plan_faults plan) (en_stream_loss e)) 0 (r_classified s)"
  using transport.run_inv_runs [OF assms(1,3) run_inv_start [OF assms(2)]] new_engine_inv(2) [OF assms(2)]
  by (simp add: run_inv_def Let_def)

theorem engine_delivers_witness:
  "\<exists>s. engine_runs (capture_io paused_io) (run_start limit_engine (0, [])) s \<and> r_accepted s = 3 \<and>
     snd (r_world s) @ queue_bytes (r_engine s) = [1, 2, 3]"
proof -
  obtain e' where run: "engine_runs (capture_io paused_io) (run_start limit_engine (0, []))
     \<lparr>r_engine = e', r_world = (0, []), r_accepted = 3, r_classified = [1, 2, 3]\<rparr>" using example_run by blast
  have "survivors (chunk_dropped (plan_faults example_limit_plan) (en_stream_loss limit_engine)) 0 bs = bs" for bs
    using inactive_survivors [OF limit_engine_loss limit_engine_inactive(1)] by (simp add: limit_engine_def)
  from engine_delivers [OF example_transport limit_engine_new run, unfolded this] run show ?thesis by auto
qed

text \<open>
  C2. Accounting. In every reachable state the queue is within its bound, its byte counter is
  exact, and (below the saturation point of the counters) accepted bytes = forwarded + discarded +
  buffered. With a byte limit, no more than the limit is ever accepted, and the engine has requested
  a termination as soon as the limit is reached.
\<close>

theorem engine_accounts:
  assumes "transport io clock sent" "new_with_arc_plan plan seed proxy key dir h now = Inr e"
    and "engine_runs io (run_start e w) s"
  shows "let e' = r_engine s; ev = en_evidence e' in
    en_buffered e' = length (queue_bytes e') \<and> en_buffered e' \<le> en_max_buffer e' \<and>
    (ev_bytes_accepted ev < U64_MAX \<longrightarrow>
       ev_bytes_accepted ev = ev_bytes_forwarded ev + ev_bytes_discarded ev + en_buffered e') \<and>
    (case en_remaining_limit e of
       None \<Rightarrow> True
     | Some (bytes, _) \<Rightarrow> r_accepted s \<le> bytes \<and> (r_accepted s = bytes \<longrightarrow> en_termination e' \<noteq> None))"
proof -
  have inv: "run_inv sent e w s" using transport.run_inv_runs [OF assms(1,3) run_inv_start [OF assms(2)]] .
  then have "engine_wf (r_engine s)" "limit_tracks (en_remaining_limit e) (r_accepted s) (en_remaining_limit (r_engine s))"
    by (simp_all add: run_inv_def Let_def)
  then show ?thesis
    by (cases "en_remaining_limit e") (auto simp: engine_wf_defs limit_tracks_def limit_after_def Let_def)
qed

theorem engine_accounts_witness:
  "\<exists>s. engine_runs (capture_io paused_io) (run_start limit_engine (0, [])) s \<and> r_accepted s = 3 \<and>
     en_termination (r_engine s) \<noteq> None"
proof -
  obtain e' where run: "engine_runs (capture_io paused_io) (run_start limit_engine (0, []))
     \<lparr>r_engine = e', r_world = (0, []), r_accepted = 3, r_classified = [1, 2, 3]\<rparr>" using example_run by blast
  have "en_remaining_limit limit_engine = Some (3, ''cap'')" by (simp add: limit_engine_def)
  with engine_accounts [OF example_transport limit_engine_new run] run show ?thesis by (auto simp: Let_def)
qed

text \<open>
  C8. Release times and the flush barrier. A flush sends a prefix of the queue in order, no byte
  before its release instant; a flush that reports success has sent everything the engine owned.
\<close>

theorem flush_is_a_barrier:
  assumes "transport io clock sent" "timer_ok (en_queue_timer e)" "engine_poll_flush io e w = (r, e', w')"
  shows "\<exists>out. stamped e = out @ stamped e' \<and> sent w' = sent w @ map fst out \<and>
    (\<forall>(b, release) \<in> set out. release \<le> clock w') \<and>
    (r = Ready (Inr ()) \<longrightarrow> sent w' = sent w @ queue_bytes e \<and> en_queue e' = [])"
proof -
  have d: "drained clock sent e w e' w'" "r = Ready (Inr ()) \<longrightarrow> en_queue e' = []"
    using transport.flush_drains [OF assms] by simp_all
  have "sent w' = sent w @ queue_bytes e" if "r = Ready (Inr ())"
    using drained_bytes [OF d(1)] d(2) that by (simp add: queue_bytes_def)
  with d show ?thesis unfolding drained_def by blast
qed

theorem flush_is_a_barrier_witness:
  "\<exists>r e' w'. engine_poll_flush (capture_io paused_io)
     (limit_engine\<lparr>en_queue := [\<lparr>q_bytes = [7], q_release = 5\<rparr>]\<rparr>) (9, []) = (r, e', w') \<and>
     r = Ready (Inr ()) \<and> snd w' = [7]"
proof -
  let ?e = "limit_engine\<lparr>en_queue := [\<lparr>q_bytes = [7], q_release = 5\<rparr>]\<rparr>"
  obtain r e' w' where run: "engine_poll_flush (capture_io paused_io) ?e (9, []) = (r, e', w')" by (metis prod_cases3)
  have "r = Ready (Inr ())"
    using run by (simp add: engine_poll_flush_def poll_queue.simps [of _ _ "(_, _)"] front_due_def capture_io_def
        paused_io_def advance_front_def split_def Let_def)
  moreover have "timer_ok (en_queue_timer ?e)" by (simp add: limit_engine_def)
  ultimately show ?thesis
    using flush_is_a_barrier [OF example_transport _ run] run by (auto simp: queue_bytes_def)
qed

text \<open>
  First termination wins. Once an engine has a termination, every later state of every run has
  the same one.
\<close>

theorem first_termination_wins:
  assumes "transport io clock sent" "new_with_arc_plan plan seed proxy key dir h now = Inr e"
    and "engine_runs io (run_start e w) s" "en_termination (r_engine s) = Some t" "engine_runs io s s'"
  shows "en_termination (r_engine s') = Some t"
  using transport.termination_runs [OF assms(1,5) transport.run_inv_runs [OF assms(1,3) run_inv_start [OF assms(2)]] assms(4)] .

theorem first_termination_wins_witness:
  "\<exists>s t. engine_runs (capture_io paused_io) (run_start limit_engine (0, [])) s \<and>
     en_termination (r_engine s) = Some t \<and>
     (\<forall>s'. engine_runs (capture_io paused_io) s s' \<longrightarrow> en_termination (r_engine s') = Some t)"
proof -
  obtain e' where run: "engine_runs (capture_io paused_io) (run_start limit_engine (0, []))
     \<lparr>r_engine = e', r_world = (0, []), r_accepted = 3, r_classified = [1, 2, 3]\<rparr>" using example_run by blast
  have "run_inv snd limit_engine (0, []) \<lparr>r_engine = e', r_world = (0 :: instant, []), r_accepted = 3, r_classified = [1, 2, 3]\<rparr>"
    using captured.run_inv_runs [OF run run_inv_start [OF limit_engine_new]] .
  then have "engine_wf e'" "limit_tracks (Some (3, ''cap'')) 3 (en_remaining_limit e')"
    unfolding run_inv_def Let_def by (simp_all add: limit_engine_def)
  then have "en_termination e' \<noteq> None"
    by (auto simp: engine_wf_def termination_ok_def limit_tracks_def limit_after_def)
  then obtain t where "en_termination e' = Some t" by blast
  with run first_termination_wins [OF example_transport limit_engine_new run] show ?thesis by fastforce
qed

text \<open>
  A due disconnect is reported. When the disconnect deadline has passed and nothing terminated
  earlier, the termination poll answers at once, with the configured kind of close and the fault that
  asked for it.
\<close>

theorem due_disconnect_reported:
  assumes "runtime io clock" "en_disconnect e = Some st" "dc_deadline st \<le> clock w" "en_termination e = None"
  shows "\<exists>e' w'. poll_due_termination io e w =
    (Ready \<lparr>ti_request = (if dc_hard_reset st then HardReset else Graceful), ti_direction = en_direction e,
            ti_fault_id = Some (dc_fault_id st)\<rparr>, e', w')"
  using assms by (rule runtime.disconnect_due)

theorem due_disconnect_reported_witness:
  "\<exists>e' w'. poll_due_termination paused_io
     (limit_engine\<lparr>en_disconnect := Some \<lparr>dc_deadline = 5, dc_hard_reset = True, dc_fault_id = ''rst''\<rparr>\<rparr>) 5 =
     (Ready \<lparr>ti_request = HardReset, ti_direction = Upstream, ti_fault_id = Some ''rst''\<rparr>, e', w')"
  using due_disconnect_reported [OF paused.runtime_axioms,
      of "limit_engine\<lparr>en_disconnect := Some \<lparr>dc_deadline = 5, dc_hard_reset = True, dc_fault_id = ''rst''\<rparr>\<rparr>" _ 5]
  by (simp add: limit_engine_def)

end
