(* ===== verification/ChaosStream.thy ===== *)
theory ChaosStream
  imports Drain Policy
begin

text \<open>
  The stream wrapper, \<^verbatim>\<open>crates/eggchaos-core/src/stream.rs\<close>: shared evidence, construction, the
  live-policy transition and the \<^verbatim>\<open>AsyncRead\<close>/\<^verbatim>\<open>AsyncWrite\<close> methods of
  \<^verbatim>\<open>ChaosStream\<close>.

  \<^item> The wrapped transport is part of the world \<open>'w\<close> that \<open>io\<close> acts on.
  \<^item> \<^verbatim>\<open>policy.snapshot()\<close> is one atomic load of a cell that other tasks write; its result is the
    argument \<open>snap\<close>.
  \<^item> A panic (\<^verbatim>\<open>expect\<close> on a plan that does not validate) is the result \<open>None\<close>.
  \<^item> The atomics of \<^verbatim>\<open>StreamEvidence\<close> are written by the stream only; they are a record.
\<close>

section \<open>Evidence\<close>

record active_fault =
  af_id :: string
  af_fault_type :: string

record stream_evidence =
  se_observed_generation :: nat
  se_pending_generation :: nat
  se_seed_namespace :: u64
  se_bytes_accepted :: nat
  se_bytes_forwarded :: nat
  se_bytes_discarded :: nat
  se_high_water_bytes :: nat
  se_injected_delay_ms :: nat
  se_throttled_delay_ms :: nat
  se_segments :: nat
  se_slices :: nat
  se_buffered_bytes :: nat
  se_transitions :: nat
  se_activations :: "nat list"
  se_sl_chunks_evaluated :: nat
  se_sl_chunks_dropped :: nat
  se_sl_bytes_discarded :: nat
  se_active_faults :: "active_fault list \<times> bool"
  se_termination :: "termination_info option"
  se_direct_bytes :: nat

definition stream_evidence_default :: stream_evidence where
  "stream_evidence_default =
     \<lparr>se_observed_generation = 0, se_pending_generation = 0, se_seed_namespace = 0, se_bytes_accepted = 0,
      se_bytes_forwarded = 0, se_bytes_discarded = 0, se_high_water_bytes = 0, se_injected_delay_ms = 0,
      se_throttled_delay_ms = 0, se_segments = 0, se_slices = 0, se_buffered_bytes = 0, se_transitions = 0,
      se_activations = replicate 7 0, se_sl_chunks_evaluated = 0, se_sl_chunks_dropped = 0,
      se_sl_bytes_discarded = 0, se_active_faults = ([], False), se_termination = None, se_direct_bytes = 0\<rparr>"

definition MAX_EVIDENCE_FAULTS :: nat where
  "MAX_EVIDENCE_FAULTS = 128"

text \<open>The loop of \<^verbatim>\<open>refresh_policy\<close>; \<open>n\<close> is the number of identities pushed so far.\<close>

fun evidence_faults :: "nat \<Rightarrow> fault_spec list \<Rightarrow> active_fault list \<times> bool" where
  "evidence_faults n [] = ([], False)"
| "evidence_faults n (f # fs) =
     (if MAX_EVIDENCE_FAULTS \<le> n then ([], True)
      else let (faults, truncated) = evidence_faults (Suc n) fs
           in (\<lparr>af_id = fs_id f, af_fault_type = type_name (fs_kind f)\<rparr> # faults, truncated))"

definition refresh_policy :: "fault_plan published_policy \<Rightarrow> stream_evidence \<Rightarrow> stream_evidence" where
  "refresh_policy snap se =
     se\<lparr>se_observed_generation := generation snap, se_seed_namespace := seed_namespace snap,
        se_active_faults := evidence_faults 0 (plan_faults (pub_plan snap))\<rparr>"

definition mirror_engine :: "direction_engine \<Rightarrow> stream_evidence \<Rightarrow> stream_evidence" where
  "mirror_engine e se =
     (let ev = evidence e; direct = se_direct_bytes se
      in se\<lparr>se_bytes_accepted := sat_add64 (ev_bytes_accepted ev) direct,
            se_bytes_forwarded := sat_add64 (ev_bytes_forwarded ev) direct,
            se_bytes_discarded := ev_bytes_discarded ev,
            se_high_water_bytes := ev_high_water_bytes ev,
            se_injected_delay_ms := ev_injected_delay_ms ev,
            se_throttled_delay_ms := ev_throttled_delay_ms ev,
            se_segments := ev_segments ev,
            se_slices := ev_slices ev,
            se_buffered_bytes := ev_buffered_bytes ev,
            se_activations := ev_activations ev,
            se_sl_chunks_evaluated := ev_sl_chunks_evaluated ev,
            se_sl_chunks_dropped := ev_sl_chunks_dropped ev,
            se_sl_bytes_discarded := ev_sl_bytes_discarded ev,
            se_termination :=
              (case (ev_termination ev, se_termination se) of
                 (Some request, None) \<Rightarrow>
                   Some \<lparr>ti_request = request, ti_direction = en_direction e,
                         ti_fault_id = Option.bind (en_termination e) ti_fault_id\<rparr>
               | _ \<Rightarrow> se_termination se)\<rparr>)"

definition note_direct :: "nat \<Rightarrow> stream_evidence \<Rightarrow> stream_evidence" where
  "note_direct n se =
     (if 0 < n then
        se\<lparr>se_direct_bytes := sat_add64 (se_direct_bytes se) n,
           se_bytes_accepted := sat_add64 (se_bytes_accepted se) n,
           se_bytes_forwarded := sat_add64 (se_bytes_forwarded se) n\<rparr>
      else se)"

section \<open>The stream\<close>

record chaos_stream =
  cs_engine :: direction_engine
  cs_direction :: direction
  cs_live :: bool
  cs_proxy :: string
  cs_connection_key :: u64
  cs_observed_generation :: nat
  cs_evidence :: stream_evidence

definition stream_new ::
    "fault_plan \<Rightarrow> u64 \<Rightarrow> string \<Rightarrow> u64 \<Rightarrow> direction \<Rightarrow> instant \<Rightarrow> validation_error + chaos_stream" where
  "stream_new plan run_seed proxy key dir now =
     (case engine_new plan run_seed proxy key dir now of
        Inl err \<Rightarrow> Inl err
      | Inr e \<Rightarrow>
          Inr \<lparr>cs_engine = e, cs_direction = dir, cs_live = False, cs_proxy = proxy, cs_connection_key = key,
               cs_observed_generation = 0,
               cs_evidence = refresh_policy \<lparr>generation = 0, pub_plan = plan, seed_namespace = run_seed\<rparr>
                 (stream_evidence_default\<lparr>se_seed_namespace := run_seed\<rparr>)\<rparr>)"

definition passthrough :: "direction \<Rightarrow> instant \<Rightarrow> chaos_stream" where
  "passthrough dir now =
     \<lparr>cs_engine = engine_empty now, cs_direction = dir, cs_live = False, cs_proxy = '''', cs_connection_key = 0,
      cs_observed_generation = 0, cs_evidence = stream_evidence_default\<rparr>"

definition stream_new_live ::
    "fault_plan published_policy \<Rightarrow> string \<Rightarrow> u64 \<Rightarrow> direction \<Rightarrow> instant \<Rightarrow> validation_error + chaos_stream" where
  "stream_new_live snap proxy key dir now =
     (case new_with_arc_plan (pub_plan snap) (seed_namespace snap) proxy key dir handle_new now of
        Inl err \<Rightarrow> Inl err
      | Inr e \<Rightarrow>
          Inr \<lparr>cs_engine = e, cs_direction = dir, cs_live = True, cs_proxy = proxy, cs_connection_key = key,
               cs_observed_generation = generation snap,
               cs_evidence = refresh_policy snap stream_evidence_default\<rparr>)"

definition mirror :: "chaos_stream \<Rightarrow> chaos_stream" where
  "mirror cs = cs\<lparr>cs_evidence := mirror_engine (cs_engine cs) (cs_evidence cs)\<rparr>"

definition pending_generation :: "fault_plan published_policy \<Rightarrow> chaos_stream \<Rightarrow> nat option" where
  "pending_generation snap cs =
     (if cs_live cs \<and> generation snap \<noteq> cs_observed_generation cs then Some (generation snap) else None)"

definition poll_termination ::
    "'w io \<Rightarrow> chaos_stream \<Rightarrow> 'w \<Rightarrow> termination_info option poll \<times> chaos_stream \<times> 'w" where
  "poll_termination io cs w =
     (if engine_is_empty (cs_engine cs) then (Pending, cs, w)
      else let (r, e, w1) = poll_due_termination io (cs_engine cs) w
           in (case r of Ready info \<Rightarrow> Ready (Some info) | Pending \<Rightarrow> Pending, cs\<lparr>cs_engine := e\<rparr>, w1))"

section \<open>The live-policy transition\<close>

text \<open>Drain the old engine before it is replaced; \<open>True\<close> when the drain is still pending.\<close>

definition transition_drain :: "'w io \<Rightarrow> direction_engine \<Rightarrow> 'w \<Rightarrow> bool \<times> direction_engine \<times> 'w" where
  "transition_drain io e w =
     (if queue_is_empty e then (False, e, w)
      else let (r, e1, w1) = engine_poll_flush io e w in (is_pending r, e1, w1))"

definition update_live ::
    "'w io \<Rightarrow> fault_plan published_policy \<Rightarrow> chaos_stream \<Rightarrow> 'w \<Rightarrow> (unit poll \<times> chaos_stream \<times> 'w) option" where
  "update_live io snap cs0 w0 =
     (if \<not> cs_live cs0 \<or> generation snap = cs_observed_generation cs0 then Some (Ready (), cs0, w0)
      else
        let cs = cs0\<lparr>cs_evidence := (cs_evidence cs0)\<lparr>se_pending_generation := generation snap\<rparr>\<rparr>;
            (blocked, e1, w1) = transition_drain io (cs_engine cs) w0
        in if blocked then Some (Pending, cs\<lparr>cs_engine := e1\<rparr>, w1)
           else
             let (now, w2) = io_now io w1
             in case new_with_arc_plan (pub_plan snap) (seed_namespace snap) (cs_proxy cs)
                       (cs_connection_key cs) (cs_direction cs) (en_handle e1) now of
                  Inl err \<Rightarrow> None
                | Inr fresh \<Rightarrow>
                    let e2 = absorb_evidence (evidence e1) fresh;
                        se1 = refresh_policy snap (cs_evidence cs);
                        se2 = se1\<lparr>se_pending_generation := 0,
                                  se_transitions := (se_transitions se1 + 1) mod 2 ^ 64\<rparr>
                    in Some (Ready (), cs\<lparr>cs_engine := e2, cs_observed_generation := generation snap,
                                          cs_evidence := mirror_engine e2 se2\<rparr>, w2))"

section \<open>Reading and writing\<close>

fun terminated_detail :: "termination_info option \<Rightarrow> string" where
  "terminated_detail None = ''terminated''"
| "terminated_detail (Some info) =
     (case ti_fault_id info of
        Some i \<Rightarrow> ''terminated by fault '' @ i @ '' ('' @ direction_as_str (ti_direction info) @ '')''
      | None \<Rightarrow> ''terminated ('' @ direction_as_str (ti_direction info) @ '')'')"

definition terminated_error :: "termination_info option \<Rightarrow> io_error" where
  "terminated_error info = ConnectionAborted (''eggchaos stream '' @ terminated_detail info)"

text \<open>\<^verbatim>\<open>self.engine.accept(bytes)\<close>, with its clock readings.\<close>

definition accept_now :: "'w io \<Rightarrow> byte list \<Rightarrow> direction_engine \<Rightarrow> 'w \<Rightarrow> nat \<times> direction_engine \<times> 'w" where
  "accept_now io bytes e w =
     (let (t1, w1) = io_now io w;
          (t2, w2) = io_now io w1;
          (t3, w3) = io_now io w2;
          (n, e') = accept bytes t1 t2 t3 e
      in (n, e', w3))"

definition closed_by_termination :: "direction_engine \<Rightarrow> bool" where
  "closed_by_termination e = (engine_termination_request e \<noteq> None \<and> queue_is_empty e)"

text \<open>The part of \<^verbatim>\<open>poll_write\<close> behind the engine: drive, accept, drive again.\<close>

definition write_through_engine ::
    "'w io \<Rightarrow> byte list \<Rightarrow> chaos_stream \<Rightarrow> 'w \<Rightarrow> (io_error + nat) poll \<times> chaos_stream \<times> 'w" where
  "write_through_engine io bytes cs w =
     (let (r, e1, w1) = engine_poll_flush io (cs_engine cs) w;
          cs1 = cs\<lparr>cs_engine := e1\<rparr>
      in case r of
           Ready (Inl err) \<Rightarrow> (Ready (Inl err), mirror cs1, w1)
         | _ \<Rightarrow>
             if bytes = [] then (Ready (Inr 0), cs1, w1)
             else if closed_by_termination e1 then
               (Ready (Inl (terminated_error (en_termination e1))), cs1, w1)
             else
               let (accepted, e2, w2) = accept_now io bytes e1 w1
               in if 0 < accepted then
                    let (_, e3, w3) = engine_poll_flush io e2 w2
                    in (Ready (Inr accepted), mirror (cs1\<lparr>cs_engine := e3\<rparr>), w3)
                  else if closed_by_termination e2 then
                    (Ready (Inl (terminated_error (en_termination e2))), cs1\<lparr>cs_engine := e2\<rparr>, w2)
                  else (Pending, cs1\<lparr>cs_engine := e2\<rparr>, w2))"

fun direct_result :: "chaos_stream \<Rightarrow> (io_error + nat) poll \<Rightarrow> chaos_stream" where
  "direct_result cs (Ready (Inr n)) = cs\<lparr>cs_evidence := note_direct n (cs_evidence cs)\<rparr>"
| "direct_result cs _ = cs"

text \<open>\<^verbatim>\<open>poll_write\<close> after the live generation was observed.\<close>

definition write_current ::
    "'w io \<Rightarrow> byte list \<Rightarrow> chaos_stream \<Rightarrow> 'w \<Rightarrow> (io_error + nat) poll \<times> chaos_stream \<times> 'w" where
  "write_current io bytes cs w =
     (if engine_is_empty (cs_engine cs) then
        let (r, w1) = io_write io bytes w in (r, direct_result cs r, w1)
      else write_through_engine io bytes cs w)"

definition poll_write ::
    "'w io \<Rightarrow> fault_plan published_policy \<Rightarrow> byte list \<Rightarrow> chaos_stream \<Rightarrow> 'w \<Rightarrow>
     ((io_error + nat) poll \<times> chaos_stream \<times> 'w) option" where
  "poll_write io snap bytes cs w =
     (case update_live io snap cs w of
        None \<Rightarrow> None
      | Some (Pending, cs1, w1) \<Rightarrow> Some (Pending, cs1, w1)
      | Some (Ready _, cs1, w1) \<Rightarrow> Some (write_current io bytes cs1 w1))"

definition poll_flush ::
    "'w io \<Rightarrow> fault_plan published_policy \<Rightarrow> chaos_stream \<Rightarrow> 'w \<Rightarrow>
     ((io_error + unit) poll \<times> chaos_stream \<times> 'w) option" where
  "poll_flush io snap cs w =
     (case update_live io snap cs w of
        None \<Rightarrow> None
      | Some (Pending, cs1, w1) \<Rightarrow> Some (Pending, cs1, w1)
      | Some (Ready _, cs1, w1) \<Rightarrow>
          let (r, e, w2) = engine_poll_flush io (cs_engine cs1) w1
          in Some (r, mirror (cs1\<lparr>cs_engine := e\<rparr>), w2))"

definition poll_shutdown ::
    "'w io \<Rightarrow> fault_plan published_policy \<Rightarrow> chaos_stream \<Rightarrow> 'w \<Rightarrow>
     ((io_error + unit) poll \<times> chaos_stream \<times> 'w) option" where
  "poll_shutdown io snap cs w =
     (case update_live io snap cs w of
        None \<Rightarrow> None
      | Some (Pending, cs1, w1) \<Rightarrow> Some (Pending, cs1, w1)
      | Some (Ready _, cs1, w1) \<Rightarrow>
          let (r, e, w2) = engine_poll_shutdown io (cs_engine cs1) w1
          in Some (r, mirror (cs1\<lparr>cs_engine := e\<rparr>), w2))"

text \<open>A full queue on the vectored path: drive it, then report termination or wait.\<close>

definition vectored_full ::
    "'w io \<Rightarrow> chaos_stream \<Rightarrow> 'w \<Rightarrow> (io_error + nat) poll \<times> chaos_stream \<times> 'w" where
  "vectored_full io cs w =
     (let (r, e1, w1) = engine_poll_flush io (cs_engine cs) w
      in case r of
           Ready (Inl err) \<Rightarrow> (Ready (Inl err), cs\<lparr>cs_engine := e1\<rparr>, w1)
         | _ \<Rightarrow>
             let (e2, w2) = refresh_now io e1 w1
             in (if closed_by_termination e2 then Ready (Inl (terminated_error (en_termination e2))) else Pending,
                 cs\<lparr>cs_engine := e2\<rparr>, w2))"

text \<open>The call of \<^verbatim>\<open>poll_write\<close> at the end loads the policy again: \<open>snap2\<close>.\<close>

definition poll_write_vectored ::
    "'w io \<Rightarrow> fault_plan published_policy \<Rightarrow> fault_plan published_policy \<Rightarrow> byte list list \<Rightarrow> chaos_stream \<Rightarrow> 'w \<Rightarrow>
     ((io_error + nat) poll \<times> chaos_stream \<times> 'w) option" where
  "poll_write_vectored io snap snap2 bufs cs w =
     (case update_live io snap cs w of
        None \<Rightarrow> None
      | Some (Pending, cs1, w1) \<Rightarrow> Some (Pending, cs1, w1)
      | Some (Ready _, cs1, w1) \<Rightarrow>
          if engine_is_empty (cs_engine cs1) then
            let (r, w2) = io_write_vectored io bufs w1 in Some (r, direct_result cs1 r, w2)
          else if \<not> is_preserving_only (cs_engine cs1) then poll_write io snap2 (concat bufs) cs1 w1
          else
            let bounded = bounded_accept_capacity (cs_engine cs1)
            in if bounded = 0 then Some (vectored_full io cs1 w1)
               else
                 let total = foldl sat_add64 0 (map length bufs)
                 in poll_write io snap2 (take_prefix (min total bounded) bufs) cs1 w1)"

definition poll_read ::
    "'w io \<Rightarrow> nat \<Rightarrow> chaos_stream \<Rightarrow> 'w \<Rightarrow> (io_error + byte list) poll \<times> chaos_stream \<times> 'w" where
  "poll_read io room cs w =
     (if engine_is_empty (cs_engine cs) then
        let (r, w1) = io_read io room w in (r, cs, w1)
      else
        let (_, e1, w1) = engine_poll_flush io (cs_engine cs) w;
            cs1 = mirror (cs\<lparr>cs_engine := e1\<rparr>);
            (r, w2) = io_read io room w1
        in if queue_is_empty e1 \<and> engine_termination_request e1 = Some Graceful then
             (case r of Pending \<Rightarrow> Ready (Inr []) | _ \<Rightarrow> r, cs1, w2)
           else (r, cs1, w2))"

text \<open>\<^verbatim>\<open>DirectionSummary\<close> has the fields of the engine evidence.\<close>

definition summary :: "chaos_stream \<Rightarrow> engine_evidence" where
  "summary cs =
     (let ev = evidence (cs_engine cs); direct = se_direct_bytes (cs_evidence cs)
      in ev\<lparr>ev_bytes_accepted := sat_add64 (ev_bytes_accepted ev) direct,
            ev_bytes_forwarded := sat_add64 (ev_bytes_forwarded ev) direct\<rparr>)"

record direction_evidence_snapshot =
  es_generation :: nat
  es_pending_generation :: nat
  es_seed_namespace :: u64
  es_bytes_accepted :: nat
  es_bytes_forwarded :: nat
  es_bytes_discarded :: nat
  es_high_water_bytes :: nat
  es_injected_delay_ms :: nat
  es_throttled_delay_ms :: nat
  es_segments :: nat
  es_slices :: nat
  es_buffered_bytes :: nat
  es_transitions :: nat
  es_activations :: "nat list"
  es_sl_chunks_evaluated :: nat
  es_sl_chunks_dropped :: nat
  es_sl_bytes_discarded :: nat
  es_active_faults :: "active_fault list"
  es_active_faults_truncated :: bool
  es_termination :: "termination_request option"
  es_termination_fault_id :: "string option"
  es_rng_version :: rng_version

definition evidence_snapshot :: "rng_version \<Rightarrow> stream_evidence \<Rightarrow> direction_evidence_snapshot" where
  "evidence_snapshot v se =
     \<lparr>es_generation = se_observed_generation se, es_pending_generation = se_pending_generation se,
      es_seed_namespace = se_seed_namespace se, es_bytes_accepted = se_bytes_accepted se,
      es_bytes_forwarded = se_bytes_forwarded se, es_bytes_discarded = se_bytes_discarded se,
      es_high_water_bytes = se_high_water_bytes se, es_injected_delay_ms = se_injected_delay_ms se,
      es_throttled_delay_ms = se_throttled_delay_ms se, es_segments = se_segments se, es_slices = se_slices se,
      es_buffered_bytes = se_buffered_bytes se, es_transitions = se_transitions se,
      es_activations = se_activations se, es_sl_chunks_evaluated = se_sl_chunks_evaluated se,
      es_sl_chunks_dropped = se_sl_chunks_dropped se, es_sl_bytes_discarded = se_sl_bytes_discarded se,
      es_active_faults = fst (se_active_faults se), es_active_faults_truncated = snd (se_active_faults se),
      es_termination = map_option ti_request (se_termination se),
      es_termination_fault_id = Option.bind (se_termination se) ti_fault_id, es_rng_version = v\<rparr>"

section \<open>The invariant of a stream\<close>

definition stream_ok :: "stream_loss_state option list \<Rightarrow> chaos_stream \<Rightarrow> bool" where
  "stream_ok sts0 cs = (engine_wf (cs_engine cs) \<and> loss_inv sts0 (cs_engine cs) \<and> timers_ok (cs_engine cs) \<and>
     stages_match_plan (cs_engine cs) \<and> (engine_is_empty (cs_engine cs) \<longrightarrow> en_queue (cs_engine cs) = []))"

lemma stages_match_frame:
  assumes "en_plan e' = en_plan e" "en_blackhole e' = en_blackhole e" "loss_inv sts0 e" "loss_inv sts0 e'"
    "stages_match_plan e"
  shows "stages_match_plan e'"
proof -
  have "loss_active e' = loss_active e"
    using assms(3,4) loss_rel_active unfolding loss_inv_def loss_active_def by metis
  with assms show ?thesis by (simp add: stages_match_plan_def is_preserving_only_def)
qed

lemma stream_ok_mirror [simp]: "stream_ok sts0 (mirror cs) = stream_ok sts0 cs" "cs_engine (mirror cs) = cs_engine cs"
  by (simp_all add: stream_ok_def mirror_def)

text \<open>What a stream owes: the bytes already sent and the bytes its engine still holds.\<close>

definition owed :: "('w \<Rightarrow> byte list) \<Rightarrow> direction_engine \<Rightarrow> 'w \<Rightarrow> byte list" where
  "owed sent e w = sent w @ queue_bytes e"

definition engine_ok :: "stream_loss_state option list \<Rightarrow> direction_engine \<Rightarrow> bool" where
  "engine_ok sts0 e = (engine_wf e \<and> loss_inv sts0 e \<and> timers_ok e \<and> stages_match_plan e)"

lemma stream_ok_alt:
  "stream_ok sts0 cs = (engine_ok sts0 (cs_engine cs) \<and> (engine_is_empty (cs_engine cs) \<longrightarrow> en_queue (cs_engine cs) = []))"
  by (auto simp: stream_ok_def engine_ok_def)

lemma drained_engine_ok:
  assumes "drained clock sent e w e' w'" "engine_ok sts0 e"
  shows "engine_ok sts0 e' \<and> owed sent e' w' = owed sent e w \<and> en_plan e' = en_plan e \<and>
    en_stream_loss_offset e' = en_stream_loss_offset e \<and> en_blackhole e' = en_blackhole e"
proof -
  have frame: "drain_frame e e'" using assms(1) by (auto simp: drained_def)
  have "loss_inv sts0 e'" using assms(2) drain_frame_invariants(3) [OF frame] by (simp add: engine_ok_def)
  then show ?thesis
    using assms(2) drained_wf [OF assms(1)] drained_timers [OF assms(1)] drained_bytes [OF assms(1)]
      drain_frame_fields [OF frame] stages_match_frame [of e' e sts0]
    by (simp add: engine_ok_def owed_def)
qed

lemma settled_engine_ok:
  assumes "settled clock sent e w e' w'" "engine_ok sts0 e"
  shows "engine_ok sts0 e' \<and> owed sent e' w' = owed sent e w \<and> en_plan e' = en_plan e"
proof -
  have frame: "misc_frame e e'" using assms(1) by (auto simp: settled_def)
  have "loss_inv sts0 e'" using assms(2) misc_frame_invariants(4) [OF frame] by (simp add: engine_ok_def)
  then show ?thesis
    using assms misc_frame_invariants [OF frame] misc_frame_fields [OF frame] stages_match_frame [of e' e sts0]
    by (simp add: engine_ok_def owed_def settled_def engine_wf_def)
qed

lemma new_engine_ok:
  assumes "new_with_arc_plan plan s p k d h now = Inr e"
  shows "engine_ok (en_stream_loss e) e"
proof -
  have "run_inv (\<lambda>_. []) e () (run_start e ())" using run_inv_start [OF assms] .
  then show ?thesis
    using new_engine_stages [OF assms] by (simp add: engine_ok_def run_inv_def run_start_def Let_def)
qed

context transport
begin

lemma now_owed:
  assumes "io_now io w = (t, w')"
  shows "owed sent e w' = owed sent e w"
  using now_sent [of w] assms by (simp add: owed_def)

lemma accept_now_owed:
  assumes "engine_ok sts0 e" "accept_now io bytes e w = (n, e', w')"
  shows "engine_ok sts0 e' \<and> n \<le> length bytes \<and> en_plan e' = en_plan e \<and>
    (\<exists>t. owed sent e' w' = owed sent e w @
      (if blackhole_discarding t e then []
       else survivors (chunk_dropped (plan_faults (en_plan e)) sts0) (en_stream_loss_offset e) (take n bytes)))"
proof -
  obtain t1 w1 where n1: "io_now io w = (t1, w1)" by fastforce
  obtain t2 w2 where n2: "io_now io w1 = (t2, w2)" by fastforce
  obtain t3 w3 where n3: "io_now io w2 = (t3, w3)" by fastforce
  have acc: "accept bytes t1 t2 t3 e = (n, e')" and w': "w' = w3"
    using assms(2) n1 n2 n3 by (auto simp: accept_now_def split: prod.splits)
  have "sent w' = sent w" using now_sent [of w] now_sent [of w1] now_sent [of w2] n1 n2 n3 w' by simp
  moreover have "engine_wf e" "loss_inv sts0 e" using assms(1) by (simp_all add: engine_ok_def)
  note con = accept_contract [OF this acc]
  moreover have "stages_match_plan e'"
    using assms(1) con by (intro stages_match_frame [of e' e sts0]) (auto simp: engine_ok_def admitted_def)
  ultimately show ?thesis
    using assms(1) by (auto simp: engine_ok_def admitted_def owed_def accept_kept_def timers_ok_def)
qed

end

text \<open>The bytes a successful write of \<open>n\<close> bytes adds to what the stream owes.\<close>

definition write_kept :: "stream_loss_state option list \<Rightarrow> instant \<Rightarrow> direction_engine \<Rightarrow> byte list \<Rightarrow> byte list" where
  "write_kept sts0 t e bs =
     (if blackhole_discarding t e then []
      else survivors (chunk_dropped (plan_faults (en_plan e)) sts0) (en_stream_loss_offset e) bs)"

fun write_effect ::
    "stream_loss_state option list \<Rightarrow> direction_engine \<Rightarrow> byte list \<Rightarrow> byte list \<Rightarrow> (io_error + nat) poll \<Rightarrow> byte list \<Rightarrow> bool" where
  "write_effect sts0 e bytes before (Ready (Inr n)) after =
     (n \<le> length bytes \<and> (\<exists>t. after = before @ write_kept sts0 t e (take n bytes)))"
| "write_effect sts0 e bytes before _ after = (after = before)"

lemma poll_result_cases [case_names pending failed ok]:
  obtains "r = Pending" | err where "r = Ready (Inl err)" | x where "r = Ready (Inr x)"
proof (cases r)
  case (Ready y)
  then show ?thesis using that by (cases y) auto
qed (use that in simp)

lemma write_kept_cong:
  assumes "en_plan e' = en_plan e" "en_stream_loss_offset e' = en_stream_loss_offset e" "en_blackhole e' = en_blackhole e"
  shows "write_kept sts0 t e' = write_kept sts0 t e"
  using assms by (intro ext) (simp add: write_kept_def blackhole_discarding_def)

lemma preserving_kept:
  assumes "engine_ok sts0 e" "is_preserving_only e"
  shows "write_kept sts0 t e bs = bs"
proof -
  have "en_blackhole e = None" "\<not> loss_active e" using assms by (simp_all add: engine_ok_def stages_match_plan_def)
  then show ?thesis
    using inactive_survivors [of sts0 e] assms(1) by (simp add: write_kept_def blackhole_discarding_def engine_ok_def)
qed

context transport
begin

lemma flush_owed:
  assumes "engine_ok sts0 e" "engine_poll_flush io e w = (r, e', w')"
  shows "engine_ok sts0 e' \<and> owed sent e' w' = owed sent e w \<and> en_plan e' = en_plan e \<and>
    en_stream_loss_offset e' = en_stream_loss_offset e \<and> en_blackhole e' = en_blackhole e \<and>
    (r = Ready (Inr ()) \<longrightarrow> en_queue e' = [])"
  using flush_drains [of e w r e' w'] drained_engine_ok [of clock sent e w e' w' sts0] assms
  by (auto simp: engine_ok_def timers_ok_def)

lemma write_through_owed:
  assumes ok: "engine_ok sts0 (cs_engine cs)" and run: "write_through_engine io bytes cs w = (r, cs', w')"
  shows "engine_ok sts0 (cs_engine cs') \<and> en_plan (cs_engine cs') = en_plan (cs_engine cs) \<and>
    write_effect sts0 (cs_engine cs) bytes (owed sent (cs_engine cs) w) r (owed sent (cs_engine cs') w')"
proof -
  let ?e = "cs_engine cs"
  obtain r1 e1 w1 where f1: "engine_poll_flush io ?e w = (r1, e1, w1)" by (metis prod_cases3)
  note first = flush_owed [OF ok f1]
  then have ok1: "engine_ok sts0 e1" and o1: "owed sent e1 w1 = owed sent ?e w"
    and same: "en_plan e1 = en_plan ?e" "en_stream_loss_offset e1 = en_stream_loss_offset ?e"
      "en_blackhole e1 = en_blackhole ?e" by simp_all
  obtain n e2 w2 where acc: "accept_now io bytes e1 w1 = (n, e2, w2)" by (metis prod_cases3)
  note accepted = accept_now_owed [OF ok1 acc]
  obtain r3 e3 w3 where f3: "engine_poll_flush io e2 w2 = (r3, e3, w3)" by (metis prod_cases3)
  have ok2: "engine_ok sts0 e2" using accepted by simp
  note third = flush_owed [OF ok2 f3]
  obtain t where kept: "owed sent e2 w2 = owed sent ?e w @ write_kept sts0 t ?e (take n bytes)"
    using accepted o1 write_kept_cong [OF same, of sts0] unfolding write_kept_def [symmetric] by metis
  show ?thesis
  proof (cases "\<exists>err. r1 = Ready (Inl err)")
    case True
    then obtain err where "(r, cs', w') = (Ready (Inl err), mirror (cs\<lparr>cs_engine := e1\<rparr>), w1)"
      using run f1 by (auto simp: write_through_engine_def)
    with ok1 o1 same show ?thesis by auto
  next
    case False
    then have unf: "(r, cs', w') =
       (if bytes = [] then (Ready (Inr 0), cs\<lparr>cs_engine := e1\<rparr>, w1)
        else if closed_by_termination e1 then
          (Ready (Inl (terminated_error (en_termination e1))), cs\<lparr>cs_engine := e1\<rparr>, w1)
        else if 0 < n then (Ready (Inr n), mirror (cs\<lparr>cs_engine := e3\<rparr>), w3)
        else if closed_by_termination e2 then
          (Ready (Inl (terminated_error (en_termination e2))), cs\<lparr>cs_engine := e2\<rparr>, w2)
        else (Pending, cs\<lparr>cs_engine := e2\<rparr>, w2))"
      using run f1 acc f3 unfolding write_through_engine_def
      by (cases r1) (auto simp: Let_def split: sum.splits)
    consider (none) "bytes = []" | (closed) "bytes \<noteq> []" "closed_by_termination e1"
      | (took) "bytes \<noteq> []" "\<not> closed_by_termination e1" "0 < n"
      | (full) "bytes \<noteq> []" "\<not> closed_by_termination e1" "n = 0" by blast
    then show ?thesis
    proof cases
      case none
      then show ?thesis using unf ok1 o1 same by (auto simp: write_kept_def)
    next
      case closed
      then show ?thesis using unf ok1 o1 same by simp
    next
      case took
      then show ?thesis using unf third accepted kept same by auto
    next
      case full
      then show ?thesis using unf ok2 accepted kept same by (auto simp: write_kept_def split: if_splits)
    qed
  qed
qed

lemma write_current_owed:
  assumes ok: "stream_ok sts0 cs" and run: "write_current io bytes cs w = (r, cs', w')"
  shows "stream_ok sts0 cs' \<and>
    write_effect sts0 (cs_engine cs) bytes (owed sent (cs_engine cs) w) r (owed sent (cs_engine cs') w')"
proof (cases "engine_is_empty (cs_engine cs)")
  case True
  obtain r1 w1 where wr: "io_write io bytes w = (r1, w1)" by fastforce
  have out: "r = r1" "cs' = direct_result cs r1" "w' = w1" using run True wr by (auto simp: write_current_def)
  have cs': "cs_engine cs' = cs_engine cs" unfolding out(2) by (cases "(cs, r1)" rule: direct_result.cases) simp_all
  have q: "queue_bytes (cs_engine cs) = []" using ok True by (simp add: stream_ok_def queue_bytes_def)
  have pres: "is_preserving_only (cs_engine cs)"
    using True by (simp add: engine_is_empty_def plan_is_empty_def is_preserving_only_def)
  have "engine_ok sts0 (cs_engine cs)" using ok by (simp add: stream_ok_alt)
  note kept = preserving_kept [OF this pres]
  have "write_effect sts0 (cs_engine cs) bytes (owed sent (cs_engine cs) w) r1 (owed sent (cs_engine cs) w1)"
    using write_law [OF wr] write_bound [of bytes w _ w1] wr q kept
    by (cases "(r1, bytes)" rule: written.cases) (auto simp: owed_def)
  moreover have "stream_ok sts0 cs'" using ok cs' by (simp add: stream_ok_def)
  ultimately show ?thesis using cs' out by simp
next
  case False
  then have run': "write_through_engine io bytes cs w = (r, cs', w')" using run by (simp add: write_current_def)
  from write_through_owed [OF _ run'] ok False show ?thesis
    by (auto simp: stream_ok_alt engine_is_empty_def)
qed

end

section \<open>Transitions\<close>

definition drain_fails :: "'w io \<Rightarrow> direction_engine \<Rightarrow> 'w \<Rightarrow> bool" where
  "drain_fails io e w = (en_queue e \<noteq> [] \<and> (\<exists>err. fst (engine_poll_flush io e w) = Ready (Inl err)))"

definition current :: "fault_plan published_policy \<Rightarrow> chaos_stream \<Rightarrow> bool" where
  "current snap cs = (\<not> cs_live cs \<or> generation snap = cs_observed_generation cs)"

lemma update_live_current: "current snap cs \<Longrightarrow> update_live io snap cs w = Some (Ready (), cs, w)"
  by (simp add: update_live_def current_def)

lemma absorb_fields:
  "en_queue (absorb_evidence ev e) = en_queue e" "en_plan (absorb_evidence ev e) = en_plan e"
  "en_termination (absorb_evidence ev e) = en_termination e" "en_handle (absorb_evidence ev e) = en_handle e"
  "loss_inv sts0 (absorb_evidence ev e) = loss_inv sts0 e" "timers_ok (absorb_evidence ev e) = timers_ok e"
  "stages_match_plan (absorb_evidence ev e) = stages_match_plan e"
  "en_stream_loss (absorb_evidence ev e) = en_stream_loss e"
  "ev_bytes_accepted (en_evidence (absorb_evidence ev e)) =
     sat_add64 (ev_bytes_accepted (en_evidence e)) (ev_bytes_accepted ev)"
  "ev_bytes_forwarded (en_evidence (absorb_evidence ev e)) =
     sat_add64 (ev_bytes_forwarded (en_evidence e)) (ev_bytes_forwarded ev)"
  by (simp_all add: absorb_evidence_def Let_def loss_inv_def timers_ok_def stages_match_plan_def
      is_preserving_only_def loss_active_def)

lemma absorb_offset: "en_stream_loss_offset (absorb_evidence ev e) = en_stream_loss_offset e"
  by (simp add: absorb_evidence_def Let_def)

text \<open>A transition that is not blocked installs a fresh engine, whatever became of the old queue.\<close>

lemma update_live_ready:
  assumes "\<not> current snap cs" "update_live io snap cs w = Some (Ready (), cs', w')"
    and "transition_drain io (cs_engine cs) w = (blocked, e1, w1)"
  obtains now fresh where "\<not> blocked" "io_now io w1 = (now, w')"
    "new_with_arc_plan (pub_plan snap) (seed_namespace snap) (cs_proxy cs) (cs_connection_key cs)
       (cs_direction cs) (en_handle e1) now = Inr fresh"
    "cs_engine cs' = absorb_evidence (evidence e1) fresh" "cs_observed_generation cs' = generation snap"
    "se_transitions (cs_evidence cs') = (se_transitions (cs_evidence cs) + 1) mod 2 ^ 64"
  using assms by (auto simp: update_live_def current_def refresh_policy_def mirror_engine_def Let_def split: if_splits prod.splits sum.splits)

text \<open>The counters of an engine that outlive it. Forwarded bytes are counted by the drain as well.\<close>

definition carried_over :: "engine_evidence \<Rightarrow> engine_evidence \<Rightarrow> bool" where
  "carried_over old new =
     (list_all (\<lambda>counter. counter new = min (counter old) U64_MAX)
        [ev_bytes_accepted, ev_bytes_discarded, ev_segments, ev_slices, ev_injected_delay_ms, ev_throttled_delay_ms,
         ev_sl_chunks_evaluated, ev_sl_chunks_dropped, ev_sl_bytes_discarded] \<and>
      ev_activations new = map (\<lambda>n. min n U64_MAX) (ev_activations old))"

lemma carried_over_forwarded: "carried_over (old\<lparr>ev_bytes_forwarded := n\<rparr>) new = carried_over old new"
  by (simp add: carried_over_def)

lemma drain_frame_kept_evidence:
  assumes "drain_frame e e'"
  shows "(en_evidence e')\<lparr>ev_bytes_forwarded := 0\<rparr> = (en_evidence e)\<lparr>ev_bytes_forwarded := 0\<rparr>"
proof -
  have same: "erase_drain e' = erase_drain e" using assms by (simp add: drain_frame_def)
  show ?thesis using arg_cong [OF same, of en_evidence] by (simp add: erase_drain_def)
qed

lemma absorbed_evidence:
  assumes "new_with_arc_plan plan s p k d h now = Inr fresh" "length (ev_activations (en_evidence e)) = 7"
  shows "carried_over (en_evidence e) (en_evidence (absorb_evidence (evidence e) fresh))"
    "en_high_water (absorb_evidence (evidence e) fresh) = en_high_water e"
proof -
  have "map2 sat_add64 (replicate (length xs) 0) xs = map (\<lambda>n. min n U64_MAX) xs" for xs
    by (induction xs) (simp_all add: sat_add64_def)
  from this [of "ev_activations (en_evidence e)"] assms(2)
  have "map2 sat_add64 (replicate 7 0) (ev_activations (en_evidence e)) = map (\<lambda>n. min n U64_MAX) (ev_activations (en_evidence e))" by simp
  then show "carried_over (en_evidence e) (en_evidence (absorb_evidence (evidence e) fresh))"
    using new_engine_inv(13) [OF assms(1)]
    by (simp add: carried_over_def absorb_evidence_def evidence_def evidence_default_def sat_add64_def Let_def)
  have "en_high_water fresh = 0" using assms(1) by (auto simp: new_with_arc_plan_def Let_def split: sum.splits)
  then show "en_high_water (absorb_evidence (evidence e) fresh) = en_high_water e"
    by (simp add: absorb_evidence_def evidence_def Let_def)
qed

context transport
begin

lemma transition_drain_law:
  assumes "engine_ok sts0 e" "transition_drain io e w = (False, e1, w1)" "\<not> drain_fails io e w"
  shows "engine_ok sts0 e1 \<and> en_queue e1 = [] \<and> sent w1 = sent w @ queue_bytes e \<and> en_handle e1 = en_handle e \<and>
    (en_evidence e1)\<lparr>ev_bytes_forwarded := 0\<rparr> = (en_evidence e)\<lparr>ev_bytes_forwarded := 0\<rparr> \<and> en_high_water e1 = en_high_water e"
proof (cases "en_queue e = []")
  case True
  then show ?thesis using assms by (simp add: transition_drain_def queue_is_empty_def queue_bytes_def)
next
  case False
  obtain r e2 w2 where f: "engine_poll_flush io e w = (r, e2, w2)" by (metis prod_cases3)
  have e1: "e1 = e2" "w1 = w2" "\<not> is_pending r"
    using assms(2) f False by (simp_all add: transition_drain_def queue_is_empty_def)
  have r: "r = Ready (Inr ())"
  proof (cases r)
    case (Ready x)
    then show ?thesis using assms(3) f False by (cases x) (auto simp: drain_fails_def)
  qed (use e1(3) in simp)
  note fl = flush_owed [OF assms(1) f]
  have "timer_ok (en_queue_timer e)" using assms(1) by (simp add: engine_ok_def timers_ok_def)
  then have frame: "drain_frame e e2" using flush_drains [OF _ f] by (auto simp: drained_def)
  show ?thesis
    using fl r e1 drain_frame_fields(5,15) [OF frame] drain_frame_kept_evidence [OF frame] by (auto simp: owed_def queue_bytes_def)
qed

lemma transition_law:
  assumes ok: "stream_ok sts0 cs" and "\<not> current snap cs" and live: "update_live io snap cs w = Some (Ready (), cs', w')"
    and "\<not> drain_fails io (cs_engine cs) w"
  shows "sent w' = sent w @ queue_bytes (cs_engine cs) \<and> stream_ok (en_stream_loss (cs_engine cs')) cs' \<and>
    en_queue (cs_engine cs') = [] \<and> en_plan (cs_engine cs') = pub_plan snap \<and>
    cs_observed_generation cs' = generation snap \<and>
    en_handle (cs_engine cs') = en_handle (cs_engine cs) \<and> en_termination (cs_engine cs') = en_handle (cs_engine cs) \<and>
    carried_over (en_evidence (cs_engine cs)) (en_evidence (cs_engine cs')) \<and> en_high_water (cs_engine cs') = en_high_water (cs_engine cs) \<and>
    (ev_bytes_accepted (en_evidence (cs_engine cs)) < U64_MAX \<longrightarrow>
       ev_bytes_forwarded (en_evidence (cs_engine cs')) = ev_bytes_forwarded (en_evidence (cs_engine cs)) + length (queue_bytes (cs_engine cs))) \<and>
    se_transitions (cs_evidence cs') = (se_transitions (cs_evidence cs) + 1) mod 2 ^ 64"
proof -
  obtain blocked e1 w1 where d: "transition_drain io (cs_engine cs) w = (blocked, e1, w1)" by (metis prod_cases3)
  from update_live_ready [OF assms(2) live d] obtain now fresh where b: "\<not> blocked" "io_now io w1 = (now, w')"
    and new: "new_with_arc_plan (pub_plan snap) (seed_namespace snap) (cs_proxy cs) (cs_connection_key cs)
       (cs_direction cs) (en_handle e1) now = Inr fresh"
    and eng: "cs_engine cs' = absorb_evidence (evidence e1) fresh" "cs_observed_generation cs' = generation snap"
      "se_transitions (cs_evidence cs') = (se_transitions (cs_evidence cs) + 1) mod 2 ^ 64" .
  have eok: "engine_ok sts0 (cs_engine cs)" using ok by (simp add: stream_ok_alt)
  have law: "engine_ok sts0 e1" "en_queue e1 = []" "sent w1 = sent w @ queue_bytes (cs_engine cs)"
    "en_handle e1 = en_handle (cs_engine cs)"
    "(en_evidence e1)\<lparr>ev_bytes_forwarded := 0\<rparr> = (en_evidence (cs_engine cs))\<lparr>ev_bytes_forwarded := 0\<rparr>"
    "en_high_water e1 = en_high_water (cs_engine cs)"
    using transition_drain_law [OF eok _ assms(4)] d b(1) by auto
  note inv = new_engine_inv [OF new]
  have "en_buffered e1 = 0" using law(1,2) by (simp add: engine_ok_def engine_wf_def queue_ok_def queue_bytes_def)
  then have wf: "engine_wf (cs_engine cs')"
    unfolding eng using law(1)
    by (intro absorb_wf new_engine_wf [OF new]) (simp_all add: evidence_def engine_ok_def engine_wf_defs Let_def)
  have fok: "engine_ok (en_stream_loss fresh) fresh" using new_engine_ok [OF new] .
  have "stream_ok (en_stream_loss (cs_engine cs')) cs'"
    using wf fok inv(6) by (simp add: stream_ok_def eng absorb_fields engine_ok_def)
  moreover have "sent w' = sent w1" using now_sent [of w1] b(2) by simp
  moreover have over: "carried_over (en_evidence (cs_engine cs)) (en_evidence (cs_engine cs'))" "en_high_water (cs_engine cs') = en_high_water (cs_engine cs)"
  proof -
    have "length (ev_activations (en_evidence e1)) = 7" using law(1) by (simp add: engine_ok_def engine_wf_defs)
    from absorbed_evidence [OF new this] law(5,6) show "carried_over (en_evidence (cs_engine cs)) (en_evidence (cs_engine cs'))"
      "en_high_water (cs_engine cs') = en_high_water (cs_engine cs)"
      unfolding eng by (metis carried_over_forwarded, simp)
  qed
  moreover have "ev_bytes_forwarded (en_evidence (cs_engine cs')) = ev_bytes_forwarded (en_evidence (cs_engine cs)) + length (queue_bytes (cs_engine cs))"
    if "ev_bytes_accepted (en_evidence (cs_engine cs)) < U64_MAX"
  proof -
    have "conserved (cs_engine cs)" "conserved (cs_engine cs')" "en_buffered (cs_engine cs) = length (queue_bytes (cs_engine cs))"
      "en_buffered (cs_engine cs') = length (queue_bytes (cs_engine cs'))" using eok wf by (simp_all add: engine_ok_def engine_wf_def queue_ok_def)
    moreover have "queue_bytes (cs_engine cs') = []" using inv(6) by (simp add: eng absorb_fields queue_bytes_def)
    moreover have "ev_bytes_accepted (en_evidence (cs_engine cs')) = ev_bytes_accepted (en_evidence (cs_engine cs))"
      "ev_bytes_discarded (en_evidence (cs_engine cs')) = min (ev_bytes_discarded (en_evidence (cs_engine cs))) U64_MAX"
      using that over(1) by (simp_all add: carried_over_def)
    ultimately show ?thesis using that by (simp add: conserved_def Let_def)
  qed
  ultimately show ?thesis using law inv eng by (simp add: absorb_fields)
qed

text \<open>Whether it completes or waits, a transition whose drain does not fail loses nothing the stream owes.\<close>

lemma transition_waits:
  assumes "stream_ok sts0 cs" "\<not> current snap cs" "update_live io snap cs w = Some (Pending, cs1, w1)"
  shows "stream_ok sts0 cs1 \<and> owed sent (cs_engine cs1) w1 = owed sent (cs_engine cs) w"
proof -
  obtain blocked e1 w2 where d: "transition_drain io (cs_engine cs) w = (blocked, e1, w2)" by (metis prod_cases3)
  have out: "blocked" "cs_engine cs1 = e1" "w1 = w2"
    using assms(2,3) d by (auto simp: update_live_def current_def Let_def split: if_splits prod.splits sum.splits)
  have q: "en_queue (cs_engine cs) \<noteq> []" using d out(1) by (auto simp: transition_drain_def queue_is_empty_def split: if_splits)
  then obtain r where f: "engine_poll_flush io (cs_engine cs) w = (r, e1, w2)"
    using d by (auto simp: transition_drain_def queue_is_empty_def split: prod.splits)
  have ok: "engine_ok sts0 (cs_engine cs)" "\<not> engine_is_empty (cs_engine cs)" using assms(1) q by (auto simp: stream_ok_alt)
  from flush_owed [OF ok(1) f] ok(2) out show ?thesis by (simp add: stream_ok_alt engine_is_empty_def)
qed

lemma transition_fresh:
  assumes "\<not> current snap cs" "update_live io snap cs w = Some (Ready (), cs', w')"
  shows "en_stream_loss_offset (cs_engine cs') = 0"
proof -
  obtain blocked e1 w1 where d: "transition_drain io (cs_engine cs) w = (blocked, e1, w1)" by (metis prod_cases3)
  from update_live_ready [OF assms d] show ?thesis by (metis new_engine_inv(14) absorb_offset)
qed

end

text \<open>When the drain fails the queue is dropped.\<close>

lemma transition_drops_queue:
  assumes "\<not> current snap cs" "plan_ok (pub_plan snap)" "en_queue (cs_engine cs) \<noteq> []"
    and "engine_poll_flush io (cs_engine cs) w = (Ready (Inl err), e1, w1)" "io_now io w1 = (now, w2)"
  shows "\<exists>cs'. update_live io snap cs w = Some (Ready (), cs', w2) \<and> en_queue (cs_engine cs') = []"
proof -
  have "plan_validate (pub_plan snap) = Inr ()" using assms(2) by (simp add: plan_validate_iff)
  then obtain fresh where new: "new_with_arc_plan (pub_plan snap) (seed_namespace snap) (cs_proxy cs)
      (cs_connection_key cs) (cs_direction cs) (en_handle e1) now = Inr fresh"
    by (simp add: new_with_arc_plan_def Let_def)
  have "transition_drain io (cs_engine cs) w = (False, e1, w1)"
    using assms(3,4) by (simp add: transition_drain_def queue_is_empty_def)
  then show ?thesis
    using assms(1,5) new new_engine_inv(6) [OF new]
    by (simp add: update_live_def current_def Let_def absorb_fields)
qed

section \<open>Streams to compute with\<close>

definition limit_stream :: chaos_stream where
  "limit_stream =
     \<lparr>cs_engine = limit_engine, cs_direction = Upstream, cs_live = True, cs_proxy = ''p'', cs_connection_key = 1,
      cs_observed_generation = 1, cs_evidence = stream_evidence_default\<rparr>"

definition example_snapshot :: "nat \<Rightarrow> fault_plan published_policy" where
  "example_snapshot n = \<lparr>generation = n, pub_plan = example_limit_plan, seed_namespace = 7\<rparr>"

lemma limit_stream_ok: "stream_ok (en_stream_loss limit_engine) limit_stream"
proof -
  have "engine_ok (en_stream_loss limit_engine) limit_engine" using new_engine_ok [OF limit_engine_new] .
  then show ?thesis by (simp add: stream_ok_alt limit_stream_def) (simp add: limit_engine_def)
qed

lemma limit_stream_current: "current (example_snapshot 1) limit_stream"
  by (simp add: current_def example_snapshot_def limit_stream_def)

lemma limit_stream_write:
  "\<exists>cs' w'. poll_write (capture_io paused_io) (example_snapshot 1) [1, 2, 3, 4] limit_stream (0, []) =
     Some (Ready (Inr 3), cs', w')"
proof -
  have flush: "engine_poll_flush (capture_io paused_io) limit_engine (0, []) = (Ready (Inr ()), limit_engine, (0, []))"
    by (simp add: engine_poll_flush_def poll_queue.simps limit_engine_def capture_io_def)
  obtain e' where acc: "accept [1, 2, 3, 4] 0 0 0 limit_engine = (3, e')"
    using limit_engine_accept by (cases "accept [1, 2, 3, 4] 0 0 0 limit_engine") simp
  then have now: "accept_now (capture_io paused_io) [1, 2, 3, 4] limit_engine (0, []) = (3, e', (0, []))"
    by (simp add: accept_now_def capture_io_def paused_io_def)
  have no: "\<not> closed_by_termination limit_engine" "\<not> engine_is_empty limit_engine"
    by (simp_all add: closed_by_termination_def engine_termination_request_def limit_engine_def engine_is_empty_def
        plan_is_empty_def example_limit_plan_def)
  obtain r3 e3 w3 where last: "engine_poll_flush (capture_io paused_io) e' (0, []) = (r3, e3, w3)" by (metis prod_cases3)
  have eng: "cs_engine limit_stream = limit_engine" by (simp add: limit_stream_def)
  show ?thesis
    unfolding poll_write_def update_live_current [OF limit_stream_current]
    using flush now no last by (simp add: write_current_def write_through_engine_def eng)
qed

section \<open>Properties\<close>

text \<open>
  C4. Write ownership. Whatever a \<^verbatim>\<open>poll_write\<close> finds, a policy in force or a transition to a new one whose drain does not fail, it
  either reports \<open>n\<close> bytes, and then the bytes the stream owes (sent plus queued) grow by what the faults keep of exactly that prefix of
  the caller's buffer, or it reports an error or \<^verbatim>\<open>Pending\<close>, and then the caller still owns all its bytes: what the stream owes
  has not changed. After a transition the faults are those of the new plan, from stream offset zero. The stream's invariant is kept.
\<close>

theorem write_ownership:
  assumes "transport io clock sent" "stream_ok sts0 cs" "current snap cs \<or> \<not> drain_fails io (cs_engine cs) w"
    and "poll_write io snap bytes cs w = Some (r, cs', w')"
  shows "(\<exists>sts. stream_ok sts cs') \<and>
    (case r of
       Ready (Inr n) \<Rightarrow> n \<le> length bytes \<and>
         (\<exists>sts cs1 w1 t. update_live io snap cs w = Some (Ready (), cs1, w1) \<and>
            (if current snap cs then sts = sts0 \<and> cs1 = cs
             else sts = en_stream_loss (cs_engine cs1) \<and> en_plan (cs_engine cs1) = pub_plan snap \<and>
               en_stream_loss_offset (cs_engine cs1) = 0) \<and>
            owed sent (cs_engine cs') w' = owed sent (cs_engine cs) w @ write_kept sts t (cs_engine cs1) (take n bytes))
     | _ \<Rightarrow> owed sent (cs_engine cs') w' = owed sent (cs_engine cs) w)"
proof -
  obtain p cs1 w1 where up: "update_live io snap cs w = Some (p, cs1, w1)"
    using assms(4) by (auto simp: poll_write_def split: option.splits)
  show ?thesis
  proof (cases p)
    case Pending
    then have "\<not> current snap cs" using up by (auto simp: update_live_current)
    moreover have "(r, cs', w') = (Pending, cs1, w1)" using assms(4) up Pending by (simp add: poll_write_def)
    ultimately show ?thesis using transport.transition_waits [OF assms(1,2), of snap w cs1 w1] up Pending by (auto intro: exI [of _ sts0])
  next
    case (Ready u)
    then have run: "write_current io bytes cs1 w1 = (r, cs', w')" and up: "update_live io snap cs w = Some (Ready (), cs1, w1)"
      using assms(4) up by (simp_all add: poll_write_def)
    show ?thesis
    proof (cases "current snap cs")
      case True
      then have "cs1 = cs" "w1 = w" using up by (simp_all add: update_live_current)
      with transport.write_current_owed [OF assms(1,2), of bytes w r cs' w'] run True up show ?thesis
        by (cases r rule: poll_result_cases) auto
    next
      case False
      note law = transport.transition_law [OF assms(1,2) False up] transport.transition_fresh [OF assms(1) False up]
      have ok: "stream_ok (en_stream_loss (cs_engine cs1)) cs1" and o: "owed sent (cs_engine cs1) w1 = owed sent (cs_engine cs) w"
        using law(1) assms(3) False by (simp_all add: owed_def queue_bytes_def)
      have "en_plan (cs_engine cs1) = pub_plan snap" "en_stream_loss_offset (cs_engine cs1) = 0" using law assms(3) False by simp_all
      with transport.write_current_owed [OF assms(1) ok run] o False up show ?thesis
        by (cases r rule: poll_result_cases) auto
    qed
  qed
qed

theorem write_ownership_witness:
  "\<exists>cs' w'. poll_write (capture_io paused_io) (example_snapshot 1) [1, 2, 3, 4] limit_stream (0, []) =
     Some (Ready (Inr 3), cs', w') \<and> owed snd (cs_engine cs') w' = [1, 2, 3]"
proof -
  obtain cs' w' where run: "poll_write (capture_io paused_io) (example_snapshot 1) [1, 2, 3, 4] limit_stream (0, []) =
     Some (Ready (Inr 3), cs', w')" using limit_stream_write by blast
  have "engine_ok (en_stream_loss limit_engine) limit_engine" "is_preserving_only limit_engine"
    using new_engine_ok [OF limit_engine_new]
    by (simp_all add: is_preserving_only_def) (simp add: limit_engine_def example_limit_plan_def)
  note kept = preserving_kept [OF this]
  have "cs_engine limit_stream = limit_engine" "owed snd limit_engine (0, []) = []"
    by (simp_all add: limit_stream_def) (simp add: owed_def limit_engine_def queue_bytes_def)
  with write_ownership [OF example_transport limit_stream_ok disjI1 [OF limit_stream_current] run] run show ?thesis
    by (auto simp: limit_stream_current [simplified] kept)
qed

text \<open>
  C5. A live-policy transition is a barrier. When the drain of the old engine does not fail, the transition completes only after
  every byte the old engine owned was sent. The new engine runs the published plan, starts empty and keeps the durable termination
  handle, so a termination requested earlier survives. Every counter is carried over: accepted, discarded, segments, slices, both delays,
  activations, loss chunks and lost bytes, the high-water mark, and the forwarded bytes with those the drain sent.
\<close>

theorem transition_is_a_barrier:
  assumes "transport io clock sent" "stream_ok sts0 cs" "\<not> current snap cs"
    and "update_live io snap cs w = Some (Ready (), cs', w')" "\<not> drain_fails io (cs_engine cs) w"
  shows "sent w' = sent w @ queue_bytes (cs_engine cs) \<and> stream_ok (en_stream_loss (cs_engine cs')) cs' \<and>
    en_queue (cs_engine cs') = [] \<and> en_plan (cs_engine cs') = pub_plan snap \<and>
    cs_observed_generation cs' = generation snap \<and>
    en_handle (cs_engine cs') = en_handle (cs_engine cs) \<and> en_termination (cs_engine cs') = en_handle (cs_engine cs) \<and>
    carried_over (en_evidence (cs_engine cs)) (en_evidence (cs_engine cs')) \<and> en_high_water (cs_engine cs') = en_high_water (cs_engine cs) \<and>
    (ev_bytes_accepted (en_evidence (cs_engine cs)) < U64_MAX \<longrightarrow>
       ev_bytes_forwarded (en_evidence (cs_engine cs')) = ev_bytes_forwarded (en_evidence (cs_engine cs)) + length (queue_bytes (cs_engine cs))) \<and>
    se_transitions (cs_evidence cs') = (se_transitions (cs_evidence cs) + 1) mod 2 ^ 64"
  using transport.transition_law [OF assms] .

text \<open>The stream after a write of two bytes, which are still queued when the next policy is published.\<close>

lemma queued_engine:
  "\<exists>e. engine_ok (en_stream_loss limit_engine) e \<and> en_queue e = map due_now [[1, 2]] \<and> en_plan e = example_limit_plan"
proof -
  obtain n e where a: "accept [1, 2] 0 0 0 limit_engine = (n, e)" by fastforce
  have ok: "engine_ok (en_stream_loss limit_engine) limit_engine" using new_engine_ok [OF limit_engine_new] .
  have "accept_now (capture_io paused_io) [1, 2] limit_engine (0, []) = (n, e, (0, []))" using a by (simp add: accept_now_def)
  from captured.accept_now_owed [OF ok this] limit_engine_takes_two [OF a] show ?thesis
    by (intro exI [of _ e]) (simp add: limit_engine_def)
qed

theorem transition_is_a_barrier_witness:
  "\<exists>cs cs' w'. queue_bytes (cs_engine cs) = [1, 2] \<and> \<not> current (example_snapshot 2) cs \<and>
     update_live (capture_io paused_io) (example_snapshot 2) cs (0, []) = Some (Ready (), cs', w') \<and>
     snd w' = [1, 2] \<and> en_queue (cs_engine cs') = [] \<and> cs_observed_generation cs' = 2"
proof -
  obtain e where e: "engine_ok (en_stream_loss limit_engine) e" "en_queue e = map due_now [[1, 2]]" "en_plan e = example_limit_plan"
    using queued_engine by blast
  define cs where "cs = limit_stream\<lparr>cs_engine := e\<rparr>"
  have ok: "stream_ok (en_stream_loss limit_engine) cs"
    using e by (simp add: stream_ok_alt cs_def engine_is_empty_def plan_is_empty_def example_limit_plan_def)
  have stale: "\<not> current (example_snapshot 2) cs" by (simp add: current_def example_snapshot_def cs_def limit_stream_def)
  obtain e1 where f: "engine_poll_flush (capture_io paused_io) (cs_engine cs) (0, []) = (Ready (Inr ()), e1, (0, [1, 2]))"
    using captured_flush [OF e(2), of "[]"] by (auto simp: cs_def)
  have calm: "\<not> drain_fails (capture_io paused_io) (cs_engine cs) (0, [])" using f by (simp add: drain_fails_def)
  have "plan_validate (pub_plan (example_snapshot 2)) = Inr ()" using example_limit_plan_ok by (simp add: example_snapshot_def plan_validate_iff)
  then obtain fresh where "new_with_arc_plan (pub_plan (example_snapshot 2)) (seed_namespace (example_snapshot 2)) (cs_proxy cs)
      (cs_connection_key cs) (cs_direction cs) (en_handle e1) 0 = Inr fresh" by (simp add: new_with_arc_plan_def Let_def)
  then obtain cs' w' where run: "update_live (capture_io paused_io) (example_snapshot 2) cs (0, []) = Some (Ready (), cs', w')"
    using stale f e(2) by (simp add: update_live_def current_def transition_drain_def queue_is_empty_def cs_def Let_def)
  have "queue_bytes (cs_engine cs) = [1, 2]" using e(2) by (simp add: cs_def queue_bytes_def due_now_def)
  with transition_is_a_barrier [OF example_transport ok stale run calm] run stale show ?thesis
    by (intro exI [of _ cs] exI [of _ cs'] exI [of _ w']) (simp add: example_snapshot_def)
qed

text \<open>
  A transition whose drain fails loses bytes. \<^verbatim>\<open>update_live\<close> tests the flush of the old engine
  with \<^verbatim>\<open>is_pending\<close> only: when the inner transport reports an error instead, the old engine and
  the bytes it still owns are dropped and the transition reports success.
\<close>

theorem failed_drain_loses_bytes:
  assumes "\<not> current snap cs" "plan_ok (pub_plan snap)" "en_queue (cs_engine cs) \<noteq> []"
    and "engine_poll_flush io (cs_engine cs) w = (Ready (Inl err), e1, w1)" "io_now io w1 = (now, w2)"
  shows "\<exists>cs'. update_live io snap cs w = Some (Ready (), cs', w2) \<and> en_queue (cs_engine cs') = []"
  using assms by (rule transition_drops_queue)

definition broken_io :: "(instant \<times> byte list) io" where
  "broken_io = (capture_io paused_io)\<lparr>io_write := (\<lambda>bs w. (Ready (Inl (TransportError 1)), w))\<rparr>"

definition loaded_stream :: chaos_stream where
  "loaded_stream = limit_stream\<lparr>cs_engine := limit_engine\<lparr>en_queue := [\<lparr>q_bytes = [7], q_release = 0\<rparr>]\<rparr>\<rparr>"

theorem failed_drain_loses_bytes_witness:
  "\<exists>cs' w'. update_live broken_io (example_snapshot 2) loaded_stream (0, []) = Some (Ready (), cs', w') \<and>
     en_queue (cs_engine loaded_stream) = [\<lparr>q_bytes = [7], q_release = 0\<rparr>] \<and>
     en_queue (cs_engine cs') = [] \<and> snd w' = []"
proof -
  have stale: "\<not> current (example_snapshot 2) loaded_stream"
    by (simp add: current_def example_snapshot_def loaded_stream_def limit_stream_def)
  have plan: "plan_ok (pub_plan (example_snapshot 2))" using example_limit_plan_ok by (simp add: example_snapshot_def)
  have queue: "en_queue (cs_engine loaded_stream) = [\<lparr>q_bytes = [7], q_release = 0\<rparr>]" by (simp add: loaded_stream_def)
  then have q: "en_queue (cs_engine loaded_stream) \<noteq> []" by simp
  have flush: "engine_poll_flush broken_io (cs_engine loaded_stream) (0, []) =
      (Ready (Inl (TransportError 1)), cs_engine loaded_stream, (0, []))"
    by (simp add: engine_poll_flush_def poll_queue.simps queue front_due_def broken_io_def capture_io_def
        paused_io_def Let_def)
  have now: "io_now broken_io (0, []) = (0, (0, []))"
    by (simp add: broken_io_def capture_io_def paused_io_def)
  from failed_drain_loses_bytes [OF stale plan q flush now] queue show ?thesis by fastforce
qed

text \<open>
  A vectored write on a full queue can be stranded. The vectored path computes the free capacity
  before it drives the queue; when the drive then empties the queue completely, it answers
  \<^verbatim>\<open>Pending\<close> although the whole capacity is free and no timer and no inner operation is left that
  would wake the task.
\<close>

theorem vectored_write_stranded:
  assumes "current snap cs" "\<not> engine_is_empty (cs_engine cs)" "is_preserving_only (cs_engine cs)"
    and "bounded_accept_capacity (cs_engine cs) = 0" "en_termination (cs_engine cs) = None"
    and "engine_poll_flush io (cs_engine cs) w = (Ready (Inr ()), e1, w1)" "en_termination e1 = None"
    and "io_now io w1 = (now, w2)" "en_termination (refresh_sync_terminations now e1) = None"
  shows "poll_write_vectored io snap snap2 bufs cs w =
    Some (Pending, cs\<lparr>cs_engine := refresh_sync_terminations now e1\<rparr>, w2)"
  using assms
  by (simp add: poll_write_vectored_def update_live_current vectored_full_def refresh_now_def
      closed_by_termination_def engine_termination_request_def)

definition full_stream :: chaos_stream where
  "full_stream = limit_stream\<lparr>cs_engine := limit_engine\<lparr>en_max_buffer := 1, en_buffered := 1,
     en_queue := [\<lparr>q_bytes = [7], q_release = 0\<rparr>]\<rparr>\<rparr>"

theorem vectored_write_stranded_witness:
  "\<exists>cs' w'. poll_write_vectored (capture_io paused_io) (example_snapshot 1) (example_snapshot 1) [[9]] full_stream (0, []) =
     Some (Pending, cs', w') \<and> snd w' = [7] \<and> en_queue (cs_engine cs') = [] \<and>
     bounded_accept_capacity (cs_engine cs') = 1"
proof -
  have cur: "current (example_snapshot 1) full_stream"
    by (simp add: current_def example_snapshot_def full_stream_def limit_stream_def)
  have shape: "\<not> engine_is_empty (cs_engine full_stream)" "is_preserving_only (cs_engine full_stream)"
    "bounded_accept_capacity (cs_engine full_stream) = 0" "en_termination (cs_engine full_stream) = None"
    by (simp_all add: full_stream_def limit_engine_def engine_is_empty_def plan_is_empty_def example_limit_plan_def
        is_preserving_only_def bounded_accept_capacity_def limit_available_def)
  let ?e1 = "advance_front 1 (cs_engine full_stream)"
  have queue: "en_queue (cs_engine full_stream) = [\<lparr>q_bytes = [7], q_release = 0\<rparr>]" by (simp add: full_stream_def)
  have flush: "engine_poll_flush (capture_io paused_io) (cs_engine full_stream) (0, []) = (Ready (Inr ()), ?e1, (0, [7]))"
  proof -
    have "en_queue ?e1 = []" by (simp add: advance_front_def queue)
    then have "poll_queue (capture_io paused_io) ?e1 (0, [7]) = (Ready (Inr ()), ?e1, (0, [7]))"
      by (simp add: poll_queue.simps)
    then have "poll_queue (capture_io paused_io) (cs_engine full_stream) (0, []) = (Ready (Inr ()), ?e1, (0, [7]))"
      by (subst poll_queue.simps) (simp add: queue front_due_def capture_io_def paused_io_def Let_def)
    then show ?thesis by (simp add: engine_poll_flush_def capture_io_def)
  qed
  have e1: "en_termination ?e1 = None" "en_disconnect ?e1 = None" "en_blackhole ?e1 = None" "en_queue ?e1 = []"
    "bounded_accept_capacity ?e1 = 1"
    by (simp_all add: advance_front_def full_stream_def limit_engine_def bounded_accept_capacity_def limit_available_def)
  then have refresh: "refresh_sync_terminations 0 ?e1 = ?e1"
    by (simp add: refresh_sync_terminations_def refresh_blackhole_def)
  have now: "io_now (capture_io paused_io) (0, [7]) = (0, (0, [7]))" by (simp add: capture_io_def paused_io_def)
  have "en_termination (refresh_sync_terminations 0 ?e1) = None" using refresh e1(1) by simp
  from vectored_write_stranded [OF cur shape flush e1(1) now this, of "example_snapshot 1" "[[9]]"] e1 refresh
  show ?thesis by simp
qed

end
