(* ===== verification/Bidirectional.thy ===== *)
theory Bidirectional
  imports ChaosStream "HOL-Library.Sublist"
begin

text \<open>
  The full-duplex wrapper, \<^verbatim>\<open>BidirectionalChaosStream\<close> of \<^verbatim>\<open>crates/eggchaos-core/src/stream.rs\<close>: an
  upstream engine that writes to the transport, and a downstream engine between the transport and the
  reader. Bytes read from the transport wait in \<open>bi_pending\<close> until the downstream engine accepts them, in the
  engine's queue until they are due, and in \<open>bi_output\<close> until the reader takes them.

  As in theory \<open>ChaosStream\<close>, a policy snapshot is an argument (\<open>snap_u\<close>, \<open>snap_d\<close>), the transport and the
  clock are \<open>io\<close>. The downstream engine is drained through the \<^verbatim>\<open>CaptureWriter\<close>. Both policies are always
  present: \<^verbatim>\<open>new_live\<close> is the only constructor. The loop of \<^verbatim>\<open>poll_read\<close> is \<open>read_round\<close>, iterated by
  \<open>read_loop\<close>, which is \<open>None\<close> when the loop does not end.
\<close>

section \<open>The stream\<close>

record bidi =
  bi_up :: direction_engine
  bi_down :: direction_engine
  bi_output :: "byte list"
  bi_pending :: "byte list"
  bi_observed_up :: nat
  bi_observed_down :: nat
  bi_proxy :: string
  bi_connection_key :: u64
  bi_up_evidence :: stream_evidence
  bi_down_evidence :: stream_evidence

definition bidi_new_live :: "fault_plan published_policy \<Rightarrow> fault_plan published_policy \<Rightarrow> string \<Rightarrow> u64 \<Rightarrow>
    instant \<Rightarrow> instant \<Rightarrow> validation_error + bidi" where
  "bidi_new_live snap_u snap_d proxy key now_u now_d =
     (case new_with_arc_plan (pub_plan snap_u) (seed_namespace snap_u) proxy key Upstream handle_new now_u of
        Inl err \<Rightarrow> Inl err
      | Inr up \<Rightarrow>
          (case new_with_arc_plan (pub_plan snap_d) (seed_namespace snap_d) proxy key Downstream handle_new now_d of
             Inl err \<Rightarrow> Inl err
           | Inr down \<Rightarrow>
               Inr \<lparr>bi_up = up, bi_down = down, bi_output = [], bi_pending = [], bi_observed_up = generation snap_u,
                    bi_observed_down = generation snap_d, bi_proxy = proxy, bi_connection_key = key,
                    bi_up_evidence = refresh_policy snap_u stream_evidence_default,
                    bi_down_evidence = refresh_policy snap_d stream_evidence_default\<rparr>))"

definition pending_upstream_generation :: "fault_plan published_policy \<Rightarrow> bidi \<Rightarrow> nat option" where
  "pending_upstream_generation snap b =
     (if generation snap \<noteq> bi_observed_up b then Some (generation snap) else None)"

definition pending_downstream_generation :: "fault_plan published_policy \<Rightarrow> bidi \<Rightarrow> nat option" where
  "pending_downstream_generation snap b =
     (if generation snap \<noteq> bi_observed_down b then Some (generation snap) else None)"

record bidi_evidence_snapshot =
  bs_connection_key :: u64
  bs_proxy :: string
  bs_upstream :: direction_evidence_snapshot
  bs_downstream :: direction_evidence_snapshot

definition bidi_snapshot :: "rng_version \<Rightarrow> bidi \<Rightarrow> bidi_evidence_snapshot" where
  "bidi_snapshot v b =
     \<lparr>bs_connection_key = bi_connection_key b, bs_proxy = bi_proxy b,
      bs_upstream = evidence_snapshot v (bi_up_evidence b), bs_downstream = evidence_snapshot v (bi_down_evidence b)\<rparr>"

definition mirror_up :: "bidi \<Rightarrow> bidi" where
  "mirror_up b = b\<lparr>bi_up_evidence := mirror_engine (bi_up b) (bi_up_evidence b)\<rparr>"

definition mirror_down :: "bidi \<Rightarrow> bidi" where
  "mirror_down b = b\<lparr>bi_down_evidence := mirror_engine (bi_down b) (bi_down_evidence b)\<rparr>"

section \<open>Policy transitions\<close>

text \<open>Evidence and engine after a transition: \<open>old\<close> is the drained engine, \<open>fresh\<close> its replacement.\<close>

definition transition_evidence :: "fault_plan published_policy \<Rightarrow> direction_engine \<Rightarrow> stream_evidence \<Rightarrow> stream_evidence" where
  "transition_evidence snap e se =
     (let se1 = refresh_policy snap se
      in mirror_engine e (se1\<lparr>se_pending_generation := 0, se_transitions := (se_transitions se1 + 1) mod 2 ^ 64\<rparr>))"

definition update_up :: "'w io \<Rightarrow> fault_plan published_policy \<Rightarrow> bidi \<Rightarrow> 'w \<Rightarrow> (io_error + unit) poll \<times> bidi \<times> 'w" where
  "update_up io snap b0 w0 =
     (if generation snap = bi_observed_up b0 then (Ready (Inr ()), b0, w0)
      else
        let b = b0\<lparr>bi_up_evidence := (bi_up_evidence b0)\<lparr>se_pending_generation := generation snap\<rparr>\<rparr>;
            (blocked, e1, w1) = transition_drain io (bi_up b) w0
        in if blocked then (Pending, b\<lparr>bi_up := e1\<rparr>, w1)
           else
             let (now, w2) = io_now io w1
             in case new_with_arc_plan (pub_plan snap) (seed_namespace snap) (bi_proxy b) (bi_connection_key b)
                       Upstream (en_handle e1) now of
                  Inl err \<Rightarrow> (Ready (Inl (InvalidInput err)), b\<lparr>bi_up := e1\<rparr>, w2)
                | Inr fresh \<Rightarrow>
                    let e2 = absorb_evidence (evidence e1) fresh
                    in (Ready (Inr ()), b\<lparr>bi_up := e2, bi_observed_up := generation snap,
                          bi_up_evidence := transition_evidence snap e2 (bi_up_evidence b)\<rparr>, w2))"

text \<open>\<^verbatim>\<open>poll_flush\<close> of the downstream engine into the output buffer.\<close>

definition flush_down :: "'w io \<Rightarrow> bidi \<Rightarrow> 'w \<Rightarrow> (io_error + unit) poll \<times> bidi \<times> 'w" where
  "flush_down io b w =
     (let (r, e, w1, out) = engine_poll_flush (capture_io io) (bi_down b) (w, bi_output b)
      in (r, b\<lparr>bi_down := e, bi_output := out\<rparr>, w1))"

definition update_down :: "'w io \<Rightarrow> fault_plan published_policy \<Rightarrow> bidi \<Rightarrow> 'w \<Rightarrow> (io_error + unit) poll \<times> bidi \<times> 'w" where
  "update_down io snap b0 w0 =
     (if generation snap = bi_observed_down b0 then (Ready (Inr ()), b0, w0)
      else
        let b = b0\<lparr>bi_down_evidence := (bi_down_evidence b0)\<lparr>se_pending_generation := generation snap\<rparr>\<rparr>
        in if bi_output b \<noteq> [] then (Ready (Inr ()), b, w0)
           else
             let (blocked, b1, w1) =
                   (if queue_is_empty (bi_down b) then (False, b, w0)
                    else let (r, b1, w1) = flush_down io b w0 in (is_pending r, b1, w1))
             in if blocked then (Pending, b1, w1)
                else
                  let (now, w2) = io_now io w1
                  in case new_with_arc_plan (pub_plan snap) (seed_namespace snap) (bi_proxy b1) (bi_connection_key b1)
                            Downstream (en_handle (bi_down b1)) now of
                       Inl err \<Rightarrow> (Ready (Inl (InvalidInput err)), b1, w2)
                     | Inr fresh \<Rightarrow>
                         let e2 = absorb_evidence (evidence (bi_down b1)) fresh
                         in (Ready (Inr ()), b1\<lparr>bi_down := e2, bi_observed_down := generation snap,
                               bi_down_evidence := transition_evidence snap e2 (bi_down_evidence b1)\<rparr>, w2))"

definition update_policies ::
    "'w io \<Rightarrow> fault_plan published_policy \<Rightarrow> fault_plan published_policy \<Rightarrow> bidi \<Rightarrow> 'w \<Rightarrow> (io_error + unit) poll \<times> bidi \<times> 'w" where
  "update_policies io snap_u snap_d b w =
     (let (r, b1, w1) = update_up io snap_u b w
      in case r of
           Ready (Inr _) \<Rightarrow> update_down io snap_d b1 w1
         | _ \<Rightarrow> (r, b1, w1))"

section \<open>Reading\<close>

text \<open>One round of the loop of \<^verbatim>\<open>poll_read\<close> either returns or goes round again.\<close>

datatype 'w round = Return "(io_error + byte list) poll" bidi 'w | Again bidi 'w

definition READ_BUFFER :: nat where "READ_BUFFER = 8192"

definition accept_down :: "'w io \<Rightarrow> byte list \<Rightarrow> bidi \<Rightarrow> 'w \<Rightarrow> nat \<times> bidi \<times> 'w" where
  "accept_down io bytes b w =
     (let (n, e, w1) = accept_now io bytes (bi_down b) w
      in (n, mirror_down (b\<lparr>bi_down := e, bi_pending := bi_pending b @ drop n bytes\<rparr>), w1))"

definition serve_output :: "nat \<Rightarrow> bidi \<Rightarrow> 'w \<Rightarrow> 'w round" where
  "serve_output room b w =
     (let n = min room (length (bi_output b))
      in Return (Ready (Inr (take n (bi_output b)))) (b\<lparr>bi_output := drop n (bi_output b)\<rparr>) w)"

definition admit_pending :: "'w io \<Rightarrow> bidi \<Rightarrow> 'w \<Rightarrow> 'w round" where
  "admit_pending io b w =
     (let (accepted, b1, w1) = accept_down io (bi_pending b) (b\<lparr>bi_pending := []\<rparr>) w
      in if accepted = 0 then
           if queue_is_empty (bi_down b1) then Return (Ready (Inr [])) (b1\<lparr>bi_pending := []\<rparr>) w1
           else
             let (r, b2, w2) = flush_down io b1 w1
             in if is_pending r \<and> bi_output b2 = [] then Return Pending b2 w2
                else case r of Ready (Inl err) \<Rightarrow> Return (Ready (Inl err)) b2 w2 | _ \<Rightarrow> Again b2 w2
         else Again b1 w1)"

text \<open>The read of a drained stream that has a graceful termination: an idle transport is end of file.\<close>

definition read_graceful :: "'w io \<Rightarrow> bidi \<Rightarrow> 'w \<Rightarrow> 'w round" where
  "read_graceful io b w =
     (let (r, w1) = io_read io READ_BUFFER w
      in case r of
           Pending \<Rightarrow> Return (Ready (Inr [])) b w1
         | Ready (Inl err) \<Rightarrow> Return (Ready (Inl err)) b w1
         | Ready (Inr bytes) \<Rightarrow>
             if bytes = [] then Return (Ready (Inr [])) b w1
             else
               let (accepted, b1, w2) = accept_down io bytes b w1
               in if accepted = 0 then Again b1 w2
                  else
                    let (f, b2, w3) = flush_down io b1 w2;
                        b3 = mirror_down b2
                    in case f of
                         Ready (Inr _) \<Rightarrow> Again b3 w3
                       | Ready (Inl err) \<Rightarrow> Return (Ready (Inl err)) b3 w3
                       | Pending \<Rightarrow> if bi_output b3 = [] then Return Pending b3 w3 else Again b3 w3)"

definition reset_error :: "termination_info option \<Rightarrow> io_error" where
  "reset_error info =
     ConnectionReset (case Option.bind info ti_fault_id of
        None \<Rightarrow> ''connection reset'' | Some i \<Rightarrow> ''connection reset by fault '' @ i)"

definition read_transport :: "'w io \<Rightarrow> bidi \<Rightarrow> 'w \<Rightarrow> 'w round" where
  "read_transport io b w =
     (let (r, w1) = io_read io READ_BUFFER w
      in case r of
           Ready (Inr bytes) \<Rightarrow>
             if bytes = [] then Return (Ready (Inr [])) b w1
             else let (accepted, b1, w2) = accept_down io bytes b w1
                  in if accepted = 0 then Return Pending b1 w2 else Again b1 w2
         | Ready (Inl err) \<Rightarrow> Return (Ready (Inl err)) b w1
         | Pending \<Rightarrow> Return Pending b w1)"

definition read_drained :: "'w io \<Rightarrow> bidi \<Rightarrow> 'w \<Rightarrow> 'w round" where
  "read_drained io b w =
     (case engine_termination_request (bi_down b) of
        Some Graceful \<Rightarrow> read_graceful io b w
      | Some HardReset \<Rightarrow> Return (Ready (Inl (reset_error (en_termination (bi_down b))))) b w
      | None \<Rightarrow> read_transport io b w)"

definition read_round :: "'w io \<Rightarrow> nat \<Rightarrow> bidi \<Rightarrow> 'w \<Rightarrow> 'w round" where
  "read_round io room b w =
     (if bi_output b \<noteq> [] then serve_output room b w
      else if bi_pending b \<noteq> [] then admit_pending io b w
      else if \<not> queue_is_empty (bi_down b) then
        let (r, b1, w1) = flush_down io b w;
            b2 = mirror_down b1
        in case r of
             Pending \<Rightarrow> Return Pending b2 w1
           | Ready (Inl err) \<Rightarrow> Return (Ready (Inl err)) b2 w1
           | Ready (Inr _) \<Rightarrow> if bi_output b2 \<noteq> [] then Again b2 w1 else read_drained io b2 w1
      else read_drained io b w)"

partial_function (option) read_loop ::
    "'w io \<Rightarrow> nat \<Rightarrow> bidi \<Rightarrow> 'w \<Rightarrow> ((io_error + byte list) poll \<times> bidi \<times> 'w) option" where
  "read_loop io room b w =
     (case read_round io room b w of
        Return r b1 w1 \<Rightarrow> Some (r, b1, w1)
      | Again b1 w1 \<Rightarrow> read_loop io room b1 w1)"

text \<open>The read side also drives the upstream queue.\<close>

definition pump_up :: "'w io \<Rightarrow> bidi \<Rightarrow> 'w \<Rightarrow> bidi \<times> 'w" where
  "pump_up io b w =
     (if engine_is_empty (bi_up b) then (b, w)
      else let (_, e, w1) = engine_poll_flush io (bi_up b) w in (mirror_up (b\<lparr>bi_up := e\<rparr>), w1))"

fun direct_read :: "bidi \<Rightarrow> (io_error + byte list) poll \<Rightarrow> bidi" where
  "direct_read b (Ready (Inr bytes)) = b\<lparr>bi_down_evidence := note_direct (length bytes) (bi_down_evidence b)\<rparr>"
| "direct_read b _ = b"

definition bidi_read_current :: "'w io \<Rightarrow> nat \<Rightarrow> bidi \<Rightarrow> 'w \<Rightarrow> ((io_error + byte list) poll \<times> bidi \<times> 'w) option" where
  "bidi_read_current io room b w =
     (let (b1, w1) = pump_up io b w
      in if engine_is_empty (bi_down b1) then
           let (r, w2) = io_read io room w1 in Some (r, direct_read b1 r, w2)
         else read_loop io room b1 w1)"

definition bidi_poll_read ::
    "'w io \<Rightarrow> fault_plan published_policy \<Rightarrow> fault_plan published_policy \<Rightarrow> nat \<Rightarrow> bidi \<Rightarrow> 'w \<Rightarrow>
     ((io_error + byte list) poll \<times> bidi \<times> 'w) option" where
  "bidi_poll_read io snap_u snap_d room b w =
     (case update_policies io snap_u snap_d b w of
        (Ready (Inr _), b1, w1) \<Rightarrow> bidi_read_current io room b1 w1
      | (Ready (Inl err), b1, w1) \<Rightarrow> Some (Ready (Inl err), b1, w1)
      | (Pending, b1, w1) \<Rightarrow> Some (Pending, b1, w1))"

section \<open>Writing\<close>

text \<open>\<^verbatim>\<open>poll_write\<close> after the transition; unlike \<open>ChaosStream\<close>, a closed engine mirrors its evidence first.\<close>

definition bidi_write_current :: "'w io \<Rightarrow> byte list \<Rightarrow> bidi \<Rightarrow> 'w \<Rightarrow> (io_error + nat) poll \<times> bidi \<times> 'w" where
  "bidi_write_current io bytes b w =
     (if engine_is_empty (bi_up b) then
        let (r, w1) = io_write io bytes w
        in (r, case r of Ready (Inr n) \<Rightarrow> b\<lparr>bi_up_evidence := note_direct n (bi_up_evidence b)\<rparr> | _ \<Rightarrow> b, w1)
      else
        let (r, e1, w1) = engine_poll_flush io (bi_up b) w;
            b1 = b\<lparr>bi_up := e1\<rparr>
        in case r of
             Ready (Inl err) \<Rightarrow> (Ready (Inl err), mirror_up b1, w1)
           | _ \<Rightarrow>
               if bytes = [] then (Ready (Inr 0), b1, w1)
               else if closed_by_termination e1 then
                 (Ready (Inl (terminated_error (en_termination e1))), mirror_up b1, w1)
               else
                 let (accepted, e2, w2) = accept_now io bytes e1 w1
                 in if 0 < accepted then
                      let (_, e3, w3) = engine_poll_flush io e2 w2
                      in (Ready (Inr accepted), mirror_up (b1\<lparr>bi_up := e3\<rparr>), w3)
                    else if closed_by_termination e2 then
                      (Ready (Inl (terminated_error (en_termination e2))), b1\<lparr>bi_up := e2\<rparr>, w2)
                    else (Pending, b1\<lparr>bi_up := e2\<rparr>, w2))"

definition after_update ::
    "'w io \<Rightarrow> fault_plan published_policy \<Rightarrow> fault_plan published_policy \<Rightarrow>
     (bidi \<Rightarrow> 'w \<Rightarrow> (io_error + 'a) poll \<times> bidi \<times> 'w) \<Rightarrow> bidi \<Rightarrow> 'w \<Rightarrow> (io_error + 'a) poll \<times> bidi \<times> 'w" where
  "after_update io snap_u snap_d op b w =
     (case update_policies io snap_u snap_d b w of
        (Ready (Inr _), b1, w1) \<Rightarrow> op b1 w1
      | (Ready (Inl err), b1, w1) \<Rightarrow> (Ready (Inl err), b1, w1)
      | (Pending, b1, w1) \<Rightarrow> (Pending, b1, w1))"

definition bidi_poll_write ::
    "'w io \<Rightarrow> fault_plan published_policy \<Rightarrow> fault_plan published_policy \<Rightarrow> byte list \<Rightarrow> bidi \<Rightarrow> 'w \<Rightarrow>
     (io_error + nat) poll \<times> bidi \<times> 'w" where
  "bidi_poll_write io snap_u snap_d bytes = after_update io snap_u snap_d (bidi_write_current io bytes)"

definition bidi_poll_write_vectored ::
    "'w io \<Rightarrow> fault_plan published_policy \<Rightarrow> fault_plan published_policy \<Rightarrow> byte list list \<Rightarrow> bidi \<Rightarrow> 'w \<Rightarrow>
     (io_error + nat) poll \<times> bidi \<times> 'w" where
  "bidi_poll_write_vectored io snap_u snap_d bufs = bidi_poll_write io snap_u snap_d (concat bufs)"

definition bidi_poll_flush ::
    "'w io \<Rightarrow> fault_plan published_policy \<Rightarrow> fault_plan published_policy \<Rightarrow> bidi \<Rightarrow> 'w \<Rightarrow> (io_error + unit) poll \<times> bidi \<times> 'w" where
  "bidi_poll_flush io snap_u snap_d =
     after_update io snap_u snap_d (\<lambda>b w.
       let (r, e, w1) = engine_poll_flush io (bi_up b) w in (r, mirror_up (b\<lparr>bi_up := e\<rparr>), w1))"

definition bidi_poll_shutdown ::
    "'w io \<Rightarrow> fault_plan published_policy \<Rightarrow> fault_plan published_policy \<Rightarrow> bidi \<Rightarrow> 'w \<Rightarrow> (io_error + unit) poll \<times> bidi \<times> 'w" where
  "bidi_poll_shutdown io snap_u snap_d =
     after_update io snap_u snap_d (\<lambda>b w.
       let (r, e, w1) = engine_poll_shutdown io (bi_up b) w in (r, b\<lparr>bi_up := e\<rparr>, w1))"

end
