(* ===== verification/BidirectionalReads.thy ===== *)
theory BidirectionalReads
  imports Bidirectional
begin

text \<open>
  What the read side of the full-duplex stream does with the bytes of its transport. Locale \<open>duplex\<close> adds
  the contract of \<^verbatim>\<open>AsyncRead\<close> to that of \<^verbatim>\<open>AsyncWrite\<close>. On a plan that preserves bytes, every byte taken from
  the transport is delivered or still held, in order, and \<^verbatim>\<open>poll_read\<close> always returns; a transition to an
  empty plan, however, leaves released bytes behind.
\<close>

section \<open>The transport as a source of bytes\<close>

fun read_bytes :: "(io_error + byte list) poll \<Rightarrow> byte list" where
  "read_bytes (Ready (Inr bytes)) = bytes"
| "read_bytes _ = []"

text \<open>An observation that the timers and the writer leave alone survives a drain.\<close>

definition unobserved :: "('w \<Rightarrow> 'a) \<Rightarrow> 'w io \<Rightarrow> bool" where
  "unobserved f io = ((\<forall>w. f (snd (io_now io w)) = f w) \<and> (\<forall>d w. f (snd (io_sleep io d w)) = f w) \<and>
     (\<forall>d w. f (snd (io_poll_sleep io d w)) = f w) \<and> (\<forall>bs w. f (snd (io_write io bs w)) = f w) \<and>
     (\<forall>w. f (snd (io_flush io w)) = f w))"

lemma timer_poll_unobserved: "unobserved f io \<Longrightarrow> f (snd (snd (timer_poll io now d timer w))) = f w"
  by (simp add: unobserved_def timer_poll_def Let_def split_def split: option.split)

lemma front_due_unobserved: "unobserved f io \<Longrightarrow> f (snd (snd (front_due io front e w))) = f w"
  using timer_poll_unobserved [of f io] by (simp add: front_due_def Let_def split_def) (simp add: unobserved_def)

lemma poll_queue_unobserved: "unobserved f io \<Longrightarrow> f (snd (snd (poll_queue io e w))) = f w"
proof (induction io e w rule: poll_queue.induct)
  case (1 io e w)
  let ?front = "hd (en_queue e)"
  let ?due = "front_due io ?front e w"
  let ?out = "io_write io (q_bytes ?front) (snd (snd ?due))"
  have due: "f (snd (snd ?due)) = f w" by (rule front_due_unobserved [OF 1(2)])
  have out: "f (snd ?out) = f w" using 1(2) due unfolding unobserved_def by metis
  show ?case
  proof (cases "en_queue e = [] \<or> \<not> fst ?due")
    case True
    then show ?thesis using due by (subst poll_queue.simps) (auto simp: Let_def)
  next
    case False
    show ?thesis
    proof (cases "\<exists>n. fst ?out = Ready (Inr n) \<and> n \<noteq> 0 \<and> n \<le> length (q_bytes ?front)")
      case True
      then obtain n where n: "fst ?out = Ready (Inr n)" "n \<noteq> 0" "n \<le> length (q_bytes ?front)" by blast
      have "poll_queue io e w = poll_queue io (advance_front n (fst (snd ?due))) (snd ?out)"
        using False n by (subst poll_queue.simps) (simp add: Let_def)
      moreover have "f (snd (snd (poll_queue io (advance_front n (fst (snd ?due))) (snd ?out)))) = f (snd ?out)"
        using False n by (intro 1(1) [OF _ refl refl refl refl _ refl refl n(1) refl]) (use 1(2) in auto)
      ultimately show ?thesis using out by simp
    next
      case no: False
      then have "snd (snd (poll_queue io e w)) = snd ?out"
        using False by (subst poll_queue.simps) (auto simp: Let_def not_le split: poll.split sum.split)
      then show ?thesis using out by simp
    qed
  qed
qed

lemma flush_unobserved:
  assumes "unobserved f io" "engine_poll_flush io e w = (r, e', w')"
  shows "f w' = f w"
proof -
  obtain r1 e1 w1 where q: "poll_queue io e w = (r1, e1, w1)" by (metis prod_cases3)
  then have "f w1 = f w" using poll_queue_unobserved [OF assms(1), of e w] by simp
  moreover have "f (snd (io_flush io w1)) = f w1" using assms(1) by (simp add: unobserved_def)
  ultimately show ?thesis using assms(2) q by (auto simp: engine_poll_flush_def split: poll.splits sum.splits prod.splits)
qed

lemma capture_unobserved:
  assumes "\<And>w. f (snd (io_now io w)) = f w" "\<And>d w. f (snd (io_sleep io d w)) = f w" "\<And>d w. f (snd (io_poll_sleep io d w)) = f w"
  shows "unobserved (\<lambda>x. f (fst x)) (capture_io io)"
  using assms by (simp add: unobserved_def capture_io_def split_def Let_def)

locale duplex = transport io clock sent for io :: "'w io" and clock :: "'w \<Rightarrow> instant" and sent :: "'w \<Rightarrow> byte list" +
  fixes received :: "'w \<Rightarrow> byte list"
  assumes received_unobserved: "unobserved received io"
    and read_law: "io_read io n w = (res, w') \<Longrightarrow>
      clock w \<le> clock w' \<and> sent w' = sent w \<and> received w' = received w @ read_bytes res \<and> length (read_bytes res) \<le> n"

section \<open>Holding bytes\<close>

text \<open>The bytes between the transport and the reader, in the order the reader will see them.\<close>

definition held :: "bidi \<Rightarrow> byte list" where
  "held b = bi_output b @ queue_bytes (bi_down b) @ bi_pending b"

lemma poll_unit_cases [case_names pending failed ok]:
  obtains "r = Pending" | err where "r = Ready (Inl err)" | "r = Ready (Inr ())"
proof (cases r)
  case (Ready x)
  then show ?thesis using that by (cases x) auto
qed (use that in simp)

lemma held_alt: "held b = (bi_output b @ queue_bytes (bi_down b)) @ bi_pending b"
  by (simp add: held_def)

text \<open>A downstream engine that preserves bytes and has room for some.\<close>

definition down_ok :: "stream_loss_state option list \<Rightarrow> bidi \<Rightarrow> bool" where
  "down_ok sts0 b = (engine_ok sts0 (bi_down b) \<and> is_preserving_only (bi_down b) \<and> 0 < en_max_buffer (bi_down b))"

definition unlimited :: "bidi \<Rightarrow> bool" where
  "unlimited b = (en_remaining_limit (bi_down b) = None)"

text \<open>What the read side leaves alone.\<close>

definition write_side :: "bidi \<Rightarrow> direction_engine \<times> nat \<times> nat \<times> stream_evidence" where
  "write_side b = (bi_up b, bi_observed_up b, bi_observed_down b, bi_up_evidence b)"

definition kept_down :: "stream_loss_state option list \<Rightarrow> bidi \<Rightarrow> bidi \<Rightarrow> bool" where
  "kept_down sts0 b b' = (down_ok sts0 b' \<and> unlimited b' = unlimited b \<and> write_side b' = write_side b)"

lemma kept_down_trans: "kept_down sts0 b b1 \<Longrightarrow> kept_down sts0 b1 b2 \<Longrightarrow> kept_down sts0 b b2"
  by (simp add: kept_down_def)

lemma mirror_down_simps [simp]:
  "bi_down (mirror_down b) = bi_down b" "bi_output (mirror_down b) = bi_output b" "bi_pending (mirror_down b) = bi_pending b"
  "write_side (mirror_down b) = write_side b" "held (mirror_down b) = held b" "down_ok sts0 (mirror_down b) = down_ok sts0 b"
  "unlimited (mirror_down b) = unlimited b" "kept_down sts0 b0 (mirror_down b) = kept_down sts0 b0 b"
  by (simp_all add: mirror_down_def write_side_def held_def down_ok_def unlimited_def kept_down_def)

lemma queue_empty_iff: "engine_ok sts0 e \<Longrightarrow> queue_is_empty e \<longleftrightarrow> queue_bytes e = []"
  by (auto simp: engine_ok_def engine_wf_def queue_ok_def queue_is_empty_def queue_bytes_def)

lemma down_queue_empty_iff: "down_ok sts0 b \<Longrightarrow> queue_is_empty (bi_down b) \<longleftrightarrow> queue_bytes (bi_down b) = []"
  by (simp add: down_ok_def queue_empty_iff [of sts0])

context duplex
begin

lemma flush_down_law:
  assumes ok: "down_ok sts0 b" and run: "flush_down io b w = (r, b', w')"
  shows "kept_down sts0 b b' \<and> bi_output b' @ queue_bytes (bi_down b') = bi_output b @ queue_bytes (bi_down b) \<and>
    bi_pending b' = bi_pending b \<and> (r = Ready (Inr ()) \<longrightarrow> queue_bytes (bi_down b') = []) \<and>
    sent w' = sent w \<and> received w' = received w"
proof -
  obtain e out where f: "engine_poll_flush (capture_io io) (bi_down b) (w, bi_output b) = (r, e, w', out)"
    and b': "b' = b\<lparr>bi_down := e, bi_output := out\<rparr>"
    using run by (auto simp: flush_down_def split: prod.splits)
  have tr: "transport (capture_io io) (\<lambda>x. clock (fst x)) snd" by (rule capture_transport)
  have eok: "engine_ok sts0 (bi_down b)" using ok by (simp add: down_ok_def)
  note fl = transport.flush_owed [OF tr eok f]
  have "timer_ok (en_queue_timer (bi_down b))" using eok by (simp add: engine_ok_def timers_ok_def)
  from transport.flush_drains [OF tr this f] have frame: "drain_frame (bi_down b) e" by (simp add: drained_def) blast
  have un: "unobserved (\<lambda>x. sent (fst x)) (capture_io io)" by (rule capture_unobserved [OF now_sent sleep_sent poll_sleep_sent])
  have un2: "unobserved (\<lambda>x. received (fst x)) (capture_io io)"
    by (rule capture_unobserved) (use received_unobserved in \<open>simp_all add: unobserved_def\<close>)
  have "kept_down sts0 b b'"
    using ok fl drain_frame_fields [OF frame]
    by (simp add: kept_down_def b' down_ok_def unlimited_def write_side_def is_preserving_only_def)
  then show ?thesis using fl flush_unobserved [OF un f] flush_unobserved [OF un2 f]
    by (auto simp: b' owed_def queue_bytes_def)
qed

lemma accept_down_law:
  assumes ok: "down_ok sts0 b" and run: "accept_down io bytes b w = (n, b', w')"
  shows "kept_down sts0 b b' \<and> bi_output b' = bi_output b \<and>
    queue_bytes (bi_down b') = queue_bytes (bi_down b) @ take n bytes \<and> bi_pending b' = bi_pending b @ drop n bytes \<and>
    n = min (min (length bytes) (limit_available (bi_down b))) (en_max_buffer (bi_down b) - en_buffered (bi_down b)) \<and>
    sent w' = sent w \<and> received w' = received w"
proof -
  obtain t1 w1 where n1: "io_now io w = (t1, w1)" by fastforce
  obtain t2 w2 where n2: "io_now io w1 = (t2, w2)" by fastforce
  obtain t3 w3 where n3: "io_now io w2 = (t3, w3)" by fastforce
  obtain e where acc: "accept bytes t1 t2 t3 (bi_down b) = (n, e)" and w': "w' = w3"
    and b': "b' = mirror_down (b\<lparr>bi_down := e, bi_pending := bi_pending b @ drop n bytes\<rparr>)"
    using run n1 n2 n3 by (auto simp: accept_down_def accept_now_def split: prod.splits)
  have now: "accept_now io bytes (bi_down b) w = (n, e, w')" using n1 n2 n3 acc w' by (simp add: accept_now_def)
  have eok: "engine_ok sts0 (bi_down b)" "is_preserving_only (bi_down b)" using ok by (simp_all add: down_ok_def)
  then have wf: "engine_wf (bi_down b)" "loss_inv sts0 (bi_down b)" and quiet: "\<not> blackhole_discarding t3 (bi_down b)" "\<not> loss_active (bi_down b)"
    by (simp_all add: engine_ok_def stages_match_plan_def blackhole_discarding_def)
  have keep: "engine_ok sts0 e" "en_plan e = en_plan (bi_down b)" using accept_now_owed [OF eok(1) now] by simp_all
  have "en_max_buffer e = en_max_buffer (bi_down b)" "en_remaining_limit e = limit_after n (en_remaining_limit (bi_down b))"
    using accept_contract [OF wf acc] by (simp_all add: admitted_def)
  then have "kept_down sts0 b b'"
    using ok keep by (auto simp: kept_down_def b' down_ok_def is_preserving_only_def unlimited_def limit_after_def
        mirror_down_def write_side_def split: option.splits)
  moreover have "received w' = received w" using received_unobserved n1 n2 n3 w' unfolding unobserved_def by (metis snd_conv)
  moreover have "sent w' = sent w" using now_sent [of w] now_sent [of w1] now_sent [of w2] n1 n2 n3 w' by simp
  ultimately show ?thesis using accept_exact [OF wf(1) quiet acc] by (simp add: b')
qed

end

section \<open>One round\<close>

text \<open>
  A drain into the buffer is pending only for a segment that is not due, and then the timer for the release of that
  segment is armed and was polled, so the runtime wakes the task when it fires.
\<close>

definition timer_armed :: "'w io \<Rightarrow> direction_engine \<Rightarrow> 'w \<Rightarrow> bool" where
  "timer_armed io e w = (\<exists>front rest a w0. en_queue e = front # rest \<and> en_queue_timer e = Some a \<and>
     at_deadline a = q_release front \<and> io_poll_sleep io (at_fires a) w0 = (False, w))"

lemma timer_poll_arms:
  assumes "timer_poll io now d timer w = (False, t, w')"
  shows "\<exists>a w0. t = Some a \<and> at_deadline a = d \<and> io_poll_sleep io (at_fires a) w0 = (False, w')"
  using assms by (auto simp: timer_poll_def Let_def split_def split: option.splits if_splits) (metis prod.collapse)+

lemma front_due_arms:
  assumes "front_due io front e w = (False, e', w')" "en_queue e = front # rest"
  shows "timer_armed io e' w'"
proof -
  obtain now w1 where n: "io_now io w = (now, w1)" by fastforce
  obtain ready t w2 where p: "timer_poll io now (q_release front) (en_queue_timer e) w1 = (ready, t, w2)" by (metis prod_cases3)
  have "now < q_release front" "\<not> ready" "e' = e\<lparr>en_queue_timer := t\<rparr>" "w' = w2"
    using assms(1) n p by (simp_all add: front_due_def split: if_splits)
  then show ?thesis using timer_poll_arms [of io now _ _ w1 t w2] p assms(2) by (auto simp: timer_armed_def)
qed

lemma poll_queue_pending:
  assumes "poll_queue io e w = (Pending, e', w')" "\<And>bs w. fst (io_write io bs w) \<noteq> Pending"
  shows "timer_armed io e' w'"
  using assms
proof (induction io e w rule: poll_queue.induct)
  case (1 io e w)
  let ?front = "hd (en_queue e)"
  let ?due = "front_due io ?front e w"
  let ?out = "io_write io (q_bytes ?front) (snd (snd ?due))"
  have ne: "en_queue e \<noteq> []" using 1(2) by (subst (asm) poll_queue.simps) (auto simp: Let_def)
  show ?case
  proof (cases "fst ?due")
    case True
    then obtain n where n: "fst ?out = Ready (Inr n)" "n \<noteq> 0" "n \<le> length (q_bytes ?front)"
      using 1(2) 1(3) [of "q_bytes ?front" "snd (snd ?due)"] ne
      by (subst (asm) poll_queue.simps) (auto simp: Let_def split: poll.splits sum.splits if_splits)
    have "poll_queue io (advance_front n (fst (snd ?due))) (snd ?out) = (Pending, e', w')"
      using 1(2) ne n True by (subst (asm) poll_queue.simps) (simp add: Let_def)
    then show ?thesis using ne n True by (intro 1(1) [OF _ refl refl refl refl _ refl refl n(1) refl]) (use 1(3) in auto)
  next
    case False
    then have "?due = (False, e', w')" using 1(2) ne by (subst (asm) poll_queue.simps) (auto simp: Let_def prod_eq_iff)
    then show ?thesis using ne front_due_arms by (metis list.collapse)
  qed
qed

lemma capture_timer_armed: "timer_armed (capture_io io) e (w, out) \<Longrightarrow> timer_armed io e w"
  by (fastforce simp: timer_armed_def capture_io_def Let_def split_def prod_eq_iff)

lemma flush_down_pending:
  assumes "flush_down io b w = (Pending, b', w')"
  shows "timer_armed io (bi_down b') w'"
proof -
  obtain e out where f: "engine_poll_flush (capture_io io) (bi_down b) (w, bi_output b) = (Pending, e, w', out)"
    and b': "bi_down b' = e" using assms by (auto simp: flush_down_def split: prod.splits)
  have "poll_queue (capture_io io) (bi_down b) (w, bi_output b) = (Pending, e, w', out)"
    using f by (auto simp: engine_poll_flush_def split: prod.splits poll.splits sum.splits) (simp add: capture_io_def)
  from poll_queue_pending [OF this] have "timer_armed (capture_io io) e (w', out)" by (auto simp: capture_io_def)
  then show ?thesis using b' capture_timer_armed by auto
qed

text \<open>The loop goes round at most once more than there are stages left: the transport, the pending bytes, the output.\<close>

definition rank :: "bidi \<Rightarrow> nat \<times> nat" where
  "rank b = (if bi_output b \<noteq> [] then 0 else if queue_bytes (bi_down b) = [] \<and> bi_pending b = [] then 2 else 1,
     length (bi_pending b))"

text \<open>A pending read has something that will wake it: the armed timer of the front segment, or the transport.\<close>

definition waits :: "'w io \<Rightarrow> bidi \<Rightarrow> 'w \<Rightarrow> bool" where
  "waits io b w = (timer_armed io (bi_down b) w \<or> (\<exists>w0. io_read io READ_BUFFER w0 = (Pending, w)))"

definition accounts_for :: "byte list \<Rightarrow> bidi \<Rightarrow> byte list \<Rightarrow> byte list \<Rightarrow> bidi \<Rightarrow> bool" where
  "accounts_for fresh b out lost b' = (held b @ fresh = out @ held b' @ lost \<and> (unlimited b \<longrightarrow> lost = []))"

fun round_ok :: "'w io \<Rightarrow> ('w \<Rightarrow> byte list) \<Rightarrow> ('w \<Rightarrow> byte list) \<Rightarrow> stream_loss_state option list \<Rightarrow> nat \<Rightarrow>
    bidi \<Rightarrow> 'w \<Rightarrow> 'w round \<Rightarrow> bool" where
  "round_ok io sent received sts0 room b w (Return r b' w') =
     (kept_down sts0 b b' \<and> sent w' = sent w \<and> length (read_bytes r) \<le> room \<and> (r = Pending \<longrightarrow> waits io b' w') \<and>
      (\<exists>fresh lost. received w' = received w @ fresh \<and> accounts_for fresh b (read_bytes r) lost b'))"
| "round_ok io sent received sts0 room b w (Again b' w') =
     (kept_down sts0 b b' \<and> sent w' = sent w \<and> (rank b', rank b) \<in> less_than <*lex*> less_than \<and>
      (\<exists>fresh. received w' = received w @ fresh \<and> held b' = held b @ fresh))"

lemma serve_output_ok:
  "down_ok sts0 b \<Longrightarrow> round_ok io sent received sts0 room b w (serve_output room b w)"
  by (auto simp: serve_output_def Let_def kept_down_def down_ok_def unlimited_def write_side_def accounts_for_def held_def
      intro!: exI [of _ "[]"])

context duplex
begin

lemma admit_pending_ok:
  assumes ok: "down_ok sts0 b" and out: "bi_output b = []" and pend: "bi_pending b \<noteq> []"
  shows "round_ok io sent received sts0 room b w (admit_pending io b w)"
proof -
  let ?b = "b\<lparr>bi_pending := []\<rparr>"
  have ok0: "down_ok sts0 ?b" using ok by (simp add: down_ok_def)
  obtain n b1 w1 where acc: "accept_down io (bi_pending b) ?b w = (n, b1, w1)" by (metis prod_cases3)
  note a = accept_down_law [OF ok0 acc]
  have k1: "kept_down sts0 b b1" using a by (simp add: kept_down_def unlimited_def write_side_def)
  then have ok1: "down_ok sts0 b1" by (simp add: kept_down_def)
  have h1: "held b1 = held b" using a out by (simp add: held_def)
  obtain r b2 w2 where fl: "flush_down io b1 w1 = (r, b2, w2)" by (metis prod_cases3)
  note f = flush_down_law [OF ok1 fl]
  have h2: "held b2 = held b" using f h1 by (simp add: held_alt)
  have k2: "kept_down sts0 b b2" using kept_down_trans k1 f by blast
  have q1: "queue_is_empty (bi_down b1) \<longleftrightarrow> queue_bytes (bi_down b1) = []"
    using ok1 by (rule down_queue_empty_iff)
  consider (took) "n \<noteq> 0" | (spent) "n = 0" "queue_is_empty (bi_down b1)"
    | (full) "n = 0" "\<not> queue_is_empty (bi_down b1)" by blast
  then show ?thesis
  proof cases
    case took
    then have "admit_pending io b w = Again b1 w1" using acc by (simp add: admit_pending_def)
    moreover have "(rank b1, rank b) \<in> less_than <*lex*> less_than"
      using a took out pend by (simp add: rank_def)
    ultimately show ?thesis using k1 a h1 by simp
  next
    case spent
    have "\<not> unlimited b"
    proof
      assume u: "unlimited b"
      have "queue_bytes (bi_down b) = []" using spent a q1 by simp
      then have "en_buffered (bi_down b) = 0" using ok by (simp add: down_ok_def engine_ok_def engine_wf_def queue_ok_def)
      then have "n \<noteq> 0" using a u pend ok by (simp add: unlimited_def limit_available_def down_ok_def U64_MAX_def)
      then show False using spent by simp
    qed
    moreover have "admit_pending io b w = Return (Ready (Inr [])) (b1\<lparr>bi_pending := []\<rparr>) w1"
      using acc spent by (simp add: admit_pending_def)
    moreover have "kept_down sts0 b (b1\<lparr>bi_pending := []\<rparr>)"
      using k1 by (simp add: kept_down_def down_ok_def unlimited_def write_side_def)
    moreover have "held b = held (b1\<lparr>bi_pending := []\<rparr>) @ bi_pending b1" using h1 by (simp add: held_def)
    ultimately show ?thesis using a by (auto simp: accounts_for_def)
  next
    case full
    have moved: "bi_output b2 \<noteq> []" if "r = Ready (Inr ())" using f a full q1 out that by auto
    show ?thesis
    proof (cases "is_pending r \<and> bi_output b2 = [] \<or> (\<exists>err. r = Ready (Inl err))")
      case True
      then have "admit_pending io b w = Return (case r of Ready (Inl err) \<Rightarrow> Ready (Inl err) | _ \<Rightarrow> Pending) b2 w2"
        using acc full fl by (cases r) (auto simp: admit_pending_def Let_def)
      moreover have "r = Pending \<Longrightarrow> waits io b2 w2" using flush_down_pending [of io b1 w1 b2 w2] fl by (simp add: waits_def)
      ultimately show ?thesis using k2 f a h2 True by (cases r rule: poll_unit_cases) (auto simp: accounts_for_def)
    next
      case False
      then have "admit_pending io b w = Again b2 w2"
        using acc full fl by (cases r) (auto simp: admit_pending_def Let_def split: sum.splits)
      moreover have "bi_output b2 \<noteq> []" using False moved by (cases r rule: poll_unit_cases) auto
      ultimately show ?thesis using k2 f a h2 out by (simp add: rank_def)
    qed
  qed
qed

text \<open>A read that brings no bytes.\<close>

lemma idle_read_ok:
  assumes "down_ok sts0 b" "io_read io READ_BUFFER w = (res, w1)" "read_bytes res = []" "read_bytes r = []"
    and "r = Pending \<Longrightarrow> res = Pending"
  shows "round_ok io sent received sts0 room b w (Return r b w1)"
  using assms read_law [OF assms(2)]
  by (auto simp: kept_down_def accounts_for_def waits_def intro!: exI [of _ "[]"])

text \<open>A read that brings bytes, and their admission.\<close>

lemma fresh_read:
  assumes ok: "down_ok sts0 b" and e: "held b = []" and rd: "io_read io READ_BUFFER w = (Ready (Inr bytes), w1)" "bytes \<noteq> []"
    and acc: "accept_down io bytes b w1 = (n, b1, w2)"
  shows "kept_down sts0 b b1" "sent w2 = sent w" "received w2 = received w @ bytes" "held b1 = bytes"
    "bi_output b1 = []" "queue_bytes (bi_down b1) = take n bytes" "rank b = (2, 0)" "rank b1 = (1, length bytes - n)"
    "n = 0 \<Longrightarrow> en_termination (bi_down b) \<noteq> None"
proof -
  have empty: "bi_output b = []" "queue_bytes (bi_down b) = []" "bi_pending b = []" using e by (simp_all add: held_def)
  note a = accept_down_law [OF ok acc]
  show "kept_down sts0 b b1" "bi_output b1 = []" "queue_bytes (bi_down b1) = take n bytes" using a empty by simp_all
  show "sent w2 = sent w" "received w2 = received w @ bytes" using a read_law [OF rd(1)] by simp_all
  show "held b1 = bytes" using a empty by (simp add: held_def)
  show "rank b = (2, 0)" using empty by (simp add: rank_def)
  have "bi_output b1 = []" "queue_bytes (bi_down b1) = take n bytes" "bi_pending b1 = drop n bytes" using a empty by simp_all
  moreover have "\<not> (take n bytes = [] \<and> drop n bytes = [])" using rd(2) by (metis append_Nil append_take_drop_id)
  ultimately show "rank b1 = (1, length bytes - n)" unfolding rank_def by (simp only: if_False length_drop simp_thms)
  assume "n = 0"
  have wf: "engine_wf (bi_down b)" "0 < en_max_buffer (bi_down b)" using ok by (simp_all add: down_ok_def engine_ok_def)
  then have "en_buffered (bi_down b) = 0" using empty by (simp add: engine_wf_def queue_ok_def)
  then have "limit_available (bi_down b) = 0" using a \<open>n = 0\<close> rd(2) wf(2) by (auto simp: min_def split: if_splits)
  then have "limit_spent (en_remaining_limit (bi_down b))" by (auto simp: limit_available_def U64_MAX_def split: option.splits)
  then show "en_termination (bi_down b) \<noteq> None" using wf(1) by (simp add: engine_wf_def termination_ok_def)
qed

lemma read_transport_ok:
  assumes ok: "down_ok sts0 b" and e: "held b = []" and live: "en_termination (bi_down b) = None"
  shows "round_ok io sent received sts0 room b w (read_transport io b w)"
proof -
  obtain res w1 where rd: "io_read io READ_BUFFER w = (res, w1)" by fastforce
  show ?thesis
  proof (cases "read_bytes res = []")
    case True
    then have "read_transport io b w = Return (case res of Ready (Inr _) \<Rightarrow> Ready (Inr []) | _ \<Rightarrow> res) b w1"
      using rd by (auto simp: read_transport_def split: poll.splits sum.splits)
    moreover have "round_ok io sent received sts0 room b w (Return (case res of Ready (Inr _) \<Rightarrow> Ready (Inr []) | _ \<Rightarrow> res) b w1)"
      by (rule idle_read_ok [OF ok rd True]) (auto split: poll.splits sum.splits)
    ultimately show ?thesis by simp
  next
    case False
    then obtain bytes where res: "res = Ready (Inr bytes)" "bytes \<noteq> []" by (cases res rule: read_bytes.cases) auto
    obtain n b1 w2 where acc: "accept_down io bytes b w1 = (n, b1, w2)" by (metis prod_cases3)
    note f = fresh_read [OF ok e rd [unfolded res(1)] res(2) acc]
    have "n \<noteq> 0" using f(9) live by auto
    then have "read_transport io b w = Again b1 w2" using rd res acc by (simp add: read_transport_def)
    then show ?thesis using f e by simp
  qed
qed

lemma read_graceful_ok:
  assumes ok: "down_ok sts0 b" and e: "held b = []"
  shows "round_ok io sent received sts0 room b w (read_graceful io b w)"
proof -
  obtain res w1 where rd: "io_read io READ_BUFFER w = (res, w1)" by fastforce
  show ?thesis
  proof (cases "read_bytes res = []")
    case True
    then have "read_graceful io b w = Return (case res of Ready (Inl err) \<Rightarrow> res | _ \<Rightarrow> Ready (Inr [])) b w1"
      using rd by (auto simp: read_graceful_def split: poll.splits sum.splits)
    moreover have "round_ok io sent received sts0 room b w (Return (case res of Ready (Inl err) \<Rightarrow> res | _ \<Rightarrow> Ready (Inr [])) b w1)"
      by (rule idle_read_ok [OF ok rd True]) (auto split: poll.splits sum.splits)
    ultimately show ?thesis by simp
  next
    case False
    then obtain bytes where res: "res = Ready (Inr bytes)" "bytes \<noteq> []" by (cases res rule: read_bytes.cases) auto
    obtain n b1 w2 where acc: "accept_down io bytes b w1 = (n, b1, w2)" by (metis prod_cases3)
    note f = fresh_read [OF ok e rd [unfolded res(1)] res(2) acc]
    have ok1: "down_ok sts0 b1" using f(1) by (simp add: kept_down_def)
    obtain r b2 w3 where fl: "flush_down io b1 w2 = (r, b2, w3)" by (metis prod_cases3)
    note g = flush_down_law [OF ok1 fl]
    have k2: "kept_down sts0 b b2" using kept_down_trans f(1) g by blast
    have h2: "held b2 = bytes" using g f(4) by (simp add: held_alt)
    show ?thesis
    proof (cases "n = 0")
      case True
      then have "read_graceful io b w = Again b1 w2" using rd res acc by (simp add: read_graceful_def)
      then show ?thesis using f e by simp
    next
      case took: False
      have moved: "bi_output b2 \<noteq> []" if "r = Ready (Inr ())" using g f(5,6) took res(2) that by auto
      have round: "read_graceful io b w = (case r of
          Ready (Inr _) \<Rightarrow> Again (mirror_down b2) w3 | Ready (Inl err) \<Rightarrow> Return (Ready (Inl err)) (mirror_down b2) w3
        | Pending \<Rightarrow> if bi_output b2 = [] then Return Pending (mirror_down b2) w3 else Again (mirror_down b2) w3)"
        using rd res acc took fl by (simp add: read_graceful_def Let_def)
      show ?thesis
      proof (cases "bi_output b2 = [] \<or> (\<exists>err. r = Ready (Inl err))")
        case True
        then have "read_graceful io b w = Return (case r of Ready (Inl err) \<Rightarrow> Ready (Inl err) | _ \<Rightarrow> Pending) (mirror_down b2) w3"
          unfolding round using moved by (cases r rule: poll_unit_cases) auto
        moreover have "waits io (mirror_down b2) w3" if "r = Pending"
          using flush_down_pending [of io b1 w2 b2 w3] fl that by (simp add: waits_def)
        ultimately show ?thesis using k2 g f(2,3) h2 e True moved by (cases r rule: poll_unit_cases) (auto simp: accounts_for_def)
      next
        case False
        then have "read_graceful io b w = Again (mirror_down b2) w3" unfolding round by (cases r) (auto split: sum.splits)
        moreover have "rank (mirror_down b2) = (0, length (bi_pending b2))" using False by (simp add: rank_def)
        ultimately show ?thesis using k2 g f(2,3,7) h2 e by simp
      qed
    qed
  qed
qed

lemma read_drained_ok:
  assumes ok: "down_ok sts0 b" and e: "held b = []"
  shows "round_ok io sent received sts0 room b w (read_drained io b w)"
proof (cases "engine_termination_request (bi_down b)")
  case None
  then have "en_termination (bi_down b) = None" by (simp add: engine_termination_request_def)
  then show ?thesis using read_transport_ok [OF ok e] None by (simp add: read_drained_def)
next
  case (Some req)
  then show ?thesis using read_graceful_ok [OF ok e] ok
    by (cases req) (auto simp: read_drained_def kept_down_def accounts_for_def intro!: exI [of _ "[]"])
qed

lemma read_round_ok:
  assumes ok: "down_ok sts0 b"
  shows "round_ok io sent received sts0 room b w (read_round io room b w)"
proof -
  consider (out) "bi_output b \<noteq> []" | (pend) "bi_output b = []" "bi_pending b \<noteq> []"
    | (queued) "bi_output b = []" "bi_pending b = []" "\<not> queue_is_empty (bi_down b)"
    | (idle) "bi_output b = []" "bi_pending b = []" "queue_is_empty (bi_down b)" by blast
  then show ?thesis
  proof cases
    case out
    then show ?thesis using serve_output_ok [OF ok] by (simp add: read_round_def)
  next
    case pend
    then show ?thesis using admit_pending_ok [OF ok] by (simp add: read_round_def)
  next
    case queued
    obtain r b1 w1 where fl: "flush_down io b w = (r, b1, w1)" by (metis prod_cases3)
    note f = flush_down_law [OF ok fl]
    have h: "held b1 = held b" using f by (simp add: held_alt)
    have moved: "bi_output b1 \<noteq> []" if "r = Ready (Inr ())"
      using f queued down_queue_empty_iff [OF ok] that by auto
    have wt: "waits io (mirror_down b1) w1" if "r = Pending"
      using flush_down_pending [of io b w b1 w1] fl that by (simp add: waits_def)
    have round: "read_round io room b w = (case r of
        Pending \<Rightarrow> Return Pending (mirror_down b1) w1 | Ready (Inl err) \<Rightarrow> Return (Ready (Inl err)) (mirror_down b1) w1
      | Ready (Inr _) \<Rightarrow> Again (mirror_down b1) w1)"
      using queued fl moved by (auto simp: read_round_def split: poll.splits sum.splits)
    have "(rank (mirror_down b1), rank b) \<in> less_than <*lex*> less_than" if "r = Ready (Inr ())"
      using moved [OF that] queued by (simp add: rank_def)
    then show ?thesis unfolding round using f h wt
      by (cases r rule: poll_unit_cases) (auto simp: accounts_for_def)
  next
    case idle
    then have "held b = []" using down_queue_empty_iff [OF ok] by (simp add: held_def)
    then show ?thesis using read_drained_ok [OF ok] idle by (simp add: read_round_def)
  qed
qed

end

end
