(* ===== verification/BidirectionalProps.thy ===== *)
theory BidirectionalProps
  imports BidirectionalReads
begin

text \<open>
  The properties of the full-duplex stream: the read loop returns and accounts for every byte, the write side
  is that of \<open>ChaosStream\<close> and leaves the read side alone, and two ways in which released bytes do not reach
  the reader.
\<close>

section \<open>The loop\<close>

context duplex
begin

lemma read_loop_returns:
  "down_ok sts0 b \<Longrightarrow> \<exists>r b' w'. read_loop io room b w = Some (r, b', w') \<and> round_ok io sent received sts0 room b w (Return r b' w')"
proof (induction "rank b" arbitrary: b w rule: wf_induct_rule [OF wf_lex_prod [OF wf_less_than wf_less_than]])
  case 1
  note ok = read_round_ok [OF 1(2), of room w]
  show ?case
  proof (cases "read_round io room b w")
    case (Return r b' w')
    then have "read_loop io room b w = Some (r, b', w')" by (simp add: read_loop.simps)
    then show ?thesis using ok Return by auto
  next
    case (Again b1 w1)
    then have k: "kept_down sts0 b b1" and s: "sent w1 = sent w" and rk: "(rank b1, rank b) \<in> less_than <*lex*> less_than"
      using ok by simp_all
    obtain fresh1 where f1: "received w1 = received w @ fresh1" "held b1 = held b @ fresh1" using ok Again by auto
    have "down_ok sts0 b1" "unlimited b1 = unlimited b" using k by (simp_all add: kept_down_def)
    from 1(1) [OF rk this(1)] obtain r b' w' where l: "read_loop io room b1 w1 = Some (r, b', w')"
      and o: "round_ok io sent received sts0 room b1 w1 (Return r b' w')" by blast
    from o obtain fresh2 lost where f2: "received w' = received w1 @ fresh2" "accounts_for fresh2 b1 (read_bytes r) lost b'" by auto
    have "received w' = received w @ fresh1 @ fresh2" using f1 f2 by simp
    moreover have "accounts_for (fresh1 @ fresh2) b (read_bytes r) lost b'"
      using f1(2) f2(2) \<open>unlimited b1 = unlimited b\<close> by (simp add: accounts_for_def)
    ultimately have "round_ok io sent received sts0 room b w (Return r b' w')"
      using o k s kept_down_trans by auto
    moreover have "read_loop io room b w = Some (r, b', w')" using l Again by (simp add: read_loop.simps [of io room b w])
    ultimately show ?thesis by blast
  qed
qed

lemma pump_up_law:
  assumes "engine_ok sts0 (bi_up b)" "pump_up io b w = (b', w')"
  shows "engine_ok sts0 (bi_up b') \<and> owed sent (bi_up b') w' = owed sent (bi_up b) w \<and> received w' = received w \<and>
    bi_down b' = bi_down b \<and> held b' = held b"
proof (cases "engine_is_empty (bi_up b)")
  case True
  then show ?thesis using assms by (simp add: pump_up_def)
next
  case False
  obtain r e w1 where f: "engine_poll_flush io (bi_up b) w = (r, e, w1)" by (metis prod_cases3)
  then have "b' = mirror_up (b\<lparr>bi_up := e\<rparr>)" "w' = w1" using assms(2) False by (simp_all add: pump_up_def)
  then show ?thesis using flush_owed [OF assms(1) f] flush_unobserved [OF received_unobserved f]
    by (simp add: mirror_up_def held_def)
qed

end

text \<open>No transition is due.\<close>

definition bidi_current :: "fault_plan published_policy \<Rightarrow> fault_plan published_policy \<Rightarrow> bidi \<Rightarrow> bool" where
  "bidi_current snap_u snap_d b = (generation snap_u = bi_observed_up b \<and> generation snap_d = bi_observed_down b)"

lemma update_policies_current: "bidi_current snap_u snap_d b \<Longrightarrow> update_policies io snap_u snap_d b w = (Ready (Inr ()), b, w)"
  by (simp add: bidi_current_def update_policies_def update_up_def update_down_def)

section \<open>The write side\<close>

definition down_side :: "bidi \<Rightarrow> direction_engine \<times> byte list \<times> byte list \<times> nat \<times> stream_evidence" where
  "down_side b = (bi_down b, bi_output b, bi_pending b, bi_observed_down b, bi_down_evidence b)"

definition up_view :: "bidi \<Rightarrow> chaos_stream" where
  "up_view b = \<lparr>cs_engine = bi_up b, cs_direction = Upstream, cs_live = True, cs_proxy = bi_proxy b,
     cs_connection_key = bi_connection_key b, cs_observed_generation = bi_observed_up b, cs_evidence = bi_up_evidence b\<rparr>"

lemma up_view_simps [simp]: "cs_engine (up_view b) = bi_up b" "cs_observed_generation (up_view b) = bi_observed_up b"
  by (simp_all add: up_view_def)

lemma mirror_observed [simp]: "cs_observed_generation (mirror cs) = cs_observed_generation cs"
  by (simp add: mirror_def)

lemma mirror_up_simps [simp]:
  "bi_up (mirror_up b) = bi_up b" "down_side (mirror_up b) = down_side b" "bi_observed_up (mirror_up b) = bi_observed_up b"
  by (simp_all add: mirror_up_def down_side_def)

lemma down_side_upd [simp]: "down_side (b\<lparr>bi_up := e\<rparr>) = down_side b" "down_side (b\<lparr>bi_up_evidence := se\<rparr>) = down_side b"
  by (simp_all add: down_side_def)

lemma bidi_write_matches:
  assumes "write_current io bytes (up_view b) w = (r, cs', w')"
  shows "\<exists>b'. bidi_write_current io bytes b w = (r, b', w') \<and> bi_up b' = cs_engine cs' \<and>
    bi_observed_up b' = cs_observed_generation cs' \<and> down_side b' = down_side b"
proof (cases "engine_is_empty (bi_up b)")
  case True
  obtain r1 w1 where wr: "io_write io bytes w = (r1, w1)" by fastforce
  then have "r = r1" "w' = w1" "cs_engine cs' = bi_up b" "cs_observed_generation cs' = bi_observed_up b"
    using assms True by (cases "(up_view b, r1)" rule: direct_result.cases; auto simp: write_current_def)+
  then show ?thesis using True wr by (auto simp: bidi_write_current_def split: poll.split sum.split)
next
  case False
  obtain r1 e1 w1 where f1: "engine_poll_flush io (bi_up b) w = (r1, e1, w1)" by (metis prod_cases3)
  obtain n e2 w2 where acc: "accept_now io bytes e1 w1 = (n, e2, w2)" by (metis prod_cases3)
  obtain r3 e3 w3 where f3: "engine_poll_flush io e2 w2 = (r3, e3, w3)" by (metis prod_cases3)
  show ?thesis
  proof (cases "\<exists>err. r1 = Ready (Inl err)")
    case True
    then show ?thesis using assms False f1
      by (auto simp: write_current_def write_through_engine_def bidi_write_current_def)
  next
    case no: False
    have "write_current io bytes (up_view b) w =
       (if bytes = [] then (Ready (Inr 0), up_view b\<lparr>cs_engine := e1\<rparr>, w1)
        else if closed_by_termination e1 then
          (Ready (Inl (terminated_error (en_termination e1))), up_view b\<lparr>cs_engine := e1\<rparr>, w1)
        else if 0 < n then (Ready (Inr n), mirror (up_view b\<lparr>cs_engine := e3\<rparr>), w3)
        else if closed_by_termination e2 then
          (Ready (Inl (terminated_error (en_termination e2))), up_view b\<lparr>cs_engine := e2\<rparr>, w2)
        else (Pending, up_view b\<lparr>cs_engine := e2\<rparr>, w2))"
      using False no f1 acc f3 unfolding write_current_def write_through_engine_def
      by (cases r1) (auto simp: Let_def split: sum.splits)
    moreover have "bidi_write_current io bytes b w =
       (if bytes = [] then (Ready (Inr 0), b\<lparr>bi_up := e1\<rparr>, w1)
        else if closed_by_termination e1 then
          (Ready (Inl (terminated_error (en_termination e1))), mirror_up (b\<lparr>bi_up := e1\<rparr>), w1)
        else if 0 < n then (Ready (Inr n), mirror_up (b\<lparr>bi_up := e3\<rparr>), w3)
        else if closed_by_termination e2 then
          (Ready (Inl (terminated_error (en_termination e2))), b\<lparr>bi_up := e2\<rparr>, w2)
        else (Pending, b\<lparr>bi_up := e2\<rparr>, w2))"
      using False no f1 acc f3 unfolding bidi_write_current_def
      by (cases r1) (auto simp: Let_def split: sum.splits)
    ultimately show ?thesis using assms by (auto split: if_splits)
  qed
qed

text \<open>The upstream transition of the full-duplex stream is that of the chaos stream; an invalid plan is an error here, a panic there.\<close>

lemma update_up_matches:
  "case update_live io snap (up_view b) w of
     Some (p, cs1, w1) \<Rightarrow> \<exists>b1. update_up io snap b w = (case p of Ready _ \<Rightarrow> Ready (Inr ()) | Pending \<Rightarrow> Pending, b1, w1) \<and>
       up_view b1 = cs1 \<and> down_side b1 = down_side b
   | None \<Rightarrow> \<exists>err b1 w1. update_up io snap b w = (Ready (Inl (InvalidInput err)), b1, w1) \<and>
       bi_observed_up b1 = bi_observed_up b \<and> down_side b1 = down_side b"
  by (simp add: update_live_def update_up_def up_view_def transition_evidence_def down_side_def Let_def
      split: prod.split sum.split)

lemma update_policies_upstream:
  assumes "generation snap_d = bi_observed_down b"
  shows "update_policies io snap_u snap_d b w = update_up io snap_u b w"
proof -
  obtain r b1 w1 where u: "update_up io snap_u b w = (r, b1, w1)" by (metis prod_cases3)
  have "down_side b1 = down_side b"
    using update_up_matches [of io snap_u b w] u by (auto split: option.splits prod.splits)
  then have "generation snap_d = bi_observed_down b1" using assms by (simp add: down_side_def)
  then show ?thesis using u by (cases r rule: poll_result_cases) (simp_all add: update_policies_def update_down_def)
qed

section \<open>A pipe to compute with\<close>

text \<open>An in-memory transport, like the duplex pipe of the repository's tests, under the paused clock.\<close>

record pipe =
  pp_clock :: instant
  pp_sent :: "byte list"
  pp_inbound :: "byte list"
  pp_received :: "byte list"

definition pipe_io :: "pipe io" where
  "pipe_io =
     \<lparr>io_now = (\<lambda>w. (pp_clock w, w)), io_sleep = (\<lambda>d w. (pp_clock w + d, w)), io_poll_sleep = (\<lambda>f w. (f \<le> pp_clock w, w)),
      io_write = (\<lambda>bs w. (Ready (Inr (length bs)), w\<lparr>pp_sent := pp_sent w @ bs\<rparr>)),
      io_write_vectored = (\<lambda>bufs w. (Ready (Inr (length (concat bufs))), w\<lparr>pp_sent := pp_sent w @ concat bufs\<rparr>)),
      io_flush = (\<lambda>w. (Ready (Inr ()), w)), io_shutdown = (\<lambda>w. (Ready (Inr ()), w)),
      io_read = (\<lambda>n w. if pp_inbound w = [] then (Pending, w)
                       else (Ready (Inr (take n (pp_inbound w))),
                             w\<lparr>pp_inbound := drop n (pp_inbound w), pp_received := pp_received w @ take n (pp_inbound w)\<rparr>))\<rparr>"

interpretation pipe: duplex pipe_io pp_clock pp_sent pp_received
  by unfold_locales (auto simp: pipe_io_def unobserved_def split: if_splits)

definition pipe_with :: "byte list \<Rightarrow> pipe" where
  "pipe_with bytes = \<lparr>pp_clock = 0, pp_sent = [], pp_inbound = bytes, pp_received = []\<rparr>"

definition limit_bidi :: bidi where
  "limit_bidi =
     \<lparr>bi_up = limit_engine, bi_down = limit_engine, bi_output = [], bi_pending = [], bi_observed_up = 1, bi_observed_down = 1,
      bi_proxy = ''p'', bi_connection_key = 1, bi_up_evidence = stream_evidence_default,
      bi_down_evidence = stream_evidence_default\<rparr>"

lemma limit_bidi_ok:
  "down_ok (en_stream_loss limit_engine) limit_bidi" "engine_ok (en_stream_loss limit_engine) (bi_up limit_bidi)"
  "bidi_current (example_snapshot 1) (example_snapshot 1) limit_bidi" "\<not> engine_is_empty (bi_down limit_bidi)"
proof -
  have "engine_ok (en_stream_loss limit_engine) limit_engine" using new_engine_ok [OF limit_engine_new] .
  moreover have "is_preserving_only limit_engine" "0 < en_max_buffer limit_engine" "\<not> engine_is_empty limit_engine"
    by (simp_all add: is_preserving_only_def limit_engine_def example_limit_plan_def engine_is_empty_def plan_is_empty_def)
  ultimately show "down_ok (en_stream_loss limit_engine) limit_bidi" "engine_ok (en_stream_loss limit_engine) (bi_up limit_bidi)"
    "\<not> engine_is_empty (bi_down limit_bidi)" by (simp_all add: down_ok_def limit_bidi_def)
  show "bidi_current (example_snapshot 1) (example_snapshot 1) limit_bidi"
    by (simp add: bidi_current_def limit_bidi_def example_snapshot_def)
qed

section \<open>Properties\<close>

text \<open>
  C27. Reads deliver. While no transition is due and the downstream plan is not empty and preserves bytes, \<^verbatim>\<open>poll_read\<close> always
  returns, and the bytes it hands to the reader followed by those it still holds are the bytes held before followed by
  those it took from the transport, in order; only a byte limit drops a tail. A pending read has polled the armed timer of the
  front segment's release time or the transport itself, and what the write side owes is not touched.
\<close>

theorem bidi_read_delivers:
  assumes "duplex io clock sent received" "down_ok sts0 b" "engine_ok sts1 (bi_up b)" "bidi_current snap_u snap_d b"
    and "\<not> engine_is_empty (bi_down b)"
  shows "\<exists>r b' w' fresh lost. bidi_poll_read io snap_u snap_d room b w = Some (r, b', w') \<and>
    received w' = received w @ fresh \<and> held b @ fresh = read_bytes r @ held b' @ lost \<and> (unlimited b \<longrightarrow> lost = []) \<and>
    length (read_bytes r) \<le> room \<and> (r = Pending \<longrightarrow> waits io b' w') \<and> down_ok sts0 b' \<and>
    owed sent (bi_up b') w' = owed sent (bi_up b) w"
proof -
  obtain b1 w1 where p: "pump_up io b w = (b1, w1)" by fastforce
  note pu = duplex.pump_up_law [OF assms(1,3) p]
  have ok1: "down_ok sts0 b1" using pu assms(2) by (simp add: down_ok_def)
  obtain r b' w' where l: "read_loop io room b1 w1 = Some (r, b', w')"
    and o: "round_ok io sent received sts0 room b1 w1 (Return r b' w')"
    using duplex.read_loop_returns [OF assms(1) ok1] by blast
  obtain fresh lost where f: "received w' = received w1 @ fresh" "accounts_for fresh b1 (read_bytes r) lost b'" using o by auto
  have "bidi_poll_read io snap_u snap_d room b w = Some (r, b', w')"
    using p l pu assms(5) by (simp add: bidi_poll_read_def update_policies_current [OF assms(4)] bidi_read_current_def)
  moreover have "bi_up b' = bi_up b1" "sent w' = sent w1" using o by (simp_all add: kept_down_def write_side_def)
  then have "owed sent (bi_up b') w' = owed sent (bi_up b) w" using pu by (simp add: owed_def)
  moreover have "held b @ fresh = read_bytes r @ held b' @ lost" "unlimited b \<longrightarrow> lost = []"
    using f(2) pu by (simp_all add: accounts_for_def unlimited_def)
  moreover have "down_ok sts0 b'" "length (read_bytes r) \<le> room" "r = Pending \<longrightarrow> waits io b' w'" using o by (simp_all add: kept_down_def)
  ultimately show ?thesis using f(1) pu by metis
qed

theorem bidi_read_delivers_witness:
  "\<exists>r b' w' fresh lost. bidi_poll_read pipe_io (example_snapshot 1) (example_snapshot 1) 8 limit_bidi (pipe_with [1, 2]) = Some (r, b', w') \<and>
     pp_received w' = fresh \<and> fresh = read_bytes r @ held b' @ lost \<and> length (read_bytes r) \<le> 8"
proof -
  have "held limit_bidi = []" by (simp add: held_def limit_bidi_def queue_bytes_def) (simp add: limit_engine_def)
  moreover have "pp_received (pipe_with [1, 2]) = []" by (simp add: pipe_with_def)
  ultimately show ?thesis
    using bidi_read_delivers [OF pipe.duplex_axioms limit_bidi_ok, of 8 "pipe_with [1, 2]"] by auto
qed

text \<open>
  C28. The write side is a chaos stream. While no downstream transition is due, a \<^verbatim>\<open>poll_write\<close> of the full-duplex stream
  returns what the same \<^verbatim>\<open>poll_write\<close> on a \<^verbatim>\<open>ChaosStream\<close> with its upstream engine returns, upstream transitions included:
  it leaves the same engine, observed generation and world, and the read side is not touched. Where the chaos stream would
  panic on an invalid plan, the full-duplex stream reports the error and stays at its generation.
\<close>

theorem bidi_write_is_chaos_write:
  assumes "generation snap_d = bi_observed_down b"
  shows "\<exists>r b' w'. bidi_poll_write io snap_u snap_d bytes b w = (r, b', w') \<and> down_side b' = down_side b \<and>
    (case poll_write io snap_u bytes (up_view b) w of
       Some (r0, cs', w0) \<Rightarrow> r = r0 \<and> w' = w0 \<and> bi_up b' = cs_engine cs' \<and> bi_observed_up b' = cs_observed_generation cs'
     | None \<Rightarrow> (\<exists>err. r = Ready (Inl (InvalidInput err))) \<and> bi_observed_up b' = bi_observed_up b)"
proof (cases "update_live io snap_u (up_view b) w")
  case None
  then show ?thesis using update_up_matches [of io snap_u b w] assms
    by (auto simp: bidi_poll_write_def after_update_def update_policies_upstream poll_write_def)
next
  case (Some x)
  then obtain p cs1 w1 where up: "update_live io snap_u (up_view b) w = Some (p, cs1, w1)" by (cases x) auto
  from update_up_matches [of io snap_u b w] up obtain b1 where b1: "up_view b1 = cs1" "down_side b1 = down_side b"
    and u: "update_up io snap_u b w = (case p of Ready _ \<Rightarrow> Ready (Inr ()) | Pending \<Rightarrow> Pending, b1, w1)" by auto
  obtain r cs' w' where wr: "write_current io bytes (up_view b1) w1 = (r, cs', w')" by (metis prod_cases3)
  from bidi_write_matches [OF wr] show ?thesis using u up b1 wr assms
    by (cases p) (auto simp: bidi_poll_write_def after_update_def update_policies_upstream poll_write_def)
qed

theorem bidi_write_is_chaos_write_witness:
  "\<exists>r b' cs' w'. poll_write pipe_io (example_snapshot 2) [1, 2, 3, 4] (up_view limit_bidi) (pipe_with []) = Some (r, cs', w') \<and>
     bidi_poll_write pipe_io (example_snapshot 2) (example_snapshot 1) [1, 2, 3, 4] limit_bidi (pipe_with []) = (r, b', w') \<and>
     bi_up b' = cs_engine cs' \<and> down_side b' = down_side limit_bidi"
proof -
  have "plan_validate example_limit_plan = Inr ()" using example_limit_plan_ok by (simp add: plan_validate_iff)
  then have "update_live pipe_io (example_snapshot 2) (up_view limit_bidi) (pipe_with []) \<noteq> None"
    by (auto simp: update_live_def up_view_def limit_bidi_def example_snapshot_def new_with_arc_plan_def Let_def
        split: prod.splits sum.splits)
  then have "poll_write pipe_io (example_snapshot 2) [1, 2, 3, 4] (up_view limit_bidi) (pipe_with []) \<noteq> None"
    by (auto simp: poll_write_def split: poll.split) (metis prod_cases3)
  then obtain r cs' w' where "poll_write pipe_io (example_snapshot 2) [1, 2, 3, 4] (up_view limit_bidi) (pipe_with []) = Some (r, cs', w')"
    by auto
  moreover have "generation (example_snapshot 1) = bi_observed_down limit_bidi" using limit_bidi_ok(3) by (simp add: bidi_current_def)
  ultimately show ?thesis
    using bidi_write_is_chaos_write [of "example_snapshot 1" limit_bidi pipe_io "example_snapshot 2" "[1, 2, 3, 4]" "pipe_with []"]
    by fastforce
qed

text \<open>
  A transition to an empty plan strands released bytes. When the downstream policy becomes empty while its queue is
  due, the transition releases the queue into the output buffer and installs the empty engine; \<^verbatim>\<open>poll_read\<close> then
  reads the transport directly and, as long as the policies stay, no read ever returns the bytes in the buffer.
\<close>

theorem empty_plan_strands_bytes:
  assumes "generation snap_u = bi_observed_up b" "engine_is_empty (bi_up b)"
    and "generation snap_d \<noteq> bi_observed_down b" "plan_ok (pub_plan snap_d)" "plan_is_empty (pub_plan snap_d)"
    and "bi_output b = []" "\<not> queue_is_empty (bi_down b)"
    and "engine_poll_flush (capture_io io) (bi_down b) (w, []) = (Ready (Inr ()), e1, w1, out)"
  shows "\<exists>r b' w'. bidi_poll_read io snap_u snap_d room b w = Some (r, b', w') \<and> bi_output b' = out \<and>
    (\<forall>room2 w2. \<exists>r2 b2 w3. bidi_poll_read io snap_u snap_d room2 b' w2 = Some (r2, b2, w3) \<and> bi_output b2 = out)"
proof -
  obtain now w2 where n: "io_now io w1 = (now, w2)" by fastforce
  have "plan_validate (pub_plan snap_d) = Inr ()" using assms(4) by (simp add: plan_validate_iff)
  then obtain fresh where fresh: "new_with_arc_plan (pub_plan snap_d) (seed_namespace snap_d) (bi_proxy b) (bi_connection_key b)
      Downstream (en_handle e1) now = Inr fresh" by (simp add: new_with_arc_plan_def Let_def)
  define e2 where "e2 = absorb_evidence (evidence e1) fresh"
  have "en_plan e2 = pub_plan snap_d" using new_engine_inv [OF fresh] by (simp add: e2_def absorb_fields)
  then have empty: "engine_is_empty e2" using assms(5) by (simp add: engine_is_empty_def)
  have direct: "\<exists>r b2 w3. bidi_read_current io n b0 w0 = Some (r, b2, w3) \<and> bi_output b2 = bi_output b0 \<and> bi_up b2 = bi_up b0 \<and>
      bi_down b2 = bi_down b0 \<and> bi_observed_up b2 = bi_observed_up b0 \<and> bi_observed_down b2 = bi_observed_down b0"
    if "engine_is_empty (bi_up b0)" "engine_is_empty (bi_down b0)" for n b0 w0
  proof -
    obtain r w3 where "io_read io n w0 = (r, w3)" by fastforce
    then show ?thesis using that by (cases "(b0, r)" rule: direct_read.cases) (auto simp: bidi_read_current_def pump_up_def)
  qed
  obtain b1 where up: "update_policies io snap_u snap_d b w = (Ready (Inr ()), b1, w2)" "bi_output b1 = out" "bi_up b1 = bi_up b"
    "bi_down b1 = e2" "bi_observed_up b1 = generation snap_u" "bi_observed_down b1 = generation snap_d"
    using assms n fresh by (simp add: update_policies_def update_up_def update_down_def flush_down_def Let_def e2_def)
  then obtain r b' w' where rd: "bidi_read_current io room b1 w2 = Some (r, b', w')" "bi_output b' = out" "bi_up b' = bi_up b"
    "bi_down b' = e2" "bi_observed_up b' = generation snap_u" "bi_observed_down b' = generation snap_d"
    using direct [of b1 room w2] assms(2) empty by auto
  have "\<exists>r2 b2 w3. bidi_poll_read io snap_u snap_d room2 b' w4 = Some (r2, b2, w3) \<and> bi_output b2 = out" for room2 w4
    using direct [of b' room2 w4] rd assms(2) empty update_policies_current [of snap_u snap_d b' io w4]
    by (auto simp: bidi_poll_read_def bidi_current_def)
  moreover have "bidi_poll_read io snap_u snap_d room b w = Some (r, b', w')" using up(1) rd(1) by (simp add: bidi_poll_read_def)
  ultimately show ?thesis using rd(2) by blast
qed

text \<open>One segment that is due, and possibly one that is not.\<close>

definition stocked :: "queued list \<Rightarrow> bidi" where
  "stocked rest = limit_bidi\<lparr>bi_up := engine_empty 0, bi_down := limit_engine\<lparr>en_queue := due_now [1, 2] # rest\<rparr>\<rparr>"

lemma captured_pipe [simp]:
  "io_now (capture_io pipe_io) (p, out) = (pp_clock p, p, out)" "io_flush (capture_io pipe_io) x = (Ready (Inr ()), x)"
  "io_write (capture_io pipe_io) bs (p, out) = (Ready (Inr (length bs)), p, out @ bs)"
  "io_sleep (capture_io pipe_io) d (p, out) = (pp_clock p + d, p, out)"
  "io_poll_sleep (capture_io pipe_io) t (p, out) = (t \<le> pp_clock p, p, out)"
  by (simp_all add: capture_io_def pipe_io_def split_def)

lemma stocked_flush:
  "\<exists>e1. engine_poll_flush (capture_io pipe_io) (bi_down (stocked [])) (pipe_with inbound, []) = (Ready (Inr ()), e1, pipe_with inbound, [1, 2])"
  by (simp add: engine_poll_flush_def stocked_def poll_queue.simps front_due_def due_now_def advance_front_def pipe_with_def Let_def)

definition empty_snapshot :: "fault_plan published_policy" where
  "empty_snapshot = \<lparr>generation = 2, pub_plan = empty_plan, seed_namespace = 7\<rparr>"

theorem empty_plan_strands_bytes_witness:
  "\<exists>r b' w'. bidi_poll_read pipe_io (example_snapshot 1) empty_snapshot 8 (stocked []) (pipe_with [3]) = Some (r, b', w') \<and>
     bi_output b' = [1, 2] \<and>
     (\<forall>room2 w2. \<exists>r2 b2 w3. bidi_poll_read pipe_io (example_snapshot 1) empty_snapshot room2 b' w2 = Some (r2, b2, w3) \<and> bi_output b2 = [1, 2])"
proof -
  obtain e1 where f: "engine_poll_flush (capture_io pipe_io) (bi_down (stocked [])) (pipe_with [3], []) =
      (Ready (Inr ()), e1, pipe_with [3], [1, 2])" using stocked_flush by blast
  have "generation (example_snapshot 1) = bi_observed_up (stocked [])" "engine_is_empty (bi_up (stocked []))"
    "generation empty_snapshot \<noteq> bi_observed_down (stocked [])" "plan_ok (pub_plan empty_snapshot)" "plan_is_empty (pub_plan empty_snapshot)"
    "bi_output (stocked []) = []" "\<not> queue_is_empty (bi_down (stocked []))"
    by (simp_all add: stocked_def limit_bidi_def example_snapshot_def empty_snapshot_def engine_is_empty_def engine_empty_def
        empty_plan_def plan_is_empty_def plan_ok_def queue_is_empty_def)
  from empty_plan_strands_bytes [OF this f] show ?thesis .
qed

text \<open>
  Released bytes can be withheld. When one queued segment is due and the next is not, the drain inside \<^verbatim>\<open>poll_read\<close>
  is pending, and \<^verbatim>\<open>poll_read\<close> returns \<^verbatim>\<open>Pending\<close> although the released bytes are in the output buffer and the reader
  has room: they are delivered only when the next segment's timer fires.
\<close>

theorem released_bytes_withheld:
  assumes "bidi_current snap_u snap_d b" "engine_is_empty (bi_up b)" "\<not> engine_is_empty (bi_down b)"
    and "bi_output b = []" "bi_pending b = []" "\<not> queue_is_empty (bi_down b)"
    and "engine_poll_flush (capture_io io) (bi_down b) (w, []) = (Pending, e1, w1, out)"
  shows "\<exists>b'. bidi_poll_read io snap_u snap_d room b w = Some (Pending, b', w1) \<and> bi_output b' = out"
proof -
  have "read_round io room b w = Return Pending (mirror_down (b\<lparr>bi_down := e1, bi_output := out\<rparr>)) w1"
    using assms by (simp add: read_round_def flush_down_def)
  then have "read_loop io room b w = Some (Pending, mirror_down (b\<lparr>bi_down := e1, bi_output := out\<rparr>), w1)"
    by (simp add: read_loop.simps)
  then show ?thesis using assms(2,3)
    by (simp add: bidi_poll_read_def update_policies_current [OF assms(1)] bidi_read_current_def pump_up_def)
qed

theorem released_bytes_withheld_witness:
  "\<exists>b' w'. bidi_poll_read pipe_io (example_snapshot 1) (example_snapshot 1) 8 (stocked [\<lparr>q_bytes = [3], q_release = 5\<rparr>]) (pipe_with []) =
     Some (Pending, b', w') \<and> bi_output b' = [1, 2] \<and> pp_clock w' = 0"
proof -
  let ?b = "stocked [\<lparr>q_bytes = [3], q_release = 5\<rparr>]"
  obtain e1 where f: "engine_poll_flush (capture_io pipe_io) (bi_down ?b) (pipe_with [], []) = (Pending, e1, pipe_with [], [1, 2])"
    by (simp add: engine_poll_flush_def stocked_def poll_queue.simps front_due_def due_now_def advance_front_def pipe_with_def
        timer_poll_def limit_engine_def Let_def)
  have "bidi_current (example_snapshot 1) (example_snapshot 1) ?b" "engine_is_empty (bi_up ?b)" "\<not> engine_is_empty (bi_down ?b)"
    "bi_output ?b = []" "bi_pending ?b = []" "\<not> queue_is_empty (bi_down ?b)"
    by (simp_all add: stocked_def limit_bidi_def example_snapshot_def engine_is_empty_def engine_empty_def bidi_current_def
        empty_plan_def plan_is_empty_def queue_is_empty_def limit_engine_def example_limit_plan_def)
  from released_bytes_withheld [OF this f, of 8] show ?thesis by (force simp: pipe_with_def)
qed

end
