(* ===== verification/DatagramRuns.thy ===== *)
theory DatagramRuns
  imports DatagramAdmit
begin

text \<open>
  The properties of the datagram engine over whole runs, and the sustained rate of its token bucket.
\<close>

section \<open>The bucket over a run of admissions\<close>

text \<open>Admissions \<open>(now, bytes)\<close> to one bucket; the result lists the release instants.\<close>

fun bucket_run :: "nat \<Rightarrow> nat \<Rightarrow> (instant \<times> nat) list \<Rightarrow> datagram_bucket \<Rightarrow> instant list \<times> datagram_bucket" where
  "bucket_run rate burst [] b = ([], b)"
| "bucket_run rate burst ((now, bytes) # loads) b =
     (let (d, b1) = bucket_admit now bytes rate burst b;
          (rs, b2) = bucket_run rate burst loads b1
      in ((now + d) # rs, b2))"

lemma service_covers:
  assumes "1 \<le> rate" "rate \<le> U64_MAX" "deficit \<le> 65535"
  shows "deficit * NANOS_PER_SEC \<le> rate * service_nanos rate deficit"
proof -
  have small: "deficit * NANOS_PER_SEC \<le> 65535 * NANOS_PER_SEC" using assms(3) by simp
  have wide: "65535 * NANOS_PER_SEC + U64_MAX \<le> U128_MAX" "65535 * NANOS_PER_SEC + 1 \<le> U64_MAX"
    by (simp_all add: NANOS_PER_SEC_def U64_MAX_def U128_MAX_def)
  have m: "sat_mul128 deficit NANOS_PER_SEC = deficit * NANOS_PER_SEC"
    using small wide(1) by (intro sat_mul128_exact) linarith
  have a: "sat_add128 (deficit * NANOS_PER_SEC) (rate - 1) = deficit * NANOS_PER_SEC + (rate - 1)"
    using small wide(1) assms(2) by (intro sat_add128_exact) linarith
  have r: "0 < rate" using assms(1) by simp
  have "deficit * NANOS_PER_SEC * 1 \<le> deficit * NANOS_PER_SEC * rate" using assms(1) by (rule mult_le_mono2)
  then have "(deficit * NANOS_PER_SEC + (rate - 1)) div rate \<le> deficit * NANOS_PER_SEC"
    using ceil_div_least(2) [OF r, of "deficit * NANOS_PER_SEC" "deficit * NANOS_PER_SEC"] by (metis mult_1_right not_le)
  then have "(deficit * NANOS_PER_SEC + (rate - 1)) div rate \<le> U64_MAX" using small wide(2) by linarith
  then have "service_nanos rate deficit = (deficit * NANOS_PER_SEC + (rate - 1)) div rate"
    unfolding service_nanos_def m a by simp
  then show ?thesis using ceil_div_least(1) [OF r, of "deficit * NANOS_PER_SEC"] by (simp add: mult.commute)
qed

lemma refill_bounded: "refill_bytes rate elapsed * NANOS_PER_SEC \<le> rate * elapsed"
proof -
  have "refill_bytes rate elapsed \<le> sat_mul128 elapsed rate div NANOS_PER_SEC" by (simp add: refill_bytes_def)
  then have "refill_bytes rate elapsed * NANOS_PER_SEC \<le> sat_mul128 elapsed rate div NANOS_PER_SEC * NANOS_PER_SEC"
    by (rule mult_le_mono1)
  also have "\<dots> \<le> sat_mul128 elapsed rate" by (rule div_times_less_eq_dividend)
  also have "\<dots> \<le> rate * elapsed" by (simp add: sat_mul128_def mult.commute)
  finally show ?thesis .
qed

text \<open>
  One admission: the datagram is released when the bucket's clock says so, and the bytes granted are
  covered by the tokens spent and the time the clock advanced.
\<close>

lemma bucket_admit_pays:
  assumes "bucket_admit now bytes rate burst b = (d, b')" "now + d \<le> INSTANT_MAX"
    and "1 \<le> rate" "rate \<le> U64_MAX" "bytes \<le> 65535"
  shows "now + d = db_updated b'" "db_updated b \<le> db_updated b'"
    "(bytes + db_tokens b') * NANOS_PER_SEC + rate * db_updated b \<le> db_tokens b * NANOS_PER_SEC + rate * db_updated b'"
proof -
  define v where "v = max now (db_updated b)"
  define t where "t = min (sat_add64 (db_tokens b) (refill_bytes rate (v - db_updated b))) burst"
  have "t \<le> db_tokens b + refill_bytes rate (v - db_updated b)" by (auto simp: t_def sat_add64_def)
  then have "t * NANOS_PER_SEC \<le> (db_tokens b + refill_bytes rate (v - db_updated b)) * NANOS_PER_SEC" by (rule mult_le_mono1)
  then have "t * NANOS_PER_SEC \<le> db_tokens b * NANOS_PER_SEC + rate * (v - db_updated b)"
    using refill_bounded [of rate "v - db_updated b"] by (simp add: distrib_right)
  moreover have "rate * (v - db_updated b) + rate * db_updated b = rate * v"
    by (simp add: v_def flip: distrib_left)
  ultimately have tokens: "t * NANOS_PER_SEC + rate * db_updated b \<le> db_tokens b * NANOS_PER_SEC + rate * v" by linarith
  have eq: "bucket_admit now bytes rate burst b =
      (if bytes \<le> t then (v - now, \<lparr>db_tokens = t - bytes, db_updated = v\<rparr>)
       else (duration_saturating_add (v - now) (service_nanos rate (bytes - t)),
             \<lparr>db_tokens = 0, db_updated = (case instant_checked_add v (service_nanos rate (bytes - t)) of
                Some t \<Rightarrow> t | None \<Rightarrow> v)\<rparr>))"
    by (simp only: bucket_admit_def Let_def v_def t_def)
  have v: "now \<le> v" "db_updated b \<le> v" by (simp_all add: v_def)
  show "now + d = db_updated b'" "db_updated b \<le> db_updated b'"
    "(bytes + db_tokens b') * NANOS_PER_SEC + rate * db_updated b \<le> db_tokens b * NANOS_PER_SEC + rate * db_updated b'"
  proof (atomize (full), cases "bytes \<le> t")
    case True
    then have "d = v - now" "b' = \<lparr>db_tokens = t - bytes, db_updated = v\<rparr>"
      using assms(1) eq by simp_all
    then show "now + d = db_updated b' \<and> db_updated b \<le> db_updated b' \<and>
      (bytes + db_tokens b') * NANOS_PER_SEC + rate * db_updated b \<le> db_tokens b * NANOS_PER_SEC + rate * db_updated b'"
      using v tokens True by simp
  next
    case False
    define s where "s = service_nanos rate (bytes - t)"
    have "INSTANT_MAX < DURATION_MAX" by (simp add: DURATION_MAX_def INSTANT_MAX_def NANOS_PER_SEC_def)
    have d: "d = duration_saturating_add (v - now) s"
      "b' = \<lparr>db_tokens = 0, db_updated = (case instant_checked_add v s of Some t \<Rightarrow> t | None \<Rightarrow> v)\<rparr>"
      using assms(1) False eq by (simp_all add: s_def)
    have "d = v - now + s"
      using d(1) assms(2) \<open>INSTANT_MAX < DURATION_MAX\<close> by (auto simp: duration_saturating_add_def min_def split: if_splits)
    then have "now + d = v + s" using v by simp
    then have b': "b' = \<lparr>db_tokens = 0, db_updated = v + s\<rparr>" using d(2) assms(2) by (simp add: instant_checked_add_def)
    have "(bytes - t) * NANOS_PER_SEC \<le> rate * s"
      unfolding s_def using assms(3-5) by (intro service_covers) simp_all
    then have "bytes * NANOS_PER_SEC \<le> t * NANOS_PER_SEC + rate * s" using False by (simp add: diff_mult_distrib)
    then show "now + d = db_updated b' \<and> db_updated b \<le> db_updated b' \<and>
      (bytes + db_tokens b') * NANOS_PER_SEC + rate * db_updated b \<le> db_tokens b * NANOS_PER_SEC + rate * db_updated b'"
      using b' \<open>now + d = v + s\<close> v tokens by (simp add: distrib_left)
  qed
qed

lemma bucket_run_pays:
  assumes "bucket_run rate burst loads b = (rs, b')" "list_all (\<lambda>t. t \<le> INSTANT_MAX) rs"
    and "1 \<le> rate" "rate \<le> U64_MAX" "list_all (\<lambda>(now, bytes). bytes \<le> 65535) loads"
  shows "sorted (db_updated b # rs) \<and> last (db_updated b # rs) = db_updated b' \<and>
    (sum_list (map snd loads) + db_tokens b') * NANOS_PER_SEC + rate * db_updated b \<le>
      db_tokens b * NANOS_PER_SEC + rate * db_updated b'"
  using assms
proof (induction loads arbitrary: b rs)
  case (Cons req loads)
  obtain now bytes where req: "req = (now, bytes)" by (cases req)
  obtain d b1 where one: "bucket_admit now bytes rate burst b = (d, b1)" by fastforce
  obtain rs1 where rest: "bucket_run rate burst loads b1 = (rs1, b')" "rs = (now + d) # rs1"
    using Cons.prems(1) req one by (auto simp: Let_def split: prod.splits)
  have ok: "now + d \<le> INSTANT_MAX" "list_all (\<lambda>t. t \<le> INSTANT_MAX) rs1" "bytes \<le> 65535"
    "list_all (\<lambda>(now, bytes). bytes \<le> 65535) loads"
    using Cons.prems(2,5) rest(2) req by simp_all
  note pays = bucket_admit_pays [OF one ok(1) Cons.prems(3,4) ok(3)]
  note ih = Cons.IH [OF rest(1) ok(2) Cons.prems(3,4) ok(4)]
  show ?case using ih pays rest(2) req by (auto simp: distrib_right split: if_splits)
qed simp

section \<open>Properties\<close>

text \<open>
  C36. Bounded ownership. In every state a sequence of admissions, releases and discards can reach, the
  scheduler owns at most the configured number of datagrams and bytes, no datagram is larger than
  allowed, the occupancy counters are exact and the high-water marks stay within the limits.
\<close>

theorem datagram_bounded:
  assumes "datagram_engine_new limits proxy association dir v = Inr e" "datagram_runs (datagram_start e) s"
  shows "let e' = dr_engine s; ev = de_evidence e' in
    length (de_queue e') \<le> max_queued_datagrams limits \<and> queue_load (de_queue e') \<le> max_queued_bytes limits \<and>
    list_all (\<lambda>c. length (cd_payload c) \<le> max_datagram_bytes limits) (de_queue e') \<and>
    dv_queued_datagrams ev = length (de_queue e') \<and> dv_queued_bytes ev = queue_load (de_queue e') \<and>
    dv_high_water_datagrams ev \<le> max_queued_datagrams limits \<and> dv_high_water_bytes ev \<le> max_queued_bytes limits"
proof -
  note new = datagram_engine_new_inv [OF assms(1)]
  have "datagram_wf (dr_engine s)" using datagram_runs_inv [OF assms(2) new(1)] by (simp add: datagram_inv_def)
  moreover have "de_limits (dr_engine s) = limits"
    using datagram_runs_limits [OF assms(2) new(1)] new(2) by (simp add: datagram_start_def)
  ultimately show ?thesis by (auto simp: datagram_wf_def occupancy_def Let_def)
qed

text \<open>A small engine, a duplicating plan, and one admission of it.\<close>

definition example_limits :: datagram_queue_limits where
  "example_limits = \<lparr>max_queued_datagrams = 8, max_queued_bytes = 100, max_datagram_bytes = 10\<rparr>"

definition twice_plan :: datagram_plan where
  "twice_plan = \<lparr>dp_faults = [\<lparr>df_id = ''dup'', df_probability = Fin F64_ONE, df_kind = Duplicate 1\<rparr>]\<rparr>"

definition example_engine :: datagram_engine where
  "example_engine = \<lparr>de_limits = example_limits, de_proxy = ''p'', de_association = 1, de_direction = Upstream,
     de_rng_version = V1, de_ordinal = 0, de_queue = [], de_evidence = datagram_evidence_default,
     de_buckets = Map.empty, de_buckets_generation = 0\<rparr>"

lemma example_engine_new: "datagram_engine_new example_limits ''p'' 1 Upstream V1 = Inr example_engine"
  by (simp add: datagram_engine_new_def limits_validate_def example_limits_def example_engine_def
      datagram_evidence_default_def)

lemma twice_plan_ok: "datagram_plan_ok twice_plan"
  by (simp add: datagram_plan_ok_def twice_plan_def dspec_ok_def in_unit_interval_def less_imp_le)

lemma always_hits: "bernoulli (Fin F64_ONE) rng = (True, rng)"
  by (simp add: bernoulli_def not_le)

lemma twice_stages:
  "run_stages ns now ord 0 (dp_faults twice_plan) [(0, payload, 0)] 1 e =
     ([(0, payload, 0), (1, payload, 0)],
      count_evidence note_duplicate (count_evidence (note_activation (Duplicate 1)) e))"
  by (simp add: twice_plan_def always_hits)

lemma twice_admits:
  "\<exists>e'. admit 5 [7, 9] \<lparr>generation = 1, pub_plan = twice_plan, seed_namespace = 0\<rparr> example_engine =
     Some (Immediate [\<lparr>sd_payload = [7, 9], sd_ingress_ordinal = 0, sd_copy_index = 0, sd_generation = 1\<rparr>,
                      \<lparr>sd_payload = [7, 9], sd_ingress_ordinal = 0, sd_copy_index = 1, sd_generation = 1\<rparr>], e') \<and>
     dv_admitted_datagrams (de_evidence e') = 1 \<and> dv_duplicated_copies (de_evidence e') = 1 \<and> de_ordinal e' = 1"
proof -
  let ?p = "\<lparr>generation = 1, pub_plan = twice_plan, seed_namespace = 0 :: u64\<rparr>"
  let ?e1 = "count_evidence (count_admitted 2) (example_engine\<lparr>de_ordinal := sat_add64 0 1\<rparr>)"
  define e3 where "e3 = count_evidence note_duplicate (count_evidence (note_activation (Duplicate 1)) (observe_policy ?p ?e1))"
  let ?items = "[(0, [7, 9], 0), (1, [7, 9], 0)] :: in_flight list"
  have "dp_faults twice_plan \<noteq> []" by (simp add: twice_plan_def)
  then have a: "admit 5 [7, 9] ?p example_engine = dispatch 5 0 1 ?items e3"
    by (simp add: admit_def Let_def twice_stages [unfolded One_nat_def] numeral_2_eq_2 e3_def)
      (simp add: example_engine_def example_limits_def)
  have q: "de_queue e3 = []" "de_limits e3 = example_limits" "dv_queued_bytes (de_evidence e3) = 0"
    by (simp_all add: e3_def example_engine_def note_duplicate_def note_activation_def observe_policy_def count_admitted_def
        datagram_evidence_default_def Let_def)
  have c: "dv_admitted_datagrams (de_evidence e3) = 1" "dv_duplicated_copies (de_evidence e3) = 1" "de_ordinal e3 = 1"
    by (simp_all add: e3_def example_engine_def note_duplicate_def note_activation_def observe_policy_def count_admitted_def
        datagram_evidence_default_def Let_def sat_add64_def U64_MAX_def)
  have "all_immediate ?items e3"
    by (simp add: all_immediate_def fits_all_def checked_add64_def sat_add64_def q) (simp add: U64_MAX_def example_limits_def)
  then show ?thesis using a c by (simp add: dispatch_def emit_immediate_def note_emitted_def note_queued_def Let_def)
qed

lemma example_datagram_run:
  "\<exists>s. datagram_runs (datagram_start example_engine) s \<and>
     dr_emitted s = [\<lparr>sd_payload = [7, 9], sd_ingress_ordinal = 0, sd_copy_index = 0, sd_generation = 1\<rparr>,
                     \<lparr>sd_payload = [7, 9], sd_ingress_ordinal = 0, sd_copy_index = 1, sd_generation = 1\<rparr>] \<and>
     dv_admitted_datagrams (de_evidence (dr_engine s)) = 1 \<and> dv_duplicated_copies (de_evidence (dr_engine s)) = 1 \<and>
     de_ordinal (dr_engine s) = 1"
proof -
  let ?p = "\<lparr>generation = 1, pub_plan = twice_plan, seed_namespace = 0 :: u64\<rparr>"
  obtain e' out where a: "admit 5 [7, 9] ?p example_engine = Some (Immediate out, e')"
    "out = [\<lparr>sd_payload = [7, 9], sd_ingress_ordinal = 0, sd_copy_index = 0, sd_generation = 1\<rparr>,
            \<lparr>sd_payload = [7, 9], sd_ingress_ordinal = 0, sd_copy_index = 1, sd_generation = 1\<rparr>]"
    "dv_admitted_datagrams (de_evidence e') = 1" "dv_duplicated_copies (de_evidence e') = 1" "de_ordinal e' = 1"
    using twice_admits by blast
  let ?s = "datagram_start example_engine"
  have "datagram_step ?s (?s\<lparr>dr_engine := e', dr_emitted := dr_emitted ?s @ emitted_now (Immediate out)\<rparr>)"
    by (rule datagram_step.step_admit [of ?p 5 "[7, 9]"])
      (simp_all add: twice_plan_ok a(1) [simplified] datagram_start_def INSTANT_MAX_def NANOS_PER_SEC_def)
  from datagram_runs.datagram_next [OF datagram_runs.datagram_refl this] show ?thesis
    by (intro exI conjI) (assumption, simp_all add: datagram_start_def a(2-5))
qed

theorem datagram_bounded_witness:
  "\<exists>s. datagram_runs (datagram_start example_engine) s \<and> length (dr_emitted s) = 2 \<and>
     dv_high_water_datagrams (de_evidence (dr_engine s)) \<le> 8"
proof -
  obtain s where "datagram_runs (datagram_start example_engine) s" "length (dr_emitted s) = 2"
    using example_datagram_run by auto
  with datagram_bounded [OF example_engine_new this(1)] show ?thesis by (auto simp: Let_def example_limits_def)
qed

text \<open>
  C37. Accounting. Below the saturation point of the counters, every admitted datagram and every
  duplicate is accounted for exactly once: emitted, dropped by a configured loss, refused by the full
  queue, refused as oversized, still queued, or discarded by the embedding runtime.
\<close>

theorem datagram_accounts:
  assumes "datagram_engine_new limits proxy association dir v = Inr e" "datagram_runs (datagram_start e) s"
    and "dv_admitted_datagrams (de_evidence (dr_engine s)) + dv_duplicated_copies (de_evidence (dr_engine s)) < U64_MAX"
  shows "let ev = de_evidence (dr_engine s) in
    dv_admitted_datagrams ev + dv_duplicated_copies ev =
      dv_emitted_datagrams ev + dv_configured_loss ev + dv_queue_overflow ev + dv_oversize_datagrams ev +
      length (de_queue (dr_engine s)) + dr_discarded s"
  using datagram_runs_inv [OF assms(2) datagram_engine_new_inv(1) [OF assms(1)]] assms(3)
  by (simp add: datagram_inv_def balanced_def datagram_wf_def occupancy_def Let_def)

theorem datagram_accounts_witness:
  "\<exists>s. datagram_runs (datagram_start example_engine) s \<and> length (dr_emitted s) = 2 \<and>
     (let ev = de_evidence (dr_engine s) in
      2 = dv_emitted_datagrams ev + dv_configured_loss ev + dv_queue_overflow ev + dv_oversize_datagrams ev +
        length (de_queue (dr_engine s)) + dr_discarded s)"
proof -
  obtain s where s: "datagram_runs (datagram_start example_engine) s" "length (dr_emitted s) = 2"
    "dv_admitted_datagrams (de_evidence (dr_engine s)) = 1" "dv_duplicated_copies (de_evidence (dr_engine s)) = 1"
    using example_datagram_run by auto
  then have "dv_admitted_datagrams (de_evidence (dr_engine s)) + dv_duplicated_copies (de_evidence (dr_engine s)) < U64_MAX"
    by (simp add: U64_MAX_def)
  from datagram_accounts [OF example_engine_new s(1) this] s show ?thesis by (auto simp: Let_def)
qed

text \<open>
  C38. Identities are unique. As long as fewer than \<^verbatim>\<open>u64::MAX\<close> datagrams were admitted, no two
  datagrams, emitted or queued, share an ingress ordinal and copy index: nothing is emitted twice, and
  the ordering key of the heap has no ties.
\<close>

theorem datagram_identities_unique:
  assumes "datagram_engine_new limits proxy association dir v = Inr e" "datagram_runs (datagram_start e) s"
    and "de_ordinal (dr_engine s) < U64_MAX"
  shows "distinct (map (\<lambda>d. (sd_ingress_ordinal d, sd_copy_index d)) (dr_emitted s) @
    map (\<lambda>c. (cd_ordinal c, cd_copy c)) (de_queue (dr_engine s)))"
  using datagram_runs_inv [OF assms(2) datagram_engine_new_inv(1) [OF assms(1)]] assms(3)
  by (simp add: datagram_inv_def run_identities_def release_key_def [abs_def] candidate_id_def [abs_def])

theorem datagram_identities_unique_witness:
  "\<exists>s. datagram_runs (datagram_start example_engine) s \<and> length (dr_emitted s) = 2 \<and>
     distinct (map (\<lambda>d. (sd_ingress_ordinal d, sd_copy_index d)) (dr_emitted s))"
proof -
  obtain s where s: "datagram_runs (datagram_start example_engine) s" "length (dr_emitted s) = 2"
    "de_ordinal (dr_engine s) = 1" using example_datagram_run by auto
  then have "de_ordinal (dr_engine s) < U64_MAX" by (simp add: U64_MAX_def)
  from datagram_identities_unique [OF example_engine_new s(1) this] s show ?thesis by auto
qed

text \<open>
  C39. Exact release. \<^verbatim>\<open>take_ready\<close> returns exactly the datagrams that are due, in the order of
  release instant, ingress ordinal and copy index, keeps exactly the others, and the next deadline lies
  in the future.
\<close>

theorem take_ready_exact:
  assumes "datagram_wf e" "take_ready now e = (out, e')"
  shows "\<exists>cs. out = map scheduled_of cs \<and> sorted (map candidate_key cs) \<and>
    mset cs = filter_mset (\<lambda>c. cd_at c \<le> now) (mset (de_queue e)) \<and>
    mset (de_queue e') = filter_mset (\<lambda>c. now < cd_at c) (mset (de_queue e)) \<and>
    list_all (\<lambda>t. now < t) (case next_deadline e' of None \<Rightarrow> [] | Some t \<Rightarrow> [t])"
proof -
  obtain cs where cs: "drains heap_peek heap_pop now (de_queue e) cs (de_queue e')" "out = map scheduled_of cs"
    using take_ready_drains [OF assms(2)] by metis
  have "sorted (map candidate_key (de_queue e))" using assms(1) by (simp add: datagram_wf_def)
  note exact = heap.drains_exact [OF cs(1) this]
  then have "set (de_queue e') \<subseteq> {c. now < cd_at c}" by (metis (full_types) mem_Collect_eq set_mset_filter set_mset_mset subsetI)
  then have "list_all (\<lambda>t. now < t) (case next_deadline e' of None \<Rightarrow> [] | Some t \<Rightarrow> [t])"
    by (cases "de_queue e'") (simp_all add: next_deadline_def)
  with exact cs(2) show ?thesis by blast
qed

definition held :: "nat \<Rightarrow> instant \<Rightarrow> candidate" where
  "held copy t = \<lparr>cd_at = t, cd_ordinal = 0, cd_copy = copy, cd_payload = [1], cd_generation = 1\<rparr>"

definition holding_engine :: datagram_engine where
  "holding_engine = example_engine\<lparr>de_queue := [held 1 3, held 0 9],
     de_evidence := datagram_evidence_default\<lparr>dv_queued_datagrams := 2, dv_queued_bytes := 2,
       dv_high_water_datagrams := 2, dv_high_water_bytes := 2\<rparr>\<rparr>"

lemma holding_engine_wf: "datagram_wf holding_engine"
  by (simp add: datagram_wf_def holding_engine_def example_engine_def example_limits_def held_def limits_ok_def
      candidate_key_def occupancy_def queue_load_def datagram_evidence_default_def)

theorem take_ready_exact_witness:
  "\<exists>out e'. take_ready 5 holding_engine = (out, e') \<and> out = [scheduled_of (held 1 3)] \<and>
     mset (de_queue e') = {#held 0 9#}"
proof -
  obtain out e' where t: "take_ready 5 holding_engine = (out, e')" by fastforce
  from take_ready_exact [OF holding_engine_wf t] obtain cs where cs: "out = map scheduled_of cs"
    "mset cs = filter_mset (\<lambda>c. cd_at c \<le> 5) (mset (de_queue holding_engine))"
    "mset (de_queue e') = filter_mset (\<lambda>c. 5 < cd_at c) (mset (de_queue holding_engine))" by blast
  then have "mset cs = {#held 1 3#}" "mset (de_queue e') = {#held 0 9#}"
    by (simp_all add: holding_engine_def held_def)
  then show ?thesis using t cs(1) by auto
qed

text \<open>
  C40. The immediate path is queue-then-drain. When every datagram of an admission is released at once
  into an empty scheduler, the datagrams returned, their order and the whole engine agree with queueing
  them all and draining, high-water marks apart: the immediate path raises the mark to one datagram,
  queue-then-drain to the number of copies.
\<close>

theorem immediate_is_queue_then_drain:
  assumes "datagram_wf e" "all_immediate items e" "distinct (map fst items)" "now \<le> INSTANT_MAX"
    and "list_all (\<lambda>item. item_size item \<le> max_datagram_bytes (de_limits e)) items"
  shows "\<exists>out e1 e2 e3. dispatch now ord gen items e = Some (Immediate out, e1) \<and>
    enqueue_all now ord gen items False e = Some (True, e2) \<and> take_ready now e2 = (out, e3) \<and>
    without_high_water e1 = without_high_water e3 \<and>
    dv_high_water_datagrams (de_evidence e1) = max (dv_high_water_datagrams (de_evidence e)) 1 \<and>
    dv_high_water_datagrams (de_evidence e3) = max (dv_high_water_datagrams (de_evidence e)) (length items)"
  by (rule immediate_equivalent [OF assms(1-3) _ assms(4), of ord gen]) (use assms(5) in \<open>auto simp: list_all_iff\<close>)

lemma example_engine_wf: "datagram_wf example_engine"
  by (simp add: datagram_wf_def example_engine_def example_limits_def limits_ok_def occupancy_def queue_load_def
      datagram_evidence_default_def)

definition three_copies :: "in_flight list" where
  "three_copies = [(0, [7], 0), (2, [7], 0), (1, [7], 0)]"

lemma three_copies_immediate: "all_immediate three_copies example_engine"
  by (simp add: all_immediate_def three_copies_def fits_all_def checked_add64_def sat_add64_def example_engine_def
      datagram_evidence_default_def) (simp add: U64_MAX_def example_limits_def)

theorem immediate_is_queue_then_drain_witness:
  "\<exists>out e1 e2 e3. dispatch 5 0 1 three_copies example_engine = Some (Immediate out, e1) \<and>
    enqueue_all 5 0 1 three_copies False example_engine = Some (True, e2) \<and> take_ready 5 e2 = (out, e3) \<and>
    dv_high_water_datagrams (de_evidence e1) = 1 \<and> dv_high_water_datagrams (de_evidence e3) = 3"
proof -
  have "(5 :: nat) \<le> INSTANT_MAX" by (simp add: INSTANT_MAX_def NANOS_PER_SEC_def)
  moreover have "distinct (map fst three_copies)" "length three_copies = 3"
    "list_all (\<lambda>item. item_size item \<le> max_datagram_bytes (de_limits example_engine)) three_copies"
    "dv_high_water_datagrams (de_evidence example_engine) = 0"
    by (simp_all add: three_copies_def item_size_def item_bytes_def example_engine_def example_limits_def
        datagram_evidence_default_def)
  ultimately show ?thesis
    using immediate_is_queue_then_drain [OF example_engine_wf three_copies_immediate, of 5 0 1] by fastforce
qed

text \<open>
  What corruption does. A corrupted payload keeps its length; it is a rearrangement of the original
  in which exactly as many bytes as configured, or all of a shorter payload, have one bit flipped. With
  one byte to corrupt the payload always comes out different.
\<close>

theorem datagram_corruption:
  assumes "apply_stage fid (PayloadCorrupt n) now rng (copy, bytes, d) nc e = (out, nc', e')" "bytes \<noteq> []"
  shows "\<exists>w p. out = [(copy, w, d)] \<and> nc' = nc \<and> length w = length bytes \<and> mset p = mset bytes \<and>
    flipped_between 0 (min n (length bytes)) p w \<and> (n \<noteq> 1 \<or> w \<noteq> bytes)"
proof -
  obtain w rng' where w: "corrupt_loop 0 (min n (length bytes)) bytes rng = (w, rng')" by fastforce
  obtain p where p: "mset p = mset bytes" "flipped_between 0 (min n (length bytes)) p w" by (rule corrupt_shape [OF w])
  have "length w = length bytes" using p mset_eq_length [OF p(1)] by (simp add: flipped_between_def)
  moreover have "w \<noteq> bytes" if "n = 1" using corrupt_one_differs [of bytes rng w rng'] w that assms(2) by simp
  ultimately show ?thesis using assms w p by auto
qed

theorem datagram_corruption_witness:
  "\<exists>w e'. apply_stage ''c'' (PayloadCorrupt 1) 0 (rng_new 1) (0, [7, 9], 0) 1 example_engine = ([(0, w, 0)], 1, e') \<and>
     length w = 2 \<and> w \<noteq> [7, 9]"
proof -
  obtain out nc' e' where a: "apply_stage ''c'' (PayloadCorrupt 1) 0 (rng_new 1) (0, [7, 9], 0) 1 example_engine = (out, nc', e')"
    by (metis prod_cases3)
  from datagram_corruption [OF this] show ?thesis using a by auto
qed

text \<open>
  Sustained rate. Over any run of admissions to one bandwidth stage the releases are in order, and
  the bytes released by an instant never exceed the burst plus the configured rate times the elapsed
  time.
\<close>

theorem datagram_sustained_rate:
  assumes "bucket_run rate burst loads \<lparr>db_tokens = burst, db_updated = start\<rparr> = (releases, b')"
    and "list_all (\<lambda>t. t \<le> INSTANT_MAX) releases" "1 \<le> rate" "rate \<le> U64_MAX"
    and "list_all (\<lambda>(now, bytes). bytes \<le> 65535) loads"
  shows "sorted (start # releases) \<and>
    sum_list (map snd loads) * NANOS_PER_SEC \<le> burst * NANOS_PER_SEC + rate * (last (start # releases) - start)"
proof -
  note pays = bucket_run_pays [OF assms]
  then have "start \<le> db_updated b'"
    by (metis datagram_bucket.select_convs(2) last_in_set list.discI sorted_simps(2) set_ConsD order_refl)
  then have "rate * (db_updated b' - start) + rate * start = rate * db_updated b'" by (simp flip: distrib_left)
  then show ?thesis using pays by (simp add: distrib_right del: last.simps)
qed

theorem datagram_sustained_rate_witness:
  "\<exists>releases b'. bucket_run 10 5 [(0, 5), (0, 20)] \<lparr>db_tokens = 5, db_updated = 0\<rparr> = (releases, b') \<and>
     sorted releases \<and> 25 * NANOS_PER_SEC \<le> 5 * NANOS_PER_SEC + 10 * last releases"
proof -
  have wide: "5 \<le> U64_MAX" "20000000009 \<le> U128_MAX" "2000000000 \<le> U64_MAX" "2000000000 \<le> INSTANT_MAX" "2000000000 \<le> DURATION_MAX"
    by (simp_all add: U64_MAX_def U128_MAX_def INSTANT_MAX_def DURATION_MAX_def NANOS_PER_SEC_def)
  have s: "service_nanos 10 20 = 2000000000"
    using wide by (simp add: service_nanos_def sat_mul128_def sat_add128_def NANOS_PER_SEC_def min_absorb1)
  have "bucket_admit 0 5 10 5 \<lparr>db_tokens = 5, db_updated = 0\<rparr> = (0, \<lparr>db_tokens = 0, db_updated = 0\<rparr>)"
    using wide(1) by (simp add: bucket_admit_def refill_bytes_def sat_add64_def sat_mul128_def min_absorb1)
  moreover have "bucket_admit 0 20 10 5 \<lparr>db_tokens = 0, db_updated = 0\<rparr> =
      (2000000000, \<lparr>db_tokens = 0, db_updated = 2000000000\<rparr>)"
    using wide by (simp add: bucket_admit_def refill_bytes_def sat_add64_def sat_mul128_def s instant_checked_add_def
        duration_saturating_add_def min_absorb1)
  ultimately have "bucket_run 10 5 [(0, 5), (0, 20)] \<lparr>db_tokens = 5, db_updated = 0\<rparr> =
      ([0, 2000000000], \<lparr>db_tokens = 0, db_updated = 2000000000\<rparr>)" by simp
  moreover from datagram_sustained_rate [OF this] have
    "25 * NANOS_PER_SEC \<le> 5 * NANOS_PER_SEC + 10 * 2000000000"
    using wide by (simp add: U64_MAX_def)
  ultimately show ?thesis by auto
qed

text \<open>
  Bounded amplification. A plan the constructor accepts is within the documented bounds, and under
  it one datagram never becomes more than 4096 copies, with distinct indices.
\<close>

theorem datagram_amplification_bounded:
  assumes "datagram_plan_new fs = Inr p" "run_stages ns now ord 0 (dp_faults p) [(0, payload, 0)] 1 e = (out, e')"
  shows "length out \<le> 4096 \<and> distinct (map fst out) \<and> datagram_plan_ok p"
proof -
  have ok: "datagram_plan_ok p" using assms(1) by (auto simp only: datagram_plan_new_iff)
  then have "1 * amplification (dp_faults p) \<le> U16_MAX" by (simp add: datagram_plan_ok_def U16_MAX_def)
  with run_stages_copies [OF assms(2)] ok show ?thesis by (auto simp: copies_ok_def datagram_plan_ok_def)
qed

theorem datagram_amplification_bounded_witness:
  "\<exists>out e'. run_stages 0 5 0 0 (dp_faults twice_plan) [(0, [7], 0)] 1 example_engine = (out, e') \<and> length out = 2 \<and>
     length out \<le> 4096 \<and> distinct (map fst out)"
proof -
  have new: "datagram_plan_new (dp_faults twice_plan) = Inr twice_plan"
    using twice_plan_ok by (simp add: datagram_plan_new_iff)
  obtain e' where r: "run_stages 0 5 0 0 (dp_faults twice_plan) [(0, [7], 0)] 1 example_engine = ([(0, [7], 0), (1, [7], 0)], e')"
    using twice_stages by blast
  from datagram_amplification_bounded [OF new r] r show ?thesis by auto
qed

end
