(* ===== verification/EngineRuns.thy ===== *)
theory EngineRuns
  imports Drain
begin

text \<open>
  Two properties of whole runs of an engine: a slow close takes its time however often it is polled, and the fate of a byte does
  not depend on how a writer cuts its stream.
\<close>

section \<open>Closing slowly\<close>

definition closing_state :: "direction_engine \<Rightarrow> duration option \<times> instant option" where
  "closing_state e = (en_slow_close e, en_shutdown_deadline e)"

lemma frames_closing:
  "push_frame e e' \<Longrightarrow> closing_state e' = closing_state e" "loss_frame e e' \<Longrightarrow> closing_state e' = closing_state e"
  "term_frame e e' \<Longrightarrow> closing_state e' = closing_state e" "drain_frame e e' \<Longrightarrow> closing_state e' = closing_state e"
proof -
  show "closing_state e' = closing_state e" if "push_frame e e'"
  proof -
    have same: "erase_push e' = erase_push e" using that by (simp add: push_frame_def)
    show ?thesis using arg_cong [OF same, of closing_state] by (simp add: erase_push_def closing_state_def)
  qed
  show "closing_state e' = closing_state e" if "loss_frame e e'"
  proof -
    have same: "erase_loss e' = erase_loss e" using that by (simp add: loss_frame_def)
    show ?thesis using arg_cong [OF same, of closing_state] by (simp add: erase_loss_def erase_push_def closing_state_def)
  qed
  show "closing_state e' = closing_state e" if "term_frame e e'"
  proof -
    have same: "erase_term e' = erase_term e" using that by (simp add: term_frame_def)
    show ?thesis using arg_cong [OF same, of closing_state] by (simp add: erase_term_def closing_state_def)
  qed
  show "closing_state e' = closing_state e" if "drain_frame e e'"
  proof -
    have same: "erase_drain e' = erase_drain e" using that by (simp add: drain_frame_def)
    show ?thesis using arg_cong [OF same, of closing_state] by (simp add: erase_drain_def closing_state_def)
  qed
qed

lemma closing_upd [simp]:
  "closing_state (e\<lparr>en_term_timer := t\<rparr>) = closing_state e" "closing_state (e\<lparr>en_shutdown_timer := t\<rparr>) = closing_state e"
  "closing_state (refresh_sync_terminations now e) = closing_state e" "closing_state (request_termination req fid i e) = closing_state e"
  "closing_state (activate i e) = closing_state e" "closing_state (engage k flags e) = closing_state e"
  "closing_state (spend_limit n e) = closing_state e" "closing_state (count_accepted n e) = closing_state e"
  "closing_state (count_discarded n e) = closing_state e" "closing_state (count_segment e) = closing_state e" "closing_state (note_loss n e) = closing_state e"
  using frames_closing(3) [OF term_frame_spend [of n e]]
  by (simp_all add: frames_closing(3) [OF term_frame_refresh] frames_closing(3) [OF term_frame_request] frames_closing(3) [OF term_frame_activate]
      frames_closing(3) [OF term_frame_engage])
    (simp_all add: closing_state_def count_accepted_def count_discarded_def count_segment_def note_loss_def)

lemma accept_preserving_closing:
  assumes "accept_preserving input now e = (n, e')"
  shows "closing_state e' = closing_state e"
proof -
  obtain n1 la sl e1 where p: "push_preserve_run now (take (min (min (length input) (limit_available e)) (en_max_buffer e - en_buffered e)) input) e = (n1, la, sl, e1)"
    by (metis prod_cases4)
  have "closing_state e1 = closing_state e" using frames_closing(1) [of e e1] push_preserve_run_keeps [OF p] by simp
  then show ?thesis using assms p by (auto simp: accept_preserving_def Let_def simp del: engage.simps split: if_splits)
qed

lemma accept_with_stream_loss_closing:
  assumes "loss_inv sts0 e" "accept_with_stream_loss input cap now e = (n, e')"
  shows "closing_state e' = closing_state e"
proof -
  obtain tot e1 where l: "loss_loop now (take (min (length input) cap) input) e lt_zero = (tot, e1)" by fastforce
  have "closing_state e1 = closing_state e"
    using loss_loop_result [OF l assms(1)] frames_closing(2) [of e e1] by (auto simp: loss_result_def lt_zero_def)
  then show ?thesis using assms(2) l by (auto simp: accept_with_stream_loss_def Let_def simp del: engage.simps split: if_splits)
qed

lemma accept_closing:
  assumes "loss_inv sts0 e" "accept input t1 t2 t3 e = (n, e')"
  shows "closing_state e' = closing_state e"
proof -
  define r where "r = refresh_sync_terminations t1 e"
  have r: "closing_state r = closing_state e" "loss_inv sts0 r" using assms(1) by (simp_all add: r_def)
  have run: "(n, e') = (if input = [] then (0, r)
      else if limit_available r = 0 then
        (0, case (en_termination r, en_remaining_limit r) of (None, Some (_, fid)) \<Rightarrow> request_termination Graceful fid 3 r | _ \<Rightarrow> r)
      else if blackhole_discarding t3 r then accept_discarding input r
      else if loss_active r then accept_with_stream_loss input (limit_available r) t2 r else accept_preserving input t2 r)"
    using assms(2) by (simp add: accept_def Let_def flip: r_def)
  have spent: "closing_state (case (en_termination r, en_remaining_limit r) of (None, Some (_, fid)) \<Rightarrow> request_termination Graceful fid 3 r | _ \<Rightarrow> r) =
      closing_state e" using r(1) by (simp split: option.split prod.split)
  have discarded: "closing_state e' = closing_state e" if "accept_discarding input r = (n, e')"
    using that r(1) by (auto simp: accept_discarding_def Let_def split: if_splits)
  show ?thesis using run r(1) spent discarded accept_with_stream_loss_closing [OF r(2), of input "limit_available r" t2 n e']
      accept_preserving_closing [of input t2 r n e']
    by (simp split: if_splits)
qed

text \<open>
  A run before its first shutdown poll, and how far an armed deadline lies from there: \<open>t0\<close> is the clock of some state
  before that poll.
\<close>

inductive open_runs :: "'w io \<Rightarrow> 'w run \<Rightarrow> 'w run \<Rightarrow> bool" for io where
  open_refl: "open_runs io s s"
| open_accept: "open_runs io s s' \<Longrightarrow> accept input t1 t2 t3 (r_engine s') = (n, e') \<Longrightarrow>
    open_runs io s (s'\<lparr>r_engine := e', r_accepted := r_accepted s' + n,
      r_classified := r_classified s' @ (if blackhole_discarding t3 (r_engine s') then [] else take n input)\<rparr>)"
| open_flush: "open_runs io s s' \<Longrightarrow> engine_poll_flush io (r_engine s') (r_world s') = (r, e', w') \<Longrightarrow>
    open_runs io s (s'\<lparr>r_engine := e', r_world := w'\<rparr>)"
| open_due: "open_runs io s s' \<Longrightarrow> poll_due_termination io (r_engine s') (r_world s') = (t, e', w') \<Longrightarrow>
    open_runs io s (s'\<lparr>r_engine := e', r_world := w'\<rparr>)"

lemma open_runs_runs: "open_runs io s s' \<Longrightarrow> engine_runs io s s'"
  by (induction rule: open_runs.induct) (blast intro: engine_runs.intros engine_step.intros)+

definition close_inv :: "('w \<Rightarrow> instant) \<Rightarrow> instant \<Rightarrow> duration \<Rightarrow> 'w run \<Rightarrow> bool" where
  "close_inv clock t0 delay s = (t0 \<le> clock (r_world s) \<and> en_slow_close (r_engine s) = Some delay \<and>
     (\<forall>d. en_shutdown_deadline (r_engine s) = Some d \<longrightarrow> clock (r_world s) + delay \<le> INSTANT_MAX \<longrightarrow> t0 + delay \<le> d))"

lemma close_inv_later:
  assumes "close_inv clock t0 delay s" "closing_state e' = closing_state (r_engine s)" "clock (r_world s) \<le> clock w'"
  shows "close_inv clock t0 delay (s\<lparr>r_engine := e', r_world := w'\<rparr>)"
  using assms by (auto simp: close_inv_def closing_state_def)

lemma poll_due_closing: "poll_due_termination io e w = (r, e', w') \<Longrightarrow> closing_state e' = closing_state e"
  by (auto simp: poll_due_termination_def refresh_now_def Let_def split: if_splits option.splits prod.splits)

context transport
begin

lemma flush_closing:
  assumes "timers_ok e" "engine_poll_flush io e w = (r, e', w')"
  shows "closing_state e' = closing_state e \<and> clock w \<le> clock w'"
proof -
  have "drained clock sent e w e' w'" using flush_drains [OF _ assms(2)] assms(1) by (simp add: timers_ok_def)
  then show ?thesis using frames_closing(4) by (auto simp: drained_def)
qed

text \<open>A shutdown poll keeps the bound, and succeeds only when it has passed.\<close>

lemma shutdown_closing:
  assumes "timers_ok (r_engine s)" "engine_poll_shutdown io (r_engine s) (r_world s) = (r, e', w')" "close_inv clock t0 delay s"
  shows "close_inv clock t0 delay (s\<lparr>r_engine := e', r_world := w'\<rparr>) \<and>
    (r = Ready (Inr ()) \<longrightarrow> clock w' + delay \<le> INSTANT_MAX \<longrightarrow> t0 + delay \<le> clock w')"
proof -
  obtain r1 e1 w1 where q: "poll_queue io (r_engine s) (r_world s) = (r1, e1, w1)" by (metis prod_cases3)
  have d: "drained clock sent (r_engine s) (r_world s) e1 w1" using poll_queue_drains [OF _ q] assms(1) by (simp add: timers_ok_def)
  then have c1: "closing_state e1 = closing_state (r_engine s)" "clock (r_world s) \<le> clock w1" and t1: "timers_ok e1"
    using frames_closing(4) drained_timers [OF d assms(1)] by (auto simp: drained_def)
  have i1: "close_inv clock t0 delay (s\<lparr>r_engine := e1, r_world := w1\<rparr>)" by (rule close_inv_later [OF assms(3) c1])
  show ?thesis
  proof (cases "r1 = Ready (Inr ())")
    case False
    then have "(r, e', w') = (r1, e1, w1)" using assms(2) q by (cases r1) (auto simp: engine_poll_shutdown_def split: sum.splits)
    with i1 False show ?thesis by simp
  next
    case True
    obtain e2 w2 where a: "arm_shutdown io e1 w1 = (e2, w2)" by fastforce
    have f: "finish_shutdown io e2 w2 = (r, e', w')" using assms(2) q a True by (simp add: engine_poll_shutdown_def)
    note arm = arm_shutdown_settled [OF a]
    have t2: "timers_ok e2" and w2: "clock w1 \<le> clock w2" using arm t1 by (simp_all add: settled_def)
    note fin = finish_shutdown_settled [OF t2 f]
    have w': "clock w2 \<le> clock w'" using fin by (simp add: settled_def)
    have e2: "en_slow_close e2 = Some delay" using i1 a by (auto simp: close_inv_def arm_shutdown_def activate_def Let_def split: option.splits prod.splits if_splits)
    have bound: "\<exists>d. en_shutdown_deadline e2 = Some d \<and> t0 + delay \<le> d" if room: "clock w2 + delay \<le> INSTANT_MAX"
    proof (cases "en_shutdown_deadline e1")
      case None
      then obtain t where "clock w1 + delay \<le> t" "en_shutdown_deadline e2 = Some t" using arm i1 room by (auto simp: close_inv_def)
      then show ?thesis using i1 by (force simp: close_inv_def)
    next
      case (Some d)
      then show ?thesis using arm i1 room w2 by (auto simp: close_inv_def)
    qed
    have "closing_state e' = closing_state e2" using f
      by (auto simp: finish_shutdown_def Let_def split: option.splits prod.splits if_splits)
    then have e': "en_slow_close e' = Some delay" "en_shutdown_deadline e' = en_shutdown_deadline e2" using e2 by (simp_all add: closing_state_def)
    have "close_inv clock t0 delay (s\<lparr>r_engine := e', r_world := w'\<rparr>)"
      using bound e' i1 w2 w' by (fastforce simp: close_inv_def)
    moreover have "t0 + delay \<le> clock w'" if "r = Ready (Inr ())" "clock w' + delay \<le> INSTANT_MAX"
      using bound fin that w' by fastforce
    ultimately show ?thesis by blast
  qed
qed

lemma close_inv_step:
  assumes "engine_step io s s'" "run_inv sent e0 w0 s" "close_inv clock t0 delay s"
  shows "close_inv clock t0 delay s'"
  using assms(1)
proof (cases rule: engine_step_cases)
  case (step_accept input t1 t2 t3 n e')
  have "loss_inv (en_stream_loss e0) (r_engine s)" using assms(2) by (simp add: run_inv_def Let_def)
  from accept_closing [OF this step_accept(2)] show ?thesis using assms(3) step_accept(1) by (simp add: close_inv_def closing_state_def)
next
  case (step_flush r e' w')
  have "timers_ok (r_engine s)" using assms(2) by (simp add: run_inv_def Let_def)
  from flush_closing [OF this step_flush(2)] show ?thesis using close_inv_later [OF assms(3)] step_flush(1) by simp
next
  case (step_shutdown r e' w')
  have "timers_ok (r_engine s)" using assms(2) by (simp add: run_inv_def Let_def)
  from shutdown_closing [OF this step_shutdown(2) assms(3)] show ?thesis using step_shutdown(1) by simp
next
  case (step_due t e' w')
  have "timers_ok (r_engine s)" using assms(2) by (simp add: run_inv_def Let_def)
  from poll_due_termination_settled [OF this step_due(2)] have "clock (r_world s) \<le> clock w'" by (simp add: settled_def)
  then show ?thesis using close_inv_later [OF assms(3) poll_due_closing [OF step_due(2)]] step_due(1) by simp
qed

lemma close_inv_runs:
  "engine_runs io s s' \<Longrightarrow> run_inv sent e0 w0 s \<Longrightarrow> close_inv clock t0 delay s \<Longrightarrow> close_inv clock t0 delay s'"
  by (induction rule: engine_runs.induct) (auto intro: close_inv_step run_inv_runs)

lemma open_runs_unarmed:
  assumes "open_runs io s s'" "run_inv sent e0 w0 s"
  shows "closing_state (r_engine s') = closing_state (r_engine s)"
  using assms
proof (induction rule: open_runs.induct)
  case (open_accept s s' input t1 t2 t3 n e')
  have "run_inv sent e0 w0 s'" using run_inv_runs [OF open_runs_runs] open_accept by blast
  then have "loss_inv (en_stream_loss e0) (r_engine s')" by (simp add: run_inv_def Let_def)
  from accept_closing [OF this open_accept(2)] open_accept show ?case by simp
next
  case (open_flush s s' r e' w')
  have "run_inv sent e0 w0 s'" using run_inv_runs [OF open_runs_runs] open_flush by blast
  then have "timers_ok (r_engine s')" by (simp add: run_inv_def Let_def)
  from flush_closing [OF this open_flush(2)] open_flush show ?case by simp
next
  case (open_due s s' t e' w')
  then show ?case using poll_due_closing [OF open_due(2)] by simp
qed simp

end

lemma new_engine_unarmed: "new_with_arc_plan plan seed proxy key dir h now = Inr e \<Longrightarrow> en_shutdown_deadline e = None"
  by (auto simp: new_with_arc_plan_def Let_def split: sum.splits)

text \<open>
  C9. Slow close. In every run of an engine whose plan closes slowly, however admissions, flushes, shutdown polls and termination
  polls interleave, a shutdown poll that succeeds has drained the queue and comes at least the configured delay after every
  state before the first shutdown poll: the delay counts from that poll on, and a repeated poll cannot shorten it.
\<close>

theorem slow_close_waits:
  assumes "transport io clock sent" "new_with_arc_plan plan seed proxy key dir h now = Inr e" "en_slow_close e = Some delay"
    and "open_runs io (run_start e w) s" "engine_runs io s s'"
    and "engine_poll_shutdown io (r_engine s') (r_world s') = (Ready (Inr ()), e', w')" "clock w' + delay \<le> INSTANT_MAX"
  shows "clock (r_world s) + delay \<le> clock w' \<and> en_queue e' = [] \<and> sent w' = sent (r_world s') @ queue_bytes (r_engine s')"
proof -
  note start = run_inv_start [OF assms(2), of sent w]
  have inv: "run_inv sent e w s" by (rule transport.run_inv_runs [OF assms(1) open_runs_runs [OF assms(4)] start])
  have "closing_state (r_engine s) = closing_state e"
    using transport.open_runs_unarmed [OF assms(1,4) start] by (simp add: run_start_def)
  then have "close_inv clock (clock (r_world s)) delay s"
    using assms(3) new_engine_unarmed [OF assms(2)] by (simp add: close_inv_def closing_state_def)
  from transport.close_inv_runs [OF assms(1,5) inv this] have close: "close_inv clock (clock (r_world s)) delay s'" .
  have "run_inv sent e w s'" by (rule transport.run_inv_runs [OF assms(1,5) inv])
  then have t: "timers_ok (r_engine s')" by (simp add: run_inv_def Let_def)
  obtain e1 w1 where d: "drained clock sent (r_engine s') (r_world s') e1 w1" "settled clock sent e1 w1 e' w'" "en_queue e' = []"
    using transport.shutdown_drains [OF assms(1) t assms(6)] by blast
  have "en_queue e1 = []" using d(2,3) misc_frame_fields(3) by (auto simp: settled_def)
  then have "queue_bytes e1 = []" by (simp add: queue_bytes_def)
  then have "sent w' = sent (r_world s') @ queue_bytes (r_engine s')"
    using drained_bytes [OF d(1)] d(2) by (simp add: settled_def)
  then show ?thesis using transport.shutdown_closing [OF assms(1) t assms(6) close] assms(7) d(3) by simp
qed

text \<open>A clock that advances to the next timer when nothing else is left to do, as Tokio's paused clock does.\<close>

definition advancing_io :: "instant io" where
  "advancing_io = paused_io\<lparr>io_poll_sleep := (\<lambda>f w. (f \<le> w, max f w))\<rparr>"

interpretation advancing: runtime advancing_io "\<lambda>w. w"
  by unfold_locales (auto simp: advancing_io_def paused_io_def)

definition slow_plan :: fault_plan where
  "slow_plan = \<lparr>plan_faults = [\<lparr>fs_id = ''lag'', fs_probability = Fin F64_ONE, fs_kind = SlowClose \<lparr>sc_delay = 5\<rparr>\<rparr>]\<rparr>"

lemma slow_plan_ok: "plan_ok slow_plan"
  by (simp add: plan_ok_def slow_plan_def MAX_STREAM_FAULTS_def spec_ok_def probability_ok_def in_unit_interval_def less_imp_le
      duration_exceeds_max_def MAX_STREAM_FAULT_DURATION_def NANOS_PER_SEC_def)

lemma slow_engine_new:
  "\<exists>e. new_with_arc_plan slow_plan 7 ''p'' 1 Upstream None 0 = Inr e \<and> en_slow_close e = Some 5 \<and> en_queue e = [] \<and>
    en_shutdown_deadline e = None \<and> en_shutdown_timer e = None"
proof -
  have "plan_validate slow_plan = Inr ()" using slow_plan_ok by (simp add: plan_validate_iff)
  then show ?thesis
    by (simp add: new_with_arc_plan_def compile_plan_def compile_fault_def bernoulli_def compiled_init_def slow_plan_def Let_def not_le)
qed

lemma slow_close_polls:
  assumes "en_slow_close e = Some 5" "en_queue e = []" "en_shutdown_deadline e = None" "en_shutdown_timer e = None"
  shows "\<exists>e1. engine_poll_shutdown (capture_io advancing_io) e (9, []) = (Pending, e1, (14, [])) \<and>
    engine_poll_shutdown (capture_io advancing_io) e1 (14, []) = (Ready (Inr ()), e1, (14, []))"
  using assms by (simp add: engine_poll_shutdown_def poll_queue.simps arm_shutdown_def finish_shutdown_def activate_def timer_poll_def
      advancing_io_def capture_io_def paused_io_def deadline_after_def instant_checked_add_def INSTANT_MAX_def NANOS_PER_SEC_def Let_def)

text \<open>Both polls of a slow close: the first arms the delay and waits, the second succeeds.\<close>

theorem slow_close_waits_witness:
  "\<exists>e e1. new_with_arc_plan slow_plan 7 ''p'' 1 Upstream None 0 = Inr e \<and>
     engine_poll_shutdown (capture_io advancing_io) e (9, []) = (Pending, e1, (14, [])) \<and>
     engine_poll_shutdown (capture_io advancing_io) e1 (14, []) = (Ready (Inr ()), e1, (14, [])) \<and> (9 :: nat) + 5 \<le> 14 \<and> en_queue e1 = []"
proof -
  obtain e where e: "new_with_arc_plan slow_plan 7 ''p'' 1 Upstream None 0 = Inr e" "en_slow_close e = Some 5" "en_queue e = []"
    "en_shutdown_deadline e = None" "en_shutdown_timer e = None" using slow_engine_new by blast
  obtain e1 where p: "engine_poll_shutdown (capture_io advancing_io) e (9, []) = (Pending, e1, (14, []))"
    "engine_poll_shutdown (capture_io advancing_io) e1 (14, []) = (Ready (Inr ()), e1, (14, []))"
    using slow_close_polls [OF e(2-5)] by blast
  let ?s = "run_start e (9 :: instant, [] :: byte list)"
  have "engine_step (capture_io advancing_io) ?s (?s\<lparr>r_engine := e1, r_world := (14, [])\<rparr>)"
    by (rule engine_step.step_shutdown) (simp add: run_start_def p(1))
  from slow_close_waits [OF advancing.capture_transport e(1,2) open_runs.open_refl engine_runs.runs_step [OF engine_runs.runs_refl this], of e1 "(14, [])"]
  have "(9 :: nat) + 5 \<le> 14 \<and> en_queue e1 = []" using p(2) by (simp add: run_start_def INSTANT_MAX_def NANOS_PER_SEC_def)
  then show ?thesis using e(1) p by blast
qed

section \<open>One stream, cut in different ways\<close>

text \<open>
  A writer that offers one byte stream: every write offers a piece, of any length, of what has not been accepted yet. In
  between the engine is polled.
\<close>

inductive writer_runs :: "'w io \<Rightarrow> byte list \<Rightarrow> 'w run \<Rightarrow> 'w run \<Rightarrow> bool" for io data where
  writer_refl: "writer_runs io data s s"
| writer_write: "writer_runs io data s s' \<Longrightarrow> accept (take k (drop (r_accepted s') data)) t1 t2 t3 (r_engine s') = (n, e') \<Longrightarrow>
    writer_runs io data s (s'\<lparr>r_engine := e', r_accepted := r_accepted s' + n,
      r_classified := r_classified s' @ (if blackhole_discarding t3 (r_engine s') then [] else take n (take k (drop (r_accepted s') data)))\<rparr>)"
| writer_poll: "writer_runs io data s s' \<Longrightarrow> engine_step io s' s'' \<Longrightarrow> r_accepted s'' = r_accepted s' \<Longrightarrow>
    r_classified s'' = r_classified s' \<Longrightarrow> writer_runs io data s s''"

lemma writer_runs_runs: "writer_runs io data s s' \<Longrightarrow> engine_runs io s s'"
  by (induction rule: writer_runs.induct) (blast intro: engine_runs.intros engine_step.intros)+

context transport
begin

lemma step_blackhole:
  assumes "engine_step io s s'" "run_inv sent e0 w0 s"
  shows "en_blackhole (r_engine s') = en_blackhole (r_engine s)"
proof -
  have inv: "engine_wf (r_engine s)" "loss_inv (en_stream_loss e0) (r_engine s)" "timers_ok (r_engine s)"
    using assms(2) by (simp_all add: run_inv_def Let_def)
  from assms(1) show ?thesis
  proof (cases rule: engine_step_cases)
    case (step_accept input t1 t2 t3 n e')
    then show ?thesis using accept_contract [OF inv(1,2) step_accept(2)] by (simp add: admitted_def)
  next
    case (step_flush r e' w')
    then have "drained clock sent (r_engine s) (r_world s) e' w'" using flush_drains [OF _ step_flush(2)] inv(3) by (simp add: timers_ok_def)
    then show ?thesis using step_flush(1) drain_frame_fields by (auto simp: drained_def)
  next
    case (step_shutdown r e' w')
    then obtain e1 w1 where "drained clock sent (r_engine s) (r_world s) e1 w1" "settled clock sent e1 w1 e' w'"
      using shutdown_drains [OF inv(3) step_shutdown(2)] by blast
    then show ?thesis using step_shutdown(1) drain_frame_fields misc_frame_fields(9) by (auto simp: drained_def settled_def)
  next
    case (step_due t e' w')
    then show ?thesis using poll_due_termination_settled [OF inv(3) step_due(2)] misc_frame_fields(9) by (auto simp: settled_def)
  qed
qed

lemma writer_runs_classified:
  assumes "writer_runs io data (run_start e w) s" "run_inv sent e w (run_start e w)" "en_blackhole e = None"
  shows "r_classified s = take (r_accepted s) data \<and> en_blackhole (r_engine s) = None"
  using assms(1)
proof (induction "run_start e w" s rule: writer_runs.induct)
  case writer_refl
  then show ?case using assms(3) by (simp add: run_start_def)
next
  case (writer_write s' k t1 t2 t3 n e')
  have inv: "run_inv sent e w s'" using run_inv_runs [OF writer_runs_runs [OF writer_write(1)] assms(2)] .
  then have wf: "engine_wf (r_engine s')" "loss_inv (en_stream_loss e) (r_engine s')" by (simp_all add: run_inv_def Let_def)
  note con = accept_contract [OF wf writer_write(3)]
  have "n \<le> k" "n \<le> length data - r_accepted s'" using con by auto
  then have "take n (take k (drop (r_accepted s') data)) = take n (drop (r_accepted s') data)" by (simp add: min_def)
  then show ?case using con writer_write(2) by (simp add: blackhole_discarding_def take_add admitted_def)
next
  case (writer_poll s' s'')
  have "run_inv sent e w s'" using run_inv_runs [OF writer_runs_runs [OF writer_poll(1)] assms(2)] .
  from step_blackhole [OF writer_poll(3) this] show ?case using writer_poll by simp
qed

lemma writer_runs_owes:
  assumes "new_with_arc_plan plan seed proxy key dir h now = Inr e" "en_blackhole e = None" "writer_runs io data (run_start e w) s"
  shows "sent (r_world s) @ queue_bytes (r_engine s) =
    sent w @ survivors (chunk_dropped (plan_faults plan) (en_stream_loss e)) 0 (take (r_accepted s) data)"
proof -
  note start = run_inv_start [OF assms(1), of sent w]
  have "run_inv sent e w s" by (rule run_inv_runs [OF writer_runs_runs [OF assms(3)] start])
  then show ?thesis using writer_runs_classified [OF assms(3) start assms(2)] new_engine_inv [OF assms(1)]
    by (simp add: run_inv_def Let_def)
qed

end

text \<open>The loss streams of a connection do not depend on when its engine was made.\<close>

lemma stream_loss_of_connection:
  assumes "new_with_arc_plan plan seed proxy key dir h1 now1 = Inr e1" "new_with_arc_plan plan seed proxy key dir h2 now2 = Inr e2"
  shows "en_stream_loss e1 = en_stream_loss e2"
proof -
  have fold: "co_stream_loss (fold (compile_fault seed proxy key dir now1) fs co1) = co_stream_loss (fold (compile_fault seed proxy key dir now2) fs co2)"
    if "co_stream_loss co1 = co_stream_loss co2" for fs co1 co2
    using that
  proof (induction fs arbitrary: co1 co2)
    case (Cons f fs)
    have "co_stream_loss (compile_fault seed proxy key dir now1 f co1) = co_stream_loss (compile_fault seed proxy key dir now2 f co2)"
      using Cons.prems by (simp add: compile_fault_def split_def Let_def)
    then show ?case using Cons.IH by simp
  qed simp
  show ?thesis using assms fold [of compiled_init compiled_init "plan_faults plan"]
    by (auto simp: new_with_arc_plan_def compile_plan_def Let_def split: sum.splits)
qed

lemma survivors_take:
  assumes "m \<le> n"
  shows "\<exists>rest. survivors P 0 (take n xs) = survivors P 0 (take m xs) @ rest \<and> (m = n \<longrightarrow> rest = [])"
proof -
  have "take n xs = take m xs @ take (n - m) (drop m xs)" using assms take_add [of m "n - m" xs] by simp
  then show ?thesis by (cases "m = n") (auto simp: survivors_append)
qed

text \<open>
  C3. Fragmentation independence. Two writers send the same byte stream over the same connection (plan, seed, proxy, key and
  direction, with no active black hole), each cutting it into writes as it likes, at its own times, over its own transport and
  with its own polls in between. Whatever stream loss discards, the fate of a byte depends on its position only: when the first
  writer had \<open>m\<close> bytes accepted and the second \<open>n \<ge> m\<close>, what the first connection has sent and still owes is a prefix of what the second
  has sent and owes, and the same when \<open>m = n\<close>.
\<close>

theorem fragmentation_independent:
  assumes "transport io1 clock1 sent1" "transport io2 clock2 sent2"
    and "new_with_arc_plan plan seed proxy key dir h1 now1 = Inr e1" "new_with_arc_plan plan seed proxy key dir h2 now2 = Inr e2"
    and "en_blackhole e1 = None" "en_blackhole e2 = None" "sent1 w1 = []" "sent2 w2 = []"
    and "writer_runs io1 data (run_start e1 w1) s1" "writer_runs io2 data (run_start e2 w2) s2" "r_accepted s1 \<le> r_accepted s2"
  shows "\<exists>rest. sent2 (r_world s2) @ queue_bytes (r_engine s2) = (sent1 (r_world s1) @ queue_bytes (r_engine s1)) @ rest \<and>
    (r_accepted s1 = r_accepted s2 \<longrightarrow> rest = [])"
  using transport.writer_runs_owes [OF assms(1,3,5,9)] transport.writer_runs_owes [OF assms(2,4,6,10)] assms(7,8)
    stream_loss_of_connection [OF assms(3,4)] survivors_take [OF assms(11)] by simp

definition loss_plan :: fault_plan where
  "loss_plan = \<lparr>plan_faults = [\<lparr>fs_id = ''loss'', fs_probability = Fin F64_ONE,
     fs_kind = StreamLoss \<lparr>loss_rate = Fin F64_ONE, correlation = Fin 0\<rparr>\<rparr>]\<rparr>"

lemma loss_plan_ok: "plan_ok loss_plan"
  by (simp add: plan_ok_def loss_plan_def MAX_STREAM_FAULTS_def spec_ok_def probability_ok_def in_unit_interval_def less_imp_le)

lemma loss_engine_new:
  "\<exists>e rng. new_with_arc_plan loss_plan 7 ''p'' 1 Upstream None 0 = Inr e \<and> en_blackhole e = None \<and> en_queue e = [] \<and>
    en_disconnect e = None \<and> en_remaining_limit e = None \<and> en_termination e = None \<and>
    en_stream_loss e = [Some \<lparr>sl_rng = rng, sl_decided = None, sl_prev_dropped = False\<rparr>] \<and> en_plan e = loss_plan \<and>
    en_stream_loss_offset e = 0 \<and> en_stream_loss_evaluated e = 0"
proof -
  have "plan_validate loss_plan = Inr ()" using loss_plan_ok by (simp add: plan_validate_iff)
  then show ?thesis
    by (simp add: new_with_arc_plan_def compile_plan_def compile_fault_def bernoulli_def compiled_init_def loss_plan_def Let_def not_le)
qed


text \<open>Inside the first chunk, which the plan always drops.\<close>

definition dropping :: "nat \<Rightarrow> direction_engine \<Rightarrow> bool" where
  "dropping off e = (en_plan e = loss_plan \<and> en_blackhole e = None \<and> en_disconnect e = None \<and> en_remaining_limit e = None \<and>
     en_termination e = None \<and> en_queue e = [] \<and> en_stream_loss_offset e = off \<and>
     (\<exists>st. en_stream_loss e = [Some st] \<and> (sl_decided st = Some (0, True) \<or> sl_decided st = None \<and> \<not> sl_prev_dropped st)))"

lemma dropping_decides:
  assumes "dropping off e"
  shows "\<exists>e1. decide_stream_loss_chunk 0 e = (True, e1) \<and> dropping off e1"
  using assms by (auto simp: dropping_def decide_stream_loss_chunk_def loss_plan_def decide_fault_chunk_def loss_probability_def bernoulli_def
      Let_def not_le)

lemma dropping_upd:
  "dropping off (count_segment e) = dropping off e" "dropping off (count_accepted n e) = dropping off e"
  "dropping off (count_discarded n e) = dropping off e" "dropping off (note_loss n e) = dropping off e"
  "dropping off (engage i flags e) = dropping off e" "dropping off e \<Longrightarrow> dropping off (spend_limit n e)"
  by (simp_all add: dropping_def count_segment_def count_accepted_def count_discarded_def note_loss_def spend_limit_def)

lemma dropping_loop:
  assumes "dropping off e" "bs \<noteq> []" "off + length bs \<le> 32768"
  shows "\<exists>e1 tot. loss_loop t bs e lt_zero = (tot, e1) \<and> lt_offset tot = length bs \<and> dropping (off + length bs) e1"
proof -
  obtain e1 where e1: "decide_stream_loss_chunk 0 e = (True, e1)" "dropping off e1" using dropping_decides [OF assms(1)] by blast
  have len: "0 < length bs" using assms(2) by simp
  have "off < 32768" using assms(3) len by linarith
  then have off: "en_stream_loss_offset e = off" "off div STREAM_LOSS_GRAIN_BYTES = 0" "chunk_end 0 = 32768"
    using assms(1) by (simp_all add: dropping_def STREAM_LOSS_GRAIN_BYTES_def chunk_end_def checked_add64_def checked_mul64_def U64_MAX_def)
  have run: "min (32768 - off) (length bs) = length bs" using assms(3) by simp
  have "dropping (off + length bs) (count_segment (advance_offset (length bs) e1))"
    using e1(2) assms(3) by (simp add: dropping_upd) (simp add: dropping_def advance_offset_def sat_add64_def U64_MAX_def)
  moreover obtain b bs' where "bs = b # bs'" using assms(2) by (cases bs) auto
  ultimately show ?thesis using e1(1) off run by (auto simp: Let_def lt_zero_def)
qed

lemma dropping_accept:
  assumes "dropping off e" "bs \<noteq> []" "off + length bs \<le> 32768"
  shows "\<exists>e1. accept bs t1 t2 t3 e = (length bs, e1) \<and> dropping (off + length bs) e1"
proof -
  have quiet: "refresh_sync_terminations t1 e = e" "limit_available e = U64_MAX" "\<not> blackhole_discarding t3 e" "loss_active e"
    using assms(1) by (auto simp: dropping_def refresh_sync_terminations_def refresh_blackhole_def limit_available_def blackhole_discarding_def loss_active_def)
  obtain e1 tot where l: "loss_loop t2 bs e lt_zero = (tot, e1)" "lt_offset tot = length bs" "dropping (off + length bs) e1"
    using dropping_loop [OF assms] by blast
  have "take (min (length bs) U64_MAX) bs = bs" using assms(3) by (simp add: min_def U64_MAX_def)
  then show ?thesis using quiet l assms(2)
    by (auto simp: accept_def accept_with_stream_loss_def Let_def dropping_upd U64_MAX_def simp del: engage.simps)
qed

lemma loss_engine:
  "\<exists>e. new_with_arc_plan loss_plan 7 ''p'' 1 Upstream None 0 = Inr e \<and> dropping 0 e"
  using loss_engine_new by (auto simp: dropping_def)

text \<open>One writer offers three bytes at once, the other two and then the rest; the loss takes them all.\<close>

lemma dropping_write:
  assumes "writer_runs io data (run_start e w) s" "dropping (r_accepted s) (r_engine s)" "r_accepted s < length data" "length data \<le> 32768" "0 < k"
  shows "\<exists>s'. writer_runs io data (run_start e w) s' \<and> r_accepted s' = min (r_accepted s + k) (length data) \<and>
    dropping (r_accepted s') (r_engine s') \<and> r_world s' = r_world s"
proof -
  let ?piece = "take k (drop (r_accepted s) data)"
  have "?piece \<noteq> []" "r_accepted s + length ?piece \<le> 32768" using assms(3-5) by auto
  from dropping_accept [OF assms(2) this] obtain e1 where a: "accept ?piece 0 0 0 (r_engine s) = (length ?piece, e1)"
    "dropping (r_accepted s + length ?piece) e1" by blast
  have "r_accepted s + length ?piece = min (r_accepted s + k) (length data)" using assms(3) by auto
  with a(2) show ?thesis by - (intro exI conjI, rule writer_runs.writer_write [OF assms(1) a(1)], simp_all)
qed

theorem fragmentation_independent_witness:
  "\<exists>e s1 s2 s2'. new_with_arc_plan loss_plan 7 ''p'' 1 Upstream None 0 = Inr e \<and>
     writer_runs (capture_io paused_io) [1, 2, 3] (run_start e (0, [])) s1 \<and>
     writer_runs (capture_io paused_io) [1, 2, 3] (run_start e (4, [])) s2 \<and>
     r_accepted s1 = 3 \<and> r_accepted s2' = 2 \<and> writer_runs (capture_io paused_io) [1, 2, 3] (run_start e (4, [])) s2' \<and> r_accepted s2 = 3 \<and>
     snd (r_world s1) @ queue_bytes (r_engine s1) = [] \<and>
     snd (r_world s2) @ queue_bytes (r_engine s2) = snd (r_world s1) @ queue_bytes (r_engine s1)"
proof -
  obtain e where e: "new_with_arc_plan loss_plan 7 ''p'' 1 Upstream None 0 = Inr e" "dropping 0 e" using loss_engine by blast
  have start: "dropping (r_accepted (run_start e w)) (r_engine (run_start e w))" "r_accepted (run_start e w) = 0" "r_world (run_start e w) = w" for w :: "instant \<times> byte list"
    using e(2) by (simp_all add: run_start_def)
  let ?w = "writer_runs (capture_io paused_io) [1, 2, 3]"
  obtain s1 where s1: "?w (run_start e (0, [])) s1" "r_accepted s1 = 3" "dropping 3 (r_engine s1)" "r_world s1 = (0, [])"
    using dropping_write [OF writer_runs.writer_refl start(1), where data = "[1, 2, 3]" and k = 3 and io = "capture_io paused_io" and w = "(0, [])"] start by (auto simp: numeral_3_eq_3)
  obtain s2' where s2': "?w (run_start e (4, [])) s2'" "r_accepted s2' = 2" "dropping 2 (r_engine s2')" "r_world s2' = (4, [])"
    using dropping_write [OF writer_runs.writer_refl start(1), where data = "[1, 2, 3]" and k = 2 and io = "capture_io paused_io" and w = "(4, [])"] start by (auto simp: numeral_2_eq_2)
  obtain s2 where s2: "?w (run_start e (4, [])) s2" "r_accepted s2 = 3"
    using dropping_write [OF s2'(1), where k = 1] s2' by (auto simp: numeral_3_eq_3)
  have "en_blackhole e = None" using e(2) by (simp add: dropping_def)
  from fragmentation_independent [OF example_transport example_transport e(1,1) this this _ _ s1(1) s2(1)] s1(2) s2(2)
  have "snd (r_world s2) @ queue_bytes (r_engine s2) = snd (r_world s1) @ queue_bytes (r_engine s1)" by auto
  moreover have "snd (r_world s1) @ queue_bytes (r_engine s1) = []" using s1(3,4) by (simp add: dropping_def queue_bytes_def)
  ultimately show ?thesis using e(1) s1(1,2) s2 s2'(1,2) by blast
qed

end
