(* ===== verification/ControlProps.thy ===== *)
theory ControlProps
  imports Control
begin

text \<open>
  The plan operations of the control plane together: publications of both directions, resets and imports,
  the invariant they all keep, and what the fault operations do.
\<close>

section \<open>Publications of both directions\<close>

definition headroom :: "string \<Rightarrow> 'z control_scheme \<Rightarrow> bool" where
  "headroom name c = (\<forall>entry d. map_of (ct_proxies c) name = Some entry \<longrightarrow>
     generation (spec_policy d (mp_spec entry)) < U64_MAX)"

definition committed_both :: "string \<Rightarrow> fault_plan \<Rightarrow> u64 \<Rightarrow> fault_plan \<Rightarrow> u64 \<Rightarrow> 'z control_scheme \<Rightarrow> 'z control_scheme" where
  "committed_both name up uns down dns c =
     (committed name Downstream down dns (committed name Upstream up uns c))\<lparr>ct_generation := (ct_generation c + 1) mod 2 ^ 64\<rparr>"

lemma adjust_spec_twice: "adjust_spec n g (adjust_spec n f c) = adjust_spec n (g \<circ> f) c"
  by (simp add: adjust_spec_def btree_adjust_def comp_def case_prod_unfold cong: if_cong) 

lemma adjust_spec_generation: "adjust_spec n f (c\<lparr>ct_generation := g\<rparr>) = (adjust_spec n f c)\<lparr>ct_generation := g\<rparr>"
  by (simp add: adjust_spec_def)

lemma committed_both_as_adjust:
  "committed_both name up uns down dns c =
     snd (next_generation (adjust_spec name (\<lambda>s. set_mirror Downstream down (set_mirror Upstream up
       (set_policy Downstream (next_policy down dns (spec_policy Downstream s))
         (set_policy Upstream (next_policy up uns (spec_policy Upstream s)) s)))) c))"
proof -
  have eq: "(\<lambda>s. set_mirror Downstream down (set_policy Downstream (next_policy down dns (spec_policy Downstream s)) s)) \<circ>
      (\<lambda>s. set_mirror Upstream up (set_policy Upstream (next_policy up uns (spec_policy Upstream s)) s)) =
    (\<lambda>s. set_mirror Downstream down (set_mirror Upstream up
       (set_policy Downstream (next_policy down dns (spec_policy Downstream s))
         (set_policy Upstream (next_policy up uns (spec_policy Upstream s)) s))))"
    by (simp add: fun_eq_iff set_policy.simps set_mirror.simps spec_policy.simps)
  show ?thesis
    by (simp add: committed_both_def committed_def next_generation_def Let_def adjust_spec_generation adjust_spec_twice
        flip: eq)
qed


lemma committed_both_ok:
  assumes "control_ok c" "committable name Upstream up c" "committable name Downstream down c"
  shows "control_ok (committed_both name up uns down dns c)"
proof -
  have "committable name Downstream down (committed name Upstream up uns c)"
    using assms(3) by (auto simp: committable_def committed_lookup)
  then have "control_ok (committed name Downstream down dns (committed name Upstream up uns c))"
    using assms(1,2) by (intro committed_ok)
  then show ?thesis by (simp add: committed_both_def control_ok_def)
qed

lemma both_adjusted:
  assumes "control_ok c" "map_of (ct_proxies c) name = Some entry"
    "up_n = next_policy up uns (spec_policy Upstream (mp_spec entry))"
    "down_n = next_policy down dns (spec_policy Downstream (mp_spec entry))"
  shows "snd (next_generation (adjust_spec name (set_mirror Downstream (pub_plan down_n) \<circ> set_mirror Upstream (pub_plan up_n) \<circ>
      set_policy Downstream down_n) (adjust_spec name (set_policy Upstream up_n) c))) = committed_both name up uns down dns c"
  unfolding adjust_spec_twice committed_both_as_adjust
  by (rule arg_cong [of _ _ "\<lambda>c. snd (next_generation c)"], rule adjust_spec_cong [OF assms(1,2)])
    (simp add: assms(3,4) next_policy_def)

lemma publish_plans_edits:
  assumes "control_ok c" "headroom name c" "publish_plans name up down c = (res, c')"
  shows "(\<exists>e. res = Inl e \<and> c' = c) \<or>
    (\<exists>entry. map_of (ct_proxies c) name = Some entry \<and>
     res = Inr ((ct_generation c + 1) mod 2 ^ 64) \<and> committable name Upstream up c \<and> committable name Downstream down c \<and>
     c' = committed_both name up (seed_namespace (spec_policy Upstream (mp_spec entry)))
       down (seed_namespace (spec_policy Downstream (mp_spec entry))) c)"
proof (cases "plan_validate up = Inr () \<and> plan_validate down = Inr () \<and> (\<exists>entry. map_of (ct_proxies c) name = Some entry)")
  case True
  then obtain entry where e: "map_of (ct_proxies c) name = Some entry"
    and ok: "plan_ok up" "plan_ok down" by (auto simp: plan_validate_iff)
  have lt: "generation (spec_policy d (mp_spec entry)) < U64_MAX" for d using assms(2) e by (simp add: headroom_def)
  let ?up = "spec_policy Upstream (mp_spec entry)" and ?down = "spec_policy Downstream (mp_spec entry)"
  have pubs: "publish up (seed_namespace ?up) ?up = (Inr (next_policy up (seed_namespace ?up) ?up), next_policy up (seed_namespace ?up) ?up)"
    "publish down (seed_namespace ?down) ?down = (Inr (next_policy down (seed_namespace ?down) ?down), next_policy down (seed_namespace ?down) ?down)"
    using True lt [of Upstream] lt [of Downstream] by (simp_all add: publish_def)
  have "(res, c') = (Inr ((ct_generation c + 1) mod 2 ^ 64),
      committed_both name up (seed_namespace ?up) down (seed_namespace ?down) c)"
    using assms(3) True e pubs both_adjusted [OF assms(1) e refl refl, where up = up and uns = "seed_namespace ?up" and down = down and dns = "seed_namespace ?down"]
    by (simp add: publish_plans_def case_prod_unfold Let_def spec_policy_other)
  then show ?thesis using e ok lt by (auto simp: committable_def)
next
  case False
  then have "\<exists>e. publish_plans name up down c = (Inl e, c)"
    by (auto simp: publish_plans_def split: sum.split option.split)
  then show ?thesis using assms(3) by auto
qed

lemma publish_plans_expected_edits:
  assumes "control_ok c" "headroom name c" "plan_ok (xp_upstream x)" "plan_ok (xp_downstream x)"
    "publish_plans_expected name x c = (res, c')"
  shows "(\<exists>e. res = Inl e \<and> c' = c) \<or>
    (\<exists>entry. map_of (ct_proxies c) name = Some entry \<and>
     generation (spec_policy Upstream (mp_spec entry)) = xp_expected_upstream x \<and>
     generation (spec_policy Downstream (mp_spec entry)) = xp_expected_downstream x \<and>
     res = Inr ((ct_generation c + 1) mod 2 ^ 64, Suc (xp_expected_upstream x), Suc (xp_expected_downstream x)) \<and>
     committable name Upstream (xp_upstream x) c \<and> committable name Downstream (xp_downstream x) c \<and>
     c' = committed_both name (xp_upstream x) (xp_upstream_seed x) (xp_downstream x) (xp_downstream_seed x) c)"
proof (cases "\<exists>entry. map_of (ct_proxies c) name = Some entry \<and>
     generation (spec_policy Upstream (mp_spec entry)) = xp_expected_upstream x \<and>
     generation (spec_policy Downstream (mp_spec entry)) = xp_expected_downstream x")
  case True
  then obtain entry where e: "map_of (ct_proxies c) name = Some entry"
    "generation (spec_policy Upstream (mp_spec entry)) = xp_expected_upstream x"
    "generation (spec_policy Downstream (mp_spec entry)) = xp_expected_downstream x" by blast
  have lt: "generation (spec_policy d (mp_spec entry)) < U64_MAX" for d using assms(2) e(1) by (simp add: headroom_def)
  let ?up = "spec_policy Upstream (mp_spec entry)" and ?down = "spec_policy Downstream (mp_spec entry)"
  let ?un = "next_policy (xp_upstream x) (xp_upstream_seed x) ?up" and ?dn = "next_policy (xp_downstream x) (xp_downstream_seed x) ?down"
  have pubs: "publish_expected (xp_upstream x) (xp_upstream_seed x) (xp_expected_upstream x) ?up = (Inr ?un, ?un)"
    "publish_expected (xp_downstream x) (xp_downstream_seed x) (xp_expected_downstream x) ?down = (Inr ?dn, ?dn)"
    using e assms(3,4) lt [of Upstream] lt [of Downstream] by (simp_all add: publish_expected_def flip: plan_validate_iff)
  have gens: "generation ?un = Suc (xp_expected_upstream x)" "generation ?dn = Suc (xp_expected_downstream x)"
    using e(2,3) lt [of Upstream] lt [of Downstream] by (simp_all add: next_policy_def sat_add64_def)
  have "(res, c') = (Inr ((ct_generation c + 1) mod 2 ^ 64, Suc (xp_expected_upstream x), Suc (xp_expected_downstream x)),
      committed_both name (xp_upstream x) (xp_upstream_seed x) (xp_downstream x) (xp_downstream_seed x) c)"
    using assms(5) e pubs gens both_adjusted [OF assms(1) e(1) refl refl, where up = "xp_upstream x" and uns = "xp_upstream_seed x" and down = "xp_downstream x" and dns = "xp_downstream_seed x"]
    by (simp add: publish_plans_expected_def case_prod_unfold Let_def spec_policy_other)
  moreover have "committable name Upstream (xp_upstream x) c" "committable name Downstream (xp_downstream x) c"
    using e(1) assms(3,4) lt by (simp_all add: committable_def)
  ultimately show ?thesis using e by simp
next
  case False
  then have "\<exists>e. publish_plans_expected name x c = (Inl e, c)"
    by (auto simp: publish_plans_expected_def Let_def spec_policy_other split: option.split)
  then show ?thesis using assms(5) by auto
qed


section \<open>Imports and resets\<close>

lemma live_policy_new_ok: "plan_ok plan \<Longrightarrow> live_policy_new plan ns = Some \<lparr>generation = 1, pub_plan = plan, seed_namespace = ns\<rparr>"
  by (simp add: live_policy_new_def flip: plan_validate_iff)

lemma proxy_spec_validate_plans: "proxy_spec_validate s = Inr () \<Longrightarrow> plan_ok (ps_upstream_faults s) \<and> plan_ok (ps_downstream_faults s)"
  by (auto simp: proxy_spec_validate_def plan_validate_iff [symmetric] split: if_splits sum.splits)

lemma init_policies_synced:
  assumes "plan_ok (ps_upstream_faults s)" "plan_ok (ps_downstream_faults s)"
  shows "\<exists>s'. init_policies seed s = Some s' \<and> spec_synced s' \<and> ps_name s' = ps_name s \<and>
    (\<forall>d. generation (spec_policy d s') = 1 \<and> pub_plan (spec_policy d s') = spec_mirror d s \<and>
       seed_namespace (spec_policy d s') = seed XOR ps_seed s)"
proof -
  let ?s' = "s\<lparr>ps_upstream_policy := \<lparr>generation = 1, pub_plan = ps_upstream_faults s, seed_namespace = seed XOR ps_seed s\<rparr>,
      ps_downstream_policy := \<lparr>generation = 1, pub_plan = ps_downstream_faults s, seed_namespace = seed XOR ps_seed s\<rparr>\<rparr>"
  have "init_policies seed s = Some ?s'" using assms by (simp add: init_policies_def live_policy_new_ok Let_def)
  moreover have "\<forall>d. spec_mirror d ?s' = spec_mirror d s \<and> plan_ok (spec_mirror d s) \<and>
      generation (spec_policy d ?s') = 1 \<and> pub_plan (spec_policy d ?s') = spec_mirror d s \<and>
      seed_namespace (spec_policy d ?s') = seed XOR ps_seed s"
    using assms by (intro allI, case_tac d) (simp_all add: spec_policy.simps spec_mirror.simps)
  moreover have "ps_name ?s' = ps_name s" by simp
  ultimately obtain s' where s': "init_policies seed s = Some s'" "ps_name s' = ps_name s"
    "\<forall>d. spec_mirror d s' = spec_mirror d s \<and> plan_ok (spec_mirror d s) \<and> generation (spec_policy d s') = 1 \<and>
      pub_plan (spec_policy d s') = spec_mirror d s \<and> seed_namespace (spec_policy d s') = seed XOR ps_seed s" by blast
  have "(1 :: nat) \<le> U64_MAX" by (simp add: U64_MAX_def)
  then have "spec_synced s'" using s'(3) by (simp add: spec_synced_def)
  then show ?thesis using s' by blast
qed

lemma insert_stopped_lookup:
  "btree_valid (ct_proxies c) \<Longrightarrow> map_of (ct_proxies (insert_stopped s c)) k =
     (if k = ps_name s then Some (new_entry s False None (ct_fresh c)) else map_of (ct_proxies c) k)"
  by (simp add: insert_stopped_def map_of_btree_insert)

lemma insert_stopped_ok:
  assumes "control_ok c" "spec_synced s"
  shows "control_ok (insert_stopped s c)"
proof -
  have v: "btree_valid (ct_proxies c)" using assms(1) by (simp add: control_ok_def)
  then have "btree_valid (ct_proxies (insert_stopped s c))" by (simp add: insert_stopped_def btree_insert_valid)
  then show ?thesis using assms by (auto simp: control_ok_def insert_stopped_lookup [OF v] new_entry_def split: if_splits)
qed

lemma import_definition_cases:
  assumes "control_ok c"
  shows "(\<exists>e. import_definition s c = Some (Inl e, c)) \<or>
    (\<exists>s'. proxy_spec_validate s = Inr () \<and> map_of (ct_proxies c) (ps_name s) = None \<and>
      ps_name s' = ps_name s \<and> spec_synced s' \<and> (\<forall>d. generation (spec_policy d s') = 1) \<and>
      import_definition s c = Some (Inr ((ct_generation c + 1) mod 2 ^ 64), snd (next_generation (insert_stopped s' c))))"
proof (cases "proxy_spec_validate s")
  case (Inl e)
  then show ?thesis by (simp add: import_definition_def)
next
  case (Inr u)
  then have "plan_ok (ps_upstream_faults s)" "plan_ok (ps_downstream_faults s)" using proxy_spec_validate_plans by auto
  from init_policies_synced [OF this, of "ct_seed c"] obtain s' where s': "init_policies (ct_seed c) s = Some s'"
    "spec_synced s'" "ps_name s' = ps_name s" "\<forall>d. generation (spec_policy d s') = 1" by blast
  have "ct_generation (insert_stopped s' c) = ct_generation c" by (simp add: insert_stopped_def)
  then show ?thesis using Inr s' by (auto simp: import_definition_def case_prod_unfold Let_def)
qed

lemma reset_direction_synced:
  assumes "spec_synced s"
  shows "spec_synced (reset_direction d s) \<and> ps_name (reset_direction d s) = ps_name s \<and>
    (\<forall>d'. generation (spec_policy d' s) \<le> generation (spec_policy d' (reset_direction d s)) \<and>
      generation (spec_policy d' (reset_direction d s)) \<le> generation (spec_policy d' s) + (if d' = d then 1 else 0))"
proof -
  obtain r p where pub: "publish empty_plan (seed_namespace (spec_policy d s)) (spec_policy d s) = (r, p)" by fastforce
  from publish_cases [OF pub] assms show ?thesis
    by (auto simp: pub spec_synced_def next_policy_def sat_add64_def)
qed

lemma reset_spec_synced:
  assumes "spec_synced s"
  shows "spec_synced (reset_spec s) \<and> ps_name (reset_spec s) = ps_name s \<and>
    (\<forall>d. generation (spec_policy d (reset_spec s)) \<le> Suc (generation (spec_policy d s)) \<and>
      generation (spec_policy d s) \<le> generation (spec_policy d (reset_spec s)))"
proof -
  have same: "spec_policy d (s\<lparr>ps_enabled := True\<rparr>) = spec_policy d s" "spec_mirror d (s\<lparr>ps_enabled := True\<rparr>) = spec_mirror d s" for d
    by (cases d; simp add: spec_policy.simps spec_mirror.simps)+
  then have s0: "spec_synced (s\<lparr>ps_enabled := True\<rparr>)" using assms by (simp add: spec_synced_def)
  note up = reset_direction_synced [OF s0, of Upstream]
  note down = reset_direction_synced [OF conjunct1 [OF up], of Downstream]
  have "generation (spec_policy d (reset_spec s)) \<le> Suc (generation (spec_policy d s)) \<and>
      generation (spec_policy d s) \<le> generation (spec_policy d (reset_spec s))" for d
    using conjunct2 [OF conjunct2 [OF up], rule_format, of d] conjunct2 [OF conjunct2 [OF down], rule_format, of d]
    unfolding reset_spec_def same by (cases d) auto
  then show ?thesis using up down unfolding reset_spec_def by simp
qed


section \<open>Sequences of operations\<close>

datatype plan_op =
    OpAdd string fault_upsert
  | OpUpdate string string fault_patch
  | OpRemove string string
  | OpPublish string fault_plan fault_plan
  | OpPublishExpected string expected_publish
  | OpPublishDirection string direction fault_plan u64 nat
  | OpImport proxy_spec
  | OpReset

fun control_apply :: "plan_op \<Rightarrow> 'z control_scheme \<Rightarrow> 'z control_scheme" where
  "control_apply (OpAdd proxy upsert) c = snd (add_fault proxy upsert c)"
| "control_apply (OpUpdate proxy i patch) c = snd (update_fault proxy i patch c)"
| "control_apply (OpRemove proxy i) c = snd (remove_fault proxy i c)"
| "control_apply (OpPublish name up down) c = snd (publish_plans name up down c)"
| "control_apply (OpPublishExpected name x) c = snd (publish_plans_expected name x c)"
| "control_apply (OpPublishDirection name dir plan ns expected) c =
     snd (publish_direction_expected name dir plan ns expected c)"
| "control_apply (OpImport s) c = (case import_definition s c of Some (_, c') \<Rightarrow> c' | None \<Rightarrow> c)"
| "control_apply OpReset c = reset_plans c"

text \<open>Values of the type \<^verbatim>\<open>FaultPlan\<close> are valid plans; only this operation does not check its plans first.\<close>

fun op_plans_ok :: "plan_op \<Rightarrow> bool" where
  "op_plans_ok (OpPublishExpected name x) = (plan_ok (xp_upstream x) \<and> plan_ok (xp_downstream x))"
| "op_plans_ok _ = True"

text \<open>Every policy sits between generation 1 and \<open>n\<close>.\<close>

definition generations_within :: "nat \<Rightarrow> 'z control_scheme \<Rightarrow> bool" where
  "generations_within n c = (\<forall>name entry d. map_of (ct_proxies c) name = Some entry \<longrightarrow>
     1 \<le> generation (spec_policy d (mp_spec entry)) \<and> generation (spec_policy d (mp_spec entry)) \<le> n)"

lemma generations_within_mono: "generations_within n c \<Longrightarrow> n \<le> m \<Longrightarrow> generations_within m c"
  unfolding generations_within_def by (meson le_trans)

lemma generations_within_step:
  assumes "generations_within n c" "\<And>name entry' d. map_of (ct_proxies c') name = Some entry' \<Longrightarrow>
    \<exists>entry. map_of (ct_proxies c) name = Some entry \<and>
      generation (spec_policy d (mp_spec entry)) \<le> generation (spec_policy d (mp_spec entry')) \<and>
      generation (spec_policy d (mp_spec entry')) \<le> Suc (generation (spec_policy d (mp_spec entry)))"
  shows "generations_within (Suc n) c'"
proof -
  have "1 \<le> generation (spec_policy d (mp_spec entry')) \<and> generation (spec_policy d (mp_spec entry')) \<le> Suc n"
    if look: "map_of (ct_proxies c') name = Some entry'" for name entry' d
  proof -
    obtain entry where e: "map_of (ct_proxies c) name = Some entry"
      "generation (spec_policy d (mp_spec entry)) \<le> generation (spec_policy d (mp_spec entry'))"
      "generation (spec_policy d (mp_spec entry')) \<le> Suc (generation (spec_policy d (mp_spec entry)))"
      using assms(2) [OF look] by blast
    moreover have "1 \<le> generation (spec_policy d (mp_spec entry))" "generation (spec_policy d (mp_spec entry)) \<le> n"
      using assms(1) e(1) unfolding generations_within_def by blast+
    ultimately show ?thesis by linarith
  qed
  then show ?thesis unfolding generations_within_def by blast
qed

lemma committed_both_generations:
  assumes "map_of (ct_proxies (committed_both name up uns down dns c)) k = Some entry'"
    "committable name Upstream up c" "committable name Downstream down c"
  shows "\<exists>entry. map_of (ct_proxies c) k = Some entry \<and>
      generation (spec_policy d (mp_spec entry)) \<le> generation (spec_policy d (mp_spec entry')) \<and>
      generation (spec_policy d (mp_spec entry')) \<le> Suc (generation (spec_policy d (mp_spec entry)))"
  using assms
  by (cases d) (auto simp: committed_both_def committed_lookup committable_def next_policy_def sat_add64_def split: if_splits)

lemma map_of_map_entries: "map_of (map (\<lambda>(k, v). (k, f v)) m) k = map_option f (map_of m k)"
  by (induction m) auto

lemma control_apply_ok:
  assumes "control_ok c" "generations_within n c" "n < U64_MAX" "op_plans_ok op"
  shows "control_ok (control_apply op c) \<and> generations_within (Suc n) (control_apply op c)"
proof -
  have room: "headroom name c" for name
    using assms(2,3) unfolding headroom_def generations_within_def by (meson le_less_trans)
  have keep: "generations_within (Suc n) c" using generations_within_mono assms(2) by (metis le_SucI le_refl)
  show ?thesis
  proof (cases op)
    case (OpAdd proxy upsert)
    then show ?thesis using add.edit_ok [OF assms(1) surjective_pairing, of proxy upsert]
        generations_within_step [OF assms(2) add.edit_generations [OF assms(1) surjective_pairing, of proxy upsert]] by simp
  next
    case (OpUpdate proxy i patch)
    then show ?thesis using update.edit_ok [OF assms(1) surjective_pairing, of proxy i patch]
        generations_within_step [OF assms(2) update.edit_generations [OF assms(1) surjective_pairing, of proxy i patch]] by simp
  next
    case (OpRemove proxy i)
    then show ?thesis using remove.edit_ok [OF assms(1) surjective_pairing, of proxy i]
        generations_within_step [OF assms(2) remove.edit_generations [OF assms(1) surjective_pairing, of proxy i]] by simp
  next
    case (OpPublishDirection name dir plan ns expected)
    then show ?thesis using publish_dir.edit_ok [OF assms(1) surjective_pairing, of name dir plan ns expected]
        generations_within_step [OF assms(2) publish_dir.edit_generations [OF assms(1) surjective_pairing, of name dir plan ns expected]]
      by simp
  next
    case (OpPublish name up down)
    from publish_plans_edits [OF assms(1) room surjective_pairing, of name up down]
    show ?thesis
    proof
      assume "\<exists>e. fst (publish_plans name up down c) = Inl e \<and> snd (publish_plans name up down c) = c"
      then show ?thesis using OpPublish assms(1) keep by auto
    next
      assume "\<exists>entry. map_of (ct_proxies c) name = Some entry \<and>
        fst (publish_plans name up down c) = Inr ((ct_generation c + 1) mod 2 ^ 64) \<and>
        committable name Upstream up c \<and> committable name Downstream down c \<and>
        snd (publish_plans name up down c) = committed_both name up (seed_namespace (spec_policy Upstream (mp_spec entry)))
          down (seed_namespace (spec_policy Downstream (mp_spec entry))) c"
      then show ?thesis using OpPublish committed_both_ok [OF assms(1)] generations_within_step [OF assms(2)]
          committed_both_generations by (metis (no_types, lifting) control_apply.simps(4))
    qed
  next
    case (OpPublishExpected name x)
    then have plans: "plan_ok (xp_upstream x)" "plan_ok (xp_downstream x)" using assms(4) by auto
    from publish_plans_expected_edits [OF assms(1) room plans surjective_pairing, of name]
    show ?thesis using OpPublishExpected assms(1) keep committed_both_ok [OF assms(1)] generations_within_step [OF assms(2)]
        committed_both_generations by (metis (no_types, lifting) control_apply.simps(5))
  next
    case (OpImport s)
    from import_definition_cases [OF assms(1), of s] show ?thesis
    proof
      assume "\<exists>e. import_definition s c = Some (Inl e, c)"
      then show ?thesis using OpImport assms(1) keep by auto
    next
      assume "\<exists>s'. proxy_spec_validate s = Inr () \<and> map_of (ct_proxies c) (ps_name s) = None \<and>
        ps_name s' = ps_name s \<and> spec_synced s' \<and> (\<forall>d. generation (spec_policy d s') = 1) \<and>
        import_definition s c = Some (Inr ((ct_generation c + 1) mod 2 ^ 64), snd (next_generation (insert_stopped s' c)))"
      then obtain s' where s': "ps_name s' = ps_name s" "spec_synced s'" "\<forall>d. generation (spec_policy d s') = 1"
        "control_apply op c = snd (next_generation (insert_stopped s' c))" using OpImport by auto
      have v: "btree_valid (ct_proxies c)" using assms(1) by (simp add: control_ok_def)
      have "control_ok (control_apply op c)" using insert_stopped_ok [OF assms(1) s'(2)] s'(4) by (simp add: control_ok_def)
      moreover have "generations_within (Suc n) (control_apply op c)" using keep s'(3,4)
        by (auto simp: generations_within_def insert_stopped_lookup [OF v] new_entry_def split: if_splits)
      ultimately show ?thesis ..
    qed
  next
    case OpReset
    have look: "map_of (ct_proxies (reset_plans c)) k =
        map_option (\<lambda>entry. entry\<lparr>mp_spec := reset_spec (mp_spec entry)\<rparr>) (map_of (ct_proxies c) k)" for k
      by (simp add: reset_plans_def map_of_map_entries)
    have "map fst (ct_proxies (reset_plans c)) = map fst (ct_proxies c)"
      by (simp add: reset_plans_def comp_def case_prod_unfold)
    then have "btree_valid (ct_proxies (reset_plans c))" using assms(1) by (simp add: control_ok_def btree_valid_def)
    then have "control_ok (reset_plans c)" using assms(1) reset_spec_synced by (auto simp: control_ok_def look)
    moreover have "generations_within (Suc n) (reset_plans c)"
      by (rule generations_within_step [OF assms(2)])
        (use assms(1) reset_spec_synced in \<open>fastforce simp: control_ok_def look\<close>)
    ultimately show ?thesis using OpReset by simp
  qed
qed

lemma control_run_ok:
  assumes "control_ok c" "generations_within n c" "n + length ops \<le> U64_MAX" "list_all op_plans_ok ops"
  shows "control_ok (fold control_apply ops c) \<and> generations_within (n + length ops) (fold control_apply ops c)"
  using assms
proof (induction ops arbitrary: c n)
  case (Cons op ops)
  then have "control_ok (control_apply op c) \<and> generations_within (Suc n) (control_apply op c)"
    using control_apply_ok [of c n op] by simp
  then show ?case using Cons.IH [of "control_apply op c" "Suc n"] Cons.prems by simp
qed simp


lemma control_default_ok: "control_ok (control_default seed)" "generations_within 1 (control_default seed)"
  by (simp_all add: control_ok_def generations_within_def control_default_def btree_valid_def)

section \<open>Properties\<close>

text \<open>
  C10. Canonical and live plans never diverge: after any sequence of imports, fault edits, publications and
  resets, each definition is stored under its own name, the mirror of each direction is the plan of its
  live policy, that plan is valid, and its generation counts at most one publication per operation.
\<close>

theorem plans_mirrored:
  assumes "list_all op_plans_ok ops" "length ops < U64_MAX"
    "map_of (ct_proxies (fold control_apply ops (control_default seed))) name = Some entry"
  shows "ps_name (mp_spec entry) = name \<and>
    (\<forall>dir. spec_mirror dir (mp_spec entry) = pub_plan (spec_policy dir (mp_spec entry)) \<and>
       plan_ok (pub_plan (spec_policy dir (mp_spec entry))) \<and>
       1 \<le> generation (spec_policy dir (mp_spec entry)) \<and> generation (spec_policy dir (mp_spec entry)) \<le> 1 + length ops)"
proof -
  have "1 + length ops \<le> U64_MAX" using assms(2) by simp
  from control_run_ok [OF control_default_ok this assms(1)] assms(3)
  show ?thesis unfolding control_ok_def spec_synced_def generations_within_def by blast
qed

definition example_proxy :: proxy_spec where
  "example_proxy =
     \<lparr>ps_name = ''db'', ps_listen = SocketV4 2130706433 0, ps_upstream = SocketV4 167772161 5432,
      ps_upstream_faults = empty_plan, ps_downstream_faults = empty_plan,
      ps_upstream_policy = \<lparr>generation = 1, pub_plan = empty_plan, seed_namespace = 0\<rparr>,
      ps_downstream_policy = \<lparr>generation = 1, pub_plan = empty_plan, seed_namespace = 0\<rparr>,
      ps_enabled = True, ps_max_connections = None, ps_connect_timeout = 5000000000, ps_seed = 3\<rparr>"

definition example_upsert :: "direction \<Rightarrow> fault_upsert" where
  "example_upsert dir =
     \<lparr>fu_direction = dir, fu_id = ''slow'', fu_probability = Fin F64_ONE, fu_kind = fs_kind (example_latency ''slow'')\<rparr>"

lemma example_proxy_valid: "proxy_spec_validate example_proxy = Inr ()"
proof -
  have ok: "plan_validate empty_plan = Inr ()" by (simp add: plan_validate_iff)
  have "list_all name_byte_ok ''db''" by (simp add: name_byte_ok_def)
  moreover have "\<not> forbidden_target (SocketV4 167772161 5432)" "\<not> forbidden_listener (SocketV4 2130706433 0)"
    by (simp_all add: v4_is_multicast_def v4_is_broadcast_def)
  ultimately show ?thesis by (simp add: proxy_spec_validate_def example_proxy_def ok MAX_CONTROL_TIMEOUT_MS_def)
qed

definition example_live :: proxy_spec where
  "example_live = example_proxy\<lparr>
     ps_upstream_policy := \<lparr>generation = 1, pub_plan = empty_plan, seed_namespace = 6\<rparr>,
     ps_downstream_policy := \<lparr>generation = 1, pub_plan = empty_plan, seed_namespace = 6\<rparr>\<rparr>"

lemma example_live_simps [simp]: "ps_name example_live = ''db''"
    "spec_policy d example_live = \<lparr>generation = 1, pub_plan = empty_plan, seed_namespace = 6\<rparr>"
    "spec_mirror d example_live = empty_plan"
  by (cases d; simp add: example_live_def example_proxy_def spec_policy.simps spec_mirror.simps)+

text \<open>The state after importing the example.\<close>

definition example_imported :: control where
  "example_imported = \<lparr>ct_seed = 5, ct_proxies = [(''db'', new_entry example_live False None 1)], ct_generation = 2, ct_fresh = 5\<rparr>"

lemma example_import: "control_apply (OpImport example_proxy) (control_default 5) = example_imported"
proof -
  have "(5 :: u64) XOR 3 = 6" by simp
  then have "init_policies 5 example_proxy = Some example_live"
    by (simp add: init_policies_def live_policy_new_ok example_proxy_def example_live_def)
  then show ?thesis
    by (simp add: import_definition_def example_proxy_valid control_default_def insert_stopped_def next_generation_def Let_def
        example_imported_def)
qed

lemma example_imported_ok: "control_ok example_imported"
  by (auto simp: control_ok_def example_imported_def btree_valid_def new_entry_def spec_synced_def U64_MAX_def split: if_splits)

lemma example_upsert_spec: "build_fault_spec (example_upsert dir) = Inr (example_latency ''slow'')"
  using example_latency_ok(2) [of "''slow''"]
  by (simp add: build_fault_spec_def example_upsert_def fault_id_new_def probability_new_def probability_ok_def example_latency_def)

lemma example_added: "fst (add_fault ''db'' (example_upsert dir) example_imported) = Inr (dir, example_latency ''slow'', 3)"
proof -
  have new: "fault_plan_new [example_latency ''slow''] = Inr \<lparr>plan_faults = [example_latency ''slow'']\<rparr>"
    by (simp add: fault_plan_new_iff MAX_STREAM_FAULTS_def)
  have ok: "plan_validate \<lparr>plan_faults = [example_latency ''slow'']\<rparr> = Inr ()"
    by (simp add: plan_validate_iff plan_ok_def MAX_STREAM_FAULTS_def)
  have dir: "fu_direction (example_upsert dir) = dir" by (simp add: example_upsert_def)
  show ?thesis using new ok
    by (simp add: add_fault_def example_upsert_spec dir example_imported_def new_entry_def Let_def empty_plan_def plan_get_def
        publish_and_mirror_def publish_def U64_MAX_def next_generation_def adjust_spec_def)
qed

theorem plans_mirrored_witness:
  "let c = fold control_apply [OpImport example_proxy, OpAdd ''db'' (example_upsert Upstream), OpReset] (control_default 5) in
     \<exists>entry. map_of (ct_proxies c) ''db'' = Some entry \<and>
       (\<forall>dir. spec_mirror dir (mp_spec entry) = pub_plan (spec_policy dir (mp_spec entry)) \<and>
          generation (spec_policy dir (mp_spec entry)) \<le> 4)"
proof -
  let ?ops = "[OpImport example_proxy, OpAdd ''db'' (example_upsert Upstream), OpReset]"
  have "map_of (ct_proxies (snd (add_fault ''db'' (example_upsert Upstream) example_imported))) ''db'' \<noteq> None"
    using add_fault_edits [OF example_imported_ok surjective_pairing, of "''db''" "example_upsert Upstream"]
    by (auto simp: example_imported_def committed_lookup)
  then have "map_of (ct_proxies (fold control_apply ?ops (control_default 5))) ''db'' \<noteq> None"
    by (simp add: example_import reset_plans_def map_of_map_entries del: control_apply.simps(7))
  then obtain entry where e: "map_of (ct_proxies (fold control_apply ?ops (control_default 5))) ''db'' = Some entry" by blast
  have "list_all op_plans_ok ?ops" "length ?ops < U64_MAX" by (simp_all add: U64_MAX_def)
  note law = plans_mirrored [OF this e]
  have "1 + length ?ops = 4" by simp
  then show ?thesis unfolding Let_def using law e by metis
qed

lemma update_fault_edits:
  assumes "control_ok c" "update_fault proxy i patch c = (res, c')"
  shows "(\<exists>e. res = Inl e \<and> c' = c) \<or>
    (\<exists>dir entry old spec. res = Inr (dir, spec, (ct_generation c + 1) mod 2 ^ 64) \<and> map_of (ct_proxies c) proxy = Some entry \<and>
       (let base = spec_policy dir (mp_spec entry);
            plan = \<lparr>plan_faults = replace_first spec (plan_faults (pub_plan base))\<rparr> in
        plan_get (pub_plan base) i = Some old \<and>
        spec = old\<lparr>fs_probability := (case fp_probability patch of None \<Rightarrow> fs_probability old | Some p \<Rightarrow> p),
                   fs_kind := (case fp_kind patch of None \<Rightarrow> fs_kind old | Some k \<Rightarrow> k)\<rparr> \<and>
        plan_ok plan \<and> c' = committed proxy dir plan (seed_namespace base) c))"
proof (cases "map_of (ct_proxies c) proxy")
  case None
  then show ?thesis using assms(2) by (auto simp: update_fault_def split: if_splits)
next
  case (Some entry)
  then consider "\<exists>e. res = Inl e \<and> c' = c" | "update_fault_in [Upstream, Downstream] proxy entry i patch c = (res, c')"
    using assms(2) by (auto simp: update_fault_def simp del: update_fault_in.simps split: if_splits)
  then show ?thesis
  proof cases
    case 2
    from update_fault_in_edits [OF assms(1) Some 2] show ?thesis
    proof (elim disjE exE conjE)
      fix dir spec old plan
      assume *: "plan_get (pub_plan (spec_policy dir (mp_spec entry))) i = Some old"
        "spec = \<lparr>fs_id = fs_id old, fs_probability = (case fp_probability patch of None \<Rightarrow> fs_probability old | Some p \<Rightarrow> p),
           fs_kind = (case fp_kind patch of None \<Rightarrow> fs_kind old | Some k \<Rightarrow> k)\<rparr>"
        "plan = \<lparr>plan_faults = replace_first spec (plan_faults (pub_plan (spec_policy dir (mp_spec entry))))\<rparr>"
        "res = Inr (dir, spec, (ct_generation c + 1) mod 2 ^ 64)" "committable proxy dir plan c"
        "c' = committed proxy dir plan (seed_namespace (spec_policy dir (mp_spec entry))) c"
      have "spec = old\<lparr>fs_probability := (case fp_probability patch of None \<Rightarrow> fs_probability old | Some p \<Rightarrow> p),
         fs_kind := (case fp_kind patch of None \<Rightarrow> fs_kind old | Some k \<Rightarrow> k)\<rparr>" using *(2) by simp
      moreover have "plan_ok plan" using *(5) by (simp add: committable_def)
      ultimately show ?thesis using * Some unfolding Let_def by blast
    qed blast
  qed blast
qed

text \<open>
  C11. Every operation that edits one direction refines one publication: it fails and changes nothing at all,
  or it is exactly one publication of a valid plan in one direction of the named proxy, after which the
  new generation and mirror are in place and nothing else has moved. An update keeps the fault's id and place
  and replaces what its patch names. An expected publication is granted only on the generation it names.
\<close>

theorem edits_are_publications:
  assumes "control_ok c"
  shows "(let (res, c') = add_fault proxy upsert c in
      (\<exists>e. res = Inl e \<and> c' = c) \<or>
      (\<exists>spec entry. res = Inr (fu_direction upsert, spec, (ct_generation c + 1) mod 2 ^ 64) \<and>
         map_of (ct_proxies c) proxy = Some entry \<and>
         (let base = spec_policy (fu_direction upsert) (mp_spec entry);
              plan = \<lparr>plan_faults = plan_faults (pub_plan base) @ [spec]\<rparr> in
          plan_ok plan \<and> c' = committed proxy (fu_direction upsert) plan (seed_namespace base) c)))
    \<and> (let (res, c') = update_fault proxy i patch c in
      (\<exists>e. res = Inl e \<and> c' = c) \<or>
      (\<exists>dir entry old spec. res = Inr (dir, spec, (ct_generation c + 1) mod 2 ^ 64) \<and> map_of (ct_proxies c) proxy = Some entry \<and>
         (let base = spec_policy dir (mp_spec entry);
              plan = \<lparr>plan_faults = replace_first spec (plan_faults (pub_plan base))\<rparr> in
          plan_get (pub_plan base) i = Some old \<and>
          spec = old\<lparr>fs_probability := (case fp_probability patch of None \<Rightarrow> fs_probability old | Some p \<Rightarrow> p),
                     fs_kind := (case fp_kind patch of None \<Rightarrow> fs_kind old | Some k \<Rightarrow> k)\<rparr> \<and>
          plan_ok plan \<and> c' = committed proxy dir plan (seed_namespace base) c)))
    \<and> (let (res, c') = remove_fault proxy i c in
      (\<exists>e. res = Inl e \<and> c' = c) \<or>
      (\<exists>dir entry. res = Inr ((ct_generation c + 1) mod 2 ^ 64) \<and> map_of (ct_proxies c) proxy = Some entry \<and>
         (let base = spec_policy dir (mp_spec entry) in
          plan_get (pub_plan base) i \<noteq> None \<and>
          c' = committed proxy dir (without_fault i (pub_plan base)) (seed_namespace base) c)))
    \<and> (let (res, c') = publish_direction_expected proxy dir plan ns expected c in
      (\<exists>e. res = Inl e \<and> c' = c) \<or>
      (\<exists>entry. res = Inr ((ct_generation c + 1) mod 2 ^ 64, Suc expected) \<and> map_of (ct_proxies c) proxy = Some entry \<and>
         generation (spec_policy dir (mp_spec entry)) = expected \<and> plan_ok plan \<and> c' = committed proxy dir plan ns c))"
proof (intro conjI)
  show "let (res, c') = add_fault proxy upsert c in
      (\<exists>e. res = Inl e \<and> c' = c) \<or>
      (\<exists>spec entry. res = Inr (fu_direction upsert, spec, (ct_generation c + 1) mod 2 ^ 64) \<and>
         map_of (ct_proxies c) proxy = Some entry \<and>
         (let base = spec_policy (fu_direction upsert) (mp_spec entry);
              plan = \<lparr>plan_faults = plan_faults (pub_plan base) @ [spec]\<rparr> in
          plan_ok plan \<and> c' = committed proxy (fu_direction upsert) plan (seed_namespace base) c))"
    using add_fault_edits [OF assms surjective_pairing, of proxy upsert]
    unfolding Let_def case_prod_unfold committable_def by blast
  show "let (res, c') = update_fault proxy i patch c in
      (\<exists>e. res = Inl e \<and> c' = c) \<or>
      (\<exists>dir entry old spec. res = Inr (dir, spec, (ct_generation c + 1) mod 2 ^ 64) \<and> map_of (ct_proxies c) proxy = Some entry \<and>
         (let base = spec_policy dir (mp_spec entry);
              plan = \<lparr>plan_faults = replace_first spec (plan_faults (pub_plan base))\<rparr> in
          plan_get (pub_plan base) i = Some old \<and>
          spec = old\<lparr>fs_probability := (case fp_probability patch of None \<Rightarrow> fs_probability old | Some p \<Rightarrow> p),
                     fs_kind := (case fp_kind patch of None \<Rightarrow> fs_kind old | Some k \<Rightarrow> k)\<rparr> \<and>
          plan_ok plan \<and> c' = committed proxy dir plan (seed_namespace base) c))"
    using update_fault_edits [OF assms surjective_pairing, of proxy i patch] by (simp add: Let_def case_prod_unfold)
  show "let (res, c') = publish_direction_expected proxy dir plan ns expected c in
      (\<exists>e. res = Inl e \<and> c' = c) \<or>
      (\<exists>entry. res = Inr ((ct_generation c + 1) mod 2 ^ 64, Suc expected) \<and> map_of (ct_proxies c) proxy = Some entry \<and>
         generation (spec_policy dir (mp_spec entry)) = expected \<and> plan_ok plan \<and> c' = committed proxy dir plan ns c)"
    using publish_direction_edits [OF assms surjective_pairing, of proxy dir plan ns expected]
    unfolding Let_def case_prod_unfold committable_def by blast
  show "let (res, c') = remove_fault proxy i c in
      (\<exists>e. res = Inl e \<and> c' = c) \<or>
      (\<exists>dir entry. res = Inr ((ct_generation c + 1) mod 2 ^ 64) \<and> map_of (ct_proxies c) proxy = Some entry \<and>
         (let base = spec_policy dir (mp_spec entry) in
          plan_get (pub_plan base) i \<noteq> None \<and>
          c' = committed proxy dir (without_fault i (pub_plan base)) (seed_namespace base) c))"
  proof (cases "map_of (ct_proxies c) proxy")
    case None
    then show ?thesis by (simp add: remove_fault_def)
  next
    case (Some entry)
    from remove_fault_in_edits [OF assms Some surjective_pairing, of "[Upstream, Downstream]" i] Some
    show ?thesis unfolding remove_fault_def Let_def case_prod_unfold by fastforce
  qed
qed


theorem edits_are_publications_witness:
  "fst (add_fault ''db'' (example_upsert Downstream) example_imported) = Inr (Downstream, example_latency ''slow'', 3) \<and>
   snd (add_fault ''db'' (example_upsert Downstream) example_imported) =
     committed ''db'' Downstream \<lparr>plan_faults = [example_latency ''slow'']\<rparr> 6 example_imported"
proof -
  note law = conjunct1 [OF edits_are_publications [OF example_imported_ok, where proxy = "''db''" and upsert = "example_upsert Downstream"]]
  have dir: "fu_direction (example_upsert Downstream) = Downstream" by (simp add: example_upsert_def)
  have entry: "map_of (ct_proxies example_imported) ''db'' = Some (new_entry example_live False None 1)"
    by (simp add: example_imported_def)
  show ?thesis using law example_added [of Downstream]
    by (auto simp: Let_def case_prod_unfold dir entry new_entry_def empty_plan_def)
qed

section \<open>Adding and removing\<close>

lemma plan_get_append: "plan_get \<lparr>plan_faults = fs @ [f]\<rparr> i =
    (case plan_get \<lparr>plan_faults = fs\<rparr> i of Some g \<Rightarrow> Some g | None \<Rightarrow> if fs_id f = i then Some f else None)"
  by (simp add: plan_get_def find_append split: option.split)

lemma without_fault_fresh: "plan_get p (fs_id f) = None \<Longrightarrow> without_fault (fs_id f) \<lparr>plan_faults = plan_faults p @ [f]\<rparr> = p"
proof -
  assume "plan_get p (fs_id f) = None"
  then have "\<forall>g \<in> set (plan_faults p). fs_id g \<noteq> fs_id f" by (metis plan_get_None image_eqI)
  then have "filter (\<lambda>g. fs_id g \<noteq> fs_id f) (plan_faults p) = plan_faults p" by (simp add: filter_id_conv)
  then show ?thesis by (simp add: without_fault_def)
qed

lemma list_faults_as: "list_faults proxy c = map_option (\<lambda>entry. (plan_faults (pub_plan (spec_policy Upstream (mp_spec entry))),
    plan_faults (pub_plan (spec_policy Downstream (mp_spec entry))))) (map_of (ct_proxies c) proxy)"
  by (simp add: list_faults_def spec_policy_other)

lemma get_fault_as: "map_of (ct_proxies c) proxy = Some entry \<Longrightarrow> get_fault proxy i c =
    (case plan_get (pub_plan (spec_policy Upstream (mp_spec entry))) i of
       Some f \<Rightarrow> Some (Upstream, f)
     | None \<Rightarrow> map_option (Pair Downstream) (plan_get (pub_plan (spec_policy Downstream (mp_spec entry))) i))"
  unfolding get_fault_def spec_policy_other by simp

text \<open>Publishing a valid plan on a policy below the last generation succeeds.\<close>

lemma publish_and_mirror_succeeds:
  assumes "control_ok c" "map_of (ct_proxies c) proxy = Some entry" "base = spec_policy dir (mp_spec entry)"
    "plan_ok plan" "generation base < U64_MAX"
  shows "publish_and_mirror proxy dir plan base c =
    (Inr ((ct_generation c + 1) mod 2 ^ 64), committed proxy dir plan (seed_namespace base) c)"
proof -
  obtain res c' where run: "publish_and_mirror proxy dir plan base c = (res, c')" by fastforce
  have "\<exists>g. fst (publish_and_mirror proxy dir plan base c) = Inr g"
    using assms(4,5) by (auto simp: publish_and_mirror_def publish_def case_prod_unfold simp flip: plan_validate_iff)
  then show ?thesis using publish_and_mirror_edits [OF assms(1-3) run] run by auto
qed

text \<open>
  C12. Adding a fault and removing it again. The added fault is found by its id in the direction it was added
  to, unless the upstream direction already had that id and shadows it; removing the id then succeeds and
  both plans are what they were. Only the policy of that direction has moved, by two generations with the
  same seed namespace; every other proxy is untouched throughout.
\<close>

theorem add_remove_roundtrip:
  assumes "control_ok c" "map_of (ct_proxies c) proxy = Some entry"
    "add_fault proxy upsert c = (Inr (dir, spec, g), c1)"
    "dir = Upstream \<or> plan_get (pub_plan (spec_policy Upstream (mp_spec entry))) (fs_id spec) = None"
    "Suc (generation (spec_policy dir (mp_spec entry))) < U64_MAX"
  shows "get_fault proxy (fs_id spec) c1 = Some (dir, spec) \<and>
    (\<exists>c2 entry2. remove_fault proxy (fs_id spec) c1 = (Inr ((ct_generation c1 + 1) mod 2 ^ 64), c2) \<and>
       list_faults proxy c2 = list_faults proxy c \<and> map_of (ct_proxies c2) proxy = Some entry2 \<and>
       generation (spec_policy dir (mp_spec entry2)) = generation (spec_policy dir (mp_spec entry)) + 2 \<and>
       seed_namespace (spec_policy dir (mp_spec entry2)) = seed_namespace (spec_policy dir (mp_spec entry)) \<and>
       (\<forall>d. d \<noteq> dir \<longrightarrow> spec_policy d (mp_spec entry2) = spec_policy d (mp_spec entry)) \<and>
       (\<forall>k. k \<noteq> proxy \<longrightarrow> map_of (ct_proxies c2) k = map_of (ct_proxies c) k))"
proof -
  define base where "base = spec_policy dir (mp_spec entry)"
  define plan where "plan = \<lparr>plan_faults = plan_faults (pub_plan base) @ [spec]\<rparr>"
  from add_fault_edits [OF assms(1,3)] assms(2)
  have add: "plan_get (pub_plan base) (fs_id spec) = None" "c1 = committed proxy dir plan (seed_namespace base) c"
    "committable proxy dir plan c" "dir = fu_direction upsert"
    unfolding base_def plan_def by auto
  have ok1: "control_ok c1" using add committed_ok [OF assms(1)] by simp
  have okp: "plan_ok (pub_plan base)" using assms(1,2) unfolding base_def control_ok_def spec_synced_def by blast
  have next1: "generation (next_policy plan (seed_namespace base) base) = Suc (generation base)"
    using assms(5) by (simp add: base_def next_policy_def sat_add64_def)
  define entry1 where "entry1 = entry\<lparr>mp_spec := set_mirror dir plan (set_policy dir (next_policy plan (seed_namespace base) base) (mp_spec entry))\<rparr>"
  have e1: "map_of (ct_proxies c1) proxy = Some entry1"
    using assms(2) by (simp add: add(2) committed_lookup entry1_def base_def)
  have pol1: "spec_policy d (mp_spec entry1) = (if d = dir then next_policy plan (seed_namespace base) base else spec_policy d (mp_spec entry))" for d
    by (simp add: entry1_def)
  have found: "plan_get plan (fs_id spec) = Some spec" using add(1) by (simp add: plan_def plan_get_def find_append)
  have gone: "without_fault (fs_id spec) plan = pub_plan base" using without_fault_fresh [OF add(1)] by (simp add: plan_def)
  have up: "dir = Upstream \<or> plan_get (pub_plan (spec_policy Upstream (mp_spec entry1))) (fs_id spec) = None"
    using assms(4) by (auto simp: pol1)
  have get1: "get_fault proxy (fs_id spec) c1 = Some (dir, spec)"
    using up found by (cases dir) (auto simp: get_fault_as [OF e1] pol1 next_policy_def)
  let ?ns = "seed_namespace base"
  have pm: "publish_and_mirror proxy dir (pub_plan base) (next_policy plan ?ns base) c1 =
      (Inr ((ct_generation c1 + 1) mod 2 ^ 64), committed proxy dir (pub_plan base) ?ns c1)"
    using publish_and_mirror_succeeds [OF ok1 e1, of "next_policy plan ?ns base" dir "pub_plan base"] okp assms(5) next1
    by (simp add: pol1 base_def) (simp add: next_policy_def)
  have "remove_fault proxy (fs_id spec) c1 = publish_and_mirror proxy dir (pub_plan base) (next_policy plan ?ns base) c1"
    using up found gone okp
    by (cases dir) (auto simp: remove_fault_def e1 pol1 next_policy_def Let_def plan_validate_iff simp flip: plan_validate_iff)
  then have rem: "remove_fault proxy (fs_id spec) c1 = (Inr ((ct_generation c1 + 1) mod 2 ^ 64), committed proxy dir (pub_plan base) ?ns c1)"
    using pm by simp
  let ?c2 = "committed proxy dir (pub_plan base) ?ns c1"
  let ?e2 = "entry1\<lparr>mp_spec := set_mirror dir (pub_plan base) (set_policy dir (next_policy (pub_plan base) ?ns (spec_policy dir (mp_spec entry1))) (mp_spec entry1))\<rparr>"
  have e2: "map_of (ct_proxies ?c2) proxy = Some ?e2" using e1 by (simp add: committed_lookup)
  have "list_faults proxy ?c2 = list_faults proxy c"
    unfolding list_faults_as e2 assms(2) by (cases dir) (simp_all add: pol1 next_policy_def base_def)
  moreover have "generation (spec_policy dir (mp_spec ?e2)) = generation base + 2"
    using assms(5) by (simp add: pol1 next_policy_def sat_add64_def base_def)
  moreover have "\<forall>k. k \<noteq> proxy \<longrightarrow> map_of (ct_proxies ?c2) k = map_of (ct_proxies c) k"
    by (simp add: committed_lookup add(2))
  ultimately show ?thesis using get1 rem e2 by (auto simp: pol1 next_policy_def base_def)
qed


theorem add_remove_roundtrip_witness:
  "\<exists>c1 c2. add_fault ''db'' (example_upsert Downstream) example_imported = (Inr (Downstream, example_latency ''slow'', 3), c1) \<and>
     get_fault ''db'' ''slow'' c1 = Some (Downstream, example_latency ''slow'') \<and>
     remove_fault ''db'' ''slow'' c1 = (Inr ((ct_generation c1 + 1) mod 2 ^ 64), c2) \<and>
     list_faults ''db'' c2 = Some ([], [])"
proof -
  let ?c1 = "snd (add_fault ''db'' (example_upsert Downstream) example_imported)"
  have add: "add_fault ''db'' (example_upsert Downstream) example_imported = (Inr (Downstream, example_latency ''slow'', 3), ?c1)"
    using example_added [of Downstream] by (metis prod.collapse)
  have entry: "map_of (ct_proxies example_imported) ''db'' = Some (new_entry example_live False None 1)"
    by (simp add: example_imported_def)
  have "plan_get (pub_plan (spec_policy Upstream (mp_spec (new_entry example_live False None 1)))) (fs_id (example_latency ''slow'')) = None"
    by (simp add: new_entry_def plan_get_def empty_plan_def)
  moreover have "Suc (generation (spec_policy Downstream (mp_spec (new_entry example_live False None 1)))) < U64_MAX"
    by (simp add: new_entry_def U64_MAX_def)
  moreover have "list_faults ''db'' example_imported = Some ([], [])"
    unfolding list_faults_as entry by (simp add: new_entry_def empty_plan_def)
  ultimately show ?thesis using add_remove_roundtrip [OF example_imported_ok entry add] add by auto
qed

end
