(* ===== verification/Lifecycle.thy ===== *)
theory Lifecycle
  imports ControlProps
begin

text \<open>
  The lifecycle of stream proxies: \<^verbatim>\<open>create_proxy\<close>, \<^verbatim>\<open>delete_proxy\<close>, \<^verbatim>\<open>set_enabled\<close>, \<^verbatim>\<open>update_proxy\<close>,
  \<^verbatim>\<open>start_all\<close> and \<^verbatim>\<open>start_stored\<close> of \<^verbatim>\<open>runtime/control.rs\<close>, the completion flag of \<^verbatim>\<open>runtime/mod.rs\<close>, and the
  supervisor loop of \<^verbatim>\<open>runtime/supervisor.rs\<close>.

  These operations are asynchronous: between two lock acquisitions other tasks run. A call is a \<open>task\<close>,
  the point where it will continue together with its local variables; \<open>task_step\<close> runs it to the next
  point where it gives up the lock it holds or waits. The socket library is a parameter: the outcome of a
  \<^verbatim>\<open>bind\<close> is an argument of the step. What a call does between giving up a lock and its next wait (a delete cancels the
  token there) belongs to the same step. A supervisor is a task of its own, created by \<open>spawn_supervisor\<close>.
\<close>

section \<open>State\<close>

text \<open>
  A supervisor is at the top of its loop, waiting in \<^verbatim>\<open>select!\<close> with the entry it read, past its completion
  flag, or at its end. \<open>sv_cancel\<close> is its token; supervisors are indexed by their completion flag.
\<close>

datatype sv_phase = SvTop | SvWaiting managed_proxy | SvDone | SvExited

record supervisor =
  sv_name :: string
  sv_cancel :: nat
  sv_addr :: socket_addr
  sv_phase :: sv_phase

record lifecycle = control +
  lc_shutdown :: bool
  lc_cancelled :: "nat list"
  lc_supers :: "(nat \<times> supervisor) list"
  lc_root :: "(string \<times> nat) list"
  lc_accepts :: "(nat \<times> proxy_spec) list"

definition lifecycle_start :: "u64 \<Rightarrow> lifecycle" where
  "lifecycle_start seed =
     \<lparr>ct_seed = seed, ct_proxies = [], ct_generation = 1, ct_fresh = 1, lc_shutdown = False, lc_cancelled = [],
      lc_supers = [], lc_root = [], lc_accepts = []\<rparr>"

definition is_cancelled :: "nat \<Rightarrow> lifecycle \<Rightarrow> bool" where
  "is_cancelled t s = (lc_shutdown s \<or> t \<in> set (lc_cancelled s))"

definition cancel_token :: "nat \<Rightarrow> lifecycle \<Rightarrow> lifecycle" where
  "cancel_token t s = s\<lparr>lc_cancelled := t # lc_cancelled s\<rparr>"

definition child_token :: "lifecycle \<Rightarrow> nat \<times> lifecycle" where
  "child_token s = (ct_fresh s, s\<lparr>ct_fresh := ct_fresh s + 1\<rparr>)"

definition initiate_shutdown :: "lifecycle \<Rightarrow> lifecycle" where
  "initiate_shutdown s = s\<lparr>lc_shutdown := True\<rparr>"

definition finished_flag :: "nat \<Rightarrow> lifecycle \<Rightarrow> bool" where
  "finished_flag d s = (case map_of (lc_supers s) d of
     Some sv \<Rightarrow> sv_phase sv = SvDone \<or> sv_phase sv = SvExited | None \<Rightarrow> False)"

definition handle_finished :: "nat \<Rightarrow> lifecycle \<Rightarrow> bool" where
  "handle_finished d s = (case map_of (lc_supers s) d of Some sv \<Rightarrow> sv_phase sv = SvExited | None \<Rightarrow> False)"

definition put_entry :: "string \<Rightarrow> managed_proxy \<Rightarrow> lifecycle \<Rightarrow> lifecycle" where
  "put_entry name entry s = s\<lparr>ct_proxies := btree_insert name entry (ct_proxies s)\<rparr>"

text \<open>\<^verbatim>\<open>Vec::swap_remove\<close>.\<close>

definition swap_remove :: "nat \<Rightarrow> 'a list \<Rightarrow> 'a list" where
  "swap_remove i xs = (if Suc i = length xs then butlast xs else (butlast xs)[i := last xs])"

fun position :: "('a \<Rightarrow> bool) \<Rightarrow> 'a list \<Rightarrow> nat option" where
  "position P [] = None"
| "position P (x # xs) = (if P x then Some 0 else map_option Suc (position P xs))"

definition untrack :: "string \<Rightarrow> lifecycle \<Rightarrow> lifecycle" where
  "untrack name s =
     (case position (\<lambda>(tracked, d). tracked = name \<and> handle_finished d s) (lc_root s) of
        None \<Rightarrow> s
      | Some i \<Rightarrow> s\<lparr>lc_root := swap_remove i (lc_root s)\<rparr>)"

definition spawn_supervisor :: "socket_addr \<Rightarrow> string \<Rightarrow> nat \<Rightarrow> lifecycle \<Rightarrow> (control_error + nat) \<times> lifecycle" where
  "spawn_supervisor addr name cancel s =
     (if lc_shutdown s then (Inl (ControlInvalid ''service is shutting down''), cancel_token cancel s)
      else let d = ct_fresh s in
        (Inr d, s\<lparr>ct_fresh := d + 1,
                  lc_supers := (d, \<lparr>sv_name = name, sv_cancel = cancel, sv_addr = addr, sv_phase = SvTop\<rparr>) # lc_supers s,
                  lc_root := lc_root s @ [(name, d)]\<rparr>))"

section \<open>The supervisor loop\<close>

text \<open>What a supervisor observes: nothing, an accepted connection, or a failed \<^verbatim>\<open>accept\<close>.\<close>

datatype sv_event = SvPoll | SvAccept | SvAcceptError

fun sv_next :: "sv_event \<Rightarrow> supervisor \<Rightarrow> lifecycle \<Rightarrow> sv_phase option" where
  "sv_next ev sv s =
     (case sv_phase sv of
        SvTop \<Rightarrow> (case map_of (ct_proxies s) (sv_name sv) of
            None \<Rightarrow> Some SvDone
          | Some entry \<Rightarrow> if is_cancelled (sv_cancel sv) s then Some SvDone else Some (SvWaiting entry))
      | SvWaiting entry \<Rightarrow> (case ev of
            SvPoll \<Rightarrow> if is_cancelled (sv_cancel sv) s then Some SvDone else None
          | SvAccept \<Rightarrow> Some SvTop
          | SvAcceptError \<Rightarrow> if is_cancelled (sv_cancel sv) s then Some SvDone else Some SvTop)
      | SvDone \<Rightarrow> Some SvExited
      | SvExited \<Rightarrow> None)"

definition supervisor_step :: "sv_event \<Rightarrow> nat \<Rightarrow> lifecycle \<Rightarrow> lifecycle option" where
  "supervisor_step ev d s =
     (case map_of (lc_supers s) d of
        None \<Rightarrow> None
      | Some sv \<Rightarrow> (case sv_next ev sv s of
          None \<Rightarrow> None
        | Some phase \<Rightarrow>
            let s' = s\<lparr>lc_supers := btree_adjust d (\<lambda>sv. sv\<lparr>sv_phase := phase\<rparr>) (lc_supers s)\<rparr> in
            Some (case (sv_phase sv, ev) of
                    (SvWaiting entry, SvAccept) \<Rightarrow> s'\<lparr>lc_accepts := lc_accepts s @ [(d, mp_spec entry)]\<rparr>
                  | _ \<Rightarrow> s')))"

section \<open>Operations as tasks\<close>

datatype bind_outcome = Bound socket_addr | BindError string | AddrError string

record proxy_patch =
  pp_listen :: "socket_addr option"
  pp_upstream :: "socket_addr option"
  pp_enabled :: "bool option"
  pp_max_connections :: "nat option option"
  pp_connect_timeout_ms :: "nat option"

datatype result = RGeneration nat | RView proxy_view nat | RError control_error

text \<open>Who called \<^verbatim>\<open>set_enabled\<close>, who called \<^verbatim>\<open>start_stored\<close>, and what follows a join.\<close>

datatype enabled_caller = CallerApi | CallerUpdate proxy_patch

datatype start_caller = CallerEnable enabled_caller | CallerStartAll "string list" "control_error option"

datatype after_join =
    ThenGeneration
  | ThenEnabled enabled_caller
  | ThenError control_error
  | ThenStartError control_error start_caller
  | ThenRestart proxy_spec socket_addr "nat option"

datatype task =
    CreateCheck proxy_spec
  | CreateBind proxy_spec
  | CreateSpawn proxy_spec socket_addr
  | CreateInsert string managed_proxy
  | DeleteMark string
  | EnableCheck string enabled_caller
  | DisableMark string enabled_caller
  | StartBind string proxy_spec start_caller
  | StartSpawn string socket_addr start_caller
  | StartCommit string socket_addr nat nat start_caller
  | StartAllBegin
  | StartAllNext "string list" "control_error option"
  | UpdateStart string proxy_patch
  | UpdateCheck string proxy_patch "nat option"
  | UpdateView string nat
  | UpdateWrite string proxy_spec "nat option"
  | UpdateBind string proxy_spec "nat option"
  | UpdateStop string proxy_spec socket_addr "nat option"
  | UpdateSpawn string proxy_spec socket_addr "nat option"
  | UpdateCommit string proxy_spec socket_addr nat nat "nat option"
  | JoinWait string nat after_join
  | UntrackThen string after_join
  | Finished result
  | Panicked

definition fail :: "control_error \<Rightarrow> lifecycle \<Rightarrow> task \<times> lifecycle" where
  "fail e s = (Finished (RError e), s)"

definition not_found :: "string \<Rightarrow> lifecycle \<Rightarrow> task \<times> lifecycle" where
  "not_found name s = fail (NotFound name) s"

definition patch_only_enabled :: "proxy_patch \<Rightarrow> bool" where
  "patch_only_enabled p = (pp_listen p = None \<and> pp_upstream p = None \<and> pp_max_connections p = None \<and> pp_connect_timeout_ms p = None)"

fun enabled_returns :: "string \<Rightarrow> enabled_caller \<Rightarrow> nat \<Rightarrow> task" where
  "enabled_returns name CallerApi g = Finished (RGeneration g)"
| "enabled_returns name (CallerUpdate patch) g =
     (if patch_only_enabled patch then UpdateView name g else UpdateCheck name patch (Some g))"

fun start_returns :: "string \<Rightarrow> start_caller \<Rightarrow> control_error + unit \<Rightarrow> lifecycle \<Rightarrow> task \<times> lifecycle" where
  "start_returns name (CallerEnable k) (Inl e) s = fail e s"
| "start_returns name (CallerEnable k) (Inr _) s = (let (g, s') = next_generation s in (enabled_returns name k g, s'))"
| "start_returns name (CallerStartAll names err) (Inl e) s =
     (StartAllNext names (case err of None \<Rightarrow> Some e | Some e' \<Rightarrow> Some e'), s)"
| "start_returns name (CallerStartAll names err) (Inr _) s = (StartAllNext names err, s)"

fun join_returns :: "string \<Rightarrow> after_join \<Rightarrow> lifecycle \<Rightarrow> task \<times> lifecycle" where
  "join_returns name ThenGeneration s = (let (g, s') = next_generation s in (Finished (RGeneration g), s'))"
| "join_returns name (ThenEnabled k) s = (let (g, s') = next_generation s in (enabled_returns name k g, s'))"
| "join_returns name (ThenError e) s = fail e s"
| "join_returns name (ThenStartError e k) s = start_returns name k (Inl e) s"
| "join_returns name (ThenRestart spec addr gen) s = (UpdateSpawn name spec addr gen, s)"

definition patched_spec :: "proxy_patch \<Rightarrow> proxy_spec \<Rightarrow> proxy_spec" where
  "patched_spec p s0 =
     (let s1 = (case pp_listen p of None \<Rightarrow> s0 | Some a \<Rightarrow> s0\<lparr>ps_listen := a\<rparr>);
          s2 = (case pp_upstream p of None \<Rightarrow> s1 | Some a \<Rightarrow> s1\<lparr>ps_upstream := a\<rparr>);
          s3 = (case pp_max_connections p of None \<Rightarrow> s2 | Some m \<Rightarrow> s2\<lparr>ps_max_connections := m\<rparr>)
      in case pp_connect_timeout_ms p of None \<Rightarrow> s3 | Some ms \<Rightarrow> s3\<lparr>ps_connect_timeout := ms * 1000000\<rparr>)"

definition patch_restarts :: "proxy_patch \<Rightarrow> proxy_spec \<Rightarrow> bool" where
  "patch_restarts p s =
     ((case pp_listen p of None \<Rightarrow> False | Some a \<Rightarrow> a \<noteq> ps_listen s) \<or>
      (case pp_upstream p of None \<Rightarrow> False | Some a \<Rightarrow> a \<noteq> ps_upstream s))"

text \<open>The patched definition with the live policies of the entry.\<close>

definition keep_policies :: "managed_proxy \<Rightarrow> proxy_spec \<Rightarrow> proxy_spec" where
  "keep_policies entry spec =
     spec\<lparr>ps_upstream_policy := ps_upstream_policy (mp_spec entry), ps_downstream_policy := ps_downstream_policy (mp_spec entry)\<rparr>"

definition view_returns :: "managed_proxy \<Rightarrow> nat option \<Rightarrow> lifecycle \<Rightarrow> task \<times> lifecycle" where
  "view_returns entry gen s =
     (case gen of
        Some g \<Rightarrow> (Finished (RView (view_of entry) g), s)
      | None \<Rightarrow> let (g, s') = next_generation s in (Finished (RView (view_of entry) g), s'))"


definition proxy_exists :: "string \<Rightarrow> control_error" where
  "proxy_exists name = ControlConflict (''proxy '' @ name @ '' already exists'')"

definition too_many_proxies :: control_error where
  "too_many_proxies = ControlInvalid ''stream proxy count exceeds the 1024 proxy limit''"

definition create_check :: "proxy_spec \<Rightarrow> lifecycle \<Rightarrow> task \<times> lifecycle" where
  "create_check spec s =
     (if lc_shutdown s then fail (ControlInvalid ''service is shutting down'') s
      else case proxy_spec_validate spec of
        Inl e \<Rightarrow> fail (map_validation e) s
      | Inr _ \<Rightarrow>
          if map_of (ct_proxies s) (ps_name spec) \<noteq> None then fail (proxy_exists (ps_name spec)) s
          else if 1024 \<le> length (ct_proxies s) then fail too_many_proxies s
          else (CreateBind spec, s))"

fun create_bind :: "proxy_spec \<Rightarrow> bind_outcome \<Rightarrow> lifecycle \<Rightarrow> task \<times> lifecycle" where
  "create_bind spec (Bound addr) s = (CreateSpawn spec addr, s)"
| "create_bind spec (BindError reason) s = fail (BindFailed (ps_name spec) reason) s"
| "create_bind spec (AddrError reason) s = fail (BindFailed (ps_name spec) reason) s"

definition create_spawn :: "proxy_spec \<Rightarrow> socket_addr \<Rightarrow> lifecycle \<Rightarrow> task \<times> lifecycle" where
  "create_spawn spec addr s =
     (case init_policies (ct_seed s) spec of
        None \<Rightarrow> (Panicked, s)
      | Some live \<Rightarrow>
          let entry = new_entry (live\<lparr>ps_enabled := True\<rparr>) True (Some addr) (ct_fresh s);
              s1 = s\<lparr>ct_fresh := ct_fresh s + 4\<rparr>
          in case spawn_supervisor addr (ps_name spec) (mp_cancel entry) s1 of
               (Inl e, s2) \<Rightarrow> fail e s2
             | (Inr d, s2) \<Rightarrow> (CreateInsert (ps_name spec) (entry\<lparr>mp_done := d\<rparr>), s2))"

definition create_insert :: "string \<Rightarrow> managed_proxy \<Rightarrow> lifecycle \<Rightarrow> task \<times> lifecycle" where
  "create_insert name entry s =
     (if map_of (ct_proxies s) name \<noteq> None
      then (JoinWait name (mp_done entry) (ThenError (proxy_exists name)), cancel_token (mp_cancel entry) s)
      else if 1024 \<le> length (ct_proxies s)
      then (JoinWait name (mp_done entry) (ThenError too_many_proxies), cancel_token (mp_cancel entry) s)
      else view_returns entry None (put_entry name entry s))"

definition delete_mark :: "string \<Rightarrow> lifecycle \<Rightarrow> task \<times> lifecycle" where
  "delete_mark name s =
     (case map_of (ct_proxies s) name of
        None \<Rightarrow> not_found name s
      | Some entry \<Rightarrow>
          (JoinWait name (mp_done entry) ThenGeneration,
           cancel_token (mp_cancel entry) (s\<lparr>ct_proxies := btree_remove name (ct_proxies s)\<rparr>)))"

definition enable_check :: "string \<Rightarrow> enabled_caller \<Rightarrow> lifecycle \<Rightarrow> task \<times> lifecycle" where
  "enable_check name k s =
     (case map_of (ct_proxies s) name of
        None \<Rightarrow> not_found name s
      | Some entry \<Rightarrow>
          if mp_running entry then (enabled_returns name k (control_generation s), s)
          else (StartBind name (mp_spec entry) (CallerEnable k), s))"

definition disable_mark :: "string \<Rightarrow> enabled_caller \<Rightarrow> lifecycle \<Rightarrow> task \<times> lifecycle" where
  "disable_mark name k s =
     (case map_of (ct_proxies s) name of
        None \<Rightarrow> not_found name s
      | Some entry \<Rightarrow>
          if \<not> mp_running entry then (enabled_returns name k (control_generation s), s)
          else let (t, s1) = child_token s;
                   entry' = entry\<lparr>mp_spec := (mp_spec entry)\<lparr>ps_enabled := False\<rparr>, mp_running := False,
                                  mp_bound_addr := None, mp_cancel := t\<rparr>
               in (JoinWait name (mp_done entry) (ThenEnabled k), cancel_token (mp_cancel entry) (put_entry name entry' s1)))"

definition shutting_down :: control_error where
  "shutting_down = ControlInvalid ''control state is shutting down''"

definition start_bind :: "string \<Rightarrow> proxy_spec \<Rightarrow> start_caller \<Rightarrow> bind_outcome \<Rightarrow> lifecycle \<Rightarrow> task \<times> lifecycle" where
  "start_bind name spec k outcome s =
     (if lc_shutdown s then start_returns name k (Inl shutting_down) s
      else case outcome of
        Bound addr \<Rightarrow> (StartSpawn name addr k, s)
      | BindError reason \<Rightarrow> start_returns name k (Inl (BindFailed name reason)) s
      | AddrError reason \<Rightarrow> start_returns name k (Inl (BindFailed name reason)) s)"

definition start_spawn :: "string \<Rightarrow> socket_addr \<Rightarrow> start_caller \<Rightarrow> lifecycle \<Rightarrow> task \<times> lifecycle" where
  "start_spawn name addr k s =
     (if lc_shutdown s then start_returns name k (Inl shutting_down) s
      else let (cancel, s1) = child_token s in
           case spawn_supervisor addr name cancel s1 of
             (Inl e, s2) \<Rightarrow> start_returns name k (Inl e) s2
           | (Inr d, s2) \<Rightarrow> (StartCommit name addr cancel d k, s2))"

definition start_commit :: "string \<Rightarrow> socket_addr \<Rightarrow> nat \<Rightarrow> nat \<Rightarrow> start_caller \<Rightarrow> lifecycle \<Rightarrow> task \<times> lifecycle" where
  "start_commit name addr cancel d k s =
     (case map_of (ct_proxies s) name of
        None \<Rightarrow> (JoinWait name d (ThenStartError (NotFound name) k), cancel_token cancel s)
      | Some entry \<Rightarrow>
          start_returns name k (Inr ())
            (put_entry name (entry\<lparr>mp_spec := (mp_spec entry)\<lparr>ps_enabled := True\<rparr>, mp_running := True,
               mp_bound_addr := Some addr, mp_cancel := cancel, mp_done := d\<rparr>) s))"

definition start_all_begin :: "lifecycle \<Rightarrow> task \<times> lifecycle" where
  "start_all_begin s =
     (StartAllNext (map fst (filter (\<lambda>(_, entry). ps_enabled (mp_spec entry) \<and> \<not> mp_running entry) (ct_proxies s))) None, s)"

fun start_all_next :: "string list \<Rightarrow> control_error option \<Rightarrow> lifecycle \<Rightarrow> task \<times> lifecycle" where
  "start_all_next [] err s =
     (case err of Some e \<Rightarrow> fail e s | None \<Rightarrow> (Finished (RGeneration (control_generation s)), s))"
| "start_all_next (name # names) err s =
     (case map_of (ct_proxies s) name of
        None \<Rightarrow> (StartAllNext names (case err of None \<Rightarrow> Some (NotFound name) | Some e \<Rightarrow> Some e), s)
      | Some entry \<Rightarrow> (StartBind name (mp_spec entry) (CallerStartAll names err), s))"

definition update_start :: "string \<Rightarrow> proxy_patch \<Rightarrow> lifecycle \<Rightarrow> task \<times> lifecycle" where
  "update_start name patch s =
     (case pp_enabled patch of
        None \<Rightarrow> (UpdateCheck name patch None, s)
      | Some True \<Rightarrow> (EnableCheck name (CallerUpdate patch), s)
      | Some False \<Rightarrow> (DisableMark name (CallerUpdate patch), s))"

definition update_check :: "string \<Rightarrow> proxy_patch \<Rightarrow> nat option \<Rightarrow> lifecycle \<Rightarrow> task \<times> lifecycle" where
  "update_check name patch gen s =
     (if pp_connect_timeout_ms patch = Some 0 then fail (ControlInvalid ''connect timeout must be non-zero'') s
      else case map_of (ct_proxies s) name of
        None \<Rightarrow> not_found name s
      | Some entry \<Rightarrow>
          let spec = patched_spec patch (mp_spec entry) in
          (case proxy_spec_validate spec of
             Inl e \<Rightarrow> fail (map_validation e) s
           | Inr _ \<Rightarrow>
               if \<not> patch_restarts patch (mp_spec entry) \<or> \<not> mp_running entry
               then (UpdateWrite name spec gen, s)
               else (UpdateBind name spec gen, s)))"

definition update_view :: "string \<Rightarrow> nat \<Rightarrow> lifecycle \<Rightarrow> task \<times> lifecycle" where
  "update_view name g s =
     (case map_of (ct_proxies s) name of
        None \<Rightarrow> not_found name s
      | Some entry \<Rightarrow> (Finished (RView (view_of entry) g), s))"

definition update_write :: "string \<Rightarrow> proxy_spec \<Rightarrow> nat option \<Rightarrow> lifecycle \<Rightarrow> task \<times> lifecycle" where
  "update_write name spec gen s =
     (case map_of (ct_proxies s) name of
        None \<Rightarrow> not_found name s
      | Some entry \<Rightarrow>
          let entry' = entry\<lparr>mp_spec := keep_policies entry spec\<rparr> in
          view_returns entry' gen (put_entry name entry' s))"

fun update_bind :: "string \<Rightarrow> proxy_spec \<Rightarrow> nat option \<Rightarrow> bind_outcome \<Rightarrow> lifecycle \<Rightarrow> task \<times> lifecycle" where
  "update_bind name spec gen (Bound addr) s = (UpdateStop name spec addr gen, s)"
| "update_bind name spec gen (BindError reason) s =
     fail (RestartFailed name (''replacement bind failed ('' @ reason @ ''); old listener still serving'')) s"
| "update_bind name spec gen (AddrError reason) s =
     fail (RestartFailed name (''replacement bound but address unreadable: '' @ reason)) s"

definition update_stop :: "string \<Rightarrow> proxy_spec \<Rightarrow> socket_addr \<Rightarrow> nat option \<Rightarrow> lifecycle \<Rightarrow> task \<times> lifecycle" where
  "update_stop name spec addr gen s =
     (case map_of (ct_proxies s) name of
        None \<Rightarrow> not_found name s
      | Some entry \<Rightarrow>
          if \<not> mp_running entry
          then fail (ControlConflict (''proxy '' @ name @ '' is already being restarted'')) s
          else let (t, s1) = child_token s;
                   entry' = entry\<lparr>mp_running := False, mp_bound_addr := None, mp_cancel := t\<rparr>
               in (JoinWait name (mp_done entry) (ThenRestart spec addr gen),
                   cancel_token (mp_cancel entry) (put_entry name entry' s1)))"

definition update_spawn :: "string \<Rightarrow> proxy_spec \<Rightarrow> socket_addr \<Rightarrow> nat option \<Rightarrow> lifecycle \<Rightarrow> task \<times> lifecycle" where
  "update_spawn name spec addr gen s =
     (let (cancel, s1) = child_token s in
      case spawn_supervisor addr name cancel s1 of
        (Inl e, s2) \<Rightarrow> fail e s2
      | (Inr d, s2) \<Rightarrow> (UpdateCommit name spec addr cancel d gen, s2))"

definition update_commit :: "string \<Rightarrow> proxy_spec \<Rightarrow> socket_addr \<Rightarrow> nat \<Rightarrow> nat \<Rightarrow> nat option \<Rightarrow> lifecycle \<Rightarrow>
    task \<times> lifecycle" where
  "update_commit name spec addr cancel d gen s =
     (case map_of (ct_proxies s) name of
        None \<Rightarrow> (JoinWait name d (ThenError (NotFound name)), cancel_token cancel s)
      | Some entry \<Rightarrow>
          let entry' = entry\<lparr>mp_spec := keep_policies entry spec, mp_running := True, mp_bound_addr := Some addr,
                             mp_cancel := cancel, mp_done := d\<rparr>
          in view_returns entry' gen (put_entry name entry' s))"

text \<open>
  One step of a task, given the outcome of the bind it may perform. A join is \<open>None\<close> until the completion
  flag is set; a finished task makes no step.
\<close>

fun task_step :: "bind_outcome \<Rightarrow> task \<Rightarrow> lifecycle \<Rightarrow> (task \<times> lifecycle) option" where
  "task_step b (CreateCheck spec) s = Some (create_check spec s)"
| "task_step b (CreateBind spec) s = Some (create_bind spec b s)"
| "task_step b (CreateSpawn spec addr) s = Some (create_spawn spec addr s)"
| "task_step b (CreateInsert name entry) s = Some (create_insert name entry s)"
| "task_step b (DeleteMark name) s = Some (delete_mark name s)"
| "task_step b (EnableCheck name k) s = Some (enable_check name k s)"
| "task_step b (DisableMark name k) s = Some (disable_mark name k s)"
| "task_step b (StartBind name spec k) s = Some (start_bind name spec k b s)"
| "task_step b (StartSpawn name addr k) s = Some (start_spawn name addr k s)"
| "task_step b (StartCommit name addr cancel d k) s = Some (start_commit name addr cancel d k s)"
| "task_step b StartAllBegin s = Some (start_all_begin s)"
| "task_step b (StartAllNext names err) s = Some (start_all_next names err s)"
| "task_step b (UpdateStart name patch) s = Some (update_start name patch s)"
| "task_step b (UpdateCheck name patch gen) s = Some (update_check name patch gen s)"
| "task_step b (UpdateView name g) s = Some (update_view name g s)"
| "task_step b (UpdateWrite name spec gen) s = Some (update_write name spec gen s)"
| "task_step b (UpdateBind name spec gen) s = Some (update_bind name spec gen b s)"
| "task_step b (UpdateStop name spec addr gen) s = Some (update_stop name spec addr gen s)"
| "task_step b (UpdateSpawn name spec addr gen) s = Some (update_spawn name spec addr gen s)"
| "task_step b (UpdateCommit name spec addr cancel d gen) s = Some (update_commit name spec addr cancel d gen s)"
| "task_step b (JoinWait name d after) s = (if finished_flag d s then Some (UntrackThen name after, s) else None)"
| "task_step b (UntrackThen name after) s = Some (join_returns name after (untrack name s))"
| "task_step b (Finished r) s = None"
| "task_step b Panicked s = None"

section \<open>Interleavings\<close>

text \<open>
  The calls in flight, the supervisors, the plan operations and shutdown, in any order. A new call may
  start at any time.
\<close>

fun fresh_call :: "task \<Rightarrow> bool" where
  "fresh_call (CreateCheck spec) = True"
| "fresh_call (DeleteMark name) = True"
| "fresh_call (EnableCheck name CallerApi) = True"
| "fresh_call (DisableMark name CallerApi) = True"
| "fresh_call StartAllBegin = True"
| "fresh_call (UpdateStart name patch) = True"
| "fresh_call _ = False"

inductive life_step :: "task list \<times> lifecycle \<Rightarrow> task list \<times> lifecycle \<Rightarrow> bool" where
  call: "fresh_call t \<Longrightarrow> life_step (ts, s) (ts @ [t], s)"
| run: "i < length ts \<Longrightarrow> task_step b (ts ! i) s = Some (t', s') \<Longrightarrow> life_step (ts, s) (ts[i := t'], s')"
| supervise: "supervisor_step ev d s = Some s' \<Longrightarrow> life_step (ts, s) (ts, s')"
| edit: "op_plans_ok op \<Longrightarrow> life_step (ts, s) (ts, control_apply op s)"
| shutdown: "life_step (ts, s) (ts, initiate_shutdown s)"

inductive_cases life_stepE: "life_step x y"

abbreviation life_steps :: "task list \<times> lifecycle \<Rightarrow> task list \<times> lifecycle \<Rightarrow> bool" where
  "life_steps \<equiv> life_step\<^sup>*\<^sup>*"

end
