(* ===== verification/LifecycleProps.thy ===== *)
theory LifecycleProps
  imports Lifecycle
begin

text \<open>
  What the lifecycle operations guarantee in every interleaving, and interleavings in which they do not
  do what they document.
\<close>

section \<open>Schedules\<close>

text \<open>A schedule that can be evaluated, and that every evaluated schedule is a run of the system.\<close>

datatype action =
    ACall task
  | ARun nat bind_outcome
  | ASupervise sv_event nat
  | AEdit plan_op

fun act :: "action \<Rightarrow> task list \<times> lifecycle \<Rightarrow> (task list \<times> lifecycle) option" where
  "act (ACall t) (ts, s) = (if fresh_call t then Some (ts @ [t], s) else None)"
| "act (ARun i b) (ts, s) =
     (if i < length ts then map_option (\<lambda>(t', s'). (ts[i := t'], s')) (task_step b (ts ! i) s) else None)"
| "act (ASupervise ev d) (ts, s) = map_option (Pair ts) (supervisor_step ev d s)"
| "act (AEdit op) (ts, s) = (if op_plans_ok op then Some (ts, control_apply op s) else None)"

fun acts :: "action list \<Rightarrow> task list \<times> lifecycle \<Rightarrow> (task list \<times> lifecycle) option" where
  "acts [] x = Some x"
| "acts (a # as) x = (case act a x of None \<Rightarrow> None | Some y \<Rightarrow> acts as y)"

lemma act_step: "act a x = Some y \<Longrightarrow> life_step x y"
  by (cases a; cases x) (auto intro: life_step.intros split: if_splits)

lemma acts_steps: "acts as x = Some y \<Longrightarrow> life_steps x y"
proof (induction as arbitrary: x)
  case (Cons a as)
  then obtain z where "act a x = Some z" "acts as z = Some y" by (auto split: option.splits)
  then show ?case using act_step Cons.IH converse_rtranclp_into_rtranclp by metis
qed simp

section \<open>Identities and completion flags\<close>

text \<open>
  Identities of supervisors are never reused, completion flags are never cleared, and a supervisor past its flag accepts no
  connection any more.
\<close>

definition accepted_by :: "nat \<Rightarrow> lifecycle \<Rightarrow> (nat \<times> proxy_spec) list" where
  "accepted_by d s = filter (\<lambda>a. fst a = d) (lc_accepts s)"

definition grows :: "lifecycle \<Rightarrow> lifecycle \<Rightarrow> bool" where
  "grows s s' = (ct_fresh s \<le> ct_fresh s' \<and>
     (\<forall>d. map_of (lc_supers s') d \<noteq> None \<longrightarrow> map_of (lc_supers s) d \<noteq> None \<or> ct_fresh s \<le> d \<and> d < ct_fresh s') \<and>
     (\<forall>d. finished_flag d s \<longrightarrow> d < ct_fresh s \<longrightarrow> finished_flag d s' \<and> accepted_by d s' = accepted_by d s))"

lemma grows_refl [simp]: "grows s s"
  by (simp add: grows_def)

lemma grows_trans: "grows a b \<Longrightarrow> grows b c \<Longrightarrow> grows a c"
  unfolding grows_def by (metis le_trans less_le_trans)

lemma grows_same: "ct_fresh s \<le> ct_fresh s' \<Longrightarrow> lc_supers s' = lc_supers s \<Longrightarrow> lc_accepts s' = lc_accepts s \<Longrightarrow> grows s s'"
  by (simp add: grows_def finished_flag_def accepted_by_def)

lemma grows_spawn: "spawn_supervisor addr name cancel s = (r, s') \<Longrightarrow> grows s s'"
  by (auto simp: spawn_supervisor_def cancel_token_def grows_def finished_flag_def accepted_by_def Let_def split: if_splits)

lemma same_supers [simp]:
  "lc_supers (cancel_token t s) = lc_supers s" "lc_accepts (cancel_token t s) = lc_accepts s" "ct_fresh (cancel_token t s) = ct_fresh s"
  "lc_supers (put_entry n e s) = lc_supers s" "lc_accepts (put_entry n e s) = lc_accepts s" "ct_fresh (put_entry n e s) = ct_fresh s"
  "lc_supers (snd (next_generation s)) = lc_supers s" "lc_accepts (snd (next_generation s)) = lc_accepts s" "ct_fresh (snd (next_generation s)) = ct_fresh s"
  "lc_supers (untrack n s) = lc_supers s" "lc_accepts (untrack n s) = lc_accepts s" "ct_fresh (untrack n s) = ct_fresh s"
  "lc_supers (snd (child_token s)) = lc_supers s" "lc_accepts (snd (child_token s)) = lc_accepts s" "ct_fresh (snd (child_token s)) = Suc (ct_fresh s)"
  by (simp_all add: cancel_token_def put_entry_def next_generation_def untrack_def child_token_def Let_def split: option.split)

lemma same_supers_start [simp]:
  "lc_supers (snd (start_returns n k r s)) = lc_supers s" "lc_accepts (snd (start_returns n k r s)) = lc_accepts s" "ct_fresh (snd (start_returns n k r s)) = ct_fresh s"
  by (cases k; cases r; simp add: fail_def case_prod_unfold Let_def)+

lemma same_supers_view [simp]:
  "lc_supers (snd (view_returns e g s)) = lc_supers s" "lc_accepts (snd (view_returns e g s)) = lc_accepts s" "ct_fresh (snd (view_returns e g s)) = ct_fresh s"
  by (simp_all add: view_returns_def case_prod_unfold Let_def split: option.split)

lemma same_supers_join [simp]:
  "lc_supers (snd (join_returns n a s)) = lc_supers s" "lc_accepts (snd (join_returns n a s)) = lc_accepts s" "ct_fresh (snd (join_returns n a s)) = ct_fresh s"
  by (cases a; simp add: fail_def case_prod_unfold Let_def)+

lemma grows_via_spawn: "grows s s1 \<Longrightarrow> spawn_supervisor addr name cancel s1 = (r, s2) \<Longrightarrow> grows s2 s3 \<Longrightarrow> grows s s3"
  using grows_spawn grows_trans by blast

lemma task_step_grows:
  assumes "task_step b t s = Some (t', s')"
  shows "grows s s'"
proof -
  show ?thesis
  proof (cases t)
    case (CreateSpawn spec addr)
    obtain r s2 where sp: "spawn_supervisor addr (ps_name spec) (ct_fresh s) (s\<lparr>ct_fresh := ct_fresh s + 4\<rparr>) = (r, s2)" by fastforce
    have "grows s s2" by (rule grows_trans [OF grows_same grows_spawn [OF sp]]) simp_all
    moreover have "s' = s \<or> s' = s2" using assms CreateSpawn sp
      by (cases r) (auto simp: create_spawn_def new_entry_def fail_def Let_def split: option.splits)
    ultimately show ?thesis by auto
  next
    case (StartSpawn name addr k)
    obtain r s2 where sp: "spawn_supervisor addr name (ct_fresh s) (snd (child_token s)) = (r, s2)" by fastforce
    have g: "grows s s2" by (rule grows_trans [OF grows_same grows_spawn [OF sp]]) simp_all
    have "s' = s2 \<or> (ct_fresh s' = ct_fresh s2 \<and> lc_supers s' = lc_supers s2 \<and> lc_accepts s' = lc_accepts s2) \<or>
        (ct_fresh s' = ct_fresh s \<and> lc_supers s' = lc_supers s \<and> lc_accepts s' = lc_accepts s)"
      using assms StartSpawn sp
      by (cases r) (auto simp: start_spawn_def child_token_def dest!: arg_cong [of _ _ snd] split: if_splits)
    then show ?thesis using g grows_trans [OF g grows_same [of s2 s']] grows_same [of s s'] by auto
  next
    case (UpdateSpawn name spec addr gen)
    obtain r s2 where sp: "spawn_supervisor addr name (ct_fresh s) (snd (child_token s)) = (r, s2)" by fastforce
    have "s' = s2" using assms UpdateSpawn sp by (cases r) (auto simp: update_spawn_def child_token_def fail_def)
    moreover have "grows s s2" by (rule grows_trans [OF grows_same grows_spawn [OF sp]]) simp_all
    ultimately show ?thesis by simp
  next
    case (CreateBind spec)
    then show ?thesis using assms by (cases b) (auto simp: fail_def)
  next
    case (UpdateBind name spec gen)
    then show ?thesis using assms by (cases b) (auto simp: fail_def)
  next
    case (StartAllNext names err)
    then show ?thesis using assms by (cases names) (auto simp: fail_def split: option.splits)
  qed (use assms in \<open>auto simp: create_check_def create_insert_def delete_mark_def enable_check_def disable_mark_def start_bind_def
      start_commit_def start_all_begin_def update_start_def update_check_def update_view_def update_write_def update_stop_def
      update_commit_def fail_def not_found_def child_token_def Let_def intro!: grows_same
      split: if_splits option.splits sum.splits bind_outcome.splits bool.splits dest!: arg_cong [of _ _ snd]\<close>)
qed


lemma supervisor_step_grows:
  assumes "supervisor_step ev d s = Some s'"
  shows "grows s s'"
proof -
  obtain sv phase where sv: "map_of (lc_supers s) d = Some sv" "sv_next ev sv s = Some phase"
    and s': "lc_supers s' = btree_adjust d (\<lambda>sv. sv\<lparr>sv_phase := phase\<rparr>) (lc_supers s)" "ct_fresh s' = ct_fresh s"
    "lc_accepts s' = lc_accepts s \<or> (\<exists>entry. sv_phase sv = SvWaiting entry \<and> lc_accepts s' = lc_accepts s @ [(d, mp_spec entry)])"
    using assms by (auto simp: supervisor_step_def Let_def split: option.splits sv_phase.splits sv_event.splits)
  have acc: "accepted_by k s' = accepted_by k s" if "finished_flag k s" for k
    using that s'(3) sv(1) by (auto simp: accepted_by_def finished_flag_def)
  have "phase = SvExited" if "sv_phase sv = SvDone" using sv(2) that by simp
  moreover have "sv_phase sv \<noteq> SvExited" using sv(2) by auto
  ultimately have "finished_flag k s'" if "finished_flag k s" for k using sv(1) s' that
    by (auto simp: finished_flag_def map_of_btree_adjust split: option.splits)
  then show ?thesis using sv(1) s' acc by (auto simp: grows_def map_of_btree_adjust split: option.splits)
qed

lemma lc_supers_fold: "lc_supers (adjust_spec n f s) = lc_supers s" "lc_supers (insert_stopped p s) = lc_supers s"
    "lc_accepts (adjust_spec n f s) = lc_accepts s" "lc_accepts (insert_stopped p s) = lc_accepts s"
    "lc_supers (s\<lparr>ct_generation := g\<rparr>) = lc_supers s" "ct_fresh (insert_stopped p s) = ct_fresh s + 4"
  by (simp_all add: adjust_spec_def insert_stopped_def)

lemma publish_and_mirror_supers: "lc_supers (snd (publish_and_mirror n d p b s)) = lc_supers s \<and> ct_fresh (snd (publish_and_mirror n d p b s)) = ct_fresh s \<and>
    lc_accepts (snd (publish_and_mirror n d p b s)) = lc_accepts s"
  by (simp add: publish_and_mirror_def next_generation_def lc_supers_fold Let_def split: prod.split sum.split)

lemma publish_and_mirror_supersD: "publish_and_mirror n d p b s = (r, s') \<Longrightarrow> lc_supers s' = lc_supers s \<and> ct_fresh s' = ct_fresh s \<and> lc_accepts s' = lc_accepts s"
  using publish_and_mirror_supers [of n d p b s] by simp

lemma update_fault_in_supers: "lc_supers (snd (update_fault_in dirs n e i pt s)) = lc_supers s \<and> ct_fresh (snd (update_fault_in dirs n e i pt s)) = ct_fresh s \<and>
    lc_accepts (snd (update_fault_in dirs n e i pt s)) = lc_accepts s"
  by (induction dirs) (auto simp: Let_def dest!: publish_and_mirror_supersD split: option.split sum.split prod.split)

lemma remove_fault_in_supers: "lc_supers (snd (remove_fault_in dirs n e i s)) = lc_supers s \<and> ct_fresh (snd (remove_fault_in dirs n e i s)) = ct_fresh s \<and>
    lc_accepts (snd (remove_fault_in dirs n e i s)) = lc_accepts s"
  by (induction dirs) (auto simp: Let_def publish_and_mirror_supers split: sum.split)

lemma control_apply_supers: "lc_supers (control_apply op s) = lc_supers s \<and> lc_accepts (control_apply op s) = lc_accepts s \<and>
    ct_fresh s \<le> ct_fresh (control_apply op s)"
proof (cases op)
  case (OpAdd n u)
  then show ?thesis
    by (auto simp: add_fault_def Let_def dest!: publish_and_mirror_supersD split: option.split sum.split prod.split)
next
  case (OpUpdate n i pt)
  then show ?thesis by (simp add: update_fault_def update_fault_in_supers del: update_fault_in.simps split: option.split)
next
  case (OpRemove n i)
  then show ?thesis by (simp add: remove_fault_def remove_fault_in_supers del: remove_fault_in.simps split: option.split)
next
  case (OpPublish n u d)
  then show ?thesis by (simp add: publish_plans_def Let_def next_generation_def lc_supers_fold split: option.split sum.split prod.split)
next
  case (OpPublishExpected n x)
  then show ?thesis by (simp add: publish_plans_expected_def Let_def next_generation_def lc_supers_fold split: option.split sum.split prod.split)
next
  case (OpPublishDirection n d p ns x)
  then show ?thesis
    by (simp add: publish_direction_expected_def Let_def next_generation_def lc_supers_fold split: option.split sum.split prod.split)
next
  case (OpImport p)
  then show ?thesis
    by (auto simp: import_definition_def Let_def next_generation_def lc_supers_fold split: option.split sum.split)
next
  case OpReset
  then show ?thesis by (simp add: reset_plans_def)
qed

lemma life_step_grows: "life_step x y \<Longrightarrow> grows (snd x) (snd y)"
  by (induction rule: life_step.induct)
    (auto intro: task_step_grows supervisor_step_grows grows_same simp: control_apply_supers initiate_shutdown_def)

lemma life_steps_grow: "life_steps x y \<Longrightarrow> grows (snd x) (snd y)"
  by (induction rule: rtranclp_induct) (auto intro: grows_trans life_step_grows)

definition ids_fresh :: "lifecycle \<Rightarrow> bool" where
  "ids_fresh s = (\<forall>d. map_of (lc_supers s) d \<noteq> None \<longrightarrow> d < ct_fresh s)"

lemma grows_ids_fresh: "grows s s' \<Longrightarrow> ids_fresh s \<Longrightarrow> ids_fresh s'"
  unfolding grows_def ids_fresh_def by (meson less_le_trans)

lemma reachable_ids_fresh:
  assumes "life_steps ([], lifecycle_start seed) (ts, s)"
  shows "ids_fresh s"
proof -
  have "ids_fresh (lifecycle_start seed)" by (simp add: ids_fresh_def lifecycle_start_def)
  then show ?thesis using life_steps_grow [OF assms] grows_ids_fresh by simp
qed

text \<open>A flag that belongs to no supervisor and is not fresh stays unset, so a join on it stays where it is.\<close>

lemma blocked_step:
  assumes "life_step (ts, s) (us, s')" "ts ! i = JoinWait name d after" "i < length ts"
    "map_of (lc_supers s) d = None" "d < ct_fresh s"
  shows "us ! i = JoinWait name d after \<and> i < length us \<and> map_of (lc_supers s') d = None \<and> d < ct_fresh s'"
proof -
  have "\<not> finished_flag d s" using assms(4) by (simp add: finished_flag_def)
  moreover have g: "grows s s'" using life_step_grows [OF assms(1)] by simp
  moreover have "map_of (lc_supers s') d = None" using g assms(4,5) unfolding grows_def by (meson not_le)
  moreover have "d < ct_fresh s'" using g assms(5) by (auto simp: grows_def)
  ultimately show ?thesis using assms(1-3)
    by (auto elim!: life_stepE simp: nth_append nth_list_update split: if_splits)
qed

lemma blocked_steps:
  assumes "life_steps (ts, s) (us, s')" "ts ! i = JoinWait name d after" "i < length ts"
    "map_of (lc_supers s) d = None" "d < ct_fresh s"
  shows "us ! i = JoinWait name d after \<and> i < length us \<and> map_of (lc_supers s') d = None"
proof -
  have "us ! i = JoinWait name d after \<and> i < length us \<and> map_of (lc_supers s') d = None \<and> d < ct_fresh s'"
    using assms(1)
  proof (induction us s' rule: rtranclp_induct2)
    case refl
    then show ?case using assms by simp
  next
    case (step us s' vs s'')
    then show ?case using blocked_step by blast
  qed
  then show ?thesis by blast
qed

lemma flag_monotone:
  assumes "life_steps x y" "finished_flag d (snd x)" "ids_fresh (snd x)"
  shows "finished_flag d (snd y)" "accepted_by d (snd y) = accepted_by d (snd x)"
proof -
  have "map_of (lc_supers (snd x)) d \<noteq> None" using assms(2) by (auto simp: finished_flag_def split: option.splits)
  then have "d < ct_fresh (snd x)" using assms(3) by (auto simp: ids_fresh_def)
  then show "finished_flag d (snd y)" "accepted_by d (snd y) = accepted_by d (snd x)"
    using life_steps_grow [OF assms(1)] assms(2) by (simp_all add: grows_def)
qed


section \<open>Joins\<close>

lemma run_keeps_length: "life_steps (ts, s) (us, s') \<Longrightarrow> length ts \<le> length us"
  by (induction us s' rule: rtranclp_induct2) (auto elim!: life_stepE)

text \<open>The way of a delete from its join to its result.\<close>

fun deleting :: "string \<Rightarrow> nat \<Rightarrow> task \<Rightarrow> lifecycle \<Rightarrow> bool" where
  "deleting name d (JoinWait n k ThenGeneration) s = (n = name \<and> k = d)"
| "deleting name d (UntrackThen n ThenGeneration) s = (n = name \<and> finished_flag d s)"
| "deleting name d (Finished (RGeneration g)) s = finished_flag d s"
| "deleting name d _ s = False"

lemma deleting_cases:
  assumes "deleting name d t s"
  obtains "t = JoinWait name d ThenGeneration" | "t = UntrackThen name ThenGeneration" "finished_flag d s"
    | g where "t = Finished (RGeneration g)" "finished_flag d s"
  using assms by (cases "(name, d, t, s)" rule: deleting.cases) auto

lemma deleting_flag:
  assumes "deleting name d t s" "finished_flag d s \<Longrightarrow> finished_flag d s'"
  shows "deleting name d t s'"
  using assms(1) by (rule deleting_cases) (use assms(2) in auto)

lemma deleting_run:
  assumes "task_step b t s = Some (t', s')" "deleting name d t s" "finished_flag d s \<Longrightarrow> finished_flag d s'"
  shows "deleting name d t' s'"
  using assms(2) by (rule deleting_cases) (use assms(1,3) in \<open>auto split: if_splits prod.splits\<close>)

lemma deleting_step:
  assumes "life_step (ts, s) (us, s')" "deleting name d (ts ! i) s" "i < length ts" "ids_fresh s"
  shows "deleting name d (us ! i) s'"
proof -
  have "life_steps (ts, s) (us, s')" using assms(1) by blast
  then have flag: "finished_flag d s \<Longrightarrow> finished_flag d s'" using flag_monotone(1) [of "(ts, s)" "(us, s')" d] assms(4) by simp
  note kept = deleting_flag [OF assms(2) flag]
  show ?thesis
  proof (cases "us ! i = ts ! i")
    case False
    then obtain b where st: "task_step b (ts ! i) s = Some (us ! i, s')" using assms(1,3)
      by (auto elim!: life_stepE simp: nth_append nth_list_update split: if_splits)
    show ?thesis by (rule deleting_run [OF st assms(2) flag])
  qed (use kept in simp)
qed

lemma deleting_steps:
  assumes "life_steps ([], lifecycle_start seed) (ts, s)" "deleting name d (ts ! i) s" "i < length ts" "life_steps (ts, s) (us, s')"
  shows "deleting name d (us ! i) s'"
  using assms(4)
proof (induction us s' rule: rtranclp_induct2)
  case (step us s' vs s'')
  have "ids_fresh s'" using reachable_ids_fresh assms(1) step.hyps(1) by (metis rtranclp_trans)
  then show ?case using deleting_step [OF step.hyps(2) step.IH] run_keeps_length [OF step.hyps(1)] assms(3) by simp
qed (use assms(2) in simp)

text \<open>
  C14. A delete stops its listener. Whatever other calls, supervisors, plan edits and shutdown do meanwhile, a
  delete that found its proxy takes it out of the table and cancels its token at once, and when the call returns it
  reports a generation, the supervisor of the deleted entry has set its completion flag, and that supervisor
  accepts no connection any more, ever.
\<close>

theorem delete_stops_listener:
  assumes "life_steps ([], lifecycle_start seed) (ts, s)" "i < length ts" "ts ! i = DeleteMark name"
    "map_of (ct_proxies s) name = Some entry" "task_step b (ts ! i) s = Some (t', s1)"
    "life_steps (ts[i := t'], s1) (us, s2)" "us ! i = Finished r" "life_steps (us, s2) (vs, s3)"
  shows "map_of (ct_proxies s1) name = None \<and> is_cancelled (mp_cancel entry) s1 \<and> (\<exists>g. r = RGeneration g) \<and>
    finished_flag (mp_done entry) s2 \<and> accepted_by (mp_done entry) s3 = accepted_by (mp_done entry) s2"
proof -
  have del: "delete_mark name s = (t', s1)" using assms(3,5) by simp
  then have t': "t' = JoinWait name (mp_done entry) ThenGeneration"
    and s1: "s1 = cancel_token (mp_cancel entry) (s\<lparr>ct_proxies := btree_remove name (ct_proxies s)\<rparr>)"
    using assms(4) by (simp_all add: delete_mark_def)
  have start: "life_steps ([], lifecycle_start seed) (ts[i := t'], s1)"
    using assms(1) life_step.run [OF assms(2,5)] by (rule rtranclp.rtrancl_into_rtrancl)
  have d: "deleting name (mp_done entry) (us ! i) s2"
    by (rule deleting_steps [OF start _ _ assms(6)]) (use assms(2) t' in simp_all)
  then have fin: "finished_flag (mp_done entry) s2" "\<exists>g. r = RGeneration g" using assms(7) by (auto elim: deleting_cases)
  have "ids_fresh s2" using reachable_ids_fresh start assms(6) by (metis rtranclp_trans)
  then have "accepted_by (mp_done entry) s3 = accepted_by (mp_done entry) s2"
    using flag_monotone(2) [OF assms(8)] fin(1) by simp
  moreover have "map_of (ct_proxies s1) name = None" "is_cancelled (mp_cancel entry) s1"
    by (simp_all add: s1 cancel_token_def is_cancelled_def map_of_btree_remove)
  ultimately show ?thesis using fin by simp
qed

lemma map_of_btree_insert_same: "map_of (btree_insert k v m) k = Some v"
  by (induction m rule: btree_insert.induct) auto

lemma init_policies_name: "init_policies seed p = Some p' \<Longrightarrow> ps_name p' = ps_name p"
  by (auto simp: init_policies_def Let_def split: option.splits)

text \<open>
  A definition that was imported and never started has a completion flag that no supervisor will set: a
  delete that finds it in this state never returns, whatever else the system does. \<^verbatim>\<open>delete_proxy\<close>
  documents that success is reported once the runtime transition commits; here neither success nor failure
  ever is.
\<close>

theorem delete_unstarted_hangs:
  assumes "life_steps ([], lifecycle_start seed) (ts, s)" "import_definition spec s = Some (Inr g, s1)"
    "delete_mark (ps_name spec) s1 = (t, s2)" "life_steps (ts @ [t], s2) (us, s3)"
  shows "us ! length ts = t \<and> (\<exists>d. t = JoinWait (ps_name spec) d ThenGeneration) \<and> task_step b t s3 = None"
proof -
  obtain live where live: "init_policies (ct_seed s) spec = Some live" "s1 = snd (next_generation (insert_stopped live s))"
    using assms(2) by (auto simp: import_definition_def case_prod_unfold Let_def split: sum.splits option.splits if_splits)
  let ?entry = "new_entry live False None (ct_fresh s)"
  have "map_of (ct_proxies s1) (ps_name spec) = Some ?entry"
    using init_policies_name [OF live(1)] by (simp add: live(2) insert_stopped_def map_of_btree_insert_same)
  then have t: "t = JoinWait (ps_name spec) (Suc (ct_fresh s)) ThenGeneration"
    and s2: "s2 = cancel_token (mp_cancel ?entry) (s1\<lparr>ct_proxies := btree_remove (ps_name spec) (ct_proxies s1)\<rparr>)"
    using assms(3) by (simp_all add: delete_mark_def new_entry_def)
  have "map_of (lc_supers s) (Suc (ct_fresh s)) = None"
    using reachable_ids_fresh [OF assms(1)] unfolding ids_fresh_def by (metis Suc_n_not_le_n less_imp_le option.exhaust)
  then have "map_of (lc_supers s2) (Suc (ct_fresh s)) = None" "Suc (ct_fresh s) < ct_fresh s2"
    by (simp_all add: s2 live(2) lc_supers_fold)
  from blocked_steps [OF assms(4), of "length ts", OF _ _ this] show ?thesis
    by (auto simp: t finished_flag_def)
qed

lemma example_start: "import_definition example_proxy (lifecycle_start 5) = Some (Inr 2, snd (next_generation (insert_stopped example_live (lifecycle_start 5))))"
proof -
  have "init_policies 5 example_proxy = Some example_live"
    by (simp add: init_policies_def live_policy_new_ok example_proxy_def example_live_def)
  then show ?thesis
    by (simp add: import_definition_def example_proxy_valid lifecycle_start_def insert_stopped_def next_generation_def Let_def)
qed

theorem delete_unstarted_hangs_witness:
  "\<exists>s1 t s2. import_definition example_proxy (lifecycle_start 5) = Some (Inr 2, s1) \<and> delete_mark ''db'' s1 = (t, s2) \<and>
     (\<forall>us s3 b. life_steps ([t], s2) (us, s3) \<longrightarrow> us ! 0 = t \<and> task_step b t s3 = None)"
proof -
  obtain t s2 where del: "delete_mark ''db'' (snd (next_generation (insert_stopped example_live (lifecycle_start 5)))) = (t, s2)" by fastforce
  have name: "ps_name example_proxy = ''db''" by (simp add: example_proxy_def)
  have "us ! 0 = t \<and> task_step b t s3 = None" if "life_steps ([t], s2) (us, s3)" for us s3 b
    using delete_unstarted_hangs [where ts = "[]", OF _ example_start, of 5 t s2 us s3 b] that del by (simp add: name)
  then show ?thesis using example_start del by blast
qed


section \<open>Interleavings that break a promise\<close>

abbreviation port_1 :: socket_addr where "port_1 \<equiv> SocketV4 2130706433 40001"
abbreviation port_2 :: socket_addr where "port_2 \<equiv> SocketV4 2130706433 40002"

lemma example_init: "init_policies 5 example_proxy = Some example_live" "ps_name example_proxy = ''db''"
  by (simp_all add: init_policies_def live_policy_new_ok example_proxy_def example_live_def)

lemmas schedule_simps = create_check_def create_spawn_def create_insert_def spawn_supervisor_def supervisor_step_def
  view_returns_def put_entry_def cancel_token_def child_token_def next_generation_def is_cancelled_def new_entry_def
  example_proxy_valid example_init lifecycle_start_def btree_adjust_def Let_def

definition create_race :: "action list" where
  "create_race = [ACall (CreateCheck example_proxy), ARun 0 (Bound port_1), ARun 0 (Bound port_1), ARun 0 (Bound port_1),
     ASupervise SvPoll 5, ASupervise SvPoll 5, ARun 0 (Bound port_1)]"

text \<open>
  \<^verbatim>\<open>create_proxy\<close> spawns the supervisor before it stores the entry, and a supervisor that finds no entry of
  its name exits and closes its listener. When the supervisor runs first, the call still succeeds: it
  returns a view with a bound address that says the proxy is running, the table says so too, and the
  supervisor has exited. The documented order is the opposite: a successful creation reflects an actual
  listener, never a map entry alone.
\<close>

theorem created_without_listener:
  "\<exists>s view entry sv. life_steps ([], lifecycle_start 5) ([Finished (RView view 2)], s) \<and>
     pv_running view \<and> pv_bound_addr view = Some port_1 \<and>
     map_of (ct_proxies s) ''db'' = Some entry \<and> mp_running entry \<and>
     map_of (lc_supers s) (mp_done entry) = Some sv \<and> sv_phase sv = SvExited \<and>
     (\<forall>d sv. map_of (lc_supers s) d = Some sv \<longrightarrow> sv_phase sv = SvExited)"
proof -
  have "\<exists>s view entry sv. acts create_race ([], lifecycle_start 5) = Some ([Finished (RView view 2)], s) \<and>
     pv_running view \<and> pv_bound_addr view = Some port_1 \<and>
     map_of (ct_proxies s) ''db'' = Some entry \<and> mp_running entry \<and>
     map_of (lc_supers s) (mp_done entry) = Some sv \<and> sv_phase sv = SvExited \<and>
     (\<forall>d sv. map_of (lc_supers s) d = Some sv \<longrightarrow> sv_phase sv = SvExited)"
    by (simp add: create_race_def schedule_simps view_of_def)
  then show ?thesis using acts_steps by blast
qed


definition enable_race :: "action list" where
  "enable_race =
     [AEdit (OpImport example_proxy), ACall (EnableCheck ''db'' CallerApi), ACall (EnableCheck ''db'' CallerApi),
      ARun 0 (Bound port_1), ARun 1 (Bound port_2), ARun 0 (Bound port_1), ARun 1 (Bound port_2),
      ARun 0 (Bound port_1), ARun 1 (Bound port_2), ARun 0 (Bound port_1), ARun 1 (Bound port_2),
      ASupervise SvPoll 6, ASupervise SvPoll 8,
      ACall (DisableMark ''db'' CallerApi), ARun 2 (Bound port_1), ASupervise SvPoll 8, ARun 2 (Bound port_1), ARun 2 (Bound port_1),
      ASupervise SvAccept 6]"

lemmas enable_simps = enable_check_def start_bind_def start_spawn_def start_commit_def disable_mark_def untrack_def
  handle_finished_def finished_flag_def control_generation_def import_definition_def insert_stopped_def

text \<open>
  \<^verbatim>\<open>set_enabled\<close> reads that the proxy is stopped, binds, and later overwrites the token and the completion
  flag of the entry without looking again. Two concurrent enables of a proxy on an ephemeral port leave
  the first supervisor owned by nobody: after a disable that ran to completion, it still accepts
  connections for the disabled proxy.
\<close>

theorem disabled_proxy_accepts:
  "\<exists>s entry spec g1 g2 g3. life_steps ([], lifecycle_start 5)
       ([Finished (RGeneration g1), Finished (RGeneration g2), Finished (RGeneration g3)], s) \<and>
     map_of (ct_proxies s) ''db'' = Some entry \<and> \<not> mp_running entry \<and> \<not> ps_enabled (mp_spec entry) \<and>
     lc_accepts s = [(6, spec)] \<and> ps_name spec = ''db'' \<and>
     mp_done entry \<noteq> 6 \<and> (\<exists>sv. map_of (lc_supers s) 6 = Some sv \<and> \<not> is_cancelled (sv_cancel sv) s)"
proof -
  have "\<exists>s entry spec g1 g2 g3. acts enable_race ([], lifecycle_start 5) =
       Some ([Finished (RGeneration g1), Finished (RGeneration g2), Finished (RGeneration g3)], s) \<and>
     map_of (ct_proxies s) ''db'' = Some entry \<and> \<not> mp_running entry \<and> \<not> ps_enabled (mp_spec entry) \<and>
     lc_accepts s = [(6, spec)] \<and> ps_name spec = ''db'' \<and>
     mp_done entry \<noteq> 6 \<and> (\<exists>sv. map_of (lc_supers s) 6 = Some sv \<and> \<not> is_cancelled (sv_cancel sv) s)"
    by (simp add: enable_race_def schedule_simps enable_simps)
  then show ?thesis using acts_steps by blast
qed

fun run_alone :: "bind_outcome \<Rightarrow> nat \<Rightarrow> task \<times> lifecycle \<Rightarrow> task \<times> lifecycle" where
  "run_alone b 0 x = x"
| "run_alone b (Suc n) (t, s) = (case task_step b t s of None \<Rightarrow> (t, s) | Some x \<Rightarrow> run_alone b n x)"

definition enable_with_zero_timeout :: proxy_patch where
  "enable_with_zero_timeout = \<lparr>pp_listen = None, pp_upstream = None, pp_enabled = Some True, pp_max_connections = None,
     pp_connect_timeout_ms = Some 0\<rparr>"

text \<open>
  \<^verbatim>\<open>update_proxy\<close> applies \<^verbatim>\<open>enabled\<close> before it checks the rest of the patch. A patch that enables a stopped
  proxy and has an invalid timeout is answered with an error, and the proxy is running afterwards: its
  listener is bound, its supervisor was started and the configuration generation has moved.
\<close>

theorem rejected_update_applied:
  assumes "map_of (ct_proxies s) name = Some entry" "\<not> mp_running entry" "\<not> lc_shutdown s"
  shows "\<exists>s' entry' sv. run_alone (Bound addr) 8 (UpdateStart name enable_with_zero_timeout, s) =
       (Finished (RError (ControlInvalid ''connect timeout must be non-zero'')), s') \<and>
     map_of (ct_proxies s') name = Some entry' \<and> mp_running entry' \<and> mp_bound_addr entry' = Some addr \<and>
     map_of (lc_supers s') (mp_done entry') = Some sv \<and> sv_phase sv = SvTop \<and> sv_cancel sv = mp_cancel entry' \<and>
     ct_generation s' = (ct_generation s + 1) mod 2 ^ 64"
proof -
  have eight: "(8 :: nat) = Suc (Suc (Suc (Suc (Suc (Suc (Suc (Suc 0)))))))" by simp
  show ?thesis unfolding eight using assms
    by (simp add: enable_with_zero_timeout_def update_start_def enable_check_def start_bind_def start_spawn_def
        start_commit_def update_check_def fail_def child_token_def spawn_supervisor_def put_entry_def next_generation_def
        patch_only_enabled_def map_of_btree_insert_same Let_def)
qed

theorem rejected_update_applied_witness:
  "\<exists>s entry. control_apply (OpImport example_proxy) (lifecycle_start 5) = s \<and> map_of (ct_proxies s) ''db'' = Some entry \<and> \<not> mp_running entry \<and>
     (\<exists>s' entry'. run_alone (Bound port_1) 8 (UpdateStart ''db'' enable_with_zero_timeout, s) =
       (Finished (RError (ControlInvalid ''connect timeout must be non-zero'')), s') \<and>
       map_of (ct_proxies s') ''db'' = Some entry' \<and> mp_running entry')"
proof -
  let ?s = "control_apply (OpImport example_proxy) (lifecycle_start 5)"
  have s: "map_of (ct_proxies ?s) ''db'' = Some (new_entry example_live False None 1)" "\<not> lc_shutdown ?s"
    unfolding control_apply.simps example_start
    by (simp_all add: insert_stopped_def lifecycle_start_def next_generation_def Let_def)
  have "\<not> mp_running (new_entry example_live False None 1)" by (simp add: new_entry_def)
  from rejected_update_applied [OF s(1) this s(2), of port_1] s(1) this show ?thesis by blast
qed

definition cap_connections :: proxy_patch where
  "cap_connections = \<lparr>pp_listen = None, pp_upstream = None, pp_enabled = None, pp_max_connections = Some (Some 5),
     pp_connect_timeout_ms = None\<rparr>"

definition update_race :: "action list" where
  "update_race =
     [AEdit (OpImport example_proxy), ACall (UpdateStart ''db'' cap_connections), ARun 0 (Bound port_1), ARun 0 (Bound port_1),
      AEdit (OpAdd ''db'' (example_upsert Upstream)), ARun 0 (Bound port_1)]"


lemma example_slow_plan:
  "fault_plan_new [example_latency ''slow''] = Inr \<lparr>plan_faults = [example_latency ''slow'']\<rparr>"
  "plan_validate \<lparr>plan_faults = [example_latency ''slow'']\<rparr> = Inr ()"
  by (simp_all add: fault_plan_new_iff plan_validate_iff plan_ok_def MAX_STREAM_FAULTS_def)

lemma example_capped: "proxy_spec_validate (patched_spec cap_connections example_live) = Inr ()"
proof -
  have ok: "plan_validate empty_plan = Inr ()" by (simp add: plan_validate_iff)
  have "list_all name_byte_ok ''db''" by (simp add: name_byte_ok_def)
  moreover have "\<not> forbidden_target (SocketV4 167772161 5432)" "\<not> forbidden_listener (SocketV4 2130706433 0)"
    by (simp_all add: v4_is_multicast_def v4_is_broadcast_def)
  ultimately show ?thesis
    by (simp add: proxy_spec_validate_def patched_spec_def cap_connections_def example_live_def example_proxy_def ok MAX_CONTROL_TIMEOUT_MS_def)
qed

text \<open>
  \<^verbatim>\<open>update_proxy\<close> writes back the definition it read before, mirrors included. A fault that was added in
  between stays in the live policy and disappears from the mirror, although the code notes that plans and
  policies stay synchronized here by construction.
\<close>

theorem update_desynchronizes:
  "\<exists>s entry view g. life_steps ([], lifecycle_start 5) ([Finished (RView view g)], s) \<and>
     map_of (ct_proxies s) ''db'' = Some entry \<and>
     pub_plan (spec_policy Upstream (mp_spec entry)) = \<lparr>plan_faults = [example_latency ''slow'']\<rparr> \<and>
     spec_mirror Upstream (mp_spec entry) = empty_plan"
proof -
  have patch: "pp_enabled cap_connections = None" "pp_connect_timeout_ms cap_connections = None" "\<not> patch_restarts cap_connections p" for p
    by (simp_all add: cap_connections_def patch_restarts_def)
  have plan: "plan_get empty_plan i = None" "plan_faults empty_plan = []" "fu_direction (example_upsert d) = d" for i d
    by (simp_all add: plan_get_def empty_plan_def example_upsert_def)
  have mirror: "spec_mirror Upstream (keep_policies e (patched_spec cap_connections example_live)) = empty_plan"
    "spec_policy Upstream (keep_policies e p) = spec_policy Upstream (mp_spec e)" for e p
    by (simp_all add: keep_policies_def patched_spec_def cap_connections_def example_live_def example_proxy_def
        spec_mirror.simps spec_policy.simps)
  have "\<exists>s entry view g. acts update_race ([], lifecycle_start 5) = Some ([Finished (RView view g)], s) \<and>
     map_of (ct_proxies s) ''db'' = Some entry \<and>
     pub_plan (spec_policy Upstream (mp_spec entry)) = \<lparr>plan_faults = [example_latency ''slow'']\<rparr> \<and>
     spec_mirror Upstream (mp_spec entry) = empty_plan"
    using example_slow_plan plan
    by (simp add: update_race_def schedule_simps enable_simps update_start_def update_check_def update_write_def patch example_capped
        mirror add_fault_def example_upsert_spec publish_and_mirror_def publish_def adjust_spec_def next_policy_def U64_MAX_def)
  then show ?thesis using acts_steps by blast
qed


definition stale_accept :: "action list" where
  "stale_accept =
     [ACall (CreateCheck example_proxy), ARun 0 (Bound port_1), ARun 0 (Bound port_1), ARun 0 (Bound port_1), ARun 0 (Bound port_1),
      ASupervise SvPoll 5, ACall (UpdateStart ''db'' cap_connections), ARun 1 (Bound port_1), ARun 1 (Bound port_1),
      ARun 1 (Bound port_1), ASupervise SvAccept 5]"

text \<open>
  The supervisor reads the entry before it waits for a connection, not when it accepts one. The first
  connection accepted after an update that has returned is therefore handled with the definition from
  before the update, although the loop states that updates apply to new connections: here the cap of five
  connections is in the table and in the returned view, and the connection is admitted without one.
\<close>

theorem update_misses_next_connection:
  "\<exists>s entry view view' g g' spec. life_steps ([], lifecycle_start 5) ([Finished (RView view g), Finished (RView view' g')], s) \<and>
     pv_max_connections view' = Some 5 \<and> map_of (ct_proxies s) ''db'' = Some entry \<and>
     ps_max_connections (mp_spec entry) = Some 5 \<and> lc_accepts s = [(mp_done entry, spec)] \<and> ps_max_connections spec = None"
proof -
  have patch: "pp_enabled cap_connections = None" "pp_connect_timeout_ms cap_connections = None" "\<not> patch_restarts cap_connections p" for p
    by (simp_all add: cap_connections_def patch_restarts_def)
  have caps: "ps_max_connections (keep_policies e (patched_spec cap_connections example_live)) = Some 5"
    "ps_max_connections example_live = None" "example_live\<lparr>ps_enabled := True\<rparr> = example_live" for e
    by (simp_all add: keep_policies_def patched_spec_def cap_connections_def example_live_def example_proxy_def)
  have "\<exists>s entry view view' g g' spec. acts stale_accept ([], lifecycle_start 5) =
       Some ([Finished (RView view g), Finished (RView view' g')], s) \<and>
     pv_max_connections view' = Some 5 \<and> map_of (ct_proxies s) ''db'' = Some entry \<and>
     ps_max_connections (mp_spec entry) = Some 5 \<and> lc_accepts s = [(mp_done entry, spec)] \<and> ps_max_connections spec = None"
    by (simp add: stale_accept_def schedule_simps enable_simps update_start_def update_check_def update_write_def patch caps
        example_capped view_of_def)
  then show ?thesis using acts_steps by blast
qed


definition delete_begins :: "action list" where
  "delete_begins =
     [ACall (CreateCheck example_proxy), ARun 0 (Bound port_1), ARun 0 (Bound port_1), ARun 0 (Bound port_1), ARun 0 (Bound port_1),
      ASupervise SvPoll 5, ASupervise SvAccept 5, ASupervise SvPoll 5, ACall (DeleteMark ''db'')]"

theorem delete_stops_listener_witness:
  "\<exists>ts s t' s1 us s2. life_steps ([], lifecycle_start 5) (ts, s) \<and> ts ! 1 = DeleteMark ''db'' \<and> \<not> finished_flag 5 s \<and>
     length (accepted_by 5 s) = 1 \<and> task_step (Bound port_1) (ts ! 1) s = Some (t', s1) \<and> life_steps (ts[1 := t'], s1) (us, s2) \<and>
     us ! 1 = Finished (RGeneration 3) \<and> finished_flag 5 s2"
proof -
  have "\<exists>ts s t' s1 us s2 entry. acts delete_begins ([], lifecycle_start 5) = Some (ts, s) \<and> length ts = 2 \<and> ts ! 1 = DeleteMark ''db'' \<and>
      \<not> finished_flag 5 s \<and> length (accepted_by 5 s) = 1 \<and> map_of (ct_proxies s) ''db'' = Some entry \<and> mp_done entry = 5 \<and>
      task_step (Bound port_1) (ts ! 1) s = Some (t', s1) \<and>
      acts [ASupervise SvPoll 5, ARun 1 (Bound port_1), ARun 1 (Bound port_1)] (ts[1 := t'], s1) = Some (us, s2) \<and> us ! 1 = Finished (RGeneration 3)"
    by (simp add: delete_begins_def schedule_simps enable_simps delete_mark_def accepted_by_def)
  then obtain ts s t' s1 us s2 entry where run: "acts delete_begins ([], lifecycle_start 5) = Some (ts, s)" "length ts = 2"
    "ts ! 1 = DeleteMark ''db''" "\<not> finished_flag 5 s" "length (accepted_by 5 s) = 1" "map_of (ct_proxies s) ''db'' = Some entry"
    "mp_done entry = 5" "task_step (Bound port_1) (ts ! 1) s = Some (t', s1)"
    "acts [ASupervise SvPoll 5, ARun 1 (Bound port_1), ARun 1 (Bound port_1)] (ts[1 := t'], s1) = Some (us, s2)" "us ! 1 = Finished (RGeneration 3)"
    by blast
  have "1 < length ts" using run(2) by simp
  from delete_stops_listener [OF acts_steps [OF run(1)] this run(3,6,8) acts_steps [OF run(9)] run(10) rtranclp.rtrancl_refl]
  have "finished_flag 5 s2" using run(7) by simp
  then show ?thesis using run acts_steps by blast
qed

end
