(* ===== verification/DatagramListeners.thy ===== *)
theory DatagramListeners
  imports DatagramModel "HOL-Library.AList"
begin

text \<open>
  The listeners of the datagram runtime, \<^verbatim>\<open>DatagramRuntime\<close> of \<^verbatim>\<open>runtime/datagram/registry.rs\<close> with \<^verbatim>\<open>spawn_listener\<close> and
  \<^verbatim>\<open>listener_loop\<close> of \<^verbatim>\<open>supervisor.rs\<close>: create, disable, enable, delete and update of a proxy, each a task that runs in
  sections between its awaits, interleaved with each other and with the listener tasks.

  A proxy state and a listener are shared objects: indices into \<open>dw_specs\<close> and \<open>dw_listeners\<close>. The policies of a definition
  are shared handles, so writing back a definition keeps the current policies. A bind is an argument of the step. The
  number of active associations of a state is set by the environment; the registry of associations is the subject of
  \<open>Associations\<close>, and draining them is recorded in \<open>dw_drained\<close>. \<^verbatim>\<open>JoinHandle\<close> and \<^verbatim>\<open>CancellationToken\<close> do nothing when they are
  dropped, so an owner that goes out of scope leaves its listener running. Some joins happen with the registry
  locked; the model lets other tasks run meanwhile.
\<close>

section \<open>State\<close>

record dg_managed =
  mg_state :: nat
  mg_listener :: "nat option"
  mg_cancel_start :: bool

record dg_listener =
  li_state :: nat
  li_bound :: socket_addr
  li_cancelled :: bool
  li_drain_on_exit :: bool
  li_exited :: bool

record dg_world =
  dw_limits :: datagram_runtime_limits
  dw_proxies :: "(string \<times> dg_managed) list"
  dw_specs :: "datagram_proxy_spec list"
  dw_active :: "nat \<Rightarrow> nat"
  dw_listeners :: "dg_listener list"
  dw_drained :: "(nat \<times> bool) list"

datatype dg_result =
    DgOk
  | DgBool bool
  | DgView nat "socket_addr option" bool
  | DgErr datagram_error

record dg_patch =
  dp_listen :: "socket_addr option"
  dp_upstream :: "socket_addr option"
  dp_max_associations :: "nat option"
  dp_idle_timeout :: "duration option"
  dp_enabled :: "bool option"

record update_plan =
  up_name :: string
  up_state :: nat
  up_old :: datagram_proxy_spec
  up_next :: datagram_proxy_spec
  up_running :: bool
  up_desired :: bool

datatype udp_bind = UdpBound socket_addr | UdpBindError string

datatype dg_task =
    DgCreate datagram_proxy_spec
  | DgCreateBind datagram_proxy_spec
  | DgCreateInsert datagram_proxy_spec socket_addr
  | DgCreateSpawn string nat socket_addr
  | DgCreateCommit string nat nat socket_addr
  | DgDisable string
  | DgEnable string
  | DgEnableBind string nat
  | DgEnableSpawn string nat socket_addr
  | DgEnableCommit string nat nat socket_addr
  | DgDelete string
  | DgUpdate string dg_patch
  | DgUpdateCheck string dg_patch nat bool datagram_proxy_spec
  | DgUpdateBind update_plan
  | DgUpdateStop update_plan "socket_addr option"
  | DgUpdateWrite update_plan "socket_addr option"
  | DgUpdateSpawn update_plan "socket_addr option"
  | DgUpdateCommit update_plan nat socket_addr
  | DgUpdateView update_plan "socket_addr option"
  | DgJoin nat dg_task
  | DgDrain nat bool dg_task
  | DgFinished dg_result

section \<open>Listeners\<close>

definition spawn_listener :: "nat \<Rightarrow> socket_addr \<Rightarrow> dg_world \<Rightarrow> nat \<times> dg_world" where
  "spawn_listener st addr w =
     (length (dw_listeners w),
      w\<lparr>dw_listeners := dw_listeners w @ [\<lparr>li_state = st, li_bound = addr, li_cancelled = False, li_drain_on_exit = True, li_exited = False\<rparr>]\<rparr>)"

definition adjust_listener :: "(dg_listener \<Rightarrow> dg_listener) \<Rightarrow> nat \<Rightarrow> dg_world \<Rightarrow> dg_world" where
  "adjust_listener f l w = w\<lparr>dw_listeners := (dw_listeners w)[l := f (dw_listeners w ! l)]\<rparr>"

definition cancel_listener :: "nat \<Rightarrow> dg_world \<Rightarrow> dg_world" where
  "cancel_listener l w = adjust_listener (\<lambda>x. x\<lparr>li_cancelled := True\<rparr>) l w"

definition discard_listener :: "nat \<Rightarrow> dg_world \<Rightarrow> dg_world" where
  "discard_listener l w = cancel_listener l (adjust_listener (\<lambda>x. x\<lparr>li_drain_on_exit := False\<rparr>) l w)"

text \<open>The loop ends only when it is cancelled; it drains the associations unless told not to.\<close>

definition listener_exit :: "nat \<Rightarrow> dg_world \<Rightarrow> dg_world option" where
  "listener_exit l w =
     (let x = dw_listeners w ! l in
      if l < length (dw_listeners w) \<and> li_cancelled x \<and> \<not> li_exited x
      then Some ((adjust_listener (\<lambda>x. x\<lparr>li_exited := True\<rparr>) l w)
             \<lparr>dw_drained := dw_drained w @ (if li_drain_on_exit x then [(li_state x, False)] else [])\<rparr>)
      else None)"

definition bound_of :: "nat option \<Rightarrow> dg_world \<Rightarrow> socket_addr option" where
  "bound_of l w = map_option (\<lambda>l. li_bound (dw_listeners w ! l)) l"

definition put_managed :: "string \<Rightarrow> dg_managed \<Rightarrow> dg_world \<Rightarrow> dg_world" where
  "put_managed name m w = w\<lparr>dw_proxies := AList.update name m (dw_proxies w)\<rparr>"

section \<open>Operations\<close>

definition dg_admit_error :: "datagram_proxy_spec \<Rightarrow> dg_world \<Rightarrow> datagram_error option" where
  "dg_admit_error spec w =
     (if map_of (dw_proxies w) (ds_name spec) \<noteq> None then Some (DgDuplicate (ds_name spec))
      else if rl_max_proxies (dw_limits w) \<le> length (dw_proxies w) then Some (DgInvalid ''proxy definition limit reached'')
      else None)"

definition dg_create :: "datagram_proxy_spec \<Rightarrow> dg_world \<Rightarrow> dg_task \<times> dg_world" where
  "dg_create spec w =
     (case datagram_spec_validate (rl_max_associations (dw_limits w)) spec of
        Inl e \<Rightarrow> (DgFinished (DgErr e), w)
      | Inr _ \<Rightarrow> (case dg_admit_error spec w of
          Some e \<Rightarrow> (DgFinished (DgErr e), w)
        | None \<Rightarrow> (DgCreateBind spec, w)))"

fun dg_create_bind :: "datagram_proxy_spec \<Rightarrow> udp_bind \<Rightarrow> dg_world \<Rightarrow> dg_task \<times> dg_world" where
  "dg_create_bind spec (UdpBindError e) w = (DgFinished (DgErr (DgBind e)), w)"
| "dg_create_bind spec (UdpBound addr) w = (DgCreateInsert spec addr, w)"

definition dg_create_insert :: "datagram_proxy_spec \<Rightarrow> socket_addr \<Rightarrow> dg_world \<Rightarrow> dg_task \<times> dg_world" where
  "dg_create_insert spec addr w =
     (case dg_admit_error spec w of
        Some e \<Rightarrow> (DgFinished (DgErr e), w)
      | None \<Rightarrow>
          let st = length (dw_specs w) in
          (DgCreateSpawn (ds_name spec) st addr,
           put_managed (ds_name spec) \<lparr>mg_state = st, mg_listener = None, mg_cancel_start = False\<rparr> (w\<lparr>dw_specs := dw_specs w @ [spec]\<rparr>)))"

definition dg_create_spawn :: "string \<Rightarrow> nat \<Rightarrow> socket_addr \<Rightarrow> dg_world \<Rightarrow> dg_task \<times> dg_world" where
  "dg_create_spawn name st addr w = (let (l, w1) = spawn_listener st addr w in (DgCreateCommit name st l addr, w1))"

definition dg_create_commit :: "string \<Rightarrow> nat \<Rightarrow> nat \<Rightarrow> socket_addr \<Rightarrow> dg_world \<Rightarrow> dg_task \<times> dg_world" where
  "dg_create_commit name st l addr w =
     (case map_of (dw_proxies w) name of
        None \<Rightarrow> (DgJoin l (DgFinished (DgErr (DgNotFound name))), cancel_listener l w)
      | Some m \<Rightarrow>
          if mg_cancel_start m then (DgJoin l (DgFinished (DgView st None False)), discard_listener l w)
          else (DgFinished (DgView st (Some addr) True), put_managed name (m\<lparr>mg_listener := Some l\<rparr>) w))"

definition dg_disable :: "string \<Rightarrow> dg_world \<Rightarrow> dg_task \<times> dg_world" where
  "dg_disable name w =
     (case map_of (dw_proxies w) name of
        None \<Rightarrow> (DgFinished (DgErr (DgNotFound name)), w)
      | Some m \<Rightarrow>
          let w1 = put_managed name (m\<lparr>mg_listener := None, mg_cancel_start := (mg_listener m = None \<or> mg_cancel_start m)\<rparr>) w;
              after = DgDrain (mg_state m) False (DgFinished DgOk) in
          (case mg_listener m of
             Some l \<Rightarrow> (DgJoin l after, cancel_listener l w1)
           | None \<Rightarrow> (after, w1)))"

definition dg_enable :: "string \<Rightarrow> dg_world \<Rightarrow> dg_task \<times> dg_world" where
  "dg_enable name w =
     (case map_of (dw_proxies w) name of
        None \<Rightarrow> (DgFinished (DgErr (DgNotFound name)), w)
      | Some m \<Rightarrow>
          if mg_listener m \<noteq> None then (DgFinished (DgView (mg_state m) (bound_of (mg_listener m) w) True), w)
          else (DgEnableBind name (mg_state m), put_managed name (m\<lparr>mg_cancel_start := False\<rparr>) w))"

fun dg_enable_bind :: "string \<Rightarrow> nat \<Rightarrow> udp_bind \<Rightarrow> dg_world \<Rightarrow> dg_task \<times> dg_world" where
  "dg_enable_bind name st (UdpBindError e) w = (DgFinished (DgErr (DgBind e)), w)"
| "dg_enable_bind name st (UdpBound addr) w = (DgEnableSpawn name st addr, w)"

definition dg_enable_spawn :: "string \<Rightarrow> nat \<Rightarrow> socket_addr \<Rightarrow> dg_world \<Rightarrow> dg_task \<times> dg_world" where
  "dg_enable_spawn name st addr w = (let (l, w1) = spawn_listener st addr w in (DgEnableCommit name st l addr, w1))"

text \<open>A proxy that is gone ends the call; the listener just started is neither cancelled nor joined.\<close>

definition dg_enable_commit :: "string \<Rightarrow> nat \<Rightarrow> nat \<Rightarrow> socket_addr \<Rightarrow> dg_world \<Rightarrow> dg_task \<times> dg_world" where
  "dg_enable_commit name st l addr w =
     (case map_of (dw_proxies w) name of
        None \<Rightarrow> (DgFinished (DgErr (DgNotFound name)), w)
      | Some m \<Rightarrow>
          if mg_listener m \<noteq> None
          then (DgJoin l (DgFinished (DgView (mg_state m) (bound_of (mg_listener m) w) True)), discard_listener l w)
          else if mg_cancel_start m
          then (DgJoin l (DgFinished (DgErr (DgConflict ''datagram proxy was disabled while enabling''))), discard_listener l w)
          else (DgFinished (DgView st (Some addr) True), put_managed name (m\<lparr>mg_listener := Some l\<rparr>) w))"

definition dg_delete :: "string \<Rightarrow> dg_world \<Rightarrow> dg_task \<times> dg_world" where
  "dg_delete name w =
     (case map_of (dw_proxies w) name of
        None \<Rightarrow> (DgFinished (DgBool False), w)
      | Some m \<Rightarrow>
          let w1 = w\<lparr>dw_proxies := AList.delete name (dw_proxies w)\<rparr>;
              after = DgDrain (mg_state m) False (DgFinished (DgBool True)) in
          (case mg_listener m of
             Some l \<Rightarrow> (DgJoin l after, cancel_listener l w1)
           | None \<Rightarrow> (after, w1)))"

section \<open>Updates\<close>

definition dg_update :: "string \<Rightarrow> dg_patch \<Rightarrow> dg_world \<Rightarrow> dg_task \<times> dg_world" where
  "dg_update name patch w =
     (case map_of (dw_proxies w) name of
        None \<Rightarrow> (DgFinished (DgErr (DgNotFound name)), w)
      | Some m \<Rightarrow> (DgUpdateCheck name patch (mg_state m) (mg_listener m \<noteq> None) (dw_specs w ! mg_state m), w))"

definition dg_patched :: "dg_patch \<Rightarrow> datagram_proxy_spec \<Rightarrow> datagram_proxy_spec" where
  "dg_patched patch s =
     s\<lparr>ds_listen := (case dp_listen patch of Some x \<Rightarrow> x | None \<Rightarrow> ds_listen s),
       ds_upstream := (case dp_upstream patch of Some x \<Rightarrow> x | None \<Rightarrow> ds_upstream s),
       ds_max_associations := (case dp_max_associations patch of Some x \<Rightarrow> x | None \<Rightarrow> ds_max_associations s),
       ds_idle_timeout := (case dp_idle_timeout patch of Some x \<Rightarrow> x | None \<Rightarrow> ds_idle_timeout s)\<rparr>"

definition cap_below_active :: datagram_error where
  "cap_below_active = DgInvalid ''max_associations cannot be lower than the current active count''"

definition plan_must_stop :: "update_plan \<Rightarrow> bool" where
  "plan_must_stop p = (up_running p \<and> (\<not> up_desired p \<or> ds_listen (up_next p) \<noteq> ds_listen (up_old p)))"

definition dg_update_check :: "string \<Rightarrow> dg_patch \<Rightarrow> nat \<Rightarrow> bool \<Rightarrow> datagram_proxy_spec \<Rightarrow> dg_world \<Rightarrow> dg_task \<times> dg_world" where
  "dg_update_check name patch st running base w =
     (let old = dw_specs w ! st; next = dg_patched patch base in
      case datagram_spec_validate (rl_max_associations (dw_limits w)) next of
        Inl e \<Rightarrow> (DgFinished (DgErr e), w)
      | Inr _ \<Rightarrow>
          if ds_max_associations next < dw_active w st then (DgFinished (DgErr cap_below_active), w)
          else let desired = (case dp_enabled patch of Some b \<Rightarrow> b | None \<Rightarrow> running);
                   plan = \<lparr>up_name = name, up_state = st, up_old = old, up_next = next, up_running = running, up_desired = desired\<rparr>
               in if desired \<and> (\<not> running \<or> ds_listen next \<noteq> ds_listen old) then (DgUpdateBind plan, w)
                  else (DgUpdateStop plan None, w))"

fun dg_update_bind :: "update_plan \<Rightarrow> udp_bind \<Rightarrow> dg_world \<Rightarrow> dg_task \<times> dg_world" where
  "dg_update_bind p (UdpBindError e) w = (DgFinished (DgErr (DgBind e)), w)"
| "dg_update_bind p (UdpBound addr) w = (DgUpdateStop p (Some addr), w)"

definition dg_update_stop :: "update_plan \<Rightarrow> socket_addr option \<Rightarrow> dg_world \<Rightarrow> dg_task \<times> dg_world" where
  "dg_update_stop p bound w =
     (if \<not> plan_must_stop p then (DgUpdateWrite p bound, w)
      else if ds_max_associations (up_next p) < dw_active w (up_state p) then (DgFinished (DgErr cap_below_active), w)
      else case map_of (dw_proxies w) (up_name p) of
        None \<Rightarrow> (DgUpdateWrite p bound, w)
      | Some m \<Rightarrow>
          let w1 = put_managed (up_name p) (m\<lparr>mg_listener := None\<rparr>) w in
          (case mg_listener m of
             Some l \<Rightarrow> (DgJoin l (DgUpdateWrite p bound), cancel_listener l w1)
           | None \<Rightarrow> (DgUpdateWrite p bound, w1)))"

definition spec_moved :: "datagram_proxy_spec \<Rightarrow> datagram_proxy_spec \<Rightarrow> bool" where
  "spec_moved current old = (ds_listen current \<noteq> ds_listen old \<or> ds_upstream current \<noteq> ds_upstream old \<or>
     ds_max_associations current \<noteq> ds_max_associations old \<or> ds_idle_timeout current \<noteq> ds_idle_timeout old)"

definition dg_update_write :: "update_plan \<Rightarrow> socket_addr option \<Rightarrow> dg_world \<Rightarrow> dg_task \<times> dg_world" where
  "dg_update_write p bound w =
     (let st = up_state p; current = dw_specs w ! st in
      if spec_moved current (up_old p) then (DgFinished (DgErr (DgConflict ''datagram proxy changed concurrently'')), w)
      else if ds_max_associations (up_next p) < dw_active w st then (DgFinished (DgErr cap_below_active), w)
      else let next = (up_next p)\<lparr>ds_upstream_policy := ds_upstream_policy current, ds_downstream_policy := ds_downstream_policy current\<rparr>;
               w1 = w\<lparr>dw_specs := (dw_specs w)[st := next]\<rparr> in
           if plan_must_stop p then (DgDrain st False (DgUpdateSpawn p bound), w1)
           else if ds_upstream (up_next p) \<noteq> ds_upstream (up_old p) then (DgDrain st (up_running p) (DgUpdateSpawn p bound), w1)
           else (DgUpdateSpawn p bound, w1))"

fun dg_update_spawn :: "update_plan \<Rightarrow> socket_addr option \<Rightarrow> dg_world \<Rightarrow> dg_task \<times> dg_world" where
  "dg_update_spawn p None w = (DgUpdateView p None, w)"
| "dg_update_spawn p (Some addr) w = (let (l, w1) = spawn_listener (up_state p) addr w in (DgUpdateCommit p l addr, w1))"

definition dg_update_commit :: "update_plan \<Rightarrow> nat \<Rightarrow> socket_addr \<Rightarrow> dg_world \<Rightarrow> dg_task \<times> dg_world" where
  "dg_update_commit p l addr w =
     (case map_of (dw_proxies w) (up_name p) of
        None \<Rightarrow> (DgJoin l (DgFinished (DgErr (DgNotFound (up_name p)))), discard_listener l w)
      | Some m \<Rightarrow> (DgUpdateView p (Some addr), put_managed (up_name p) (m\<lparr>mg_listener := Some l\<rparr>) w))"

definition dg_update_view :: "update_plan \<Rightarrow> socket_addr option \<Rightarrow> dg_world \<Rightarrow> dg_task \<times> dg_world" where
  "dg_update_view p bound w =
     (case map_of (dw_proxies w) (up_name p) of
        None \<Rightarrow> (DgFinished (DgErr (DgNotFound (up_name p))), w)
      | Some m \<Rightarrow>
          (DgFinished (DgView (up_state p) (case bound of Some a \<Rightarrow> Some a | None \<Rightarrow> bound_of (mg_listener m) w) (mg_listener m \<noteq> None)), w))"

section \<open>Interleaving\<close>

fun dg_task_step :: "udp_bind \<Rightarrow> dg_task \<Rightarrow> dg_world \<Rightarrow> (dg_task \<times> dg_world) option" where
  "dg_task_step b (DgCreate spec) w = Some (dg_create spec w)"
| "dg_task_step b (DgCreateBind spec) w = Some (dg_create_bind spec b w)"
| "dg_task_step b (DgCreateInsert spec addr) w = Some (dg_create_insert spec addr w)"
| "dg_task_step b (DgCreateSpawn name st addr) w = Some (dg_create_spawn name st addr w)"
| "dg_task_step b (DgCreateCommit name st l addr) w = Some (dg_create_commit name st l addr w)"
| "dg_task_step b (DgDisable name) w = Some (dg_disable name w)"
| "dg_task_step b (DgEnable name) w = Some (dg_enable name w)"
| "dg_task_step b (DgEnableBind name st) w = Some (dg_enable_bind name st b w)"
| "dg_task_step b (DgEnableSpawn name st addr) w = Some (dg_enable_spawn name st addr w)"
| "dg_task_step b (DgEnableCommit name st l addr) w = Some (dg_enable_commit name st l addr w)"
| "dg_task_step b (DgDelete name) w = Some (dg_delete name w)"
| "dg_task_step b (DgUpdate name patch) w = Some (dg_update name patch w)"
| "dg_task_step b (DgUpdateCheck name patch st running base) w = Some (dg_update_check name patch st running base w)"
| "dg_task_step b (DgUpdateBind p) w = Some (dg_update_bind p b w)"
| "dg_task_step b (DgUpdateStop p bound) w = Some (dg_update_stop p bound w)"
| "dg_task_step b (DgUpdateWrite p bound) w = Some (dg_update_write p bound w)"
| "dg_task_step b (DgUpdateSpawn p bound) w = Some (dg_update_spawn p bound w)"
| "dg_task_step b (DgUpdateCommit p l addr) w = Some (dg_update_commit p l addr w)"
| "dg_task_step b (DgUpdateView p bound) w = Some (dg_update_view p bound w)"
| "dg_task_step b (DgJoin l after) w = (if l < length (dw_listeners w) \<and> li_exited (dw_listeners w ! l) then Some (after, w) else None)"
| "dg_task_step b (DgDrain st retryable after) w = Some (after, w\<lparr>dw_drained := dw_drained w @ [(st, retryable)]\<rparr>)"
| "dg_task_step b (DgFinished r) w = None"

fun dg_fresh_call :: "dg_task \<Rightarrow> bool" where
  "dg_fresh_call (DgCreate spec) = True"
| "dg_fresh_call (DgDisable name) = True"
| "dg_fresh_call (DgEnable name) = True"
| "dg_fresh_call (DgDelete name) = True"
| "dg_fresh_call (DgUpdate name patch) = True"
| "dg_fresh_call _ = False"

inductive dg_step :: "dg_task list \<times> dg_world \<Rightarrow> dg_task list \<times> dg_world \<Rightarrow> bool" where
  dg_call: "dg_fresh_call t \<Longrightarrow> dg_step (ts, w) (ts @ [t], w)"
| dg_run: "i < length ts \<Longrightarrow> dg_task_step b (ts ! i) w = Some (t', w') \<Longrightarrow> dg_step (ts, w) (ts[i := t'], w')"
| dg_exit: "listener_exit l w = Some w' \<Longrightarrow> dg_step (ts, w) (ts, w')"
| dg_traffic: "dg_step (ts, w) (ts, w\<lparr>dw_active := f\<rparr>)"

inductive_cases dg_stepE: "dg_step x y"

abbreviation dg_steps :: "dg_task list \<times> dg_world \<Rightarrow> dg_task list \<times> dg_world \<Rightarrow> bool" where
  "dg_steps \<equiv> dg_step\<^sup>*\<^sup>*"

definition dg_world_new :: "datagram_runtime_limits \<Rightarrow> datagram_error + dg_world" where
  "dg_world_new limits =
     (case runtime_limits_validate limits of
        Inl e \<Rightarrow> Inl e
      | Inr l \<Rightarrow> Inr \<lparr>dw_limits = l, dw_proxies = [], dw_specs = [], dw_active = (\<lambda>_. 0), dw_listeners = [], dw_drained = []\<rparr>)"

end
