(* ===== verification/ListenerProps.thy ===== *)
theory ListenerProps
  imports DatagramListeners
begin

text \<open>
  Ownership of datagram listeners. A listener is held by the definition that shows it or by the call that is about to
  install or join it. A listener that nobody holds and nobody cancelled is an orphan: no later call can stop it. The
  lemmas say how a section moves listeners, which calls lose one, and that an orphan stays.
\<close>

section \<open>Holding\<close>

fun carried :: "dg_task \<Rightarrow> nat set" where
  "carried (DgCreateCommit name st l addr) = {l}"
| "carried (DgEnableCommit name st l addr) = {l}"
| "carried (DgUpdateCommit p l addr) = {l}"
| "carried (DgJoin l after) = insert l (carried after)"
| "carried (DgDrain st retryable after) = carried after"
| "carried _ = {}"

definition installed :: "dg_world \<Rightarrow> nat set" where
  "installed w = {l. \<exists>name m. map_of (dw_proxies w) name = Some m \<and> mg_listener m = Some l}"

definition held :: "dg_task list \<times> dg_world \<Rightarrow> nat set" where
  "held x = (\<Union>t \<in> set (fst x). carried t) \<union> installed (snd x)"

definition orphan :: "nat \<Rightarrow> dg_task list \<times> dg_world \<Rightarrow> bool" where
  "orphan l x = (l < length (dw_listeners (snd x)) \<and> l \<notin> held x \<and> \<not> li_cancelled (dw_listeners (snd x) ! l) \<and> \<not> li_exited (dw_listeners (snd x) ! l))"

text \<open>
  \<open>extends w w' h\<close>: the listeners of \<open>w\<close> are still there, only those in \<open>h\<close> may have been cancelled, none exited, and new ones
  run.
\<close>

definition extends :: "dg_world \<Rightarrow> dg_world \<Rightarrow> nat set \<Rightarrow> bool" where
  "extends w w' h = (length (dw_listeners w) \<le> length (dw_listeners w') \<and>
     (\<forall>l < length (dw_listeners w). li_exited (dw_listeners w' ! l) = li_exited (dw_listeners w ! l) \<and>
        (li_cancelled (dw_listeners w ! l) \<longrightarrow> li_cancelled (dw_listeners w' ! l)) \<and>
        (l \<notin> h \<longrightarrow> li_cancelled (dw_listeners w' ! l) = li_cancelled (dw_listeners w ! l))) \<and>
     (\<forall>l. length (dw_listeners w) \<le> l \<longrightarrow> l < length (dw_listeners w') \<longrightarrow> \<not> li_exited (dw_listeners w' ! l)))"

lemma listeners_frame [simp]:
  "dw_listeners (put_managed name m w) = dw_listeners w" "dw_proxies (adjust_listener f l w) = dw_proxies w"
  "dw_proxies (cancel_listener l w) = dw_proxies w" "dw_proxies (discard_listener l w) = dw_proxies w"
  "installed (adjust_listener f l w) = installed w" "installed (cancel_listener l w) = installed w" "installed (discard_listener l w) = installed w"
  by (simp_all add: put_managed_def adjust_listener_def cancel_listener_def discard_listener_def installed_def)

lemma installed_put:
  "installed (put_managed name m w) = set_option (mg_listener m) \<union> {l. \<exists>n m'. n \<noteq> name \<and> map_of (dw_proxies w) n = Some m' \<and> mg_listener m' = Some l}"
  by (auto simp: installed_def put_managed_def AList.update_conv' split: if_splits)

lemma installed_delete: "installed (w\<lparr>dw_proxies := AList.delete name (dw_proxies w)\<rparr>) = {l. \<exists>n m'. n \<noteq> name \<and> map_of (dw_proxies w) n = Some m' \<and> mg_listener m' = Some l}"
  by (auto simp: installed_def AList.delete_conv' split: if_splits)

lemma installed_same [simp]: "installed (w\<lparr>dw_specs := x\<rparr>) = installed w" "installed (w\<lparr>dw_listeners := y\<rparr>) = installed w"
  "installed (w\<lparr>dw_drained := z\<rparr>) = installed w" "installed (w\<lparr>dw_active := f\<rparr>) = installed w"
  by (simp_all add: installed_def)

lemma extends_refl [simp]: "extends w w h"
  by (simp add: extends_def)

lemma extends_same: "dw_listeners w' = dw_listeners w \<Longrightarrow> extends w w' h"
  by (simp add: extends_def)

lemma nth_update_in: "j < length xs \<Longrightarrow> xs[i := v] ! j = (if i = j then v else xs ! j)"
  by (cases "i < length xs") (simp_all add: nth_list_update list_update_beyond)

lemma extends_cancel: "l \<in> h \<Longrightarrow> extends w (cancel_listener l w) h" "l \<in> h \<Longrightarrow> extends w (discard_listener l w) h"
  by (auto simp: extends_def cancel_listener_def discard_listener_def adjust_listener_def nth_update_in)

lemma extends_trans: "dw_listeners w1 = dw_listeners w \<Longrightarrow> extends w1 w2 h \<Longrightarrow> extends w w2 h"
  by (simp add: extends_def)

lemma spawn_listener_effect:
  assumes "spawn_listener st addr w = (l, w')"
  shows "l = length (dw_listeners w)" "installed w' = installed w" "extends w w' h" "length (dw_listeners w') = Suc l"
    "\<not> li_cancelled (dw_listeners w' ! l)" "dw_proxies w' = dw_proxies w"
  using assms by (auto simp: spawn_listener_def extends_def nth_append)

section \<open>Sections\<close>

text \<open>The listener that a section leaves behind: the one it carried, or the one its commit replaces.\<close>

fun loses :: "dg_task \<Rightarrow> dg_world \<Rightarrow> nat set" where
  "loses (DgCreateCommit name st l addr) w =
     (case map_of (dw_proxies w) name of Some m \<Rightarrow> if mg_cancel_start m then {} else set_option (mg_listener m) | None \<Rightarrow> {})"
| "loses (DgUpdateCommit p l addr) w =
     (case map_of (dw_proxies w) (up_name p) of Some m \<Rightarrow> set_option (mg_listener m) | None \<Rightarrow> {})"
| "loses (DgEnableCommit name st l addr) w = (if map_of (dw_proxies w) name = None then {l} else {})"
| "loses _ w = {}"

definition moves :: "dg_task \<Rightarrow> dg_world \<Rightarrow> dg_task \<Rightarrow> dg_world \<Rightarrow> bool" where
  "moves t w t' w' = (extends w w' (carried t \<union> installed w) \<and>
     carried t' \<union> installed w' \<subseteq> carried t \<union> installed w \<union> {length (dw_listeners w)..<length (dw_listeners w')} \<and>
     (carried t \<union> installed w \<union> {length (dw_listeners w)..<length (dw_listeners w')}) - loses t w \<subseteq>
       carried t' \<union> installed w' \<union> {l. l < length (dw_listeners w) \<and> li_exited (dw_listeners w ! l)})"

lemma listeners_length [simp]: "length (dw_listeners (cancel_listener l w)) = length (dw_listeners w)" "length (dw_listeners (discard_listener l w)) = length (dw_listeners w)"
  by (simp_all add: cancel_listener_def discard_listener_def adjust_listener_def)

lemma moves_same: "carried t' \<union> installed w' = carried t \<union> installed w \<Longrightarrow> dw_listeners w' = dw_listeners w \<Longrightarrow> moves t w t' w'"
  by (auto simp: moves_def extends_def)

lemma moves_spawn:
  assumes "spawn_listener st addr w = (l, w')" "carried t = {}" "carried t' = {l}"
  shows "moves t w t' w'"
  using spawn_listener_effect [OF assms(1)] assms(2,3) by (auto simp: moves_def)

lemma installed_split:
  assumes "map_of (dw_proxies w) name = Some m"
  shows "installed w = set_option (mg_listener m) \<union> {l. \<exists>n m'. n \<noteq> name \<and> map_of (dw_proxies w) n = Some m' \<and> mg_listener m' = Some l}"
  using assms by (auto simp: installed_def) (metis option.inject)+

lemma installed_absent:
  assumes "map_of (dw_proxies w) name = None"
  shows "installed w = {l. \<exists>n m'. n \<noteq> name \<and> map_of (dw_proxies w) n = Some m' \<and> mg_listener m' = Some l}"
  using assms by (auto simp: installed_def) (metis option.distinct(1))

text \<open>A section takes the listener out of a definition and cancels it, or just takes none.\<close>

lemma moves_take:
  assumes "map_of (dw_proxies w) name = Some m" "mg_listener m = Some l" "carried t = {}" "carried after = {}"
    "installed w1 = {l. \<exists>n m'. n \<noteq> name \<and> map_of (dw_proxies w) n = Some m' \<and> mg_listener m' = Some l}" "dw_listeners w1 = dw_listeners w"
  shows "moves t w (DgJoin l after) (cancel_listener l w1)"
proof -
  have "extends w (cancel_listener l w1) (installed w)"
    by (rule extends_trans [OF assms(6) extends_cancel(1)]) (use assms(1,2) in \<open>auto simp: installed_def\<close>)
  then show ?thesis using installed_split [OF assms(1)] assms by (auto simp: moves_def)
qed

lemma moves_take_none:
  assumes "map_of (dw_proxies w) name = Some m" "mg_listener m = None" "carried t = {}" "carried after = {}"
    "installed w1 = {l. \<exists>n m'. n \<noteq> name \<and> map_of (dw_proxies w) n = Some m' \<and> mg_listener m' = Some l}" "dw_listeners w1 = dw_listeners w"
  shows "moves t w after w1"
  using installed_split [OF assms(1)] assms by (intro moves_same) auto

lemma moves_taking:
  assumes "(case mg_listener m of Some l \<Rightarrow> (DgJoin l after, cancel_listener l wt) | None \<Rightarrow> (after, wt)) = (t', w')"
    "map_of (dw_proxies w) name = Some m" "carried t = {}" "carried after = {}"
    "installed wt = {l. \<exists>n m'. n \<noteq> name \<and> map_of (dw_proxies w) n = Some m' \<and> mg_listener m' = Some l}" "dw_listeners wt = dw_listeners w"
  shows "moves t w t' w'"
  using assms(1) moves_take [OF assms(2) _ assms(3-6)] moves_take_none [OF assms(2) _ assms(3-6)] by (auto split: option.splits)

text \<open>A commit installs the listener it carries, replacing what the definition shows, or cancels it.\<close>

lemma moves_install:
  assumes "map_of (dw_proxies w) name = Some m" "carried t = {l}" "carried t' = {}" "loses t w = set_option (mg_listener m)"
  shows "moves t w t' (put_managed name (m\<lparr>mg_listener := Some l\<rparr>) w)"
  using installed_split [OF assms(1)] assms by (auto simp: moves_def installed_put extends_same)

lemma moves_refuse:
  assumes "carried t = {l}" "carried after = {}"
  shows "moves t w (DgJoin l after) (cancel_listener l w)" "moves t w (DgJoin l after) (discard_listener l w)"
  using assms by (auto simp: moves_def intro: extends_cancel)

lemma task_moves:
  assumes "dg_task_step b t w = Some (t', w')"
  shows "moves t w t' w'"
proof (cases t)
  case (DgCreateInsert spec addr)
  then show ?thesis using assms
    by (auto simp: dg_create_insert_def dg_admit_error_def Let_def installed_put installed_absent intro!: moves_same split: option.splits if_splits) blast+
next
  case (DgCreateCommit name st l addr)
  then show ?thesis using assms by (auto simp: dg_create_commit_def intro!: moves_install moves_refuse split: option.splits if_splits)
next
  case (DgDisable name)
  show ?thesis
  proof (cases "map_of (dw_proxies w) name")
    case (Some m)
    show ?thesis
      by (rule moves_taking [OF _ Some, where after = "DgDrain (mg_state m) False (DgFinished DgOk)"
            and wt = "put_managed name (m\<lparr>mg_listener := None, mg_cancel_start := (mg_listener m = None \<or> mg_cancel_start m)\<rparr>) w"])
        (use assms DgDisable Some in \<open>simp_all add: dg_disable_def Let_def installed_put\<close>)
  qed (use assms DgDisable in \<open>auto simp: dg_disable_def intro!: moves_same\<close>)
next
  case (DgEnable name)
  show ?thesis
  proof (cases "map_of (dw_proxies w) name")
    case (Some m)
    show ?thesis
    proof (cases "mg_listener m")
      case None
      show ?thesis by (rule moves_take_none [OF Some None]) (use assms DgEnable Some None in \<open>auto simp: dg_enable_def installed_put\<close>, blast)
    qed (use assms DgEnable Some in \<open>auto simp: dg_enable_def intro!: moves_same\<close>)
  qed (use assms DgEnable in \<open>auto simp: dg_enable_def intro!: moves_same\<close>)
next
  case (DgEnableCommit name st l addr)
  then show ?thesis using assms
    by (auto simp: dg_enable_commit_def intro!: moves_install moves_refuse split: option.splits if_splits) (auto simp: moves_def)
next
  case (DgDelete name)
  show ?thesis
  proof (cases "map_of (dw_proxies w) name")
    case (Some m)
    show ?thesis
      by (rule moves_taking [OF _ Some, where after = "DgDrain (mg_state m) False (DgFinished (DgBool True))"
            and wt = "w\<lparr>dw_proxies := AList.delete name (dw_proxies w)\<rparr>"])
        (use assms DgDelete Some in \<open>simp_all add: dg_delete_def Let_def installed_delete\<close>)
  qed (use assms DgDelete in \<open>auto simp: dg_delete_def intro!: moves_same\<close>)
next
  case (DgUpdateStop p bound)
  show ?thesis
  proof (cases "plan_must_stop p \<and> \<not> ds_max_associations (up_next p) < dw_active w (up_state p)")
    case go: True
    show ?thesis
    proof (cases "map_of (dw_proxies w) (up_name p)")
      case (Some m)
      show ?thesis
        by (rule moves_taking [OF _ Some, where after = "DgUpdateWrite p bound" and wt = "put_managed (up_name p) (m\<lparr>mg_listener := None\<rparr>) w"])
          (use assms DgUpdateStop Some go in \<open>simp_all add: dg_update_stop_def Let_def installed_put\<close>)
    qed (use assms DgUpdateStop go in \<open>auto simp: dg_update_stop_def intro!: moves_same\<close>)
  qed (use assms DgUpdateStop in \<open>auto simp: dg_update_stop_def intro!: moves_same split: if_splits\<close>)
next
  case (DgUpdateCommit p l addr)
  then show ?thesis using assms by (auto simp: dg_update_commit_def intro!: moves_install moves_refuse split: option.splits)
next
  case (DgCreateSpawn name st addr)
  then show ?thesis using assms by (auto simp: dg_create_spawn_def intro!: moves_spawn split: prod.splits)
next
  case (DgEnableSpawn name st addr)
  then show ?thesis using assms by (auto simp: dg_enable_spawn_def intro!: moves_spawn split: prod.splits)
next
  case (DgUpdateSpawn p bound)
  show ?thesis
  proof (cases bound)
    case None
    then show ?thesis using assms DgUpdateSpawn by (auto intro!: moves_same)
  next
    case (Some addr)
    then show ?thesis using assms DgUpdateSpawn by (auto intro!: moves_spawn split: prod.splits)
  qed
next
  case (DgJoin l after)
  then show ?thesis using assms by (auto simp: moves_def split: if_splits)
next
  case (DgCreateBind spec)
  then show ?thesis using assms by (cases b) (auto intro!: moves_same)
next
  case (DgEnableBind name st)
  then show ?thesis using assms by (cases b) (auto intro!: moves_same)
next
  case (DgUpdateBind p)
  then show ?thesis using assms by (cases b) (auto intro!: moves_same)
qed (use assms in \<open>auto simp: dg_create_def dg_update_def dg_update_check_def dg_update_write_def dg_update_view_def Let_def intro!: moves_same
    split: sum.splits option.splits if_splits\<close>)

section \<open>Steps\<close>

lemma held_run:
  assumes "i < length ts"
  shows "held (ts, w) = carried (ts ! i) \<union> (\<Union>j \<in> {..<length ts} - {i}. carried (ts ! j)) \<union> installed w"
    "held (ts[i := t'], w') = carried t' \<union> (\<Union>j \<in> {..<length ts} - {i}. carried (ts ! j)) \<union> installed w'"
proof -
  have set: "(\<Union>t \<in> set xs. carried t) = carried (xs ! i) \<union> (\<Union>j \<in> {..<length xs} - {i}. carried (xs ! j))" if "i < length xs" for xs
  proof -
    have "set xs = insert (xs ! i) ((!) xs ` ({..<length xs} - {i}))" using that by (auto simp: set_conv_nth)
    then show ?thesis by (simp only: UN_insert) blast
  qed
  show "held (ts, w) = carried (ts ! i) \<union> (\<Union>j \<in> {..<length ts} - {i}. carried (ts ! j)) \<union> installed w"
    using set [OF assms] by (simp add: held_def)
  have "(\<Union>j \<in> {..<length ts} - {i}. carried (ts[i := t'] ! j)) = (\<Union>j \<in> {..<length ts} - {i}. carried (ts ! j))" by simp
  then show "held (ts[i := t'], w') = carried t' \<union> (\<Union>j \<in> {..<length ts} - {i}. carried (ts ! j)) \<union> installed w'"
    using set [of "ts[i := t']"] assms by (simp add: held_def)
qed

lemma listener_exit_effect:
  assumes "listener_exit l w = Some w'"
  shows "installed w' = installed w" "length (dw_listeners w') = length (dw_listeners w)"
    "k < length (dw_listeners w) \<Longrightarrow> li_cancelled (dw_listeners w' ! k) = li_cancelled (dw_listeners w ! k)"
    "k < length (dw_listeners w) \<Longrightarrow> \<not> li_cancelled (dw_listeners w ! k) \<Longrightarrow> li_exited (dw_listeners w' ! k) = li_exited (dw_listeners w ! k)"
  using assms by (auto simp: listener_exit_def adjust_listener_def Let_def nth_update_in split: if_splits)

lemma fresh_call_carries: "dg_fresh_call t \<Longrightarrow> carried t = {}"
  by (cases t) auto

lemma orphan_step:
  assumes "dg_step x y" "orphan l x"
  shows "orphan l y"
  using assms(1)
proof (cases rule: dg_step.cases)
  case (dg_call t ts w)
  then show ?thesis using assms(2) fresh_call_carries by (simp add: orphan_def held_def)
next
  case (dg_run i ts b w t' w')
  note mv = task_moves [OF dg_run(4), unfolded moves_def]
  have l: "l < length (dw_listeners w)" "l \<notin> carried (ts ! i) \<union> installed w" "l \<notin> (\<Union>j \<in> {..<length ts} - {i}. carried (ts ! j))"
    "\<not> li_cancelled (dw_listeners w ! l)" "\<not> li_exited (dw_listeners w ! l)"
    using assms(2) held_run(1) [OF dg_run(3), of w] dg_run(1) by (simp_all add: orphan_def)
  have "l \<notin> carried t' \<union> installed w'" using mv l(1,2) by auto
  moreover have "l < length (dw_listeners w')" "\<not> li_cancelled (dw_listeners w' ! l)" "\<not> li_exited (dw_listeners w' ! l)"
    using mv l by (auto simp: extends_def)
  ultimately show ?thesis using l(3) held_run(2) [OF dg_run(3), of t' w'] dg_run(2) by (simp add: orphan_def)
next
  case (dg_exit k w w' ts)
  then show ?thesis using assms(2) listener_exit_effect [OF dg_exit(3)] by (simp add: orphan_def held_def)
next
  case (dg_traffic ts w f)
  then show ?thesis using assms(2) by (simp add: orphan_def held_def)
qed

lemma orphan_steps: "dg_steps x y \<Longrightarrow> orphan l x \<Longrightarrow> orphan l y"
  by (induction rule: rtranclp_induct) (auto intro: orphan_step)

text \<open>
  A listener on its way into a definition belongs to one call: the definition does not show it yet, no other call holds it and
  nobody cancelled it.
\<close>

fun committing :: "dg_task \<Rightarrow> nat set" where
  "committing (DgCreateCommit name st l addr) = {l}"
| "committing (DgEnableCommit name st l addr) = {l}"
| "committing (DgUpdateCommit p l addr) = {l}"
| "committing (DgJoin l after) = committing after"
| "committing (DgDrain st retryable after) = committing after"
| "committing _ = {}"

definition exclusive :: "nat \<Rightarrow> nat \<Rightarrow> dg_task list \<times> dg_world \<Rightarrow> bool" where
  "exclusive l i x = (l < length (dw_listeners (snd x)) \<and> l \<notin> installed (snd x) \<and>
     l \<notin> (\<Union>j \<in> {..<length (fst x)} - {i}. carried (fst x ! j)) \<and>
     \<not> li_cancelled (dw_listeners (snd x) ! l) \<and> \<not> li_exited (dw_listeners (snd x) ! l))"

definition commits_exclusive :: "dg_task list \<times> dg_world \<Rightarrow> bool" where
  "commits_exclusive x = (held x \<subseteq> {..<length (dw_listeners (snd x))} \<and>
     (\<forall>i < length (fst x). \<forall>l \<in> committing (fst x ! i). exclusive l i x))"

lemma committing_carried: "committing t \<subseteq> carried t"
  by (induction t rule: committing.induct) auto

text \<open>A call comes to its commit by starting the listener it will install.\<close>

lemma committing_fresh:
  assumes "dg_task_step b t w = Some (t', w')" "l \<in> committing t'"
  shows "l \<in> committing t \<and> dw_listeners w' = dw_listeners w \<and> installed w' = installed w \<or>
    l = length (dw_listeners w) \<and> installed w' = installed w \<and> length (dw_listeners w') = Suc l \<and>
    \<not> li_cancelled (dw_listeners w' ! l) \<and> \<not> li_exited (dw_listeners w' ! l)"
proof (cases t)
  case (DgUpdateSpawn p bound)
  then show ?thesis using assms(1,2) by (cases bound) (auto simp: spawn_listener_def)
next
  case (DgCreateBind spec)
  then show ?thesis using assms(1,2) by (cases b) auto
next
  case (DgEnableBind name st)
  then show ?thesis using assms(1,2) by (cases b) auto
next
  case (DgUpdateBind p)
  then show ?thesis using assms(1,2) by (cases b) auto
qed (use assms in \<open>auto simp: dg_create_def dg_create_insert_def dg_create_spawn_def dg_create_commit_def dg_disable_def dg_enable_def
    dg_enable_spawn_def dg_enable_commit_def dg_delete_def dg_update_def dg_update_check_def dg_update_stop_def dg_update_write_def
    dg_update_commit_def dg_update_view_def spawn_listener_def Let_def split: sum.splits option.splits if_splits\<close>)

lemma exclusive_other_run:
  assumes "dg_task_step b (ts ! j) w = Some (t', w')" "j < length ts" "j \<noteq> i" "exclusive l i (ts, w)"
  shows "exclusive l i (ts[j := t'], w')"
proof -
  note mv = task_moves [OF assms(1), unfolded moves_def]
  have l: "l < length (dw_listeners w)" "l \<notin> carried (ts ! j) \<union> installed w" "\<not> li_cancelled (dw_listeners w ! l)" "\<not> li_exited (dw_listeners w ! l)"
    "\<forall>k < length ts. k \<noteq> i \<longrightarrow> l \<notin> carried (ts ! k)"
    using assms by (auto simp: exclusive_def)
  have "l \<notin> carried t' \<union> installed w'" using mv l(1,2) by auto
  moreover have "l < length (dw_listeners w')" "\<not> li_cancelled (dw_listeners w' ! l)" "\<not> li_exited (dw_listeners w' ! l)"
    using mv l by (auto simp: extends_def)
  moreover have "l \<notin> carried (ts[j := t'] ! k)" if "k < length ts" "k \<noteq> i" for k
    using that l(5) \<open>l \<notin> carried t' \<union> installed w'\<close> by (cases "k = j") auto
  ultimately show ?thesis by (auto simp: exclusive_def)
qed

lemma exclusive_own_run:
  assumes "dg_task_step b (ts ! i) w = Some (t', w')" "i < length ts" "l \<in> committing t'" "commits_exclusive (ts, w)"
  shows "exclusive l i (ts[i := t'], w')"
  using committing_fresh [OF assms(1,3)]
proof (elim disjE conjE)
  assume "l \<in> committing (ts ! i)" "dw_listeners w' = dw_listeners w" "installed w' = installed w"
  then show ?thesis using assms(2,4) by (auto simp: commits_exclusive_def exclusive_def)
next
  assume new: "l = length (dw_listeners w)" "installed w' = installed w" "length (dw_listeners w') = Suc l"
    "\<not> li_cancelled (dw_listeners w' ! l)" "\<not> li_exited (dw_listeners w' ! l)"
  have "l \<notin> held (ts, w)" using assms(4) new(1) by (auto simp: commits_exclusive_def)
  then show ?thesis using new by (auto simp: exclusive_def held_def)
qed

lemma commits_exclusive_step:
  assumes "dg_step x y" "commits_exclusive x"
  shows "commits_exclusive y"
  using assms(1)
proof (cases rule: dg_step.cases)
  case (dg_call t ts w)
  have c: "carried t = {}" "committing t = {}" using fresh_call_carries [OF dg_call(3)] committing_carried [of t] by auto
  then show ?thesis using assms(2) dg_call(1,2)
    by (auto simp: commits_exclusive_def exclusive_def held_def nth_append split: if_splits)
next
  case (dg_run i ts b w t' w')
  note mv = task_moves [OF dg_run(4), unfolded moves_def]
  have "held (ts, w) \<subseteq> {..<length (dw_listeners w)}" using assms(2) dg_run(1) by (simp add: commits_exclusive_def)
  moreover have "length (dw_listeners w) \<le> length (dw_listeners w')" using mv by (simp add: extends_def)
  moreover have "held (ts[i := t'], w') \<subseteq> held (ts, w) \<union> {length (dw_listeners w)..<length (dw_listeners w')}"
    unfolding held_run [OF dg_run(3)] using mv by blast
  ultimately have "held (ts[i := t'], w') \<subseteq> {..<length (dw_listeners w')}" by fastforce
  moreover have "exclusive l j (ts[i := t'], w')" if "j < length ts" "l \<in> committing (ts[i := t'] ! j)" for j l
    using that exclusive_own_run [OF dg_run(4,3)] exclusive_other_run [OF dg_run(4,3)] assms(2) dg_run(1)
    by (cases "j = i") (auto simp: commits_exclusive_def)
  ultimately show ?thesis using dg_run(2) by (simp add: commits_exclusive_def)
next
  case (dg_exit k w w' ts)
  then show ?thesis using assms(2) listener_exit_effect [OF dg_exit(3)] by (simp add: commits_exclusive_def exclusive_def held_def)
next
  case (dg_traffic ts w f)
  then show ?thesis using assms(2) by (simp add: commits_exclusive_def exclusive_def held_def)
qed

lemma commits_exclusive_steps:
  assumes "dg_world_new limits = Inr w0" "dg_steps ([], w0) x"
  shows "commits_exclusive x"
  using assms(2)
proof (induction rule: rtranclp_induct)
  case base
  then show ?case using assms(1)
    by (auto simp: commits_exclusive_def held_def installed_def dg_world_new_def split: sum.splits)
qed (rule commits_exclusive_step)

text \<open>
  Where no commit in flight would lose a listener, every listener that was not cancelled stays held.
\<close>

definition accounted :: "dg_task list \<times> dg_world \<Rightarrow> bool" where
  "accounted x = (\<forall>l < length (dw_listeners (snd x)). li_cancelled (dw_listeners (snd x) ! l) \<or> l \<in> held x)"

definition exits_cancelled :: "dg_world \<Rightarrow> bool" where
  "exits_cancelled w = (\<forall>l < length (dw_listeners w). li_exited (dw_listeners w ! l) \<longrightarrow> li_cancelled (dw_listeners w ! l))"

lemma exits_cancelled_step:
  assumes "dg_step x y" "exits_cancelled (snd x)"
  shows "exits_cancelled (snd y)"
  using assms(1)
proof (cases rule: dg_step.cases)
  case (dg_run i ts b w t' w')
  have ext: "extends w w' (carried (ts ! i) \<union> installed w)" using task_moves [OF dg_run(4)] by (simp add: moves_def)
  show ?thesis unfolding exits_cancelled_def
  proof (intro allI impI)
    fix l
    assume l: "l < length (dw_listeners (snd y))" "li_exited (dw_listeners (snd y) ! l)"
    then have "l < length (dw_listeners w)" using ext dg_run(2) unfolding extends_def by (metis not_less snd_conv)
    then show "li_cancelled (dw_listeners (snd y) ! l)" using ext l assms(2) dg_run(1,2) by (auto simp: extends_def exits_cancelled_def)
  qed
qed (use assms(2) in \<open>auto simp: exits_cancelled_def listener_exit_def adjust_listener_def Let_def nth_update_in split: if_splits\<close>)

lemma accounted_step:
  assumes "dg_step x y" "accounted x" "exits_cancelled (snd x)" "\<forall>t \<in> set (fst x). loses t (snd x) = {}"
  shows "accounted y"
  using assms(1)
proof (cases rule: dg_step.cases)
  case (dg_call t ts w)
  then show ?thesis using assms(2) by (auto simp: accounted_def held_def)
next
  case (dg_run i ts b w t' w')
  note mv = task_moves [OF dg_run(4), unfolded moves_def]
  have lose: "loses (ts ! i) w = {}" using assms(4) dg_run(1,3) by simp
  show ?thesis unfolding accounted_def
  proof (intro allI impI)
    fix l
    assume l: "l < length (dw_listeners (snd y))"
    show "li_cancelled (dw_listeners (snd y) ! l) \<or> l \<in> held y"
    proof (cases "l \<in> carried (ts ! i) \<union> installed w \<union> {length (dw_listeners w)..<length (dw_listeners w')}")
      case True
      then consider "l \<in> carried t' \<union> installed w'" | "l < length (dw_listeners w)" "li_exited (dw_listeners w ! l)" using mv lose by blast
      then show ?thesis
      proof cases
        case 1
        then show ?thesis using held_run(2) [OF dg_run(3), of t' w'] dg_run(2) by blast
      next
        case 2
        then show ?thesis using assms(3) mv dg_run(1,2) by (auto simp: exits_cancelled_def extends_def)
      qed
    next
      case False
      then have "l < length (dw_listeners w)" using l dg_run(2) by auto
      then have "li_cancelled (dw_listeners w ! l) \<or> l \<in> held (ts, w)" using assms(2) dg_run(1) by (simp add: accounted_def)
      then show ?thesis using mv False \<open>l < length (dw_listeners w)\<close> held_run [OF dg_run(3)] dg_run(2) by (auto simp: extends_def)
    qed
  qed
next
  case (dg_exit k w w' ts)
  then show ?thesis using assms(2) listener_exit_effect [OF dg_exit(3)] by (auto simp: accounted_def held_def)
next
  case (dg_traffic ts w f)
  then show ?thesis using assms(2) by (simp add: accounted_def held_def)
qed

section \<open>Properties\<close>

text \<open>Runs in which no commit in flight ever meets the situation in which it would lose a listener.\<close>

inductive careful_runs :: "dg_task list \<times> dg_world \<Rightarrow> dg_task list \<times> dg_world \<Rightarrow> bool" where
  careful_refl: "careful_runs x x"
| careful_next: "careful_runs x y \<Longrightarrow> \<forall>t \<in> set (fst y). loses t (snd y) = {} \<Longrightarrow> dg_step y z \<Longrightarrow> careful_runs x z"

lemma careful_runs_accounted:
  "careful_runs x y \<Longrightarrow> accounted x \<Longrightarrow> exits_cancelled (snd x) \<Longrightarrow> accounted y \<and> exits_cancelled (snd y)"
  by (induction rule: careful_runs.induct) (auto intro: accounted_step exits_cancelled_step)

lemma dg_world_new_start:
  assumes "dg_world_new limits = Inr w"
  shows "accounted ([], w)" "exits_cancelled w"
  using assms by (auto simp: dg_world_new_def accounted_def exits_cancelled_def split: sum.splits)

text \<open>
  C19. Listeners are owned. In every interleaving of create, enable, disable, delete and update in which no commit finds its
  proxy gone while enabling, or finds a listener already installed while creating or updating, each listener that was
  not told to stop is shown by a definition or held by a call in flight. In particular, when all calls have returned and no
  definition is left, every listener was cancelled.
\<close>

theorem listeners_owned:
  assumes "dg_world_new limits = Inr w0" "careful_runs ([], w0) (ts, w)" "l < length (dw_listeners w)"
  shows "li_cancelled (dw_listeners w ! l) \<or> (\<exists>t \<in> set ts. l \<in> carried t) \<or>
    (\<exists>name m. map_of (dw_proxies w) name = Some m \<and> mg_listener m = Some l)"
  using careful_runs_accounted [OF assms(2) dg_world_new_start(1) [OF assms(1)]] dg_world_new_start(2) [OF assms(1)] assms(3)
  by (auto simp: accounted_def held_def installed_def)

section \<open>Concrete runs\<close>

datatype dg_move = MoveCall dg_task | MoveRun nat udp_bind | MoveExit nat

fun dg_exec :: "dg_move list \<Rightarrow> dg_task list \<times> dg_world \<Rightarrow> (dg_task list \<times> dg_world) option" where
  "dg_exec [] x = Some x"
| "dg_exec (MoveCall t # ms) (ts, w) = (if dg_fresh_call t then dg_exec ms (ts @ [t], w) else None)"
| "dg_exec (MoveRun i b # ms) (ts, w) =
     (if i < length ts then (case dg_task_step b (ts ! i) w of Some (t', w') \<Rightarrow> dg_exec ms (ts[i := t'], w') | None \<Rightarrow> None) else None)"
| "dg_exec (MoveExit l # ms) (ts, w) = (case listener_exit l w of Some w' \<Rightarrow> dg_exec ms (ts, w') | None \<Rightarrow> None)"

lemma dg_exec_steps: "dg_exec ms x = Some y \<Longrightarrow> dg_steps x y"
proof (induction ms x rule: dg_exec.induct)
  case (2 t ms ts w)
  then show ?case by (auto intro: converse_rtranclp_into_rtranclp dg_call split: if_splits)
next
  case (3 i b ms ts w)
  then show ?case by (auto intro: converse_rtranclp_into_rtranclp dg_run split: if_splits option.splits prod.splits)
next
  case (4 l ms ts w)
  then show ?case by (auto intro: converse_rtranclp_into_rtranclp dg_exit split: option.splits)
qed simp

definition race_spec :: datagram_proxy_spec where
  "race_spec = \<lparr>ds_name = ''dns'', ds_listen = SocketV4 2130706433 0, ds_upstream = SocketV4 2130706433 53, ds_max_associations = 4, ds_idle_timeout = 1000000,
     ds_queue_limits = \<lparr>max_queued_datagrams = 8, max_queued_bytes = 100, max_datagram_bytes = 10\<rparr>,
     ds_upstream_policy = \<lparr>generation = 1, pub_plan = datagram_plan_empty, seed_namespace = 0\<rparr>,
     ds_downstream_policy = \<lparr>generation = 1, pub_plan = datagram_plan_empty, seed_namespace = 0\<rparr>, ds_seed = 0\<rparr>"

definition empty_world :: dg_world where
  "empty_world = \<lparr>dw_limits = default_runtime_limits, dw_proxies = [], dw_specs = [], dw_active = (\<lambda>_. 0), dw_listeners = [], dw_drained = []\<rparr>"

lemma empty_world_new: "dg_world_new default_runtime_limits = Inr empty_world"
  by (simp add: dg_world_new_def empty_world_def runtime_limits_validate_def default_runtime_limits_def MAX_DATAGRAM_PROXIES_def
      MAX_DATAGRAM_ASSOCIATIONS_def MAX_ASSOCIATION_HISTORY_def MAX_INGRESS_QUEUE_def MAX_INGRESS_BUFFER_BYTES_def)

lemma race_spec_valid: "datagram_spec_validate 4096 race_spec = Inr ()"
  by (simp add: datagram_spec_validate_def race_spec_def name_byte_ok_def MAX_IDLE_TIMEOUT_def NANOS_PER_SEC_def limits_validate_def
      datagram_plan_empty_def datagram_validate_def v4_is_multicast_def v4_is_broadcast_def)

definition race_moves :: "dg_move list" where
  "race_moves =
     (let a = UdpBound (SocketV4 2130706433 5300); b = UdpBound (SocketV4 2130706433 5301) in
      [MoveCall (DgCreate race_spec), MoveRun 0 a, MoveRun 0 a, MoveRun 0 a, MoveRun 0 a, MoveRun 0 a,
       MoveCall (DgDisable ''dns''), MoveRun 1 a, MoveExit 0, MoveRun 1 a, MoveRun 1 a,
       MoveCall (DgEnable ''dns''), MoveRun 2 b, MoveRun 2 b, MoveRun 2 b,
       MoveCall (DgDelete ''dns''), MoveRun 3 b, MoveRun 3 b])"

definition race_end :: "dg_task list \<times> dg_world" where
  "race_end =
     ([DgFinished (DgView 0 (Some (SocketV4 2130706433 5300)) True), DgFinished DgOk, DgFinished (DgErr (DgNotFound ''dns'')), DgFinished (DgBool True)],
      empty_world\<lparr>dw_specs := [race_spec],
        dw_listeners := [\<lparr>li_state = 0, li_bound = SocketV4 2130706433 5300, li_cancelled = True, li_drain_on_exit = True, li_exited = True\<rparr>,
                         \<lparr>li_state = 0, li_bound = SocketV4 2130706433 5301, li_cancelled = False, li_drain_on_exit = True, li_exited = False\<rparr>],
        dw_drained := [(0, False), (0, False), (0, False)]\<rparr>)"

lemma race_spec_name: "ds_name race_spec = ''dns''"
  by (simp add: race_spec_def)

lemma empty_world_limits: "dw_limits empty_world = default_runtime_limits" "rl_max_associations default_runtime_limits = 4096" "rl_max_proxies default_runtime_limits = 128"
  "dw_proxies empty_world = []" "dw_specs empty_world = []" "dw_listeners empty_world = []" "dw_drained empty_world = []"
  by (simp_all add: empty_world_def default_runtime_limits_def)

text \<open>The run up to the last step, in which the enable finds its proxy gone.\<close>

definition race_last :: "dg_task list \<times> dg_world" where
  "race_last = ((fst race_end)[2 := DgEnableCommit ''dns'' 0 1 (SocketV4 2130706433 5301)], snd race_end)"

lemma race_exec: "dg_exec race_moves ([], empty_world) = Some race_last"
  by (simp add: race_moves_def race_last_def race_end_def Let_def dg_create_def race_spec_valid dg_admit_error_def race_spec_name empty_world_limits
      dg_create_insert_def put_managed_def dg_create_spawn_def spawn_listener_def dg_create_commit_def dg_disable_def cancel_listener_def
      adjust_listener_def listener_exit_def dg_enable_def dg_enable_spawn_def dg_enable_commit_def dg_delete_def)

text \<open>
  C20. An enable that loses the race with a delete leaks its listener. In every reachable state in which an enable has started
  its listener and finds its proxy deleted, the call returns \<^verbatim>\<open>NotFound\<close>, and the listener it started is left running:
  whatever is called later, it is neither cancelled nor ended, keeps its address and is shown by no definition.
\<close>

theorem lost_listener_runs_on:
  assumes "dg_world_new limits = Inr w0" "dg_steps ([], w0) (ts, w)" "i < length ts" "ts ! i = DgEnableCommit name st l addr"
    and "map_of (dw_proxies w) name = None" "dg_task_step b (ts ! i) w = Some (t', w1)" "dg_steps (ts[i := t'], w1) (us, w')"
  shows "t' = DgFinished (DgErr (DgNotFound name)) \<and> l < length (dw_listeners w') \<and>
    \<not> li_cancelled (dw_listeners w' ! l) \<and> \<not> li_exited (dw_listeners w' ! l) \<and>
    (\<forall>name' m. map_of (dw_proxies w') name' = Some m \<longrightarrow> mg_listener m \<noteq> Some l)"
proof -
  have t': "t' = DgFinished (DgErr (DgNotFound name))" "w1 = w" using assms(4-6) by (simp_all add: dg_enable_commit_def)
  have "exclusive l i (ts, w)"
    using commits_exclusive_steps [OF assms(1,2)] assms(3,4) by (simp add: commits_exclusive_def)
  then have "orphan l (ts[i := t'], w1)"
    using held_run(2) [OF assms(3), of t' w1] by (simp add: orphan_def exclusive_def t')
  from orphan_steps [OF assms(7) this] t' show ?thesis by (auto simp: orphan_def held_def installed_def)
qed

theorem lost_listener_runs_on_witness:
  "dg_steps ([], empty_world) race_last \<and> fst race_last ! 3 = DgFinished (DgBool True) \<and>
     dg_task_step (UdpBindError []) (fst race_last ! 2) (snd race_last) = Some (DgFinished (DgErr (DgNotFound ''dns'')), snd race_end) \<and>
     \<not> li_cancelled (dw_listeners (snd race_end) ! 1) \<and> \<not> li_exited (dw_listeners (snd race_end) ! 1)"
proof -
  let ?ts = "fst race_last" and ?w = "snd race_last"
  have run: "dg_steps ([], empty_world) (?ts, ?w)" using dg_exec_steps [OF race_exec] by simp
  have shape: "2 < length ?ts" "?ts ! 2 = DgEnableCommit ''dns'' 0 1 (SocketV4 2130706433 5301)" "map_of (dw_proxies ?w) ''dns'' = None"
    "?w = snd race_end" "?ts ! 3 = DgFinished (DgBool True)"
    by (simp_all add: race_last_def race_end_def empty_world_limits)
  then have step: "dg_task_step (UdpBindError []) (?ts ! 2) ?w = Some (DgFinished (DgErr (DgNotFound ''dns'')), ?w)"
    by (simp add: dg_enable_commit_def)
  from lost_listener_runs_on [OF empty_world_new run shape(1-3) step rtranclp.rtrancl_refl] dg_exec_steps [OF race_exec] step shape(4,5) show ?thesis by simp
qed

theorem listeners_owned_witness:
  "\<exists>ts w. careful_runs ([], empty_world) (ts, w) \<and> length (dw_listeners w) = 1 \<and>
     (li_cancelled (dw_listeners w ! 0) \<or> (\<exists>t \<in> set ts. 0 \<in> carried t) \<or> (\<exists>name m. map_of (dw_proxies w) name = Some m \<and> mg_listener m = Some 0))"
proof -
  let ?a = "SocketV4 2130706433 5300"
  define w1 where "w1 = put_managed ''dns'' \<lparr>mg_state = 0, mg_listener = None, mg_cancel_start = False\<rparr> (empty_world\<lparr>dw_specs := [race_spec]\<rparr>)"
  define w2 where "w2 = snd (spawn_listener 0 ?a w1)"
  have l0: "dw_listeners w1 = []" by (simp add: w1_def empty_world_limits)
  have 1: "careful_runs ([], empty_world) ([DgCreate race_spec], empty_world)"
    using careful_next [OF careful_refl, of "([], empty_world)"] dg_call [of "DgCreate race_spec" "[]"] by simp
  have 2: "careful_runs ([], empty_world) ([DgCreateBind race_spec], empty_world)"
    using careful_next [OF 1] dg_run [of 0 "[DgCreate race_spec]" "UdpBound ?a" empty_world "DgCreateBind race_spec" empty_world]
    by (simp add: dg_create_def race_spec_valid dg_admit_error_def empty_world_limits)
  have 3: "careful_runs ([], empty_world) ([DgCreateInsert race_spec ?a], empty_world)"
    using careful_next [OF 2] dg_run [of 0 "[DgCreateBind race_spec]" "UdpBound ?a" empty_world "DgCreateInsert race_spec ?a" empty_world] by simp
  have 4: "careful_runs ([], empty_world) ([DgCreateSpawn ''dns'' 0 ?a], w1)"
    using careful_next [OF 3] dg_run [of 0 "[DgCreateInsert race_spec ?a]" "UdpBound ?a" empty_world "DgCreateSpawn ''dns'' 0 ?a" w1]
    by (simp add: dg_create_insert_def dg_admit_error_def empty_world_limits race_spec_name w1_def)
  have 5: "careful_runs ([], empty_world) ([DgCreateCommit ''dns'' 0 0 ?a], w2)"
    using careful_next [OF 4] dg_run [of 0 "[DgCreateSpawn ''dns'' 0 ?a]" "UdpBound ?a" w1 "DgCreateCommit ''dns'' 0 0 ?a" w2]
    by (simp add: dg_create_spawn_def spawn_listener_def l0 w2_def)
  have "length (dw_listeners w2) = 1" by (simp add: w2_def spawn_listener_def l0)
  with listeners_owned [OF empty_world_new 5, of 0] have "length (dw_listeners w2) = 1 \<and> (li_cancelled (dw_listeners w2 ! 0) \<or>
      (\<exists>t \<in> set [DgCreateCommit ''dns'' 0 0 ?a]. 0 \<in> carried t) \<or> (\<exists>name m. map_of (dw_proxies w2) name = Some m \<and> mg_listener m = Some 0))" by simp
  with 5 show ?thesis by blast
qed

end
