(* ===== verification/ScenarioV1.thy ===== *)
theory ScenarioV1
  imports Plane
begin

text \<open>
  The version 1 scenario engine, \<^verbatim>\<open>crates/eggchaos-server/src/scenario.rs\<close>, and its entry points in
  \<^verbatim>\<open>runtime/control.rs\<close>: validation of a document, the run driver, and starting and cancelling runs.

  Everything is a sequence of control-plane calls on an arbitrary \<open>control_api\<close>. The driver recurses over
  the events, so it returns for every document and every behaviour of the control plane.
\<close>

section \<open>Documents\<close>

record scenario_event =
  ev_at_ms :: nat
  ev_action :: scenario_action

record scenario =
  sd_version :: nat
  sd_seed :: u64
  sd_events :: "scenario_event list"

fun action_proxy :: "scenario_action \<Rightarrow> string" where
  "action_proxy (SetPlan proxy dir faults) = proxy"
| "action_proxy (RemoveFault proxy dir i) = proxy"
| "action_proxy (SetDatagramPlan proxy dir faults) = proxy"
| "action_proxy (RemoveDatagramFault proxy dir i) = proxy"

fun action_direction :: "scenario_action \<Rightarrow> direction" where
  "action_direction (SetPlan proxy dir faults) = dir"
| "action_direction (RemoveFault proxy dir i) = dir"
| "action_direction (SetDatagramPlan proxy dir faults) = dir"
| "action_direction (RemoveDatagramFault proxy dir i) = dir"

section \<open>Validation\<close>

definition shares_id :: "datagram_fault_spec list \<Rightarrow> datagram_plan \<Rightarrow> bool" where
  "shares_id faults other = list_ex (\<lambda>f. has_fault (df_id f) other) faults"

definition ids_not_unique :: string where
  "ids_not_unique = ''datagram fault IDs must be unique across directions''"

fun validate_action :: "'w control_api \<Rightarrow> scenario_action \<Rightarrow> 'w \<Rightarrow> (eggchaos_error + unit) \<times> 'w" where
  "validate_action a (SetDatagramPlan proxy dir faults) w =
     (case datagram_plan_new faults of
        Inl e \<Rightarrow> (Inl (InvalidProxy e), w)
      | Inr _ \<Rightarrow>
          let (known, w1) = api_has_datagram a proxy w in
          if \<not> known then (Inl (InvalidProxy ''scenario datagram proxy not found''), w1)
          else (case get_datagram_plan a proxy (other_direction dir) w1 of
                  (Inl e, w2) \<Rightarrow> (Inl (ControlFailure e), w2)
                | (Inr (other, _, _), w2) \<Rightarrow>
                    if shares_id faults other then (Inl (InvalidProxy ids_not_unique), w2) else (Inr (), w2)))"
| "validate_action a (RemoveDatagramFault proxy dir i) w =
     (case fault_id_new i of
        Inl e \<Rightarrow> (Inl (InvalidProxy (''invalid fault id: '' @ validation_error_display e)), w)
      | Inr _ \<Rightarrow> (case get_datagram_plan a proxy dir w of
          (Inl e, w1) \<Rightarrow> (Inl (ControlFailure e), w1)
        | (Inr (plan, _, _), w1) \<Rightarrow>
            if \<not> has_fault i plan
            then (Inl (InvalidProxy (''scenario datagram fault '' @ i @ '' not present on '' @ proxy)), w1)
            else (Inr (), w1)))"
| "validate_action a (SetPlan proxy dir faults) w =
     (case fault_plan_new faults of
        Inl e \<Rightarrow> (Inl (InvalidPlan e), w)
      | Inr _ \<Rightarrow> (case api_snapshot_policies a proxy w of
          (None, w1) \<Rightarrow> (Inl (InvalidProxy ''scenario proxy not found''), w1)
        | (Some _, w1) \<Rightarrow> (Inr (), w1)))"
| "validate_action a (RemoveFault proxy dir i) w =
     (case fault_id_new i of
        Inl e \<Rightarrow> (Inl (InvalidProxy (''invalid fault id: '' @ validation_error_display e)), w)
      | Inr _ \<Rightarrow> (case api_snapshot_policies a proxy w of
          (None, w1) \<Rightarrow> (Inl (InvalidProxy ''scenario proxy not found''), w1)
        | (Some (upstream, downstream), w1) \<Rightarrow>
            let base = (case dir of Upstream \<Rightarrow> upstream | Downstream \<Rightarrow> downstream) in
            if plan_get (pub_plan base) i = None
            then (Inl (InvalidProxy (''scenario fault '' @ i @ '' not present on '' @ proxy)), w1)
            else (Inr (), w1)))"

fun validate_events :: "'w control_api \<Rightarrow> nat \<Rightarrow> scenario_event list \<Rightarrow> 'w \<Rightarrow> (eggchaos_error + unit) \<times> 'w" where
  "validate_events a previous [] w = (Inr (), w)"
| "validate_events a previous (ev # evs) w =
     (if ev_at_ms ev < previous then (Inl (InvalidProxy ''scenario events must be ordered''), w)
      else case validate_action a (ev_action ev) w of
             (Inl e, w') \<Rightarrow> (Inl e, w')
           | (Inr _, w') \<Rightarrow> validate_events a (ev_at_ms ev) evs w')"

definition validate_scenario :: "'w control_api \<Rightarrow> scenario \<Rightarrow> 'w \<Rightarrow> (eggchaos_error + unit) \<times> 'w" where
  "validate_scenario a sc w =
     (if sd_version sc \<noteq> 1 then (Inl (InvalidProxy ''unsupported scenario version''), w)
      else if 1024 < length (sd_events sc) then (Inl (InvalidProxy ''too many scenario events''), w)
      else validate_events a 0 (sd_events sc) w)"

section \<open>The driver\<close>

definition fail_run :: "'w control_api \<Rightarrow> nat \<Rightarrow> string \<Rightarrow> 'w \<Rightarrow> 'w" where
  "fail_run a run_id message w =
     (let (_, w1) = api_update_run a run_id (\<lambda>r. r\<lparr>rr_status := V1Failed, rr_failure := Some message\<rparr>) w;
          (_, w2) = api_drop_token a run_id w1
      in w2)"

definition append_trail :: "'w control_api \<Rightarrow> nat \<Rightarrow> scenario_event_result \<Rightarrow> 'w \<Rightarrow> 'w" where
  "append_trail a run_id result w =
     snd (api_update_run a run_id (\<lambda>r. r\<lparr>rr_applied := rr_applied r + 1, rr_trail := rr_trail r @ [result]\<rparr>) w)"

text \<open>
  An event either ends the run, with the world left by \<open>fail_run\<close>, or the run goes on: the first component
  says which.
\<close>

definition stop_run :: "'w control_api \<Rightarrow> nat \<Rightarrow> string \<Rightarrow> 'w \<Rightarrow> bool \<times> 'w" where
  "stop_run a run_id message w = (False, fail_run a run_id message w)"

definition pair_generations :: "direction \<Rightarrow> nat \<Rightarrow> nat \<Rightarrow> nat \<times> nat" where
  "pair_generations dir own other = (case dir of Upstream \<Rightarrow> (own, other) | Downstream \<Rightarrow> (other, own))"

definition event_result :: "nat \<Rightarrow> scenario_event \<Rightarrow> string \<Rightarrow> nat \<Rightarrow> nat \<times> nat \<Rightarrow> scenario_event_result" where
  "event_result index ev summary global gens =
     \<lparr>se_index = index, se_at_ms = ev_at_ms ev, se_action = summary, se_proxy = action_proxy (ev_action ev),
      se_direction = action_direction (ev_action ev), se_global_generation = global,
      se_upstream_generation = fst gens, se_downstream_generation = snd gens\<rparr>"

definition event_namespace :: "u64 \<Rightarrow> nat \<Rightarrow> nat \<Rightarrow> u64" where
  "event_namespace seed run_id index = derive_policy_seed seed (of_nat run_id) (of_nat index)"

text \<open>The faults an event leaves in its direction, or the message it fails with.\<close>

definition datagram_faults :: "'w control_api \<Rightarrow> scenario_action \<Rightarrow> datagram_plan \<Rightarrow> 'w \<Rightarrow>
    (string + datagram_fault_spec list \<times> string) \<times> 'w" where
  "datagram_faults a action base w =
     (case action of
        SetDatagramPlan proxy dir replacement \<Rightarrow>
          (case datagram_plan_new replacement of
             Inl e \<Rightarrow> (Inl (''scenario datagram plan invalid: '' @ e), w)
           | Inr plan \<Rightarrow> (case get_datagram_plan a proxy (other_direction dir) w of
               (Inl e, w1) \<Rightarrow> (Inl (''scenario datagram proxy '' @ proxy @ '' not found: '' @ control_error_display e), w1)
             | (Inr (other, _, _), w1) \<Rightarrow>
                 if shares_id replacement other then (Inl ids_not_unique, w1)
                 else (Inr (dp_faults plan, ''set-datagram-plan''), w1)))
      | RemoveDatagramFault proxy dir i \<Rightarrow>
          if \<not> has_fault i base then (Inl (''scenario datagram fault '' @ i @ '' not present on '' @ proxy), w)
          else (Inr (filter (\<lambda>f. df_id f \<noteq> i) (dp_faults base), ''remove-datagram-fault''), w)
      | _ \<Rightarrow> (Inl [], w))"

text \<open>
  The check after the publication of a whole plan: a duplicate id across directions is compensated by
  publishing the base again, whose result is ignored. The first component says that a duplicate was found.
\<close>

definition recheck_unique :: "'w control_api \<Rightarrow> string \<Rightarrow> direction \<Rightarrow> datagram_plan \<Rightarrow> 'w \<Rightarrow> bool \<times> 'w" where
  "recheck_unique a proxy dir base w =
     (case get_datagram_plan a proxy (other_direction dir) w of
        (Inl _, w1) \<Rightarrow> (False, w1)
      | (Inr (other, _, _), w1) \<Rightarrow> (case get_datagram_plan a proxy dir w1 of
          (Inl _, w2) \<Rightarrow> (False, w2)
        | (Inr (own, _, _), w2) \<Rightarrow>
            if \<not> shares_id (dp_faults own) other then (False, w2)
            else (case get_datagram_plan a proxy dir w2 of
                    (Inl _, w3) \<Rightarrow> (True, w3)
                  | (Inr (_, own_generation, own_seed), w3) \<Rightarrow>
                      (True, snd (publish_datagram_plan a proxy dir base own_seed (Some own_generation) w3)))))"

fun is_set_datagram :: "scenario_action \<Rightarrow> bool" where
  "is_set_datagram (SetDatagramPlan proxy dir faults) = True"
| "is_set_datagram _ = False"

definition finish_datagram :: "'w control_api \<Rightarrow> nat \<Rightarrow> nat \<Rightarrow> scenario_event \<Rightarrow> string \<Rightarrow> nat \<Rightarrow> 'w \<Rightarrow> bool \<times> 'w" where
  "finish_datagram a run_id index ev summary gen w =
     (let proxy = action_proxy (ev_action ev); dir = action_direction (ev_action ev) in
      case get_datagram_plan a proxy (other_direction dir) w of
        (Inl _, w1) \<Rightarrow> stop_run a run_id (''scenario proxy '' @ proxy @ '' not found'') w1
      | (Inr (_, other_generation, _), w1) \<Rightarrow>
          let (global, w2) = api_generation a w1 in
          (True, append_trail a run_id (event_result index ev summary global (pair_generations dir gen other_generation)) w2))"

definition datagram_event :: "'w control_api \<Rightarrow> u64 \<Rightarrow> nat \<Rightarrow> nat \<Rightarrow> scenario_event \<Rightarrow> 'w \<Rightarrow> bool \<times> 'w" where
  "datagram_event a seed run_id index ev w =
     (let proxy = action_proxy (ev_action ev); dir = action_direction (ev_action ev) in
      case get_datagram_plan a proxy dir w of
        (Inl e, w1) \<Rightarrow> stop_run a run_id (''scenario datagram proxy '' @ proxy @ '' not found: '' @ control_error_display e) w1
      | (Inr (base, expected, _), w1) \<Rightarrow> (case datagram_faults a (ev_action ev) base w1 of
          (Inl message, w2) \<Rightarrow> stop_run a run_id message w2
        | (Inr (faults, summary), w2) \<Rightarrow> (case datagram_plan_new faults of
            Inl e \<Rightarrow> stop_run a run_id (''scenario datagram plan invalid: '' @ e) w2
          | Inr plan \<Rightarrow>
              (case publish_datagram_plan a proxy dir plan (event_namespace seed run_id index) (Some expected) w2 of
                 (Inl e, w3) \<Rightarrow> stop_run a run_id (''scenario event failed: '' @ control_error_display e) w3
               | (Inr gen, w3) \<Rightarrow>
                   if is_set_datagram (ev_action ev)
                   then (case recheck_unique a proxy dir base w3 of
                           (True, w4) \<Rightarrow> stop_run a run_id ids_not_unique w4
                         | (False, w4) \<Rightarrow> finish_datagram a run_id index ev summary gen w4)
                   else finish_datagram a run_id index ev summary gen w3))))"

fun stream_plan_after :: "scenario_action \<Rightarrow> fault_plan \<Rightarrow> string + fault_plan \<times> string" where
  "stream_plan_after (SetPlan proxy dir faults) base =
     (case fault_plan_new faults of
        Inl e \<Rightarrow> Inl (''scenario plan invalid: '' @ validation_error_display e)
      | Inr plan \<Rightarrow> Inr (plan, ''set-plan''))"
| "stream_plan_after (RemoveFault proxy dir i) base =
     (if plan_get base i = None then Inl (''scenario fault '' @ i @ '' not present on '' @ proxy)
      else Inr (without_fault i base, ''remove-fault''))"
| "stream_plan_after _ base = Inl []"

definition stream_event :: "'w control_api \<Rightarrow> u64 \<Rightarrow> nat \<Rightarrow> nat \<Rightarrow> scenario_event \<Rightarrow> 'w \<Rightarrow> bool \<times> 'w" where
  "stream_event a seed run_id index ev w =
     (let proxy = action_proxy (ev_action ev); dir = action_direction (ev_action ev) in
      case api_snapshot_policies a proxy w of
        (None, w1) \<Rightarrow> stop_run a run_id (''scenario proxy '' @ proxy @ '' not found'') w1
      | (Some (upstream, downstream), w1) \<Rightarrow>
          let own = (case dir of Upstream \<Rightarrow> upstream | Downstream \<Rightarrow> downstream);
              other = (case dir of Upstream \<Rightarrow> downstream | Downstream \<Rightarrow> upstream)
          in (case stream_plan_after (ev_action ev) (pub_plan own) of
                Inl message \<Rightarrow> stop_run a run_id message w1
              | Inr (plan, summary) \<Rightarrow>
                  (case api_publish_direction a proxy dir plan (event_namespace seed run_id index) (generation own) w1 of
                     (Inl e, w2) \<Rightarrow> stop_run a run_id (''scenario event failed: '' @ control_error_display e) w2
                   | (Inr (global, gen), w2) \<Rightarrow>
                       (True, append_trail a run_id
                          (event_result index ev summary global (pair_generations dir gen (generation other))) w2))))"

fun is_datagram :: "scenario_action \<Rightarrow> bool" where
  "is_datagram (SetDatagramPlan proxy dir faults) = True"
| "is_datagram (RemoveDatagramFault proxy dir i) = True"
| "is_datagram _ = False"

definition apply_scenario_event :: "'w control_api \<Rightarrow> u64 \<Rightarrow> nat \<Rightarrow> nat \<Rightarrow> scenario_event \<Rightarrow> 'w \<Rightarrow> bool \<times> 'w" where
  "apply_scenario_event a seed run_id index ev w =
     (if is_datagram (ev_action ev) then datagram_event a seed run_id index ev w
      else stream_event a seed run_id index ev w)"

definition finish_run :: "'w control_api \<Rightarrow> nat \<Rightarrow> scenario_run_status \<Rightarrow> 'w \<Rightarrow> 'w" where
  "finish_run a run_id status w =
     (let (_, w1) = api_update_run a run_id (\<lambda>r. r\<lparr>rr_status := status\<rparr>) w;
          (_, w2) = api_drop_token a run_id w1
      in w2)"

fun drive_events :: "'w control_api \<Rightarrow> u64 \<Rightarrow> nat \<Rightarrow> token \<Rightarrow> nat \<Rightarrow> nat \<Rightarrow> scenario_event list \<Rightarrow> 'w \<Rightarrow> 'w" where
  "drive_events a seed run_id t previous index [] w = finish_run a run_id V1Completed w"
| "drive_events a seed run_id t previous index (ev # evs) w =
     (let (cancelled, w1) = api_wait a t ((ev_at_ms ev - previous) * 1000000) w in
      if cancelled then finish_run a run_id V1Cancelled w1
      else case apply_scenario_event a seed run_id index ev w1 of
             (False, w2) \<Rightarrow> w2
           | (True, w2) \<Rightarrow> drive_events a seed run_id t (ev_at_ms ev) (Suc index) evs w2)"

definition drive_scenario_run :: "'w control_api \<Rightarrow> nat \<Rightarrow> scenario \<Rightarrow> token \<Rightarrow> 'w \<Rightarrow> 'w" where
  "drive_scenario_run a run_id sc t w =
     (let (_, w1) = api_update_run a run_id (\<lambda>r. r\<lparr>rr_status := V1Running\<rparr>) w
      in drive_events a (sd_seed sc) run_id t 0 0 (sd_events sc) w1)"

section \<open>Starting and cancelling\<close>

text \<open>The result carries the token, with which the caller spawns \<open>drive_scenario_run\<close>.\<close>

definition start_scenario :: "'w control_api \<Rightarrow> scenario \<Rightarrow> 'w \<Rightarrow> (eggchaos_error + scenario_run_record \<times> token) \<times> 'w" where
  "start_scenario a sc w =
     (case validate_scenario a sc w of
        (Inl e, w1) \<Rightarrow> (Inl e, w1)
      | (Inr _, w1) \<Rightarrow>
          let (run_id, w2) = api_next_run_id a w1;
              r = \<lparr>rr_run_id = run_id, rr_seed = sd_seed sc, rr_status = V1Pending, rr_applied = 0, rr_failure = None, rr_trail = []\<rparr>;
              (t, w3) = api_child_token a w2
          in case api_admit a run_id r t w3 of
               (Inl _, w4) \<Rightarrow> (Inl (ControlFailure (ControlConflict ''too many active scenario runs'')), w4)
             | (Inr _, w4) \<Rightarrow> (Inr (r, t), w4))"

definition cancel_scenario :: "'w control_api \<Rightarrow> nat \<Rightarrow> 'w \<Rightarrow> scenario_run_record option \<times> 'w" where
  "cancel_scenario a run_id w =
     (case api_take_token a run_id w of
        (None, w1) \<Rightarrow> api_get_run a run_id w1
      | (Some t, w1) \<Rightarrow>
          let (_, w2) = api_cancel a t w1;
              (_, w3) = api_update_run a run_id
                (\<lambda>r. if rr_status r = V1Pending \<or> rr_status r = V1Running then r\<lparr>rr_status := V1Cancelling\<rparr> else r) w2
          in api_get_run a run_id w3)"

end
