(* ===== verification/ScenarioV1Props.thy ===== *)
theory ScenarioV1Props
  imports ScenarioV1 ControlProps
begin

text \<open>
  What a version 1 scenario run does when nothing else changes the plans it works on, against a reference
  that only folds the actions over the plans.
\<close>

section \<open>The reference\<close>

type_synonym plans = "string \<times> direction \<Rightarrow> fault_plan option"

definition plans_of :: "'z control_scheme \<Rightarrow> plans" where
  "plans_of c = (\<lambda>(name, dir). map_option (\<lambda>entry. pub_plan (spec_policy dir (mp_spec entry))) (map_of (ct_proxies c) name))"

fun ref_action :: "scenario_action \<Rightarrow> plans \<Rightarrow> plans option" where
  "ref_action (SetPlan proxy dir faults) m =
     (if m (proxy, dir) \<noteq> None \<and> plan_ok \<lparr>plan_faults = faults\<rparr> then Some (m((proxy, dir) \<mapsto> \<lparr>plan_faults = faults\<rparr>)) else None)"
| "ref_action (RemoveFault proxy dir i) m =
     (case m (proxy, dir) of
        None \<Rightarrow> None
      | Some plan \<Rightarrow> if i \<in> fs_id ` set (plan_faults plan) then Some (m((proxy, dir) \<mapsto> without_fault i plan)) else None)"
| "ref_action _ m = None"

text \<open>How many actions apply before one does not, and the plans they leave.\<close>

fun ref_run :: "scenario_action list \<Rightarrow> plans \<Rightarrow> nat \<times> plans" where
  "ref_run [] m = (0, m)"
| "ref_run (x # xs) m =
     (case ref_action x m of
        None \<Rightarrow> (0, m)
      | Some m' \<Rightarrow> (let (k, m'') = ref_run xs m' in (Suc k, m'')))"

section \<open>One event\<close>

lemma plane_fields [simp]:
  "pl_registry (committed n d p ns w) = pl_registry w" "pl_datagrams (committed n d p ns w) = pl_datagrams w"
  "pl_cancelled (committed n d p ns w) = pl_cancelled w"
  by (simp_all add: committed_def adjust_spec_def next_generation_def Let_def)

lemma plans_of_committed:
  "committable n dir plan c \<Longrightarrow> plans_of (committed n dir plan ns c) = (plans_of c)((n, dir) \<mapsto> plan)"
  by (auto simp: plans_of_def committed_lookup committable_def next_policy_def fun_eq_iff)

lemma plans_of_entry:
  "plans_of c (n, dir) = Some plan \<longleftrightarrow> (\<exists>entry. map_of (ct_proxies c) n = Some entry \<and> plan = pub_plan (spec_policy dir (mp_spec entry)))"
  by (auto simp: plans_of_def)

text \<open>The run record after an event, and the parts of the world the record does not share with the plans.\<close>

definition run_with :: "nat \<Rightarrow> scenario_run_record \<Rightarrow> 'z plane_scheme \<Rightarrow> bool" where
  "run_with run_id r w = (get_scenario run_id w = Some r)"

lemma update_run_effect:
  "snd (update_scenario_run run_id f w) = w\<lparr>pl_registry := snd (update_v1 run_id f (pl_registry w))\<rparr>"
  by (simp add: update_scenario_run_def case_prod_unfold Let_def)

lemma run_with_update: "run_with run_id r w \<Longrightarrow> run_with run_id (f r) (snd (update_scenario_run run_id f w))"
  by (simp add: run_with_def get_scenario_def get_v1_def update_run_effect update_v1_def map_of_btree_adjust)

lemma update_run_frame [simp]:
  "ct_proxies (snd (update_scenario_run run_id f w)) = ct_proxies w"
  "ct_generation (snd (update_scenario_run run_id f w)) = ct_generation w"
  "pl_datagrams (snd (update_scenario_run run_id f w)) = pl_datagrams w"
  "pl_cancelled (snd (update_scenario_run run_id f w)) = pl_cancelled w"
  by (simp_all add: update_run_effect)

lemma drop_token_frame [simp]:
  "ct_proxies (remove_scenario_token run_id w) = ct_proxies w"
  "run_with run_id r (remove_scenario_token run_id w) = run_with run_id r w"
  by (simp_all add: remove_scenario_token_def run_with_def get_scenario_def get_v1_def drop_token_v1_def)

lemma drop_token_gone: "map_of (v1_tokens (pl_registry (remove_scenario_token run_id w))) run_id = None"
  by (simp add: remove_scenario_token_def drop_token_v1_def AList.delete_conv')

lemma plans_of_cong: "ct_proxies c = ct_proxies c' \<Longrightarrow> plans_of c = plans_of c'"
  by (simp add: plans_of_def fun_eq_iff)

lemma control_ok_cong: "ct_proxies (c :: 'z control_scheme) = ct_proxies (c' :: 'y control_scheme) \<Longrightarrow> control_ok c = control_ok c'"
  by (simp add: control_ok_def)

lemma generations_within_cong:
  "ct_proxies (c :: 'z control_scheme) = ct_proxies (c' :: 'y control_scheme) \<Longrightarrow> generations_within n c = generations_within n c'"
  by (simp add: generations_within_def)

lemma publish_direction_succeeds:
  assumes "control_ok c" "map_of (ct_proxies c) n = Some entry" "plan_ok plan"
    "expected = generation (spec_policy dir (mp_spec entry))" "expected < U64_MAX"
  shows "publish_direction_expected n dir plan ns expected c =
    (Inr ((ct_generation c + 1) mod 2 ^ 64, Suc expected), committed n dir plan ns c)"
proof -
  obtain res c' where run: "publish_direction_expected n dir plan ns expected c = (res, c')" by fastforce
  have "\<exists>x. fst (publish_direction_expected n dir plan ns expected c) = Inr x"
    using assms(2-5) by (auto simp: publish_direction_expected_def publish_expected_def case_prod_unfold simp flip: plan_validate_iff)
  then show ?thesis using publish_direction_edits [OF assms(1) run] run by auto
qed

lemma publish_direction_invalid:
  assumes "control_ok c" "\<not> plan_ok plan"
  shows "\<exists>e. publish_direction_expected n dir plan ns expected c = (Inl e, c)"
proof -
  obtain res c' where run: "publish_direction_expected n dir plan ns expected c = (res, c')" by fastforce
  have "\<not> committable n dir plan c" using assms(2) by (simp add: committable_def)
  then show ?thesis using publish_direction_edits [OF assms(1) run] run by auto
qed

lemma fault_plan_new_plan_ok: "plan_ok \<lparr>plan_faults = faults\<rparr> \<Longrightarrow> fault_plan_new faults = Inr \<lparr>plan_faults = faults\<rparr>"
  by (simp add: fault_plan_new_iff plan_ok_def)

text \<open>An event the reference applies.\<close>

lemma stream_event_applied:
  assumes "control_ok w" "generations_within n w" "n < U64_MAX" "ref_action (ev_action ev) (plans_of w) = Some m"
    "run_with run_id r w"
  shows "\<exists>w' result. stream_event plane_api seed run_id index ev w = (True, w') \<and> control_ok w' \<and> generations_within (Suc n) w' \<and>
    plans_of w' = m \<and> pl_cancelled w' = pl_cancelled w \<and>
    run_with run_id (r\<lparr>rr_applied := rr_applied r + 1, rr_trail := rr_trail r @ [result]\<rparr>) w' \<and>
    se_index result = index \<and> se_at_ms result = ev_at_ms ev \<and>
    snapshot_policies (action_proxy (ev_action ev)) w' \<noteq> None \<and>
    (\<forall>up down. snapshot_policies (action_proxy (ev_action ev)) w' = Some (up, down) \<longrightarrow>
       se_upstream_generation result = generation up \<and> se_downstream_generation result = generation down)"
proof -
  define proxy where "proxy = action_proxy (ev_action ev)"
  define dir where "dir = action_direction (ev_action ev)"
  have "\<exists>plan. plans_of w (proxy, dir) = Some plan"
    using assms(4) unfolding proxy_def dir_def by (cases "ev_action ev") (auto split: option.splits if_splits)
  then obtain entry where entry: "map_of (ct_proxies w) proxy = Some entry" by (auto simp: plans_of_entry)
  define own where "own = spec_policy dir (mp_spec entry)"
  define other where "other = spec_policy (other_direction dir) (mp_spec entry)"
  have okown: "plan_ok (pub_plan own)" using assms(1) entry by (simp add: own_def control_ok_def spec_synced_def)
  have lt: "generation own < U64_MAX"
    using assms(2,3) entry unfolding own_def generations_within_def by (meson le_less_trans)
  have here: "plans_of w (proxy, dir) = Some (pub_plan own)" using entry by (simp add: plans_of_def own_def)
  obtain plan summary where plan: "stream_plan_after (ev_action ev) (pub_plan own) = Inr (plan, summary)" "plan_ok plan"
    "m = (plans_of w)((proxy, dir) \<mapsto> plan)"
    using assms(4) okown here unfolding proxy_def dir_def
    by (cases "ev_action ev") (auto simp: fault_plan_new_plan_ok plan_get_None without_fault_ok split: if_splits)
  let ?ns = "event_namespace seed run_id index"
  let ?w1 = "committed proxy dir plan ?ns w"
  have able: "committable proxy dir plan w" using entry plan(2) lt by (simp add: committable_def own_def)
  have pub: "publish_direction_expected proxy dir plan ?ns (generation own) w =
      (Inr ((ct_generation w + 1) mod 2 ^ 64, Suc (generation own)), ?w1)"
    using publish_direction_succeeds [OF assms(1) entry plan(2) _ lt] by (simp add: own_def)
  let ?result = "event_result index ev summary ((ct_generation w + 1) mod 2 ^ 64) (pair_generations dir (Suc (generation own)) (generation other))"
  let ?w2 = "append_trail plane_api run_id ?result ?w1"
  have snap: "snapshot_policies proxy w = Some (spec_policy Upstream (mp_spec entry), spec_policy Downstream (mp_spec entry))"
    using entry by (simp add: snapshot_policies_def spec_policy_other)
  have step: "stream_event plane_api seed run_id index ev w = (True, ?w2)"
    using snap plan(1) pub unfolding stream_event_def proxy_def [symmetric] dir_def [symmetric]
    by (cases dir) (simp_all add: own_def other_def Let_def)
  have frame: "ct_proxies ?w2 = ct_proxies ?w1" "pl_cancelled ?w2 = pl_cancelled w"
    by (simp_all add: append_trail_def)
  have ok1: "control_ok ?w1" using committed_ok [OF assms(1) able] .
  have "generations_within (Suc n) ?w1"
    by (rule generations_within_step [OF assms(2)])
      (use lt in \<open>auto simp: committed_lookup next_policy_def sat_add64_def own_def entry split: if_splits\<close>)
  moreover have "run_with run_id (r\<lparr>rr_applied := rr_applied r + 1, rr_trail := rr_trail r @ [?result]\<rparr>) ?w2"
    using run_with_update [of run_id r ?w1] assms(5) by (simp add: append_trail_def run_with_def get_scenario_def)
  moreover have "\<exists>up down. snapshot_policies proxy ?w2 = Some (up, down) \<and>
      se_upstream_generation ?result = generation up \<and> se_downstream_generation ?result = generation down"
    using lt entry unfolding snapshot_policies_def frame committed_lookup
    by (cases dir) (simp_all add: spec_policy_other event_result_def pair_generations_def next_policy_def sat_add64_def own_def other_def)
  moreover have "control_ok ?w2" using ok1 control_ok_cong [OF frame(1)] by blast
  moreover have "plans_of ?w2 = m"
    using plans_of_committed [OF able, of ?ns] plans_of_cong [OF frame(1)] plan(3) by simp
  moreover have "se_index ?result = index" "se_at_ms ?result = ev_at_ms ev" by (simp_all add: event_result_def)
  ultimately show ?thesis using step frame(2) generations_within_cong [OF frame(1), of "Suc n"]
    unfolding proxy_def [symmetric] by (intro exI [of _ ?w2] exI [of _ ?result]) auto
qed

text \<open>An event the reference does not apply: the run fails and the plans are as before.\<close>

lemma stop_run_plane:
  assumes "run_with run_id r w"
  shows "\<exists>w'. stop_run plane_api run_id message w = (False, w') \<and> ct_proxies w' = ct_proxies w \<and>
    run_with run_id (r\<lparr>rr_status := V1Failed, rr_failure := Some message\<rparr>) w' \<and>
    map_of (v1_tokens (pl_registry w')) run_id = None"
  using run_with_update [OF assms, of "\<lambda>r. r\<lparr>rr_status := V1Failed, rr_failure := Some message\<rparr>"]
  by (simp add: drop_token_gone stop_run_def fail_run_def case_prod_unfold Let_def)

lemma stream_event_refused:
  assumes "control_ok w" "\<not> is_datagram (ev_action ev)" "ref_action (ev_action ev) (plans_of w) = None" "run_with run_id r w"
  shows "\<exists>w' message. stream_event plane_api seed run_id index ev w = (False, w') \<and> ct_proxies w' = ct_proxies w \<and>
    run_with run_id (r\<lparr>rr_status := V1Failed, rr_failure := Some message\<rparr>) w' \<and>
    map_of (v1_tokens (pl_registry w')) run_id = None"
proof -
  define proxy where "proxy = action_proxy (ev_action ev)"
  define dir where "dir = action_direction (ev_action ev)"
  have "\<exists>message. stream_event plane_api seed run_id index ev w = stop_run plane_api run_id message w"
  proof (cases "map_of (ct_proxies w) proxy")
    case None
    then show ?thesis
      by (simp add: stream_event_def snapshot_policies_def proxy_def [symmetric] dir_def [symmetric]) blast
  next
    case (Some entry)
    define own where "own = spec_policy dir (mp_spec entry)"
    have here: "plans_of w (proxy, dir) = Some (pub_plan own)" using Some by (simp add: plans_of_def own_def)
    have bad: "(\<exists>message. stream_plan_after (ev_action ev) (pub_plan own) = Inl message) \<or>
      (\<exists>plan summary. stream_plan_after (ev_action ev) (pub_plan own) = Inr (plan, summary) \<and> \<not> plan_ok plan)"
      using assms(2,3) here unfolding proxy_def dir_def
      by (cases "ev_action ev") (auto simp: plan_get_None fault_plan_new_iff split: sum.splits if_splits)
    have snap: "snapshot_policies proxy w = Some (spec_policy Upstream (mp_spec entry), spec_policy Downstream (mp_spec entry))"
      using Some by (simp add: snapshot_policies_def spec_policy_other)
    show ?thesis
    proof (cases "\<exists>message. stream_plan_after (ev_action ev) (pub_plan own) = Inl message")
      case True
      then show ?thesis using snap unfolding stream_event_def proxy_def [symmetric] dir_def [symmetric] own_def
        by (cases dir) (auto simp: Let_def)
    next
      case False
      then obtain plan summary where plan: "stream_plan_after (ev_action ev) (pub_plan own) = Inr (plan, summary)" "\<not> plan_ok plan"
        using bad by blast
      then obtain e where "publish_direction_expected proxy dir plan (event_namespace seed run_id index) (generation own) w = (Inl e, w)"
        using publish_direction_invalid [OF assms(1)] by blast
      then have "stream_event plane_api seed run_id index ev w =
          stop_run plane_api run_id (''scenario event failed: '' @ control_error_display e) w"
        using snap plan(1) unfolding stream_event_def proxy_def [symmetric] dir_def [symmetric] own_def
        by (cases dir) (simp_all add: Let_def)
      then show ?thesis by blast
    qed
  qed
  then show ?thesis using stop_run_plane [OF assms(4)] by metis
qed

section \<open>Whole runs\<close>

text \<open>The record and the plans a run leaves after the events \<open>evs\<close>, from a record \<open>r\<close> and plans \<open>m\<close>.\<close>

definition run_left :: "nat \<Rightarrow> nat \<Rightarrow> scenario_event list \<Rightarrow> scenario_run_record \<Rightarrow> plans \<Rightarrow> plane \<Rightarrow> bool" where
  "run_left run_id index evs r m w' =
     (let (k, m') = ref_run (map ev_action evs) m in
      control_ok w' \<and> plans_of w' = m' \<and> map_of (v1_tokens (pl_registry w')) run_id = None \<and>
      (\<exists>r' trail. run_with run_id r' w' \<and> rr_applied r' = rr_applied r + k \<and> rr_trail r' = rr_trail r @ trail \<and>
        map se_index trail = [index..<index + k] \<and> map se_at_ms trail = map ev_at_ms (take k evs) \<and>
        rr_status r' = (if k = length evs then V1Completed else V1Failed)))"

lemma run_left_Cons:
  assumes "ref_action (ev_action ev) m = Some m1" "se_index result = index" "se_at_ms result = ev_at_ms ev"
    "run_left run_id (Suc index) evs (r\<lparr>rr_applied := rr_applied r + 1, rr_trail := rr_trail r @ [result]\<rparr>) m1 w'"
  shows "run_left run_id index (ev # evs) r m w'"
proof -
  obtain k m' where run: "ref_run (map ev_action evs) m1 = (k, m')" by fastforce
  obtain r' trail where "run_with run_id r' w'" "rr_applied r' = rr_applied r + 1 + k" "rr_trail r' = rr_trail r @ [result] @ trail"
    "map se_index trail = [Suc index..<Suc index + k]" "map se_at_ms trail = map ev_at_ms (take k evs)"
    "rr_status r' = (if k = length evs then V1Completed else V1Failed)"
    using assms(4) by (auto simp: run_left_def run)
  moreover have "[index..<index + Suc k] = index # [Suc index..<Suc index + k]" by (simp add: upt_conv_Cons)
  ultimately show ?thesis using assms(1-4) run
    unfolding run_left_def by (auto simp del: upt_Suc intro!: exI [of _ r'] exI [of _ "result # trail"])
qed

lemma drive_events_refines:
  assumes "control_ok w" "generations_within n w" "n + length evs \<le> U64_MAX" "list_all (\<lambda>ev. \<not> is_datagram (ev_action ev)) evs"
    "t \<notin> set (pl_cancelled w)" "run_with run_id r w"
  shows "run_left run_id index evs r (plans_of w) (drive_events plane_api seed run_id t previous index evs w)"
  using assms
proof (induction evs arbitrary: w n r previous index)
  case Nil
  then show ?case using run_with_update [OF Nil.prems(6), of "\<lambda>r. r\<lparr>rr_status := V1Completed\<rparr>"]
    by (auto simp: run_left_def finish_run_def case_prod_unfold Let_def drop_token_gone
        control_ok_cong [of "remove_scenario_token _ _" w] plans_of_cong [of "remove_scenario_token _ _" w])
next
  case (Cons ev evs)
  have stream: "apply_scenario_event plane_api seed run_id index ev w = stream_event plane_api seed run_id index ev w"
    using Cons.prems(4) by (simp add: apply_scenario_event_def)
  have wait: "drive_events plane_api seed run_id t previous index (ev # evs) w =
    (case stream_event plane_api seed run_id index ev w of (False, w2) \<Rightarrow> w2
       | (True, w2) \<Rightarrow> drive_events plane_api seed run_id t (ev_at_ms ev) (Suc index) evs w2)"
    using Cons.prems(5) stream by simp
  show ?case
  proof (cases "ref_action (ev_action ev) (plans_of w)")
    case None
    then obtain w' message where fail: "stream_event plane_api seed run_id index ev w = (False, w')" "ct_proxies w' = ct_proxies w"
      "run_with run_id (r\<lparr>rr_status := V1Failed, rr_failure := Some message\<rparr>) w'"
      "map_of (v1_tokens (pl_registry w')) run_id = None"
      using stream_event_refused [OF Cons.prems(1) _ None Cons.prems(6), of seed index] Cons.prems(4) by auto
    then show ?thesis unfolding wait fail(1)
      using None Cons.prems(1) control_ok_cong [OF fail(2)] plans_of_cong [OF fail(2)]
      by (auto simp: run_left_def)
  next
    case (Some m1)
    obtain w1 result where go: "stream_event plane_api seed run_id index ev w = (True, w1)" "control_ok w1"
      "generations_within (Suc n) w1" "plans_of w1 = m1" "pl_cancelled w1 = pl_cancelled w"
      "run_with run_id (r\<lparr>rr_applied := rr_applied r + 1, rr_trail := rr_trail r @ [result]\<rparr>) w1"
      "se_index result = index" "se_at_ms result = ev_at_ms ev"
      using stream_event_applied [OF Cons.prems(1,2) _ Some Cons.prems(6), of seed index] Cons.prems(3) by auto
    have "run_left run_id (Suc index) evs (r\<lparr>rr_applied := rr_applied r + 1, rr_trail := rr_trail r @ [result]\<rparr>) (plans_of w1)
        (drive_events plane_api seed run_id t (ev_at_ms ev) (Suc index) evs w1)"
      using Cons.IH [OF go(2,3) _ _ _ go(6)] Cons.prems(3-5) go(5) by simp
    then show ?thesis unfolding wait go(1) using run_left_Cons [OF Some go(7,8)] go(4) by simp
  qed
qed

definition example_plane :: plane where
  "example_plane = control.extend example_imported
     \<lparr>pl_datagrams = [(''dns'', \<lparr>dg_upstream = \<lparr>generation = 1, pub_plan = datagram_plan_empty, seed_namespace = 0\<rparr>,
                              dg_downstream = \<lparr>generation = 1, pub_plan = datagram_plan_empty, seed_namespace = 0\<rparr>\<rparr>)],
      pl_registry = \<lparr>v1_runs = [(1, \<lparr>rr_run_id = 1, rr_seed = 9, rr_status = V1Pending, rr_applied = 0, rr_failure = None, rr_trail = []\<rparr>)],
                     v2_runs = [], v1_tokens = [(1, 7)], v2_tokens = []\<rparr>,
      pl_next_run = 2, pl_cancelled = []\<rparr>"

lemma example_plane_simps [simp]:
  "ct_proxies example_plane = [(''db'', new_entry example_live False None 1)]" "pl_cancelled example_plane = []"
  "ct_generation example_plane = 2"
  "get_scenario 1 example_plane = Some \<lparr>rr_run_id = 1, rr_seed = 9, rr_status = V1Pending, rr_applied = 0, rr_failure = None, rr_trail = []\<rparr>"
  "map_of (pl_datagrams example_plane) ''dns'' = Some \<lparr>dg_upstream = \<lparr>generation = 1, pub_plan = datagram_plan_empty, seed_namespace = 0\<rparr>,
                              dg_downstream = \<lparr>generation = 1, pub_plan = datagram_plan_empty, seed_namespace = 0\<rparr>\<rparr>"
  by (simp_all add: example_plane_def example_imported_def control.defs get_scenario_def get_v1_def)

lemma example_plane_ok: "control_ok example_plane" "generations_within 1 example_plane"
proof -
  show "control_ok example_plane" using example_imported_ok control_ok_cong [of example_plane example_imported]
    by (simp add: example_imported_def)
  show "generations_within 1 example_plane" by (auto simp: generations_within_def new_entry_def split: if_splits)
qed

lemma example_plans: "plans_of example_plane (''db'', d) = Some empty_plan"
  by (simp add: plans_of_def new_entry_def)

lemma drive_scenario_refines:
  assumes "control_ok w" "generations_within n w" "n + length (sd_events sc) \<le> U64_MAX"
    "list_all (\<lambda>ev. \<not> is_datagram (ev_action ev)) (sd_events sc)" "t \<notin> set (pl_cancelled w)"
    "get_scenario run_id w = Some r" "rr_applied r = 0" "rr_trail r = []"
  shows "run_left run_id 0 (sd_events sc) (r\<lparr>rr_status := V1Running\<rparr>) (plans_of w) (drive_scenario_run plane_api run_id sc t w)"
proof -
  let ?w = "snd (update_scenario_run run_id (\<lambda>r. r\<lparr>rr_status := V1Running\<rparr>) w)"
  have same: "ct_proxies ?w = ct_proxies w" by simp
  have "run_with run_id (r\<lparr>rr_status := V1Running\<rparr>) ?w"
    using run_with_update [of run_id r w "\<lambda>r. r\<lparr>rr_status := V1Running\<rparr>"] assms(6) by (simp add: run_with_def)
  then show ?thesis
    using drive_events_refines [of ?w n "sd_events sc" t run_id "r\<lparr>rr_status := V1Running\<rparr>" 0 "sd_seed sc" 0] assms
      control_ok_cong [OF same] generations_within_cong [OF same] plans_of_cong [OF same]
    by (simp add: drive_scenario_run_def case_prod_unfold Let_def)
qed

text \<open>
  C21. An undisturbed run of stream events does what the reference does: it applies the longest prefix of
  actions the reference applies and leaves exactly the plans the reference leaves. The run record counts and
  lists the applied events in order with their times, ends as completed when all applied and as failed
  otherwise, and the run's token is gone. The control plane stays consistent.
\<close>

theorem scenario_run_refines:
  assumes "control_ok (w :: plane)" "generations_within n w" "n + length (sd_events sc) \<le> U64_MAX"
    "list_all (\<lambda>ev. \<not> is_datagram (ev_action ev)) (sd_events sc)" "t \<notin> set (pl_cancelled w)"
    "get_scenario run_id w = Some r" "rr_applied r = 0" "rr_trail r = []"
  shows "let w' = drive_scenario_run plane_api run_id sc t w; (k, m) = ref_run (map ev_action (sd_events sc)) (plans_of w) in
    plans_of w' = m \<and> control_ok w' \<and> map_of (v1_tokens (pl_registry w')) run_id = None \<and>
    (\<exists>r'. get_scenario run_id w' = Some r' \<and> rr_applied r' = k \<and>
      rr_status r' = (if k = length (sd_events sc) then V1Completed else V1Failed) \<and>
      map se_index (rr_trail r') = [0..<k] \<and> map se_at_ms (rr_trail r') = map ev_at_ms (take k (sd_events sc)))"
  using drive_scenario_refines [OF assms] assms(7,8) by (auto simp: run_left_def run_with_def)

definition example_scenario :: scenario where
  "example_scenario = \<lparr>sd_version = 1, sd_seed = 9, sd_events =
     [\<lparr>ev_at_ms = 5, ev_action = SetPlan ''db'' Upstream [example_latency ''slow'']\<rparr>,
      \<lparr>ev_at_ms = 8, ev_action = RemoveFault ''db'' Upstream ''slow''\<rparr>,
      \<lparr>ev_at_ms = 8, ev_action = RemoveFault ''db'' Upstream ''slow''\<rparr>]\<rparr>"

lemma example_ref_run:
  "ref_run (map ev_action (sd_events example_scenario)) (plans_of example_plane) =
     (2, (plans_of example_plane)((''db'', Upstream) \<mapsto> empty_plan))"
proof -
  have "plan_ok \<lparr>plan_faults = [example_latency ''slow'']\<rparr>" by (simp add: plan_ok_def MAX_STREAM_FAULTS_def)
  moreover have "fs_id (example_latency ''slow'') = ''slow''" by (simp add: example_latency_def)
  ultimately show ?thesis by (simp add: example_scenario_def example_plans without_fault_def empty_plan_def)
qed

theorem scenario_run_refines_witness:
  "let w' = drive_scenario_run plane_api 1 example_scenario 7 example_plane in
    plans_of w' (''db'', Upstream) = Some empty_plan \<and>
    (\<exists>r'. get_scenario 1 w' = Some r' \<and> rr_applied r' = 2 \<and> rr_status r' = V1Failed \<and> map se_at_ms (rr_trail r') = [5, 8])"
proof -
  have n: "1 + length (sd_events example_scenario) \<le> U64_MAX" by (simp add: example_scenario_def U64_MAX_def)
  have "list_all (\<lambda>ev. \<not> is_datagram (ev_action ev)) (sd_events example_scenario)" by (simp add: example_scenario_def)
  moreover have "take 2 (sd_events example_scenario) = [sd_events example_scenario ! 0, sd_events example_scenario ! 1]"
    "length (sd_events example_scenario) = 3" "ev_at_ms (sd_events example_scenario ! 0) = 5" "ev_at_ms (sd_events example_scenario ! 1) = 8"
    by (simp_all add: example_scenario_def numeral_2_eq_2)
  moreover note scenario_run_refines [OF example_plane_ok n, where t = 7 and run_id = 1, unfolded example_plane_simps(4)]
  ultimately show ?thesis by (auto simp: example_ref_run Let_def)
qed

section \<open>Validation against the plans of the start\<close>

lemma validate_stream_event:
  "validate_action plane_api (SetPlan proxy dir []) w = (if plans_of w (proxy, dir) = None
     then (Inl (InvalidProxy ''scenario proxy not found''), w) else (Inr (), w))"
  "fault_id_new i = Inr i \<Longrightarrow> plans_of w (proxy, dir) = Some plan \<Longrightarrow> i \<in> fs_id ` set (plan_faults plan) \<Longrightarrow>
     validate_action plane_api (RemoveFault proxy dir i) w = (Inr (), w)"
proof -
  have "fault_plan_new [] = Inr \<lparr>plan_faults = []\<rparr>" by (simp add: fault_plan_new_iff)
  then show "validate_action plane_api (SetPlan proxy dir []) w = (if plans_of w (proxy, dir) = None
     then (Inl (InvalidProxy ''scenario proxy not found''), w) else (Inr (), w))"
    by (auto simp: snapshot_policies_def plans_of_def split: option.split)
  assume "fault_id_new i = Inr i" "plans_of w (proxy, dir) = Some plan" "i \<in> fs_id ` set (plan_faults plan)"
  then show "validate_action plane_api (RemoveFault proxy dir i) w = (Inr (), w)"
    by (cases dir) (auto simp: snapshot_policies_def plans_of_def plan_get_None spec_policy_other)
qed

text \<open>
  Every event of a document is validated against the plans in force when the run starts, not against the plans
  the earlier events leave. A document that first clears a direction and then removes one of its faults is
  accepted, clears the direction and fails at its second event, with the direction left cleared.
\<close>

theorem validated_document_fails:
  assumes "control_ok (w :: plane)" "generations_within n w" "n + 2 \<le> U64_MAX" "t \<notin> set (pl_cancelled w)"
    "get_scenario run_id w = Some r" "rr_applied r = 0" "rr_trail r = []"
    "plans_of w (proxy, dir) = Some plan" "i \<in> fs_id ` set (plan_faults plan)" "fault_id_new i = Inr i"
  shows "let sc = \<lparr>sd_version = 1, sd_seed = seed, sd_events =
            [\<lparr>ev_at_ms = ms, ev_action = SetPlan proxy dir []\<rparr>, \<lparr>ev_at_ms = ms + later, ev_action = RemoveFault proxy dir i\<rparr>]\<rparr>;
          w' = drive_scenario_run plane_api run_id sc t w in
    validate_scenario plane_api sc w = (Inr (), w) \<and> plans_of w' = (plans_of w)((proxy, dir) \<mapsto> empty_plan) \<and>
    (\<exists>r'. get_scenario run_id w' = Some r' \<and> rr_status r' = V1Failed \<and> rr_applied r' = 1)"
proof -
  let ?sc = "\<lparr>sd_version = 1, sd_seed = seed, sd_events =
    [\<lparr>ev_at_ms = ms, ev_action = SetPlan proxy dir []\<rparr>, \<lparr>ev_at_ms = ms + later, ev_action = RemoveFault proxy dir i\<rparr>]\<rparr>"
  have "validate_scenario plane_api ?sc w = (Inr (), w)"
    using validate_stream_event(1) [of proxy dir w] validate_stream_event(2) [OF assms(10,8,9)] assms(8)
    by (simp add: validate_scenario_def)
  moreover have "plan_ok \<lparr>plan_faults = []\<rparr>" by (simp add: plan_ok_def)
  then have "ref_run (map ev_action (sd_events ?sc)) (plans_of w) = (1, (plans_of w)((proxy, dir) \<mapsto> empty_plan))"
    using assms(8) by (simp add: empty_plan_def)
  ultimately show ?thesis using drive_scenario_refines [OF assms(1,2) _ _ assms(4-7), of ?sc] assms(3,6)
    by (auto simp: run_left_def run_with_def Let_def)
qed

definition example_faulted :: plane where
  "example_faulted = committed ''db'' Upstream \<lparr>plan_faults = [example_latency ''slow'']\<rparr> 6 example_plane"

theorem validated_document_fails_witness:
  "let sc = \<lparr>sd_version = 1, sd_seed = 9, sd_events = [\<lparr>ev_at_ms = 5, ev_action = SetPlan ''db'' Upstream []\<rparr>,
       \<lparr>ev_at_ms = 5 + 3, ev_action = RemoveFault ''db'' Upstream ''slow''\<rparr>]\<rparr> in
     validate_scenario plane_api sc example_faulted = (Inr (), example_faulted) \<and>
     (\<exists>r'. get_scenario 1 (drive_scenario_run plane_api 1 sc 7 example_faulted) = Some r' \<and> rr_status r' = V1Failed \<and> rr_applied r' = 1)"
proof -
  let ?plan = "\<lparr>plan_faults = [example_latency ''slow'']\<rparr>"
  have able: "committable ''db'' Upstream ?plan example_plane"
    by (simp add: committable_def new_entry_def plan_ok_def MAX_STREAM_FAULTS_def U64_MAX_def)
  have ok: "control_ok example_faulted" unfolding example_faulted_def by (rule committed_ok [OF example_plane_ok(1) able])
  have gens: "generations_within 2 example_faulted" unfolding example_faulted_def
    by (auto simp: generations_within_def committed_lookup next_policy_def sat_add64_def new_entry_def U64_MAX_def split: if_splits)
  have here: "plans_of example_faulted (''db'', Upstream) = Some ?plan"
    using plans_of_committed [OF able] by (simp add: example_faulted_def)
  have rest: "pl_cancelled example_faulted = []" "get_scenario 1 example_faulted = get_scenario 1 example_plane"
    by (simp_all add: example_faulted_def get_scenario_def)
  have i: "''slow'' \<in> fs_id ` set (plan_faults ?plan)" by (simp add: example_latency_def)
  have "fault_id_new ''slow'' = Inr ''slow''" by (simp add: fault_id_new_def)
  from validated_document_fails [OF ok gens _ _ _ _ _ here i this, where t = 7 and run_id = 1 and seed = 9 and ms = 5 and later = 3,
      unfolded rest example_plane_simps(4)]
  show ?thesis unfolding Let_def by (simp add: U64_MAX_def)
qed

section \<open>What the trail says of a datagram event\<close>

text \<open>
  The generation a datagram publication returns to the run is the new configuration generation, not the
  generation of the policy it published. A datagram event that succeeds undisturbed therefore leaves an entry in
  the trail whose policy generation of the event's own direction is the configuration generation, whatever
  the generation of the policy in force is.
\<close>

theorem datagram_trail_generation:
  assumes "map_of (pl_datagrams (w :: plane)) proxy = Some p" "datagram_plan_ok \<lparr>dp_faults = faults\<rparr>"
    "\<not> shares_id faults (pub_plan (dg_downstream p))" "generation (dg_upstream p) < U64_MAX" "get_scenario run_id w = Some r"
  shows "\<exists>w' p' result. apply_scenario_event plane_api seed run_id index
        \<lparr>ev_at_ms = ms, ev_action = SetDatagramPlan proxy Upstream faults\<rparr> w = (True, w') \<and>
      get_scenario run_id w' = Some (r\<lparr>rr_applied := rr_applied r + 1, rr_trail := rr_trail r @ [result]\<rparr>) \<and>
      map_of (pl_datagrams w') proxy = Some p' \<and> pub_plan (dg_upstream p') = \<lparr>dp_faults = faults\<rparr> \<and>
      generation (dg_upstream p') = generation (dg_upstream p) + 1 \<and>
      se_upstream_generation result = se_global_generation result \<and>
      se_global_generation result = (ct_generation w + 1) mod 2 ^ 64"
proof -
  let ?ev = "\<lparr>ev_at_ms = ms, ev_action = SetDatagramPlan proxy Upstream faults\<rparr>"
  let ?ns = "event_namespace seed run_id index"
  let ?p' = "p\<lparr>dg_upstream := next_policy \<lparr>dp_faults = faults\<rparr> ?ns (dg_upstream p)\<rparr>"
  let ?g = "(ct_generation w + 1) mod 2 ^ 64"
  let ?w1 = "w\<lparr>pl_datagrams := AList.update proxy ?p' (pl_datagrams w), ct_generation := ?g\<rparr>"
  let ?result = "event_result index ?ev ''set-datagram-plan'' ?g (?g, generation (dg_downstream p))"
  let ?w2 = "append_trail plane_api run_id ?result ?w1"
  have valid: "datagram_validate \<lparr>dp_faults = faults\<rparr> = Inr ()" "datagram_plan_new faults = Inr \<lparr>dp_faults = faults\<rparr>"
    using assms(2) by (simp_all add: datagram_validate_iff datagram_plan_new_iff)
  have up: "fault_plan proxy Upstream w = Some (pub_plan (dg_upstream p), generation (dg_upstream p), seed_namespace (dg_upstream p))"
    and down: "fault_plan proxy Downstream w = Some (pub_plan (dg_downstream p), generation (dg_downstream p), seed_namespace (dg_downstream p))"
    using assms(1) by (simp_all add: fault_plan_def Let_def)
  have up1: "fault_plan proxy Upstream ?w1 = Some (\<lparr>dp_faults = faults\<rparr>, generation (dg_upstream p) + 1, ?ns)"
    and down1: "fault_plan proxy Downstream ?w1 = Some (pub_plan (dg_downstream p), generation (dg_downstream p), seed_namespace (dg_downstream p))"
    using assms(4) by (simp_all add: fault_plan_def Let_def update_Some_unfold next_policy_def sat_add64_def AList.update_conv')
  have pub: "publish_datagram_plan plane_api proxy Upstream \<lparr>dp_faults = faults\<rparr> ?ns (Some (generation (dg_upstream p))) w = (Inr ?g, ?w1)"
    using assms(1,4) valid(1)
    by (simp add: publish_datagram_plan_def publish_fault_plan_def datagram_publish_def next_generation_def Let_def)
  have "datagram_event plane_api seed run_id index ?ev w = (True, ?w2)"
    using up down up1 down1 pub valid(2) assms(3)
    by (simp add: datagram_event_def datagram_faults_def get_datagram_plan_def recheck_unique_def finish_datagram_def
        control_generation_def pair_generations_def Let_def)
  moreover have "get_scenario run_id ?w2 = Some (r\<lparr>rr_applied := rr_applied r + 1, rr_trail := rr_trail r @ [?result]\<rparr>)"
    using run_with_update [of run_id r ?w1 "\<lambda>r. r\<lparr>rr_applied := rr_applied r + 1, rr_trail := rr_trail r @ [?result]\<rparr>"] assms(5)
    by (simp add: append_trail_def run_with_def get_scenario_def)
  moreover have "map_of (pl_datagrams ?w2) proxy = Some ?p'" by (simp add: append_trail_def AList.update_conv')
  ultimately show ?thesis using assms(4)
    by (intro exI [of _ ?w2] exI [of _ ?p'] exI [of _ ?result])
      (simp add: apply_scenario_event_def event_result_def next_policy_def sat_add64_def)
qed

theorem datagram_trail_generation_witness:
  "\<exists>w' p' result. apply_scenario_event plane_api 9 1 0
        \<lparr>ev_at_ms = 5, ev_action = SetDatagramPlan ''dns'' Upstream []\<rparr> example_plane = (True, w') \<and>
      map_of (pl_datagrams w') ''dns'' = Some p' \<and> generation (dg_upstream p') = 2 \<and> se_upstream_generation result = 3 \<and>
      (\<exists>r'. get_scenario 1 w' = Some r' \<and> rr_trail r' = [result])"
proof -
  have "datagram_plan_ok \<lparr>dp_faults = []\<rparr>" using datagram_plan_empty_ok by (simp add: datagram_plan_empty_def)
  from datagram_trail_generation [OF example_plane_simps(5) this _ _ example_plane_simps(4), of 9 0 5]
  show ?thesis by (auto simp: shares_id_def U64_MAX_def)
qed

end
