(* ===== verification/Driver.thy ===== *)
theory Driver
  imports Target
begin

text \<open>
  The schedule driver, \<^verbatim>\<open>crates/eggchaos-experiment/src/driver.rs\<close>: preparation snapshots every
  resource a tape touches; \<open>drive\<close> waits for each deadline, publishes the event through the target
  and records it; cleanup restores what the run still owns.

  The clock, the sleeps and the cancellation token are those of \<^verbatim>\<open>tokio\<close>: the record \<open>runtime\<close> has
  one operation on the world for each. \<open>None\<close> is a wait that never ends, which only an
  unrepresentable deadline with no cancellation gives. The sink is the \<^verbatim>\<open>Vec\<close> of the source.
\<close>

record 'w runtime =
  rt_now :: "'w \<Rightarrow> instant \<times> 'w"
  rt_is_cancelled :: "'w \<Rightarrow> bool \<times> 'w"
  rt_cancelled :: "'w \<Rightarrow> 'w option"
  rt_sleep_until :: "instant \<Rightarrow> 'w \<Rightarrow> bool \<times> 'w"

text \<open>
  \<open>rt_cancelled\<close> is \<^verbatim>\<open>token.cancelled().await\<close>. \<open>rt_sleep_until d\<close> is the biased \<^verbatim>\<open>select!\<close> between
  cancellation and \<^verbatim>\<open>sleep_until(d)\<close>: true if the sleep finished.
\<close>

record owned_resource =
  ow_resource :: schedule_resource
  ow_last_owned_generation :: nat
  ow_initial_plan :: target_plan

type_synonym owned_map = "(string \<times> owned_resource) list"

record drive_outcome =
  do_status :: run_status
  do_failure :: "string option"
  do_cleanup :: cleanup_outcome
  do_applied :: nat

section \<open>Preparation\<close>

definition unsupported_resource :: "schedule_resource \<Rightarrow> target_capabilities \<Rightarrow> target_error option" where
  "unsupported_resource r caps =
     (if sr_transport r = StreamTransport \<and> \<not> cap_stream caps
      then Some (target_unsupported (''stream resource '' @ [CHR 0x27] @ bounded (sr_proxy r) @ [CHR 0x27] @ '' requires stream support''))
      else if sr_transport r = DatagramTransport \<and> \<not> cap_datagram caps
      then Some (target_unsupported (''datagram resource '' @ [CHR 0x27] @ bounded (sr_proxy r) @ [CHR 0x27] @ '' requires datagram support''))
      else None)"

fun prepare_loop :: "'w target \<Rightarrow> target_capabilities \<Rightarrow> compiled_event list \<Rightarrow> owned_map \<Rightarrow> 'w \<Rightarrow>
    (target_error + owned_map) \<times> 'w" where
  "prepare_loop tg caps [] owned w = (Inr owned, w)"
| "prepare_loop tg caps (e # es) owned w =
     (let r = action_resource (ce_action e); key = key_of r
      in if map_of owned key \<noteq> None then prepare_loop tg caps es owned w
         else case unsupported_resource r caps of
                Some err \<Rightarrow> (Inl err, w)
              | None \<Rightarrow>
                  (case tg_snapshot tg r w of
                     (Inl err, w1) \<Rightarrow> (Inl err, w1)
                   | (Inr s, w1) \<Rightarrow>
                       prepare_loop tg caps es
                         (btree_insert key \<lparr>ow_resource = r, ow_last_owned_generation = ts_generation s,
                                            ow_initial_plan = ts_plan s\<rparr> owned) w1))"

definition prepare_initial :: "'w target \<Rightarrow> compiled_scenario \<Rightarrow> 'w \<Rightarrow> (target_error + owned_map) \<times> 'w" where
  "prepare_initial tg c w = prepare_loop tg (tg_capabilities tg w) (sn_events c) [] w"

section \<open>One event\<close>

definition expected_generation :: "'w target \<Rightarrow> schedule_resource \<Rightarrow> bool \<Rightarrow> owned_map \<Rightarrow> 'w \<Rightarrow> nat option \<times> 'w" where
  "expected_generation tg r strict owned w =
     (case (if strict then map_of owned (key_of r) else None) of
        Some entry \<Rightarrow> (Some (ow_last_owned_generation entry), w)
      | None \<Rightarrow> (case tg_current_generation tg r w of (Inl _, w1) \<Rightarrow> (None, w1) | (Inr g, w1) \<Rightarrow> (Some g, w1)))"

fun other_direction :: "direction \<Rightarrow> direction" where
  "other_direction Upstream = Downstream"
| "other_direction Downstream = Upstream"

definition directional_gens :: "'w target \<Rightarrow> schedule_resource \<Rightarrow> nat \<Rightarrow> 'w \<Rightarrow> (target_error + nat \<times> nat) \<times> 'w" where
  "directional_gens tg r g w =
     (case tg_current_generation tg (r\<lparr>sr_direction := other_direction (sr_direction r)\<rparr>) w of
        (Inl e, w1) \<Rightarrow> (Inl e, w1)
      | (Inr other, w1) \<Rightarrow> (Inr (case sr_direction r of Upstream \<Rightarrow> (g, other) | Downstream \<Rightarrow> (other, g)), w1))"

fun datagram_gens :: "direction \<Rightarrow> nat \<Rightarrow> nat \<times> nat" where
  "datagram_gens Upstream g = (g, 0)"
| "datagram_gens Downstream g = (0, g)"

fun fallback_plan :: "schedule_transport \<Rightarrow> target_plan" where
  "fallback_plan StreamTransport = StreamPlan empty_plan"
| "fallback_plan DatagramTransport = DatagramPlan datagram_plan_empty"

definition update_owned :: "schedule_resource \<Rightarrow> nat \<Rightarrow> owned_map \<Rightarrow> owned_map" where
  "update_owned r g owned =
     (if map_of owned (key_of r) \<noteq> None then btree_adjust (key_of r) (\<lambda>entry. entry\<lparr>ow_last_owned_generation := g\<rparr>) owned
      else btree_insert (key_of r) \<lparr>ow_resource = r, ow_last_owned_generation = g,
                                    ow_initial_plan = fallback_plan (sr_transport r)\<rparr> owned)"

text \<open>The plan an event publishes and the generation it is based on, or the failure.\<close>

definition set_request :: "'w target \<Rightarrow> bool \<Rightarrow> owned_map \<Rightarrow> string \<Rightarrow> schedule_resource \<Rightarrow> target_plan \<Rightarrow> 'w \<Rightarrow>
    (string + nat \<times> target_plan) \<times> 'w" where
  "set_request tg strict owned kind r plan w =
     (case expected_generation tg r strict owned w of
        (None, w1) \<Rightarrow> (Inl (kind @ '' proxy '' @ sr_proxy r @ '' not found''), w1)
      | (Some g, w1) \<Rightarrow> (Inr (g, plan), w1))"

definition remove_request :: "'w target \<Rightarrow> bool \<Rightarrow> owned_map \<Rightarrow> string \<Rightarrow> schedule_resource \<Rightarrow>
    (target_plan \<Rightarrow> string + target_plan) \<Rightarrow> 'w \<Rightarrow> (string + nat \<times> target_plan) \<times> 'w" where
  "remove_request tg strict owned kind r edit w =
     (case tg_snapshot tg r w of
        (Inl _, w1) \<Rightarrow> (Inl (kind @ '' proxy '' @ sr_proxy r @ '' not found''), w1)
      | (Inr s, w1) \<Rightarrow>
          (case edit (ts_plan s) of
             Inl e \<Rightarrow> (Inl e, w1)
           | Inr plan \<Rightarrow>
               if strict then set_request tg strict owned kind r plan w1
               else (Inr (ts_generation s, plan), w1)))"

fun remove_stream_fault :: "string \<Rightarrow> string \<Rightarrow> target_plan \<Rightarrow> string + target_plan" where
  "remove_stream_fault proxy fid (StreamPlan base) =
     (if plan_get base fid = None then Inl (''fault '' @ fid @ '' not present on '' @ proxy)
      else Inr (StreamPlan (without_fault fid base)))"
| "remove_stream_fault proxy fid (DatagramPlan _) = Inl (''stream proxy '' @ proxy @ '' not found'')"

fun remove_datagram_fault :: "string \<Rightarrow> string \<Rightarrow> target_plan \<Rightarrow> string + target_plan" where
  "remove_datagram_fault proxy fid (DatagramPlan current) =
     (if \<not> list_ex (\<lambda>f. df_id f = fid) (dp_faults current) then Inl (''datagram fault '' @ fid @ '' not present on '' @ proxy)
      else case datagram_plan_new (filter (\<lambda>f. df_id f \<noteq> fid) (dp_faults current)) of
             Inl e \<Rightarrow> Inl (''datagram plan invalid: '' @ e)
           | Inr plan \<Rightarrow> Inr (DatagramPlan plan))"
| "remove_datagram_fault proxy fid (StreamPlan _) = Inl (''datagram proxy '' @ proxy @ '' not found'')"

fun event_request :: "'w target \<Rightarrow> bool \<Rightarrow> owned_map \<Rightarrow> scenario_action \<Rightarrow> 'w \<Rightarrow> (string + nat \<times> target_plan) \<times> 'w" where
  "event_request tg strict owned (SetPlan proxy dir faults) w =
     (case fault_plan_new faults of
        Inl e \<Rightarrow> (Inl (''set-plan invalid: '' @ validation_error_display e), w)
      | Inr plan \<Rightarrow> set_request tg strict owned ''stream'' (action_resource (SetPlan proxy dir faults)) (StreamPlan plan) w)"
| "event_request tg strict owned (RemoveFault proxy dir fid) w =
     remove_request tg strict owned ''stream'' (action_resource (RemoveFault proxy dir fid)) (remove_stream_fault proxy fid) w"
| "event_request tg strict owned (SetDatagramPlan proxy dir faults) w =
     (case datagram_plan_new faults of
        Inl e \<Rightarrow> (Inl (''set-datagram-plan invalid: '' @ e), w)
      | Inr plan \<Rightarrow> set_request tg strict owned ''datagram'' (action_resource (SetDatagramPlan proxy dir faults)) (DatagramPlan plan) w)"
| "event_request tg strict owned (RemoveDatagramFault proxy dir fid) w =
     remove_request tg strict owned ''datagram'' (action_resource (RemoveDatagramFault proxy dir fid)) (remove_datagram_fault proxy fid) w"

fun action_label :: "scenario_action \<Rightarrow> string" where
  "action_label (SetPlan _ _ _) = ''set-plan''"
| "action_label (RemoveFault _ _ _) = ''remove-fault''"
| "action_label (SetDatagramPlan _ _ _) = ''set-datagram-plan''"
| "action_label (RemoveDatagramFault _ _ _) = ''remove-datagram-fault''"

text \<open>Stream events report the generations of both directions, datagram events only their own.\<close>

definition evidence_gens :: "'w target \<Rightarrow> schedule_resource \<Rightarrow> nat \<Rightarrow> 'w \<Rightarrow> (target_error + nat \<times> nat) \<times> 'w" where
  "evidence_gens tg r g w =
     (case sr_transport r of
        StreamTransport \<Rightarrow> directional_gens tg r g w
      | DatagramTransport \<Rightarrow> (Inr (datagram_gens (sr_direction r) g), w))"

definition event_namespace :: "compiled_scenario \<Rightarrow> byte list \<Rightarrow> nat \<Rightarrow> u64" where
  "event_namespace c fp i = derive_schedule_policy_seed (sn_seed c) (sn_execution_key c) fp (of_nat i)"

definition apply_event :: "'w runtime \<Rightarrow> 'w target \<Rightarrow> compiled_scenario \<Rightarrow> byte list \<Rightarrow> instant \<Rightarrow> compiled_event \<Rightarrow>
    owned_map \<Rightarrow> 'w \<Rightarrow> (string + schedule_event_result) \<times> owned_map \<times> 'w" where
  "apply_event rt tg c fp epoch e owned w0 =
     (let (now, w1) = rt_now rt w0;
          elapsed = min (now - epoch) U64_MAX;
          r = action_resource (ce_action e);
          label = action_label (ce_action e)
      in case event_request tg (sn_isolation c = Strict) owned (ce_action e) w1 of
           (Inl reason, w2) \<Rightarrow> (Inl reason, owned, w2)
         | (Inr (expected, plan), w2) \<Rightarrow>
             (case tg_publish tg r expected plan (event_namespace c fp (ce_compiled_index e)) w2 of
                (Inl err, w3) \<Rightarrow> (Inl (label @ '' publish failed: '' @ target_error_display err), owned, w3)
              | (Inr g, w3) \<Rightarrow>
                  (case evidence_gens tg r g w3 of
                     (Inl err, w4) \<Rightarrow>
                       (Inl (''generation evidence failed: '' @ target_error_display err), update_owned r g owned, w4)
                   | (Inr (up, down), w4) \<Rightarrow>
                       let (gg, w5) = tg_global_generation tg w4
                       in (Inr \<lparr>er_compiled_index = ce_compiled_index e, er_phase = ce_phase e,
                                er_scheduled_offset_ns = ce_offset_ns e, er_applied_elapsed_ns = elapsed,
                                er_late_by_ns = elapsed - ce_offset_ns e, er_action = label, er_resource = r,
                                er_upstream_generation = up, er_downstream_generation = down,
                                er_global_generation = gg\<rparr>,
                           update_owned r g owned, w5))))"

section \<open>The run\<close>

definition wait_for_deadline :: "'w runtime \<Rightarrow> instant \<Rightarrow> nat \<Rightarrow> 'w \<Rightarrow> (bool \<times> 'w) option" where
  "wait_for_deadline rt epoch offset_ns w =
     (case instant_checked_add epoch offset_ns of
        None \<Rightarrow> map_option (\<lambda>w1. (False, w1)) (rt_cancelled rt w)
      | Some deadline \<Rightarrow>
          let (now, w1) = rt_now rt w
          in if deadline \<le> now then Some (True, w1) else Some (rt_sleep_until rt deadline w1))"

text \<open>How the event loop ended: \<open>cancelled\<close>, \<open>failure\<close> and the events recorded.\<close>

record drive_loop_end =
  dl_cancelled :: bool
  dl_failure :: "string option"
  dl_recorded :: "schedule_event_result list"
  dl_owned :: owned_map

fun drive_loop :: "'w runtime \<Rightarrow> 'w target \<Rightarrow> compiled_scenario \<Rightarrow> byte list \<Rightarrow> instant \<Rightarrow> compiled_event list \<Rightarrow>
    schedule_event_result list \<Rightarrow> owned_map \<Rightarrow> 'w \<Rightarrow> (drive_loop_end \<times> 'w) option" where
  "drive_loop rt tg c fp epoch [] out owned w =
     Some (\<lparr>dl_cancelled = False, dl_failure = None, dl_recorded = out, dl_owned = owned\<rparr>, w)"
| "drive_loop rt tg c fp epoch (e # es) out owned w =
     (let (cancelled, w1) = rt_is_cancelled rt w
      in if cancelled then Some (\<lparr>dl_cancelled = True, dl_failure = None, dl_recorded = out, dl_owned = owned\<rparr>, w1)
         else case wait_for_deadline rt epoch (ce_offset_ns e) w1 of
                None \<Rightarrow> None
              | Some (False, w2) \<Rightarrow> Some (\<lparr>dl_cancelled = True, dl_failure = None, dl_recorded = out, dl_owned = owned\<rparr>, w2)
              | Some (True, w2) \<Rightarrow>
                  (case apply_event rt tg c fp epoch e owned w2 of
                     (Inl reason, owned1, w3) \<Rightarrow>
                       Some (\<lparr>dl_cancelled = False, dl_failure = Some reason, dl_recorded = out, dl_owned = owned1\<rparr>, w3)
                   | (Inr ev, owned1, w3) \<Rightarrow> drive_loop rt tg c fp epoch es (out @ [ev]) owned1 w3))"

definition restore_target :: "'w target \<Rightarrow> owned_resource \<Rightarrow> u64 \<Rightarrow> 'w \<Rightarrow> cleanup_resource_outcome \<times> 'w" where
  "restore_target tg entry ns w =
     (case tg_current_generation tg (ow_resource entry) w of
        (Inl _, w1) \<Rightarrow> (CleanupMissing, w1)
      | (Inr current, w1) \<Rightarrow>
          if current \<noteq> ow_last_owned_generation entry then (CleanupConflict, w1)
          else case tg_publish tg (ow_resource entry) current (ow_initial_plan entry) ns w1 of
                 (Inr _, w2) \<Rightarrow> (Restored, w2)
               | (Inl _, w2) \<Rightarrow> (CleanupConflict, w2))"

text \<open>The restore namespace uses the fingerprint recomputed from the tape and the index past the last event.\<close>

fun cleanup_loop :: "'w target \<Rightarrow> cleanup_policy \<Rightarrow> u64 \<Rightarrow> owned_map \<Rightarrow> 'w \<Rightarrow> cleanup_resource_record list \<times> 'w" where
  "cleanup_loop tg policy ns [] w = ([], w)"
| "cleanup_loop tg policy ns ((key, entry) # owned) w =
     (let (outcome, w1) = (case policy of Leave \<Rightarrow> (NotRequested, w) | RestoreInitial \<Rightarrow> restore_target tg entry ns w);
          (records, w2) = cleanup_loop tg policy ns owned w1
      in (\<lparr>cr_resource = ow_resource entry, cr_outcome = outcome\<rparr> # records, w2))"

definition run_cleanup :: "(string \<Rightarrow> byte list) \<Rightarrow> 'w target \<Rightarrow> compiled_scenario \<Rightarrow> owned_map \<Rightarrow> 'w \<Rightarrow> cleanup_outcome \<times> 'w" where
  "run_cleanup sha256 tg c owned w =
     (let (records, w1) = cleanup_loop tg (sn_cleanup c)
            (event_namespace c (compiled_fingerprint sha256 c) (length (sn_events c))) owned w
      in (\<lparr>co_policy = sn_cleanup c, co_resources = records\<rparr>, w1))"

definition drive :: "(string \<Rightarrow> byte list) \<Rightarrow> 'w runtime \<Rightarrow> 'w target \<Rightarrow> compiled_scenario \<Rightarrow> byte list \<Rightarrow> owned_map \<Rightarrow>
    instant \<Rightarrow> 'w \<Rightarrow> (drive_outcome \<times> schedule_event_result list \<times> 'w) option" where
  "drive sha256 rt tg c fp owned epoch w =
     (case drive_loop rt tg c fp epoch (sn_events c) [] owned w of
        None \<Rightarrow> None
      | Some (l, w1) \<Rightarrow>
          let status = (if dl_cancelled l then Cancelled else if dl_failure l \<noteq> None then Failed else Completed);
              (cleanup, w2) = run_cleanup sha256 tg c (dl_owned l) w1
          in Some (\<lparr>do_status = status, do_failure = dl_failure l, do_cleanup = cleanup,
                    do_applied = length (dl_recorded l)\<rparr>, dl_recorded l, w2))"

end
