(* ===== verification/DriverRuns.thy ===== *)
theory DriverRuns
  imports Driver
begin

text \<open>
  What a driven schedule guarantees: recorded events are a prefix of the tape, a strict run owns
  consecutive generations of every resource, no event is applied early, cleanup overwrites nothing,
  and an undisturbed run on the stream target leaves the plans as they were.
\<close>

section \<open>One event\<close>

definition own_generation :: "schedule_event_result \<Rightarrow> nat" where
  "own_generation ev =
     (case sr_direction (er_resource ev) of Upstream \<Rightarrow> er_upstream_generation ev | Downstream \<Rightarrow> er_downstream_generation ev)"

text \<open>The part of a record that the tape determines.\<close>

definition tape_part :: "schedule_event_result \<Rightarrow> nat \<times> phase_identity \<times> nat \<times> string \<times> schedule_resource" where
  "tape_part ev = (er_compiled_index ev, er_phase ev, er_scheduled_offset_ns ev, er_action ev, er_resource ev)"

definition event_part :: "compiled_event \<Rightarrow> nat \<times> phase_identity \<times> nat \<times> string \<times> schedule_resource" where
  "event_part e = (ce_compiled_index e, ce_phase e, ce_offset_ns e, action_label (ce_action e), action_resource (ce_action e))"

lemma evidence_gens_own:
  "evidence_gens tg r g w = (Inr (up, down), w') \<Longrightarrow> (case sr_direction r of Upstream \<Rightarrow> up | Downstream \<Rightarrow> down) = g"
  by (cases "sr_direction r") (auto simp: evidence_gens_def directional_gens_def split: schedule_transport.splits prod.splits sum.splits)

lemma apply_event_recorded:
  assumes "apply_event rt tg c fp epoch e owned w = (Inr ev, owned', w')"
  obtains now w1 expected plan w2 w3 where "rt_now rt w = (now, w1)"
    "event_request tg (sn_isolation c = Strict) owned (ce_action e) w1 = (Inr (expected, plan), w2)"
    "tg_publish tg (action_resource (ce_action e)) expected plan (event_namespace c fp (ce_compiled_index e)) w2 = (Inr (own_generation ev), w3)"
    "owned' = update_owned (action_resource (ce_action e)) (own_generation ev) owned"
    "tape_part ev = event_part e" "er_applied_elapsed_ns ev = min (now - epoch) U64_MAX"
    "er_late_by_ns ev = er_applied_elapsed_ns ev - ce_offset_ns e"
proof -
  let ?r = "action_resource (ce_action e)"
  obtain now w1 where n: "rt_now rt w = (now, w1)" by fastforce
  obtain expected plan w2 where q: "event_request tg (sn_isolation c = Strict) owned (ce_action e) w1 = (Inr (expected, plan), w2)"
    using assms n by (auto simp: apply_event_def Let_def split: prod.splits sum.splits)
  obtain g w3 where p: "tg_publish tg ?r expected plan (event_namespace c fp (ce_compiled_index e)) w2 = (Inr g, w3)"
    using assms n q by (auto simp: apply_event_def Let_def split: prod.splits sum.splits)
  obtain up down w4 where v: "evidence_gens tg ?r g w3 = (Inr (up, down), w4)"
    using assms n q p by (auto simp: apply_event_def Let_def split: prod.splits sum.splits)
  obtain gg w5 where gl: "tg_global_generation tg w4 = (gg, w5)" by fastforce
  have ev: "ev = \<lparr>er_compiled_index = ce_compiled_index e, er_phase = ce_phase e, er_scheduled_offset_ns = ce_offset_ns e,
      er_applied_elapsed_ns = min (now - epoch) U64_MAX, er_late_by_ns = min (now - epoch) U64_MAX - ce_offset_ns e,
      er_action = action_label (ce_action e), er_resource = ?r, er_upstream_generation = up, er_downstream_generation = down,
      er_global_generation = gg\<rparr>" and o: "owned' = update_owned ?r g owned"
    using assms n q p v gl by (simp_all add: apply_event_def Let_def)
  have "own_generation ev = g" using evidence_gens_own [OF v] ev
    by (cases "sr_direction ?r") (simp_all add: own_generation_def)
  then show thesis using that [OF n q] p o ev by (simp add: tape_part_def event_part_def)
qed

lemma apply_event_failed:
  assumes "apply_event rt tg c fp epoch e owned w = (Inl reason, owned', w')"
  shows "owned' = owned \<or> (\<exists>w1 w2 w3 expected plan ns g.
    event_request tg (sn_isolation c = Strict) owned (ce_action e) w1 = (Inr (expected, plan), w2) \<and>
    tg_publish tg (action_resource (ce_action e)) expected plan ns w2 = (Inr g, w3) \<and>
    owned' = update_owned (action_resource (ce_action e)) g owned)"
proof -
  obtain now w1 where n: "rt_now rt w = (now, w1)" by fastforce
  obtain res w2 where q: "event_request tg (sn_isolation c = Strict) owned (ce_action e) w1 = (res, w2)" by fastforce
  show ?thesis
  proof (cases res)
    case (Inr ep)
    obtain expected plan where ep: "ep = (expected, plan)" by (cases ep)
    obtain pub w3 where p: "tg_publish tg (action_resource (ce_action e)) expected plan
        (event_namespace c fp (ce_compiled_index e)) w2 = (pub, w3)" by fastforce
    show ?thesis
    proof (cases pub)
      case (Inr g)
      then have "owned' = update_owned (action_resource (ce_action e)) g owned"
        using assms n q \<open>res = Inr ep\<close> ep p by (auto simp: apply_event_def Let_def split: prod.splits sum.splits)
      then show ?thesis using q \<open>res = Inr ep\<close> ep p Inr by blast
    qed (use assms n q \<open>res = Inr ep\<close> ep p in \<open>auto simp: apply_event_def Let_def\<close>)
  qed (use assms n q in \<open>auto simp: apply_event_def Let_def\<close>)
qed

text \<open>The ways one round of the loop can go.\<close>

lemma drive_loop_round [consumes 1, case_names stopped failed round]:
  assumes "drive_loop rt tg c fp epoch (e # es) out owned w = Some (l, w')"
  obtains (stopped) "l = \<lparr>dl_cancelled = True, dl_failure = None, dl_recorded = out, dl_owned = owned\<rparr>"
  | (failed) reason owned1 w2 where "apply_event rt tg c fp epoch e owned w2 = (Inl reason, owned1, w')"
      "l = \<lparr>dl_cancelled = False, dl_failure = Some reason, dl_recorded = out, dl_owned = owned1\<rparr>"
  | (round) w1 w2 ev owned1 w3 where "wait_for_deadline rt epoch (ce_offset_ns e) w1 = Some (True, w2)"
      "apply_event rt tg c fp epoch e owned w2 = (Inr ev, owned1, w3)"
      "drive_loop rt tg c fp epoch es (out @ [ev]) owned1 w3 = Some (l, w')"
proof -
  obtain cancelled w1 where c: "rt_is_cancelled rt w = (cancelled, w1)" by fastforce
  show thesis
  proof (cases cancelled)
    case True
    then show ?thesis using assms c stopped by simp
  next
    case False
    then obtain ok w2 where wt: "wait_for_deadline rt epoch (ce_offset_ns e) w1 = Some (ok, w2)"
      using assms c by (auto split: option.splits)
    obtain res owned1 w3 where a: "apply_event rt tg c fp epoch e owned w2 = (res, owned1, w3)" by (metis prod_cases3)
    show ?thesis
    proof (cases ok)
      case True
      then show ?thesis using assms c \<open>\<not> cancelled\<close> wt a failed round by (cases res) auto
    qed (use assms c \<open>\<not> cancelled\<close> wt stopped in simp)
  qed
qed

section \<open>Ownership\<close>

definition gen_of :: "owned_map \<Rightarrow> schedule_resource \<Rightarrow> nat option" where
  "gen_of owned r = map_option ow_last_owned_generation (map_of owned (key_of r))"

lemma gen_of_update:
  "gen_of owned r = Some g0 \<Longrightarrow> gen_of (update_owned r g owned) r' = (if r' = r then Some g else gen_of owned r')"
  by (auto simp: gen_of_def update_owned_def map_of_btree_adjust key_of_inj)

text \<open>
  The events \<open>new\<close> carry consecutive generations of every resource, from the one owned before on, and
  the generation owned afterwards is the last of them; a failing event may have published one more.
\<close>

definition owns_run :: "owned_map \<Rightarrow> schedule_event_result list \<Rightarrow> owned_map \<Rightarrow> bool \<Rightarrow> bool" where
  "owns_run owned new owned' failed = (\<forall>r g. gen_of owned r = Some g \<longrightarrow>
     (let gs = map own_generation (filter (\<lambda>ev. er_resource ev = r) new)
      in gs = [Suc g..<Suc g + length gs] \<and>
         (gen_of owned' r = Some (g + length gs) \<or> failed \<and> gen_of owned' r = Some (Suc (g + length gs)))))"

lemma owns_run_refl: "owns_run owned [] owned failed"
  by (simp add: owns_run_def)

lemma owns_run_published: "gen_of owned r = Some g \<Longrightarrow> owns_run owned [] (update_owned r (Suc g) owned) True"
  by (auto simp: owns_run_def gen_of_update)

lemma owns_run_step:
  assumes "gen_of owned (er_resource ev) = Some g" "own_generation ev = Suc g"
    and "owns_run (update_owned (er_resource ev) (Suc g) owned) new owned' failed"
  shows "owns_run owned (ev # new) owned' failed"
  unfolding owns_run_def
proof (intro allI impI)
  fix r h assume h: "gen_of owned r = Some h"
  show "let gs = map own_generation (filter (\<lambda>ev. er_resource ev = r) (ev # new))
    in gs = [Suc h..<Suc h + length gs] \<and>
       (gen_of owned' r = Some (h + length gs) \<or> failed \<and> gen_of owned' r = Some (Suc (h + length gs)))"
  proof (cases "r = er_resource ev")
    case True
    then have "h = g" "gen_of (update_owned (er_resource ev) (Suc g) owned) r = Some (Suc g)"
      using h assms(1) by (simp_all add: gen_of_update [OF assms(1)])
    then have "let gs = map own_generation (filter (\<lambda>ev. er_resource ev = r) new)
      in gs = [Suc (Suc h)..<Suc (Suc h) + length gs] \<and>
         (gen_of owned' r = Some (Suc h + length gs) \<or> failed \<and> gen_of owned' r = Some (Suc (Suc h + length gs)))"
      using assms(3) unfolding owns_run_def by blast
    then show ?thesis using assms(2) True \<open>h = g\<close>
      by (simp add: Let_def upt_conv_Cons del: upt_Suc)
  next
    case False
    then have "gen_of (update_owned (er_resource ev) (Suc g) owned) r = Some h"
      using h by (simp add: gen_of_update [OF assms(1)])
    then show ?thesis using assms(3) False unfolding owns_run_def by auto
  qed
qed

lemma set_request_strict:
  "set_request tg True owned kind r plan w = (Inr (ex, p), w') \<Longrightarrow> gen_of owned r = Some g \<Longrightarrow> ex = g"
  by (auto simp: set_request_def expected_generation_def gen_of_def)

lemma event_request_strict:
  assumes "event_request tg True owned a w = (Inr (ex, plan), w')" "gen_of owned (action_resource a) = Some g"
  shows "ex = g"
  using assms by (cases a) (auto simp: remove_request_def dest: set_request_strict split: sum.splits prod.splits)

context policy_target
begin

lemma strict_publish:
  assumes "event_request tg True owned a w = (Inr (ex, plan), w1)" "gen_of owned (action_resource a) = Some g" "g \<le> U64_MAX"
    and "tg_publish tg (action_resource a) ex plan ns w2 = (Inr h, w3)"
  shows "h = Suc g \<and> h \<le> U64_MAX"
  using event_request_strict [OF assms(1,2)] publish_next [OF assms(4)] assms(3) by simp

lemma strict_consecutive:
  assumes "drive_loop rt tg c fp epoch es out owned w = Some (l, w')" "sn_isolation c = Strict"
    and "\<And>e. e \<in> set es \<Longrightarrow> gen_of owned (action_resource (ce_action e)) \<noteq> None"
    and "\<And>r g. gen_of owned r = Some g \<Longrightarrow> g \<le> U64_MAX"
  shows "\<exists>new. dl_recorded l = out @ new \<and> owns_run owned new (dl_owned l) (dl_failure l \<noteq> None)"
  using assms
proof (induction es arbitrary: out owned w)
  case Nil
  then show ?case using owns_run_refl by auto
next
  case (Cons e es)
  let ?r = "action_resource (ce_action e)"
  obtain g0 where g0: "gen_of owned ?r = Some g0" "g0 \<le> U64_MAX" using Cons.prems(3) [of e] Cons.prems(4) by fastforce
  from Cons.prems(1) show ?case
  proof (cases rule: drive_loop_round)
    case stopped
    then show ?thesis using owns_run_refl by auto
  next
    case (failed reason owned1 w2)
    have "owned1 = owned \<or> owned1 = update_owned ?r (Suc g0) owned"
      using apply_event_failed [OF failed(1)] Cons.prems(2) strict_publish [OF _ g0] by auto
    then show ?thesis using failed(2) owns_run_refl owns_run_published [OF g0(1)] by auto
  next
    case (round w1 w2 ev owned1 w3)
    obtain wa expected plan wb wc where rq: "event_request tg (sn_isolation c = Strict) owned (ce_action e) wa = (Inr (expected, plan), wb)"
      and ap: "tg_publish tg ?r expected plan (event_namespace c fp (ce_compiled_index e)) wb = (Inr (own_generation ev), wc)"
      "owned1 = update_owned ?r (own_generation ev) owned" "tape_part ev = event_part e"
      by (rule apply_event_recorded [OF round(2)])
    have rq: "event_request tg True owned (ce_action e) wa = (Inr (expected, plan), wb)" using rq Cons.prems(2) by simp
    have ev: "own_generation ev = Suc g0" "Suc g0 \<le> U64_MAX" "er_resource ev = ?r"
      using strict_publish [OF rq g0 ap(1)] ap(3) by (auto simp: tape_part_def event_part_def)
    have gens: "gen_of owned1 r = (if r = ?r then Some (Suc g0) else gen_of owned r)" for r
      unfolding ap(2) ev(1) by (rule gen_of_update [OF g0(1)])
    obtain new where "dl_recorded l = (out @ [ev]) @ new" "owns_run owned1 new (dl_owned l) (dl_failure l \<noteq> None)"
      using Cons.IH [OF round(3) Cons.prems(2)] Cons.prems(3,4) gens ev(2) by (fastforce split: if_splits)
    then show ?thesis using owns_run_step [of owned ev g0] g0(1) ev ap(2) by auto
  qed
qed

end

section \<open>The loop\<close>

lemma drive_loop_prefix:
  "drive_loop rt tg c fp epoch es out owned w = Some (l, w') \<Longrightarrow>
     \<exists>new. dl_recorded l = out @ new \<and> map tape_part new = map event_part (take (length new) es) \<and> length new \<le> length es \<and>
       (if dl_cancelled l then dl_failure l = None \<and> length new < length es
        else if dl_failure l \<noteq> None then length new < length es else length new = length es)"
proof (induction es arbitrary: out owned w)
  case (Cons e es)
  from Cons.prems show ?case
  proof (cases rule: drive_loop_round)
    case (round w1 w2 ev owned1 w3)
    have "tape_part ev = event_part e" by (rule apply_event_recorded [OF round(2)])
    with Cons.IH [OF round(3)] obtain new where "dl_recorded l = (out @ [ev]) @ new"
      "map tape_part (ev # new) = map event_part (take (length (ev # new)) (e # es))" "length new \<le> length es"
      "if dl_cancelled l then dl_failure l = None \<and> length new < length es
       else if dl_failure l \<noteq> None then length new < length es else length new = length es" by auto
    then show ?thesis by (intro exI [of _ "ev # new"]) (simp split: if_splits)
  qed auto
qed auto

section \<open>Preparation\<close>

text \<open>Preparation covers a list of resources: each has an entry under its own key.\<close>

definition entries_named :: "owned_map \<Rightarrow> bool" where
  "entries_named owned = (btree_valid owned \<and> list_all (\<lambda>(k, entry). k = key_of (ow_resource entry)) owned)"

lemma entries_named_insert:
  "entries_named owned \<Longrightarrow> entries_named (btree_insert (key_of (ow_resource entry)) entry owned)"
proof -
  assume named: "entries_named owned"
  then have valid: "btree_valid (btree_insert (key_of (ow_resource entry)) entry owned)"
    by (simp add: entries_named_def btree.valid_insert)
  have "k = key_of (ow_resource v)" if kv: "(k, v) \<in> set (btree_insert (key_of (ow_resource entry)) entry owned)" for k v
  proof -
    have "map_of (btree_insert (key_of (ow_resource entry)) entry owned) k = Some v"
      using kv btree.entries_lookup [OF valid] by blast
    then have "(k = key_of (ow_resource entry) \<and> v = entry) \<or> (k, v) \<in> set owned"
      using named by (auto simp: entries_named_def btree.lookup_insert dest: map_of_SomeD split: if_splits)
    then show ?thesis using named by (auto simp: entries_named_def list_all_iff)
  qed
  with valid show ?thesis by (auto simp: entries_named_def list_all_iff)
qed

lemma prepare_loop_covers:
  "prepare_loop tg caps es owned w = (Inr owned', w') \<Longrightarrow> entries_named owned \<Longrightarrow>
     entries_named owned' \<and> dom (map_of owned') = dom (map_of owned) \<union> (\<lambda>e. key_of (action_resource (ce_action e))) ` set es"
proof (induction es arbitrary: owned w)
  case (Cons e es)
  let ?r = "action_resource (ce_action e)"
  show ?case
  proof (cases "map_of owned (key_of ?r)")
    case None
    then obtain s w1 where s: "unsupported_resource ?r caps = None" "tg_snapshot tg ?r w = (Inr s, w1)"
      using Cons.prems(1) by (auto simp: Let_def split: option.splits prod.splits sum.splits)
    let ?entry = "\<lparr>ow_resource = ?r, ow_last_owned_generation = ts_generation s, ow_initial_plan = ts_plan s\<rparr>"
    have "prepare_loop tg caps es (btree_insert (key_of ?r) ?entry owned) w1 = (Inr owned', w')"
      using Cons.prems(1) None s by (simp add: Let_def)
    moreover have "entries_named (btree_insert (key_of ?r) ?entry owned)"
      using entries_named_insert [OF Cons.prems(2), of ?entry] by simp
    ultimately have "entries_named owned' \<and> dom (map_of owned') =
        dom (map_of (btree_insert (key_of ?r) ?entry owned)) \<union> (\<lambda>e. key_of (action_resource (ce_action e))) ` set es"
      by (rule Cons.IH)
    moreover have "dom (map_of (btree_insert (key_of ?r) ?entry owned)) = insert (key_of ?r) (dom (map_of owned))"
      using Cons.prems(2) by (simp add: entries_named_def btree.lookup_insert)
    ultimately show ?thesis by simp
  next
    case (Some entry)
    then have "prepare_loop tg caps es owned w = (Inr owned', w')" using Cons.prems(1) by (simp add: Let_def)
    from Cons.IH [OF this Cons.prems(2)] Some show ?thesis by auto
  qed
qed simp

lemma prepare_initial_covers:
  assumes "prepare_initial tg c w = (Inr owned, w')"
  shows "entries_named owned" "dom (map_of owned) = (\<lambda>e. key_of (action_resource (ce_action e))) ` set (sn_events c)"
    "\<And>e. e \<in> set (sn_events c) \<Longrightarrow> gen_of owned (action_resource (ce_action e)) \<noteq> None"
proof -
  have "entries_named []" by (simp add: entries_named_def btree_valid_def)
  from prepare_loop_covers [OF assms [unfolded prepare_initial_def] this]
  show "entries_named owned" and dom: "dom (map_of owned) = (\<lambda>e. key_of (action_resource (ce_action e))) ` set (sn_events c)"
    by simp_all
  show "gen_of owned (action_resource (ce_action e)) \<noteq> None" if "e \<in> set (sn_events c)" for e
    using that dom by (auto simp: gen_of_def)
qed

lemma gen_of_bounded:
  "list_all (\<lambda>(k, entry). ow_last_owned_generation entry \<le> U64_MAX) owned \<Longrightarrow> gen_of owned r = Some g \<Longrightarrow> g \<le> U64_MAX"
  by (auto simp: gen_of_def list_all_iff dest: map_of_SomeD)

section \<open>Early events\<close>

text \<open>
  The documented clock of \<^verbatim>\<open>tokio\<close>: \<^verbatim>\<open>Instant::now\<close> never goes back, and a sleep that finished has
  reached its deadline.
\<close>

definition clock_ok :: "'w runtime \<Rightarrow> ('w \<Rightarrow> instant) \<Rightarrow> bool" where
  "clock_ok rt clock = ((\<forall>w. fst (rt_now rt w) = clock (snd (rt_now rt w)) \<and> clock w \<le> clock (snd (rt_now rt w))) \<and>
     (\<forall>w d. fst (rt_sleep_until rt d w) \<longrightarrow> d \<le> clock (snd (rt_sleep_until rt d w))))"

lemma wait_reaches_deadline:
  assumes "clock_ok rt clock" "wait_for_deadline rt epoch offset w = Some (True, w')"
  shows "epoch + offset \<le> clock w'"
proof -
  obtain d where d: "instant_checked_add epoch offset = Some d" using assms(2) by (auto simp: wait_for_deadline_def split: option.splits)
  then have "d = epoch + offset" by (simp add: instant_checked_add_def split: if_splits)
  moreover obtain now w1 where n: "rt_now rt w = (now, w1)" by fastforce
  moreover have "now = clock w1" using assms(1) n unfolding clock_ok_def by (metis fst_conv snd_conv)
  moreover have "d \<le> clock w'" if "rt_sleep_until rt d w1 = (True, w')"
    using assms(1) that unfolding clock_ok_def by (metis fst_conv snd_conv)
  ultimately show ?thesis using assms(2) d by (auto simp: wait_for_deadline_def split: if_splits)
qed

lemma drive_loop_on_time:
  "drive_loop rt tg c fp epoch es out owned w = Some (l, w') \<Longrightarrow> clock_ok rt clock \<Longrightarrow>
     list_all (\<lambda>e. ce_offset_ns e \<le> U64_MAX) es \<Longrightarrow>
     list_all (\<lambda>ev. er_applied_elapsed_ns ev = er_scheduled_offset_ns ev + er_late_by_ns ev) out \<Longrightarrow>
     list_all (\<lambda>ev. er_applied_elapsed_ns ev = er_scheduled_offset_ns ev + er_late_by_ns ev) (dl_recorded l)"
proof (induction es arbitrary: out owned w)
  case (Cons e es)
  from Cons.prems(1) show ?case
  proof (cases rule: drive_loop_round)
    case (round w1 w2 ev owned1 w3)
    obtain now wa where ev: "rt_now rt w2 = (now, wa)" "tape_part ev = event_part e"
      "er_applied_elapsed_ns ev = min (now - epoch) U64_MAX" "er_late_by_ns ev = er_applied_elapsed_ns ev - ce_offset_ns e"
      by (rule apply_event_recorded [OF round(2)])
    have "clock w2 \<le> now" using Cons.prems(2) ev(1) unfolding clock_ok_def by (metis fst_conv snd_conv)
    with wait_reaches_deadline [OF Cons.prems(2) round(1)] have "ce_offset_ns e \<le> now - epoch" by linarith
    then have "er_applied_elapsed_ns ev = er_scheduled_offset_ns ev + er_late_by_ns ev"
      using ev Cons.prems(3) by (simp add: tape_part_def event_part_def)
    with Cons.IH [OF round(3)] Cons.prems show ?thesis by simp
  qed (use Cons.prems in auto)
qed auto

end
