(* ===== verification/DriverRestore.thy ===== *)
theory DriverRestore
  imports DriverRuns
begin

text \<open>
  A run on the in-process stream target that nobody disturbs: whatever its outcome, cleanup with
  \<^verbatim>\<open>restore-initial\<close> leaves every touched policy with the plan it had, and touches no other policy.
\<close>

section \<open>Quiet worlds\<close>

definition same_store :: "'z stream_world_scheme \<Rightarrow> 'z stream_world_scheme \<Rightarrow> bool" where
  "same_store w w' = (sw_policies w = sw_policies w' \<and> sw_resources w = sw_resources w')"

text \<open>Reading the clock, sleeping and looking at the token do not publish.\<close>

definition quiet :: "'z stream_world_scheme runtime \<Rightarrow> bool" where
  "quiet rt = ((\<forall>w. same_store w (snd (rt_now rt w))) \<and> (\<forall>w. same_store w (snd (rt_is_cancelled rt w))) \<and>
     (\<forall>w w'. rt_cancelled rt w = Some w' \<longrightarrow> same_store w w') \<and> (\<forall>w d. same_store w (snd (rt_sleep_until rt d w))))"

lemma same_store_refl [simp]: "same_store w w"
  by (simp add: same_store_def)

lemma same_store_trans [trans]: "same_store w w1 \<Longrightarrow> same_store w1 w2 \<Longrightarrow> same_store w w2"
  by (simp add: same_store_def)

lemma same_store_cell: "same_store w w' \<Longrightarrow> stream_cell r w' = stream_cell r w"
  by (simp add: same_store_def stream_cell_def)

lemma stream_cell_resources: "sw_resources w = sw_resources w' \<Longrightarrow> stream_cell r w = stream_cell r w'"
  by (simp add: stream_cell_def)

lemma stream_reads:
  "tg_snapshot stream_target r w = (s, w') \<Longrightarrow> w' = w" "tg_current_generation stream_target r w = (g, w') \<Longrightarrow> w' = w"
  "tg_global_generation stream_target w = (n, w') \<Longrightarrow> w' = w"
  by (auto simp: stream_target_def stream_snapshot_def stream_current_generation_def Let_def split: sum.splits)

lemma set_request_reads: "set_request stream_target strict owned kind r plan w = (res, w') \<Longrightarrow> w' = w"
  by (auto simp: set_request_def expected_generation_def dest: stream_reads split: prod.splits sum.splits option.splits)

lemma event_request_reads: "event_request stream_target strict owned a w = (res, w') \<Longrightarrow> w' = w"
  by (cases a) (auto simp: remove_request_def dest: set_request_reads stream_reads split: prod.splits sum.splits if_splits)

lemma evidence_gens_reads: "evidence_gens stream_target r g w = (res, w') \<Longrightarrow> w' = w"
  by (auto simp: evidence_gens_def directional_gens_def dest: stream_reads split: schedule_transport.splits prod.splits sum.splits)

text \<open>An event either leaves the store alone or publishes once.\<close>

lemma apply_event_store:
  assumes "apply_event rt stream_target c fp epoch e owned w = (res, owned', w')" "quiet rt"
  shows "(owned' = owned \<and> same_store w w') \<or> (\<exists>w1 expected plan ns g w2. same_store w w1 \<and>
    stream_publish (action_resource (ce_action e)) expected plan ns w1 = (Inr g, w2) \<and> same_store w2 w' \<and>
    owned' = update_owned (action_resource (ce_action e)) g owned)"
proof -
  let ?r = "action_resource (ce_action e)"
  obtain now w1 where n: "rt_now rt w = (now, w1)" by fastforce
  then have w1: "same_store w w1" using assms(2) unfolding quiet_def by (metis snd_conv)
  obtain q w2 where q: "event_request stream_target (sn_isolation c = Strict) owned (ce_action e) w1 = (q, w2)" by fastforce
  have w2: "w2 = w1" by (rule event_request_reads [OF q])
  show ?thesis
  proof (cases q)
    case (Inl reason)
    then show ?thesis using assms(1) n q w1 w2 by (simp add: apply_event_def Let_def)
  next
    case (Inr ep)
    obtain expected plan where ep: "ep = (expected, plan)" by (cases ep)
    let ?ns = "event_namespace c fp (ce_compiled_index e)"
    obtain p w3 where p: "stream_publish ?r expected plan ?ns w1 = (p, w3)" by fastforce
    then have pub: "tg_publish stream_target ?r expected plan ?ns w1 = (p, w3)" by (simp add: stream_target_def)
    show ?thesis
    proof (cases p)
      case (Inl err)
      then show ?thesis using assms(1) n q w1 w2 \<open>q = Inr ep\<close> ep pub stream_publish_failed [of ?r expected plan ?ns w1 err w3] p
        by (simp add: apply_event_def Let_def)
    next
      case (Inr g)
      obtain v w4 where v: "evidence_gens stream_target ?r g w3 = (v, w4)" by fastforce
      have w4: "w4 = w3" by (rule evidence_gens_reads [OF v])
      have "owned' = update_owned ?r g owned \<and> w' = w3"
        using assms(1) n q w2 \<open>q = Inr ep\<close> ep pub Inr v w4
        by (cases v) (auto simp: apply_event_def Let_def dest: stream_reads(3) split: prod.splits)
      then show ?thesis using w1 p Inr same_store_refl by blast
    qed
  qed
qed

section \<open>What the run tracks\<close>

definition entry_cell :: "'z stream_world_scheme \<Rightarrow> owned_resource \<Rightarrow> nat option" where
  "entry_cell w entry = stream_cell (ow_resource entry) w"

text \<open>
  Relative to the world \<open>w0\<close> at preparation: every entry names its resource, knows the plan its cell had
  and the generation its cell has, at most \<open>n\<close> above the first one; cells without an entry are as before.
\<close>

definition tracks :: "nat \<Rightarrow> 'z stream_world_scheme \<Rightarrow> owned_map \<Rightarrow> 'z stream_world_scheme \<Rightarrow> bool" where
  "tracks n w0 owned w = (sw_resources w = sw_resources w0 \<and> distinct (map fst owned) \<and>
     (\<forall>(k, entry) \<in> set owned. k = key_of (ow_resource entry) \<and> (\<exists>a. entry_cell w0 entry = Some a \<and>
        generation (sw_policies w a) = ow_last_owned_generation entry \<and>
        ow_last_owned_generation entry \<le> generation (sw_policies w0 a) + n \<and>
        ow_initial_plan entry = StreamPlan (pub_plan (sw_policies w0 a)))) \<and>
     (\<forall>a. Some a \<notin> entry_cell w0 ` snd ` set owned \<longrightarrow> sw_policies w a = sw_policies w0 a))"

definition unaliased :: "'z stream_world_scheme \<Rightarrow> owned_map \<Rightarrow> bool" where
  "unaliased w0 owned = (\<forall>(k, x) \<in> set owned. \<forall>(k', y) \<in> set owned. entry_cell w0 x = entry_cell w0 y \<longrightarrow> k = k')"

lemma tracks_same_store: "tracks n w0 owned w \<Longrightarrow> same_store w w' \<Longrightarrow> tracks n w0 owned w'"
  by (simp add: tracks_def same_store_def)

lemma tracks_weaken: "tracks n w0 owned w \<Longrightarrow> n \<le> m \<Longrightarrow> tracks m w0 owned w"
  unfolding tracks_def by fastforce

lemma update_owned_entries:
  assumes "map_of owned (key_of r) = Some entry" "distinct (map fst owned)"
  shows "set (update_owned r g owned) =
    insert (key_of r, entry\<lparr>ow_last_owned_generation := g\<rparr>) (set owned - {(key_of r, entry)})"
proof -
  have mem: "(key_of r, entry) \<in> set owned" using assms(1) by (rule map_of_SomeD)
  have only: "v = entry" if "(key_of r, v) \<in> set owned" for v
    using that assms by (metis map_of_eq_Some_iff option.inject)
  define f where "f = (\<lambda>(k, v :: owned_resource). (k, if k = key_of r then v\<lparr>ow_last_owned_generation := g\<rparr> else v))"
  define S where "S = set owned - {(key_of r, entry)}"
  have "f kv = kv" if "kv \<in> S" for kv
    using that only by (cases kv; cases "fst kv = key_of r") (auto simp: f_def S_def)
  then have fS: "f ` S = S" by simp
  have "set (update_owned r g owned) = f ` set owned"
    using assms(1) by (simp add: update_owned_def btree_adjust_def f_def)
  also have "set owned = insert (key_of r, entry) S" using mem by (auto simp: S_def)
  also have "f ` insert (key_of r, entry) S = insert (f (key_of r, entry)) S" unfolding image_insert fS ..
  finally show ?thesis by (simp add: f_def S_def)
qed

lemma update_owned_keys: "map_of owned (key_of r) \<noteq> None \<Longrightarrow> map fst (update_owned r g owned) = map fst owned"
  by (simp add: update_owned_def)

text \<open>Publishing to the cell of an entry keeps track.\<close>

lemma tracks_publish:
  assumes "tracks n w0 owned w" "unaliased w0 owned" "map_of owned (key_of r) = Some entry"
    and "stream_cell r w = Some a" "generation p = Suc (generation (sw_policies w a))"
    and "w' = w\<lparr>sw_policies := (sw_policies w)(a := p), sw_global := k\<rparr>"
  shows "tracks (Suc n) w0 (update_owned r (generation p) owned) w'"
proof -
  have mem: "(key_of r, entry) \<in> set owned" using assms(3) by (rule map_of_SomeD)
  have dist: "distinct (map fst owned)" "sw_resources w = sw_resources w0" using assms(1) by (simp_all add: tracks_def)
  have "key_of r = key_of (ow_resource entry)" using assms(1) mem by (auto simp: tracks_def)
  then have r: "ow_resource entry = r" by (simp add: key_of_inj)
  then have cell: "entry_cell w0 entry = Some a"
    using assms(4) stream_cell_resources [OF dist(2)] by (simp add: entry_cell_def)
  let ?entry = "entry\<lparr>ow_last_owned_generation := generation p\<rparr>"
  have cell': "entry_cell w0 ?entry = Some a" using cell by (simp add: entry_cell_def)
  note entries = update_owned_entries [OF assms(3) dist(1), of "generation p"]
  have at: "generation (sw_policies w a) = ow_last_owned_generation entry"
    "ow_last_owned_generation entry \<le> generation (sw_policies w0 a) + n" "ow_initial_plan entry = StreamPlan (pub_plan (sw_policies w0 a))"
    using assms(1) mem cell by (auto simp: tracks_def)
  show ?thesis unfolding tracks_def
  proof (intro conjI ballI allI impI)
    show "sw_resources w' = sw_resources w0" using dist(2) assms(6) by simp
    show "distinct (map fst (update_owned r (generation p) owned))" using dist(1) assms(3) by (simp add: update_owned_keys)
  next
    fix kv assume kv: "kv \<in> set (update_owned r (generation p) owned)"
    show "case kv of (k, entry) \<Rightarrow> k = key_of (ow_resource entry) \<and> (\<exists>a. entry_cell w0 entry = Some a \<and>
        generation (sw_policies w' a) = ow_last_owned_generation entry \<and>
        ow_last_owned_generation entry \<le> generation (sw_policies w0 a) + Suc n \<and>
        ow_initial_plan entry = StreamPlan (pub_plan (sw_policies w0 a)))"
    proof (cases "kv = (key_of r, ?entry)")
      case True
      then show ?thesis using r cell' at assms(5,6) by (auto simp: entry_cell_def)
    next
      case False
      then have old: "kv \<in> set owned" "kv \<noteq> (key_of r, entry)" using kv entries by auto
      obtain k x where x: "kv = (k, x)" by (cases kv)
      have "k \<noteq> key_of r" using old x mem dist(1) by (metis map_of_eq_Some_iff option.inject)
      then have "entry_cell w0 x \<noteq> Some a" using assms(2) old(1) x mem cell unfolding unaliased_def by fastforce
      then show ?thesis using assms(1,6) old(1) x by (fastforce simp: tracks_def)
    qed
  next
    fix b assume b: "Some b \<notin> entry_cell w0 ` snd ` set (update_owned r (generation p) owned)"
    have "b \<noteq> a" using b entries cell' by force
    moreover have "Some b \<notin> entry_cell w0 ` snd ` set owned"
    proof
      assume "Some b \<in> entry_cell w0 ` snd ` set owned"
      then obtain k x where x: "(k, x) \<in> set owned" "entry_cell w0 x = Some b" by force
      then have "(k, x) \<noteq> (key_of r, entry)" using cell \<open>b \<noteq> a\<close> by auto
      then show False using b x entries by force
    qed
    ultimately show "sw_policies w' b = sw_policies w0 b" using assms(1,6) by (simp add: tracks_def)
  qed
qed

lemma unaliased_update:
  assumes "unaliased w0 owned" "map_of owned (key_of r) = Some entry" "distinct (map fst owned)"
  shows "unaliased w0 (update_owned r g owned)"
proof -
  have mem: "(key_of r, entry) \<in> set owned" using assms(2) by (rule map_of_SomeD)
  have "\<exists>x'. (k, x') \<in> set owned \<and> entry_cell w0 x' = entry_cell w0 x" if "(k, x) \<in> set (update_owned r g owned)" for k x
    using that mem update_owned_entries [OF assms(2,3), of g] by (auto simp: entry_cell_def)
  then have old: "\<exists>x'. (k, x') \<in> set owned \<and> entry_cell w0 x' = entry_cell w0 x" if "(k, x) \<in> set (update_owned r g owned)" for k x
    using that by blast
  have "k = k'" if kx: "(k, x) \<in> set (update_owned r g owned)" "(k', y) \<in> set (update_owned r g owned)" "entry_cell w0 x = entry_cell w0 y"
    for k x k' y
    using old [OF kx(1)] old [OF kx(2)] kx(3) assms(1) unfolding unaliased_def by fastforce
  then show ?thesis unfolding unaliased_def by blast
qed

section \<open>The run keeps track\<close>

lemma tracks_prepared:
  assumes "prepare_loop stream_target caps es owned w = (Inr owned', w')" "tracks 0 w0 owned w0" "same_store w0 w" "btree_valid owned"
  shows "tracks 0 w0 owned' w0 \<and> same_store w0 w'"
  using assms
proof (induction es arbitrary: owned w)
  case (Cons e es)
  let ?r = "action_resource (ce_action e)"
  show ?case
  proof (cases "map_of owned (key_of ?r)")
    case None
    obtain s w1 where s: "unsupported_resource ?r caps = None" "tg_snapshot stream_target ?r w = (Inr s, w1)"
      using Cons.prems(1) None by (auto simp: Let_def split: option.splits prod.splits sum.splits)
    let ?entry = "\<lparr>ow_resource = ?r, ow_last_owned_generation = ts_generation s, ow_initial_plan = ts_plan s\<rparr>"
    have w1: "w1 = w" by (rule stream_reads(1) [OF s(2)])
    obtain pair where l: "stream_lookup ?r w = Inr pair" using s(2) by (auto simp: stream_target_def stream_snapshot_def split: sum.splits)
    define a where "a = directional pair (sr_direction ?r)"
    have a: "stream_cell ?r w0 = Some a" using stream_lookup_cell(1) [OF l] same_store_cell [OF Cons.prems(3)] by (simp add: a_def)
    have snap: "s = \<lparr>ts_generation = generation (sw_policies w0 a), ts_plan = StreamPlan (pub_plan (sw_policies w0 a))\<rparr>"
      using s(2) l Cons.prems(3) by (auto simp: stream_target_def stream_snapshot_def Let_def a_def same_store_def)
    have valid: "btree_valid (btree_insert (key_of ?r) ?entry owned)" by (rule btree.valid_insert [OF Cons.prems(4)])
    have "set (btree_insert (key_of ?r) ?entry owned) = insert (key_of ?r, ?entry) (set owned)"
      using None btree.entries_lookup [OF valid] btree.entries_lookup [OF Cons.prems(4)] map_of_btree_insert [OF Cons.prems(4), of "key_of ?r" ?entry]
      by (auto split: if_splits)
    then have "tracks 0 w0 (btree_insert (key_of ?r) ?entry owned) w0"
      using Cons.prems(2) a snap valid by (auto simp: tracks_def btree_valid_def entry_cell_def)
    moreover have "prepare_loop stream_target caps es (btree_insert (key_of ?r) ?entry owned) w = (Inr owned', w')"
      using Cons.prems(1) None s w1 by (simp add: Let_def)
    ultimately show ?thesis using Cons.IH Cons.prems(3) valid by blast
  next
    case (Some entry)
    then have "prepare_loop stream_target caps es owned w = (Inr owned', w')" using Cons.prems(1) by (simp add: Let_def)
    then show ?thesis using Cons.IH Cons.prems(2-4) by blast
  qed
qed simp

lemma wait_quiet:
  assumes "quiet rt" "wait_for_deadline rt epoch offset w = Some (ok, w')"
  shows "same_store w w'"
proof -
  have "same_store w (snd (rt_now rt w))" "\<And>d v. same_store v (snd (rt_sleep_until rt d v))" "\<And>v. rt_cancelled rt w = Some v \<Longrightarrow> same_store w v"
    using assms(1) unfolding quiet_def by blast+
  then show ?thesis using assms(2)
    by (auto simp: wait_for_deadline_def same_store_def split: option.splits prod.splits if_splits) (metis snd_conv)+
qed

lemma apply_event_tracks:
  assumes "apply_event rt stream_target c fp epoch e owned w = (res, owned', w')" "quiet rt"
    and "tracks n w0 owned w" "unaliased w0 owned" "map_of owned (key_of (action_resource (ce_action e))) \<noteq> None"
    and "\<And>a. generation (sw_policies w0 a) + Suc n \<le> U64_MAX"
  shows "tracks (Suc n) w0 owned' w' \<and> unaliased w0 owned' \<and> map fst owned' = map fst owned"
proof -
  let ?r = "action_resource (ce_action e)"
  obtain entry where entry: "map_of owned (key_of ?r) = Some entry" using assms(5) by blast
  from apply_event_store [OF assms(1,2)] show ?thesis
  proof (elim disjE exE conjE)
    assume "owned' = owned" "same_store w w'"
    then show ?thesis using tracks_weaken [OF tracks_same_store [OF assms(3)]] assms(4) by simp
  next
    fix w1 expected plan ns g w2
    assume w1: "same_store w w1" and pub: "stream_publish ?r expected plan ns w1 = (Inr g, w2)" and w2: "same_store w2 w'"
      and o: "owned' = update_owned ?r g owned"
    have t1: "tracks n w0 owned w1" by (rule tracks_same_store [OF assms(3) w1])
    obtain p a where a: "stream_cell ?r w1 = Some a" "generation (sw_policies w1 a) = expected" "g = sat_add64 expected 1"
      "w2 = w1\<lparr>sw_policies := (sw_policies w1)(a := next_policy p ns (sw_policies w1 a)), sw_global := (sw_global w1 + 1) mod 2 ^ 64\<rparr>"
      by (rule stream_publish_ok [OF pub])
    have mem: "(key_of ?r, entry) \<in> set owned" using entry by (rule map_of_SomeD)
    have "key_of ?r = key_of (ow_resource entry)" using t1 mem by (auto simp: tracks_def)
    then have "ow_resource entry = ?r" by (simp add: key_of_inj)
    moreover have "stream_cell ?r w0 = Some a"
      using a(1) t1 stream_cell_resources [of w1 w0 ?r] by (simp add: tracks_def)
    ultimately have "entry_cell w0 entry = Some a" by (simp add: entry_cell_def)
    then have "generation (sw_policies w1 a) \<le> generation (sw_policies w0 a) + n" using t1 mem by (auto simp: tracks_def)
    then have small: "sat_add64 expected 1 = Suc expected" using a(2) assms(6) [of a] by (simp add: sat_add64_def)
    have "generation (next_policy p ns (sw_policies w1 a)) = Suc (generation (sw_policies w1 a))"
      using small a(2) by (simp add: next_policy_def)
    from tracks_publish [OF t1 assms(4) entry a(1) this a(4)] have "tracks (Suc n) w0 owned' w2"
      using o a(2,3) by (simp add: next_policy_def)
    moreover have "unaliased w0 owned'" unfolding o
      by (rule unaliased_update [OF assms(4) entry]) (use assms(3) in \<open>simp add: tracks_def\<close>)
    ultimately show ?thesis using tracks_same_store w2 o assms(5) by (simp add: update_owned_keys)
  qed
qed

lemma drive_loop_tracks:
  assumes "drive_loop rt stream_target c fp epoch es out owned w = Some (l, w')" "quiet rt"
    and "tracks n w0 owned w" "unaliased w0 owned"
    and "\<And>e. e \<in> set es \<Longrightarrow> key_of (action_resource (ce_action e)) \<in> fst ` set owned"
    and "\<And>a. generation (sw_policies w0 a) + (n + length es) \<le> U64_MAX"
  shows "tracks (n + length es) w0 (dl_owned l) w' \<and> unaliased w0 (dl_owned l) \<and> map fst (dl_owned l) = map fst owned"
  using assms
proof (induction es arbitrary: n out owned w)
  case (Cons e es)
  obtain cancelled w1 where c: "rt_is_cancelled rt w = (cancelled, w1)" by fastforce
  have w1: "same_store w w1" using Cons.prems(2) c unfolding quiet_def by (metis snd_conv)
  have t1: "tracks n w0 owned w1" by (rule tracks_same_store [OF Cons.prems(3) w1])
  have more: "generation (sw_policies w0 a) + Suc n \<le> U64_MAX" for a using Cons.prems(6) [of a] by simp
  show ?case
  proof (cases cancelled)
    case True
    then show ?thesis using Cons.prems(1,4) c tracks_weaken [OF t1, of "n + length (e # es)"] by auto
  next
    case False
    then obtain ok w2 where wt: "wait_for_deadline rt epoch (ce_offset_ns e) w1 = Some (ok, w2)"
      using Cons.prems(1) c by (auto split: option.splits)
    have t2: "tracks n w0 owned w2" by (rule tracks_same_store [OF t1 wait_quiet [OF Cons.prems(2) wt]])
    obtain res owned1 w3 where a: "apply_event rt stream_target c fp epoch e owned w2 = (res, owned1, w3)" by (metis prod_cases3)
    have "map_of owned (key_of (action_resource (ce_action e))) \<noteq> None"
      using Cons.prems(5) [of e] by (simp add: map_of_eq_None_iff)
    note step = apply_event_tracks [OF a Cons.prems(2) t2 Cons.prems(4) this more]
    show ?thesis
    proof (cases ok)
      case False
      then show ?thesis using Cons.prems(1,4) c \<open>\<not> cancelled\<close> wt tracks_weaken [OF t2, of "n + length (e # es)"] by auto
    next
      case True
      show ?thesis
      proof (cases res)
        case (Inl reason)
        then show ?thesis using Cons.prems(1) c \<open>\<not> cancelled\<close> wt True a step tracks_weaken [of "Suc n" w0 owned1 w3 "n + length (e # es)"]
          by auto
      next
        case (Inr ev)
        have "drive_loop rt stream_target c fp epoch es (out @ [ev]) owned1 w3 = Some (l, w')"
          using Cons.prems(1) c \<open>\<not> cancelled\<close> wt True a Inr by simp
        moreover have "key_of (action_resource (ce_action e')) \<in> fst ` set owned1" if "e' \<in> set es" for e'
          using Cons.prems(5) [of e'] that step by (metis list.set_intros(2) list.set_map)
        ultimately show ?thesis using Cons.IH [of "out @ [ev]" owned1 w3 "Suc n"] Cons.prems(2,6) step by simp
      qed
    qed
  qed
qed auto

section \<open>Cleanup restores\<close>

definition restorable :: "'z stream_world_scheme \<Rightarrow> owned_resource \<Rightarrow> bool" where
  "restorable w entry = (\<exists>a p. entry_cell w entry = Some a \<and> generation (sw_policies w a) = ow_last_owned_generation entry \<and>
     ow_last_owned_generation entry < U64_MAX \<and> ow_initial_plan entry = StreamPlan p \<and> plan_ok p)"

definition restored_cell :: "'z stream_world_scheme \<Rightarrow> 'z stream_world_scheme \<Rightarrow> owned_resource \<Rightarrow> bool" where
  "restored_cell w w' entry = (\<exists>a. entry_cell w entry = Some a \<and>
     StreamPlan (pub_plan (sw_policies w' a)) = ow_initial_plan entry \<and>
     generation (sw_policies w' a) = Suc (ow_last_owned_generation entry))"

lemma stream_cell_lookup: "stream_cell r w = Some a \<Longrightarrow> \<exists>pair. stream_lookup r w = Inr pair \<and> directional pair (sr_direction r) = a"
  by (auto simp: stream_cell_def stream_lookup_def split: if_splits)

lemma restore_target_restores:
  assumes "restorable w entry" "restore_target stream_target entry ns w = (outcome, w')"
  shows "outcome = Restored \<and> restored_cell w w' entry \<and> sw_resources w' = sw_resources w \<and>
    (\<forall>a. entry_cell w entry \<noteq> Some a \<longrightarrow> sw_policies w' a = sw_policies w a)"
proof -
  let ?r = "ow_resource entry" and ?g = "ow_last_owned_generation entry"
  obtain a p where a: "stream_cell ?r w = Some a" "generation (sw_policies w a) = ?g" "?g < U64_MAX"
    "ow_initial_plan entry = StreamPlan p" "plan_ok p"
    using assms(1) by (auto simp: restorable_def entry_cell_def)
  obtain pair where l: "stream_lookup ?r w = Inr pair" "directional pair (sr_direction ?r) = a"
    using stream_cell_lookup [OF a(1)] by blast
  have cur: "tg_current_generation stream_target ?r w = (Inr ?g, w)"
    using l a(2) by (simp add: stream_target_def stream_current_generation_def)
  have "publish_expected p ns ?g (sw_policies w a) = (Inr (next_policy p ns (sw_policies w a)), next_policy p ns (sw_policies w a))"
    using a(2,3,5) plan_validate_iff [of p] by (simp add: publish_expected_def)
  then have pub: "tg_publish stream_target ?r ?g (ow_initial_plan entry) ns w = (Inr (generation (next_policy p ns (sw_policies w a))),
      w\<lparr>sw_policies := (sw_policies w)(a := next_policy p ns (sw_policies w a)), sw_global := (sw_global w + 1) mod 2 ^ 64\<rparr>)"
    using l a(4) by (simp add: stream_target_def stream_publish_def Let_def)
  have "outcome = Restored \<and> w' = w\<lparr>sw_policies := (sw_policies w)(a := next_policy p ns (sw_policies w a)), sw_global := (sw_global w + 1) mod 2 ^ 64\<rparr>"
    using assms(2) by (simp add: restore_target_def cur pub)
  then show ?thesis using a by (auto simp: restored_cell_def entry_cell_def next_policy_def sat_add64_def)
qed

lemma restorable_elsewhere:
  assumes "restorable w x" "sw_resources w' = sw_resources w" "\<forall>a. entry_cell w x = Some a \<longrightarrow> sw_policies w' a = sw_policies w a"
  shows "restorable w' x"
  using assms stream_cell_resources [OF assms(2)] by (auto simp: restorable_def entry_cell_def)

lemma cleanup_loop_restores:
  assumes "cleanup_loop stream_target RestoreInitial ns owned w = (records, w')"
    and "\<And>k x. (k, x) \<in> set owned \<Longrightarrow> restorable w x" "distinct (map (entry_cell w \<circ> snd) owned)"
  shows "list_all (\<lambda>r. cr_outcome r = Restored) records \<and> map cr_resource records = map (ow_resource \<circ> snd) owned \<and>
    sw_resources w' = sw_resources w \<and> list_all (restored_cell w w' \<circ> snd) owned \<and>
    (\<forall>a. Some a \<notin> entry_cell w ` snd ` set owned \<longrightarrow> sw_policies w' a = sw_policies w a)"
  using assms
proof (induction owned arbitrary: w records)
  case (Cons kx owned)
  obtain k x where kx: "kx = (k, x)" by (cases kx)
  obtain outcome w1 where r: "restore_target stream_target x ns w = (outcome, w1)" by fastforce
  obtain rs where c: "cleanup_loop stream_target RestoreInitial ns owned w1 = (rs, w')"
    "records = \<lparr>cr_resource = ow_resource x, cr_outcome = outcome\<rparr> # rs"
    using Cons.prems(1) kx r by (auto split: prod.splits)
  have "restorable w x" using Cons.prems(2) [of k x] kx by simp
  note one = restore_target_restores [OF this r]
  then have cells: "entry_cell w1 y = entry_cell w y" for y by (simp add: entry_cell_def stream_cell_resources [of w1 w])
  have other: "entry_cell w y \<noteq> entry_cell w x" if "(k', y) \<in> set owned" for k' y
    using that Cons.prems(3) kx by (force simp: image_iff)
  have "restorable w1 y" if y: "(k', y) \<in> set owned" for k' y
    by (rule restorable_elsewhere [of w]) (use Cons.prems(2) [of k' y] y kx one other [OF y] in auto)
  then have ih: "list_all (\<lambda>r. cr_outcome r = Restored) rs \<and> map cr_resource rs = map (ow_resource \<circ> snd) owned \<and>
    sw_resources w' = sw_resources w1 \<and> list_all (restored_cell w1 w' \<circ> snd) owned \<and>
    (\<forall>a. Some a \<notin> entry_cell w1 ` snd ` set owned \<longrightarrow> sw_policies w' a = sw_policies w1 a)"
    using Cons.IH [OF c(1)] Cons.prems(3) kx by (auto simp: cells [abs_def] comp_def)
  obtain a where a: "entry_cell w x = Some a" "StreamPlan (pub_plan (sw_policies w1 a)) = ow_initial_plan x"
    "generation (sw_policies w1 a) = Suc (ow_last_owned_generation x)" using one by (auto simp: restored_cell_def)
  have "Some a \<notin> entry_cell w1 ` snd ` set owned" using other a(1) cells by force
  then have "sw_policies w' a = sw_policies w1 a" using ih by blast
  then have head: "restored_cell w w' x" using a by (auto simp: restored_cell_def)
  have "restored_cell w w' y = restored_cell w1 w' y" for y by (simp add: restored_cell_def cells)
  then show ?case using ih one c(2) kx head by (auto simp: list_all_iff cells)
qed simp

lemma unaliased_cells:
  assumes "unaliased w0 owned" "distinct (map fst owned)"
  shows "distinct (map (entry_cell w0 \<circ> snd) owned)"
  using assms
proof (induction owned)
  case (Cons kx owned)
  obtain k x where kx: "kx = (k, x)" by (cases kx)
  have "unaliased w0 owned" using Cons.prems(1) unfolding unaliased_def by auto
  moreover have "entry_cell w0 y \<noteq> entry_cell w0 x" if "(k', y) \<in> set owned" for k' y
    using that Cons.prems kx unfolding unaliased_def by (force simp: image_iff)
  ultimately show ?case using Cons.IH Cons.prems(2) kx by force
qed simp

lemma tracked_cells:
  assumes "\<forall>(k, x) \<in> set xs. k = key_of (ow_resource x)" "\<forall>(k, y) \<in> set ys. k = key_of (ow_resource y)" "fst ` set xs = fst ` set ys"
  shows "entry_cell w ` snd ` set xs = entry_cell w ` snd ` set ys"
proof -
  have "ow_resource ` snd ` set zs = {r. key_of r \<in> fst ` set zs}" if "\<forall>(k, z) \<in> set zs. k = key_of (ow_resource z)" for zs
    using that by (force simp: key_of_inj)
  from this [OF assms(1)] this [OF assms(2)] have "ow_resource ` snd ` set xs = ow_resource ` snd ` set ys" using assms(3) by simp
  then have "(\<lambda>r. stream_cell r w) ` ow_resource ` snd ` set xs = (\<lambda>r. stream_cell r w) ` ow_resource ` snd ` set ys" by (rule arg_cong)
  then show ?thesis by (simp add: image_image entry_cell_def)
qed

end
