(* ===== verification/DriverProps.thy ===== *)
theory DriverProps
  imports DriverRestore
begin

text \<open>
  The properties of driven schedules, and a small world in which they are exercised: the stream target
  with a clock.
\<close>

section \<open>A world with a clock\<close>

record run_world = stream_world +
  rw_clock :: instant

definition ticking :: "run_world runtime" where
  "ticking = \<lparr>rt_now = (\<lambda>w. (rw_clock w, w)), rt_is_cancelled = (\<lambda>w. (False, w)), rt_cancelled = (\<lambda>w. None),
     rt_sleep_until = (\<lambda>d w. (True, w\<lparr>rw_clock := max d (rw_clock w)\<rparr>))\<rparr>"

definition api_world :: run_world where
  "api_world = \<lparr>sw_policies = (\<lambda>a. \<lparr>generation = 1, pub_plan = example_plan, seed_namespace = 0\<rparr>),
     sw_resources = [(''api'', (0, 1))], sw_global = 0, rw_clock = 3\<rparr>"

definition api_event :: "nat \<Rightarrow> nat \<Rightarrow> compiled_event" where
  "api_event i offset = \<lparr>ce_compiled_index = i, ce_phase = TopPhase i, ce_offset_ns = offset, ce_action = SetPlan ''api'' Upstream []\<rparr>"

definition api_tape :: "cleanup_policy \<Rightarrow> compiled_scenario" where
  "api_tape cleanup = \<lparr>sn_compiler_semantics_version = 1, sn_seed = 1, sn_execution_key = 2, sn_isolation = Strict,
     sn_cleanup = cleanup, sn_events = [api_event 0 0, api_event 1 5], sn_total_duration_ns = 5\<rparr>"

definition api_owned :: owned_map where
  "api_owned = [(key_of \<lparr>sr_proxy = ''api'', sr_direction = Upstream, sr_transport = StreamTransport\<rparr>,
     \<lparr>ow_resource = \<lparr>sr_proxy = ''api'', sr_direction = Upstream, sr_transport = StreamTransport\<rparr>, ow_last_owned_generation = 1,
      ow_initial_plan = StreamPlan example_plan\<rparr>)]"

lemma ticking_clock: "clock_ok ticking rw_clock"
  by (simp add: clock_ok_def ticking_def)

lemma ticking_quiet: "quiet ticking"
  by (simp add: quiet_def ticking_def same_store_def)

lemma api_prepared: "prepare_initial stream_target (api_tape cleanup) api_world = (Inr api_owned, api_world)"
  by (simp add: prepare_initial_def api_tape_def api_event_def stream_target_def unsupported_resource_def stream_snapshot_def
      stream_lookup_def api_world_def api_owned_def Let_def)

lemma empty_plan_new: "fault_plan_new [] = Inr \<lparr>plan_faults = []\<rparr>"
  by (simp add: fault_plan_new_def MAX_STREAM_FAULTS_def)

lemma api_deadline: "wait_for_deadline ticking 0 offset w =
    (if offset \<le> INSTANT_MAX then Some (True, if offset \<le> rw_clock w then w else w\<lparr>rw_clock := offset\<rparr>) else None)"
  by (simp add: wait_for_deadline_def instant_checked_add_def ticking_def max_def)

abbreviation api :: schedule_resource where
  "api \<equiv> \<lparr>sr_proxy = ''api'', sr_direction = Upstream, sr_transport = StreamTransport\<rparr>"

lemma api_apply:
  assumes "sw_resources w = [(''api'', (0, 1))]" "generation (sw_policies w 0) = g" "g < U64_MAX" "gen_of owned api = Some g"
  shows "\<exists>ev w'. apply_event ticking stream_target (api_tape cleanup) fp 0 (api_event i offset) owned w =
      (Inr ev, update_owned api (Suc g) owned, w') \<and> own_generation ev = Suc g \<and> er_resource ev = api \<and>
    sw_resources w' = [(''api'', (0, 1))] \<and> generation (sw_policies w' 0) = Suc g"
proof -
  obtain entry where entry: "map_of owned (key_of api) = Some entry" "ow_last_owned_generation entry = g"
    using assms(4) by (auto simp: gen_of_def)
  have valid: "plan_validate \<lparr>plan_faults = []\<rparr> = Inr ()" by (simp add: plan_validate_iff plan_ok_def)
  have lookup: "stream_lookup (api\<lparr>sr_direction := d\<rparr>) v = Inr (0, 1)" if "sw_resources v = [(''api'', (0, 1))]" for d and v :: run_world
    using that by (simp add: stream_lookup_def)
  define ns where "ns = event_namespace (api_tape cleanup) fp i"
  define w1 where "w1 = w\<lparr>sw_policies := (sw_policies w)(0 := next_policy \<lparr>plan_faults = []\<rparr> ns (sw_policies w 0)),
    sw_global := (sw_global w + 1) mod 2 ^ 64\<rparr>"
  have pub: "tg_publish stream_target api g (StreamPlan \<lparr>plan_faults = []\<rparr>) ns w = (Inr (Suc g), w1)"
    using assms(1-3) lookup [of w Upstream] valid
    by (simp add: stream_target_def stream_publish_def publish_expected_def w1_def next_policy_def sat_add64_def Let_def)
  have gens: "evidence_gens stream_target api (Suc g) w1 = (Inr (Suc g, generation (sw_policies w1 1)), w1)"
    using assms(1) lookup [of w1 Downstream]
    by (simp add: evidence_gens_def directional_gens_def stream_target_def stream_current_generation_def w1_def)
  have rq: "event_request stream_target True owned (SetPlan ''api'' Upstream []) w = (Inr (g, StreamPlan \<lparr>plan_faults = []\<rparr>), w)"
    using entry by (simp add: empty_plan_new set_request_def expected_generation_def)
  have "sw_resources w1 = [(''api'', (0, 1))]" "generation (sw_policies w1 0) = Suc g"
    using assms by (simp_all add: w1_def next_policy_def sat_add64_def)
  moreover have "tg_global_generation stream_target w1 = (sw_global w1, w1)" by (simp add: stream_target_def)
  moreover have "rt_now ticking w = (rw_clock w, w)" by (simp add: ticking_def)
  moreover have "sn_isolation (api_tape cleanup) = Strict" by (simp add: api_tape_def)
  ultimately show ?thesis using rq pub gens
    by (simp add: apply_event_def api_event_def own_generation_def Let_def flip: ns_def)
qed

lemma api_run:
  "\<exists>l w'. drive_loop ticking stream_target (api_tape cleanup) fp 0 (sn_events (api_tape cleanup)) [] api_owned api_world = Some (l, w') \<and>
     map own_generation (dl_recorded l) = [2, 3] \<and> list_all (\<lambda>ev. er_resource ev = api) (dl_recorded l)"
proof -
  have start: "sw_resources api_world = [(''api'', (0, 1))]" "generation (sw_policies api_world 0) = 1" "1 < U64_MAX" "gen_of api_owned api = Some 1"
    by (simp_all add: api_world_def U64_MAX_def gen_of_def api_owned_def)
  obtain ev w1 where s1: "apply_event ticking stream_target (api_tape cleanup) fp 0 (api_event 0 0) api_owned api_world =
      (Inr ev, update_owned api (Suc 1) api_owned, w1)" "own_generation ev = Suc 1" "er_resource ev = api"
    "sw_resources w1 = [(''api'', (0, 1))]" "generation (sw_policies w1 0) = Suc 1"
    using api_apply [OF start, of cleanup fp 0 0] by blast
  define w2 where "w2 = (if 5 \<le> rw_clock w1 then w1 else w1\<lparr>rw_clock := 5\<rparr>)"
  have w2: "sw_resources w2 = [(''api'', (0, 1))]" "generation (sw_policies w2 0) = Suc 1" "Suc 1 < U64_MAX"
    "gen_of (update_owned api (Suc 1) api_owned) api = Some (Suc 1)"
    using s1(4,5) gen_of_update [OF start(4)] by (simp_all add: w2_def U64_MAX_def)
  obtain ev2 w3 where s2: "apply_event ticking stream_target (api_tape cleanup) fp 0 (api_event 1 5) (update_owned api (Suc 1) api_owned) w2 =
      (Inr ev2, update_owned api (Suc (Suc 1)) (update_owned api (Suc 1) api_owned), w3)" "own_generation ev2 = Suc (Suc 1)" "er_resource ev2 = api"
    using api_apply [OF w2, of cleanup fp 1 5] by blast
  have d: "wait_for_deadline ticking 0 0 api_world = Some (True, api_world)" "wait_for_deadline ticking 0 5 w1 = Some (True, w2)"
    by (simp_all add: api_deadline w2_def INSTANT_MAX_def NANOS_PER_SEC_def)
  have off: "ce_offset_ns (api_event i offset) = offset" for i offset by (simp add: api_event_def)
  have run: "rt_is_cancelled ticking w = (False, w)" for w by (simp add: ticking_def)
  have "sn_events (api_tape cleanup) = [api_event 0 0, api_event 1 5]" by (simp add: api_tape_def)
  then show ?thesis using s1 s2 d off run by simp
qed

lemma driveD:
  assumes "drive sha256 rt tg c fp owned epoch w = Some (outcome, evs, w')"
  obtains l w1 where "drive_loop rt tg c fp epoch (sn_events c) [] owned w = Some (l, w1)" "evs = dl_recorded l"
    "do_status outcome = (if dl_cancelled l then Cancelled else if dl_failure l \<noteq> None then Failed else Completed)"
    "do_failure outcome = dl_failure l" "do_applied outcome = length evs"
    "run_cleanup sha256 tg c (dl_owned l) w1 = (do_cleanup outcome, w')"
  using assms by (auto simp: drive_def Let_def split: option.splits prod.splits)

lemma drive_of_loop:
  assumes "drive_loop rt tg c fp epoch (sn_events c) [] owned w = Some (l, w1)"
  obtains outcome w' where "drive sha256 rt tg c fp owned epoch w = Some (outcome, dl_recorded l, w')"
proof -
  obtain cleanup w2 where "run_cleanup sha256 tg c (dl_owned l) w1 = (cleanup, w2)" by fastforce
  with assms that show thesis by (simp add: drive_def Let_def)
qed

section \<open>Properties\<close>

text \<open>
  C33. Runs follow the tape. The events a run records are a prefix of the tape, in order, each with the
  index, phase, offset, action and target of the tape; \<^verbatim>\<open>applied\<close> counts them; the run is completed exactly
  when all were applied, and a failed run gives a reason, a cancelled one none.
\<close>

theorem drive_follows_tape:
  assumes "drive sha256 rt tg c fp owned epoch w = Some (outcome, evs, w')"
  shows "map tape_part evs = map event_part (take (do_applied outcome) (sn_events c)) \<and> do_applied outcome = length evs \<and>
    (do_status outcome = Completed \<longleftrightarrow> length evs = length (sn_events c)) \<and>
    (do_status outcome = Failed \<longleftrightarrow> do_failure outcome \<noteq> None) \<and> do_status outcome \<in> {Completed, Failed, Cancelled}"
proof -
  obtain l w1 where d: "drive_loop rt tg c fp epoch (sn_events c) [] owned w = Some (l, w1)" "evs = dl_recorded l"
    "do_status outcome = (if dl_cancelled l then Cancelled else if dl_failure l \<noteq> None then Failed else Completed)"
    "do_failure outcome = dl_failure l" "do_applied outcome = length evs" by (rule driveD [OF assms])
  with drive_loop_prefix [OF d(1)] show ?thesis by (auto split: if_splits)
qed

theorem drive_follows_tape_witness:
  "\<exists>outcome evs w'. drive (\<lambda>s. []) ticking stream_target (api_tape Leave) [] api_owned 0 api_world = Some (outcome, evs, w') \<and>
     do_status outcome = Completed \<and> map er_compiled_index evs = [0, 1]"
proof -
  obtain l w1 where l: "drive_loop ticking stream_target (api_tape Leave) [] 0 (sn_events (api_tape Leave)) [] api_owned api_world = Some (l, w1)"
    "map own_generation (dl_recorded l) = [2, 3]" using api_run [of Leave "[]"] by force
  obtain outcome w' where d: "drive (\<lambda>s. []) ticking stream_target (api_tape Leave) [] api_owned 0 api_world = Some (outcome, dl_recorded l, w')"
    by (rule drive_of_loop [OF l(1)])
  have len: "length (dl_recorded l) = 2" using arg_cong [OF l(2), of length] by simp
  note p = drive_follows_tape [OF d]
  then have "map tape_part (dl_recorded l) = map event_part [api_event 0 0, api_event 1 5]"
    using len by (simp add: api_tape_def numeral_2_eq_2)
  then have "map fst (map tape_part (dl_recorded l)) = [0, 1]" by (simp add: event_part_def api_event_def)
  then have "map er_compiled_index (dl_recorded l) = [0, 1]" by (simp add: tape_part_def comp_def)
  then show ?thesis using d p len by (auto simp: api_tape_def)
qed

text \<open>
  C34. Strict isolation. On every target that keeps the publication contract (a granted publication returns the
  generation after the expected one), the events a strict run records for a resource carry consecutive generations,
  starting right after the one found at preparation: no foreign publication lies between them, so none is overwritten
  unseen. The stream target keeps the contract also when other tasks publish; the datagram target of the server does not.
\<close>

theorem strict_run_owns_generations:
  assumes "policy_target tg" "prepare_initial tg c w0 = (Inr owned, w1)"
    and "list_all (\<lambda>(k, entry). ow_last_owned_generation entry \<le> U64_MAX) owned" "sn_isolation c = Strict"
    and "drive sha256 rt tg c fp owned epoch w = Some (outcome, evs, w')" "gen_of owned r = Some g"
  shows "let gs = map own_generation (filter (\<lambda>ev. er_resource ev = r) evs) in gs = [Suc g..<Suc g + length gs]"
proof -
  obtain l w1 where d: "drive_loop rt tg c fp epoch (sn_events c) [] owned w = Some (l, w1)" "evs = dl_recorded l"
    by (rule driveD [OF assms(5)])
  obtain new where "dl_recorded l = [] @ new" "owns_run owned new (dl_owned l) (dl_failure l \<noteq> None)"
    using policy_target.strict_consecutive [OF assms(1) d(1) assms(4)] prepare_initial_covers(3) [OF assms(2)]
      gen_of_bounded [OF assms(3)] by blast
  then show ?thesis using assms(6) d(2) by (auto simp: owns_run_def Let_def)
qed

theorem strict_run_owns_generations_witness:
  "\<exists>outcome evs w'. drive (\<lambda>s. []) ticking stream_target (api_tape Leave) [] api_owned 0 api_world = Some (outcome, evs, w') \<and>
     length evs = 2 \<and> map own_generation (filter (\<lambda>ev. er_resource ev = api) evs) = [2..<2 + 2]"
proof -
  obtain l w1 where l: "drive_loop ticking stream_target (api_tape Leave) [] 0 (sn_events (api_tape Leave)) [] api_owned api_world = Some (l, w1)"
    "map own_generation (dl_recorded l) = [2, 3]" "list_all (\<lambda>ev. er_resource ev = api) (dl_recorded l)" using api_run [of Leave "[]"] by force
  obtain outcome w' where d: "drive (\<lambda>s. []) ticking stream_target (api_tape Leave) [] api_owned 0 api_world = Some (outcome, dl_recorded l, w')"
    by (rule drive_of_loop [OF l(1)])
  have len: "length (dl_recorded l) = 2" using arg_cong [OF l(2), of length] by simp
  have all: "filter (\<lambda>ev. er_resource ev = api) (dl_recorded l) = dl_recorded l" using l(3) by (simp add: list_all_iff)
  have "list_all (\<lambda>(k, entry). ow_last_owned_generation entry \<le> U64_MAX) api_owned" "sn_isolation (api_tape Leave) = Strict" "gen_of api_owned api = Some 1"
    by (simp_all add: api_owned_def U64_MAX_def api_tape_def gen_of_def)
  from strict_run_owns_generations [OF stream.policy_target_axioms api_prepared this(1,2) d this(3)] show ?thesis
    using d len all by (auto simp: Let_def numeral_2_eq_2)
qed

text \<open>
  No event is early. With a monotone clock, every recorded event was applied at its scheduled offset
  from the epoch or later, and the reported lateness is exactly the difference.
\<close>

theorem events_not_early:
  assumes "drive sha256 rt tg c fp owned epoch w = Some (outcome, evs, w')" "clock_ok rt clock"
    and "list_all (\<lambda>e. ce_offset_ns e \<le> U64_MAX) (sn_events c)"
  shows "list_all (\<lambda>ev. er_applied_elapsed_ns ev = er_scheduled_offset_ns ev + er_late_by_ns ev) evs"
proof -
  obtain l w1 where d: "drive_loop rt tg c fp epoch (sn_events c) [] owned w = Some (l, w1)" "evs = dl_recorded l"
    by (rule driveD [OF assms(1)])
  show ?thesis using drive_loop_on_time [OF d(1) assms(2,3)] d(2) by simp
qed

theorem events_not_early_witness:
  "\<exists>outcome evs w'. drive (\<lambda>s. []) ticking stream_target (api_tape Leave) [] api_owned 0 api_world = Some (outcome, evs, w') \<and>
     length evs = 2 \<and> list_all (\<lambda>ev. er_applied_elapsed_ns ev = er_scheduled_offset_ns ev + er_late_by_ns ev) evs"
proof -
  obtain l w1 where l: "drive_loop ticking stream_target (api_tape Leave) [] 0 (sn_events (api_tape Leave)) [] api_owned api_world = Some (l, w1)"
    "map own_generation (dl_recorded l) = [2, 3]" using api_run [of Leave "[]"] by force
  obtain outcome w' where d: "drive (\<lambda>s. []) ticking stream_target (api_tape Leave) [] api_owned 0 api_world = Some (outcome, dl_recorded l, w')"
    by (rule drive_of_loop [OF l(1)])
  have "list_all (\<lambda>e. ce_offset_ns e \<le> U64_MAX) (sn_events (api_tape Leave))" by (simp add: api_tape_def api_event_def U64_MAX_def)
  from events_not_early [OF d ticking_clock this] d arg_cong [OF l(2), of length] show ?thesis by auto
qed

text \<open>
  C35. Restoration. If nobody else publishes to the target, the touched policies are not shared and have
  room for a few more generations, then a run with \<^verbatim>\<open>restore-initial\<close>, whether it completes, fails or is
  cancelled, restores every touched resource to the plan it had at preparation and leaves every other
  policy exactly as it was.
\<close>

theorem undisturbed_run_restores:
  assumes "prepare_initial stream_target c w0 = (Inr owned, w1)" "quiet rt" "sn_cleanup c = RestoreInitial"
    and "drive sha256 rt stream_target c fp owned epoch w1 = Some (outcome, evs, w')" "unaliased w0 owned"
    and "\<forall>a. plan_ok (pub_plan (sw_policies w0 a)) \<and> generation (sw_policies w0 a) + length (sn_events c) < U64_MAX"
  shows "list_all (\<lambda>r. cr_outcome r = Restored) (co_resources (do_cleanup outcome)) \<and>
    length (co_resources (do_cleanup outcome)) = length owned \<and>
    (\<forall>a. pub_plan (sw_policies w' a) = pub_plan (sw_policies w0 a)) \<and>
    (\<forall>a. Some a \<notin> entry_cell w0 ` snd ` set owned \<longrightarrow> sw_policies w' a = sw_policies w0 a)"
proof -
  let ?n = "length (sn_events c)"
  have t0: "tracks 0 w0 owned w0" "same_store w0 w1"
    using tracks_prepared [OF assms(1) [unfolded prepare_initial_def], of w0] by (auto simp: tracks_def btree_valid_def)
  have dom: "key_of (action_resource (ce_action e)) \<in> fst ` set owned" if "e \<in> set (sn_events c)" for e
    using prepare_initial_covers(2) [OF assms(1)] that by (auto simp: dom_map_of_conv_image_fst)
  have room: "generation (sw_policies w0 a) + (0 + ?n) \<le> U64_MAX" for a using assms(6) by (metis add_0 less_imp_le)
  obtain l w2 where d: "drive_loop rt stream_target c fp epoch (sn_events c) [] owned w1 = Some (l, w2)"
    "run_cleanup sha256 stream_target c (dl_owned l) w2 = (do_cleanup outcome, w')" by (rule driveD [OF assms(4)])
  have t1: "tracks ?n w0 (dl_owned l) w2" and un: "unaliased w0 (dl_owned l)" and keys: "map fst (dl_owned l) = map fst owned"
    using drive_loop_tracks [OF d(1) assms(2) tracks_same_store [OF t0] assms(5) dom room] by simp_all
  obtain ns records where cl: "cleanup_loop stream_target RestoreInitial ns (dl_owned l) w2 = (records, w')"
    "co_resources (do_cleanup outcome) = records"
    using d(2) assms(3) that by (cases "do_cleanup outcome") (auto simp: run_cleanup_def split: prod.splits)
  have cells: "entry_cell w2 x = entry_cell w0 x" for x
    using t1 stream_cell_resources [of w2 w0] by (simp add: tracks_def entry_cell_def)
  have restorable: "restorable w2 x" if "(k, x) \<in> set (dl_owned l)" for k x
    using t1 that assms(6) unfolding tracks_def restorable_def cells by (fastforce intro: le_less_trans)
  have dist: "distinct (map (entry_cell w2 \<circ> snd) (dl_owned l))"
    using unaliased_cells [OF un] t1 by (simp add: cells [abs_def] comp_def tracks_def)
  have fin: "list_all (\<lambda>r. cr_outcome r = Restored) records \<and> map cr_resource records = map (ow_resource \<circ> snd) (dl_owned l) \<and>
    sw_resources w' = sw_resources w2 \<and> list_all (restored_cell w2 w' \<circ> snd) (dl_owned l) \<and>
    (\<forall>a. Some a \<notin> entry_cell w2 ` snd ` set (dl_owned l) \<longrightarrow> sw_policies w' a = sw_policies w2 a)"
    by (rule cleanup_loop_restores [OF cl(1) _ dist]) (rule restorable)
  have "fst ` set (dl_owned l) = fst ` set owned" using keys by (metis list.set_map)
  then have touched: "entry_cell w0 ` snd ` set (dl_owned l) = entry_cell w0 ` snd ` set owned"
    using t1 t0(1) by (intro tracked_cells) (auto simp: tracks_def)
  have away: "sw_policies w' a = sw_policies w0 a" if "Some a \<notin> entry_cell w0 ` snd ` set owned" for a
    using that fin t1 touched by (simp add: cells tracks_def)
  have "pub_plan (sw_policies w' a) = pub_plan (sw_policies w0 a)" for a
  proof (cases "Some a \<in> entry_cell w0 ` snd ` set owned")
    case True
    then obtain k x where x: "(k, x) \<in> set (dl_owned l)" "entry_cell w0 x = Some a" using touched by force
    have "list_all (restored_cell w2 w' \<circ> snd) (dl_owned l)" using fin by blast
    then have "restored_cell w2 w' x" using x(1) by (auto simp: list_all_iff)
    then have "StreamPlan (pub_plan (sw_policies w' a)) = ow_initial_plan x" using x(2) by (simp add: restored_cell_def cells)
    moreover have "ow_initial_plan x = StreamPlan (pub_plan (sw_policies w0 a))" using t1 x by (auto simp: tracks_def)
    ultimately show ?thesis by simp
  qed (simp add: away)
  moreover have "length records = length owned" using fin keys by (metis length_map)
  ultimately show ?thesis using fin cl(2) away by simp
qed

theorem undisturbed_run_restores_witness:
  "\<exists>outcome evs w'. drive (\<lambda>s. []) ticking stream_target (api_tape RestoreInitial) [] api_owned 0 api_world = Some (outcome, evs, w') \<and>
     length evs = 2 \<and> map cr_outcome (co_resources (do_cleanup outcome)) = [Restored] \<and> pub_plan (sw_policies w' 0) = example_plan"
proof -
  obtain l w1 where l: "drive_loop ticking stream_target (api_tape RestoreInitial) [] 0 (sn_events (api_tape RestoreInitial)) [] api_owned api_world = Some (l, w1)"
    "map own_generation (dl_recorded l) = [2, 3]" using api_run [of RestoreInitial "[]"] by force
  obtain outcome w' where d: "drive (\<lambda>s. []) ticking stream_target (api_tape RestoreInitial) [] api_owned 0 api_world = Some (outcome, dl_recorded l, w')"
    by (rule drive_of_loop [OF l(1)])
  have "sn_cleanup (api_tape RestoreInitial) = RestoreInitial" by (simp add: api_tape_def)
  moreover have "unaliased api_world api_owned" by (simp add: unaliased_def api_owned_def)
  moreover have "\<forall>a. plan_ok (pub_plan (sw_policies api_world a)) \<and>
      generation (sw_policies api_world a) + length (sn_events (api_tape RestoreInitial)) < U64_MAX"
    by (simp add: api_world_def example_plan_ok api_tape_def U64_MAX_def)
  ultimately have "list_all (\<lambda>r. cr_outcome r = Restored) (co_resources (do_cleanup outcome))"
    "length (co_resources (do_cleanup outcome)) = 1" "pub_plan (sw_policies w' 0) = example_plan"
    using undisturbed_run_restores [OF api_prepared ticking_quiet _ d] by (auto simp: api_owned_def api_world_def)
  then show ?thesis using d arg_cong [OF l(2), of length] by (auto simp: length_Suc_conv)
qed

lemma drive_loop_returns:
  "list_all (\<lambda>e. epoch + ce_offset_ns e \<le> INSTANT_MAX) es \<Longrightarrow> drive_loop rt tg c fp epoch es out owned w \<noteq> None"
proof (induction es arbitrary: out owned w)
  case (Cons e es)
  obtain cancelled w1 where c: "rt_is_cancelled rt w = (cancelled, w1)" by fastforce
  obtain ok w2 where wt: "wait_for_deadline rt epoch (ce_offset_ns e) w1 = Some (ok, w2)"
  proof (cases "epoch + ce_offset_ns e \<le> fst (rt_now rt w1)")
    case True
    then show ?thesis using that Cons.prems by (simp add: wait_for_deadline_def instant_checked_add_def case_prod_beta)
  next
    case False
    let ?s = "rt_sleep_until rt (epoch + ce_offset_ns e) (snd (rt_now rt w1))"
    show ?thesis using that [of "fst ?s" "snd ?s"] False Cons.prems
      by (simp add: wait_for_deadline_def instant_checked_add_def case_prod_beta)
  qed
  obtain res owned1 w3 where a: "apply_event rt tg c fp epoch e owned w2 = (res, owned1, w3)" by (metis prod_cases3)
  show ?case using Cons c wt a by (cases cancelled; cases ok; cases res) simp_all
qed simp

text \<open>
  A run always ends. If every deadline is a representable instant, the driver returns an outcome
  whatever the target and the other tasks do; it never waits for a cancellation that may not come.
\<close>

theorem drive_returns:
  assumes "list_all (\<lambda>e. epoch + ce_offset_ns e \<le> INSTANT_MAX) (sn_events c)"
  shows "\<exists>outcome evs w'. drive sha256 rt tg c fp owned epoch w = Some (outcome, evs, w')"
proof -
  obtain l w1 where "drive_loop rt tg c fp epoch (sn_events c) [] owned w = Some (l, w1)"
    using drive_loop_returns [OF assms] by fastforce
  then obtain outcome w' where "drive sha256 rt tg c fp owned epoch w = Some (outcome, dl_recorded l, w')" by (rule drive_of_loop)
  then show ?thesis by blast
qed

theorem drive_returns_witness:
  "\<exists>outcome evs w'. drive (\<lambda>s. []) ticking stream_target (api_tape Leave) [] api_owned 7 api_world = Some (outcome, evs, w')"
  by (rule drive_returns) (simp add: api_tape_def api_event_def INSTANT_MAX_def NANOS_PER_SEC_def)

definition cancelled_at_start :: "run_world runtime" where
  "cancelled_at_start = ticking\<lparr>rt_is_cancelled := (\<lambda>w. (True, w))\<rparr>"

text \<open>
  Cancellation before the first event. A run whose token is cancelled at the start applies nothing;
  with \<^verbatim>\<open>leave\<close> the target is not touched. With \<^verbatim>\<open>restore-initial\<close>, however, cleanup publishes the initial
  plan of every touched policy once more, so generations move although no event was applied.
\<close>

theorem cancelled_run_still_publishes:
  "\<exists>outcome w'. drive sha256 cancelled_at_start stream_target (api_tape RestoreInitial) fp api_owned epoch api_world = Some (outcome, [], w') \<and>
     do_status outcome = Cancelled \<and> do_applied outcome = 0 \<and> generation (sw_policies api_world 0) = 1 \<and> generation (sw_policies w' 0) = 2"
proof -
  let ?c = "api_tape RestoreInitial"
  let ?l = "\<lparr>dl_cancelled = True, dl_failure = None, dl_recorded = [], dl_owned = api_owned\<rparr>"
  have loop: "drive_loop cancelled_at_start stream_target ?c fp epoch (sn_events ?c) [] api_owned api_world = Some (?l, api_world)"
    by (simp add: api_tape_def cancelled_at_start_def)
  obtain cleanup w' where cl: "run_cleanup sha256 stream_target ?c api_owned api_world = (cleanup, w')" by fastforce
  then obtain ns records where rec: "cleanup_loop stream_target RestoreInitial ns api_owned api_world = (records, w')"
    by (auto simp: run_cleanup_def api_tape_def split: prod.splits)
  have cell: "entry_cell api_world (snd (hd api_owned)) = Some 0" by (simp add: api_owned_def entry_cell_def stream_cell_def api_world_def)
  have "restorable api_world x" if "(k, x) \<in> set api_owned" for k x
    using that cell by (simp add: api_owned_def restorable_def example_plan_ok U64_MAX_def) (simp add: api_world_def)
  moreover have "distinct (map (entry_cell api_world \<circ> snd) api_owned)" by (simp add: api_owned_def)
  ultimately have "list_all (restored_cell api_world w' \<circ> snd) api_owned" using cleanup_loop_restores [OF rec] by blast
  then have "generation (sw_policies w' 0) = 2" using cell by (simp add: api_owned_def restored_cell_def)
  then show ?thesis using loop cl by (simp add: drive_def api_world_def)
qed

end
