(* ===== verification/Gate.thy ===== *)
theory Gate
  imports Prelude
begin

text \<open>
  The epoch gate, \<^verbatim>\<open>crates/eggchaos-experiment/src/gate.rs\<close>: \<^verbatim>\<open>EpochGate::start\<close> captures one instant and
  releases every \<^verbatim>\<open>EpochWaiter\<close>. Any number of tasks call \<open>start\<close> and \<open>await_epoch\<close>; a task is a
  program counter, one step is one atomic action of the source (\<^verbatim>\<open>OnceLock::get_or_init\<close>,
  \<^verbatim>\<open>OnceLock::get\<close>, the creation of a \<^verbatim>\<open>Notified\<close> future, \<^verbatim>\<open>notify_waiters\<close>, the end of an await), and tasks
  interleave freely.

  \<^verbatim>\<open>tokio::sync::Notify\<close> is the parameter \<open>notify\<close>; \<open>notify_ok\<close> is what its documentation promises: a
  \<^verbatim>\<open>Notified\<close> future receives every \<^verbatim>\<open>notify_waiters\<close> that follows its creation, polled or not.
\<close>

section \<open>The gate\<close>

record ('n, 'k) notify =
  nt_new :: 'n
  nt_notified :: "'n \<Rightarrow> 'k"
  nt_ready :: "'n \<Rightarrow> 'k \<Rightarrow> bool"
  nt_notify_waiters :: "'n \<Rightarrow> 'n"

definition notify_ok :: "('n, 'k) notify \<Rightarrow> bool" where
  "notify_ok nt = (\<forall>n i. nt_ready nt ((nt_notify_waiters nt ^^ Suc i) n) (nt_notified nt n))"

record 'n gate_inner =
  gi_epoch :: "instant option"
  gi_notify :: 'n

definition gate_new :: "('n, 'k) notify \<Rightarrow> 'n gate_inner" where
  "gate_new nt = \<lparr>gi_epoch = None, gi_notify = nt_new nt\<rparr>"

definition get_or_init :: "instant \<Rightarrow> 'n gate_inner \<Rightarrow> instant \<times> 'n gate_inner" where
  "get_or_init now g = (case gi_epoch g of Some e \<Rightarrow> (e, g) | None \<Rightarrow> (now, g\<lparr>gi_epoch := Some now\<rparr>))"

definition notify_all :: "('n, 'k) notify \<Rightarrow> 'n gate_inner \<Rightarrow> 'n gate_inner" where
  "notify_all nt g = g\<lparr>gi_notify := nt_notify_waiters nt (gi_notify g)\<rparr>"

text \<open>\<^verbatim>\<open>start\<close>, \<^verbatim>\<open>started\<close>, \<^verbatim>\<open>epoch\<close> and \<^verbatim>\<open>try_epoch\<close> as one uninterrupted caller sees them.\<close>

definition gate_start :: "('n, 'k) notify \<Rightarrow> instant \<Rightarrow> 'n gate_inner \<Rightarrow> instant \<times> 'n gate_inner" where
  "gate_start nt now g = (let (e, g1) = get_or_init now g in (e, notify_all nt g1))"

definition gate_started :: "('n, 'k) notify \<Rightarrow> instant \<Rightarrow> 'n gate_inner" where
  "gate_started nt now = snd (gate_start nt now (gate_new nt))"

definition try_epoch :: "'n gate_inner \<Rightarrow> instant option" where
  "try_epoch g = gi_epoch g"

section \<open>Tasks\<close>

datatype 'k task =
    Starting
  | Captured instant
  | Started instant
  | Entering
  | Created 'k
  | Awaiting 'k
  | Released instant

text \<open>
  \<open>Starting\<close>, \<open>Captured\<close> and \<open>Started\<close> are before, inside and after \<^verbatim>\<open>start\<close>. \<open>Entering\<close> is the head of the
  loop of \<^verbatim>\<open>await_epoch\<close>; \<open>None\<close> is a task that cannot move: it awaits, or it has returned.
\<close>

fun task_step :: "('n, 'k) notify \<Rightarrow> instant \<Rightarrow> 'k task \<Rightarrow> 'n gate_inner \<Rightarrow> ('k task \<times> 'n gate_inner) option" where
  "task_step nt now Starting g = (let (e, g1) = get_or_init now g in Some (Captured e, g1))"
| "task_step nt now (Captured e) g = Some (Started e, notify_all nt g)"
| "task_step nt now (Started e) g = None"
| "task_step nt now Entering g = Some (Created (nt_notified nt (gi_notify g)), g)"
| "task_step nt now (Created k) g =
     Some (case gi_epoch g of Some e \<Rightarrow> Released e | None \<Rightarrow> Awaiting k, g)"
| "task_step nt now (Awaiting k) g = (if nt_ready nt (gi_notify g) k then Some (Entering, g) else None)"
| "task_step nt now (Released e) g = None"

record ('n, 'k) gate_state =
  gs_gate :: "'n gate_inner"
  gs_now :: instant
  gs_tasks :: "nat \<Rightarrow> 'k task"

definition move_task :: "('n, 'k) notify \<Rightarrow> nat \<Rightarrow> ('n, 'k) gate_state \<Rightarrow> ('n, 'k) gate_state option" where
  "move_task nt i s =
     (case task_step nt (gs_now s) (gs_tasks s i) (gs_gate s) of
        None \<Rightarrow> None
      | Some (t, g) \<Rightarrow> Some (s\<lparr>gs_gate := g, gs_tasks := (gs_tasks s)(i := t)\<rparr>))"

inductive gate_step :: "('n, 'k) notify \<Rightarrow> ('n, 'k) gate_state \<Rightarrow> ('n, 'k) gate_state \<Rightarrow> bool" for nt where
  tick: "gs_now s \<le> now \<Longrightarrow> gate_step nt s (s\<lparr>gs_now := now\<rparr>)"
| move: "move_task nt i s = Some s' \<Longrightarrow> gate_step nt s s'"

inductive_cases gate_stepE: "gate_step nt s s'"

inductive gate_reachable :: "('n, 'k) notify \<Rightarrow> ('n, 'k) gate_state \<Rightarrow> bool" for nt where
  init: "(\<And>i. tasks i \<in> {Starting, Entering}) \<Longrightarrow>
    gate_reachable nt \<lparr>gs_gate = gate_new nt, gs_now = now, gs_tasks = tasks\<rparr>"
| step: "gate_reachable nt s \<Longrightarrow> gate_step nt s s' \<Longrightarrow> gate_reachable nt s'"

text \<open>\<open>n\<close> steps of task \<open>i\<close> alone.\<close>

primrec run_alone :: "('n, 'k) notify \<Rightarrow> nat \<Rightarrow> nat \<Rightarrow> ('n, 'k) gate_state \<Rightarrow> ('n, 'k) gate_state option" where
  "run_alone nt 0 i s = Some s"
| "run_alone nt (Suc n) i s = Option.bind (move_task nt i s) (run_alone nt n i)"

fun observed :: "'k task \<Rightarrow> instant option" where
  "observed (Captured e) = Some e"
| "observed (Started e) = Some e"
| "observed (Released e) = Some e"
| "observed _ = None"

fun is_waiter :: "'k task \<Rightarrow> bool" where
  "is_waiter Entering = True"
| "is_waiter (Created _) = True"
| "is_waiter (Awaiting _) = True"
| "is_waiter _ = False"

section \<open>The invariant\<close>

text \<open>
  A future was created from some earlier state of the notifier. One that is awaited although nothing was
  broadcast since belongs to a waiter that saw no epoch: then no \<^verbatim>\<open>start\<close> has returned.
\<close>

definition no_start_returned :: "('n, 'k) gate_state \<Rightarrow> bool" where
  "no_start_returned s = (\<forall>i e. gs_tasks s i \<noteq> Started e)"

definition created_before :: "('n, 'k) notify \<Rightarrow> 'n \<Rightarrow> bool \<Rightarrow> 'k \<Rightarrow> bool" where
  "created_before nt n quiet k = (\<exists>m i. k = nt_notified nt m \<and> n = (nt_notify_waiters nt ^^ i) m \<and> (i = 0 \<longrightarrow> quiet))"

fun task_ok :: "('n, 'k) notify \<Rightarrow> 'n gate_inner \<Rightarrow> bool \<Rightarrow> 'k task \<Rightarrow> bool" where
  "task_ok nt g quiet (Created k) = created_before nt (gi_notify g) True k"
| "task_ok nt g quiet (Awaiting k) = created_before nt (gi_notify g) quiet k"
| "task_ok nt g quiet t = (observed t = None \<or> observed t = gi_epoch g)"

lemma created_before_now: "created_before nt n True (nt_notified nt n)"
  unfolding created_before_def by (intro exI [of _ n] exI [of _ "0 :: nat"]) simp

lemma created_before_broadcast: "created_before nt n quiet k \<Longrightarrow> created_before nt (nt_notify_waiters nt n) quiet' k"
  unfolding created_before_def
proof (elim exE conjE)
  fix m i assume "k = nt_notified nt m" "n = (nt_notify_waiters nt ^^ i) m"
  then show "\<exists>m i. k = nt_notified nt m \<and> nt_notify_waiters nt n = (nt_notify_waiters nt ^^ i) m \<and> (i = 0 \<longrightarrow> quiet')"
    by (intro exI [of _ m] exI [of _ "Suc i"]) simp
qed

lemma created_before_quiet: "created_before nt n quiet k \<Longrightarrow> (quiet \<Longrightarrow> quiet') \<Longrightarrow> created_before nt n quiet' k"
  unfolding created_before_def by blast

lemma created_before_ready: "notify_ok nt \<Longrightarrow> created_before nt n False k \<Longrightarrow> nt_ready nt n k"
  unfolding created_before_def notify_ok_def by (elim exE conjE) (metis not0_implies_Suc)

lemma task_ok_observed: "task_ok nt g quiet t \<Longrightarrow> observed t = Some e \<Longrightarrow> gi_epoch g = Some e"
  by (cases t) simp_all

definition gate_inv :: "('n, 'k) notify \<Rightarrow> ('n, 'k) gate_state \<Rightarrow> bool" where
  "gate_inv nt s =
     ((\<forall>i. task_ok nt (gs_gate s) (no_start_returned s) (gs_tasks s i)) \<and>
      (\<forall>e. gi_epoch (gs_gate s) = Some e \<longrightarrow> e \<le> gs_now s))"

lemma gate_inv_init:
  assumes "\<And>i. tasks i \<in> {Starting, Entering}"
  shows "gate_inv nt \<lparr>gs_gate = gate_new nt, gs_now = now, gs_tasks = tasks\<rparr>"
proof -
  have "task_ok nt (gate_new nt) q (tasks i)" for q i using assms [of i] by auto
  then show ?thesis by (simp add: gate_inv_def) (simp add: gate_new_def)
qed

text \<open>A task keeps its part of the invariant when another task captures the epoch or broadcasts.\<close>

lemma task_ok_capture:
  "task_ok nt g quiet t \<Longrightarrow> gi_epoch g = None \<Longrightarrow> task_ok nt (g\<lparr>gi_epoch := Some e\<rparr>) quiet t"
  by (cases t) simp_all

lemma task_ok_broadcast: "task_ok nt g quiet t \<Longrightarrow> task_ok nt (notify_all nt g) quiet' t"
  by (cases t) (auto simp: notify_all_def intro: created_before_broadcast)

lemma task_ok_quiet: "task_ok nt g quiet t \<Longrightarrow> (quiet \<Longrightarrow> quiet') \<Longrightarrow> task_ok nt g quiet' t"
  by (cases t) (auto intro: created_before_quiet)

lemma no_start_returned_upd:
  "no_start_returned s \<Longrightarrow> (\<And>e. t \<noteq> Started e) \<Longrightarrow>
   no_start_returned (s\<lparr>gs_gate := g, gs_tasks := (gs_tasks s)(i := t)\<rparr>)"
  by (simp add: no_start_returned_def)

text \<open>A step of task \<open>i\<close> that does not finish a start.\<close>

lemma gate_inv_moveI:
  assumes "gate_inv nt s" "\<And>e. t \<noteq> Started e"
    and "task_ok nt g (no_start_returned s) t"
    and "\<And>u. task_ok nt (gs_gate s) (no_start_returned s) u \<Longrightarrow> task_ok nt g (no_start_returned s) u"
    and "\<And>e. gi_epoch g = Some e \<Longrightarrow> e \<le> gs_now s"
  shows "gate_inv nt (s\<lparr>gs_gate := g, gs_tasks := (gs_tasks s)(i := t)\<rparr>)"
proof -
  let ?s = "s\<lparr>gs_gate := g, gs_tasks := (gs_tasks s)(i := t)\<rparr>"
  have q: "no_start_returned s \<Longrightarrow> no_start_returned ?s" using no_start_returned_upd assms(2) by blast
  have "task_ok nt g (no_start_returned s) (gs_tasks ?s j)" for j
    using assms(1,3,4) by (simp add: gate_inv_def)
  then have "task_ok nt g (no_start_returned ?s) (gs_tasks ?s j)" for j using q by (rule task_ok_quiet)
  then show ?thesis using assms(5) by (simp add: gate_inv_def)
qed

lemma epoch_unseen: "gate_inv nt s \<Longrightarrow> gi_epoch (gs_gate s) = None \<Longrightarrow> no_start_returned s"
  unfolding no_start_returned_def gate_inv_def by (metis observed.simps(2) option.discI task_ok_observed)

lemma gate_inv_move:
  assumes inv: "gate_inv nt s" and m: "move_task nt i s = Some s'"
  shows "gate_inv nt s'"
proof -
  let ?g = "gs_gate s"
  obtain t g where ts: "task_step nt (gs_now s) (gs_tasks s i) ?g = Some (t, g)"
    and s': "s' = s\<lparr>gs_gate := g, gs_tasks := (gs_tasks s)(i := t)\<rparr>"
    using m by (auto simp: move_task_def split: option.splits)
  have ok: "task_ok nt ?g (no_start_returned s) (gs_tasks s j)" for j using inv by (simp add: gate_inv_def)
  have past: "e \<le> gs_now s" if "gi_epoch ?g = Some e" for e using inv that by (simp add: gate_inv_def)
  show ?thesis
  proof (cases "gs_tasks s i")
    case Starting
    show ?thesis
    proof (cases "gi_epoch ?g")
      case None
      then have "t = Captured (gs_now s)" "g = ?g\<lparr>gi_epoch := Some (gs_now s)\<rparr>" using ts Starting by (auto simp: get_or_init_def)
      then show ?thesis unfolding s' by (intro gate_inv_moveI [OF inv]) (simp_all add: task_ok_capture None)
    next
      case (Some e)
      then have "t = Captured e" "g = ?g" using ts Starting by (auto simp: get_or_init_def)
      then show ?thesis unfolding s' by (intro gate_inv_moveI [OF inv]) (simp_all add: Some past)
    qed
  next
    case (Captured e)
    then have t: "t = Started e" "g = notify_all nt ?g" using ts by auto
    have "task_ok nt ?g (no_start_returned s) (Started e)" using ok [of i] Captured by simp
    then have "task_ok nt g q (((gs_tasks s)(i := t)) j)" for q j
      using ok [of j] t task_ok_broadcast [of nt ?g "no_start_returned s"] by simp
    moreover have "gi_epoch g = gi_epoch ?g" using t by (simp add: notify_all_def)
    ultimately show ?thesis unfolding s' gate_inv_def using past by simp
  next
    case Entering
    then have "t = Created (nt_notified nt (gi_notify ?g))" "g = ?g" using ts by auto
    then show ?thesis unfolding s' by (intro gate_inv_moveI [OF inv]) (simp_all add: created_before_now past)
  next
    case (Created k)
    then have t: "t = (case gi_epoch ?g of Some e \<Rightarrow> Released e | None \<Rightarrow> Awaiting k)" "g = ?g" using ts by auto
    have "task_ok nt ?g (no_start_returned s) t"
      using ok [of i] Created t epoch_unseen [OF inv] by (auto split: option.splits)
    then show ?thesis unfolding s' t(2) by (intro gate_inv_moveI [OF inv]) (simp_all add: past t split: option.splits)
  next
    case (Awaiting k)
    then have "t = Entering" "g = ?g" using ts by (auto split: if_splits)
    then show ?thesis unfolding s' by (intro gate_inv_moveI [OF inv]) (simp_all add: past)
  qed (use ts in auto)
qed

lemma gate_inv_step: "gate_step nt s s' \<Longrightarrow> gate_inv nt s \<Longrightarrow> gate_inv nt s'"
proof (elim gate_stepE)
  fix now assume i: "gate_inv nt s" and n: "gs_now s \<le> now" and s': "s' = s\<lparr>gs_now := now\<rparr>"
  have "no_start_returned s' = no_start_returned s" by (simp add: s' no_start_returned_def)
  then show "gate_inv nt s'" using i n s' order_trans by (fastforce simp: gate_inv_def)
qed (rule gate_inv_move)

lemma gate_reachable_inv: "gate_reachable nt s \<Longrightarrow> gate_inv nt s"
  by (induction rule: gate_reachable.induct) (auto intro: gate_inv_init gate_inv_step)

lemma gate_reachable_ok:
  "gate_reachable nt s \<Longrightarrow> task_ok nt (gs_gate s) (no_start_returned s) (gs_tasks s i)"
  "gate_reachable nt s \<Longrightarrow> observed (gs_tasks s i) = Some e \<Longrightarrow> gi_epoch (gs_gate s) = Some e \<and> e \<le> gs_now s"
  using gate_reachable_inv [of nt s] task_ok_observed [of nt "gs_gate s" "no_start_returned s" "gs_tasks s i"]
  by (simp_all add: gate_inv_def)

section \<open>Properties\<close>

lemma move_task_epoch: "move_task nt i s = Some s' \<Longrightarrow> gi_epoch (gs_gate s) = Some e \<Longrightarrow> gi_epoch (gs_gate s') = Some e"
  by (cases "gs_tasks s i") (auto simp: move_task_def get_or_init_def notify_all_def split: option.splits if_splits)

lemma gate_steps_epoch: "(gate_step nt)\<^sup>*\<^sup>* s s' \<Longrightarrow> gi_epoch (gs_gate s) = Some e \<Longrightarrow> gi_epoch (gs_gate s') = Some e"
  by (induction rule: rtranclp_induct) (auto elim!: gate_stepE intro: move_task_epoch)

lemma gate_reachable_steps: "(gate_step nt)\<^sup>*\<^sup>* s s' \<Longrightarrow> gate_reachable nt s \<Longrightarrow> gate_reachable nt s'"
  by (induction rule: rtranclp_induct) (auto intro: gate_reachable.step)

text \<open>
  One epoch. Whatever start calls and waiters do, and in whatever order, every instant that a start or a
  waiter ever obtains from a gate is the same one, and it lies in the past of the task that obtains it.
\<close>

theorem gate_single_epoch:
  assumes "gate_reachable nt s" "(gate_step nt)\<^sup>*\<^sup>* s s'"
    and "observed (gs_tasks s i) = Some e" "observed (gs_tasks s' j) = Some e'"
  shows "e' = e \<and> e \<le> gs_now s"
proof -
  have e: "gi_epoch (gs_gate s) = Some e" "e \<le> gs_now s" using gate_reachable_ok(2) [OF assms(1,3)] by simp_all
  have "gi_epoch (gs_gate s') = Some e'"
    using gate_reachable_ok(2) [OF gate_reachable_steps [OF assms(2,1)] assms(4)] by simp
  then show ?thesis using e gate_steps_epoch [OF assms(2) e(1)] by simp
qed

text \<open>
  No wake-up is lost. Once some call of \<^verbatim>\<open>start\<close> has returned, every waiter, wherever it is in its loop,
  obtains the epoch in at most three steps of its own: it is never stuck in its await.
\<close>

theorem gate_no_lost_wakeup:
  assumes "notify_ok nt" "gate_reachable nt s" "gs_tasks s i = Started e" "is_waiter (gs_tasks s j)"
  shows "\<exists>n s'. n \<le> 3 \<and> run_alone nt n j s = Some s' \<and> gs_tasks s' j = Released e"
proof -
  have ep: "gi_epoch (gs_gate s) = Some e" using gate_reachable_ok(2) [OF assms(2), of i e] assms(3) by simp
  have started: "no_start_returned s = False" using assms(3) by (auto simp: no_start_returned_def)
  show ?thesis
  proof (cases "gs_tasks s j")
    case Entering
    then show ?thesis using ep by (intro exI [of _ 2]) (simp add: move_task_def numeral_2_eq_2)
  next
    case (Created k)
    then show ?thesis using ep by (intro exI [of _ 1]) (simp add: move_task_def)
  next
    case (Awaiting k)
    then have "created_before nt (gi_notify (gs_gate s)) False k" using gate_reachable_ok(1) [OF assms(2), of j] started by simp
    then have "nt_ready nt (gi_notify (gs_gate s)) k" by (rule created_before_ready [OF assms(1)])
    then show ?thesis using ep Awaiting by (intro exI [of _ 3]) (simp add: move_task_def numeral_3_eq_3)
  qed (use assms(4) in auto)
qed

text \<open>
  \<^verbatim>\<open>Notify\<close> as \<^verbatim>\<open>tokio\<close> implements it for \<^verbatim>\<open>notify_waiters\<close>: a call counter, and a future that remembers the
  count at its creation.
\<close>

definition counting :: "(nat, nat) notify" where
  "counting = \<lparr>nt_new = 0, nt_notified = id, nt_ready = (\<lambda>n k. n \<noteq> k), nt_notify_waiters = Suc\<rparr>"

lemma counting_ok: "notify_ok counting"
proof -
  have "(Suc ^^ i) n = n + i" for i n by (induction i) simp_all
  then show ?thesis by (simp add: notify_ok_def counting_def)
qed

text \<open>Task 1 awaits, task 0 starts at \<open>now\<close>, and task 1 goes on.\<close>

definition gate_demo :: "instant \<Rightarrow> (nat, nat) gate_state" where
  "gate_demo now = \<lparr>gs_gate = gate_new counting, gs_now = now, gs_tasks = (\<lambda>i. if i = 0 then Starting else Entering)\<rparr>"

lemma run_alone_steps: "run_alone nt n i s = Some s' \<Longrightarrow> (gate_step nt)\<^sup>*\<^sup>* s s'"
proof (induction n arbitrary: s)
  case (Suc n)
  then obtain t where "move_task nt i s = Some t" "run_alone nt n i t = Some s'" by (auto split: bind_splits)
  then show ?case using Suc.IH by (meson converse_rtranclp_into_rtranclp gate_step.move)
qed simp

lemma gate_demo_runs:
  obtains s s' where "gate_reachable counting s" "gs_tasks s 0 = Started now" "gs_tasks s 1 = Awaiting 0"
    "(gate_step counting)\<^sup>*\<^sup>* s s'" "gate_reachable counting s'" "gs_tasks s' 0 = Started now" "gs_tasks s' 1 = Released now"
proof -
  obtain s1 where s1: "run_alone counting 2 1 (gate_demo now) = Some s1" "gs_tasks s1 1 = Awaiting 0" "gs_tasks s1 0 = Starting"
    "gs_gate s1 = gate_new counting" "gs_now s1 = now"
    by (simp add: gate_demo_def gate_new_def counting_def move_task_def numeral_2_eq_2)
  obtain s2 where s2: "run_alone counting 2 0 s1 = Some s2" "gs_tasks s2 1 = Awaiting 0" "gs_tasks s2 0 = Started now"
    "gs_gate s2 = \<lparr>gi_epoch = Some now, gi_notify = 1\<rparr>"
    using s1 by (simp add: gate_new_def counting_def move_task_def get_or_init_def notify_all_def numeral_2_eq_2)
  obtain s3 where s3: "run_alone counting 3 1 s2 = Some s3" "gs_tasks s3 1 = Released now" "gs_tasks s3 0 = Started now"
    using s2 by (simp add: move_task_def counting_def numeral_3_eq_3)
  have "gate_reachable counting (gate_demo now)" unfolding gate_demo_def by (rule gate_reachable.init) simp
  then have "gate_reachable counting s2" "gate_reachable counting s3"
    using gate_reachable_steps run_alone_steps s1(1) s2(1) s3(1) by metis+
  then show thesis using that s2 s3 run_alone_steps [OF s3(1)] by blast
qed

theorem gate_no_lost_wakeup_witness:
  "\<exists>s n s'. gs_tasks s 0 = Started 7 \<and> gs_tasks s 1 = Awaiting 0 \<and>
     n \<le> 3 \<and> run_alone counting n 1 s = Some s' \<and> gs_tasks s' 1 = Released 7"
proof (rule gate_demo_runs [of 7])
  fix s assume s: "gate_reachable counting s" "gs_tasks s 0 = Started 7" "gs_tasks s 1 = Awaiting 0"
  have "is_waiter (gs_tasks s 1)" using s by simp
  then show ?thesis using gate_no_lost_wakeup [OF counting_ok s(1,2)] s(2,3) by blast
qed

theorem gate_single_epoch_witness:
  "\<exists>s s' e'. observed (gs_tasks s 0) = Some 7 \<and> (gate_step counting)\<^sup>*\<^sup>* s s' \<and> observed (gs_tasks s' 1) = Some e' \<and>
     e' = 7 \<and> 7 \<le> gs_now s"
proof (rule gate_demo_runs [of 7])
  fix s s' assume s: "gate_reachable counting s" "gs_tasks s 0 = Started 7" "(gate_step counting)\<^sup>*\<^sup>* s s'" "gs_tasks s' 1 = Released 7"
  then have o: "observed (gs_tasks s 0) = Some 7" "observed (gs_tasks s' 1) = Some 7" by simp_all
  then show ?thesis using gate_single_epoch [OF s(1,3) o] s(3) by blast
qed

end
