(* ===== verification/Experiment.thy ===== *)
theory Experiment
  imports DriverProps Gate
begin

text \<open>
  The experiment lifecycle, \<^verbatim>\<open>crates/eggchaos-experiment/src/experiment.rs\<close>: \<open>prepare\<close> compiles a source and
  snapshots the resources it touches, \<open>run_from_epoch\<close> drives it and reports the evidence that identifies
  the run. \<^verbatim>\<open>run\<close> obtains its epoch from a waiter of theory \<open>Gate\<close>: its argument is the instant the waiter
  was released with.
\<close>

section \<open>The lifecycle\<close>

definition MAX_EXPERIMENT_IDENTITY_BYTES :: nat where "MAX_EXPERIMENT_IDENTITY_BYTES = 128"

datatype experiment_error =
    ExperimentSchedule schedule_error
  | ExperimentTarget target_error
  | IdentityTooLong

record experiment_evidence =
  xe_compiler_semantics_version :: nat
  xe_schedule_fingerprint :: string
  xe_seed :: u64
  xe_execution_key :: u64
  xe_integration_id :: string
  xe_applied :: nat
  xe_status :: run_status
  xe_failure :: "string option"
  xe_cleanup :: cleanup_outcome

record experiment_outcome =
  xo_status :: run_status
  xo_failure :: "string option"
  xo_cleanup :: cleanup_outcome
  xo_applied :: nat
  xo_evidence :: experiment_evidence

record prepared_experiment =
  px_compiled :: compiled_scenario
  px_fingerprint :: "byte list"
  px_initial :: owned_map
  px_integration_id :: string

definition touched_resource_count :: "prepared_experiment \<Rightarrow> nat" where
  "touched_resource_count px = length (px_initial px)"

definition prepare_compiled :: "(string \<Rightarrow> byte list) \<Rightarrow> compiled_scenario \<Rightarrow> 'w target \<Rightarrow> 'w \<Rightarrow>
    (experiment_error + prepared_experiment) \<times> 'w" where
  "prepare_compiled sha256 c tg w =
     (let fp = compiled_fingerprint sha256 c
      in case prepare_initial tg c w of
           (Inl e, w1) \<Rightarrow> (Inl (ExperimentTarget e), w1)
         | (Inr initial, w1) \<Rightarrow>
             (Inr \<lparr>px_compiled = c, px_fingerprint = fp, px_initial = initial, px_integration_id = ''''\<rparr>, w1))"

definition prepare :: "(string \<Rightarrow> byte list) \<Rightarrow> schedule \<Rightarrow> 'w target \<Rightarrow> 'w \<Rightarrow>
    (experiment_error + prepared_experiment) \<times> 'w" where
  "prepare sha256 source tg w =
     (case compile_schedule source of
        Inl e \<Rightarrow> (Inl (ExperimentSchedule e), w)
      | Inr c \<Rightarrow> prepare_compiled sha256 c tg w)"

definition with_integration_id :: "string \<Rightarrow> prepared_experiment \<Rightarrow> experiment_error + prepared_experiment" where
  "with_integration_id ident px =
     (if MAX_EXPERIMENT_IDENTITY_BYTES < length ident then Inl IdentityTooLong
      else Inr (px\<lparr>px_integration_id := ident\<rparr>))"

definition run_from_epoch :: "(string \<Rightarrow> byte list) \<Rightarrow> 'w runtime \<Rightarrow> 'w target \<Rightarrow> prepared_experiment \<Rightarrow> instant \<Rightarrow> 'w \<Rightarrow>
    (experiment_outcome \<times> schedule_event_result list \<times> 'w) option" where
  "run_from_epoch sha256 rt tg px epoch w =
     (case drive sha256 rt tg (px_compiled px) (px_fingerprint px) (px_initial px) epoch w of
        None \<Rightarrow> None
      | Some (outcome, evs, w1) \<Rightarrow>
          let evidence = \<lparr>xe_compiler_semantics_version = sn_compiler_semantics_version (px_compiled px),
                xe_schedule_fingerprint = fingerprint_hex (px_fingerprint px), xe_seed = sn_seed (px_compiled px),
                xe_execution_key = sn_execution_key (px_compiled px), xe_integration_id = px_integration_id px,
                xe_applied = do_applied outcome, xe_status = do_status outcome, xe_failure = do_failure outcome,
                xe_cleanup = do_cleanup outcome\<rparr>
          in Some (\<lparr>xo_status = do_status outcome, xo_failure = do_failure outcome, xo_cleanup = do_cleanup outcome,
                    xo_applied = do_applied outcome, xo_evidence = evidence\<rparr>, evs, w1))"

text \<open>
  \<^verbatim>\<open>run_with_workload\<close>: a new gate is started, and the instant it captures is handed to the driver and to
  the workload. What the workload does while the schedule runs is part of what the world does between the
  driver's calls; the model returns the epoch the workload is given.
\<close>

definition run_with_workload :: "(string \<Rightarrow> byte list) \<Rightarrow> ('n, 'k) notify \<Rightarrow> 'w runtime \<Rightarrow> 'w target \<Rightarrow> prepared_experiment \<Rightarrow> 'w \<Rightarrow>
    (experiment_outcome \<times> instant \<times> schedule_event_result list \<times> 'w) option" where
  "run_with_workload sha256 nt rt tg px w =
     (let (now, w1) = rt_now rt w;
          (epoch, g) = gate_start nt now (gate_new nt)
      in case run_from_epoch sha256 rt tg px epoch w1 of
           None \<Rightarrow> None
         | Some (outcome, evs, w2) \<Rightarrow> Some (outcome, epoch, evs, w2))"

section \<open>Preparation\<close>

lemma unsupported_iff:
  "unsupported_resource r \<lparr>cap_stream = True, cap_datagram = False\<rparr> = None \<longleftrightarrow> sr_transport r = StreamTransport"
  by (cases "sr_transport r") (simp_all add: unsupported_resource_def)

lemma stream_snapshot_cell:
  "stream_snapshot r w =
     (case stream_cell r w of
        None \<Rightarrow> (Inl (case stream_lookup r w of Inl e \<Rightarrow> e), w)
      | Some a \<Rightarrow> (Inr \<lparr>ts_generation = generation (sw_policies w a), ts_plan = StreamPlan (pub_plan (sw_policies w a))\<rparr>, w))"
  by (auto simp: stream_snapshot_def Let_def dest: stream_lookup_cell split: sum.splits)

text \<open>The entries of a prepared map show the world as it was.\<close>

definition snapshots :: "'z stream_world_scheme \<Rightarrow> owned_map \<Rightarrow> bool" where
  "snapshots w owned = (\<forall>k entry. map_of owned k = Some entry \<longrightarrow>
     (\<exists>a. k = key_of (ow_resource entry) \<and> stream_cell (ow_resource entry) w = Some a \<and>
        ow_last_owned_generation entry = generation (sw_policies w a) \<and>
        ow_initial_plan entry = StreamPlan (pub_plan (sw_policies w a))))"

abbreviation resource_of :: "compiled_event \<Rightarrow> schedule_resource" where
  "resource_of e \<equiv> action_resource (ce_action e)"

lemma prepare_loop_stream:
  assumes "snapshots w owned" "btree_valid owned"
  shows "\<exists>r. prepare_loop stream_target \<lparr>cap_stream = True, cap_datagram = False\<rparr> es owned w = (r, w) \<and>
    ((\<exists>owned'. r = Inr owned' \<and> snapshots w owned') \<longleftrightarrow> list_all (\<lambda>e. stream_cell (resource_of e) w \<noteq> None) es) \<and>
    (\<forall>owned'. r = Inr owned' \<longrightarrow> snapshots w owned')"
  using assms
proof (induction es arbitrary: owned)
  case (Cons e es)
  let ?r = "resource_of e"
  show ?case
  proof (cases "map_of owned (key_of ?r)")
    case (Some entry)
    then have "stream_cell ?r w \<noteq> None" using Cons.prems(1) unfolding snapshots_def by (metis key_of_inj option.discI)
    then show ?thesis using Cons.IH [OF Cons.prems] Some by simp
  next
    case None
    show ?thesis
    proof (cases "stream_cell ?r w")
      case cell: None
      then have "unsupported_resource ?r \<lparr>cap_stream = True, cap_datagram = False\<rparr> \<noteq> None \<or>
          (\<exists>err. tg_snapshot stream_target ?r w = (Inl err, w))"
        by (simp add: stream_target_def stream_snapshot_cell)
      then show ?thesis using None cell
        by (cases "unsupported_resource ?r \<lparr>cap_stream = True, cap_datagram = False\<rparr>") (auto simp: Let_def)
    next
      case (Some a)
      let ?entry = "\<lparr>ow_resource = ?r, ow_last_owned_generation = generation (sw_policies w a),
        ow_initial_plan = StreamPlan (pub_plan (sw_policies w a))\<rparr>"
      have "unsupported_resource ?r \<lparr>cap_stream = True, cap_datagram = False\<rparr> = None"
        using Some by (simp add: unsupported_iff stream_cell_def split: if_splits)
      then have step: "prepare_loop stream_target \<lparr>cap_stream = True, cap_datagram = False\<rparr> (e # es) owned w =
          prepare_loop stream_target \<lparr>cap_stream = True, cap_datagram = False\<rparr> es (btree_insert (key_of ?r) ?entry owned) w"
        using None Some by (simp add: stream_target_def stream_snapshot_cell Let_def)
      have "snapshots w (btree_insert (key_of ?r) ?entry owned)"
        using Cons.prems Some by (simp add: snapshots_def map_of_btree_insert)
      then show ?thesis unfolding step using Cons.IH btree.valid_insert [OF Cons.prems(2)] Some by simp
    qed
  qed
qed simp

lemma prepare_initial_stream:
  "\<exists>r. prepare_initial stream_target c w = (r, w) \<and>
    ((\<exists>owned. r = Inr owned) \<longleftrightarrow> list_all (\<lambda>e. stream_cell (resource_of e) w \<noteq> None) (sn_events c)) \<and>
    (\<forall>owned. r = Inr owned \<longrightarrow> snapshots w owned)"
proof -
  have "snapshots w []" "btree_valid ([] :: owned_map)" by (simp_all add: snapshots_def btree_valid_def)
  moreover have "tg_capabilities stream_target w = \<lparr>cap_stream = True, cap_datagram = False\<rparr>" by (simp add: stream_target_def)
  ultimately show ?thesis using prepare_loop_stream [of w "[]" "sn_events c"] unfolding prepare_initial_def by auto
qed

lemma prepareD:
  assumes "prepare sha256 source tg w = (Inr px, w1)"
  shows "schedule_ok source" "px_compiled px = reference_tape source"
    "px_fingerprint px = compiled_fingerprint sha256 (reference_tape source)" "px_integration_id px = ''''"
    "prepare_initial tg (reference_tape source) w = (Inr (px_initial px), w1)"
proof -
  obtain c where "compile_schedule source = Inr c" using assms by (auto simp: prepare_def split: sum.splits)
  then have c: "schedule_ok source" "compile_schedule source = Inr (reference_tape source)" by (simp_all add: compile_schedule_iff)
  then show "schedule_ok source" by simp
  show "px_compiled px = reference_tape source"
    "px_fingerprint px = compiled_fingerprint sha256 (reference_tape source)" "px_integration_id px = ''''"
    "prepare_initial tg (reference_tape source) w = (Inr (px_initial px), w1)"
    using assms c(2) by (auto simp: prepare_def prepare_compiled_def Let_def split: prod.splits sum.splits)
qed

text \<open>
  Preparation looks and does not touch. On the stream target it publishes nothing, whatever it returns. It
  succeeds exactly when the source is well formed and every event acts on a registered stream resource, and
  the snapshots it keeps are the plans and generations of that moment.
\<close>

theorem prepare_checks:
  "snd (prepare sha256 source stream_target w) = w \<and>
   ((\<exists>px. fst (prepare sha256 source stream_target w) = Inr px) \<longleftrightarrow>
      schedule_ok source \<and> list_all (\<lambda>e. stream_cell (action_resource (ce_action e)) w \<noteq> None) (sn_events (reference_tape source))) \<and>
   (case fst (prepare sha256 source stream_target w) of
      Inr px \<Rightarrow> px_compiled px = reference_tape source \<and> snapshots w (px_initial px)
    | Inl (ExperimentSchedule e) \<Rightarrow> compile_schedule source = Inl e
    | Inl (ExperimentTarget e) \<Rightarrow> schedule_ok source
    | Inl IdentityTooLong \<Rightarrow> False)"
proof (cases "compile_schedule source")
  case (Inl e)
  then have "\<not> schedule_ok source" using compile_schedule_iff [of source "reference_tape source"] by simp
  then show ?thesis using Inl by (simp add: prepare_def)
next
  case (Inr c)
  then have c: "schedule_ok source" "c = reference_tape source" by (simp_all add: compile_schedule_iff)
  obtain r where r: "prepare_initial stream_target c w = (r, w)"
    "(\<exists>owned. r = Inr owned) \<longleftrightarrow> list_all (\<lambda>e. stream_cell (resource_of e) w \<noteq> None) (sn_events c)"
    "\<And>owned. r = Inr owned \<Longrightarrow> snapshots w owned" using prepare_initial_stream by blast
  show ?thesis using Inr c r by (cases r) (simp_all add: prepare_def prepare_compiled_def Let_def)
qed

section \<open>Evidence\<close>

lemma run_from_epochD:
  assumes "run_from_epoch sha256 rt tg px epoch w = Some (outcome, evs, w')"
  obtains dout where "drive sha256 rt tg (px_compiled px) (px_fingerprint px) (px_initial px) epoch w = Some (dout, evs, w')"
    "xo_applied outcome = do_applied dout" "xo_status outcome = do_status dout" "xo_failure outcome = do_failure dout"
    "xo_evidence outcome = \<lparr>xe_compiler_semantics_version = sn_compiler_semantics_version (px_compiled px),
       xe_schedule_fingerprint = fingerprint_hex (px_fingerprint px), xe_seed = sn_seed (px_compiled px),
       xe_execution_key = sn_execution_key (px_compiled px), xe_integration_id = px_integration_id px,
       xe_applied = do_applied dout, xe_status = do_status dout, xe_failure = do_failure dout, xe_cleanup = do_cleanup dout\<rparr>"
  using assms by (auto simp: run_from_epoch_def Let_def split: option.splits prod.splits)

lemma with_integration_idD:
  "with_integration_id ident px = Inr px' \<Longrightarrow> px' = px\<lparr>px_integration_id := ident\<rparr> \<and> length ident \<le> 128"
  by (auto simp: with_integration_id_def MAX_EXPERIMENT_IDENTITY_BYTES_def split: if_splits)

lemma reference_tape_identity:
  "sn_seed (reference_tape source) = sc_seed source" "sn_execution_key (reference_tape source) = sc_execution_key source"
  by (simp_all add: reference_tape_def)

text \<open>Offsets of an accepted source fit 64 bits.\<close>

lemma reference_offsets: "schedule_ok source \<Longrightarrow> list_all (\<lambda>e. ce_offset_ns e \<le> U64_MAX) (sn_events (reference_tape source))"
proof -
  assume ok: "schedule_ok source"
  have "fst (snd ev) \<le> U64_MAX" if "ev \<in> set (timeline 0 (expansion source))" for ev
    using timeline_bounds [OF that] ok by (simp add: schedule_ok_def)
  then have "list_all (\<lambda>t. t \<le> U64_MAX) (map ce_offset_ns (sn_events (reference_tape source)))"
    by (simp add: reference_tape_def numbered_fields list.pred_map comp_def list_all_iff)
  then show ?thesis by (simp add: list.pred_map comp_def)
qed

end
