(* ===== verification/ServerTarget.thy ===== *)
theory ServerTarget
  imports Plane Experiment
begin

text \<open>
  The server side of version 2 schedules: \<^verbatim>\<open>crates/eggchaos-server/src/scenario_v2/runtime.rs\<close>, which adapts the
  control plane to the contract of the schedule driver and keeps the run record, and the entry points
  \<^verbatim>\<open>start_schedule_v2\<close>, \<^verbatim>\<open>cancel_schedule_v2\<close> and their helpers in \<^verbatim>\<open>runtime/control.rs\<close>.

  As in \<open>Plane\<close>, everything is written over the atomic operations of the control plane, here the record
  \<open>server_api\<close>, so the same definitions describe undisturbed and disturbed runs. The driver itself is \<open>drive\<close> of
  theory \<open>Driver\<close>. Its sink is the list of recorded events; they are appended to the run record in the same
  order after the driver returns, which no operation of the driver can tell from appending them one by one
  because no target operation reads run records.
\<close>

section \<open>The operations the server uses\<close>

record 'w server_api =
  sv_control :: "'w control_api"
  sv_current_generations :: "string \<Rightarrow> 'w \<Rightarrow> (nat \<times> nat) option \<times> 'w"
  sv_update_v2 :: "nat \<Rightarrow> (schedule_run_record \<Rightarrow> schedule_run_record) \<Rightarrow> 'w \<Rightarrow> bool \<times> 'w"
  sv_drop_token_v2 :: "nat \<Rightarrow> 'w \<Rightarrow> unit \<times> 'w"
  sv_admit_v2 :: "nat \<Rightarrow> schedule_run_record \<Rightarrow> token \<Rightarrow> 'w \<Rightarrow> (admit_error + unit) \<times> 'w"
  sv_take_token_v2 :: "nat \<Rightarrow> 'w \<Rightarrow> token option \<times> 'w"
  sv_get_v2 :: "nat \<Rightarrow> 'w \<Rightarrow> schedule_run_record option \<times> 'w"
  sv_count :: "nat \<Rightarrow> nat \<Rightarrow> nat \<Rightarrow> 'w \<Rightarrow> unit \<times> 'w"

text \<open>The plane with the three counters of version 2 runs.\<close>

record server = plane +
  sv_runs :: nat
  sv_events :: nat
  sv_late_events :: nat

definition in_registry :: "(scenario_registry \<Rightarrow> 'a \<times> scenario_registry) \<Rightarrow> 'z plane_scheme \<Rightarrow> 'a \<times> 'z plane_scheme" where
  "in_registry f w = (let (x, reg) = f (pl_registry w) in (x, w\<lparr>pl_registry := reg\<rparr>))"

definition count_metrics :: "nat \<Rightarrow> nat \<Rightarrow> nat \<Rightarrow> 'z server_scheme \<Rightarrow> unit \<times> 'z server_scheme" where
  "count_metrics runs evs late w =
     ((), w\<lparr>sv_runs := (sv_runs w + runs) mod 2 ^ 64, sv_events := (sv_events w + evs) mod 2 ^ 64,
            sv_late_events := (sv_late_events w + late) mod 2 ^ 64\<rparr>)"

definition plane_server :: "'z server_scheme server_api" where
  "plane_server =
     \<lparr>sv_control = plane_api,
      sv_current_generations = (\<lambda>name w. (current_generations name w, w)),
      sv_update_v2 = (\<lambda>run_id upd. in_registry (update_v2 run_id upd)),
      sv_drop_token_v2 = (\<lambda>run_id. in_registry (\<lambda>reg. ((), drop_token_v2 run_id reg))),
      sv_admit_v2 = (\<lambda>run_id r t. in_registry (admit_v2_with_token run_id r t)),
      sv_take_token_v2 = (\<lambda>run_id. in_registry (take_token_v2 run_id)),
      sv_get_v2 = (\<lambda>run_id w. (get_v2 run_id (pl_registry w), w)),
      sv_count = count_metrics\<rparr>"

lemma plane_server_simps [simp]:
  "sv_control plane_server = plane_api"
  "sv_current_generations plane_server name w = (current_generations name w, w)"
  "sv_update_v2 plane_server run_id upd = in_registry (update_v2 run_id upd)"
  "sv_drop_token_v2 plane_server run_id = in_registry (\<lambda>reg. ((), drop_token_v2 run_id reg))"
  "sv_admit_v2 plane_server run_id r t = in_registry (admit_v2_with_token run_id r t)"
  "sv_take_token_v2 plane_server run_id = in_registry (take_token_v2 run_id)"
  "sv_get_v2 plane_server run_id w = (get_v2 run_id (pl_registry w), w)"
  "sv_count plane_server = count_metrics"
  by (simp_all add: plane_server_def)

text \<open>Other tasks may act before every operation.\<close>

definition shared_server :: "'w server_api \<Rightarrow> ('w \<times> ('w \<Rightarrow> 'w) list) server_api" where
  "shared_server s =
     \<lparr>sv_control = shared_api (sv_control s),
      sv_current_generations = (\<lambda>name. disturbed (sv_current_generations s name)),
      sv_update_v2 = (\<lambda>run_id upd. disturbed (sv_update_v2 s run_id upd)),
      sv_drop_token_v2 = (\<lambda>run_id. disturbed (sv_drop_token_v2 s run_id)),
      sv_admit_v2 = (\<lambda>run_id r t. disturbed (sv_admit_v2 s run_id r t)),
      sv_take_token_v2 = (\<lambda>run_id. disturbed (sv_take_token_v2 s run_id)),
      sv_get_v2 = (\<lambda>run_id. disturbed (sv_get_v2 s run_id)),
      sv_count = (\<lambda>runs evs late. disturbed (sv_count s runs evs late))\<rparr>"

section \<open>The control plane as a target\<close>

definition server_snapshot :: "'w server_api \<Rightarrow> schedule_resource \<Rightarrow> 'w \<Rightarrow> (target_error + target_snapshot) \<times> 'w" where
  "server_snapshot s r w =
     (case sr_transport r of
        StreamTransport \<Rightarrow>
          (case api_snapshot_policies (sv_control s) (sr_proxy r) w of
             (None, w1) \<Rightarrow> (Inl (target_missing (''stream proxy '' @ sr_proxy r @ '' not found'')), w1)
           | (Some (upstream, downstream), w1) \<Rightarrow>
               let p = (case sr_direction r of Upstream \<Rightarrow> upstream | Downstream \<Rightarrow> downstream)
               in (Inr \<lparr>ts_generation = generation p, ts_plan = StreamPlan (pub_plan p)\<rparr>, w1))
      | DatagramTransport \<Rightarrow>
          (case get_datagram_plan (sv_control s) (sr_proxy r) (sr_direction r) w of
             (Inl _, w1) \<Rightarrow> (Inl (target_missing (''datagram proxy '' @ sr_proxy r @ '' not found'')), w1)
           | (Inr (plan, g, _), w1) \<Rightarrow> (Inr \<lparr>ts_generation = g, ts_plan = DatagramPlan plan\<rparr>, w1)))"

definition server_current_generation :: "'w server_api \<Rightarrow> schedule_resource \<Rightarrow> 'w \<Rightarrow> (target_error + nat) \<times> 'w" where
  "server_current_generation s r w =
     (case sr_transport r of
        StreamTransport \<Rightarrow>
          (case sv_current_generations s (sr_proxy r) w of
             (None, w1) \<Rightarrow> (Inl (target_missing (''stream proxy '' @ sr_proxy r @ '' not found'')), w1)
           | (Some (upstream, downstream), w1) \<Rightarrow>
               (Inr (case sr_direction r of Upstream \<Rightarrow> upstream | Downstream \<Rightarrow> downstream), w1))
      | DatagramTransport \<Rightarrow>
          (case datagram_current_generations (sv_control s) (sr_proxy r) w of
             (None, w1) \<Rightarrow> (Inl (target_missing (''datagram proxy '' @ sr_proxy r @ '' not found'')), w1)
           | (Some (upstream, downstream), w1) \<Rightarrow>
               (Inr (case sr_direction r of Upstream \<Rightarrow> upstream | Downstream \<Rightarrow> downstream), w1)))"

fun map_publish_error :: "'w server_api \<Rightarrow> schedule_resource \<Rightarrow> nat \<Rightarrow> control_error \<Rightarrow> 'w \<Rightarrow> target_error \<times> 'w" where
  "map_publish_error s r expected (NotFound _) w = (target_missing (''proxy '' @ sr_proxy r @ '' not found''), w)"
| "map_publish_error s r expected (ControlInvalid detail) w = (target_invalid detail, w)"
| "map_publish_error s r expected (ControlConflict _) w =
     (case server_current_generation s r w of
        (Inl _, w1) \<Rightarrow> (GenerationConflict expected expected, w1)
      | (Inr found, w1) \<Rightarrow> (GenerationConflict expected found, w1))"
| "map_publish_error s r expected (BindFailed _ reason) w = (target_internal reason, w)"
| "map_publish_error s r expected (RestartFailed _ reason) w = (target_internal reason, w)"

definition server_publish :: "'w server_api \<Rightarrow> schedule_resource \<Rightarrow> nat \<Rightarrow> target_plan \<Rightarrow> u64 \<Rightarrow> 'w \<Rightarrow> (target_error + nat) \<times> 'w" where
  "server_publish s r expected plan ns w =
     (case (plan, sr_transport r) of
        (StreamPlan p, StreamTransport) \<Rightarrow>
          (case api_publish_direction (sv_control s) (sr_proxy r) (sr_direction r) p ns expected w of
             (Inr (_, g), w1) \<Rightarrow> (Inr g, w1)
           | (Inl e, w1) \<Rightarrow> (let (err, w2) = map_publish_error s r expected e w1 in (Inl err, w2)))
      | (DatagramPlan p, DatagramTransport) \<Rightarrow>
          (case publish_datagram_plan (sv_control s) (sr_proxy r) (sr_direction r) p ns (Some expected) w of
             (Inr _, w1) \<Rightarrow>
               (case get_datagram_plan (sv_control s) (sr_proxy r) (sr_direction r) w1 of
                  (Inl e, w2) \<Rightarrow> (Inl (target_missing (control_error_display e)), w2)
                | (Inr (_, g, _), w2) \<Rightarrow> (Inr g, w2))
           | (Inl e, w1) \<Rightarrow> (let (err, w2) = map_publish_error s r expected e w1 in (Inl err, w2)))
      | _ \<Rightarrow> (Inl (target_unsupported ''plan/transport mismatch''), w))"

definition server_target :: "'w server_api \<Rightarrow> 'w target" where
  "server_target s =
     \<lparr>tg_capabilities = (\<lambda>w. \<lparr>cap_stream = True, cap_datagram = True\<rparr>),
      tg_snapshot = server_snapshot s, tg_current_generation = server_current_generation s,
      tg_publish = server_publish s, tg_global_generation = api_generation (sv_control s)\<rparr>"

section \<open>Runs\<close>

definition append_schedule_v2_event :: "'w server_api \<Rightarrow> nat \<Rightarrow> schedule_event_result \<Rightarrow> 'w \<Rightarrow> bool \<times> 'w" where
  "append_schedule_v2_event s run_id ev w =
     (let (applied, w1) = sv_update_v2 s run_id (\<lambda>r. r\<lparr>sx_applied := sx_applied r + 1, sx_events := sx_events r @ [ev]\<rparr>) w in
      if \<not> applied then (False, w1)
      else let (_, w2) = sv_count s 0 1 (if 0 < er_late_by_ns ev then 1 else 0) w1 in (True, w2))"

definition run_record_sink :: "'w server_api \<Rightarrow> nat \<Rightarrow> schedule_event_result list \<Rightarrow> 'w \<Rightarrow> 'w" where
  "run_record_sink s run_id evs w = fold (\<lambda>ev w. snd (append_schedule_v2_event s run_id ev w)) evs w"

fun schedule_error_display :: "schedule_error \<Rightarrow> string" where
  "schedule_error_display (UnsupportedVersion v) = ''unsupported schedule version: '' @ dec v"
| "schedule_error_display (TooManyCompiledEvents n) =
     ''compiled event count exceeds ceiling: have '' @ dec n @ '', ceiling '' @ dec MAX_COMPILED_EVENTS"
| "schedule_error_display (RepeatOutOfRange n) =
     ''repeat count must be in 1..='' @ dec MAX_REPEAT_COUNT @ '' (got '' @ dec n @ '')''"
| "schedule_error_display (TooManyPhases n) = ''phase count must be at most '' @ dec MAX_PHASES @ '' (got '' @ dec n @ '')''"
| "schedule_error_display (TooManyRepeatPhases n) =
     ''repeat-block phases must be at most '' @ dec MAX_PHASES @ '' (got '' @ dec n @ '')''"
| "schedule_error_display (TooManyPhaseActions n) =
     ''phase actions must be at most '' @ dec MAX_PHASE_ACTIONS @ '' per phase (got '' @ dec n @ '')''"
| "schedule_error_display InvalidPhaseName = ''phase name must be 1..=128 bytes when provided''"
| "schedule_error_display OffsetOverflow = ''phase offset overflows u64''"
| "schedule_error_display EmptyPhase = ''phase has no actions''"
| "schedule_error_display EmptySchedule = ''schedule has no phases and no repeat phases''"
| "schedule_error_display (InvalidStreamPlan e) = ''invalid stream plan: '' @ e"
| "schedule_error_display (InvalidDatagramPlan e) = ''invalid datagram plan: '' @ e"

fun experiment_error_display :: "experiment_error \<Rightarrow> string" where
  "experiment_error_display (ExperimentSchedule e) = schedule_error_display e"
| "experiment_error_display (ExperimentTarget e) = target_error_display e"
| "experiment_error_display IdentityTooLong = ''integration identity exceeds 128 bytes''"

definition drive_schedule_v2_run :: "(string \<Rightarrow> byte list) \<Rightarrow> (token \<Rightarrow> 'w runtime) \<Rightarrow> 'w server_api \<Rightarrow> nat \<Rightarrow>
    compiled_scenario \<Rightarrow> token \<Rightarrow> 'w \<Rightarrow> 'w option" where
  "drive_schedule_v2_run sha256 rt s run_id c t w =
     (let (_, w1) = sv_update_v2 s run_id (\<lambda>r. r\<lparr>sx_status := Running\<rparr>) w;
          (epoch, w2) = rt_now (rt t) w1
      in case prepare_compiled sha256 c (server_target s) w2 of
           (Inl e, w3) \<Rightarrow>
             let (_, w4) = sv_update_v2 s run_id (\<lambda>r. r\<lparr>sx_status := Failed, sx_failure := Some (experiment_error_display e),
                     sx_cleanup := Some \<lparr>co_policy = sn_cleanup c, co_resources = []\<rparr>\<rparr>) w3;
                 (_, w5) = sv_drop_token_v2 s run_id w4
             in Some w5
         | (Inr prepared, w3) \<Rightarrow>
             (case run_from_epoch sha256 (rt t) (server_target s) prepared epoch w3 of
                None \<Rightarrow> None
              | Some (outcome, evs, w4) \<Rightarrow>
                  let w5 = run_record_sink s run_id evs w4;
                      (_, w6) = sv_update_v2 s run_id (\<lambda>r. let r' = r\<lparr>sx_status := xo_status outcome, sx_applied := xo_applied outcome\<rparr>
                          in if xo_status outcome = Failed then r'\<lparr>sx_failure := xo_failure outcome\<rparr> else r') w5;
                      (_, w7) = sv_update_v2 s run_id (\<lambda>r. r\<lparr>sx_cleanup := Some (xo_cleanup outcome)\<rparr>) w6;
                      (_, w8) = sv_drop_token_v2 s run_id w7
                  in Some w8))"

text \<open>The result carries the compiled tape and the token, with which the caller spawns \<open>drive_schedule_v2_run\<close>.\<close>

definition start_schedule_v2 :: "(string \<Rightarrow> byte list) \<Rightarrow> 'w server_api \<Rightarrow> schedule \<Rightarrow> 'w \<Rightarrow>
    (eggchaos_error + schedule_run_record \<times> compiled_scenario \<times> token) \<times> 'w" where
  "start_schedule_v2 sha256 s source w =
     (case compile_schedule source of
        Inl e \<Rightarrow> (Inl (ControlFailure (ControlInvalid (schedule_error_display e))), w)
      | Inr c \<Rightarrow>
          let (run_id, w1) = api_next_run_id (sv_control s) w;
              r = \<lparr>sx_run_id = run_id, sx_seed = sc_seed source, sx_execution_key = sc_execution_key source,
                   sx_fingerprint = compiled_fingerprint sha256 c, sx_compiler_version = sn_compiler_semantics_version c,
                   sx_isolation = sc_isolation source, sx_cleanup_policy = sc_cleanup source, sx_status = RunPending,
                   sx_applied = 0, sx_failure = None, sx_events = [], sx_cleanup = None\<rparr>;
              (t, w2) = api_child_token (sv_control s) w1
          in case sv_admit_v2 s run_id r t w2 of
               (Inl _, w3) \<Rightarrow> (Inl (ControlFailure (ControlConflict ''too many active scenario runs'')), w3)
             | (Inr _, w3) \<Rightarrow> let (_, w4) = sv_count s 1 0 0 w3 in (Inr (r, c, t), w4))"

definition cancel_schedule_v2 :: "'w server_api \<Rightarrow> nat \<Rightarrow> 'w \<Rightarrow> schedule_run_record option \<times> 'w" where
  "cancel_schedule_v2 s run_id w =
     (case sv_take_token_v2 s run_id w of
        (None, w1) \<Rightarrow> sv_get_v2 s run_id w1
      | (Some t, w1) \<Rightarrow>
          let (_, w2) = api_cancel (sv_control s) t w1;
              (_, w3) = sv_update_v2 s run_id
                (\<lambda>r. if sx_status r = RunPending \<or> sx_status r = Running then r\<lparr>sx_status := Cancelling\<rparr> else r) w2
          in sv_get_v2 s run_id w3)"

section \<open>The contract, undisturbed\<close>

lemma publish_direction_next:
  assumes "publish_direction_expected name dir plan ns expected c = (Inr (g, h), c')" "expected \<le> U64_MAX"
  shows "h = expected + 1 \<and> h \<le> U64_MAX"
  using assms by (auto simp: publish_direction_expected_def publish_expected_def next_policy_def sat_add64_def Let_def
      split: option.splits sum.splits prod.splits if_splits)

lemma publish_datagram_then_read:
  assumes "publish_datagram_plan plane_api name dir plan ns (Some expected) w = (Inr g, w1)" "expected \<le> U64_MAX"
    "get_datagram_plan plane_api name dir w1 = (Inr (q, h, seed), w2)"
  shows "h = expected + 1 \<and> h \<le> U64_MAX"
proof -
  obtain g1 wa where pub: "publish_fault_plan name dir plan ns (Some expected) w = (Inr g1, wa)"
      and w1: "w1 = snd (next_generation wa)"
    using assms(1) by (auto simp: publish_datagram_plan_def split: sum.splits prod.splits)
  then obtain p where p: "map_of (pl_datagrams w) name = Some p" "generation (datagram_policy dir p) = expected" "expected \<noteq> U64_MAX"
      "wa = w\<lparr>pl_datagrams := AList.update name (set_datagram_policy dir (next_policy plan ns (datagram_policy dir p)) p) (pl_datagrams w)\<rparr>"
    by (auto simp: publish_fault_plan_def datagram_publish_def Let_def split: sum.splits option.splits if_splits prod.splits)
  have "pl_datagrams w1 = pl_datagrams wa" by (simp add: w1 next_generation_def Let_def)
  then show ?thesis using assms(2,3) p
    by (cases dir) (auto simp: get_datagram_plan_def fault_plan_def Let_def AList.update_conv' next_policy_def sat_add64_def)
qed

interpretation server: policy_target "server_target (plane_server :: 'z server_scheme server_api)"
proof
  fix r expected plan ns g and w w' :: "'z server_scheme"
  assume run: "tg_publish (server_target plane_server) r expected plan ns w = (Inr g, w')" and le: "expected \<le> U64_MAX"
  show "g = expected + 1 \<and> g \<le> U64_MAX"
  proof (cases plan)
    case (StreamPlan p)
    then show ?thesis using run le publish_direction_next
      by (fastforce simp: server_target_def server_publish_def
          split: schedule_transport.splits sum.splits prod.splits)
  next
    case (DatagramPlan p)
    then show ?thesis using run le publish_datagram_then_read
      by (fastforce simp: server_target_def server_publish_def
          split: schedule_transport.splits sum.splits prod.splits)
  qed
qed

end
