(* ===== verification/ServerRuns.thy ===== *)
theory ServerRuns
  imports ServerTarget ControlProps
begin

text \<open>
  What version 2 runs of the server guarantee. A frame interface says which part of the world a target leaves
  alone; the driver then leaves it alone too. With it the run record of a server run is determined by the
  outcome of the driver. The contract of the driver holds for the undisturbed server, and with other tasks at work for
  its stream resources; for datagram resources it does not.
\<close>

section \<open>Frames\<close>

definition runtime_keeps :: "'w runtime \<Rightarrow> ('w \<Rightarrow> 'b) \<Rightarrow> bool" where
  "runtime_keeps rt f = (\<forall>w d. f (snd (rt_now rt w)) = f w \<and> f (snd (rt_is_cancelled rt w)) = f w \<and>
     f (snd (rt_sleep_until rt d w)) = f w \<and> (\<forall>w'. rt_cancelled rt w = Some w' \<longrightarrow> f w' = f w))"

lemma runtime_keepsD:
  assumes "runtime_keeps rt f"
  shows "rt_now rt w = (x, w') \<Longrightarrow> f w' = f w" "rt_is_cancelled rt w = (y, w') \<Longrightarrow> f w' = f w"
    "rt_sleep_until rt d w = (z, w') \<Longrightarrow> f w' = f w" "rt_cancelled rt w = Some w' \<Longrightarrow> f w' = f w"
  using assms unfolding runtime_keeps_def by (metis snd_conv)+

locale framed_target =
  fixes tg :: "'w target" and f :: "'w \<Rightarrow> 'b"
  assumes snapshot_keeps: "tg_snapshot tg r w = (s, w') \<Longrightarrow> f w' = f w"
    and current_generation_keeps: "tg_current_generation tg r w = (g, w') \<Longrightarrow> f w' = f w"
    and publish_keeps: "tg_publish tg r expected plan ns w = (h, w') \<Longrightarrow> f w' = f w"
    and global_generation_keeps: "tg_global_generation tg w = (g', w') \<Longrightarrow> f w' = f w"
begin

lemmas keeps = snapshot_keeps current_generation_keeps publish_keeps global_generation_keeps

lemma set_request_keeps: "set_request tg strict owned kind r plan w = (res, w') \<Longrightarrow> f w' = f w"
  by (auto simp: set_request_def expected_generation_def dest: keeps split: prod.splits sum.splits option.splits)

lemma event_request_keeps: "event_request tg strict owned a w = (res, w') \<Longrightarrow> f w' = f w"
  by (cases a) (auto simp: remove_request_def dest!: set_request_keeps keeps split: prod.splits sum.splits if_splits)

lemma evidence_gens_keeps: "evidence_gens tg r g w = (res, w') \<Longrightarrow> f w' = f w"
  by (auto simp: evidence_gens_def directional_gens_def dest: keeps split: schedule_transport.splits prod.splits sum.splits)

lemma apply_event_keeps:
  assumes "apply_event rt tg c fp epoch e owned w = (res, owned', w')" "runtime_keeps rt f"
  shows "f w' = f w"
  using assms(1) by (auto simp: apply_event_def Let_def
      dest!: runtime_keepsD(1) [OF assms(2)] event_request_keeps evidence_gens_keeps publish_keeps global_generation_keeps
      split: prod.splits sum.splits)

lemma wait_for_deadline_keeps:
  assumes "wait_for_deadline rt epoch offset w = Some (ok, w')" "runtime_keeps rt f"
  shows "f w' = f w"
  using assms(1) by (auto simp: wait_for_deadline_def Let_def dest!: runtime_keepsD [OF assms(2)]
      split: prod.splits option.splits if_splits)

lemma drive_loop_keeps:
  assumes "runtime_keeps rt f"
  shows "drive_loop rt tg c fp epoch es out owned w = Some (l, w') \<Longrightarrow> f w' = f w"
proof (induction es arbitrary: out owned w)
  case (Cons e es)
  from Cons.prems show ?case
    by (auto simp: Let_def dest!: Cons.IH runtime_keepsD(2) [OF assms] wait_for_deadline_keeps [OF _ assms] apply_event_keeps [OF _ assms]
        split: prod.splits option.splits bool.splits sum.splits if_splits)
qed simp

lemma restore_target_keeps: "restore_target tg entry ns w = (outcome, w') \<Longrightarrow> f w' = f w"
  by (auto simp: restore_target_def dest!: keeps split: prod.splits sum.splits if_splits)

lemma cleanup_loop_keeps: "cleanup_loop tg policy ns owned w = (records, w') \<Longrightarrow> f w' = f w"
proof (induction owned arbitrary: w records)
  case (Cons x owned)
  obtain key entry where x: "x = (key, entry)" by (cases x)
  obtain outcome w1 where step: "(case policy of Leave \<Rightarrow> (NotRequested, w) | RestoreInitial \<Rightarrow> restore_target tg entry ns w) = (outcome, w1)"
    by fastforce
  then have "f w1 = f w" by (cases policy) (auto dest: restore_target_keeps)
  moreover obtain rest where "cleanup_loop tg policy ns owned w1 = (rest, w')"
    using Cons.prems step x by (auto split: prod.splits)
  ultimately show ?case using Cons.IH by simp
qed simp

lemma drive_keeps:
  assumes "drive sha256 rt tg c fp owned epoch w = Some (outcome, evs, w')" "runtime_keeps rt f"
  shows "f w' = f w"
  using assms(1) by (auto simp: drive_def run_cleanup_def Let_def dest!: drive_loop_keeps [OF assms(2)] cleanup_loop_keeps
      split: option.splits prod.splits)

lemma prepare_loop_keeps: "prepare_loop tg caps es owned w = (res, w') \<Longrightarrow> f w' = f w"
proof (induction es arbitrary: owned w)
  case (Cons e es)
  then show ?case by (auto simp: Let_def dest!: Cons.IH snapshot_keeps split: prod.splits sum.splits option.splits if_splits)
qed simp

lemma prepare_keeps: "prepare_compiled sha256 c tg w = (res, w') \<Longrightarrow> f w' = f w"
  by (auto simp: prepare_compiled_def prepare_initial_def Let_def dest!: prepare_loop_keeps split: prod.splits sum.splits)

lemma run_from_epoch_keeps:
  assumes "run_from_epoch sha256 rt tg px epoch w = Some (outcome, evs, w')" "runtime_keeps rt f"
  shows "f w' = f w"
  using assms(1) by (auto simp: run_from_epoch_def Let_def dest!: drive_keeps [OF _ assms(2)] split: option.splits prod.splits)

end

lemma publish_fault_plan_registry: "publish_fault_plan name dir plan ns expected w = (res, w') \<Longrightarrow> pl_registry w' = pl_registry w"
  by (auto simp: publish_fault_plan_def Let_def split: sum.splits option.splits if_splits prod.splits)

lemma publish_direction_registry:
  "publish_direction_expected name dir plan ns expected (w :: 'z plane_scheme) = (res, w') \<Longrightarrow> pl_registry w' = pl_registry w"
  by (auto simp: publish_direction_expected_def adjust_spec_def next_generation_def Let_def split: sum.splits option.splits prod.splits)

lemma get_datagram_plan_registry: "get_datagram_plan plane_api name dir w = (res, w') \<Longrightarrow> w' = w"
  by (auto simp: get_datagram_plan_def split: prod.splits)

lemma publish_datagram_plan_registry:
  "publish_datagram_plan plane_api name dir plan ns expected w = (res, w') \<Longrightarrow> pl_registry w' = pl_registry w"
  by (auto simp: publish_datagram_plan_def next_generation_def Let_def dest!: publish_fault_plan_registry
      split: prod.splits sum.splits)

lemma server_current_generation_same: "server_current_generation plane_server r w = (res, w') \<Longrightarrow> w' = w"
  by (auto simp: server_current_generation_def datagram_current_generations_def
      split: schedule_transport.splits prod.splits option.splits)

lemma map_publish_error_same: "map_publish_error plane_server r expected e w = (res, w') \<Longrightarrow> w' = w"
  by (cases e) (auto dest!: server_current_generation_same split: prod.splits sum.splits)

interpretation server_frame: framed_target "server_target (plane_server :: 'z server_scheme server_api)" pl_registry
proof
  fix r :: schedule_resource and w w' :: "'z server_scheme"
  show "pl_registry w' = pl_registry w" if "tg_snapshot (server_target plane_server) r w = (s, w')" for s
    using that by (auto simp: server_target_def server_snapshot_def Let_def dest!: get_datagram_plan_registry
        split: schedule_transport.splits prod.splits sum.splits option.splits)
  show "pl_registry w' = pl_registry w" if "tg_current_generation (server_target plane_server) r w = (g, w')" for g
    using that by (auto simp: server_target_def dest: server_current_generation_same)
  show "pl_registry w' = pl_registry w" if "tg_publish (server_target plane_server) r expected plan ns w = (h, w')" for expected plan ns h
    using that by (auto simp: server_target_def server_publish_def Let_def
        dest!: publish_direction_registry publish_datagram_plan_registry get_datagram_plan_registry map_publish_error_same
        split: target_plan.splits schedule_transport.splits prod.splits sum.splits)
  show "pl_registry w' = pl_registry w" if "tg_global_generation (server_target plane_server) w = (g, w')" for g
    using that by (auto simp: server_target_def)
qed

section \<open>Run records\<close>

definition record_is :: "nat \<Rightarrow> schedule_run_record \<Rightarrow> 'z plane_scheme \<Rightarrow> bool" where
  "record_is run_id r w = (get_v2 run_id (pl_registry w) = Some r)"

lemma record_updated: "record_is run_id r w \<Longrightarrow> record_is run_id (upd r) (snd (in_registry (update_v2 run_id upd) w))"
  by (simp add: record_is_def in_registry_def update_v2_def get_v2_def map_of_btree_adjust)

lemma record_known: "record_is run_id r w \<Longrightarrow> fst (in_registry (update_v2 run_id upd) w)"
  by (simp add: record_is_def in_registry_def update_v2_def get_v2_def)

lemma record_token_dropped:
  "record_is run_id r w \<Longrightarrow> record_is run_id r (snd (in_registry (\<lambda>reg. ((), drop_token_v2 run_id reg)) w))"
  "map_of (v2_tokens (pl_registry (snd (in_registry (\<lambda>reg. ((), drop_token_v2 run_id reg)) w)))) run_id = None"
  by (simp_all add: record_is_def in_registry_def drop_token_v2_def get_v2_def AList.delete_conv')

lemma record_counted [simp]: "record_is run_id r (snd (count_metrics a b d w)) = record_is run_id r w"
  by (simp add: record_is_def count_metrics_def)

lemma record_appended:
  assumes "record_is run_id r w"
  shows "record_is run_id (r\<lparr>sx_applied := sx_applied r + 1, sx_events := sx_events r @ [ev]\<rparr>)
    (snd (append_schedule_v2_event plane_server run_id ev w))"
  using record_known [OF assms] record_updated [OF assms, of "\<lambda>r. r\<lparr>sx_applied := sx_applied r + 1, sx_events := sx_events r @ [ev]\<rparr>"]
  by (simp add: append_schedule_v2_event_def case_prod_unfold Let_def)

lemma record_sunk:
  "record_is run_id r w \<Longrightarrow>
     record_is run_id (r\<lparr>sx_applied := sx_applied r + length evs, sx_events := sx_events r @ evs\<rparr>) (run_record_sink plane_server run_id evs w)"
proof (induction evs arbitrary: r w)
  case Nil
  then show ?case by (simp add: run_record_sink_def)
next
  case (Cons ev evs)
  from Cons.IH [OF record_appended [OF Cons.prems]] show ?case by (simp add: run_record_sink_def)
qed

lemma run_outcomeD:
  assumes "run_from_epoch sha256 rt tg px epoch w = Some (outcome, evs, w')"
  shows "map tape_part evs = map event_part (take (length evs) (sn_events (px_compiled px))) \<and> xo_applied outcome = length evs \<and>
    (xo_status outcome = Completed \<longleftrightarrow> length evs = length (sn_events (px_compiled px))) \<and>
    (xo_status outcome = Failed \<longleftrightarrow> xo_failure outcome \<noteq> None) \<and> xo_status outcome \<in> {Completed, Failed, Cancelled} \<and>
    co_policy (xo_cleanup outcome) = sn_cleanup (px_compiled px)"
proof -
  obtain d where d: "drive sha256 rt tg (px_compiled px) (px_fingerprint px) (px_initial px) epoch w = Some (d, evs, w')"
    "xo_status outcome = do_status d" "xo_failure outcome = do_failure d" "xo_cleanup outcome = do_cleanup d" "xo_applied outcome = do_applied d"
    using assms by (auto simp: run_from_epoch_def Let_def split: option.splits prod.splits)
  obtain l w1 where l: "drive_loop rt tg (px_compiled px) (px_fingerprint px) epoch (sn_events (px_compiled px)) [] (px_initial px) w = Some (l, w1)"
    "evs = dl_recorded l" "do_status d = (if dl_cancelled l then Cancelled else if dl_failure l \<noteq> None then Failed else Completed)"
    "do_failure d = dl_failure l" "do_applied d = length evs" "run_cleanup sha256 tg (px_compiled px) (dl_owned l) w1 = (do_cleanup d, w')"
    by (rule driveD [OF d(1)])
  have "co_policy (do_cleanup d) = sn_cleanup (px_compiled px)" using l(6) by (cases "do_cleanup d") (auto simp: run_cleanup_def Let_def split: prod.splits)
  then show ?thesis using drive_loop_prefix [OF l(1)] d l by (auto split: if_splits)
qed

lemma run_from_epoch_returns:
  assumes "list_all (\<lambda>e. epoch + ce_offset_ns e \<le> INSTANT_MAX) (sn_events (px_compiled px))"
  shows "\<exists>outcome evs w'. run_from_epoch sha256 rt tg px epoch w = Some (outcome, evs, w')"
proof -
  obtain l w1 where "drive_loop rt tg (px_compiled px) (px_fingerprint px) epoch (sn_events (px_compiled px)) [] (px_initial px) w = Some (l, w1)"
    using drive_loop_returns [OF assms] by fastforce
  then obtain outcome w' where "drive sha256 rt tg (px_compiled px) (px_fingerprint px) (px_initial px) epoch w = Some (outcome, dl_recorded l, w')"
    by (rule drive_of_loop)
  then show ?thesis by (simp add: run_from_epoch_def Let_def)
qed

text \<open>What a finished record says of the tape.\<close>

definition finished_record :: "compiled_scenario \<Rightarrow> schedule_run_record \<Rightarrow> bool" where
  "finished_record c r =
     (sx_status r \<in> {Completed, Failed, Cancelled} \<and> sx_applied r = length (sx_events r) \<and>
      map tape_part (sx_events r) = map event_part (take (sx_applied r) (sn_events c)) \<and>
      (sx_status r = Completed \<longrightarrow> sx_applied r = length (sn_events c)) \<and> (sx_status r = Failed \<longleftrightarrow> sx_failure r \<noteq> None) \<and>
      map_option co_policy (sx_cleanup r) = Some (sn_cleanup c))"

lemma recorded_outcome:
  assumes "run_from_epoch sha256 rt tg px epoch w = Some (outcome, evs, w')" "sx_applied r = 0" "sx_events r = []" "sx_failure r = None"
  shows "finished_record (px_compiled px)
    ((let r' = r\<lparr>sx_applied := sx_applied r + length evs, sx_events := sx_events r @ evs, sx_status := xo_status outcome, sx_applied := xo_applied outcome\<rparr>
      in if xo_status outcome = Failed then r'\<lparr>sx_failure := xo_failure outcome\<rparr> else r')\<lparr>sx_cleanup := Some (xo_cleanup outcome)\<rparr>)"
  using run_outcomeD [OF assms(1)] assms(2-4) by (auto simp: finished_record_def Let_def)

lemma prepare_compiled_tape: "prepare_compiled sha256 c tg w = (Inr px, w') \<Longrightarrow> px_compiled px = c"
  by (auto simp: prepare_compiled_def Let_def split: prod.splits sum.splits)

lemma prepare_failed_events:
  assumes "prepare_compiled sha256 c tg w = (Inl e, w')"
  shows "sn_events c \<noteq> []"
  using assms by (auto simp: prepare_compiled_def prepare_initial_def Let_def split: prod.splits sum.splits)

lemma registry_record: "pl_registry w' = pl_registry w \<Longrightarrow> record_is run_id r w' = record_is run_id r w"
  by (simp add: record_is_def)

text \<open>
  C22. A version 2 run on a server whose registry nobody else touches always ends and leaves a finished record: the
  recorded events are the applied prefix of the tape, \<^verbatim>\<open>applied\<close> counts them, a completed run applied all of
  them, exactly the failed ones have a failure, the cleanup outcome is reported under the policy of the schedule, and the
  run's token is gone. Preparation failures included. The deadlines must be representable instants.
\<close>

theorem server_run_recorded:
  assumes "runtime_keeps (rt t) (pl_registry :: server \<Rightarrow> _)" "get_v2 run_id (pl_registry w) = Some r"
    "sx_applied r = 0" "sx_events r = []" "sx_failure r = None"
    "list_all (\<lambda>e. \<forall>v. fst (rt_now (rt t) v) + ce_offset_ns e \<le> INSTANT_MAX) (sn_events c)"
  shows "\<exists>w' r'. drive_schedule_v2_run sha256 rt plane_server run_id c t w = Some w' \<and>
    get_v2 run_id (pl_registry w') = Some r' \<and> finished_record c r' \<and> map_of (v2_tokens (pl_registry w')) run_id = None"
proof -
  let ?w1 = "snd (in_registry (update_v2 run_id (\<lambda>r. r\<lparr>sx_status := Running\<rparr>)) w)"
  let ?r = "r\<lparr>sx_status := Running\<rparr>"
  have r1: "record_is run_id ?r ?w1" using record_updated [of run_id r w] assms(2) by (simp add: record_is_def)
  obtain epoch w2 where now: "rt_now (rt t) ?w1 = (epoch, w2)" by fastforce
  obtain res w3 where prep: "prepare_compiled sha256 c (server_target plane_server) w2 = (res, w3)" by fastforce
  have r3: "record_is run_id ?r w3"
    using r1 registry_record [OF runtime_keepsD(1) [OF assms(1) now]] registry_record [OF server_frame.prepare_keeps [OF prep]] by simp
  show ?thesis
  proof (cases res)
    case (Inl e)
    let ?upd = "\<lambda>r. r\<lparr>sx_status := Failed, sx_failure := Some (experiment_error_display e), sx_cleanup := Some \<lparr>co_policy = sn_cleanup c, co_resources = []\<rparr>\<rparr>"
    let ?w4 = "snd (in_registry (update_v2 run_id ?upd) w3)"
    have run: "drive_schedule_v2_run sha256 rt plane_server run_id c t w =
        Some (snd (in_registry (\<lambda>reg. ((), drop_token_v2 run_id reg)) ?w4))"
      using now prep Inl by (simp add: drive_schedule_v2_run_def case_prod_unfold Let_def)
    have "finished_record c (?upd ?r)" using assms(3,4) by (simp add: finished_record_def)
    then show ?thesis using run record_token_dropped(1) [OF record_updated [OF r3, of ?upd]] record_token_dropped(2) [of run_id ?w4]
      unfolding record_is_def by blast
  next
    case (Inr px)
    have px: "px_compiled px = c" using prepare_compiled_tape [OF prep [unfolded Inr]] .
    have "list_all (\<lambda>e. epoch + ce_offset_ns e \<le> INSTANT_MAX) (sn_events c)"
      using assms(6) now by (auto simp: list_all_iff) (metis fst_conv)
    then obtain outcome evs w4 where go: "run_from_epoch sha256 (rt t) (server_target plane_server) px epoch w3 = Some (outcome, evs, w4)"
      using run_from_epoch_returns px by metis
    let ?w5 = "run_record_sink plane_server run_id evs w4"
    let ?fin = "\<lambda>r. let r' = r\<lparr>sx_status := xo_status outcome, sx_applied := xo_applied outcome\<rparr>
        in if xo_status outcome = Failed then r'\<lparr>sx_failure := xo_failure outcome\<rparr> else r'"
    let ?clean = "\<lambda>r. r\<lparr>sx_cleanup := Some (xo_cleanup outcome)\<rparr>"
    let ?w7 = "snd (in_registry (update_v2 run_id ?clean) (snd (in_registry (update_v2 run_id ?fin) ?w5)))"
    let ?r5 = "?r\<lparr>sx_applied := sx_applied ?r + length evs, sx_events := sx_events ?r @ evs\<rparr>"
    have run: "drive_schedule_v2_run sha256 rt plane_server run_id c t w = Some (snd (in_registry (\<lambda>reg. ((), drop_token_v2 run_id reg)) ?w7))"
      using now prep Inr go by (simp add: drive_schedule_v2_run_def case_prod_unfold Let_def cong: if_cong)
    have "record_is run_id ?r w4" using r3 registry_record [OF server_frame.run_from_epoch_keeps [OF go assms(1)]] by simp
    then have "record_is run_id (?clean (?fin ?r5)) ?w7" by (intro record_updated record_sunk)
    moreover have "finished_record c (?clean (?fin ?r5))"
      using recorded_outcome [OF go, of ?r] assms(3-5) px by simp
    ultimately show ?thesis using run record_token_dropped(1) [of run_id _ ?w7] record_token_dropped(2) [of run_id ?w7]
      unfolding record_is_def by blast
  qed
qed

definition still_clock :: "'w runtime" where
  "still_clock = \<lparr>rt_now = (\<lambda>w. (0, w)), rt_is_cancelled = (\<lambda>w. (False, w)), rt_cancelled = (\<lambda>w. None), rt_sleep_until = (\<lambda>d w. (True, w))\<rparr>"

definition example_run :: schedule_run_record where
  "example_run = \<lparr>sx_run_id = 1, sx_seed = 1, sx_execution_key = 2, sx_fingerprint = [], sx_compiler_version = 1, sx_isolation = Strict,
     sx_cleanup_policy = Leave, sx_status = RunPending, sx_applied = 0, sx_failure = None, sx_events = [], sx_cleanup = None\<rparr>"

definition example_datagrams :: datagram_policies where
  "example_datagrams = \<lparr>dg_upstream = \<lparr>generation = 1, pub_plan = datagram_plan_empty, seed_namespace = 0\<rparr>,
                        dg_downstream = \<lparr>generation = 1, pub_plan = datagram_plan_empty, seed_namespace = 0\<rparr>\<rparr>"

definition example_server :: server where
  "example_server =
     \<lparr>ct_seed = 5, ct_proxies = [], ct_generation = 7, ct_fresh = 5, pl_datagrams = [(''dns'', example_datagrams)],
      pl_registry = \<lparr>v1_runs = [], v2_runs = [(1, example_run)], v1_tokens = [], v2_tokens = [(1, 4)]\<rparr>,
      pl_next_run = 2, pl_cancelled = [], sv_runs = 1, sv_events = 0, sv_late_events = 0\<rparr>"

theorem server_run_recorded_witness:
  "\<exists>w' r'. drive_schedule_v2_run (\<lambda>s. []) (\<lambda>t. still_clock) plane_server 1 (api_tape Leave) 4 example_server = Some w' \<and>
    get_v2 1 (pl_registry w') = Some r' \<and> finished_record (api_tape Leave) r' \<and> map_of (v2_tokens (pl_registry w')) 1 = None"
proof -
  have "runtime_keeps still_clock (pl_registry :: server \<Rightarrow> _)" by (simp add: runtime_keeps_def still_clock_def)
  moreover have "get_v2 1 (pl_registry example_server) = Some example_run" by (simp add: get_v2_def example_server_def)
  moreover have "sx_applied example_run = 0" "sx_events example_run = []" "sx_failure example_run = None" by (simp_all add: example_run_def)
  moreover have "list_all (\<lambda>e. \<forall>v :: server. fst (rt_now still_clock v) + ce_offset_ns e \<le> INSTANT_MAX) (sn_events (api_tape Leave))"
    by (simp add: still_clock_def api_tape_def api_event_def INSTANT_MAX_def NANOS_PER_SEC_def)
  ultimately show ?thesis by (rule server_run_recorded)
qed

section \<open>Interference\<close>

lemma shared_server_control: "sv_control (shared_server s) = shared_api (sv_control s)"
  by (simp add: shared_server_def)

lemma shared_publish_direction_next:
  assumes "api_publish_direction (shared_api plane_api) name dir plan ns expected (wx :: 'z plane_scheme \<times> _) = (Inr (g, h), wx')" "expected \<le> U64_MAX"
  shows "h = expected + 1 \<and> h \<le> U64_MAX"
proof -
  obtain w w' :: "'z plane_scheme" where "publish_direction_expected name dir plan ns expected w = (Inr (g, h), w')"
    using disturbed_result [of "publish_direction_expected name dir plan ns expected" wx "Inr (g, h)" wx'] assms(1) by (auto simp: shared_api_def)
  then show ?thesis using assms(2) by (rule publish_direction_next)
qed

text \<open>The server as it serves tapes without datagram actions.\<close>

definition streams_only :: "'w target \<Rightarrow> 'w target" where
  "streams_only tg = tg\<lparr>tg_publish := (\<lambda>r expected plan ns w.
     if sr_transport r = DatagramTransport then (Inl (target_unsupported []), w) else tg_publish tg r expected plan ns w)\<rparr>"

interpretation shared_streams: policy_target "streams_only (server_target (shared_server (plane_server :: 'z server_scheme server_api)))"
proof
  fix r expected plan ns g and w w' :: "'z server_scheme \<times> ('z server_scheme \<Rightarrow> 'z server_scheme) list"
  assume run: "tg_publish (streams_only (server_target (shared_server plane_server))) r expected plan ns w = (Inr g, w')" and le: "expected \<le> U64_MAX"
  then show "g = expected + 1 \<and> g \<le> U64_MAX"
    by (cases plan; cases "sr_transport r")
      (auto simp: streams_only_def server_target_def server_publish_def shared_server_control
        dest: shared_publish_direction_next [OF _ le] split: sum.splits prod.splits)
qed

lemma streams_only_sel [simp]:
  "tg_snapshot (streams_only tg) = tg_snapshot tg" "tg_current_generation (streams_only tg) = tg_current_generation tg"
  "tg_global_generation (streams_only tg) = tg_global_generation tg"
  "sr_transport r = StreamTransport \<Longrightarrow> tg_publish (streams_only tg) r = tg_publish tg r"
  by (auto simp: streams_only_def fun_eq_iff)

lemma event_request_streams: "event_request (streams_only tg) strict owned a w = event_request tg strict owned a w"
  by (cases a) (simp_all add: set_request_def remove_request_def expected_generation_def split: prod.split sum.split)

lemma evidence_gens_streams: "evidence_gens (streams_only tg) r g w = evidence_gens tg r g w"
  by (simp add: evidence_gens_def directional_gens_def split: schedule_transport.split)

lemma apply_event_streams:
  assumes "sr_transport (action_resource (ce_action e)) = StreamTransport"
  shows "apply_event rt (streams_only tg) c fp epoch e owned w = apply_event rt tg c fp epoch e owned w"
  using assms by (simp add: apply_event_def event_request_streams evidence_gens_streams Let_def split: prod.split sum.split)

lemma drive_loop_streams:
  "list_all (\<lambda>e. sr_transport (action_resource (ce_action e)) = StreamTransport) es \<Longrightarrow>
     drive_loop rt (streams_only tg) c fp epoch es out owned w = drive_loop rt tg c fp epoch es out owned w"
proof (induction es arbitrary: out owned w)
  case (Cons e es)
  then have step: "apply_event rt (streams_only tg) c fp epoch e = apply_event rt tg c fp epoch e"
    by (auto simp: apply_event_streams fun_eq_iff)
  show ?case using Cons by (simp add: step Let_def split: prod.split option.split bool.split sum.split)
qed simp

lemma drive_streams_only:
  assumes "drive sha256 rt tg c fp owned epoch w = Some (outcome, evs, w')"
    "list_all (\<lambda>e. sr_transport (action_resource (ce_action e)) = StreamTransport) (sn_events c)"
  obtains l w1 where "drive_loop rt (streams_only tg) c fp epoch (sn_events c) [] owned w = Some (l, w1)" "evs = dl_recorded l"
  using driveD [OF assms(1)] drive_loop_streams [OF assms(2)] by metis

text \<open>
  C23. Strict isolation on a busy server. Whatever other tasks do between the calls of a strict run whose tape has
  only stream actions, the generations the run reports for a resource are consecutive and start right after the
  generation of its snapshot: no foreign publication came between the run's own ones.
\<close>

theorem server_strict_stream_run:
  assumes "prepare_initial (server_target (shared_server plane_server)) c w0 = (Inr owned, w1)" "sn_isolation c = Strict"
    "list_all (\<lambda>(k, entry). ow_last_owned_generation entry \<le> U64_MAX) owned"
    "list_all (\<lambda>e. sr_transport (action_resource (ce_action e)) = StreamTransport) (sn_events c)"
    "drive sha256 rt (server_target (shared_server plane_server)) c fp owned epoch w = Some (outcome, evs, w')"
    "gen_of owned r = Some g"
  shows "let gs = map own_generation (filter (\<lambda>ev. er_resource ev = r) evs) in gs = [Suc g..<Suc g + length gs]"
proof -
  obtain l w1 where d: "drive_loop rt (streams_only (server_target (shared_server plane_server))) c fp epoch (sn_events c) [] owned w = Some (l, w1)"
    "evs = dl_recorded l"
    by (rule drive_streams_only [OF assms(5,4)])
  obtain new where "dl_recorded l = [] @ new" "owns_run owned new (dl_owned l) (dl_failure l \<noteq> None)"
    using shared_streams.strict_consecutive [OF d(1) assms(2)] prepare_initial_covers(3) [OF assms(1)] gen_of_bounded [OF assms(3)] by blast
  then show ?thesis using assms(6) d(2) by (auto simp: owns_run_def Let_def)
qed

definition busy_server :: server where
  "busy_server = example_server\<lparr>ct_proxies := [(''db'', new_entry example_live False None 1)]\<rparr>"

definition db_upstream :: schedule_resource where
  "db_upstream = \<lparr>sr_proxy = ''db'', sr_direction = Upstream, sr_transport = StreamTransport\<rparr>"

definition db_tape :: compiled_scenario where
  "db_tape = \<lparr>sn_compiler_semantics_version = 1, sn_seed = 1, sn_execution_key = 2, sn_isolation = Strict, sn_cleanup = Leave,
     sn_events = [\<lparr>ce_compiled_index = 0, ce_phase = TopPhase 0, ce_offset_ns = 0, ce_action = SetPlan ''db'' Upstream []\<rparr>],
     sn_total_duration_ns = 0\<rparr>"

definition db_owned :: owned_map where
  "db_owned = [(key_of db_upstream, \<lparr>ow_resource = db_upstream, ow_last_owned_generation = 1, ow_initial_plan = StreamPlan empty_plan\<rparr>)]"

lemma db_entry: "map_of (ct_proxies busy_server) ''db'' = Some (new_entry example_live False None 1)"
  by (simp add: busy_server_def)

lemma db_snapshot: "snapshot_policies ''db'' busy_server =
    Some (\<lparr>generation = 1, pub_plan = empty_plan, seed_namespace = 6\<rparr>, \<lparr>generation = 1, pub_plan = empty_plan, seed_namespace = 6\<rparr>)"
  by (simp add: snapshot_policies_def db_entry new_entry_def example_live_def example_proxy_def)

lemma db_prepared:
  "prepare_initial (server_target (shared_server plane_server)) db_tape (busy_server, []) = (Inr db_owned, busy_server, [])"
  by (simp add: prepare_initial_def db_tape_def server_target_def server_snapshot_def shared_server_def shared_api_def disturbed_def
      ext_step_def unsupported_resource_def db_snapshot db_owned_def db_upstream_def Let_def)

theorem server_strict_stream_run_witness:
  "\<exists>outcome evs w'. drive (\<lambda>s. []) still_clock (server_target (shared_server plane_server)) db_tape [] db_owned 0 (busy_server, []) =
      Some (outcome, evs, w') \<and>
    (let gs = map own_generation (filter (\<lambda>ev. er_resource ev = db_upstream) evs) in gs = [Suc 1..<Suc 1 + length gs])"
proof -
  have "list_all (\<lambda>e. 0 + ce_offset_ns e \<le> INSTANT_MAX) (sn_events db_tape)" by (simp add: db_tape_def)
  then obtain l w1 where "drive_loop still_clock (server_target (shared_server plane_server)) db_tape [] 0 (sn_events db_tape) [] db_owned (busy_server, []) = Some (l, w1)"
    using drive_loop_returns by (metis not_None_eq surj_pair)
  then obtain outcome w' where d: "drive (\<lambda>s. []) still_clock (server_target (shared_server plane_server)) db_tape [] db_owned 0 (busy_server, []) =
      Some (outcome, dl_recorded l, w')" by (rule drive_of_loop)
  have "sn_isolation db_tape = Strict" "list_all (\<lambda>(k, entry). ow_last_owned_generation entry \<le> U64_MAX) db_owned"
    "list_all (\<lambda>e. sr_transport (action_resource (ce_action e)) = StreamTransport) (sn_events db_tape)" "gen_of db_owned db_upstream = Some 1"
    by (simp_all add: db_tape_def db_owned_def U64_MAX_def gen_of_def)
  from server_strict_stream_run [OF db_prepared this(1-3) d this(4)] d show ?thesis by auto
qed

section \<open>Datagram publications of a busy server\<close>

definition foreign_publish :: "string \<Rightarrow> direction \<Rightarrow> datagram_plan \<Rightarrow> u64 \<Rightarrow> 'z plane_scheme \<Rightarrow> 'z plane_scheme" where
  "foreign_publish name dir plan ns w = snd (publish_datagram_plan plane_api name dir plan ns None w)"

lemma publish_datagram_effect:
  assumes "map_of (pl_datagrams w) name = Some p" "datagram_plan_ok plan" "generation (datagram_policy dir p) < U64_MAX"
    "expected = None \<or> expected = Some (generation (datagram_policy dir p))"
  shows "publish_datagram_plan plane_api name dir plan ns expected w = (Inr ((ct_generation w + 1) mod 2 ^ 64),
    w\<lparr>pl_datagrams := AList.update name (set_datagram_policy dir (next_policy plan ns (datagram_policy dir p)) p) (pl_datagrams w),
      ct_generation := (ct_generation w + 1) mod 2 ^ 64\<rparr>)"
  using assms by (auto simp: publish_datagram_plan_def publish_fault_plan_def datagram_publish_def next_generation_def Let_def
      simp flip: datagram_validate_iff)

definition plan_in_force :: "string \<Rightarrow> direction \<Rightarrow> 'z plane_scheme \<Rightarrow> datagram_plan option" where
  "plan_in_force name dir w = map_option (\<lambda>p. pub_plan (datagram_policy dir p)) (map_of (pl_datagrams w) name)"

definition datagram_resource :: "string \<Rightarrow> direction \<Rightarrow> schedule_resource" where
  "datagram_resource name dir = \<lparr>sr_proxy = name, sr_direction = dir, sr_transport = DatagramTransport\<rparr>"

lemma set_datagram_policy_sel [simp]: "datagram_policy dir (set_datagram_policy dir q p) = q"
  by (cases dir) simp_all

lemma server_publish_quiet:
  "map_of (pl_datagrams w) name = Some p \<Longrightarrow> datagram_plan_ok plan \<Longrightarrow> generation (datagram_policy dir p) < U64_MAX \<Longrightarrow>
   \<exists>g' w'. publish_datagram_plan (shared_api plane_api) name dir plan ns (Some (generation (datagram_policy dir p))) (w, id # id # fs) =
     (Inr g', w', fs) \<and> map_of (pl_datagrams w') name = Some (set_datagram_policy dir (next_policy plan ns (datagram_policy dir p)) p)"
  by (simp add: publish_datagram_plan_def shared_api_def disturbed_def ext_step_def publish_fault_plan_def datagram_publish_def
      next_generation_def AList.update_conv' Let_def flip: datagram_validate_iff)

lemma server_reads:
  assumes "map_of (pl_datagrams w) name = Some p"
  shows "server_current_generation (shared_server plane_server) (datagram_resource name dir) (w, []) = (Inr (generation (datagram_policy dir p)), w, [])"
  using assms by (cases dir) (simp_all add: server_current_generation_def datagram_current_generations_def datagram_resource_def
      shared_server_control shared_api_def disturbed_def ext_step_def fault_plan_def Let_def)

lemma server_read_after:
  assumes "map_of (pl_datagrams (f w)) name = Some p"
  shows "get_datagram_plan (shared_api plane_api) name dir (w, [f]) =
    (Inr (pub_plan (datagram_policy dir p), generation (datagram_policy dir p), seed_namespace (datagram_policy dir p)), f w, [])"
  using assms by (simp add: get_datagram_plan_def shared_api_def disturbed_def ext_step_def fault_plan_def Let_def)

text \<open>
  C24. The generation a datagram publication reports is read after it, so another task's publication in between is
  reported as the run's own. The run then owns the foreign generation: its restore at the end succeeds and
  replaces the foreign plan, although a foreign publication should make it report a conflict.
\<close>

theorem datagram_run_adopts_foreign_plan:
  assumes "map_of (pl_datagrams (w :: server)) name = Some p" "generation (datagram_policy dir p) = g" "g + 3 \<le> U64_MAX"
    "datagram_plan_ok mine" "datagram_plan_ok theirs" "datagram_plan_ok initial"
  shows "\<exists>w1 w2. tg_publish (server_target (shared_server plane_server)) (datagram_resource name dir) g (DatagramPlan mine) ns
        (w, [id, id, foreign_publish name dir theirs ns']) = (Inr (g + 2), w1, []) \<and>
      plan_in_force name dir w1 = Some theirs \<and>
      restore_target (server_target (shared_server plane_server))
        \<lparr>ow_resource = datagram_resource name dir, ow_last_owned_generation = g + 2, ow_initial_plan = DatagramPlan initial\<rparr> ns'' (w1, []) =
        (Restored, w2, []) \<and> plan_in_force name dir w2 = Some initial"
proof -
  let ?p1 = "set_datagram_policy dir (next_policy mine ns (datagram_policy dir p)) p"
  let ?p2 = "set_datagram_policy dir (next_policy theirs ns' (datagram_policy dir ?p1)) ?p1"
  obtain g' w' where one: "publish_datagram_plan (shared_api plane_api) name dir mine ns (Some g) (w, [id, id, foreign_publish name dir theirs ns']) =
      (Inr g', w', [foreign_publish name dir theirs ns'])" "map_of (pl_datagrams w') name = Some ?p1"
    using server_publish_quiet [OF assms(1,4), of dir ns "[foreign_publish name dir theirs ns']"] assms(2,3) by auto
  let ?w1 = "foreign_publish name dir theirs ns' w'"
  have two: "map_of (pl_datagrams ?w1) name = Some ?p2"
    using publish_datagram_effect [OF one(2) assms(5)] assms(2,3)
    by (simp add: foreign_publish_def next_policy_def sat_add64_def AList.update_conv')
  have g2: "generation (datagram_policy dir ?p2) = g + 2" using assms(2,3) by (simp add: next_policy_def sat_add64_def)
  have pub: "tg_publish (server_target (shared_server plane_server)) (datagram_resource name dir) g (DatagramPlan mine) ns
      (w, [id, id, foreign_publish name dir theirs ns']) = (Inr (g + 2), ?w1, [])"
    using one(1) server_read_after [of "foreign_publish name dir theirs ns'" w' name ?p2 dir, OF two] g2
    by (simp add: server_target_def server_publish_def datagram_resource_def shared_server_control)
  let ?p3 = "set_datagram_policy dir (next_policy initial ns'' (datagram_policy dir ?p2)) ?p2"
  have three: "\<exists>g3 w2. publish_datagram_plan (shared_api plane_api) name dir initial ns'' (Some (g + 2)) (?w1, []) = (Inr g3, w2, []) \<and>
      map_of (pl_datagrams w2) name = Some ?p3"
    using two g2 assms(3,6)
    by (simp add: publish_datagram_plan_def shared_api_def disturbed_def ext_step_def publish_fault_plan_def datagram_publish_def
        next_generation_def AList.update_conv' Let_def flip: datagram_validate_iff)
  then obtain g3 w2 where w2: "publish_datagram_plan (shared_api plane_api) name dir initial ns'' (Some (g + 2)) (?w1, []) = (Inr g3, w2, [])"
      "map_of (pl_datagrams w2) name = Some ?p3" by blast
  have "restore_target (server_target (shared_server plane_server))
        \<lparr>ow_resource = datagram_resource name dir, ow_last_owned_generation = g + 2, ow_initial_plan = DatagramPlan initial\<rparr> ns'' (?w1, []) =
        (Restored, w2, [])"
    using server_reads [OF two, of dir] g2 w2
    by (simp add: restore_target_def server_target_def server_publish_def datagram_resource_def shared_server_control
        get_datagram_plan_def shared_api_def disturbed_def ext_step_def fault_plan_def Let_def)
  moreover have "plan_in_force name dir ?w1 = Some theirs" "plan_in_force name dir w2 = Some initial"
    using two w2(2) by (simp_all add: plan_in_force_def next_policy_def)
  ultimately show ?thesis using pub by blast
qed

theorem datagram_run_adopts_foreign_plan_witness:
  "\<exists>w1 w2. tg_publish (server_target (shared_server plane_server)) (datagram_resource ''dns'' Upstream) 1 (DatagramPlan datagram_plan_empty) 0
        (example_server, [id, id, foreign_publish ''dns'' Upstream datagram_plan_empty 5]) = (Inr (1 + 2), w1, []) \<and>
      restore_target (server_target (shared_server plane_server))
        \<lparr>ow_resource = datagram_resource ''dns'' Upstream, ow_last_owned_generation = 1 + 2, ow_initial_plan = DatagramPlan datagram_plan_empty\<rparr> 6 (w1, []) =
        (Restored, w2, [])"
proof -
  have "map_of (pl_datagrams example_server) ''dns'' = Some example_datagrams" by (simp add: example_server_def)
  moreover have "generation (datagram_policy Upstream example_datagrams) = 1" by (simp add: example_datagrams_def)
  moreover have "(1 :: nat) + 3 \<le> U64_MAX" by (simp add: U64_MAX_def)
  ultimately show ?thesis
    using datagram_run_adopts_foreign_plan [OF _ _ _ datagram_plan_empty_ok datagram_plan_empty_ok datagram_plan_empty_ok] by metis
qed

end
