(* ===== verification/Toxiproxy.thy ===== *)
theory Toxiproxy
  imports Control
begin

text \<open>
  The Toxiproxy adapter, \<^verbatim>\<open>crates/eggchaos-toxiproxy/src/lib.rs\<close>: the translation between toxics and native faults, the
  JSON shapes it reads and writes, and the toxic operations, each a sequence of control-plane calls.

  JSON values are a datatype, an object is the list of its members. \<open>toxic_from_json\<close> is the derived deserializer with the
  defaults the source gives. Arithmetic on \<^verbatim>\<open>u64\<close> wraps as in a release build. The text of a socket address, \<^verbatim>\<open>Display\<close> of the
  standard library, is an argument. Creating, updating, deleting and populating proxies
  and the HTTP router are not modelled; the control-plane operations they call are those of \<open>Lifecycle\<close>.
\<close>

section \<open>Shapes\<close>

datatype json = JNull | JBool bool | JNum nat | JFloat f64 | JStr string | JArr "json list" | JObj "(string \<times> json) list"

record compat_error =
  cx_status :: nat
  cx_message :: string

definition proxy_not_found :: compat_error where "proxy_not_found = \<lparr>cx_status = 404, cx_message = ''proxy not found''\<rparr>"
definition toxic_not_found :: compat_error where "toxic_not_found = \<lparr>cx_status = 404, cx_message = ''toxic not found''\<rparr>"
definition toxic_exists :: compat_error where "toxic_exists = \<lparr>cx_status = 409, cx_message = ''toxic already exists''\<rparr>"
definition invalid_type :: compat_error where "invalid_type = \<lparr>cx_status = 400, cx_message = ''invalid toxic type''\<rparr>"
definition invalid_stream :: compat_error where
  "invalid_stream = \<lparr>cx_status = 400, cx_message = ''stream was invalid, can be either upstream or downstream''\<rparr>"

definition bad_request :: "string \<Rightarrow> compat_error" where "bad_request m = \<lparr>cx_status = 400, cx_message = m\<rparr>"

datatype compat_profile = StrictV2_12 | PostV2_12

fun accepts_packet_loss :: "compat_profile \<Rightarrow> bool" where
  "accepts_packet_loss StrictV2_12 = False"
| "accepts_packet_loss PostV2_12 = True"

fun version :: "compat_profile \<Rightarrow> string" where
  "version StrictV2_12 = ''2.12.0''"
| "version PostV2_12 = ''git''"

record toxic_attributes =
  ta_latency :: "nat option"
  ta_jitter :: "nat option"
  ta_rate :: "nat option"
  ta_average_size :: "nat option"
  ta_size_variation :: "nat option"
  ta_delay :: "nat option"
  ta_timeout :: "nat option"
  ta_bytes :: "nat option"
  ta_loss_rate :: "f64 option"
  ta_correlation :: "f64 option"

definition default_attributes :: toxic_attributes where
  "default_attributes = \<lparr>ta_latency = None, ta_jitter = None, ta_rate = None, ta_average_size = None, ta_size_variation = None,
     ta_delay = None, ta_timeout = None, ta_bytes = None, ta_loss_rate = None, ta_correlation = None\<rparr>"

record toxic =
  tx_name :: "string option"
  tx_type :: string
  tx_stream :: string
  tx_toxicity :: f64
  tx_attributes :: toxic_attributes

text \<open>The type and the stream of an update are accepted and ignored.\<close>

record toxic_update =
  tu_type :: "string option"
  tu_stream :: "string option"
  tu_toxicity :: "f64 option"
  tu_attributes :: "toxic_attributes option"

datatype compatibility_error = CompatInvalid string | CompatUnsupported string | CompatAddress string

section \<open>Streams and numbers\<close>

definition ascii_lower :: "char \<Rightarrow> char" where
  "ascii_lower c = (let n = (of_char c :: nat) in if 65 \<le> n \<and> n \<le> 90 then char_of (n + 32) else c)"

definition eq_ignore_ascii_case :: "string \<Rightarrow> string \<Rightarrow> bool" where
  "eq_ignore_ascii_case s t = (map ascii_lower s = map ascii_lower t)"

definition parse_stream :: "string \<Rightarrow> compat_error + direction" where
  "parse_stream stream =
     (if eq_ignore_ascii_case stream ''upstream'' then Inr Upstream
      else if eq_ignore_ascii_case stream ''downstream'' then Inr Downstream
      else Inl invalid_stream)"

text \<open>\<^verbatim>\<open>f64::clamp(0.0, 1.0)\<close>\<close>

fun clamp_unit :: "f64 \<Rightarrow> f64" where
  "clamp_unit NaN = NaN"
| "clamp_unit (Inf negative) = (if negative then Fin 0 else Fin F64_ONE)"
| "clamp_unit (Fin n) = Fin (max 0 (min n F64_ONE))"

definition clamp_toxicity :: "f64 \<Rightarrow> compat_error + f64" where
  "clamp_toxicity toxicity =
     (if f64_is_finite toxicity then Inr (clamp_unit toxicity) else Inl (bad_request ''toxicity must be finite''))"

abbreviation millis :: "nat \<Rightarrow> duration" where "millis n \<equiv> n * 1000000"
abbreviation micros :: "nat \<Rightarrow> duration" where "micros n \<equiv> n * 1000"

fun or_value :: "'a option \<Rightarrow> 'a \<Rightarrow> 'a" where
  "or_value None v = v"
| "or_value (Some x) v = x"

section \<open>Translation\<close>

definition kind_from_attrs :: "string \<Rightarrow> toxic_attributes \<Rightarrow> compat_profile \<Rightarrow> compat_error + fault_kind" where
  "kind_from_attrs kind attrs profile =
     (if kind = ''latency''
      then Inr (Latency \<lparr>lat_delay = millis (or_value (ta_latency attrs) 0), lat_jitter = millis (or_value (ta_jitter attrs) 0),
                         lat_max_buffer_bytes = 64 * 1024\<rparr>)
      else if kind = ''bandwidth''
      then Inr (Bandwidth \<lparr>bytes_per_second = sat_mul64 (max (or_value (ta_rate attrs) 1) 1) 1024, burst_bytes = 64 * 1024\<rparr>)
      else if kind = ''timeout''
      then Inr (Blackhole \<lparr>close_after = (case ta_timeout attrs of Some t \<Rightarrow> if 0 < t then Some (millis t) else None | None \<Rightarrow> None)\<rparr>)
      else if kind = ''slow_close'' then Inr (SlowClose \<lparr>sc_delay = millis (or_value (ta_delay attrs) 0)\<rparr>)
      else if kind = ''reset_peer''
      then Inr (Disconnect \<lparr>disc_after = millis (or_value (ta_timeout attrs) 0), disc_hard_reset = True\<rparr>)
      else if kind = ''slicer''
      then Inr (Slice \<lparr>average_size = max (or_value (ta_average_size attrs) 1) 1, variation = or_value (ta_size_variation attrs) 0,
                       slice_delay = micros (or_value (ta_delay attrs) 0)\<rparr>)
      else if kind = ''limit_data'' then Inr (LimitData \<lparr>limit_bytes = max (or_value (ta_bytes attrs) 1) 1\<rparr>)
      else if kind = ''packet_loss''
      then if \<not> accepts_packet_loss profile then Inl invalid_type
           else case probability_new (clamp_unit (or_value (ta_loss_rate attrs) (Fin 0))) of
                  Inl e \<Rightarrow> Inl (bad_request (validation_error_display e))
                | Inr rate \<Rightarrow> (case probability_new (clamp_unit (or_value (ta_correlation attrs) (Fin 0))) of
                    Inl e \<Rightarrow> Inl (bad_request (validation_error_display e))
                  | Inr corr \<Rightarrow> Inr (StreamLoss \<lparr>loss_rate = rate, correlation = corr\<rparr>))
      else Inl invalid_type)"

text \<open>The rounding of the rate to KiB/s adds before it divides: the sum wraps.\<close>

fun attrs_from_kind :: "fault_kind \<Rightarrow> compat_profile \<Rightarrow> compat_error + string \<times> toxic_attributes" where
  "attrs_from_kind (Latency c) profile =
     Inr (''latency'', default_attributes\<lparr>ta_latency := Some (min (lat_delay c div 1000000) U64_MAX),
                                          ta_jitter := Some (min (lat_jitter c div 1000000) U64_MAX)\<rparr>)"
| "attrs_from_kind (Bandwidth c) profile =
     Inr (''bandwidth'', default_attributes\<lparr>ta_rate := Some (max (((bytes_per_second c + 512) mod 2 ^ 64) div 1024) 1)\<rparr>)"
| "attrs_from_kind (Blackhole c) profile =
     Inr (''timeout'', default_attributes\<lparr>ta_timeout :=
       Some (case close_after c of None \<Rightarrow> 0 | Some after \<Rightarrow> min (after div 1000000) U64_MAX)\<rparr>)"
| "attrs_from_kind (LimitData c) profile = Inr (''limit_data'', default_attributes\<lparr>ta_bytes := Some (limit_bytes c)\<rparr>)"
| "attrs_from_kind (SlowClose c) profile =
     Inr (''slow_close'', default_attributes\<lparr>ta_delay := Some (min (sc_delay c div 1000000) U64_MAX)\<rparr>)"
| "attrs_from_kind (Slice c) profile =
     Inr (''slicer'', default_attributes\<lparr>ta_average_size := Some (average_size c), ta_size_variation := Some (variation c),
                                         ta_delay := Some (min (slice_delay c div 1000) U64_MAX)\<rparr>)"
| "attrs_from_kind (Disconnect c) profile =
     Inr (''reset_peer'', default_attributes\<lparr>ta_timeout := Some (min (disc_after c div 1000000) U64_MAX)\<rparr>)"
| "attrs_from_kind (StreamLoss c) profile =
     (if accepts_packet_loss profile
      then Inr (''packet_loss'', default_attributes\<lparr>ta_loss_rate := Some (loss_rate c), ta_correlation := Some (correlation c)\<rparr>)
      else Inl invalid_type)"

definition attributes_object :: "string \<Rightarrow> toxic_attributes \<Rightarrow> json" where
  "attributes_object kind attrs =
     (let get = (\<lambda>value. JNum (or_value value 0)); get_f64 = (\<lambda>value. JFloat (or_value value (Fin 0))) in
      if kind = ''latency'' then JObj [(''latency'', get (ta_latency attrs)), (''jitter'', get (ta_jitter attrs))]
      else if kind = ''bandwidth'' then JObj [(''rate'', get (ta_rate attrs))]
      else if kind = ''slow_close'' then JObj [(''delay'', get (ta_delay attrs))]
      else if kind = ''timeout'' \<or> kind = ''reset_peer'' then JObj [(''timeout'', get (ta_timeout attrs))]
      else if kind = ''slicer''
      then JObj [(''average_size'', get (ta_average_size attrs)), (''size_variation'', get (ta_size_variation attrs)),
                 (''delay'', get (ta_delay attrs))]
      else if kind = ''limit_data'' then JObj [(''bytes'', get (ta_bytes attrs))]
      else if kind = ''packet_loss''
      then JObj [(''loss_rate'', get_f64 (ta_loss_rate attrs)), (''correlation'', get_f64 (ta_correlation attrs))]
      else JObj [])"

definition fault_to_toxic :: "direction \<Rightarrow> fault_spec \<Rightarrow> compat_profile \<Rightarrow> compat_error + json" where
  "fault_to_toxic dir fault profile =
     (case attrs_from_kind (fs_kind fault) profile of
        Inl e \<Rightarrow> Inl e
      | Inr (kind, attrs) \<Rightarrow>
          Inr (JObj [(''name'', JStr (fs_id fault)), (''type'', JStr kind), (''stream'', JStr (direction_as_str dir)),
                     (''toxicity'', JFloat (fs_probability fault)), (''attributes'', attributes_object kind attrs)]))"

definition merge_attributes :: "string \<Rightarrow> toxic_attributes \<Rightarrow> toxic_attributes \<Rightarrow> toxic_attributes" where
  "merge_attributes kind base patch =
     (let pick = (\<lambda>current incoming. case incoming of Some x \<Rightarrow> Some x | None \<Rightarrow> current);
          pick_f = (\<lambda>current incoming. case incoming of Some x \<Rightarrow> Some x | None \<Rightarrow> current) in
      if kind = ''latency''
      then default_attributes\<lparr>ta_latency := pick (ta_latency base) (ta_latency patch), ta_jitter := pick (ta_jitter base) (ta_jitter patch)\<rparr>
      else if kind = ''bandwidth'' then default_attributes\<lparr>ta_rate := pick (ta_rate base) (ta_rate patch)\<rparr>
      else if kind = ''slow_close'' then default_attributes\<lparr>ta_delay := pick (ta_delay base) (ta_delay patch)\<rparr>
      else if kind = ''timeout'' \<or> kind = ''reset_peer'' then default_attributes\<lparr>ta_timeout := pick (ta_timeout base) (ta_timeout patch)\<rparr>
      else if kind = ''slicer''
      then default_attributes\<lparr>ta_average_size := pick (ta_average_size base) (ta_average_size patch),
                              ta_size_variation := pick (ta_size_variation base) (ta_size_variation patch),
                              ta_delay := pick (ta_delay base) (ta_delay patch)\<rparr>
      else if kind = ''limit_data'' then default_attributes\<lparr>ta_bytes := pick (ta_bytes base) (ta_bytes patch)\<rparr>
      else if kind = ''packet_loss''
      then default_attributes\<lparr>ta_loss_rate := pick_f (ta_loss_rate base) (ta_loss_rate patch),
                              ta_correlation := pick_f (ta_correlation base) (ta_correlation patch)\<rparr>
      else default_attributes)"

definition toxic_types :: "string list" where
  "toxic_types = [''latency'', ''bandwidth'', ''timeout'', ''slow_close'', ''reset_peer'', ''slicer'', ''limit_data'', ''packet_loss'']"

text \<open>Absent and empty names get the default.\<close>

definition toxic_fault_name :: "toxic \<Rightarrow> direction \<Rightarrow> string" where
  "toxic_fault_name t dir =
     (case tx_name t of
        Some name \<Rightarrow> if name = [] then tx_type t @ ''_'' @ direction_as_str dir else name
      | None \<Rightarrow> tx_type t @ ''_'' @ direction_as_str dir)"

definition to_fault_with_profile :: "compat_profile \<Rightarrow> toxic \<Rightarrow> compatibility_error + direction \<times> fault_spec" where
  "to_fault_with_profile profile t =
     (case (if eq_ignore_ascii_case (tx_stream t) ''upstream'' then Some Upstream
            else if eq_ignore_ascii_case (tx_stream t) ''downstream'' then Some Downstream else None) of
        None \<Rightarrow> Inl (CompatInvalid ''stream was invalid, can be either upstream or downstream'')
      | Some dir \<Rightarrow>
          if tx_type t \<notin> set toxic_types then Inl (CompatUnsupported (tx_type t))
          else if tx_type t = ''packet_loss'' \<and> \<not> accepts_packet_loss profile then Inl (CompatUnsupported ''packet_loss'')
          else case kind_from_attrs (tx_type t) (tx_attributes t) profile of
            Inl e \<Rightarrow> Inl (CompatInvalid (cx_message e))
          | Inr kind \<Rightarrow> (case fault_id_new (toxic_fault_name t dir) of
              Inl e \<Rightarrow> Inl (CompatInvalid (validation_error_display e))
            | Inr i \<Rightarrow> (case clamp_toxicity (tx_toxicity t) of
                Inl e \<Rightarrow> Inl (CompatInvalid (cx_message e))
              | Inr toxicity \<Rightarrow> (case probability_new toxicity of
                  Inl e \<Rightarrow> Inl (CompatInvalid (validation_error_display e))
                | Inr p \<Rightarrow> Inr (dir, \<lparr>fs_id = i, fs_probability = p, fs_kind = kind\<rparr>)))))"

text \<open>The loop over the toxics of a proxy in \<^verbatim>\<open>translate_proxy_with_profile\<close> and the two plans it builds.\<close>

fun split_toxics :: "compat_profile \<Rightarrow> toxic list \<Rightarrow> fault_spec list \<Rightarrow> fault_spec list \<Rightarrow>
    compatibility_error + fault_spec list \<times> fault_spec list" where
  "split_toxics profile [] up down = Inr (up, down)"
| "split_toxics profile (t # ts) up down =
     (case to_fault_with_profile profile t of
        Inl e \<Rightarrow> Inl e
      | Inr (dir, fault) \<Rightarrow>
          if dir = Upstream then split_toxics profile ts (up @ [fault]) down else split_toxics profile ts up (down @ [fault]))"

definition translate_toxics :: "compat_profile \<Rightarrow> toxic list \<Rightarrow> compatibility_error + fault_plan \<times> fault_plan" where
  "translate_toxics profile ts =
     (case split_toxics profile ts [] [] of
        Inl e \<Rightarrow> Inl e
      | Inr (up, down) \<Rightarrow> (case fault_plan_new up of
          Inl e \<Rightarrow> Inl (CompatInvalid (validation_error_display e))
        | Inr up_plan \<Rightarrow> (case fault_plan_new down of
            Inl e \<Rightarrow> Inl (CompatInvalid (validation_error_display e))
          | Inr down_plan \<Rightarrow> Inr (up_plan, down_plan))))"

section \<open>Reading JSON\<close>

fun json_u64 :: "json \<Rightarrow> nat option option" where
  "json_u64 (JNum n) = (if n \<le> U64_MAX then Some (Some n) else None)"
| "json_u64 JNull = Some None"
| "json_u64 _ = None"

fun json_f64 :: "json \<Rightarrow> f64 option option" where
  "json_f64 (JFloat x) = Some (Some x)"
| "json_f64 (JNum n) = Some (Some (f64_of_u64 n))"
| "json_f64 JNull = Some None"
| "json_f64 _ = None"

fun read_attribute :: "string \<times> json \<Rightarrow> toxic_attributes \<Rightarrow> toxic_attributes option" where
  "read_attribute (key, v) a =
     (if key = ''latency'' then map_option (\<lambda>x. a\<lparr>ta_latency := x\<rparr>) (json_u64 v)
      else if key = ''jitter'' then map_option (\<lambda>x. a\<lparr>ta_jitter := x\<rparr>) (json_u64 v)
      else if key = ''rate'' then map_option (\<lambda>x. a\<lparr>ta_rate := x\<rparr>) (json_u64 v)
      else if key = ''average_size'' then map_option (\<lambda>x. a\<lparr>ta_average_size := x\<rparr>) (json_u64 v)
      else if key = ''size_variation'' then map_option (\<lambda>x. a\<lparr>ta_size_variation := x\<rparr>) (json_u64 v)
      else if key = ''delay'' then map_option (\<lambda>x. a\<lparr>ta_delay := x\<rparr>) (json_u64 v)
      else if key = ''timeout'' then map_option (\<lambda>x. a\<lparr>ta_timeout := x\<rparr>) (json_u64 v)
      else if key = ''bytes'' then map_option (\<lambda>x. a\<lparr>ta_bytes := x\<rparr>) (json_u64 v)
      else if key = ''loss_rate'' then map_option (\<lambda>x. a\<lparr>ta_loss_rate := x\<rparr>) (json_f64 v)
      else if key = ''correlation'' then map_option (\<lambda>x. a\<lparr>ta_correlation := x\<rparr>) (json_f64 v)
      else None)"

fun read_attributes :: "(string \<times> json) list \<Rightarrow> toxic_attributes \<Rightarrow> toxic_attributes option" where
  "read_attributes [] a = Some a"
| "read_attributes (m # ms) a = (case read_attribute m a of None \<Rightarrow> None | Some a' \<Rightarrow> read_attributes ms a')"

fun json_attributes :: "json \<Rightarrow> toxic_attributes option" where
  "json_attributes (JObj ms) = (if distinct (map fst ms) then read_attributes ms default_attributes else None)"
| "json_attributes _ = None"

text \<open>The fields read so far; \<^verbatim>\<open>type\<close> is the only one without a default.\<close>

fun read_toxic_field :: "string \<times> json \<Rightarrow> string option \<times> toxic \<Rightarrow> (string option \<times> toxic) option" where
  "read_toxic_field (key, v) (ty, t) =
     (if key = ''name'' then (case v of JStr s \<Rightarrow> Some (ty, t\<lparr>tx_name := Some s\<rparr>) | JNull \<Rightarrow> Some (ty, t\<lparr>tx_name := None\<rparr>) | _ \<Rightarrow> None)
      else if key = ''type'' then (case v of JStr s \<Rightarrow> Some (Some s, t\<lparr>tx_type := s\<rparr>) | _ \<Rightarrow> None)
      else if key = ''stream'' then (case v of JStr s \<Rightarrow> Some (ty, t\<lparr>tx_stream := s\<rparr>) | _ \<Rightarrow> None)
      else if key = ''toxicity'' then (case json_f64 v of Some (Some x) \<Rightarrow> Some (ty, t\<lparr>tx_toxicity := x\<rparr>) | _ \<Rightarrow> None)
      else if key = ''attributes'' then map_option (\<lambda>a. (ty, t\<lparr>tx_attributes := a\<rparr>)) (json_attributes v)
      else None)"

fun read_toxic_fields :: "(string \<times> json) list \<Rightarrow> string option \<times> toxic \<Rightarrow> (string option \<times> toxic) option" where
  "read_toxic_fields [] s = Some s"
| "read_toxic_fields (m # ms) s = (case read_toxic_field m s of None \<Rightarrow> None | Some s' \<Rightarrow> read_toxic_fields ms s')"

fun toxic_from_json :: "json \<Rightarrow> toxic option" where
  "toxic_from_json (JObj ms) =
     (if \<not> distinct (map fst ms) then None
      else case read_toxic_fields ms (None, \<lparr>tx_name = None, tx_type = [], tx_stream = ''downstream'', tx_toxicity = Fin F64_ONE,
                                              tx_attributes = default_attributes\<rparr>) of
             Some (Some _, t) \<Rightarrow> Some t
           | _ \<Rightarrow> None)"
| "toxic_from_json _ = None"

section \<open>Views\<close>

fun render_faults :: "direction \<Rightarrow> compat_profile \<Rightarrow> fault_spec list \<Rightarrow> json list \<Rightarrow> compat_error + json list" where
  "render_faults dir profile [] out = Inr out"
| "render_faults dir profile (f # fs) out =
     (case fault_to_toxic dir f profile of Inl e \<Rightarrow> Inl e | Inr v \<Rightarrow> render_faults dir profile fs (out @ [v]))"

definition render_both :: "compat_profile \<Rightarrow> fault_spec list \<Rightarrow> fault_spec list \<Rightarrow> compat_error + json list" where
  "render_both profile upstream downstream =
     (case render_faults Upstream profile upstream [] of
        Inl e \<Rightarrow> Inl e
      | Inr toxics \<Rightarrow> render_faults Downstream profile downstream toxics)"

definition proxy_json :: "(socket_addr \<Rightarrow> string) \<Rightarrow> compat_profile \<Rightarrow> proxy_view \<Rightarrow> compat_error + json" where
  "proxy_json addr_text profile view =
     (let listen = or_value (pv_bound_addr view) (pv_listen view) in
      case render_both profile (plan_faults (pv_upstream_faults view)) (plan_faults (pv_downstream_faults view)) of
        Inl e \<Rightarrow> Inl e
      | Inr toxics \<Rightarrow>
          Inr (JObj [(''name'', JStr (pv_name view)), (''listen'', JStr (addr_text listen)), (''upstream'', JStr (addr_text (pv_upstream view))),
                     (''enabled'', JBool (pv_enabled view)), (''Logger'', JObj []), (''toxics'', JArr toxics)]))"

fun list_views_json :: "(socket_addr \<Rightarrow> string) \<Rightarrow> compat_profile \<Rightarrow> proxy_view list \<Rightarrow> compat_error + (string \<times> json) list" where
  "list_views_json addr_text profile [] = Inr []"
| "list_views_json addr_text profile (view # views) =
     (case proxy_json addr_text profile view of
        Inl e \<Rightarrow> Inl e
      | Inr v \<Rightarrow> (case list_views_json addr_text profile views of Inl e \<Rightarrow> Inl e | Inr vs \<Rightarrow> Inr ((pv_name view, v) # vs)))"

definition list_json :: "(socket_addr \<Rightarrow> string) \<Rightarrow> compat_profile \<Rightarrow> 'z control_scheme \<Rightarrow> compat_error + (string \<times> json) list" where
  "list_json addr_text profile c = list_views_json addr_text profile (control_list c)"

definition adapter_proxy_json :: "(socket_addr \<Rightarrow> string) \<Rightarrow> compat_profile \<Rightarrow> string \<Rightarrow> 'z control_scheme \<Rightarrow> compat_error + json option" where
  "adapter_proxy_json addr_text profile name c =
     (case control_get name c of
        None \<Rightarrow> Inr None
      | Some view \<Rightarrow> (case proxy_json addr_text profile view of Inl e \<Rightarrow> Inl e | Inr v \<Rightarrow> Inr (Some v)))"

section \<open>Toxic operations\<close>

text \<open>The error branches of the calls to the control plane.\<close>

fun add_toxic_error :: "control_error \<Rightarrow> compat_error" where
  "add_toxic_error (NotFound _) = proxy_not_found"
| "add_toxic_error (ControlConflict _) = toxic_exists"
| "add_toxic_error (ControlInvalid message) = bad_request message"
| "add_toxic_error e = bad_request (control_error_display e)"

fun update_toxic_error :: "control_error \<Rightarrow> compat_error" where
  "update_toxic_error (NotFound _) = toxic_not_found"
| "update_toxic_error (ControlInvalid message) = bad_request message"
| "update_toxic_error e = bad_request (control_error_display e)"

definition missing_toxic :: "string \<Rightarrow> 'z control_scheme \<Rightarrow> compat_error" where
  "missing_toxic proxy c = (if control_get proxy c = None then proxy_not_found else toxic_not_found)"

definition add_toxic :: "compat_profile \<Rightarrow> string \<Rightarrow> toxic \<Rightarrow> 'z control_scheme \<Rightarrow> (compat_error + json) \<times> 'z control_scheme" where
  "add_toxic profile proxy t c =
     (if control_get proxy c = None then (Inl proxy_not_found, c)
      else case parse_stream (tx_stream t) of
        Inl e \<Rightarrow> (Inl e, c)
      | Inr dir \<Rightarrow> (case kind_from_attrs (tx_type t) (tx_attributes t) profile of
          Inl e \<Rightarrow> (Inl e, c)
        | Inr kind \<Rightarrow>
            let name = toxic_fault_name t dir in
            if get_fault proxy name c \<noteq> None then (Inl toxic_exists, c)
            else (case fault_id_new name of
                Inl e \<Rightarrow> (Inl (bad_request (validation_error_display e)), c)
              | Inr i \<Rightarrow> (case clamp_toxicity (tx_toxicity t) of
                  Inl e \<Rightarrow> (Inl e, c)
                | Inr toxicity \<Rightarrow> (case probability_new toxicity of
                    Inl e \<Rightarrow> (Inl (bad_request (validation_error_display e)), c)
                  | Inr p \<Rightarrow>
                      (case add_fault proxy \<lparr>fu_direction = dir, fu_id = i, fu_probability = p, fu_kind = kind\<rparr> c of
                         (Inr (d, spec, _), c') \<Rightarrow> (fault_to_toxic d spec profile, c')
                       | (Inl e, c') \<Rightarrow> (Inl (add_toxic_error e), c')))))))"

definition list_toxics :: "compat_profile \<Rightarrow> string \<Rightarrow> 'z control_scheme \<Rightarrow> compat_error + json list" where
  "list_toxics profile proxy c =
     (case list_faults proxy c of
        None \<Rightarrow> Inl proxy_not_found
      | Some (upstream, downstream) \<Rightarrow> render_both profile upstream downstream)"

definition get_toxic :: "compat_profile \<Rightarrow> string \<Rightarrow> string \<Rightarrow> 'z control_scheme \<Rightarrow> compat_error + json" where
  "get_toxic profile proxy name c =
     (case get_fault proxy name c of
        Some (dir, spec) \<Rightarrow> fault_to_toxic dir spec profile
      | None \<Rightarrow> Inl (missing_toxic proxy c))"

definition update_toxic :: "compat_profile \<Rightarrow> string \<Rightarrow> string \<Rightarrow> toxic_update \<Rightarrow> 'z control_scheme \<Rightarrow>
    (compat_error + json) \<times> 'z control_scheme" where
  "update_toxic profile proxy name patch c =
     (case get_fault proxy name c of
        None \<Rightarrow> (Inl (missing_toxic proxy c), c)
      | Some (_, existing) \<Rightarrow> (case attrs_from_kind (fs_kind existing) profile of
          Inl e \<Rightarrow> (Inl e, c)
        | Inr (kind_name, base_attrs) \<Rightarrow>
            let merged = (case tu_attributes patch of Some attrs \<Rightarrow> merge_attributes kind_name base_attrs attrs | None \<Rightarrow> base_attrs) in
            (case kind_from_attrs kind_name merged profile of
               Inl e \<Rightarrow> (Inl e, c)
             | Inr kind \<Rightarrow>
                 (case (case tu_toxicity patch of Some toxicity \<Rightarrow> clamp_toxicity toxicity | None \<Rightarrow> Inr (fs_probability existing)) of
                    Inl e \<Rightarrow> (Inl e, c)
                  | Inr probability \<Rightarrow>
                      (case update_fault proxy name \<lparr>fp_probability = Some probability, fp_kind = Some kind\<rparr> c of
                         (Inr (dir, spec, _), c') \<Rightarrow> (fault_to_toxic dir spec profile, c')
                       | (Inl e, c') \<Rightarrow> (Inl (update_toxic_error e), c'))))))"

definition remove_toxic :: "string \<Rightarrow> string \<Rightarrow> 'z control_scheme \<Rightarrow> (compat_error + unit) \<times> 'z control_scheme" where
  "remove_toxic proxy name c =
     (case remove_fault proxy name c of
        (Inr _, c') \<Rightarrow> (Inr (), c')
      | (Inl (NotFound _), c') \<Rightarrow> (Inl (missing_toxic proxy c'), c')
      | (Inl e, c') \<Rightarrow> (Inl (bad_request (control_error_display e)), c'))"

end
