(* ===== verification/ToxiproxyProps.thy ===== *)
theory ToxiproxyProps
  imports Toxiproxy ControlProps
begin

text \<open>
  What the Toxiproxy adapter guarantees: which native faults survive the translation to a toxic and back, that a
  toxic read as JSON can be written again, and what the toxic operations do to the plans.
\<close>

section \<open>Faults a toxic can express\<close>

fun expressible :: "compat_profile \<Rightarrow> fault_kind \<Rightarrow> bool" where
  "expressible profile (Latency c) = (1000000 dvd lat_delay c \<and> 1000000 dvd lat_jitter c \<and> lat_max_buffer_bytes c = 65536)"
| "expressible profile (Bandwidth c) = (1024 dvd bytes_per_second c \<and> burst_bytes c = 65536)"
| "expressible profile (Blackhole c) = (case close_after c of None \<Rightarrow> True | Some d \<Rightarrow> 0 < d \<and> 1000000 dvd d)"
| "expressible profile (LimitData c) = True"
| "expressible profile (SlowClose c) = (1000000 dvd sc_delay c)"
| "expressible profile (Slice c) = (1000 dvd slice_delay c)"
| "expressible profile (Disconnect c) = (1000000 dvd disc_after c \<and> disc_hard_reset c)"
| "expressible profile (StreamLoss c) = accepts_packet_loss profile"

text \<open>The numbers of a fault are \<^verbatim>\<open>u64\<close> values.\<close>

fun kind_in_u64 :: "fault_kind \<Rightarrow> bool" where
  "kind_in_u64 (Bandwidth c) = (bytes_per_second c \<le> U64_MAX)"
| "kind_in_u64 (LimitData c) = (limit_bytes c \<le> U64_MAX)"
| "kind_in_u64 (Slice c) = (average_size c \<le> U64_MAX \<and> variation c \<le> U64_MAX)"
| "kind_in_u64 _ = True"

definition kind_ok :: "fault_kind \<Rightarrow> bool" where
  "kind_ok k = (\<not> kind_duration_too_long k \<and> kind_bound_error k = None \<and> kind_in_u64 k)"

lemma day_in_millis: "d \<le> MAX_STREAM_FAULT_DURATION \<Longrightarrow> min (d div 1000000) U64_MAX = d div 1000000"
  "d \<le> MAX_STREAM_FAULT_DURATION \<Longrightarrow> min (d div 1000) U64_MAX = d div 1000"
proof -
  assume "d \<le> MAX_STREAM_FAULT_DURATION"
  then have "d \<le> 86400000000000" by (simp add: MAX_STREAM_FAULT_DURATION_def NANOS_PER_SEC_def)
  then have "d \<le> U64_MAX" by (simp add: U64_MAX_def)
  then have "d div 1000000 \<le> U64_MAX" "d div 1000 \<le> U64_MAX" by (meson div_le_dividend le_trans)+
  then show "min (d div 1000000) U64_MAX = d div 1000000" "min (d div 1000) U64_MAX = d div 1000" by simp_all
qed

lemma clamp_unit_ok [simp]: "f64_is_finite p \<Longrightarrow> in_unit_interval p \<Longrightarrow> clamp_unit p = p"
  by (cases p) (auto simp: in_unit_interval_def)

lemma clamp_unit_range [simp]: "f64_is_finite p \<Longrightarrow> f64_is_finite (clamp_unit p) \<and> in_unit_interval (clamp_unit p)"
  by (cases p) (auto simp: in_unit_interval_def F64_ONE_def)

lemma attrs_from_kind_iff: "(\<exists>x. attrs_from_kind k profile = Inr x) \<longleftrightarrow> (\<forall>c. k = StreamLoss c \<longrightarrow> accepts_packet_loss profile)"
  by (cases k) auto

lemma rate_back:
  assumes "1024 dvd n" "0 < n" "n \<le> U64_MAX"
  shows "sat_mul64 (max (((n + 512) mod 2 ^ 64) div 1024) 1) 1024 = n"
proof -
  obtain k where k: "n = 1024 * k" using assms(1) by (elim dvdE)
  then have "0 < k" using assms(2) by simp
  have "1024 * k \<le> 18446744073709551615" using assms(3) k by (simp add: U64_MAX_def)
  then have "k \<le> 18014398509481983" by linarith
  then have "n + 512 < 2 ^ 64" using k by simp
  moreover have "(1024 * k + 512) div 1024 = k" by simp
  ultimately have "((n + 512) mod 2 ^ 64) div 1024 = k" using k by simp
  then show ?thesis using k assms(3) \<open>0 < k\<close> by (simp add: sat_mul64_def mult.commute max_def)
qed

lemma kind_from_attrs_rate: "kind_from_attrs ''bandwidth'' a profile = Inr (Bandwidth c) \<Longrightarrow> bytes_per_second c \<noteq> U64_MAX \<Longrightarrow> 1024 dvd bytes_per_second c"
  by (auto simp: kind_from_attrs_def sat_mul64_def min_def split: if_splits)

lemma dvd_back: "(d div n) * n = d \<longleftrightarrow> n dvd (d :: nat)"
  by (metis dvd_div_mult_self dvd_triv_right)

lemma rate_back_iff:
  assumes "0 < n" "n \<le> U64_MAX"
  shows "sat_mul64 (max (((n + 512) mod 2 ^ 64) div 1024) 1) 1024 = n \<longleftrightarrow> 1024 dvd n"
proof
  assume *: "sat_mul64 (max (((n + 512) mod 2 ^ 64) div 1024) 1) 1024 = n"
  have "((n + 512) mod 2 ^ 64) div 1024 < 2 ^ 54" by simp
  then have "max (((n + 512) mod 2 ^ 64) div 1024) 1 * 1024 \<le> U64_MAX" unfolding U64_MAX_def by (simp add: max_def)
  then have "max (((n + 512) mod 2 ^ 64) div 1024) 1 * 1024 = n" using * by (simp add: sat_mul64_def)
  then show "1024 dvd n" by (metis dvd_triv_right)
qed (use rate_back assms in auto)

definition timeout_of :: "nat \<Rightarrow> duration option" where
  "timeout_of t = (if 0 < t then Some (millis t) else None)"

lemma positive_quotient: "(0 < d div n \<and> d div n * n = d) \<longleftrightarrow> 0 < d \<and> n dvd (d :: nat)"
proof -
  have "0 < d div n" if "0 < d" "d div n * n = d" using that by (cases "d div n = 0") auto
  moreover have "0 < d" if "0 < d div n" using that by (cases "d = 0") auto
  ultimately show ?thesis using dvd_back [of d n] by blast
qed

lemma if_Some_iff: "(if P then Some x else None) = Some y \<longleftrightarrow> P \<and> x = y"
  by simp

lemma timeout_back: "timeout_of (d div 1000000) = Some d \<longleftrightarrow> 0 < d \<and> 1000000 dvd d"
proof -
  have "timeout_of (d div 1000000) = Some d \<longleftrightarrow> 0 < d div 1000000 \<and> d div 1000000 * 1000000 = d"
    unfolding timeout_of_def by (rule if_Some_iff)
  then show ?thesis by (simp only: positive_quotient)
qed

lemma kind_bandwidth: "kind_from_attrs ''bandwidth'' (default_attributes\<lparr>ta_rate := Some r\<rparr>) profile =
    Inr (Bandwidth \<lparr>bytes_per_second = sat_mul64 (max r 1) 1024, burst_bytes = 65536\<rparr>)"
  by (simp add: kind_from_attrs_def)

lemma kind_limit: "kind_from_attrs ''limit_data'' (default_attributes\<lparr>ta_bytes := Some n\<rparr>) profile = Inr (LimitData \<lparr>limit_bytes = max n 1\<rparr>)"
  by (simp add: kind_from_attrs_def)

lemma kind_slow_close: "kind_from_attrs ''slow_close'' (default_attributes\<lparr>ta_delay := Some n\<rparr>) profile = Inr (SlowClose \<lparr>sc_delay = millis n\<rparr>)"
  by (simp add: kind_from_attrs_def)

lemma kind_slicer: "kind_from_attrs ''slicer'' (default_attributes\<lparr>ta_average_size := Some n, ta_size_variation := Some v, ta_delay := Some d\<rparr>) profile =
    Inr (Slice \<lparr>average_size = max n 1, variation = v, slice_delay = micros d\<rparr>)"
  by (simp add: kind_from_attrs_def)

lemma kind_reset_peer: "kind_from_attrs ''reset_peer'' (default_attributes\<lparr>ta_timeout := Some n\<rparr>) profile =
    Inr (Disconnect \<lparr>disc_after = millis n, disc_hard_reset = True\<rparr>)"
  by (simp add: kind_from_attrs_def)

lemma kind_packet_loss:
  assumes "accepts_packet_loss profile" "f64_is_finite p \<and> in_unit_interval p" "f64_is_finite q \<and> in_unit_interval q"
  shows "kind_from_attrs ''packet_loss'' (default_attributes\<lparr>ta_loss_rate := Some p, ta_correlation := Some q\<rparr>) profile =
    Inr (StreamLoss \<lparr>loss_rate = p, correlation = q\<rparr>)"
  using assms by (simp add: kind_from_attrs_def probability_new_def)

lemma kind_timeout: "kind_from_attrs ''timeout'' (default_attributes\<lparr>ta_timeout := Some t\<rparr>) profile = Inr (Blackhole \<lparr>close_after = timeout_of t\<rparr>)"
  by (simp add: kind_from_attrs_def timeout_of_def)

lemma kind_roundtrip:
  assumes "kind_ok k" "attrs_from_kind k profile = Inr (ty, a)"
  shows "kind_from_attrs ty a profile = Inr k \<longleftrightarrow> expressible profile k"
proof (cases k)
  case (Latency c)
  then have "lat_delay c \<le> MAX_STREAM_FAULT_DURATION" "lat_jitter c \<le> MAX_STREAM_FAULT_DURATION"
    using assms(1) by (simp_all add: kind_ok_def duration_exceeds_max_def)
  note m = this [THEN day_in_millis(1)]
  show ?thesis using assms(2) Latency m by (cases c) (auto simp: kind_from_attrs_def dvd_back)
next
  case (Bandwidth c)
  then have "0 < bytes_per_second c" "bytes_per_second c \<le> U64_MAX" using assms(1) by (auto simp: kind_ok_def split: if_splits)
  note rate = rate_back_iff [OF this]
  have "ty = ''bandwidth''" "a = default_attributes\<lparr>ta_rate := Some (max (((bytes_per_second c + 512) mod 2 ^ 64) div 1024) 1)\<rparr>"
    using assms(2) Bandwidth by simp_all
  then have "kind_from_attrs ty a profile = Inr (Bandwidth \<lparr>bytes_per_second =
      sat_mul64 (max (((bytes_per_second c + 512) mod 2 ^ 64) div 1024) 1) 1024, burst_bytes = 65536\<rparr>)"
    by (simp only: kind_bandwidth max.assoc max.idem)
  then show ?thesis using rate Bandwidth by (cases c) auto
next
  case (Blackhole c)
  show ?thesis
  proof (cases "close_after c")
    case (Some d)
    then have "min (d div 1000000) U64_MAX = d div 1000000"
      using day_in_millis(1) assms(1) Blackhole by (simp add: kind_ok_def duration_exceeds_max_def)
    then have "ty = ''timeout''" "a = default_attributes\<lparr>ta_timeout := Some (d div 1000000)\<rparr>" using assms(2) Blackhole Some by simp_all
    then have "kind_from_attrs ty a profile = Inr (Blackhole \<lparr>close_after = timeout_of (d div 1000000)\<rparr>)" by (simp only: kind_timeout)
    then have "kind_from_attrs ty a profile = Inr k \<longleftrightarrow> timeout_of (d div 1000000) = Some d" using Blackhole Some by (cases c) auto
    then show ?thesis unfolding timeout_back using Blackhole Some by simp
  qed (use assms(2) Blackhole in \<open>cases c; auto simp: kind_from_attrs_def\<close>)
next
  case (LimitData c)
  then have "0 < limit_bytes c" using assms(1) by (auto simp: kind_ok_def split: if_splits)
  moreover have "kind_from_attrs ty a profile = Inr (LimitData \<lparr>limit_bytes = max (limit_bytes c) 1\<rparr>)"
    using assms(2) LimitData kind_limit by force
  ultimately show ?thesis using LimitData by (cases c) (simp add: max_def)
next
  case (SlowClose c)
  then have "sc_delay c \<le> MAX_STREAM_FAULT_DURATION" using assms(1) by (simp add: kind_ok_def duration_exceeds_max_def)
  then have "kind_from_attrs ty a profile = Inr (SlowClose \<lparr>sc_delay = sc_delay c div 1000000 * 1000000\<rparr>)"
    using assms(2) SlowClose kind_slow_close day_in_millis(1) by force
  then show ?thesis using SlowClose dvd_back by (cases c) simp
next
  case (Slice c)
  then have "slice_delay c \<le> MAX_STREAM_FAULT_DURATION" "0 < average_size c"
    using assms(1) by (auto simp: kind_ok_def duration_exceeds_max_def split: if_splits)
  moreover from this have "kind_from_attrs ty a profile =
      Inr (Slice \<lparr>average_size = max (average_size c) 1, variation = variation c, slice_delay = slice_delay c div 1000 * 1000\<rparr>)"
    using assms(2) Slice kind_slicer day_in_millis(2) by force
  ultimately show ?thesis using Slice dvd_back by (cases c) (simp add: max_def)
next
  case (Disconnect c)
  then have "disc_after c \<le> MAX_STREAM_FAULT_DURATION" using assms(1) by (simp add: kind_ok_def duration_exceeds_max_def)
  then have "kind_from_attrs ty a profile = Inr (Disconnect \<lparr>disc_after = disc_after c div 1000000 * 1000000, disc_hard_reset = True\<rparr>)"
    using assms(2) Disconnect kind_reset_peer day_in_millis(1) by force
  then show ?thesis using Disconnect dvd_back by (cases c) auto
next
  case (StreamLoss c)
  then have "f64_is_finite (loss_rate c) \<and> in_unit_interval (loss_rate c)" "f64_is_finite (correlation c) \<and> in_unit_interval (correlation c)"
    using assms(1) by (auto simp: kind_ok_def split: if_splits)
  moreover have "accepts_packet_loss profile" using assms(2) StreamLoss by (simp split: if_splits)
  moreover have "ty = ''packet_loss''" "a = default_attributes\<lparr>ta_loss_rate := Some (loss_rate c), ta_correlation := Some (correlation c)\<rparr>"
    using assms(2) StreamLoss by (simp_all split: if_splits)
  ultimately show ?thesis using StreamLoss kind_packet_loss [of profile "loss_rate c" "correlation c"] by (cases c) simp
qed

section \<open>JSON\<close>

lemma read_one:
  "n \<le> U64_MAX \<Longrightarrow> json_attributes (attributes_object ''bandwidth'' (default_attributes\<lparr>ta_rate := Some n\<rparr>)) = Some (default_attributes\<lparr>ta_rate := Some n\<rparr>)"
  "n \<le> U64_MAX \<Longrightarrow> json_attributes (attributes_object ''timeout'' (default_attributes\<lparr>ta_timeout := Some n\<rparr>)) = Some (default_attributes\<lparr>ta_timeout := Some n\<rparr>)"
  "n \<le> U64_MAX \<Longrightarrow> json_attributes (attributes_object ''reset_peer'' (default_attributes\<lparr>ta_timeout := Some n\<rparr>)) = Some (default_attributes\<lparr>ta_timeout := Some n\<rparr>)"
  "n \<le> U64_MAX \<Longrightarrow> json_attributes (attributes_object ''limit_data'' (default_attributes\<lparr>ta_bytes := Some n\<rparr>)) = Some (default_attributes\<lparr>ta_bytes := Some n\<rparr>)"
  "n \<le> U64_MAX \<Longrightarrow> json_attributes (attributes_object ''slow_close'' (default_attributes\<lparr>ta_delay := Some n\<rparr>)) = Some (default_attributes\<lparr>ta_delay := Some n\<rparr>)"
  by (simp_all add: attributes_object_def)

lemma read_latency:
  assumes "n \<le> U64_MAX" "m \<le> U64_MAX"
  shows "json_attributes (attributes_object ''latency'' (default_attributes\<lparr>ta_latency := Some n, ta_jitter := Some m\<rparr>)) =
    Some (default_attributes\<lparr>ta_latency := Some n, ta_jitter := Some m\<rparr>)"
  using assms by (simp add: attributes_object_def)

lemma read_slicer:
  assumes "n \<le> U64_MAX" "m \<le> U64_MAX" "d \<le> U64_MAX"
  shows "json_attributes (attributes_object ''slicer'' (default_attributes\<lparr>ta_average_size := Some n, ta_size_variation := Some m, ta_delay := Some d\<rparr>)) =
    Some (default_attributes\<lparr>ta_average_size := Some n, ta_size_variation := Some m, ta_delay := Some d\<rparr>)"
  using assms by (simp add: attributes_object_def)

lemma read_loss:
  "json_attributes (attributes_object ''packet_loss'' (default_attributes\<lparr>ta_loss_rate := Some p, ta_correlation := Some q\<rparr>)) =
    Some (default_attributes\<lparr>ta_loss_rate := Some p, ta_correlation := Some q\<rparr>)"
  by (simp add: attributes_object_def)

lemma attributes_read_back:
  assumes "kind_in_u64 k" "attrs_from_kind k profile = Inr (ty, a)"
  shows "json_attributes (attributes_object ty a) = Some a"
proof -
  have rate: "max (((n + 512) mod 2 ^ 64) div 1024) 1 \<le> U64_MAX" for n
  proof -
    have "((n + 512) mod 2 ^ 64) div 1024 \<le> (n + 512) mod 2 ^ 64" by (rule div_le_dividend)
    also have "\<dots> \<le> U64_MAX" by (simp add: U64_MAX_def)
    finally show ?thesis by (simp add: U64_MAX_def)
  qed
  have cut: "min n U64_MAX \<le> U64_MAX" for n by (rule min.cobounded2)
  show ?thesis
  proof (cases k)
    case (Bandwidth c)
    then show ?thesis using assms(2) read_one(1) [OF rate, of "bytes_per_second c"] by auto
  next
    case (Blackhole c)
    have "(case close_after c of None \<Rightarrow> 0 | Some after \<Rightarrow> min (after div 1000000) U64_MAX) \<le> U64_MAX"
      using cut by (cases "close_after c") simp_all
    from read_one(2) [OF this] show ?thesis using assms(2) Blackhole by auto
  next
    case (StreamLoss c)
    then show ?thesis using assms(2) by (auto simp: read_loss split: if_splits)
  next
    case (Latency c)
    then show ?thesis using assms(2) read_latency [OF cut cut] by auto
  next
    case (LimitData c)
    then show ?thesis using assms read_one(4) by auto
  next
    case (SlowClose c)
    then show ?thesis using assms(2) read_one(5) [OF cut] by auto
  next
    case (Slice c)
    then show ?thesis using assms read_slicer [OF _ _ cut] by auto
  next
    case (Disconnect c)
    then show ?thesis using assms(2) read_one(3) [OF cut] by auto
  qed
qed

definition toxic_of :: "direction \<Rightarrow> fault_spec \<Rightarrow> string \<Rightarrow> toxic_attributes \<Rightarrow> toxic" where
  "toxic_of dir f ty a = \<lparr>tx_name = Some (fs_id f), tx_type = ty, tx_stream = direction_as_str dir, tx_toxicity = fs_probability f, tx_attributes = a\<rparr>"

lemma toxic_read_back:
  assumes "kind_in_u64 (fs_kind f)" "attrs_from_kind (fs_kind f) profile = Inr (ty, a)" "fault_to_toxic dir f profile = Inr v"
  shows "toxic_from_json v = Some (toxic_of dir f ty a)"
  using attributes_read_back [OF assms(1,2)] assms(2,3) by (auto simp: fault_to_toxic_def toxic_of_def)

lemma direction_stream [simp]:
  "eq_ignore_ascii_case ''upstream'' ''upstream''" "\<not> eq_ignore_ascii_case ''downstream'' ''upstream''"
  "eq_ignore_ascii_case ''downstream'' ''downstream''"
  by (simp_all add: eq_ignore_ascii_case_def ascii_lower_def Let_def)

lemma attrs_type: "attrs_from_kind k profile = Inr (ty, a) \<Longrightarrow> ty \<in> set toxic_types \<and> (ty = ''packet_loss'' \<longrightarrow> accepts_packet_loss profile)"
  by (cases k) (auto simp: toxic_types_def split: if_splits)

definition fault_ok :: "fault_spec \<Rightarrow> bool" where
  "fault_ok f = (kind_ok (fs_kind f) \<and> probability_ok f \<and> fs_id f \<noteq> [] \<and> length (fs_id f) \<le> 128)"

lemma to_fault_back:
  assumes "fault_ok f" "attrs_from_kind (fs_kind f) profile = Inr (ty, a)"
  shows "to_fault_with_profile profile (toxic_of dir f ty a) = Inr (dir, f) \<longleftrightarrow> expressible profile (fs_kind f)"
proof -
  have ty: "ty \<in> set toxic_types" "ty = ''packet_loss'' \<Longrightarrow> accepts_packet_loss profile" using attrs_type [OF assms(2)] by blast+
  have id: "fault_id_new (toxic_fault_name (toxic_of dir f ty a) dir) = Inr (fs_id f)"
    using assms(1) by (simp add: toxic_fault_name_def toxic_of_def fault_ok_def fault_id_new_def)
  have p: "clamp_toxicity (fs_probability f) = Inr (fs_probability f)" "probability_new (fs_probability f) = Inr (fs_probability f)"
    using assms(1) by (simp_all add: fault_ok_def probability_ok_def clamp_toxicity_def probability_new_def)
  have "to_fault_with_profile profile (toxic_of dir f ty a) =
    (case kind_from_attrs ty a profile of Inl e \<Rightarrow> Inl (CompatInvalid (cx_message e))
       | Inr kind \<Rightarrow> Inr (dir, \<lparr>fs_id = fs_id f, fs_probability = fs_probability f, fs_kind = kind\<rparr>))"
    using ty id p by (cases dir) (auto simp: to_fault_with_profile_def toxic_of_def split: sum.split)
  moreover have "kind_ok (fs_kind f)" using assms(1) by (simp add: fault_ok_def)
  note kind_roundtrip [OF this assms(2)]
  ultimately show ?thesis by (cases f) (auto split: sum.splits)
qed

text \<open>
  C25. Reading a fault as a toxic and writing the toxic again. The JSON of a fault is accepted as a toxic, and translating it
  gives the same direction and fault exactly when a toxic can express the fault: durations in whole
  milliseconds (microseconds for slices), rates in whole KiB/s, the adapter's buffer and burst sizes, hard
  resets only. Under the strict profile stream loss has no toxic at all.
\<close>

theorem toxic_roundtrip:
  assumes "fault_ok f"
  shows "case fault_to_toxic dir f profile of
      Inl e \<Rightarrow> (\<exists>c. fs_kind f = StreamLoss c) \<and> profile = StrictV2_12 \<and> e = invalid_type
    | Inr v \<Rightarrow> \<exists>t. toxic_from_json v = Some t \<and>
        (to_fault_with_profile profile t = Inr (dir, f) \<longleftrightarrow> expressible profile (fs_kind f))"
proof (cases "attrs_from_kind (fs_kind f) profile")
  case (Inl e)
  then show ?thesis by (cases "fs_kind f"; cases profile) (auto simp: fault_to_toxic_def)
next
  case (Inr x)
  obtain ty a where x: "x = (ty, a)" by (cases x)
  obtain v where v: "fault_to_toxic dir f profile = Inr v" using Inr x by (simp add: fault_to_toxic_def)
  have "kind_in_u64 (fs_kind f)" using assms by (simp add: fault_ok_def kind_ok_def)
  from toxic_read_back [OF this Inr [unfolded x] v] to_fault_back [OF assms Inr [unfolded x], of dir] v show ?thesis by auto
qed

definition slow_fault :: fault_spec where
  "slow_fault = \<lparr>fs_id = ''slow'', fs_probability = Fin F64_ONE, fs_kind = Latency \<lparr>lat_delay = 5000000, lat_jitter = 0, lat_max_buffer_bytes = 65536\<rparr>\<rparr>"

lemma slow_fault_ok: "fault_ok slow_fault" "expressible profile (fs_kind slow_fault)"
  by (simp_all add: fault_ok_def slow_fault_def kind_ok_def duration_exceeds_max_def MAX_STREAM_FAULT_DURATION_def NANOS_PER_SEC_def
      probability_ok_def in_unit_interval_def F64_ONE_def)

theorem toxic_roundtrip_witness:
  "\<exists>v t. fault_to_toxic Upstream slow_fault StrictV2_12 = Inr v \<and> toxic_from_json v = Some t \<and>
     to_fault_with_profile StrictV2_12 t = Inr (Upstream, slow_fault)"
proof -
  have "\<exists>v. fault_to_toxic Upstream slow_fault StrictV2_12 = Inr v" by (simp add: fault_to_toxic_def slow_fault_def)
  with toxic_roundtrip [OF slow_fault_ok(1), where dir = Upstream and profile = StrictV2_12] slow_fault_ok(2) show ?thesis by auto
qed

section \<open>Operations\<close>

text \<open>What a translated toxic is, before the control plane sees it.\<close>

lemma update_fault_success:
  assumes "control_ok c" "update_fault proxy i patch c = (Inr (dir, spec, g), c')"
  shows "\<exists>entry existing. map_of (ct_proxies c) proxy = Some entry \<and> plan_get (pub_plan (spec_policy dir (mp_spec entry))) i = Some existing \<and>
    spec = \<lparr>fs_id = fs_id existing, fs_probability = (case fp_probability patch of None \<Rightarrow> fs_probability existing | Some p \<Rightarrow> p),
            fs_kind = (case fp_kind patch of None \<Rightarrow> fs_kind existing | Some k \<Rightarrow> k)\<rparr> \<and>
    c' = committed proxy dir \<lparr>plan_faults = replace_first spec (plan_faults (pub_plan (spec_policy dir (mp_spec entry))))\<rparr>
      (seed_namespace (spec_policy dir (mp_spec entry))) c"
proof -
  obtain entry where e: "map_of (ct_proxies c) proxy = Some entry"
    "update_fault_in [Upstream, Downstream] proxy entry i patch c = (Inr (dir, spec, g), c')"
    using assms(2) unfolding update_fault_def by (auto split: option.splits if_splits)
  from update_fault_in_edits [OF assms(1) e] e(1) show ?thesis by auto
qed

lemma replace_first_get: "plan_get \<lparr>plan_faults = fs\<rparr> (fs_id f) = Some g \<Longrightarrow> plan_get \<lparr>plan_faults = replace_first f fs\<rparr> (fs_id f) = Some f"
  by (induction fs) (auto simp: plan_get_def split: if_splits)

lemma plan_get_id: "plan_get p i = Some f \<Longrightarrow> fs_id f = i"
  by (auto simp: plan_get_def find_Some_iff)

lemma update_prefers_upstream:
  assumes "update_fault_in [Upstream, Downstream] proxy entry i patch c = (Inr (dir, spec, g), c')"
    "plan_get (pub_plan (spec_policy Upstream (mp_spec entry))) i \<noteq> None"
  shows "dir = Upstream"
  using assms by (auto simp: Let_def split: sum.splits prod.splits option.splits)

lemma update_fault_found:
  assumes "control_ok c" "get_fault proxy i c = Some (dir, f)"
    "update_fault proxy i \<lparr>fp_probability = Some p, fp_kind = Some k\<rparr> c = (Inr (dir', spec, g), c')"
  shows "dir' = dir \<and> spec = \<lparr>fs_id = i, fs_probability = p, fs_kind = k\<rparr> \<and> get_fault proxy i c' = Some (dir, spec)"
proof -
  obtain entry existing where u: "map_of (ct_proxies c) proxy = Some entry"
    "plan_get (pub_plan (spec_policy dir' (mp_spec entry))) i = Some existing"
    "spec = \<lparr>fs_id = fs_id existing, fs_probability = p, fs_kind = k\<rparr>"
    "c' = committed proxy dir' \<lparr>plan_faults = replace_first spec (plan_faults (pub_plan (spec_policy dir' (mp_spec entry))))\<rparr>
      (seed_namespace (spec_policy dir' (mp_spec entry))) c"
    using update_fault_success [OF assms(1,3)] by auto
  have id: "fs_id existing = i" using plan_get_id u(2) by blast
  have "update_fault_in [Upstream, Downstream] proxy entry i \<lparr>fp_probability = Some p, fp_kind = Some k\<rparr> c = (Inr (dir', spec, g), c')"
    using assms(3) u(1) unfolding update_fault_def by (simp del: update_fault_in.simps split: if_splits)
  note up = update_prefers_upstream [OF this]
  have dir: "dir' = dir" "dir = Downstream \<Longrightarrow> plan_get (pub_plan (spec_policy Upstream (mp_spec entry))) i = None"
    using assms(2) up u(2) unfolding get_fault_as [OF u(1)] by (cases dir'; auto split: option.splits)+
  have "plan_get \<lparr>plan_faults = replace_first spec (plan_faults (pub_plan (spec_policy dir (mp_spec entry))))\<rparr> i = Some spec"
    using replace_first_get [of "plan_faults (pub_plan (spec_policy dir (mp_spec entry)))" spec existing] u(2,3) id dir(1) by (simp add: plan_get_def)
  then have "get_fault proxy i c' = Some (dir, spec)"
    using dir u(1) unfolding u(4) by (cases dir) (simp_all add: get_fault_def committed_lookup next_policy_def spec_policy_other)
  then show ?thesis using dir(1) u(3) id by simp
qed

text \<open>
  C26. Updating only the toxicity. The update always rewrites the kind of the fault from its toxic attributes: the fault keeps
  its direction and name and gets the clamped toxicity, and it keeps its behaviour exactly when a toxic can
  express it. A graceful disconnect, for example, becomes a hard reset, and a custom burst or buffer size is lost.
\<close>

theorem toxicity_update:
  assumes "control_ok c" "get_fault proxy name c = Some (dir, f)" "kind_ok (fs_kind f)"
    "update_toxic profile proxy name \<lparr>tu_type = ty, tu_stream = st, tu_toxicity = Some x, tu_attributes = None\<rparr> c = (Inr v, c')"
  shows "\<exists>f'. get_fault proxy name c' = Some (dir, f') \<and> fs_id f' = name \<and> clamp_toxicity x = Inr (fs_probability f') \<and>
    get_toxic profile proxy name c' = Inr v \<and> (fs_kind f' = fs_kind f \<longleftrightarrow> expressible profile (fs_kind f))"
proof -
  obtain ty a where a: "attrs_from_kind (fs_kind f) profile = Inr (ty, a)"
    using assms(2,4) by (auto simp: update_toxic_def split: sum.splits)
  obtain k where k: "kind_from_attrs ty a profile = Inr k"
    using assms(2,4) a by (auto simp: update_toxic_def Let_def split: sum.splits)
  obtain p where p: "clamp_toxicity x = Inr p"
    using assms(2,4) a k by (auto simp: update_toxic_def Let_def split: sum.splits)
  obtain dir' spec g where u: "update_fault proxy name \<lparr>fp_probability = Some p, fp_kind = Some k\<rparr> c = (Inr (dir', spec, g), c')"
    "fault_to_toxic dir' spec profile = Inr v"
    using assms(2,4) a k p by (auto simp: update_toxic_def Let_def split: sum.splits prod.splits)
  from update_fault_found [OF assms(1,2) u(1)]
  have "dir' = dir" "spec = \<lparr>fs_id = name, fs_probability = p, fs_kind = k\<rparr>" "get_fault proxy name c' = Some (dir, spec)" by auto
  moreover have "k = fs_kind f \<longleftrightarrow> expressible profile (fs_kind f)" using kind_roundtrip [OF assms(3) a] k by auto
  ultimately show ?thesis using p u(2) by (auto simp: get_toxic_def)
qed

definition graceful :: fault_spec where
  "graceful = \<lparr>fs_id = ''bye'', fs_probability = Fin 0, fs_kind = Disconnect \<lparr>disc_after = 0, disc_hard_reset = False\<rparr>\<rparr>"

definition graceful_plane :: control where
  "graceful_plane = committed ''db'' Upstream \<lparr>plan_faults = [graceful]\<rparr> 6 example_imported"

lemma plan_of_one: "probability_ok f \<Longrightarrow> spec_ok f \<Longrightarrow> plan_ok \<lparr>plan_faults = [f]\<rparr>"
  by (simp add: plan_ok_def MAX_STREAM_FAULTS_def)

lemma graceful_ok: "probability_ok graceful" "spec_ok graceful" "kind_ok (fs_kind graceful)"
  by (simp_all add: graceful_def probability_ok_def spec_ok_def kind_ok_def in_unit_interval_def F64_ONE_def duration_exceeds_max_def)

lemma graceful_plane_ok: "control_ok graceful_plane" "get_fault ''db'' ''bye'' graceful_plane = Some (Upstream, graceful)"
proof -
  have able: "committable ''db'' Upstream \<lparr>plan_faults = [graceful]\<rparr> example_imported"
    using plan_of_one [OF graceful_ok(1,2)] by (simp add: committable_def example_imported_def new_entry_def U64_MAX_def)
  show "control_ok graceful_plane" unfolding graceful_plane_def by (rule committed_ok [OF example_imported_ok able])
  show "get_fault ''db'' ''bye'' graceful_plane = Some (Upstream, graceful)"
    by (simp add: get_fault_def graceful_plane_def committed_lookup example_imported_def next_policy_def plan_get_def graceful_def spec_policy_other)
qed

lemma graceful_updated:
  "\<exists>v c'. update_toxic StrictV2_12 ''db'' ''bye'' \<lparr>tu_type = None, tu_stream = None, tu_toxicity = Some (Fin 0), tu_attributes = None\<rparr> graceful_plane = (Inr v, c')"
proof -
  let ?hard = "\<lparr>fs_id = ''bye'', fs_probability = Fin 0, fs_kind = Disconnect \<lparr>disc_after = 0, disc_hard_reset = True\<rparr>\<rparr>"
  have "probability_ok ?hard" "spec_ok ?hard"
    by (simp_all add: probability_ok_def spec_ok_def in_unit_interval_def F64_ONE_def duration_exceeds_max_def)
  from plan_of_one [OF this] have ok: "fault_plan_new [?hard] = Inr \<lparr>plan_faults = [?hard]\<rparr>" "plan_validate \<lparr>plan_faults = [?hard]\<rparr> = Inr ()"
    by (simp_all add: fault_plan_new_iff plan_ok_def plan_validate_iff)
  have unit: "in_unit_interval (Fin 0)" by (simp add: in_unit_interval_def F64_ONE_def)
  have entry: "\<exists>entry. map_of (ct_proxies graceful_plane) ''db'' = Some entry \<and>
      spec_policy Upstream (mp_spec entry) = next_policy \<lparr>plan_faults = [graceful]\<rparr> 6 \<lparr>generation = 1, pub_plan = empty_plan, seed_namespace = 6\<rparr>"
    using example_live_simps(2) [of Upstream]
    by (simp add: graceful_plane_def committed_lookup example_imported_def new_entry_def spec_policy_other)
  then obtain entry where entry: "map_of (ct_proxies graceful_plane) ''db'' = Some entry"
    "spec_policy Upstream (mp_spec entry) = next_policy \<lparr>plan_faults = [graceful]\<rparr> 6 \<lparr>generation = 1, pub_plan = empty_plan, seed_namespace = 6\<rparr>" by blast
  have "\<exists>g c'. update_fault ''db'' ''bye'' \<lparr>fp_probability = Some (Fin 0), fp_kind = Some (fs_kind ?hard)\<rparr> graceful_plane = (Inr (Upstream, ?hard, g), c')"
    using ok unit entry by (simp add: update_fault_def next_policy_def plan_get_def graceful_def Let_def probability_new_def publish_and_mirror_def
        publish_def sat_add64_def U64_MAX_def case_prod_unfold)
  then obtain g c' where "update_fault ''db'' ''bye'' \<lparr>fp_probability = Some (Fin 0), fp_kind = Some (fs_kind ?hard)\<rparr> graceful_plane = (Inr (Upstream, ?hard, g), c')"
    by blast
  moreover have "fs_kind graceful = Disconnect \<lparr>disc_after = 0, disc_hard_reset = False\<rparr>" by (simp add: graceful_def)
  ultimately show ?thesis using graceful_plane_ok(2) kind_reset_peer [of 0 StrictV2_12]
    by (simp add: update_toxic_def Let_def clamp_toxicity_def F64_ONE_def fault_to_toxic_def)
qed

theorem toxicity_update_witness:
  "\<exists>v c' f'. update_toxic StrictV2_12 ''db'' ''bye'' \<lparr>tu_type = None, tu_stream = None, tu_toxicity = Some (Fin 0), tu_attributes = None\<rparr> graceful_plane = (Inr v, c') \<and>
     get_fault ''db'' ''bye'' c' = Some (Upstream, f') \<and> fs_kind f' \<noteq> fs_kind graceful"
proof -
  obtain v c' where u: "update_toxic StrictV2_12 ''db'' ''bye'' \<lparr>tu_type = None, tu_stream = None, tu_toxicity = Some (Fin 0), tu_attributes = None\<rparr> graceful_plane = (Inr v, c')"
    using graceful_updated by blast
  have "\<not> expressible StrictV2_12 (fs_kind graceful)" by (simp add: graceful_def)
  with toxicity_update [OF graceful_plane_ok graceful_ok(3) u] u show ?thesis by blast
qed

section \<open>Whole proxies\<close>

lemma expressible_renders:
  assumes "fault_ok f" "expressible profile (fs_kind f)"
  shows "\<exists>v t. fault_to_toxic dir f profile = Inr v \<and> toxic_from_json v = Some t \<and> to_fault_with_profile profile t = Inr (dir, f)"
proof -
  obtain ty a where a: "attrs_from_kind (fs_kind f) profile = Inr (ty, a)" using assms(2) by (cases "fs_kind f") auto
  then obtain v where v: "fault_to_toxic dir f profile = Inr v" by (simp add: fault_to_toxic_def)
  have "kind_in_u64 (fs_kind f)" using assms(1) by (simp add: fault_ok_def kind_ok_def)
  from toxic_read_back [OF this a v] to_fault_back [OF assms(1) a, of dir] assms(2) v show ?thesis by auto
qed

lemma render_faults_back:
  assumes "list_all (\<lambda>f. fault_ok f \<and> expressible profile (fs_kind f)) fs"
  shows "\<exists>vs ts. render_faults dir profile fs out = Inr (out @ vs) \<and> map toxic_from_json vs = map Some ts \<and>
    (\<forall>rest up down. split_toxics profile (ts @ rest) up down =
      split_toxics profile rest (up @ (if dir = Upstream then fs else [])) (down @ (if dir = Upstream then [] else fs)))"
  using assms
proof (induction fs arbitrary: out)
  case (Cons f fs)
  obtain v t where v: "fault_to_toxic dir f profile = Inr v" "toxic_from_json v = Some t" "to_fault_with_profile profile t = Inr (dir, f)"
    using expressible_renders [of f profile dir] Cons.prems by auto
  obtain vs ts where "render_faults dir profile fs (out @ [v]) = Inr ((out @ [v]) @ vs)" "map toxic_from_json vs = map Some ts"
    "\<forall>rest up down. split_toxics profile (ts @ rest) up down =
      split_toxics profile rest (up @ (if dir = Upstream then fs else [])) (down @ (if dir = Upstream then [] else fs))"
    using Cons.IH [of "out @ [v]"] Cons.prems by auto
  with v show ?case by (intro exI [of _ "v # vs"] exI [of _ "t # ts"]) auto
qed auto

text \<open>
  Export and import of a proxy. When every fault of a proxy can be expressed as a toxic, the toxics listed for the
  proxy can be read, and translating them in the listed order rebuilds exactly the two plans.
\<close>

theorem listed_toxics_rebuild_plans:
  assumes "plan_ok up" "plan_ok down"
    "list_all (\<lambda>f. fault_ok f \<and> expressible profile (fs_kind f)) (plan_faults up @ plan_faults down)"
  shows "\<exists>vs ts. render_both profile (plan_faults up) (plan_faults down) = Inr vs \<and> map toxic_from_json vs = map Some ts \<and>
    translate_toxics profile ts = Inr (up, down)"
proof -
  obtain vs ts where one: "render_faults Upstream profile (plan_faults up) [] = Inr vs" "map toxic_from_json vs = map Some ts"
    "\<And>rest u d. split_toxics profile (ts @ rest) u d = split_toxics profile rest (u @ plan_faults up) d"
    using render_faults_back [of profile "plan_faults up" Upstream "[]"] assms(3) by auto
  obtain vs' ts' where two: "render_faults Downstream profile (plan_faults down) vs = Inr (vs @ vs')" "map toxic_from_json vs' = map Some ts'"
    "\<And>rest u d. split_toxics profile (ts' @ rest) u d = split_toxics profile rest u (d @ plan_faults down)"
    using render_faults_back [of profile "plan_faults down" Downstream vs] assms(3) by auto
  have "split_toxics profile (ts @ ts') [] [] = Inr (plan_faults up, plan_faults down)"
    using one(3) [of ts' "[]" "[]"] two(3) [of "[]" "plan_faults up" "[]"] by simp
  moreover have "fault_plan_new (plan_faults up) = Inr up" "fault_plan_new (plan_faults down) = Inr down"
    using assms(1,2) by (simp_all add: fault_plan_new_iff plan_ok_def)
  ultimately show ?thesis using one(1,2) two(1,2)
    by (intro exI [of _ "vs @ vs'"] exI [of _ "ts @ ts'"]) (simp add: render_both_def translate_toxics_def)
qed

theorem listed_toxics_rebuild_plans_witness:
  "\<exists>vs ts. render_both StrictV2_12 [slow_fault] [] = Inr vs \<and> map toxic_from_json vs = map Some ts \<and>
    translate_toxics StrictV2_12 ts = Inr (\<lparr>plan_faults = [slow_fault]\<rparr>, empty_plan)"
proof -
  have "probability_ok slow_fault" "spec_ok slow_fault" using slow_fault_ok(1) by (simp_all add: fault_ok_def kind_ok_def spec_ok_def)
  then have up: "plan_ok \<lparr>plan_faults = [slow_fault]\<rparr>" by (rule plan_of_one)
  have down: "plan_ok empty_plan" by (simp add: plan_ok_def empty_plan_def)
  show ?thesis using listed_toxics_rebuild_plans [OF up down, of StrictV2_12] slow_fault_ok by (simp add: empty_plan_def)
qed

end
