(* ===== verification/Spec2Isabelle.thy ===== *)
theory Spec2Isabelle
  imports AssociationRuns AssociationsProps BidirectionalProps DatagramRuns EngineRuns LifecycleProps ListenerProps ScenarioV1Props ServerRuns ToxiproxyProps
begin

text \<open>
  eggchaos injects faults into byte streams and datagrams that pass through a proxy or an embedding
  program. This development models its fault engines, the stream adapters that drive them, the live
  policies that configure them, the schedules that change policies over time, and the server's control
  plane. All paths below are relative to \<^verbatim>\<open>crates/\<close>.

  \<^bold>\<open>How the parts interact.\<close> A \<^emph>\<open>plan\<close> is a validated list of faults. A \<^emph>\<open>live policy\<close> holds the plan in force
  with a generation and a seed namespace and is replaced by publications. A \<^emph>\<open>direction engine\<close> decides, from
  the plan and seeds derived for the connection, what happens to each accepted byte: delay, limit, rate, discard,
  corrupt, terminate. The \<^emph>\<open>chaos stream\<close> wraps a transport and lets writes pass through an engine;
  the \<^emph>\<open>bidirectional stream\<close> has one engine per direction. The \<^emph>\<open>datagram engine\<close> does the same for packets. A
  \<^emph>\<open>schedule\<close> is compiled into a tape of timed publications; the \<^emph>\<open>driver\<close> plays a tape against any target that
  keeps the publication contract. The \<^emph>\<open>server\<close> owns named proxies with two policies each, offers plan edits
  and life-cycle operations on them, and runs scenarios of two versions, recorded in a bounded registry.

  \<^bold>\<open>Theories.\<close>
  \<^item> \<open>Prelude\<close>, \<open>F64\<close>, \<open>OrderedMap\<close>: machine integers with saturation, instants and durations, polls; the
    \<^verbatim>\<open>f64\<close> operations the code uses; association lists with the order of \<^verbatim>\<open>BTreeMap\<close>.
  \<^item> \<open>Rng\<close> (\<^verbatim>\<open>eggchaos-core/src/rng.rs\<close>), \<open>Plan\<close> (\<^verbatim>\<open>plan.rs\<close>), \<open>Policy\<close> (\<^verbatim>\<open>policy.rs\<close>): seed derivation and
    draws; plans and their validation; publications, also as interleaved compare-and-swap steps.
  \<^item> \<open>TokenBucket\<close>, \<open>Engine\<close>, \<open>Accept\<close>, \<open>Drain\<close>, \<open>EngineRuns\<close> (\<^verbatim>\<open>engine.rs\<close>): rate limiting, engine state and decisions, accepting
    input, releasing output, whole runs. Properties: released bytes are the accepted ones in order, every accepted byte is
    counted once, the result does not depend on how the input is cut, deadlines are kept.
  \<^item> \<open>ChaosStream\<close>, \<open>Bidirectional\<close>, \<open>BidirectionalReads\<close>, \<open>BidirectionalProps\<close> (\<^verbatim>\<open>stream.rs\<close>): the poll functions over a
    transport parameter; ownership of written bytes, policy changes as barriers, delivery of reads.
  \<^item> \<open>DatagramPlan\<close>, \<open>Datagram\<close>, \<open>DatagramStages\<close>, \<open>DatagramQueue\<close>, \<open>DatagramAdmit\<close>, \<open>DatagramRuns\<close> (\<^verbatim>\<open>datagram.rs\<close>): plans, stages,
    the queue and its bounds, admission, whole runs.
  \<^item> \<open>Schedule\<close>, \<open>Fingerprint\<close>, \<open>Target\<close>, \<open>Driver\<close>, \<open>DriverRuns\<close>, \<open>DriverRestore\<close>, \<open>DriverProps\<close>, \<open>Gate\<close>, \<open>Experiment\<close>
    (\<^verbatim>\<open>eggchaos-experiment/src\<close>): compilation against a reference expansion, fingerprints, the target contract (locale
    \<open>policy_target\<close>), the driver, cleanup, the start gate, the experiment life cycle.
  \<^item> \<open>Registry\<close> (\<^verbatim>\<open>eggchaos-server/src/runtime/scenario_registry.rs\<close>), \<open>Control\<close>, \<open>ControlProps\<close>, \<open>Lifecycle\<close>, \<open>LifecycleProps\<close>
    (\<^verbatim>\<open>runtime/control.rs\<close>, \<^verbatim>\<open>mod.rs\<close>, \<^verbatim>\<open>supervisor.rs\<close>), \<open>Plane\<close> (\<^verbatim>\<open>control_datagram.rs\<close>), \<open>ScenarioV1\<close>, \<open>ScenarioV1Props\<close>
    (\<^verbatim>\<open>scenario.rs\<close>), \<open>ServerTarget\<close>, \<open>ServerRuns\<close> (\<^verbatim>\<open>scenario_v2/runtime.rs\<close>): the server. Life-cycle operations are tasks with one step per
    lock or await, interleaved with supervisors; plan operations are atomic; scenario runs are sequences of atomic
    calls on a record of operations that is interpreted undisturbed or with arbitrary foreign steps.
  \<^item> \<open>DatagramModel\<close>, \<open>AssociationWorker\<close>, \<open>AssociationAccounts\<close>, \<open>AssociationRuns\<close> (\<^verbatim>\<open>runtime/datagram/model.rs\<close>, \<^verbatim>\<open>association.rs\<close>,
    \<^verbatim>\<open>supervisor.rs\<close>): limits and definitions of datagram proxies, the worker of one association over the two datagram
    engines, the delivery of client datagrams into its bounded channel. Properties: the final record accounts for every
    datagram, the channel and the ingress budget are bounded.
  \<^item> \<open>Associations\<close>, \<open>AssociationsProps\<close> (\<^verbatim>\<open>association.rs\<close>): the table of associations with capacity leases and setup
    reservations, as interleaved steps under its lock. Properties: capacity is exact and bounded, no waiter is stranded.
  \<^item> \<open>DatagramListeners\<close>, \<open>ListenerProps\<close> (\<^verbatim>\<open>runtime/datagram/registry.rs\<close>): create, enable, disable, delete and update of datagram
    proxies as tasks with one step per lock or await. Properties: who owns a listener, and the interleavings that lose one.
  \<^item> \<open>Toxiproxy\<close>, \<open>ToxiproxyProps\<close> (\<^verbatim>\<open>eggchaos-toxiproxy/src/lib.rs\<close>): toxics and their JSON, the translation between toxics and
    faults in both directions, and the toxic operations on the control plane. Properties: round trips of toxics and of whole
    plans, what an update of the toxicity changes.

  \<^bold>\<open>State and effects.\<close> Structs are records, enums datatypes, \<^verbatim>\<open>Result\<close> a sum with the error on the left. Machine words are
  words where bits matter (seeds) and naturals with the saturation or wrap-around written out elsewhere. Time is a
  natural number of nanoseconds, the instants a poll reads are arguments. Strings are the bytes of their UTF-8 encoding.

  \<^bold>\<open>Termination and fuel.\<close> Loops recurse over the data they consume. The read loop of the bidirectional stream is a
  partial function into options, and its returning is proved. The driver returns an option whose \<open>None\<close> is a wait
  for an unrepresentable deadline; that it returns otherwise is proved. No definition uses fuel.

  \<^bold>\<open>Parameters.\<close> The transport under a stream, the clock, sleeps and cancellation of \<^verbatim>\<open>tokio\<close>, its \<^verbatim>\<open>Notify\<close>, SHA-256, whether
  binding a listener succeeds, what a socket sends and receives, and the steps of other tasks are parameters. What is relied on of them is a
  hypothesis of the theorem that needs it.

  \<^bold>\<open>Not modelled.\<close> The sign of zero of \<^verbatim>\<open>f64\<close>. Of the Toxiproxy adapter the operations on whole proxies, which forward to the
  control plane after parsing addresses, and its router. Of the datagram server the read-only listings. The relay between two
  sockets, HTTP routing, the wire types, JSON and TOML syntax, metrics text, logging, the embedding facade, the command line, the
  bindings, benchmarks and fuzz targets: they are I/O, library code or glue around the modelled parts.
\<close>

section \<open>An experiment from source to evidence\<close>

text \<open>
  C31. From source to evidence. A prepared source that is run from the epoch its gate released uses the
  same epoch as every other user of that gate. The events it records are a prefix of the reference expansion
  of the source, none of them early, and the evidence identifies the run: fingerprint, seed, execution key
  and caller identity are those of the source and the caller, and the number of applied events is exact.
\<close>

theorem experiment_end_to_end:
  assumes "prepare sha256 source tg w0 = (Inr px0, w1)" "with_integration_id ident px0 = Inr px"
    and "run_from_epoch sha256 rt tg px epoch w = Some (outcome, evs, w')" "clock_ok rt clock"
    and "gate_reachable nt s" "gs_tasks s driver = Released epoch" "observed (gs_tasks s workload) = Some e"
  shows "e = epoch \<and> schedule_ok source \<and>
    map tape_part evs = map event_part (take (xo_applied outcome) (sn_events (reference_tape source))) \<and>
    list_all (\<lambda>ev. er_applied_elapsed_ns ev = er_scheduled_offset_ns ev + er_late_by_ns ev) evs \<and>
    xe_schedule_fingerprint (xo_evidence outcome) = fingerprint_hex (compiled_fingerprint sha256 (reference_tape source)) \<and>
    xe_seed (xo_evidence outcome) = sc_seed source \<and> xe_execution_key (xo_evidence outcome) = sc_execution_key source \<and>
    xe_integration_id (xo_evidence outcome) = ident \<and> length ident \<le> 128 \<and>
    xe_applied (xo_evidence outcome) = length evs \<and> xe_status (xo_evidence outcome) = xo_status outcome"
proof -
  note px0 = prepareD [OF assms(1)]
  have px: "px = px0\<lparr>px_integration_id := ident\<rparr>" "length ident \<le> 128" using with_integration_idD [OF assms(2)] by simp_all
  obtain dout where d: "drive sha256 rt tg (reference_tape source) (px_fingerprint px) (px_initial px) epoch w = Some (dout, evs, w')"
    "xo_applied outcome = do_applied dout" "xo_status outcome = do_status dout"
    "xo_evidence outcome = \<lparr>xe_compiler_semantics_version = sn_compiler_semantics_version (px_compiled px),
       xe_schedule_fingerprint = fingerprint_hex (px_fingerprint px), xe_seed = sn_seed (px_compiled px),
       xe_execution_key = sn_execution_key (px_compiled px), xe_integration_id = px_integration_id px,
       xe_applied = do_applied dout, xe_status = do_status dout, xe_failure = do_failure dout, xe_cleanup = do_cleanup dout\<rparr>"
    by (rule run_from_epochD [OF assms(3)]) (use px0(2) px(1) in auto)
  obtain l w2 where l: "drive_loop rt tg (reference_tape source) (px_fingerprint px) epoch (sn_events (reference_tape source)) []
      (px_initial px) w = Some (l, w2)" "evs = dl_recorded l" "do_applied dout = length evs" by (rule driveD [OF d(1)])
  have "map tape_part evs = map event_part (take (length evs) (sn_events (reference_tape source)))"
    using drive_loop_prefix [OF l(1)] l(2) by auto
  moreover have "list_all (\<lambda>ev. er_applied_elapsed_ns ev = er_scheduled_offset_ns ev + er_late_by_ns ev) evs"
    using drive_loop_on_time [OF l(1) assms(4) reference_offsets [OF px0(1)]] l(2) by simp
  moreover have "e = epoch"
    using gate_reachable_ok(2) [OF assms(5), of driver epoch] gate_reachable_ok(2) [OF assms(5,7)] assms(6) by simp
  ultimately show ?thesis using px0 px d l(3) by (simp add: reference_tape_identity)
qed

definition api_source :: schedule where
  "api_source = \<lparr>sc_version = 2, sc_seed = 1, sc_execution_key = 2, sc_isolation = Strict, sc_cleanup = Leave,
     sc_phases = [\<lparr>ph_name = None, ph_duration_ns = 5, ph_actions = [SetPlan ''api'' Upstream []]\<rparr>,
                  \<lparr>ph_name = None, ph_duration_ns = 0, ph_actions = [SetPlan ''api'' Upstream []]\<rparr>], sc_repeat = None\<rparr>"

lemma api_source_tape: "reference_tape api_source = api_tape Leave"
  by (simp add: reference_tape_def api_source_def api_tape_def api_event_def expansion_def upt_conv_Cons)

lemma api_source_ok: "schedule_ok api_source"
  by (simp add: schedule_ok_def api_source_def phase_ok_def expansion_def upt_conv_Cons empty_plan_new
      MAX_PHASES_def MAX_PHASE_ACTIONS_def MAX_COMPILED_EVENTS_def U64_MAX_def)

lemma api_source_prepared:
  "prepare (\<lambda>s. []) api_source stream_target api_world =
     (Inr \<lparr>px_compiled = api_tape Leave, px_fingerprint = [], px_initial = api_owned, px_integration_id = ''''\<rparr>, api_world)"
proof -
  have "compile_schedule api_source = Inr (api_tape Leave)" by (simp add: compile_schedule_iff api_source_ok api_source_tape)
  then show ?thesis by (simp add: prepare_def prepare_compiled_def compiled_fingerprint_def api_prepared)
qed

theorem experiment_end_to_end_witness:
  "\<exists>px outcome evs w'. with_integration_id ''ci-42'' \<lparr>px_compiled = api_tape Leave, px_fingerprint = [], px_initial = api_owned,
       px_integration_id = ''''\<rparr> = Inr px \<and>
     run_from_epoch (\<lambda>s. []) ticking stream_target px 0 api_world = Some (outcome, evs, w') \<and>
     length evs = 2 \<and> xe_integration_id (xo_evidence outcome) = ''ci-42'' \<and> xe_seed (xo_evidence outcome) = 1 \<and>
     xe_applied (xo_evidence outcome) = 2"
proof (rule gate_demo_runs [of 0])
  fix s s' assume g: "gate_reachable counting s'" "gs_tasks s' 0 = Started 0" "gs_tasks s' 1 = Released 0"
  define px where "px = \<lparr>px_compiled = api_tape Leave, px_fingerprint = [], px_initial = api_owned, px_integration_id = ''ci-42''\<rparr>"
  have id: "with_integration_id ''ci-42'' \<lparr>px_compiled = api_tape Leave, px_fingerprint = [], px_initial = api_owned,
      px_integration_id = ''''\<rparr> = Inr px"
    by (simp add: with_integration_id_def MAX_EXPERIMENT_IDENTITY_BYTES_def px_def)
  obtain l w1 where l: "drive_loop ticking stream_target (api_tape Leave) [] 0 (sn_events (api_tape Leave)) [] api_owned api_world = Some (l, w1)"
    "map own_generation (dl_recorded l) = [2, 3]" using api_run [of Leave "[]"] by force
  obtain dout w' where "drive (\<lambda>s. []) ticking stream_target (api_tape Leave) [] api_owned 0 api_world = Some (dout, dl_recorded l, w')"
    by (rule drive_of_loop [OF l(1)])
  then obtain outcome where r: "run_from_epoch (\<lambda>s. []) ticking stream_target px 0 api_world = Some (outcome, dl_recorded l, w')"
    by (simp add: run_from_epoch_def px_def)
  have "observed (gs_tasks s' 0) = Some 0" using g(2) by simp
  from experiment_end_to_end [OF api_source_prepared id r ticking_clock g(1,3) this]
  show ?thesis using id r arg_cong [OF l(2), of length] by (auto simp: api_source_def)
qed

end
